(* ===== verification/Prelude.thy ===== *)
theory Prelude
  imports Main "HOL-Library.AList"
begin

text \<open>
  Shared vocabulary of the development.

  Errors: a Python exception is a value of \<open>py_error\<close> (its message text is not modelled), a
  fallible operation returns \<open>'a result\<close>, and \<open>bind_result\<close> is the sequencing of two statements
  of which the first may raise. An operation that raises returns the error only: the state a
  Python object is left in behind an escaping exception is not modelled.

  Loops: \<open>foldM f s xs\<close> is the loop \<open>for x in xs: s = f(s, x)\<close> whose body may raise.

  Dictionaries: a Python \<open>dict\<close> iterates in insertion order and assignment to an existing key
  keeps its position, which is what \<open>AList.update\<close> does on association lists; a dictionary is
  therefore an association list, read by \<open>map_of\<close> and written by \<open>AList.update\<close>.
\<close>

named_theorems result_simps \<open>inversion rules of the result type\<close>

subsection \<open>Exceptions as values\<close>

datatype py_error =
    ValueError | KeyError | IndexError | TypeError | RuntimeError | AssertionError
  | NotImplementedError | ZeroDivisionError | AttributeError | StopIteration | UnboundLocalError

type_synonym 'a result = "py_error + 'a"

definition bind_result :: "'a result \<Rightarrow> ('a \<Rightarrow> 'b result) \<Rightarrow> 'b result" where
  "bind_result r f = (case r of Inl e \<Rightarrow> Inl e | Inr x \<Rightarrow> f x)"

lemma bind_result_Inl [simp, code]: "bind_result (Inl e) f = Inl e"
  by (simp add: bind_result_def)

lemma bind_result_Inr [simp, code]: "bind_result (Inr x) f = f x"
  by (simp add: bind_result_def)

lemma bind_result_eq_Inr [result_simps]:
  "bind_result r f = Inr y \<longleftrightarrow> (\<exists>x. r = Inr x \<and> f x = Inr y)"
  by (cases r) auto

lemma bind_result_eq_Inl [result_simps]:
  "bind_result r f = Inl e \<longleftrightarrow> r = Inl e \<or> (\<exists>x. r = Inr x \<and> f x = Inl e)"
  by (cases r) auto

lemma bind_result_cong [fundef_cong]:
  "r = r' \<Longrightarrow> (\<And>x. r' = Inr x \<Longrightarrow> f x = g x) \<Longrightarrow> bind_result r f = bind_result r' g"
  by (cases r') auto

lemma bind_result_assoc: "bind_result (bind_result r f) g = bind_result r (\<lambda>x. bind_result (f x) g)"
  by (cases r) auto

lemma map_sum_Inr_eq: "map_sum id f r = Inr y \<longleftrightarrow> (\<exists>x. r = Inr x \<and> f x = y)"
  by (cases r) auto

text \<open>An \<open>assert\<close> statement, and more generally a guard that raises \<open>e\<close>.\<close>

definition guard :: "py_error \<Rightarrow> bool \<Rightarrow> unit result" where
  "guard e b = (if b then Inr () else Inl e)"

lemma guard_simps [simp]: "guard e True = Inr ()" "guard e False = Inl e"
  by (simp_all add: guard_def)

lemma guard_eq_Inr [simp]: "guard e b = Inr u \<longleftrightarrow> b"
  by (simp add: guard_def)

lemma guard_eq_Inl [simp]: "guard e b = Inl e' \<longleftrightarrow> \<not> b \<and> e' = e"
  by (auto simp: guard_def)

text \<open>\<open>d[k]\<close> on a dictionary, \<open>xs[i]\<close> on a list.\<close>

definition of_option :: "py_error \<Rightarrow> 'a option \<Rightarrow> 'a result" where
  "of_option e x = (case x of None \<Rightarrow> Inl e | Some y \<Rightarrow> Inr y)"

lemma of_option_simps [simp]: "of_option e None = Inl e" "of_option e (Some y) = Inr y"
  by (simp_all add: of_option_def)

lemma of_option_eq_Inr [result_simps]: "of_option e x = Inr y \<longleftrightarrow> x = Some y"
  by (auto simp: of_option_def split: option.splits)

lemma of_option_eq_Inl [result_simps]: "of_option e x = Inl e' \<longleftrightarrow> x = None \<and> e' = e"
  by (auto simp: of_option_def split: option.splits)

definition py_nth :: "'a list \<Rightarrow> int \<Rightarrow> 'a result" where
  "py_nth xs i =
     (let j = (if i < 0 then int (length xs) + i else i)
      in if 0 \<le> j \<and> j < int (length xs) then Inr (xs ! nat j) else Inl IndexError)"

lemma py_nth_nat [simp]:
  "py_nth xs (int i) = (if i < length xs then Inr (xs ! i) else Inl IndexError)"
  by (simp add: py_nth_def)

subsection \<open>Loops whose body may raise\<close>

fun foldM :: "('s \<Rightarrow> 'a \<Rightarrow> 's result) \<Rightarrow> 's \<Rightarrow> 'a list \<Rightarrow> 's result" where
  "foldM f s [] = Inr s"
| "foldM f s (x # xs) = bind_result (f s x) (\<lambda>s'. foldM f s' xs)"

lemma foldM_cong [fundef_cong]:
  "s = s' \<Longrightarrow> xs = ys \<Longrightarrow> (\<And>x t. x \<in> set ys \<Longrightarrow> f t x = g t x) \<Longrightarrow> foldM f s xs = foldM g s' ys"
  by (induction xs arbitrary: s s' ys) (auto intro!: bind_result_cong)

lemma foldM_append: "foldM f s (xs @ ys) = bind_result (foldM f s xs) (\<lambda>s'. foldM f s' ys)"
  by (induction xs arbitrary: s) (auto simp: bind_result_assoc)

text \<open>The loop rule: an invariant kept by every successful iteration holds after the loop.\<close>

lemma foldM_invariant:
  assumes "foldM f s xs = Inr s'" and "I s"
    and "\<And>t x t'. x \<in> set xs \<Longrightarrow> I t \<Longrightarrow> f t x = Inr t' \<Longrightarrow> I t'"
  shows "I s'"
  using assms
proof (induction xs arbitrary: s)
  case Nil
  then show ?case by simp
next
  case (Cons x xs)
  then obtain t where "f s x = Inr t" "foldM f t xs = Inr s'"
    by (auto simp: result_simps)
  with Cons show ?case by (metis list.set_intros(1) list.set_intros(2))
qed

text \<open>The total version: when no iteration raises under the invariant, the loop returns.\<close>

lemma foldM_total:
  assumes "I s" and "\<And>t x. x \<in> set xs \<Longrightarrow> I t \<Longrightarrow> \<exists>t'. f t x = Inr t' \<and> I t'"
  shows "\<exists>s'. foldM f s xs = Inr s' \<and> I s'"
  using assms
proof (induction xs arbitrary: s)
  case Nil
  then show ?case by simp
next
  case (Cons x xs)
  then obtain t where "f s x = Inr t" "I t"
    by (metis list.set_intros(1))
  with Cons show ?case by simp
qed

fun mapM :: "('a \<Rightarrow> 'b result) \<Rightarrow> 'a list \<Rightarrow> 'b list result" where
  "mapM f [] = Inr []"
| "mapM f (x # xs) = bind_result (f x) (\<lambda>y. bind_result (mapM f xs) (\<lambda>ys. Inr (y # ys)))"

lemma mapM_cong [fundef_cong]:
  "xs = ys \<Longrightarrow> (\<And>x. x \<in> set ys \<Longrightarrow> f x = g x) \<Longrightarrow> mapM f xs = mapM g ys"
  by (induction xs arbitrary: ys) (auto intro!: bind_result_cong)

lemma mapM_eq_Inr: "mapM f xs = Inr ys \<longleftrightarrow> list_all2 (\<lambda>x y. f x = Inr y) xs ys"
  by (induction xs arbitrary: ys) (auto simp: result_simps list_all2_Cons1)

lemma mapM_Inr [simp]: "mapM (\<lambda>x. Inr (f x)) xs = Inr (map f xs)"
  by (induction xs) auto

subsection \<open>Code that may run forever\<close>

text \<open>
  An \<open>outcome\<close> is \<open>None\<close> when the code does not return, and the result when it does.
\<close>

type_synonym 'a outcome = "'a result option"

definition bind_outcome :: "'a outcome \<Rightarrow> ('a \<Rightarrow> 'b outcome) \<Rightarrow> 'b outcome" where
  "bind_outcome r f = (case r of None \<Rightarrow> None | Some (Inl e) \<Rightarrow> Some (Inl e) | Some (Inr x) \<Rightarrow> f x)"

lemma bind_outcome_simps [simp, code]:
  "bind_outcome None f = None"
  "bind_outcome (Some (Inl e)) f = Some (Inl e)"
  "bind_outcome (Some (Inr x)) f = f x"
  by (simp_all add: bind_outcome_def)

lemma bind_outcome_cong [fundef_cong]:
  "r = r' \<Longrightarrow> (\<And>x. r' = Some (Inr x) \<Longrightarrow> f x = g x) \<Longrightarrow> bind_outcome r f = bind_outcome r' g"
  by (auto simp: bind_outcome_def split: option.splits sum.splits)

lemma bind_outcome_eq_returns [result_simps]:
  "bind_outcome r f = Some (Inr y) \<longleftrightarrow> (\<exists>x. r = Some (Inr x) \<and> f x = Some (Inr y))"
  by (auto simp: bind_outcome_def split: option.splits sum.splits)

fun foldO :: "('s \<Rightarrow> 'a \<Rightarrow> 's outcome) \<Rightarrow> 's \<Rightarrow> 'a list \<Rightarrow> 's outcome" where
  "foldO f s [] = Some (Inr s)"
| "foldO f s (x # xs) = bind_outcome (f s x) (\<lambda>s'. foldO f s' xs)"

lemma foldO_cong [fundef_cong]:
  "s = s' \<Longrightarrow> xs = ys \<Longrightarrow> (\<And>x t. x \<in> set ys \<Longrightarrow> f t x = g t x) \<Longrightarrow> foldO f s xs = foldO g s' ys"
  by (induction xs arbitrary: s s' ys) (auto intro!: bind_outcome_cong)

text \<open>A loop whose body returns normally under the invariant is the pure fold.\<close>

lemma foldO_pure:
  assumes "I s" "\<And>t x. x \<in> set xs \<Longrightarrow> I t \<Longrightarrow> f t x = Some (Inr (g x t)) \<and> I (g x t)"
  shows "foldO f s xs = Some (Inr (fold g xs s)) \<and> I (fold g xs s)"
  using assms by (induction xs arbitrary: s) auto

lemma foldM_pure:
  assumes "I s" "\<And>t x. x \<in> set xs \<Longrightarrow> I t \<Longrightarrow> f t x = Inr (g x t) \<and> I (g x t)"
  shows "foldM f s xs = Inr (fold g xs s) \<and> I (fold g xs s)"
  using assms by (induction xs arbitrary: s) auto

subsection \<open>Dictionaries in insertion order\<close>

type_synonym ('k, 'v) dict = "('k \<times> 'v) list"

abbreviation dict_keys :: "('k, 'v) dict \<Rightarrow> 'k list" where
  "dict_keys d \<equiv> map fst d"

abbreviation dict_values :: "('k, 'v) dict \<Rightarrow> 'v list" where
  "dict_values d \<equiv> map snd d"

abbreviation dict_ok :: "('k, 'v) dict \<Rightarrow> bool" where
  "dict_ok d \<equiv> distinct (map fst d)"

definition dict_get :: "'v \<Rightarrow> ('k, 'v) dict \<Rightarrow> 'k \<Rightarrow> 'v" where
  "dict_get dflt d k = (case map_of d k of None \<Rightarrow> dflt | Some v \<Rightarrow> v)"

lemma dict_get_update [simp]:
  "dict_get dflt (AList.update k v d) k' = (if k' = k then v else dict_get dflt d k')"
  by (simp add: dict_get_def update_conv')

lemma dict_get_Nil [simp]: "dict_get dflt [] k = dflt"
  by (simp add: dict_get_def)

text \<open>\<open>d.setdefault(k, []).append(x)\<close>\<close>

definition dict_append :: "'k \<Rightarrow> 'v \<Rightarrow> ('k, 'v list) dict \<Rightarrow> ('k, 'v list) dict" where
  "dict_append k x d = AList.update k (dict_get [] d k @ [x]) d"

lemma dict_get_append [simp]:
  "dict_get [] (dict_append k x d) k' = (if k' = k then dict_get [] d k @ [x] else dict_get [] d k')"
  by (simp add: dict_append_def)

lemma dict_ok_update [simp]: "dict_ok d \<Longrightarrow> dict_ok (AList.update k v d)"
  by (rule distinct_update)

lemma dict_ok_append [simp]: "dict_ok d \<Longrightarrow> dict_ok (dict_append k x d)"
  by (simp add: dict_append_def)

lemma set_keys_update [simp]: "fst ` set (AList.update k v d) = insert k (fst ` set d)"
  by (induction d) auto

lemma set_keys_append [simp]: "fst ` set (dict_append k x d) = insert k (fst ` set d)"
  by (simp add: dict_append_def)

lemma set_update_dict_ok:
  "dict_ok d \<Longrightarrow> set (AList.update k v d) = insert (k, v) (Set.filter (\<lambda>p. fst p \<noteq> k) (set d))"
  by (induction d) (auto simp: image_iff)

lemma dict_get_in: "dict_ok d \<Longrightarrow> (k, v) \<in> set d \<Longrightarrow> dict_get dflt d k = v"
  by (simp add: dict_get_def)

lemma map_of_update [simp]: "map_of (AList.update k v d) = (map_of d)(k \<mapsto> v)"
  by (rule update_conv')

lemma update_last: "k \<notin> set (dict_keys d) \<Longrightarrow> AList.update k v (d @ [(k, w)]) = d @ [(k, v)]"
  by (induction d) auto

lemma update_new: "k \<notin> set (dict_keys d) \<Longrightarrow> AList.update k v d = d @ [(k, v)]"
  by (induction d) auto

lemma dict_get_last [simp]: "k \<notin> set (dict_keys d) \<Longrightarrow> dict_get x (d @ [(k, w)]) k = w"
  by (induction d) (auto simp: dict_get_def)

lemma dict_get_fresh [simp]: "k \<notin> set (dict_keys d) \<Longrightarrow> dict_get x d k = x"
  by (induction d) (auto simp: dict_get_def)

subsection \<open>Lists\<close>

lemma sum_list_update_nat:
  fixes xs :: "nat list"
  shows "i < length xs \<Longrightarrow> sum_list (xs[i := y]) = sum_list xs + y - xs ! i"
  by (simp add: sum_list_update)

text \<open>\<open>range(a, b)\<close> over the integers.\<close>

abbreviation py_range :: "int \<Rightarrow> int \<Rightarrow> int list" where
  "py_range a b \<equiv> [a..b - 1]"

end
