(* ===== verification/Cluster_Info.thy ===== *)
theory Cluster_Info
  imports Prelude Complex_Main
begin

text \<open>
  \<open>rlightning/utils/ray/utils.py\<close>: what the program reads of the Ray cluster and of Ray object
  references. The node table \<open>ray.nodes()\<close>, the actor table and the object store are Ray's:
  they are arguments of the definitions (a list of node rows, a list of actor rows, a function
  from references to values). A row of the node table keeps the fields that the code reads.
\<close>

subsection \<open>Nodes\<close>

record ray_node =
  rn_alive :: bool
  rn_node_id :: string
  rn_address :: string
  rn_resources :: "(string, rat) dict option"
  rn_total_resources :: "(string, rat) dict option"

record node_info =
  ni_ip :: string
  ni_cpu :: int
  ni_gpu :: int

type_synonym cluster_info = "(string, node_info) dict"

text \<open>\<open>int(x)\<close> of a float truncates toward zero.\<close>

definition py_trunc :: "rat \<Rightarrow> int" where
  "py_trunc q = (if q < 0 then - \<lfloor>- q\<rfloor> else \<lfloor>q\<rfloor>)"

definition get_cluster_nodes :: "ray_node list \<Rightarrow> ray_node list" where
  "get_cluster_nodes rows = filter rn_alive rows"

definition resources_total :: "ray_node \<Rightarrow> (string, rat) dict" where
  "resources_total n =
     (case rn_resources n of
        Some (p # d) \<Rightarrow> p # d
      | _ \<Rightarrow> (case rn_total_resources n of Some d \<Rightarrow> d | None \<Rightarrow> []))"

definition node_info_of :: "ray_node \<Rightarrow> node_info" where
  "node_info_of n =
     \<lparr>ni_ip = rn_address n,
      ni_cpu = py_trunc (dict_get 0 (resources_total n) ''CPU''),
      ni_gpu = py_trunc (dict_get 0 (resources_total n) ''GPU'')\<rparr>"

definition get_cluster_resources :: "ray_node list \<Rightarrow> nat \<times> cluster_info" where
  "get_cluster_resources rows =
     (let ns = filter rn_alive rows
      in (length ns, fold (\<lambda>n d. AList.update (rn_node_id n) (node_info_of n) d) ns []))"

lemma get_cluster_resources_ok [simp]: "dict_ok (snd (get_cluster_resources rows))"
proof -
  have "dict_ok d \<Longrightarrow> dict_ok (fold (\<lambda>n d. AList.update (rn_node_id n) (node_info_of n) d) ns d)"
    for ns and d :: cluster_info
    by (induction ns arbitrary: d) (simp_all add: distinct_update)
  then show ?thesis by (simp add: get_cluster_resources_def Let_def)
qed

lemma fold_update_keys:
  "set (dict_keys (fold (\<lambda>n d. AList.update (k n) (v n) d) ns d)) = set (dict_keys d) \<union> k ` set ns"
  by (induction ns arbitrary: d) auto

lemma get_cluster_resources_keys:
  "set (dict_keys (snd (get_cluster_resources rows))) = rn_node_id ` {n \<in> set rows. rn_alive n}"
  by (simp add: get_cluster_resources_def Let_def fold_update_keys del: set_map)

lemma py_trunc_of_int [simp]: "py_trunc (of_int i) = i"
  by (simp add: py_trunc_def flip: of_int_minus)

lemma py_trunc_nonneg: "0 \<le> q \<Longrightarrow> 0 \<le> py_trunc q"
  by (simp add: py_trunc_def)

lemma py_trunc_le: "0 \<le> q \<Longrightarrow> of_int (py_trunc q) \<le> q"
  by (simp add: py_trunc_def)

subsection \<open>Actors per node\<close>

record actor_meta =
  am_node_id :: string
  am_state :: string
  am_name :: string

text \<open>
  The loop groups the names of the actors that are not dead by node; the log line after it reads
  \<open>node_map[nid]\<close>, which raises when a live actor's node is not an alive node.
\<close>

definition get_cluster_actor_info ::
    "ray_node list \<Rightarrow> actor_meta list \<Rightarrow> (string, string list) dict result" where
  "get_cluster_actor_info rows metas =
     (let node_map = map rn_node_id (filter rn_alive rows);
          node_actors = fold (\<lambda>m d. if am_state m \<noteq> ''DEAD'' then dict_append (am_node_id m) (am_name m) d
                                    else d) metas []
      in bind_result (mapM (\<lambda>nid. guard KeyError (nid \<in> set node_map)) (dict_keys node_actors))
           (\<lambda>_. Inr node_actors))"

lemma fold_actor_get:
  "dict_get [] (fold (\<lambda>m d. if am_state m \<noteq> ''DEAD'' then dict_append (am_node_id m) (am_name m) d
                            else d) metas d) k =
     dict_get [] d k @ map am_name (filter (\<lambda>m. am_state m \<noteq> ''DEAD'' \<and> am_node_id m = k) metas)"
  by (induction metas arbitrary: d) auto

subsection \<open>Object references\<close>

text \<open>
  \<open>resolve_object\<close> looks at one of: a reference, a sequence, a string (which is a sequence it
  returns unchanged), a mapping, anything else. \<open>get\<close> is \<open>ray.get\<close> on one reference.
\<close>

datatype ('r, 'v) pyobj =
    ObjRef 'r
  | PySeq "('r, 'v) pyobj list"
  | PyStr string
  | PyMap "(string \<times> ('r, 'v) pyobj) list"
  | PyVal 'v

fun is_ref :: "('r, 'v) pyobj \<Rightarrow> bool" where
  "is_ref (ObjRef r) = True"
| "is_ref x = False"

fun resolve_object :: "('r \<Rightarrow> ('r, 'v) pyobj) \<Rightarrow> ('r, 'v) pyobj \<Rightarrow> ('r, 'v) pyobj" where
  "resolve_object get (ObjRef r) = get r"
| "resolve_object get (PyStr s) = PyStr s"
| "resolve_object get (PySeq xs) =
     (if list_ex is_ref xs then PySeq (map (resolve_object get) xs) else PySeq xs)"
| "resolve_object get (PyMap kvs) =
     (if list_ex (\<lambda>(k, v). is_ref v) kvs then PyMap (map (\<lambda>(k, v). (k, resolve_object get v)) kvs)
      else PyMap kvs)"
| "resolve_object get (PyVal v) = PyVal v"

text \<open>
  The source distinguishes the container whose elements are all references (one batched
  \<open>ray.get\<close>) from the mixed one (element by element); both give the same value, which is the
  single branch above.
\<close>

lemma resolve_object_batched:
  "xs \<noteq> [] \<Longrightarrow> list_all is_ref xs \<Longrightarrow>
   resolve_object get (PySeq xs) = PySeq (map (\<lambda>x. case x of ObjRef r \<Rightarrow> get r | y \<Rightarrow> y) xs)"
  by (cases xs) (auto simp: list_all_iff list_ex_iff elim!: is_ref.elims)

lemma resolve_object_no_ref:
  "\<not> list_ex is_ref xs \<Longrightarrow> resolve_object get (PySeq xs) = PySeq xs"
  by simp

end
