(* ===== verification/Node_Resource.thy ===== *)
theory Node_Resource
  imports Cluster_Info "HOL-Library.Multiset"
begin

text \<open>
  \<open>NodeResource\<close> of \<open>rlightning/utils/placement/resource_pool.py\<close>: one node of the cluster, a
  cursor into its GPU index space and the GPU ranges recorded per component. A Python node is a
  shared mutable object; the model returns the updated record, and the planner keeps the nodes
  in one store so that a pool sees the updates made after it was given the node.
\<close>

record node_resource =
  nr_id :: string
  nr_ip :: string
  nr_cpus :: int
  nr_total :: int
  nr_alloc :: "(string, (int \<times> int) list) dict"
  nr_cursor :: int
  nr_max :: int

definition new_node :: "string \<Rightarrow> string \<Rightarrow> int \<Rightarrow> int \<Rightarrow> node_resource" where
  "new_node i ip cpus gpus =
     \<lparr>nr_id = i, nr_ip = ip, nr_cpus = cpus, nr_total = gpus, nr_alloc = [], nr_cursor = 0, nr_max = 0\<rparr>"

definition available_gpus :: "node_resource \<Rightarrow> int" where
  "available_gpus n = nr_total n - nr_cursor n"

definition has_resources :: "int \<Rightarrow> int \<Rightarrow> node_resource \<Rightarrow> bool" where
  "has_resources cpus gpus n \<longleftrightarrow> nr_cpus n \<ge> cpus \<and> available_gpus n \<ge> gpus"

definition is_empty :: "node_resource \<Rightarrow> bool" where
  "is_empty n \<longleftrightarrow> available_gpus n = 0"

definition node_component_types :: "node_resource \<Rightarrow> string list" where
  "node_component_types n = dict_keys (nr_alloc n)"

text \<open>\<open>copy\<close> builds a new object with the same fields: on immutable records, the record.\<close>

definition node_copy :: "node_resource \<Rightarrow> node_resource" where
  "node_copy n =
     \<lparr>nr_id = nr_id n, nr_ip = nr_ip n, nr_cpus = nr_cpus n, nr_total = nr_total n,
      nr_alloc = nr_alloc n, nr_cursor = nr_cursor n, nr_max = nr_max n\<rparr>"

subsection \<open>Allocation\<close>

datatype gpu_request = Gpus rat | GpuList "int list"

definition gpus_to_allocate :: "gpu_request \<Rightarrow> int" where
  "gpus_to_allocate r = (case r of Gpus q \<Rightarrow> py_trunc q | GpuList gs \<Rightarrow> sum_list gs)"

text \<open>One iteration of the recording loop: the cursor is local to the loop.\<close>

fun record_alloc ::
    "int \<times> (string, (int \<times> int) list) dict \<Rightarrow> string \<times> int
       \<Rightarrow> (int \<times> (string, (int \<times> int) list) dict) result" where
  "record_alloc (cursor, alloc) (ct, req) =
     (if req = 0 then Inr (cursor, alloc)
      else if req < 0 then Inl RuntimeError
      else Inr (cursor + req, dict_append ct (cursor, cursor + req - 1) alloc))"

definition component_requests :: "gpu_request \<Rightarrow> string list \<Rightarrow> (string \<times> int) list" where
  "component_requests r cts =
     (case r of Gpus q \<Rightarrow> map (\<lambda>ct. (ct, py_trunc q)) cts | GpuList gs \<Rightarrow> zip cts gs)"

definition allocate :: "gpu_request \<Rightarrow> string list \<Rightarrow> bool \<Rightarrow> node_resource \<Rightarrow> node_resource result" where
  "allocate r cts consume n =
     (if (case r of Gpus q \<Rightarrow> False | GpuList gs \<Rightarrow> cts \<noteq> [] \<and> length gs \<noteq> length cts) then Inl RuntimeError
      else let total = gpus_to_allocate r in
        if total \<le> 0 then Inr n
        else if total > available_gpus n then Inl RuntimeError
        else bind_result (foldM record_alloc (nr_cursor n, nr_alloc n) (component_requests r cts)) (\<lambda>(_, alloc).
          Inr (n\<lparr>nr_alloc := alloc,
                 nr_max := max (nr_max n) (nr_cursor n + total),
                 nr_cursor := (if consume then nr_cursor n + total else nr_cursor n)\<rparr>)))"

subsection \<open>Invariant\<close>

definition all_ranges :: "(string, (int \<times> int) list) dict \<Rightarrow> (int \<times> int) list" where
  "all_ranges alloc = concat (map snd alloc)"

lemma all_ranges_Nil [simp]: "all_ranges [] = []"
  by (simp add: all_ranges_def)

lemma set_all_ranges_append [simp]:
  "set (all_ranges (dict_append ct r a)) = insert r (set (all_ranges a))"
proof (induction a)
  case Nil
  then show ?case by (simp add: all_ranges_def dict_append_def)
next
  case (Cons p a)
  then show ?case by (cases p) (auto simp: all_ranges_def dict_append_def dict_get_def)
qed

lemma get_in_all_ranges: "r \<in> set (dict_get [] a ct) \<Longrightarrow> r \<in> set (all_ranges a)"
  by (induction a) (auto simp: all_ranges_def dict_get_def split: if_splits)

definition ranges_within :: "int \<Rightarrow> (string, (int \<times> int) list) dict \<Rightarrow> bool" where
  "ranges_within m alloc \<longleftrightarrow> (\<forall>(s, e) \<in> set (all_ranges alloc). 0 \<le> s \<and> s \<le> e \<and> e < m)"

definition node_wf :: "node_resource \<Rightarrow> bool" where
  "node_wf n \<longleftrightarrow> dict_ok (nr_alloc n) \<and> 0 \<le> nr_cursor n \<and> nr_cursor n \<le> nr_total n
     \<and> nr_cursor n \<le> nr_max n \<and> nr_max n \<le> nr_total n \<and> ranges_within (nr_max n) (nr_alloc n)"

lemma ranges_within_mono: "ranges_within m a \<Longrightarrow> m \<le> m' \<Longrightarrow> ranges_within m' a"
  by (fastforce simp: ranges_within_def)

lemma ranges_within_Nil [simp]: "ranges_within m []"
  by (simp add: ranges_within_def)

lemma ranges_within_append [simp]:
  "ranges_within m (dict_append ct (s, e) a) \<longleftrightarrow> 0 \<le> s \<and> s \<le> e \<and> e < m \<and> ranges_within m a"
  by (auto simp: ranges_within_def)

lemma new_node_wf [simp]: "0 \<le> g \<Longrightarrow> node_wf (new_node i ip c g)"
  by (simp add: node_wf_def new_node_def)

text \<open>The recording loop stays between the cursor it started from and the sum it was asked for.\<close>

lemma record_alloc_nonneg:
  "foldM record_alloc st reqs = Inr st' \<Longrightarrow> (\<forall>q \<in> set reqs. 0 \<le> snd q)
     \<and> fst st' = fst st + sum_list (map snd reqs)"
proof (induction reqs arbitrary: st)
  case Nil
  then show ?case by simp
next
  case (Cons q reqs)
  then show ?case
    by (cases st; cases q) (fastforce simp: result_simps split: if_splits)
qed

lemma record_alloc_loop:
  assumes "foldM record_alloc (c, a) reqs = Inr (c', a')" "dict_ok a" "ranges_within m a" "0 \<le> c"
    and "c + sum_list (map snd reqs) \<le> m"
  shows "dict_ok a' \<and> ranges_within m a'"
  using assms
proof (induction reqs arbitrary: c a)
  case Nil
  then show ?case by simp
next
  case (Cons r reqs)
  obtain ct req where r: "r = (ct, req)" by force
  from record_alloc_nonneg [OF Cons.prems(1)] have "0 \<le> sum_list (map snd reqs)" "0 \<le> req"
    by (auto simp: r intro!: sum_list_nonneg)
  with Cons r show ?case
    by (cases "req = 0") (auto simp: algebra_simps)
qed

lemma sum_component_requests:
  "case r of Gpus q \<Rightarrow> length cts = 1 | GpuList gs \<Rightarrow> length gs = length cts \<Longrightarrow>
   sum_list (map snd (component_requests r cts)) = gpus_to_allocate r"
  by (auto simp: component_requests_def gpus_to_allocate_def length_Suc_conv split: gpu_request.splits)

text \<open>
  A single amount with several components is left out: the loop then advances the cursor by the
  whole amount for each component (\<open>allocate_scalar_overruns\<close> below).
\<close>

definition request_ok :: "gpu_request \<Rightarrow> string list \<Rightarrow> bool" where
  "request_ok r cts \<longleftrightarrow> (case r of Gpus q \<Rightarrow> length cts \<le> 1 | GpuList gs \<Rightarrow> True)"

lemma allocate_fields:
  "allocate r cts consume n = Inr n' \<Longrightarrow>
     nr_id n' = nr_id n \<and> nr_total n' = nr_total n \<and> nr_cpus n' = nr_cpus n \<and> nr_ip n' = nr_ip n"
  by (auto simp: allocate_def Let_def result_simps split: if_splits)

lemma allocate_keeps_wf:
  assumes "node_wf n" "request_ok r cts" "allocate r cts consume n = Inr n'"
  shows "node_wf n'"
proof (cases "gpus_to_allocate r \<le> 0")
  case True
  with assms show ?thesis by (auto simp: allocate_def Let_def split: if_splits)
next
  case False
  let ?t = "gpus_to_allocate r"
  from assms(3) False have fit: "?t \<le> available_gpus n"
    and len: "case r of Gpus q \<Rightarrow> True | GpuList gs \<Rightarrow> cts = [] \<or> length gs = length cts"
    by (auto simp: allocate_def Let_def split: if_splits gpu_request.splits)
  from assms(3) False fit obtain c a where
    loop: "foldM record_alloc (nr_cursor n, nr_alloc n) (component_requests r cts) = Inr (c, a)"
    and n': "n' = n\<lparr>nr_alloc := a, nr_max := max (nr_max n) (nr_cursor n + ?t),
                   nr_cursor := (if consume then nr_cursor n + ?t else nr_cursor n)\<rparr>"
    by (auto simp: allocate_def Let_def result_simps split: if_splits)
  have sum: "sum_list (map snd (component_requests r cts)) \<le> ?t"
  proof (cases "cts = []")
    case True
    with False show ?thesis by (cases r) (simp_all add: component_requests_def)
  next
    case False
    with len assms(2) show ?thesis
      by (subst sum_component_requests)
         (auto simp: request_ok_def le_Suc_eq split: gpu_request.splits)
  qed
  have "dict_ok a \<and> ranges_within (max (nr_max n) (nr_cursor n + ?t)) a"
    using assms(1) sum
    by (intro record_alloc_loop [OF loop]) (auto simp: node_wf_def intro: ranges_within_mono)
  with assms(1) fit False n' show ?thesis
    by (auto simp: node_wf_def available_gpus_def)
qed

lemma allocate_single:
  assumes "0 \<le> q" "py_trunc q \<le> available_gpus n"
  shows "allocate (Gpus q) [ct] consume n =
    (if py_trunc q = 0 then Inr n
     else Inr (n\<lparr>nr_alloc := dict_append ct (nr_cursor n, nr_cursor n + py_trunc q - 1) (nr_alloc n),
                nr_max := max (nr_max n) (nr_cursor n + py_trunc q),
                nr_cursor := (if consume then nr_cursor n + py_trunc q else nr_cursor n)\<rparr>))"
  using py_trunc_nonneg [OF assms(1)] assms(2)
  by (simp add: allocate_def gpus_to_allocate_def component_requests_def Let_def)

subsection \<open>Exclusive allocation\<close>

text \<open>
  When every allocation consumes, the cursor separates the GPUs already given from those still
  free, and no GPU index is given twice.
\<close>

definition gpu_units :: "(int \<times> int) list \<Rightarrow> int list" where
  "gpu_units rs = concat (map (\<lambda>(s, e). [s..e]) rs)"

definition node_exclusive :: "node_resource \<Rightarrow> bool" where
  "node_exclusive n \<longleftrightarrow> distinct (gpu_units (all_ranges (nr_alloc n)))
     \<and> (\<forall>u \<in> set (gpu_units (all_ranges (nr_alloc n))). 0 \<le> u \<and> u < nr_cursor n)"

lemma mset_all_ranges_append:
  "mset (all_ranges (dict_append ct r a)) = add_mset r (mset (all_ranges a))"
proof (induction a)
  case Nil
  then show ?case by (simp add: all_ranges_def dict_append_def)
next
  case (Cons p a)
  then show ?case by (cases p) (auto simp: all_ranges_def dict_append_def dict_get_def)
qed

lemma mset_gpu_units_cong: "mset rs = mset rs' \<Longrightarrow> mset (gpu_units rs) = mset (gpu_units rs')"
proof -
  have *: "mset (gpu_units rs) = sum_mset (image_mset (\<lambda>(s, e). mset [s..e]) (mset rs))" for rs
    by (induction rs) (auto simp: gpu_units_def)
  show "mset rs = mset rs' \<Longrightarrow> mset (gpu_units rs) = mset (gpu_units rs')"
    by (simp add: *)
qed

lemma mset_units_append:
  "mset (gpu_units (all_ranges (dict_append ct (s, e) a))) =
     mset ([s..e] @ gpu_units (all_ranges a))"
proof -
  have "mset (all_ranges (dict_append ct (s, e) a)) = mset ((s, e) # all_ranges a)"
    by (simp add: mset_all_ranges_append)
  from mset_gpu_units_cong [OF this] show ?thesis by (simp add: gpu_units_def)
qed

definition units_below :: "int \<Rightarrow> (string, (int \<times> int) list) dict \<Rightarrow> bool" where
  "units_below c a \<longleftrightarrow> distinct (gpu_units (all_ranges a))
     \<and> (\<forall>u \<in> set (gpu_units (all_ranges a)). 0 \<le> u \<and> u < c)"

lemma node_exclusive_iff: "node_exclusive n \<longleftrightarrow> units_below (nr_cursor n) (nr_alloc n)"
  by (simp add: node_exclusive_def units_below_def)

lemma units_below_append:
  assumes "units_below c a" "0 \<le> c" "0 \<le> req"
  shows "units_below (c + req) (dict_append ct (c, c + req - 1) a)"
proof -
  note m = mset_units_append [of ct c "c + req - 1" a]
  have "distinct ([c..c + req - 1] @ gpu_units (all_ranges a))"
    using assms by (fastforce simp: units_below_def)
  moreover have "set (gpu_units (all_ranges (dict_append ct (c, c + req - 1) a)))
      = set ([c..c + req - 1] @ gpu_units (all_ranges a))"
    using m by (metis set_mset_mset)
  ultimately show ?thesis
    using assms mset_eq_imp_distinct_iff [OF m] by (fastforce simp: units_below_def)
qed

lemma units_below_mono: "units_below c a \<Longrightarrow> c \<le> c' \<Longrightarrow> units_below c' a"
  by (fastforce simp: units_below_def)

lemma record_alloc_below:
  assumes "foldM record_alloc (c, a) reqs = Inr (c', a')" "units_below c a" "0 \<le> c"
  shows "units_below c' a'"
  using assms
proof (induction reqs arbitrary: c a)
  case Nil
  then show ?case by simp
next
  case (Cons r reqs)
  obtain ct req where r: "r = (ct, req)" by force
  with Cons show ?case
    by (auto simp: units_below_append split: if_splits)
qed

lemma allocate_keeps_exclusive:
  assumes "node_exclusive n" "0 \<le> nr_cursor n" "request_ok r cts" "allocate r cts True n = Inr n'"
  shows "node_exclusive n' \<and> nr_cursor n \<le> nr_cursor n'"
proof (cases "gpus_to_allocate r \<le> 0")
  case True
  with assms show ?thesis by (auto simp: allocate_def Let_def split: if_splits)
next
  case False
  let ?t = "gpus_to_allocate r"
  from assms(4) False obtain c a where
    len: "case r of Gpus q \<Rightarrow> True | GpuList gs \<Rightarrow> cts = [] \<or> length gs = length cts" and
    loop: "foldM record_alloc (nr_cursor n, nr_alloc n) (component_requests r cts) = Inr (c, a)" and
    n': "n' = n\<lparr>nr_alloc := a, nr_max := max (nr_max n) (nr_cursor n + ?t),
               nr_cursor := nr_cursor n + ?t\<rparr>"
    by (auto simp: allocate_def Let_def result_simps split: if_splits gpu_request.splits)
  have below: "units_below c a"
    using assms by (intro record_alloc_below [OF loop]) (auto simp: node_exclusive_iff)
  have "c = nr_cursor n + sum_list (map snd (component_requests r cts))"
    using record_alloc_nonneg [OF loop] by simp
  moreover have "sum_list (map snd (component_requests r cts)) \<le> ?t"
  proof (cases "cts = []")
    case True
    with False show ?thesis by (cases r) (simp_all add: component_requests_def)
  next
    case False
    with len assms(3) show ?thesis
      by (subst sum_component_requests)
         (auto simp: request_ok_def le_Suc_eq split: gpu_request.splits)
  qed
  ultimately have "c \<le> nr_cursor n + ?t" by simp
  with below False n' show ?thesis
    by (auto simp: node_exclusive_iff intro: units_below_mono)
qed

subsection \<open>Properties\<close>

text \<open>An allocation that returns keeps the node's bookkeeping well formed: the cursor and the
  high-water mark stay within the node, every recorded range lies below the high-water mark, and
  a consuming allocation on a node whose ranges are exclusive gives no GPU index twice. The
  request is a per-component list, or one amount for at most one component.\<close>
theorem allocate_sound:
  assumes "node_wf n" "request_ok r cts" "allocate r cts consume n = Inr n'"
  shows "node_wf n' \<and> nr_total n' = nr_total n
     \<and> (consume \<and> node_exclusive n \<longrightarrow> node_exclusive n')"
  using assms allocate_keeps_wf [OF assms] allocate_keeps_exclusive [of n r cts n']
    allocate_fields [OF assms(3)]
  by (auto simp: node_wf_def)

lemma allocate_sound_witness:
  "let n = new_node ''a'' ''ip'' 8 8;
       n' = n\<lparr>nr_alloc := [(''eval'', [(0, 2)]), (''env'', [(3, 4)])], nr_max := 5, nr_cursor := 5\<rparr>
   in allocate (GpuList [3, 2]) [''eval'', ''env''] True n = Inr n' \<and> node_wf n' \<and> node_exclusive n'"
proof -
  let ?n = "new_node ''a'' ''ip'' 8 8"
  let ?n' = "?n\<lparr>nr_alloc := [(''eval'', [(0, 2)]), (''env'', [(3, 4)])], nr_max := 5, nr_cursor := 5\<rparr>"
  have "allocate (GpuList [3, 2]) [''eval'', ''env''] True ?n = Inr ?n'" by code_simp
  moreover have "node_wf ?n" by simp
  moreover have "node_exclusive ?n" by (simp add: new_node_def node_exclusive_def gpu_units_def)
  ultimately show ?thesis
    using allocate_sound [of ?n "GpuList [3, 2]" "[''eval'', ''env'']" True ?n']
    by (simp add: request_ok_def Let_def)
qed

text \<open>One amount given for two components is recorded once per component, each range after the
  last, although only one amount is checked and consumed: the second range lies outside the
  node. The method's documentation promises the same amount for all components.\<close>
theorem allocate_scalar_overruns:
  assumes "node_wf n" "nr_alloc n = []" "nr_cursor n = 0" "0 < nr_total n" "a \<noteq> b"
  shows "\<exists>n'. allocate (Gpus (of_int (nr_total n))) [a, b] consume n = Inr n'
     \<and> dict_get [] (nr_alloc n') b = [(nr_total n, 2 * nr_total n - 1)] \<and> \<not> node_wf n'"
  using assms
  by (auto simp: allocate_def gpus_to_allocate_def component_requests_def Let_def available_gpus_def
      node_wf_def)

lemma allocate_scalar_overruns_witness:
  "\<exists>n'. allocate (Gpus 4) [''eval'', ''env''] True (new_node ''a'' ''ip'' 8 4) = Inr n'
     \<and> dict_get [] (nr_alloc n') ''env'' = [(4, 7)] \<and> \<not> node_wf n'"
  using allocate_scalar_overruns [of "new_node ''a'' ''ip'' 8 4" "''eval''" "''env''" True]
  by (simp add: new_node_def node_wf_def)

end
