(* ===== verification/Py_Strings.thy ===== *)
theory Py_Strings
  imports Prelude
begin

text \<open>
  The part of Python's string library the code uses: \<open>str(int)\<close>, \<open>int(str)\<close>, \<open>strip\<close>,
  \<open>split\<close> with and without a limit, \<open>rsplit(c, 1)[-1]\<close>, \<open>join\<close>. Strings are lists of 8-bit
  characters (Latin-1 code points). The lemmas are the round trips the serialisers rest on.
\<close>

subsection \<open>Printing and reading integers\<close>

definition digit_char :: "nat \<Rightarrow> char" where
  "digit_char d = char_of (48 + d)"

definition char_code :: "char \<Rightarrow> nat" where
  "char_code c = of_char c"

definition is_digit :: "char \<Rightarrow> bool" where
  "is_digit c \<longleftrightarrow> 48 \<le> char_code c \<and> char_code c \<le> 57"

definition digit_val :: "char \<Rightarrow> nat" where
  "digit_val c = char_code c - 48"

fun string_of_nat :: "nat \<Rightarrow> string" where
  "string_of_nat n =
     (if n < 10 then [digit_char n] else string_of_nat (n div 10) @ [digit_char (n mod 10)])"

declare string_of_nat.simps [simp del]

definition string_of_int :: "int \<Rightarrow> string" where
  "string_of_int i = (if i < 0 then CHR ''-'' # string_of_nat (nat (- i)) else string_of_nat (nat i))"

text \<open>
  The digits of a literal, with single underscores allowed between digits; the flag says that
  the character before was a digit.
\<close>

fun parse_digits :: "nat \<Rightarrow> bool \<Rightarrow> string \<Rightarrow> nat option" where
  "parse_digits acc prev [] = (if prev then Some acc else None)"
| "parse_digits acc prev (c # cs) =
     (if is_digit c then parse_digits (10 * acc + digit_val c) True cs
      else if c = CHR ''_'' \<and> prev then parse_digits acc False cs
      else None)"

definition py_space :: "char \<Rightarrow> bool" where
  "py_space c \<longleftrightarrow> (let n = char_code c in
     9 \<le> n \<and> n \<le> 13 \<or> 28 \<le> n \<and> n \<le> 32 \<or> n = 133 \<or> n = 160)"

definition py_strip :: "string \<Rightarrow> string" where
  "py_strip s = rev (dropWhile py_space (rev (dropWhile py_space s)))"

definition py_int :: "string \<Rightarrow> int result" where
  "py_int s =
     (case py_strip s of
        [] \<Rightarrow> Inl ValueError
      | c # cs \<Rightarrow>
          (case (if c = CHR ''-'' \<or> c = CHR ''+'' then parse_digits 0 False cs
                 else parse_digits 0 False (c # cs)) of
             None \<Rightarrow> Inl ValueError
           | Some n \<Rightarrow> Inr (if c = CHR ''-'' then - int n else int n)))"

subsection \<open>Splitting and joining\<close>

fun py_split :: "char \<Rightarrow> string \<Rightarrow> string list" where
  "py_split sep [] = [[]]"
| "py_split sep (c # cs) =
     (if c = sep then [] # py_split sep cs
      else (case py_split sep cs of [] \<Rightarrow> [[c]] | p # ps \<Rightarrow> (c # p) # ps))"

text \<open>\<open>s.split(sep, 1)\<close> when \<open>sep in s\<close>: what stands before and after the first separator.\<close>

definition py_split1 :: "char \<Rightarrow> string \<Rightarrow> string \<times> string" where
  "py_split1 sep s = (takeWhile (\<lambda>c. c \<noteq> sep) s, tl (dropWhile (\<lambda>c. c \<noteq> sep) s))"

text \<open>\<open>s.startswith(p)\<close>, \<open>p in s\<close> and \<open>s.lower()\<close> (letters of ASCII).\<close>

definition starts_with :: "string \<Rightarrow> string \<Rightarrow> bool" where
  "starts_with p s \<longleftrightarrow> take (length p) s = p"

fun contains_str :: "string \<Rightarrow> string \<Rightarrow> bool" where
  "contains_str p [] = (p = [])"
| "contains_str p (c # cs) = (starts_with p (c # cs) \<or> contains_str p cs)"

definition py_lower :: "string \<Rightarrow> string" where
  "py_lower s = map (\<lambda>c. if 65 \<le> char_code c \<and> char_code c \<le> 90 then char_of (char_code c + 32) else c) s"

text \<open>\<open>s.rsplit(sep, 1)[-1]\<close>: what stands after the last separator, all of \<open>s\<close> when there is none.\<close>

definition py_rsplit_last :: "char \<Rightarrow> string \<Rightarrow> string" where
  "py_rsplit_last sep s = rev (takeWhile (\<lambda>c. c \<noteq> sep) (rev s))"

fun py_join :: "string \<Rightarrow> string list \<Rightarrow> string" where
  "py_join sep [] = []"
| "py_join sep [s] = s"
| "py_join sep (s # t # ts) = s @ sep @ py_join sep (t # ts)"

subsection \<open>Characters\<close>

lemma char_code_digit_char [simp]: "d < 10 \<Longrightarrow> char_code (digit_char d) = 48 + d"
  by (simp add: char_code_def digit_char_def)

lemma is_digit_digit_char [simp]: "d < 10 \<Longrightarrow> is_digit (digit_char d)"
  by (simp add: is_digit_def)

lemma digit_val_digit_char [simp]: "d < 10 \<Longrightarrow> digit_val (digit_char d) = d"
  by (simp add: digit_val_def)

lemma is_digit_not_space: "is_digit c \<Longrightarrow> \<not> py_space c"
  by (auto simp: is_digit_def py_space_def Let_def)

lemma minus_not_space [simp]: "\<not> py_space CHR ''-''"
  by (simp add: py_space_def char_code_def)

lemma space_is_space [simp]: "py_space CHR '' ''"
  by (simp add: py_space_def char_code_def)

lemma is_digit_neq [simp]: "\<not> is_digit CHR ''-''" "\<not> is_digit CHR '',''" "\<not> is_digit CHR '' ''"
    "\<not> is_digit CHR ''+''" "\<not> is_digit CHR ''_''" "\<not> is_digit CHR ''/''"
  by (simp_all add: is_digit_def char_code_def)

subsection \<open>Integers survive printing and reading\<close>

lemma string_of_nat_nonempty [simp]: "string_of_nat n \<noteq> []"
  by (subst string_of_nat.simps) simp

lemma string_of_nat_digits: "c \<in> set (string_of_nat n) \<Longrightarrow> is_digit c"
proof (induction n rule: string_of_nat.induct)
  case (1 n)
  then show ?case
    by (subst (asm) string_of_nat.simps) (auto split: if_splits)
qed

lemma string_of_nat_ends [simp]:
  "is_digit (hd (string_of_nat n))" "is_digit (last (string_of_nat n))"
  by (rule string_of_nat_digits [of _ n], simp)+

lemma parse_digits_append:
  "\<forall>c \<in> set s. is_digit c \<Longrightarrow> s \<noteq> [] \<Longrightarrow>
   parse_digits acc prev (s @ [c]) =
     (case parse_digits acc prev s of None \<Rightarrow> None | Some n \<Rightarrow> parse_digits n True [c])"
proof (induction s arbitrary: acc prev)
  case Nil
  then show ?case by simp
next
  case (Cons d s)
  then show ?case by (cases "s = []") auto
qed

lemma parse_string_of_nat: "parse_digits 0 False (string_of_nat n) = Some n"
proof (induction n rule: string_of_nat.induct)
  case (1 n)
  show ?case
  proof (cases "n < 10")
    case True
    then show ?thesis by (subst string_of_nat.simps) simp
  next
    case False
    have "\<forall>c \<in> set (string_of_nat (n div 10)). is_digit c"
      by (simp add: string_of_nat_digits)
    with False "1" show ?thesis
      by (subst string_of_nat.simps) (simp add: parse_digits_append)
  qed
qed

lemma py_strip_id:
  "s \<noteq> [] \<Longrightarrow> \<not> py_space (hd s) \<Longrightarrow> \<not> py_space (last s) \<Longrightarrow> py_strip s = s"
  by (cases s) (auto simp: py_strip_def hd_rev dropWhile_eq_self_iff simp flip: hd_rev)

lemma py_strip_string_of_nat [simp]: "py_strip (string_of_nat n) = string_of_nat n"
  by (rule py_strip_id) (simp_all add: is_digit_not_space)

lemma string_of_nat_Cons: "\<exists>c cs. string_of_nat n = c # cs \<and> is_digit c"
  by (metis list.exhaust list.set_intros(1) string_of_nat_digits string_of_nat_nonempty)

lemma py_int_string_of_nat [simp]: "py_int (string_of_nat n) = Inr (int n)"
proof -
  obtain c cs where c: "string_of_nat n = c # cs" "is_digit c"
    using string_of_nat_Cons by blast
  then have "c \<noteq> CHR ''-''" "c \<noteq> CHR ''+''" by auto
  moreover have "py_strip (c # cs) = c # cs"
    using c py_strip_string_of_nat [of n] by simp
  ultimately show ?thesis
    using c parse_string_of_nat [of n] by (simp add: py_int_def)
qed

lemma py_int_string_of_int: "py_int (string_of_int i) = Inr i"
proof (cases "i < 0")
  case True
  have "last (CHR ''-'' # string_of_nat (nat (- i))) = last (string_of_nat (nat (- i)))"
    by simp
  then have "py_strip (CHR ''-'' # string_of_nat (nat (- i))) = CHR ''-'' # string_of_nat (nat (- i))"
    by (intro py_strip_id) (simp_all add: is_digit_not_space)
  with True show ?thesis
    by (simp add: string_of_int_def py_int_def parse_string_of_nat)
next
  case False
  then show ?thesis by (simp add: string_of_int_def)
qed

subsection \<open>Splitting and joining\<close>

lemma py_split_nonempty [simp]: "py_split sep s \<noteq> []"
  by (induction s) (auto split: list.splits)

lemma py_split_no_sep: "sep \<notin> set s \<Longrightarrow> py_split sep s = [s]"
  by (induction s) auto

lemma py_split_append_sep:
  "sep \<notin> set s \<Longrightarrow> py_split sep (s @ sep # t) = s # py_split sep t"
  by (induction s) auto

lemma py_split_append_pad:
  "sep \<notin> set pad \<Longrightarrow> py_split sep (pad @ s) = (pad @ hd (py_split sep s)) # tl (py_split sep s)"
  by (induction pad) (auto split: list.splits)

text \<open>
  Splitting at \<open>sep\<close> what was joined by \<open>sep # pad\<close> gives the parts back, each but the first
  with the padding before it.
\<close>

lemma py_split_join:
  "\<forall>s \<in> set ss. sep \<notin> set s \<Longrightarrow> sep \<notin> set pad \<Longrightarrow> ss \<noteq> [] \<Longrightarrow>
   py_split sep (py_join (sep # pad) ss) = hd ss # map (\<lambda>s. pad @ s) (tl ss)"
proof (induction "sep # pad" ss rule: py_join.induct)
  case (3 s t ts)
  then show ?case by (simp add: py_split_append_sep py_split_append_pad)
qed (simp_all add: py_split_no_sep)

lemma takeWhile_neq_id: "sep \<notin> set s \<Longrightarrow> takeWhile (\<lambda>c. c \<noteq> sep) s = s"
  by (induction s) auto

lemma dropWhile_neq_append:
  "sep \<notin> set s \<Longrightarrow> dropWhile (\<lambda>c. c \<noteq> sep) (s @ sep # t) = sep # t"
  by (induction s) auto

lemma py_split1_append: "sep \<notin> set s \<Longrightarrow> py_split1 sep (s @ sep # t) = (s, t)"
  by (auto simp: py_split1_def takeWhile_tail dropWhile_neq_append)

lemma py_rsplit_last_append: "sep \<notin> set t \<Longrightarrow> py_rsplit_last sep (s @ sep # t) = t"
  by (simp add: py_rsplit_last_def takeWhile_append takeWhile_neq_id)

lemma py_rsplit_last_none: "sep \<notin> set s \<Longrightarrow> py_rsplit_last sep s = s"
  by (simp add: py_rsplit_last_def takeWhile_neq_id)

lemma py_strip_space_Cons [simp]: "py_strip (CHR '' '' # s) = py_strip s"
  by (simp add: py_strip_def)

end
