(* ===== verification/Config.thy ===== *)
theory Config
  imports Py_Strings Complex_Main
begin

text \<open>
  The configuration models of \<open>rlightning/utils/config/config.py\<close>: one record per Pydantic class
  with its declared fields, one datatype per \<open>Literal\<close> type, and the \<open>model_validator(mode="after")\<close>
  methods as functions that return the (possibly rewritten) record or raise. Pydantic's own
  parsing, the free-form \<open>extra\<close> fields (but for \<open>num_shards\<close>, which the scheduling code reads)
  and the dump of the validated file are not modelled. GPU amounts are Python floats; they are
  modelled as rationals, so rounding is not.
\<close>

subsection \<open>Literal types\<close>

datatype sampler_type = AllSampler | BatchSampler | UniformSampler
datatype storage_mode = Circular | Fixed
datatype storage_type = Unified | Sharded
datatype storage_unit = Transition | Episode
datatype storage_device = Cpu | Cuda
datatype buffer_type = ReplayBuffer | RolloutBuffer
datatype weight_buffer_type = WeightBuffer | CPUWeightBuffer | ShardedWeightBuffer
datatype buffer_strategy = StrategyNone | StrategyDouble | StrategyShared | StrategySharded
datatype rollout_mode = SyncRollout | AsyncRollout
datatype router_type = SimpleRouting | NodeAffinityRouting
datatype worker_count = Auto | Workers int

subsection \<open>Environment, buffer and policy configuration\<close>

record env_config =
  ec_name :: string
  ec_backend :: string
  ec_task :: string
  ec_num_workers :: int
  ec_num_envs :: int
  ec_max_episode_steps :: "int option"
  ec_num_cpus :: int
  ec_num_gpus :: rat
  ec_has_init_params :: bool
  ec_control_mode :: "string option"
  ec_policy_setup :: string

record storage_config =
  st_mode :: storage_mode
  st_type :: storage_type
  st_unit :: storage_unit
  st_device :: storage_device
  st_num_shards :: "worker_count option"

record buffer_config =
  bc_type :: buffer_type
  bc_capacity :: int
  bc_sampler :: "sampler_type option"
  bc_auto_truncate_episode :: bool
  bc_storage :: storage_config
  bc_node_affinity_env :: bool
  bc_node_affinity_train :: bool

record weight_buffer_config =
  wb_type :: weight_buffer_type
  wb_buffer_strategy :: buffer_strategy

record policy_config =
  pc_train_num_gpus :: rat
  pc_eval_num_gpus :: rat
  pc_rollout_mode :: rollout_mode
  pc_router_type :: router_type
  pc_weight_buffer :: weight_buffer_config

record train_config =
  tc_max_epochs :: int
  tc_batch_size :: int
  tc_max_rollout_steps :: int
  tc_max_eval_rollout_steps :: int
  tc_eval_interval :: int
  tc_save_interval :: int
  tc_save_dir :: "string option"

record log_config =
  lc_backend :: string
  lc_mode :: "string option"

text \<open>
  The value of a component key of a manual resource pool: the extra fields of the class are not
  typed, so besides a string it may be absent, an integer or anything else.
\<close>

datatype index_value = IvNone | IvInt int | IvStr string | IvOther

record resource_pool_config =
  rc_name :: string
  rc_num_node :: int
  rc_num_gpus :: "int + int list"
  rc_node_ids :: "string list option"
  rc_components :: "(string, index_value) dict"

record cluster_config =
  cc_placement_mode :: string
  cc_placement_strategy :: string
  cc_env_strategy :: string
  cc_train_worker_num :: int
  cc_eval_worker_num :: int
  cc_train_each_gpu_num :: rat
  cc_eval_each_gpu_num :: rat
  cc_buffer_worker_num :: worker_count
  cc_remote_train :: bool
  cc_remote_eval :: bool
  cc_remote_storage :: bool
  cc_remote_env :: bool
  cc_is_colocated :: bool
  cc_enable_offload :: bool
  cc_resource_pool :: "resource_pool_config list option"

record main_config =
  mc_engine :: "string option"
  mc_env :: "env_config list"
  mc_buffer :: buffer_config
  mc_policy :: policy_config
  mc_train :: train_config
  mc_cluster :: "cluster_config option"
  mc_log :: log_config

subsection \<open>Validators\<close>

definition internal_supported_backends :: "string list" where
  "internal_supported_backends =
     [''ale'', ''maniskill'', ''mujoco'', ''piper'', ''env_server'', ''isaac_marl'',
      ''isaac_manager_based'']"

definition vector_env_supported_backends :: "string list" where
  "vector_env_supported_backends = [''maniskill'', ''isaac_manager_based'', ''isaac_marl'']"

definition env_sanity_check :: "env_config \<Rightarrow> env_config result" where
  "env_sanity_check c =
     (if ec_num_envs c > 1 \<and> ec_backend c \<in> set internal_supported_backends
         \<and> ec_backend c \<notin> set vector_env_supported_backends
      then Inl ValueError else Inr c)"

fun py_contains :: "string \<Rightarrow> string \<Rightarrow> bool" where
  "py_contains sub [] \<longleftrightarrow> sub = []"
| "py_contains sub (c # cs) \<longleftrightarrow> take (length sub) (c # cs) = sub \<or> py_contains sub cs"

definition get_robot_control_mode :: "string \<Rightarrow> string result" where
  "get_robot_control_mode robot =
     (if py_contains ''google_robot_static'' robot
      then Inr ''arm_pd_ee_delta_pose_align_interpolate_by_planner_gripper_pd_joint_pos_interpolate_by_planner''
      else if py_contains ''widowx'' robot
      then Inr ''arm_pd_ee_target_delta_pose_align2_gripper_pd_joint_pos''
      else Inl NotImplementedError)"

definition setup_robot_control_mode_for_maniskill :: "env_config \<Rightarrow> env_config result" where
  "setup_robot_control_mode_for_maniskill c =
     (if py_contains ''maniskill'' (ec_backend c) \<and> ec_has_init_params c
      then bind_result (get_robot_control_mode (ec_policy_setup c))
             (\<lambda>m. Inr (c\<lparr>ec_control_mode := Some m\<rparr>))
      else Inr c)"

definition storage_validate_strategy :: "storage_config \<Rightarrow> storage_config result" where
  "storage_validate_strategy c =
     bind_result (guard AssertionError (st_type c = Sharded \<longrightarrow> st_device c = Cpu)) (\<lambda>_. Inr c)"

definition setup_default_sampler :: "buffer_config \<Rightarrow> buffer_config result" where
  "setup_default_sampler c =
     (case bc_sampler c of
        None \<Rightarrow> Inr (c\<lparr>bc_sampler := Some (case bc_type c of
                        ReplayBuffer \<Rightarrow> UniformSampler | RolloutBuffer \<Rightarrow> AllSampler)\<rparr>)
      | Some _ \<Rightarrow> Inr c)"

definition weight_buffer_validate_strategy :: "weight_buffer_config \<Rightarrow> weight_buffer_config result" where
  "weight_buffer_validate_strategy c =
     (if wb_buffer_strategy c = StrategyShared \<and> wb_type c \<noteq> CPUWeightBuffer then Inl ValueError
      else if wb_buffer_strategy c = StrategySharded \<and> wb_type c \<noteq> ShardedWeightBuffer then Inl ValueError
      else Inr c)"

text \<open>\<open>os.path.dirname\<close> and \<open>os.path.join\<close> on POSIX paths; \<open>log_file\<close> is \<open>RLIGHTNING_LOG_FILE\<close>.\<close>

definition path_dirname :: "string \<Rightarrow> string" where
  "path_dirname p =
     (let head = rev (dropWhile (\<lambda>c. c \<noteq> CHR ''/'') (rev p))
      in if list_all (\<lambda>c. c = CHR ''/'') head then head
         else rev (dropWhile (\<lambda>c. c = CHR ''/'') (rev head)))"

definition path_join :: "string \<Rightarrow> string \<Rightarrow> string" where
  "path_join a b =
     (if b \<noteq> [] \<and> hd b = CHR ''/'' then b
      else if a = [] \<or> last a = CHR ''/'' then a @ b
      else a @ ''/'' @ b)"

definition setup_default_ckpt_save_dir :: "string option \<Rightarrow> train_config \<Rightarrow> train_config" where
  "setup_default_ckpt_save_dir log_file c =
     (case tc_save_dir c of
        Some _ \<Rightarrow> c
      | None \<Rightarrow> (case log_file of
          None \<Rightarrow> c
        | Some f \<Rightarrow> c\<lparr>tc_save_dir := Some (path_join (path_dirname f) ''checkpoints'')\<rparr>))"

definition mode_sanity_check_and_setup_local_by_default :: "log_config \<Rightarrow> log_config result" where
  "mode_sanity_check_and_setup_local_by_default c =
     (if lc_backend c = ''wandb'' then
        (case lc_mode c of
           None \<Rightarrow> Inr (c\<lparr>lc_mode := Some ''offline''\<rparr>)
         | Some m \<Rightarrow> if m \<in> set [''online'', ''offline'', ''disabled'', ''shared''] then Inr c
                     else Inl ValueError)
      else if lc_backend c = ''swanlab'' then
        (case lc_mode c of
           None \<Rightarrow> Inr (c\<lparr>lc_mode := Some ''local''\<rparr>)
         | Some m \<Rightarrow> if m \<in> set [''cloud'', ''local'', ''disabled''] then Inr c else Inl ValueError)
      else Inr c)"

text \<open>
  \<open>validate_config_for_placement\<close>: \<open>placement_strategy\<close> is what the resource manager answers
  (\<open>default\<close> when there is none). It dereferences \<open>config.cluster\<close>, which is absent in local mode.
\<close>

definition override_cluster :: "string \<Rightarrow> cluster_config \<Rightarrow> cluster_config" where
  "override_cluster strategy cl =
     (if strategy = ''default'' then cl
      else let cl' = cl\<lparr>cc_train_each_gpu_num := 1/10, cc_eval_each_gpu_num := 1/10\<rparr>
           in if strategy = ''colocate'' then cl'\<lparr>cc_is_colocated := True\<rparr>
              else if strategy = ''disaggregate'' then cl'\<lparr>cc_is_colocated := False\<rparr>
              else cl')"

definition override_envs :: "string \<Rightarrow> env_config list \<Rightarrow> env_config list" where
  "override_envs strategy es =
     (if strategy = ''default'' then es
      else map (\<lambda>e. e\<lparr>ec_num_gpus := 1/10, ec_num_cpus := 1\<rparr>) es)"

definition validate_config_for_placement :: "string \<Rightarrow> main_config \<Rightarrow> main_config result" where
  "validate_config_for_placement strategy c =
     bind_result (of_option AttributeError (mc_cluster c)) (\<lambda>cl.
       let cl' = override_cluster strategy cl;
           p = mc_policy c;
           p' = (if cc_is_colocated cl'
                 then p\<lparr>pc_weight_buffer := (pc_weight_buffer p)\<lparr>wb_buffer_strategy := StrategyNone\<rparr>\<rparr>
                 else p)
       in Inr (c\<lparr>mc_env := override_envs strategy (mc_env c), mc_policy := p',
                 mc_cluster := Some cl'\<rparr>))"

subsection \<open>What the validators establish\<close>

lemma env_sanity_check_id: "env_sanity_check c = Inr c' \<Longrightarrow> c' = c"
  by (simp add: env_sanity_check_def split: if_splits)

lemma setup_default_sampler_Some:
  "setup_default_sampler c = Inr c' \<Longrightarrow> bc_sampler c' \<noteq> None \<and> bc_type c' = bc_type c"
  by (auto simp: setup_default_sampler_def split: option.splits)

lemma override_cluster_idem [simp]:
  "override_cluster s (override_cluster s cl) = override_cluster s cl"
  by (simp add: override_cluster_def Let_def)

lemma override_envs_idem [simp]: "override_envs s (override_envs s es) = override_envs s es"
  by (simp add: override_envs_def)

end
