(* ===== verification/Resource_Pool.thy ===== *)
theory Resource_Pool
  imports Node_Resource Config "HOL-Library.List_Lexorder" "HOL-Library.Char_ord"
begin

text \<open>
  \<open>ComponentAllocation\<close> and \<open>ResourcePool\<close> of \<open>rlightning/utils/placement/resource_pool.py\<close>: the
  pool-global GPU index strings, their parser, the splitting of a global range over the nodes and
  the YAML form of a pool. The types inferred from the allocations are kept in first-use order;
  Python keeps them in a set, whose order is unspecified, so the theorems of the placement theory
  quantify over the list of types. The dumped fields that only serve logging (\<open>to_dict\<close>) are not
  modelled.
\<close>

record component_allocation =
  ca_type :: string
  ca_indices :: "(string, string list) dict"
  ca_total :: int
  ca_workers :: int

definition to_index_string :: "component_allocation \<Rightarrow> string" where
  "to_index_string ca = py_join '', '' (concat (dict_values (ca_indices ca)))"

definition get_node_index_string :: "string \<Rightarrow> component_allocation \<Rightarrow> string" where
  "get_node_index_string nid ca = py_join '', '' (dict_get [] (ca_indices ca) nid)"

record resource_pool =
  rp_name :: string
  rp_nodes :: "node_resource list"
  rp_types :: "string list option"
  rp_comp_alloc :: "(string, component_allocation) dict"

definition new_pool :: "string \<Rightarrow> node_resource list \<Rightarrow> resource_pool" where
  "new_pool nm ns = \<lparr>rp_name = nm, rp_nodes = ns, rp_types = None, rp_comp_alloc = []\<rparr>"

definition infer_types :: "node_resource list \<Rightarrow> string list" where
  "infer_types ns =
     (let ts = rev (remdups (rev (concat (map node_component_types ns))))
      in if ''train'' \<in> set ts \<and> ''buffer'' \<notin> set ts then ts @ [''buffer''] else ts)"

definition component_types :: "resource_pool \<Rightarrow> string list" where
  "component_types p = (case rp_types p of Some ts \<Rightarrow> ts | None \<Rightarrow> infer_types (rp_nodes p))"

definition pool_total_gpus :: "resource_pool \<Rightarrow> int" where
  "pool_total_gpus p = sum_list (map nr_total (rp_nodes p))"

definition pool_total_cpus :: "resource_pool \<Rightarrow> int" where
  "pool_total_cpus p = sum_list (map nr_cpus (rp_nodes p))"

definition num_nodes :: "resource_pool \<Rightarrow> nat" where
  "num_nodes p = length (rp_nodes p)"

definition pool_node_ids :: "resource_pool \<Rightarrow> string list" where
  "pool_node_ids p = map nr_id (rp_nodes p)"

definition pool_component_node_count :: "string \<Rightarrow> resource_pool \<Rightarrow> nat" where
  "pool_component_node_count ct p =
     length (filter (\<lambda>n. ct \<in> set (node_component_types n)) (rp_nodes p))"

subsection \<open>Building the index strings\<close>

definition index_string :: "int \<Rightarrow> int \<Rightarrow> string" where
  "index_string gs ge =
     (if gs \<noteq> ge then string_of_int gs @ ''-'' @ string_of_int ge else string_of_int gs)"

definition new_ca :: "string \<Rightarrow> component_allocation" where
  "new_ca ct = \<lparr>ca_type = ct, ca_indices = [], ca_total = 0, ca_workers = 0\<rparr>"

definition add_index ::
    "string \<Rightarrow> int \<Rightarrow> string \<Rightarrow> int \<times> int \<Rightarrow> (string, component_allocation) dict
       \<Rightarrow> (string, component_allocation) dict" where
  "add_index nid offset ct r cas =
     (let gs = offset + fst r; ge = offset + snd r; ca = dict_get (new_ca ct) cas ct
      in AList.update ct (ca\<lparr>ca_indices := dict_append nid (index_string gs ge) (ca_indices ca),
                             ca_total := ca_total ca + (ge - gs + 1)\<rparr>) cas)"

definition add_node_indices ::
    "node_resource \<Rightarrow> int \<times> (string, component_allocation) dict
       \<Rightarrow> int \<times> (string, component_allocation) dict" where
  "add_node_indices n s =
     (fst s + nr_total n,
      fold (\<lambda>(ct, rs) cas. fold (add_index (nr_id n) (fst s) ct) rs cas) (nr_alloc n) (snd s))"

definition rebuild_component_allocations :: "resource_pool \<Rightarrow> resource_pool" where
  "rebuild_component_allocations p =
     p\<lparr>rp_comp_alloc := snd (fold add_node_indices (rp_nodes p) (0, []))\<rparr>"

definition get_component_indices :: "resource_pool \<Rightarrow> string \<Rightarrow> string" where
  "get_component_indices p ct =
     (if ct \<notin> set (component_types p) then []
      else let p' = (if rp_comp_alloc p = [] then rebuild_component_allocations p else p)
           in case map_of (rp_comp_alloc p') ct of None \<Rightarrow> [] | Some ca \<Rightarrow> to_index_string ca)"

definition to_yaml_dict :: "resource_pool \<Rightarrow> resource_pool_config" where
  "to_yaml_dict p =
     (let per_node = map nr_total (rp_nodes p)
      in \<lparr>rc_name = rp_name p, rc_num_node = int (num_nodes p),
          rc_num_gpus = (if length (remdups per_node) = 1 then Inl (hd per_node) else Inr per_node),
          rc_node_ids = None,
          rc_components =
            fold (\<lambda>ct d. let s = get_component_indices p ct
                         in if s \<noteq> [] then AList.update ct (IvStr s) d else d) (component_types p) []\<rparr>)"

subsection \<open>Reading them back\<close>

definition parse_part :: "string \<Rightarrow> (int \<times> int) result" where
  "parse_part p =
     bind_result
       (if CHR ''-'' \<in> set p then
          let (a, b) = py_split1 CHR ''-'' p
          in bind_result (py_int (py_strip a)) (\<lambda>start.
             bind_result (py_int (py_strip b)) (\<lambda>stop. Inr (start, stop)))
        else bind_result (py_int p) (\<lambda>i. Inr (i, i)))
       (\<lambda>(start, stop). Inr (if stop < start then (stop, start) else (start, stop)))"

definition parse_index_str :: "index_value \<Rightarrow> (int \<times> int) list result" where
  "parse_index_str v =
     (case v of
        IvNone \<Rightarrow> Inr []
      | IvInt i \<Rightarrow> Inr [(i, i)]
      | IvOther \<Rightarrow> Inr []
      | IvStr s \<Rightarrow>
          (let s' = py_strip s
           in if s' = [] then Inr []
              else mapM parse_part (filter (\<lambda>p. p \<noteq> []) (map py_strip (py_split CHR '','' s')))))"

text \<open>The largest node index whose offset is at most \<open>cur\<close>; \<open>max()\<close> of nothing raises.\<close>

definition node_at :: "int list \<Rightarrow> int \<Rightarrow> nat result" where
  "node_at offs cur =
     (case filter (\<lambda>i. offs ! i \<le> cur) [0..<length offs - 1] of
        [] \<Rightarrow> Inl ValueError | i # is \<Rightarrow> Inr (last (i # is)))"

partial_function (option) split_loop ::
    "int list \<Rightarrow> int \<Rightarrow> int \<Rightarrow> (nat \<times> int \<times> int) list \<Rightarrow> (nat \<times> int \<times> int) list result option" where
  "split_loop offs stop cur out =
     (if cur > stop then Some (Inr out)
      else case node_at offs cur of
        Inl e \<Rightarrow> Some (Inl e)
      | Inr i \<Rightarrow>
          (let node_start = offs ! i; node_end = offs ! (i + 1) - 1; seg_end = min stop node_end
           in split_loop offs stop (seg_end + 1) (out @ [(i, cur - node_start, seg_end - node_start)])))"

declare split_loop.simps [code]

definition split_global_range_by_nodes ::
    "int \<Rightarrow> int \<Rightarrow> int list \<Rightarrow> (nat \<times> int \<times> int) list outcome" where
  "split_global_range_by_nodes start stop offs = split_loop offs stop start []"

definition node_offsets :: "int list \<Rightarrow> int list" where
  "node_offsets gs = foldl (\<lambda>os g. os @ [last os + g]) [0] gs"

text \<open>The slice \<open>xs[:n]\<close>; a negative \<open>n\<close> counts from the end.\<close>

definition py_take :: "int \<Rightarrow> 'a list \<Rightarrow> 'a list" where
  "py_take n xs = (if n < 0 then take (length xs - nat (- n)) xs else take (nat n) xs)"

definition select_pool_nodes ::
    "resource_pool_config \<Rightarrow> (string, node_resource) dict \<Rightarrow> string list
       \<Rightarrow> (string list \<times> int list) result" where
  "select_pool_nodes cfg cluster used =
     (case rc_node_ids cfg of
        Some ids \<Rightarrow>
          (case rc_num_gpus cfg of
             Inl _ \<Rightarrow> Inl AssertionError
           | Inr gs \<Rightarrow> if int (length ids) \<noteq> rc_num_node cfg \<or> int (length gs) \<noteq> rc_num_node cfg
                       then Inl ValueError else Inr (ids, gs))
      | None \<Rightarrow>
          if length (remdups (map nr_total (dict_values cluster))) \<noteq> 1 then Inl ValueError
          else let candidates = filter (\<lambda>n. nr_id n \<notin> set used) (dict_values cluster)
            in if int (length candidates) < rc_num_node cfg then Inl ValueError
               else let chosen = py_take (rc_num_node cfg) (sort_key nr_id candidates)
                 in Inr (map nr_id chosen, map nr_total chosen))"

definition place_segment ::
    "int \<Rightarrow> string \<Rightarrow> node_resource list \<Rightarrow> nat \<times> int \<times> int \<Rightarrow> node_resource list result" where
  "place_segment num_node ct ns seg =
     (case seg of (i, ls, le) \<Rightarrow>
        if i < length ns \<and> int i < num_node
        then Inr (ns[i := (ns ! i)\<lparr>nr_alloc := dict_append ct (ls, le) (nr_alloc (ns ! i))\<rparr>])
        else Inl IndexError)"

definition place_component ::
    "int \<Rightarrow> int list \<Rightarrow> node_resource list \<Rightarrow> string \<times> index_value \<Rightarrow> node_resource list outcome" where
  "place_component num_node offs ns kv =
     bind_outcome (Some (parse_index_str (snd kv))) (\<lambda>ranges.
       foldO (\<lambda>ns' (gs, ge). bind_outcome (split_global_range_by_nodes gs ge offs) (\<lambda>segs.
                Some (foldM (place_segment num_node (fst kv)) ns' segs))) ns ranges)"

definition from_yaml_dict ::
    "resource_pool_config \<Rightarrow> (string, node_resource) dict \<Rightarrow> string list \<Rightarrow> resource_pool outcome" where
  "from_yaml_dict cfg cluster used =
     bind_outcome (Some (select_pool_nodes cfg cluster used)) (\<lambda>(ids, per_node).
     bind_outcome (Some (mapM (\<lambda>i. of_option KeyError (map_option node_copy (map_of cluster i))) ids)) (\<lambda>ns.
     bind_outcome (foldO (place_component (rc_num_node cfg) (node_offsets per_node)) ns
                     (filter (\<lambda>kv. snd kv \<noteq> IvNone) (rc_components cfg))) (\<lambda>ns'.
     Some (Inr (rebuild_component_allocations (new_pool (rc_name cfg) ns'))))))"

end
