(* ===== verification/Scheduling.thy ===== *)
theory Scheduling
  imports Config Cluster_Info
begin

text \<open>
  \<open>rlightning/utils/placement/scheduling.py\<close>: the resource requirements of the four component
  types and their derivation from the main configuration. \<open>worker_num\<close> is an integer or the
  string \<open>auto\<close>, GPU amounts are floats modelled as rationals.
\<close>

record scheduling =
  worker_num :: worker_count
  num_cpus :: int
  num_gpus :: rat

definition sched_total_gpus :: "scheduling \<Rightarrow> rat" where
  "sched_total_gpus s = (case worker_num s of Auto \<Rightarrow> 0 | Workers n \<Rightarrow> of_int n * num_gpus s)"

definition sched_total_cpus :: "scheduling \<Rightarrow> int" where
  "sched_total_cpus s = (case worker_num s of Auto \<Rightarrow> 0 | Workers n \<Rightarrow> n * num_cpus s)"

record component_scheduling =
  env_worker :: "scheduling list option"
  train_worker :: "scheduling option"
  eval_worker :: "scheduling option"
  buffer_worker :: "scheduling option"

subsection \<open>The number of buffer workers\<close>

text \<open>
  \<open>next(iter(node_info.values()))["GPU"]\<close> raises on an empty cluster, the division when the first
  node has no GPU.
\<close>

definition infer_auto_buffer_worker_num ::
    "cluster_info \<Rightarrow> component_scheduling \<Rightarrow> component_scheduling result" where
  "infer_auto_buffer_worker_num ci s =
     (case buffer_worker s of
        None \<Rightarrow> Inr s
      | Some b \<Rightarrow>
          if worker_num b \<noteq> Auto then Inr s
          else bind_result (of_option AssertionError (train_worker s)) (\<lambda>t.
            case ci of
              [] \<Rightarrow> Inl StopIteration
            | (_, info) # _ \<Rightarrow>
                if ni_gpu info = 0 then Inl ZeroDivisionError
                else Inr (s\<lparr>buffer_worker :=
                  Some (b\<lparr>worker_num := Workers \<lceil>sched_total_gpus t / of_int (ni_gpu info)\<rceil>\<rparr>)\<rparr>)))"

definition adjust_buffer_worker_num ::
    "int \<Rightarrow> component_scheduling \<Rightarrow> component_scheduling result" where
  "adjust_buffer_worker_num train_node_count s =
     bind_result (of_option AssertionError (buffer_worker s)) (\<lambda>b.
       Inr (s\<lparr>buffer_worker := Some (b\<lparr>worker_num := Workers train_node_count\<rparr>)\<rparr>))"

subsection \<open>Requirements\<close>

definition opt_requirements :: "scheduling option \<Rightarrow> rat \<times> int" where
  "opt_requirements w =
     (case w of None \<Rightarrow> (0, 0) | Some s \<Rightarrow> (sched_total_gpus s, sched_total_cpus s))"

definition env_requirements :: "scheduling list option \<Rightarrow> rat \<times> int" where
  "env_requirements w =
     (case w of
        None \<Rightarrow> (0, 0)
      | Some ss \<Rightarrow> fold (\<lambda>e (g, c). (g + sched_total_gpus e, c + sched_total_cpus e)) ss (0, 0))"

definition train_pool_requirements :: "component_scheduling \<Rightarrow> rat \<times> int" where
  "train_pool_requirements s =
     (let (tg, tc) = opt_requirements (train_worker s); (bg, bc) = opt_requirements (buffer_worker s)
      in (tg + bg, tc + bc))"

definition rollout_pool_requirements :: "component_scheduling \<Rightarrow> rat \<times> int" where
  "rollout_pool_requirements s =
     (let (g, c) = opt_requirements (eval_worker s)
      in (case env_worker s of
            None \<Rightarrow> (g, c)
          | Some ss \<Rightarrow> fold (\<lambda>e (g, c). (g + sched_total_gpus e, c + sched_total_cpus e)) ss (g, c)))"

definition get_component_requirements :: "component_scheduling \<Rightarrow> string \<Rightarrow> (rat \<times> int) result" where
  "get_component_requirements s ct =
     (if ct = ''env'' then Inr (env_requirements (env_worker s))
      else if ct = ''train'' then Inr (opt_requirements (train_worker s))
      else if ct = ''eval'' then Inr (opt_requirements (eval_worker s))
      else if ct = ''buffer'' then Inr (opt_requirements (buffer_worker s))
      else Inl ValueError)"

lemma fold_requirements:
  "fold (\<lambda>e (g, c). (g + sched_total_gpus e, c + sched_total_cpus e)) ss (g, c) =
     (g + sum_list (map sched_total_gpus ss), c + sum_list (map sched_total_cpus ss))"
  by (induction ss arbitrary: g c) (auto simp: algebra_simps)

lemma env_requirements_sum:
  "env_requirements (Some ss) =
     (sum_list (map sched_total_gpus ss), sum_list (map sched_total_cpus ss))"
  by (simp add: env_requirements_def fold_requirements)

subsection \<open>From the configuration\<close>

definition storage_buffer_workers :: "storage_config \<Rightarrow> worker_count \<Rightarrow> worker_count" where
  "storage_buffer_workers st n =
     (case st_type st of
        Unified \<Rightarrow> Workers 1
      | Sharded \<Rightarrow> (case st_num_shards st of
                      None \<Rightarrow> n
                    | Some k \<Rightarrow> if k \<noteq> n then k else n))"

definition setup_component_scheduling ::
    "main_config \<Rightarrow> (main_config \<times> component_scheduling) result" where
  "setup_component_scheduling cfg =
     bind_result (of_option ValueError (mc_cluster cfg)) (\<lambda>cl.
       let st = bc_storage (mc_buffer cfg);
           n = storage_buffer_workers st (cc_buffer_worker_num cl);
           cl' = cl\<lparr>cc_buffer_worker_num := n\<rparr>;
           buffer_num_gpus = (if st_device st = Cuda then 1 else 0)
       in Inr (cfg\<lparr>mc_cluster := Some cl'\<rparr>,
               \<lparr>env_worker = Some (map (\<lambda>e. \<lparr>worker_num = Workers (ec_num_workers e),
                                            num_cpus = ec_num_cpus e, num_gpus = ec_num_gpus e\<rparr>)
                                  (mc_env cfg)),
                train_worker = Some \<lparr>worker_num = Workers (cc_train_worker_num cl'), num_cpus = 1,
                                     num_gpus = pc_train_num_gpus (mc_policy cfg)\<rparr>,
                eval_worker = Some \<lparr>worker_num = Workers (cc_eval_worker_num cl'), num_cpus = 1,
                                    num_gpus = pc_eval_num_gpus (mc_policy cfg)\<rparr>,
                buffer_worker = Some \<lparr>worker_num = n, num_cpus = 1, num_gpus = buffer_num_gpus\<rparr>\<rparr>))"

subsection \<open>Properties\<close>

lemma ceil_div_bounds:
  fixes g :: rat and n :: int
  assumes "0 < n"
  shows "g \<le> of_int (\<lceil>g / of_int n\<rceil> * n)" "of_int ((\<lceil>g / of_int n\<rceil> - 1) * n) < g"
proof -
  have "g / of_int n \<le> of_int \<lceil>g / of_int n\<rceil>" by simp
  then have "g \<le> of_int \<lceil>g / of_int n\<rceil> * of_int n"
    using assms by (subst (asm) pos_divide_le_eq) auto
  then show "g \<le> of_int (\<lceil>g / of_int n\<rceil> * n)" by simp
  have "of_int \<lceil>g / of_int n\<rceil> - 1 < g / of_int n" by linarith
  then have "(of_int \<lceil>g / of_int n\<rceil> - 1) * of_int n < g"
    using assms by (subst (asm) pos_less_divide_eq) auto
  then show "of_int ((\<lceil>g / of_int n\<rceil> - 1) * n) < g" by simp
qed

lemma infer_auto_minimal:
  assumes "buffer_worker s = Some b" "worker_num b = Auto" "train_worker s = Some t" "0 < ni_gpu i"
  shows "\<exists>k. infer_auto_buffer_worker_num ((nid, i) # ci) s =
               Inr (s\<lparr>buffer_worker := Some (b\<lparr>worker_num := Workers k\<rparr>)\<rparr>)
             \<and> sched_total_gpus t \<le> of_int (k * ni_gpu i)
             \<and> of_int ((k - 1) * ni_gpu i) < sched_total_gpus t"
  using assms ceil_div_bounds [of "ni_gpu i" "sched_total_gpus t"]
  by (intro exI [of _ "\<lceil>sched_total_gpus t / of_int (ni_gpu i)\<rceil>"])
     (simp add: infer_auto_buffer_worker_num_def)

end
