(* ===== verification/Pool_Planner.thy ===== *)
theory Pool_Planner
  imports Resource_Pool Scheduling
begin

text \<open>
  \<open>ResourcePoolPlanner\<close> of \<open>rlightning/utils/placement/resource_pool.py\<close>: discovery, validation of
  the requirements, planning of the pools for the strategies \<open>disaggregate\<close> and \<open>colocate\<close>, and
  the manually configured pools. The planner's node objects are shared with the pools; the
  planning loops return the updated nodes in their sorted order, the store \<open>pl_nodes\<close> is updated
  from them and the pools are built from the final nodes, as in the source, where the pool objects
  are created after the loops.
\<close>

record resource_summary =
  rs_train :: rat
  rs_rollout :: rat
  rs_env :: rat
  rs_eval :: rat

record planner =
  pl_sched :: component_scheduling
  pl_cluster :: "cluster_info option"
  pl_nodes :: "(string, node_resource) dict"
  pl_pools :: "(string, resource_pool) dict"
  pl_summary :: "resource_summary option"

definition new_planner :: "component_scheduling \<Rightarrow> cluster_info option \<Rightarrow> planner" where
  "new_planner s ci =
     \<lparr>pl_sched = s, pl_cluster = ci, pl_nodes = [], pl_pools = [], pl_summary = None\<rparr>"

subsection \<open>Discovery and validation\<close>

text \<open>\<open>rows\<close> is Ray's node table, read when the planner was built without cluster information.\<close>

definition discover_cluster_resources :: "ray_node list \<Rightarrow> planner \<Rightarrow> planner" where
  "discover_cluster_resources rows p =
     (let ci = (case pl_cluster p of Some ci \<Rightarrow> ci | None \<Rightarrow> snd (get_cluster_resources rows))
      in p\<lparr>pl_cluster := Some ci,
           pl_nodes := fold (\<lambda>(nid, info) d.
             AList.update nid (new_node nid (ni_ip info) (ni_cpu info) (ni_gpu info)) d) ci []\<rparr>)"

definition ensure_discovered :: "ray_node list \<Rightarrow> planner \<Rightarrow> planner" where
  "ensure_discovered rows p = (if pl_nodes p = [] then discover_cluster_resources rows p else p)"

definition rollout_required :: "string \<Rightarrow> rat \<Rightarrow> rat \<Rightarrow> rat" where
  "rollout_required env_strategy env eval =
     (if env_strategy = ''device-colocate'' then max env eval else env + eval)"

definition required_gpus :: "string \<Rightarrow> rat \<Rightarrow> rat \<Rightarrow> rat result" where
  "required_gpus strategy train rollout =
     (if strategy = ''disaggregate'' then Inr (train + rollout)
      else if strategy = ''colocate'' then Inr (max train rollout)
      else Inl ValueError)"

text \<open>The flag of the result is \<open>is_valid\<close>; the message is not modelled.\<close>

definition validate_scheduling ::
    "ray_node list \<Rightarrow> string \<Rightarrow> string \<Rightarrow> planner \<Rightarrow> (bool \<times> planner) result" where
  "validate_scheduling rows strategy env_strategy p0 =
     (let p = ensure_discovered rows p0;
          total_gpus = sum_list (map nr_total (dict_values (pl_nodes p)));
          total_cpus = sum_list (map nr_cpus (dict_values (pl_nodes p)));
          (train_gpus, train_cpus) = train_pool_requirements (pl_sched p)
      in bind_result (get_component_requirements (pl_sched p) ''env'') (\<lambda>(env_gpus, env_cpus).
         bind_result (get_component_requirements (pl_sched p) ''eval'') (\<lambda>(eval_gpus, eval_cpus).
         let rollout_gpus = rollout_required env_strategy env_gpus eval_gpus
         in bind_result (required_gpus strategy train_gpus rollout_gpus) (\<lambda>required.
              if required > of_int total_gpus then Inr (False, p)
              else if train_cpus + eval_cpus + env_cpus > total_cpus then Inr (False, p)
              else Inr (True, p\<lparr>pl_summary := Some \<lparr>rs_train = train_gpus, rs_rollout = rollout_gpus,
                                                  rs_env = env_gpus, rs_eval = eval_gpus\<rparr>\<rparr>)))))"

subsection \<open>The planning loops\<close>

definition sorted_nodes :: "planner \<Rightarrow> node_resource list" where
  "sorted_nodes p = sort_key (\<lambda>n. - nr_total n) (dict_values (pl_nodes p))"

text \<open>
  Each loop returns the updated nodes and the ids of the nodes it appends to its pool.
\<close>

fun train_loop :: "rat \<Rightarrow> node_resource list \<Rightarrow> (node_resource list \<times> string list) result" where
  "train_loop remaining [] = Inr ([], [])"
| "train_loop remaining (n # ns) =
     (if is_empty n then bind_result (train_loop remaining ns) (\<lambda>(ns', ids). Inr (n # ns', ids))
      else if remaining \<le> 0 then Inr (n # ns, [])
      else let g = min (of_int (available_gpus n)) remaining in
        bind_result (allocate (Gpus g) [''train''] True n) (\<lambda>n'.
        bind_result (train_loop (remaining - g) ns) (\<lambda>(ns', ids).
        Inr (n' # ns', nr_id n # ids))))"

definition allocate_if_positive :: "rat \<Rightarrow> string \<Rightarrow> bool \<Rightarrow> node_resource \<Rightarrow> node_resource result" where
  "allocate_if_positive g ct consume n = (if g > 0 then allocate (Gpus g) [ct] consume n else Inr n)"

fun rollout_loop ::
    "string \<Rightarrow> string list \<Rightarrow> rat \<Rightarrow> rat \<Rightarrow> node_resource list
       \<Rightarrow> (node_resource list \<times> string list) result" where
  "rollout_loop env_strategy train_ids env_rem eval_rem [] = Inr ([], [])"
| "rollout_loop env_strategy train_ids env_rem eval_rem (n # ns) =
     (if is_empty n
      then bind_result (rollout_loop env_strategy train_ids env_rem eval_rem ns)
             (\<lambda>(ns', ids). Inr (n # ns', ids))
      else if env_rem \<le> 0 \<and> eval_rem \<le> 0 then Inr (n # ns, [])
      else let e = min (of_int (available_gpus n)) eval_rem in
        bind_result (allocate_if_positive e ''eval'' (env_strategy \<noteq> ''device-colocate'') n) (\<lambda>n1.
        let v = min (of_int (available_gpus n1)) env_rem in
        bind_result (allocate_if_positive v ''env'' True n1) (\<lambda>n2.
        bind_result (rollout_loop env_strategy train_ids (if v > 0 then env_rem - v else env_rem)
                       (if e > 0 then eval_rem - e else eval_rem) ns) (\<lambda>(ns', ids).
        Inr (n2 # ns', if nr_id n \<notin> set train_ids then nr_id n # ids else ids)))))"

fun colocate_loop ::
    "string \<Rightarrow> rat \<Rightarrow> rat \<Rightarrow> rat \<Rightarrow> node_resource list
       \<Rightarrow> (node_resource list \<times> string list) result" where
  "colocate_loop env_strategy train_rem env_rem eval_rem [] = Inr ([], [])"
| "colocate_loop env_strategy train_rem env_rem eval_rem (n # ns) =
     (if is_empty n
      then bind_result (colocate_loop env_strategy train_rem env_rem eval_rem ns)
             (\<lambda>(ns', ids). Inr (n # ns', ids))
      else if train_rem \<le> 0 \<and> env_rem \<le> 0 \<and> eval_rem \<le> 0 then Inr (n # ns, [])
      else let on_node = of_int (available_gpus n); t = min on_node train_rem;
               e = min on_node eval_rem; v = min on_node env_rem in
        bind_result (if train_rem > 0 then allocate (Gpus t) [''train''] False n else Inr n) (\<lambda>n1.
        bind_result (allocate_if_positive e ''eval'' (env_strategy \<noteq> ''device-colocate'') n1) (\<lambda>n2.
        bind_result (allocate_if_positive v ''env'' True n2) (\<lambda>n3.
        bind_result (colocate_loop env_strategy (if train_rem > 0 then train_rem - t else train_rem)
                       (if v > 0 then env_rem - v else env_rem)
                       (if e > 0 then eval_rem - e else eval_rem) ns) (\<lambda>(ns', ids).
        Inr (n3 # ns', nr_id n # ids))))))"

definition store_nodes :: "node_resource list \<Rightarrow> (string, node_resource) dict \<Rightarrow> (string, node_resource) dict" where
  "store_nodes ns d = fold (\<lambda>n. AList.update (nr_id n) n) ns d"

definition pool_of :: "string \<Rightarrow> string list \<Rightarrow> node_resource list \<Rightarrow> resource_pool" where
  "pool_of nm ids ns = rebuild_component_allocations (new_pool nm (filter (\<lambda>n. nr_id n \<in> set ids) ns))"

definition plan_disaggregate_pools :: "string \<Rightarrow> planner \<Rightarrow> planner result" where
  "plan_disaggregate_pools env_strategy p =
     bind_result (of_option ValueError (pl_summary p)) (\<lambda>s.
     bind_result (train_loop (rs_train s) (sorted_nodes p)) (\<lambda>(ns1, train_ids).
     bind_result (rollout_loop env_strategy train_ids (rs_env s) (rs_eval s) ns1) (\<lambda>(ns2, rollout_ids).
     Inr (p\<lparr>pl_nodes := store_nodes ns2 (pl_nodes p),
            pl_pools := AList.update ''rollout_pool'' (pool_of ''rollout_pool'' rollout_ids ns2)
                          (AList.update ''train_pool'' (pool_of ''train_pool'' train_ids ns2) (pl_pools p))\<rparr>))))"

definition plan_colocate_pools :: "string \<Rightarrow> planner \<Rightarrow> planner result" where
  "plan_colocate_pools env_strategy p =
     bind_result (of_option ValueError (pl_summary p)) (\<lambda>s.
     bind_result (colocate_loop env_strategy (rs_train s) (rs_env s) (rs_eval s) (sorted_nodes p)) (\<lambda>(ns, ids).
     Inr (p\<lparr>pl_nodes := store_nodes ns (pl_nodes p),
            pl_pools := AList.update ''global_pool'' (pool_of ''global_pool'' ids ns) (pl_pools p)\<rparr>)))"

text \<open>
  The loop that logs the pools reads \<open>component_types\<close>, which stores the inferred types.
\<close>

definition cache_types :: "resource_pool \<Rightarrow> resource_pool" where
  "cache_types pool = pool\<lparr>rp_types := Some (component_types pool)\<rparr>"

definition plan_resource_pools ::
    "ray_node list \<Rightarrow> string \<Rightarrow> string \<Rightarrow> planner \<Rightarrow> planner result" where
  "plan_resource_pools rows strategy env_strategy p0 =
     bind_result (validate_scheduling rows strategy env_strategy (ensure_discovered rows p0)) (\<lambda>(valid, p).
     if \<not> valid then Inl ValueError
     else bind_result
            (if strategy = ''disaggregate'' then plan_disaggregate_pools env_strategy p
             else if strategy = ''colocate'' then plan_colocate_pools env_strategy p
             else Inl ValueError) (\<lambda>p'.
          Inr (p'\<lparr>pl_pools := map (\<lambda>(nm, pool). (nm, cache_types pool)) (pl_pools p')\<rparr>)))"

subsection \<open>Manually configured pools\<close>

definition load_manual_resource_pools ::
    "ray_node list \<Rightarrow> resource_pool_config list \<Rightarrow> planner \<Rightarrow> planner outcome" where
  "load_manual_resource_pools rows cfgs p0 =
     (let p = ensure_discovered rows p0
      in bind_outcome
           (foldO (\<lambda>(used, pools) cfg.
              bind_outcome (from_yaml_dict cfg (pl_nodes p) used) (\<lambda>pool.
                Some (Inr (used @ pool_node_ids pool, AList.update (rp_name pool) pool pools))))
              ([], []) cfgs)
           (\<lambda>(used, pools). Some (Inr (p\<lparr>pl_pools := pools\<rparr>))))"

subsection \<open>Queries\<close>

definition planner_component_node_count :: "string \<Rightarrow> planner \<Rightarrow> nat" where
  "planner_component_node_count ct p =
     sum_list (map (pool_component_node_count ct) (dict_values (pl_pools p)))"

definition get_pool_for_component :: "string \<Rightarrow> planner \<Rightarrow> resource_pool option" where
  "get_pool_for_component ct p =
     find (\<lambda>pool. ct \<in> set (component_types pool)) (dict_values (pl_pools p))"

definition to_yaml_config :: "planner \<Rightarrow> resource_pool_config list" where
  "to_yaml_config p = map to_yaml_dict (dict_values (pl_pools p))"

end
