(* ===== verification/Planner_Correct.thy ===== *)
theory Planner_Correct
  imports Pool_Planner
begin

text \<open>
  The planning loops allocate to every component exactly the GPUs it requires, whenever the
  requirements are whole numbers of GPUs that the validation accepts; and the one combination of
  strategies for which the validation promises more than the loop can do.
\<close>

subsection \<open>How many GPUs a component has\<close>

definition range_units :: "(int \<times> int) list \<Rightarrow> int" where
  "range_units rs = sum_list (map (\<lambda>(s, e). e - s + 1) rs)"

definition comp_units :: "string \<Rightarrow> node_resource \<Rightarrow> int" where
  "comp_units ct n = range_units (dict_get [] (nr_alloc n) ct)"

definition total_units :: "string \<Rightarrow> node_resource list \<Rightarrow> int" where
  "total_units ct ns = sum_list (map (comp_units ct) ns)"

definition total_available :: "node_resource list \<Rightarrow> int" where
  "total_available ns = sum_list (map available_gpus ns)"

lemma range_units_append [simp]: "range_units (rs @ rs') = range_units rs + range_units rs'"
  by (simp add: range_units_def)

lemma total_simps [simp]:
  "total_units ct [] = 0" "total_units ct (n # ns) = comp_units ct n + total_units ct ns"
  "total_available [] = 0" "total_available (n # ns) = available_gpus n + total_available ns"
  by (simp_all add: total_units_def total_available_def)

lemma node_wf_available: "node_wf n \<Longrightarrow> 0 \<le> available_gpus n"
  by (simp add: node_wf_def available_gpus_def)

lemma total_available_nonneg: "list_all node_wf ns \<Longrightarrow> 0 \<le> total_available ns"
  by (induction ns) (auto dest: node_wf_available)

text \<open>One whole-number allocation to one component.\<close>

definition gave :: "string \<Rightarrow> int \<Rightarrow> bool \<Rightarrow> node_resource \<Rightarrow> node_resource \<Rightarrow> bool" where
  "gave ct g consume n n' \<longleftrightarrow> node_wf n' \<and> nr_id n' = nr_id n \<and> nr_total n' = nr_total n
     \<and> available_gpus n' = available_gpus n - (if consume then g else 0)
     \<and> (\<forall>c. comp_units c n' = comp_units c n + (if c = ct then g else 0))
     \<and> (consume \<longrightarrow> node_exclusive n \<longrightarrow> node_exclusive n')"

lemma allocate_one:
  assumes "node_wf n" "0 \<le> g" "g \<le> available_gpus n"
  shows "\<exists>n'. allocate (Gpus (of_int g)) [ct] consume n = Inr n' \<and> gave ct g consume n n'"
proof -
  have alloc: "allocate (Gpus (of_int g)) [ct] consume n = (if g = 0 then Inr n
     else Inr (n\<lparr>nr_alloc := dict_append ct (nr_cursor n, nr_cursor n + g - 1) (nr_alloc n),
                nr_max := max (nr_max n) (nr_cursor n + g),
                nr_cursor := (if consume then nr_cursor n + g else nr_cursor n)\<rparr>))"
    using allocate_single [of "of_int g" n ct consume] assms unfolding py_trunc_of_int by simp
  then obtain n' where n': "allocate (Gpus (of_int g)) [ct] consume n = Inr n'"
    by (cases "g = 0") simp_all
  have "node_wf n'" using allocate_keeps_wf [OF assms(1) _ n'] by (simp add: request_ok_def)
  moreover have "available_gpus n' = available_gpus n - (if consume then g else 0)"
    "\<forall>c. comp_units c n' = comp_units c n + (if c = ct then g else 0)"
    using alloc n' by (auto simp: available_gpus_def comp_units_def range_units_def split: if_splits)
  moreover have "consume \<longrightarrow> node_exclusive n \<longrightarrow> node_exclusive n'"
    using allocate_keeps_exclusive [of n "Gpus (of_int g)" "[ct]" n'] assms(1) n'
    by (auto simp: request_ok_def node_wf_def)
  ultimately show ?thesis using n' allocate_fields [OF n'] by (auto simp: gave_def)
qed

lemma allocate_if_positive_one:
  assumes "node_wf n" "0 \<le> g" "g \<le> available_gpus n"
  shows "\<exists>n'. allocate_if_positive (of_int g) ct consume n = Inr n' \<and> gave ct g consume n n'"
proof (cases "0 < g")
  case True
  then have "(0::rat) < of_int g" by simp
  then show ?thesis using allocate_one [OF assms] by (simp add: allocate_if_positive_def)
next
  case False
  with assms show ?thesis by (auto simp: allocate_if_positive_def gave_def)
qed

lemma min_of_int: "min (of_int a) (of_int b) = (of_int (min a b) :: rat)"
  by (simp add: min_def)

subsection \<open>The loops\<close>

definition loop_result ::
    "node_resource list \<Rightarrow> node_resource list \<Rightarrow> (string \<Rightarrow> int) \<Rightarrow> bool" where
  "loop_result ns ns' given \<longleftrightarrow> list_all node_wf ns' \<and> map nr_id ns' = map nr_id ns
     \<and> map nr_total ns' = map nr_total ns
     \<and> (\<forall>ct. total_units ct ns' = total_units ct ns + given ct)"

lemma loop_result_same: "list_all node_wf ns \<Longrightarrow> (\<And>ct. given ct = 0) \<Longrightarrow> loop_result ns ns given"
  by (simp add: loop_result_def)

lemma loop_result_Cons:
  assumes "loop_result ns ns' given" "node_wf n'" "nr_id n' = nr_id n" "nr_total n' = nr_total n"
    and "\<And>ct. comp_units ct n' = comp_units ct n + own ct" "\<And>ct. given' ct = own ct + given ct"
  shows "loop_result (n # ns) (n' # ns') given'"
  using assms by (simp add: loop_result_def)

lemma train_loop_allocates:
  assumes "list_all node_wf ns" "0 \<le> R" "R \<le> total_available ns"
  shows "\<exists>ns' ids. train_loop (of_int R) ns = Inr (ns', ids)
     \<and> loop_result ns ns' (\<lambda>ct. if ct = ''train'' then R else 0)
     \<and> total_available ns' = total_available ns - R
     \<and> (list_all node_exclusive ns \<longrightarrow> list_all node_exclusive ns')"
  using assms
proof (induction ns arbitrary: R)
  case Nil
  then show ?case by (auto intro: loop_result_same)
next
  case (Cons n ns)
  have wf: "node_wf n" and wfs: "list_all node_wf ns" using Cons.prems by auto
  consider "is_empty n" | "\<not> is_empty n" "R = 0" | "\<not> is_empty n" "0 < R"
    using Cons.prems(2) by force
  then show ?case
  proof cases
    case 1
    then obtain ns' ids where "train_loop (of_int R) ns = Inr (ns', ids)"
      "loop_result ns ns' (\<lambda>ct. if ct = ''train'' then R else 0)"
      "total_available ns' = total_available ns - R"
      "list_all node_exclusive ns \<longrightarrow> list_all node_exclusive ns'"
      using Cons.IH [OF wfs Cons.prems(2)] Cons.prems(3) by (auto simp: is_empty_def)
    with 1 wf show ?thesis
      by (auto simp: is_empty_def intro!: loop_result_Cons [where own = "\<lambda>_. 0"])
  next
    case 2
    then show ?thesis using Cons.prems(1) by (auto intro: loop_result_same)
  next
    case 3
    let ?g = "min (available_gpus n) R"
    have "0 \<le> ?g" "?g \<le> available_gpus n" using node_wf_available [OF wf] 3 by auto
    then obtain n' where n': "allocate (Gpus (of_int ?g)) [''train''] True n = Inr n'"
      and gave: "gave ''train'' ?g True n n'"
      using allocate_one [OF wf] by blast
    have "0 \<le> R - ?g" "R - ?g \<le> total_available ns"
      using Cons.prems(3) total_available_nonneg [OF wfs] by auto
    then obtain ns' ids where ns': "train_loop (of_int (R - ?g)) ns = Inr (ns', ids)"
      "loop_result ns ns' (\<lambda>ct. if ct = ''train'' then R - ?g else 0)"
      "total_available ns' = total_available ns - (R - ?g)"
      "list_all node_exclusive ns \<longrightarrow> list_all node_exclusive ns'"
      using Cons.IH [OF wfs] by blast
    have "train_loop (of_int R) (n # ns) = Inr (n' # ns', nr_id n # ids)"
      using 3 n' ns'(1) by (simp add: min_of_int Let_def)
    moreover have "loop_result (n # ns) (n' # ns') (\<lambda>ct. if ct = ''train'' then R else 0)"
      using ns'(2) by (rule loop_result_Cons [where own = "\<lambda>ct. if ct = ''train'' then ?g else 0"])
        (use gave in \<open>simp_all add: gave_def\<close>)
    ultimately show ?thesis using ns'(3,4) gave by (auto simp: gave_def)
  qed
qed

text \<open>The rollout loop; \<open>shared\<close> says that the two components may use the same GPUs.\<close>

lemma rollout_loop_allocates:
  assumes "list_all node_wf ns" "0 \<le> E" "0 \<le> V"
    and "(if shared then max V E else V + E) \<le> total_available ns"
    and "shared \<longleftrightarrow> st = ''device-colocate''"
  shows "\<exists>ns' ids. rollout_loop st tids (of_int V) (of_int E) ns = Inr (ns', ids)
     \<and> loop_result ns ns' (\<lambda>ct. if ct = ''eval'' then E else if ct = ''env'' then V else 0)
     \<and> (\<not> shared \<and> list_all node_exclusive ns \<longrightarrow> list_all node_exclusive ns')"
  using assms(1-4)
proof (induction ns arbitrary: E V)
  case Nil
  then have "E = 0" "V = 0" by (auto split: if_splits)
  then show ?case by (auto intro: loop_result_same)
next
  case (Cons n ns)
  have wf: "node_wf n" and wfs: "list_all node_wf ns" using Cons.prems by auto
  let ?given = "\<lambda>E V ct. if ct = ''eval'' then E else if ct = ''env'' then V else (0::int)"
  consider "is_empty n" | "\<not> is_empty n" "E = 0 \<and> V = 0" | "\<not> is_empty n" "\<not> (E = 0 \<and> V = 0)"
    by blast
  then show ?case
  proof cases
    case 1
    then obtain ns' ids where "rollout_loop st tids (of_int V) (of_int E) ns = Inr (ns', ids)"
      "loop_result ns ns' (?given E V)"
      "\<not> shared \<and> list_all node_exclusive ns \<longrightarrow> list_all node_exclusive ns'"
      using Cons.IH [OF wfs Cons.prems(2,3)] Cons.prems(4) by (auto simp: is_empty_def)
    with 1 wf show ?thesis
      by (auto intro!: loop_result_Cons [where own = "\<lambda>_. 0"])
  next
    case 2
    then show ?thesis using Cons.prems(1) by (auto intro: loop_result_same)
  next
    case 3
    let ?e = "min (available_gpus n) E"
    have e: "0 \<le> ?e" "?e \<le> available_gpus n" using node_wf_available [OF wf] Cons.prems by auto
    have st: "(st \<noteq> ''device-colocate'') = (\<not> shared)" using assms(5) by simp
    obtain n1 where n1: "allocate_if_positive (of_int ?e) ''eval'' (\<not> shared) n = Inr n1"
      and gave1: "gave ''eval'' ?e (\<not> shared) n n1"
      using allocate_if_positive_one [OF wf e] by blast
    let ?v = "min (available_gpus n1) V"
    have wf1: "node_wf n1" using gave1 by (simp add: gave_def)
    have v: "0 \<le> ?v" "?v \<le> available_gpus n1" using node_wf_available [OF wf1] Cons.prems by auto
    obtain n2 where n2: "allocate_if_positive (of_int ?v) ''env'' True n1 = Inr n2"
      and gave2: "gave ''env'' ?v True n1 n2"
      using allocate_if_positive_one [OF wf1 v] by blast
    have avail1: "available_gpus n1 = available_gpus n - (if \<not> shared then ?e else 0)"
      using gave1 by (simp add: gave_def)
    have "0 \<le> E - ?e" "0 \<le> V - ?v"
      "(if shared then max (V - ?v) (E - ?e) else (V - ?v) + (E - ?e)) \<le> total_available ns"
      using Cons.prems(2-4) avail1 total_available_nonneg [OF wfs]
      by (auto simp: min_def split: if_splits)
    then obtain ns' ids where ns': "rollout_loop st tids (of_int (V - ?v)) (of_int (E - ?e)) ns = Inr (ns', ids)"
      "loop_result ns ns' (?given (E - ?e) (V - ?v))"
      "\<not> shared \<and> list_all node_exclusive ns \<longrightarrow> list_all node_exclusive ns'"
      using Cons.IH [OF wfs] by blast
    have rem: "(if (0::rat) < of_int ?v then of_int V - of_int ?v else of_int V) = (of_int (V - ?v) :: rat)"
      "(if (0::rat) < of_int ?e then of_int E - of_int ?e else of_int E) = (of_int (E - ?e) :: rat)"
      using e v by auto
    have notdone: "\<not> ((of_int V :: rat) \<le> 0 \<and> (of_int E :: rat) \<le> 0)" using 3 Cons.prems by auto
    have "rollout_loop st tids (of_int V) (of_int E) (n # ns) =
        Inr (n2 # ns', if nr_id n \<notin> set tids then nr_id n # ids else ids)"
      unfolding rollout_loop.simps Let_def min_of_int st n1 bind_result_Inr n2 rem ns'(1)
      using 3 notdone by auto
    moreover have "loop_result (n # ns) (n2 # ns') (?given E V)"
      using ns'(2) by (rule loop_result_Cons [where own = "?given ?e ?v"])
        (use gave1 gave2 in \<open>simp_all add: gave_def\<close>)
    ultimately show ?thesis using ns'(3) gave1 gave2 by (auto simp: gave_def)
  qed
qed

lemma colocate_loop_allocates:
  assumes "list_all node_wf ns" "0 \<le> T" "0 \<le> E" "0 \<le> V"
    and "max T (max V E) \<le> total_available ns" "st = ''device-colocate''"
  shows "\<exists>ns' ids. colocate_loop st (of_int T) (of_int V) (of_int E) ns = Inr (ns', ids)
     \<and> loop_result ns ns' (\<lambda>ct. if ct = ''train'' then T else if ct = ''eval'' then E
                                else if ct = ''env'' then V else 0)"
  using assms(1-5)
proof (induction ns arbitrary: T E V)
  case Nil
  then have "T = 0" "E = 0" "V = 0" by auto
  then show ?case by (auto intro: loop_result_same)
next
  case (Cons n ns)
  have wf: "node_wf n" and wfs: "list_all node_wf ns" using Cons.prems by auto
  let ?given = "\<lambda>T E V ct. if ct = ''train'' then T else if ct = ''eval'' then E
                           else if ct = ''env'' then V else (0::int)"
  consider "is_empty n" | "\<not> is_empty n" "T = 0 \<and> E = 0 \<and> V = 0"
    | "\<not> is_empty n" "\<not> (T = 0 \<and> E = 0 \<and> V = 0)" by blast
  then show ?case
  proof cases
    case 1
    then obtain ns' ids where "colocate_loop st (of_int T) (of_int V) (of_int E) ns = Inr (ns', ids)"
      "loop_result ns ns' (?given T E V)"
      using Cons.IH [OF wfs Cons.prems(2-4)] Cons.prems(5) by (auto simp: is_empty_def)
    with 1 wf show ?thesis
      by (auto intro!: loop_result_Cons [where own = "\<lambda>_. 0"])
  next
    case 2
    then show ?thesis using Cons.prems(1) by (auto intro: loop_result_same)
  next
    case 3
    let ?a = "available_gpus n"
    let ?t = "min ?a T" and ?e = "min ?a E" and ?v = "min ?a V"
    have nn: "0 \<le> ?t" "0 \<le> ?e" "0 \<le> ?v" using node_wf_available [OF wf] Cons.prems by auto
    have t: "(if (0::rat) < of_int T then allocate (Gpus (of_int ?t)) [''train''] False n else Inr n)
        = allocate_if_positive (of_int ?t) ''train'' False n"
      using Cons.prems(2) nn(1) 3(1) node_wf_available [OF wf]
      by (auto simp: allocate_if_positive_def is_empty_def min_def)
    have st: "(st \<noteq> ''device-colocate'') = False" using assms(6) by simp
    obtain n1 where n1: "allocate_if_positive (of_int ?t) ''train'' False n = Inr n1"
      and gave1: "gave ''train'' ?t False n n1"
      using allocate_if_positive_one [OF wf nn(1)] by fastforce
    then have wf1: "node_wf n1" and a1: "available_gpus n1 = ?a" by (simp_all add: gave_def)
    obtain n2 where n2: "allocate_if_positive (of_int ?e) ''eval'' False n1 = Inr n2"
      and gave2: "gave ''eval'' ?e False n1 n2"
      using allocate_if_positive_one [OF wf1 nn(2)] a1 by fastforce
    then have wf2: "node_wf n2" and a2: "available_gpus n2 = ?a" by (simp_all add: gave_def a1)
    obtain n3 where n3: "allocate_if_positive (of_int ?v) ''env'' True n2 = Inr n3"
      and gave3: "gave ''env'' ?v True n2 n3"
      using allocate_if_positive_one [OF wf2 nn(3)] a2 by fastforce
    have "0 \<le> T - ?t" "0 \<le> E - ?e" "0 \<le> V - ?v" "max (T - ?t) (max (V - ?v) (E - ?e)) \<le> total_available ns"
      using Cons.prems(5) total_available_nonneg [OF wfs] by auto
    then obtain ns' ids where ns':
      "colocate_loop st (of_int (T - ?t)) (of_int (V - ?v)) (of_int (E - ?e)) ns = Inr (ns', ids)"
      "loop_result ns ns' (?given (T - ?t) (E - ?e) (V - ?v))"
      using Cons.IH [OF wfs] by blast
    have rem: "(if (0::rat) < of_int T then of_int T - of_int ?t else of_int T) = (of_int (T - ?t) :: rat)"
      "(if (0::rat) < of_int ?v then of_int V - of_int ?v else of_int V) = (of_int (V - ?v) :: rat)"
      "(if (0::rat) < of_int ?e then of_int E - of_int ?e else of_int E) = (of_int (E - ?e) :: rat)"
      using nn Cons.prems by auto
    have notdone: "\<not> ((of_int T :: rat) \<le> 0 \<and> (of_int V :: rat) \<le> 0 \<and> (of_int E :: rat) \<le> 0)"
      using 3 Cons.prems by auto
    have "colocate_loop st (of_int T) (of_int V) (of_int E) (n # ns) = Inr (n3 # ns', nr_id n # ids)"
      unfolding colocate_loop.simps Let_def min_of_int st t n1 bind_result_Inr n2 n3 rem ns'(1)
      using 3 notdone by auto
    moreover have "loop_result (n # ns) (n3 # ns') (?given T E V)"
      using ns'(2) by (rule loop_result_Cons [where own = "?given ?t ?e ?v"])
        (use gave1 gave2 gave3 in \<open>simp_all add: gave_def\<close>)
    ultimately show ?thesis by blast
  qed
qed

subsection \<open>From the validated requirements to the plan\<close>

lemma discover_nodes_wf:
  assumes "list_all (\<lambda>(_, i). 0 \<le> ni_gpu i) ci"
  shows "dict_ok (pl_nodes (discover_cluster_resources rows (new_planner s (Some ci))))
     \<and> list_all (\<lambda>(k, n). nr_id n = k \<and> node_wf n \<and> nr_alloc n = [] \<and> nr_cursor n = 0)
         (pl_nodes (discover_cluster_resources rows (new_planner s (Some ci))))"
proof -
  have "dict_ok d \<and> list_all (\<lambda>(k, n). nr_id n = k \<and> node_wf n \<and> nr_alloc n = [] \<and> nr_cursor n = 0) d \<Longrightarrow>
    dict_ok (fold (\<lambda>(nid, info) d. AList.update nid (new_node nid (ni_ip info) (ni_cpu info) (ni_gpu info)) d) xs d)
    \<and> list_all (\<lambda>(k, n). nr_id n = k \<and> node_wf n \<and> nr_alloc n = [] \<and> nr_cursor n = 0)
       (fold (\<lambda>(nid, info) d. AList.update nid (new_node nid (ni_ip info) (ni_cpu info) (ni_gpu info)) d) xs d)"
    if "list_all (\<lambda>(_, i). 0 \<le> ni_gpu i) xs" for xs and d :: "(string, node_resource) dict"
    using that
  proof (induction xs arbitrary: d)
    case (Cons x xs)
    obtain nid info where x: "x = (nid, info)" by force
    let ?d = "AList.update nid (new_node nid (ni_ip info) (ni_cpu info) (ni_gpu info)) d"
    have "dict_ok ?d" using Cons.prems by simp
    moreover have "list_all (\<lambda>(k, n). nr_id n = k \<and> node_wf n \<and> nr_alloc n = [] \<and> nr_cursor n = 0) ?d"
      using Cons.prems x by (auto simp: list_all_iff set_update_dict_ok) (auto simp: new_node_def)
    ultimately show ?case using Cons.IH [of ?d] Cons.prems(2) x by simp
  qed simp
  from this [of ci "[]"] assms show ?thesis
    by (simp add: discover_cluster_resources_def new_planner_def)
qed

text \<open>
  The planner as \<open>GlobalResourceManager.initialize\<close> makes it: fresh, its nodes just discovered.
  The requirements of \<open>whole_requirements\<close> are whole numbers of GPUs.
\<close>

definition started_planner :: "component_scheduling \<Rightarrow> cluster_info \<Rightarrow> planner" where
  "started_planner s ci = discover_cluster_resources [] (new_planner s (Some ci))"

definition whole_requirements :: "component_scheduling \<Rightarrow> int \<Rightarrow> int \<Rightarrow> int \<Rightarrow> bool" where
  "whole_requirements s T E V \<longleftrightarrow>
     fst (train_pool_requirements s) = of_int T \<and> fst (opt_requirements (eval_worker s)) = of_int E
     \<and> fst (env_requirements (env_worker s)) = of_int V \<and> 0 \<le> T \<and> 0 \<le> E \<and> 0 \<le> V"

definition plan_gives :: "planner \<Rightarrow> string \<Rightarrow> int" where
  "plan_gives p ct = total_units ct (dict_values (pl_nodes p))"

definition planner_nodes_wf :: "planner \<Rightarrow> bool" where
  "planner_nodes_wf p \<longleftrightarrow> list_all node_wf (dict_values (pl_nodes p))"

lemma fold_update_perm:
  assumes "dict_ok d" "mset (map nr_id ns) = mset (dict_keys d)" "\<forall>(k, n) \<in> set d. nr_id n = k"
  shows "mset (dict_values (store_nodes ns d)) = mset ns"
proof -
  have d: "distinct (map nr_id ns)" using assms(1,2) by (metis mset_eq_imp_distinct_iff)
  have keys: "dict_keys (store_nodes ns d) = dict_keys d"
  proof -
    have "set (map nr_id ns) \<subseteq> set (dict_keys d) \<Longrightarrow> dict_keys (store_nodes ns d) = dict_keys d" for ns d
    proof (induction ns arbitrary: d)
      case (Cons n ns)
      have "dict_keys (AList.update (nr_id n) n d) = dict_keys d"
        using Cons.prems by (simp add: update_keys)
      moreover have "dict_keys (store_nodes ns (AList.update (nr_id n) n d)) = dict_keys (AList.update (nr_id n) n d)"
        using Cons.prems by (intro Cons.IH) auto
      ultimately show ?case by (simp add: store_nodes_def)
    qed (simp add: store_nodes_def)
    then show ?thesis using assms(2) by (metis order_refl set_mset_mset)
  qed
  have look: "map_of (store_nodes ns d) (nr_id n) = Some n" if "n \<in> set ns" for n
  proof -
    have "distinct (map nr_id ns) \<Longrightarrow> n \<in> set ns \<Longrightarrow> map_of (store_nodes ns d) (nr_id n) = Some n" for ns d
    proof (induction ns arbitrary: d)
      case (Cons m ns)
      have other: "nr_id x \<notin> nr_id ` set ns \<Longrightarrow> map_of (store_nodes ns e) (nr_id x) = map_of e (nr_id x)" for x e
        by (induction ns arbitrary: e) (auto simp: store_nodes_def)
      show ?case
        using Cons other [of m] by (auto simp: store_nodes_def)
    qed simp
    with d that show ?thesis by blast
  qed
  have ok: "dict_ok (store_nodes ns d)" using keys assms(1) by simp
  have "mset (map (\<lambda>k. the (map_of (store_nodes ns d) k)) (dict_keys (store_nodes ns d))) =
      mset (map (\<lambda>k. the (map_of (store_nodes ns d) k)) (map nr_id ns))"
    unfolding keys mset_map [of _ "dict_keys d"] mset_map [of _ "map nr_id ns"] assms(2) ..
  moreover have "map (\<lambda>k. the (map_of (store_nodes ns d) k)) (dict_keys (store_nodes ns d)) =
      dict_values (store_nodes ns d)"
    using ok by (auto intro!: map_cong)
  moreover have "map (\<lambda>k. the (map_of (store_nodes ns d) k)) (map nr_id ns) = ns"
    using look by (simp add: map_idI)
  ultimately show ?thesis by (simp only:)
qed

lemma total_units_perm: "mset xs = mset ys \<Longrightarrow> total_units ct xs = total_units ct ys"
  unfolding total_units_def by (metis mset_map sum_mset_sum_list)

lemma started_ensure [simp]: "ensure_discovered rows (started_planner s ci) = started_planner s ci"
  by (simp add: ensure_discovered_def started_planner_def discover_cluster_resources_def new_planner_def)

lemma started_nodes:
  fixes s
  assumes "list_all (\<lambda>(_, i). 0 \<le> ni_gpu i) ci"
  defines "p \<equiv> started_planner s ci"
  shows "dict_ok (pl_nodes p)" "\<forall>(k, n) \<in> set (pl_nodes p). nr_id n = k"
    "list_all node_wf (sorted_nodes p)" "list_all node_exclusive (sorted_nodes p)"
    "mset (map nr_id (sorted_nodes p)) = mset (dict_keys (pl_nodes p))"
    "total_available (sorted_nodes p) = sum_list (map nr_total (dict_values (pl_nodes p)))"
    "total_units ct (sorted_nodes p) = 0"
proof -
  have ok: "dict_ok (pl_nodes p)" and
    all: "\<And>k n. (k, n) \<in> set (pl_nodes p) \<Longrightarrow> nr_id n = k \<and> node_wf n \<and> nr_alloc n = [] \<and> nr_cursor n = 0"
    using discover_nodes_wf [OF assms(1), of "[]" s] by (auto simp: p_def started_planner_def list_all_iff)
  show "dict_ok (pl_nodes p)" by (rule ok)
  show "\<forall>(k, n) \<in> set (pl_nodes p). nr_id n = k" using all by auto
  have sub: "n \<in> set (sorted_nodes p) \<Longrightarrow> node_wf n \<and> nr_alloc n = [] \<and> nr_cursor n = 0" for n
    using all by (auto simp: sorted_nodes_def)
  show "list_all node_wf (sorted_nodes p)" "list_all node_exclusive (sorted_nodes p)"
    using sub by (auto simp: list_all_iff node_exclusive_def gpu_units_def)
  have "map (nr_id \<circ> snd) (pl_nodes p) = dict_keys (pl_nodes p)"
    using all by auto
  then show "mset (map nr_id (sorted_nodes p)) = mset (dict_keys (pl_nodes p))"
    by (metis sorted_nodes_def map_map mset_map mset_sort)
  have "mset (sorted_nodes p) = mset (dict_values (pl_nodes p))" by (simp add: sorted_nodes_def)
  then have "sum_list (map available_gpus (sorted_nodes p)) = sum_list (map available_gpus (dict_values (pl_nodes p)))"
    by (metis mset_map sum_mset_sum_list)
  moreover have "map available_gpus (dict_values (pl_nodes p)) = map nr_total (dict_values (pl_nodes p))"
    using all by (auto simp: available_gpus_def)
  ultimately show "total_available (sorted_nodes p) = sum_list (map nr_total (dict_values (pl_nodes p)))"
    by (simp only: total_available_def)
  have "\<forall>n \<in> set (sorted_nodes p). comp_units ct n = 0"
    using sub by (simp add: comp_units_def range_units_def)
  then show "total_units ct (sorted_nodes p) = 0"
    unfolding total_units_def by (simp cong: map_cong)
qed

lemma stored_nodes:
  assumes "dict_ok d" "\<forall>(k, n) \<in> set d. nr_id n = k" "mset (map nr_id ns) = mset (dict_keys d)"
  shows "total_units ct (dict_values (store_nodes ns d)) = total_units ct ns"
    "list_all P (dict_values (store_nodes ns d)) \<longleftrightarrow> list_all P ns"
  using fold_update_perm [OF assms(1,3,2)] total_units_perm
  by (blast, metis list_all_iff set_mset_mset)

lemma validated:
  assumes "whole_requirements s T E V"
    and "validate_scheduling rows strategy st (started_planner s ci) = Inr (True, p)"
  shows "p = (started_planner s ci)\<lparr>pl_summary := Some \<lparr>rs_train = of_int T,
             rs_rollout = rollout_required st (of_int V) (of_int E), rs_env = of_int V, rs_eval = of_int E\<rparr>\<rparr>"
    and "required_gpus strategy (of_int T) (rollout_required st (of_int V) (of_int E)) = Inr q \<Longrightarrow>
           q \<le> of_int (sum_list (map nr_total (dict_values (pl_nodes (started_planner s ci)))))"
proof -
  have sched: "pl_sched (started_planner s ci) = s"
    by (simp add: started_planner_def discover_cluster_resources_def new_planner_def)
  obtain tc where t: "train_pool_requirements s = (of_int T, tc)"
    using assms(1) by (cases "train_pool_requirements s") (simp add: whole_requirements_def)
  obtain ec where e: "opt_requirements (eval_worker s) = (of_int E, ec)"
    using assms(1) by (cases "opt_requirements (eval_worker s)") (simp add: whole_requirements_def)
  obtain vc where v: "env_requirements (env_worker s) = (of_int V, vc)"
    using assms(1) by (cases "env_requirements (env_worker s)") (simp add: whole_requirements_def)
  show "p = (started_planner s ci)\<lparr>pl_summary := Some \<lparr>rs_train = of_int T,
             rs_rollout = rollout_required st (of_int V) (of_int E), rs_env = of_int V, rs_eval = of_int E\<rparr>\<rparr>"
    "required_gpus strategy (of_int T) (rollout_required st (of_int V) (of_int E)) = Inr q \<Longrightarrow>
      q \<le> of_int (sum_list (map nr_total (dict_values (pl_nodes (started_planner s ci)))))"
    using assms(2) by (auto simp: validate_scheduling_def sched t e v get_component_requirements_def Let_def
        result_simps split: if_splits)
qed

subsection \<open>Properties\<close>

text \<open>C4: disaggregate planning does what validation promises: when the requirements are whole numbers
  of GPUs and \<open>validate_scheduling\<close> accepts them, planning returns, the node bookkeeping is well
  formed, train (with buffer), eval and env get exactly the GPUs they require, and unless env
  shares the devices of eval no GPU index of a node is given twice.\<close>
theorem plan_disaggregate_exact:
  assumes "whole_requirements s T E V" "list_all (\<lambda>(_, i). 0 \<le> ni_gpu i) ci"
    and "validate_scheduling rows ''disaggregate'' st (started_planner s ci) = Inr (True, p)"
  shows "\<exists>p'. plan_resource_pools rows ''disaggregate'' st (started_planner s ci) = Inr p'
     \<and> planner_nodes_wf p'
     \<and> plan_gives p' ''train'' = T \<and> plan_gives p' ''eval'' = E \<and> plan_gives p' ''env'' = V
     \<and> (st \<noteq> ''device-colocate'' \<longrightarrow> list_all node_exclusive (dict_values (pl_nodes p')))"
proof -
  let ?p = "started_planner s ci"
  let ?ns = "sorted_nodes ?p"
  note start = started_nodes [OF assms(2), where s = s]
  have nonneg: "0 \<le> T" "0 \<le> E" "0 \<le> V" using assms(1) by (auto simp: whole_requirements_def)
  define shared where "shared \<longleftrightarrow> st = ''device-colocate''"
  have fits: "T + (if shared then max V E else V + E) \<le> total_available ?ns"
  proof -
    have "of_int T + rollout_required st (of_int V) (of_int E) \<le>
        (of_int (sum_list (map nr_total (dict_values (pl_nodes ?p)))) :: rat)"
      by (rule validated(2) [OF assms(1,3)]) (simp add: required_gpus_def)
    then have "(of_int (T + (if shared then max V E else V + E)) :: rat) \<le> of_int (total_available ?ns)"
      unfolding start(6) by (simp add: rollout_required_def shared_def max_def split: if_splits)
    then show ?thesis by (simp only: of_int_le_iff)
  qed
  then have "T \<le> total_available ?ns" using nonneg by (auto split: if_splits)
  then obtain ns1 tids where t: "train_loop (of_int T) ?ns = Inr (ns1, tids)"
    "loop_result ?ns ns1 (\<lambda>ct. if ct = ''train'' then T else 0)"
    "total_available ns1 = total_available ?ns - T" "list_all node_exclusive ns1"
    using train_loop_allocates [OF start(3) nonneg(1)] start(4) by blast
  have "(if shared then max V E else V + E) \<le> total_available ns1" using fits t(3) by simp
  moreover have "list_all node_wf ns1" using t(2) by (simp add: loop_result_def)
  ultimately obtain ns2 rids where r: "rollout_loop st tids (of_int V) (of_int E) ns1 = Inr (ns2, rids)"
    "loop_result ns1 ns2 (\<lambda>ct. if ct = ''eval'' then E else if ct = ''env'' then V else 0)"
    "\<not> shared \<longrightarrow> list_all node_exclusive ns2"
    using rollout_loop_allocates [of ns1 E V shared st tids] nonneg t(4) by (auto simp: shared_def)
  have "mset (map nr_id ns2) = mset (dict_keys (pl_nodes ?p))"
    using t(2) r(2) start(5) by (simp add: loop_result_def)
  note stored = stored_nodes [OF start(1,2) this]
  have p: "pl_nodes p = pl_nodes ?p" "sorted_nodes p = ?ns" "pl_summary p = Some \<lparr>rs_train = of_int T,
      rs_rollout = rollout_required st (of_int V) (of_int E), rs_env = of_int V, rs_eval = of_int E\<rparr>"
    unfolding validated(1) [OF assms(1,3)] by (simp_all add: sorted_nodes_def)
  show ?thesis
    using assms(3) t(1,2) r stored start(7) unfolding plan_resource_pools_def started_ensure
    by (auto simp: plan_disaggregate_pools_def p planner_nodes_wf_def plan_gives_def loop_result_def shared_def)
qed

definition witness_scheduling :: "int \<Rightarrow> int \<Rightarrow> int \<Rightarrow> component_scheduling" where
  "witness_scheduling T E V =
     (let w = (\<lambda>n g. \<lparr>worker_num = Workers n, num_cpus = 1, num_gpus = g\<rparr>)
      in \<lparr>env_worker = Some [w V 1], train_worker = Some (w T 1), eval_worker = Some (w E 1),
          buffer_worker = Some (w 1 0)\<rparr>)"

definition witness_cluster_info :: cluster_info where
  "witness_cluster_info =
     map (\<lambda>i. (i, \<lparr>ni_ip = ''ip'', ni_cpu = 16, ni_gpu = 8\<rparr>)) [''a'', ''b'']"

lemma witness_whole: "0 \<le> T \<Longrightarrow> 0 \<le> E \<Longrightarrow> 0 \<le> V \<Longrightarrow> whole_requirements (witness_scheduling T E V) T E V"
  by (simp add: whole_requirements_def witness_scheduling_def train_pool_requirements_def
      opt_requirements_def env_requirements_def sched_total_gpus_def sched_total_cpus_def)

lemma plan_disaggregate_exact_witness:
  "\<exists>p'. plan_resource_pools [] ''disaggregate'' ''default''
          (started_planner (witness_scheduling 9 3 4) witness_cluster_info) = Inr p'
     \<and> plan_gives p' ''train'' = 9 \<and> plan_gives p' ''eval'' = 3 \<and> plan_gives p' ''env'' = 4"
proof -
  let ?p = "started_planner (witness_scheduling 9 3 4) witness_cluster_info"
  have "map_sum id fst (validate_scheduling [] ''disaggregate'' ''default'' ?p) = Inr True"
    by code_simp
  then have "\<exists>p. validate_scheduling [] ''disaggregate'' ''default'' ?p = Inr (True, p)"
    by (auto simp: map_sum_Inr_eq)
  then show ?thesis
    using plan_disaggregate_exact [of "witness_scheduling 9 3 4" 9 3 4 witness_cluster_info "[]" "''default''"]
      witness_whole [of 9 3 4]
    by (auto simp: witness_cluster_info_def)
qed

text \<open>Colocated planning with env sharing the devices of eval: when the requirements are whole
  numbers of GPUs that \<open>validate_scheduling\<close> accepts, planning returns and train, eval and env each
  get exactly the GPUs they require, on well formed nodes.\<close>
theorem plan_colocate_exact:
  assumes "whole_requirements s T E V" "list_all (\<lambda>(_, i). 0 \<le> ni_gpu i) ci"
    and "validate_scheduling rows ''colocate'' ''device-colocate'' (started_planner s ci) = Inr (True, p)"
  shows "\<exists>p'. plan_resource_pools rows ''colocate'' ''device-colocate'' (started_planner s ci) = Inr p'
     \<and> planner_nodes_wf p'
     \<and> plan_gives p' ''train'' = T \<and> plan_gives p' ''eval'' = E \<and> plan_gives p' ''env'' = V"
proof -
  let ?p = "started_planner s ci"
  let ?ns = "sorted_nodes ?p"
  let ?st = "''device-colocate''"
  note start = started_nodes [OF assms(2), where s = s]
  have nonneg: "0 \<le> T" "0 \<le> E" "0 \<le> V" using assms(1) by (auto simp: whole_requirements_def)
  have fits: "max T (max V E) \<le> total_available ?ns"
  proof -
    have "max (of_int T) (rollout_required ?st (of_int V) (of_int E)) \<le>
        (of_int (sum_list (map nr_total (dict_values (pl_nodes ?p)))) :: rat)"
      by (rule validated(2) [OF assms(1,3)]) (simp add: required_gpus_def)
    then have "(of_int (max T (max V E)) :: rat) \<le> of_int (total_available ?ns)"
      unfolding start(6) by (simp add: rollout_required_def max_def split: if_splits)
    then show ?thesis by (simp only: of_int_le_iff)
  qed
  obtain ns2 ids where r: "colocate_loop ?st (of_int T) (of_int V) (of_int E) ?ns = Inr (ns2, ids)"
    "loop_result ?ns ns2 (\<lambda>ct. if ct = ''train'' then T else if ct = ''eval'' then E
                                else if ct = ''env'' then V else 0)"
    using colocate_loop_allocates [OF start(3) nonneg fits refl] by blast
  have "mset (map nr_id ns2) = mset (dict_keys (pl_nodes ?p))"
    using r(2) start(5) by (simp add: loop_result_def)
  note stored = stored_nodes [OF start(1,2) this]
  have p: "pl_nodes p = pl_nodes ?p" "sorted_nodes p = ?ns" "pl_summary p = Some \<lparr>rs_train = of_int T,
      rs_rollout = rollout_required ?st (of_int V) (of_int E), rs_env = of_int V, rs_eval = of_int E\<rparr>"
    unfolding validated(1) [OF assms(1,3)] by (simp_all add: sorted_nodes_def)
  show ?thesis
    using assms(3) r stored start(7) unfolding plan_resource_pools_def started_ensure
    by (auto simp: plan_colocate_pools_def p planner_nodes_wf_def plan_gives_def loop_result_def)
qed

lemma plan_colocate_exact_witness:
  "\<exists>p'. plan_resource_pools [] ''colocate'' ''device-colocate''
          (started_planner (witness_scheduling 9 3 14) witness_cluster_info) = Inr p'
     \<and> plan_gives p' ''train'' = 9 \<and> plan_gives p' ''eval'' = 3 \<and> plan_gives p' ''env'' = 14"
proof -
  let ?p = "started_planner (witness_scheduling 9 3 14) witness_cluster_info"
  have "map_sum id fst (validate_scheduling [] ''colocate'' ''device-colocate'' ?p) = Inr True"
    by code_simp
  then have "\<exists>p. validate_scheduling [] ''colocate'' ''device-colocate'' ?p = Inr (True, p)"
    by (auto simp: map_sum_Inr_eq)
  then show ?thesis
    using plan_colocate_exact [of "witness_scheduling 9 3 14" 9 3 14 witness_cluster_info "[]"]
      witness_whole [of 9 3 14]
    by (auto simp: witness_cluster_info_def)
qed

lemma colocate_default_raises:
  assumes "node_wf n" "0 < available_gpus n" "0 \<le> T" "0 < E" "0 < V" "available_gpus n < E + V"
  shows "colocate_loop ''default'' (of_int T) (of_int V) (of_int E) (n # ns) = Inl RuntimeError"
proof -
  let ?a = "available_gpus n"
  let ?t = "min ?a T" and ?e = "min ?a E" and ?v = "min ?a V"
  have t: "(if (0::rat) < of_int T then allocate (Gpus (of_int ?t)) [''train''] False n else Inr n)
      = allocate_if_positive (of_int ?t) ''train'' False n"
    using assms(2,3) by (auto simp: allocate_if_positive_def min_def)
  obtain n0 where n0: "allocate_if_positive (of_int ?t) ''train'' False n = Inr n0"
    "gave ''train'' ?t False n n0"
    using allocate_if_positive_one [OF assms(1), of ?t] assms(2,3) by fastforce
  then have wf0: "node_wf n0" and a0: "available_gpus n0 = ?a" by (simp_all add: gave_def)
  then obtain n1 where n1: "allocate_if_positive (of_int ?e) ''eval'' True n0 = Inr n1"
    "gave ''eval'' ?e True n0 n1"
    using allocate_if_positive_one [OF wf0, of ?e] assms(2,4) by fastforce
  have "allocate_if_positive (of_int w) ''env'' True n1 = Inl RuntimeError"
    if "0 < w" "available_gpus n1 < w" for w
    using that by (simp add: allocate_if_positive_def allocate_def gpus_to_allocate_def Let_def)
  moreover have "0 < ?v" "available_gpus n1 < ?v" using assms n1(2) a0 by (auto simp: gave_def min_def)
  ultimately have "allocate_if_positive (of_int ?v) ''env'' True n1 = Inl RuntimeError" by blast
  then show ?thesis
    using n0(1) n1(1) assms(2-4) unfolding colocate_loop.simps Let_def min_of_int t
    by (simp add: is_empty_def)
qed

text \<open>Colocated planning with separate devices for eval and env fails on accepted requirements:
  the env share of a node is computed from the GPUs free before eval consumed its share, so when
  the largest node cannot hold eval and env together the allocation raises, although validation
  has accepted the requirements.\<close>
theorem plan_colocate_default_raises:
  assumes "whole_requirements s T E V" "list_all (\<lambda>(_, i). 0 \<le> ni_gpu i) ci" "0 < E" "0 < V"
    and "validate_scheduling rows ''colocate'' ''default'' (started_planner s ci) = Inr (True, p)"
    and "sorted_nodes (started_planner s ci) = n # ns" "0 < available_gpus n" "available_gpus n < E + V"
  shows "plan_resource_pools rows ''colocate'' ''default'' (started_planner s ci) = Inl RuntimeError"
proof -
  have "node_wf n" using started_nodes(3) [OF assms(2), where s = s] assms(6) by simp
  then have loop: "colocate_loop ''default'' (of_int T) (of_int V) (of_int E) (n # ns) = Inl RuntimeError"
    using assms(1,3,4,7,8) by (intro colocate_default_raises) (auto simp: whole_requirements_def)
  have p: "sorted_nodes p = n # ns" "pl_summary p = Some \<lparr>rs_train = of_int T,
      rs_rollout = rollout_required ''default'' (of_int V) (of_int E), rs_env = of_int V, rs_eval = of_int E\<rparr>"
    unfolding validated(1) [OF assms(1,5)] assms(6) [symmetric] by (simp_all add: sorted_nodes_def)
  show ?thesis
    using assms(5) loop unfolding plan_resource_pools_def started_ensure
    by (simp add: plan_colocate_pools_def p del: colocate_loop.simps)
qed

lemma plan_colocate_default_raises_witness:
  "plan_resource_pools [] ''colocate'' ''default''
     (started_planner (witness_scheduling 2 4 6) witness_cluster_info) = Inl RuntimeError"
proof -
  let ?p = "started_planner (witness_scheduling 2 4 6) witness_cluster_info"
  have "map_sum id fst (validate_scheduling [] ''colocate'' ''default'' ?p) = Inr True"
    by code_simp
  then obtain q where "validate_scheduling [] ''colocate'' ''default'' ?p = Inr (True, q)"
    by (auto simp: map_sum_Inr_eq)
  moreover have "sorted_nodes ?p = [new_node ''a'' ''ip'' 16 8, new_node ''b'' ''ip'' 16 8]"
    by code_simp
  ultimately show ?thesis
    by (intro plan_colocate_default_raises [OF witness_whole])
       (simp_all add: witness_cluster_info_def available_gpus_def, simp_all add: new_node_def)
qed

end
