(* ===== verification/Range_Split.thy ===== *)
theory Range_Split
  imports Resource_Pool
begin

text \<open>
  \<open>ResourcePool._split_global_range_by_nodes\<close>: what the loop returns on a range inside the pool, and
  what happens to a range that reaches past it.
\<close>

definition offsets_ok :: "int list \<Rightarrow> bool" where
  "offsets_ok offs \<longleftrightarrow> offs \<noteq> [] \<and> hd offs = 0 \<and> sorted offs"

definition segment_units :: "int list \<Rightarrow> nat \<times> int \<times> int \<Rightarrow> int list" where
  "segment_units offs seg = (case seg of (i, ls, le) \<Rightarrow> [offs ! i + ls..offs ! i + le])"

definition segment_ok :: "int list \<Rightarrow> nat \<times> int \<times> int \<Rightarrow> bool" where
  "segment_ok offs seg = (case seg of (i, ls, le) \<Rightarrow>
     i + 1 < length offs \<and> 0 \<le> ls \<and> ls \<le> le \<and> offs ! i + le < offs ! (i + 1))"

lemma offsets_le_last: "offsets_ok offs \<Longrightarrow> i < length offs \<Longrightarrow> 0 \<le> offs ! i \<and> offs ! i \<le> last offs"
  by (cases offs) (auto simp: offsets_ok_def last_conv_nth nth_Cons sorted_iff_nth_mono split: nat.splits
      dest: bspec [OF _ nth_mem])

lemma last_filter_upt:
  "filter P [0..<n] \<noteq> [] \<Longrightarrow>
   last (filter P [0..<n]) < n \<and> P (last (filter P [0..<n]))
     \<and> (\<forall>j. last (filter P [0..<n]) < j \<and> j < n \<longrightarrow> \<not> P j)"
proof (induction n)
  case (Suc n)
  show ?case
  proof (cases "P n")
    case True
    then have e: "filter P [0..<Suc n] = filter P [0..<n] @ [n]" by simp
    show ?thesis using True unfolding e by auto
  next
    case False
    then have e: "filter P [0..<Suc n] = filter P [0..<n]" by simp
    with Suc.prems Suc.IH False show ?thesis
      unfolding e by (metis less_Suc_eq)
  qed
qed simp

lemma node_at_unfold:
  "node_at offs cur =
     (if filter (\<lambda>i. offs ! i \<le> cur) [0..<length offs - 1] = [] then Inl ValueError
      else Inr (last (filter (\<lambda>i. offs ! i \<le> cur) [0..<length offs - 1])))"
  by (auto simp: node_at_def split: list.splits)

lemma node_at_Inr:
  assumes "offsets_ok offs" "0 \<le> cur" "2 \<le> length offs"
  obtains i where "node_at offs cur = Inr i" "i < length offs - 1" "offs ! i \<le> cur"
    "\<forall>j. i < j \<and> j < length offs - 1 \<longrightarrow> cur < offs ! j"
proof -
  let ?fs = "filter (\<lambda>i. offs ! i \<le> cur) [0..<length offs - 1]"
  have "0 \<in> set ?fs"
    using assms by (auto simp: offsets_ok_def hd_conv_nth)
  then have ne: "?fs \<noteq> []" by (metis empty_iff empty_set)
  show ?thesis
    using last_filter_upt [OF ne] ne by (intro that [of "last ?fs"]) (auto simp: node_at_unfold not_le)
qed

lemma node_at_inside:
  assumes "offsets_ok offs" "0 \<le> cur" "cur < last offs"
  obtains i where "node_at offs cur = Inr i" "i + 1 < length offs" "offs ! i \<le> cur" "cur < offs ! (i + 1)"
proof -
  have len: "2 \<le> length offs"
    using assms by (cases offs; cases "tl offs") (auto simp: offsets_ok_def)
  obtain i where i: "node_at offs cur = Inr i" "i < length offs - 1" "offs ! i \<le> cur"
    "\<forall>j. i < j \<and> j < length offs - 1 \<longrightarrow> cur < offs ! j"
    using node_at_Inr [OF assms(1,2) len] .
  have "cur < offs ! (i + 1)"
  proof (cases "i + 1 = length offs - 1")
    case True
    moreover have "last offs = offs ! (length offs - 1)"
      using len by (intro last_conv_nth) auto
    ultimately show ?thesis using assms(3) by simp
  next
    case False
    with i show ?thesis by (metis One_nat_def add.commute less_add_one less_iff_succ_less_eq linorder_neqE_nat not_less_eq plus_1_eq_Suc)
  qed
  with i show ?thesis by (intro that [of i]) auto
qed

lemma split_loop_inside:
  assumes "offsets_ok offs" "0 \<le> cur" "stop < last offs"
  shows "\<exists>segs. split_loop offs stop cur out = Some (Inr (out @ segs))
     \<and> concat (map (segment_units offs) segs) = [cur..stop] \<and> list_all (segment_ok offs) segs"
  using assms
proof (induction "nat (stop + 1 - cur)" arbitrary: cur out rule: less_induct)
  case less
  show ?case
  proof (cases "cur > stop")
    case True
    then show ?thesis by (subst split_loop.simps) simp
  next
    case False
    then have cur: "cur \<le> stop" "cur < last offs" using less.prems by auto
    obtain i where i: "node_at offs cur = Inr i" "i + 1 < length offs" "offs ! i \<le> cur" "cur < offs ! (i + 1)"
      using node_at_inside [OF less.prems(1,2) cur(2)] .
    let ?e = "min stop (offs ! (i + 1) - 1)"
    let ?seg = "(i, cur - offs ! i, ?e - offs ! i)"
    have "nat (stop + 1 - (?e + 1)) < nat (stop + 1 - cur)" using i cur by auto
    then obtain segs where segs:
      "split_loop offs stop (?e + 1) (out @ [?seg]) = Some (Inr ((out @ [?seg]) @ segs))"
      "concat (map (segment_units offs) segs) = [?e + 1..stop]" "list_all (segment_ok offs) segs"
      using less.hyps [of "?e + 1" "out @ [?seg]"] less.prems i cur by auto
    have "split_loop offs stop cur out = Some (Inr (out @ (?seg # segs)))"
      using segs(1) False i(1) by (subst split_loop.simps) (simp add: Let_def)
    moreover have "[cur..?e] @ [?e + 1..stop] = [cur..stop]"
    proof -
      have "cur \<le> ?e" "?e \<le> stop" using i cur by auto
      then show ?thesis by (metis upto_split2 zle_add1_eq_le add.commute upto_split1 order_trans)
    qed
    then have "concat (map (segment_units offs) (?seg # segs)) = [cur..stop]"
      using segs(2) by (simp add: segment_units_def)
    moreover have "segment_ok offs ?seg" using i cur by (auto simp: segment_ok_def)
    ultimately show ?thesis using segs(3) by (intro exI [of _ "?seg # segs"]) simp
  qed
qed

text \<open>A range inside one node is one segment.\<close>

lemma split_one_node:
  assumes "offsets_ok offs" "i + 1 < length offs" "0 \<le> s" "s \<le> e" "offs ! i + e < offs ! (i + 1)"
  shows "split_global_range_by_nodes (offs ! i + s) (offs ! i + e) offs = Some (Inr [(i, s, e)])"
proof -
  have sorted: "sorted offs" and pos: "0 \<le> offs ! i"
    using assms(1,2) offsets_le_last [of offs i] by (auto simp: offsets_ok_def)
  have "offs ! (i + 1) \<le> last offs"
    using offsets_le_last assms(1,2) by blast
  then have "offs ! i + s < last offs" using assms by linarith
  then obtain j where j: "node_at offs (offs ! i + s) = Inr j" "j + 1 < length offs"
      "offs ! j \<le> offs ! i + s" "offs ! i + s < offs ! (j + 1)"
    using node_at_inside [OF assms(1)] pos assms(3) by (metis add_nonneg_nonneg)
  have "j = i"
  proof (rule ccontr)
    assume "j \<noteq> i"
    then consider "j + 1 \<le> i" | "i + 1 \<le> j" by linarith
    then show False
    proof cases
      case 1
      then have "offs ! (j + 1) \<le> offs ! i" using sorted assms(2) by (simp add: sorted_iff_nth_mono)
      with j(4) assms(3) show False by linarith
    next
      case 2
      then have "offs ! (i + 1) \<le> offs ! j" using sorted j(2) by (simp add: sorted_iff_nth_mono)
      with j(3) assms(4,5) show False by linarith
    qed
  qed
  with j have at: "node_at offs (offs ! i + s) = Inr i" by simp
  have fin: "split_loop offs (offs ! i + e) (offs ! i + e + 1) out = Some (Inr out)" for out
    by (subst split_loop.simps) simp
  have "min (offs ! i + e) (offs ! (i + 1) - 1) = offs ! i + e" using assms(5) by simp
  then show ?thesis
    using at fin assms(4) unfolding split_global_range_by_nodes_def
    by (subst split_loop.simps) (simp add: Let_def)
qed

text \<open>Past the last offset the loop steps back to it forever.\<close>

definition stuck :: "int list \<Rightarrow> int \<Rightarrow> int \<Rightarrow> bool" where
  "stuck offs stop cur \<longleftrightarrow>
     offsets_ok offs \<and> 2 \<le> length offs \<and> 0 \<le> cur \<and> cur \<le> stop \<and> last offs \<le> stop"

lemma stuck_step:
  assumes "stuck offs stop cur" "node_at offs cur = Inr i"
  shows "stuck offs stop (min stop (offs ! (i + 1) - 1) + 1)"
proof -
  have ok: "offsets_ok offs" and len: "2 \<le> length offs" and cur: "0 \<le> cur"
    using assms(1) by (auto simp: stuck_def)
  obtain j where j: "node_at offs cur = Inr j" "j < length offs - 1"
    using node_at_Inr [OF ok cur len] .
  with assms(2) have i: "i + 1 < length offs" by auto
  have "offs ! (i + 1) \<le> last offs" "0 \<le> offs ! (i + 1)"
    using i offsets_le_last [OF ok] by blast+
  with assms(1) show ?thesis by (auto simp: stuck_def)
qed

lemma split_loop_stuck_ind:
  assumes "split_loop offs stop cur out = Some r"
  shows "\<not> stuck offs stop cur"
proof (rule split_loop.raw_induct [where P = "\<lambda>offs stop cur out r. \<not> stuck offs stop cur", OF _ assms])
  fix rc :: "int list \<Rightarrow> int \<Rightarrow> int \<Rightarrow> (nat \<times> int \<times> int) list \<Rightarrow> (nat \<times> int \<times> int) list result option"
    and offs stop cur out r
  assume IH: "\<And>offs stop cur out r. rc offs stop cur out = Some r \<Longrightarrow> \<not> stuck offs stop cur"
    and body: "(if cur > stop then Some (Inr out)
      else case node_at offs cur of
        Inl e \<Rightarrow> Some (Inl e)
      | Inr i \<Rightarrow>
          (let node_start = offs ! i; node_end = offs ! (i + 1) - 1; seg_end = min stop node_end
           in rc offs stop (seg_end + 1) (out @ [(i, cur - node_start, seg_end - node_start)]))) = Some r"
  show "\<not> stuck offs stop cur"
  proof
    assume st: "stuck offs stop cur"
    then obtain i where i: "node_at offs cur = Inr i"
      using node_at_Inr [of offs cur] by (auto simp: stuck_def)
    from st have "\<not> cur > stop" by (simp add: stuck_def)
    with body i have "rc offs stop (min stop (offs ! (i + 1) - 1) + 1)
        (out @ [(i, cur - offs ! i, min stop (offs ! (i + 1) - 1) - offs ! i)]) = Some r"
      by (simp add: Let_def)
    then have "\<not> stuck offs stop (min stop (offs ! (i + 1) - 1) + 1)" by (rule IH)
    with stuck_step [OF st i] show False by simp
  qed
qed

lemma split_loop_stuck: "stuck offs stop cur \<Longrightarrow> split_loop offs stop cur out = None"
  using split_loop_stuck_ind by (metis not_None_eq)

subsection \<open>Properties\<close>

text \<open>A range inside the pool is split into segments that, read back through the offsets, are
  exactly its GPU indices in order, each segment inside the node it names.\<close>
theorem split_covers_range:
  assumes "offsets_ok offs" "0 \<le> start" "stop < last offs"
  shows "\<exists>segs. split_global_range_by_nodes start stop offs = Some (Inr segs)
     \<and> concat (map (segment_units offs) segs) = [start..stop] \<and> list_all (segment_ok offs) segs"
  using split_loop_inside [OF assms, of "[]"] by (simp add: split_global_range_by_nodes_def)

lemma split_covers_range_witness:
  "\<exists>segs. split_global_range_by_nodes 2 9 [0, 4, 4, 8, 12] = Some (Inr segs)
     \<and> concat (map (segment_units [0, 4, 4, 8, 12]) segs) = [2..9]"
  using split_covers_range [of "[0, 4, 4, 8, 12]" 2 9] by (auto simp: offsets_ok_def)

text \<open>C10: a nonempty range that starts inside the index space but reaches past the capacity of
  the pool makes the loop run forever (it is not reported as an error): a manual pool
  configuration with too large an index never finishes loading.\<close>
theorem split_past_capacity_diverges:
  assumes "offsets_ok offs" "2 \<le> length offs" "0 \<le> start" "start \<le> stop" "last offs \<le> stop"
  shows "split_global_range_by_nodes start stop offs = None"
  using assms by (simp add: split_global_range_by_nodes_def split_loop_stuck stuck_def)

lemma split_past_capacity_diverges_witness:
  "split_global_range_by_nodes 0 8 [0, 4, 8] = None"
  using split_past_capacity_diverges [of "[0, 4, 8]" 0 8] by (simp add: offsets_ok_def)

end
