(* ===== verification/Pool_Yaml.thy ===== *)
theory Pool_Yaml
  imports Range_Split
begin

text \<open>
  The YAML form of a pool can be loaded again: the index strings that \<open>to_yaml_dict\<close> writes are
  parsed and split back into the node-local ranges they came from.
\<close>

subsection \<open>The written strings\<close>

fun global_ranges :: "int \<Rightarrow> string \<Rightarrow> node_resource list \<Rightarrow> (int \<times> int) list" where
  "global_ranges off ct [] = []"
| "global_ranges off ct (n # ns) =
     map (\<lambda>(s, e). (off + s, off + e)) (dict_get [] (nr_alloc n) ct) @ global_ranges (off + nr_total n) ct ns"

definition range_str :: "int \<times> int \<Rightarrow> string" where
  "range_str r = index_string (fst r) (snd r)"

definition ca_idx :: "(string, component_allocation) dict \<Rightarrow> string \<Rightarrow> (string, string list) dict" where
  "ca_idx cas ct = ca_indices (dict_get (new_ca ct) cas ct)"

lemma ca_idx_Nil [simp]: "ca_idx [] ct = []"
  by (simp add: ca_idx_def new_ca_def)

lemma dict_get_other: "k \<noteq> k' \<Longrightarrow> dict_get x (AList.update k v d) k' = dict_get x d k'"
  by simp

lemma ca_idx_add_index:
  "ca_idx (add_index nid off ct r cas) ct' =
     (if ct' = ct then dict_append nid (range_str (off + fst r, off + snd r)) (ca_idx cas ct)
      else ca_idx cas ct')"
  by (simp add: ca_idx_def add_index_def Let_def range_str_def)

lemma ca_idx_fold_ranges:
  "ca_idx (fold (add_index nid off ct) rs cas) ct' =
     (if ct' = ct then fold (\<lambda>r. dict_append nid (range_str (off + fst r, off + snd r))) rs (ca_idx cas ct)
      else ca_idx cas ct')"
  by (induction rs arbitrary: cas) (simp_all add: ca_idx_add_index)

lemma ca_idx_fold_alloc:
  "dict_ok alloc \<Longrightarrow>
   ca_idx (fold (\<lambda>(ct, rs) cas. fold (add_index nid off ct) rs cas) alloc cas) ct' =
     fold (\<lambda>r. dict_append nid (range_str (off + fst r, off + snd r))) (dict_get [] alloc ct') (ca_idx cas ct')"
proof (induction alloc arbitrary: cas)
  case (Cons p alloc)
  obtain ct rs where p: "p = (ct, rs)" by force
  show ?case
  proof (cases "ct' = ct")
    case True
    with Cons.prems p have "dict_get [] alloc ct' = []" by simp
    moreover have "dict_get [] (p # alloc) ct' = rs" using p True by (simp add: dict_get_def)
    ultimately show ?thesis using Cons p True by (simp add: ca_idx_fold_ranges)
  next
    case False
    then have "dict_get [] (p # alloc) ct' = dict_get [] alloc ct'" using p by (simp add: dict_get_def)
    with Cons p False show ?thesis by (simp add: ca_idx_fold_ranges)
  qed
qed (simp add: dict_get_def)

lemma fold_dict_append_last:
  "k \<notin> set (dict_keys d) \<Longrightarrow>
   fold (\<lambda>r. dict_append k (g r)) rs (d @ [(k, ws)]) = d @ [(k, ws @ map g rs)]"
  by (induction rs arbitrary: ws) (simp_all add: dict_append_def update_last)

lemma fold_dict_append_new:
  "k \<notin> set (dict_keys d) \<Longrightarrow>
   fold (\<lambda>r. dict_append k (g r)) rs d = (if rs = [] then d else d @ [(k, map g rs)])"
  by (cases rs) (simp_all add: fold_dict_append_last dict_append_def update_new)

lemma ca_idx_nodes:
  assumes "distinct (map nr_id ns)" "\<forall>n \<in> set ns. dict_ok (nr_alloc n)"
    and "\<forall>n \<in> set ns. nr_id n \<notin> set (dict_keys (ca_idx cas ct))"
  shows "concat (dict_values (ca_idx (snd (fold add_node_indices ns (off, cas))) ct)) =
           concat (dict_values (ca_idx cas ct)) @ map range_str (global_ranges off ct ns)"
  using assms
proof (induction ns arbitrary: off cas)
  case (Cons n ns)
  let ?rs = "dict_get [] (nr_alloc n) ct"
  let ?cas = "snd (add_node_indices n (off, cas))"
  have idx: "ca_idx ?cas ct = (if ?rs = [] then ca_idx cas ct
      else ca_idx cas ct @ [(nr_id n, map (\<lambda>r. range_str (off + fst r, off + snd r)) ?rs)])"
    using Cons.prems by (simp add: add_node_indices_def ca_idx_fold_alloc fold_dict_append_new)
  have "concat (dict_values (ca_idx (snd (fold add_node_indices ns (off + nr_total n, ?cas))) ct)) =
      concat (dict_values (ca_idx ?cas ct)) @ map range_str (global_ranges (off + nr_total n) ct ns)"
    using Cons.prems by (intro Cons.IH) (auto simp: idx image_iff)
  moreover have "fold add_node_indices (n # ns) (off, cas) = fold add_node_indices ns (off + nr_total n, ?cas)"
    by (simp add: add_node_indices_def)
  ultimately show ?case by (simp add: idx case_prod_unfold comp_def)
qed simp

lemma get_component_indices_written:
  assumes "distinct (pool_node_ids p)" "\<forall>n \<in> set (rp_nodes p). dict_ok (nr_alloc n)"
    and "rp_comp_alloc p = rp_comp_alloc (rebuild_component_allocations p)"
    and "ct \<in> set (component_types p)"
  shows "get_component_indices p ct = py_join '', '' (map range_str (global_ranges 0 ct (rp_nodes p)))"
proof -
  have p: "(if rp_comp_alloc p = [] then rebuild_component_allocations p else p) = p"
    using assms(3) by (auto simp: rebuild_component_allocations_def)
  have "concat (dict_values (ca_idx (rp_comp_alloc p) ct)) = map range_str (global_ranges 0 ct (rp_nodes p))"
    using ca_idx_nodes [of "rp_nodes p" "[]" ct 0] assms
    by (simp add: pool_node_ids_def rebuild_component_allocations_def)
  then show ?thesis
    using assms(4) p
    by (auto simp: get_component_indices_def ca_idx_def dict_get_def to_index_string_def new_ca_def Let_def
        split: option.splits)
qed

subsection \<open>Parsing them\<close>

lemma string_of_int_nonneg: "0 \<le> i \<Longrightarrow> string_of_int i = string_of_nat (nat i)"
  by (simp add: string_of_int_def)

lemma range_str_chars:
  assumes "0 \<le> s" "0 \<le> e"
  shows "range_str (s, e) \<noteq> []" "is_digit (hd (range_str (s, e)))" "is_digit (last (range_str (s, e)))"
    "CHR '','' \<notin> set (range_str (s, e))"
  using assms string_of_nat_digits [of "CHR '',''"]
  by (auto simp: range_str_def index_string_def string_of_int_nonneg)

lemma py_strip_digits: "s \<noteq> [] \<Longrightarrow> is_digit (hd s) \<Longrightarrow> is_digit (last s) \<Longrightarrow> py_strip s = s"
  by (rule py_strip_id) (simp_all add: is_digit_not_space)

lemma parse_part_range_str:
  assumes "0 \<le> s" "s \<le> e"
  shows "parse_part (range_str (s, e)) = Inr (s, e)"
proof -
  have no: "CHR ''-'' \<notin> set (string_of_nat n)" for n
    using string_of_nat_digits [of "CHR ''-''" n] by auto
  show ?thesis
  proof (cases "s = e")
    case True
    with assms no show ?thesis
      by (simp add: parse_part_def range_str_def index_string_def string_of_int_nonneg)
  next
    case False
    with assms no [of "nat s"] show ?thesis
      by (simp add: parse_part_def range_str_def index_string_def string_of_int_nonneg py_split1_append)
  qed
qed

lemma join_ends:
  assumes "ss \<noteq> []" "\<forall>s \<in> set ss. s \<noteq> [] \<and> is_digit (hd s) \<and> is_digit (last s)"
  shows "py_join sep ss \<noteq> [] \<and> is_digit (hd (py_join sep ss)) \<and> is_digit (last (py_join sep ss))"
  using assms by (induction sep ss rule: py_join.induct) auto

lemma parse_index_str_join:
  assumes "\<forall>(s, e) \<in> set rs. 0 \<le> s \<and> s \<le> e"
  shows "parse_index_str (IvStr (py_join '', '' (map range_str rs))) = Inr rs"
proof (cases "rs = []")
  case True
  then show ?thesis by (simp add: parse_index_str_def py_strip_def)
next
  case False
  let ?ss = "map range_str rs"
  have chars: "\<forall>s \<in> set ?ss. s \<noteq> [] \<and> is_digit (hd s) \<and> is_digit (last s) \<and> CHR '','' \<notin> set s"
  proof
    fix x assume "x \<in> set ?ss"
    then obtain a b where "x = range_str (a, b)" "(a, b) \<in> set rs" by auto
    moreover from this have "0 \<le> a" "0 \<le> b" using assms by auto
    ultimately show "x \<noteq> [] \<and> is_digit (hd x) \<and> is_digit (last x) \<and> CHR '','' \<notin> set x"
      using range_str_chars [of a b] by simp
  qed
  then have ends: "py_join '', '' ?ss \<noteq> [] \<and> py_strip (py_join '', '' ?ss) = py_join '', '' ?ss"
    using False join_ends [of ?ss "'', ''"] by (auto intro: py_strip_digits)
  have "py_split CHR '','' (py_join '', '' ?ss) = hd ?ss # map ((@) '' '') (tl ?ss)"
    using py_split_join [of ?ss "CHR '',''" "'' ''"] False chars by simp
  moreover have "map py_strip (hd ?ss # map ((@) '' '') (tl ?ss)) = ?ss"
    using chars False by (cases rs) (auto simp: py_strip_digits)
  moreover have "filter (\<lambda>p. p \<noteq> []) ?ss = ?ss"
    using chars by (auto simp: filter_id_conv)
  moreover have "mapM parse_part ?ss = Inr rs"
    using assms by (induction rs) (auto simp: parse_part_range_str)
  ultimately show ?thesis using ends by (simp add: parse_index_str_def Let_def)
qed

subsection \<open>Placing the segments back\<close>

lemma node_offsets_snoc: "node_offsets (gs @ [g]) = node_offsets gs @ [last (node_offsets gs) + g]"
  by (simp add: node_offsets_def)

lemma length_node_offsets [simp]: "length (node_offsets gs) = length gs + 1"
  by (induction gs rule: rev_induct) (simp_all add: node_offsets_snoc, simp add: node_offsets_def)

lemma node_offsets_nonempty [simp]: "node_offsets gs \<noteq> []"
  by (metis Suc_eq_plus1 length_node_offsets list.size(3) nat.distinct(1))

lemma last_node_offsets: "last (node_offsets gs) = sum_list gs"
  by (induction gs rule: rev_induct) (simp_all add: node_offsets_snoc, simp add: node_offsets_def)

lemma node_offsets_nth: "i \<le> length gs \<Longrightarrow> node_offsets gs ! i = sum_list (take i gs)"
proof (induction gs arbitrary: i rule: rev_induct)
  case Nil
  then show ?case by (simp add: node_offsets_def)
next
  case (snoc g gs)
  then show ?case
    by (cases "i = length gs + 1") (simp_all add: node_offsets_snoc nth_append last_node_offsets)
qed

lemma node_offsets_ok:
  assumes "\<forall>g \<in> set gs. 0 \<le> g"
  shows "offsets_ok (node_offsets gs)"
  using assms
proof (induction gs rule: rev_induct)
  case Nil
  then show ?case by (simp add: offsets_ok_def node_offsets_def)
next
  case (snoc g gs)
  then have "offsets_ok (node_offsets gs)" by simp
  moreover from this have "\<forall>x \<in> set (node_offsets gs). x \<le> last (node_offsets gs)"
    using offsets_le_last by (metis in_set_conv_nth)
  ultimately show ?case
    using snoc.prems by (fastforce simp: node_offsets_snoc offsets_ok_def sorted_append)
qed

text \<open>The ranges of a component with the index of their node instead of the offset.\<close>

definition indexed_ranges :: "string \<Rightarrow> node_resource list \<Rightarrow> (nat \<times> int \<times> int) list" where
  "indexed_ranges ct ns =
     concat (map (\<lambda>i. map (\<lambda>(s, e). (i, s, e)) (dict_get [] (nr_alloc (ns ! i)) ct)) [0..<length ns])"

lemma indexed_ranges_snoc:
  "indexed_ranges ct (ns @ [n]) =
     indexed_ranges ct ns @ map (\<lambda>(s, e). (length ns, s, e)) (dict_get [] (nr_alloc n) ct)"
proof -
  have "map (\<lambda>i. map (\<lambda>(s, e). (i, s, e)) (dict_get [] (nr_alloc ((ns @ [n]) ! i)) ct)) [0..<length ns] =
        map (\<lambda>i. map (\<lambda>(s, e). (i, s, e)) (dict_get [] (nr_alloc (ns ! i)) ct)) [0..<length ns]"
    by (intro map_cong refl) (simp add: nth_append)
  then have "concat (map (\<lambda>i. map (\<lambda>(s, e). (i, s, e)) (dict_get [] (nr_alloc ((ns @ [n]) ! i)) ct)) [0..<length ns]) =
        indexed_ranges ct ns"
    unfolding indexed_ranges_def by (rule arg_cong)
  then show ?thesis unfolding indexed_ranges_def [of ct "ns @ [n]"] by simp
qed

lemma indexed_ranges_in:
  "(i, s, e) \<in> set (indexed_ranges ct ns) \<longleftrightarrow> i < length ns \<and> (s, e) \<in> set (dict_get [] (nr_alloc (ns ! i)) ct)"
  by (auto simp: indexed_ranges_def)

lemma global_ranges_snoc:
  "global_ranges off ct (ns @ [n]) = global_ranges off ct ns @
     map (\<lambda>(s, e). (off + sum_list (map nr_total ns) + s, off + sum_list (map nr_total ns) + e))
       (dict_get [] (nr_alloc n) ct)"
  by (induction ns arbitrary: off) (simp_all add: algebra_simps)

lemma global_ranges_indexed:
  "global_ranges 0 ct ns =
     map (\<lambda>(i, s, e). (node_offsets (map nr_total ns) ! i + s, node_offsets (map nr_total ns) ! i + e))
       (indexed_ranges ct ns)"
proof (induction ns rule: rev_induct)
  case Nil
  then show ?case by (simp add: indexed_ranges_def)
next
  case (snoc n ns)
  have "map (\<lambda>(i, s, e). (node_offsets (map nr_total (ns @ [n])) ! i + s,
                          node_offsets (map nr_total (ns @ [n])) ! i + e)) (indexed_ranges ct ns) =
        map (\<lambda>(i, s, e). (node_offsets (map nr_total ns) ! i + s,
                          node_offsets (map nr_total ns) ! i + e)) (indexed_ranges ct ns)"
    by (intro map_cong refl) (auto simp: indexed_ranges_in node_offsets_snoc nth_append)
  then show ?case
    using snoc
    by (simp add: indexed_ranges_snoc global_ranges_snoc node_offsets_nth comp_def case_prod_unfold)
qed

definition put_segment :: "string \<Rightarrow> nat \<times> int \<times> int \<Rightarrow> node_resource list \<Rightarrow> node_resource list" where
  "put_segment ct seg ns =
     ns[fst seg := (ns ! fst seg)\<lparr>nr_alloc := dict_append ct (snd seg) (nr_alloc (ns ! fst seg))\<rparr>]"

lemma length_put_segment [simp]: "length (put_segment ct seg ns) = length ns"
  by (simp add: put_segment_def)

lemma fold_put_segment:
  "length (fold (put_segment ct) segs ns) = length ns
   \<and> (i < length ns \<longrightarrow>
      dict_get [] (nr_alloc (fold (put_segment ct) segs ns ! i)) ct' =
        dict_get [] (nr_alloc (ns ! i)) ct' @
          (if ct' = ct then map snd (filter (\<lambda>seg. fst seg = i) segs) else []))"
proof (induction segs arbitrary: ns)
  case (Cons seg segs)
  then show ?case
    using Cons [of "put_segment ct seg ns"] by (auto simp: put_segment_def nth_list_update)
qed simp

lemma filter_indexed_ranges:
  "i < length ns \<Longrightarrow> map snd (filter (\<lambda>seg. fst seg = i) (indexed_ranges ct ns)) = dict_get [] (nr_alloc (ns ! i)) ct"
proof (induction ns rule: rev_induct)
  case (snoc n ns)
  have *: "filter (\<lambda>seg. fst seg = i) (map (\<lambda>(s, e). (j, s, e)) rs) =
      (if i = j then map (\<lambda>(s, e). (j, s, e)) rs else [])" for j and rs :: "(int \<times> int) list"
    by (induction rs) auto
  show ?case
  proof (cases "i = length ns")
    case True
    have "filter (\<lambda>seg. fst seg = i) (indexed_ranges ct ns) = []"
      using True indexed_ranges_in [of _ _ _ ct ns] by (auto simp: filter_empty_conv)
    with True show ?thesis
      by (simp add: indexed_ranges_snoc * comp_def case_prod_unfold)
  next
    case False
    with snoc show ?thesis by (simp add: indexed_ranges_snoc * nth_append)
  qed
qed simp

text \<open>Loading one component's written string places its ranges where they came from.\<close>

lemma place_written_component:
  assumes wf: "\<forall>n \<in> set ns. node_wf n"
    and "length ms = length ns" "num_node = int (length ns)"
  shows "place_component num_node (node_offsets (map nr_total ns)) ms
           (ct, IvStr (py_join '', '' (map range_str (global_ranges 0 ct ns)))) =
         Some (Inr (fold (put_segment ct) (indexed_ranges ct ns) ms))"
proof -
  let ?offs = "node_offsets (map nr_total ns)"
  have nonneg: "\<forall>g \<in> set (map nr_total ns). 0 \<le> g"
    using wf by (auto simp: node_wf_def)
  then have ok: "offsets_ok ?offs" by (rule node_offsets_ok)
  have seg: "0 \<le> s \<and> s \<le> e \<and> i < length ns \<and> 0 \<le> ?offs ! i \<and> ?offs ! i + e < ?offs ! (i + 1)"
    if "(i, s, e) \<in> set (indexed_ranges ct ns)" for i s e
  proof -
    from that have i: "i < length ns" "(s, e) \<in> set (dict_get [] (nr_alloc (ns ! i)) ct)"
      by (auto simp: indexed_ranges_in)
    then have "node_wf (ns ! i)" "(s, e) \<in> set (all_ranges (nr_alloc (ns ! i)))"
      using wf get_in_all_ranges by auto
    then have "0 \<le> s" "s \<le> e" "e < nr_total (ns ! i)"
      by (auto simp: node_wf_def ranges_within_def)
    moreover have "?offs ! (i + 1) = ?offs ! i + nr_total (ns ! i)"
      using i by (simp add: node_offsets_nth take_Suc_conv_app_nth)
    ultimately show ?thesis using i offsets_le_last [OF ok, of i] by simp
  qed
  have parse: "parse_index_str (IvStr (py_join '', '' (map range_str (global_ranges 0 ct ns)))) =
      Inr (global_ranges 0 ct ns)"
    using seg by (intro parse_index_str_join) (fastforce simp: global_ranges_indexed)
  have step: "(case (?offs ! i + s, ?offs ! i + e) of (gs, ge) \<Rightarrow>
        bind_outcome (split_global_range_by_nodes gs ge ?offs) (\<lambda>segs.
          Some (foldM (place_segment num_node ct) t segs))) = Some (Inr (put_segment ct (i, s, e) t))"
    if "(i, s, e) \<in> set (indexed_ranges ct ns)" "length t = length ns" for i s e t
    using seg [OF that(1)] that(2) assms(3) split_one_node [OF ok, of i s e]
    by (simp add: place_segment_def put_segment_def)
  have "foldO (\<lambda>ns' (gs, ge). bind_outcome (split_global_range_by_nodes gs ge ?offs) (\<lambda>segs.
          Some (foldM (place_segment num_node ct) ns' segs))) ms
        (map (\<lambda>(i, s, e). (?offs ! i + s, ?offs ! i + e)) xs) =
      Some (Inr (fold (put_segment ct) xs ms))"
    if "set xs \<subseteq> set (indexed_ranges ct ns)" "length ms = length ns" for xs ms
    using that step by (induction xs arbitrary: ms) (auto simp: case_prod_unfold)
  then show ?thesis
    using assms(2) parse by (simp add: place_component_def global_ranges_indexed)
qed

subsection \<open>The whole pool\<close>

lemma fold_update_filter:
  assumes "distinct ts" "set ts \<inter> set (dict_keys d) = {}"
  shows "fold (\<lambda>ct d. if P ct then AList.update ct (f ct) d else d) ts d =
           d @ map (\<lambda>ct. (ct, f ct)) (filter P ts)"
  using assms by (induction ts arbitrary: d) (auto simp: update_new)

definition written :: "node_resource list \<Rightarrow> string \<Rightarrow> string" where
  "written ns ct = py_join '', '' (map range_str (global_ranges 0 ct ns))"

lemma to_yaml_components:
  assumes "distinct (pool_node_ids p)" "\<forall>n \<in> set (rp_nodes p). dict_ok (nr_alloc n)"
    and "rp_comp_alloc p = rp_comp_alloc (rebuild_component_allocations p)"
    and "distinct (component_types p)"
  shows "rc_components (to_yaml_dict p) =
    map (\<lambda>ct. (ct, IvStr (written (rp_nodes p) ct)))
      (filter (\<lambda>ct. written (rp_nodes p) ct \<noteq> []) (component_types p))"
proof -
  have w: "get_component_indices p ct = written (rp_nodes p) ct" if "ct \<in> set (component_types p)" for ct
    using get_component_indices_written [OF assms(1-3) that] by (simp add: written_def)
  have "fold (\<lambda>ct d. if get_component_indices p ct \<noteq> [] then AList.update ct (IvStr (get_component_indices p ct)) d
                     else d) (component_types p) [] =
        map (\<lambda>ct. (ct, IvStr (get_component_indices p ct)))
          (filter (\<lambda>ct. get_component_indices p ct \<noteq> []) (component_types p))"
    using fold_update_filter [of "component_types p" "[]"] assms(4) by simp
  then show ?thesis
    using w by (simp add: to_yaml_dict_def Let_def cong: filter_cong)
qed

lemma written_empty: "written ns ct = [] \<Longrightarrow> indexed_ranges ct ns = []"
proof -
  have ne: "index_string s e \<noteq> []" for s e
    by (auto simp: index_string_def string_of_int_def)
  have "py_join '', '' ss = [] \<Longrightarrow> ss = [] \<or> hd ss = []" for ss
    by (induction "'', ''" ss rule: py_join.induct) auto
  then have "written ns ct = [] \<Longrightarrow> map range_str (global_ranges 0 ct ns) = []"
    using ne by (cases "global_ranges 0 ct ns") (fastforce simp: written_def range_str_def)+
  then show "written ns ct = [] \<Longrightarrow> indexed_ranges ct ns = []"
    by (simp add: global_ranges_indexed)
qed

lemma place_written_components:
  assumes "\<forall>n \<in> set ns. node_wf n" "length ms = length ns"
  shows "foldO (place_component (int (length ns)) (node_offsets (map nr_total ns))) ms
           (map (\<lambda>ct. (ct, IvStr (written ns ct))) ts) =
         Some (Inr (fold (\<lambda>ct. fold (put_segment ct) (indexed_ranges ct ns)) ts ms))"
  using assms(2)
proof (induction ts arbitrary: ms)
  case (Cons ct ts)
  have "place_component (int (length ns)) (node_offsets (map nr_total ns)) ms (ct, IvStr (written ns ct)) =
      Some (Inr (fold (put_segment ct) (indexed_ranges ct ns) ms))"
    unfolding written_def using Cons.prems assms(1) by (intro place_written_component) auto
  with Cons show ?case using fold_put_segment [of ct "indexed_ranges ct ns" ms] by simp
qed simp

lemma fold_components_get:
  assumes "distinct ts" "length ms = length ns" "i < length ns"
  shows "dict_get [] (nr_alloc (fold (\<lambda>ct. fold (put_segment ct) (indexed_ranges ct ns)) ts ms ! i)) ct =
     dict_get [] (nr_alloc (ms ! i)) ct @
       (if ct \<in> set ts then dict_get [] (nr_alloc (ns ! i)) ct else [])"
  using assms(1,2)
proof (induction ts arbitrary: ms)
  case (Cons c ts)
  let ?ms = "fold (put_segment c) (indexed_ranges c ns) ms"
  have "length ?ms = length ns" using Cons.prems fold_put_segment by metis
  then have "dict_get [] (nr_alloc (fold (\<lambda>ct. fold (put_segment ct) (indexed_ranges ct ns)) ts ?ms ! i)) ct =
     dict_get [] (nr_alloc (?ms ! i)) ct @
       (if ct \<in> set ts then dict_get [] (nr_alloc (ns ! i)) ct else [])"
    using Cons by simp
  moreover have "dict_get [] (nr_alloc (?ms ! i)) ct =
      dict_get [] (nr_alloc (ms ! i)) ct @ (if ct = c then dict_get [] (nr_alloc (ns ! i)) c else [])"
    using fold_put_segment [of c "indexed_ranges c ns" ms i ct] filter_indexed_ranges [OF assms(3)]
      Cons.prems assms(3) by simp
  ultimately show ?case using Cons.prems by auto
qed simp

lemma fold_components_length:
  "length (fold (\<lambda>ct. fold (put_segment ct) (indexed_ranges ct ns)) ts ms) = length ms"
  by (induction ts arbitrary: ms) (simp_all add: fold_put_segment)

lemma mapM_lookup:
  "dict_ok d \<Longrightarrow> \<forall>n \<in> set ns. (k n, n) \<in> set d \<Longrightarrow>
   mapM (\<lambda>i. of_option e (map_option f (map_of d i))) (map k ns) = Inr (map f ns)"
  by (induction ns) auto

lemma remdups_replicate: "0 < n \<Longrightarrow> remdups (replicate n x) = [x]"
proof -
  have "remdups (replicate (Suc m) x) = [x]" for m by (induction m) auto
  then show "0 < n \<Longrightarrow> remdups (replicate n x) = [x]" by (cases n) auto
qed

text \<open>
  A cluster on which a pool can be loaded again: every node is fresh and has \<open>g\<close> GPUs, and there
  are enough unused ones.
\<close>

definition fresh_cluster :: "int \<Rightarrow> (string, node_resource) dict \<Rightarrow> bool" where
  "fresh_cluster g cluster \<longleftrightarrow> cluster \<noteq> [] \<and> dict_ok cluster
     \<and> list_all (\<lambda>(k, n). nr_id n = k \<and> nr_total n = g \<and> nr_alloc n = []) cluster"

text \<open>The YAML form of a pool of equal nodes loads back: on a fresh cluster of nodes of the same
  capacity with enough unused nodes, \<open>from_yaml_dict (to_yaml_dict p)\<close> returns a pool with as many
  nodes whose GPU ranges per node and component are those of the pool written.\<close>
theorem yaml_roundtrip:
  assumes "distinct (pool_node_ids p)" "list_all node_wf (rp_nodes p)"
    and "rp_comp_alloc p = rp_comp_alloc (rebuild_component_allocations p)"
    and "distinct (component_types p)" "list_all (\<lambda>n. nr_total n = g) (rp_nodes p)"
    and "fresh_cluster g cluster"
    and "num_nodes p \<le> length (filter (\<lambda>n. nr_id n \<notin> set used) (dict_values cluster))"
  shows "\<exists>p'. from_yaml_dict (to_yaml_dict p) cluster used = Some (Inr p')
     \<and> rp_name p' = rp_name p \<and> length (rp_nodes p') = num_nodes p
     \<and> (\<forall>i < num_nodes p. \<forall>ct \<in> set (component_types p).
          dict_get [] (nr_alloc (rp_nodes p' ! i)) ct = dict_get [] (nr_alloc (rp_nodes p ! i)) ct)"
proof -
  let ?ns = "rp_nodes p"
  let ?cs = "filter (\<lambda>n. nr_id n \<notin> set used) (dict_values cluster)"
  let ?chosen = "take (num_nodes p) (sort_key nr_id ?cs)"
  let ?ts = "filter (\<lambda>ct. written ?ns ct \<noteq> []) (component_types p)"
  have fresh: "dict_ok cluster" "cluster \<noteq> []"
    "\<And>k n. (k, n) \<in> set cluster \<Longrightarrow> nr_id n = k \<and> nr_total n = g \<and> nr_alloc n = []"
    using assms(6) by (auto simp: fresh_cluster_def list_all_iff)
  have chosen: "(nr_id n, n) \<in> set cluster" if "n \<in> set ?chosen" for n
  proof -
    from that have "n \<in> set ?cs" by (metis in_set_takeD set_sort)
    then show ?thesis using fresh(3) by auto
  qed
  have len: "length ?chosen = num_nodes p" using assms(7) by simp
  have totals: "map nr_total ?chosen = map nr_total ?ns"
  proof -
    have "map nr_total ?ns = replicate (num_nodes p) g"
      using assms(5) by (intro replicate_eqI) (auto simp: list_all_iff num_nodes_def)
    moreover have "map nr_total ?chosen = replicate (num_nodes p) g"
      using chosen fresh(3) len by (intro replicate_eqI) (auto simp del: length_take)
    ultimately show ?thesis by simp
  qed
  have "length (remdups (map nr_total (dict_values cluster))) = 1"
  proof -
    have "map nr_total (dict_values cluster) = replicate (length cluster) g"
      using fresh(3) by (intro replicate_eqI) auto
    then show ?thesis using fresh(2) by (simp add: remdups_replicate)
  qed
  then have sel: "select_pool_nodes (to_yaml_dict p) cluster used =
      Inr (map nr_id ?chosen, map nr_total ?ns)"
    using assms(7) totals
    by (simp add: select_pool_nodes_def to_yaml_dict_def Let_def py_take_def)
  have ms: "mapM (\<lambda>i. of_option KeyError (map_option node_copy (map_of cluster i))) (map nr_id ?chosen) =
      Inr (map node_copy ?chosen)"
    using mapM_lookup [OF fresh(1), of ?chosen nr_id] chosen by simp
  have comps: "filter (\<lambda>kv. snd kv \<noteq> IvNone) (rc_components (to_yaml_dict p)) =
      map (\<lambda>ct. (ct, IvStr (written ?ns ct))) ?ts"
    using assms by (subst to_yaml_components) (auto simp: list_all_iff node_wf_def filter_map comp_def)
  let ?ms = "map node_copy ?chosen"
  let ?ns' = "fold (\<lambda>ct. fold (put_segment ct) (indexed_ranges ct ?ns)) ?ts ?ms"
  have "foldO (place_component (int (length ?ns)) (node_offsets (map nr_total ?ns))) ?ms
      (map (\<lambda>ct. (ct, IvStr (written ?ns ct))) ?ts) = Some (Inr ?ns')"
    using assms(2) len by (intro place_written_components) (auto simp: list_all_iff num_nodes_def)
  then have "from_yaml_dict (to_yaml_dict p) cluster used =
      Some (Inr (rebuild_component_allocations (new_pool (rp_name p) ?ns')))"
    using sel ms comps
    by (simp add: from_yaml_dict_def num_nodes_def) (simp add: to_yaml_dict_def Let_def num_nodes_def)
  moreover have "length ?ns' = num_nodes p" using len by (simp add: fold_components_length)
  moreover have "dict_get [] (nr_alloc (?ns' ! i)) ct = dict_get [] (nr_alloc (?ns ! i)) ct"
    if i: "i < num_nodes p" and ct: "ct \<in> set (component_types p)" for i ct
  proof -
    have "?chosen ! i \<in> set ?chosen" using i len by (metis nth_mem)
    then have "nr_alloc (?ms ! i) = []" using chosen fresh(3) i len by (fastforce simp: node_copy_def)
    moreover have "dict_get [] (nr_alloc (?ns ! i)) ct = []" if "written ?ns ct = []"
      using filter_indexed_ranges [of i ?ns ct] written_empty [OF that] i by (simp add: num_nodes_def)
    ultimately show ?thesis
      using fold_components_get [of ?ts ?ms ?ns i ct] assms(4) i ct len
      by (auto simp: num_nodes_def)
  qed
  ultimately show ?thesis
    by (auto simp: rebuild_component_allocations_def new_pool_def)
qed

definition witness_nodes :: "node_resource list" where
  "witness_nodes =
     [(new_node ''b'' ''ip1'' 8 4)\<lparr>nr_alloc := [(''train'', [(0, 3)])], nr_cursor := 4, nr_max := 4\<rparr>,
      (new_node ''a'' ''ip2'' 8 4)\<lparr>nr_alloc := [(''train'', [(0, 0)]), (''eval'', [(1, 2), (3, 3)])],
                                  nr_cursor := 4, nr_max := 4\<rparr>]"

definition witness_pool :: resource_pool where
  "witness_pool = rebuild_component_allocations (new_pool ''p'' witness_nodes)"

definition witness_cluster :: "(string, node_resource) dict" where
  "witness_cluster = map (\<lambda>i. (i, new_node i ''ip'' 8 4)) [''a'', ''b'', ''c'']"

lemma yaml_roundtrip_witness:
  "\<exists>p'. from_yaml_dict (to_yaml_dict witness_pool) witness_cluster [''c''] = Some (Inr p')
     \<and> dict_get [] (nr_alloc (rp_nodes p' ! 1)) ''eval'' = [(1, 2), (3, 3)]"
proof -
  have nodes: "rp_nodes witness_pool = witness_nodes" "component_types witness_pool = [''train'', ''eval'', ''buffer'']"
    by (simp add: witness_pool_def new_pool_def rebuild_component_allocations_def, code_simp)
  have "\<exists>p'. from_yaml_dict (to_yaml_dict witness_pool) witness_cluster [''c''] = Some (Inr p')
     \<and> rp_name p' = rp_name witness_pool \<and> length (rp_nodes p') = num_nodes witness_pool
     \<and> (\<forall>i < num_nodes witness_pool. \<forall>ct \<in> set (component_types witness_pool).
          dict_get [] (nr_alloc (rp_nodes p' ! i)) ct = dict_get [] (nr_alloc (rp_nodes witness_pool ! i)) ct)"
  proof (rule yaml_roundtrip [of witness_pool 4])
    show "distinct (pool_node_ids witness_pool)" by code_simp
    show "list_all node_wf (rp_nodes witness_pool)"
      unfolding nodes by (simp add: witness_nodes_def new_node_def node_wf_def ranges_within_def all_ranges_def)
    show "rp_comp_alloc witness_pool = rp_comp_alloc (rebuild_component_allocations witness_pool)"
      by (simp add: witness_pool_def rebuild_component_allocations_def)
    show "distinct (component_types witness_pool)" by (simp add: nodes)
    show "list_all (\<lambda>n. nr_total n = 4) (rp_nodes witness_pool)"
      unfolding nodes by (simp add: witness_nodes_def new_node_def)
    show "fresh_cluster 4 witness_cluster"
      by (simp add: fresh_cluster_def witness_cluster_def new_node_def)
    show "num_nodes witness_pool \<le> length (filter (\<lambda>n. nr_id n \<notin> set [''c'']) (dict_values witness_cluster))"
      by (simp add: num_nodes_def nodes witness_nodes_def witness_cluster_def new_node_def)
  qed
  then show ?thesis
    by (auto simp: num_nodes_def nodes witness_nodes_def dict_get_def)
qed

text \<open>On a cluster whose nodes differ in capacity the YAML form of any pool is refused when it
  is loaded, because \<open>to_yaml_dict\<close> writes no \<open>node_ids\<close>; the comment in \<open>to_yaml_dict\<close> keeps a
  per-node list for reversibility.\<close>
theorem yaml_heterogeneous_refused:
  assumes "(i, n) \<in> set cluster" "(j, m) \<in> set cluster" "nr_total n \<noteq> nr_total m"
  shows "from_yaml_dict (to_yaml_dict p) cluster used = Some (Inl ValueError)"
proof -
  have "length (remdups (map nr_total (dict_values cluster))) \<noteq> 1"
  proof
    assume "length (remdups (map nr_total (dict_values cluster))) = 1"
    then obtain x where "remdups (map nr_total (dict_values cluster)) = [x]"
      by (auto simp: length_Suc_conv)
    then have "set (map nr_total (dict_values cluster)) = {x}" by (metis set_remdups list.set(1,2))
    moreover have "nr_total n \<in> set (map nr_total (dict_values cluster))"
      "nr_total m \<in> set (map nr_total (dict_values cluster))"
      using assms(1,2) by force+
    ultimately show False using assms(3) by simp
  qed
  then show ?thesis
    by (simp add: from_yaml_dict_def select_pool_nodes_def to_yaml_dict_def Let_def)
qed

lemma yaml_heterogeneous_refused_witness:
  "from_yaml_dict (to_yaml_dict witness_pool)
     [(''a'', new_node ''a'' ''ip'' 8 4), (''b'', new_node ''b'' ''ip'' 8 8)] [] = Some (Inl ValueError)"
  by (rule yaml_heterogeneous_refused [of "''a''" "new_node ''a'' ''ip'' 8 4" _ "''b''" "new_node ''b'' ''ip'' 8 8"])
     (simp_all add: new_node_def)

end
