(* ===== verification/Component_Distribution.thy ===== *)
theory Component_Distribution
  imports Py_Strings
begin

text \<open>
  The component distribution that the placement strategy produces and that the routers and the
  episode table read: node id to component type to the number and the ids of the workers there.
  Also the index at the end of an environment id (\<open>_parse_env_worker_index\<close>), and the counting
  facts about round-robin choice that routers and table share.
\<close>

record component_entry =
  ce_count :: int
  ce_ids :: "int list"

type_synonym distribution = "(string, (string, component_entry) dict) dict"

text \<open>\<open>components.get(ct, {}).get("ids", [])\<close>\<close>

definition component_ids :: "(string, component_entry) dict \<Rightarrow> string \<Rightarrow> int list" where
  "component_ids comps ct = (case map_of comps ct of None \<Rightarrow> [] | Some e \<Rightarrow> ce_ids e)"

definition parse_env_worker_index :: "string \<Rightarrow> int option" where
  "parse_env_worker_index env_id =
     (case py_int (py_rsplit_last CHR ''-'' env_id) of Inl e \<Rightarrow> None | Inr i \<Rightarrow> Some i)"

lemma parse_env_worker_index_print:
  "parse_env_worker_index (prefix @ ''-'' @ string_of_nat i) = Some (int i)"
proof -
  have "CHR ''-'' \<notin> set (string_of_nat i)"
    using string_of_nat_digits [of "CHR ''-''" i] by auto
  then show ?thesis by (simp add: parse_env_worker_index_def py_rsplit_last_append)
qed

subsection \<open>Round-robin counts\<close>

definition rr_count :: "nat \<Rightarrow> nat \<Rightarrow> nat \<Rightarrow> nat \<Rightarrow> nat" where
  "rr_count k c n j = length (filter (\<lambda>i. (c + i) mod k = j) [0..<n])"

lemma rr_count_Suc: "rr_count k c (Suc n) j = (if (c + n) mod k = j then Suc (rr_count k c n j) else rr_count k c n j)"
  by (simp add: rr_count_def)

text \<open>Exactly one of \<open>k\<close> consecutive numbers has the residue \<open>j\<close>.\<close>

lemma rr_count_prefix:
  assumes "0 < k" "j < k" "n \<le> k"
  shows "rr_count k c n j = (if (j + k - c mod k) mod k < n then 1 else 0)"
  using assms(3)
proof (induction n)
  case 0
  then show ?case by (simp add: rr_count_def)
next
  case (Suc n)
  let ?d = "(j + k - c mod k) mod k"
  have "(c + n) mod k = j \<longleftrightarrow> n = ?d"
  proof
    assume "(c + n) mod k = j"
    then have "(c mod k + n) mod k = j" by (simp add: mod_add_left_eq)
    then show "n = ?d"
    proof (cases "c mod k + n < k")
      case True
      with \<open>(c mod k + n) mod k = j\<close> have "j + k - c mod k = n + k" by simp
      with Suc.prems show ?thesis by simp
    next
      case False
      moreover have "c mod k < k" using assms(1) by simp
      ultimately have "c mod k + n - k < k" using Suc.prems by linarith
      with False \<open>(c mod k + n) mod k = j\<close> have "j = c mod k + n - k"
        by (metis le_mod_geq linorder_not_less mod_less)
      with False have "j + k - c mod k = n" by simp
      with Suc.prems show ?thesis by simp
    qed
  next
    assume n: "n = ?d"
    have "(c + n) mod k = (c mod k + (j + k - c mod k)) mod k"
      using n by (simp add: mod_simps)
    also have "c mod k + (j + k - c mod k) = j + k"
      using assms(1) by (simp add: le_add_diff_inverse order.strict_implies_order trans_le_add2)
    finally show "(c + n) mod k = j" using assms(2) by simp
  qed
  then show ?case using Suc by (auto simp: rr_count_Suc)
qed

lemma rr_count_add: "rr_count k c (m + n) j = rr_count k c m j + rr_count k (c + m) n j"
  by (induction n) (simp_all add: rr_count_Suc add.assoc, simp add: rr_count_def)

lemma rr_count_rounds: "0 < k \<Longrightarrow> j < k \<Longrightarrow> rr_count k c (q * k) j = q"
proof (induction q arbitrary: c)
  case 0
  then show ?case by (simp add: rr_count_def)
next
  case (Suc q)
  then show ?case by (simp add: rr_count_add rr_count_prefix)
qed

text \<open>After \<open>n\<close> choices every one of the \<open>k\<close> targets has been chosen \<open>n div k\<close> times or once more.\<close>

lemma rr_count_fair:
  assumes "0 < k" "j < k"
  shows "n div k \<le> rr_count k c n j \<and> rr_count k c n j \<le> n div k + 1"
proof -
  have "rr_count k c n j = rr_count k c (n div k * k) j + rr_count k (c + n div k * k) (n mod k) j"
    by (metis div_mult_mod_eq rr_count_add)
  moreover have "rr_count k (c + n div k * k) (n mod k) j \<le> 1"
    using assms by (simp add: rr_count_prefix)
  ultimately show ?thesis using assms by (simp add: rr_count_rounds)
qed

end
