(* ===== verification/Router.thy ===== *)
theory Router
  imports Component_Distribution "HOL-Library.Multiset" "HOL-Library.Product_Lexorder"
begin

text \<open>
  \<open>rlightning/policy/utils/router.py\<close>: which eval policy serves a request. The asynchronous routers
  (\<open>SimpleRouter\<close>, \<open>NodeAffinityRouter\<close>) assign a batch of tasks to policy indices by load, the
  synchronous ones (\<open>SyncSimpleRouter\<close>, \<open>SyncNodeAffinityRouter\<close>) pick one policy for one request.
  The per-node locks make index and counter one step, so concurrent selections are a sequence.
\<close>

subsection \<open>Priority queues\<close>

text \<open>
  \<open>SimpleRouter\<close> uses \<open>heapq\<close>. The loop is defined over the queue's operations; the locale states
  what it needs of them, and the interpretation gives them the behaviour of \<open>heapq\<close> on pairs: the
  pairs are ordered lexicographically and no two are equal, so a pop returns the least pair
  whatever the layout of the heap.
\<close>

fun assign_loop ::
    "('q \<Rightarrow> (int \<times> nat) \<times> 'q) \<Rightarrow> (int \<times> nat \<Rightarrow> 'q \<Rightarrow> 'q) \<Rightarrow> nat \<Rightarrow> 'q \<Rightarrow> nat list" where
  "assign_loop pop push 0 heap = []"
| "assign_loop pop push (Suc n) heap =
     (let ((load, idx), heap') = pop heap
      in idx # assign_loop pop push n (push (load + 1, idx) heap'))"

definition initial_entries :: "int list \<Rightarrow> (int \<times> nat) list" where
  "initial_entries loads = map (\<lambda>i. (loads ! i, i)) [0..<length loads]"

locale min_queue =
  fixes heapify :: "(int \<times> nat) list \<Rightarrow> 'q"
    and pop :: "'q \<Rightarrow> (int \<times> nat) \<times> 'q"
    and push :: "int \<times> nat \<Rightarrow> 'q \<Rightarrow> 'q"
    and contents :: "'q \<Rightarrow> (int \<times> nat) multiset"
    and ok :: "'q \<Rightarrow> bool"
  assumes contents_heapify: "contents (heapify xs) = mset xs" "ok (heapify xs)"
    and pop_min: "ok q \<Longrightarrow> contents q \<noteq> {#} \<Longrightarrow> pop q = (x, q') \<Longrightarrow>
                    contents q = add_mset x (contents q') \<and> ok q' \<and> (\<forall>y \<in># contents q. x \<le> y)"
    and contents_push: "ok q \<Longrightarrow> contents (push x q) = add_mset x (contents q) \<and> ok (push x q)"
begin

text \<open>
  \<open>entries\<close> is the queue's content when policy \<open>i\<close> has load \<open>f i\<close>. A step picks a least loaded
  policy and raises its load by one.
\<close>

definition entries :: "nat \<Rightarrow> (nat \<Rightarrow> int) \<Rightarrow> (int \<times> nat) multiset" where
  "entries k f = image_mset (\<lambda>i. (f i, i)) (mset_set {0..<k})"

lemma entries_pick:
  assumes "i < k"
  shows "entries k (f(i := v)) = add_mset (v, i) (image_mset (\<lambda>j. (f j, j)) (mset_set ({0..<k} - {i})))"
proof -
  have "mset_set {0..<k} = add_mset i (mset_set ({0..<k} - {i}))"
    using assms by (simp add: mset_set.remove)
  moreover have "image_mset (\<lambda>j. ((f(i := v)) j, j)) (mset_set ({0..<k} - {i})) =
      image_mset (\<lambda>j. (f j, j)) (mset_set ({0..<k} - {i}))"
    by (rule image_mset_cong) simp
  ultimately show ?thesis by (simp add: entries_def)
qed

lemma step:
  assumes "ok q" "contents q = entries k f" "0 < k" "pop q = ((load, idx), q')"
  shows "idx < k \<and> load = f idx \<and> (\<forall>j < k. f idx \<le> f j)
     \<and> contents (push (load + 1, idx) q') = entries k (f(idx := f idx + 1)) \<and> ok (push (load + 1, idx) q')"
proof -
  have "contents q \<noteq> {#}" using assms(2,3) by (auto simp: entries_def mset_set_empty_iff)
  from pop_min [OF assms(1) this assms(4)] have
    q': "contents q = add_mset (load, idx) (contents q')" "ok q'" "\<forall>y \<in># contents q. (load, idx) \<le> y"
    by auto
  then have "(load, idx) \<in># entries k f" using assms(2) by simp
  then have idx: "idx < k" "load = f idx" by (auto simp: entries_def)
  have min: "f idx \<le> f j" if "j < k" for j
  proof -
    have "(f j, j) \<in># contents q" using that assms(2) by (auto simp: entries_def)
    then have "(load, idx) \<le> (f j, j)" using q'(3) by blast
    then show ?thesis using idx(2) by (auto simp: less_eq_prod_def)
  qed
  have "contents q' = image_mset (\<lambda>j. (f j, j)) (mset_set ({0..<k} - {idx}))"
    using q'(1) assms(2) entries_pick [OF idx(1), of f "f idx"] idx(2) by simp
  with contents_push [OF q'(2)] have "contents (push (load + 1, idx) q') = entries k (f(idx := f idx + 1))"
    "ok (push (load + 1, idx) q')"
    using entries_pick [OF idx(1), of f "f idx + 1"] idx(2) by auto
  with idx min show ?thesis by blast
qed

text \<open>
  The loop assigns every task to an existing policy, and a policy that got a task ends with a
  load at most one above any other.
\<close>

lemma loop_balanced:
  fixes n :: nat
  assumes "ok q" "contents q = entries k f" "0 < k"
    and "\<forall>i < k. i \<in> S \<longrightarrow> (\<forall>j < k. f i \<le> f j + 1)"
  defines "as \<equiv> assign_loop pop push n q"
  shows "length as = n \<and> (\<forall>i \<in> set as. i < k)
     \<and> (\<forall>i < k. i \<in> S \<union> set as \<longrightarrow>
          (\<forall>j < k. f i + int (count_list as i) \<le> f j + int (count_list as j) + 1))"
  unfolding as_def using assms(1,2,4)
proof (induction n arbitrary: q f S)
  case 0
  then show ?case by simp
next
  case (Suc n)
  obtain load idx q' where pop: "pop q = ((load, idx), q')" by (metis prod.exhaust)
  note st = step [OF Suc.prems(1,2) assms(3) pop]
  define f' where "f' = f(idx := f idx + 1)"
  define q2 where "q2 = push (load + 1, idx) q'"
  have q2: "ok q2" "contents q2 = entries k f'" using st unfolding f'_def q2_def by blast+
  have "f' i \<le> f' j + 1" if "i < k" "i \<in> insert idx S" "j < k" for i j
  proof -
    have "f i \<le> f j + 1 \<or> i = idx" using Suc.prems(3) that by blast
    moreover have "f idx \<le> f j" "f idx \<le> f i" using st that by auto
    ultimately show ?thesis by (auto simp: f'_def)
  qed
  then have "\<forall>i < k. i \<in> insert idx S \<longrightarrow> (\<forall>j < k. f' i \<le> f' j + 1)" by blast
  note ih = Suc.IH [OF q2 this]
  have out: "assign_loop pop push (Suc n) q = idx # assign_loop pop push n q2" by (simp add: pop q2_def)
  have sum: "f i + int (count_list (idx # as) i) = f' i + int (count_list as i)" for i as by (simp add: f'_def)
  show ?case
    unfolding out sum using ih st by auto
qed

end

definition heap_pop :: "(int \<times> nat) list \<Rightarrow> (int \<times> nat) \<times> (int \<times> nat) list" where
  "heap_pop q = (hd q, tl q)"

definition heap_push :: "int \<times> nat \<Rightarrow> (int \<times> nat) list \<Rightarrow> (int \<times> nat) list" where
  "heap_push x q = insort x q"

interpretation hq: min_queue sort heap_pop heap_push mset sorted
proof unfold_locales
  fix q q' :: "(int \<times> nat) list" and x
  assume "sorted q" "mset q \<noteq> {#}" "heap_pop q = (x, q')"
  then show "mset q = add_mset x (mset q') \<and> sorted q' \<and> (\<forall>y \<in># mset q. x \<le> y)"
    by (cases q) (auto simp: heap_pop_def)
qed (simp_all add: heap_push_def sorted_insort)

subsection \<open>Asynchronous routers\<close>

text \<open>\<open>heapify\<close> of the pairs in index order; \<open>range(num_tasks)\<close> is empty for a negative number.\<close>

definition simple_assign :: "int list \<Rightarrow> int \<Rightarrow> nat list result" where
  "simple_assign current_loads num_tasks =
     (let heap = initial_entries current_loads
      in if heap = [] then Inl ValueError
         else Inr (assign_loop heap_pop heap_push (nat num_tasks) (sort heap)))"

record affinity_router =
  ar_env_to_node :: "(int, string) dict"
  ar_policy_nodes :: "string list"

definition env_worker_nodes :: "distribution \<Rightarrow> (int, string) dict" where
  "env_worker_nodes dist =
     fold (\<lambda>(node, comps) m. fold (\<lambda>i. AList.update i node) (component_ids comps ''env'') m) dist []"

definition new_affinity_router :: "distribution \<Rightarrow> string list option \<Rightarrow> affinity_router" where
  "new_affinity_router dist policy_nodes =
     \<lparr>ar_env_to_node = env_worker_nodes dist,
      ar_policy_nodes = (case policy_nodes of None \<Rightarrow> [] | Some ns \<Rightarrow> ns)\<rparr>"

text \<open>
  \<open>min(cands, key = loads)\<close>: the first candidate of least load; no candidate raises, and so does a
  candidate that is not an index of the loads.
\<close>

fun arg_min_from :: "int list \<Rightarrow> nat \<Rightarrow> nat list \<Rightarrow> nat result" where
  "arg_min_from loads best [] = Inr best"
| "arg_min_from loads best (i # is) =
     (if i \<ge> length loads then Inl IndexError
      else arg_min_from loads (if loads ! i < loads ! best then i else best) is)"

definition arg_min_load :: "int list \<Rightarrow> nat list \<Rightarrow> nat result" where
  "arg_min_load loads cands =
     (case cands of
        [] \<Rightarrow> Inl ValueError
      | i # is \<Rightarrow> if i \<ge> length loads then Inl IndexError else arg_min_from loads i is)"

definition node_of_env :: "(int, string) dict \<Rightarrow> string \<Rightarrow> string option" where
  "node_of_env m env_id =
     (case parse_env_worker_index env_id of None \<Rightarrow> None | Some i \<Rightarrow> map_of m i)"

definition affinity_candidates :: "affinity_router \<Rightarrow> string \<Rightarrow> nat list" where
  "affinity_candidates r env_id =
     filter (\<lambda>i. Some (ar_policy_nodes r ! i) = node_of_env (ar_env_to_node r) env_id)
       [0..<length (ar_policy_nodes r)]"

fun affinity_loop :: "affinity_router \<Rightarrow> int list \<Rightarrow> string list \<Rightarrow> (nat list \<times> int list) result" where
  "affinity_loop r loads [] = Inr ([], loads)"
| "affinity_loop r loads (e # es) =
     (let cands = affinity_candidates r e
      in bind_result (arg_min_load loads (if cands = [] then [0..<length loads] else cands)) (\<lambda>idx.
         bind_result (affinity_loop r (loads[idx := loads ! idx + 1]) es) (\<lambda>(as, loads').
         Inr (idx # as, loads'))))"

text \<open>The list \<open>current_loads\<close> is updated in place when the environments are given.\<close>

definition affinity_assign ::
    "affinity_router \<Rightarrow> int list \<Rightarrow> int \<Rightarrow> string list option \<Rightarrow> (nat list \<times> int list) result" where
  "affinity_assign r loads num_tasks env_ids =
     (if ar_policy_nodes r = [] \<or> env_ids = None \<or> env_ids = Some []
      then bind_result (simple_assign loads num_tasks) (\<lambda>as. Inr (as, loads))
      else affinity_loop r loads (the env_ids))"

subsection \<open>Synchronous routers\<close>

text \<open>
  \<open>SyncSimpleRouter\<close>. Policies are named by numbers. The difference of the two Python sets is
  iterated in an order the language does not fix: \<open>order\<close>. Remote policies are probed with
  \<open>ray.wait\<close>: \<open>ready k busy\<close> are those of \<open>busy\<close> that the \<open>k\<close>-th probe finds idle; local policies
  are always idle. The waiting loop may not end, so \<open>select_simple\<close> has a fuel: the number of
  probes it is given time for.
\<close>

definition busy_policies :: "(nat list \<Rightarrow> nat list) \<Rightarrow> nat list \<Rightarrow> nat list \<Rightarrow> nat list" where
  "busy_policies order evals idle = order (filter (\<lambda>p. p \<notin> set idle) (remdups evals))"

definition flush_idle ::
    "bool \<Rightarrow> (nat list \<Rightarrow> nat list) \<Rightarrow> (nat list \<Rightarrow> nat list) \<Rightarrow> nat list \<Rightarrow> nat list \<Rightarrow> nat list" where
  "flush_idle remote order ready evals idle =
     (if evals = [] then idle
      else let busy = busy_policies order evals idle
        in if busy = [] then idle
           else if \<not> remote then idle @ busy
           else idle @ filter (\<lambda>p. p \<in> set busy) (ready busy))"

fun select_simple ::
    "nat \<Rightarrow> bool \<Rightarrow> (nat list \<Rightarrow> nat list) \<Rightarrow> (nat \<Rightarrow> nat list \<Rightarrow> nat list) \<Rightarrow> nat list \<Rightarrow> nat list
       \<Rightarrow> (nat \<times> nat list) option" where
  "select_simple fuel remote order ready evals (p # idle) = Some (p, idle)"
| "select_simple 0 remote order ready evals [] = None"
| "select_simple (Suc fuel) remote order ready evals [] =
     select_simple fuel remote order (\<lambda>k. ready (Suc k)) evals (flush_idle remote order (ready 0) evals [])"

record sync_affinity_router =
  sa_evals :: "nat list"
  sa_env_to_node :: "(int, string) dict"
  sa_node_policies :: "(string, nat list) dict"
  sa_env_worker_num :: nat
  sa_rr :: "(string, nat) dict"
  sa_global_rr :: nat

text \<open>The two mappings that one node of the distribution adds.\<close>

definition add_node_mapping ::
    "nat list \<Rightarrow> (int, string) dict \<times> (string, nat list) dict \<times> nat
       \<Rightarrow> string \<times> (string, component_entry) dict
       \<Rightarrow> ((int, string) dict \<times> (string, nat list) dict \<times> nat) result" where
  "add_node_mapping evals st nc =
     (case st of (envs, nodes, num) \<Rightarrow> case nc of (node, comps) \<Rightarrow>
        let env_ids = component_ids comps ''env''; eval_ids = component_ids comps ''eval'' in
        bind_result (guard AssertionError (env_ids \<noteq> [] \<longrightarrow> eval_ids \<noteq> [])) (\<lambda>_.
        bind_result (guard AssertionError (eval_ids \<noteq> [] \<longrightarrow> env_ids \<noteq> [])) (\<lambda>_.
        if env_ids = [] then Inr (envs, nodes, num)
        else bind_result (mapM (py_nth evals) eval_ids) (\<lambda>ps.
          Inr (fold (\<lambda>i. AList.update i node) env_ids envs, AList.update node ps nodes,
               num + length env_ids)))))"

definition new_sync_affinity_router :: "nat list \<Rightarrow> distribution \<Rightarrow> sync_affinity_router result" where
  "new_sync_affinity_router evals dist =
     bind_result (foldM (add_node_mapping evals) ([], [], 0) dist) (\<lambda>(envs, nodes, num).
       Inr \<lparr>sa_evals = evals, sa_env_to_node = envs, sa_node_policies = nodes, sa_env_worker_num = num,
            sa_rr = map (\<lambda>(n, _). (n, 0)) nodes, sa_global_rr = 0\<rparr>)"

definition select_sync_affinity :: "sync_affinity_router \<Rightarrow> string \<Rightarrow> (nat \<times> sync_affinity_router) result" where
  "select_sync_affinity r env_id =
     (case (case node_of_env (sa_env_to_node r) env_id of
              None \<Rightarrow> None
            | Some n \<Rightarrow> map_option (\<lambda>ps. (n, ps)) (map_of (sa_node_policies r) n)) of
        Some (n, ps) \<Rightarrow>
          bind_result (of_option KeyError (map_of (sa_rr r) n)) (\<lambda>c.
            if ps = [] then Inl ZeroDivisionError
            else Inr (ps ! (c mod length ps), r\<lparr>sa_rr := AList.update n (c + 1) (sa_rr r)\<rparr>))
      | None \<Rightarrow>
          if sa_evals r = [] then Inl ZeroDivisionError
          else Inr (sa_evals r ! (sa_global_rr r mod length (sa_evals r)),
                    r\<lparr>sa_global_rr := sa_global_rr r + 1\<rparr>))"

datatype router =
    RSyncAffinity sync_affinity_router
  | RSyncSimple "nat list"
  | RSimple

text \<open>\<open>dist\<close> is what the resource manager answers, \<open>None\<close> when there is no manager.\<close>

definition create_router :: "string \<Rightarrow> string \<Rightarrow> nat list \<Rightarrow> distribution option \<Rightarrow> router result" where
  "create_router rollout_mode rtype evals dist =
     (if rollout_mode = ''sync'' then
        if rtype = ''node_affinity'' then
          bind_result (of_option AssertionError dist) (\<lambda>d.
          bind_result (guard AssertionError (d \<noteq> [])) (\<lambda>_.
          bind_result (new_sync_affinity_router evals d) (\<lambda>r. Inr (RSyncAffinity r))))
        else Inr (RSyncSimple evals)
      else if rollout_mode = ''async'' then Inr RSimple
      else Inl ValueError)"

subsection \<open>Properties\<close>

text \<open>C8: load balancing: given at least one policy, \<open>SimpleRouter.assign\<close> returns one existing
  policy index per task, and after the batch a policy that received a task has a load at most one
  above every other policy, whatever the loads before.\<close>
theorem simple_assign_balanced:
  assumes "loads \<noteq> []"
  shows "\<exists>as. simple_assign loads num_tasks = Inr as \<and> length as = nat num_tasks
     \<and> (\<forall>i \<in> set as. i < length loads
          \<and> (\<forall>j < length loads. loads ! i + int (count_list as i) \<le> loads ! j + int (count_list as j) + 1))"
proof -
  let ?q = "sort (initial_entries loads)"
  have "mset ?q = hq.entries (length loads) (\<lambda>i. loads ! i)"
    by (simp add: initial_entries_def hq.entries_def flip: mset_upt)
  then have "length (assign_loop heap_pop heap_push (nat num_tasks) ?q) = nat num_tasks
     \<and> (\<forall>i \<in> set (assign_loop heap_pop heap_push (nat num_tasks) ?q). i < length loads)
     \<and> (\<forall>i < length loads. i \<in> {} \<union> set (assign_loop heap_pop heap_push (nat num_tasks) ?q) \<longrightarrow>
          (\<forall>j < length loads. loads ! i + int (count_list (assign_loop heap_pop heap_push (nat num_tasks) ?q) i)
             \<le> loads ! j + int (count_list (assign_loop heap_pop heap_push (nat num_tasks) ?q) j) + 1))"
    using assms by (intro hq.loop_balanced) auto
  moreover have "initial_entries loads \<noteq> []" using assms by (simp add: initial_entries_def)
  ultimately show ?thesis by (simp add: simple_assign_def Let_def)
qed

lemma simple_assign_balanced_witness:
  "\<exists>as. simple_assign [3, 0, 1] 5 = Inr as \<and> length as = 5
     \<and> (\<forall>i \<in> set as. \<forall>j < 3. [3, 0, 1] ! i + int (count_list as i) \<le> [3, 0, 1] ! j + int (count_list as j) + 1)"
  using simple_assign_balanced [of "[3, 0, 1]" 5] by (auto simp: eval_nat_numeral)

lemma arg_min_from_least:
  "arg_min_from loads best is = Inr i \<Longrightarrow> i \<in> insert best (set is) \<and> (\<forall>j \<in> insert best (set is). loads ! i \<le> loads ! j)"
  by (induction loads best "is" rule: arg_min_from.induct) (auto split: if_splits intro: order_trans)

lemma arg_min_load_least:
  "arg_min_load loads cands = Inr i \<Longrightarrow> i \<in> set cands \<and> (\<forall>j \<in> set cands. loads ! i \<le> loads ! j)"
  by (auto simp: arg_min_load_def split: list.splits if_splits dest!: arg_min_from_least)

lemma arg_min_from_total: "\<forall>i \<in> set is. i < length loads \<Longrightarrow> \<exists>i. arg_min_from loads best is = Inr i"
  by (induction "is" arbitrary: best) auto

lemma arg_min_load_total: "cands \<noteq> [] \<Longrightarrow> \<forall>i \<in> set cands. i < length loads \<Longrightarrow> \<exists>i. arg_min_load loads cands = Inr i"
  by (cases cands) (auto simp: arg_min_load_def intro: arg_min_from_total)

lemma affinity_loop_places:
  assumes "loads \<noteq> []" "length (ar_policy_nodes r) \<le> length loads"
  shows "\<exists>as loads'. affinity_loop r loads es = Inr (as, loads') \<and> length as = length es
     \<and> (\<forall>k < length es. as ! k < length loads \<and>
          (affinity_candidates r (es ! k) \<noteq> [] \<longrightarrow> as ! k \<in> set (affinity_candidates r (es ! k))))
     \<and> length loads' = length loads
     \<and> (\<forall>i < length loads. loads' ! i = loads ! i + int (count_list as i))"
  using assms(1,2)
proof (induction es arbitrary: loads)
  case Nil
  then show ?case by simp
next
  case (Cons e es)
  let ?c = "affinity_candidates r e"
  let ?cands = "if ?c = [] then [0..<length loads] else ?c"
  have c: "i \<in> set ?cands \<Longrightarrow> i < length loads" for i
    using Cons.prems by (auto simp: affinity_candidates_def split: if_splits)
  moreover have "?cands \<noteq> []" using Cons.prems(1) by simp
  ultimately obtain i where i: "arg_min_load loads ?cands = Inr i" "i \<in> set ?cands" "i < length loads"
    using arg_min_load_total [of ?cands loads] arg_min_load_least by metis
  let ?loads = "loads[i := loads ! i + 1]"
  obtain as loads' where ih: "affinity_loop r ?loads es = Inr (as, loads')" "length as = length es"
    "\<forall>k < length es. as ! k < length loads \<and>
          (affinity_candidates r (es ! k) \<noteq> [] \<longrightarrow> as ! k \<in> set (affinity_candidates r (es ! k)))"
    "length loads' = length loads" "\<forall>j < length loads. loads' ! j = ?loads ! j + int (count_list as j)"
    using Cons.IH [of ?loads] Cons.prems by auto
  have "affinity_loop r loads (e # es) = Inr (i # as, loads')"
    using i(1) ih(1) by (simp add: Let_def)
  moreover have "(i # as) ! k < length loads \<and> (affinity_candidates r ((e # es) ! k) \<noteq> [] \<longrightarrow>
      (i # as) ! k \<in> set (affinity_candidates r ((e # es) ! k)))" if "k < length (e # es)" for k
    using that i(2,3) ih(3) by (cases k) (auto split: if_splits)
  moreover have "loads' ! j = loads ! j + int (count_list (i # as) j)" if "j < length loads" for j
    using that ih(5) by (auto simp: nth_list_update)
  ultimately show ?case using ih(2,4) by auto
qed

text \<open>Node affinity: with policy nodes and environment ids, \<open>NodeAffinityRouter.assign\<close> returns one
  policy per environment id (the number of tasks is not read), a policy on the node of the
  environment's worker whenever there is one, and the loads it leaves in the list are the loads
  before plus the tasks assigned.\<close>
theorem affinity_assign_on_node:
  assumes "loads \<noteq> []" "ar_policy_nodes r \<noteq> []" "length (ar_policy_nodes r) \<le> length loads" "es \<noteq> []"
  shows "\<exists>as loads'. affinity_assign r loads num_tasks (Some es) = Inr (as, loads') \<and> length as = length es
     \<and> (\<forall>k < length es.
          (\<exists>i < length (ar_policy_nodes r). Some (ar_policy_nodes r ! i) = node_of_env (ar_env_to_node r) (es ! k)) \<longrightarrow>
          as ! k < length (ar_policy_nodes r) \<and> Some (ar_policy_nodes r ! (as ! k)) = node_of_env (ar_env_to_node r) (es ! k))
     \<and> (\<forall>i < length loads. loads' ! i = loads ! i + int (count_list as i))"
proof -
  obtain as loads' where *: "affinity_loop r loads es = Inr (as, loads')" "length as = length es"
    "\<And>k. k < length es \<Longrightarrow> affinity_candidates r (es ! k) \<noteq> [] \<Longrightarrow> as ! k \<in> set (affinity_candidates r (es ! k))"
    "\<forall>i < length loads. loads' ! i = loads ! i + int (count_list as i)"
    using affinity_loop_places [OF assms(1,3), of es] by blast
  moreover have "affinity_candidates r e \<noteq> [] \<longleftrightarrow>
      (\<exists>i < length (ar_policy_nodes r). Some (ar_policy_nodes r ! i) = node_of_env (ar_env_to_node r) e)" for e
    by (auto simp: affinity_candidates_def filter_empty_conv)
  moreover have "i \<in> set (affinity_candidates r e) \<longleftrightarrow> i < length (ar_policy_nodes r) \<and>
      Some (ar_policy_nodes r ! i) = node_of_env (ar_env_to_node r) e" for i e
    by (auto simp: affinity_candidates_def)
  ultimately show ?thesis using assms(2,4) by (auto simp: affinity_assign_def)
qed

lemma affinity_assign_on_node_witness:
  "let r = new_affinity_router
       [(''n1'', [(''env'', \<lparr>ce_count = 1, ce_ids = [0]\<rparr>)]), (''n2'', [(''env'', \<lparr>ce_count = 1, ce_ids = [1]\<rparr>)])]
       (Some [''n1'', ''n2''])
   in \<exists>as loads'. affinity_assign r [5, 0] 9 (Some [''env-0'', ''env-1'']) = Inr (as, loads') \<and> as ! 0 = 0"
proof -
  define r where "r = new_affinity_router
       [(''n1'', [(''env'', \<lparr>ce_count = 1, ce_ids = [0]\<rparr>)]), (''n2'', [(''env'', \<lparr>ce_count = 1, ce_ids = [1]\<rparr>)])]
       (Some [''n1'', ''n2''])"
  have r: "ar_policy_nodes r = [''n1'', ''n2'']" "node_of_env (ar_env_to_node r) ''env-0'' = Some ''n1''"
    unfolding r_def by code_simp+
  obtain as loads' where as: "affinity_assign r [5, 0] 9 (Some [''env-0'', ''env-1'']) = Inr (as, loads')"
    "as ! 0 < 2" "Some ([''n1'', ''n2''] ! (as ! 0)) = Some ''n1''"
    using affinity_assign_on_node [of "[5, 0]" r "[''env-0'', ''env-1'']" 9] r
    by (fastforce simp: less_Suc_eq)
  then have "as ! 0 = 0" by (cases "as ! 0") (auto simp: less_Suc_eq)
  with as(1) show ?thesis unfolding r_def Let_def by blast
qed

subsubsection \<open>Round robin\<close>

text \<open>A run of requests, in the order in which they reach the router.\<close>

fun select_many :: "sync_affinity_router \<Rightarrow> string list \<Rightarrow> (nat list \<times> sync_affinity_router) result" where
  "select_many r [] = Inr ([], r)"
| "select_many r (e # es) =
     bind_result (select_sync_affinity r e) (\<lambda>(p, r').
     bind_result (select_many r' es) (\<lambda>(ps, r''). Inr (p # ps, r'')))"

definition router_wf :: "sync_affinity_router \<Rightarrow> bool" where
  "router_wf r \<longleftrightarrow> sa_evals r \<noteq> [] \<and> list_all (\<lambda>(n, ps). ps \<noteq> [] \<and> map_of (sa_rr r) n \<noteq> None) (sa_node_policies r)"

definition target_node :: "sync_affinity_router \<Rightarrow> string \<Rightarrow> string option" where
  "target_node r e = node_of_env (sa_env_to_node r) e"

definition requests_for :: "sync_affinity_router \<Rightarrow> string \<Rightarrow> string list \<Rightarrow> nat list \<Rightarrow> nat list" where
  "requests_for r n es as = map snd (filter (\<lambda>(e, a). target_node r e = Some n) (zip es as))"

lemma requests_for_Cons:
  "requests_for r n (e # es) (a # as) =
     (if target_node r e = Some n then a # requests_for r n es as else requests_for r n es as)"
  by (simp add: requests_for_def)

lemma select_step:
  assumes "router_wf r"
  shows "\<exists>p r'. select_sync_affinity r e = Inr (p, r') \<and> router_wf r'
     \<and> sa_env_to_node r' = sa_env_to_node r \<and> sa_node_policies r' = sa_node_policies r
     \<and> sa_evals r' = sa_evals r
     \<and> (\<forall>n ps c. map_of (sa_node_policies r) n = Some ps \<and> map_of (sa_rr r) n = Some c \<longrightarrow>
          (if target_node r e = Some n then p = ps ! (c mod length ps) \<and> map_of (sa_rr r') n = Some (c + 1)
           else map_of (sa_rr r') n = Some c))"
proof (cases "case target_node r e of None \<Rightarrow> None
              | Some n \<Rightarrow> map_option (\<lambda>ps. (n, ps)) (map_of (sa_node_policies r) n)")
  case None
  with assms show ?thesis
    by (auto simp: select_sync_affinity_def target_node_def router_wf_def split: option.splits)
next
  case (Some q)
  then obtain n ps where q: "q = (n, ps)" "target_node r e = Some n" "map_of (sa_node_policies r) n = Some ps"
    by (auto split: option.splits)
  then have "(n, ps) \<in> set (sa_node_policies r)" by (simp add: map_of_SomeD)
  then obtain c where c: "ps \<noteq> []" "map_of (sa_rr r) n = Some c"
    using assms by (fastforce simp: router_wf_def list_all_iff)
  let ?r = "r\<lparr>sa_rr := AList.update n (c + 1) (sa_rr r)\<rparr>"
  have "select_sync_affinity r e = Inr (ps ! (c mod length ps), ?r)"
    using q c by (simp add: select_sync_affinity_def target_node_def)
  moreover have "router_wf ?r" using assms by (auto simp: router_wf_def list_all_iff)
  ultimately show ?thesis using q c by auto
qed

lemma select_many_round_robin:
  assumes "router_wf r" "map_of (sa_node_policies r) n = Some ps" "map_of (sa_rr r) n = Some c"
  shows "\<exists>as r'. select_many r es = Inr (as, r') \<and> length as = length es
     \<and> requests_for r n es as =
         map (\<lambda>i. ps ! ((c + i) mod length ps)) [0..<length (requests_for r n es as)]"
  using assms
proof (induction es arbitrary: r c)
  case Nil
  then show ?case by (simp add: requests_for_def)
next
  case (Cons e es)
  obtain p r' where st: "select_sync_affinity r e = Inr (p, r')" "router_wf r'"
    "sa_env_to_node r' = sa_env_to_node r" "sa_node_policies r' = sa_node_policies r"
    "if target_node r e = Some n then p = ps ! (c mod length ps) \<and> map_of (sa_rr r') n = Some (c + 1)
           else map_of (sa_rr r') n = Some c"
    using select_step [OF Cons.prems(1), of e] Cons.prems(2,3) by blast
  let ?c = "if target_node r e = Some n then c + 1 else c"
  have "map_of (sa_rr r') n = Some ?c" using st(5) by (simp split: if_splits)
  from Cons.IH [OF st(2) _ this] st(4) Cons.prems(2) obtain as r'' where
    ih: "select_many r' es = Inr (as, r'')" "length as = length es" "requests_for r' n es as =
         map (\<lambda>i. ps ! ((?c + i) mod length ps)) [0..<length (requests_for r' n es as)]"
    by auto
  have same: "requests_for r' n = requests_for r n"
    using st(3) by (simp add: requests_for_def target_node_def fun_eq_iff)
  have shift: "map (\<lambda>i. ps ! ((c + i) mod length ps)) [0..<Suc m] =
      ps ! (c mod length ps) # map (\<lambda>i. ps ! ((c + 1 + i) mod length ps)) [0..<m]" for m
    by (simp add: upt_conv_Cons map_Suc_upt [symmetric] comp_def del: upt_Suc)
  have "requests_for r n (e # es) (p # as) =
      map (\<lambda>i. ps ! ((c + i) mod length ps)) [0..<length (requests_for r n (e # es) (p # as))]"
  proof (cases "target_node r e = Some n")
    case True
    then have eq: "requests_for r n (e # es) (p # as) = p # requests_for r n es as"
      by (simp add: requests_for_Cons)
    show ?thesis
      unfolding eq length_Cons shift using ih(3) st(5) True unfolding same by simp
  next
    case False
    then show ?thesis using ih(3) unfolding same by (simp add: requests_for_Cons)
  qed
  moreover have "select_many r (e # es) = Inr (p # as, r'')" using st(1) ih(1) by simp
  ultimately show ?case using ih(2) by fastforce
qed

lemma count_list_rr:
  assumes "distinct ps" "j < length ps"
  shows "count_list (map (\<lambda>i. ps ! ((c + i) mod length ps)) [0..<n]) (ps ! j) = rr_count (length ps) c n j"
proof (induction n)
  case 0
  then show ?case by (simp add: rr_count_def)
next
  case (Suc n)
  have "0 < length ps" using assms(2) by (cases ps) auto
  then have "ps ! ((c + n) mod length ps) = ps ! j \<longleftrightarrow> (c + n) mod length ps = j"
    using assms by (simp add: nth_eq_iff_index_eq)
  then show ?case using Suc by (simp add: rr_count_Suc)
qed

text \<open>Fairness and affinity of \<open>SyncNodeAffinityRouter\<close>: in any run of requests, however the
  requests of different nodes interleave, no request fails, the requests whose environment worker
  lives on a node with eval policies are all served by that node's policies, and each of them
  serves its share: the number of those requests divided by the number of the node's policies,
  rounded down or one more.\<close>
theorem sync_affinity_fair:
  assumes "router_wf r" "map_of (sa_node_policies r) n = Some ps" "distinct ps"
  shows "\<exists>as r'. select_many r es = Inr (as, r') \<and> length as = length es
     \<and> set (requests_for r n es as) \<subseteq> set ps
     \<and> (\<forall>p \<in> set ps. let m = length (requests_for r n es as) div length ps
                     in count_list (requests_for r n es as) p \<in> {m, m + 1})"
proof -
  have ps: "ps \<noteq> []" "map_of (sa_rr r) n \<noteq> None"
    using assms(1) map_of_SomeD [OF assms(2)] by (auto simp: router_wf_def list_all_iff)
  then obtain c where "map_of (sa_rr r) n = Some c" by blast
  from select_many_round_robin [OF assms(1,2) this, of es] obtain as r' where
    as: "select_many r es = Inr (as, r')" "length as = length es"
    and rr: "requests_for r n es as =
         map (\<lambda>i. ps ! ((c + i) mod length ps)) [0..<length (requests_for r n es as)]" by blast
  define m where "m = length (requests_for r n es as)"
  have rr': "requests_for r n es as = map (\<lambda>i. ps ! ((c + i) mod length ps)) [0..<m]"
    unfolding m_def by (rule rr)
  then have "set (requests_for r n es as) \<subseteq> set ps" using ps(1) by auto
  moreover have "count_list (requests_for r n es as) p \<in> {m div length ps, m div length ps + 1}"
    if mem: "p \<in> set ps" for p
  proof -
    obtain j where j: "j < length ps" "p = ps ! j" using mem unfolding in_set_conv_nth by blast
    have "count_list (requests_for r n es as) p = rr_count (length ps) c m j"
      unfolding j(2) rr' by (rule count_list_rr [OF assms(3) j(1)])
    moreover have "0 < length ps" using ps(1) by simp
    ultimately show ?thesis using rr_count_fair [of "length ps" j m c] j(1) by auto
  qed
  ultimately show ?thesis
    unfolding Let_def using as by (intro exI [of _ as] exI [of _ r'] conjI ballI) (simp_all only: m_def)
qed

lemma sync_affinity_fair_witness:
  "\<exists>r as r'. new_sync_affinity_router [10, 11, 12]
       [(''n1'', [(''env'', \<lparr>ce_count = 1, ce_ids = [0]\<rparr>), (''eval'', \<lparr>ce_count = 2, ce_ids = [0, 2]\<rparr>)])] = Inr r
     \<and> select_many r [''env-0'', ''x'', ''env-0'', ''env-0''] = Inr (as, r')
     \<and> count_list (requests_for r ''n1'' [''env-0'', ''x'', ''env-0'', ''env-0''] as) 12 \<in> {1, 2}"
proof -
  let ?es = "[''env-0'', ''x'', ''env-0'', ''env-0'']"
  define r :: sync_affinity_router where "r =
    \<lparr>sa_evals = [10, 11, 12], sa_env_to_node = [(0, ''n1'')], sa_node_policies = [(''n1'', [10, 12])],
     sa_env_worker_num = 1, sa_rr = [(''n1'', 0)], sa_global_rr = 0\<rparr>"
  have new: "new_sync_affinity_router [10, 11, 12]
       [(''n1'', [(''env'', \<lparr>ce_count = 1, ce_ids = [0]\<rparr>), (''eval'', \<lparr>ce_count = 2, ce_ids = [0, 2]\<rparr>)])] = Inr r"
    unfolding r_def by code_simp
  have wf: "router_wf r" "map_of (sa_node_policies r) ''n1'' = Some [10, 12]" "distinct [10::nat, 12]"
    by (simp_all add: r_def router_wf_def)
  from sync_affinity_fair [OF wf, of ?es] obtain as r' where
    as: "select_many r ?es = Inr (as, r')" "length as = length ?es" and
    fair: "\<forall>p \<in> set [10, 12]. let m = length (requests_for r ''n1'' ?es as) div length [10::nat, 12]
                     in count_list (requests_for r ''n1'' ?es as) p \<in> {m, m + 1}"
    by blast
  have t: "target_node r ''env-0'' = Some ''n1''" "target_node r ''x'' = None"
    unfolding r_def by code_simp+
  obtain a b c d where "as = [a, b, c, d]"
    using as(2) by (auto simp: length_Suc_conv eval_nat_numeral)
  then have "length (requests_for r ''n1'' ?es as) = 3" using t by (simp add: requests_for_def)
  with fair have "count_list (requests_for r ''n1'' ?es as) 12 \<in> {1, 2}"
    by (simp add: Let_def flip: numeral_2_eq_2)
  with as(1) new show ?thesis by blast
qed

end
