(* ===== verification/Episode_Table.thy ===== *)
theory Episode_Table
  imports Component_Distribution
begin

text \<open>
  \<open>EpisodeTable\<close> of \<open>rlightning/buffer/utils/table.py\<close>: which storage shard holds the episodes of
  an environment and which train workers read from a shard. Without node affinity environments
  are spread by load with a round-robin tie break and train workers in contiguous blocks; with
  node affinity both follow the component distribution.
\<close>

record episode_table =
  et_num_storages :: nat
  et_distribution :: distribution
  et_affinity_env :: bool
  et_affinity_train :: bool
  et_env_to_storage :: "(string, nat) dict"
  et_count :: "nat list"
  et_rr :: nat
  et_train :: "(nat, int list) dict"
  et_worker_index :: "(string, int) dict"

subsection \<open>Assignment by load\<close>

text \<open>The loop of \<open>_select_storage_for_new_env\<close> with the number of iterations left; it returns the
  index and the moved cursor, and 0 when no shard had the load \<open>m\<close>.\<close>

fun select_loop :: "nat list \<Rightarrow> nat \<Rightarrow> nat \<Rightarrow> nat \<Rightarrow> nat \<times> nat" where
  "select_loop counts m 0 cursor = (0, cursor)"
| "select_loop counts m (Suc k) cursor =
     (let next = (cursor + 1) mod length counts
      in if counts ! cursor = m then (cursor, next) else select_loop counts m k next)"

definition select_storage_for_new_env :: "episode_table \<Rightarrow> nat \<times> episode_table" where
  "select_storage_for_new_env t =
     (let min_load = Min (set (et_count t));
          (idx, cursor) = select_loop (et_count t) min_load (et_num_storages t) (et_rr t)
      in (idx, t\<lparr>et_rr := cursor\<rparr>))"

definition register_env :: "string \<Rightarrow> episode_table \<Rightarrow> nat \<times> episode_table" where
  "register_env env_id t =
     (case map_of (et_env_to_storage t) env_id of
        Some idx \<Rightarrow> (idx, t)
      | None \<Rightarrow>
          (let (idx, t') = select_storage_for_new_env t
           in (idx, t'\<lparr>et_env_to_storage := AList.update env_id idx (et_env_to_storage t'),
                       et_count := (et_count t')[idx := et_count t' ! idx + 1]\<rparr>)))"

definition register_envs :: "string list \<Rightarrow> episode_table \<Rightarrow> episode_table" where
  "register_envs env_ids t = fold (\<lambda>e t. snd (register_env e t)) env_ids t"

definition get_storage_idx_for_env :: "string \<Rightarrow> episode_table \<Rightarrow> nat \<times> episode_table" where
  "get_storage_idx_for_env env_id t =
     (case map_of (et_env_to_storage t) env_id of None \<Rightarrow> register_env env_id t | Some idx \<Rightarrow> (idx, t))"

subsection \<open>Node affinity\<close>

text \<open>The maps from node to buffer, train and env ids; a node has at most one buffer.\<close>

definition extract_node_component_ids ::
    "distribution \<Rightarrow> ((string, int list) dict \<times> (string, int list) dict \<times> (string, int list) dict) result" where
  "extract_node_component_ids dist =
     foldM (\<lambda>(storages, trains, envs) (node, comps).
       let buffer_ids = component_ids comps ''buffer''; train_ids = component_ids comps ''train'';
           env_ids = component_ids comps ''env'' in
       bind_result (guard AssertionError (buffer_ids \<noteq> [] \<longrightarrow> length buffer_ids = 1)) (\<lambda>_.
       Inr (if buffer_ids \<noteq> [] then AList.update node buffer_ids storages else storages,
            if train_ids \<noteq> [] then AList.update node train_ids trains else trains,
            if env_ids \<noteq> [] then AList.update node env_ids envs else envs))) ([], [], []) dist"

text \<open>The loop carries the expected count, unknown before the first node.\<close>

definition validate_node_worker_counts ::
    "(string, int list) dict \<Rightarrow> (string, int list) dict \<Rightarrow> nat option result" where
  "validate_node_worker_counts storages comps =
     foldM (\<lambda>expected node.
       let ids = dict_get [] comps node in
       if ids = [] then Inl RuntimeError
       else case expected of
              None \<Rightarrow> Inr (Some (length ids))
            | Some n \<Rightarrow> if length ids \<noteq> n then Inl RuntimeError else Inr (Some n)) None (dict_keys storages)"

definition worker_nodes :: "(string, int list) dict \<Rightarrow> (int, string) dict" where
  "worker_nodes envs = fold (\<lambda>(node, ids) m. fold (\<lambda>i. AList.update i node) ids m) envs []"

definition affinity_storage ::
    "episode_table \<Rightarrow> (string, int list) dict \<Rightarrow> (string, int list) dict \<Rightarrow> string \<Rightarrow> nat result" where
  "affinity_storage t storages envs env_id =
     bind_result (of_option AssertionError
       (case map_of (et_worker_index t) env_id of
          None \<Rightarrow> None
        | Some w \<Rightarrow> (case map_of (worker_nodes envs) w of
             None \<Rightarrow> None | Some node \<Rightarrow> map_of storages node))) (\<lambda>ids.
     bind_result (py_nth ids 0) (\<lambda>idx.
     bind_result (guard AssertionError (0 \<le> idx \<and> idx < int (et_num_storages t))) (\<lambda>_. Inr (nat idx))))"

definition assign_envs_with_node_affinity ::
    "string list \<Rightarrow> (string, int list) dict \<Rightarrow> (string, int list) dict \<Rightarrow> episode_table
       \<Rightarrow> episode_table result" where
  "assign_envs_with_node_affinity env_ids storages envs t =
     foldM (\<lambda>t e. bind_result (affinity_storage t storages envs e) (\<lambda>idx.
       Inr (t\<lparr>et_env_to_storage := AList.update e idx (et_env_to_storage t),
              et_count := (et_count t)[idx := et_count t ! idx + 1]\<rparr>))) t env_ids"

definition assign_train_workers_with_node_affinity ::
    "(string, int list) dict \<Rightarrow> (string, int list) dict \<Rightarrow> episode_table \<Rightarrow> episode_table result" where
  "assign_train_workers_with_node_affinity storages trains t =
     foldM (\<lambda>t (node, ids).
       bind_result (py_nth ids 0) (\<lambda>idx.
       bind_result (guard AssertionError (0 \<le> idx \<and> idx < int (et_num_storages t))) (\<lambda>_.
       bind_result (of_option TypeError (map_of trains node)) (\<lambda>ws.
       Inr (t\<lparr>et_train := AList.update (nat idx) ws (et_train t)\<rparr>)))))
       (t\<lparr>et_train := map (\<lambda>i. (i, [])) [0..<et_num_storages t]\<rparr>) storages"

subsection \<open>Train workers in contiguous blocks\<close>

definition assign_train_workers :: "int \<Rightarrow> episode_table \<Rightarrow> episode_table result" where
  "assign_train_workers num t =
     (if num < 1 then Inl ValueError
      else bind_result (guard AssertionError (num mod int (et_num_storages t) = 0)) (\<lambda>_.
        let per = num div int (et_num_storages t)
        in Inr (t\<lparr>et_train :=
             snd (fold (\<lambda>s (w, d). (w + per, AList.update s (py_range w (w + per)) d))
                    [0..<et_num_storages t] (0, []))\<rparr>)))"

subsection \<open>Construction and queries\<close>

definition parse_worker_index_or :: "string \<Rightarrow> nat \<Rightarrow> int" where
  "parse_worker_index_or env_id fallback =
     (case parse_env_worker_index env_id of None \<Rightarrow> int fallback | Some i \<Rightarrow> i)"

definition init_env_mapping ::
    "string list option \<Rightarrow> (string, int list) dict \<Rightarrow> (string, int list) dict \<Rightarrow> episode_table
       \<Rightarrow> episode_table result" where
  "init_env_mapping env_ids storages envs t =
     (case env_ids of
        None \<Rightarrow> Inr t
      | Some es \<Rightarrow>
          if es = [] then Inr t
          else let t' = t\<lparr>et_worker_index :=
                 fold (\<lambda>(e, i). AList.update e (parse_worker_index_or e i)) (zip es [0..<length es]) []\<rparr>
            in if et_affinity_env t
               then bind_result (validate_node_worker_counts storages envs) (\<lambda>_.
                      assign_envs_with_node_affinity es storages envs t')
               else Inr (register_envs es t'))"

definition init_train_mapping ::
    "int option \<Rightarrow> (string, int list) dict \<Rightarrow> (string, int list) dict \<Rightarrow> episode_table
       \<Rightarrow> episode_table result" where
  "init_train_mapping num storages trains t =
     (case num of
        None \<Rightarrow> Inr t
      | Some n \<Rightarrow>
          if et_affinity_train t
          then bind_result (validate_node_worker_counts storages trains) (\<lambda>_.
                 assign_train_workers_with_node_affinity storages trains t)
          else assign_train_workers n t)"

definition empty_table :: "nat \<Rightarrow> distribution \<Rightarrow> bool \<Rightarrow> bool \<Rightarrow> episode_table" where
  "empty_table n dist aff_env aff_train =
     \<lparr>et_num_storages = n, et_distribution = dist, et_affinity_env = aff_env, et_affinity_train = aff_train,
      et_env_to_storage = [], et_count = replicate n 0, et_rr = 0, et_train = [], et_worker_index = []\<rparr>"

definition new_episode_table ::
    "int \<Rightarrow> string list option \<Rightarrow> int option \<Rightarrow> distribution option \<Rightarrow> bool \<Rightarrow> bool \<Rightarrow> episode_table result" where
  "new_episode_table n env_ids num_train dist aff_env aff_train =
     (if n < 1 then Inl ValueError
      else let d = (case dist of None \<Rightarrow> [] | Some d \<Rightarrow> d); t = empty_table (nat n) d aff_env aff_train in
        bind_result (guard AssertionError (aff_env \<or> aff_train \<longrightarrow> d \<noteq> [])) (\<lambda>_.
        bind_result (extract_node_component_ids d) (\<lambda>(storages, trains, envs).
        bind_result (init_env_mapping env_ids storages envs t) (\<lambda>t'.
        init_train_mapping num_train storages trains t'))))"

definition get_envs_for_storage :: "int \<Rightarrow> episode_table \<Rightarrow> string list result" where
  "get_envs_for_storage idx t =
     (if idx < 0 \<or> idx \<ge> int (et_num_storages t) then Inl IndexError
      else Inr (map fst (filter (\<lambda>(e, i). int i = idx) (et_env_to_storage t))))"

definition get_train_workers :: "int \<Rightarrow> episode_table \<Rightarrow> int list option result" where
  "get_train_workers idx t =
     (if idx < 0 \<or> idx \<ge> int (et_num_storages t) then Inl IndexError
      else Inr (map_of (et_train t) (nat idx)))"

subsection \<open>The load stays balanced\<close>

definition shard_size :: "episode_table \<Rightarrow> nat \<Rightarrow> nat" where
  "shard_size t i = length (filter (\<lambda>(e, j). j = i) (et_env_to_storage t))"

definition table_ok :: "episode_table \<Rightarrow> bool" where
  "table_ok t \<longleftrightarrow> 0 < et_num_storages t \<and> length (et_count t) = et_num_storages t \<and> et_rr t < et_num_storages t
     \<and> dict_ok (et_env_to_storage t)
     \<and> (\<forall>i < et_num_storages t. et_count t ! i = shard_size t i)
     \<and> (\<forall>i < et_num_storages t. \<forall>j < et_num_storages t. et_count t ! i \<le> et_count t ! j + 1)
     \<and> (\<forall>(e, i) \<in> set (et_env_to_storage t). i < et_num_storages t)"

lemma select_loop_finds:
  assumes "0 < length counts" "cursor < length counts"
    and "t < k" "counts ! ((cursor + t) mod length counts) = m"
  shows "counts ! fst (select_loop counts m k cursor) = m
     \<and> fst (select_loop counts m k cursor) < length counts \<and> snd (select_loop counts m k cursor) < length counts"
  using assms(2-4)
proof (induction k arbitrary: cursor t)
  case 0
  then show ?case by simp
next
  case (Suc k)
  let ?n = "(cursor + 1) mod length counts"
  have n: "?n < length counts" using assms(1) by simp
  show ?case
  proof (cases "counts ! cursor = m")
    case True
    then show ?thesis using Suc.prems n by (simp add: Let_def)
  next
    case False
    with Suc.prems obtain t' where t': "t = Suc t'" by (cases t) auto
    have "(?n + t') mod length counts = (cursor + t) mod length counts"
      using t' by (simp add: mod_simps)
    with Suc.IH [OF n, of t'] Suc.prems t' False show ?thesis by (simp add: Let_def)
  qed
qed

lemma select_storage_least:
  assumes "table_ok t"
  shows "let (idx, t') = select_storage_for_new_env t
         in idx < et_num_storages t \<and> (\<forall>j < et_num_storages t. et_count t ! idx \<le> et_count t ! j)
            \<and> t' = t\<lparr>et_rr := et_rr t'\<rparr> \<and> et_rr t' < et_num_storages t"
proof -
  let ?c = "et_count t" and ?n = "et_num_storages t"
  have len: "length ?c = ?n" "0 < ?n" "et_rr t < ?n" using assms by (auto simp: table_ok_def)
  have ne: "set ?c \<noteq> {}" using len by auto
  then have "Min (set ?c) \<in> set ?c" by simp
  then obtain i where i: "i < ?n" "?c ! i = Min (set ?c)" using len by (metis in_set_conv_nth)
  let ?t = "(i + ?n - et_rr t) mod ?n"
  have "et_rr t + (i + ?n - et_rr t) = i + ?n" using len(3) by simp
  then have "(et_rr t + ?t) mod ?n = i" using i(1) by (metis mod_add_right_eq mod_add_self2 mod_less)
  moreover have "?t < ?n" using len(2) by simp
  ultimately have *: "?c ! fst (select_loop ?c (Min (set ?c)) ?n (et_rr t)) = Min (set ?c)"
    "fst (select_loop ?c (Min (set ?c)) ?n (et_rr t)) < ?n"
    "snd (select_loop ?c (Min (set ?c)) ?n (et_rr t)) < ?n"
    using select_loop_finds [of ?c "et_rr t" ?t ?n "Min (set ?c)"] len i by auto
  moreover have "Min (set ?c) \<le> ?c ! j" if "j < ?n" for j
    using that len by simp
  ultimately show ?thesis by (auto simp: select_storage_for_new_env_def Let_def case_prod_unfold)
qed

lemma register_env_ok:
  assumes "table_ok t"
  shows "table_ok (snd (register_env e t)) \<and> fst (register_env e t) < et_num_storages t
     \<and> map_of (et_env_to_storage (snd (register_env e t))) e = Some (fst (register_env e t))
     \<and> et_num_storages (snd (register_env e t)) = et_num_storages t
     \<and> (\<forall>e'. e' \<noteq> e \<longrightarrow> map_of (et_env_to_storage (snd (register_env e t))) e' = map_of (et_env_to_storage t) e')"
proof (cases "map_of (et_env_to_storage t) e")
  case (Some i)
  then have "i < et_num_storages t" using assms map_of_SomeD [OF Some] by (auto simp: table_ok_def)
  with Some assms show ?thesis by (simp add: register_env_def)
next
  case None
  obtain idx t' where sel: "select_storage_for_new_env t = (idx, t')" by force
  from select_storage_least [OF assms] sel obtain c where
    idx: "idx < et_num_storages t" "\<forall>j < et_num_storages t. et_count t ! idx \<le> et_count t ! j"
    "t' = t\<lparr>et_rr := c\<rparr>" "c < et_num_storages t" by auto
  let ?t = "t'\<lparr>et_env_to_storage := AList.update e idx (et_env_to_storage t'),
               et_count := (et_count t')[idx := et_count t' ! idx + 1]\<rparr>"
  have reg: "register_env e t = (idx, ?t)" using None sel by (simp add: register_env_def)
  have fresh: "e \<notin> set (dict_keys (et_env_to_storage t))" using None by (simp add: map_of_eq_None_iff)
  then have upd: "AList.update e idx (et_env_to_storage t) = et_env_to_storage t @ [(e, idx)]"
    by (rule update_new)
  have size: "shard_size ?t i = shard_size t i + (if i = idx then 1 else 0)" for i
    by (simp add: shard_size_def idx(3) upd)
  have len: "length (et_count t) = et_num_storages t" using assms by (simp add: table_ok_def)
  have bal: "(et_count t)[idx := et_count t ! idx + 1] ! i \<le> (et_count t)[idx := et_count t ! idx + 1] ! j + 1"
    if "i < et_num_storages t" "j < et_num_storages t" for i j
  proof -
    have "et_count t ! i \<le> et_count t ! j + 1" using assms that unfolding table_ok_def by blast
    moreover have "et_count t ! idx \<le> et_count t ! j" using idx(2) that by blast
    ultimately show ?thesis using that idx(1) len by (cases "i = idx"; cases "j = idx") simp_all
  qed
  have counts: "(et_count t)[idx := et_count t ! idx + 1] ! i = shard_size ?t i"
    if "i < et_num_storages t" for i
    using assms that len idx(1) size [of i] by (cases "i = idx") (simp_all add: table_ok_def)
  have "table_ok ?t"
    unfolding table_ok_def
  proof (intro conjI)
    show "\<forall>i < et_num_storages ?t. et_count ?t ! i = shard_size ?t i"
      using counts idx(3) by simp
    show "\<forall>i < et_num_storages ?t. \<forall>j < et_num_storages ?t. et_count ?t ! i \<le> et_count ?t ! j + 1"
      using bal idx(3) by simp
    show "\<forall>(e, i) \<in> set (et_env_to_storage ?t). i < et_num_storages ?t"
      using assms idx by (auto simp: upd table_ok_def)
  qed (use assms idx len in \<open>simp_all add: table_ok_def\<close>)
  with reg idx None show ?thesis by simp
qed

lemma empty_table_ok: "0 < n \<Longrightarrow> table_ok (empty_table n d a b)"
  by (simp add: table_ok_def empty_table_def shard_size_def)

lemma register_envs_ok:
  "table_ok t \<Longrightarrow> table_ok (register_envs es t) \<and> et_num_storages (register_envs es t) = et_num_storages t
     \<and> (\<forall>e \<in> set es \<union> set (dict_keys (et_env_to_storage t)). map_of (et_env_to_storage (register_envs es t)) e \<noteq> None)"
proof (induction es arbitrary: t)
  case Nil
  then show ?case by (auto simp: register_envs_def map_of_eq_None_iff)
next
  case (Cons e es)
  let ?t = "snd (register_env e t)"
  note r = register_env_ok [OF Cons.prems, of e]
  have step: "register_envs (e # es) t = register_envs es ?t" by (simp add: register_envs_def)
  have keys: "e' \<in> set (dict_keys (et_env_to_storage ?t))" if "e' = e \<or> e' \<in> set (dict_keys (et_env_to_storage t))" for e'
  proof -
    have "map_of (et_env_to_storage ?t) e' \<noteq> None"
      using r that by (cases "e' = e") (auto simp: map_of_eq_None_iff)
    then show ?thesis by (simp add: map_of_eq_None_iff)
  qed
  show ?case
    unfolding step using Cons.IH [of ?t] r keys by (auto simp del: set_map)
qed

text \<open>C7: without node affinity the table built from any environment ids maps every one of them to a
  shard, the per-shard counts are the numbers of environments mapped there, and no shard has more
  than one environment more than another; asking for an unseen environment keeps all of this and
  registers it.\<close>
theorem episode_table_balanced:
  assumes "1 \<le> n" "es \<noteq> []"
  shows "\<exists>t. new_episode_table n (Some es) None None False False = Inr t \<and> table_ok t
     \<and> et_num_storages t = nat n \<and> (\<forall>e \<in> set es. map_of (et_env_to_storage t) e \<noteq> None)
     \<and> (\<forall>e. let (i, t') = get_storage_idx_for_env e t
            in i < nat n \<and> table_ok t' \<and> map_of (et_env_to_storage t') e = Some i)"
proof -
  let ?t0 = "(empty_table (nat n) [] False False)\<lparr>et_worker_index :=
     fold (\<lambda>(e, i). AList.update e (parse_worker_index_or e i)) (zip es [0..<length es]) []\<rparr>"
  have new: "new_episode_table n (Some es) None None False False = Inr (register_envs es ?t0)"
    using assms by (simp add: new_episode_table_def extract_node_component_ids_def init_env_mapping_def
        init_train_mapping_def Let_def) (simp add: empty_table_def)
  have "table_ok ?t0"
    using assms(1) by (simp add: table_ok_def empty_table_def shard_size_def)
  note reg = register_envs_ok [OF this, of es]
  have n: "et_num_storages (register_envs es ?t0) = nat n" using reg by (simp add: empty_table_def)
  have "let (i, t') = get_storage_idx_for_env e (register_envs es ?t0)
        in i < nat n \<and> table_ok t' \<and> map_of (et_env_to_storage t') e = Some i" for e
  proof (cases "map_of (et_env_to_storage (register_envs es ?t0)) e")
    case None
    then show ?thesis
      using register_env_ok [of "register_envs es ?t0" e] reg n
      by (simp add: get_storage_idx_for_env_def case_prod_unfold Let_def)
  next
    case (Some i)
    then have "i < nat n" using map_of_SomeD [OF Some] reg n by (auto simp: table_ok_def)
    with Some reg show ?thesis by (simp add: get_storage_idx_for_env_def)
  qed
  with new reg n show ?thesis by blast
qed

lemma episode_table_balanced_witness:
  "\<exists>t. new_episode_table 2 (Some [''e-0'', ''e-1'', ''e-2'']) None None False False = Inr t \<and> table_ok t"
  using episode_table_balanced [of 2 "[''e-0'', ''e-1'', ''e-2'']"] by auto

text \<open>Without node affinity the train workers are divided into contiguous blocks of equal length,
  one per shard in order, which together are exactly the workers \<open>0, ..., num - 1\<close>; a number of
  workers that the number of shards does not divide is rejected.\<close>
theorem train_workers_partition:
  assumes "0 < et_num_storages t" "1 \<le> num"
  shows "if num mod int (et_num_storages t) = 0
     then \<exists>t'. assign_train_workers num t = Inr t'
        \<and> dict_keys (et_train t') = [0..<et_num_storages t]
        \<and> concat (dict_values (et_train t')) = py_range 0 num
        \<and> (\<forall>ws \<in> set (dict_values (et_train t')). int (length ws) = num div int (et_num_storages t))
     else assign_train_workers num t = Inl AssertionError"
proof (cases "num mod int (et_num_storages t) = 0")
  case True
  let ?n = "et_num_storages t" and ?per = "num div int (et_num_storages t)"
  have per: "0 \<le> ?per" using assms by (simp add: pos_imp_zdiv_nonneg_iff)
  let ?step = "\<lambda>s (w, d). (w + ?per, AList.update s (py_range w (w + ?per)) d)"
  have "fold ?step [0..<m] (0, []) = (int m * ?per, map (\<lambda>s. (s, py_range (int s * ?per) (int s * ?per + ?per))) [0..<m])" for m
  proof (induction m)
    case (Suc m)
    have "AList.update m v (map (\<lambda>s. (s, f s)) [0..<m]) = map (\<lambda>s. (s, f s)) [0..<m] @ [(m, v)]"
      for v and f :: "nat \<Rightarrow> int list"
      by (rule update_new) (simp add: comp_def)
    with Suc show ?case by (simp add: algebra_simps)
  qed simp
  then have t': "assign_train_workers num t = Inr (t\<lparr>et_train :=
      map (\<lambda>s. (s, py_range (int s * ?per) (int s * ?per + ?per))) [0..<?n]\<rparr>)"
    using True assms(2) by (simp add: assign_train_workers_def Let_def)
  have "concat (map (\<lambda>s. py_range (int s * ?per) (int s * ?per + ?per)) [0..<m]) = py_range 0 (int m * ?per)" for m
  proof (induction m)
    case (Suc m)
    have "py_range 0 (int m * ?per) @ py_range (int m * ?per) (int m * ?per + ?per) =
        py_range 0 (int m * ?per + ?per)"
      using per by (cases "?per = 0"; cases "m = 0")
        (auto intro!: upto_split1 [symmetric] simp: upto_split1 [of 0 "int m * ?per" "int m * ?per + ?per - 1"])
    with Suc show ?case by (simp add: algebra_simps)
  qed simp
  moreover have "int ?n * ?per = num" using True by auto
  ultimately have cat: "concat (map (\<lambda>s. py_range (int s * ?per) (int s * ?per + ?per)) [0..<?n]) = py_range 0 num"
    by metis
  have "int (length (py_range (int s * ?per) (int s * ?per + ?per))) = ?per" for s
    using per by simp
  with True t' cat show ?thesis by (simp add: comp_def)
next
  case False
  with assms show ?thesis by (simp add: assign_train_workers_def guard_def)
qed

lemma train_workers_partition_witness:
  "\<exists>t'. assign_train_workers 6 (empty_table 3 [] False False) = Inr t'
     \<and> concat (dict_values (et_train t')) = [0..5]"
  using train_workers_partition [of "empty_table 3 [] False False" 6]
  by (auto simp: empty_table_def)

end
