(* ===== verification/Data_Container.thy ===== *)
theory Data_Container
  imports Config
begin

text \<open>
  \<open>DataContainer\<close> of \<open>rlightning/buffer/utils/storage.py\<close>: the ring of rows that holds transitions
  or whole episodes, the registry of the episodes in it and the counter of reads. A row of the
  backing \<open>TensorDict\<close> is an element, \<open>None\<close> while the memory given by \<open>torch.empty\<close> has not been
  written. Slices have no step (none is used). The registry is an \<open>intervaltree.IntervalTree\<close>,
  whose code is not part of the repository: its operations are the record \<open>tree_ops\<close>, an argument
  of the definitions, and the locale \<open>interval_tree\<close> states their documented behaviour.
\<close>

subsection \<open>The episode registry\<close>

record 't tree_ops =
  t_empty :: 't
  t_items :: "'t \<Rightarrow> (nat \<times> nat) list"
  t_overlap :: "nat \<Rightarrow> nat \<Rightarrow> 't \<Rightarrow> (nat \<times> nat) list"
  t_addi :: "nat \<Rightarrow> nat \<Rightarrow> 't \<Rightarrow> 't result"
  t_remove :: "nat \<times> nat \<Rightarrow> 't \<Rightarrow> 't"

definition meets :: "nat \<times> nat \<Rightarrow> nat \<Rightarrow> nat \<Rightarrow> bool" where
  "meets iv b e \<longleftrightarrow> b < e \<and> fst iv < e \<and> b < snd iv"

locale interval_tree =
  fixes ops :: "'t tree_ops"
  assumes items_empty: "t_items ops (t_empty ops) = []"
    and overlap_distinct: "distinct (t_items ops t) \<Longrightarrow> distinct (t_overlap ops b e t)"
    and overlap: "set (t_overlap ops b e t) = {iv \<in> set (t_items ops t). meets iv b e}"
    and addi: "b < e \<Longrightarrow> \<exists>t'. t_addi ops b e t = Inr t' \<and> set (t_items ops t') = insert (b, e) (set (t_items ops t))
                           \<and> (distinct (t_items ops t) \<longrightarrow> distinct (t_items ops t'))"
    and addi_null: "e \<le> b \<Longrightarrow> t_addi ops b e t = Inl ValueError"
    and remove: "iv \<in> set (t_items ops t) \<Longrightarrow> set (t_items ops (t_remove ops iv t)) = set (t_items ops t) - {iv}
                       \<and> (distinct (t_items ops t) \<longrightarrow> distinct (t_items ops (t_remove ops iv t)))"

text \<open>The documented behaviour on a list of intervals without repetition.\<close>

definition list_tree :: "(nat \<times> nat) list tree_ops" where
  "list_tree =
     \<lparr>t_empty = [], t_items = (\<lambda>t. t),
      t_overlap = (\<lambda>b e t. filter (\<lambda>iv. meets iv b e) t),
      t_addi = (\<lambda>b e t. if b < e then Inr (List.insert (b, e) t) else Inl ValueError),
      t_remove = (\<lambda>iv t. filter (\<lambda>x. x \<noteq> iv) t)\<rparr>"

interpretation lt: interval_tree list_tree
  by unfold_locales (auto simp: list_tree_def)

subsection \<open>State\<close>

record ('a, 't) container =
  dc_capacity :: nat
  dc_mode :: storage_mode
  dc_unit :: storage_unit
  dc_data :: "'a option list"
  dc_schema :: bool
  dc_size :: nat
  dc_pointer :: nat
  dc_registry :: 't
  dc_counter :: "int list"

definition new_container :: "'t tree_ops \<Rightarrow> nat \<Rightarrow> storage_mode \<Rightarrow> storage_unit \<Rightarrow> ('a, 't) container" where
  "new_container ops cap md un =
     \<lparr>dc_capacity = cap, dc_mode = md, dc_unit = un, dc_data = replicate cap None, dc_schema = False,
      dc_size = 0, dc_pointer = 0, dc_registry = t_empty ops, dc_counter = replicate cap (-1)\<rparr>"

definition clear_container :: "'t tree_ops \<Rightarrow> ('a, 't) container \<Rightarrow> ('a, 't) container" where
  "clear_container ops c =
     c\<lparr>dc_size := 0, dc_pointer := 0, dc_schema := False, dc_registry := t_empty ops,
       dc_data := replicate (dc_capacity c) None, dc_counter := replicate (dc_capacity c) (-1)\<rparr>"

definition container_len :: "'t tree_ops \<Rightarrow> ('a, 't) container \<Rightarrow> nat" where
  "container_len ops c =
     (case dc_unit c of Episode \<Rightarrow> length (t_items ops (dc_registry c)) | Transition \<Rightarrow> dc_size c)"

definition slice :: "nat \<Rightarrow> nat \<Rightarrow> 'b list \<Rightarrow> 'b list" where
  "slice b e xs = take (e - b) (drop b xs)"

text \<open>\<open>xs[b:e] = v\<close> and \<open>xs[p:p + len(rows)] = rows\<close>\<close>

definition fill :: "nat \<Rightarrow> nat \<Rightarrow> 'b \<Rightarrow> 'b list \<Rightarrow> 'b list" where
  "fill b e v xs = take b xs @ replicate (min e (length xs) - b) v @ drop (max b e) xs"

definition write_data :: "nat \<Rightarrow> 'a list \<Rightarrow> ('a, 't) container \<Rightarrow> ('a, 't) container" where
  "write_data p rows c =
     c\<lparr>dc_data := take p (dc_data c) @ map Some rows @ drop (p + length rows) (dc_data c)\<rparr>"

subsection \<open>Pushing\<close>

text \<open>
  A batch of rows with the metadata \<open>_num_episodes\<close> (1 when absent) and \<open>_episode_length\<close>.
\<close>

record 'a batch =
  b_rows :: "'a list"
  b_sub :: nat
  b_len :: "nat option"

definition evict ::
    "'t tree_ops \<Rightarrow> (nat \<times> nat) list \<Rightarrow> ('a, 't) container \<Rightarrow> ('a, 't) container" where
  "evict ops ivs c =
     fold (\<lambda>iv c. c\<lparr>dc_counter := fill (fst iv) (snd iv) (-1) (dc_counter c),
                    dc_registry := t_remove ops iv (dc_registry c)\<rparr>) ivs c"

text \<open>\<open>for i in range(num_sub_episodes): addi(start + i * len, start + (i + 1) * len)\<close>\<close>

definition register_at ::
    "'t tree_ops \<Rightarrow> nat \<Rightarrow> 'a batch \<Rightarrow> ('a, 't) container \<Rightarrow> ('a, 't) container result" where
  "register_at ops start b c =
     bind_result
       (if b_sub b > 1
        then bind_result (of_option TypeError (b_len b)) (\<lambda>l.
               foldM (\<lambda>t i. t_addi ops (start + i * l) (start + (i + 1) * l) t) (dc_registry c) [0..<b_sub b])
        else t_addi ops start (start + length (b_rows b)) (dc_registry c))
       (\<lambda>t. Inr (c\<lparr>dc_registry := t\<rparr>))"

text \<open>
  \<open>while curr_end >= episode_length: addi(...); curr_end -= episode_length\<close>; an episode length of 0
  raises at the first \<open>addi\<close>.
\<close>

function register_from_end :: "'t tree_ops \<Rightarrow> nat \<Rightarrow> nat \<Rightarrow> 't \<Rightarrow> 't result" where
  "register_from_end ops l cur t =
     (if l \<le> cur
      then if l = 0 then t_addi ops cur cur t
           else bind_result (t_addi ops (cur - l) cur t) (\<lambda>t'. register_from_end ops l (cur - l) t')
      else Inr t)"
  by auto
termination by (relation "measure (\<lambda>(ops, l, cur, t). cur)") auto

declare register_from_end.simps [simp del]

definition register_truncated ::
    "'t tree_ops \<Rightarrow> 'a batch \<Rightarrow> ('a, 't) container \<Rightarrow> ('a, 't) container result" where
  "register_truncated ops b c =
     bind_result
       (if b_sub b > 1
        then bind_result (of_option TypeError (b_len b)) (\<lambda>l.
               register_from_end ops l (dc_capacity c) (t_empty ops))
        else t_addi ops 0 (dc_capacity c) (t_empty ops))
       (\<lambda>t. Inr (c\<lparr>dc_registry := t\<rparr>))"

text \<open>The three last statements of \<open>push\<close>.\<close>

definition write_and_advance :: "'a list \<Rightarrow> ('a, 't) container \<Rightarrow> ('a, 't) container" where
  "write_and_advance rows c =
     (let c' = write_data (dc_pointer c) rows c
      in c'\<lparr>dc_pointer := (dc_pointer c + length rows) mod dc_capacity c,
            dc_size := min (dc_size c + length rows) (dc_capacity c)\<rparr>)"

definition push :: "'t tree_ops \<Rightarrow> 'a batch \<Rightarrow> ('a, 't) container \<Rightarrow> ('a, 't) container result" where
  "push ops b c0 =
     (let c = c0\<lparr>dc_schema := True\<rparr>; n = length (b_rows b); cap = dc_capacity c; p = dc_pointer c in
      if p + n \<le> cap then
        bind_result
          (if dc_unit c = Episode
           then register_at ops p b (evict ops (t_overlap ops p (p + n) (dc_registry c)) c)
           else Inr c) (\<lambda>c1.
        Inr (write_and_advance (b_rows b) (c1\<lparr>dc_counter := fill p (p + n) 0 (dc_counter c1)\<rparr>)))
      else if dc_mode c = Fixed then Inl RuntimeError
      else if n > cap then
        bind_result (if dc_unit c = Episode then register_truncated ops b c else Inr c) (\<lambda>c1.
        Inr (write_and_advance (drop (n - cap) (b_rows b))
               (c1\<lparr>dc_counter := replicate cap 0, dc_pointer := 0\<rparr>)))
      else if dc_unit c = Episode then
        bind_result
          (register_at ops 0 b
             (evict ops (let xs = t_overlap ops p cap (dc_registry c)
                         in xs @ filter (\<lambda>iv. iv \<notin> set xs) (t_overlap ops 0 n (dc_registry c))) c)) (\<lambda>c1.
        Inr (write_and_advance (b_rows b)
               (c1\<lparr>dc_counter := fill 0 n 0 (dc_counter c1), dc_pointer := 0\<rparr>)))
      else
        (let first = cap - p;
             c1 = write_data p (take first (b_rows b)) c;
             rest = drop first (b_rows b)
         in Inr (write_and_advance rest
                   (c1\<lparr>dc_counter := fill 0 (length rest) 0 (fill p cap 0 (dc_counter c1)), dc_pointer := 0\<rparr>))))"

definition push_list :: "'t tree_ops \<Rightarrow> 'a batch list \<Rightarrow> ('a, 't) container \<Rightarrow> ('a, 't) container result" where
  "push_list ops bs c = foldM (\<lambda>c b. push ops b c) c bs"

subsection \<open>Reading\<close>

datatype index = IdxInt int | IdxSlice "int option" "int option" | IdxArray "int list"

text \<open>\<open>slice(start, stop).indices(n)\<close>\<close>

definition clamp_index :: "nat \<Rightarrow> int \<Rightarrow> int" where
  "clamp_index n i = (if i < 0 then max 0 (i + int n) else min i (int n))"

definition slice_indices :: "int option \<Rightarrow> int option \<Rightarrow> nat \<Rightarrow> int \<times> int" where
  "slice_indices start stop n =
     (case start of None \<Rightarrow> 0 | Some i \<Rightarrow> clamp_index n i, case stop of None \<Rightarrow> int n | Some i \<Rightarrow> clamp_index n i)"

definition wrap_index :: "nat \<Rightarrow> int \<Rightarrow> int" where
  "wrap_index n i = (if i < 0 then int n + i else i)"

definition in_range :: "nat \<Rightarrow> nat \<Rightarrow> int \<Rightarrow> bool" where
  "in_range n limit i \<longleftrightarrow> 0 \<le> wrap_index n i \<and> wrap_index n i < int limit"

definition check_range :: "'t tree_ops \<Rightarrow> index \<Rightarrow> ('a, 't) container \<Rightarrow> unit result" where
  "check_range ops idx c =
     (case dc_unit c of
        Transition \<Rightarrow>
          (case idx of
             IdxInt i \<Rightarrow> guard IndexError (in_range (dc_capacity c) (dc_size c) i)
           | IdxSlice a b \<Rightarrow>
               (let (start, stop) = slice_indices a b (dc_capacity c)
                in guard IndexError (0 \<le> start \<and> stop \<le> int (dc_size c)))
           | IdxArray is \<Rightarrow> guard IndexError (list_all (in_range (dc_capacity c) (dc_size c)) is))
      | Episode \<Rightarrow>
          (let n = length (t_items ops (dc_registry c))
           in case idx of
                IdxInt i \<Rightarrow> guard IndexError (in_range n n i)
              | IdxSlice a b \<Rightarrow> Inr ()
              | IdxArray is \<Rightarrow> guard IndexError (list_all (in_range n n) is)))"

text \<open>
  A read gives rows (transition unit) or a list of episodes; the code stacks episodes of equal
  length into one tensor. Reading raises the counters: \<open>a[idx] += 1\<close> counts an index that occurs
  twice once, \<open>np.add.at\<close> counts every occurrence. Nothing to concatenate raises.
\<close>

definition bump :: "nat list \<Rightarrow> int list \<Rightarrow> int list" where
  "bump is xs = fold (\<lambda>i xs. xs[i := xs ! i + 1]) is xs"

datatype 'a read_result = Rows "'a option list" | Episodes "'a option list list"

definition index_positions :: "index \<Rightarrow> nat \<Rightarrow> nat list" where
  "index_positions idx n =
     (case idx of
        IdxInt i \<Rightarrow> [nat (wrap_index n i)]
      | IdxSlice a b \<Rightarrow> (let (start, stop) = slice_indices a b n in [nat start..<nat stop])
      | IdxArray is \<Rightarrow> map (\<lambda>i. nat (wrap_index n i)) is)"

text \<open>
  The message of the final debug line takes the minimum of the counters that are not -1, which
  raises when there is none, even when debugging is off.
\<close>

definition log_counters :: "'b \<times> ('a, 't) container \<Rightarrow> ('b \<times> ('a, 't) container) result" where
  "log_counters r = (if list_ex (\<lambda>k. k > -1) (dc_counter (snd r)) then Inr r else Inl ValueError)"

definition get_item ::
    "'t tree_ops \<Rightarrow> index \<Rightarrow> ('a, 't) container \<Rightarrow> ('a read_result \<times> ('a, 't) container) result" where
  "get_item ops idx c =
     bind_result (check_range ops idx c) (\<lambda>_.
     case dc_unit c of
       Transition \<Rightarrow>
         (let is = index_positions idx (dc_capacity c)
          in log_counters (Rows (map (\<lambda>i. dc_data c ! i) is),
                           c\<lparr>dc_counter := bump (remdups is) (dc_counter c)\<rparr>))
     | Episode \<Rightarrow>
         (let intervals = t_items ops (dc_registry c);
              chosen = map (\<lambda>i. intervals ! i) (index_positions idx (length intervals))
          in if chosen = [] then Inl ValueError
             else log_counters
                    (Episodes (map (\<lambda>(b, e). slice b e (dc_data c)) chosen),
                     c\<lparr>dc_counter := bump (concat (map (\<lambda>(b, e). [b..<e]) chosen)) (dc_counter c)\<rparr>)))"

end
