(* ===== verification/Active_Episodes.thy ===== *)
theory Active_Episodes
  imports Data_Container Py_Strings
begin

text \<open>
  \<open>ActiveEpisodeBuffer\<close> of \<open>rlightning/buffer/utils/storage.py\<close>: the transitions of the episodes
  that are still running, by environment id. A transition is a dictionary from field name to
  value; a value is a tensor, whose library is not part of the repository, so the three things the
  code does with one are the record \<open>tensor_ops\<close>: its first dimension, a row of it, its truth
  value. \<open>postprocess_fn\<close> is given by the user of the buffer and is an argument.
  The flags and the buffers are \<open>defaultdict\<close>s: reading a flag with \<open>[]\<close> stores it.
\<close>

record 'v tensor_ops =
  v_len :: "'v \<Rightarrow> nat"
  v_row :: "nat \<Rightarrow> 'v \<Rightarrow> 'v"
  v_truthy :: "'v \<Rightarrow> bool"

type_synonym 'v transition = "(string, 'v) dict"
type_synonym 'v episode = "(string, 'v list) dict"

record 'v active_episodes =
  ae_meta :: "(string, nat) dict option"
  ae_auto :: bool
  ae_buffer :: "(string, 'v transition list) dict"
  ae_done :: "(string, bool) dict"

definition new_active_episodes :: "(string \<times> nat) list option \<Rightarrow> bool \<Rightarrow> 'v active_episodes" where
  "new_active_episodes meta_list auto =
     \<lparr>ae_meta = map_option (\<lambda>l. fold (\<lambda>(e, n). AList.update e n) l []) meta_list,
      ae_auto = auto, ae_buffer = [], ae_done = []\<rparr>"

text \<open>\<open>"/".join(env_id.split("/")[:-1])\<close>\<close>

definition parent_env :: "string \<Rightarrow> string" where
  "parent_env env_id = py_join ''/'' (butlast (py_split CHR ''/'' env_id))"

definition get_num_envs :: "'v active_episodes \<Rightarrow> string \<Rightarrow> nat result" where
  "get_num_envs s env_id =
     (case ae_meta s of
        None \<Rightarrow> Inr 1
      | Some m \<Rightarrow>
          (case map_of m env_id of
             Some n \<Rightarrow> Inr n
           | None \<Rightarrow> (case map_of m (parent_env env_id) of None \<Rightarrow> Inl KeyError | Some _ \<Rightarrow> Inr 1)))"

definition judge_done :: "'v tensor_ops \<Rightarrow> 'v transition \<Rightarrow> bool" where
  "judge_done ops tr =
     (let holds = (\<lambda>k. case map_of tr k of None \<Rightarrow> False | Some v \<Rightarrow> v_truthy ops v)
      in holds ''last_terminated'' \<or> holds ''last_truncated'')"

definition sub_env :: "string \<Rightarrow> nat \<Rightarrow> string" where
  "sub_env env_id i = env_id @ ''/'' @ string_of_nat i"

subsection \<open>Adding a transition\<close>

text \<open>A \<open>TensorDict\<close> refuses a value whose first dimension is not the batch size.\<close>

definition tensor_rows :: "'v tensor_ops \<Rightarrow> nat \<Rightarrow> 'v transition \<Rightarrow> 'v transition list result" where
  "tensor_rows ops n tr =
     bind_result (guard RuntimeError (list_all (\<lambda>(k, v). v_len ops v = n) tr)) (\<lambda>_.
     Inr (map (\<lambda>i. map (\<lambda>(k, v). (k, v_row ops i v)) tr) [0..<n]))"

definition append_done :: "'v tensor_ops \<Rightarrow> string \<Rightarrow> 'v transition \<Rightarrow> 'v active_episodes \<Rightarrow> 'v active_episodes" where
  "append_done ops eid tr s =
     (let s' = (if judge_done ops tr then s\<lparr>ae_done := AList.update eid True (ae_done s)\<rparr> else s)
      in s'\<lparr>ae_buffer := dict_append eid tr (ae_buffer s')\<rparr>)"

definition add_active ::
    "'v tensor_ops \<Rightarrow> string \<Rightarrow> 'v transition \<Rightarrow> 'v active_episodes \<Rightarrow> 'v active_episodes result" where
  "add_active ops env_id tr s =
     bind_result (get_num_envs s env_id) (\<lambda>num_envs.
     if ae_auto s
     then if num_envs > 1
          then bind_result (tensor_rows ops num_envs tr) (\<lambda>rows.
                 Inr (fold (\<lambda>(i, sub). append_done ops (sub_env env_id i) sub) (zip [0..<num_envs] rows) s))
          else Inr (append_done ops env_id tr s)
     else Inr (s\<lparr>ae_buffer := dict_append env_id tr (ae_buffer s)\<rparr>))"

subsection \<open>Popping episodes\<close>

text \<open>\<open>{k: [d[k] for d in transitions] for k in transitions[0]}\<close>\<close>

definition merge_transitions :: "'v transition list \<Rightarrow> 'v episode result" where
  "merge_transitions trs =
     (case trs of
        [] \<Rightarrow> Inl IndexError
      | first # _ \<Rightarrow>
          mapM (\<lambda>k. bind_result (mapM (\<lambda>d. of_option KeyError (map_of d k)) trs) (\<lambda>vs. Inr (k, vs)))
            (dict_keys first))"

text \<open>\<open>len(next(iter(episode.values())))\<close>\<close>

definition episode_length :: "'v episode \<Rightarrow> nat result" where
  "episode_length ep = (case ep of [] \<Rightarrow> Inl StopIteration | (k, vs) # _ \<Rightarrow> Inr (length vs))"

text \<open>
  What \<open>DataContainer.push\<close> makes of an episode dictionary: a \<open>TensorDict\<close> of as many rows as the
  first value has.
\<close>

definition episode_batch :: "'v episode \<Rightarrow> 'v transition batch result" where
  "episode_batch ep =
     bind_result (episode_length ep) (\<lambda>n.
     bind_result (guard RuntimeError (list_all (\<lambda>(k, vs). length vs = n) ep)) (\<lambda>_.
     Inr \<lparr>b_rows = map (\<lambda>t. map (\<lambda>(k, vs). (k, vs ! t)) ep) [0..<n], b_sub = 1, b_len = None\<rparr>))"

text \<open>
  \<open>TensorDict(episode, batch_size=[length, num_envs]).permute(1, 0).reshape(num_envs * length)\<close>:
  the rows of the first sub-environment in time order, then those of the second, and so on.
\<close>

definition combined_batch :: "'v tensor_ops \<Rightarrow> nat \<Rightarrow> 'v episode \<Rightarrow> 'v transition batch result" where
  "combined_batch ops num_envs ep =
     bind_result (episode_length ep) (\<lambda>n.
     bind_result (guard RuntimeError
        (list_all (\<lambda>(k, vs). length vs = n \<and> list_all (\<lambda>v. v_len ops v = num_envs) vs) ep)) (\<lambda>_.
     Inr \<lparr>b_rows = concat (map (\<lambda>i. map (\<lambda>t. map (\<lambda>(k, vs). (k, v_row ops i (vs ! t))) ep) [0..<n]) [0..<num_envs]),
          b_sub = num_envs, b_len = Some n\<rparr>))"

definition dict_pop :: "'k \<Rightarrow> ('k, 'v) dict \<Rightarrow> ('v \<times> ('k, 'v) dict) result" where
  "dict_pop k d = bind_result (of_option KeyError (map_of d k)) (\<lambda>v. Inr (v, AList.delete k d))"

definition pop_merge :: "'v active_episodes \<Rightarrow> string list \<Rightarrow> ('v episode list \<times> 'v active_episodes) result" where
  "pop_merge s eids =
     bind_result (foldM (\<lambda>(lists, buf) eid.
         bind_result (dict_pop eid buf) (\<lambda>(trs, buf'). Inr (lists @ [trs], buf'))) ([], ae_buffer s) eids)
       (\<lambda>(lists, buf). bind_result (mapM merge_transitions lists) (\<lambda>eps. Inr (eps, s\<lparr>ae_buffer := buf\<rparr>)))"

definition pop_active ::
    "'v tensor_ops \<Rightarrow> ('v episode \<Rightarrow> 'v episode result) \<Rightarrow> string \<Rightarrow> 'v active_episodes
       \<Rightarrow> ('v transition batch list \<times> 'v active_episodes) result" where
  "pop_active ops post env_id s =
     bind_result (get_num_envs s env_id) (\<lambda>num_envs.
     bind_result (pop_merge s (if num_envs > 1 \<and> ae_auto s then map (sub_env env_id) [0..<num_envs] else [env_id]))
       (\<lambda>(eps, s').
     bind_result (mapM post eps) (\<lambda>eps'.
     bind_result (mapM (if num_envs > 1 \<and> \<not> ae_auto s then combined_batch ops num_envs else episode_batch) eps')
       (\<lambda>bs. Inr (bs, s')))))"

text \<open>
  The ids whose flag is set; a looked up flag that is missing is stored as false, a set one is
  taken out.
\<close>

fun take_flag :: "string \<Rightarrow> string list \<times> (string, bool) dict \<Rightarrow> string list \<times> (string, bool) dict" where
  "take_flag eid (ids, fl) =
     (case map_of fl eid of
        Some True \<Rightarrow> (ids @ [eid], AList.delete eid fl)
      | Some False \<Rightarrow> (ids, fl)
      | None \<Rightarrow> (ids, fl @ [(eid, False)]))"

definition take_done :: "string list \<Rightarrow> (string, bool) dict \<Rightarrow> string list \<times> (string, bool) dict" where
  "take_done eids flags = fold take_flag eids ([], flags)"

definition done_env_ids :: "string option \<Rightarrow> 'v active_episodes \<Rightarrow> string list \<times> (string, bool) dict" where
  "done_env_ids env_id s =
     (case env_id of
        None \<Rightarrow> take_done (dict_keys (ae_buffer s)) (ae_done s)
      | Some e \<Rightarrow>
          if dict_get False (ae_done s) e then ([e], AList.delete e (ae_done s))
          else take_done (filter (\<lambda>eid. take (length e + 1) eid = e @ ''/'') (dict_keys (ae_buffer s))) (ae_done s))"

definition pop_done_episode ::
    "'v tensor_ops \<Rightarrow> ('v episode \<Rightarrow> 'v episode result) \<Rightarrow> string option \<Rightarrow> 'v active_episodes
       \<Rightarrow> ('v transition batch list \<times> 'v active_episodes) result" where
  "pop_done_episode ops post env_id s =
     (let (ids, flags) = done_env_ids env_id s in
      foldM (\<lambda>(out, s) eid.
          bind_result (pop_active ops post eid s) (\<lambda>(bs, s'). Inr (out @ bs, s')))
        ([], s\<lparr>ae_done := flags\<rparr>) ids)"

end
