(* ===== verification/Rollout_Types.thy ===== *)
theory Rollout_Types
  imports Active_Episodes
begin

text \<open>
  The values that travel between environments, policies and the buffer: \<open>EnvRet\<close> and
  \<open>PolicyResponse\<close> (\<open>rlightning/types\<close>), \<open>BatchedData\<close>, and the functions of
  \<open>rlightning/buffer/utils/utils.py\<close> that make a transition of them and an episode of transitions.
  The attributes of a \<open>PolicyResponse\<close> are an insertion-ordered dictionary; the code lists them in
  the order of a Python set, on which nothing depends that reads by name.
\<close>

subsection \<open>EnvRet and PolicyResponse\<close>

record 'v env_ret =
  er_env_id :: string
  er_observation :: 'v
  er_last_reward :: 'v
  er_last_terminated :: 'v
  er_last_truncated :: 'v
  er_info :: 'v
  er_extra :: "(string, 'v) dict"
  er_sent :: int

definition env_ret_fields :: "string list" where
  "env_ret_fields = [''observation'', ''last_reward'', ''last_terminated'', ''last_truncated'', ''info'']"

definition processed_env_ret_fields :: "string list" where
  "processed_env_ret_fields = [''next_observation'', ''reward'', ''terminated'', ''truncated'', ''info'']"

definition env_ret_attrs :: "'v env_ret \<Rightarrow> (string, 'v) dict" where
  "env_ret_attrs r =
     [(''observation'', er_observation r), (''last_reward'', er_last_reward r),
      (''last_terminated'', er_last_terminated r), (''last_truncated'', er_last_truncated r),
      (''info'', er_info r)]"

definition env_ret_to_dict :: "'v env_ret \<Rightarrow> (string, 'v) dict result" where
  "env_ret_to_dict r =
     foldM (\<lambda>d (k, v). if k \<in> set (dict_keys d) then Inl KeyError else Inr (AList.update k v d))
       (env_ret_attrs r) (er_extra r)"

record 'v policy_resp =
  pr_env_id :: string
  pr_fields :: "(string, 'v) dict"
  pr_policy_sent :: "int option"

text \<open>
  \<open>_fields\<close> leaves out the id and the time stamp of sending.
\<close>

definition policy_resp_to_dict :: "'v policy_resp \<Rightarrow> (string, 'v) dict" where
  "policy_resp_to_dict r =
     filter (\<lambda>(k, v). k \<noteq> ''env_id'' \<and> k \<noteq> ''ts_policy_sent_ns'') (pr_fields r)"

definition mark_env_sent :: "int \<Rightarrow> 'v env_ret \<Rightarrow> 'v env_ret" where
  "mark_env_sent now r = r\<lparr>er_sent := now\<rparr>"

definition mark_policy_sent :: "int \<Rightarrow> 'v policy_resp \<Rightarrow> 'v policy_resp" where
  "mark_policy_sent now r = r\<lparr>pr_policy_sent := Some now\<rparr>"

text \<open>Latencies are in nanoseconds (the code divides by \<open>1e9\<close>).\<close>

definition env_sent_latency :: "int \<Rightarrow> 'v env_ret \<Rightarrow> int" where
  "env_sent_latency now r = max 0 (now - er_sent r)"

text \<open>
  \<open>PolicyResponse.compute_sent_latency\<close> reads the attribute \<open>ts_env_sent_ns\<close>, which only a user can
  have put among the fields; without it the \<open>AttributeError\<close> is caught.
\<close>

definition policy_sent_latency :: "('v \<Rightarrow> int option) \<Rightarrow> int \<Rightarrow> 'v policy_resp \<Rightarrow> int" where
  "policy_sent_latency to_int now r =
     (case map_of (pr_fields r) ''ts_env_sent_ns'' of
        None \<Rightarrow> 0
      | Some v \<Rightarrow> (case to_int v of None \<Rightarrow> 0 | Some ts \<Rightarrow> max 0 (now - ts)))"

subsection \<open>BatchedData\<close>

record 'd batched_data =
  bd_ids :: "string list"
  bd_data :: "'d list"

definition new_batched_data :: "string list \<Rightarrow> 'd list \<Rightarrow> 'd batched_data result" where
  "new_batched_data ids ds =
     bind_result (guard ValueError (length ids = length ds)) (\<lambda>_. Inr \<lparr>bd_ids = ids, bd_data = ds\<rparr>)"

definition batched_items :: "'d batched_data \<Rightarrow> (string \<times> 'd) list" where
  "batched_items b = zip (bd_ids b) (bd_data b)"

definition batched_get :: "string \<Rightarrow> 'd batched_data \<Rightarrow> 'd result" where
  "batched_get k b =
     (let i = length (takeWhile (\<lambda>x. x \<noteq> k) (bd_ids b))
      in if i < length (bd_ids b) then Inr (bd_data b ! i) else Inl ValueError)"

definition batched_from_dict :: "(string, 'd) dict \<Rightarrow> 'd batched_data result" where
  "batched_from_dict d = new_batched_data (dict_keys d) (dict_values d)"

text \<open>A batch made from a dictionary gives back the dictionary, in its order.\<close>

lemma batched_from_dict_items:
  "batched_from_dict d = Inr \<lparr>bd_ids = dict_keys d, bd_data = dict_values d\<rparr>"
  "batched_items \<lparr>bd_ids = dict_keys d, bd_data = dict_values d\<rparr> = d"
  by (simp_all add: batched_from_dict_def new_batched_data_def batched_items_def zip_map_fst_snd)

lemma batched_get_map_of:
  assumes "length (bd_ids b) = length (bd_data b)"
  shows "batched_get k b = of_option ValueError (map_of (batched_items b) k)"
proof -
  have "length ids = length ds \<Longrightarrow>
      (let i = length (takeWhile (\<lambda>x. x \<noteq> k) ids) in if i < length ids then Inr (ds ! i) else Inl ValueError)
        = of_option ValueError (map_of (zip ids ds) k)" for ids :: "string list" and ds :: "'a list"
    by (induction ids ds rule: list_induct2) (auto simp: Let_def)
  with assms show ?thesis by (simp add: batched_get_def batched_items_def)
qed

subsection \<open>From an environment return and a response to a transition\<close>

definition store_all :: "('k, 'v) dict \<Rightarrow> ('k, 'v) dict \<Rightarrow> ('k, 'v) dict" where
  "store_all d items = fold (\<lambda>(k, v). AList.update k v) items d"

lemma map_of_store_all:
  "map_of (store_all d items) = map_of d ++ map_of (rev items)"
  unfolding store_all_def
  by (induction items arbitrary: d) (auto simp: map_add_def fun_eq_iff split: option.splits)

type_synonym 'v env_ret_pre =
  "'v transition \<Rightarrow> 'v env_ret \<Rightarrow> ('v \<Rightarrow> 'v) \<Rightarrow> ('v \<Rightarrow> 'v) \<Rightarrow> 'v transition result"
type_synonym 'v policy_resp_pre = "'v transition \<Rightarrow> 'v policy_resp \<Rightarrow> 'v transition result"
type_synonym 'v preprocess =
  "'v transition \<Rightarrow> 'v env_ret option \<Rightarrow> 'v policy_resp option \<Rightarrow> ('v \<Rightarrow> 'v) \<Rightarrow> ('v \<Rightarrow> 'v)
     \<Rightarrow> 'v env_ret_pre \<Rightarrow> 'v policy_resp_pre \<Rightarrow> 'v transition result"

definition default_env_ret_preprocess_fn :: "'v env_ret_pre" where
  "default_env_ret_preprocess_fn tr r obs_pre reward_pre =
     bind_result (env_ret_to_dict r) (\<lambda>d.
     Inr (store_all tr
       (AList.update ''last_reward'' (reward_pre (er_last_reward r))
         (AList.update ''observation'' (obs_pre (er_observation r)) d))))"

definition default_policy_resp_preprocess_fn :: "'v policy_resp_pre" where
  "default_policy_resp_preprocess_fn tr r = Inr (store_all tr (policy_resp_to_dict r))"

definition default_preprocess_fn :: "'v preprocess" where
  "default_preprocess_fn tr er pr obs_pre reward_pre env_pre policy_pre =
     bind_result (guard ValueError (er \<noteq> None \<or> pr \<noteq> None)) (\<lambda>_.
     bind_result (case (er, pr) of
                    (Some r, Some p) \<Rightarrow> guard ValueError (er_env_id r = pr_env_id p)
                  | _ \<Rightarrow> Inr ()) (\<lambda>_.
     bind_result (case er of None \<Rightarrow> Inr tr | Some r \<Rightarrow> env_pre tr r obs_pre reward_pre) (\<lambda>tr'.
     case pr of None \<Rightarrow> Inr tr' | Some p \<Rightarrow> policy_pre tr' p)))"

subsection \<open>From transitions to training rows\<close>

text \<open>
  \<open>default_postprocess_fn\<close>: a column becomes a tensor whose rows are its values (\<open>stack\<close>), so slicing
  the tensor is slicing the column. A \<open>last_\<close> column is shifted by one step, the observation gives the
  observation and the next observation, a column of the policy loses its last value, any other
  column is dropped.
\<close>

definition policy_field :: "string \<Rightarrow> bool" where
  "policy_field k \<longleftrightarrow> k \<notin> set (env_ret_fields @ processed_env_ret_fields)"

definition postprocess_column :: "string \<Rightarrow> 'v list \<Rightarrow> 'v episode \<Rightarrow> 'v episode" where
  "postprocess_column k vs d =
     (let d1 = (if starts_with ''last_'' k then AList.update (drop 5 k) (drop 1 vs) d else d);
          d2 = (if k = ''observation''
                then AList.update ''observation'' (butlast vs) (AList.update ''next_observation'' (drop 1 vs) d1)
                else d1)
      in if policy_field k then AList.update k (butlast vs) d2 else d2)"

definition default_postprocess_fn :: "'v episode \<Rightarrow> 'v episode result" where
  "default_postprocess_fn ep =
     foldM (\<lambda>d (k, vs).
         if contains_str ''info'' k then Inr d
         else if vs = [] then Inl IndexError
         else Inr (postprocess_column k vs d)) [] ep"

end
