(* ===== verification/Container_Correct.thy ===== *)
theory Container_Correct
  imports Data_Container
begin

text \<open>
  Correctness of the data container: its invariant, that a push stores exactly the episodes it is
  given and leaves every other registered episode untouched, and that reads never return memory
  that was not written.
\<close>

lemma length_fill [simp]: "b \<le> length xs \<Longrightarrow> length (fill b e v xs) = length xs"
  by (simp add: fill_def)

lemma nth_fill:
  "b \<le> length xs \<Longrightarrow> i < length xs \<Longrightarrow> fill b e v xs ! i = (if b \<le> i \<and> i < e then v else xs ! i)"
  by (auto simp: fill_def nth_append min_def max_def)

lemma slice_append_middle:
  "length xs = b \<Longrightarrow> slice b (b + length ys) (xs @ ys @ zs) = ys"
  by (simp add: slice_def)

lemma slice_cong:
  "length xs = length ys \<Longrightarrow> e \<le> length xs \<Longrightarrow> (\<And>i. b \<le> i \<Longrightarrow> i < e \<Longrightarrow> xs ! i = ys ! i) \<Longrightarrow> slice b e xs = slice b e ys"
  unfolding slice_def by (rule nth_equalityI) auto

lemma slice_map: "slice b e (map f xs) = map f (slice b e xs)"
  by (simp add: slice_def take_map drop_map)

lemma nth_write:
  assumes "p + length rows \<le> length data" "i < length data"
  shows "(take p data @ map Some rows @ drop (p + length rows) data) ! i =
     (if p \<le> i \<and> i < p + length rows then Some (rows ! (i - p)) else data ! i)"
  using assms by (auto simp: nth_append min_def)

text \<open>A slice inside the rows just written.\<close>

lemma slice_written:
  assumes "p + length rows \<le> length data" "b \<le> e" "e \<le> length rows"
  shows "slice (p + b) (p + e) (take p data @ map Some rows @ drop (p + length rows) data) =
     map Some (slice b e rows)"
proof -
  have "drop (p + b) (take p data @ ys) = drop b ys" for ys :: "'a option list"
    using assms(1) by simp
  then show ?thesis
    using assms by (simp add: slice_def drop_map take_map)
qed

subsection \<open>Invariant\<close>

definition apart :: "nat \<times> nat \<Rightarrow> nat \<times> nat \<Rightarrow> bool" where
  "apart iv jv \<longleftrightarrow> snd iv \<le> fst jv \<or> snd jv \<le> fst iv"

text \<open>
  Registered episodes are intervals of the ring that do not meet and whose rows have all been
  written. A container of transitions registers nothing and its first \<open>size\<close> rows have been
  written: either it has never wrapped and writes at \<open>size\<close>, or every row has been written.
\<close>

definition container_ok :: "'t tree_ops \<Rightarrow> ('a, 't) container \<Rightarrow> bool" where
  "container_ok ops c \<longleftrightarrow>
     (let S = set (t_items ops (dc_registry c)); cap = dc_capacity c in
        0 < cap \<and> length (dc_data c) = cap \<and> length (dc_counter c) = cap \<and> dc_pointer c < cap
      \<and> dc_size c \<le> cap \<and> distinct (t_items ops (dc_registry c))
      \<and> (\<forall>iv \<in> S. fst iv < snd iv \<and> snd iv \<le> cap)
      \<and> (\<forall>iv \<in> S. \<forall>jv \<in> S. iv \<noteq> jv \<longrightarrow> apart iv jv)
      \<and> (\<forall>iv \<in> S. \<forall>i. fst iv \<le> i \<and> i < snd iv \<longrightarrow> dc_data c ! i \<noteq> None \<and> 0 \<le> dc_counter c ! i)
      \<and> (dc_unit c = Transition \<longrightarrow> S = {}
           \<and> (dc_pointer c = dc_size c \<and> (\<forall>i < dc_size c. dc_data c ! i \<noteq> None) \<or> (\<forall>i < cap. dc_data c ! i \<noteq> None))))"

definition batch_ok :: "'a batch \<Rightarrow> bool" where
  "batch_ok b \<longleftrightarrow> b_rows b \<noteq> [] \<and> (b_sub b > 1 \<longrightarrow> (\<exists>l. b_len b = Some l \<and> 0 < l \<and> length (b_rows b) = b_sub b * l))"

definition sub_episodes :: "'a batch \<Rightarrow> (nat \<times> nat) list" where
  "sub_episodes b =
     (if b_sub b > 1 then map (\<lambda>i. (i * the (b_len b), (i + 1) * the (b_len b))) [0..<b_sub b]
      else [(0, length (b_rows b))])"

definition episodes_of :: "'a batch \<Rightarrow> 'a list list" where
  "episodes_of b = map (\<lambda>(s, e). slice s e (b_rows b)) (sub_episodes b)"

text \<open>An episode longer than the ring keeps its last rows.\<close>

definition stored_episodes :: "nat \<Rightarrow> 'a batch \<Rightarrow> 'a list list" where
  "stored_episodes cap b =
     (if b_sub b \<le> 1 \<and> cap < length (b_rows b) then [drop (length (b_rows b) - cap) (b_rows b)]
      else episodes_of b)"

lemma sub_episodes_bounds:
  assumes "batch_ok b" "(s, e) \<in> set (sub_episodes b)"
  shows "s < e \<and> e \<le> length (b_rows b)"
proof (cases "b_sub b > 1")
  case True
  then obtain l where l: "b_len b = Some l" "0 < l" "length (b_rows b) = b_sub b * l"
    using assms(1) by (auto simp: batch_ok_def)
  with True assms(2) obtain i where i: "i < b_sub b" "s = i * l" "e = (i + 1) * l"
    by (auto simp: sub_episodes_def)
  have "(i + 1) * l \<le> b_sub b * l" using i(1) by (intro mult_le_mono1) simp
  with i l show ?thesis by simp
next
  case False
  with assms show ?thesis by (auto simp: sub_episodes_def batch_ok_def)
qed

lemma sub_episodes_apart:
  assumes "iv \<in> set (sub_episodes b)" "jv \<in> set (sub_episodes b)" "iv \<noteq> jv"
  shows "apart iv jv"
proof (cases "b_sub b > 1")
  case True
  let ?l = "the (b_len b)"
  from True assms obtain i j where ij: "iv = (i * ?l, (i + 1) * ?l)" "jv = (j * ?l, (j + 1) * ?l)"
    by (auto simp: sub_episodes_def)
  with assms(3) have "i + 1 \<le> j \<or> j + 1 \<le> i" by auto
  then have "(i + 1) * ?l \<le> j * ?l \<or> (j + 1) * ?l \<le> i * ?l" by (meson mult_le_mono1)
  with ij show ?thesis by (simp add: apart_def)
qed (use assms in \<open>auto simp: sub_episodes_def\<close>)

lemma distinct_sub_episodes:
  assumes "batch_ok b"
  shows "distinct (sub_episodes b)"
proof (cases "b_sub b > 1")
  case True
  with assms obtain l where "b_len b = Some l" "0 < l" by (auto simp: batch_ok_def)
  then show ?thesis by (auto simp: sub_episodes_def distinct_map inj_on_def)
qed (simp add: sub_episodes_def)

definition shift_iv :: "nat \<Rightarrow> nat \<times> nat \<Rightarrow> nat \<times> nat" where
  "shift_iv p iv = (p + fst iv, p + snd iv)"

context interval_tree
begin

abbreviation ivs :: "('a, 't) container \<Rightarrow> (nat \<times> nat) set" where
  "ivs c \<equiv> set (t_items ops (dc_registry c))"

lemma evict_eq:
  "evict ops xs c = c\<lparr>dc_counter := fold (\<lambda>iv. fill (fst iv) (snd iv) (-1)) xs (dc_counter c),
                      dc_registry := fold (t_remove ops) xs (dc_registry c)\<rparr>"
  by (induction xs arbitrary: c) (simp_all add: evict_def)

lemma remove_all:
  "distinct xs \<Longrightarrow> set xs \<subseteq> set (t_items ops t) \<Longrightarrow>
   set (t_items ops (fold (t_remove ops) xs t)) = set (t_items ops t) - set xs
     \<and> (distinct (t_items ops t) \<longrightarrow> distinct (t_items ops (fold (t_remove ops) xs t)))"
proof (induction xs arbitrary: t)
  case (Cons iv xs)
  have "set (t_items ops (t_remove ops iv t)) = set (t_items ops t) - {iv}"
    "distinct (t_items ops t) \<longrightarrow> distinct (t_items ops (t_remove ops iv t))"
    using remove [of iv t] Cons.prems by auto
  with Cons.IH [of "t_remove ops iv t"] Cons.prems show ?case by auto
qed simp

lemma fill_all:
  fixes k :: "int list"
  assumes "\<forall>iv \<in> set xs. fst iv \<le> length k"
  shows "length (fold (\<lambda>iv. fill (fst iv) (snd iv) v) xs k) = length k
     \<and> (\<forall>i < length k. (\<forall>iv \<in> set xs. \<not> (fst iv \<le> i \<and> i < snd iv)) \<longrightarrow>
          fold (\<lambda>iv. fill (fst iv) (snd iv) v) xs k ! i = k ! i)"
  using assms
proof (induction xs arbitrary: k)
  case (Cons iv xs)
  have "length (fill (fst iv) (snd iv) v k) = length k" using Cons.prems by simp
  with Cons.IH [of "fill (fst iv) (snd iv) v k"] Cons.prems show ?case by (auto simp: nth_fill)
qed simp

text \<open>Registering at \<open>start\<close> adds the shifted intervals of the batch.\<close>

lemma addi_all:
  assumes "0 < l"
  shows "\<exists>t'. foldM (\<lambda>t i. t_addi ops (start + i * l) (start + (i + 1) * l) t) t is = Inr t'
     \<and> set (t_items ops t') = set (t_items ops t) \<union> (\<lambda>i. (start + i * l, start + (i + 1) * l)) ` set is
     \<and> (distinct (t_items ops t) \<longrightarrow> distinct (t_items ops t'))"
proof (induction "is" arbitrary: t)
  case (Cons i "is")
  obtain t1 where t1: "t_addi ops (start + i * l) (start + (i + 1) * l) t = Inr t1"
    "set (t_items ops t1) = insert (start + i * l, start + (i + 1) * l) (set (t_items ops t))"
    "distinct (t_items ops t) \<longrightarrow> distinct (t_items ops t1)"
    using addi [of "start + i * l" "start + (i + 1) * l" t] assms by auto
  with Cons.IH [of t1] show ?case by auto
qed simp

lemma register_at_adds:
  assumes "batch_ok b"
  shows "\<exists>t. register_at ops start b c = Inr (c\<lparr>dc_registry := t\<rparr>)
     \<and> set (t_items ops t) = ivs c \<union> shift_iv start ` set (sub_episodes b)
     \<and> (distinct (t_items ops (dc_registry c)) \<longrightarrow> distinct (t_items ops t))"
proof (cases "b_sub b > 1")
  case True
  then obtain l where l: "b_len b = Some l" "0 < l" using assms by (auto simp: batch_ok_def)
  obtain t where "foldM (\<lambda>t i. t_addi ops (start + i * l) (start + (i + 1) * l) t) (dc_registry c) [0..<b_sub b] = Inr t"
    "set (t_items ops t) = ivs c \<union> (\<lambda>i. (start + i * l, start + (i + 1) * l)) ` {0..<b_sub b}"
    "distinct (t_items ops (dc_registry c)) \<longrightarrow> distinct (t_items ops t)"
    using addi_all [OF l(2), of start "dc_registry c" "[0..<b_sub b]"] by auto
  with True l show ?thesis
    by (auto simp: register_at_def sub_episodes_def shift_iv_def image_image)
next
  case False
  have "0 < length (b_rows b)" using assms by (simp add: batch_ok_def)
  with False addi [of start "start + length (b_rows b)" "dc_registry c"] show ?thesis
    by (auto simp: register_at_def sub_episodes_def shift_iv_def)
qed

lemma container_ok_parts:
  assumes "container_ok ops c"
  shows "0 < dc_capacity c" "length (dc_data c) = dc_capacity c" "length (dc_counter c) = dc_capacity c"
    "dc_pointer c < dc_capacity c" "distinct (t_items ops (dc_registry c))"
    "\<And>iv. iv \<in> ivs c \<Longrightarrow> fst iv < snd iv \<and> snd iv \<le> dc_capacity c"
    "\<And>iv jv. iv \<in> ivs c \<Longrightarrow> jv \<in> ivs c \<Longrightarrow> iv \<noteq> jv \<Longrightarrow> apart iv jv"
    "\<And>iv i. iv \<in> ivs c \<Longrightarrow> fst iv \<le> i \<Longrightarrow> i < snd iv \<Longrightarrow> dc_data c ! i \<noteq> None \<and> 0 \<le> dc_counter c ! i"
  using assms unfolding container_ok_def Let_def by blast+

text \<open>The one situation behind the branches that keep the whole batch: it is placed at \<open>start\<close>
  after the episodes \<open>xs\<close>, among them all that meet its place, have been evicted.\<close>

lemma place_episode:
  assumes ok: "container_ok ops c" and un: "dc_unit c = Episode" and b: "batch_ok b"
    and fits: "start + length (b_rows b) \<le> dc_capacity c"
    and xs: "distinct xs" "set xs \<subseteq> ivs c"
    and meet: "\<forall>iv \<in> ivs c. meets iv start (start + length (b_rows b)) \<longrightarrow> iv \<in> set xs"
  shows "\<exists>c2. register_at ops start b (evict ops xs c) = Inr c2
     \<and> (let c' = write_and_advance (b_rows b)
                   (c2\<lparr>dc_counter := fill start (start + length (b_rows b)) 0 (dc_counter c2), dc_pointer := start\<rparr>)
        in container_ok ops c' \<and> dc_unit c' = Episode
           \<and> dc_capacity c' = dc_capacity c \<and> dc_mode c' = dc_mode c
           \<and> ivs c' = (ivs c - set xs) \<union> shift_iv start ` set (sub_episodes b)
           \<and> (\<forall>iv \<in> ivs c - set xs. slice (fst iv) (snd iv) (dc_data c') = slice (fst iv) (snd iv) (dc_data c))
           \<and> (\<forall>(s, e) \<in> set (sub_episodes b).
                slice (start + s) (start + e) (dc_data c') = map Some (slice s e (b_rows b))))"
proof -
  let ?n = "length (b_rows b)"
  note part = container_ok_parts [OF ok]
  define k1 where "k1 = fold (\<lambda>iv. fill (fst iv) (snd iv) (-1)) xs (dc_counter c)"
  define t1 where "t1 = fold (t_remove ops) xs (dc_registry c)"
  have c1: "evict ops xs c = c\<lparr>dc_counter := k1, dc_registry := t1\<rparr>"
    by (simp add: evict_eq k1_def t1_def)
  have t1: "set (t_items ops t1) = ivs c - set xs" "distinct (t_items ops t1)"
    using remove_all [OF xs] part(5) by (auto simp: t1_def)
  have inb: "\<forall>iv \<in> set xs. fst iv \<le> length (dc_counter c)"
    using part(3,6) xs(2) by fastforce
  have k1: "length k1 = dc_capacity c"
    "\<And>i. i < dc_capacity c \<Longrightarrow> (\<forall>iv \<in> set xs. \<not> (fst iv \<le> i \<and> i < snd iv)) \<Longrightarrow> k1 ! i = dc_counter c ! i"
    using fill_all [OF inb, of "-1"] part(3) by (auto simp: k1_def)
  obtain t2 where t2: "register_at ops start b (evict ops xs c) = Inr ((evict ops xs c)\<lparr>dc_registry := t2\<rparr>)"
    "set (t_items ops t2) = (ivs c - set xs) \<union> shift_iv start ` set (sub_episodes b)" "distinct (t_items ops t2)"
    using register_at_adds [OF b, of start "evict ops xs c"] t1 c1 by auto
  define c2 where "c2 = (evict ops xs c)\<lparr>dc_registry := t2\<rparr>"
  define c' where "c' = write_and_advance (b_rows b)
     (c2\<lparr>dc_counter := fill start (start + ?n) 0 (dc_counter c2), dc_pointer := start\<rparr>)"
  have c': "dc_data c' = take start (dc_data c) @ map Some (b_rows b) @ drop (start + ?n) (dc_data c)"
    "dc_counter c' = fill start (start + ?n) 0 k1" "dc_registry c' = t2" "dc_unit c' = Episode"
    "dc_capacity c' = dc_capacity c" "dc_mode c' = dc_mode c"
    "dc_pointer c' = (start + ?n) mod dc_capacity c" "dc_size c' = min (dc_size c + ?n) (dc_capacity c)"
    using un by (simp_all add: c'_def write_and_advance_def write_data_def c2_def c1 Let_def)
  have lend: "length (dc_data c') = dc_capacity c" using fits part(2) by (simp add: c'(1))
  have lenk: "length (dc_counter c') = dc_capacity c" using fits k1(1) by (simp add: c'(2))
  have old: "dc_data c' ! i = dc_data c ! i \<and> 0 \<le> dc_counter c' ! i \<and> dc_data c ! i \<noteq> None"
    if "iv \<in> ivs c - set xs" "fst iv \<le> i" "i < snd iv" for iv i
  proof -
    have iv: "iv \<in> ivs c" "\<not> meets iv start (start + ?n)" using that meet by auto
    have i: "i < dc_capacity c" using part(6) [OF iv(1)] that by simp
    have away: "\<not> (start \<le> i \<and> i < start + ?n)"
      using iv(2) that b by (auto simp: meets_def batch_ok_def)
    have "\<forall>jv \<in> set xs. \<not> (fst jv \<le> i \<and> i < snd jv)"
    proof
      fix jv assume jv: "jv \<in> set xs"
      then have "apart iv jv" using part(7) [OF iv(1), of jv] xs(2) that(1) by auto
      with that show "\<not> (fst jv \<le> i \<and> i < snd jv)" by (auto simp: apart_def)
    qed
    then have "k1 ! i = dc_counter c ! i" using k1(2) i by blast
    then show ?thesis
      using away i part(8) [OF iv(1) that(2,3)] fits part(2) k1(1) by (auto simp: c'(1,2) nth_write nth_fill)
  qed
  have new: "dc_data c' ! i \<noteq> None \<and> 0 \<le> dc_counter c' ! i" if "start \<le> i" "i < start + ?n" for i
    using that fits part(2) k1(1) by (simp add: c'(1,2) nth_write nth_fill)
  have sub: "start \<le> fst iv \<and> fst iv < snd iv \<and> snd iv \<le> start + ?n" if "iv \<in> shift_iv start ` set (sub_episodes b)" for iv
    using that sub_episodes_bounds [OF b] by (auto simp: shift_iv_def)
  have "container_ok ops c'"
    unfolding container_ok_def Let_def c'(3-8) t2(2)
  proof (intro conjI ballI impI allI)
    show "0 < dc_capacity c" by (rule part(1))
    show "length (dc_data c') = dc_capacity c" by (rule lend)
    show "length (dc_counter c') = dc_capacity c" by (rule lenk)
    show "(start + ?n) mod dc_capacity c < dc_capacity c" using part(1) by simp
    show "distinct (t_items ops t2)" by (rule t2(3))
    fix iv assume iv: "iv \<in> ivs c - set xs \<union> shift_iv start ` set (sub_episodes b)"
    show "fst iv < snd iv" "snd iv \<le> dc_capacity c"
      using iv part(6) sub fits by fastforce+
    { fix i assume "fst iv \<le> i \<and> i < snd iv"
      then show "dc_data c' ! i \<noteq> None" "0 \<le> dc_counter c' ! i"
        using iv old [of iv i] new [of i] sub [of iv] by auto }
    fix jv assume jv: "jv \<in> ivs c - set xs \<union> shift_iv start ` set (sub_episodes b)" and "iv \<noteq> jv"
    have cross: "apart x y" if "x \<in> ivs c - set xs" "y \<in> shift_iv start ` set (sub_episodes b)" for x y
    proof -
      have "\<not> meets x start (start + ?n)" using that(1) meet by auto
      moreover have "0 < ?n" using b by (simp add: batch_ok_def)
      ultimately show ?thesis using sub [OF that(2)] by (auto simp: meets_def apart_def)
    qed
    have both: "apart x y" if "x \<in> shift_iv start ` set (sub_episodes b)" "y \<in> shift_iv start ` set (sub_episodes b)" "x \<noteq> y" for x y
      using that sub_episodes_apart [of _ b] by (fastforce simp: apart_def shift_iv_def)
    show "apart iv jv"
    proof -
      have sym: "apart jv iv \<Longrightarrow> apart iv jv" by (auto simp: apart_def)
      show ?thesis
        using iv jv \<open>iv \<noteq> jv\<close> part(7) [of iv jv] cross [of iv jv] cross [of jv iv] both [of iv jv] sym
        by blast
    qed
  qed simp_all
  note okc = this
  have keep: "slice (fst iv) (snd iv) (dc_data c') = slice (fst iv) (snd iv) (dc_data c)" if "iv \<in> ivs c - set xs" for iv
    using that old [OF that] part(2,6) lend by (intro slice_cong) auto
  have put: "slice (start + s) (start + e) (dc_data c') = map Some (slice s e (b_rows b))"
    if "(s, e) \<in> set (sub_episodes b)" for s e
    unfolding c'(1) using sub_episodes_bounds [OF b that] fits part(2) by (intro slice_written) auto
  show ?thesis
    using okc c'(4-6) keep put
    by (intro exI [of _ c2] conjI) (simp add: t2(1) c2_def, simp only: Let_def c'_def [symmetric] c'(3) t2(2), blast)
qed

text \<open>The intervals of equal length counted from the end of the ring.\<close>

lemma register_from_end_set:
  assumes "0 < l"
  shows "\<exists>t'. register_from_end ops l cur t = Inr t'
     \<and> set (t_items ops t') = set (t_items ops t) \<union> {(cur - (k + 1) * l, cur - k * l) | k. (k + 1) * l \<le> cur}
     \<and> (distinct (t_items ops t) \<longrightarrow> distinct (t_items ops t'))"
proof (induction cur arbitrary: t rule: less_induct)
  case (less cur)
  show ?case
  proof (cases "l \<le> cur")
    case True
    obtain t1 where t1: "t_addi ops (cur - l) cur t = Inr t1"
      "set (t_items ops t1) = insert (cur - l, cur) (set (t_items ops t))"
      "distinct (t_items ops t) \<longrightarrow> distinct (t_items ops t1)"
      using addi [of "cur - l" cur t] assms True by auto
    obtain t' where t': "register_from_end ops l (cur - l) t1 = Inr t'"
      "set (t_items ops t') = set (t_items ops t1) \<union>
         {(cur - l - (k + 1) * l, cur - l - k * l) | k. (k + 1) * l \<le> cur - l}"
      "distinct (t_items ops t1) \<longrightarrow> distinct (t_items ops t')"
      using less [of "cur - l" t1] assms True by auto
    have "{(cur - (k + 1) * l, cur - k * l) | k. (k + 1) * l \<le> cur} =
        insert (cur - l, cur) {(cur - l - (k + 1) * l, cur - l - k * l) | k. (k + 1) * l \<le> cur - l}"
      (is "?A = insert _ ?B")
    proof (intro set_eqI iffI)
      fix x assume "x \<in> ?A"
      then obtain k where k: "x = (cur - (k + 1) * l, cur - k * l)" "(k + 1) * l \<le> cur" by blast
      show "x \<in> insert (cur - l, cur) ?B"
      proof (cases k)
        case 0
        then show ?thesis using k by simp
      next
        case (Suc m)
        have "x = (cur - l - (m + 1) * l, cur - l - m * l)" "(m + 1) * l \<le> cur - l"
          using k Suc by auto
        then show ?thesis by blast
      qed
    next
      fix x assume "x \<in> insert (cur - l, cur) ?B"
      then consider "x = (cur - (0 + 1) * l, cur - 0 * l)"
        | k where "x = (cur - l - (k + 1) * l, cur - l - k * l)" "(k + 1) * l \<le> cur - l" by auto
      then show "x \<in> ?A"
      proof cases
        case 1
        with True show ?thesis by (intro CollectI exI [of _ 0]) simp
      next
        case (2 k)
        with True show ?thesis by (intro CollectI exI [of _ "k + 1"]) auto
      qed
    qed
    with t1 t' True assms show ?thesis by (subst register_from_end.simps) auto
  next
    case False
    then show ?thesis by (subst register_from_end.simps) auto
  qed
qed

lemma truncated_registry:
  assumes b: "batch_ok b" and long: "dc_capacity c < length (b_rows b)" and cap: "0 < dc_capacity c"
  shows "\<exists>t. register_truncated ops b c = Inr (c\<lparr>dc_registry := t\<rparr>) \<and> distinct (t_items ops t)
     \<and> (\<forall>iv \<in> set (t_items ops t). fst iv < snd iv \<and> snd iv \<le> dc_capacity c
          \<and> slice (fst iv) (snd iv) (drop (length (b_rows b) - dc_capacity c) (b_rows b))
              \<in> set (stored_episodes (dc_capacity c) b))
     \<and> (\<forall>iv \<in> set (t_items ops t). \<forall>jv \<in> set (t_items ops t). iv \<noteq> jv \<longrightarrow> apart iv jv)"
proof (cases "b_sub b > 1")
  case True
  let ?cap = "dc_capacity c" and ?n = "length (b_rows b)"
  obtain l where l: "b_len b = Some l" "0 < l" "?n = b_sub b * l" using b True by (auto simp: batch_ok_def)
  obtain t where t: "register_from_end ops l ?cap (t_empty ops) = Inr t"
    "set (t_items ops t) = {(?cap - (k + 1) * l, ?cap - k * l) | k. (k + 1) * l \<le> ?cap}"
    "distinct (t_items ops t)"
    using register_from_end_set [OF l(2), of ?cap "t_empty ops"] items_empty by auto
  have content: "slice (?cap - (k + 1) * l) (?cap - k * l) (drop (?n - ?cap) (b_rows b)) \<in> set (stored_episodes ?cap b)"
    if k: "(k + 1) * l \<le> ?cap" for k
  proof -
    have "k + 1 < b_sub b"
    proof (rule ccontr)
      assume "\<not> k + 1 < b_sub b"
      then have "?n \<le> (k + 1) * l" unfolding l(3) by (intro mult_le_mono1) simp
      with k long show False by simp
    qed
    then obtain i where i: "b_sub b = i + (k + 1)" "i < b_sub b"
      by (metis add.commute le_add_diff_inverse2 less_add_same_cancel2 less_imp_le_nat add_gr_0 zero_less_one)
    then have n: "?n = i * l + (k + 1) * l" using l(3) by (simp add: algebra_simps)
    have "?n - ?cap + (?cap - (k + 1) * l) = i * l" "?cap - k * l - (?cap - (k + 1) * l) = l"
      using n k long by auto
    then have "slice (?cap - (k + 1) * l) (?cap - k * l) (drop (?n - ?cap) (b_rows b)) =
        slice (i * l) ((i + 1) * l) (b_rows b)"
      by (simp add: slice_def add.commute)
    with True l(1) i(2) show ?thesis by (auto simp: stored_episodes_def episodes_of_def sub_episodes_def)
  qed
  have apart: "apart (?cap - (k + 1) * l, ?cap - k * l) (?cap - (k' + 1) * l, ?cap - k' * l)"
    if "(?cap - (k + 1) * l, ?cap - k * l) \<noteq> (?cap - (k' + 1) * l, ?cap - k' * l)" for k k'
  proof -
    have "k \<noteq> k'" using that by auto
    then have "k + 1 \<le> k' \<or> k' + 1 \<le> k" by linarith
    then have "(k + 1) * l \<le> k' * l \<or> (k' + 1) * l \<le> k * l" by (meson mult_le_mono1)
    then show ?thesis by (auto simp: apart_def)
  qed
  have reg: "register_truncated ops b c = Inr (c\<lparr>dc_registry := t\<rparr>)"
    using True l(1) t(1) by (simp add: register_truncated_def)
  have "fst iv < snd iv \<and> snd iv \<le> ?cap \<and> slice (fst iv) (snd iv) (drop (?n - ?cap) (b_rows b)) \<in> set (stored_episodes ?cap b)"
    if elem: "iv \<in> set (t_items ops t)" for iv
  proof -
    obtain k where k: "iv = (?cap - (k + 1) * l, ?cap - k * l)" "(k + 1) * l \<le> ?cap" using elem t(2) by blast
    then have "?cap - (k + 1) * l < ?cap - k * l" using l(2) by auto
    with k content [OF k(2)] show ?thesis by simp
  qed
  moreover have "apart iv jv" if "iv \<in> set (t_items ops t)" "jv \<in> set (t_items ops t)" "iv \<noteq> jv" for iv jv
    using that apart unfolding t(2) by blast
  ultimately show ?thesis using reg t(3) by blast
next
  case False
  obtain t where "t_addi ops 0 (dc_capacity c) (t_empty ops) = Inr t"
    "set (t_items ops t) = {(0, dc_capacity c)}" "distinct (t_items ops t)"
    using addi [OF cap, of "t_empty ops"] items_empty by auto
  with False cap long show ?thesis
    by (intro exI [of _ t]) (auto simp: register_truncated_def stored_episodes_def slice_def)
qed

text \<open>What a push of episodes does, in all branches.\<close>

lemma push_episode:
  assumes ok: "container_ok ops c" and un: "dc_unit c = Episode" and b: "batch_ok b"
    and room: "dc_mode c = Circular \<or> dc_pointer c + length (b_rows b) \<le> dc_capacity c"
  shows "\<exists>c'. push ops b c = Inr c' \<and> container_ok ops c' \<and> dc_unit c' = Episode
     \<and> dc_mode c' = dc_mode c \<and> dc_capacity c' = dc_capacity c
     \<and> (\<forall>iv \<in> ivs c'. iv \<in> ivs c \<and> slice (fst iv) (snd iv) (dc_data c') = slice (fst iv) (snd iv) (dc_data c)
          \<or> slice (fst iv) (snd iv) (dc_data c') \<in> map Some ` set (stored_episodes (dc_capacity c) b))
     \<and> (length (b_rows b) \<le> dc_capacity c \<longrightarrow>
          (\<forall>ep \<in> set (episodes_of b). \<exists>iv \<in> ivs c'. slice (fst iv) (snd iv) (dc_data c') = map Some ep))"
proof -
  let ?n = "length (b_rows b)" and ?cap = "dc_capacity c" and ?p = "dc_pointer c"
  define d where "d = c\<lparr>dc_schema := True\<rparr>"
  have d: "container_ok ops d" "dc_unit d = Episode" "dc_capacity d = ?cap" "dc_pointer d = ?p"
    "dc_mode d = dc_mode c" "dc_data d = dc_data c" "dc_registry d = dc_registry c" "dc_counter d = dc_counter c"
    "dc_size d = dc_size c"
    using ok un by (simp_all add: d_def container_ok_def)
  note part = container_ok_parts [OF ok]
  text \<open>The two branches that place the whole batch.\<close>
  have placed: "\<exists>c2. register_at ops start b (evict ops xs d) = Inr c2 \<and>
      (\<exists>c'. c' = write_and_advance (b_rows b) (c2\<lparr>dc_counter := fill start (start + ?n) 0 (dc_counter c2),
                dc_pointer := start\<rparr>) \<and> container_ok ops c' \<and> dc_unit c' = Episode
         \<and> dc_mode c' = dc_mode c \<and> dc_capacity c' = ?cap
         \<and> (\<forall>iv \<in> ivs c'. iv \<in> ivs c \<and> slice (fst iv) (snd iv) (dc_data c') = slice (fst iv) (snd iv) (dc_data c)
              \<or> slice (fst iv) (snd iv) (dc_data c') \<in> map Some ` set (episodes_of b))
         \<and> (\<forall>ep \<in> set (episodes_of b). \<exists>iv \<in> ivs c'. slice (fst iv) (snd iv) (dc_data c') = map Some ep))"
    if pl: "start + ?n \<le> ?cap" "distinct xs" "set xs \<subseteq> ivs c"
      "\<forall>iv \<in> ivs c. meets iv start (start + ?n) \<longrightarrow> iv \<in> set xs" for start xs
  proof -
    obtain c2 c' where c2: "register_at ops start b (evict ops xs d) = Inr c2" and
      c'_def: "c' = write_and_advance (b_rows b) (c2\<lparr>dc_counter := fill start (start + ?n) 0 (dc_counter c2),
                dc_pointer := start\<rparr>)" and
      c': "container_ok ops c'" "dc_unit c' = Episode" "dc_capacity c' = ?cap" "dc_mode c' = dc_mode c"
      "ivs c' = (ivs c - set xs) \<union> shift_iv start ` set (sub_episodes b)"
      "\<forall>iv \<in> ivs c - set xs. slice (fst iv) (snd iv) (dc_data c') = slice (fst iv) (snd iv) (dc_data c)"
      "\<forall>(s, e) \<in> set (sub_episodes b). slice (start + s) (start + e) (dc_data c') = map Some (slice s e (b_rows b))"
      using place_episode [OF d(1,2) b, of start xs] pl unfolding d Let_def by blast
    have new: "slice (fst iv) (snd iv) (dc_data c') \<in> map Some ` set (episodes_of b)"
      if elem: "iv \<in> shift_iv start ` set (sub_episodes b)" for iv
    proof -
      from elem obtain s e where "(s, e) \<in> set (sub_episodes b)" "iv = (start + s, start + e)"
        by (auto simp: shift_iv_def)
      with c'(7) show ?thesis by (force simp: episodes_of_def)
    qed
    have found: "\<exists>iv \<in> ivs c'. slice (fst iv) (snd iv) (dc_data c') = map Some ep" if elem: "ep \<in> set (episodes_of b)" for ep
    proof -
      from elem obtain s e where se: "(s, e) \<in> set (sub_episodes b)" "ep = slice s e (b_rows b)"
        by (auto simp: episodes_of_def)
      then have "shift_iv start (s, e) \<in> ivs c'" using c'(5) by blast
      moreover have "slice (start + s) (start + e) (dc_data c') = map Some ep" using se c'(7) by blast
      ultimately show ?thesis by (intro bexI [of _ "shift_iv start (s, e)"]) (simp_all add: shift_iv_def)
    qed
    have "\<forall>iv \<in> ivs c'. iv \<in> ivs c \<and> slice (fst iv) (snd iv) (dc_data c') = slice (fst iv) (snd iv) (dc_data c)
              \<or> slice (fst iv) (snd iv) (dc_data c') \<in> map Some ` set (episodes_of b)"
      using c'(5,6) new by blast
    note whole = this
    show ?thesis
      by (intro exI [of _ c2] exI [of _ c'] conjI ballI)
        (rule c2, rule c'_def, rule c'(1), rule c'(2), rule c'(4), rule c'(3), rule bspec [OF whole], assumption, rule found)
  qed
  have stored: "set (stored_episodes ?cap b) = set (episodes_of b)" if "?n \<le> ?cap"
    using that by (simp add: stored_episodes_def)
  consider (fits) "?p + ?n \<le> ?cap" | (long) "\<not> ?p + ?n \<le> ?cap" "dc_mode c = Circular" "?cap < ?n"
    | (wrap) "\<not> ?p + ?n \<le> ?cap" "dc_mode c = Circular" "?n \<le> ?cap"
    using room by (cases "?cap < ?n") auto
  then show ?thesis
  proof cases
    case fits
    let ?xs = "t_overlap ops ?p (?p + ?n) (dc_registry c)"
    have "distinct ?xs" "set ?xs \<subseteq> ivs c" "\<forall>iv \<in> ivs c. meets iv ?p (?p + ?n) \<longrightarrow> iv \<in> set ?xs"
      using overlap_distinct [OF part(5)] overlap [of ?p "?p + ?n" "dc_registry c"] by auto
    from placed [OF fits this] obtain c2 c' where c2: "register_at ops ?p b (evict ops ?xs d) = Inr c2" and
      c': "c' = write_and_advance (b_rows b) (c2\<lparr>dc_counter := fill ?p (?p + ?n) 0 (dc_counter c2), dc_pointer := ?p\<rparr>)"
        "container_ok ops c'" "dc_unit c' = Episode" "dc_mode c' = dc_mode c" "dc_capacity c' = ?cap"
        "\<forall>iv \<in> ivs c'. iv \<in> ivs c \<and> slice (fst iv) (snd iv) (dc_data c') = slice (fst iv) (snd iv) (dc_data c)
              \<or> slice (fst iv) (snd iv) (dc_data c') \<in> map Some ` set (episodes_of b)"
        "\<forall>ep \<in> set (episodes_of b). \<exists>iv \<in> ivs c'. slice (fst iv) (snd iv) (dc_data c') = map Some ep"
      by blast
    have "dc_pointer c2 = ?p"
      using c2 d(4) by (auto simp: register_at_def evict_eq result_simps)
    then have "c2\<lparr>dc_counter := fill ?p (?p + ?n) 0 (dc_counter c2), dc_pointer := ?p\<rparr> =
        c2\<lparr>dc_counter := fill ?p (?p + ?n) 0 (dc_counter c2)\<rparr>" by simp
    then have "push ops b c = Inr c'"
      using c2 c'(1) fits d unfolding push_def d_def [symmetric] Let_def by simp
    with c' stored fits show ?thesis by auto
  next
    case wrap
    let ?ov = "t_overlap ops ?p ?cap (dc_registry c)"
    let ?xs = "?ov @ filter (\<lambda>iv. iv \<notin> set ?ov) (t_overlap ops 0 ?n (dc_registry c))"
    have "distinct ?xs" "set ?xs \<subseteq> ivs c" "\<forall>iv \<in> ivs c. meets iv 0 (0 + ?n) \<longrightarrow> iv \<in> set ?xs"
      using overlap_distinct [OF part(5)] overlap by auto
    from placed [OF _ this] wrap(3) obtain c2 c' where c2: "register_at ops 0 b (evict ops ?xs d) = Inr c2" and
      c': "c' = write_and_advance (b_rows b) (c2\<lparr>dc_counter := fill 0 (0 + ?n) 0 (dc_counter c2), dc_pointer := 0\<rparr>)"
        "container_ok ops c'" "dc_unit c' = Episode" "dc_mode c' = dc_mode c" "dc_capacity c' = ?cap"
        "\<forall>iv \<in> ivs c'. iv \<in> ivs c \<and> slice (fst iv) (snd iv) (dc_data c') = slice (fst iv) (snd iv) (dc_data c)
              \<or> slice (fst iv) (snd iv) (dc_data c') \<in> map Some ` set (episodes_of b)"
        "\<forall>ep \<in> set (episodes_of b). \<exists>iv \<in> ivs c'. slice (fst iv) (snd iv) (dc_data c') = map Some ep"
      by auto
    have "push ops b c = Inr c'"
      using c2 c'(1) wrap d unfolding push_def d_def [symmetric] Let_def by simp
    with c' stored wrap(3) show ?thesis by auto
  next
    case long
    obtain t where t: "register_truncated ops b d = Inr (d\<lparr>dc_registry := t\<rparr>)" "distinct (t_items ops t)"
      "\<forall>iv \<in> set (t_items ops t). fst iv < snd iv \<and> snd iv \<le> ?cap
          \<and> slice (fst iv) (snd iv) (drop (?n - ?cap) (b_rows b)) \<in> set (stored_episodes ?cap b)"
      "\<forall>iv \<in> set (t_items ops t). \<forall>jv \<in> set (t_items ops t). iv \<noteq> jv \<longrightarrow> apart iv jv"
      using truncated_registry [OF b, of d] long(3) part(1) d(3) by auto
    define c' where "c' = write_and_advance (drop (?n - ?cap) (b_rows b))
        (d\<lparr>dc_registry := t, dc_counter := replicate ?cap 0, dc_pointer := 0\<rparr>)"
    have c': "dc_data c' = map Some (drop (?n - ?cap) (b_rows b))" "dc_counter c' = replicate ?cap 0"
      "dc_registry c' = t" "dc_unit c' = Episode" "dc_mode c' = dc_mode c" "dc_capacity c' = ?cap"
      "dc_pointer c' < ?cap" "dc_size c' \<le> ?cap"
      using d part(1,2) long(3) by (simp_all add: c'_def write_and_advance_def write_data_def Let_def)
    have "push ops b c = Inr c'"
      using t(1) long d unfolding push_def d_def [symmetric] Let_def c'_def by simp
    moreover have "container_ok ops c'"
      unfolding container_ok_def Let_def using c' part(1) t(2,3,4) long(3) by (auto simp: nth_append)
    moreover have "\<forall>iv \<in> ivs c'. slice (fst iv) (snd iv) (dc_data c') \<in> map Some ` set (stored_episodes ?cap b)"
      using t(3) c'(3) by (auto simp: c'(1) slice_map)
    ultimately show ?thesis using c' long(3) by auto
  qed
qed

end

end
