(* ===== verification/Container_Reads.thy ===== *)
theory Container_Reads
  imports Container_Correct
begin

text \<open>
  The container of single transitions, the safety of reads, and the properties of the container.
\<close>

subsection \<open>Transitions\<close>

lemma write_and_advance_fields [simp]:
  "dc_data (write_and_advance rows c) = take (dc_pointer c) (dc_data c) @ map Some rows @ drop (dc_pointer c + length rows) (dc_data c)"
  "dc_pointer (write_and_advance rows c) = (dc_pointer c + length rows) mod dc_capacity c"
  "dc_size (write_and_advance rows c) = min (dc_size c + length rows) (dc_capacity c)"
  "dc_capacity (write_and_advance rows c) = dc_capacity c"
  "dc_counter (write_and_advance rows c) = dc_counter c"
  "dc_registry (write_and_advance rows c) = dc_registry c"
  "dc_unit (write_and_advance rows c) = dc_unit c"
  "dc_mode (write_and_advance rows c) = dc_mode c"
  by (simp_all add: write_and_advance_def write_data_def Let_def)

text \<open>The position of the \<open>i\<close>-th row of a batch that fits the ring.\<close>

definition ring_pos :: "nat \<Rightarrow> nat \<Rightarrow> nat \<Rightarrow> nat" where
  "ring_pos cap p i = (p + i) mod cap"

lemma push_transition:
  assumes ok: "container_ok ops c" and un: "dc_unit c = Transition"
    and n: "length (b_rows b) \<le> dc_capacity c" and room: "dc_mode c = Circular \<or> dc_pointer c + length (b_rows b) \<le> dc_capacity c"
  shows "\<exists>c'. push ops b c = Inr c' \<and> container_ok ops c' \<and> dc_unit c' = Transition
     \<and> dc_pointer c' = ring_pos (dc_capacity c) (dc_pointer c) (length (b_rows b))
     \<and> (\<forall>i < length (b_rows b). dc_data c' ! ring_pos (dc_capacity c) (dc_pointer c) i = Some (b_rows b ! i))
     \<and> (\<forall>j < dc_capacity c. (\<forall>i < length (b_rows b). j \<noteq> ring_pos (dc_capacity c) (dc_pointer c) i) \<longrightarrow>
          dc_data c' ! j = dc_data c ! j)
     \<and> dc_size c' = (if dc_pointer c + length (b_rows b) \<le> dc_capacity c
          then min (dc_size c + length (b_rows b)) (dc_capacity c)
          else min (dc_size c + (dc_pointer c + length (b_rows b) - dc_capacity c)) (dc_capacity c))"
proof -
  let ?n = "length (b_rows b)" and ?cap = "dc_capacity c" and ?p = "dc_pointer c"
  have cap: "0 < ?cap" "length (dc_data c) = ?cap" "length (dc_counter c) = ?cap" "?p < ?cap" "dc_size c \<le> ?cap"
    and reg: "t_items ops (dc_registry c) = []"
    and written: "?p = dc_size c \<and> (\<forall>i < dc_size c. dc_data c ! i \<noteq> None) \<or> (\<forall>i < ?cap. dc_data c ! i \<noteq> None)"
    using ok un by (auto simp: container_ok_def Let_def)
  show ?thesis
  proof (cases "?p + ?n \<le> ?cap")
    case True
    define c' where "c' = write_and_advance (b_rows b)
        (c\<lparr>dc_schema := True, dc_counter := fill ?p (?p + ?n) 0 (dc_counter c)\<rparr>)"
    have data: "dc_data c' = take ?p (dc_data c) @ map Some (b_rows b) @ drop (?p + ?n) (dc_data c)"
      by (simp add: c'_def)
    have nth: "dc_data c' ! j = (if ?p \<le> j \<and> j < ?p + ?n then Some (b_rows b ! (j - ?p)) else dc_data c ! j)"
      if "j < ?cap" for j
      unfolding data using True that cap(2) by (intro nth_write) auto
    have pos: "ring_pos ?cap ?p i = ?p + i" if "i < ?n" for i
      using that True by (simp add: ring_pos_def)
    have "(?p + ?n) mod ?cap = min (dc_size c + ?n) ?cap \<and> (\<forall>i < min (dc_size c + ?n) ?cap. dc_data c' ! i \<noteq> None)
        \<or> (\<forall>i < ?cap. dc_data c' ! i \<noteq> None)"
    proof (cases "\<forall>i < ?cap. dc_data c ! i \<noteq> None")
      case True
      then show ?thesis using nth by auto
    next
      case False
      then have sz: "?p = dc_size c" "\<forall>i < ?p. dc_data c ! i \<noteq> None" using written by auto
      then have "\<forall>i < ?p + ?n. dc_data c' ! i \<noteq> None" using nth True by auto
      then show ?thesis using sz(1) True by (cases "?p + ?n = ?cap") auto
    qed
    then have "container_ok ops c'"
      using cap reg un True by (simp add: container_ok_def Let_def c'_def)
    moreover have "push ops b c = Inr c'"
      using True un by (simp add: push_def Let_def c'_def)
    moreover have "\<forall>i < ?n. dc_data c' ! ring_pos ?cap ?p i = Some (b_rows b ! i)"
      using pos nth True by auto
    moreover have "dc_data c' ! j = dc_data c ! j" if "j < ?cap" "\<forall>i < ?n. j \<noteq> ring_pos ?cap ?p i" for j
    proof -
      have "\<not> (?p \<le> j \<and> j < ?p + ?n)"
      proof
        assume "?p \<le> j \<and> j < ?p + ?n"
        then have "j - ?p < ?n" "j = ?p + (j - ?p)" by auto
        with that(2) pos show False by metis
      qed
      then show ?thesis using nth [OF that(1)] by auto
    qed
    ultimately show ?thesis using True un by (simp add: c'_def ring_pos_def)
  next
    case False
    then have circ: "dc_mode c = Circular" using room by simp
    let ?first = "?cap - ?p" and ?rest = "drop (?cap - ?p) (b_rows b)"
    define c1 where "c1 = write_data ?p (take ?first (b_rows b)) (c\<lparr>dc_schema := True\<rparr>)"
    define c' where "c' = write_and_advance ?rest
       (c1\<lparr>dc_counter := fill 0 (length ?rest) 0 (fill ?p ?cap 0 (dc_counter c1)), dc_pointer := 0\<rparr>)"
    have d1: "dc_data c1 = take ?p (dc_data c) @ map Some (take ?first (b_rows b)) @ drop ?cap (dc_data c)"
      using False cap by (simp add: c1_def write_data_def)
    have nth1: "dc_data c1 ! j = (if ?p \<le> j then Some (b_rows b ! (j - ?p)) else dc_data c ! j)" if "j < ?cap" for j
      unfolding d1 using that False cap by (simp add: nth_append)
    have len1: "length (dc_data c1) = ?cap" using False cap by (simp add: d1)
    have r: "length ?rest \<le> ?p" using n cap by simp
    have data: "dc_data c' = take 0 (dc_data c1) @ map Some ?rest @ drop (0 + length ?rest) (dc_data c1)"
      by (simp add: c'_def)
    have nth: "dc_data c' ! j = (if j < length ?rest then Some (?rest ! j)
        else if ?p \<le> j then Some (b_rows b ! (j - ?p)) else dc_data c ! j)" if "j < ?cap" for j
    proof -
      have "dc_data c' ! j = (if 0 \<le> j \<and> j < 0 + length ?rest then Some (?rest ! (j - 0)) else dc_data c1 ! j)"
        unfolding data using r cap that len1 by (intro nth_write) auto
      then show ?thesis using nth1 [OF that] by simp
    qed
    have posl: "ring_pos ?cap ?p i = ?p + i" if "i < ?first" for i using that by (simp add: ring_pos_def)
    have posr: "ring_pos ?cap ?p i = i - ?first \<and> i - ?first < length ?rest" if "?first \<le> i" "i < ?n" for i
    proof -
      have "?p + i - ?cap < ?cap" "?cap \<le> ?p + i" using that n cap by linarith+
      then have "(?p + i) mod ?cap = ?p + i - ?cap" by (simp add: le_mod_geq)
      then show ?thesis using that n cap unfolding ring_pos_def by auto
    qed
    have all: "dc_data c' ! j \<noteq> None" if "j < ?cap" for j
      using nth [OF that] written False cap that by (auto split: if_splits)
    have "push ops b c = Inr c'"
      using False un circ n by (simp add: push_def Let_def c'_def c1_def)
    moreover have "container_ok ops c'"
      using cap reg un all r False n len1 by (simp add: container_ok_def Let_def c'_def c1_def write_data_def)
    moreover have "dc_data c' ! ring_pos ?cap ?p i = Some (b_rows b ! i)" if i: "i < ?n" for i
    proof (cases "i < ?first")
      case True
      have "\<not> ?p + i < length ?rest" using r by simp
      with True posl [OF True] nth [of "?p + i"] show ?thesis by simp
    next
      case False
      then have f: "?first \<le> i" by simp
      have "i - ?first < ?cap" using posr [OF f i] r cap by linarith
      then show ?thesis using posr [OF f i] nth [of "i - ?first"] f i by simp
    qed
    moreover have "dc_data c' ! j = dc_data c ! j" if j: "j < ?cap" "\<forall>i < ?n. j \<noteq> ring_pos ?cap ?p i" for j
    proof -
      have "\<not> j < length ?rest"
      proof
        assume a: "j < length ?rest"
        then have "ring_pos ?cap ?p (?first + j) = j" "?first + j < ?n" using posr [of "?first + j"] by auto
        with j(2) show False by metis
      qed
      moreover have "\<not> ?p \<le> j"
      proof
        assume a: "?p \<le> j"
        then have "ring_pos ?cap ?p (j - ?p) = j" "j - ?p < ?n" using posl [of "j - ?p"] j(1) False by auto
        with j(2) show False by metis
      qed
      ultimately show ?thesis using nth [OF j(1)] by simp
    qed
    moreover have "length ?rest = ?p + ?n - ?cap" using cap by simp
    moreover have "ring_pos ?cap ?p ?n = length ?rest mod ?cap"
    proof -
      have e: "?p + ?n = length ?rest + ?cap" using False cap(4) by simp
      show ?thesis unfolding ring_pos_def e by simp
    qed
    moreover have "dc_pointer c' = length ?rest mod ?cap" "dc_size c' = min (dc_size c + length ?rest) ?cap"
      "dc_unit c' = Transition"
      using un by (simp_all add: c'_def c1_def write_data_def)
    ultimately show ?thesis using False by (intro exI [of _ c']) simp
  qed
qed

subsection \<open>Reads\<close>

lemma bump_props:
  "length (bump is xs) = length xs \<and> (\<forall>j < length xs. xs ! j \<le> bump is xs ! j)"
proof (induction "is" arbitrary: xs)
  case Nil
  then show ?case by (simp add: bump_def)
next
  case (Cons i "is")
  have "bump (i # is) xs = bump is (xs[i := xs ! i + 1])" by (simp add: bump_def)
  moreover have "\<forall>j < length xs. xs ! j \<le> (xs[i := xs ! i + 1]) ! j"
    by (cases "i < length xs") (auto simp: nth_list_update)
  ultimately show ?case using Cons [of "xs[i := xs ! i + 1]"] by (auto intro: order_trans)
qed

lemma container_ok_bump:
  assumes "container_ok ops c"
  shows "container_ok ops (c\<lparr>dc_counter := bump is (dc_counter c)\<rparr>)"
proof -
  have "0 \<le> bump is (dc_counter c) ! i" if "i < length (dc_counter c)" "0 \<le> dc_counter c ! i" for i
    using bump_props [of "is" "dc_counter c"] that by (auto intro: order_trans)
  with assms bump_props [of "is" "dc_counter c"] show ?thesis
    by (fastforce simp: container_ok_def Let_def)
qed

lemma index_positions_bound:
  assumes "case idx of IdxInt i \<Rightarrow> in_range n bd i
     | IdxSlice a b \<Rightarrow> snd (slice_indices a b n) \<le> int bd
     | IdxArray is \<Rightarrow> list_all (in_range n bd) is"
  shows "\<forall>i \<in> set (index_positions idx n). i < bd"
  using assms by (auto simp: index_positions_def in_range_def list_all_iff case_prod_unfold Let_def split: index.splits)

lemma slice_indices_stop: "snd (slice_indices a b n) \<le> int n"
  by (auto simp: slice_indices_def clamp_index_def split: option.splits)

fun result_rows :: "'a read_result \<Rightarrow> 'a option list" where
  "result_rows (Rows rs) = rs"
| "result_rows (Episodes es) = concat es"

lemma get_item_transition:
  assumes "container_ok ops c" "dc_unit c = Transition" "get_item ops idx c = Inr (res, c')"
  shows "container_ok ops c' \<and> None \<notin> set (result_rows res)"
proof -
  let ?is = "index_positions idx (dc_capacity c)"
  have "\<forall>i \<in> set ?is. i < dc_size c"
    using assms(2,3) by (intro index_positions_bound)
      (auto simp: get_item_def check_range_def result_simps Let_def split: index.splits prod.splits)
  moreover have "\<forall>i < dc_size c. dc_data c ! i \<noteq> None"
    using assms(1,2) by (auto simp: container_ok_def Let_def)
  ultimately have "\<forall>i \<in> set ?is. dc_data c ! i \<noteq> None" by blast
  then have "None \<notin> set (map (\<lambda>i. dc_data c ! i) ?is)" by (auto simp del: not_None_eq)
  with assms show ?thesis
    using container_ok_bump [OF assms(1)]
    by (auto simp: get_item_def result_simps Let_def log_counters_def split: if_splits)
qed

lemma get_item_episode:
  assumes ok: "container_ok ops c" and "dc_unit c = Episode" "get_item ops idx c = Inr (res, c')"
  shows "container_ok ops c' \<and> None \<notin> set (result_rows res)
     \<and> (\<exists>ivs. set ivs \<subseteq> set (t_items ops (dc_registry c)) \<and> ivs \<noteq> []
          \<and> res = Episodes (map (\<lambda>iv. slice (fst iv) (snd iv) (dc_data c)) ivs))"
proof -
  let ?items = "t_items ops (dc_registry c)"
  let ?is = "index_positions idx (length ?items)"
  let ?ch = "map (\<lambda>i. ?items ! i) ?is"
  have "\<forall>i \<in> set ?is. i < length ?items"
    using assms(2,3) slice_indices_stop by (intro index_positions_bound)
      (auto simp: get_item_def check_range_def result_simps Let_def split: index.splits prod.splits)
  then have sub: "set ?ch \<subseteq> set ?items" by auto
  have res: "?ch \<noteq> []" "res = Episodes (map (\<lambda>iv. slice (fst iv) (snd iv) (dc_data c)) ?ch)"
    "\<exists>is. c' = c\<lparr>dc_counter := bump is (dc_counter c)\<rparr>"
    using assms(2,3)
    by (auto simp: get_item_def result_simps Let_def log_counters_def case_prod_unfold split: if_splits)
  have "None \<notin> set (slice (fst iv) (snd iv) (dc_data c))" if "iv \<in> set ?items" for iv
  proof
    assume "None \<in> set (slice (fst iv) (snd iv) (dc_data c))"
    then obtain j where j: "j < snd iv - fst iv" "fst iv + j < length (dc_data c)" "dc_data c ! (fst iv + j) = None"
      by (auto simp: slice_def in_set_conv_nth)
    moreover have "dc_data c ! (fst iv + j) \<noteq> None"
      using ok that j(1) unfolding container_ok_def Let_def by auto
    ultimately show False by simp
  qed
  with sub have "None \<notin> set (result_rows res)" unfolding res(2) by auto
  moreover have "container_ok ops c'" using res(3) container_ok_bump [OF ok] by auto
  ultimately show ?thesis using sub res(1,2) by blast
qed

subsection \<open>Properties\<close>

text \<open>C3: the episode ring: with a registry that behaves as documented, pushing a well-formed batch on
  a container in order (circular, or with room) returns a container in order; every episode then
  registered is either one registered before, with the same rows, or holds exactly the rows of an
  episode of the batch (its last rows when it is longer than the ring); and when the batch fits
  the ring every one of its episodes is there.\<close>
theorem push_stores_episodes:
  assumes "interval_tree ops" "container_ok ops c" "dc_unit c = Episode" "batch_ok b"
    and "dc_mode c = Circular \<or> dc_pointer c + length (b_rows b) \<le> dc_capacity c"
  shows "\<exists>c'. push ops b c = Inr c' \<and> container_ok ops c' \<and> dc_capacity c' = dc_capacity c
     \<and> (\<forall>iv \<in> set (t_items ops (dc_registry c')).
          iv \<in> set (t_items ops (dc_registry c))
            \<and> slice (fst iv) (snd iv) (dc_data c') = slice (fst iv) (snd iv) (dc_data c)
          \<or> slice (fst iv) (snd iv) (dc_data c') \<in> map Some ` set (stored_episodes (dc_capacity c) b))
     \<and> (length (b_rows b) \<le> dc_capacity c \<longrightarrow>
          (\<forall>ep \<in> set (episodes_of b). \<exists>iv \<in> set (t_items ops (dc_registry c')).
             slice (fst iv) (snd iv) (dc_data c') = map Some ep))"
  using interval_tree.push_episode [OF assms] by blast

lemma new_container_ok: "0 < cap \<Longrightarrow> interval_tree ops \<Longrightarrow> container_ok ops (new_container ops cap md un)"
  using interval_tree.items_empty by (fastforce simp: container_ok_def new_container_def Let_def)

lemma list_tree_items [simp]: "t_items list_tree t = t"
  by (simp add: list_tree_def)

lemma push_stores_episodes_witness:
  "\<exists>c'. push list_tree \<lparr>b_rows = [1::nat, 2, 3, 4], b_sub = 2, b_len = Some 2\<rparr>
          (new_container list_tree 5 Circular Episode) = Inr c'
     \<and> (\<exists>iv \<in> set (dc_registry c'). slice (fst iv) (snd iv) (dc_data c') = [Some 3, Some 4])"
proof -
  let ?b = "\<lparr>b_rows = [1::nat, 2, 3, 4], b_sub = 2, b_len = Some 2\<rparr>"
  let ?c = "new_container list_tree 5 Circular Episode :: (nat, (nat \<times> nat) list) container"
  have "batch_ok ?b" by (simp add: batch_ok_def)
  moreover have ep: "[3, 4] \<in> set (episodes_of ?b)" by code_simp
  moreover have "container_ok list_tree ?c" by (simp add: new_container_ok lt.interval_tree_axioms)
  moreover have "dc_unit ?c = Episode" "dc_mode ?c = Circular" "dc_capacity ?c = 5" by (simp_all add: new_container_def)
  ultimately obtain c' where push: "push list_tree ?b ?c = Inr c'"
    and all: "length (b_rows ?b) \<le> dc_capacity ?c \<longrightarrow> (\<forall>ep \<in> set (episodes_of ?b). \<exists>iv \<in> set (t_items list_tree (dc_registry c')).
        slice (fst iv) (snd iv) (dc_data c') = map Some ep)"
    using push_stores_episodes [OF lt.interval_tree_axioms, of ?c ?b] by blast
  have "length (b_rows ?b) \<le> dc_capacity ?c" by (simp add: new_container_def)
  from bspec [OF mp [OF all this], of "[3, 4]"]
  have "\<exists>iv \<in> set (t_items list_tree (dc_registry c')). slice (fst iv) (snd iv) (dc_data c') = map Some [3, 4]"
    using ep by blast
  with push show ?thesis by (intro exI [of _ c']) (simp only: list_tree_items list.map)
qed

text \<open>Reads are safe: a read that returns, by index, slice or array, of transitions or of episodes,
  returns only rows that have been written and leaves the container in order.\<close>
theorem get_item_safe:
  assumes "container_ok ops c" "get_item ops idx c = Inr (res, c')"
  shows "None \<notin> set (result_rows res) \<and> container_ok ops c'"
  using assms get_item_transition get_item_episode by (cases "dc_unit c") blast+

lemma get_item_safe_witness:
  "\<exists>c res c'. push list_tree \<lparr>b_rows = [7::nat, 8, 9], b_sub = 1, b_len = None\<rparr>
       (new_container list_tree 4 Circular Transition) = Inr c
     \<and> get_item list_tree (IdxArray [0, -2]) c = Inr (res, c') \<and> None \<notin> set (result_rows res)"
proof -
  let ?b = "\<lparr>b_rows = [7::nat, 8, 9], b_sub = 1, b_len = None\<rparr>"
  let ?c0 = "new_container list_tree 4 Circular Transition :: (nat, (nat \<times> nat) list) container"
  define c where "c = (case push list_tree ?b ?c0 of Inr c \<Rightarrow> c | Inl _ \<Rightarrow> ?c0)"
  have push: "push list_tree ?b ?c0 = Inr c" unfolding c_def by code_simp
  have "container_ok list_tree c"
    using push_transition [of list_tree ?c0 ?b] push
    by (simp add: new_container_ok lt.interval_tree_axioms) (simp add: new_container_def)
  moreover obtain res c' where get: "get_item list_tree (IdxArray [0, -2]) c = Inr (res, c')"
  proof -
    have "map_sum id (\<lambda>_. ()) (get_item list_tree (IdxArray [0, -2]) c) = Inr ()"
      unfolding c_def by code_simp
    then show ?thesis using that by (cases "get_item list_tree (IdxArray [0, -2]) c") auto
  qed
  ultimately show ?thesis using get_item_safe [of list_tree c] push by blast
qed

text \<open>The transition ring: a batch that fits the ring is written at the positions that follow the
  pointer, wrapping at the end, in order; every other position keeps its row, and the pointer
  ends after the batch.\<close>
theorem push_writes_ring:
  assumes "container_ok ops c" "dc_unit c = Transition" "length (b_rows b) \<le> dc_capacity c" "dc_mode c = Circular"
  shows "\<exists>c'. push ops b c = Inr c' \<and> container_ok ops c'
     \<and> dc_pointer c' = ring_pos (dc_capacity c) (dc_pointer c) (length (b_rows b))
     \<and> (\<forall>i < length (b_rows b). dc_data c' ! ring_pos (dc_capacity c) (dc_pointer c) i = Some (b_rows b ! i))
     \<and> (\<forall>j < dc_capacity c. (\<forall>i < length (b_rows b). j \<noteq> ring_pos (dc_capacity c) (dc_pointer c) i) \<longrightarrow>
          dc_data c' ! j = dc_data c ! j)"
  using push_transition [OF assms(1-3)] assms(4) by blast

lemma push_writes_ring_witness:
  "\<exists>c'. push list_tree \<lparr>b_rows = [7::nat, 8], b_sub = 1, b_len = None\<rparr>
       (new_container list_tree 4 Circular Transition) = Inr c' \<and> dc_data c' ! 1 = Some 8"
proof -
  let ?b = "\<lparr>b_rows = [7::nat, 8], b_sub = 1, b_len = None\<rparr>"
  let ?c0 = "new_container list_tree 4 Circular Transition :: (nat, (nat \<times> nat) list) container"
  have "container_ok list_tree ?c0" by (simp add: new_container_ok lt.interval_tree_axioms)
  moreover have "dc_unit ?c0 = Transition" "dc_mode ?c0 = Circular" "dc_capacity ?c0 = 4" "dc_pointer ?c0 = 0"
    by (simp_all add: new_container_def)
  ultimately show ?thesis
    using push_writes_ring [of list_tree ?c0 ?b] by (fastforce simp: ring_pos_def)
qed

text \<open>When a batch of transitions wraps around a ring that had never wrapped, the size counts only
  the rows written after the wrap, although every row of the ring has been written: unless these
  fill up the ring, reading its last row raises an index error.\<close>
theorem push_wrap_undercounts:
  assumes "container_ok ops c" "dc_unit c = Transition" "dc_mode c = Circular"
    and "dc_pointer c = dc_size c" "length (b_rows b) \<le> dc_capacity c"
    and "dc_capacity c < dc_pointer c + length (b_rows b)"
    and "2 * dc_pointer c + length (b_rows b) < 2 * dc_capacity c"
  shows "\<exists>c'. push ops b c = Inr c' \<and> (\<forall>j < dc_capacity c. dc_data c' ! j \<noteq> None)
     \<and> dc_size c' < dc_capacity c
     \<and> get_item ops (IdxInt (int (dc_capacity c) - 1)) c' = Inl IndexError"
proof -
  obtain c' where c': "push ops b c = Inr c'" "container_ok ops c'" "dc_unit c' = Transition"
    "dc_size c' = min (dc_size c + (dc_pointer c + length (b_rows b) - dc_capacity c)) (dc_capacity c)"
    "dc_pointer c' = ring_pos (dc_capacity c) (dc_pointer c) (length (b_rows b))"
    using push_transition [OF assms(1,2,5)] assms(3,6) by auto
  have cap: "dc_capacity c' = dc_capacity c"
    using c'(1) by (auto simp: push_def Let_def result_simps register_at_def evict_def assms(2,3)
        write_data_def split: if_splits)
  have small: "dc_size c' < dc_capacity c" using c'(4) assms(4,6,7) by simp
  have "dc_pointer c' = dc_pointer c + length (b_rows b) - dc_capacity c"
  proof -
    have "dc_pointer c < dc_capacity c" using assms(1) by (simp add: container_ok_def Let_def)
    then show ?thesis
      using c'(5) assms(5,6) unfolding ring_pos_def by (simp add: le_mod_geq)
  qed
  moreover have "dc_size c' = dc_pointer c + (dc_pointer c + length (b_rows b) - dc_capacity c)"
    using c'(4) small assms(4) by simp
  moreover have "0 < dc_pointer c" using assms(5,6) by simp
  ultimately have "dc_pointer c' \<noteq> dc_size c'" by simp
  then have "\<forall>j < dc_capacity c. dc_data c' ! j \<noteq> None"
    using c'(2,3) cap by (auto simp: container_ok_def Let_def)
  moreover have "get_item ops (IdxInt (int (dc_capacity c) - 1)) c' = Inl IndexError"
    using c'(3) cap small by (simp add: get_item_def check_range_def in_range_def wrap_index_def)
  ultimately show ?thesis using c'(1) small by blast
qed

lemma push_wrap_undercounts_witness:
  "\<exists>c c'. push list_tree \<lparr>b_rows = [1::nat, 2], b_sub = 1, b_len = None\<rparr>
       (new_container list_tree 4 Circular Transition) = Inr c
     \<and> push_list list_tree [\<lparr>b_rows = [1::nat, 2], b_sub = 1, b_len = None\<rparr>, \<lparr>b_rows = [3, 4, 5], b_sub = 1, b_len = None\<rparr>]
         (new_container list_tree 4 Circular Transition) = Inr c'
     \<and> get_item list_tree (IdxInt 3) c' = Inl IndexError"
proof -
  let ?b = "\<lparr>b_rows = [1::nat, 2], b_sub = 1, b_len = None\<rparr>"
  let ?c0 = "new_container list_tree 4 Circular Transition :: (nat, (nat \<times> nat) list) container"
  obtain c where c: "push list_tree ?b ?c0 = Inr c" "container_ok list_tree c" "dc_unit c = Transition"
    "dc_pointer c = 2" "dc_size c = 2" "dc_mode c = Circular" "dc_capacity c = 4"
  proof -
    define c where "c = (case push list_tree ?b ?c0 of Inr c \<Rightarrow> c | Inl _ \<Rightarrow> ?c0)"
    have "push list_tree ?b ?c0 = Inr c" unfolding c_def by code_simp
    moreover have "dc_unit c = Transition \<and> dc_pointer c = 2 \<and> dc_size c = 2 \<and> dc_mode c = Circular \<and> dc_capacity c = 4"
      unfolding c_def by code_simp
    moreover have "container_ok list_tree c"
      using push_transition [of list_tree ?c0 ?b] calculation(1)
      by (simp add: new_container_ok lt.interval_tree_axioms) (simp add: new_container_def)
    ultimately show ?thesis using that by blast
  qed
  obtain c' where "push list_tree \<lparr>b_rows = [3, 4, 5], b_sub = 1, b_len = None\<rparr> c = Inr c'"
    "get_item list_tree (IdxInt 3) c' = Inl IndexError"
    using push_wrap_undercounts [of list_tree c "\<lparr>b_rows = [3, 4, 5], b_sub = 1, b_len = None\<rparr>"] c by auto
  with c(1) show ?thesis by (auto simp: push_list_def)
qed

end
