(* ===== verification/Episode_Cutting.thy ===== *)
theory Episode_Cutting
  imports Active_Episodes Container_Correct
begin

text \<open>
  What \<open>ActiveEpisodeBuffer\<close> does with the transitions given to it: the episodes it hands to the
  storage are the transitions of each environment, in order, cut after every transition that is
  done, and merging an episode loses nothing of its transitions.
\<close>

subsection \<open>One finished episode\<close>

definition finish ::
    "('v episode \<Rightarrow> 'v episode result) \<Rightarrow> 'v transition list \<Rightarrow> 'v transition batch result" where
  "finish post trs = bind_result (merge_transitions trs) (\<lambda>ep. bind_result (post ep) episode_batch)"

definition uniform :: "string list \<Rightarrow> 'v transition list \<Rightarrow> bool" where
  "uniform ks trs \<longleftrightarrow> ks \<noteq> [] \<and> distinct ks \<and> (\<forall>tr \<in> set trs. dict_keys tr = ks)"

definition column :: "string \<Rightarrow> 'v transition list \<Rightarrow> 'v list" where
  "column k trs = map (\<lambda>tr. the (map_of tr k)) trs"

lemma dict_row:
  assumes "distinct (dict_keys tr)"
  shows "map (\<lambda>k. (k, the (map_of tr k))) (dict_keys tr) = tr"
proof (rule nth_equalityI)
  fix i assume "i < length (map (\<lambda>k. (k, the (map_of tr k))) (dict_keys tr))"
  then have i: "i < length tr" by simp
  then have "map_of tr (fst (tr ! i)) = Some (snd (tr ! i))"
    using assms by (simp add: map_of_eq_Some_iff)
  with i show "map (\<lambda>k. (k, the (map_of tr k))) (dict_keys tr) ! i = tr ! i"
    by (simp add: prod_eq_iff)
qed simp

lemma merge_uniform:
  assumes "uniform ks trs" "trs \<noteq> []"
  shows "merge_transitions trs = Inr (map (\<lambda>k. (k, column k trs)) ks)"
proof -
  have get: "mapM (\<lambda>d. of_option KeyError (map_of d k)) ts = Inr (column k ts)"
    if "k \<in> set ks" "set ts \<subseteq> set trs" for k ts
    using that(2)
  proof (induction ts)
    case (Cons t ts)
    then have "k \<in> set (dict_keys t)" using that(1) assms(1) by (simp add: uniform_def)
    then obtain v where "map_of t k = Some v"
      by (metis (no_types, lifting) list.set_map map_of_eq_None_iff not_None_eq)
    with Cons show ?case by (simp add: column_def)
  qed (simp add: column_def)
  obtain first rest where trs: "trs = first # rest" using assms(2) by (cases trs) auto
  then have "dict_keys first = ks" using assms(1) by (simp add: uniform_def)
  then have "merge_transitions trs =
      mapM (\<lambda>k. bind_result (mapM (\<lambda>d. of_option KeyError (map_of d k)) trs) (\<lambda>vs. Inr (k, vs))) ks"
    by (simp add: merge_transitions_def trs)
  also have "\<dots> = mapM (\<lambda>k. Inr (k, column k trs)) ks"
    by (rule mapM_cong [OF refl]) (simp add: get)
  finally show ?thesis by simp
qed

lemma episode_length_columns:
  "ks \<noteq> [] \<Longrightarrow> episode_length (map (\<lambda>k. (k, column k trs)) ks) = Inr (length trs)"
  by (cases ks) (auto simp: episode_length_def column_def)

lemma nth_column: "t < length trs \<Longrightarrow> column k trs ! t = the (map_of (trs ! t) k)"
  by (simp add: column_def)

lemma finish_uniform:
  assumes "uniform ks trs" "trs \<noteq> []"
  shows "finish Inr trs = Inr \<lparr>b_rows = trs, b_sub = 1, b_len = None\<rparr>"
proof -
  have ks: "ks \<noteq> []" using assms(1) by (simp add: uniform_def)
  have "map (\<lambda>t. map (\<lambda>k. (k, column k trs ! t)) ks) [0..<length trs] = trs"
  proof (rule nth_equalityI)
    fix t assume "t < length (map (\<lambda>t. map (\<lambda>k. (k, column k trs ! t)) ks) [0..<length trs])"
    then have t: "t < length trs" by simp
    then have "dict_keys (trs ! t) = ks" "distinct ks"
      using assms(1) by (auto simp: uniform_def)
    with t show "map (\<lambda>t. map (\<lambda>k. (k, column k trs ! t)) ks) [0..<length trs] ! t = trs ! t"
      using dict_row [of "trs ! t"] by (simp add: nth_column)
  qed simp
  moreover have "list_all (\<lambda>(k, vs). length vs = length trs) (map (\<lambda>k. (k, column k trs)) ks)"
    by (simp add: list_all_iff column_def)
  ultimately show ?thesis
    by (simp add: finish_def merge_uniform [OF assms] episode_batch_def episode_length_columns [OF ks] o_def)
qed

subsection \<open>Cutting at done transitions\<close>

fun cut_at_done :: "('t \<Rightarrow> bool) \<Rightarrow> 't list \<Rightarrow> 't list \<Rightarrow> 't list list \<times> 't list" where
  "cut_at_done is_done cur [] = ([], cur)"
| "cut_at_done is_done cur (t # ts) =
     (if is_done t then (let (eps, rest) = cut_at_done is_done [] ts in ((cur @ [t]) # eps, rest))
      else cut_at_done is_done (cur @ [t]) ts)"

text \<open>The calls of \<open>Storage.add_transition\<close> on the buffer of active episodes, for a run of transitions.\<close>

fun add_all ::
    "'v tensor_ops \<Rightarrow> ('v episode \<Rightarrow> 'v episode result) \<Rightarrow> (string \<times> 'v transition) list \<Rightarrow> 'v active_episodes
       \<Rightarrow> ((string \<times> 'v transition batch) list \<times> 'v active_episodes) result" where
  "add_all ops post [] s = Inr ([], s)"
| "add_all ops post ((e, tr) # es) s =
     bind_result (add_active ops e tr s) (\<lambda>s1.
     bind_result (pop_done_episode ops post (Some e) s1) (\<lambda>(bs, s2).
     bind_result (add_all ops post es s2) (\<lambda>(out, s3).
     Inr (map (Pair e) bs @ out, s3))))"

definition of_env :: "string \<Rightarrow> (string \<times> 'b) list \<Rightarrow> 'b list" where
  "of_env e xs = map snd (filter (\<lambda>p. fst p = e) xs)"

lemma of_env_simps [simp]:
  "of_env e [] = []" "of_env e (xs @ ys) = of_env e xs @ of_env e ys"
  "of_env e ((e', x) # xs) = (if e' = e then x # of_env e xs else of_env e xs)"
  "of_env e (map (Pair e') bs) = (if e' = e then bs else [])"
  by (auto simp: of_env_def o_def)

definition quiet :: "(string, bool) dict \<Rightarrow> bool" where
  "quiet flags \<longleftrightarrow> (\<forall>e. map_of flags e \<noteq> Some True)"

lemma take_done_quiet:
  assumes "quiet flags" shows "fst (take_done eids flags) = [] \<and> quiet (snd (take_done eids flags))"
proof -
  have step: "fst (take_flag e p) = fst p \<and> quiet (snd (take_flag e p))" if "quiet (snd p)" for e p
    using that by (cases p) (auto simp: quiet_def map_add_def split: option.splits bool.splits)
  have "fst (fold take_flag eids p) = fst p \<and> quiet (snd (fold take_flag eids p))" if "quiet (snd p)" for p
    using that by (induction eids arbitrary: p) (auto simp: step)
  with assms show ?thesis by (simp add: take_done_def)
qed

definition single_envs :: "'v active_episodes \<Rightarrow> string set \<Rightarrow> bool" where
  "single_envs s es \<longleftrightarrow> (\<forall>e \<in> es. \<exists>n \<le> 1. get_num_envs s e = Inr n)"

lemma get_num_envs_meta: "ae_meta s' = ae_meta s \<Longrightarrow> get_num_envs s' e = get_num_envs s e"
  by (simp add: get_num_envs_def)

lemma pop_single:
  assumes "get_num_envs s e = Inr n" "n \<le> 1" "dict_get [] (ae_buffer s) e = trs" "trs \<noteq> []" "finish post trs = Inr b"
  shows "pop_active ops post e s = Inr ([b], s\<lparr>ae_buffer := AList.delete e (ae_buffer s)\<rparr>)"
proof -
  have "map_of (ae_buffer s) e = Some trs"
    using assms(3,4) by (auto simp: dict_get_def split: option.splits)
  moreover from assms(5) obtain ep ep' where "merge_transitions trs = Inr ep" "post ep = Inr ep'" "episode_batch ep' = Inr b"
    by (auto simp: finish_def result_simps)
  ultimately show ?thesis
    using assms(1,2) by (simp add: pop_active_def pop_merge_def dict_pop_def)
qed

lemma dict_get_delete [simp]: "dict_get x (AList.delete k d) k' = (if k' = k then x else dict_get x d k')"
  by (simp add: dict_get_def delete_conv')

text \<open>One transition of a single environment.\<close>

lemma add_step:
  assumes num: "get_num_envs s e = Inr n" "n \<le> 1" and auto: "ae_auto s" and q: "quiet (ae_done s)"
    and fin: "judge_done ops tr \<Longrightarrow> finish post (dict_get [] (ae_buffer s) e @ [tr]) = Inr b"
  shows "\<exists>s1 s2. add_active ops e tr s = Inr s1
     \<and> pop_done_episode ops post (Some e) s1 = Inr (if judge_done ops tr then [b] else [], s2)
     \<and> ae_meta s2 = ae_meta s \<and> ae_auto s2 \<and> quiet (ae_done s2)
     \<and> (\<forall>e'. dict_get [] (ae_buffer s2) e' =
          (if e' \<noteq> e then dict_get [] (ae_buffer s) e'
           else if judge_done ops tr then [] else dict_get [] (ae_buffer s) e @ [tr]))"
proof (cases "judge_done ops tr")
  case True
  define s1 where "s1 = append_done ops e tr s"
  have add: "add_active ops e tr s = Inr s1" using num auto by (simp add: add_active_def s1_def)
  have s1: "ae_meta s1 = ae_meta s" "ae_auto s1" "ae_done s1 = AList.update e True (ae_done s)"
      "ae_buffer s1 = dict_append e tr (ae_buffer s)"
    using True auto by (auto simp: s1_def append_done_def)
  define s2 where "s2 = s1\<lparr>ae_done := AList.delete e (ae_done s1)\<rparr>"
  have num2: "get_num_envs s2 e = Inr n" using num(1) s1(1) by (simp add: get_num_envs_def s2_def)
  have "pop_active ops post e s2 = Inr ([b], s2\<lparr>ae_buffer := AList.delete e (ae_buffer s2)\<rparr>)"
    by (rule pop_single [OF num2 num(2) refl]) (use fin True in \<open>simp_all add: s2_def s1\<close>)
  then have "pop_done_episode ops post (Some e) s1 = Inr ([b], s2\<lparr>ae_buffer := AList.delete e (ae_buffer s2)\<rparr>)"
    by (simp add: pop_done_episode_def done_env_ids_def s1 s2_def)
  moreover have "quiet (AList.delete e (ae_done s1))"
    using q by (auto simp: quiet_def s1 delete_conv')
  ultimately show ?thesis
    using add True s1 by (intro exI [of _ s1] exI [of _ "s2\<lparr>ae_buffer := AList.delete e (ae_buffer s2)\<rparr>"])
      (simp add: s2_def)
next
  case False
  define s1 where "s1 = append_done ops e tr s"
  have add: "add_active ops e tr s = Inr s1" using num auto by (simp add: add_active_def s1_def)
  have s1: "ae_meta s1 = ae_meta s" "ae_auto s1" "ae_done s1 = ae_done s"
      "ae_buffer s1 = dict_append e tr (ae_buffer s)"
    using False auto by (auto simp: s1_def append_done_def)
  obtain flags where "done_env_ids (Some e) s1 = ([], flags)" "quiet flags"
  proof -
    have "\<not> dict_get False (ae_done s) e"
      using q by (auto simp: quiet_def dict_get_def split: option.splits)
    then show thesis
      using that take_done_quiet [OF q] by (simp add: done_env_ids_def s1) (metis prod.collapse)
  qed
  then have "pop_done_episode ops post (Some e) s1 = Inr ([], s1\<lparr>ae_done := flags\<rparr>)" "quiet flags"
    by (simp_all add: pop_done_episode_def)
  with add False s1 show ?thesis by (intro exI [of _ s1] exI [of _ "s1\<lparr>ae_done := flags\<rparr>"]) simp
qed

lemma add_all_cuts:
  assumes "single_envs s (fst ` set es)" "ae_auto s" "quiet (ae_done s)"
    and "\<forall>e trs. trs \<noteq> [] \<longrightarrow> set trs \<subseteq> set (dict_get [] (ae_buffer s) e) \<union> set (of_env e es) \<longrightarrow> (\<exists>b. finish post trs = Inr b)"
  shows "\<exists>out s'. add_all ops post es s = Inr (out, s') \<and>
     (\<forall>e. list_all2 (\<lambda>trs b. finish post trs = Inr b)
             (fst (cut_at_done (judge_done ops) (dict_get [] (ae_buffer s) e) (of_env e es))) (of_env e out)
        \<and> dict_get [] (ae_buffer s') e = snd (cut_at_done (judge_done ops) (dict_get [] (ae_buffer s) e) (of_env e es)))"
  using assms
proof (induction es arbitrary: s)
  case Nil
  then show ?case by simp
next
  case (Cons p es)
  obtain e tr where p: "p = (e, tr)" by (cases p)
  obtain n where num: "get_num_envs s e = Inr n" "n \<le> 1"
    using Cons.prems(1) by (auto simp: single_envs_def p)
  have "\<exists>b. finish post (dict_get [] (ae_buffer s) e @ [tr]) = Inr b"
    using Cons.prems(4) [rule_format, of "dict_get [] (ae_buffer s) e @ [tr]" e] by (auto simp: p)
  then obtain b where b: "finish post (dict_get [] (ae_buffer s) e @ [tr]) = Inr b" by blast
  obtain s1 s2 where step: "add_active ops e tr s = Inr s1"
      "pop_done_episode ops post (Some e) s1 = Inr (if judge_done ops tr then [b] else [], s2)"
      "ae_meta s2 = ae_meta s" "ae_auto s2" "quiet (ae_done s2)"
      "\<And>e'. dict_get [] (ae_buffer s2) e' =
          (if e' \<noteq> e then dict_get [] (ae_buffer s) e'
           else if judge_done ops tr then [] else dict_get [] (ae_buffer s) e @ [tr])"
    using add_step [OF num Cons.prems(2,3), of ops tr post b] b by blast
  have sub: "set (dict_get [] (ae_buffer s2) e') \<union> set (of_env e' es)
      \<subseteq> set (dict_get [] (ae_buffer s) e') \<union> set (of_env e' (p # es))" for e'
    using step(6) [of e'] by (auto simp: p split: if_splits)
  have single: "single_envs s2 (fst ` set es)"
    using Cons.prems(1) by (simp add: single_envs_def get_num_envs_meta [OF step(3)])
  have fin: "\<forall>e trs. trs \<noteq> [] \<longrightarrow> set trs \<subseteq> set (dict_get [] (ae_buffer s2) e) \<union> set (of_env e es)
      \<longrightarrow> (\<exists>b. finish post trs = Inr b)"
  proof (intro allI impI)
    fix e' trs assume "trs \<noteq> []" "set trs \<subseteq> set (dict_get [] (ae_buffer s2) e') \<union> set (of_env e' es)"
    with sub [of e'] Cons.prems(4) [rule_format, of trs e'] show "\<exists>b. finish post trs = Inr b" by blast
  qed
  obtain out s' where rec: "add_all ops post es s2 = Inr (out, s')"
    and res: "\<And>e'. list_all2 (\<lambda>trs b. finish post trs = Inr b)
             (fst (cut_at_done (judge_done ops) (dict_get [] (ae_buffer s2) e') (of_env e' es))) (of_env e' out)
        \<and> dict_get [] (ae_buffer s') e' = snd (cut_at_done (judge_done ops) (dict_get [] (ae_buffer s2) e') (of_env e' es))"
    using Cons.IH [OF single step(4,5) fin] by blast
  have "add_all ops post (p # es) s = Inr (map (Pair e) (if judge_done ops tr then [b] else []) @ out, s')"
    using step(1,2) rec by (simp add: p)
  moreover have "list_all2 (\<lambda>trs b. finish post trs = Inr b)
             (fst (cut_at_done (judge_done ops) (dict_get [] (ae_buffer s) e') (of_env e' (p # es))))
             (of_env e' (map (Pair e) (if judge_done ops tr then [b] else []) @ out))
        \<and> dict_get [] (ae_buffer s') e' = snd (cut_at_done (judge_done ops) (dict_get [] (ae_buffer s) e') (of_env e' (p # es)))" for e'
    using res [of e'] b by (cases "e' = e"; cases "judge_done ops tr") (simp_all add: p step(6) case_prod_unfold Let_def)
  ultimately show ?case by blast
qed

lemma new_active_episodes_simps [simp]:
  "ae_buffer (new_active_episodes m auto) = []" "ae_done (new_active_episodes m auto) = []"
  "ae_auto (new_active_episodes m auto) = auto"
  by (simp_all add: new_active_episodes_def)

text \<open>C6: automatic truncation: for any interleaving of the transitions of environments that are not
  vectorised, the episodes handed over for an environment are its transitions in order, cut after
  each one that is done, each merged and post-processed, provided that post-processing does not fail; the transitions after the last cut stay
  buffered. Nothing is lost, duplicated or mixed between environments.\<close>
theorem auto_truncation_cuts:
  fixes es :: "(string \<times> 'v transition) list"
  assumes "\<forall>e \<in> fst ` set es. \<exists>n \<le> 1. get_num_envs (new_active_episodes meta_list True :: 'v active_episodes) e = Inr n"
    and "\<forall>e trs. trs \<noteq> [] \<longrightarrow> set trs \<subseteq> set (of_env e es) \<longrightarrow> (\<exists>b. finish post trs = Inr b)"
  shows "\<exists>out s'. add_all ops post es (new_active_episodes meta_list True) = Inr (out, s') \<and>
     (\<forall>e. list_all2 (\<lambda>trs b. finish post trs = Inr b)
             (fst (cut_at_done (judge_done ops) [] (of_env e es))) (of_env e out)
        \<and> dict_get [] (ae_buffer s') e = snd (cut_at_done (judge_done ops) [] (of_env e es)))"
  using add_all_cuts [of "new_active_episodes meta_list True" es post ops] assms
  by (simp add: single_envs_def quiet_def)

definition nat_tensors :: "nat list tensor_ops" where
  "nat_tensors = \<lparr>v_len = length, v_row = (\<lambda>i v. [v ! i]), v_truthy = (\<lambda>v. v ! 0 \<noteq> 0)\<rparr>"

lemma auto_truncation_cuts_witness:
  "\<exists>out s'. add_all nat_tensors Inr
       [(''a-0'', [(''observation'', [1]), (''last_terminated'', [0])]),
        (''b-1'', [(''observation'', [5]), (''last_terminated'', [0])]),
        (''a-0'', [(''observation'', [2]), (''last_terminated'', [1])]),
        (''a-0'', [(''observation'', [3]), (''last_terminated'', [0])])]
       (new_active_episodes None True) = Inr (out, s')
     \<and> length (of_env ''a-0'' out) = 1
     \<and> dict_get [] (ae_buffer s') ''a-0'' = [[(''observation'', [3]), (''last_terminated'', [0])]]"
proof -
  define es where "es =
       [(''a-0'', [(''observation'', [1::nat]), (''last_terminated'', [0])]),
        (''b-1'', [(''observation'', [5]), (''last_terminated'', [0])]),
        (''a-0'', [(''observation'', [2]), (''last_terminated'', [1])]),
        (''a-0'', [(''observation'', [3]), (''last_terminated'', [0])])]"
  have keys: "dict_keys tr = [''observation'', ''last_terminated'']" if "tr \<in> snd ` set es" for tr
    using that by (auto simp: es_def)
  have "\<exists>b. finish Inr trs = Inr b" if "trs \<noteq> []" "set trs \<subseteq> set (of_env e es)" for e trs
  proof -
    have "uniform [''observation'', ''last_terminated''] trs"
      unfolding uniform_def using that(2) keys by (fastforce simp: of_env_def)
    with that(1) show ?thesis by (simp add: finish_uniform)
  qed
  then obtain out s' where "add_all nat_tensors Inr es (new_active_episodes None True) = Inr (out, s')"
    "list_all2 (\<lambda>trs b. finish Inr trs = Inr b) (fst (cut_at_done (judge_done nat_tensors) [] (of_env ''a-0'' es))) (of_env ''a-0'' out)"
    "dict_get [] (ae_buffer s') ''a-0'' = snd (cut_at_done (judge_done nat_tensors) [] (of_env ''a-0'' es))"
    using auto_truncation_cuts [of es None Inr nat_tensors] by (auto simp: get_num_envs_def new_active_episodes_def)
  moreover have "cut_at_done (judge_done nat_tensors) [] (of_env ''a-0'' es) =
      ([[[(''observation'', [1]), (''last_terminated'', [0])], [(''observation'', [2]), (''last_terminated'', [1])]]],
       [[(''observation'', [3]), (''last_terminated'', [0])]])"
    unfolding es_def by code_simp
  ultimately show ?thesis
    unfolding es_def using list_all2_lengthD by fastforce
qed

subsection \<open>Episodes of a vectorised environment\<close>

lemma nth_concat_equal_lengths:
  assumes "\<And>ys. ys \<in> set xss \<Longrightarrow> length ys = n" "i < length xss" "t < n"
  shows "concat xss ! (i * n + t) = xss ! i ! t"
  using assms
proof (induction xss arbitrary: i)
  case (Cons xs xss)
  then show ?case
    by (cases i) (auto simp: nth_append)
qed simp

lemma foldM_add_plain:
  assumes "\<not> ae_auto s" "get_num_envs s e = Inr n"
  shows "\<exists>s'. foldM (\<lambda>s tr. add_active ops e tr s) s trs = Inr s' \<and> \<not> ae_auto s' \<and> get_num_envs s' e = Inr n
     \<and> dict_get [] (ae_buffer s') e = dict_get [] (ae_buffer s) e @ trs"
  using assms
proof (induction trs arbitrary: s)
  case (Cons tr trs)
  define s1 where "s1 = s\<lparr>ae_buffer := dict_append e tr (ae_buffer s)\<rparr>"
  have "add_active ops e tr s = Inr s1" using Cons.prems by (simp add: add_active_def s1_def)
  moreover have "\<not> ae_auto s1" "get_num_envs s1 e = Inr n"
      "dict_get [] (ae_buffer s1) e = dict_get [] (ae_buffer s) e @ [tr]"
    using Cons.prems by (simp_all add: s1_def get_num_envs_def)
  ultimately show ?case using Cons.IH [of s1] by auto
qed simp

text \<open>An episode of a vectorised environment that is truncated by hand becomes one batch that
  holds the episodes of the sub-environments one after another: the row at \<open>i * length + t\<close> is what
  sub-environment \<open>i\<close> did at step \<open>t\<close>, and the metadata names the number and length of the episodes.\<close>
theorem vector_episode_rows:
  assumes "uniform ks trs" "trs \<noteq> []" "1 < n" "\<forall>tr \<in> set trs. \<forall>(k, v) \<in> set tr. v_len ops v = n"
  shows "\<exists>s b s'. foldM (\<lambda>s tr. add_active ops e tr s) (new_active_episodes (Some [(e, n)]) False) trs = Inr s
     \<and> pop_active ops Inr e s = Inr ([b], s') \<and> dict_get [] (ae_buffer s') e = []
     \<and> b_sub b = n \<and> b_len b = Some (length trs) \<and> batch_ok b
     \<and> (\<forall>i < n. \<forall>t < length trs. b_rows b ! (i * length trs + t) = map (\<lambda>(k, v). (k, v_row ops i v)) (trs ! t))"
proof -
  define s0 :: "'a active_episodes" where "s0 = new_active_episodes (Some [(e, n)]) False"
  have s0: "\<not> ae_auto s0" "get_num_envs s0 e = Inr n" "dict_get [] (ae_buffer s0) e = []"
    by (simp_all add: s0_def new_active_episodes_def get_num_envs_def)
  obtain s where add: "foldM (\<lambda>s tr. add_active ops e tr s) s0 trs = Inr s"
    and s: "\<not> ae_auto s" "get_num_envs s e = Inr n" "dict_get [] (ae_buffer s) e = trs"
    using foldM_add_plain [OF s0(1,2), of ops trs] s0(3) by auto
  define ep where "ep = map (\<lambda>k. (k, column k trs)) ks"
  have ks: "ks \<noteq> []" "distinct ks" "\<And>t. t < length trs \<Longrightarrow> dict_keys (trs ! t) = ks"
    using assms(1) by (auto simp: uniform_def)
  have value_len: "v_len ops (the (map_of tr k)) = n" if tr: "tr \<in> set trs" and k: "k \<in> set ks" for tr k
  proof -
    have "k \<in> set (dict_keys tr)" using tr k assms(1) by (simp add: uniform_def)
    then obtain v where "map_of tr k = Some v" by (metis list.set_map map_of_eq_None_iff not_None_eq)
    with assms(4) tr show ?thesis by (auto dest: map_of_SomeD)
  qed
  have lens: "list_all (\<lambda>(k, vs). length vs = length trs \<and> list_all (\<lambda>v. v_len ops v = n) vs) ep"
    using value_len by (auto simp: ep_def list_all_iff column_def)
  define b where "b = \<lparr>b_rows = concat (map (\<lambda>i. map (\<lambda>t. map (\<lambda>(k, vs). (k, v_row ops i (vs ! t))) ep) [0..<length trs]) [0..<n]),
          b_sub = n, b_len = Some (length trs)\<rparr>"
  have "combined_batch ops n ep = Inr b"
    unfolding combined_batch_def b_def using lens episode_length_columns [OF ks(1), of trs]
    by (simp add: ep_def)
  moreover have "map_of (ae_buffer s) e = Some trs"
    using s(3) assms(2) by (auto simp: dict_get_def split: option.splits)
  ultimately have pop: "pop_active ops Inr e s = Inr ([b], s\<lparr>ae_buffer := AList.delete e (ae_buffer s)\<rparr>)"
    using s(1,2) assms(3) merge_uniform [OF assms(1,2)]
    by (simp add: pop_active_def pop_merge_def dict_pop_def ep_def)
  have rows: "b_rows b ! (i * length trs + t) = map (\<lambda>(k, v). (k, v_row ops i v)) (trs ! t)"
    if i: "i < n" and t: "t < length trs" for i t
  proof -
    have "b_rows b ! (i * length trs + t) = map (\<lambda>(k, vs). (k, v_row ops i (vs ! t))) ep"
      unfolding b_def using i t by (subst batch.simps, subst nth_concat_equal_lengths) auto
    also have "\<dots> = map (\<lambda>(k, v). (k, v_row ops i v)) (map (\<lambda>k. (k, the (map_of (trs ! t) k))) ks)"
      using t by (simp add: ep_def nth_column)
    also have "map (\<lambda>k. (k, the (map_of (trs ! t) k))) ks = trs ! t"
      using dict_row [of "trs ! t"] ks(2) ks(3) [OF t] by simp
    finally show ?thesis .
  qed
  have "batch_ok b"
    using assms(2,3) by (auto simp: batch_ok_def b_def length_concat o_def sum_list_triv intro: exI [of _ 0])
  with add pop rows show ?thesis
    unfolding s0_def by (intro exI [of _ s] exI [of _ b] exI) (auto simp: b_def)
qed

lemma vector_episode_rows_witness:
  "\<exists>s b s'. foldM (\<lambda>s tr. add_active nat_tensors ''e'' tr s) (new_active_episodes (Some [(''e'', 2)]) False)
        [[(''observation'', [1, 5])], [(''observation'', [2, 6])], [(''observation'', [3, 7])]] = Inr s
     \<and> pop_active nat_tensors Inr ''e'' s = Inr ([b], s') \<and> b_rows b ! (1 * 3 + 2) = [(''observation'', [7])]"
proof -
  define trs where "trs = [[(''observation'', [1::nat, 5])], [(''observation'', [2, 6])], [(''observation'', [3, 7])]]"
  have "uniform [''observation''] trs" "trs \<noteq> []" "\<forall>tr \<in> set trs. \<forall>(k, v) \<in> set tr. v_len nat_tensors v = 2"
    by (auto simp: uniform_def trs_def nat_tensors_def)
  from vector_episode_rows [OF this(1,2) _ this(3), of "''e''"] obtain s b s' where
    "foldM (\<lambda>s tr. add_active nat_tensors ''e'' tr s) (new_active_episodes (Some [(''e'', 2)]) False) trs = Inr s"
    "pop_active nat_tensors Inr ''e'' s = Inr ([b], s')"
    "\<And>i t. i < 2 \<Longrightarrow> t < length trs \<Longrightarrow>
        b_rows b ! (i * length trs + t) = map (\<lambda>(k, v). (k, v_row nat_tensors i v)) (trs ! t)"
    by auto
  moreover from this(3) [of 1 2] have "b_rows b ! (1 * 3 + 2) = [(''observation'', [7])]"
    by (simp add: trs_def nat_tensors_def numeral_eq_Suc)
  ultimately show ?thesis unfolding trs_def by blast
qed

end
