(* ===== verification/Storage_Node.thy ===== *)
theory Storage_Node
  imports Rollout_Types Container_Reads Episode_Cutting
begin

text \<open>
  \<open>Storage\<close> of \<open>rlightning/buffer/utils/storage.py\<close>: the transition being filled for every
  environment, the episodes still running (\<open>Active_Episodes\<close>) and the ring of stored rows
  (\<open>Data_Container\<close>), with the processing functions its owner passes in. The dictionary of a
  transition is a value here; the code keeps one object in both places, which differs only when a
  second response of an environment arrives with no environment return in between, and the engines
  alternate the two.
\<close>

record 'v processing =
  p_obs :: "'v \<Rightarrow> 'v"
  p_reward :: "'v \<Rightarrow> 'v"
  p_env_ret :: "'v env_ret_pre"
  p_policy_resp :: "'v policy_resp_pre"
  p_preprocess :: "'v preprocess"
  p_postprocess :: "'v episode \<Rightarrow> 'v episode result"

definition default_processing :: "'v processing" where
  "default_processing =
     \<lparr>p_obs = (\<lambda>x. x), p_reward = (\<lambda>x. x), p_env_ret = default_env_ret_preprocess_fn,
      p_policy_resp = default_policy_resp_preprocess_fn, p_preprocess = default_preprocess_fn,
      p_postprocess = default_postprocess_fn\<rparr>"

record ('v, 't) storage =
  st_transitions :: "(string, 'v transition) dict"
  st_episodes :: "'v active_episodes"
  st_container :: "('v transition, 't) container"
  st_processing :: "'v processing"

definition new_storage ::
    "'t tree_ops \<Rightarrow> nat \<Rightarrow> storage_mode \<Rightarrow> storage_unit \<Rightarrow> (string \<times> nat) list option \<Rightarrow> 'v processing \<Rightarrow> bool
       \<Rightarrow> ('v, 't) storage" where
  "new_storage tops cap md un env_meta pr auto =
     \<lparr>st_transitions = [], st_episodes = new_active_episodes env_meta auto,
      st_container = new_container tops cap md un, st_processing = pr\<rparr>"

definition storage_size :: "'t tree_ops \<Rightarrow> ('v, 't) storage \<Rightarrow> nat" where
  "storage_size tops s = container_len tops (st_container s)"

definition storage_get ::
    "'t tree_ops \<Rightarrow> index \<Rightarrow> ('v, 't) storage \<Rightarrow> ('v transition read_result \<times> ('v, 't) storage) result" where
  "storage_get tops idx s =
     bind_result (get_item tops idx (st_container s)) (\<lambda>(res, c). Inr (res, s\<lparr>st_container := c\<rparr>))"

definition get_data ::
    "'t tree_ops \<Rightarrow> ('v, 't) storage \<Rightarrow> ('v transition read_result \<times> ('v, 't) storage) result" where
  "get_data tops s = storage_get tops (IdxSlice None (Some (int (storage_size tops s)))) s"

definition clear_storage :: "'t tree_ops \<Rightarrow> ('v, 't) storage \<Rightarrow> ('v, 't) storage" where
  "clear_storage tops s = s\<lparr>st_container := clear_container tops (st_container s)\<rparr>"

subsection \<open>Adding\<close>

definition run_preprocess ::
    "'v transition \<Rightarrow> 'v env_ret option \<Rightarrow> 'v policy_resp option \<Rightarrow> 'v processing \<Rightarrow> 'v transition result" where
  "run_preprocess tr er pr p = p_preprocess p tr er pr (p_obs p) (p_reward p) (p_env_ret p) (p_policy_resp p)"

text \<open>\<open>if self.auto_truncate_episode: ... self._data.push(done_episodes)\<close>\<close>

definition store_done ::
    "'v tensor_ops \<Rightarrow> 't tree_ops \<Rightarrow> string \<Rightarrow> ('v, 't) storage \<Rightarrow> ('v, 't) storage result" where
  "store_done vops tops env_id s =
     (if ae_auto (st_episodes s)
      then bind_result (pop_done_episode vops (p_postprocess (st_processing s)) (Some env_id) (st_episodes s))
             (\<lambda>(bs, eps).
               if bs = [] then Inr (s\<lparr>st_episodes := eps\<rparr>)
               else bind_result (push_list tops bs (st_container s)) (\<lambda>c.
                      Inr (s\<lparr>st_episodes := eps, st_container := c\<rparr>)))
      else Inr s)"

definition storage_add_transition ::
    "'v tensor_ops \<Rightarrow> 't tree_ops \<Rightarrow> 'v env_ret \<Rightarrow> 'v policy_resp \<Rightarrow> ('v, 't) storage \<Rightarrow> ('v, 't) storage result" where
  "storage_add_transition vops tops er pr s =
     bind_result (guard ValueError (er_env_id er = pr_env_id pr)) (\<lambda>_.
     bind_result (run_preprocess [] (Some er) (Some pr) (st_processing s)) (\<lambda>tr.
     bind_result (add_active vops (er_env_id er) tr (st_episodes s)) (\<lambda>eps.
     store_done vops tops (er_env_id er)
       (s\<lparr>st_transitions := AList.update (er_env_id er) tr (st_transitions s), st_episodes := eps\<rparr>))))"

datatype 'v item = EnvItem "'v env_ret" | PolicyItem "'v policy_resp"

definition storage_add_async ::
    "'v tensor_ops \<Rightarrow> 't tree_ops \<Rightarrow> 'v item \<Rightarrow> ('v, 't) storage \<Rightarrow> ('v, 't) storage result" where
  "storage_add_async vops tops it s =
     (case it of
        EnvItem er \<Rightarrow>
          bind_result (run_preprocess [] (Some er) None (st_processing s)) (\<lambda>tr.
          store_done vops tops (er_env_id er)
            (s\<lparr>st_transitions := AList.update (er_env_id er) tr (st_transitions s)\<rparr>))
      | PolicyItem pr \<Rightarrow>
          bind_result (run_preprocess (dict_get [] (st_transitions s) (pr_env_id pr)) None (Some pr) (st_processing s)) (\<lambda>tr.
          bind_result (add_active vops (pr_env_id pr) tr (st_episodes s)) (\<lambda>eps.
          store_done vops tops (pr_env_id pr)
            (s\<lparr>st_transitions := AList.update (pr_env_id pr) tr (st_transitions s), st_episodes := eps\<rparr>))))"

text \<open>
  A complete episode: of one environment as it is, of \<open>num_envs\<close> environments split by environment
  (\<open>TensorDict(episode, batch_size=[length, num_envs]).unbind(1)\<close>).
\<close>

definition unbind_envs :: "'v tensor_ops \<Rightarrow> nat \<Rightarrow> 'v episode \<Rightarrow> 'v episode list result" where
  "unbind_envs vops num_envs ep =
     bind_result (episode_length ep) (\<lambda>n.
     bind_result (guard RuntimeError
        (list_all (\<lambda>(k, vs). length vs = n \<and> list_all (\<lambda>v. v_len vops v = num_envs) vs) ep)) (\<lambda>_.
     Inr (map (\<lambda>i. map (\<lambda>(k, vs). (k, map (v_row vops i) vs)) ep) [0..<num_envs])))"

definition storage_add_episode ::
    "'v tensor_ops \<Rightarrow> 't tree_ops \<Rightarrow> 'v episode \<Rightarrow> nat \<Rightarrow> ('v, 't) storage \<Rightarrow> ('v, 't) storage result" where
  "storage_add_episode vops tops ep num_envs s =
     bind_result (if num_envs > 1 then unbind_envs vops num_envs ep else Inr [ep]) (\<lambda>eps.
     bind_result (mapM episode_batch eps) (\<lambda>bs.
     bind_result (push_list tops bs (st_container s)) (\<lambda>c. Inr (s\<lparr>st_container := c\<rparr>))))"

definition storage_truncate ::
    "'v tensor_ops \<Rightarrow> 't tree_ops \<Rightarrow> string \<Rightarrow> ('v, 't) storage \<Rightarrow> ('v, 't) storage result" where
  "storage_truncate vops tops env_id s =
     bind_result (pop_active vops (p_postprocess (st_processing s)) env_id (st_episodes s)) (\<lambda>(bs, eps).
     bind_result (push_list tops bs (st_container s)) (\<lambda>c.
     Inr (s\<lparr>st_episodes := eps, st_container := c\<rparr>)))"

definition storage_truncate_episodes ::
    "'v tensor_ops \<Rightarrow> 't tree_ops \<Rightarrow> string list \<Rightarrow> ('v, 't) storage \<Rightarrow> ('v, 't) storage result" where
  "storage_truncate_episodes vops tops env_ids s = foldM (\<lambda>s e. storage_truncate vops tops e s) s env_ids"

end
