(* ===== verification/Sampling.thy ===== *)
theory Sampling
  imports Config "HOL-Library.Multiset"
begin

text \<open>
  The samplers of \<open>rlightning/buffer/sampler.py\<close> and the division of the sampled indices of a shard
  among the train workers bound to it (\<open>DataBuffer.sample\<close>). NumPy's random generator is not part of
  the repository: its two operations are the record \<open>rng_ops\<close> over a state \<open>'s\<close>, and the locale
  \<open>np_random\<close> states what they are documented to return.
\<close>

record 's rng_ops =
  r_choice :: "nat \<Rightarrow> nat \<Rightarrow> bool \<Rightarrow> 's \<Rightarrow> nat list \<times> 's"
  r_shuffle :: "nat list \<Rightarrow> 's \<Rightarrow> nat list \<times> 's"

locale np_random =
  fixes ops :: "'s rng_ops"
  assumes choice: "0 < n \<or> k = 0 \<Longrightarrow> r_choice ops n k True s = (xs, s') \<Longrightarrow> length xs = k \<and> set xs \<subseteq> {..<n}"
    and choice_distinct: "k \<le> n \<Longrightarrow> r_choice ops n k False s = (xs, s') \<Longrightarrow>
                            length xs = k \<and> set xs \<subseteq> {..<n} \<and> distinct xs"
    and shuffle: "r_shuffle ops is s = (js, s') \<Longrightarrow> mset js = mset is"

text \<open>A generator that draws the first indices in order.\<close>

definition first_rng :: "nat rng_ops" where
  "first_rng = \<lparr>r_choice = (\<lambda>n k replace s. (if replace then map (\<lambda>i. i mod n) [0..<k] else [0..<k], Suc s)),
                r_shuffle = (\<lambda>is s. (rotate s is, Suc s))\<rparr>"

interpretation first: np_random first_rng
proof
  show "0 < n \<or> k = 0 \<Longrightarrow> r_choice first_rng n k True s = (xs, s') \<Longrightarrow> length xs = k \<and> set xs \<subseteq> {..<n}" for n k s xs s'
    by (auto simp: first_rng_def)
  show "k \<le> n \<Longrightarrow> r_choice first_rng n k False s = (xs, s') \<Longrightarrow> length xs = k \<and> set xs \<subseteq> {..<n} \<and> distinct xs" for n k s xs s'
    by (auto simp: first_rng_def)
  show "r_shuffle first_rng is s = (js, s') \<Longrightarrow> mset js = mset is" for "is" s js s'
  proof -
    assume "r_shuffle first_rng is s = (js, s')"
    then have "js = rotate s is" by (simp add: first_rng_def)
    then show "mset js = mset is"
      by (metis append_take_drop_id mset_append rotate_drop_take union_commute)
  qed
qed

subsection \<open>The samplers\<close>

text \<open>
  \<open>np.random.choice(n, None)\<close> is a single index, whose length the caller takes: \<open>TypeError\<close>. A
  negative size and a draw from nothing raise \<open>ValueError\<close>.
\<close>

definition uniform_sample :: "'s rng_ops \<Rightarrow> int option \<Rightarrow> nat \<Rightarrow> 's \<Rightarrow> (nat list \<times> 's) result" where
  "uniform_sample ops bs n s =
     (case bs of
        None \<Rightarrow> Inl TypeError
      | Some k \<Rightarrow> if k < 0 \<or> k > 0 \<and> n = 0 then Inl ValueError else Inr (r_choice ops n (nat k) True s))"

definition all_sample :: "'s rng_ops \<Rightarrow> nat \<Rightarrow> bool \<Rightarrow> 's \<Rightarrow> (nat list \<times> 's) result" where
  "all_sample ops n shuffle s = Inr (if shuffle then r_shuffle ops [0..<n] s else ([0..<n], s))"

definition batch_sample :: "'s rng_ops \<Rightarrow> int option \<Rightarrow> nat \<Rightarrow> 's \<Rightarrow> (nat list \<times> 's) result" where
  "batch_sample ops bs n s =
     (case bs of
        None \<Rightarrow> Inl TypeError
      | Some k \<Rightarrow> if k > int n \<or> k < 0 then Inl ValueError else Inr (r_choice ops n (nat k) False s))"

definition sample_indices ::
    "'s rng_ops \<Rightarrow> sampler_type \<Rightarrow> int option \<Rightarrow> nat \<Rightarrow> bool \<Rightarrow> 's \<Rightarrow> (nat list \<times> 's) result" where
  "sample_indices ops sampler bs n shuffle s =
     (case sampler of
        UniformSampler \<Rightarrow> uniform_sample ops bs n s
      | AllSampler \<Rightarrow> all_sample ops n shuffle s
      | BatchSampler \<Rightarrow> batch_sample ops bs n s)"

subsection \<open>Division among workers\<close>

text \<open>\<open>batch_size // num_storages if batch_size else None\<close>\<close>

definition batch_per_storage :: "int option \<Rightarrow> nat \<Rightarrow> int option result" where
  "batch_per_storage bs num =
     (case bs of
        None \<Rightarrow> Inr None
      | Some b \<Rightarrow> if b = 0 then Inr None else if num = 0 then Inl ZeroDivisionError else Inr (Some (b div int num)))"

text \<open>\<open>indices[r::w]\<close>\<close>

definition strided :: "nat \<Rightarrow> nat \<Rightarrow> 'b list \<Rightarrow> 'b list" where
  "strided r w xs = map (\<lambda>i. xs ! i) (filter (\<lambda>i. i mod w = r mod w \<and> r \<le> i) [0..<length xs])"

text \<open>
  With \<open>drop_last\<close> the rest that does not divide is cut off; without it the list is padded with its
  own beginning, at most once.
\<close>

definition fit_to_workers :: "bool \<Rightarrow> nat \<Rightarrow> 'b list \<Rightarrow> 'b list result" where
  "fit_to_workers drop_last w xs =
     (if w = 0 then Inl ZeroDivisionError
      else let n = length xs in
        if drop_last then Inr (take (n div w * w) xs)
        else let pad = (n + w - 1) div w * w - n in Inr (if pad > 0 then xs @ take pad xs else xs))"

definition worker_shares ::
    "'s rng_ops \<Rightarrow> sampler_type \<Rightarrow> int option \<Rightarrow> nat \<Rightarrow> bool \<Rightarrow> bool \<Rightarrow> nat \<Rightarrow> 's \<Rightarrow> (nat list list \<times> 's) result" where
  "worker_shares ops sampler bs n shuffle drop_last w s =
     bind_result (sample_indices ops sampler bs n shuffle s) (\<lambda>(is, s').
     bind_result (fit_to_workers drop_last w is) (\<lambda>js.
     Inr (map (\<lambda>r. strided r w js) [0..<w], s')))"

subsection \<open>What the workers get\<close>

lemma filter_single: "r < w \<Longrightarrow> filter (\<lambda>j. j = r) [0..<w] = [r]"
proof (induction w)
  case (Suc w)
  then show ?case
    by (cases "r = w") (simp_all add: filter_False)
qed simp

lemma filter_residue:
  assumes "r < w"
  shows "filter (\<lambda>i. i mod w = r mod w \<and> r \<le> i) [0..<m * w] = map (\<lambda>k. r + k * w) [0..<m]"
proof (induction m)
  case (Suc m)
  have block: "[m * w..<m * w + w] = map (\<lambda>j. j + m * w) [0..<w]"
    by (simp add: map_add_upt add.commute)
  have "filter (\<lambda>i. i mod w = r mod w \<and> r \<le> i) (map (\<lambda>j. j + m * w) [0..<w])
      = map (\<lambda>j. j + m * w) (filter (\<lambda>j. j = r) [0..<w])"
    using assms by (auto simp: filter_map o_def intro!: arg_cong [where f = "map _"] filter_cong)
  then have "filter (\<lambda>i. i mod w = r mod w \<and> r \<le> i) [m * w..<m * w + w] = [r + m * w]"
    using assms by (simp add: block filter_single)
  moreover have "[0..<Suc m * w] = [0..<m * w] @ [m * w..<m * w + w]"
    using upt_add_eq_append [of 0 "m * w" w] by (simp add: add.commute)
  ultimately show ?case using Suc by simp
qed simp

lemma strided_equal:
  assumes "r < w" "length xs = m * w"
  shows "strided r w xs = map (\<lambda>k. xs ! (r + k * w)) [0..<m]"
  unfolding strided_def assms(2) filter_residue [OF assms(1)] by simp

text \<open>Every element of a list that divides evenly is in exactly one place of one share.\<close>

lemma shares_cover:
  assumes "0 < w" "length xs = m * w"
  shows "length (strided r w xs) = m \<or> w \<le> r"
    and "i < length xs \<Longrightarrow> strided (i mod w) w xs ! (i div w) = xs ! i"
proof -
  show "length (strided r w xs) = m \<or> w \<le> r"
    using assms by (cases "r < w") (simp_all add: strided_equal)
  assume i: "i < length xs"
  then have "i div w < m" using assms by (simp add: less_mult_imp_div_less)
  moreover have "i mod w < w" using assms(1) by simp
  ultimately show "strided (i mod w) w xs ! (i div w) = xs ! i"
    using assms by (simp add: strided_equal)
qed

lemma fit_to_workers_length:
  assumes "0 < w" "drop_last \<or> w \<le> length xs"
  shows "\<exists>ys. fit_to_workers drop_last w xs = Inr ys \<and> set ys \<subseteq> set xs
     \<and> length ys = (if drop_last then length xs div w else (length xs + w - 1) div w) * w
     \<and> (drop_last \<longrightarrow> ys = take (length xs div w * w) xs) \<and> (\<not> drop_last \<longrightarrow> take (length xs) ys = xs)"
proof (cases drop_last)
  case True
  then show ?thesis using assms(1)
    by (simp add: fit_to_workers_def set_take_subset)
next
  case False
  let ?n = "length xs" let ?pad = "(?n + w - 1) div w * w - ?n"
  have ceil: "?n \<le> (?n + w - 1) div w * w" "(?n + w - 1) div w * w < ?n + w"
  proof -
    have "(?n + w - 1) div w * w + (?n + w - 1) mod w = ?n + w - 1" by simp
    moreover have "(?n + w - 1) mod w \<le> w - 1" using assms(1) by (simp add: less_Suc_eq_le [symmetric])
    ultimately show "?n \<le> (?n + w - 1) div w * w" "(?n + w - 1) div w * w < ?n + w"
      using assms(1) by linarith+
  qed
  then have "?pad \<le> ?n" using assms(2) False by simp
  then have "length (xs @ take ?pad xs) = (?n + w - 1) div w * w" using ceil(1) by simp
  with False assms(1) ceil show ?thesis
    by (auto simp: fit_to_workers_def Let_def dest: in_set_takeD)
qed

definition sampled_count :: "sampler_type \<Rightarrow> int option \<Rightarrow> nat \<Rightarrow> nat" where
  "sampled_count sampler bs n = (if sampler = AllSampler then n else nat (the bs))"

text \<open>The requests that a sampler accepts on a shard with \<open>n\<close> entries.\<close>

definition accepted :: "sampler_type \<Rightarrow> int option \<Rightarrow> nat \<Rightarrow> bool" where
  "accepted sampler bs n \<longleftrightarrow>
     (case sampler of
        AllSampler \<Rightarrow> True
      | BatchSampler \<Rightarrow> (\<exists>k. bs = Some k \<and> 0 \<le> k \<and> k \<le> int n)
      | UniformSampler \<Rightarrow> (\<exists>k. bs = Some k \<and> 0 \<le> k \<and> (0 < n \<or> k = 0)))"

context np_random
begin

lemma sample_indices_ok:
  assumes "accepted sampler bs n"
  shows "\<exists>is s'. sample_indices ops sampler bs n shuffle s = Inr (is, s') \<and> length is = sampled_count sampler bs n
     \<and> set is \<subseteq> {..<n} \<and> (sampler \<noteq> UniformSampler \<longrightarrow> distinct is)"
proof (cases sampler)
  case AllSampler
  obtain js s' where sh: "r_shuffle ops [0..<n] s = (js, s')" by fastforce
  then have "mset js = mset [0..<n]" by (rule shuffle)
  then have "length js = n" "set js = {..<n}" "distinct js"
    using mset_eq_length [of js "[0..<n]"] mset_eq_setD [of js "[0..<n]"] mset_eq_imp_distinct_iff [of js "[0..<n]"]
    by (simp_all add: lessThan_atLeast0)
  then show ?thesis
    using AllSampler sh
    by (cases shuffle) (simp_all add: sample_indices_def all_sample_def sampled_count_def lessThan_atLeast0)
next
  case BatchSampler
  then obtain k where k: "bs = Some k" "0 \<le> k" "k \<le> int n" using assms by (auto simp: accepted_def)
  obtain xs s' where "r_choice ops n (nat k) False s = (xs, s')" by fastforce
  moreover have "nat k \<le> n" using k by simp
  ultimately show ?thesis
    using choice_distinct [of "nat k" n s xs s'] BatchSampler k
    by (simp add: sample_indices_def batch_sample_def sampled_count_def)
next
  case UniformSampler
  then obtain k where k: "bs = Some k" "0 \<le> k" "0 < n \<or> k = 0" using assms by (auto simp: accepted_def)
  obtain xs s' where "r_choice ops n (nat k) True s = (xs, s')" by fastforce
  moreover have "0 < n \<or> nat k = 0" using k by auto
  ultimately show ?thesis
    using choice [of n "nat k" s xs s'] UniformSampler k
    by (auto simp: sample_indices_def uniform_sample_def sampled_count_def)
qed

end

text \<open>The division of a shard among its workers: for a request the sampler accepts, every worker gets
  the same number of indices, all of them inside the shard; entry \<open>i\<close> of the sampled list goes to
  worker \<open>i mod w\<close>, at place \<open>i div w\<close>, so that nothing is given twice; only the rest that does not
  divide is dropped, and without \<open>drop_last\<close> nothing is.\<close>
theorem worker_shares_partition:
  assumes "np_random ops" "0 < w" "accepted sampler bs n" "drop_last \<or> w \<le> sampled_count sampler bs n"
  shows "\<exists>is shares s'. sample_indices ops sampler bs n shuffle s = Inr (is, s')
     \<and> worker_shares ops sampler bs n shuffle drop_last w s = Inr (shares, s')
     \<and> length is = sampled_count sampler bs n \<and> set is \<subseteq> {..<n} \<and> (sampler \<noteq> UniformSampler \<longrightarrow> distinct is)
     \<and> length shares = w
     \<and> (let m = (if drop_last then length is div w else (length is + w - 1) div w) in
          (\<forall>r < w. length (shares ! r) = m \<and> set (shares ! r) \<subseteq> set is)
        \<and> (\<forall>i < length is. i < m * w \<longrightarrow> shares ! (i mod w) ! (i div w) = is ! i)
        \<and> (\<not> drop_last \<longrightarrow> length is \<le> m * w))"
proof -
  obtain "is" s' where is': "sample_indices ops sampler bs n shuffle s = Inr (is, s')"
      "length is = sampled_count sampler bs n" "set is \<subseteq> {..<n}" "sampler \<noteq> UniformSampler \<longrightarrow> distinct is"
    using np_random.sample_indices_ok [OF assms(1,3)] by metis
  define m where "m = (if drop_last then length is div w else (length is + w - 1) div w)"
  obtain js where js: "fit_to_workers drop_last w is = Inr js" "set js \<subseteq> set is" "length js = m * w"
      "drop_last \<Longrightarrow> js = take (length is div w * w) is" "\<not> drop_last \<Longrightarrow> take (length is) js = is"
  proof -
    have "drop_last \<or> w \<le> length is" using assms(4) is'(2) by simp
    from fit_to_workers_length [OF assms(2) this] that show thesis unfolding m_def by blast
  qed
  define shares where "shares = map (\<lambda>r. strided r w js) [0..<w]"
  have "worker_shares ops sampler bs n shuffle drop_last w s = Inr (shares, s')"
    using is'(1) js(1) by (simp add: worker_shares_def shares_def)
  moreover have "length (shares ! r) = m \<and> set (shares ! r) \<subseteq> set is" if "r < w" for r
    using that shares_cover(1) [OF assms(2) js(3), of r] js(2)
    by (auto simp: shares_def strided_def dest!: subsetD)
  moreover have "shares ! (i mod w) ! (i div w) = is ! i" if "i < length is" "i < m * w" for i
  proof -
    have "is ! i = js ! i"
    proof (cases drop_last)
      case True
      then show ?thesis using that js(4) by (simp add: m_def)
    next
      case False
      then have "is ! i = take (length is) js ! i" using js(5) by simp
      then show ?thesis using that(1) by simp
    qed
    then show ?thesis
      using that shares_cover(2) [OF assms(2) js(3), of i] js(3) assms(2) by (simp add: shares_def)
  qed
  moreover have "length is \<le> m * w" if "\<not> drop_last"
    using js(5) [OF that] js(3) by (metis length_take min.cobounded1)
  moreover have "length shares = w" by (simp add: shares_def)
  ultimately show ?thesis
    using is' by (intro exI [of _ "is"] exI [of _ shares] exI [of _ s']) (auto simp: m_def Let_def)
qed

lemma worker_shares_partition_witness:
  "\<exists>shares s'. worker_shares first_rng BatchSampler (Some 7) 10 True True 3 0 = Inr (shares, s')
     \<and> length shares = 3 \<and> (\<forall>r < 3. length (shares ! r) = 2)"
proof -
  have "accepted BatchSampler (Some 7) 10" by (simp add: accepted_def)
  from worker_shares_partition [OF first.np_random_axioms _ this, of 3 True True 0]
  show ?thesis by (auto simp: sampled_count_def Let_def)
qed

text \<open>Padding: without \<open>drop_last\<close>, when fewer than half as many entries are sampled as there are
  workers, the list padded once does not reach all of them: the last worker gets nothing while the
  first gets an entry.\<close>
theorem padding_falls_short:
  assumes "sample_indices ops sampler bs n shuffle s = Inr (is, s')" "is \<noteq> []" "2 * length is < w"
  shows "\<exists>shares. worker_shares ops sampler bs n shuffle False w s = Inr (shares, s')
     \<and> shares ! 0 \<noteq> [] \<and> shares ! (w - 1) = []"
proof -
  let ?n = "length is"
  have n: "0 < ?n" using assms(2) by simp
  have "(?n + w - 1) div w = 1"
  proof -
    have "w \<le> ?n + w - 1" "?n + w - 1 < 2 * w" using n assms(3) by linarith+
    then show ?thesis by (intro div_nat_eqI) simp_all
  qed
  then have fit: "fit_to_workers False w is = Inr (is @ is)"
    using n assms(3) by (simp add: fit_to_workers_def Let_def)
  have "strided (w - 1) w (is @ is) = []"
    using assms(3) by (auto simp: strided_def filter_empty_conv)
  moreover have "0 \<in> set (filter (\<lambda>i. i mod w = 0 mod w \<and> 0 \<le> i) [0..<length (is @ is)])"
    using n by simp
  then have "strided 0 w (is @ is) \<noteq> []" unfolding strided_def by (metis empty_iff list.map_disc_iff set_empty)
  ultimately show ?thesis
    using assms(1,3) fit by (simp add: worker_shares_def)
qed

lemma padding_falls_short_witness:
  "\<exists>shares. worker_shares first_rng AllSampler None 1 False False 3 0 = Inr (shares, 0) \<and> shares ! 2 = []"
  using padding_falls_short [of first_rng AllSampler None 1 False 0 "[0]" 0 3]
  by (auto simp: sample_indices_def all_sample_def)

end
