(* ===== verification/Data_Buffer.thy ===== *)
theory Data_Buffer
  imports Storage_Node Episode_Table Sampling
begin

text \<open>
  \<open>DataBuffer\<close>, \<open>RolloutBuffer\<close> and \<open>ReplayBuffer\<close> of \<open>rlightning/buffer\<close>: the shards, the table that
  assigns environments and train workers to them, and sampling. A call submitted to a shard is the
  call itself: a Ray actor runs the calls of one caller in the order they were submitted. The
  exception of a remote call that nobody waits for, which the driver does not see, is the error of
  the call here.
\<close>

record ('v, 't) data_buffer =
  db_config :: buffer_config
  db_table :: "episode_table option"
  db_storages :: "(nat, ('v, 't) storage) dict"
  db_sampler :: "sampler_type option"
  db_processing :: "'v processing"

subsection \<open>Construction\<close>

text \<open>Which of the functions given to the constructor are not the default ones.\<close>

record custom_functions =
  cf_obs :: bool
  cf_reward :: bool
  cf_env_ret :: bool
  cf_policy_resp :: bool
  cf_preprocess :: bool

definition buffer_sanity_check :: "custom_functions \<Rightarrow> unit result" where
  "buffer_sanity_check f =
     (if (cf_obs f \<or> cf_reward f) \<and> (cf_env_ret f \<or> cf_preprocess f) then Inl ValueError
      else if cf_env_ret f \<and> cf_preprocess f then Inl ValueError
      else if cf_policy_resp f \<and> cf_preprocess f then Inl ValueError
      else Inr ())"

definition new_data_buffer ::
    "buffer_config \<Rightarrow> custom_functions \<Rightarrow> 'v processing \<Rightarrow> ('v, 't) data_buffer result" where
  "new_data_buffer cfg custom p =
     bind_result (buffer_sanity_check custom) (\<lambda>_.
     Inr \<lparr>db_config = cfg, db_table = None, db_storages = [], db_sampler = None, db_processing = p\<rparr>)"

definition init_sampler :: "('v, 't) data_buffer \<Rightarrow> ('v, 't) data_buffer result" where
  "init_sampler b =
     bind_result (of_option AttributeError (bc_sampler (db_config b))) (\<lambda>s. Inr (b\<lparr>db_sampler := Some s\<rparr>))"

definition make_shard :: "'t tree_ops \<Rightarrow> (string \<times> nat) list option \<Rightarrow> ('v, 't) data_buffer \<Rightarrow> ('v, 't) storage" where
  "make_shard tops env_meta b =
     (let cfg = db_config b in
      new_storage tops (nat (bc_capacity cfg)) (st_mode (bc_storage cfg)) (st_unit (bc_storage cfg)) env_meta
        (db_processing b) (bc_auto_truncate_episode cfg))"

text \<open>
  \<open>buffer_workers\<close> is the number of buffer workers of the scheduling, none without a resource manager.
\<close>

definition init_storage ::
    "'t tree_ops \<Rightarrow> bool \<Rightarrow> int option \<Rightarrow> (string \<times> nat) list option \<Rightarrow> ('v, 't) data_buffer \<Rightarrow> ('v, 't) data_buffer result" where
  "init_storage tops remote_storage buffer_workers env_meta b =
     (case st_type (bc_storage (db_config b)) of
        Unified \<Rightarrow> Inr (b\<lparr>db_storages := AList.update 0 (make_shard tops env_meta b) (db_storages b)\<rparr>)
      | Sharded \<Rightarrow>
          bind_result (guard AssertionError remote_storage) (\<lambda>_.
          bind_result (of_option AttributeError buffer_workers) (\<lambda>n.
          Inr (b\<lparr>db_storages :=
             fold (\<lambda>i. AList.update i (make_shard tops env_meta b)) [0..<nat n] (db_storages b)\<rparr>))))"

text \<open>
  \<open>manager\<close>: the component distribution and the number of train workers of the global resource manager.
\<close>

definition init_storage_table ::
    "(distribution \<times> int option) option \<Rightarrow> string list option \<Rightarrow> ('v, 't) data_buffer \<Rightarrow> ('v, 't) data_buffer result" where
  "init_storage_table manager env_ids b =
     (if db_storages b = [] then Inr b
      else bind_result
        (case manager of
           None \<Rightarrow> Inr ([], 1)
         | Some (distr, trains) \<Rightarrow> bind_result (of_option AssertionError trains) (\<lambda>n. Inr (distr, n))) (\<lambda>(distr, n).
        bind_result (new_episode_table (int (length (db_storages b))) env_ids (Some n) (Some distr)
           (bc_node_affinity_env (db_config b)) (bc_node_affinity_train (db_config b))) (\<lambda>t.
        Inr (b\<lparr>db_table := Some t\<rparr>))))"

definition buffer_init ::
    "'t tree_ops \<Rightarrow> bool \<Rightarrow> int option \<Rightarrow> (distribution \<times> int option) option \<Rightarrow> (string \<times> nat) list option
       \<Rightarrow> string list option \<Rightarrow> ('v, 't) data_buffer \<Rightarrow> ('v, 't) data_buffer result" where
  "buffer_init tops remote_storage buffer_workers manager env_meta env_ids b =
     bind_result (init_sampler b) (\<lambda>b.
     bind_result (init_storage tops remote_storage buffer_workers env_meta b) (\<lambda>b.
     init_storage_table manager env_ids b))"

subsection \<open>Routing data to shards\<close>

definition buffer_size :: "'t tree_ops \<Rightarrow> ('v, 't) data_buffer \<Rightarrow> nat" where
  "buffer_size tops b = sum_list (map (storage_size tops) (dict_values (db_storages b)))"

definition storage_idx :: "string \<Rightarrow> ('v, 't) data_buffer \<Rightarrow> (nat \<times> ('v, 't) data_buffer) result" where
  "storage_idx env_id b =
     bind_result (of_option AttributeError (db_table b)) (\<lambda>t.
     let (i, t') = get_storage_idx_for_env env_id t in Inr (i, b\<lparr>db_table := Some t'\<rparr>))"

definition on_storage ::
    "nat \<Rightarrow> (('v, 't) storage \<Rightarrow> ('v, 't) storage result) \<Rightarrow> ('v, 't) data_buffer \<Rightarrow> ('v, 't) data_buffer result" where
  "on_storage i f b =
     bind_result (of_option KeyError (map_of (db_storages b) i)) (\<lambda>s.
     bind_result (f s) (\<lambda>s'. Inr (b\<lparr>db_storages := AList.update i s' (db_storages b)\<rparr>)))"

definition on_env_storage ::
    "string \<Rightarrow> (('v, 't) storage \<Rightarrow> ('v, 't) storage result) \<Rightarrow> ('v, 't) data_buffer \<Rightarrow> ('v, 't) data_buffer result" where
  "on_env_storage env_id f b = bind_result (storage_idx env_id b) (\<lambda>(i, b'). on_storage i f b')"

definition add_transition ::
    "'v tensor_ops \<Rightarrow> 't tree_ops \<Rightarrow> string \<Rightarrow> 'v env_ret \<Rightarrow> 'v policy_resp \<Rightarrow> bool
       \<Rightarrow> ('v, 't) data_buffer \<Rightarrow> ('v, 't) data_buffer result" where
  "add_transition vops tops env_id er pr truncated =
     on_env_storage env_id (\<lambda>s.
       bind_result (storage_add_transition vops tops er pr s) (\<lambda>s'.
       if truncated then storage_truncate vops tops (er_env_id er) s' else Inr s'))"

definition item_env_id :: "'v item \<Rightarrow> string" where
  "item_env_id it = (case it of EnvItem er \<Rightarrow> er_env_id er | PolicyItem pr \<Rightarrow> pr_env_id pr)"

definition add_data_async ::
    "'v tensor_ops \<Rightarrow> 't tree_ops \<Rightarrow> string \<Rightarrow> 'v item \<Rightarrow> bool
       \<Rightarrow> ('v, 't) data_buffer \<Rightarrow> ('v, 't) data_buffer result" where
  "add_data_async vops tops env_id it truncated =
     on_env_storage env_id (\<lambda>s.
       bind_result (storage_add_async vops tops it s) (\<lambda>s'.
       if truncated then storage_truncate vops tops (item_env_id it) s' else Inr s'))"

text \<open>\<open>add_episode\<close> puts the episode in a shard chosen at random: the position is an argument.\<close>

definition add_episode ::
    "'v tensor_ops \<Rightarrow> 't tree_ops \<Rightarrow> nat \<Rightarrow> 'v episode \<Rightarrow> nat \<Rightarrow> ('v, 't) data_buffer \<Rightarrow> ('v, 't) data_buffer result" where
  "add_episode vops tops pick ep num_envs b =
     (if db_storages b = [] then Inl IndexError
      else on_storage (dict_keys (db_storages b) ! (pick mod length (db_storages b)))
             (storage_add_episode vops tops ep num_envs) b)"

datatype truncations = TruncNone | TruncBool bool | TruncList "bool list" | TruncOther

definition add_batched_transition ::
    "'v tensor_ops \<Rightarrow> 't tree_ops \<Rightarrow> 'v env_ret batched_data \<Rightarrow> 'v policy_resp batched_data \<Rightarrow> truncations
       \<Rightarrow> ('v, 't) data_buffer \<Rightarrow> ('v, 't) data_buffer result" where
  "add_batched_transition vops tops ers prs tr b =
     (let n = length (bd_ids ers) in
      bind_result (guard ValueError (n = length (bd_ids prs))) (\<lambda>_.
      bind_result (guard ValueError (bd_ids ers = bd_ids prs)) (\<lambda>_.
      bind_result (case tr of
                     TruncNone \<Rightarrow> Inr (replicate n False)
                   | TruncList ts \<Rightarrow> bind_result (guard ValueError (length ts = n)) (\<lambda>_. Inr ts)
                   | _ \<Rightarrow> Inl TypeError) (\<lambda>ts.
      foldM (\<lambda>b (e, er, pr, t). add_transition vops tops e er pr t b) b
        (zip (bd_ids ers) (zip (bd_data ers) (zip (bd_data prs) ts)))))))"

definition add_batched_data_async ::
    "'v tensor_ops \<Rightarrow> 't tree_ops \<Rightarrow> 'v item batched_data \<Rightarrow> truncations
       \<Rightarrow> ('v, 't) data_buffer \<Rightarrow> ('v, 't) data_buffer result" where
  "add_batched_data_async vops tops items tr b =
     (let n = length (bd_ids items) in
      bind_result (case tr of
                     TruncNone \<Rightarrow> Inr (replicate n False)
                   | TruncBool t \<Rightarrow> Inr (replicate n t)
                   | TruncList ts \<Rightarrow> bind_result (guard ValueError (length ts = n)) (\<lambda>_. Inr ts)
                   | TruncOther \<Rightarrow> Inl TypeError) (\<lambda>ts.
      foldM (\<lambda>b (e, it, t). add_data_async vops tops e it t b) b
        (zip (bd_ids items) (zip (bd_data items) ts))))"

definition buffer_truncate_one ::
    "'v tensor_ops \<Rightarrow> 't tree_ops \<Rightarrow> string \<Rightarrow> ('v, 't) data_buffer \<Rightarrow> ('v, 't) data_buffer result" where
  "buffer_truncate_one vops tops env_id = on_env_storage env_id (storage_truncate vops tops env_id)"

text \<open>The ids are grouped by shard, in the order the shards are first met.\<close>

definition shard_buckets ::
    "string list \<Rightarrow> ('v, 't) data_buffer \<Rightarrow> ((nat, string list) dict \<times> ('v, 't) data_buffer) result" where
  "shard_buckets env_ids b =
     foldM (\<lambda>(buckets, b) e.
        bind_result (storage_idx e b) (\<lambda>(i, b'). Inr (dict_append i e buckets, b'))) ([], b) env_ids"

definition buffer_truncate_episodes ::
    "'v tensor_ops \<Rightarrow> 't tree_ops \<Rightarrow> string list \<Rightarrow> ('v, 't) data_buffer \<Rightarrow> ('v, 't) data_buffer result" where
  "buffer_truncate_episodes vops tops env_ids b =
     bind_result (shard_buckets env_ids b) (\<lambda>(buckets, b').
     foldM (\<lambda>b (i, es). on_storage i (storage_truncate_episodes vops tops es) b) b' buckets)"

subsection \<open>Reading and sampling\<close>

definition buffer_get ::
    "'t tree_ops \<Rightarrow> nat \<Rightarrow> index \<Rightarrow> ('v, 't) data_buffer
       \<Rightarrow> ('v transition read_result \<times> ('v, 't) data_buffer) result" where
  "buffer_get tops i idx b =
     bind_result (of_option KeyError (map_of (db_storages b) i)) (\<lambda>s.
     bind_result (storage_get tops idx s) (\<lambda>(res, s').
     Inr (res, b\<lparr>db_storages := AList.update i s' (db_storages b)\<rparr>)))"

definition get_all ::
    "'t tree_ops \<Rightarrow> ('v, 't) data_buffer
       \<Rightarrow> ((nat, 'v transition read_result) dict \<times> ('v, 't) data_buffer) result" where
  "get_all tops b =
     foldM (\<lambda>(d, b) i.
        bind_result (of_option KeyError (map_of (db_storages b) i)) (\<lambda>s.
        bind_result (buffer_get tops i (IdxSlice None (Some (int (storage_size tops s)))) b) (\<lambda>(res, b').
        Inr (AList.update i res d, b')))) ([], b) (dict_keys (db_storages b))"

definition store_at :: "'b \<Rightarrow> int \<Rightarrow> 'b list \<Rightarrow> 'b list result" where
  "store_at x i xs =
     (let j = (if i < 0 then int (length xs) + i else i)
      in if 0 \<le> j \<and> j < int (length xs) then Inr (xs[nat j := x]) else Inl IndexError)"

text \<open>Every worker of a shard reads its share of the indices; the result goes to the worker's place.\<close>

definition read_shares ::
    "'t tree_ops \<Rightarrow> nat \<Rightarrow> (int \<times> nat list) list
       \<Rightarrow> 'v transition read_result option list \<times> ('v, 't) data_buffer
       \<Rightarrow> ('v transition read_result option list \<times> ('v, 't) data_buffer) result" where
  "read_shares tops i shares st =
     foldM (\<lambda>(out, b) (worker, is).
        bind_result (buffer_get tops i (IdxArray (map int is)) b) (\<lambda>(res, b').
        bind_result (store_at (Some res) worker out) (\<lambda>out'. Inr (out', b')))) st shares"

definition sample_shard ::
    "'s rng_ops \<Rightarrow> 't tree_ops \<Rightarrow> int option \<Rightarrow> bool \<Rightarrow> bool \<Rightarrow> sampler_type \<Rightarrow> (nat, int list) dict \<Rightarrow> nat \<times> nat
       \<Rightarrow> 'v transition read_result option list \<times> ('v, 't) data_buffer \<times> 's
       \<Rightarrow> ('v transition read_result option list \<times> ('v, 't) data_buffer \<times> 's) result" where
  "sample_shard rops tops bs shuffle drop_last sampler workers_of shard st =
     (case (shard, st) of ((i, n), (out, b, rng)) \<Rightarrow>
        bind_result (sample_indices rops sampler bs n shuffle rng) (\<lambda>(is, rng').
        bind_result (of_option KeyError (map_of workers_of i)) (\<lambda>workers.
        bind_result (fit_to_workers drop_last (length workers) is) (\<lambda>js.
        bind_result (read_shares tops i
            (map (\<lambda>r. (workers ! r, strided r (length workers) js)) [0..<length workers]) (out, b)) (\<lambda>(out', b').
        Inr (out', b', rng'))))))"

definition sample ::
    "'s rng_ops \<Rightarrow> 't tree_ops \<Rightarrow> int option \<Rightarrow> bool \<Rightarrow> bool \<Rightarrow> ('v, 't) data_buffer \<Rightarrow> 's
       \<Rightarrow> ('v transition read_result option list \<times> ('v, 't) data_buffer \<times> 's) result" where
  "sample rops tops bs shuffle drop_last b rng =
     bind_result (batch_per_storage bs (length (db_storages b))) (\<lambda>bs'.
     let sizes = map (\<lambda>(i, s). (i, storage_size tops s)) (db_storages b) in
     bind_result (guard RuntimeError (list_all (\<lambda>(i, n). n = snd (hd sizes)) sizes)) (\<lambda>_.
     bind_result (of_option AttributeError (db_table b)) (\<lambda>t.
     bind_result (of_option AttributeError (db_sampler b)) (\<lambda>sampler.
     foldM (\<lambda>st shard. sample_shard rops tops bs' shuffle drop_last sampler (et_train t) shard st)
       (replicate (sum_list (map length (dict_values (et_train t)))) None, b, rng) sizes))))"

definition buffer_clear :: "'t tree_ops \<Rightarrow> ('v, 't) data_buffer \<Rightarrow> ('v, 't) data_buffer" where
  "buffer_clear tops b = b\<lparr>db_storages := map (\<lambda>(i, s). (i, clear_storage tops s)) (db_storages b)\<rparr>"

definition rollout_sample ::
    "'s rng_ops \<Rightarrow> 't tree_ops \<Rightarrow> int option \<Rightarrow> bool \<Rightarrow> bool \<Rightarrow> ('v, 't) data_buffer \<Rightarrow> 's
       \<Rightarrow> ('v transition read_result option list \<times> ('v, 't) data_buffer \<times> 's) result" where
  "rollout_sample rops tops bs shuffle drop_last b rng =
     bind_result (case bs of
                    None \<Rightarrow> Inr ()
                  | Some k \<Rightarrow> guard ValueError (db_sampler b = Some AllSampler \<or> k \<le> int (buffer_size tops b))) (\<lambda>_.
     bind_result (sample rops tops bs shuffle drop_last b rng) (\<lambda>(out, b', rng').
     Inr (out, buffer_clear tops b', rng')))"

definition replay_sample ::
    "'s rng_ops \<Rightarrow> 't tree_ops \<Rightarrow> int option \<Rightarrow> bool \<Rightarrow> bool \<Rightarrow> ('v, 't) data_buffer \<Rightarrow> 's
       \<Rightarrow> ('v transition read_result option list \<times> ('v, 't) data_buffer \<times> 's) result" where
  "replay_sample rops tops bs shuffle drop_last b rng =
     bind_result (case bs of
                    None \<Rightarrow> Inr ()
                  | Some k \<Rightarrow> guard ValueError (k \<le> int (buffer_size tops b))) (\<lambda>_.
     sample rops tops bs shuffle drop_last b rng)"

end
