(* ===== verification/Buffer_Correct.thy ===== *)
theory Buffer_Correct
  imports Data_Buffer Container_Reads
begin

text \<open>
  Sampling from the buffer as a whole: the table, the sampler, the division among workers and the
  reads of the shards together give every train worker its rows.
\<close>

subsection \<open>Shards of transitions\<close>

definition readable :: "'t tree_ops \<Rightarrow> nat \<Rightarrow> ('v, 't) storage \<Rightarrow> bool" where
  "readable tops n s \<longleftrightarrow> container_ok tops (st_container s) \<and> dc_unit (st_container s) = Transition
     \<and> dc_size (st_container s) = n \<and> (\<forall>j < n. 0 \<le> dc_counter (st_container s) ! j)"

definition shard_data :: "('v, 't) data_buffer \<Rightarrow> nat \<Rightarrow> 'v transition option list option" where
  "shard_data b i = map_option (\<lambda>s. dc_data (st_container s)) (map_of (db_storages b) i)"

definition all_readable :: "'t tree_ops \<Rightarrow> nat \<Rightarrow> ('v, 't) data_buffer \<Rightarrow> bool" where
  "all_readable tops n b \<longleftrightarrow> (\<forall>i s. map_of (db_storages b) i = Some s \<longrightarrow> readable tops n s)"

lemma readable_size: "readable tops n s \<Longrightarrow> storage_size tops s = n"
  by (simp add: readable_def storage_size_def container_len_def)

lemma read_rows:
  assumes "readable tops n s" "0 < n" "set is \<subseteq> {..<n}"
  shows "\<exists>s'. storage_get tops (IdxArray (map int is)) s = Inr (Rows (map (\<lambda>i. dc_data (st_container s) ! i) is), s')
     \<and> readable tops n s' \<and> dc_data (st_container s') = dc_data (st_container s)"
proof -
  let ?c = "st_container s"
  define c' where "c' = ?c\<lparr>dc_counter := bump (remdups is) (dc_counter ?c)\<rparr>"
  have c: "container_ok tops ?c" "dc_unit ?c = Transition" "dc_size ?c = n" "\<forall>j < n. 0 \<le> dc_counter ?c ! j"
    using assms(1) by (auto simp: readable_def)
  then have len: "n \<le> length (dc_counter ?c)" by (auto simp: container_ok_def Let_def)
  have ok': "container_ok tops c'" unfolding c'_def by (rule container_ok_bump [OF c(1)])
  have nonneg: "0 \<le> dc_counter c' ! j" if "j < n" for j
    using bump_props [of "remdups is" "dc_counter ?c"] c(4) that len by (auto simp: c'_def intro: order_trans)
  have check: "check_range tops (IdxArray (map int is)) ?c = Inr ()"
    using assms(3) c(2,3) by (auto simp: check_range_def in_range_def wrap_index_def list_all_iff guard_def)
  have positions: "index_positions (IdxArray (map int is)) (dc_capacity ?c) = is"
    by (simp add: index_positions_def wrap_index_def o_def)
  have "length (dc_counter c') = length (dc_counter ?c)"
    using bump_props [of "remdups is" "dc_counter ?c"] by (simp add: c'_def)
  then have "list_ex (\<lambda>k. k > -1) (dc_counter c')"
    using nonneg [OF assms(2)] len assms(2) by (auto simp: list_ex_iff intro!: bexI [of _ "dc_counter c' ! 0"] nth_mem)
  then have "get_item tops (IdxArray (map int is)) ?c = Inr (Rows (map (\<lambda>i. dc_data ?c ! i) is), c')"
    using check c(2) by (simp add: get_item_def positions log_counters_def c'_def Let_def)
  moreover have "readable tops n (s\<lparr>st_container := c'\<rparr>)"
    using ok' c nonneg by (simp add: readable_def) (simp add: c'_def)
  ultimately show ?thesis by (simp add: storage_get_def) (simp add: c'_def)
qed

lemma buffer_get_rows:
  assumes "all_readable tops n b" "0 < n" "shard_data b i = Some d" "set is \<subseteq> {..<n}"
  shows "\<exists>b'. buffer_get tops i (IdxArray (map int is)) b = Inr (Rows (map (\<lambda>i. d ! i) is), b')
     \<and> all_readable tops n b' \<and> shard_data b' = shard_data b"
proof -
  obtain s where s: "map_of (db_storages b) i = Some s" "d = dc_data (st_container s)"
    using assms(3) by (auto simp: shard_data_def)
  then have "readable tops n s" using assms(1) by (simp add: all_readable_def)
  from read_rows [OF this assms(2,4)] obtain s' where s':
    "storage_get tops (IdxArray (map int is)) s = Inr (Rows (map (\<lambda>i. d ! i) is), s')" "readable tops n s'"
    "dc_data (st_container s') = d" using s(2) by blast
  define b' where "b' = b\<lparr>db_storages := AList.update i s' (db_storages b)\<rparr>"
  have "buffer_get tops i (IdxArray (map int is)) b = Inr (Rows (map (\<lambda>i. d ! i) is), b')"
    using s(1) s'(1) by (simp add: buffer_get_def b'_def)
  moreover have "all_readable tops n b'" "shard_data b' = shard_data b"
    using assms(1) s s'(2,3) by (auto simp: all_readable_def shard_data_def b'_def fun_eq_iff)
  ultimately show ?thesis by blast
qed

text \<open>The workers of one shard read their shares.\<close>

lemma read_shares_rows:
  assumes "all_readable tops n b" "0 < n" "shard_data b i = Some d" "distinct (map fst shares)"
    and "\<forall>(w, is) \<in> set shares. 0 \<le> w \<and> w < int (length out) \<and> set is \<subseteq> {..<n}"
  shows "\<exists>out' b'. read_shares tops i shares (out, b) = Inr (out', b') \<and> all_readable tops n b'
     \<and> shard_data b' = shard_data b \<and> length out' = length out
     \<and> (\<forall>(w, is) \<in> set shares. out' ! nat w = Some (Rows (map (\<lambda>i. d ! i) is)))
     \<and> (\<forall>j < length out. int j \<notin> fst ` set shares \<longrightarrow> out' ! j = out ! j)"
  using assms
proof (induction shares arbitrary: out b)
  case Nil
  then show ?case by (simp add: read_shares_def)
next
  case (Cons p shares)
  obtain w "is" where p: "p = (w, is)" by (cases p)
  have w: "0 \<le> w" "w < int (length out)" "set is \<subseteq> {..<n}" using Cons.prems(5) by (auto simp: p)
  obtain b1 where b1: "buffer_get tops i (IdxArray (map int is)) b = Inr (Rows (map (\<lambda>i. d ! i) is), b1)"
      "all_readable tops n b1" "shard_data b1 = shard_data b"
    using buffer_get_rows [OF Cons.prems(1-3) w(3)] by blast
  define out1 where "out1 = out[nat w := Some (Rows (map (\<lambda>i. d ! i) is))]"
  have "store_at (Some (Rows (map (\<lambda>i. d ! i) is))) w out = Inr out1"
    using w(1,2) by (simp add: store_at_def out1_def Let_def)
  then have step: "read_shares tops i (p # shares) (out, b) = read_shares tops i shares (out1, b1)"
    using b1(1) by (simp add: read_shares_def p)
  have len1: "length out1 = length out" by (simp add: out1_def)
  have "shard_data b1 i = Some d" using b1(3) Cons.prems(3) by simp
  from Cons.IH [OF b1(2) Cons.prems(2) this, of out1] Cons.prems(4,5) obtain out' b' where rec:
    "read_shares tops i shares (out1, b1) = Inr (out', b')" "all_readable tops n b'" "shard_data b' = shard_data b1"
    "length out' = length out" "\<forall>(w, is) \<in> set shares. out' ! nat w = Some (Rows (map (\<lambda>i. d ! i) is))"
    "\<forall>j < length out. int j \<notin> fst ` set shares \<longrightarrow> out' ! j = out1 ! j"
    unfolding len1 by auto
  have "w \<notin> fst ` set shares" using Cons.prems(4) by (simp add: p)
  then have "out' ! nat w = Some (Rows (map (\<lambda>i. d ! i) is))"
    using rec(6) w by (simp add: out1_def)
  moreover have "\<forall>j < length out. int j \<notin> fst ` set (p # shares) \<longrightarrow> out' ! j = out ! j"
    using rec(6) w(1) by (auto simp: p out1_def nth_list_update)
  ultimately show ?case
    using step rec b1(3) by (intro exI [of _ out'] exI [of _ b']) (auto simp: p)
qed

subsection \<open>The whole sample\<close>

definition share_length :: "bool \<Rightarrow> nat \<Rightarrow> nat \<Rightarrow> nat" where
  "share_length drop_last k w = (if drop_last then k div w else (k + w - 1) div w)"

text \<open>
  Worker \<open>w\<close> has been given rows of its own shard: as many as every worker of that shard, all of them
  entries below the size of the shard.
\<close>

definition served ::
    "(nat, int list) dict \<Rightarrow> (nat \<Rightarrow> 'v transition option list option) \<Rightarrow> nat \<Rightarrow> bool \<Rightarrow> nat
       \<Rightarrow> 'v transition read_result option list \<Rightarrow> nat \<Rightarrow> bool" where
  "served workers_of datas n drop_last k out w \<longleftrightarrow>
     (\<exists>i ws d is. map_of workers_of i = Some ws \<and> int w \<in> set ws \<and> datas i = Some d
        \<and> out ! w = Some (Rows (map (\<lambda>j. d ! j) is)) \<and> set is \<subseteq> {..<n} \<and> length is = share_length drop_last k (length ws))"

definition table_serves :: "(nat, int list) dict \<Rightarrow> nat list \<Rightarrow> nat \<Rightarrow> bool" where
  "table_serves workers_of shards W \<longleftrightarrow>
     (\<forall>i \<in> set shards. \<exists>ws. map_of workers_of i = Some ws \<and> ws \<noteq> [] \<and> distinct ws \<and> set ws \<subseteq> {0..<int W})
   \<and> (\<forall>i \<in> set shards. \<forall>j \<in> set shards. i \<noteq> j \<longrightarrow> set (dict_get [] workers_of i) \<inter> set (dict_get [] workers_of j) = {})
   \<and> {0..<int W} \<subseteq> (\<Union>i \<in> set shards. set (dict_get [] workers_of i))"

lemma sample_shard_serves:
  assumes rng: "np_random rops" and b: "all_readable tops n b" "0 < n" "shard_data b i = Some d"
    and acc: "accepted sampler bs n" and ws: "map_of workers_of i = Some ws" "ws \<noteq> []" "distinct ws"
      "set ws \<subseteq> {0..<int (length out)}"
    and fit: "drop_last \<or> length ws \<le> sampled_count sampler bs n"
  shows "\<exists>out' b' rng'. sample_shard rops tops bs shuffle drop_last sampler workers_of (i, n) (out, b, rng) = Inr (out', b', rng')
     \<and> all_readable tops n b' \<and> shard_data b' = shard_data b \<and> length out' = length out
     \<and> (\<forall>w. int w \<in> set ws \<longrightarrow> served workers_of (shard_data b) n drop_last (sampled_count sampler bs n) out' w)
     \<and> (\<forall>j < length out. int j \<notin> set ws \<longrightarrow> out' ! j = out ! j)"
proof -
  let ?W = "length ws" and ?k = "sampled_count sampler bs n"
  have W: "0 < ?W" using ws(2) by simp
  obtain "is" rng' where si: "sample_indices rops sampler bs n shuffle rng = Inr (is, rng')" "length is = ?k" "set is \<subseteq> {..<n}"
    using np_random.sample_indices_ok [OF assms(1) acc] by blast
  have "drop_last \<or> ?W \<le> length is" using fit si(2) by simp
  from fit_to_workers_length [OF W this] obtain js where js: "fit_to_workers drop_last ?W is = Inr js"
      "set js \<subseteq> set is" "length js = share_length drop_last ?k ?W * ?W"
    unfolding share_length_def si(2) by blast
  define shares where "shares = map (\<lambda>r. (ws ! r, strided r ?W js)) [0..<?W]"
  have fst_shares: "map fst shares = ws"
    by (simp add: shares_def o_def map_nth)
  have sub: "set (strided r ?W js) \<subseteq> {..<n}" for r
    using js(2) si(3) by (force simp: strided_def)
  have in_range: "\<forall>(w, is) \<in> set shares. 0 \<le> w \<and> w < int (length out) \<and> set is \<subseteq> {..<n}"
    using ws(4) sub by (auto simp: shares_def dest!: subsetD [OF _ nth_mem])
  have "distinct (map fst shares)" using ws(3) by (simp add: fst_shares)
  from read_shares_rows [OF b this in_range] obtain out' b' where rd:
    "read_shares tops i shares (out, b) = Inr (out', b')" "all_readable tops n b'" "shard_data b' = shard_data b"
    "length out' = length out" "\<forall>(w, is) \<in> set shares. out' ! nat w = Some (Rows (map (\<lambda>j. d ! j) is))"
    "\<forall>j < length out. int j \<notin> fst ` set shares \<longrightarrow> out' ! j = out ! j" by blast
  have "sample_shard rops tops bs shuffle drop_last sampler workers_of (i, n) (out, b, rng) = Inr (out', b', rng')"
    using si(1) ws(1) js(1) rd(1) by (simp add: sample_shard_def shares_def)
  moreover have "served workers_of (shard_data b) n drop_last ?k out' w" if "int w \<in> set ws" for w
  proof -
    obtain r where r: "r < ?W" "ws ! r = int w" using \<open>int w \<in> set ws\<close> by (auto simp: in_set_conv_nth)
    then have "(int w, strided r ?W js) \<in> set shares" by (auto simp: shares_def image_iff intro!: bexI [of _ r])
    with rd(5) have "out' ! w = Some (Rows (map (\<lambda>j. d ! j) (strided r ?W js)))" by force
    moreover have "length (strided r ?W js) = share_length drop_last ?k ?W"
      using shares_cover(1) [OF W js(3), of r] r(1) by simp
    ultimately show ?thesis using ws(1) that b(3) sub unfolding served_def by blast
  qed
  moreover have "fst ` set shares = set ws" using fst_shares by (metis set_map)
  ultimately show ?thesis
    using rd(2-4,6) by (intro exI [of _ out'] exI [of _ b'] exI [of _ rng']) (simp only: refl simp_thms, blast)
qed

lemma served_cong: "out' ! w = out ! w \<Longrightarrow> served wo ds n dl k out w \<Longrightarrow> served wo ds n dl k out' w"
  by (simp add: served_def)

lemma sample_shards_serve:
  assumes rng: "np_random rops" and "all_readable tops n b" "0 < n" "accepted sampler bs n" "length out = W"
    and "distinct (map fst sizes)" "\<forall>(i, m) \<in> set sizes. m = n \<and> shard_data b i \<noteq> None"
    and "\<forall>i \<in> fst ` set sizes. \<exists>ws. map_of wo i = Some ws \<and> ws \<noteq> [] \<and> distinct ws \<and> set ws \<subseteq> {0..<int W}
           \<and> (drop_last \<or> length ws \<le> sampled_count sampler bs n)"
    and "\<forall>i \<in> fst ` set sizes. \<forall>j \<in> fst ` set sizes. i \<noteq> j \<longrightarrow> set (dict_get [] wo i) \<inter> set (dict_get [] wo j) = {}"
  shows "\<exists>out' b' rng'. foldM (\<lambda>st shard. sample_shard rops tops bs shuffle drop_last sampler wo shard st) (out, b, s) sizes
       = Inr (out', b', rng') \<and> all_readable tops n b' \<and> shard_data b' = shard_data b \<and> length out' = W
     \<and> (\<forall>i \<in> fst ` set sizes. \<forall>w. int w \<in> set (dict_get [] wo i) \<longrightarrow>
          served wo (shard_data b) n drop_last (sampled_count sampler bs n) out' w)
     \<and> (\<forall>j < W. (\<forall>i \<in> fst ` set sizes. int j \<notin> set (dict_get [] wo i)) \<longrightarrow> out' ! j = out ! j)"
  using assms(2-)
proof (induction sizes arbitrary: out b s)
  case Nil
  then show ?case by simp
next
  case (Cons p sizes)
  let ?served = "\<lambda>out. served wo (shard_data b) n drop_last (sampled_count sampler bs n) out"
  obtain i where p: "p = (i, n)" and "shard_data b i \<noteq> None" using Cons.prems(6) by (cases p) auto
  then obtain d where d: "shard_data b i = Some d" by blast
  obtain ws where ws: "map_of wo i = Some ws" "ws \<noteq> []" "distinct ws" "set ws \<subseteq> {0..<int W}"
      "drop_last \<or> length ws \<le> sampled_count sampler bs n"
    using Cons.prems(7) by (auto simp: p)
  then have wsi: "dict_get [] wo i = ws" by (simp add: dict_get_def)
  have ws4: "set ws \<subseteq> {0..<int (length out)}" using ws(4) Cons.prems(4) by simp
  obtain out1 b1 s1 where one:
    "sample_shard rops tops bs shuffle drop_last sampler wo (i, n) (out, b, s) = Inr (out1, b1, s1)"
    "all_readable tops n b1" "shard_data b1 = shard_data b" "length out1 = W"
    "\<forall>w. int w \<in> set ws \<longrightarrow> ?served out1 w" "\<forall>j < W. int j \<notin> set ws \<longrightarrow> out1 ! j = out ! j"
    using sample_shard_serves [OF rng Cons.prems(1,2) d Cons.prems(3) ws(1-3) ws4 ws(5)] Cons.prems(4) by blast
  have prems: "distinct (map fst sizes)" "\<forall>(i, m) \<in> set sizes. m = n \<and> shard_data b1 i \<noteq> None"
    using Cons.prems(5,6) one(3) by auto
  have disj: "\<forall>j \<in> fst ` set sizes. set ws \<inter> set (dict_get [] wo j) = {}"
    using Cons.prems(5,8) wsi by (auto simp: p)
  have "\<exists>out' b' rng'. foldM (\<lambda>st shard. sample_shard rops tops bs shuffle drop_last sampler wo shard st) (out1, b1, s1) sizes
       = Inr (out', b', rng') \<and> all_readable tops n b' \<and> shard_data b' = shard_data b1 \<and> length out' = W
     \<and> (\<forall>i \<in> fst ` set sizes. \<forall>w. int w \<in> set (dict_get [] wo i) \<longrightarrow>
          served wo (shard_data b1) n drop_last (sampled_count sampler bs n) out' w)
     \<and> (\<forall>j < W. (\<forall>i \<in> fst ` set sizes. int j \<notin> set (dict_get [] wo i)) \<longrightarrow> out' ! j = out1 ! j)"
    by (rule Cons.IH [OF one(2) Cons.prems(2,3) one(4) prems]) (use Cons.prems(7,8) in auto)
  then obtain out' b' s' where rec:
    "foldM (\<lambda>st shard. sample_shard rops tops bs shuffle drop_last sampler wo shard st) (out1, b1, s1) sizes = Inr (out', b', s')"
    "all_readable tops n b'" "shard_data b' = shard_data b" "length out' = W"
    "\<forall>i \<in> fst ` set sizes. \<forall>w. int w \<in> set (dict_get [] wo i) \<longrightarrow> ?served out' w"
    "\<forall>j < W. (\<forall>i \<in> fst ` set sizes. int j \<notin> set (dict_get [] wo i)) \<longrightarrow> out' ! j = out1 ! j"
    unfolding one(3) by blast
  have "?served out' w" if w: "int w \<in> set ws" for w
  proof (rule served_cong)
    show "?served out1 w" using one(5) w by blast
    have "w < W" using w ws(4) by auto
    moreover have "\<forall>j \<in> fst ` set sizes. int w \<notin> set (dict_get [] wo j)" using disj w by blast
    ultimately show "out' ! w = out1 ! w" using rec(6) by blast
  qed
  with rec one show ?case
    by (intro exI [of _ out'] exI [of _ b'] exI [of _ s']) (auto simp: p wsi)
qed

text \<open>C1: sampling serves every train worker: on shards that all hold \<open>n > 0\<close> readable transitions, with a table
  that divides the workers among the shards and a batch the sampler accepts, a sample returns when
  \<open>drop_last\<close> is set or no shard has more workers than it has sampled indices (otherwise the code cannot
  give each of them a share), and every worker receives written rows of its own shard, as many as every other worker of that shard; the
  rows stored are not changed.\<close>
theorem sample_serves_workers:
  assumes "np_random rops" "db_table b = Some t" "db_sampler b = Some sampler"
    and "all_readable tops n b" "0 < n" "db_storages b \<noteq> []" "dict_ok (db_storages b)"
    and "batch_per_storage bs (length (db_storages b)) = Inr bs'" "accepted sampler bs' n"
    and "table_serves (et_train t) (dict_keys (db_storages b)) W" "sum_list (map length (dict_values (et_train t))) = W"
    and "drop_last \<or> (\<forall>i ws. map_of (et_train t) i = Some ws \<longrightarrow> length ws \<le> sampled_count sampler bs' n)"
  shows "\<exists>out b' rng'. sample rops tops bs shuffle drop_last b rng = Inr (out, b', rng')
     \<and> length out = W \<and> shard_data b' = shard_data b
     \<and> (\<forall>w < W. served (et_train t) (shard_data b) n drop_last (sampled_count sampler bs' n) out w)"
proof -
  let ?wo = "et_train t" and ?out = "replicate W None"
  define sizes where "sizes = map (\<lambda>(i, s). (i, storage_size tops s)) (db_storages b)"
  have size: "storage_size tops s = n" if "(i, s) \<in> set (db_storages b)" for i s
    using that assms(4,7) by (auto simp: all_readable_def intro: readable_size)
  then have sz: "\<forall>(i, m) \<in> set sizes. m = n" by (auto simp: sizes_def)
  have keys: "map fst sizes = dict_keys (db_storages b)" by (auto simp: sizes_def)
  then have fst_sizes: "fst ` set sizes = set (dict_keys (db_storages b))" by (metis set_map)
  have "sizes \<noteq> []" using assms(6) by (simp add: sizes_def)
  then have "list_all (\<lambda>(i, m). m = snd (hd sizes)) sizes"
    using sz by (cases sizes) (auto simp: list_all_iff)
  then have run: "sample rops tops bs shuffle drop_last b rng =
      foldM (\<lambda>st shard. sample_shard rops tops bs' shuffle drop_last sampler ?wo shard st) (?out, b, rng) sizes"
    using assms(2,3,8,11) by (simp add: sample_def sizes_def [symmetric] Let_def)
  have data: "\<forall>(i, m) \<in> set sizes. m = n \<and> shard_data b i \<noteq> None"
    using sz assms(7) by (force simp: sizes_def shard_data_def)
  have serves: "\<forall>i \<in> fst ` set sizes. \<exists>ws. map_of ?wo i = Some ws \<and> ws \<noteq> [] \<and> distinct ws \<and> set ws \<subseteq> {0..<int W}
           \<and> (drop_last \<or> length ws \<le> sampled_count sampler bs' n)"
    using assms(10,12) unfolding table_serves_def fst_sizes by blast
  have disj: "\<forall>i \<in> fst ` set sizes. \<forall>j \<in> fst ` set sizes. i \<noteq> j \<longrightarrow> set (dict_get [] ?wo i) \<inter> set (dict_get [] ?wo j) = {}"
    using assms(10) unfolding table_serves_def fst_sizes by blast
  have "distinct (map fst sizes)" using assms(7) by (simp only: keys)
  from sample_shards_serve [OF assms(1,4,5,9) _ this data serves disj, of ?out shuffle rng] obtain out b' rng' where
    "foldM (\<lambda>st shard. sample_shard rops tops bs' shuffle drop_last sampler ?wo shard st) (?out, b, rng) sizes = Inr (out, b', rng')"
    "shard_data b' = shard_data b" "length out = W"
    and all: "\<forall>i \<in> fst ` set sizes. \<forall>w. int w \<in> set (dict_get [] ?wo i) \<longrightarrow>
          served ?wo (shard_data b) n drop_last (sampled_count sampler bs' n) out w"
    by auto
  moreover have "served ?wo (shard_data b) n drop_last (sampled_count sampler bs' n) out w" if "w < W" for w
  proof -
    have "int w \<in> {0..<int W}" using that by simp
    then obtain i where "i \<in> fst ` set sizes" "int w \<in> set (dict_get [] ?wo i)"
      using assms(10) unfolding table_serves_def fst_sizes by blast
    with all show ?thesis by blast
  qed
  ultimately show ?thesis unfolding run by blast
qed

definition demo_shard :: "(nat, (nat \<times> nat) list) storage" where
  "demo_shard =
     (new_storage list_tree 4 Circular Transition None default_processing False)
       \<lparr>st_container := \<lparr>dc_capacity = 4, dc_mode = Circular, dc_unit = Transition,
          dc_data = [Some [(''action'', 5)], Some [(''action'', 6)], None, None], dc_schema = True,
          dc_size = 2, dc_pointer = 2, dc_registry = [], dc_counter = [0, 0, -1, -1]\<rparr>\<rparr>"

definition demo_buffer :: "(nat, (nat \<times> nat) list) data_buffer" where
  "demo_buffer =
     \<lparr>db_config = \<lparr>bc_type = RolloutBuffer, bc_capacity = 4, bc_sampler = Some AllSampler, bc_auto_truncate_episode = False,
        bc_storage = \<lparr>st_mode = Circular, st_type = Unified, st_unit = Transition, st_device = Cpu, st_num_shards = None\<rparr>,
        bc_node_affinity_env = False, bc_node_affinity_train = False\<rparr>,
      db_table = Some (empty_table 1 [] False False\<lparr>et_train := [(0, [0, 1])]\<rparr>),
      db_storages = [(0, demo_shard)], db_sampler = Some AllSampler, db_processing = default_processing\<rparr>"

lemma demo_shard_readable: "readable list_tree 2 demo_shard"
  by (auto simp: readable_def demo_shard_def container_ok_def Let_def less_Suc_eq numeral_2_eq_2)

lemma sample_demo:
  "\<exists>out b' rng'. sample first_rng list_tree None True True demo_buffer 0 = Inr (out, b', rng')"
proof -
  have "(case sample first_rng list_tree None True True demo_buffer 0 of Inl _ \<Rightarrow> False | Inr _ \<Rightarrow> True)"
    by code_simp
  then show ?thesis by (auto split: sum.splits)
qed

lemma sample_serves_workers_witness:
  "\<exists>out b' rng'. sample first_rng list_tree None True True demo_buffer 0 = Inr (out, b', rng')
     \<and> length out = 2
     \<and> (\<forall>w < 2. served [(0, [0, 1])] (shard_data demo_buffer) 2 True 2 out w)"
proof -
  let ?b = demo_buffer
  have b: "all_readable list_tree 2 ?b" "db_storages ?b \<noteq> []" "dict_ok (db_storages ?b)"
    using demo_shard_readable by (simp_all add: all_readable_def demo_buffer_def)
  have bs: "batch_per_storage None (length (db_storages ?b)) = Inr None" "accepted AllSampler None 2"
    by (simp_all add: batch_per_storage_def accepted_def)
  have serves: "table_serves [(0, [0, 1])] (dict_keys (db_storages ?b)) 2"
    by (auto simp: table_serves_def demo_buffer_def dict_get_def)
  let ?t = "empty_table 1 [] False False\<lparr>et_train := [(0, [0, 1])]\<rparr>"
  have t: "db_table ?b = Some ?t" "db_sampler ?b = Some AllSampler" by (simp_all add: demo_buffer_def)
  have "sum_list (map length (dict_values (et_train ?t))) = 2" by simp
  from sample_serves_workers [OF first.np_random_axioms t b(1) _ b(2,3) bs _ this, of True True 0] serves
  show ?thesis by (auto simp: sampled_count_def)
qed

subsection \<open>Clearing and errors\<close>

definition same_episodes :: "('v, 't) data_buffer \<Rightarrow> ('v, 't) data_buffer \<Rightarrow> bool" where
  "same_episodes b b' \<longleftrightarrow> map (\<lambda>(i, s). (i, st_episodes s)) (db_storages b') = map (\<lambda>(i, s). (i, st_episodes s)) (db_storages b)"

lemma map_update_same:
  "map_of d k = Some v \<Longrightarrow> f v' = f v \<Longrightarrow> map (\<lambda>(k, v). (k, f v)) (AList.update k v' d) = map (\<lambda>(k, v). (k, f v)) d"
  by (induction d) (auto split: if_splits)

lemma buffer_get_frame: "buffer_get tops i idx b = Inr (res, b') \<Longrightarrow> same_episodes b b'"
  by (auto simp: buffer_get_def storage_get_def same_episodes_def result_simps)
     (erule map_update_same [where f = st_episodes], simp)

lemma same_episodes_trans: "same_episodes a b \<Longrightarrow> same_episodes b c \<Longrightarrow> same_episodes a c"
  by (simp add: same_episodes_def)

lemma read_shares_frame:
  assumes "read_shares tops i shares (out, b) = Inr (out', b')"
  shows "same_episodes b b'"
proof -
  have "same_episodes b (snd (out', b'))"
    using assms unfolding read_shares_def
  proof (rule foldM_invariant [where I = "\<lambda>st. same_episodes b (snd st)"])
    show "same_episodes b (snd (out, b))" by (simp add: same_episodes_def)
  next
    fix st x st'
    assume "same_episodes b (snd st)"
      "(case st of (out, b) \<Rightarrow> \<lambda>(worker, is). bind_result (buffer_get tops i (IdxArray (map int is)) b)
          (\<lambda>(res, b'). bind_result (store_at (Some res) worker out) (\<lambda>out'. Inr (out', b')))) x = Inr st'"
    then show "same_episodes b (snd st')"
      by (cases st; cases x) (auto simp: result_simps dest!: buffer_get_frame intro: same_episodes_trans)
  qed
  then show ?thesis by simp
qed

lemma sample_frame:
  assumes "sample rops tops bs shuffle drop_last b rng = Inr (out, b', rng')"
  shows "same_episodes b b'"
proof -
  obtain bs' sampler wo out0 sizes where
    "foldM (\<lambda>st shard. sample_shard rops tops bs' shuffle drop_last sampler wo shard st) (out0, b, rng) sizes = Inr (out, b', rng')"
    using assms by (auto simp: sample_def result_simps Let_def)
  then have "same_episodes b (fst (snd (out, b', rng')))"
  proof (rule foldM_invariant [where I = "\<lambda>st. same_episodes b (fst (snd st))"])
    show "same_episodes b (fst (snd (out0, b, rng)))" by (simp add: same_episodes_def)
  next
    fix st x st'
    assume "same_episodes b (fst (snd st))"
      "sample_shard rops tops bs' shuffle drop_last sampler wo x st = Inr st'"
    then show "same_episodes b (fst (snd st'))"
      by (cases st; cases x)
         (auto simp: sample_shard_def result_simps dest!: read_shares_frame intro: same_episodes_trans)
  qed
  then show ?thesis by simp
qed

lemma clear_storage_size: "interval_tree tops \<Longrightarrow> storage_size tops (clear_storage tops s) = 0"
  by (simp add: storage_size_def clear_storage_def container_len_def clear_container_def
      interval_tree.items_empty split: storage_unit.split)

text \<open>An on-policy buffer is emptied by sampling: after \<open>RolloutBuffer.sample\<close> returns no shard holds an
  entry, and every shard keeps the episodes that were still running.\<close>
theorem rollout_sample_clears:
  assumes "interval_tree tops" "rollout_sample rops tops bs shuffle drop_last b rng = Inr (out, b', rng')"
  shows "buffer_size tops b' = 0 \<and> same_episodes b b'"
proof -
  obtain b1 where b1: "sample rops tops bs shuffle drop_last b rng = Inr (out, b1, rng')" "b' = buffer_clear tops b1"
    using assms(2) by (auto simp: rollout_sample_def result_simps)
  have "same_episodes b1 b'"
    by (auto simp: b1(2) same_episodes_def buffer_clear_def clear_storage_def)
  moreover have "storage_size tops s = 0" if "s \<in> set (dict_values (db_storages b'))" for s
    using that clear_storage_size [OF assms(1)] by (auto simp: b1(2) buffer_clear_def)
  then have "buffer_size tops b' = 0" by (simp add: buffer_size_def sum_list_eq_0_iff)
  ultimately show ?thesis using sample_frame [OF b1(1)] same_episodes_trans by blast
qed

lemma rollout_sample_clears_witness:
  "\<exists>out b' rng'. rollout_sample first_rng list_tree None True True demo_buffer 0 = Inr (out, b', rng')
     \<and> buffer_size list_tree b' = 0"
proof -
  obtain out b' rng' where run: "rollout_sample first_rng list_tree None True True demo_buffer 0 = Inr (out, b', rng')"
    using sample_demo by (auto simp: rollout_sample_def)
  from rollout_sample_clears [OF lt.interval_tree_axioms this] run show ?thesis by blast
qed

text \<open>Shards of different sizes cannot be sampled: \<open>sample\<close> raises \<open>RuntimeError\<close> before it reads anything.\<close>
theorem sample_unequal_raises:
  assumes "batch_per_storage bs (length (db_storages b)) = Inr bs'"
    and "(i, s) \<in> set (db_storages b)" "(j, s') \<in> set (db_storages b)" "storage_size tops s \<noteq> storage_size tops s'"
  shows "sample rops tops bs shuffle drop_last b rng = Inl RuntimeError"
proof -
  define sizes where "sizes = map (\<lambda>(i, s). (i, storage_size tops s)) (db_storages b)"
  have "(i, storage_size tops s) \<in> set sizes" "(j, storage_size tops s') \<in> set sizes"
    using assms(2,3) by (force simp: sizes_def)+
  then have "\<not> list_all (\<lambda>(i, n). n = snd (hd sizes)) sizes"
    using assms(4) unfolding list_all_iff by (metis case_prodD)
  then have "guard RuntimeError (list_all (\<lambda>(i, n). n = snd (hd sizes)) sizes) = Inl RuntimeError"
    by (simp only: guard_simps)
  with assms(1) show ?thesis unfolding sample_def Let_def sizes_def by simp
qed

lemma sample_unequal_raises_witness:
  "sample first_rng list_tree (Some 4) True True
     (demo_buffer\<lparr>db_storages := [(0, demo_shard), (1, clear_storage list_tree demo_shard)]\<rparr>) 0 = Inl RuntimeError"
proof (rule sample_unequal_raises)
  let ?b = "demo_buffer\<lparr>db_storages := [(0, demo_shard), (1, clear_storage list_tree demo_shard)]\<rparr>"
  show "batch_per_storage (Some 4) (length (db_storages ?b)) = Inr (Some 2)"
    by (simp add: batch_per_storage_def)
  show "(0, demo_shard) \<in> set (db_storages ?b)" "(1, clear_storage list_tree demo_shard) \<in> set (db_storages ?b)"
    by simp_all
  show "storage_size list_tree demo_shard \<noteq> storage_size list_tree (clear_storage list_tree demo_shard)"
    by (simp add: readable_size [OF demo_shard_readable] clear_storage_size [OF lt.interval_tree_axioms])
qed

end
