(* ===== verification/Storage_Correct.thy ===== *)
theory Storage_Correct
  imports Storage_Node
begin

text \<open>
  What a storage shard does with what it is given: a finished episode ends in the ring with all its
  rows, and the default post-processing turns the transitions of an episode into rows that pair every
  observation with the action taken on it and with the outcome of that action.
\<close>

subsection \<open>The rows of a training episode\<close>

definition plain_policy_field :: "string \<Rightarrow> bool" where
  "plain_policy_field k \<longleftrightarrow> policy_field k \<and> \<not> contains_str ''info'' k \<and> \<not> starts_with ''last_'' k"

lemma env_columns:
  "contains_str ''info'' ''observation'' = False" "contains_str ''info'' ''last_reward'' = False"
  "contains_str ''info'' ''last_terminated'' = False" "contains_str ''info'' ''last_truncated'' = False"
  "contains_str ''info'' ''info'' = True"
  "starts_with ''last_'' ''observation'' = False" "starts_with ''last_'' ''last_reward'' = True"
  "starts_with ''last_'' ''last_terminated'' = True" "starts_with ''last_'' ''last_truncated'' = True"
  "policy_field ''observation'' = False" "policy_field ''last_reward'' = False"
  "policy_field ''last_terminated'' = False" "policy_field ''last_truncated'' = False"
  by (code_simp)+

lemma last_columns:
  "drop 5 ''last_reward'' = ''reward''" "drop 5 ''last_terminated'' = ''terminated''"
  "drop 5 ''last_truncated'' = ''truncated''"
  "(''last_reward'' = ''observation'') = False" "(''last_terminated'' = ''observation'') = False"
  "(''last_truncated'' = ''observation'') = False"
  by (code_simp)+

lemma column_names:
  "(''next_observation'' = ''observation'') = False" "(''next_observation'' = ''reward'') = False"
  "(''next_observation'' = ''terminated'') = False" "(''next_observation'' = ''truncated'') = False"
  "(''observation'' = ''reward'') = False" "(''observation'' = ''terminated'') = False"
  "(''observation'' = ''truncated'') = False" "(''reward'' = ''terminated'') = False"
  "(''reward'' = ''truncated'') = False" "(''terminated'' = ''truncated'') = False"
  by (code_simp)+

lemma postprocess_env_columns:
  "postprocess_column ''observation'' vs d = AList.update ''observation'' (butlast vs) (AList.update ''next_observation'' (drop 1 vs) d)"
  "postprocess_column ''last_reward'' vs d = AList.update ''reward'' (drop 1 vs) d"
  "postprocess_column ''last_terminated'' vs d = AList.update ''terminated'' (drop 1 vs) d"
  "postprocess_column ''last_truncated'' vs d = AList.update ''truncated'' (drop 1 vs) d"
  unfolding postprocess_column_def env_columns last_columns Let_def by (simp_all only: if_True if_False refl)

definition trained_columns :: "(string \<Rightarrow> 'v list) \<Rightarrow> string list \<Rightarrow> 'v episode" where
  "trained_columns col pks =
     [(''next_observation'', drop 1 (col ''observation'')), (''observation'', butlast (col ''observation'')),
      (''reward'', drop 1 (col ''last_reward'')), (''terminated'', drop 1 (col ''last_terminated'')),
      (''truncated'', drop 1 (col ''last_truncated''))] @ map (\<lambda>k. (k, butlast (col k))) pks"

lemma plain_policy_field_new:
  "plain_policy_field k \<Longrightarrow> k \<noteq> ''observation'' \<and> k \<noteq> ''next_observation'' \<and> k \<noteq> ''reward'' \<and> k \<noteq> ''terminated'' \<and> k \<noteq> ''truncated''"
  by (auto simp: plain_policy_field_def policy_field_def env_ret_fields_def processed_env_ret_fields_def)

lemma postprocess_policy_columns:
  assumes "\<forall>k \<in> set pks. plain_policy_field k \<and> col k \<noteq> []" "distinct (dict_keys d @ pks)"
  shows "foldM (\<lambda>d (k, vs). if contains_str ''info'' k then Inr d
         else if vs = [] then Inl IndexError else Inr (postprocess_column k vs d)) d (map (\<lambda>k. (k, col k)) pks)
     = Inr (d @ map (\<lambda>k. (k, butlast (col k))) pks)"
  using assms
proof (induction pks arbitrary: d)
  case (Cons k pks)
  then have "postprocess_column k (col k) d = d @ [(k, butlast (col k))]"
    using plain_policy_field_new [of k]
    by (simp add: postprocess_column_def plain_policy_field_def update_new)
  with Cons show ?case by (simp add: plain_policy_field_def)
qed simp

lemma default_postprocess_columns:
  assumes "\<forall>k \<in> set (env_ret_fields @ pks). col k \<noteq> []" "\<forall>k \<in> set pks. plain_policy_field k" "distinct pks"
  shows "default_postprocess_fn (map (\<lambda>k. (k, col k)) (env_ret_fields @ pks)) = Inr (trained_columns col pks)"
proof -
  let ?head = "trained_columns col []"
  have nonempty: "col ''observation'' \<noteq> []" "col ''last_reward'' \<noteq> []" "col ''last_terminated'' \<noteq> []" "col ''last_truncated'' \<noteq> []"
    using assms(1) by (simp_all add: env_ret_fields_def)
  have "foldM (\<lambda>d (k, vs). if contains_str ''info'' k then Inr d
         else if vs = [] then Inl IndexError else Inr (postprocess_column k vs d)) []
           (map (\<lambda>k. (k, col k)) env_ret_fields) = Inr ?head"
    unfolding env_ret_fields_def list.map foldM.simps prod.case env_columns if_False if_True
    by (simp only: nonempty if_False bind_result_Inr postprocess_env_columns update.simps column_names fst_conv
          trained_columns_def append.simps list.map if_True)
  moreover have "distinct (dict_keys ?head @ pks)"
  proof -
    have keys: "dict_keys ?head = [''next_observation'', ''observation'', ''reward'', ''terminated'', ''truncated'']"
      by (simp only: trained_columns_def list.map fst_conv append_Nil2)
    have "set (dict_keys ?head) \<inter> set pks = {}"
      unfolding keys using assms(2) plain_policy_field_new by (force simp only: list.set Int_iff insert_iff empty_iff)
    moreover have "distinct (dict_keys ?head)" unfolding keys by code_simp
    ultimately show ?thesis using assms(3) by (simp only: distinct_append)
  qed
  ultimately show ?thesis
    using postprocess_policy_columns [of pks col ?head] assms(1,2)
    by (simp add: default_postprocess_fn_def foldM_append) (simp add: trained_columns_def)
qed

text \<open>
  The row that the default post-processing makes of the transition at a step and its successor.
\<close>

definition training_row :: "string list \<Rightarrow> 'v transition \<Rightarrow> 'v transition \<Rightarrow> 'v transition" where
  "training_row pks now nxt =
     [(''next_observation'', the (map_of nxt ''observation'')), (''observation'', the (map_of now ''observation'')),
      (''reward'', the (map_of nxt ''last_reward'')), (''terminated'', the (map_of nxt ''last_terminated'')),
      (''truncated'', the (map_of nxt ''last_truncated''))] @ map (\<lambda>k. (k, the (map_of now k))) pks"

lemma finish_default:
  assumes "uniform (env_ret_fields @ pks) trs" "trs \<noteq> []" "\<forall>k \<in> set pks. plain_policy_field k"
  shows "finish default_postprocess_fn trs =
     Inr \<lparr>b_rows = map (\<lambda>t. training_row pks (trs ! t) (trs ! Suc t)) [0..<length trs - 1], b_sub = 1, b_len = None\<rparr>"
proof -
  let ?col = "\<lambda>k. column k trs"
  have len: "length (?col k) = length trs" for k by (simp add: column_def)
  have "distinct pks" using assms(1) by (simp add: uniform_def)
  then have post: "default_postprocess_fn (map (\<lambda>k. (k, ?col k)) (env_ret_fields @ pks)) = Inr (trained_columns ?col pks)"
    using assms(2,3) by (intro default_postprocess_columns) (auto simp: column_def)
  have lens: "list_all (\<lambda>(k, vs). length vs = length trs - 1) (trained_columns ?col pks)"
    by (auto simp: trained_columns_def list_all_iff len)
  have cells: "drop 1 (?col k) ! t = the (map_of (trs ! Suc t) k)" "butlast (?col k) ! t = the (map_of (trs ! t) k)"
    if "t < length trs - 1" for k t
    using that by (simp_all add: nth_butlast len column_def)
  have "map (\<lambda>(k, vs). (k, vs ! t)) (trained_columns ?col pks) = training_row pks (trs ! t) (trs ! Suc t)"
    if "t < length trs - 1" for t
    using cells [OF that] by (simp add: trained_columns_def training_row_def)
  then have "episode_batch (trained_columns ?col pks) =
     Inr \<lparr>b_rows = map (\<lambda>t. training_row pks (trs ! t) (trs ! Suc t)) [0..<length trs - 1], b_sub = 1, b_len = None\<rparr>"
    using lens by (simp add: episode_batch_def episode_length_def trained_columns_def len)
  then show ?thesis
    by (simp add: finish_def merge_uniform [OF assms(1,2)] post del: map_append)
qed

subsection \<open>From a transition to the ring\<close>

definition storage_ok :: "'t tree_ops \<Rightarrow> ('v, 't) storage \<Rightarrow> bool" where
  "storage_ok tops s \<longleftrightarrow> container_ok tops (st_container s) \<and> quiet (ae_done (st_episodes s))"

text \<open>An environment that is not vectorised, on a shard of whole episodes that truncates by itself.\<close>

definition episode_shard :: "('v, 't) storage \<Rightarrow> string \<Rightarrow> bool" where
  "episode_shard s e \<longleftrightarrow> ae_auto (st_episodes s) \<and> (\<exists>n \<le> 1. get_num_envs (st_episodes s) e = Inr n)
     \<and> dc_unit (st_container s) = Episode \<and> dc_mode (st_container s) = Circular"

definition running :: "('v, 't) storage \<Rightarrow> string \<Rightarrow> 'v transition list" where
  "running s e = dict_get [] (ae_buffer (st_episodes s)) e"

text \<open>C2: on a shard that rings episodes and truncates them automatically, a transition of an environment that is
  not vectorised, whose preprocessing succeeds, joins the running episode of its environment; when it is
  done, and merging and post-processing give an episode that is not empty and fits the ring, the episode
  is written to the ring, where its rows are then found as a registered episode, and the environment
  starts afresh. (The default post-processing of an episode of one transition gives no rows, which the
  push refuses.) The shard stays in order, and the
  running episodes of the other environments are untouched.\<close>
theorem storage_stores_episode:
  fixes s :: "('v, 't) storage" and vops :: "'v tensor_ops"
  assumes "interval_tree tops" "storage_ok tops s" "er_env_id er = e" "pr_env_id pr = e" "episode_shard s e"
    and "run_preprocess [] (Some er) (Some pr) (st_processing s) = Inr tr"
    and "judge_done vops tr \<Longrightarrow> finish (p_postprocess (st_processing s)) (running s e @ [tr]) = Inr b
           \<and> b_rows b \<noteq> [] \<and> b_sub b = 1 \<and> length (b_rows b) \<le> dc_capacity (st_container s)"
  shows "\<exists>s'. storage_add_transition vops tops er pr s = Inr s' \<and> storage_ok tops s' \<and> episode_shard s' e
     \<and> running s' e = (if judge_done vops tr then [] else running s e @ [tr])
     \<and> (\<forall>e'. e' \<noteq> e \<longrightarrow> running s' e' = running s e')
     \<and> (if judge_done vops tr
        then \<exists>iv \<in> set (t_items tops (dc_registry (st_container s'))).
               slice (fst iv) (snd iv) (dc_data (st_container s')) = map Some (b_rows b)
        else st_container s' = st_container s)"
proof -
  let ?post = "p_postprocess (st_processing s)" and ?c = "st_container s"
  from assms(5) obtain n where n: "get_num_envs (st_episodes s) e = Inr n" "n \<le> 1"
    and auto: "ae_auto (st_episodes s)" and unit: "dc_unit ?c = Episode" "dc_mode ?c = Circular"
    by (auto simp: episode_shard_def)
  have ok: "container_ok tops ?c" "quiet (ae_done (st_episodes s))" using assms(2) by (auto simp: storage_ok_def)
  have fin: "judge_done vops tr \<Longrightarrow> finish ?post (dict_get [] (ae_buffer (st_episodes s)) e @ [tr]) = Inr b"
    using assms(7) by (simp add: running_def)
  obtain a1 a2 where add: "add_active vops e tr (st_episodes s) = Inr a1"
    and pop: "pop_done_episode vops ?post (Some e) a1 = Inr (if judge_done vops tr then [b] else [], a2)"
    and a2: "ae_meta a2 = ae_meta (st_episodes s)" "ae_auto a2" "quiet (ae_done a2)"
      "\<forall>e'. dict_get [] (ae_buffer a2) e' = (if e' \<noteq> e then dict_get [] (ae_buffer (st_episodes s)) e'
           else if judge_done vops tr then [] else dict_get [] (ae_buffer (st_episodes s)) e @ [tr])"
    using add_step [OF n auto ok(2) fin, of vops] by blast
  have auto1: "ae_auto a1" using add n auto by (auto simp: add_active_def append_done_def Let_def)
  have num2: "get_num_envs a2 e = Inr n" using n(1) a2(1) by (simp add: get_num_envs_def)
  define s1 where "s1 = s\<lparr>st_transitions := AList.update e tr (st_transitions s), st_episodes := a1\<rparr>"
  have call: "storage_add_transition vops tops er pr s = store_done vops tops e s1"
    using assms(3,4,6) add by (simp add: storage_add_transition_def s1_def)
  show ?thesis
  proof (cases "judge_done vops tr")
    case False
    define s2 where "s2 = s1\<lparr>st_episodes := a2\<rparr>"
    have "storage_add_transition vops tops er pr s = Inr s2"
      unfolding call using auto1 pop False by (simp add: store_done_def s1_def s2_def)
    moreover have "storage_ok tops s2" "episode_shard s2 e"
      using ok(1) a2 num2 n(2) unit by (auto simp: storage_ok_def episode_shard_def s2_def s1_def)
    ultimately show ?thesis
      using a2(4) False by (intro exI [of _ s2]) (simp add: running_def s2_def s1_def)
  next
    case True
    have b: "finish ?post (running s e @ [tr]) = Inr b" "b_rows b \<noteq> []" "b_sub b = 1" "length (b_rows b) \<le> dc_capacity ?c"
      using assms(7) [OF True] by auto
    have "batch_ok b" using b(2,3) by (simp add: batch_ok_def)
    then obtain c' where c': "push tops b ?c = Inr c'" "container_ok tops c'"
        and frame: "dc_unit c' = Episode" "dc_mode c' = Circular"
        and eps: "\<forall>ep \<in> set (episodes_of b). \<exists>iv \<in> set (t_items tops (dc_registry c')). slice (fst iv) (snd iv) (dc_data c') = map Some ep"
      using interval_tree.push_episode [OF assms(1) ok(1) unit(1) \<open>batch_ok b\<close>] unit(2) b(4) by auto
    define s2 where "s2 = s1\<lparr>st_episodes := a2, st_container := c'\<rparr>"
    have "storage_add_transition vops tops er pr s = Inr s2"
      unfolding call using auto1 pop True c'(1) by (simp add: store_done_def s1_def s2_def push_list_def)
    moreover have "storage_ok tops s2" "episode_shard s2 e"
      using c'(2) frame a2 num2 n(2) by (auto simp: storage_ok_def episode_shard_def s2_def s1_def)
    moreover have "b_rows b \<in> set (episodes_of b)"
      using b(3) by (simp add: episodes_of_def sub_episodes_def slice_def)
    ultimately show ?thesis
      using a2(4) True eps by (intro exI [of _ s2]) (simp add: running_def s2_def s1_def)
  qed
qed

subsection \<open>From environment returns and responses to rows\<close>

lemma store_all_new: "distinct (dict_keys d @ dict_keys items) \<Longrightarrow> store_all d items = d @ items"
  unfolding store_all_def
proof (induction items arbitrary: d)
  case (Cons p items)
  then show ?case by (cases p) (simp add: update_new)
qed simp

definition plain_step :: "string list \<Rightarrow> 'v env_ret \<times> 'v policy_resp \<Rightarrow> bool" where
  "plain_step pks p \<longleftrightarrow> er_env_id (fst p) = pr_env_id (snd p) \<and> er_extra (fst p) = [] \<and> dict_keys (pr_fields (snd p)) = pks"

definition plain_keys :: "string list \<Rightarrow> bool" where
  "plain_keys pks \<longleftrightarrow> distinct pks \<and> (\<forall>k \<in> set pks. plain_policy_field k \<and> k \<noteq> ''env_id'' \<and> k \<noteq> ''ts_policy_sent_ns'')"

lemma env_ret_attrs_keys [simp]: "dict_keys (env_ret_attrs er) = env_ret_fields"
  by (simp add: env_ret_attrs_def env_ret_fields_def)

lemma env_ret_fields_distinct: "distinct env_ret_fields"
  unfolding env_ret_fields_def by code_simp

lemma plain_keys_distinct: "plain_keys pks \<Longrightarrow> distinct (env_ret_fields @ pks)"
  using env_ret_fields_distinct by (auto simp: plain_keys_def plain_policy_field_def policy_field_def)

lemma default_transition:
  assumes "plain_step pks (er, pr)" "plain_keys pks"
  shows "run_preprocess [] (Some er) (Some pr) default_processing = Inr (env_ret_attrs er @ pr_fields pr)"
proof -
  have "map_of (env_ret_attrs er) ''observation'' = Some (er_observation er)"
      "map_of (env_ret_attrs er) ''last_reward'' = Some (er_last_reward er)"
    unfolding env_ret_attrs_def by (simp_all only: map_of.simps fun_upd_apply fst_conv snd_conv last_columns if_True if_False
        refl eq_commute [of "''observation''"])
  then have "AList.update ''last_reward'' (er_last_reward er) (AList.update ''observation'' (er_observation er) (env_ret_attrs er))
      = env_ret_attrs er"
    by (simp only: update_triv)
  moreover have "env_ret_to_dict er = Inr (env_ret_attrs er)"
    using assms(1) by (simp add: env_ret_to_dict_def plain_step_def)
  moreover have "store_all [] (env_ret_attrs er) = env_ret_attrs er"
    by (subst store_all_new) (simp_all add: env_ret_fields_distinct)
  ultimately have env: "default_env_ret_preprocess_fn [] er (\<lambda>x. x) (\<lambda>x. x) = Inr (env_ret_attrs er)"
    by (simp add: default_env_ret_preprocess_fn_def)
  have "fst p \<in> set pks" if "p \<in> set (pr_fields pr)" for p
    using that assms(1) by (auto simp: plain_step_def)
  then have "policy_resp_to_dict pr = pr_fields pr"
    using assms(2) unfolding policy_resp_to_dict_def by (intro filter_True) (force simp: plain_keys_def)
  moreover have "store_all (env_ret_attrs er) (pr_fields pr) = env_ret_attrs er @ pr_fields pr"
    using plain_keys_distinct [OF assms(2)] assms(1) by (subst store_all_new) (simp_all add: plain_step_def)
  ultimately show ?thesis
    using env assms(1)
    by (simp add: run_preprocess_def default_processing_def default_preprocess_fn_def
        default_policy_resp_preprocess_fn_def plain_step_def)
qed

definition step_row :: "'v env_ret \<Rightarrow> 'v policy_resp \<Rightarrow> 'v env_ret \<Rightarrow> 'v transition" where
  "step_row er pr er' =
     [(''next_observation'', er_observation er'), (''observation'', er_observation er),
      (''reward'', er_last_reward er'), (''terminated'', er_last_terminated er'),
      (''truncated'', er_last_truncated er')] @ pr_fields pr"

lemma map_of_env_attrs:
  "map_of (env_ret_attrs er @ d) ''observation'' = Some (er_observation er)"
  "map_of (env_ret_attrs er @ d) ''last_reward'' = Some (er_last_reward er)"
  "map_of (env_ret_attrs er @ d) ''last_terminated'' = Some (er_last_terminated er)"
  "map_of (env_ret_attrs er @ d) ''last_truncated'' = Some (er_last_truncated er)"
  by (simp_all add: env_ret_attrs_def)

lemma training_row_step:
  assumes "plain_step pks (er, pr)" "plain_keys pks"
  shows "training_row pks (env_ret_attrs er @ pr_fields pr) (env_ret_attrs er' @ d) = step_row er pr er'"
proof -
  have "the (map_of (env_ret_attrs er @ pr_fields pr) k) = the (map_of (pr_fields pr) k)" if "k \<in> set pks" for k
  proof -
    have "k \<notin> set (dict_keys (env_ret_attrs er))"
      using plain_keys_distinct [OF assms(2)] that by auto
    then have "map_of (env_ret_attrs er) k = None" by (simp only: map_of_eq_None_iff set_map not_False_eq_True)
    then show ?thesis by (simp add: map_add_def split: option.splits)
  qed
  then have "map (\<lambda>k. (k, the (map_of (env_ret_attrs er @ pr_fields pr) k))) pks
      = map (\<lambda>k. (k, the (map_of (pr_fields pr) k))) pks"
    by (intro map_cong) (auto simp del: map_of_append)
  also have "\<dots> = pr_fields pr"
  proof -
    have "dict_keys (pr_fields pr) = pks" "distinct pks"
      using assms by (simp_all add: plain_step_def plain_keys_def)
    then show ?thesis using dict_row [of "pr_fields pr"] by (simp only:)
  qed
  finally show ?thesis
    unfolding training_row_def step_row_def map_of_env_attrs by simp
qed

text \<open>C5: training rows: the default processing of an episode of \<open>n\<close> steps gives \<open>n - 1\<close> rows; the row of
  a step pairs its observation and the policy's response to it with the observation, the reward and
  the end flags that the environment returned next.\<close>
theorem training_rows:
  fixes steps :: "('v env_ret \<times> 'v policy_resp) list"
  assumes "steps \<noteq> []" "\<forall>p \<in> set steps. plain_step pks p" "plain_keys pks"
  shows "\<exists>trs. mapM (\<lambda>(er, pr). run_preprocess [] (Some er) (Some pr) default_processing) steps = Inr trs
     \<and> finish default_postprocess_fn trs =
         Inr \<lparr>b_rows = map (\<lambda>t. step_row (fst (steps ! t)) (snd (steps ! t)) (fst (steps ! Suc t))) [0..<length steps - 1],
              b_sub = 1, b_len = None\<rparr>"
proof -
  define trs where "trs = map (\<lambda>(er, pr). env_ret_attrs er @ pr_fields pr) steps"
  have "mapM (\<lambda>(er, pr). run_preprocess [] (Some er) (Some pr) default_processing) steps
      = mapM (\<lambda>p. Inr (case p of (er, pr) \<Rightarrow> env_ret_attrs er @ pr_fields pr)) steps"
    using assms(2,3) by (intro mapM_cong) (auto simp: default_transition)
  then have trs: "mapM (\<lambda>(er, pr). run_preprocess [] (Some er) (Some pr) default_processing) steps = Inr trs"
    by (simp add: trs_def)
  have "env_ret_fields @ pks \<noteq> []" by (simp add: env_ret_fields_def)
  then have "uniform (env_ret_fields @ pks) trs"
    unfolding uniform_def using plain_keys_distinct [OF assms(3)] assms(2) by (auto simp: trs_def plain_step_def)
  moreover have "trs \<noteq> []" using assms(1) by (simp add: trs_def)
  moreover have "\<forall>k \<in> set pks. plain_policy_field k" using assms(3) by (simp add: plain_keys_def)
  ultimately have "finish default_postprocess_fn trs =
     Inr \<lparr>b_rows = map (\<lambda>t. training_row pks (trs ! t) (trs ! Suc t)) [0..<length trs - 1], b_sub = 1, b_len = None\<rparr>"
    by (rule finish_default)
  moreover have "training_row pks (trs ! t) (trs ! Suc t) = step_row (fst (steps ! t)) (snd (steps ! t)) (fst (steps ! Suc t))"
    if "t < length steps - 1" for t
    using that assms(2,3) training_row_step [of pks "fst (steps ! t)" "snd (steps ! t)"]
    by (simp add: trs_def case_prod_unfold)
  ultimately show ?thesis
    using trs by (auto simp: trs_def)
qed

definition demo_ret :: "nat \<Rightarrow> nat \<Rightarrow> nat list env_ret" where
  "demo_ret obs is_last =
     \<lparr>er_env_id = ''e-0'', er_observation = [obs], er_last_reward = [10 * obs], er_last_terminated = [is_last],
      er_last_truncated = [0], er_info = [0], er_extra = [], er_sent = 0\<rparr>"

definition demo_resp :: "nat \<Rightarrow> nat list policy_resp" where
  "demo_resp a = \<lparr>pr_env_id = ''e-0'', pr_fields = [(''action'', [a])], pr_policy_sent = None\<rparr>"

lemma demo_plain: "plain_step [''action''] (demo_ret obs l, demo_resp a)" "plain_keys [''action'']"
  by (simp_all add: plain_step_def demo_ret_def demo_resp_def) code_simp

lemma training_rows_witness:
  "\<exists>trs. mapM (\<lambda>(er, pr). run_preprocess [] (Some er) (Some pr) default_processing)
            [(demo_ret 1 0, demo_resp 7), (demo_ret 2 0, demo_resp 8), (demo_ret 3 1, demo_resp 9)] = Inr trs
     \<and> map_sum id b_rows (finish default_postprocess_fn trs) =
         Inr [step_row (demo_ret 1 0) (demo_resp 7) (demo_ret 2 0), step_row (demo_ret 2 0) (demo_resp 8) (demo_ret 3 1)]"
proof -
  let ?steps = "[(demo_ret 1 0, demo_resp 7), (demo_ret 2 0, demo_resp 8), (demo_ret 3 1, demo_resp 9)]"
  have "?steps \<noteq> []" "\<forall>p \<in> set ?steps. plain_step [''action''] p" by (simp_all add: demo_plain)
  from training_rows [OF this demo_plain(2)] obtain trs where
    "mapM (\<lambda>(er, pr). run_preprocess [] (Some er) (Some pr) default_processing) ?steps = Inr trs"
    "finish default_postprocess_fn trs =
         Inr \<lparr>b_rows = map (\<lambda>t. step_row (fst (?steps ! t)) (snd (?steps ! t)) (fst (?steps ! Suc t))) [0..<length ?steps - 1],
              b_sub = 1, b_len = None\<rparr>"
    by blast
  then show ?thesis by (intro exI [of _ trs]) (simp add: upt_rec)
qed

definition demo_storage :: "(nat list, (nat \<times> nat) list) storage" where
  "demo_storage =
     new_storage list_tree 4 Circular Episode None (default_processing\<lparr>p_postprocess := Inr\<rparr>) True"

lemma storage_stores_episode_witness:
  "\<exists>s' tr. storage_add_transition nat_tensors list_tree (demo_ret 5 1) (demo_resp 7) demo_storage = Inr s'
     \<and> running s' ''e-0'' = []
     \<and> (\<exists>iv \<in> set (dc_registry (st_container s')). slice (fst iv) (snd iv) (dc_data (st_container s')) = [Some tr])"
proof -
  define tr where "tr = env_ret_attrs (demo_ret 5 1) @ pr_fields (demo_resp 7)"
  define b where "b = \<lparr>b_rows = [tr], b_sub = 1, b_len = None :: nat option\<rparr>"
  have tr: "run_preprocess [] (Some (demo_ret 5 1)) (Some (demo_resp 7)) (st_processing demo_storage) = Inr tr"
    using default_transition [OF demo_plain, of 5 1 7]
    by (simp add: tr_def demo_storage_def new_storage_def run_preprocess_def default_processing_def)
  have keys: "dict_keys tr = env_ret_fields @ [''action'']"
    by (simp add: tr_def demo_resp_def)
  have "uniform (env_ret_fields @ [''action'']) [tr]"
    unfolding uniform_def using plain_keys_distinct [OF demo_plain(2)] keys by (simp add: env_ret_fields_def)
  then have fin: "finish Inr (running demo_storage ''e-0'' @ [tr]) = Inr b"
    by (simp add: finish_uniform b_def running_def demo_storage_def new_storage_def)
  have is_done: "judge_done nat_tensors tr"
    by (simp add: tr_def demo_ret_def env_ret_attrs_def judge_done_def nat_tensors_def)
  have "storage_ok list_tree demo_storage"
    by (simp add: storage_ok_def demo_storage_def new_storage_def new_container_ok lt.interval_tree_axioms quiet_def)
  moreover have "episode_shard demo_storage ''e-0''"
    by (simp add: episode_shard_def demo_storage_def new_storage_def get_num_envs_def new_active_episodes_def
        new_container_def exI [of _ 1])
  moreover have "finish (p_postprocess (st_processing demo_storage)) (running demo_storage ''e-0'' @ [tr]) = Inr b
           \<and> b_rows b \<noteq> [] \<and> b_sub b = 1 \<and> length (b_rows b) \<le> dc_capacity (st_container demo_storage)"
    using fin by (simp add: b_def demo_storage_def new_storage_def new_container_def)
  ultimately obtain s' where "storage_add_transition nat_tensors list_tree (demo_ret 5 1) (demo_resp 7) demo_storage = Inr s'"
    "running s' ''e-0'' = []"
    "\<exists>iv \<in> set (t_items list_tree (dc_registry (st_container s'))).
        slice (fst iv) (snd iv) (dc_data (st_container s')) = map Some (b_rows b)"
    using storage_stores_episode [OF lt.interval_tree_axioms, of demo_storage "demo_ret 5 1" "''e-0''" "demo_resp 7" tr nat_tensors b]
      tr is_done by (auto simp: demo_ret_def demo_resp_def)
  then show ?thesis by (intro exI [of _ s'] exI [of _ tr]) (simp add: b_def)
qed

subsection \<open>Episodes without rows\<close>

text \<open>The default processing refuses an episode of a single transition: it has no row, and a shard of
  episodes raises \<open>ValueError\<close> from the registry instead of dropping it.\<close>
theorem single_transition_episode_raises:
  fixes s :: "('v, 't) storage"
  assumes "interval_tree tops" "storage_ok tops s" "episode_shard s (er_env_id er)"
    and "st_processing s = default_processing" "plain_step pks (er, pr)" "plain_keys pks"
    and "running s (er_env_id er) = []" "judge_done vops (env_ret_attrs er @ pr_fields pr)"
  shows "storage_add_transition vops tops er pr s = Inl ValueError"
proof -
  let ?tr = "env_ret_attrs er @ pr_fields pr" and ?e = "er_env_id er"
  define b where "b = \<lparr>b_rows = [] :: 'v transition list, b_sub = 1, b_len = None :: nat option\<rparr>"
  have keys: "dict_keys ?tr = env_ret_fields @ pks" using assms(5) by (simp add: plain_step_def)
  have "uniform (env_ret_fields @ pks) [?tr]"
    unfolding uniform_def using plain_keys_distinct [OF assms(6)] keys by (simp add: env_ret_fields_def)
  moreover have "\<forall>k \<in> set pks. plain_policy_field k" using assms(6) by (simp add: plain_keys_def)
  ultimately have fin: "finish default_postprocess_fn [?tr] = Inr b"
    using finish_default [of pks "[?tr]"] by (simp add: b_def)
  from assms(3) obtain n where n: "get_num_envs (st_episodes s) ?e = Inr n" "n \<le> 1"
    and auto: "ae_auto (st_episodes s)" and unit: "dc_unit (st_container s) = Episode"
    by (auto simp: episode_shard_def)
  have q: "quiet (ae_done (st_episodes s))" and room: "dc_pointer (st_container s) \<le> dc_capacity (st_container s)"
    using assms(2) by (auto simp: storage_ok_def container_ok_def Let_def)
  have "judge_done vops ?tr \<Longrightarrow> finish default_postprocess_fn (dict_get [] (ae_buffer (st_episodes s)) ?e @ [?tr]) = Inr b"
    using fin assms(7) by (simp add: running_def)
  from add_step [OF n auto q this, of vops] assms(8) obtain a1 a2 where
    add: "add_active vops ?e ?tr (st_episodes s) = Inr a1"
    and pop: "pop_done_episode vops default_postprocess_fn (Some ?e) a1 = Inr ([b], a2)"
    by auto
  have auto1: "ae_auto a1" using add n auto by (auto simp: add_active_def append_done_def Let_def)
  have "push tops b (st_container s) = Inl ValueError"
    using unit room interval_tree.addi_null [OF assms(1)]
    by (simp add: push_def b_def register_at_def Let_def)
  moreover have "p_postprocess (default_processing :: 'v processing) = default_postprocess_fn"
    by (simp add: default_processing_def)
  ultimately show ?thesis
    using add pop auto1 assms(4,5) default_transition [OF assms(5,6)]
    by (simp add: storage_add_transition_def store_done_def push_list_def plain_step_def)
qed

lemma single_transition_episode_raises_witness:
  "storage_add_transition nat_tensors list_tree (demo_ret 5 1) (demo_resp 7)
     (new_storage list_tree 4 Circular Episode None default_processing True) = Inl ValueError"
proof (rule single_transition_episode_raises [OF lt.interval_tree_axioms _ _ _ demo_plain])
  let ?s = "new_storage list_tree 4 Circular Episode None default_processing True :: (nat list, (nat \<times> nat) list) storage"
  show "storage_ok list_tree ?s"
    by (simp add: storage_ok_def new_storage_def new_container_ok lt.interval_tree_axioms quiet_def)
  show "episode_shard ?s (er_env_id (demo_ret 5 1))"
    by (simp add: episode_shard_def new_storage_def get_num_envs_def new_active_episodes_def new_container_def exI [of _ 1])
  show "judge_done nat_tensors (env_ret_attrs (demo_ret 5 1) @ pr_fields (demo_resp 7))"
    by (simp add: demo_ret_def env_ret_attrs_def judge_done_def nat_tensors_def)
qed (simp_all add: new_storage_def running_def)

end
