(* ===== verification/Task_Submitter.thy ===== *)
theory Task_Submitter
  imports Cluster_Info
begin

text \<open>
  \<open>TaskSubmitter\<close> of \<open>rlightning/utils/ray/task_submitter.py\<close>: the references of the tasks each Ray
  worker has not finished, and the limit on their number. \<open>ray.wait\<close> is not part of the repository:
  \<open>poll\<close> is its call with \<open>timeout=0\<close> (at most one finished reference is taken out) and \<open>wait k\<close> the
  call that blocks until \<open>k\<close> references have finished; both give the references that are left. The
  reference of the submitted task and the value of a local call are arguments. The lock makes the
  body of \<open>submit\<close> one step.
\<close>

record ('w, 'r) submitter =
  ts_max :: int
  ts_pending :: "('w, 'r list) dict"

definition new_submitter :: "int \<Rightarrow> ('w, 'r) submitter result" where
  "new_submitter n = bind_result (guard ValueError (n \<ge> 0)) (\<lambda>_. Inr \<lparr>ts_max = n, ts_pending = []\<rparr>)"

definition poll_pending :: "('r list \<Rightarrow> 'r list) \<Rightarrow> 'r list \<Rightarrow> 'r list" where
  "poll_pending poll refs = (if length refs > 0 then poll refs else refs)"

definition wait_for_room :: "(int \<Rightarrow> 'r list \<Rightarrow> 'r list result) \<Rightarrow> int \<Rightarrow> 'r list \<Rightarrow> 'r list result" where
  "wait_for_room wait n refs =
     (if int (length refs) > n - 1 then wait (int (length refs) - (n - 1)) refs else Inr refs)"

definition submit_remote ::
    "('r list \<Rightarrow> 'r list) \<Rightarrow> (int \<Rightarrow> 'r list \<Rightarrow> 'r list result) \<Rightarrow> 'w \<Rightarrow> 'r \<Rightarrow> bool
       \<Rightarrow> ('w, 'r) submitter \<Rightarrow> ('r \<times> ('w, 'r) submitter) result" where
  "submit_remote poll wait w ref block s =
     bind_result (wait_for_room wait (ts_max s) (poll_pending poll (dict_get [] (ts_pending s) w))) (\<lambda>left.
     Inr (ref, if block then s else s\<lparr>ts_pending := AList.update w (left @ [ref]) (ts_pending s)\<rparr>))"

text \<open>A method of a local object is called with its arguments resolved.\<close>

definition submit_local ::
    "('r \<Rightarrow> ('r, 'v) pyobj) \<Rightarrow> (('r, 'v) pyobj \<Rightarrow> 'a result) \<Rightarrow> ('r, 'v) pyobj \<Rightarrow> 'a result" where
  "submit_local get f args = f (resolve_object get args)"

subsection \<open>The contract of ray.wait\<close>

locale ray_wait =
  fixes poll :: "'r list \<Rightarrow> 'r list"
    and wait :: "int \<Rightarrow> 'r list \<Rightarrow> 'r list result"
  assumes poll: "set (poll refs) \<subseteq> set refs" "length (poll refs) \<le> length refs" "length refs \<le> length (poll refs) + 1"
    and wait: "1 \<le> k \<Longrightarrow> k \<le> int (length refs) \<Longrightarrow>
                 \<exists>left. wait k refs = Inr left \<and> set left \<subseteq> set refs \<and> int (length left) = int (length refs) - k"
    and wait_too_many: "refs \<noteq> [] \<Longrightarrow> int (length refs) < k \<Longrightarrow> wait k refs = Inl ValueError"
begin

lemma poll_pending: "set (poll_pending poll refs) \<subseteq> set refs" "length (poll_pending poll refs) \<le> length refs"
  using poll by (auto simp: poll_pending_def)

lemma room:
  assumes "1 \<le> n"
  shows "\<exists>left. wait_for_room wait n refs = Inr left \<and> set left \<subseteq> set refs \<and> int (length left) \<le> n - 1"
proof (cases "int (length refs) > n - 1")
  case True
  then have "1 \<le> int (length refs) - (n - 1)" "int (length refs) - (n - 1) \<le> int (length refs)"
    using assms by simp_all
  from wait [OF this] True show ?thesis by (auto simp: wait_for_room_def)
next
  case False
  then show ?thesis by (simp add: wait_for_room_def)
qed

lemma submit_room:
  assumes "1 \<le> ts_max s"
  shows "\<exists>s'. submit_remote poll wait w ref block s = Inr (ref, s') \<and> ts_max s' = ts_max s
     \<and> (\<forall>w'. w' \<noteq> w \<longrightarrow> dict_get [] (ts_pending s') w' = dict_get [] (ts_pending s) w')
     \<and> (if block then s' = s
        else set (dict_get [] (ts_pending s') w) \<subseteq> insert ref (set (dict_get [] (ts_pending s) w))
           \<and> int (length (dict_get [] (ts_pending s') w)) \<le> ts_max s
           \<and> last (dict_get [] (ts_pending s') w) = ref)"
proof -
  let ?refs = "poll_pending poll (dict_get [] (ts_pending s) w)"
  obtain left where left: "wait_for_room wait (ts_max s) ?refs = Inr left" "set left \<subseteq> set ?refs"
      "int (length left) \<le> ts_max s - 1"
    using room [OF assms] by blast
  have "set left \<subseteq> set (dict_get [] (ts_pending s) w)" using left(2) poll_pending(1) by blast
  with left(1,3) show ?thesis
    by (cases block) (auto simp: submit_remote_def)
qed

lemma submit_zero:
  assumes "ts_max s = 0" "poll_pending poll (dict_get [] (ts_pending s) w) \<noteq> []"
  shows "submit_remote poll wait w ref block s = Inl ValueError"
  using assms wait_too_many [of "poll_pending poll (dict_get [] (ts_pending s) w)"]
  by (simp add: submit_remote_def wait_for_room_def)

end

text \<open>\<open>ray.wait\<close> on a cluster where tasks finish in the order they were submitted.\<close>

definition fifo_poll :: "'r list \<Rightarrow> 'r list" where
  "fifo_poll refs = drop 1 refs"

definition fifo_wait :: "int \<Rightarrow> 'r list \<Rightarrow> 'r list result" where
  "fifo_wait k refs = (if int (length refs) < k then Inl ValueError else Inr (drop (nat k) refs))"

interpretation fifo: ray_wait fifo_poll fifo_wait
  by unfold_locales (auto simp: fifo_poll_def fifo_wait_def dest: in_set_dropD)

subsection \<open>Runs\<close>

text \<open>A run of submissions: the worker, the reference of the task, and whether the caller blocks.\<close>

definition submit_all ::
    "('r list \<Rightarrow> 'r list) \<Rightarrow> (int \<Rightarrow> 'r list \<Rightarrow> 'r list result) \<Rightarrow> ('w \<times> 'r \<times> bool) list
       \<Rightarrow> ('w, 'r) submitter \<Rightarrow> ('w, 'r) submitter result" where
  "submit_all poll wait calls s =
     foldM (\<lambda>s (w, ref, block). bind_result (submit_remote poll wait w ref block s) (\<lambda>(_, s'). Inr s')) s calls"

text \<open>C9: backpressure: with a limit of at least 1 no submission fails, and after any run of submissions
  to any workers no worker has more than the limit of tasks recorded as pending, all of them tasks
  submitted to that worker without blocking.\<close>
theorem submit_bounds_pending:
  fixes poll :: "'r list \<Rightarrow> 'r list" and calls :: "('w \<times> 'r \<times> bool) list"
  assumes "ray_wait poll wait" "1 \<le> n"
  shows "\<exists>s0 s. new_submitter n = Inr s0 \<and> submit_all poll wait calls s0 = Inr s
     \<and> (\<forall>w. int (length (dict_get [] (ts_pending s) w)) \<le> n
          \<and> set (dict_get [] (ts_pending s) w) \<subseteq> {ref. (w, ref, False) \<in> set calls})"
proof -
  define s0 :: "('w, 'r) submitter" where "s0 = \<lparr>ts_max = n, ts_pending = []\<rparr>"
  define I where "I s \<longleftrightarrow> ts_max s = n \<and> (\<forall>w. int (length (dict_get [] (ts_pending s) w)) \<le> n
          \<and> set (dict_get [] (ts_pending s) w) \<subseteq> {ref. (w, ref, False) \<in> set calls})" for s :: "('w, 'r) submitter"
  have step: "\<exists>t'. (case x of (w, ref, block) \<Rightarrow> bind_result (submit_remote poll wait w ref block t) (\<lambda>(_, s'). Inr s')) = Inr t' \<and> I t'"
    if x: "x \<in> set calls" and I: "I t" for t x
  proof -
    obtain w ref block where call: "x = (w, ref, block)" by (cases x)
    from I have "1 \<le> ts_max t" using assms(2) by (simp add: I_def)
    from ray_wait.submit_room [OF assms(1) this, of w ref block] obtain t' where
      t': "submit_remote poll wait w ref block t = Inr (ref, t')" "ts_max t' = ts_max t"
        "\<And>w'. w' \<noteq> w \<Longrightarrow> dict_get [] (ts_pending t') w' = dict_get [] (ts_pending t) w'"
        "if block then t' = t
         else set (dict_get [] (ts_pending t') w) \<subseteq> insert ref (set (dict_get [] (ts_pending t) w))
           \<and> int (length (dict_get [] (ts_pending t') w)) \<le> ts_max t" by metis
    have "I t'" unfolding I_def
    proof (intro conjI allI)
      show "ts_max t' = n" using I t'(2) by (simp add: I_def)
      fix w'
      show "int (length (dict_get [] (ts_pending t') w')) \<le> n"
        using t'(3,4) I by (cases "w' = w"; cases block) (auto simp: I_def)
      show "set (dict_get [] (ts_pending t') w') \<subseteq> {ref. (w', ref, False) \<in> set calls}"
        using t'(3) [of w'] t'(4) I x by (cases "w' = w"; cases block) (auto simp: I_def call)
    qed
    with t'(1) show ?thesis by (simp add: call)
  qed
  have "I s0" using assms(2) by (simp add: I_def s0_def)
  then have "\<exists>s. submit_all poll wait calls s0 = Inr s \<and> I s"
    unfolding submit_all_def by (rule foldM_total [where I = I]) (rule step)
  then obtain s where "submit_all poll wait calls s0 = Inr s" "I s" by blast
  moreover have "new_submitter n = Inr s0" using assms(2) by (simp add: new_submitter_def s0_def)
  ultimately show ?thesis unfolding I_def by blast
qed

lemma submit_bounds_pending_witness:
  "\<exists>s0 s. new_submitter 2 = Inr s0
     \<and> submit_all fifo_poll fifo_wait [(''a'', 1::nat, False), (''a'', 2, False), (''b'', 3, True), (''a'', 4, False)] s0 = Inr s
     \<and> (\<forall>w. int (length (dict_get [] (ts_pending s) w)) \<le> 2)"
  using submit_bounds_pending [OF fifo.ray_wait_axioms, of 2] by (metis one_le_numeral)

text \<open>The limit 0, which the constructor accepts, cannot be kept: a submission to a worker that still
  has an unfinished task raises \<open>ValueError\<close>, because it waits for one task more than there are.\<close>
theorem submit_zero_raises:
  assumes "ray_wait poll wait" "new_submitter 0 = Inr s0" "ts_max s = ts_max s0"
    and "poll_pending poll (dict_get [] (ts_pending s) w) \<noteq> []"
  shows "submit_remote poll wait w ref block s = Inl ValueError"
proof -
  have "ts_max s = 0" using assms(2,3) by (auto simp: new_submitter_def)
  then show ?thesis by (rule ray_wait.submit_zero [OF assms(1) _ assms(4)])
qed

lemma submit_zero_raises_witness:
  "submit_remote fifo_poll fifo_wait ''a'' (3::nat) False \<lparr>ts_max = 0, ts_pending = [(''a'', [1, 2])]\<rparr> = Inl ValueError"
  by (rule submit_zero_raises [OF fifo.ray_wait_axioms, of "\<lparr>ts_max = 0, ts_pending = []\<rparr>"])
     (simp_all add: new_submitter_def poll_pending_def dict_get_def fifo_poll_def)

end
