(* ===== verification/Placement.thy ===== *)
theory Placement
  imports Pool_Planner Component_Distribution
begin

text \<open>
  \<open>rlightning/utils/placement/placement_strategies.py\<close> and \<open>placement_manager.py\<close>: packing workers on
  the GPU units of the nodes of a pool, the placement groups and the component distribution that
  follow, and the manager that plans the pools and places them. A Ray placement group is the list of
  its bundles; waiting for it to be ready is not modelled. The buffer of a node keeps the very list of
  train worker ids of the distribution, so the map from buffer to train workers is stored as a map
  from buffer to node and read through the distribution.
\<close>

record resource_bundle =
  bu_gpu :: nat
  bu_cpu :: int

record placement =
  ps_sched :: component_scheduling
  ps_locations :: "(string, (string \<times> nat) list) dict"
  ps_placed :: "(string, nat) dict"
  ps_total :: "(string, int) dict"
  ps_distribution :: distribution
  ps_storage_nodes :: "(nat, string) dict"
  ps_groups :: "(string, resource_bundle list) dict"

definition new_placement :: "component_scheduling \<Rightarrow> placement" where
  "new_placement s =
     \<lparr>ps_sched = s, ps_locations = [(''train'', []), (''buffer'', []), (''eval'', []), (''env'', [])],
      ps_placed = [], ps_total = [], ps_distribution = [], ps_storage_nodes = [], ps_groups = []\<rparr>"

definition cpu_only_components :: "string list" where
  "cpu_only_components = [''buffer'']"

subsection \<open>Packing workers on GPU units\<close>

definition empty_entry :: component_entry where
  "empty_entry = \<lparr>ce_count = 0, ce_ids = []\<rparr>"

text \<open>\<open>distribution.setdefault(node, {}).setdefault(ct, {"count": 0, "ids": []})\<close>, then the new id\<close>

definition add_worker :: "string \<Rightarrow> string \<Rightarrow> int \<Rightarrow> distribution \<Rightarrow> distribution" where
  "add_worker node ct wid d =
     (let comps = dict_get [] d node; e = dict_get empty_entry comps ct
      in AList.update node
           (AList.update ct \<lparr>ce_count = ce_count e + 1, ce_ids = ce_ids e @ [wid]\<rparr> comps) d)"

record packing =
  pk_left :: "rat list"
  pk_cpu :: "int list"
  pk_units :: "nat list"
  pk_placed :: nat
  pk_distribution :: distribution

text \<open>
  The \<open>while\<close> loop on unit \<open>u\<close> over the requirements of the workers not yet placed; \<open>pk_units\<close> are the
  units of the workers placed by this call, in order.
\<close>

definition place_one :: "string \<Rightarrow> string \<Rightarrow> int \<Rightarrow> nat \<Rightarrow> rat \<Rightarrow> packing \<Rightarrow> packing" where
  "place_one node ct cpu u req p =
     \<lparr>pk_left = (pk_left p)[u := pk_left p ! u - req], pk_cpu = (pk_cpu p)[u := pk_cpu p ! u + cpu],
      pk_units = pk_units p @ [u], pk_placed = pk_placed p + 1,
      pk_distribution = add_worker node ct (int (pk_placed p)) (pk_distribution p)\<rparr>"

fun place_on_unit :: "string \<Rightarrow> string \<Rightarrow> int \<Rightarrow> nat \<Rightarrow> rat list \<Rightarrow> packing \<Rightarrow> packing" where
  "place_on_unit node ct cpu u [] p = p"
| "place_on_unit node ct cpu u (req # reqs) p =
     (if pk_left p ! u \<ge> req then place_on_unit node ct cpu u reqs (place_one node ct cpu u req p) else p)"

definition expand_units :: "(int \<times> int) list \<Rightarrow> int list result" where
  "expand_units allocations =
     bind_result (mapM (\<lambda>(s, e). bind_result (guard AssertionError (s \<le> e)) (\<lambda>_. Inr (py_range s (e + 1)))) allocations)
       (\<lambda>us. Inr (concat us))"

definition pack_workers ::
    "(int \<times> int) list \<Rightarrow> string \<Rightarrow> string \<Rightarrow> int list \<Rightarrow> nat \<Rightarrow> int \<Rightarrow> rat list \<Rightarrow> int \<Rightarrow> distribution \<Rightarrow> packing result" where
  "pack_workers allocations node ct cpus placed limit reqs cpu dist0 =
     (let p0 = \<lparr>pk_left = replicate (length cpus) 1, pk_cpu = cpus, pk_units = [], pk_placed = placed,
                pk_distribution = dist0\<rparr>
      in if allocations = [] then Inr p0
         else bind_result (expand_units allocations) (\<lambda>us.
           foldM (\<lambda>p u.
             bind_result (guard RuntimeError (0 \<le> u \<and> u < int (length cpus))) (\<lambda>_.
             Inr (place_on_unit node ct cpu (nat u) (drop (pk_placed p) (take (nat limit) reqs)) p))) p0 us))"

subsection \<open>Placement groups of a pool\<close>

definition workers_of :: "scheduling \<Rightarrow> int result" where
  "workers_of s = (case worker_num s of Auto \<Rightarrow> Inl TypeError | Workers n \<Rightarrow> Inr n)"

definition component_worker :: "component_scheduling \<Rightarrow> string \<Rightarrow> scheduling result" where
  "component_worker s ct =
     (if ct = ''train'' then of_option TypeError (train_worker s)
      else if ct = ''eval'' then of_option TypeError (eval_worker s)
      else if ct = ''buffer'' then of_option TypeError (buffer_worker s)
      else Inl KeyError)"

definition get_component_scheduling :: "component_scheduling \<Rightarrow> string \<Rightarrow> (int \<times> rat list \<times> int) result" where
  "get_component_scheduling s ct =
     (if ct = ''env''
      then bind_result (of_option TypeError (env_worker s)) (\<lambda>ws.
           foldM (\<lambda>(limit, reqs, c) w.
             bind_result (workers_of w) (\<lambda>n. Inr (limit + n, reqs @ replicate (nat n) (num_gpus w), c))) (0, [], 1) ws)
      else bind_result (component_worker s ct) (\<lambda>w.
           bind_result (workers_of w) (\<lambda>n. Inr (n, replicate (nat n) (num_gpus w), num_cpus w))))"

definition ensure_component_tracking :: "string list \<Rightarrow> placement \<Rightarrow> placement result" where
  "ensure_component_tracking cts st =
     foldM (\<lambda>st ct.
        bind_result
          (if ct \<in> set (dict_keys (ps_total st)) then Inr st
           else bind_result (get_component_scheduling (ps_sched st) ct) (\<lambda>(limit, _, _).
                Inr (st\<lparr>ps_total := AList.update ct limit (ps_total st)\<rparr>))) (\<lambda>st'.
        Inr (if ct \<in> set (dict_keys (ps_placed st')) then st'
             else st'\<lparr>ps_placed := AList.update ct 0 (ps_placed st')\<rparr>))) st cts"

text \<open>One GPU component of a node: the CPUs of the node's units are carried along.\<close>

definition place_component_on_node ::
    "string \<Rightarrow> node_resource \<Rightarrow> placement \<times> int list \<Rightarrow> string \<Rightarrow> (placement \<times> int list) result" where
  "place_component_on_node key n sc ct =
     (case sc of (st, cpus) \<Rightarrow>
        case map_of (nr_alloc n) ct of
          None \<Rightarrow> Inr (st, cpus)
        | Some ranges \<Rightarrow>
            bind_result (get_component_scheduling (ps_sched st) ct) (\<lambda>(limit, reqs, cpu).
            bind_result (of_option KeyError (map_of (ps_locations st) ct)) (\<lambda>locs.
            bind_result (of_option KeyError (map_of (ps_placed st) ct)) (\<lambda>placed.
            bind_result (pack_workers ranges (nr_id n) ct cpus placed limit reqs cpu (ps_distribution st)) (\<lambda>p.
            Inr (st\<lparr>ps_locations := AList.update ct (locs @ map (Pair key) (pk_units p)) (ps_locations st),
                    ps_placed := AList.update ct (pk_placed p) (ps_placed st),
                    ps_distribution := pk_distribution p\<rparr>, pk_cpu p))))))"

definition gpu_bundles :: "int list \<Rightarrow> resource_bundle list" where
  "gpu_bundles cpus = filter (\<lambda>b. bu_cpu b > 0) (map (\<lambda>c. \<lparr>bu_gpu = 1, bu_cpu = c\<rparr>) cpus)"

text \<open>A node with train ranges gets one buffer worker, on a bundle of its own.\<close>

definition place_buffer ::
    "string \<Rightarrow> node_resource \<Rightarrow> resource_bundle list \<Rightarrow> placement \<Rightarrow> (placement \<times> resource_bundle list) result" where
  "place_buffer key n bundles st =
     (if dict_get [] (nr_alloc n) ''train'' = [] then Inr (st, bundles)
      else bind_result (of_option KeyError (map_of (ps_placed st) ''buffer'')) (\<lambda>bid.
        bind_result (of_option KeyError (map_of (ps_locations st) ''buffer'')) (\<lambda>locs.
        let d = add_worker (nr_id n) ''buffer'' (int bid) (ps_distribution st) in
        bind_result (of_option KeyError (map_of (dict_get [] d (nr_id n)) ''train'')) (\<lambda>_.
        Inr (st\<lparr>ps_locations := AList.update ''buffer'' (locs @ [(key, length bundles)]) (ps_locations st),
                ps_distribution := d, ps_placed := AList.update ''buffer'' (bid + 1) (ps_placed st),
                ps_storage_nodes := AList.update bid (nr_id n) (ps_storage_nodes st)\<rparr>,
             bundles @ [\<lparr>bu_gpu = 0, bu_cpu = 1\<rparr>])))))"

definition place_node :: "string \<Rightarrow> string list \<Rightarrow> placement \<Rightarrow> node_resource \<Rightarrow> placement result" where
  "place_node pool gpu_components st n =
     bind_result (guard AssertionError (nr_total n > 0)) (\<lambda>_.
     let key = pool @ ''_'' @ nr_id n in
     bind_result (foldM (place_component_on_node key n) (st, replicate (nat (nr_total n)) 0) gpu_components) (\<lambda>(st1, cpus).
     bind_result (place_buffer key n (gpu_bundles cpus) st1) (\<lambda>(st2, bundles).
     Inr (if bundles = [] then st2 else st2\<lparr>ps_groups := AList.update key bundles (ps_groups st2)\<rparr>))))"

definition create_pool_placement_groups :: "string \<Rightarrow> resource_pool \<Rightarrow> placement \<Rightarrow> placement result" where
  "create_pool_placement_groups pool rp st =
     (if rp_nodes rp = [] \<or> component_types rp = [] then Inr st
      else bind_result (ensure_component_tracking (component_types rp) st) (\<lambda>st1.
        foldM (place_node pool (filter (\<lambda>ct. ct \<notin> set cpu_only_components) (component_types rp))) st1 (rp_nodes rp)))"

definition verify_workers_placed :: "placement \<Rightarrow> unit result" where
  "verify_workers_placed st =
     foldM (\<lambda>_ (ct, limit).
        bind_result (of_option KeyError (map_of (ps_placed st) ct)) (\<lambda>k. guard RuntimeError (int k = limit)))
       () (ps_total st)"

subsection \<open>The strategies\<close>

definition verified :: "placement result \<Rightarrow> placement result" where
  "verified r = bind_result r (\<lambda>st. bind_result (verify_workers_placed st) (\<lambda>_. Inr st))"

definition create_resource_pool_groups :: "(string, resource_pool) dict \<Rightarrow> placement \<Rightarrow> placement result" where
  "create_resource_pool_groups pools st =
     verified (foldM (\<lambda>st (name, rp). create_pool_placement_groups name rp st) st pools)"

definition create_disaggregate_groups :: "(string, resource_pool) dict \<Rightarrow> placement \<Rightarrow> placement result" where
  "create_disaggregate_groups pools st =
     verified
       (bind_result (of_option ValueError (map_of pools ''train_pool'')) (\<lambda>tp.
        bind_result (create_pool_placement_groups ''train_pool'' tp st) (\<lambda>st1.
        bind_result (of_option ValueError (map_of pools ''rollout_pool'')) (\<lambda>rp.
        create_pool_placement_groups ''rollout_pool'' rp st1))))"

definition create_colocate_groups :: "(string, resource_pool) dict \<Rightarrow> placement \<Rightarrow> placement result" where
  "create_colocate_groups pools st =
     verified
       (bind_result (of_option KeyError (map_of pools ''global_pool'')) (\<lambda>gp.
        create_pool_placement_groups ''global_pool'' gp st))"

datatype ray_strategy = DefaultPlacement | OnNode string | InGroup string nat

text \<open>The default strategy: every buffer on a node of its own when there are several.\<close>

definition default_buffer_nodes :: "cluster_info \<Rightarrow> component_scheduling \<Rightarrow> string list result" where
  "default_buffer_nodes ci s =
     bind_result (of_option AttributeError (buffer_worker s)) (\<lambda>b.
     bind_result (workers_of b) (\<lambda>n.
     if n > 1
     then bind_result (guard AssertionError (int (length ci) \<ge> n)) (\<lambda>_. Inr (take (nat n) (dict_keys ci)))
     else Inr []))"

datatype strategy = DefaultStrategy "string list" | PoolStrategy placement

definition get_scheduling_strategy :: "strategy \<Rightarrow> string \<Rightarrow> nat \<Rightarrow> ray_strategy result" where
  "get_scheduling_strategy strat ct i =
     (case strat of
        DefaultStrategy nodes \<Rightarrow>
          if ct = ''buffer'' \<and> nodes \<noteq> []
          then (if i < length nodes then Inr (OnNode (nodes ! i)) else Inl IndexError)
          else Inr DefaultPlacement
      | PoolStrategy st \<Rightarrow>
          (let locs = dict_get [] (ps_locations st) ct in
           if i < length locs \<and> fst (locs ! i) \<in> set (dict_keys (ps_groups st))
           then Inr (InGroup (fst (locs ! i)) (snd (locs ! i)))
           else Inr DefaultPlacement))"

definition get_storage_to_train_workers :: "placement \<Rightarrow> (nat, int list) dict" where
  "get_storage_to_train_workers st =
     map (\<lambda>(b, node). (b, component_ids (dict_get [] (ps_distribution st) node) ''train'')) (ps_storage_nodes st)"

subsection \<open>The global resource manager\<close>

record manager =
  gm_sched :: component_scheduling
  gm_cluster :: cluster_info
  gm_strategy :: strategy
  gm_planner :: "planner option"
  gm_distribution :: distribution

definition manager_strategy_name :: "cluster_config \<Rightarrow> string" where
  "manager_strategy_name c =
     (if py_lower (cc_placement_mode c) = ''manual'' then ''resource_pool'' else py_lower (cc_placement_strategy c))"

definition create_groups :: "string \<Rightarrow> (string, resource_pool) dict \<Rightarrow> placement \<Rightarrow> placement result" where
  "create_groups name pools st =
     (if name = ''disaggregate'' then create_disaggregate_groups pools st
      else if name = ''colocate'' then create_colocate_groups pools st
      else create_resource_pool_groups pools st)"

text \<open>The pools, from the configuration in manual mode, planned otherwise.\<close>

definition plan_pools :: "ray_node list \<Rightarrow> cluster_config \<Rightarrow> planner \<Rightarrow> planner outcome" where
  "plan_pools rows c p =
     (if py_lower (cc_placement_mode c) = ''manual''
      then (case cc_resource_pool c of
              None \<Rightarrow> Some (Inl AssertionError)
            | Some pools \<Rightarrow> load_manual_resource_pools rows pools p)
      else Some (plan_resource_pools rows (manager_strategy_name c) (cc_env_strategy c) p))"

definition initialize :: "ray_node list \<Rightarrow> cluster_config \<Rightarrow> component_scheduling \<Rightarrow> manager outcome" where
  "initialize rows c s =
     (let ci = snd (get_cluster_resources rows); name = manager_strategy_name c in
      if name = ''default''
      then Some (bind_result (infer_auto_buffer_worker_num ci s) (\<lambda>s'.
           bind_result (default_buffer_nodes ci s') (\<lambda>nodes.
           Inr \<lparr>gm_sched = s', gm_cluster = ci, gm_strategy = DefaultStrategy nodes, gm_planner = None,
                gm_distribution = []\<rparr>)))
      else if name \<notin> {''resource_pool'', ''colocate'', ''disaggregate''} then Some (Inl KeyError)
      else bind_outcome (plan_pools rows c (discover_cluster_resources rows (new_planner s (Some ci)))) (\<lambda>p.
        Some (bind_result (adjust_buffer_worker_num (int (planner_component_node_count ''train'' p)) s) (\<lambda>s'.
        bind_result (create_groups name (pl_pools p) (new_placement s')) (\<lambda>st.
        Inr \<lparr>gm_sched = s', gm_cluster = ci, gm_strategy = PoolStrategy st, gm_planner = Some p,
             gm_distribution = ps_distribution st\<rparr>)))))"

text \<open>
  \<open>refresh_component_distribution\<close> counts actors by the first type that their name contains. It stores
  plain counts where \<open>get_component_distribution\<close> promises entries with counts and ids.
\<close>

definition actor_component :: "string \<Rightarrow> string option" where
  "actor_component name =
     (if contains_str ''train'' name then Some ''train''
      else if contains_str ''eval'' name then Some ''eval''
      else if contains_str ''storage'' (py_lower name) then Some ''buffer''
      else if contains_str ''env'' (py_lower name) then Some ''env''
      else None)"

definition count_components :: "string list \<Rightarrow> (string, nat) dict" where
  "count_components names =
     fold (\<lambda>name d. case actor_component name of None \<Rightarrow> d | Some ct \<Rightarrow> AList.update ct (dict_get 0 d ct + 1) d) names []"

definition refresh_component_distribution :: "(string, string list) dict \<Rightarrow> (string, (string, nat) dict) dict" where
  "refresh_component_distribution node_actors =
     fold (\<lambda>(node, names) d. if count_components names = [] then d else AList.update node (count_components names) d)
       node_actors []"

end
