(* ===== verification/Placement_Correct.thy ===== *)
theory Placement_Correct
  imports Placement "HOL-Library.Multiset"
begin

text \<open>
  The component distribution is a partition of the workers: after a successful placement every worker
  of every tracked component is on exactly one node, at one place of the location list; and no GPU
  unit is given to more than one GPU's worth of workers of a component.
\<close>

subsection \<open>Ids in a distribution\<close>

definition dist_ids :: "distribution \<Rightarrow> string \<Rightarrow> int list" where
  "dist_ids d ct = concat (map (\<lambda>(n, comps). component_ids comps ct) d)"

lemma dist_ids_simps [simp]:
  "dist_ids [] ct = []" "dist_ids ((n, comps) # d) ct = component_ids comps ct @ dist_ids d ct"
  by (simp_all add: dist_ids_def)

lemma component_ids_Nil [simp]: "component_ids [] ct = []"
  by (simp add: component_ids_def)

lemma dist_ids_update:
  "mset (dist_ids (AList.update node comps d) ct) + mset (component_ids (dict_get [] d node) ct)
     = mset (dist_ids d ct) + mset (component_ids comps ct)"
  by (induction d) (auto simp: dict_get_def)

lemma dist_ids_add_worker:
  "mset (dist_ids (add_worker node ct w d) ct') = (if ct' = ct then add_mset w (mset (dist_ids d ct)) else mset (dist_ids d ct'))"
proof -
  let ?comps = "dict_get [] d node"
  let ?e = "dict_get empty_entry ?comps ct"
  let ?new = "AList.update ct \<lparr>ce_count = ce_count ?e + 1, ce_ids = ce_ids ?e @ [w]\<rparr> ?comps"
  have "component_ids ?new ct' = (if ct' = ct then component_ids ?comps ct @ [w] else component_ids ?comps ct')"
    by (simp add: component_ids_def dict_get_def empty_entry_def split: option.splits)
  with dist_ids_update [of node ?new d ct'] show ?thesis
    by (simp add: add_worker_def Let_def split: if_splits)
qed

text \<open>The count of an entry is the number of its ids.\<close>

definition counts_ok :: "distribution \<Rightarrow> bool" where
  "counts_ok d \<longleftrightarrow> (\<forall>(n, comps) \<in> set d. \<forall>(ct, e) \<in> set comps. ce_count e = int (length (ce_ids e)))"

lemma update_in: "(k', v') \<in> set (AList.update k v d) \<Longrightarrow> (k', v') = (k, v) \<or> (k', v') \<in> set d"
  by (induction d) (auto split: if_splits)

lemma dict_get_cases: "dict_get x d k = x \<or> (k, dict_get x d k) \<in> set d"
  by (auto simp: dict_get_def dest: map_of_SomeD split: option.splits)

lemma counts_ok_add_worker:
  assumes "counts_ok d" shows "counts_ok (add_worker node ct w d)"
proof -
  let ?comps = "dict_get [] d node"
  let ?e = "dict_get empty_entry ?comps ct"
  have comps: "\<forall>(ct, e) \<in> set ?comps. ce_count e = int (length (ce_ids e))"
    using dict_get_cases [of "[]" d node] assms by (auto simp: counts_ok_def)
  then have "ce_count ?e = int (length (ce_ids ?e))"
    using dict_get_cases [of empty_entry ?comps ct] by (auto simp: empty_entry_def)
  define new where "new = AList.update ct \<lparr>ce_count = ce_count ?e + 1, ce_ids = ce_ids ?e @ [w]\<rparr> ?comps"
  have "\<forall>(ct', e) \<in> set new. ce_count e = int (length (ce_ids e))"
    using comps \<open>ce_count ?e = _\<close> unfolding new_def by (auto dest!: update_in)
  moreover have "add_worker node ct w d = AList.update node new d" by (simp add: add_worker_def new_def Let_def)
  ultimately show ?thesis
    using assms unfolding counts_ok_def by (auto dest!: update_in)
qed

subsection \<open>Packing\<close>

text \<open>
  What a call has done so far: it started with \<open>placed0\<close> workers placed and the distribution \<open>d0\<close>.
\<close>

definition packed :: "string \<Rightarrow> nat \<Rightarrow> distribution \<Rightarrow> int \<Rightarrow> rat list \<Rightarrow> packing \<Rightarrow> bool" where
  "packed ct placed0 d0 num reqs p \<longleftrightarrow>
     pk_placed p = placed0 + length (pk_units p)
   \<and> (counts_ok d0 \<longrightarrow> counts_ok (pk_distribution p))
   \<and> mset (dist_ids (pk_distribution p) ct) = mset (dist_ids d0 ct) + mset (map int [placed0..<pk_placed p])
   \<and> (\<forall>ct'. ct' \<noteq> ct \<longrightarrow> mset (dist_ids (pk_distribution p) ct') = mset (dist_ids d0 ct'))
   \<and> length (pk_left p) = length (pk_cpu p)
   \<and> (\<forall>u < length (pk_left p). 0 \<le> pk_left p ! u
        \<and> pk_left p ! u = 1 - (\<Sum>i \<leftarrow> filter (\<lambda>i. pk_units p ! i = u) [0..<length (pk_units p)]. reqs ! (placed0 + i)))
   \<and> set (pk_units p) \<subseteq> {..<length (pk_left p)}"

lemma place_one_packed:
  assumes "packed ct placed0 d0 num reqs p" "u < length (pk_left p)" "reqs ! pk_placed p \<le> pk_left p ! u"
  shows "packed ct placed0 d0 num reqs (place_one node ct cpu u (reqs ! pk_placed p) p)"
proof -
  let ?n = "length (pk_units p)"
  have old: "filter (\<lambda>i. (pk_units p @ [u]) ! i = v) [0..<?n] = filter (\<lambda>i. pk_units p ! i = v) [0..<?n]" for v
    by (intro filter_cong) (simp_all add: nth_append)
  have "filter (\<lambda>i. (pk_units p @ [u]) ! i = v) [0..<Suc ?n]
      = filter (\<lambda>i. pk_units p ! i = v) [0..<?n] @ (if v = u then [?n] else [])" for v
    using old [of v] by simp
  with assms show ?thesis
    by (auto simp: packed_def place_one_def dist_ids_add_worker counts_ok_add_worker nth_list_update)
qed

lemma place_on_unit_packed:
  assumes "packed ct placed0 d0 num reqs p" "u < length (pk_left p)" "rs = drop (pk_placed p) (take (nat num) reqs)"
  shows "packed ct placed0 d0 num reqs (place_on_unit node ct cpu u rs p)
     \<and> length (pk_left (place_on_unit node ct cpu u rs p)) = length (pk_left p)"
  using assms
proof (induction rs arbitrary: p)
  case (Cons r rs)
  have r: "r = reqs ! pk_placed p" and tail: "rs = drop (Suc (pk_placed p)) (take (nat num) reqs)"
  proof -
    have lt: "pk_placed p < length (take (nat num) reqs)"
      using Cons.prems(3) by (metis drop_all list.distinct(1) not_less)
    then have "r # rs = take (nat num) reqs ! pk_placed p # drop (Suc (pk_placed p)) (take (nat num) reqs)"
      using Cons.prems(3) Cons_nth_drop_Suc [OF lt] by metis
    with lt show "r = reqs ! pk_placed p" "rs = drop (Suc (pk_placed p)) (take (nat num) reqs)" by simp_all
  qed
  show ?case
  proof (cases "r \<le> pk_left p ! u")
    case True
    let ?p' = "place_one node ct cpu u r p"
    have "packed ct placed0 d0 num reqs ?p'" using place_one_packed [OF Cons.prems(1,2)] True r by simp
    moreover have "length (pk_left ?p') = length (pk_left p)" "pk_placed ?p' = Suc (pk_placed p)"
      by (simp_all add: place_one_def)
    ultimately show ?thesis using Cons.IH [of ?p'] tail Cons.prems(2) True by simp
  next
    case False
    then have "place_on_unit node ct cpu u (r # rs) p = p" by simp
    then show ?thesis using Cons.prems(1) by (simp only:)
  qed
qed simp

lemma pack_workers_packed:
  assumes "pack_workers ranges node ct cpus placed num reqs cpu d0 = Inr p"
  shows "packed ct placed d0 num reqs p \<and> length (pk_cpu p) = length cpus"
proof -
  define p0 where "p0 = \<lparr>pk_left = replicate (length cpus) 1, pk_cpu = cpus, pk_units = [], pk_placed = placed,
                pk_distribution = d0\<rparr>"
  have p0: "packed ct placed d0 num reqs p0 \<and> length (pk_left p0) = length cpus"
    by (simp add: packed_def p0_def)
  show ?thesis
  proof (cases "ranges = []")
    case True
    then have "p = p0" using assms by (simp add: pack_workers_def p0_def)
    with p0 show ?thesis by (simp add: p0_def)
  next
    case False
    then obtain us where "foldM (\<lambda>p u.
             bind_result (guard RuntimeError (0 \<le> u \<and> u < int (length cpus))) (\<lambda>_.
             Inr (place_on_unit node ct cpu (nat u) (drop (pk_placed p) (take (nat num) reqs)) p))) p0 us = Inr p"
      using assms by (auto simp: pack_workers_def Let_def result_simps p0_def)
    then have "packed ct placed d0 num reqs p \<and> length (pk_left p) = length cpus"
      by (rule foldM_invariant [where I = "\<lambda>p. packed ct placed d0 num reqs p \<and> length (pk_left p) = length cpus"])
         (use p0 place_on_unit_packed in \<open>auto simp: result_simps\<close>)
    then show ?thesis by (auto simp: packed_def)
  qed
qed

subsection \<open>The strategy\<close>

definition placed_ok :: "placement \<Rightarrow> bool" where
  "placed_ok st \<longleftrightarrow> counts_ok (ps_distribution st)
   \<and> (\<forall>ct. mset (dist_ids (ps_distribution st) ct) = mset (map int [0..<dict_get 0 (ps_placed st) ct])
        \<and> length (dict_get [] (ps_locations st) ct) = dict_get 0 (ps_placed st) ct)"

lemma dict_get_Some: "map_of d k = Some v \<Longrightarrow> dict_get x d k = v"
  by (simp add: dict_get_def)

lemma new_placement_ok: "placed_ok (new_placement s)"
  by (auto simp: placed_ok_def new_placement_def counts_ok_def dict_get_def)

lemma ensure_tracking_ok:
  assumes "ensure_component_tracking cts st = Inr st'" "placed_ok st"
  shows "placed_ok st'"
  using assms(1,2) unfolding ensure_component_tracking_def
proof (rule foldM_invariant)
  fix t ct t' assume I: "placed_ok t" and "bind_result
          (if ct \<in> set (dict_keys (ps_total t)) then Inr t
           else bind_result (get_component_scheduling (ps_sched t) ct) (\<lambda>(total, _, _).
                Inr (t\<lparr>ps_total := AList.update ct total (ps_total t)\<rparr>))) (\<lambda>st'.
        Inr (if ct \<in> set (dict_keys (ps_placed st')) then st'
             else st'\<lparr>ps_placed := AList.update ct 0 (ps_placed st')\<rparr>)) = Inr t'"
  then obtain t1 where t1: "(if ct \<in> set (dict_keys (ps_total t)) then Inr t
           else bind_result (get_component_scheduling (ps_sched t) ct) (\<lambda>(total, _, _).
                Inr (t\<lparr>ps_total := AList.update ct total (ps_total t)\<rparr>))) = Inr t1"
      and t': "t' = (if ct \<in> set (dict_keys (ps_placed t1)) then t1 else t1\<lparr>ps_placed := AList.update ct 0 (ps_placed t1)\<rparr>)"
    unfolding bind_result_eq_Inr by blast
  from t1 have t1: "ps_placed t1 = ps_placed t" "ps_distribution t1 = ps_distribution t" "ps_locations t1 = ps_locations t"
    by (auto simp: result_simps split: if_splits)
  have "dict_get 0 (ps_placed t') c = dict_get 0 (ps_placed t) c" for c
    using t1(1) t' dict_get_fresh [of ct "ps_placed t" 0] by (cases "c = ct") auto
  with I t1 t' show "placed_ok t'" by (auto simp: placed_ok_def)
qed

lemma place_component_ok:
  assumes "place_component_on_node key n (st, cpus) ct = Inr (st', cpus')" "placed_ok st"
  shows "placed_ok st'"
proof (cases "map_of (nr_alloc n) ct")
  case None
  then show ?thesis using assms by (simp add: place_component_on_node_def)
next
  case (Some ranges)
  then obtain num reqs cpu locs placed p where
    locs: "map_of (ps_locations st) ct = Some locs" and placed: "map_of (ps_placed st) ct = Some placed"
    and p: "pack_workers ranges (nr_id n) ct cpus placed num reqs cpu (ps_distribution st) = Inr p"
    and st': "st' = st\<lparr>ps_locations := AList.update ct (locs @ map (Pair key) (pk_units p)) (ps_locations st),
                    ps_placed := AList.update ct (pk_placed p) (ps_placed st), ps_distribution := pk_distribution p\<rparr>"
    using assms(1) by (auto simp: place_component_on_node_def result_simps)
  have pk: "packed ct placed (ps_distribution st) num reqs p" using pack_workers_packed [OF p] by blast
  have old: "dict_get 0 (ps_placed st) ct = placed" "dict_get [] (ps_locations st) ct = locs"
    using locs placed by (simp_all add: dict_get_Some)
  have "mset (map int [0..<pk_placed p]) = mset (map int [0..<placed]) + mset (map int [placed..<pk_placed p])"
  proof -
    have "[0..<pk_placed p] = [0..<placed] @ [placed..<pk_placed p]"
      using pk upt_add_eq_append [of 0 placed "length (pk_units p)"] by (simp add: packed_def)
    then show ?thesis by (metis map_append mset_append)
  qed
  then show ?thesis
    using assms(2) pk old unfolding placed_ok_def st' by (auto simp: packed_def)
qed

lemma place_components_ok:
  assumes "foldM (place_component_on_node key n) (st, cpus) cts = Inr (st', cpus')" "placed_ok st"
  shows "placed_ok st'"
proof -
  have "placed_ok (fst (st', cpus'))"
    using assms(1) by (rule foldM_invariant [where I = "\<lambda>sc. placed_ok (fst sc)"])
      (use assms(2) place_component_ok in \<open>auto\<close>)
  then show ?thesis by simp
qed

lemma place_buffer_ok:
  assumes "place_buffer key n bundles st = Inr (st', bundles')" "placed_ok st"
  shows "placed_ok st'"
proof (cases "dict_get [] (nr_alloc n) ''train'' = []")
  case True
  then show ?thesis using assms by (simp add: place_buffer_def)
next
  case False
  then obtain bid locs where
    "map_of (ps_placed st) ''buffer'' = Some bid" "map_of (ps_locations st) ''buffer'' = Some locs"
    and st': "st' = st\<lparr>ps_locations := AList.update ''buffer'' (locs @ [(key, length bundles)]) (ps_locations st),
                ps_distribution := add_worker (nr_id n) ''buffer'' (int bid) (ps_distribution st),
                ps_placed := AList.update ''buffer'' (bid + 1) (ps_placed st),
                ps_storage_nodes := AList.update bid (nr_id n) (ps_storage_nodes st)\<rparr>"
    using assms(1) by (auto simp: place_buffer_def result_simps Let_def)
  then have old: "dict_get 0 (ps_placed st) ''buffer'' = bid" "dict_get [] (ps_locations st) ''buffer'' = locs"
    by (simp_all add: dict_get_Some)
  show ?thesis
    using assms(2) old unfolding placed_ok_def st' by (auto simp: counts_ok_add_worker dist_ids_add_worker atLeast0_lessThan_Suc)
qed

lemma place_node_ok:
  assumes "place_node pool cts st n = Inr st'" "placed_ok st"
  shows "placed_ok st'"
proof -
  obtain st1 cpus st2 bundles where
    "foldM (place_component_on_node (pool @ ''_'' @ nr_id n) n) (st, replicate (nat (nr_total n)) 0) cts = Inr (st1, cpus)"
    "place_buffer (pool @ ''_'' @ nr_id n) n (gpu_bundles cpus) st1 = Inr (st2, bundles)"
    "st' = (if bundles = [] then st2 else st2\<lparr>ps_groups := AList.update (pool @ ''_'' @ nr_id n) bundles (ps_groups st2)\<rparr>)"
    using assms(1) by (auto simp: place_node_def result_simps Let_def)
  with assms(2) show ?thesis
    by (auto simp: placed_ok_def dest!: place_buffer_ok place_components_ok)
qed

lemma create_pool_ok:
  assumes "create_pool_placement_groups pool rp st = Inr st'" "placed_ok st"
  shows "placed_ok st'"
proof (cases "rp_nodes rp = [] \<or> component_types rp = []")
  case True
  then show ?thesis using assms by (auto simp: create_pool_placement_groups_def)
next
  case False
  then obtain st1 where st1: "ensure_component_tracking (component_types rp) st = Inr st1"
    and run: "foldM (place_node pool (filter (\<lambda>ct. ct \<notin> set cpu_only_components) (component_types rp))) st1 (rp_nodes rp) = Inr st'"
    using assms(1) by (auto simp: create_pool_placement_groups_def result_simps)
  have "placed_ok st1" by (rule ensure_tracking_ok [OF st1 assms(2)])
  with run show ?thesis by (rule foldM_invariant) (rule place_node_ok)
qed

lemma verified_totals:
  assumes "verified r = Inr st"
  shows "r = Inr st \<and> (\<forall>(ct, num) \<in> set (ps_total st). int (dict_get 0 (ps_placed st) ct) = num)"
proof -
  have all: "\<forall>(ct, num) \<in> set tot. int (dict_get 0 (ps_placed st) ct) = num"
    if "foldM (\<lambda>_ (ct, num). bind_result (of_option KeyError (map_of (ps_placed st) ct))
          (\<lambda>k. guard RuntimeError (int k = num))) u tot = Inr v" for tot u v
    using that by (induction tot arbitrary: u) (auto simp: result_simps dict_get_Some)
  obtain v where r: "r = Inr st" and v: "foldM (\<lambda>_ (ct, num). bind_result (of_option KeyError (map_of (ps_placed st) ct))
          (\<lambda>k. guard RuntimeError (int k = num))) () (ps_total st) = Inr v"
    using assms by (auto simp: verified_def verify_workers_placed_def result_simps)
  show ?thesis using r all [OF v] by simp
qed

lemma create_groups_ok:
  assumes "create_groups name pools (new_placement s) = Inr st"
  shows "placed_ok st \<and> (\<forall>(ct, num) \<in> set (ps_total st). int (dict_get 0 (ps_placed st) ct) = num)"
proof -
  have pool: "placed_ok t'" if "create_pool_placement_groups n p t = Inr t'" "placed_ok t" for n p t t'
    using that by (rule create_pool_ok)
  have manual: "placed_ok t" if "foldM (\<lambda>st (name, rp). create_pool_placement_groups name rp st) (new_placement s) pools = Inr t" for t
    using that new_placement_ok by (rule foldM_invariant) (auto intro: create_pool_ok)
  have disaggregate: "placed_ok t" if "bind_result (of_option ValueError (map_of pools ''train_pool'')) (\<lambda>tp.
        bind_result (create_pool_placement_groups ''train_pool'' tp (new_placement s)) (\<lambda>st1.
        bind_result (of_option ValueError (map_of pools ''rollout_pool'')) (\<lambda>rp.
        create_pool_placement_groups ''rollout_pool'' rp st1))) = Inr t" for t
    using that by (auto simp: result_simps intro: pool [OF _ pool [OF _ new_placement_ok]])
  have colocate: "placed_ok t" if "bind_result (of_option KeyError (map_of pools ''global_pool'')) (\<lambda>gp.
        create_pool_placement_groups ''global_pool'' gp (new_placement s)) = Inr t" for t
    using that by (auto simp: result_simps intro: pool [OF _ new_placement_ok])
  have "\<exists>r. verified r = Inr st \<and> (\<forall>t. r = Inr t \<longrightarrow> placed_ok t)"
  proof (cases "name = ''disaggregate''")
    case True
    then have "create_disaggregate_groups pools (new_placement s) = Inr st" using assms by (simp only: create_groups_def if_True simp_thms)
    then show ?thesis unfolding create_disaggregate_groups_def using disaggregate by blast
  next
    case nd: False
    show ?thesis
    proof (cases "name = ''colocate''")
      case True
      then have "create_colocate_groups pools (new_placement s) = Inr st"
        using assms nd by (simp only: create_groups_def if_True if_False simp_thms)
      then show ?thesis unfolding create_colocate_groups_def using colocate by blast
    next
      case False
      then have "create_resource_pool_groups pools (new_placement s) = Inr st"
        using assms nd by (simp only: create_groups_def if_False)
      then show ?thesis unfolding create_resource_pool_groups_def using manual by blast
    qed
  qed
  then obtain r where r: "verified r = Inr st" and ok: "\<And>t. r = Inr t \<Longrightarrow> placed_ok t" by blast
  from ok [OF conjunct1 [OF verified_totals [OF r]]] conjunct2 [OF verified_totals [OF r]]
  show ?thesis by (rule conjI)
qed

subsection \<open>Properties\<close>

text \<open>C11: the placement is a partition of the workers: whatever the strategy and the pools, when the
  placement groups are created without an error, the ids recorded for a tracked component over all
  nodes are exactly \<open>0, ..., num - 1\<close>, each once, the counts agree with the ids, and there is one
  location per worker.\<close>
theorem placement_partitions_workers:
  assumes "create_groups name pools (new_placement s) = Inr st" "(ct, num) \<in> set (ps_total st)"
  shows "0 \<le> num \<and> mset (dist_ids (ps_distribution st) ct) = mset (map int [0..<nat num])
     \<and> length (dict_get [] (ps_locations st) ct) = nat num \<and> counts_ok (ps_distribution st)"
proof -
  have "int (dict_get 0 (ps_placed st) ct) = num"
    using create_groups_ok [OF assms(1)] assms(2) by (auto dest!: bspec)
  then have "0 \<le> num" "dict_get 0 (ps_placed st) ct = nat num" by simp_all
  with create_groups_ok [OF assms(1)] show ?thesis by (auto simp: placed_ok_def)
qed

definition demo_sched :: component_scheduling where
  "demo_sched =
     \<lparr>env_worker = Some [\<lparr>worker_num = Workers 2, num_cpus = 1, num_gpus = 1\<rparr>],
      train_worker = Some \<lparr>worker_num = Workers 2, num_cpus = 1, num_gpus = 1\<rparr>,
      eval_worker = Some \<lparr>worker_num = Workers 1, num_cpus = 1, num_gpus = 1\<rparr>,
      buffer_worker = Some \<lparr>worker_num = Workers 1, num_cpus = 1, num_gpus = 0\<rparr>\<rparr>"

definition demo_pool :: "(string \<times> (int \<times> int) list) list \<Rightarrow> resource_pool" where
  "demo_pool alloc = new_pool ''p'' [new_node ''n'' ''ip'' 8 4\<lparr>nr_alloc := alloc\<rparr>]"

lemma placement_partitions_workers_witness:
  "\<exists>st. create_groups ''resource_pool'' [(''p'', demo_pool [(''train'', [(0, 1)])])] (new_placement demo_sched) = Inr st
     \<and> mset (dist_ids (ps_distribution st) ''train'') = {#0, 1#}"
proof -
  have "map_sum id ps_total (create_groups ''resource_pool'' [(''p'', demo_pool [(''train'', [(0, 1)])])] (new_placement demo_sched))
      = Inr [(''train'', 2), (''buffer'', 1)]"
    by code_simp
  then obtain st where st: "create_groups ''resource_pool'' [(''p'', demo_pool [(''train'', [(0, 1)])])] (new_placement demo_sched) = Inr st"
    "ps_total st = [(''train'', 2), (''buffer'', 1)]"
    by (auto simp: map_sum_Inr_eq)
  from placement_partitions_workers [OF st(1), of "''train''" 2] st show ?thesis
    by (auto simp: numeral_2_eq_2)
qed

text \<open>No GPU unit is oversubscribed: the workers of a component that one call packs on a unit require
  together at most one GPU, the units are units of the node, and the workers placed are the next ones
  in order, each recorded once in the distribution.\<close>
theorem pack_within_units:
  assumes "pack_workers ranges node ct cpus placed num reqs cpu d = Inr p"
  shows "(\<forall>u < length cpus. (\<Sum>i \<leftarrow> filter (\<lambda>i. pk_units p ! i = u) [0..<length (pk_units p)]. reqs ! (placed + i)) \<le> 1)
     \<and> (\<forall>u \<in> set (pk_units p). u < length cpus) \<and> pk_placed p = placed + length (pk_units p)
     \<and> mset (dist_ids (pk_distribution p) ct) = mset (dist_ids d ct) + mset (map int [placed..<pk_placed p])"
  using pack_workers_packed [OF assms] by (auto simp: packed_def)

lemma pack_within_units_witness:
  "\<exists>p. pack_workers [(0, 1)] ''n'' ''env'' [0, 0] 0 4 [1 / 2, 1 / 2, 3 / 4, 1 / 4] 1 [] = Inr p \<and> pk_units p = [0, 0, 1, 1]
     \<and> (\<forall>u < length [0, 0 :: int]. (\<Sum>i \<leftarrow> filter (\<lambda>i. pk_units p ! i = u) [0..<length (pk_units p)].
                 [1 / 2, 1 / 2, 3 / 4, 1 / 4 :: rat] ! (0 + i)) \<le> 1)"
proof -
  have "map_sum id pk_units (pack_workers [(0, 1)] ''n'' ''env'' [0, 0] 0 4 [1 / 2, 1 / 2, 3 / 4, 1 / 4] 1 []) = Inr [0, 0, 1, 1]"
    by code_simp
  then obtain p where p: "pack_workers [(0, 1)] ''n'' ''env'' [0, 0] 0 4 [1 / 2, 1 / 2, 3 / 4, 1 / 4] 1 [] = Inr p"
      "pk_units p = [0, 0, 1, 1]"
    by (auto simp: map_sum_Inr_eq)
  show ?thesis by (intro exI conjI, rule p(1), rule p(2), rule conjunct1 [OF pack_within_units [OF p(1)]])
qed

text \<open>Locations name bundles of the unfiltered list: when the environments of a manual pool have the
  GPUs 2 and 3 of a node, the bundles of the unused GPUs 0 and 1 are removed, the group keeps two
  bundles, and both environment workers are sent to bundles 2 and 3, which do not exist.\<close>
theorem bundle_index_out_of_group:
  "map_sum id (\<lambda>st. (map (get_scheduling_strategy (PoolStrategy st) ''env'') [0, 1],
                     map (\<lambda>(k, bs). (k, length bs)) (ps_groups st)))
     (create_groups ''resource_pool'' [(''p'', demo_pool [(''env'', [(2, 3)])])] (new_placement demo_sched))
   = Inr ([Inr (InGroup ''p_n'' 2), Inr (InGroup ''p_n'' 3)], [(''p_n'', 2)])"
  by code_simp

end
