(* ===== verification/Step_Counter.thy ===== *)
theory Step_Counter
  imports Rollout_Types
begin

text \<open>
  \<open>EnvStepCounter\<close> and \<open>ThroughputTracker\<close> of \<open>rlightning/env/env_group.py\<close>. The progress bars of the
  verbose mode are not modelled; the clock is an argument and floats are rationals.
\<close>

subsection \<open>Steps per environment\<close>

record step_counter =
  sc_ids :: "string list"
  sc_max :: "(string, int) dict"
  sc_steps :: "(string, int) dict"

definition new_step_counter :: "string list \<Rightarrow> int list \<Rightarrow> step_counter result" where
  "new_step_counter ids maxs =
     bind_result (guard ValueError (length maxs = length ids)) (\<lambda>_.
     Inr \<lparr>sc_ids = ids, sc_max = store_all [] (zip ids maxs), sc_steps = store_all [] (map (\<lambda>i. (i, - 1)) ids)\<rparr>)"

definition counter_reset :: "string \<Rightarrow> step_counter \<Rightarrow> step_counter" where
  "counter_reset i c = c\<lparr>sc_steps := AList.update i (- 1) (sc_steps c)\<rparr>"

definition counter_reset_all :: "step_counter \<Rightarrow> step_counter" where
  "counter_reset_all c = fold counter_reset (sc_ids c) c"

definition get_steps :: "step_counter \<Rightarrow> string \<Rightarrow> int result" where
  "get_steps c i = of_option KeyError (map_of (sc_steps c) i)"

definition get_max_steps :: "step_counter \<Rightarrow> string \<Rightarrow> int result" where
  "get_max_steps c i = of_option KeyError (map_of (sc_max c) i)"

definition counter_step :: "step_counter \<Rightarrow> string \<Rightarrow> step_counter result" where
  "counter_step c i =
     bind_result (get_steps c i) (\<lambda>k.
     bind_result (get_max_steps c i) (\<lambda>m.
     bind_result (guard ValueError (k + 1 \<le> m)) (\<lambda>_.
     Inr (c\<lparr>sc_steps := AList.update i (k + 1) (sc_steps c)\<rparr>))))"

definition counter_step_all :: "step_counter \<Rightarrow> step_counter result" where
  "counter_step_all c = foldM counter_step c (sc_ids c)"

definition is_reached_max_steps :: "step_counter \<Rightarrow> string \<Rightarrow> bool result" where
  "is_reached_max_steps c i =
     bind_result (get_steps c i) (\<lambda>k. bind_result (get_max_steps c i) (\<lambda>m. Inr (k = m)))"

definition get_truncations :: "step_counter \<Rightarrow> string list \<Rightarrow> bool list result" where
  "get_truncations c is = mapM (is_reached_max_steps c) is"

subsection \<open>What the operations read and write\<close>

text \<open>The two dictionaries of a counter as functions; every operation is described by them.\<close>

abbreviation steps_of :: "step_counter \<Rightarrow> string \<Rightarrow> int option" where
  "steps_of c \<equiv> map_of (sc_steps c)"

abbreviation max_of :: "step_counter \<Rightarrow> string \<Rightarrow> int option" where
  "max_of c \<equiv> map_of (sc_max c)"

lemma map_of_store_new: "distinct (map fst items) \<Longrightarrow> map_of (store_all [] items) = map_of items"
  by (simp add: map_of_store_all map_of_inject_set rev_map [symmetric])

lemma counter_reset_simps [simp]:
  "steps_of (counter_reset i c) = (steps_of c)(i \<mapsto> - 1)" "sc_max (counter_reset i c) = sc_max c"
  "sc_ids (counter_reset i c) = sc_ids c"
  by (simp_all add: counter_reset_def)

lemma counter_step_eq:
  "counter_step c i = Inr c' \<longleftrightarrow>
     (\<exists>k m. steps_of c i = Some k \<and> max_of c i = Some m \<and> k < m
        \<and> c' = c\<lparr>sc_steps := AList.update i (k + 1) (sc_steps c)\<rparr>)"
  by (auto simp: counter_step_def get_steps_def get_max_steps_def result_simps)

lemma counter_step_at_max:
  assumes "steps_of c i = Some m" "max_of c i = Some m"
  shows "counter_step c i = Inl ValueError"
  using assms by (simp add: counter_step_def get_steps_def get_max_steps_def)

text \<open>One pass over distinct environments that are all below their limit advances each by one.\<close>

lemma step_pass:
  assumes "distinct is" "\<And>i. i \<in> set is \<Longrightarrow> \<exists>k m. steps_of c i = Some k \<and> max_of c i = Some m \<and> k < m"
  shows "\<exists>c'. foldM counter_step c is = Inr c' \<and> sc_max c' = sc_max c \<and> sc_ids c' = sc_ids c
           \<and> steps_of c' = (\<lambda>i. if i \<in> set is then map_option (\<lambda>k. k + 1) (steps_of c i) else steps_of c i)"
  using assms
proof (induction "is" arbitrary: c)
  case Nil
  then show ?case by simp
next
  case (Cons i "is")
  obtain k m where i: "steps_of c i = Some k" "max_of c i = Some m" "k < m" using Cons.prems(2) [of i] by auto
  let ?c = "c\<lparr>sc_steps := AList.update i (k + 1) (sc_steps c)\<rparr>"
  have "counter_step c i = Inr ?c" using i by (simp add: counter_step_eq)
  moreover have "\<exists>k m. steps_of ?c j = Some k \<and> max_of ?c j = Some m \<and> k < m" if "j \<in> set is" for j
    using Cons.prems that by auto
  with Cons.IH [of ?c] Cons.prems(1) obtain c' where "foldM counter_step ?c is = Inr c'" "sc_max c' = sc_max c"
    "sc_ids c' = sc_ids c"
    "steps_of c' = (\<lambda>j. if j \<in> set is then map_option (\<lambda>k. k + 1) (steps_of ?c j) else steps_of ?c j)"
    by auto
  ultimately show ?case using i Cons.prems(1) by (auto simp: fun_eq_iff)
qed

text \<open>A pass that meets an environment at its limit fails, whatever comes before it.\<close>

lemma step_pass_fails:
  assumes "i \<in> set is" "distinct is" "steps_of c i = Some m" "max_of c i = Some m"
    and "\<And>j. j \<in> set is \<Longrightarrow> \<exists>k m. steps_of c j = Some k \<and> max_of c j = Some m"
  shows "foldM counter_step c is = Inl ValueError"
  using assms
proof (induction "is" arbitrary: c)
  case Nil
  then show ?case by simp
next
  case (Cons j "is")
  show ?case
  proof (cases "i = j")
    case True
    then show ?thesis using Cons.prems counter_step_at_max by simp
  next
    case False
    obtain k n where j: "steps_of c j = Some k" "max_of c j = Some n" using Cons.prems(5) [of j] by auto
    show ?thesis
    proof (cases "k < n")
      case True
      let ?c = "c\<lparr>sc_steps := AList.update j (k + 1) (sc_steps c)\<rparr>"
      have "counter_step c j = Inr ?c" using j True by (simp add: counter_step_eq)
      moreover have "foldM counter_step ?c is = Inl ValueError"
        using Cons.prems False by (intro Cons.IH) auto
      ultimately show ?thesis by simp
    next
      case no: False
      then have "counter_step c j = Inl ValueError"
        using j by (simp add: counter_step_def get_steps_def get_max_steps_def guard_def)
      then show ?thesis by simp
    qed
  qed
qed

lemma is_reached_eq:
  assumes "steps_of c i = Some k" "max_of c i = Some m"
  shows "is_reached_max_steps c i = Inr (k = m)"
  using assms by (simp add: is_reached_max_steps_def get_steps_def get_max_steps_def)

lemma get_truncations_eq:
  assumes "\<And>i. i \<in> set is \<Longrightarrow> \<exists>k m. steps_of c i = Some k \<and> max_of c i = Some m"
  shows "get_truncations c is = Inr (map (\<lambda>i. steps_of c i = max_of c i) is)"
proof -
  have "get_truncations c is = mapM (\<lambda>i. Inr (steps_of c i = max_of c i)) is"
    unfolding get_truncations_def
  proof (rule mapM_cong [OF refl])
    fix i assume "i \<in> set is"
    with assms obtain k m where "steps_of c i = Some k" "max_of c i = Some m" by blast
    then show "is_reached_max_steps c i = Inr (steps_of c i = max_of c i)" by (simp add: is_reached_eq)
  qed
  then show ?thesis by simp
qed

lemma new_step_counter_eq:
  assumes "new_step_counter ids maxs = Inr c" "distinct ids"
  shows "sc_ids c = ids" "max_of c = map_of (zip ids maxs)" "steps_of c i = (if i \<in> set ids then Some (- 1) else None)"
proof -
  have c: "length maxs = length ids"
    "c = \<lparr>sc_ids = ids, sc_max = store_all [] (zip ids maxs), sc_steps = store_all [] (map (\<lambda>i. (i, - 1)) ids)\<rparr>"
    using assms by (auto simp: new_step_counter_def result_simps)
  show "sc_ids c = ids" using c by simp
  show "max_of c = map_of (zip ids maxs)" using c assms(2) by (simp add: map_of_store_new)
  show "steps_of c i = (if i \<in> set ids then Some (- 1) else None)"
    using c assms(2) by (simp add: map_of_store_new comp_def map_of_map_restrict)
qed

subsection \<open>Throughput\<close>

record throughput =
  tt_interval :: rat
  tt_state :: "(string, rat \<times> rat) dict"
  tt_throughput :: "(string, rat) dict"

text \<open>\<open>ThroughputTracker.record\<close> at time \<open>now\<close>\<close>

definition tt_record :: "rat \<Rightarrow> string \<Rightarrow> int \<Rightarrow> throughput \<Rightarrow> throughput" where
  "tt_record now name n t =
     (if n \<le> 0 then t
      else case map_of (tt_state t) name of
          None \<Rightarrow> t\<lparr>tt_state := AList.update name (of_int n, now) (tt_state t)\<rparr>
        | Some (n0, since) \<Rightarrow>
            (let total' = n0 + of_int n; elapsed = now - since
             in if elapsed < tt_interval t
                then t\<lparr>tt_state := AList.update name (total', since) (tt_state t)\<rparr>
                else t\<lparr>tt_throughput :=
                          AList.update name (if elapsed > 0 then total' / elapsed else 0) (tt_throughput t),
                       tt_state := AList.update name (0, now) (tt_state t)\<rparr>))"

end
