(* ===== verification/Env_Group.thy ===== *)
theory Env_Group
  imports Step_Counter
begin

text \<open>
  \<open>BaseEnv\<close> (\<open>rlightning/env/base_env.py\<close>) and \<open>EnvGroup\<close> (\<open>rlightning/env/env_group.py\<close>). What a
  concrete environment or a server with its clients does is a parameter (\<open>env_ops\<close>, \<open>server_ops\<close>). The
  environments are Ray actors or local objects: an actor runs its calls in the order they are
  submitted, so a submitted call is the call and its value, and only \<open>ray.wait\<close> (a parameter) decides
  when the value is seen. Conversions between devices do not change a value.
\<close>

subsection \<open>One environment\<close>

record 'e base_env =
  be_id :: string
  be_num_envs :: int
  be_max :: "int option"
  be_infos :: "(string, rat list list) dict"
  be_env :: 'e

text \<open>
  \<open>eo_episode_info\<close> reads \<open>info["episode_info"]\<close> when there is one, each value as its numbers; \<open>eo_now\<close>
  is the clock when the call is over.
\<close>

record ('e, 'v) env_ops =
  eo_reset :: "'e \<Rightarrow> ('e \<times> 'v env_ret) result"
  eo_step :: "'e \<Rightarrow> 'v policy_resp \<Rightarrow> ('e \<times> 'v env_ret) result"
  eo_episode_info :: "'v \<Rightarrow> (string, rat list) dict option"
  eo_now :: "'e \<Rightarrow> int"

definition record_episode_info ::
    "('e, 'v) env_ops \<Rightarrow> 'v env_ret \<Rightarrow> (string, rat list list) dict \<Rightarrow> (string, rat list list) dict" where
  "record_episode_info ops r infos =
     (case eo_episode_info ops (er_info r) of
        None \<Rightarrow> infos
      | Some d \<Rightarrow> fold (\<lambda>(k, v). dict_append k v) d infos)"

definition post_step_hook :: "('e, 'v) env_ops \<Rightarrow> 'e base_env \<Rightarrow> 'e \<times> 'v env_ret \<Rightarrow> 'e base_env \<times> 'v env_ret" where
  "post_step_hook ops b res =
     (case res of (e, r) \<Rightarrow>
        (b\<lparr>be_env := e, be_infos := record_episode_info ops r (be_infos b)\<rparr>, mark_env_sent (eo_now ops e) r))"

definition env_reset :: "('e, 'v) env_ops \<Rightarrow> 'e base_env \<Rightarrow> ('e base_env \<times> 'v env_ret) result" where
  "env_reset ops b = map_sum id (post_step_hook ops b) (eo_reset ops (be_env b))"

definition env_step :: "('e, 'v) env_ops \<Rightarrow> 'v policy_resp \<Rightarrow> 'e base_env \<Rightarrow> ('e base_env \<times> 'v env_ret) result" where
  "env_step ops q b = map_sum id (post_step_hook ops b) (eo_step ops (be_env b) q)"

text \<open>Sum and count of the recorded numbers, per key.\<close>

definition env_stats :: "'e base_env \<Rightarrow> (string, rat \<times> nat) dict" where
  "env_stats b = map (\<lambda>(k, vs). (k, (sum_list (concat vs), length (concat vs)))) (be_infos b)"

definition clear_infos :: "bool \<Rightarrow> 'e base_env \<Rightarrow> 'e base_env" where
  "clear_infos reset b = (if reset then b\<lparr>be_infos := []\<rparr> else b)"

subsection \<open>The group\<close>

text \<open>
  A server gives the returns of its clients as a list, and a step of a server is only asynchronous.
  What an environment gives back is one return, or the list of a server.
\<close>

record ('s, 'v) server_ops =
  so_reset :: "'s \<Rightarrow> 's \<times> 'v env_ret list"
  so_step_async :: "'s \<Rightarrow> 'v policy_resp list \<Rightarrow> 's"
  so_collect_async :: "'s \<Rightarrow> 's \<times> 'v env_ret list"

datatype 'v reply = One "'v env_ret" | Many "'v env_ret list"

datatype ('e, 's) env_obj = LocalEnv "'e base_env" | ServerEnv 's

record ('e, 's, 'v) env_group =
  eg_envs :: "(string, 'e base_env) dict"
  eg_servers :: "(string, 's) dict"
  eg_num_envs :: "(string, int) dict"
  eg_futures :: "(nat \<times> 'v reply) list"
  eg_future_env :: "(nat, string) dict"
  eg_next_ref :: nat
  eg_counter :: "step_counter option"
  eg_auto :: bool

definition eg_ids :: "('e, 's, 'v) env_group \<Rightarrow> string list" where
  "eg_ids g = dict_keys (eg_envs g) @ dict_keys (eg_servers g)"

text \<open>
  The constructor, after the environments were built: the identifier each object answers, the object
  and the number of parallel environments of its configuration, in the order of the configurations.
\<close>

definition new_env_group :: "(string \<times> ('e, 's) env_obj \<times> int) list \<Rightarrow> ('e, 's, 'v) env_group result" where
  "new_env_group built =
     bind_result (guard ValueError (built \<noteq> [])) (\<lambda>_.
     let envs = concat (map (\<lambda>(i, obj, n). case obj of LocalEnv b \<Rightarrow> [(i, b)] | ServerEnv s \<Rightarrow> []) built);
         servers = concat (map (\<lambda>(i, obj, n). case obj of LocalEnv b \<Rightarrow> [] | ServerEnv s \<Rightarrow> [(i, s)]) built)
     in Inr \<lparr>eg_envs = envs, eg_servers = servers,
             eg_num_envs = store_all [] (zip (dict_keys envs @ dict_keys servers) (map (\<lambda>(i, obj, n). n) built)),
             eg_futures = [], eg_future_env = [], eg_next_ref = 0, eg_counter = None, eg_auto = False\<rparr>)"

text \<open>The shape check of \<open>init\<close>: the number of parallel environments and the shape of the action space.\<close>

definition action_shape :: "int \<times> nat list option \<Rightarrow> nat list result" where
  "action_shape m = (case m of (n, shape) \<Rightarrow>
     bind_result (of_option AttributeError shape) (\<lambda>s. Inr (if n > 1 then drop 1 s else s)))"

definition check_env_metas :: "(int \<times> nat list option) list \<Rightarrow> unit result" where
  "check_env_metas ms =
     (case ms of
        [] \<Rightarrow> Inr ()
      | m0 # rest \<Rightarrow>
          foldM (\<lambda>_ m. if snd m = None then Inr ()
             else bind_result (action_shape m) (\<lambda>s. bind_result (action_shape m0) (\<lambda>s0. guard ValueError (s = s0))))
           () rest)"

subsection \<open>Calls to one environment of the group\<close>

text \<open>\<open>self[env_id]._reset()\<close> and \<open>self[env_id]._step(resp)\<close>\<close>

definition call_reset ::
    "('e, 'v) env_ops \<Rightarrow> ('s, 'v) server_ops \<Rightarrow> string \<Rightarrow> ('e, 's, 'v) env_group
       \<Rightarrow> (('e, 's, 'v) env_group \<times> 'v reply) result" where
  "call_reset ops sops i g =
     (case map_of (eg_envs g) i of
        Some b \<Rightarrow> bind_result (env_reset ops b) (\<lambda>(b', r). Inr (g\<lparr>eg_envs := AList.update i b' (eg_envs g)\<rparr>, One r))
      | None \<Rightarrow>
          (case map_of (eg_servers g) i of
             Some s \<Rightarrow> (case so_reset sops s of (s', rs) \<Rightarrow>
                 Inr (g\<lparr>eg_servers := AList.update i s' (eg_servers g)\<rparr>, Many rs))
           | None \<Rightarrow> Inl KeyError))"

definition call_step ::
    "('e, 'v) env_ops \<Rightarrow> string \<Rightarrow> 'v policy_resp \<Rightarrow> ('e, 's, 'v) env_group
       \<Rightarrow> (('e, 's, 'v) env_group \<times> 'v reply) result" where
  "call_step ops i q g =
     (case map_of (eg_envs g) i of
        Some b \<Rightarrow> bind_result (env_step ops q b) (\<lambda>(b', r). Inr (g\<lparr>eg_envs := AList.update i b' (eg_envs g)\<rparr>, One r))
      | None \<Rightarrow> Inl (if i \<in> set (dict_keys (eg_servers g)) then NotImplementedError else KeyError))"

definition the_counter :: "('e, 's, 'v) env_group \<Rightarrow> step_counter result" where
  "the_counter g = of_option AttributeError (eg_counter g)"

text \<open>The first loop of the asynchronous step with automatic reset: who is stepped, who is reset.\<close>

definition reset_or_step ::
    "('e, 'v) env_ops \<Rightarrow> ('s, 'v) server_ops \<Rightarrow> ('e, 's, 'v) env_group \<times> (string \<times> 'v reply) list
       \<Rightarrow> string \<times> 'v policy_resp \<Rightarrow> (('e, 's, 'v) env_group \<times> (string \<times> 'v reply) list) result" where
  "reset_or_step ops sops st item =
     (case st of (g, acc) \<Rightarrow> case item of (i, q) \<Rightarrow>
        bind_result (the_counter g) (\<lambda>c.
        bind_result (is_reached_max_steps c i) (\<lambda>reached.
        if reached
        then bind_result (call_reset ops sops i (g\<lparr>eg_counter := Some (counter_reset i c)\<rparr>)) (\<lambda>(g', r).
             Inr (g', acc @ [(i, r)]))
        else bind_result (call_step ops i q g) (\<lambda>(g', r). Inr (g', acc @ [(i, r)])))))"

text \<open>Advancing counters and reading truncations after the calls.\<close>

definition advance_counters :: "string list \<Rightarrow> ('e, 's, 'v) env_group \<Rightarrow> ('e, 's, 'v) env_group result" where
  "advance_counters is g =
     bind_result (the_counter g) (\<lambda>c.
     bind_result (foldM counter_step c is) (\<lambda>c'. Inr (g\<lparr>eg_counter := Some c'\<rparr>)))"

definition read_truncations :: "string list \<Rightarrow> ('e, 's, 'v) env_group \<Rightarrow> bool list result" where
  "read_truncations is g = bind_result (the_counter g) (\<lambda>c. get_truncations c is)"

subsection \<open>Synchronous operations\<close>

text \<open>\<open>reset\<close>: the returns in the order of the environments, then those of the clients of the servers.\<close>

definition reset_envs ::
    "('e, 'v) env_ops \<Rightarrow> ('s, 'v) server_ops \<Rightarrow> ('e, 's, 'v) env_group
       \<Rightarrow> (('e, 's, 'v) env_group \<times> (string \<times> 'v env_ret) list) result" where
  "reset_envs ops sops g =
     foldM (\<lambda>(g, acc) i. bind_result (call_reset ops sops i g) (\<lambda>(g', r).
        Inr (g', acc @ (case r of One x \<Rightarrow> [(i, x)] | Many xs \<Rightarrow> map (Pair i) xs)))) (g, []) (eg_ids g)"

definition group_reset ::
    "('e, 'v) env_ops \<Rightarrow> ('s, 'v) server_ops \<Rightarrow> ('e, 's, 'v) env_group
       \<Rightarrow> (('e, 's, 'v) env_group \<times> 'v env_ret batched_data \<times> bool list) result" where
  "group_reset ops sops g =
     bind_result (reset_envs ops sops g) (\<lambda>(g1, items).
     bind_result (new_batched_data (map fst items) (map snd items)) (\<lambda>b.
     if eg_auto g1
     then bind_result (the_counter g1) (\<lambda>c.
          bind_result (advance_counters (map fst items) (g1\<lparr>eg_counter := Some (fold counter_reset (map fst items) c)\<rparr>)) (\<lambda>g2.
          bind_result (read_truncations (map fst items) g2) (\<lambda>ts. Inr (g2, b, ts))))
     else Inr (g1, b, map (\<lambda>_. False) items)))"

text \<open>
  \<open>step\<close>: with automatic reset every counter of the group advances, also those of environments that are
  not in the batch. Without it the identifier is cut at the first slash.
\<close>

definition group_step ::
    "('e, 'v) env_ops \<Rightarrow> ('s, 'v) server_ops \<Rightarrow> 'v policy_resp batched_data \<Rightarrow> ('e, 's, 'v) env_group
       \<Rightarrow> (('e, 's, 'v) env_group \<times> 'v reply batched_data \<times> bool list option) result" where
  "group_step ops sops batch g =
     (if eg_auto g
      then bind_result (foldM (reset_or_step ops sops) (g, []) (batched_items batch)) (\<lambda>(g1, rs).
           bind_result (advance_counters (eg_ids g1) g1) (\<lambda>g2.
           bind_result (read_truncations (bd_ids batch) g2) (\<lambda>ts.
           bind_result (new_batched_data (bd_ids batch) (map snd rs)) (\<lambda>b. Inr (g2, b, Some ts)))))
      else bind_result (foldM (\<lambda>(g, acc) (i, q).
               bind_result (call_step ops (takeWhile (\<lambda>ch. ch \<noteq> CHR ''/'') i) q g) (\<lambda>(g', r). Inr (g', acc @ [r])))
             (g, []) (batched_items batch)) (\<lambda>(g1, rs).
           bind_result (new_batched_data (bd_ids batch) rs) (\<lambda>b. Inr (g1, b, None))))"

subsection \<open>Asynchronous operations\<close>

text \<open>
  \<open>_env_ret_future_to_env_id\<close> is a dictionary whose keys are the futures. References of remote calls are distinct keys.
  A local call has no reference: its future is the return itself, which is hashed by its environment and compared
  as a dataclass, field by field (\<open>eqf\<close>, which may raise, as comparing two tensors does); the list of a server cannot
  be hashed. A future is a number here, the identity of the object, and \<open>objs\<close> has the objects.
\<close>

type_synonym 'v ret_eq = "'v env_ret \<Rightarrow> 'v env_ret \<Rightarrow> bool result"

fun find_key :: "'v ret_eq \<Rightarrow> (nat \<times> 'v reply) list \<Rightarrow> nat \<Rightarrow> 'v env_ret \<Rightarrow> (nat, string) dict \<Rightarrow> nat option result" where
  "find_key eqf objs ref x [] = Inr None"
| "find_key eqf objs ref x ((k, i) # m) =
     (if k = ref then Inr (Some k)
      else case map_of objs k of
             Some (One y) \<Rightarrow>
               if er_env_id y = er_env_id x
               then bind_result (eqf y x) (\<lambda>b. if b then Inr (Some k) else find_key eqf objs ref x m)
               else find_key eqf objs ref x m
           | _ \<Rightarrow> find_key eqf objs ref x m)"

definition find_future :: "bool \<Rightarrow> 'v ret_eq \<Rightarrow> (nat \<times> 'v reply) list \<Rightarrow> nat \<Rightarrow> (nat, string) dict \<Rightarrow> nat option result" where
  "find_future remote eqf objs ref m =
     (if remote then Inr (if ref \<in> set (dict_keys m) then Some ref else None)
      else case map_of objs ref of
             Some (One x) \<Rightarrow> find_key eqf objs ref x m
           | _ \<Rightarrow> Inl TypeError)"

definition put_futures ::
    "bool \<Rightarrow> 'v ret_eq \<Rightarrow> (nat \<times> 'v reply) list \<Rightarrow> (nat \<times> string) list \<Rightarrow> (nat, string) dict \<Rightarrow> (nat, string) dict result" where
  "put_futures remote eqf objs items m =
     foldM (\<lambda>m (ref, i). bind_result (find_future remote eqf objs ref m) (\<lambda>k.
        Inr (AList.update (case k of None \<Rightarrow> ref | Some k \<Rightarrow> k) i m))) m items"

definition add_futures ::
    "bool \<Rightarrow> 'v ret_eq \<Rightarrow> (string \<times> 'v reply) list \<Rightarrow> ('e, 's, 'v) env_group \<Rightarrow> ('e, 's, 'v) env_group result" where
  "add_futures remote eqf rs g =
     (let refs = [eg_next_ref g..<eg_next_ref g + length rs];
          objs = eg_futures g @ zip refs (map snd rs)
      in bind_result (put_futures remote eqf objs (zip refs (map fst rs)) []) (\<lambda>new.
         bind_result (put_futures remote eqf objs new (eg_future_env g)) (\<lambda>fe.
         Inr (g\<lparr>eg_futures := objs, eg_future_env := fe, eg_next_ref := eg_next_ref g + length rs\<rparr>))))"

text \<open>
  \<open>step_async\<close>: the environments at their limit are reset, then the others are stepped; a server gets
  the list of its responses, and its answers are one future.
\<close>

definition split_batch ::
    "(string \<times> 'v policy_resp) list \<Rightarrow> step_counter \<Rightarrow>
       (step_counter \<times> (string \<times> 'v policy_resp) list \<times> (string \<times> 'v policy_resp) list) result" where
  "split_batch items c =
     foldM (\<lambda>(c, to_step, to_reset) (i, q).
        bind_result (is_reached_max_steps c i) (\<lambda>reached.
        Inr (if reached then (counter_reset i c, to_step, to_reset @ [(i, q)])
             else (c, to_step @ [(i, q)], to_reset)))) (c, [], []) items"

definition step_async_locals ::
    "('e, 'v) env_ops \<Rightarrow> (string \<times> 'v policy_resp) list \<Rightarrow> ('e, 's, 'v) env_group
       \<Rightarrow> (('e, 's, 'v) env_group \<times> (string \<times> 'v reply) list \<times> (string, 'v policy_resp list) dict) result" where
  "step_async_locals ops items g =
     foldM (\<lambda>(g, rs, to_servers) (i, q).
        if i \<in> set (dict_keys (eg_servers g))
        then Inr (g, rs, dict_append i q to_servers)
        else bind_result (call_step ops i q g) (\<lambda>(g', r). Inr (g', rs @ [(i, r)], to_servers)))
       (g, [], map (\<lambda>(i, s). (i, [])) (eg_servers g)) items"

definition step_async_servers ::
    "('s, 'v) server_ops \<Rightarrow> (string, 'v policy_resp list) dict \<Rightarrow> ('e, 's, 'v) env_group
       \<Rightarrow> ('e, 's, 'v) env_group \<times> (string \<times> 'v reply) list" where
  "step_async_servers sops to_servers g =
     fold (\<lambda>(i, qs) (g, rs).
        if qs = [] then (g, rs)
        else case map_of (eg_servers g) i of
               None \<Rightarrow> (g, rs)
             | Some s \<Rightarrow> (case so_collect_async sops (so_step_async sops s qs) of (s', xs) \<Rightarrow>
                 (g\<lparr>eg_servers := AList.update i s' (eg_servers g)\<rparr>, rs @ [(i, Many xs)]))) to_servers (g, [])"

definition group_step_async ::
    "('e, 'v) env_ops \<Rightarrow> ('s, 'v) server_ops \<Rightarrow> bool \<Rightarrow> 'v ret_eq \<Rightarrow> 'v policy_resp batched_data \<Rightarrow> ('e, 's, 'v) env_group
       \<Rightarrow> ('e, 's, 'v) env_group result" where
  "group_step_async ops sops remote eqf batch g =
     bind_result
       (if eg_auto g \<and> batched_items batch \<noteq> []
        then bind_result (the_counter g) (\<lambda>c.
             bind_result (split_batch (batched_items batch) c) (\<lambda>(c', to_step, to_reset).
             Inr (g\<lparr>eg_counter := Some c'\<rparr>, to_step, to_reset)))
        else Inr (g, batched_items batch, [])) (\<lambda>(g1, to_step, to_reset).
     bind_result (foldM (\<lambda>(g, rs) (i, q). bind_result (call_reset ops sops i g) (\<lambda>(g', r). Inr (g', rs @ [(i, r)])))
        (g1, []) to_reset) (\<lambda>(g2, rs1).
     bind_result (step_async_locals ops to_step g2) (\<lambda>(g3, rs2, to_servers).
     case step_async_servers sops to_servers g3 of (g4, rs3) \<Rightarrow> add_futures remote eqf (rs1 @ rs2 @ rs3) g4)))"

text \<open>
  \<open>ray.wait(refs, num_returns=k, timeout=t)\<close> as a function of \<open>k\<close>, \<open>t\<close> and the references, giving the
  references that are ready and those that are not; \<open>elapsed\<close> is the time the first wait took.
\<close>

type_synonym ray_wait_fn = "nat \<Rightarrow> rat option \<Rightarrow> nat list \<Rightarrow> (nat list \<times> nat list) result"

definition ready_futures ::
    "ray_wait_fn \<Rightarrow> bool \<Rightarrow> rat option \<Rightarrow> rat \<Rightarrow> bool \<Rightarrow> nat list \<Rightarrow> (nat list \<times> nat list) result" where
  "ready_futures rw remote timeout elapsed wait_all refs =
     (if \<not> remote then Inr (refs, [])
      else if wait_all then bind_result (rw (length refs) None refs) (\<lambda>(ready, _). Inr (ready, []))
      else bind_result (rw 1 None refs) (\<lambda>(ready, unready).
        case timeout of
          Some t \<Rightarrow>
            if unready \<noteq> [] \<and> max 0 (t - elapsed) > 0
            then bind_result (rw (length unready) (Some (max 0 (t - elapsed))) unready) (\<lambda>(more, left).
                 Inr (ready @ more, left))
            else Inr (ready, unready)
        | None \<Rightarrow>
            if unready \<noteq> []
            then bind_result (rw (length unready) (Some 0) unready) (\<lambda>(more, left). Inr (ready @ more, left))
            else Inr (ready, unready)))"

definition flatten_replies :: "(string \<times> 'v reply) list \<Rightarrow> (string \<times> 'v env_ret) list" where
  "flatten_replies items = concat (map (\<lambda>(i, r). case r of One x \<Rightarrow> [(i, x)] | Many xs \<Rightarrow> map (Pair i) xs) items)"

definition take_futures ::
    "bool \<Rightarrow> 'v ret_eq \<Rightarrow> nat list \<Rightarrow> nat list \<Rightarrow> ('e, 's, 'v) env_group \<Rightarrow> (('e, 's, 'v) env_group \<times> (string \<times> 'v reply) list) result" where
  "take_futures remote eqf ready left g =
     bind_result (foldM (\<lambda>(m, acc) ref.
          bind_result (find_future remote eqf (eg_futures g) ref m) (\<lambda>k.
          bind_result (of_option KeyError (Option.bind k (map_of m))) (\<lambda>i.
          bind_result (of_option KeyError (map_of (eg_futures g) ref)) (\<lambda>r.
          Inr (AList.delete (the k) m, acc @ [(i, r)]))))) (eg_future_env g, []) ready) (\<lambda>(m, items).
     Inr (g\<lparr>eg_futures := concat (map (\<lambda>ref. case map_of (eg_futures g) ref of None \<Rightarrow> [] | Some r \<Rightarrow> [(ref, r)]) left),
            eg_future_env := m\<rparr>, items))"

definition group_collect_async ::
    "ray_wait_fn \<Rightarrow> bool \<Rightarrow> 'v ret_eq \<Rightarrow> rat option \<Rightarrow> rat \<Rightarrow> bool \<Rightarrow> ('e, 's, 'v) env_group
       \<Rightarrow> (('e, 's, 'v) env_group \<times> 'v env_ret batched_data \<times> bool list) result" where
  "group_collect_async rw remote eqf timeout elapsed wait_all g =
     bind_result (guard ValueError (case timeout of None \<Rightarrow> True | Some t \<Rightarrow> t > 0)) (\<lambda>_.
     bind_result (ready_futures rw remote timeout elapsed wait_all (dict_keys (eg_futures g))) (\<lambda>(ready, left).
     bind_result (take_futures remote eqf ready left g) (\<lambda>(g1, items).
     let flat = flatten_replies items in
     bind_result (new_batched_data (map fst flat) (map snd flat)) (\<lambda>b.
     if eg_auto g1
     then bind_result (advance_counters (map fst items) g1) (\<lambda>g2.
          bind_result (read_truncations (map fst items) g2) (\<lambda>ts. Inr (g2, b, ts)))
     else Inr (g1, b, map (\<lambda>_. False) flat)))))"

subsection \<open>The context of automatic reset\<close>

text \<open>
  Entering \<open>auto_reset(max_episode_steps)\<close>: the flag is set before anything can raise, so the group
  that is left behind by a failed entry is part of the result.
\<close>

definition episode_limits :: "int option \<Rightarrow> ('e, 's, 'v) env_group \<Rightarrow> int list result" where
  "episode_limits m g =
     (case m of
        None \<Rightarrow> mapM (\<lambda>(i, b). of_option ValueError (be_max b)) (eg_envs g)
      | Some k \<Rightarrow> bind_result (guard ValueError (k > 0)) (\<lambda>_. Inr (map (\<lambda>_. k) (eg_envs g))))"

definition enter_auto_reset :: "int option \<Rightarrow> ('e, 's, 'v) env_group \<Rightarrow> ('e, 's, 'v) env_group \<times> unit result" where
  "enter_auto_reset m g =
     (let g' = g\<lparr>eg_auto := True\<rparr>
      in case bind_result (episode_limits m g) (new_step_counter (eg_ids g)) of
           Inl e \<Rightarrow> (g', Inl e)
         | Inr c \<Rightarrow> (g'\<lparr>eg_counter := Some c\<rparr>, Inr ()))"

definition exit_auto_reset :: "('e, 's, 'v) env_group \<Rightarrow> ('e, 's, 'v) env_group" where
  "exit_auto_reset g = g\<lparr>eg_auto := False, eg_counter := None\<rparr>"

subsection \<open>Statistics\<close>

text \<open>\<open>get_env_stats\<close>: a server records nothing, its hook does not call the recorder.\<close>

definition add_stats :: "(string, rat \<times> nat) dict \<Rightarrow> (string, rat \<times> nat) dict \<Rightarrow> (string, rat \<times> nat) dict" where
  "add_stats acc stats =
     fold (\<lambda>(k, (s, c)) t. case dict_get (0, 0) t k of (s0, c0) \<Rightarrow> AList.update k (s0 + s, c0 + c) t) stats acc"

definition mean_stats :: "(string, rat \<times> nat) dict \<Rightarrow> (string, rat) dict" where
  "mean_stats acc = map (\<lambda>(k, (s, c)). (k, s / of_nat c)) (filter (\<lambda>(k, (s, c)). c > 0) acc)"

definition get_env_stats :: "bool \<Rightarrow> ('e, 's, 'v) env_group \<Rightarrow> ('e, 's, 'v) env_group \<times> (string, rat) dict" where
  "get_env_stats reset g =
     (g\<lparr>eg_envs := map (\<lambda>(i, b). (i, clear_infos reset b)) (eg_envs g)\<rparr>,
      mean_stats (fold (\<lambda>(i, b) t. add_stats t (env_stats b)) (eg_envs g) []))"

end
