(* ===== verification/Env_Group_Correct.thy ===== *)
theory Env_Group_Correct
  imports Env_Group
begin

text \<open>
  The counters of a group under synchronous steps, its calls and its automatic resets.
\<close>

subsection \<open>Calls\<close>

text \<open>The environments never raise: an assumption on code outside the repository.\<close>

definition env_total :: "('e, 'v) env_ops \<Rightarrow> bool" where
  "env_total ops \<longleftrightarrow> (\<forall>e. \<exists>r. eo_reset ops e = Inr r) \<and> (\<forall>e q. \<exists>r. eo_step ops e q = Inr r)"

text \<open>A call changes only the environments, and keeps which there are.\<close>

definition same_frame :: "('e, 's, 'v) env_group \<Rightarrow> ('e, 's, 'v) env_group \<Rightarrow> bool" where
  "same_frame g g' \<longleftrightarrow> dict_keys (eg_envs g') = dict_keys (eg_envs g) \<and> eg_servers g' = eg_servers g
     \<and> eg_auto g' = eg_auto g \<and> eg_futures g' = eg_futures g \<and> eg_future_env g' = eg_future_env g
     \<and> eg_next_ref g' = eg_next_ref g"

lemma same_frame_refl [simp]: "same_frame g g"
  by (simp add: same_frame_def)

lemma same_frame_trans: "same_frame g g' \<Longrightarrow> same_frame g' g'' \<Longrightarrow> same_frame g g''"
  by (simp add: same_frame_def)

lemma same_frame_ids: "same_frame g g' \<Longrightarrow> eg_ids g' = eg_ids g"
  by (simp add: same_frame_def eg_ids_def)

lemma same_frame_counter [simp]: "same_frame g (g'\<lparr>eg_counter := c\<rparr>) = same_frame g g'"
  "same_frame (g\<lparr>eg_counter := c\<rparr>) g' = same_frame g g'"
  by (simp_all add: same_frame_def)

lemma in_keys_map_of: "i \<in> set (dict_keys d) \<Longrightarrow> \<exists>v. map_of d i = Some v"
  by (metis list.set_map map_of_eq_None_iff not_None_eq)

lemma call_reset_total:
  assumes "env_total ops" "i \<in> set (dict_keys (eg_envs g))"
  shows "\<exists>g' r. call_reset ops sops i g = Inr (g', One r) \<and> same_frame g g' \<and> eg_counter g' = eg_counter g"
proof -
  obtain b where b: "map_of (eg_envs g) i = Some b" using in_keys_map_of [OF assms(2)] by blast
  obtain e r where "eo_reset ops (be_env b) = Inr (e, r)" using assms(1) unfolding env_total_def by fastforce
  with b assms(2) show ?thesis
    by (auto simp: call_reset_def env_reset_def post_step_hook_def same_frame_def update_keys)
qed

lemma call_step_total:
  assumes "env_total ops" "i \<in> set (dict_keys (eg_envs g))"
  shows "\<exists>g' r. call_step ops i q g = Inr (g', One r) \<and> same_frame g g' \<and> eg_counter g' = eg_counter g"
proof -
  obtain b where b: "map_of (eg_envs g) i = Some b" using in_keys_map_of [OF assms(2)] by blast
  obtain e r where "eo_step ops (be_env b) q = Inr (e, r)" using assms(1) unfolding env_total_def by fastforce
  with b assms(2) show ?thesis
    by (auto simp: call_step_def env_step_def post_step_hook_def same_frame_def update_keys)
qed

text \<open>Counters that know every environment of the list.\<close>

definition counted :: "step_counter \<Rightarrow> string list \<Rightarrow> bool" where
  "counted c is \<longleftrightarrow> (\<forall>i \<in> set is. \<exists>k m. steps_of c i = Some k \<and> max_of c i = Some m)"

lemma countedD: "counted c is \<Longrightarrow> i \<in> set is \<Longrightarrow> \<exists>k m. steps_of c i = Some k \<and> max_of c i = Some m"
  by (simp add: counted_def)

text \<open>The loop over a batch: one reply per item, and the counters at their limit are reset.\<close>

lemma reset_or_step_one:
  assumes "env_total ops" "i \<in> set (dict_keys (eg_envs g))" "eg_counter g = Some c"
    and "steps_of c i = Some k" "max_of c i = Some m"
  shows "\<exists>g' r c'. reset_or_step ops sops (g, acc) (i, q) = Inr (g', acc @ [(i, One r)]) \<and> same_frame g g'
     \<and> eg_counter g' = Some c' \<and> sc_max c' = sc_max c \<and> sc_ids c' = sc_ids c
     \<and> steps_of c' = (if k = m then (steps_of c)(i \<mapsto> - 1) else steps_of c)"
proof (cases "k = m")
  case True
  from call_reset_total [OF assms(1), of i "g\<lparr>eg_counter := Some (counter_reset i c)\<rparr>" sops] assms(2) obtain g' r
    where "call_reset ops sops i (g\<lparr>eg_counter := Some (counter_reset i c)\<rparr>) = Inr (g', One r)" "same_frame g g'"
      "eg_counter g' = Some (counter_reset i c)" by auto
  with assms True show ?thesis by (auto simp: reset_or_step_def the_counter_def is_reached_eq)
next
  case False
  from call_step_total [OF assms(1,2), of q] obtain g' r
    where "call_step ops i q g = Inr (g', One r)" "same_frame g g'" "eg_counter g' = eg_counter g" by auto
  with assms False show ?thesis by (auto simp: reset_or_step_def the_counter_def is_reached_eq)
qed

lemma reset_or_step_loop:
  assumes "env_total ops" "distinct (map fst items)" "set (map fst items) \<subseteq> set (dict_keys (eg_envs g))"
    and "eg_counter g = Some c" "counted c (map fst items)"
  shows "\<exists>g' rs c'. foldM (reset_or_step ops sops) (g, acc) items = Inr (g', acc @ rs) \<and> same_frame g g'
     \<and> map fst rs = map fst items \<and> eg_counter g' = Some c' \<and> sc_max c' = sc_max c \<and> sc_ids c' = sc_ids c
     \<and> steps_of c' = (\<lambda>i. if i \<in> set (map fst items) \<and> steps_of c i = max_of c i then Some (- 1) else steps_of c i)"
  using assms(2-5)
proof (induction items arbitrary: g acc c)
  case Nil
  then show ?case by (intro exI [of _ g] exI [of _ "[]"] exI [of _ c]) simp
next
  case (Cons item items)
  obtain i q where item: "item = (i, q)" by (cases item)
  obtain k m where km: "steps_of c i = Some k" "max_of c i = Some m"
    using Cons.prems(4) item by (auto simp: counted_def)
  have "i \<in> set (dict_keys (eg_envs g))" using Cons.prems(2) item by simp
  from reset_or_step_one [OF assms(1) this Cons.prems(3) km, of sops acc q] obtain g1 r c1 where one:
    "reset_or_step ops sops (g, acc) (i, q) = Inr (g1, acc @ [(i, One r)])" "same_frame g g1"
    "eg_counter g1 = Some c1" "sc_max c1 = sc_max c" "sc_ids c1 = sc_ids c"
    "steps_of c1 = (if k = m then (steps_of c)(i \<mapsto> - 1) else steps_of c)" by blast
  have other: "steps_of c1 j = steps_of c j" if "j \<noteq> i" for j using one(6) that by simp
  have "counted c1 (map fst items)" unfolding counted_def
  proof
    fix j assume j: "j \<in> set (map fst items)"
    then have "j \<noteq> i" using Cons.prems(1) item by auto
    moreover have "\<exists>k m. steps_of c j = Some k \<and> max_of c j = Some m"
      using j by (intro countedD [OF Cons.prems(4)]) simp
    ultimately show "\<exists>k m. steps_of c1 j = Some k \<and> max_of c1 j = Some m"
      by (simp add: other one(4))
  qed
  moreover have "set (map fst items) \<subseteq> set (dict_keys (eg_envs g1))"
    using Cons.prems(2) one(2) by (simp add: same_frame_def)
  moreover have "distinct (map fst items)" using Cons.prems(1) by simp
  ultimately obtain g' rs c' where rest:
    "foldM (reset_or_step ops sops) (g1, acc @ [(i, One r)]) items = Inr (g', (acc @ [(i, One r)]) @ rs)"
    "same_frame g1 g'" "map fst rs = map fst items" "eg_counter g' = Some c'" "sc_max c' = sc_max c1" "sc_ids c' = sc_ids c1"
    "steps_of c' = (\<lambda>j. if j \<in> set (map fst items) \<and> steps_of c1 j = max_of c1 j then Some (- 1) else steps_of c1 j)"
    using Cons.IH [of g1 c1 "acc @ [(i, One r)]"] one(3) by blast
  have ni: "i \<notin> set (map fst items)" using Cons.prems(1) item by auto
  have "steps_of c' j = (if j \<in> set (map fst (item # items)) \<and> steps_of c j = max_of c j then Some (- 1) else steps_of c j)" for j
    using ni one(4,6) other km rest(7) item by (cases "j = i") auto
  with one rest item show ?case
    by (intro exI [of _ g'] exI [of _ "(i, One r) # rs"] exI [of _ c'])
       (auto intro: same_frame_trans)
qed

subsection \<open>A group in lockstep\<close>

text \<open>
  All environments of a group without servers are \<open>k\<close> steps into an episode of at most \<open>m\<close> steps.
\<close>

definition lockstep :: "int \<Rightarrow> int \<Rightarrow> ('e, 's, 'v) env_group \<Rightarrow> bool" where
  "lockstep k m g \<longleftrightarrow> eg_servers g = [] \<and> eg_auto g \<and> distinct (dict_keys (eg_envs g))
     \<and> (\<exists>c. eg_counter g = Some c \<and> (\<forall>i \<in> set (eg_ids g). steps_of c i = Some k \<and> max_of c i = Some m))"

definition full_batch :: "('e, 's, 'v) env_group \<Rightarrow> 'd batched_data \<Rightarrow> bool" where
  "full_batch g b \<longleftrightarrow> distinct (bd_ids b) \<and> set (bd_ids b) = set (eg_ids g) \<and> length (bd_data b) = length (bd_ids b)"

lemma batched_items_keys: "length (bd_data b) = length (bd_ids b) \<Longrightarrow> map fst (batched_items b) = bd_ids b"
  by (simp add: batched_items_def)

lemma lockstep_step:
  assumes "env_total ops" "lockstep k m g" "full_batch g b" "0 \<le> k" "k \<le> m" "0 < m"
  shows "\<exists>g' out. group_step ops sops b g = Inr (g', out, Some (map (\<lambda>_. (if k = m then 0 else k + 1) = m) (bd_ids b)))
     \<and> bd_ids out = bd_ids b \<and> lockstep (if k = m then 0 else k + 1) m g' \<and> eg_ids g' = eg_ids g"
proof -
  define k' where "k' = (if k = m then 0 else k + 1)"
  obtain c where c: "eg_servers g = []" "eg_auto g" "distinct (dict_keys (eg_envs g))" "eg_counter g = Some c"
    "\<And>i. i \<in> set (eg_ids g) \<Longrightarrow> steps_of c i = Some k \<and> max_of c i = Some m"
    using assms(2) by (auto simp: lockstep_def)
  have ids: "map fst (batched_items b) = bd_ids b" using assms(3) by (simp add: full_batch_def batched_items_keys)
  have keys: "eg_ids g = dict_keys (eg_envs g)" using c(1) by (simp add: eg_ids_def)
  have "distinct (bd_ids b)" "set (bd_ids b) \<subseteq> set (dict_keys (eg_envs g))" "counted c (bd_ids b)"
    using assms(3) c(5) keys by (auto simp: full_batch_def counted_def)
  with reset_or_step_loop [OF assms(1), of "batched_items b" g c sops "[]"] c(4) ids obtain g1 rs c1 where loop:
    "foldM (reset_or_step ops sops) (g, []) (batched_items b) = Inr (g1, rs)" "same_frame g g1"
    "map fst rs = bd_ids b" "eg_counter g1 = Some c1" "sc_max c1 = sc_max c"
    "steps_of c1 = (\<lambda>i. if i \<in> set (bd_ids b) \<and> steps_of c i = max_of c i then Some (- 1) else steps_of c i)"
    by auto
  have g1: "eg_ids g1 = eg_ids g" using loop(2) by (rule same_frame_ids)
  have st1: "steps_of c1 i = Some (k' - 1)" "max_of c1 i = Some m" if "i \<in> set (eg_ids g)" for i
    using c(5) [OF that] that assms(3) loop(5,6) by (auto simp: full_batch_def k'_def)
  have "k' - 1 < m" using assms(4-6) by (auto simp: k'_def)
  with step_pass [of "eg_ids g" c1] st1 c(3) keys obtain c2 where pass:
    "foldM counter_step c1 (eg_ids g) = Inr c2" "sc_max c2 = sc_max c1"
    "steps_of c2 = (\<lambda>i. if i \<in> set (eg_ids g) then map_option (\<lambda>k. k + 1) (steps_of c1 i) else steps_of c1 i)"
    by auto
  have st2: "steps_of c2 i = Some k'" "max_of c2 i = Some m" if "i \<in> set (eg_ids g)" for i
    using st1 [OF that] that pass(2,3) by simp_all
  have "get_truncations c2 (bd_ids b) = Inr (map (\<lambda>i. steps_of c2 i = max_of c2 i) (bd_ids b))"
    by (rule get_truncations_eq) (use st2 assms(3) in \<open>auto simp: full_batch_def\<close>)
  moreover have "map (\<lambda>i. steps_of c2 i = max_of c2 i) (bd_ids b) = map (\<lambda>_. k' = m) (bd_ids b)"
    using st2 assms(3) by (auto simp: full_batch_def)
  moreover have "length rs = length (bd_ids b)" using loop(3) by (metis length_map)
  ultimately have "group_step ops sops b g = Inr (g1\<lparr>eg_counter := Some c2\<rparr>, \<lparr>bd_ids = bd_ids b, bd_data = map snd rs\<rparr>,
      Some (map (\<lambda>_. k' = m) (bd_ids b)))"
    using c(2) loop(1,4) g1 pass(1)
    by (simp add: group_step_def advance_counters_def read_truncations_def the_counter_def new_batched_data_def)
  moreover have "lockstep k' m (g1\<lparr>eg_counter := Some c2\<rparr>)"
    using c(1-3) loop(2) st2 g1 by (auto simp: lockstep_def same_frame_def eg_ids_def)
  moreover have "eg_ids (g1\<lparr>eg_counter := Some c2\<rparr>) = eg_ids g" using g1 by (simp add: eg_ids_def)
  ultimately show ?thesis unfolding k'_def [symmetric] by (metis batched_data.select_convs(1))
qed

definition run_steps ::
    "('e, 'v) env_ops \<Rightarrow> ('s, 'v) server_ops \<Rightarrow> 'v policy_resp batched_data list \<Rightarrow> ('e, 's, 'v) env_group
       \<Rightarrow> (('e, 's, 'v) env_group \<times> bool list option list) result" where
  "run_steps ops sops batches g =
     foldM (\<lambda>(g, log) b. bind_result (group_step ops sops b g) (\<lambda>(g', _, ts). Inr (g', log @ [ts]))) (g, []) batches"

lemma mod_next:
  fixes n m :: int
  assumes "0 \<le> n" "0 < m"
  shows "(n + 1) mod (m + 1) = (if n mod (m + 1) = m then 0 else n mod (m + 1) + 1)"
proof -
  have "(n + 1) mod (m + 1) = (n mod (m + 1) + 1) mod (m + 1)" by (simp add: mod_simps)
  moreover have "0 \<le> n mod (m + 1)" "n mod (m + 1) < m + 1"
    using assms(2) pos_mod_bound [of "m + 1" n] by simp_all
  ultimately show ?thesis by auto
qed

lemma lockstep_run:
  assumes "env_total ops" "lockstep 0 m g" "0 < m" "\<And>b. b \<in> set batches \<Longrightarrow> full_batch g b"
  shows "\<exists>g'. run_steps ops sops batches g
     = Inr (g', map (\<lambda>j. Some (map (\<lambda>_. (int j + 1) mod (m + 1) = m) (bd_ids (batches ! j)))) [0..<length batches])
     \<and> lockstep (int (length batches) mod (m + 1)) m g' \<and> eg_ids g' = eg_ids g"
  using assms(4)
proof (induction batches rule: rev_induct)
  case Nil
  then show ?case using assms(2) by (simp add: run_steps_def)
next
  case (snoc b bs)
  let ?k = "int (length bs) mod (m + 1)"
  obtain g' where ih: "run_steps ops sops bs g
     = Inr (g', map (\<lambda>j. Some (map (\<lambda>_. (int j + 1) mod (m + 1) = m) (bd_ids (bs ! j)))) [0..<length bs])"
     "lockstep ?k m g'" "eg_ids g' = eg_ids g"
    using snoc by auto
  have "full_batch g' b" using snoc.prems [of b] ih(3) by (simp add: full_batch_def)
  moreover have "0 \<le> ?k" "?k \<le> m" using assms(3) pos_mod_bound [of "m + 1" "int (length bs)"] by simp_all
  ultimately obtain g'' out where step:
    "group_step ops sops b g' = Inr (g'', out, Some (map (\<lambda>_. (int (length bs) + 1) mod (m + 1) = m) (bd_ids b)))"
    "lockstep ((int (length bs) + 1) mod (m + 1)) m g''" "eg_ids g'' = eg_ids g'"
    using lockstep_step [OF assms(1) ih(2), of b sops] assms(3) mod_next [of "int (length bs)" m] by auto
  have "map (\<lambda>j. Some (map (\<lambda>_. (int j + 1) mod (m + 1) = m) (bd_ids ((bs @ [b]) ! j)))) [0..<length bs]
      = map (\<lambda>j. Some (map (\<lambda>_. (int j + 1) mod (m + 1) = m) (bd_ids (bs ! j)))) [0..<length bs]"
    by (simp add: nth_append)
  with ih step show ?case by (auto simp: run_steps_def foldM_append nth_append add.commute)
qed

subsection \<open>Entering the context and the first reset\<close>

lemma reset_envs_total:
  assumes "env_total ops" "set is \<subseteq> set (dict_keys (eg_envs g))"
  shows "\<exists>g' items. foldM (\<lambda>(g, acc) i. bind_result (call_reset ops sops i g) (\<lambda>(g', r).
        Inr (g', acc @ (case r of One x \<Rightarrow> [(i, x)] | Many xs \<Rightarrow> map (Pair i) xs)))) (g, acc) is = Inr (g', acc @ items)
     \<and> map fst items = is \<and> same_frame g g' \<and> eg_counter g' = eg_counter g"
  using assms(2)
proof (induction "is" arbitrary: g acc)
  case Nil
  then show ?case by (intro exI [of _ g] exI [of _ "[]"]) simp
next
  case (Cons i "is")
  have "i \<in> set (dict_keys (eg_envs g))" using Cons.prems by simp
  from call_reset_total [OF assms(1) this, of sops] obtain g1 r where one:
    "call_reset ops sops i g = Inr (g1, One r)" "same_frame g g1" "eg_counter g1 = eg_counter g" by blast
  have "set is \<subseteq> set (dict_keys (eg_envs g1))" using Cons.prems one(2) by (simp add: same_frame_def)
  from Cons.IH [OF this, of "acc @ [(i, r)]"] obtain g' items where
    "foldM (\<lambda>(g, acc) i. bind_result (call_reset ops sops i g) (\<lambda>(g', r).
        Inr (g', acc @ (case r of One x \<Rightarrow> [(i, x)] | Many xs \<Rightarrow> map (Pair i) xs)))) (g1, acc @ [(i, r)]) is
      = Inr (g', (acc @ [(i, r)]) @ items)" "map fst items = is" "same_frame g1 g'" "eg_counter g' = eg_counter g1"
    by blast
  with one show ?case
    by (intro exI [of _ g'] exI [of _ "(i, r) # items"]) (auto intro: same_frame_trans)
qed

lemma fold_counter_reset:
  "sc_max (fold counter_reset is c) = sc_max c"
  "steps_of (fold counter_reset is c) = (\<lambda>i. if i \<in> set is then Some (- 1) else steps_of c i)"
  by (induction "is" arbitrary: c) (auto simp: fun_eq_iff)

lemma map_of_zip_const: "i \<in> fst ` set xs \<Longrightarrow> map_of (zip (map fst xs) (map (\<lambda>_. m) xs)) i = Some m"
  by (induction xs) auto

lemma enter_auto_reset_ok:
  assumes "eg_servers g = []" "distinct (dict_keys (eg_envs g))" "0 < m"
  shows "\<exists>c. enter_auto_reset (Some m) g = (g\<lparr>eg_auto := True, eg_counter := Some c\<rparr>, Inr ())
     \<and> (\<forall>i \<in> set (eg_ids g). steps_of c i = Some (- 1) \<and> max_of c i = Some m)"
proof -
  have keys: "eg_ids g = dict_keys (eg_envs g)" using assms(1) by (simp add: eg_ids_def)
  obtain c where c: "new_step_counter (eg_ids g) (map (\<lambda>_. m) (eg_envs g)) = Inr c"
    using keys by (simp add: new_step_counter_def)
  have "max_of c = map_of (zip (map fst (eg_envs g)) (map (\<lambda>_. m) (eg_envs g)))"
    using new_step_counter_eq(2) [OF c] assms(2) keys by simp
  then have "max_of c i = Some m" if "i \<in> set (eg_ids g)" for i
    using that keys by (simp add: map_of_zip_const)
  moreover have "steps_of c i = Some (- 1)" if "i \<in> set (eg_ids g)" for i
    using new_step_counter_eq(3) [OF c] assms(2) keys that by simp
  moreover have "enter_auto_reset (Some m) g = (g\<lparr>eg_auto := True, eg_counter := Some c\<rparr>, Inr ())"
    using c assms(3) by (simp add: enter_auto_reset_def episode_limits_def)
  ultimately show ?thesis by blast
qed

lemma group_reset_lockstep:
  assumes "env_total ops" "eg_servers g = []" "distinct (dict_keys (eg_envs g))" "eg_auto g" "eg_counter g = Some c" "0 < m"
    and "\<And>i. i \<in> set (eg_ids g) \<Longrightarrow> max_of c i = Some m"
  shows "\<exists>g' b. group_reset ops sops g = Inr (g', b, map (\<lambda>_. False) (eg_ids g)) \<and> bd_ids b = eg_ids g
     \<and> length (bd_data b) = length (bd_ids b) \<and> lockstep 0 m g' \<and> eg_ids g' = eg_ids g"
proof -
  have keys: "eg_ids g = dict_keys (eg_envs g)" using assms(2) by (simp add: eg_ids_def)
  obtain g1 items where r: "reset_envs ops sops g = Inr (g1, items)" "map fst items = eg_ids g" "same_frame g g1"
      "eg_counter g1 = Some c"
    using reset_envs_total [OF assms(1), of "eg_ids g" g sops "[]"] keys assms(5) by (auto simp: reset_envs_def)
  define c1 where "c1 = fold counter_reset (eg_ids g) c"
  have "sc_max c1 = sc_max c" "\<And>i. i \<in> set (eg_ids g) \<Longrightarrow> steps_of c1 i = Some (- 1)"
    by (simp_all add: c1_def fold_counter_reset)
  with step_pass [of "eg_ids g" c1] assms(3,6,7) keys obtain c2 where pass:
    "foldM counter_step c1 (eg_ids g) = Inr c2" "sc_max c2 = sc_max c"
    "\<And>i. i \<in> set (eg_ids g) \<Longrightarrow> steps_of c2 i = Some 0" by auto
  have "get_truncations c2 (eg_ids g) = Inr (map (\<lambda>i. steps_of c2 i = max_of c2 i) (eg_ids g))"
    by (rule get_truncations_eq) (use pass(2,3) assms(7) in auto)
  moreover have "map (\<lambda>i. steps_of c2 i = max_of c2 i) (eg_ids g) = map (\<lambda>_. False) (eg_ids g)"
    using pass(2,3) assms(6,7) by simp
  moreover have "eg_auto g1" using r(3) assms(4) by (simp add: same_frame_def)
  ultimately have "group_reset ops sops g = Inr (g1\<lparr>eg_counter := Some c2\<rparr>,
      \<lparr>bd_ids = eg_ids g, bd_data = map snd items\<rparr>, map (\<lambda>_. False) (eg_ids g))"
    using r pass(1)
    by (simp add: group_reset_def advance_counters_def read_truncations_def the_counter_def new_batched_data_def
        c1_def [symmetric])
  moreover have "lockstep 0 m (g1\<lparr>eg_counter := Some c2\<rparr>)"
    using assms(2-4,7) r(3) pass(2,3) by (auto simp: lockstep_def same_frame_def eg_ids_def)
  moreover have "eg_ids (g1\<lparr>eg_counter := Some c2\<rparr>) = eg_ids g" using same_frame_ids [OF r(3)] by (simp add: eg_ids_def)
  moreover have "length (map snd items) = length (eg_ids g)" using r(2) by (metis length_map)
  ultimately show ?thesis by (metis batched_data.select_convs)
qed

subsection \<open>Properties of synchronous steps\<close>

text \<open>C12: the cycle of automatic reset: when a group without servers enters the context with the limit
  \<open>m\<close>, resets, and steps on batches for all its environments, no call raises; after the \<open>j\<close>-th step
  every environment has made \<open>j mod (m + 1)\<close> steps of its episode (the step that follows \<open>m\<close> steps
  resets it), and the truncation flags are set exactly when that is \<open>m\<close>.\<close>
theorem group_step_cycle:
  fixes g :: "('e, 's, 'v) env_group"
  assumes "env_total ops" "eg_servers g = []" "distinct (dict_keys (eg_envs g))" "0 < m"
    and "\<forall>b \<in> set batches. full_batch g b"
  shows "\<exists>g1 g2 b0 g3. enter_auto_reset (Some m) g = (g1, Inr ())
     \<and> group_reset ops sops g1 = Inr (g2, b0, map (\<lambda>_. False) (eg_ids g)) \<and> full_batch g b0
     \<and> run_steps ops sops batches g2
       = Inr (g3, map (\<lambda>j. Some (map (\<lambda>_. (int j + 1) mod (m + 1) = m) (bd_ids (batches ! j)))) [0..<length batches])
     \<and> (\<forall>i \<in> set (eg_ids g). \<exists>c. eg_counter g3 = Some c \<and> get_steps c i = Inr (int (length batches) mod (m + 1)))"
proof -
  obtain c where enter: "enter_auto_reset (Some m) g = (g\<lparr>eg_auto := True, eg_counter := Some c\<rparr>, Inr ())"
    "\<And>i. i \<in> set (eg_ids g) \<Longrightarrow> max_of c i = Some m"
    using enter_auto_reset_ok [OF assms(2-4)] by blast
  let ?g1 = "g\<lparr>eg_auto := True, eg_counter := Some c\<rparr>"
  have ids: "eg_ids ?g1 = eg_ids g" by (simp add: eg_ids_def)
  obtain g2 b0 where reset: "group_reset ops sops ?g1 = Inr (g2, b0, map (\<lambda>_. False) (eg_ids g))"
    "bd_ids b0 = eg_ids g" "length (bd_data b0) = length (bd_ids b0)" "lockstep 0 m g2" "eg_ids g2 = eg_ids g"
    using group_reset_lockstep [OF assms(1), of ?g1 c m sops] assms(2-4) enter(2) ids by auto
  have "full_batch g2 b" if "b \<in> set batches" for b
    using assms(5) that reset(5) by (simp add: full_batch_def)
  with lockstep_run [OF assms(1) reset(4) assms(4), of batches sops] obtain g3 where run: "run_steps ops sops batches g2
       = Inr (g3, map (\<lambda>j. Some (map (\<lambda>_. (int j + 1) mod (m + 1) = m) (bd_ids (batches ! j)))) [0..<length batches])"
    "lockstep (int (length batches) mod (m + 1)) m g3" "eg_ids g3 = eg_ids g2" by blast
  have "full_batch g b0" using reset(2,3) assms(2,3) by (simp add: full_batch_def eg_ids_def)
  moreover have "\<forall>i \<in> set (eg_ids g). \<exists>c. eg_counter g3 = Some c \<and> get_steps c i = Inr (int (length batches) mod (m + 1))"
    using run(2,3) reset(5) by (auto simp: lockstep_def get_steps_def)
  ultimately show ?thesis using enter(1) reset(1) run(1) by blast
qed

text \<open>A concrete environment that counts its steps, in a group of two.\<close>

definition count_ops :: "(int, int) env_ops" where
  "count_ops = \<lparr>
     eo_reset = (\<lambda>e. Inr (0, \<lparr>er_env_id = ''e'', er_observation = 0, er_last_reward = 0, er_last_terminated = 0,
        er_last_truncated = 0, er_info = 0, er_extra = [], er_sent = 0\<rparr>)),
     eo_step = (\<lambda>e q. Inr (e + 1, \<lparr>er_env_id = ''e'', er_observation = e + 1, er_last_reward = 1, er_last_terminated = 0,
        er_last_truncated = 0, er_info = 0, er_extra = [], er_sent = 0\<rparr>)),
     eo_episode_info = (\<lambda>_. None), eo_now = (\<lambda>e. e)\<rparr>"

definition no_server :: "(unit, int) server_ops" where
  "no_server = \<lparr>so_reset = (\<lambda>s. (s, [])), so_step_async = (\<lambda>s _. s), so_collect_async = (\<lambda>s. (s, []))\<rparr>"

definition count_env :: "string \<Rightarrow> int base_env" where
  "count_env i = \<lparr>be_id = i, be_num_envs = 1, be_max = None, be_infos = [], be_env = 0\<rparr>"

definition count_group :: "string list \<Rightarrow> (int, unit, int) env_group" where
  "count_group is = \<lparr>eg_envs = map (\<lambda>i. (i, count_env i)) is, eg_servers = [], eg_num_envs = [], eg_futures = [],
     eg_future_env = [], eg_next_ref = 0, eg_counter = None, eg_auto = False\<rparr>"

definition resp_batch :: "string list \<Rightarrow> int policy_resp batched_data" where
  "resp_batch is = \<lparr>bd_ids = is, bd_data = map (\<lambda>i. \<lparr>pr_env_id = i, pr_fields = [], pr_policy_sent = None\<rparr>) is\<rparr>"

lemma count_ops_total: "env_total count_ops"
  by (simp add: env_total_def count_ops_def)

lemma group_step_cycle_witness:
  "\<exists>g1 g2 b0 g3. enter_auto_reset (Some 2) (count_group [''a'', ''b'']) = (g1, Inr ())
     \<and> group_reset count_ops no_server g1 = Inr (g2, b0, [False, False])
     \<and> run_steps count_ops no_server (replicate 3 (resp_batch [''b'', ''a''])) g2
       = Inr (g3, [Some [False, False], Some [True, True], Some [False, False]])"
proof -
  let ?g = "count_group [''a'', ''b'']" and ?bs = "replicate 3 (resp_batch [''b'', ''a''])"
  have "eg_servers ?g = []" "distinct (dict_keys (eg_envs ?g))" "\<forall>b \<in> set ?bs. full_batch ?g b"
    by (auto simp: count_group_def full_batch_def resp_batch_def eg_ids_def)
  from group_step_cycle [OF count_ops_total this(1,2) _ this(3), of 2 no_server]
  obtain g1 g2 b0 g3 where "enter_auto_reset (Some 2) ?g = (g1, Inr ())"
    "group_reset count_ops no_server g1 = Inr (g2, b0, map (\<lambda>_. False) (eg_ids ?g))"
    "run_steps count_ops no_server ?bs g2
       = Inr (g3, map (\<lambda>j. Some (map (\<lambda>_. (int j + 1) mod (2 + 1) = 2) (bd_ids (?bs ! j)))) [0..<length ?bs])"
    by auto
  moreover have "map (\<lambda>_. False) (eg_ids ?g) = [False, False]" by (simp add: count_group_def eg_ids_def)
  moreover have "map (\<lambda>j. Some (map (\<lambda>_. (int j + 1) mod (2 + 1) = 2) (bd_ids (?bs ! j)))) [0..<length ?bs]
      = [Some [False, False], Some [True, True], Some [False, False]]" by code_simp
  ultimately show ?thesis by (simp only: ex_simps simp_thms) blast
qed

text \<open>The counters of environments that are left out of a batch advance all the same: when one of
  them is at its limit, stepping the others fails with \<open>ValueError\<close>.\<close>
theorem step_left_out_raises:
  fixes g :: "('e, 's, 'v) env_group"
  assumes "env_total ops" "eg_servers g = []" "distinct (dict_keys (eg_envs g))" "eg_auto g" "eg_counter g = Some c"
    and "\<forall>i \<in> set (eg_ids g). \<exists>k m. get_steps c i = Inr k \<and> get_max_steps c i = Inr m"
    and "distinct (bd_ids b)" "length (bd_data b) = length (bd_ids b)" "set (bd_ids b) \<subseteq> set (eg_ids g)"
    and "i \<in> set (eg_ids g)" "i \<notin> set (bd_ids b)" "is_reached_max_steps c i = Inr True"
  shows "group_step ops sops b g = Inl ValueError"
proof -
  have keys: "eg_ids g = dict_keys (eg_envs g)" using assms(2) by (simp add: eg_ids_def)
  have counted: "counted c (eg_ids g)"
    using assms(6) by (auto simp: counted_def get_steps_def get_max_steps_def of_option_eq_Inr)
  then obtain m where m: "steps_of c i = Some m" "max_of c i = Some m"
    using assms(10,12) by (auto simp: is_reached_max_steps_def get_steps_def get_max_steps_def result_simps)
  have bc: "counted c (bd_ids b)" using counted assms(9) by (auto simp: counted_def)
  have "map fst (batched_items b) = bd_ids b" using assms(8) by (rule batched_items_keys)
  with reset_or_step_loop [OF assms(1), of "batched_items b" g c sops "[]"] assms(5,7,9) keys bc obtain g1 rs c1 where loop:
    "foldM (reset_or_step ops sops) (g, []) (batched_items b) = Inr (g1, rs)" "same_frame g g1"
    "eg_counter g1 = Some c1" "sc_max c1 = sc_max c"
    "steps_of c1 = (\<lambda>i. if i \<in> set (bd_ids b) \<and> steps_of c i = max_of c i then Some (- 1) else steps_of c i)"
    by auto
  have "foldM counter_step c1 (eg_ids g1) = Inl ValueError"
    using assms(3,10,11) counted m loop(4,5) same_frame_ids [OF loop(2)] keys
    by (intro step_pass_fails [of i _ _ m]) (auto simp: counted_def split: if_splits)
  with assms(4) loop(1,3) show ?thesis
    by (simp add: group_step_def advance_counters_def the_counter_def)
qed

lemma step_left_out_raises_witness:
  "\<exists>g. (case enter_auto_reset (Some 1) (count_group [''a'', ''b'']) of (g0, _) \<Rightarrow>
      bind_result (group_reset count_ops no_server g0) (\<lambda>(g1, _).
      bind_result (run_steps count_ops no_server [resp_batch [''a'', ''b'']] g1) (\<lambda>(g2, _). Inr g2))) = Inr g
    \<and> group_step count_ops no_server (resp_batch [''a'']) g = Inl ValueError"
proof -
  define c where "c = \<lparr>sc_ids = [''a'', ''b''], sc_max = [(''a'', 1), (''b'', 1)], sc_steps = [(''a'', 1), (''b'', 1)]\<rparr>"
  define g where "g = (count_group [''a'', ''b''])\<lparr>eg_envs := map (\<lambda>i. (i, (count_env i)\<lparr>be_env := 1\<rparr>)) [''a'', ''b''],
      eg_auto := True, eg_counter := Some c\<rparr>"
  have "(case enter_auto_reset (Some 1) (count_group [''a'', ''b'']) of (g0, _) \<Rightarrow>
      bind_result (group_reset count_ops no_server g0) (\<lambda>(g1, _).
      bind_result (run_steps count_ops no_server [resp_batch [''a'', ''b'']] g1) (\<lambda>(g2, _). Inr g2))) = Inr g"
    unfolding g_def c_def by code_simp
  moreover have "group_step count_ops no_server (resp_batch [''a'']) g = Inl ValueError"
    by (rule step_left_out_raises [OF count_ops_total, of g c _ "''b''"])
       (auto simp: g_def c_def count_group_def eg_ids_def resp_batch_def get_steps_def get_max_steps_def is_reached_max_steps_def)
  ultimately show ?thesis by blast
qed

text \<open>The context cannot be entered by a group with a server: the limits are only asked from the other
  environments, the counter refuses the lengths, and since the flag is already set every later step
  fails with \<open>AttributeError\<close>.\<close>
theorem auto_reset_server_stuck:
  fixes g :: "('e, 's, 'v) env_group"
  assumes "eg_servers g \<noteq> []" "eg_counter g = None" "0 < m"
  shows "snd (enter_auto_reset (Some m) g) = Inl ValueError
     \<and> group_step ops sops b (fst (enter_auto_reset (Some m) g)) = Inl AttributeError"
proof -
  have "new_step_counter (eg_ids g) (map (\<lambda>_. m) (eg_envs g)) = Inl ValueError"
    using assms(1) by (simp add: new_step_counter_def eg_ids_def guard_def)
  then have enter: "enter_auto_reset (Some m) g = (g\<lparr>eg_auto := True\<rparr>, Inl ValueError)"
    using assms(3) by (simp add: enter_auto_reset_def episode_limits_def)
  let ?g = "g\<lparr>eg_auto := True\<rparr>"
  have "foldM (reset_or_step ops sops) (?g, []) items = Inl AttributeError" if "items \<noteq> []" for items
    using that assms(2) by (cases items) (auto simp: reset_or_step_def the_counter_def split: prod.splits)
  moreover have "advance_counters is ?g = Inl AttributeError" for "is"
    using assms(2) by (simp add: advance_counters_def the_counter_def)
  ultimately have "group_step ops sops b ?g = Inl AttributeError"
    by (cases "batched_items b = []") (simp_all add: group_step_def)
  with enter show ?thesis by simp
qed

lemma auto_reset_server_stuck_witness:
  "snd (enter_auto_reset (Some 5) ((count_group [''a''])\<lparr>eg_servers := [(''s'', ())]\<rparr>)) = Inl ValueError"
  by (rule conjunct1 [OF auto_reset_server_stuck [of _ 5 count_ops no_server "resp_batch [''a'']"]])
     (simp_all add: count_group_def)

end
