(* ===== verification/Env_Async.thy ===== *)
theory Env_Async
  imports Env_Group_Correct "HOL-Library.Multiset"
begin

text \<open>
  Asynchronous calls of an environment group: \<open>ray.wait\<close> and its contract, and the bookkeeping of the
  futures. No call is lost, none is collected twice.
\<close>

subsection \<open>The contract of ray.wait\<close>

text \<open>
  Documented behaviour: without references there is nothing to wait for; otherwise the references are
  divided into those that are ready, at most as many as asked for, and the others; without a timeout
  as many are ready as were asked for.
\<close>

locale ray_ready =
  fixes rw :: ray_wait_fn
  assumes no_refs: "rw k t [] = Inr ([], [])"
    and parts: "distinct refs \<Longrightarrow> 1 \<le> k \<Longrightarrow> k \<le> length refs \<Longrightarrow>
      \<exists>ready left. rw k t refs = Inr (ready, left) \<and> mset ready + mset left = mset refs
        \<and> length ready \<le> k \<and> (t = None \<longrightarrow> length ready = k)"
begin

lemma one_or_more:
  assumes "distinct refs"
  shows "\<exists>ready left. rw 1 None refs = Inr (ready, left) \<and> mset ready + mset left = mset refs \<and> (refs \<noteq> [] \<longrightarrow> ready \<noteq> [])"
proof (cases "refs = []")
  case True
  then show ?thesis by (simp add: no_refs)
next
  case False
  then have "1 \<le> length refs" by (simp add: Suc_leI)
  from parts [OF assms _ this, of None] show ?thesis by (metis le_refl list.size(3) zero_neq_one)
qed

lemma all_left:
  assumes "distinct refs" "refs \<noteq> []"
  shows "\<exists>ready left. rw (length refs) t refs = Inr (ready, left) \<and> mset ready + mset left = mset refs
     \<and> (t = None \<longrightarrow> left = [])"
proof -
  have "1 \<le> length refs" using assms(2) by (simp add: Suc_leI)
  from parts [OF assms(1) this le_refl, of t] obtain ready left where r: "rw (length refs) t refs = Inr (ready, left)"
    "mset ready + mset left = mset refs" "t = None \<longrightarrow> length ready = length refs" by blast
  moreover have "left = []" if "length ready = length refs"
    using arg_cong [OF r(2), of size] that by simp
  ultimately show ?thesis by blast
qed

lemma distinct_left: "distinct refs \<Longrightarrow> mset ready + mset left = mset refs \<Longrightarrow> distinct left"
  by (metis mset_append distinct_append mset_eq_imp_distinct_iff)

text \<open>What \<open>collect_async\<close> takes is a part of the futures, not empty unless there are none.\<close>

lemma ready_futures:
  assumes "distinct refs"
  shows "\<exists>ready left. ready_futures rw remote timeout elapsed wait_all refs = Inr (ready, left)
     \<and> mset ready + mset left = mset refs \<and> (refs \<noteq> [] \<longrightarrow> ready \<noteq> []) \<and> (wait_all \<or> \<not> remote \<longrightarrow> left = [])"
proof (cases "remote \<and> \<not> wait_all")
  case False
  then show ?thesis
    using all_left [OF assms, of None] by (cases "refs = []") (auto simp: ready_futures_def no_refs)
next
  case True
  obtain ready left where one: "rw 1 None refs = Inr (ready, left)" "mset ready + mset left = mset refs"
    "refs \<noteq> [] \<longrightarrow> ready \<noteq> []" using one_or_more [OF assms] by blast
  have more: "\<exists>r l. rw (length left) t left = Inr (r, l) \<and> mset (ready @ r) + mset l = mset refs" if "left \<noteq> []" for t
    using all_left [OF distinct_left [OF assms one(2)] that, of t] one(2) by (metis add.assoc mset_append)
  show ?thesis
  proof (cases timeout)
    case None
    show ?thesis
    proof (cases "left = []")
      case True
      with \<open>remote \<and> \<not> wait_all\<close> None one show ?thesis by (auto simp: ready_futures_def)
    next
      case False
      with \<open>remote \<and> \<not> wait_all\<close> None one more [OF False, of "Some 0"] show ?thesis by (auto simp: ready_futures_def)
    qed
  next
    case (Some t)
    show ?thesis
    proof (cases "left \<noteq> [] \<and> max 0 (t - elapsed) > 0")
      case True
      with \<open>remote \<and> \<not> wait_all\<close> Some one more [of "Some (max 0 (t - elapsed))"] show ?thesis
        by (auto simp: ready_futures_def)
    next
      case False
      with \<open>remote \<and> \<not> wait_all\<close> Some one show ?thesis by (auto simp: ready_futures_def)
    qed
  qed
qed

end

text \<open>A cluster on which every call is finished when it is asked for.\<close>

definition done_wait :: ray_wait_fn where
  "done_wait k t refs =
     (if refs = [] then Inr ([], []) else if k = 0 \<or> k > length refs then Inl ValueError
      else Inr (take k refs, drop k refs))"

interpretation done_all: ray_ready done_wait
proof
  fix k t and refs :: "nat list"
  assume "distinct refs" "1 \<le> k" "k \<le> length refs"
  then show "\<exists>ready left. done_wait k t refs = Inr (ready, left) \<and> mset ready + mset left = mset refs
        \<and> length ready \<le> k \<and> (t = None \<longrightarrow> length ready = k)"
    by (auto simp: done_wait_def min_def simp flip: mset_append)
qed (simp add: done_wait_def)

subsection \<open>Futures\<close>

definition futures_ok :: "('e, 's, 'v) env_group \<Rightarrow> bool" where
  "futures_ok g \<longleftrightarrow> distinct (dict_keys (eg_futures g)) \<and> (\<forall>r \<in> set (dict_keys (eg_futures g)). r < eg_next_ref g)
     \<and> dict_ok (eg_future_env g) \<and> set (dict_keys (eg_future_env g)) = set (dict_keys (eg_futures g))"

definition pending :: "('e, 's, 'v) env_group \<Rightarrow> (string \<times> 'v reply) list" where
  "pending g = map (\<lambda>(r, x). (the (map_of (eg_future_env g) r), x)) (eg_futures g)"

lemma futures_ok_frame:
  assumes "same_frame g g'"
  shows "futures_ok g' = futures_ok g" "pending g' = pending g"
  using assms by (simp_all add: same_frame_def futures_ok_def pending_def)

lemma map_fst_zip_upt: "length xs = n \<Longrightarrow> map fst (zip [m..<m + n] xs) = [m..<m + n]"
  by simp

lemma dict_ok_store_all [simp]: "dict_ok d \<Longrightarrow> dict_ok (store_all d items)"
  unfolding store_all_def by (induction items arbitrary: d) auto

lemma keys_store_all: "set (dict_keys (store_all d items)) = set (dict_keys d) \<union> set (dict_keys items)"
  unfolding store_all_def by (induction items arbitrary: d) (auto simp del: set_map simp: set_map [symmetric] update_keys split: if_splits)

text \<open>The same with distinct keys.\<close>

definition add_refs :: "(string \<times> 'v reply) list \<Rightarrow> ('e, 's, 'v) env_group \<Rightarrow> ('e, 's, 'v) env_group" where
  "add_refs rs g =
     (let refs = [eg_next_ref g..<eg_next_ref g + length rs]
      in g\<lparr>eg_futures := eg_futures g @ zip refs (map snd rs),
           eg_future_env := store_all (eg_future_env g) (zip refs (map fst rs)),
           eg_next_ref := eg_next_ref g + length rs\<rparr>)"

definition take_refs ::
    "nat list \<Rightarrow> nat list \<Rightarrow> ('e, 's, 'v) env_group \<Rightarrow> (('e, 's, 'v) env_group \<times> (string \<times> 'v reply) list) result" where
  "take_refs ready left g =
     bind_result (foldM (\<lambda>(m, acc) ref.
          bind_result (of_option KeyError (map_of m ref)) (\<lambda>i.
          bind_result (of_option KeyError (map_of (eg_futures g) ref)) (\<lambda>r.
          Inr (AList.delete ref m, acc @ [(i, r)])))) (eg_future_env g, []) ready) (\<lambda>(m, items).
     Inr (g\<lparr>eg_futures := concat (map (\<lambda>ref. case map_of (eg_futures g) ref of None \<Rightarrow> [] | Some r \<Rightarrow> [(ref, r)]) left),
            eg_future_env := m\<rparr>, items))"

lemma add_refs_ok:
  assumes "futures_ok g"
  shows "futures_ok (add_refs rs g)" "pending (add_refs rs g) = pending g @ rs"
proof -
  let ?n = "eg_next_ref g" and ?refs = "[eg_next_ref g..<eg_next_ref g + length rs]"
  have new: "set ?refs \<inter> set (dict_keys (eg_futures g)) = {}" using assms by (auto simp: futures_ok_def)
  have keys: "dict_keys (zip ?refs (map snd rs)) = ?refs" "dict_keys (zip ?refs (map fst rs)) = ?refs" by simp_all
  show "futures_ok (add_refs rs g)"
    using assms new keys by (auto simp: futures_ok_def add_refs_def Let_def keys_store_all simp del: set_map map_fst_zip)
  have rev: "map_of (rev (zip ?refs (map fst rs))) = map_of (zip ?refs (map fst rs))"
    by (subst map_of_inject_set) (simp_all add: rev_map [symmetric])
  have old: "map_of (store_all (eg_future_env g) (zip ?refs (map fst rs))) r = map_of (eg_future_env g) r"
    if "r \<in> set (dict_keys (eg_futures g))" for r
  proof -
    have "r < ?n" using that assms by (auto simp: futures_ok_def)
    then have "r \<notin> fst ` set (zip ?refs (map fst rs))" by (auto dest: set_zip_leftD)
    then have "map_of (zip ?refs (map fst rs)) r = None" by (simp only: map_of_eq_None_iff not_False_eq_True)
    then show ?thesis by (simp only: map_of_store_all rev map_add_def option.case)
  qed
  have fresh: "map_of (store_all (eg_future_env g) (zip ?refs (map fst rs))) (?n + j) = Some (fst (rs ! j))" if "j < length rs" for j
  proof -
    have "map_of (zip ?refs (map fst rs)) (?refs ! j) = Some (map fst rs ! j)"
      using that by (intro map_of_zip_nth) simp_all
    with that show ?thesis by (simp add: map_of_store_all rev map_add_def)
  qed
  have "map (\<lambda>(r, x). (the (map_of (store_all (eg_future_env g) (zip ?refs (map fst rs))) r), x)) (zip ?refs (map snd rs)) = rs"
    by (rule nth_equalityI) (auto simp: fresh prod_eq_iff)
  moreover have "map (\<lambda>(r, x). (the (map_of (store_all (eg_future_env g) (zip ?refs (map fst rs))) r), x)) (eg_futures g) = pending g"
    unfolding pending_def by (rule map_cong [OF refl]) (use old in force)
  ultimately show "pending (add_refs rs g) = pending g @ rs"
    by (simp add: pending_def add_refs_def Let_def)
qed

lemma take_loop:
  assumes "distinct ready" "set ready \<subseteq> set (dict_keys m)" "set ready \<subseteq> set (dict_keys futs)" "dict_ok m"
  shows "\<exists>m'. foldM (\<lambda>(m, acc) ref.
          bind_result (of_option KeyError (map_of m ref)) (\<lambda>i.
          bind_result (of_option KeyError (map_of futs ref)) (\<lambda>r.
          Inr (AList.delete ref m, acc @ [(i, r)])))) (m, acc) ready
        = Inr (m', acc @ map (\<lambda>r. (the (map_of m r), the (map_of futs r))) ready)
      \<and> map_of m' = map_of m |` (- set ready) \<and> dict_ok m'"
  using assms
proof (induction ready arbitrary: m acc)
  case Nil
  then show ?case by simp
next
  case (Cons r ready)
  obtain i x where r: "map_of m r = Some i" "map_of futs r = Some x"
    using Cons.prems(2,3) in_keys_map_of [of r m] in_keys_map_of [of r futs] by auto
  let ?m = "AList.delete r m"
  have m: "map_of ?m = (map_of m)(r := None)" "dict_ok ?m" using Cons.prems(4) by (simp_all add: delete_conv' distinct_delete)
  have "set ready \<subseteq> set (dict_keys ?m)" using Cons.prems(1,2) by (auto simp: delete_keys)
  with Cons.IH [of ?m "acc @ [(i, x)]"] Cons.prems m(2) obtain m' where ih:
    "foldM (\<lambda>(m, acc) ref.
          bind_result (of_option KeyError (map_of m ref)) (\<lambda>i.
          bind_result (of_option KeyError (map_of futs ref)) (\<lambda>r.
          Inr (AList.delete ref m, acc @ [(i, r)])))) (?m, acc @ [(i, x)]) ready
        = Inr (m', (acc @ [(i, x)]) @ map (\<lambda>r. (the (map_of ?m r), the (map_of futs r))) ready)"
    "map_of m' = map_of ?m |` (- set ready)" "dict_ok m'" by auto
  have "map (\<lambda>r. (the (map_of ?m r), the (map_of futs r))) ready = map (\<lambda>r. (the (map_of m r), the (map_of futs r))) ready"
    using Cons.prems(1) m(1) by (intro map_cong) auto
  moreover have "map_of m' = map_of m |` (- set (r # ready))"
    using ih(2) m(1) by (auto simp: restrict_map_def fun_eq_iff)
  ultimately show ?case using r ih(1,3) by auto
qed

lemma take_refs_ok:
  assumes "futures_ok g" "mset ready + mset left = mset (dict_keys (eg_futures g))"
  shows "\<exists>g' items. take_refs ready left g = Inr (g', items) \<and> futures_ok g'
     \<and> mset (pending g) = mset items + mset (pending g') \<and> length items = length ready
     \<and> (\<exists>fs fe. g' = g\<lparr>eg_futures := fs, eg_future_env := fe\<rparr>) \<and> dict_keys (eg_futures g') = left"
proof -
  let ?fs = "eg_futures g" and ?fe = "eg_future_env g"
  define F where "F r = (the (map_of ?fe r), the (map_of ?fs r))" for r
  have d: "distinct (ready @ left)" "set ready \<union> set left = set (dict_keys ?fs)"
    using assms unfolding futures_ok_def
    by (metis mset_append mset_eq_imp_distinct_iff) (metis assms(2) mset_append mset_eq_setD set_append)
  then have d': "distinct ready" "set ready \<subseteq> set (dict_keys ?fe)" "set ready \<subseteq> set (dict_keys ?fs)" "dict_ok ?fe"
    using assms(1) by (auto simp: futures_ok_def simp del: set_map)
  obtain m' where loop: "foldM (\<lambda>(m, acc) ref.
          bind_result (of_option KeyError (map_of m ref)) (\<lambda>i.
          bind_result (of_option KeyError (map_of ?fs ref)) (\<lambda>r.
          Inr (AList.delete ref m, acc @ [(i, r)])))) (?fe, []) ready = Inr (m', map F ready)"
    "map_of m' = map_of ?fe |` (- set ready)" "dict_ok m'"
    using take_loop [OF d', of "[]"] unfolding F_def append_Nil by blast
  define fs' where "fs' = concat (map (\<lambda>ref. case map_of ?fs ref of None \<Rightarrow> [] | Some r \<Rightarrow> [(ref, r)]) left)"
  have "fs' = concat (map (\<lambda>r. [(r, the (map_of ?fs r))]) left)"
    unfolding fs'_def using d(2) in_keys_map_of [of _ ?fs] by (intro arg_cong [where f = concat] map_cong) force+
  then have fs': "fs' = map (\<lambda>r. (r, the (map_of ?fs r))) left" by (simp add: concat_map_singleton)
  let ?g' = "g\<lparr>eg_futures := fs', eg_future_env := m'\<rparr>"
  have "set (dict_keys m') = dom (map_of m')" by (simp add: dom_map_of_conv_image_fst)
  also have "\<dots> = dom (map_of ?fe) - set ready" using loop(2) by auto
  also have "\<dots> = set left"
    using d assms(1) by (auto simp: dom_map_of_conv_image_fst futures_ok_def)
  finally have keys: "set (dict_keys m') = set left" .
  have left: "dict_keys fs' = left" by (simp add: fs' comp_def)
  have ok: "futures_ok ?g'"
    using assms(1) d loop(3) keys left unfolding futures_ok_def by auto
  have "pending g = map F (dict_keys ?fs)"
    using assms(1) by (auto simp: pending_def F_def futures_ok_def)
  then have "mset (pending g) = mset (map F ready) + mset (map F left)"
    using assms(2) by (metis image_mset_union mset_map)
  moreover have "pending ?g' = map F left"
  proof -
    have "the (map_of m' r) = the (map_of ?fe r)" if "r \<in> set left" for r
      using that d(1) loop(2) by (auto simp: restrict_map_def)
    then show ?thesis by (simp add: pending_def fs' F_def)
  qed
  ultimately show ?thesis
    using loop(1) ok left by (intro exI [of _ ?g'] exI [of _ "map F ready"]) (auto simp: take_refs_def fs'_def)
qed


subsection \<open>Keys of local calls\<close>

text \<open>The futures are distinct keys: references, or returns of different environments.\<close>

definition own_env :: "'v reply \<Rightarrow> string option" where
  "own_env r = (case r of One x \<Rightarrow> Some (er_env_id x) | Many xs \<Rightarrow> None)"

definition keys_apart :: "bool \<Rightarrow> 'v reply list \<Rightarrow> bool" where
  "keys_apart remote rs \<longleftrightarrow> remote \<or> (None \<notin> set (map own_env rs) \<and> distinct (map own_env rs))"

lemma own_env_One: "own_env r = Some i \<Longrightarrow> \<exists>x. r = One x \<and> er_env_id x = i"
  by (cases r) (auto simp: own_env_def)

lemma find_key_apart:
  assumes "distinct (map (own_env \<circ> snd) objs)" "distinct (map fst objs)" "map_of objs ref = Some (One x)"
  shows "find_key eqf objs ref x m = Inr (if ref \<in> set (dict_keys m) then Some ref else None)"
proof (induction m)
  case (Cons e m)
  obtain k i where e: "e = (k, i)" by (cases e)
  have "er_env_id y \<noteq> er_env_id x" if k: "k \<noteq> ref" "map_of objs k = Some (One y)" for y
  proof
    assume "er_env_id y = er_env_id x"
    then have same: "(own_env \<circ> snd) (k, One y) = (own_env \<circ> snd) (ref, One x)" by (simp add: own_env_def)
    have "(k, One y) \<in> set objs" "(ref, One x) \<in> set objs" using k(2) assms(3) by (auto dest: map_of_SomeD)
    then have "(k, One y) = (ref, One x)" using same assms(1) by (metis distinct_map inj_on_eq_iff)
    then show False using k(1) by simp
  qed
  then show ?case using Cons e by (auto split: option.splits reply.splits)
qed simp

lemma find_future_apart:
  assumes "keys_apart remote (map snd objs)" "distinct (map fst objs)" "ref \<in> set (dict_keys objs)"
  shows "find_future remote eqf objs ref m = Inr (if ref \<in> set (dict_keys m) then Some ref else None)"
proof (cases remote)
  case False
  obtain r where r: "map_of objs ref = Some r" using in_keys_map_of [OF assms(3)] by blast
  have apart: "distinct (map (own_env \<circ> snd) objs)" "None \<notin> (own_env \<circ> snd) ` set objs"
    using assms(1) False by (auto simp: keys_apart_def comp_def image_image)
  have "(ref, r) \<in> set objs" using r by (rule map_of_SomeD)
  then have "own_env r \<noteq> None" using apart(2) by force
  then obtain x where "r = One x" using own_env_One by blast
  then show ?thesis using find_key_apart [OF apart(1) assms(2)] r False by (simp add: find_future_def)
qed (simp add: find_future_def)

lemma add_fresh_key: "k \<notin> set (dict_keys m) \<Longrightarrow> AList.update k x m = m @ [(k, x)]"
  by (induction m) auto

lemma store_returns_new:
  "distinct (dict_keys items) \<Longrightarrow> set (dict_keys items) \<inter> set (dict_keys m) = {} \<Longrightarrow> store_all m items = m @ items"
  unfolding store_all_def by (induction items arbitrary: m) (auto simp: add_fresh_key)

lemma put_futures_apart:
  assumes "keys_apart remote (map snd objs)" "distinct (map fst objs)" "set (dict_keys items) \<subseteq> set (dict_keys objs)"
  shows "put_futures remote eqf objs items m = Inr (store_all m items)"
  using assms(3) unfolding put_futures_def
proof (induction items arbitrary: m)
  case (Cons e items)
  obtain ref i where e: "e = (ref, i)" by (cases e)
  have "find_future remote eqf objs ref m = Inr (if ref \<in> set (dict_keys m) then Some ref else None)"
    using find_future_apart [OF assms(1,2)] Cons.prems e by simp
  then show ?case using Cons e by (auto simp: store_all_def)
qed (simp add: store_all_def)

lemma add_futures_apart:
  assumes "futures_ok g" "keys_apart remote (map snd (eg_futures g) @ map snd rs)"
  shows "add_futures remote eqf rs g = Inr (add_refs rs g)"
proof -
  let ?refs = "[eg_next_ref g..<eg_next_ref g + length rs]"
  let ?objs = "eg_futures g @ zip ?refs (map snd rs)"
  have keys: "dict_keys (zip ?refs (map snd rs)) = ?refs" "dict_keys (zip ?refs (map fst rs)) = ?refs"
    "map snd (zip ?refs (map snd rs)) = map snd rs" by simp_all
  have "set ?refs \<inter> set (dict_keys (eg_futures g)) = {}" using assms(1) by (auto simp: futures_ok_def)
  then have objs: "distinct (map fst ?objs)" "keys_apart remote (map snd ?objs)"
    using assms keys by (auto simp: futures_ok_def)
  have own: "store_all [] (zip ?refs (map fst rs)) = zip ?refs (map fst rs)"
    by (simp add: store_returns_new keys)
  have "put_futures remote eqf ?objs (zip ?refs (map fst rs)) m = Inr (store_all m (zip ?refs (map fst rs)))" for m
    by (rule put_futures_apart [OF objs(2,1)]) (simp only: keys map_append set_append Un_upper2)
  then show ?thesis by (simp add: add_futures_def add_refs_def Let_def own)
qed

lemma take_futures_apart:
  assumes "futures_ok g" "keys_apart remote (map snd (eg_futures g))" "set ready \<subseteq> set (dict_keys (eg_futures g))"
  shows "take_futures remote eqf ready left g = take_refs ready left g"
proof -
  have d: "distinct (map fst (eg_futures g))" using assms(1) by (simp add: futures_ok_def)
  have "foldM (\<lambda>(m, acc) ref.
          bind_result (find_future remote eqf (eg_futures g) ref m) (\<lambda>k.
          bind_result (of_option KeyError (Option.bind k (map_of m))) (\<lambda>i.
          bind_result (of_option KeyError (map_of (eg_futures g) ref)) (\<lambda>r.
          Inr (AList.delete (the k) m, acc @ [(i, r)]))))) st ready
      = foldM (\<lambda>(m, acc) ref.
          bind_result (of_option KeyError (map_of m ref)) (\<lambda>i.
          bind_result (of_option KeyError (map_of (eg_futures g) ref)) (\<lambda>r.
          Inr (AList.delete ref m, acc @ [(i, r)])))) st ready" for st
    using assms(3)
  proof (induction ready arbitrary: st)
    case (Cons ref ready)
    obtain m acc where st: "st = (m, acc)" by (cases st)
    have "find_future remote eqf (eg_futures g) ref m = Inr (if ref \<in> set (dict_keys m) then Some ref else None)"
      using find_future_apart [OF assms(2) d] Cons.prems by simp
    moreover have "ref \<in> set (dict_keys m) \<longleftrightarrow> map_of m ref \<noteq> None" by (simp add: map_of_eq_None_iff)
    ultimately have find: "find_future remote eqf (eg_futures g) ref m = Inr (if map_of m ref \<noteq> None then Some ref else None)" by simp
    show ?case
    proof (cases "map_of m ref")
      case None
      then show ?thesis using find by (simp add: st)
    next
      case (Some i)
      obtain r where "map_of (eg_futures g) ref = Some r" using Cons.prems in_keys_map_of [of ref "eg_futures g"] by auto
      then show ?thesis using find Some Cons.IH [of "(AList.delete ref m, acc @ [(i, r)])"] Cons.prems by (simp add: st)
    qed
  qed simp
  then show ?thesis by (simp add: take_futures_def take_refs_def)
qed

lemma take_futures_ok:
  assumes "futures_ok g" "keys_apart remote (map snd (eg_futures g))" "mset ready + mset left = mset (dict_keys (eg_futures g))"
  shows "\<exists>g' items. take_futures remote eqf ready left g = Inr (g', items) \<and> futures_ok g'
     \<and> mset (pending g) = mset items + mset (pending g') \<and> length items = length ready
     \<and> (\<exists>fs fe. g' = g\<lparr>eg_futures := fs, eg_future_env := fe\<rparr>) \<and> dict_keys (eg_futures g') = left"
proof -
  have "set ready \<subseteq> set (dict_keys (eg_futures g))"
    using assms(3) by (metis mset_append mset_eq_setD set_append Un_upper1)
  from take_futures_apart [OF assms(1,2) this] take_refs_ok [OF assms(1,3)] show ?thesis by simp
qed

subsection \<open>Submitting a batch\<close>

abbreviation after_resets :: "step_counter \<Rightarrow> string list \<Rightarrow> string \<Rightarrow> int option" where
  "after_resets c is \<equiv> (\<lambda>i. if i \<in> set is \<and> steps_of c i = max_of c i then Some (- 1) else steps_of c i)"

lemma split_batch_ok:
  assumes "distinct (map fst items)" "counted c (map fst items)"
  shows "\<exists>c' ss rs. foldM (\<lambda>(c, to_step, to_reset) (i, q).
        bind_result (is_reached_max_steps c i) (\<lambda>reached.
        Inr (if reached then (counter_reset i c, to_step, to_reset @ [(i, q)])
             else (c, to_step @ [(i, q)], to_reset)))) (c, xs, ys) items = Inr (c', xs @ ss, ys @ rs)
     \<and> mset ss + mset rs = mset items \<and> sc_max c' = sc_max c \<and> sc_ids c' = sc_ids c
     \<and> steps_of c' = after_resets c (map fst items)"
  using assms
proof (induction items arbitrary: c xs ys)
  case Nil
  then show ?case by simp
next
  case (Cons item items)
  obtain i q where item: "item = (i, q)" by (cases item)
  obtain k m where km: "steps_of c i = Some k" "max_of c i = Some m"
    using Cons.prems(2) item by (auto simp: counted_def)
  have ni: "i \<notin> set (map fst items)" using Cons.prems(1) item by auto
  have counted: "counted c (map fst items)" using Cons.prems(2) by (simp add: counted_def)
  show ?case
  proof (cases "k = m")
    case True
    let ?c = "counter_reset i c"
    have "counted ?c (map fst items)" using counted by (auto simp: counted_def)
    with Cons.IH [of ?c xs "ys @ [(i, q)]"] Cons.prems(1) obtain c' ss rs where
      "foldM (\<lambda>(c, to_step, to_reset) (i, q).
        bind_result (is_reached_max_steps c i) (\<lambda>reached.
        Inr (if reached then (counter_reset i c, to_step, to_reset @ [(i, q)])
             else (c, to_step @ [(i, q)], to_reset)))) (?c, xs, ys @ [(i, q)]) items = Inr (c', xs @ ss, (ys @ [(i, q)]) @ rs)"
      "mset ss + mset rs = mset items" "sc_max c' = sc_max c" "sc_ids c' = sc_ids c"
      "steps_of c' = after_resets ?c (map fst items)" by auto
    with item km True ni show ?thesis
      by (intro exI [of _ c'] exI [of _ ss] exI [of _ "(i, q) # rs"]) (auto simp: is_reached_eq fun_eq_iff)
  next
    case False
    from Cons.IH [OF _ counted, of "xs @ [(i, q)]" ys] Cons.prems(1) obtain c' ss rs where
      "foldM (\<lambda>(c, to_step, to_reset) (i, q).
        bind_result (is_reached_max_steps c i) (\<lambda>reached.
        Inr (if reached then (counter_reset i c, to_step, to_reset @ [(i, q)])
             else (c, to_step @ [(i, q)], to_reset)))) (c, xs @ [(i, q)], ys) items = Inr (c', (xs @ [(i, q)]) @ ss, ys @ rs)"
      "mset ss + mset rs = mset items" "sc_max c' = sc_max c" "sc_ids c' = sc_ids c"
      "steps_of c' = after_resets c (map fst items)" by auto
    with item km False ni show ?thesis
      by (intro exI [of _ c'] exI [of _ "(i, q) # ss"] exI [of _ rs]) (auto simp: is_reached_eq fun_eq_iff)
  qed
qed

definition all_one :: "(string \<times> 'v reply) list \<Rightarrow> bool" where
  "all_one items \<longleftrightarrow> (\<forall>(i, r) \<in> set items. \<exists>x. r = One x)"

lemma all_one_simps [simp]: "all_one []" "all_one (xs @ ys) \<longleftrightarrow> all_one xs \<and> all_one ys" "all_one ((i, One x) # ys) = all_one ys"
  by (auto simp: all_one_def ball_Un)

lemma flatten_all_one: "all_one items \<Longrightarrow> map fst (flatten_replies items) = map fst items"
  unfolding flatten_replies_def by (induction items) (auto simp: all_one_def)

text \<open>Environments whose returns carry their own identifier, as those of \<open>BaseEnv\<close> do; \<open>nm\<close> reads it.\<close>

definition tells_env :: "('e \<Rightarrow> string) \<Rightarrow> ('e, 'v) env_ops \<Rightarrow> bool" where
  "tells_env nm ops \<longleftrightarrow> (\<forall>e e' r. eo_reset ops e = Inr (e', r) \<longrightarrow> er_env_id r = nm e \<and> nm e' = nm e)
     \<and> (\<forall>e q e' r. eo_step ops e q = Inr (e', r) \<longrightarrow> er_env_id r = nm e \<and> nm e' = nm e)"

definition own_names :: "('e \<Rightarrow> string) \<Rightarrow> ('e, 's, 'v) env_group \<Rightarrow> bool" where
  "own_names nm g \<longleftrightarrow> (\<forall>i b. map_of (eg_envs g) i = Some b \<longrightarrow> nm (be_env b) = i)"

definition named :: "(string \<times> 'v reply) list \<Rightarrow> bool" where
  "named items \<longleftrightarrow> (\<forall>(i, r) \<in> set items. own_env r = Some i)"

lemma named_returns_simps [simp]: "named []" "named (xs @ ys) \<longleftrightarrow> named xs \<and> named ys" "named ((i, r) # ys) \<longleftrightarrow> own_env r = Some i \<and> named ys"
  by (auto simp: named_def ball_Un)

lemma named_apart:
  assumes "named xs" "distinct (map fst xs)"
  shows "keys_apart remote (map snd xs)"
proof -
  have "map own_env (map snd xs) = map Some (map fst xs)" using assms(1) by (auto simp: named_def)
  then show ?thesis unfolding keys_apart_def using assms(2) by (simp only: distinct_map) auto
qed

lemma pending_replies: "map snd (pending g) = map snd (eg_futures g)"
  by (auto simp: pending_def)

lemma call_named:
  assumes "tells_env nm ops" "own_names nm g"
  shows "call_reset ops sops i g = Inr (g', One r) \<Longrightarrow> er_env_id r = i \<and> own_names nm g'"
    "call_step ops i q g = Inr (g', One r) \<Longrightarrow> er_env_id r = i \<and> own_names nm g'"
  using assms
  by (auto simp: call_reset_def call_step_def env_reset_def env_step_def post_step_hook_def tells_env_def own_names_def update_conv'
      mark_env_sent_def bind_result_def map_sum_def split: option.splits sum.splits prod.splits if_splits)

lemma resets_total:
  assumes "env_total ops" "set (map fst items) \<subseteq> set (dict_keys (eg_envs g))"
  shows "\<exists>g' rs'. foldM (\<lambda>(g, rs) (i, q). bind_result (call_reset ops sops i g) (\<lambda>(g', r). Inr (g', rs @ [(i, r)])))
        (g, rs) items = Inr (g', rs @ rs')
     \<and> map fst rs' = map fst items \<and> all_one rs' \<and> same_frame g g' \<and> eg_counter g' = eg_counter g
     \<and> (tells_env nm ops \<and> own_names nm g \<longrightarrow> named rs' \<and> own_names nm g')"
  using assms(2)
proof (induction items arbitrary: g rs)
  case Nil
  then show ?case by (intro exI [of _ g] exI [of _ "[]"]) simp
next
  case (Cons item items)
  obtain i q where item: "item = (i, q)" by (cases item)
  have "i \<in> set (dict_keys (eg_envs g))" using Cons.prems item by simp
  from call_reset_total [OF assms(1) this, of sops] obtain g1 r where one:
    "call_reset ops sops i g = Inr (g1, One r)" "same_frame g g1" "eg_counter g1 = eg_counter g" by blast
  have "set (map fst items) \<subseteq> set (dict_keys (eg_envs g1))" using Cons.prems one(2) by (simp add: same_frame_def)
  from Cons.IH [OF this, of "rs @ [(i, One r)]"] obtain g' rs' where
    "foldM (\<lambda>(g, rs) (i, q). bind_result (call_reset ops sops i g) (\<lambda>(g', r). Inr (g', rs @ [(i, r)])))
        (g1, rs @ [(i, One r)]) items = Inr (g', (rs @ [(i, One r)]) @ rs')"
    "map fst rs' = map fst items" "all_one rs'" "same_frame g1 g'" "eg_counter g' = eg_counter g1"
    "tells_env nm ops \<and> own_names nm g1 \<longrightarrow> named rs' \<and> own_names nm g'" by blast
  with one item call_named(1) [OF _ _ one(1), of nm] show ?case
    by (intro exI [of _ g'] exI [of _ "(i, One r) # rs'"]) (auto intro: same_frame_trans simp: own_env_def)
qed

lemma steps_total:
  assumes "env_total ops" "set (map fst items) \<subseteq> set (dict_keys (eg_envs g))" "eg_servers g = []"
  shows "\<exists>g' rs'. foldM (\<lambda>(g, rs, to_servers) (i, q).
        if i \<in> set (dict_keys (eg_servers g))
        then Inr (g, rs, dict_append i q to_servers)
        else bind_result (call_step ops i q g) (\<lambda>(g', r). Inr (g', rs @ [(i, r)], to_servers))) (g, rs, ts) items
      = Inr (g', rs @ rs', ts)
     \<and> map fst rs' = map fst items \<and> all_one rs' \<and> same_frame g g' \<and> eg_counter g' = eg_counter g
     \<and> (tells_env nm ops \<and> own_names nm g \<longrightarrow> named rs' \<and> own_names nm g')"
  using assms(2,3)
proof (induction items arbitrary: g rs)
  case Nil
  then show ?case by (intro exI [of _ g] exI [of _ "[]"]) simp
next
  case (Cons item items)
  obtain i q where item: "item = (i, q)" by (cases item)
  have "i \<in> set (dict_keys (eg_envs g))" using Cons.prems item by simp
  from call_step_total [OF assms(1) this, of q] obtain g1 r where one:
    "call_step ops i q g = Inr (g1, One r)" "same_frame g g1" "eg_counter g1 = eg_counter g" by blast
  have "set (map fst items) \<subseteq> set (dict_keys (eg_envs g1))" "eg_servers g1 = []"
    using Cons.prems one(2) by (simp_all add: same_frame_def)
  from Cons.IH [OF this, of "rs @ [(i, One r)]"] obtain g' rs' where
    "foldM (\<lambda>(g, rs, to_servers) (i, q).
        if i \<in> set (dict_keys (eg_servers g))
        then Inr (g, rs, dict_append i q to_servers)
        else bind_result (call_step ops i q g) (\<lambda>(g', r). Inr (g', rs @ [(i, r)], to_servers)))
        (g1, rs @ [(i, One r)], ts) items = Inr (g', (rs @ [(i, One r)]) @ rs', ts)"
    "map fst rs' = map fst items" "all_one rs'" "same_frame g1 g'" "eg_counter g' = eg_counter g1"
    "tells_env nm ops \<and> own_names nm g1 \<longrightarrow> named rs' \<and> own_names nm g'" by blast
  with one item Cons.prems(2) call_named(2) [OF _ _ one(1), of nm] show ?case
    by (intro exI [of _ g'] exI [of _ "(i, One r) # rs'"]) (auto intro: same_frame_trans simp: own_env_def)
qed

text \<open>One submission to a group without servers: one future per item, and the frame.\<close>

definition batch_known :: "('e, 's, 'v) env_group \<Rightarrow> 'd batched_data \<Rightarrow> bool" where
  "batch_known g b \<longleftrightarrow> length (bd_data b) = length (bd_ids b) \<and> set (bd_ids b) \<subseteq> set (dict_keys (eg_envs g))"

lemma step_async_body:
  assumes "env_total ops" "eg_servers g = []" "futures_ok g"
    and "set (map fst (to_step @ to_reset)) \<subseteq> set (dict_keys (eg_envs g))"
    and "\<And>rs. map fst rs = map fst (to_reset @ to_step) \<Longrightarrow> tells_env nm ops \<and> own_names nm g \<longrightarrow> named rs \<Longrightarrow>
           keys_apart remote (map snd (eg_futures g) @ map snd rs)"
  shows "\<exists>g' rs. bind_result (foldM (\<lambda>(g, rs) (i, q). bind_result (call_reset ops sops i g) (\<lambda>(g', r). Inr (g', rs @ [(i, r)])))
        (g, []) to_reset) (\<lambda>(g2, rs1).
     bind_result (step_async_locals ops to_step g2) (\<lambda>(g3, rs2, to_servers).
     case step_async_servers sops to_servers g3 of (g4, rs3) \<Rightarrow> add_futures remote eqf (rs1 @ rs2 @ rs3) g4)) = Inr g'
     \<and> futures_ok g' \<and> pending g' = pending g @ rs \<and> map fst rs = map fst (to_reset @ to_step) \<and> all_one rs
     \<and> dict_keys (eg_envs g') = dict_keys (eg_envs g) \<and> eg_servers g' = [] \<and> eg_auto g' = eg_auto g
     \<and> eg_counter g' = eg_counter g \<and> (tells_env nm ops \<and> own_names nm g \<longrightarrow> named rs \<and> own_names nm g')"
proof -
  have "set (map fst to_reset) \<subseteq> set (dict_keys (eg_envs g))" using assms(4) by auto
  from resets_total [OF assms(1) this, of sops "[]" nm] obtain g2 rs1 where r:
    "foldM (\<lambda>(g, rs) (i, q). bind_result (call_reset ops sops i g) (\<lambda>(g', r). Inr (g', rs @ [(i, r)]))) (g, []) to_reset
       = Inr (g2, rs1)" "map fst rs1 = map fst to_reset" "all_one rs1" "same_frame g g2" "eg_counter g2 = eg_counter g"
    "tells_env nm ops \<and> own_names nm g \<longrightarrow> named rs1 \<and> own_names nm g2"
    by auto
  have "set (map fst to_step) \<subseteq> set (dict_keys (eg_envs g2))" "eg_servers g2 = []"
    using assms(2,4) r(4) by (auto simp: same_frame_def simp del: set_map)
  from steps_total [OF assms(1) this, of "[]" "[]" nm] obtain g3 rs2 where s:
    "step_async_locals ops to_step g2 = Inr (g3, rs2, [])" "map fst rs2 = map fst to_step" "all_one rs2"
    "same_frame g2 g3" "eg_counter g3 = eg_counter g2"
    "tells_env nm ops \<and> own_names nm g2 \<longrightarrow> named rs2 \<and> own_names nm g3"
    using \<open>eg_servers g2 = []\<close> by (auto simp: step_async_locals_def)
  have frame: "same_frame g g3" using r(4) s(4) by (rule same_frame_trans)
  let ?rs = "rs1 @ rs2" let ?g' = "add_refs ?rs g3"
  have ids: "map fst ?rs = map fst (to_reset @ to_step)" "all_one ?rs" using r(2,3) s(2,3) by simp_all
  have names: "tells_env nm ops \<and> own_names nm g \<longrightarrow> named ?rs \<and> own_names nm g3" using r(6) s(6) by simp
  have "keys_apart remote (map snd (eg_futures g3) @ map snd ?rs)"
    using assms(5) [OF ids(1)] names frame by (simp add: same_frame_def)
  then have add: "add_futures remote eqf ?rs g3 = Inr ?g'"
    using add_futures_apart futures_ok_frame [OF frame] assms(3) by blast
  have "futures_ok ?g'" "pending ?g' = pending g @ ?rs"
    using add_refs_ok [of g3 ?rs] futures_ok_frame [OF frame] assms(3) by simp_all
  moreover have "eg_envs ?g' = eg_envs g3" "eg_servers ?g' = eg_servers g3" "eg_auto ?g' = eg_auto g3"
    "eg_counter ?g' = eg_counter g3" by (simp_all add: add_refs_def Let_def)
  moreover have "dict_keys (eg_envs g3) = dict_keys (eg_envs g)" "eg_servers g3 = []" "eg_auto g3 = eg_auto g"
    using frame assms(2) by (simp_all add: same_frame_def)
  moreover have "own_names nm ?g' = own_names nm g3" using calculation(3) by (simp add: own_names_def)
  moreover have "step_async_servers sops [] g3 = (g3, [])" by (simp add: step_async_servers_def)
  ultimately show ?thesis using r(1,5) s(1,5) ids names add
    by (intro exI [of _ ?g'] exI [of _ ?rs]) simp
qed

text \<open>Local calls: every return names its environment, and no environment has two pending calls.\<close>

definition local_ok :: "bool \<Rightarrow> ('e \<Rightarrow> string) \<Rightarrow> ('e, 'v) env_ops \<Rightarrow> ('e, 's, 'v) env_group \<Rightarrow> bool" where
  "local_ok remote nm ops g \<longleftrightarrow> remote \<or> (tells_env nm ops \<and> own_names nm g \<and> named (pending g) \<and> distinct (map fst (pending g)))"

lemma local_ok_apart: "local_ok remote nm ops g \<Longrightarrow> keys_apart remote (map snd (eg_futures g))"
  using named_apart [of "pending g" remote] by (auto simp: local_ok_def pending_replies keys_apart_def [of True])

lemma group_step_async_plain:
  assumes "env_total ops" "eg_servers g = []" "futures_ok g" "\<not> eg_auto g" "batch_known g b" "local_ok remote nm ops g"
    and "\<not> remote \<Longrightarrow> distinct (map fst (pending g) @ bd_ids b)"
  shows "\<exists>g' rs. group_step_async ops sops remote eqf b g = Inr g' \<and> futures_ok g' \<and> pending g' = pending g @ rs
     \<and> map fst rs = bd_ids b \<and> all_one rs \<and> dict_keys (eg_envs g') = dict_keys (eg_envs g)
     \<and> eg_servers g' = [] \<and> eg_auto g' = eg_auto g \<and> eg_counter g' = eg_counter g \<and> local_ok remote nm ops g'"
proof -
  have ids: "map fst (batched_items b) = bd_ids b" using assms(5) by (simp add: batch_known_def batched_items_keys)
  have "set (map fst (batched_items b @ [])) \<subseteq> set (dict_keys (eg_envs g))"
    using assms(5) ids by (simp add: batch_known_def del: set_map)
  moreover have "keys_apart remote (map snd (eg_futures g) @ map snd rs)"
    if "map fst rs = map fst ([] @ batched_items b)" "tells_env nm ops \<and> own_names nm g \<longrightarrow> named rs" for rs :: "(string \<times> 'b reply) list"
  proof (cases remote)
    case False
    then have "named (pending g @ rs)" "distinct (map fst (pending g @ rs))"
      using assms(6,7) that ids by (auto simp: local_ok_def)
    from named_apart [OF this, of remote] show ?thesis by (simp add: pending_replies)
  qed (simp add: keys_apart_def)
  ultimately obtain g' rs where *: "group_step_async ops sops remote eqf b g = Inr g'" "futures_ok g'" "pending g' = pending g @ rs"
    "map fst rs = bd_ids b" "all_one rs" "dict_keys (eg_envs g') = dict_keys (eg_envs g)"
    "eg_servers g' = []" "eg_auto g' = eg_auto g" "eg_counter g' = eg_counter g"
    "tells_env nm ops \<and> own_names nm g \<longrightarrow> named rs \<and> own_names nm g'"
    using step_async_body [OF assms(1-3), of "batched_items b" "[]" nm remote sops eqf] assms(4)
    by (auto simp: group_step_async_def ids simp del: set_map)
  then have "local_ok remote nm ops g'" using assms(6,7) by (auto simp: local_ok_def)
  with * show ?thesis by blast
qed

subsection \<open>Collecting\<close>

lemma collect_taken:
  assumes "ray_ready rw" "futures_ok g" "keys_apart remote (map snd (eg_futures g))"
  shows "\<exists>ready left g1 items.
       ready_futures rw remote timeout elapsed wait_all (dict_keys (eg_futures g)) = Inr (ready, left)
     \<and> take_futures remote eqf ready left g = Inr (g1, items) \<and> futures_ok g1
     \<and> mset (pending g) = mset items + mset (pending g1) \<and> (pending g \<noteq> [] \<longrightarrow> items \<noteq> [])
     \<and> (wait_all \<or> \<not> remote \<longrightarrow> pending g1 = []) \<and> eg_envs g1 = eg_envs g \<and> eg_servers g1 = eg_servers g
     \<and> eg_auto g1 = eg_auto g \<and> eg_counter g1 = eg_counter g"
proof -
  have "distinct (dict_keys (eg_futures g))" using assms(2) by (simp add: futures_ok_def)
  from ray_ready.ready_futures [OF assms(1) this, of remote timeout elapsed wait_all] obtain ready left where r:
    "ready_futures rw remote timeout elapsed wait_all (dict_keys (eg_futures g)) = Inr (ready, left)"
    "mset ready + mset left = mset (dict_keys (eg_futures g))" "dict_keys (eg_futures g) \<noteq> [] \<longrightarrow> ready \<noteq> []"
    "wait_all \<or> \<not> remote \<longrightarrow> left = []" by blast
  from take_futures_ok [OF assms(2,3) r(2), of eqf] obtain g1 items where t: "take_futures remote eqf ready left g = Inr (g1, items)"
    "futures_ok g1" "mset (pending g) = mset items + mset (pending g1)" "length items = length ready"
    "\<exists>fs fe. g1 = g\<lparr>eg_futures := fs, eg_future_env := fe\<rparr>" "dict_keys (eg_futures g1) = left" by blast
  have "pending g \<noteq> [] \<longrightarrow> items \<noteq> []" using r(3) t(4) by (auto simp: pending_def)
  moreover have "wait_all \<or> \<not> remote \<longrightarrow> pending g1 = []" using r(4) t(6) by (auto simp: pending_def)
  ultimately show ?thesis using r(1) t(1-3,5) by (intro exI [of _ ready] exI [of _ left] exI [of _ g1] exI [of _ items]) auto
qed

lemma all_one_mset: "mset xs = mset ys + mset zs \<Longrightarrow> all_one xs \<Longrightarrow> all_one ys \<and> all_one zs"
  unfolding all_one_def by (metis UnI1 UnI2 mset_append mset_eq_setD set_append)

lemma length_flatten: "length (map fst (flatten_replies items)) = length (map snd (flatten_replies items))"
  by simp

lemma group_collect_plain:
  assumes "ray_ready rw" "futures_ok g" "\<not> eg_auto g" "all_one (pending g)" "case timeout of None \<Rightarrow> True | Some t \<Rightarrow> t > 0"
    and "keys_apart remote (map snd (eg_futures g))"
  shows "\<exists>g1 items b. group_collect_async rw remote eqf timeout elapsed wait_all g = Inr (g1, b, map (\<lambda>_. False) items)
     \<and> bd_ids b = map fst items \<and> bd_data b = map snd (flatten_replies items)
     \<and> futures_ok g1 \<and> mset (pending g) = mset items + mset (pending g1) \<and> (pending g \<noteq> [] \<longrightarrow> items \<noteq> [])
     \<and> (wait_all \<or> \<not> remote \<longrightarrow> pending g1 = []) \<and> eg_envs g1 = eg_envs g \<and> eg_servers g1 = eg_servers g
     \<and> eg_auto g1 = eg_auto g"
proof -
  from collect_taken [OF assms(1,2,6), of timeout elapsed wait_all eqf] obtain ready left g1 items where c:
    "ready_futures rw remote timeout elapsed wait_all (dict_keys (eg_futures g)) = Inr (ready, left)"
    "take_futures remote eqf ready left g = Inr (g1, items)" "futures_ok g1"
    "mset (pending g) = mset items + mset (pending g1)" "pending g \<noteq> [] \<longrightarrow> items \<noteq> []"
    "wait_all \<or> \<not> remote \<longrightarrow> pending g1 = []" "eg_envs g1 = eg_envs g" "eg_servers g1 = eg_servers g"
    "eg_auto g1 = eg_auto g" "eg_counter g1 = eg_counter g" by blast
  have "all_one items" using all_one_mset [OF c(4) assms(4)] by simp
  from flatten_all_one [OF this] have ids: "map fst (flatten_replies items) = map fst items" .
  then have "map (\<lambda>_. False) (flatten_replies items) = map (\<lambda>_. False) items"
    by (metis map_replicate_const length_map)
  with c assms(3,5) ids show ?thesis
    by (intro exI [of _ g1] exI [of _ items] exI [of _ "\<lparr>bd_ids = map fst items, bd_data = map snd (flatten_replies items)\<rparr>"])
       (auto simp: group_collect_async_def new_batched_data_def)
qed

text \<open>Runs of submissions and collections, with a log of the identifiers submitted and collected.\<close>

datatype 'v async_call = Submit "'v policy_resp batched_data" | Collect "rat option" rat bool

record ('e, 's, 'v) async_run =
  ar_group :: "('e, 's, 'v) env_group"
  ar_submitted :: "string list"
  ar_collected :: "string list"

definition async_do ::
    "('e, 'v) env_ops \<Rightarrow> ('s, 'v) server_ops \<Rightarrow> ray_wait_fn \<Rightarrow> bool \<Rightarrow> 'v ret_eq \<Rightarrow> ('e, 's, 'v) async_run \<Rightarrow> 'v async_call
       \<Rightarrow> ('e, 's, 'v) async_run result" where
  "async_do ops sops rw remote eqf r call =
     (case call of
        Submit b \<Rightarrow> bind_result (group_step_async ops sops remote eqf b (ar_group r)) (\<lambda>g.
          Inr (r\<lparr>ar_group := g, ar_submitted := ar_submitted r @ bd_ids b\<rparr>))
      | Collect timeout elapsed wait_all \<Rightarrow>
          bind_result (group_collect_async rw remote eqf timeout elapsed wait_all (ar_group r)) (\<lambda>(g, b, _).
          Inr (r\<lparr>ar_group := g, ar_collected := ar_collected r @ bd_ids b\<rparr>)))"

fun call_ok :: "string list \<Rightarrow> 'v async_call \<Rightarrow> bool" where
  "call_ok is (Submit b) \<longleftrightarrow> length (bd_data b) = length (bd_ids b) \<and> set (bd_ids b) \<subseteq> set is"
| "call_ok is (Collect timeout elapsed wait_all) \<longleftrightarrow> (case timeout of None \<Rightarrow> True | Some t \<Rightarrow> t > 0)"

text \<open>No environment is submitted twice between two collections; \<open>ps\<close> are those submitted since the last one.\<close>

fun once_each :: "string list \<Rightarrow> 'v async_call list \<Rightarrow> bool" where
  "once_each ps [] = True"
| "once_each ps (Submit b # calls) \<longleftrightarrow> distinct (ps @ bd_ids b) \<and> once_each (ps @ bd_ids b) calls"
| "once_each ps (Collect timeout elapsed wait_all # calls) \<longleftrightarrow> once_each [] calls"

definition run_ok ::
    "bool \<Rightarrow> ('e \<Rightarrow> string) \<Rightarrow> ('e, 'v) env_ops \<Rightarrow> string list \<Rightarrow> string list \<Rightarrow> ('e, 's, 'v) async_run \<Rightarrow> bool" where
  "run_ok remote nm ops is ps r \<longleftrightarrow> eg_servers (ar_group r) = [] \<and> \<not> eg_auto (ar_group r) \<and> dict_keys (eg_envs (ar_group r)) = is
     \<and> futures_ok (ar_group r) \<and> all_one (pending (ar_group r)) \<and> local_ok remote nm ops (ar_group r)
     \<and> (\<not> remote \<longrightarrow> map fst (pending (ar_group r)) = ps)
     \<and> mset (ar_submitted r) = mset (ar_collected r) + mset (map fst (pending (ar_group r)))"

lemma submit_ok:
  assumes "env_total ops" "run_ok remote nm ops is ps r" "call_ok is (Submit b)" "\<not> remote \<Longrightarrow> distinct (ps @ bd_ids b)"
  shows "\<exists>r'. async_do ops sops rw remote eqf r (Submit b) = Inr r' \<and> run_ok remote nm ops is (ps @ bd_ids b) r'"
proof -
  let ?g = "ar_group r"
  have "batch_known ?g b" using assms(2,3) by (simp add: batch_known_def run_ok_def)
  moreover have "eg_servers ?g = []" "futures_ok ?g" "\<not> eg_auto ?g" "local_ok remote nm ops ?g"
    "\<not> remote \<Longrightarrow> distinct (map fst (pending ?g) @ bd_ids b)" using assms(2,4) by (simp_all add: run_ok_def)
  ultimately obtain g' rs where "group_step_async ops sops remote eqf b ?g = Inr g'" "futures_ok g'"
    "pending g' = pending ?g @ rs" "map fst rs = bd_ids b" "all_one rs" "dict_keys (eg_envs g') = dict_keys (eg_envs ?g)"
    "eg_servers g' = []" "eg_auto g' = eg_auto ?g" "local_ok remote nm ops g'"
    using group_step_async_plain [OF assms(1), of ?g b remote nm sops eqf] by blast
  then show ?thesis using assms(2) by (auto simp: run_ok_def async_do_def simp flip: mset_map)
qed

lemma collect_ok:
  assumes "ray_ready rw" "run_ok remote nm ops is ps r" "call_ok is (Collect timeout elapsed wait_all)"
  shows "\<exists>r'. async_do ops sops rw remote eqf r (Collect timeout elapsed wait_all) = Inr r' \<and> run_ok remote nm ops is [] r'"
proof -
  let ?g = "ar_group r"
  have g: "futures_ok ?g" "\<not> eg_auto ?g" "all_one (pending ?g)" "local_ok remote nm ops ?g" using assms(2) by (simp_all add: run_ok_def)
  have time: "case timeout of None \<Rightarrow> True | Some t \<Rightarrow> t > 0" using assms(3) by simp
  from group_collect_plain [OF assms(1) g(1-3) time local_ok_apart [OF g(4)], of eqf elapsed wait_all] obtain g1 items b where c:
    "group_collect_async rw remote eqf timeout elapsed wait_all ?g = Inr (g1, b, map (\<lambda>_. False) items)"
    "bd_ids b = map fst items" "futures_ok g1" "mset (pending ?g) = mset items + mset (pending g1)"
    "wait_all \<or> \<not> remote \<longrightarrow> pending g1 = []" "eg_envs g1 = eg_envs ?g" "eg_servers g1 = eg_servers ?g" "eg_auto g1 = eg_auto ?g"
    by blast
  have "mset (map fst (pending ?g)) = mset (map fst items) + mset (map fst (pending g1))"
    using arg_cong [OF c(4), of "image_mset fst"] by simp
  moreover have "local_ok remote nm ops g1" using g(4) c(5,6) by (auto simp: local_ok_def own_names_def)
  ultimately show ?thesis using c assms(2) all_one_mset [OF c(4)] by (auto simp: run_ok_def async_do_def)
qed

lemma calls_total:
  assumes "env_total ops" "ray_ready rw" "run_ok remote nm ops is ps r" "\<forall>call \<in> set calls. call_ok is call"
    and "remote \<or> once_each ps calls"
  shows "\<exists>r' ps'. foldM (async_do ops sops rw remote eqf) r calls = Inr r' \<and> run_ok remote nm ops is ps' r'"
  using assms(3-5)
proof (induction calls arbitrary: ps r)
  case (Cons call calls)
  show ?case
  proof (cases call)
    case (Submit b)
    obtain r' where r': "async_do ops sops rw remote eqf r call = Inr r'" "run_ok remote nm ops is (ps @ bd_ids b) r'"
      using submit_ok [OF assms(1) Cons.prems(1), of b sops rw eqf] Cons.prems(2,3) Submit by auto
    then show ?thesis using Cons.IH [OF r'(2)] Cons.prems(2,3) Submit by auto
  next
    case (Collect timeout elapsed wait_all)
    obtain r' where r': "async_do ops sops rw remote eqf r call = Inr r'" "run_ok remote nm ops is [] r'"
      using collect_ok [OF assms(2) Cons.prems(1), of timeout elapsed wait_all sops eqf] Cons.prems(2) Collect by auto
    then show ?thesis using Cons.IH [OF r'(2)] Cons.prems(2,3) Collect by auto
  qed
qed auto

subsection \<open>Properties\<close>

text \<open>C13: asynchronous stepping neither loses nor duplicates a call: for a group without servers, outside the context of
  automatic reset, whose environments never raise, and either with remote environments or with local ones that name
  their returns and are submitted at most once between two collections, in any run of submissions (for environments
  of the group) and collections (with or without a timeout, which is positive) no call raises, and the submitted
  identifiers are at every moment the collected ones and those of the futures still pending, as multisets; a last
  collection that waits for all returns exactly the pending ones and leaves none.\<close>
theorem async_collects_once:
  fixes g :: "('e, 's, 'v) env_group"
  assumes "env_total ops" "ray_ready rw" "eg_servers g = []" "\<not> eg_auto g" "eg_futures g = []" "eg_future_env g = []"
    and "\<forall>call \<in> set calls. call_ok (dict_keys (eg_envs g)) call"
    and "remote \<or> tells_env nm ops \<and> own_names nm g \<and> once_each [] calls"
  shows "\<exists>r g' b ts. foldM (async_do ops sops rw remote eqf) \<lparr>ar_group = g, ar_submitted = [], ar_collected = []\<rparr> calls = Inr r
     \<and> mset (ar_submitted r) = mset (ar_collected r) + mset (map fst (pending (ar_group r)))
     \<and> group_collect_async rw remote eqf None elapsed True (ar_group r) = Inr (g', b, ts)
     \<and> mset (bd_ids b) = mset (map fst (pending (ar_group r))) \<and> eg_futures g' = []"
proof -
  let ?is = "dict_keys (eg_envs g)"
  have "run_ok remote nm ops ?is [] \<lparr>ar_group = g, ar_submitted = [], ar_collected = []\<rparr>"
    using assms(3-6,8) by (auto simp: run_ok_def futures_ok_def pending_def local_ok_def)
  from calls_total [OF assms(1,2) this assms(7)] assms(8) obtain r ps where r:
    "foldM (async_do ops sops rw remote eqf) \<lparr>ar_group = g, ar_submitted = [], ar_collected = []\<rparr> calls = Inr r"
    "run_ok remote nm ops ?is ps r" by blast
  then have g: "futures_ok (ar_group r)" "\<not> eg_auto (ar_group r)" "all_one (pending (ar_group r))" "local_ok remote nm ops (ar_group r)"
    by (simp_all add: run_ok_def)
  from group_collect_plain [OF assms(2) g(1-3) _ local_ok_apart [OF g(4)], of None eqf elapsed True] obtain g' items b where c:
    "group_collect_async rw remote eqf None elapsed True (ar_group r) = Inr (g', b, map (\<lambda>_. False) items)"
    "bd_ids b = map fst items" "mset (pending (ar_group r)) = mset items + mset (pending g')" "pending g' = []"
    by auto
  have "mset (bd_ids b) = mset (map fst (pending (ar_group r)))"
    using arg_cong [OF c(3), of "image_mset fst"] c(2,4) by simp
  with r c(1,4) show ?thesis by (auto simp: run_ok_def pending_def)
qed

text \<open>Local environments whose state is their identifier, and a comparison of returns that always raises.\<close>

definition name_ops :: "(string, int) env_ops" where
  "name_ops = \<lparr>
     eo_reset = (\<lambda>e. Inr (e, \<lparr>er_env_id = e, er_observation = 0, er_last_reward = 0, er_last_terminated = 0,
        er_last_truncated = 0, er_info = 0, er_extra = [], er_sent = 0\<rparr>)),
     eo_step = (\<lambda>e q. Inr (e, \<lparr>er_env_id = e, er_observation = 1, er_last_reward = 1, er_last_terminated = 0,
        er_last_truncated = 0, er_info = 0, er_extra = [], er_sent = 0\<rparr>)),
     eo_episode_info = (\<lambda>_. None), eo_now = (\<lambda>e. 0)\<rparr>"

definition name_group :: "string list \<Rightarrow> (string, unit, int) env_group" where
  "name_group is = \<lparr>eg_envs = map (\<lambda>i. (i, \<lparr>be_id = i, be_num_envs = 1, be_max = None, be_infos = [], be_env = i\<rparr>)) is,
     eg_servers = [], eg_num_envs = [], eg_futures = [], eg_future_env = [], eg_next_ref = 0, eg_counter = None, eg_auto = False\<rparr>"

lemma name_group_ok: "env_total name_ops" "tells_env id name_ops" "own_names id (name_group is)"
  by (auto simp: env_total_def tells_env_def own_names_def name_ops_def name_group_def dest!: map_of_SomeD)

lemma async_collects_once_witness:
  "\<exists>r. foldM (async_do name_ops no_server done_wait False (\<lambda>_ _. Inl RuntimeError))
       \<lparr>ar_group = name_group [''a'', ''b''], ar_submitted = [], ar_collected = []\<rparr>
       [Submit (resp_batch [''a'']), Submit (resp_batch [''b'']), Collect None 0 False, Submit (resp_batch [''a''])] = Inr r
     \<and> mset (ar_submitted r) = mset (ar_collected r) + mset (map fst (pending (ar_group r)))"
proof -
  let ?calls = "[Submit (resp_batch [''a'']), Submit (resp_batch [''b'']), Collect None 0 False, Submit (resp_batch [''a''])]"
  have "\<forall>call \<in> set ?calls. call_ok (dict_keys (eg_envs (name_group [''a'', ''b'']))) call" "once_each [] ?calls"
    by (simp_all add: name_group_def resp_batch_def)
  moreover have "eg_servers (name_group [''a'', ''b'']) = []" "\<not> eg_auto (name_group [''a'', ''b''])"
    "eg_futures (name_group [''a'', ''b'']) = []" "eg_future_env (name_group [''a'', ''b'']) = []"
    by (simp_all add: name_group_def)
  moreover have "False \<or> tells_env id name_ops \<and> own_names id (name_group [''a'', ''b'']) \<and> once_each [] ?calls"
    using name_group_ok(2,3) calculation(2) by blast
  ultimately show ?thesis
    using async_collects_once [OF name_group_ok(1) done_all.ray_ready_axioms, where g = "name_group [''a'', ''b'']" and calls = ?calls
      and remote = False and nm = id and sops = no_server and eqf = "\<lambda>_ _. Inl RuntimeError" and elapsed = 0] by blast
qed

text \<open>A local environment that is submitted again while its last return is pending: comparing the two returns
  decides. When the comparison raises, the submission raises; when they are equal, the collection does.\<close>

lemma local_resubmission:
  "foldM (async_do name_ops no_server done_wait False (\<lambda>_ _. Inl RuntimeError))
       \<lparr>ar_group = name_group [''a''], ar_submitted = [], ar_collected = []\<rparr>
       [Submit (resp_batch [''a'']), Submit (resp_batch [''a''])] = Inl RuntimeError"
  "foldM (async_do name_ops no_server done_wait False (\<lambda>x y. Inr (er_observation x = er_observation y)))
       \<lparr>ar_group = name_group [''a''], ar_submitted = [], ar_collected = []\<rparr>
       [Submit (resp_batch [''a'']), Submit (resp_batch [''a'']), Collect None 0 False] = Inl KeyError"
  by code_simp+

end
