(* ===== verification/Env_Stats.thy ===== *)
theory Env_Stats
  imports Env_Group_Correct
begin

text \<open>
  The statistics of a group (\<open>EnvGroup.get_env_stats\<close>): sums and counts per environment, merged and
  divided, against the mean of all the numbers recorded.
\<close>

lemma add_stats_get:
  assumes "dict_ok stats"
  shows "dict_get (0, 0) (add_stats acc stats) k
     = (fst (dict_get (0, 0) acc k) + fst (dict_get (0, 0) stats k), snd (dict_get (0, 0) acc k) + snd (dict_get (0, 0) stats k))"
  using assms unfolding add_stats_def
proof (induction stats arbitrary: acc)
  case Nil
  then show ?case by simp
next
  case (Cons x stats)
  obtain k' s c where x: "x = (k', s, c)" by (cases x)
  have "dict_get (0, 0) stats k' = (0, 0)" using Cons.prems x by (intro dict_get_fresh) simp
  with Cons x show ?case by (auto simp: dict_get_def split: prod.splits)
qed

lemma add_stats_ok [simp]: "dict_ok acc \<Longrightarrow> dict_ok (add_stats acc stats)"
  unfolding add_stats_def by (induction stats arbitrary: acc) (auto split: prod.splits)

lemma env_stats_get:
  "dict_get (0, 0) (env_stats b) k = (sum_list (concat (dict_get [] (be_infos b) k)), length (concat (dict_get [] (be_infos b) k)))"
  unfolding env_stats_def dict_get_def by (induction "be_infos b") (auto simp: map_of_map split: option.splits)

lemma env_stats_ok [simp]: "dict_ok (env_stats b) = dict_ok (be_infos b)"
  by (simp add: env_stats_def comp_def case_prod_beta')

lemma mean_stats_get:
  assumes "dict_ok acc"
  shows "map_of (mean_stats acc) k
     = (case dict_get (0, 0) acc k of (s, c) \<Rightarrow> if c > 0 then Some (s / of_nat c) else None)"
  using assms unfolding mean_stats_def
proof (induction acc)
  case Nil
  then show ?case by simp
next
  case (Cons x acc)
  obtain k' s c where x: "x = (k', s, c)" by (cases x)
  have none: "map_of acc k' = None" using Cons.prems x by (simp add: map_of_eq_None_iff)
  show ?case
  proof (cases "k = k'")
    case True
    with Cons x none show ?thesis by (simp add: dict_get_def)
  next
    case False
    with Cons x show ?thesis by (auto simp: dict_get_def)
  qed
qed

text \<open>The recorder keeps the dictionary of an environment a dictionary.\<close>

lemma record_episode_info_ok:
  assumes "dict_ok infos"
  shows "dict_ok (record_episode_info ops r infos)"
proof -
  have "dict_ok (fold (\<lambda>(k, v). dict_append k v) d infos)" for d :: "(string, rat list) dict"
    using assms by (induction d arbitrary: infos) auto
  then show ?thesis using assms by (auto simp: record_episode_info_def split: option.splits)
qed

text \<open>All the numbers recorded under a key, over the environments of the group.\<close>

definition recorded_values :: "string \<Rightarrow> ('e, 's, 'v) env_group \<Rightarrow> rat list" where
  "recorded_values k g = concat (map (\<lambda>(i, b). concat (dict_get [] (be_infos b) k)) (eg_envs g))"

text \<open>The statistics of a group, merged from the sums and counts of its environments, are the means
  over all the numbers recorded by any of them: a key with at least one number has exactly the mean of
  these, every other key is absent; with \<open>reset\<close> nothing recorded is left.\<close>
theorem env_stats_mean:
  fixes g :: "('e, 's, 'v) env_group"
  assumes "\<forall>b \<in> snd ` set (eg_envs g). dict_ok (be_infos b)"
  shows "map_of (snd (get_env_stats reset g)) k
       = (if recorded_values k g = [] then None
          else Some (sum_list (recorded_values k g) / of_nat (length (recorded_values k g))))
     \<and> (reset \<longrightarrow> recorded_values k (fst (get_env_stats reset g)) = [])"
proof -
  let ?merge = "\<lambda>envs acc. fold (\<lambda>(i, b) t. add_stats t (env_stats b)) envs acc"
  have merged: "dict_get (0, 0) (?merge envs acc) k
      = (fst (dict_get (0, 0) acc k) + sum_list (concat (map (\<lambda>(i, b). concat (dict_get [] (be_infos b) k)) envs)),
         snd (dict_get (0, 0) acc k) + length (concat (map (\<lambda>(i, b). concat (dict_get [] (be_infos b) k)) envs)))
      \<and> (dict_ok acc \<longrightarrow> dict_ok (?merge envs acc))"
    if "\<forall>b \<in> snd ` set envs. dict_ok (be_infos b)" for envs :: "(string, 'e base_env) dict" and acc
    using that
    by (induction envs arbitrary: acc) (auto simp: add_stats_get env_stats_get simp del: length_concat)
  have "dict_ok (?merge (eg_envs g) [])"
    using merged [OF assms, of "[]"] by simp
  from mean_stats_get [OF this, of k] merged [OF assms, of "[]"]
  have "map_of (snd (get_env_stats reset g)) k
       = (if recorded_values k g = [] then None
          else Some (sum_list (recorded_values k g) / of_nat (length (recorded_values k g))))"
    by (simp add: get_env_stats_def recorded_values_def del: length_concat)
  moreover have "recorded_values k (fst (get_env_stats True g)) = []"
    by (auto simp: recorded_values_def get_env_stats_def clear_infos_def)
  ultimately show ?thesis by (cases reset) auto
qed

definition stats_group :: "(int, unit, int) env_group" where
  "stats_group = (count_group [''a'', ''b''])\<lparr>eg_envs :=
     [(''a'', (count_env ''a'')\<lparr>be_infos := [(''return'', [[1, 2], [6]])]\<rparr>),
      (''b'', (count_env ''b'')\<lparr>be_infos := [(''return'', [[3]]), (''empty'', [[]])]\<rparr>)]\<rparr>"

lemma env_stats_mean_witness:
  "map_of (snd (get_env_stats True stats_group)) ''return'' = Some 3"
proof -
  have "\<forall>b \<in> snd ` set (eg_envs stats_group). dict_ok (be_infos b)" by (simp add: stats_group_def)
  note env_stats_mean [OF this, of True "''return''"]
  moreover have "recorded_values ''return'' stats_group = [1, 2, 6, 3]" by code_simp
  ultimately show ?thesis by simp
qed

end
