(* ===== verification/Weights.thy ===== *)
theory Weights
  imports Prelude Config "HOL-Library.Multiset" "HOL-Library.List_Lexorder" "HOL-Library.Char_ord"
begin

text \<open>
  \<open>rlightning/weights\<close>: weight buffers, their conversions, and the transfer of a state dictionary from a
  train policy to the buffers of eval policies. An array is its kind (tensor or numpy array), the name
  of its element type, its shape and its elements as stored (\<open>view\<close> keeps the stored words); the name of
  an element type is the same for torch and numpy. A broadcast of \<open>torch.distributed\<close> delivers what
  was sent when both sides name the same number of elements, and fails otherwise; broadcasts and
  scatters of one group are matched in the order in which they are issued. Devices, Ray handles and
  memory are not modelled.
\<close>

datatype array_kind = Tensor | Ndarray

record 'a arr =
  ar_kind :: array_kind
  ar_dtype :: string
  ar_shape :: "nat list"
  ar_data :: "'a list"

type_synonym 'a state_dict = "(string, (string, 'a arr) dict) dict"

definition wf_arr :: "'a arr \<Rightarrow> bool" where
  "wf_arr a \<longleftrightarrow> length (ar_data a) = prod_list (ar_shape a)"

definition entries :: "'a state_dict \<Rightarrow> (string \<times> string \<times> 'a arr) list" where
  "entries sd = concat (map (\<lambda>(m, ps). map (\<lambda>(n, p). (m, n, p)) ps) sd)"

subsection \<open>Conversions\<close>

definition to_ndarray :: "'a arr \<Rightarrow> 'a arr" where
  "to_ndarray p =
     p\<lparr>ar_kind := Ndarray, ar_dtype := if ar_dtype p = ''bfloat16'' then ''uint16'' else ar_dtype p\<rparr>"

definition to_tensor :: "'a arr \<Rightarrow> 'a arr" where
  "to_tensor p =
     (if ar_kind p = Ndarray
      then p\<lparr>ar_kind := Tensor, ar_dtype := if ar_dtype p = ''uint16'' then ''bfloat16'' else ar_dtype p\<rparr>
      else p)"

definition map_params :: "('a arr \<Rightarrow> 'a arr) \<Rightarrow> 'a state_dict \<Rightarrow> 'a state_dict" where
  "map_params f sd = map (\<lambda>(m, ps). (m, map (\<lambda>(n, p). (n, f p)) ps)) sd"

definition tensor_state_dict_to_numpy :: "'a state_dict \<Rightarrow> 'a state_dict" where
  "tensor_state_dict_to_numpy sd = map_params to_ndarray sd"

definition numpy_state_dict_to_tensor :: "'a state_dict \<Rightarrow> 'a state_dict" where
  "numpy_state_dict_to_tensor sd = map_params to_tensor sd"

text \<open>The answer is that of the first parameter.\<close>

definition is_numpy_state_dict :: "'a state_dict \<Rightarrow> bool" where
  "is_numpy_state_dict sd = (case entries sd of [] \<Rightarrow> False | (m, n, p) # _ \<Rightarrow> ar_kind p = Ndarray)"

subsection \<open>Weight buffers\<close>

record 'a weight_buffer =
  wb_kind :: weight_buffer_type
  wb_buffer :: "'a state_dict"
  wb_shards :: "(string, 'a list \<times> (string \<times> string \<times> nat list \<times> nat) list \<times> nat) dict"
  wb_ready :: bool

definition new_weight_buffer :: "weight_buffer_type \<Rightarrow> 'a weight_buffer" where
  "new_weight_buffer k = \<lparr>wb_kind = k, wb_buffer = [], wb_shards = [], wb_ready = False\<rparr>"

definition value_kind :: "weight_buffer_type \<Rightarrow> array_kind" where
  "value_kind k = (case k of CPUWeightBuffer \<Rightarrow> Ndarray | _ \<Rightarrow> Tensor)"

text \<open>The loop returns after the first parameter it meets.\<close>

definition validate_state_dict :: "weight_buffer_type \<Rightarrow> 'a state_dict \<Rightarrow> unit result" where
  "validate_state_dict k sd =
     (case entries sd of [] \<Rightarrow> Inr () | (m, n, p) # _ \<Rightarrow> guard TypeError (ar_kind p = value_kind k))"

definition add_state_dict :: "'a state_dict \<Rightarrow> 'a weight_buffer \<Rightarrow> 'a weight_buffer result" where
  "add_state_dict sd b =
     bind_result (validate_state_dict (wb_kind b) sd) (\<lambda>_. Inr (b\<lparr>wb_buffer := sd, wb_ready := True\<rparr>))"

definition wb_add :: "string \<Rightarrow> string \<Rightarrow> 'a arr \<Rightarrow> 'a weight_buffer \<Rightarrow> 'a weight_buffer" where
  "wb_add m n p b =
     b\<lparr>wb_buffer := AList.update m (AList.update n p (dict_get [] (wb_buffer b) m)) (wb_buffer b)\<rparr>"

definition get_state_dict :: "'a weight_buffer \<Rightarrow> 'a state_dict result" where
  "get_state_dict b = bind_result (guard AssertionError (wb_ready b)) (\<lambda>_. Inr (wb_buffer b))"

definition wb_clear :: "'a weight_buffer \<Rightarrow> 'a weight_buffer" where
  "wb_clear b = b\<lparr>wb_buffer := [], wb_shards := [], wb_ready := False\<rparr>"

definition add_shard ::
    "string \<Rightarrow> 'a list \<Rightarrow> (string \<times> string \<times> nat list \<times> nat) list \<Rightarrow> nat \<Rightarrow> bool \<Rightarrow> 'a weight_buffer \<Rightarrow> 'a weight_buffer" where
  "add_shard dtype shard metas numel is_last b =
     b\<lparr>wb_shards := AList.update dtype (shard, metas, numel) (wb_shards b), wb_ready := wb_ready b \<or> is_last\<rparr>"

subsection \<open>Grouping by element type\<close>

text \<open>A metadata entry: module, name, shape and number of elements.\<close>

type_synonym meta = "string \<times> string \<times> nat list \<times> nat"

definition meta_of :: "string \<times> string \<times> 'a arr \<Rightarrow> meta" where
  "meta_of e = (case e of (m, n, p) \<Rightarrow> (m, n, ar_shape p, prod_list (ar_shape p)))"

definition group_params_by_dtype :: "'a state_dict \<Rightarrow> (string, 'a arr list) dict \<times> (string, meta list) dict" where
  "group_params_by_dtype sd =
     fold (\<lambda>(m, n, p) (params, metas).
        (dict_append (ar_dtype p) p params, dict_append (ar_dtype p) (meta_of (m, n, p)) metas)) (entries sd) ([], [])"

definition parameters_to_vector :: "'a arr list \<Rightarrow> 'a list" where
  "parameters_to_vector ps = concat (map ar_data ps)"

text \<open>\<open>flat.narrow(0, offset, n).view(shape)\<close>\<close>

definition narrow_view :: "string \<Rightarrow> 'a list \<Rightarrow> nat \<Rightarrow> nat \<Rightarrow> nat list \<Rightarrow> 'a arr result" where
  "narrow_view dtype flat offset n shape =
     bind_result (guard RuntimeError (offset + n \<le> length flat \<and> prod_list shape = n)) (\<lambda>_.
     Inr \<lparr>ar_kind = Tensor, ar_dtype = dtype, ar_shape = shape, ar_data = take n (drop offset flat)\<rparr>)"

definition put_param :: "string \<Rightarrow> string \<Rightarrow> 'a arr \<Rightarrow> 'a state_dict \<Rightarrow> 'a state_dict" where
  "put_param m n p sd = AList.update m (AList.update n p (dict_get [] sd m)) sd"

definition unflatten ::
    "bool \<Rightarrow> string \<Rightarrow> 'a list \<Rightarrow> meta list \<Rightarrow> 'a state_dict \<Rightarrow> 'a state_dict result" where
  "unflatten to_numpy dtype flat metas sd =
     bind_result (foldM (\<lambda>(sd, offset) (m, n, shape, k).
        bind_result (narrow_view dtype flat offset k shape) (\<lambda>p.
        Inr (put_param m n (if to_numpy then to_ndarray p else p) sd, offset + k))) (sd, 0) metas) (\<lambda>(sd', _). Inr sd')"

definition flat_tensor_to_state_dict ::
    "(string, 'a list) dict \<Rightarrow> (string, meta list) dict \<Rightarrow> bool \<Rightarrow> 'a state_dict result" where
  "flat_tensor_to_state_dict flats metas to_numpy =
     foldM (\<lambda>sd (dtype, ms).
        bind_result (of_option KeyError (map_of flats dtype)) (\<lambda>flat. unflatten to_numpy dtype flat ms sd)) [] metas"

subsection \<open>Full transfer\<close>

text \<open>The broadcasts of the sender, in the order in which they are issued.\<close>

definition send_weights_full :: "(string, 'a arr list) dict \<Rightarrow> 'a list list" where
  "send_weights_full params = map (\<lambda>d. parameters_to_vector (dict_get [] params d)) (sort (dict_keys params))"

definition numel_total :: "meta list \<Rightarrow> nat" where
  "numel_total ms = sum_list (map (\<lambda>(m, n, shape, k). k) ms)"

definition receive_broadcasts :: "(string, meta list) dict \<Rightarrow> 'a list list \<Rightarrow> (string, 'a list) dict result" where
  "receive_broadcasts metas sent =
     (let ds = sort (dict_keys metas)
      in bind_result (guard RuntimeError (length sent = length ds)) (\<lambda>_.
         mapM (\<lambda>(d, flat). bind_result (guard RuntimeError (length flat = numel_total (dict_get [] metas d))) (\<lambda>_. Inr (d, flat)))
           (zip ds sent)))"

definition recv_weights_full ::
    "(string, meta list) dict \<Rightarrow> 'a list list \<Rightarrow> 'a weight_buffer \<Rightarrow> 'a weight_buffer result" where
  "recv_weights_full metas sent b =
     bind_result (receive_broadcasts metas sent) (\<lambda>flats.
     bind_result (flat_tensor_to_state_dict flats metas (wb_kind b = CPUWeightBuffer)) (\<lambda>sd.
     add_state_dict sd (wb_clear b)))"

text \<open>Through the processor memory, and within one process.\<close>

definition send_weights_cpu :: "'a state_dict \<Rightarrow> 'a weight_buffer \<Rightarrow> 'a weight_buffer result" where
  "send_weights_cpu sd b = add_state_dict (tensor_state_dict_to_numpy sd) b"

definition recv_weights_local :: "'a state_dict \<Rightarrow> 'a weight_buffer \<Rightarrow> 'a weight_buffer result" where
  "recv_weights_local sd b =
     add_state_dict (if wb_kind b = CPUWeightBuffer then tensor_state_dict_to_numpy sd else sd) (wb_clear b)"

subsection \<open>Sharded transfer\<close>

definition pad_to :: "nat \<Rightarrow> 'a \<Rightarrow> 'a list \<Rightarrow> 'a list" where
  "pad_to w z xs = (if length xs mod w \<noteq> 0 then xs @ replicate (w - length xs mod w) z else xs)"

text \<open>\<open>torch.chunk\<close>: pieces of the size rounded up, and \<open>w\<close> empty pieces of nothing.\<close>

definition torch_chunk :: "nat \<Rightarrow> 'a list \<Rightarrow> 'a list list" where
  "torch_chunk w xs =
     (let s = (length xs + w - 1) div w
      in if s = 0 then replicate w []
         else map (\<lambda>i. take s (drop (i * s) xs)) [0..<(length xs + s - 1) div s])"

definition shards_of :: "nat \<Rightarrow> 'a \<Rightarrow> 'a arr list \<Rightarrow> 'a list list" where
  "shards_of w z ps = torch_chunk w (pad_to w z (parameters_to_vector ps))"

definition numel_shard :: "nat \<Rightarrow> nat \<Rightarrow> nat" where
  "numel_shard w n = (if n mod w \<noteq> 0 then n + (w - n mod w) else n) div w"

text \<open>The receiver \<open>r\<close> of \<open>w\<close> (the sender keeps a dummy shard): one scatter per element type.\<close>

definition recv_weights_sharded ::
    "nat \<Rightarrow> nat \<Rightarrow> (string, meta list) dict \<Rightarrow> 'a list list list \<Rightarrow> 'a weight_buffer \<Rightarrow> 'a weight_buffer result" where
  "recv_weights_sharded w r metas scattered b =
     (let ds = sort (dict_keys metas)
      in bind_result (guard ZeroDivisionError (ds = [] \<or> w \<noteq> 0)) (\<lambda>_.
         foldM (\<lambda>b (d, shards).
           (let ms = dict_get [] metas d
            in bind_result (guard RuntimeError (r < length shards \<and> length (shards ! r) = numel_shard w (numel_total ms))) (\<lambda>_.
               Inr (add_shard d (shards ! r) ms (numel_total ms) (d = last ds) b)))) (wb_clear b) (zip ds scattered)))"

text \<open>Gathering the shards of all receivers and cutting off the padding.\<close>

definition gather_shards :: "'a list list \<Rightarrow> nat \<Rightarrow> 'a list" where
  "gather_shards shards numel = take numel (concat shards)"

subsection \<open>The eval policy\<close>

text \<open>\<open>update_weights_from_buffer\<close>: what \<open>load_state_dict\<close> is called with.\<close>

definition weights_to_load :: "'a weight_buffer \<Rightarrow> 'a state_dict result" where
  "weights_to_load b =
     bind_result (get_state_dict b) (\<lambda>sd.
     Inr (if is_numpy_state_dict sd then numpy_state_dict_to_tensor sd else sd))"

text \<open>\<open>send_weights\<close> of a train policy and the update of an eval policy, for the strategies \<open>Double\<close> and
  \<open>Shared\<close>: over the network, within one process, and through a shared buffer in processor memory.\<close>

datatype transfer = Network | OneProcess | SharedCpu

definition transfer_weights :: "transfer \<Rightarrow> 'a state_dict \<Rightarrow> 'a weight_buffer \<Rightarrow> 'a weight_buffer result" where
  "transfer_weights t sd b =
     (case t of
        Network \<Rightarrow> (case group_params_by_dtype sd of (params, metas) \<Rightarrow>
            recv_weights_full metas (send_weights_full params) b)
      | OneProcess \<Rightarrow> recv_weights_local sd b
      | SharedCpu \<Rightarrow> send_weights_cpu sd b)"

subsection \<open>Offloading parameters\<close>

text \<open>
  Storages by parameter name (an empty storage has been freed), their copies in processor memory, and
  the flag of \<open>_model_params_offloaded\<close>.
\<close>

record 'a offload =
  of_params :: "(string, 'a list) dict"
  of_backup :: "(string, 'a list) dict"
  of_offloaded :: bool

definition offload_params :: "'a offload \<Rightarrow> 'a offload" where
  "offload_params o1 =
     (case fold (\<lambda>(n, xs) (ps, bk). if xs \<noteq> [] then (ps @ [(n, [])], AList.update n xs bk) else (ps @ [(n, xs)], bk))
             (of_params o1) ([], of_backup o1) of
        (ps, bk) \<Rightarrow> \<lparr>of_params = ps, of_backup = bk, of_offloaded = True\<rparr>)"

definition reload_params :: "'a offload \<Rightarrow> 'a offload" where
  "reload_params o1 =
     o1\<lparr>of_params := map (\<lambda>(n, xs). (n, if xs = [] then dict_get xs (of_backup o1) n else xs)) (of_params o1),
        of_offloaded := False\<rparr>"

end
