(* ===== verification/Groupings.thy ===== *)
theory Groupings
  imports Prelude "HOL-Library.Multiset"
begin

text \<open>
  Grouping a list by a key into a dictionary of lists, as the code does with \<open>defaultdict(list)\<close>, and
  putting the groups together again.
\<close>

definition group_by :: "('x \<Rightarrow> 'k) \<Rightarrow> ('x \<Rightarrow> 'v) \<Rightarrow> 'x list \<Rightarrow> ('k, 'v list) dict" where
  "group_by key val xs = fold (\<lambda>x. dict_append (key x) (val x)) xs []"

lemma group_by_snoc: "group_by key val (xs @ [x]) = dict_append (key x) (val x) (group_by key val xs)"
  by (simp add: group_by_def)

lemma group_by_get: "dict_get [] (group_by key val xs) k = map val (filter (\<lambda>x. key x = k) xs)"
proof (induction xs rule: rev_induct)
  case Nil
  then show ?case by (simp add: group_by_def)
qed (auto simp: group_by_snoc)

lemma group_by_keys:
  "dict_keys (group_by key val xs) = dict_keys (group_by key val' xs)"
  "dict_ok (group_by key val xs)" "set (dict_keys (group_by key val xs)) = key ` set xs"
proof -
  show keys: "dict_keys (group_by key val xs) = dict_keys (group_by key val' xs)" for val and val'
    by (induction xs rule: rev_induct) (simp_all add: group_by_def dict_append_def update_keys)
  show "dict_ok (group_by key val xs)"
    by (induction xs rule: rev_induct) (simp_all add: group_by_def)
  show "set (dict_keys (group_by key val xs)) = key ` set xs"
    by (induction xs rule: rev_induct) (simp_all add: group_by_def)
qed

lemma mset_concat_filter:
  assumes "distinct ks"
  shows "mset (concat (map (\<lambda>k. filter (\<lambda>x. key x = k) xs) ks)) = mset (filter (\<lambda>x. key x \<in> set ks) xs)"
  using assms by (induction ks) (auto simp: multiset_eq_iff)

end
