(* ===== verification/Weights_Correct.thy ===== *)
theory Weights_Correct
  imports Weights Groupings
begin

text \<open>
  Weights that are sent arrive: grouping by element type, flattening, the broadcasts and the
  conversions of the buffer give back the state dictionary that was sent.
\<close>

subsection \<open>Grouping by element type\<close>

lemma fold_pair: "fold (\<lambda>e (a, b). (f e a, g e b)) es (a, b) = (fold f es a, fold g es b)"
  by (induction es arbitrary: a b) auto

lemma group_params_eq:
  "group_params_by_dtype sd =
     (group_by (\<lambda>(m, n, p). ar_dtype p) (\<lambda>(m, n, p). p) (entries sd), group_by (\<lambda>(m, n, p). ar_dtype p) meta_of (entries sd))"
  unfolding group_params_by_dtype_def group_by_def
  by (subst fold_pair [symmetric]) (auto intro!: fold_cong)

subsection \<open>Looking up a parameter\<close>

definition param_at :: "'a state_dict \<Rightarrow> string \<Rightarrow> string \<Rightarrow> 'a arr option" where
  "param_at sd m n = Option.bind (map_of sd m) (\<lambda>ps. map_of ps n)"

definition keyed :: "(string \<times> string \<times> 'a arr) list \<Rightarrow> ((string \<times> string) \<times> 'a arr) list" where
  "keyed es = map (\<lambda>(m, n, p). ((m, n), p)) es"

definition state_dict_ok :: "'a state_dict \<Rightarrow> bool" where
  "state_dict_ok sd \<longleftrightarrow> dict_ok sd \<and> (\<forall>ps \<in> snd ` set sd. dict_ok ps)"

lemma param_at_put [simp]:
  "param_at (put_param m n p sd) m' n' = (if m' = m \<and> n' = n then Some p else param_at sd m' n')"
  by (auto simp: param_at_def put_param_def dict_get_def split: option.splits)

lemma param_at_put_all:
  "param_at (fold (\<lambda>(m, n, p). put_param m n (f p)) es sd) m n
     = (case map_of (rev (keyed es)) (m, n) of Some p \<Rightarrow> Some (f p) | None \<Rightarrow> param_at sd m n)"
  by (induction es rule: rev_induct) (auto simp: keyed_def)

lemma keyed_entries_Cons: "keyed (entries ((m, ps) # sd)) = map (\<lambda>(n, p). ((m, n), p)) ps @ keyed (entries sd)"
  by (simp add: keyed_def entries_def comp_def case_prod_beta')

lemma map_of_with_module: "map_of (map (\<lambda>(n, p). ((m, n), p)) ps) (m', n) = (if m' = m then map_of ps n else None)"
  by (induction ps) auto

lemma keys_entries: "fst ` fst ` set (keyed (entries sd)) \<subseteq> fst ` set sd"
  by (force simp: keyed_def entries_def)

lemma param_at_entries: "dict_ok sd \<Longrightarrow> param_at sd m n = map_of (keyed (entries sd)) (m, n)"
proof (induction sd)
  case Nil
  then show ?case by (simp add: param_at_def keyed_def entries_def)
next
  case (Cons x sd)
  obtain m0 ps where x: "x = (m0, ps)" by (cases x)
  have "map_of (keyed (entries sd)) (m0, n) = None"
    using Cons.prems x keys_entries [of sd] by (force simp: map_of_eq_None_iff)
  with Cons x show ?case
    by (auto simp: keyed_entries_Cons map_of_with_module map_add_def param_at_def split: option.splits)
qed

lemma distinct_entries: "state_dict_ok sd \<Longrightarrow> distinct (map fst (keyed (entries sd)))"
proof (induction sd)
  case Nil
  then show ?case by (simp add: keyed_def entries_def)
next
  case (Cons x sd)
  obtain m0 ps where x: "x = (m0, ps)" by (cases x)
  have "distinct (map (Pair m0) (map fst ps))" using Cons.prems x by (simp add: state_dict_ok_def distinct_map inj_on_def)
  moreover have "map fst (map (\<lambda>(n, p). ((m0, n), p)) ps) = map (Pair m0) (map fst ps)" by (simp add: comp_def case_prod_beta')
  moreover have "state_dict_ok sd" using Cons.prems by (simp add: state_dict_ok_def)
  moreover have "(m0, n) \<notin> fst ` set (keyed (entries sd))" for n
    using Cons.prems x keys_entries [of sd] by (force simp: state_dict_ok_def)
  ultimately show ?case using Cons.IH x by (auto simp: keyed_entries_Cons simp del: map_map)
qed

subsection \<open>Flattening and its inverse\<close>

definition plain_entry :: "string \<Rightarrow> string \<times> string \<times> 'a arr \<Rightarrow> bool" where
  "plain_entry d e \<longleftrightarrow> (case e of (m, n, p) \<Rightarrow> ar_kind p = Tensor \<and> ar_dtype p = d \<and> wf_arr p)"

lemma parameters_to_vector_simps [simp]:
  "parameters_to_vector [] = []" "parameters_to_vector (p # ps) = ar_data p @ parameters_to_vector ps"
  by (simp_all add: parameters_to_vector_def)

lemma unflatten_loop:
  assumes "\<forall>e \<in> set es. plain_entry d e"
  shows "foldM (\<lambda>(sd, offset) (m, n, shape, k).
        bind_result (narrow_view d (pre @ parameters_to_vector (map (\<lambda>(m, n, p). p) es)) offset k shape) (\<lambda>p.
        Inr (put_param m n (if np then to_ndarray p else p) sd, offset + k))) (sd, length pre) (map meta_of es)
     = Inr (fold (\<lambda>(m, n, p). put_param m n (if np then to_ndarray p else p)) es sd,
            length (pre @ parameters_to_vector (map (\<lambda>(m, n, p). p) es)))"
  using assms
proof (induction es arbitrary: sd pre)
  case Nil
  then show ?case by simp
next
  case (Cons e es)
  obtain m n p where e: "e = (m, n, p)" by (cases e)
  have p: "ar_kind p = Tensor" "ar_dtype p = d" "prod_list (ar_shape p) = length (ar_data p)"
    using Cons.prems e by (simp_all add: plain_entry_def wf_arr_def)
  let ?rest = "parameters_to_vector (map (\<lambda>(m, n, p). p) es)"
  have "narrow_view d ((pre @ ar_data p) @ ?rest) (length pre) (prod_list (ar_shape p)) (ar_shape p) = Inr p"
    using p by (simp add: narrow_view_def)
  with Cons.IH [of "pre @ ar_data p"] Cons.prems e p(3) show ?case
    by (simp add: meta_of_def)
qed

lemma unflatten_eq:
  assumes "\<forall>e \<in> set es. plain_entry d e"
  shows "unflatten np d (parameters_to_vector (map (\<lambda>(m, n, p). p) es)) (map meta_of es) sd
     = Inr (fold (\<lambda>(m, n, p). put_param m n (if np then to_ndarray p else p)) es sd)"
  using unflatten_loop [OF assms, where pre = "[]"] by (simp add: unflatten_def)

lemma numel_total_eq:
  assumes "\<forall>e \<in> set es. plain_entry d e"
  shows "numel_total (map meta_of es) = length (parameters_to_vector (map (\<lambda>(m, n, p). p) es))"
  using assms
  by (induction es) (auto simp: numel_total_def meta_of_def plain_entry_def wf_arr_def)

lemma flat_to_state_dict_eq:
  assumes "\<And>d. d \<in> set ds \<Longrightarrow> \<forall>e \<in> set (es d). plain_entry d e"
    and "\<And>d. d \<in> set ds \<Longrightarrow> map_of flats d = Some (parameters_to_vector (map (\<lambda>(m, n, p). p) (es d)))"
  shows "foldM (\<lambda>sd (dtype, ms). bind_result (of_option KeyError (map_of flats dtype)) (\<lambda>flat. unflatten np dtype flat ms sd))
       sd (map (\<lambda>d. (d, map meta_of (es d))) ds)
     = Inr (fold (\<lambda>(m, n, p). put_param m n (if np then to_ndarray p else p)) (concat (map es ds)) sd)"
  using assms by (induction ds arbitrary: sd) (simp_all add: unflatten_eq)

subsection \<open>The whole way\<close>

text \<open>What a train policy sends: tensors whose elements match their shape.\<close>

definition sendable :: "'a state_dict \<Rightarrow> bool" where
  "sendable sd \<longleftrightarrow> state_dict_ok sd
     \<and> (\<forall>(m, n, p) \<in> set (entries sd). ar_kind p = Tensor \<and> wf_arr p \<and> ar_dtype p \<noteq> ''uint16'')"

definition all_kind :: "array_kind \<Rightarrow> 'a state_dict \<Rightarrow> bool" where
  "all_kind k sd \<longleftrightarrow> (\<forall>ps \<in> snd ` set sd. \<forall>p \<in> snd ` set ps. ar_kind p = k)"

lemma set_AList_update: "set (AList.update k v d) \<subseteq> insert (k, v) (set d)"
  by (induction d) auto

lemma all_kind_put: "all_kind k sd \<Longrightarrow> ar_kind p = k \<Longrightarrow> all_kind k (put_param m n p sd)"
  unfolding all_kind_def put_param_def
proof
  fix ps
  assume all: "\<forall>ps \<in> snd ` set sd. \<forall>p \<in> snd ` set ps. ar_kind p = k" and p: "ar_kind p = k"
    and ps: "ps \<in> snd ` set (AList.update m (AList.update n p (dict_get [] sd m)) sd)"
  have "\<forall>q \<in> snd ` set (dict_get [] sd m). ar_kind q = k"
  proof (cases "map_of sd m")
    case None
    then show ?thesis by (simp add: dict_get_def)
  next
    case (Some qs)
    then have "qs \<in> snd ` set sd" by (metis map_of_SomeD image_eqI snd_conv)
    with all have "\<forall>q \<in> snd ` set qs. ar_kind q = k" by (rule bspec)
    with Some show ?thesis by (simp add: dict_get_def)
  qed
  then have "\<forall>q \<in> snd ` set (AList.update n p (dict_get [] sd m)). ar_kind q = k"
    using p set_AList_update [of n p "dict_get [] sd m"] by auto
  moreover have "ps = AList.update n p (dict_get [] sd m) \<or> ps \<in> snd ` set sd"
    using ps set_AList_update [of m "AList.update n p (dict_get [] sd m)" sd] by (force simp: image_iff)
  ultimately show "\<forall>p \<in> snd ` set ps. ar_kind p = k" using all by metis
qed

lemma all_kind_put_all:
  assumes "all_kind k sd" "\<forall>(m, n, p) \<in> set es. ar_kind (f p) = k"
  shows "all_kind k (fold (\<lambda>(m, n, p). put_param m n (f p)) es sd)"
  using assms by (induction es arbitrary: sd) (auto simp: all_kind_put)

lemma entriesI: "(m, ps) \<in> set sd \<Longrightarrow> (n, p) \<in> set ps \<Longrightarrow> (m, n, p) \<in> set (entries sd)"
  by (force simp: entries_def)

lemma kind_of_entry: "all_kind k sd \<Longrightarrow> (m, n, p) \<in> set (entries sd) \<Longrightarrow> ar_kind p = k"
  by (force simp: all_kind_def entries_def)

lemma no_entries: "entries sd = [] \<Longrightarrow> param_at sd m n = None"
proof (cases "map_of sd m")
  case None
  then show ?thesis by (simp add: param_at_def)
next
  case (Some ps)
  assume "entries sd = []"
  moreover have "(m, ps) \<in> set sd" using Some by (rule map_of_SomeD)
  ultimately have "ps = []" by (force simp: entries_def)
  with Some show ?thesis by (simp add: param_at_def)
qed

lemma param_at_map_params: "param_at (map_params f sd) m n = map_option f (param_at sd m n)"
  unfolding param_at_def map_params_def by (induction sd) (auto simp: map_of_map)

lemma add_state_dict_kind:
  assumes "all_kind (value_kind (wb_kind b)) sd"
  shows "add_state_dict sd b = Inr (b\<lparr>wb_buffer := sd, wb_ready := True\<rparr>)"
  using assms kind_of_entry
  by (fastforce simp: add_state_dict_def validate_state_dict_def split: list.splits)

lemma weights_to_load_kind:
  assumes "wb_ready b" "wb_buffer b = sd" "all_kind k sd"
  shows "\<exists>sd'. weights_to_load b = Inr sd' \<and>
     (\<forall>m n. param_at sd' m n = map_option (if k = Ndarray then to_tensor else id) (param_at sd m n))"
proof (cases "entries sd")
  case Nil
  then have "is_numpy_state_dict sd = False" "\<And>m n. param_at sd m n = None"
    by (simp_all add: is_numpy_state_dict_def no_entries)
  with assms show ?thesis by (simp add: weights_to_load_def get_state_dict_def)
next
  case (Cons e es)
  obtain m n p where e: "e = (m, n, p)" by (cases e)
  with Cons kind_of_entry [OF assms(3), of m n p] have "is_numpy_state_dict sd = (k = Ndarray)"
    by (simp add: is_numpy_state_dict_def)
  with assms show ?thesis
    by (cases k) (simp_all add: weights_to_load_def get_state_dict_def numpy_state_dict_to_tensor_def
        param_at_map_params option.map_id)
qed

text \<open>The inverse conversion on sendable parameters.\<close>

lemma to_tensor_to_ndarray:
  assumes "ar_kind p = Tensor" "ar_dtype p \<noteq> ''uint16''"
  shows "to_tensor (to_ndarray p) = p"
  using assms by (cases p) (auto simp: to_tensor_def to_ndarray_def)

text \<open>What the receiver of the broadcasts assembles, for both kinds of buffers.\<close>

lemma receive_broadcasts_eq:
  assumes "distinct (dict_keys metas)" "dict_keys params = dict_keys metas"
    and "\<And>d. d \<in> set (dict_keys metas) \<Longrightarrow>
       length (parameters_to_vector (dict_get [] params d)) = numel_total (dict_get [] metas d)"
  shows "receive_broadcasts metas (send_weights_full params)
     = Inr (map (\<lambda>d. (d, parameters_to_vector (dict_get [] params d))) (sort (dict_keys metas)))"
proof -
  let ?ds = "sort (dict_keys metas)"
  have "zip ?ds (send_weights_full params) = map (\<lambda>d. (d, parameters_to_vector (dict_get [] params d))) ?ds"
    using assms(2) by (simp add: send_weights_full_def zip_map2 zip_same_conv_map)
  moreover have "mapM (\<lambda>(d, flat). bind_result (guard RuntimeError (length flat = numel_total (dict_get [] metas d))) (\<lambda>_. Inr (d, flat)))
      (map (\<lambda>d. (d, parameters_to_vector (dict_get [] params d))) ds)
    = Inr (map (\<lambda>d. (d, parameters_to_vector (dict_get [] params d))) ds)" if "set ds \<subseteq> set (dict_keys metas)" for ds
    using that assms(3) by (induction ds) auto
  from this [of ?ds] have "mapM (\<lambda>(d, flat). bind_result (guard RuntimeError (length flat = numel_total (dict_get [] metas d))) (\<lambda>_. Inr (d, flat)))
      (map (\<lambda>d. (d, parameters_to_vector (dict_get [] params d))) ?ds)
    = Inr (map (\<lambda>d. (d, parameters_to_vector (dict_get [] params d))) ?ds)" by simp
  ultimately show ?thesis
    using assms(2) by (simp add: receive_broadcasts_def Let_def send_weights_full_def)
qed

lemma map_of_pairs: "d \<in> set ds \<Longrightarrow> map_of (map (\<lambda>d. (d, f d)) ds) d = Some (f d)"
  by (induction ds) auto

lemma dict_as_map: "dict_ok d \<Longrightarrow> map (\<lambda>k. (k, dict_get dflt d k)) (dict_keys d) = d"
  by (simp add: comp_def) (rule map_idI, auto simp: dict_get_in)

lemma network_transfer:
  assumes "sendable sd"
  shows "\<exists>es. mset es = mset (entries sd)
     \<and> transfer_weights Network sd b = add_state_dict
         (fold (\<lambda>(m, n, p). put_param m n (if wb_kind b = CPUWeightBuffer then to_ndarray p else p)) es []) (wb_clear b)"
proof -
  let ?d = "\<lambda>(m, n, p). ar_dtype p" and ?p = "\<lambda>(m, n, p). p"
  let ?E = "\<lambda>d. filter (\<lambda>e. ?d e = d) (entries sd)"
  let ?params = "group_by ?d ?p (entries sd)" and ?metas = "group_by ?d meta_of (entries sd)"
  have plain: "\<forall>e \<in> set (?E d). plain_entry d e" for d
    using assms by (auto simp: sendable_def plain_entry_def)
  have keys: "dict_keys ?params = dict_keys ?metas" "distinct (dict_keys ?metas)" "set (dict_keys ?metas) = ?d ` set (entries sd)"
    by (rule group_by_keys)+
  have sizes: "length (parameters_to_vector (dict_get [] ?params d)) = numel_total (dict_get [] ?metas d)" for d
    using numel_total_eq [OF plain] by (simp add: group_by_get)
  let ?ds = "dict_keys ?metas"
  have recv: "receive_broadcasts ?metas (send_weights_full ?params)
     = Inr (map (\<lambda>d. (d, parameters_to_vector (map ?p (?E d)))) (sort ?ds))"
    using receive_broadcasts_eq [OF keys(2,1)] sizes by (simp add: group_by_get)
  have metas: "map (\<lambda>d. (d, map meta_of (?E d))) ?ds = ?metas"
    using dict_as_map [OF keys(2), of "[]"] unfolding group_by_get .
  have "flat_tensor_to_state_dict (map (\<lambda>d. (d, parameters_to_vector (map ?p (?E d)))) (sort ?ds))
      (map (\<lambda>d. (d, map meta_of (?E d))) ?ds) np
    = Inr (fold (\<lambda>(m, n, p). put_param m n (if np then to_ndarray p else p)) (concat (map ?E ?ds)) [])" for np
    unfolding flat_tensor_to_state_dict_def
    by (rule flat_to_state_dict_eq [OF plain]) (simp add: map_of_pairs)
  then have flat: "flat_tensor_to_state_dict (map (\<lambda>d. (d, parameters_to_vector (map ?p (?E d)))) (sort ?ds)) ?metas np
    = Inr (fold (\<lambda>(m, n, p). put_param m n (if np then to_ndarray p else p)) (concat (map ?E ?ds)) [])" for np
    unfolding metas .
  have "transfer_weights Network sd b = add_state_dict
      (fold (\<lambda>(m, n, p). put_param m n (if wb_kind b = CPUWeightBuffer then to_ndarray p else p)) (concat (map ?E ?ds)) [])
      (wb_clear b)"
    unfolding transfer_weights_def transfer.case group_params_eq prod.case recv_weights_full_def recv bind_result_Inr flat ..
  moreover have "filter (\<lambda>e. ?d e \<in> set ?ds) (entries sd) = entries sd"
    using keys(3) by (intro filter_True) auto
  with mset_concat_filter [OF keys(2), of ?d "entries sd"] have "mset (concat (map ?E ?ds)) = mset (entries sd)" by (simp only:)
  ultimately show ?thesis by (intro exI [of _ "concat (map ?E ?ds)"] conjI)
qed

lemma param_at_permuted:
  assumes "state_dict_ok sd" "mset es = mset (entries sd)"
  shows "param_at (fold (\<lambda>(m, n, p). put_param m n (f p)) es []) m n = map_option f (param_at sd m n)"
proof -
  have k: "mset (keyed es) = mset (keyed (entries sd))" using assms(2) by (simp add: keyed_def)
  have d: "distinct (map fst (keyed (entries sd)))" using assms(1) by (rule distinct_entries)
  have "distinct (map fst (rev (keyed es)))"
    using d k by (metis distinct_rev mset_eq_imp_distinct_iff mset_map rev_map)
  then have "map_of (rev (keyed es)) = map_of (keyed (entries sd))"
    using d k by (subst map_of_inject_set) (auto dest: mset_eq_setD)
  with assms(1) show ?thesis
    by (auto simp: param_at_put_all param_at_entries state_dict_ok_def param_at_def [of "[]"] split: option.splits)
qed

subsection \<open>Properties\<close>

text \<open>C14: weights that are sent arrive: for the strategies \<open>Double\<close> and \<open>Shared\<close>, over the network (grouped
  by element type, flattened, broadcast, cut and reshaped), within one process, or through a shared
  buffer in processor memory, the transfer succeeds for tensors whose elements match their shape and
  whose type is not the one that stands for \<open>bfloat16\<close> in numpy, and the eval policy then loads for
  every module and parameter exactly what the train policy sent, whatever the buffer held.\<close>
theorem weights_arrive:
  assumes "sendable sd" "wb_kind b \<noteq> ShardedWeightBuffer" "t = SharedCpu \<longrightarrow> wb_kind b = CPUWeightBuffer"
  shows "\<exists>b' sd'. transfer_weights t sd b = Inr b' \<and> weights_to_load b' = Inr sd'
     \<and> (\<forall>m n. param_at sd' m n = param_at sd m n)"
proof -
  let ?np = "wb_kind b = CPUWeightBuffer" and ?k = "value_kind (wb_kind b)"
  let ?conv = "\<lambda>p. if ?np then to_ndarray p else p"
  have k: "?k = (if ?np then Ndarray else Tensor)"
    using assms(2) by (cases "wb_kind b") (simp_all add: value_kind_def)
  have ok: "state_dict_ok sd" and tensors: "\<And>m n p. (m, n, p) \<in> set (entries sd) \<Longrightarrow> ar_kind p = Tensor"
    using assms(1) by (auto simp: sendable_def)
  have undo: "map_option (if ?k = Ndarray then to_tensor else id) (map_option ?conv (param_at sd m n)) = param_at sd m n" for m n
  proof (cases "param_at sd m n")
    case None
    then show ?thesis by simp
  next
    case (Some p)
    then have "(m, n, p) \<in> set (entries sd)"
      using param_at_entries [of sd m n] ok map_of_SomeD [of "keyed (entries sd)" "(m, n)" p]
      by (auto simp: state_dict_ok_def keyed_def)
    then have "ar_kind p = Tensor" "ar_dtype p \<noteq> ''uint16''" using assms(1) by (auto simp: sendable_def)
    with Some k show ?thesis by (simp add: to_tensor_to_ndarray)
  qed
  have finish: ?thesis
    if h: "transfer_weights t sd b = add_state_dict sd0 b0" "wb_kind b0 = wb_kind b" "all_kind ?k sd0"
       "\<And>m n. param_at sd0 m n = map_option ?conv (param_at sd m n)" for sd0 and b0 :: "'a weight_buffer"
  proof -
    have "add_state_dict sd0 b0 = Inr (b0\<lparr>wb_buffer := sd0, wb_ready := True\<rparr>)"
      using add_state_dict_kind [of b0 sd0] h(2,3) by simp
    moreover obtain sd' where "weights_to_load (b0\<lparr>wb_buffer := sd0, wb_ready := True\<rparr>) = Inr sd'"
      "\<And>m n. param_at sd' m n = map_option (if ?k = Ndarray then to_tensor else id) (param_at sd0 m n)"
      using weights_to_load_kind [of "b0\<lparr>wb_buffer := sd0, wb_ready := True\<rparr>" sd0 ?k] h(3) by auto
    ultimately show ?thesis using h(1,4) undo by simp
  qed
  have mapped: "all_kind Ndarray (map_params to_ndarray sd)"
    by (auto simp: all_kind_def map_params_def to_ndarray_def)
  have plain: "all_kind Tensor sd" unfolding all_kind_def
  proof (intro ballI)
    fix ps p assume "ps \<in> snd ` set sd" "p \<in> snd ` set ps"
    then obtain m n where "(m, ps) \<in> set sd" "(n, p) \<in> set ps" by auto
    then show "ar_kind p = Tensor" by (rule tensors [OF entriesI])
  qed
  have one: "all_kind ?k (if ?np then tensor_state_dict_to_numpy sd else sd)"
    using mapped plain k by (simp add: tensor_state_dict_to_numpy_def)
  have at: "param_at (if ?np then tensor_state_dict_to_numpy sd else sd) m n = map_option ?conv (param_at sd m n)" for m n
    by (simp add: tensor_state_dict_to_numpy_def param_at_map_params option.map_ident)
  show ?thesis
  proof (cases t)
    case Network
    obtain es where es: "mset es = mset (entries sd)"
      "transfer_weights Network sd b = add_state_dict (fold (\<lambda>(m, n, p). put_param m n (?conv p)) es []) (wb_clear b)"
      using network_transfer [OF assms(1), of b] by blast
    have "\<forall>(m, n, p) \<in> set es. ar_kind (?conv p) = ?k"
      using tensors k mset_eq_setD [OF es(1)] by (auto simp: to_ndarray_def)
    then have "all_kind ?k (fold (\<lambda>(m, n, p). put_param m n (?conv p)) es [])"
      by (intro all_kind_put_all) (simp add: all_kind_def)
    with es Network param_at_permuted [OF ok es(1)] show ?thesis
      by (intro finish [of _ "wb_clear b"]) (simp_all add: wb_clear_def)
  next
    case OneProcess
    then show ?thesis
      using one at by (intro finish [of _ "wb_clear b"]) (simp_all add: transfer_weights_def recv_weights_local_def wb_clear_def)
  next
    case SharedCpu
    with assms(3) have np: ?np by simp
    with SharedCpu one at show ?thesis
      by (intro finish [of _ b]) (simp_all add: transfer_weights_def send_weights_cpu_def)
  qed
qed

definition demo_weights :: "int state_dict" where
  "demo_weights =
     [(''actor'', [(''w'', \<lparr>ar_kind = Tensor, ar_dtype = ''float32'', ar_shape = [2, 2], ar_data = [1, 2, 3, 4]\<rparr>),
                   (''b'', \<lparr>ar_kind = Tensor, ar_dtype = ''bfloat16'', ar_shape = [2], ar_data = [5, 6]\<rparr>)]),
      (''critic'', [(''w'', \<lparr>ar_kind = Tensor, ar_dtype = ''float32'', ar_shape = [1], ar_data = [7]\<rparr>)])]"

lemma weights_arrive_witness:
  "\<exists>b' sd'. transfer_weights Network demo_weights (new_weight_buffer CPUWeightBuffer) = Inr b' \<and> weights_to_load b' = Inr sd'
     \<and> (\<forall>m n. param_at sd' m n = param_at demo_weights m n)"
proof (rule weights_arrive)
  show "sendable demo_weights"
    by (auto simp: sendable_def state_dict_ok_def demo_weights_def entries_def wf_arr_def)
qed (simp_all add: new_weight_buffer_def)

text \<open>The shards: what the sender scatters is what the receivers expect, and it can be put together.\<close>

lemma length_pad_to: "0 < w \<Longrightarrow> length (pad_to w z xs) = w * numel_shard w (length xs)"
proof -
  assume w: "0 < w"
  show ?thesis
  proof (cases "length xs mod w = 0")
    case True
    then show ?thesis by (auto simp: pad_to_def numel_shard_def)
  next
    case False
    let ?n = "length xs + (w - length xs mod w)"
    have "w * (length xs div w) + length xs mod w = length xs" "length xs mod w < w" using w by simp_all
    then have "?n = w * (length xs div w) + w" by linarith
    then have "w dvd ?n" by simp
    with False w show ?thesis by (simp add: pad_to_def numel_shard_def)
  qed
qed

lemma torch_chunk_even:
  assumes "0 < w" "length xs = w * s"
  shows "length (torch_chunk w xs) = w" "\<forall>c \<in> set (torch_chunk w xs). length c = s" "concat (torch_chunk w xs) = xs"
proof -
  have "(w * s + w - 1) div w = s"
  proof -
    have "w * s + w - 1 = (w - 1) + s * w" using assms(1) by (simp add: mult.commute)
    then have "(w * s + w - 1) div w = s + (w - 1) div w" using assms(1) by (simp only: div_mult_self1)
    moreover have "(w - 1) div w = 0" using assms(1) by simp
    ultimately show ?thesis by (simp only: add_0_right)
  qed
  then have size: "(length xs + w - 1) div w = s" using assms(2) by simp
  have count: "(length xs + s - 1) div s = w" if "0 < s"
  proof -
    have "length xs + s - 1 = (s - 1) + w * s" using that assms(2) by simp
    then have "(length xs + s - 1) div s = w + (s - 1) div s" using that by (simp only: div_mult_self1)
    moreover have "(s - 1) div s = 0" using that by simp
    ultimately show ?thesis by (simp only: add_0_right)
  qed
  have chunks: "torch_chunk w xs = (if s = 0 then replicate w [] else map (\<lambda>i. take s (drop (i * s) xs)) [0..<w])"
    using size count by (simp add: torch_chunk_def)
  show "length (torch_chunk w xs) = w" by (simp add: chunks)
  have "length (take s (drop (i * s) xs)) = s" if "i < w" for i
  proof -
    have "i * s + s \<le> w * s" using that by (metis Suc_leI add.commute mult_Suc mult_le_mono1)
    then show ?thesis using assms(2) by simp
  qed
  then show "\<forall>c \<in> set (torch_chunk w xs). length c = s" by (auto simp: chunks)
  have "concat (map (\<lambda>i. take s (drop (i * s) xs)) [0..<k]) = take (k * s) xs" for k
  proof (induction k)
    case 0
    then show ?case by simp
  next
    case (Suc k)
    have "take (Suc k * s) xs = take (k * s) xs @ take s (drop (k * s) xs)" by (metis add.commute mult_Suc take_add)
    with Suc show ?case by (simp del: mult_Suc)
  qed
  from this [of w] assms(2) show "concat (torch_chunk w xs) = xs"
    unfolding chunks by (cases "s = 0") auto
qed

text \<open>The shards fit: for any number of receivers, the sender cuts the padded parameters of an element
  type into exactly one shard per receiver, each of the size the receiver computes from the metadata
  alone, and gathering the shards and cutting at the announced size gives back the parameters.\<close>
theorem shards_fit:
  assumes "0 < w"
  shows "length (shards_of w z ps) = w
     \<and> (\<forall>s \<in> set (shards_of w z ps). length s = numel_shard w (length (parameters_to_vector ps)))
     \<and> gather_shards (shards_of w z ps) (length (parameters_to_vector ps)) = parameters_to_vector ps"
proof -
  let ?xs = "parameters_to_vector ps"
  note chunk = torch_chunk_even [OF assms length_pad_to [OF assms, of z ?xs]]
  have "take (length ?xs) (pad_to w z ?xs) = ?xs" by (simp add: pad_to_def)
  with chunk show ?thesis by (simp add: shards_of_def gather_shards_def)
qed

lemma shards_fit_witness:
  "gather_shards (shards_of 3 0 [\<lparr>ar_kind = Tensor, ar_dtype = ''f'', ar_shape = [4], ar_data = [1, 2, 3, 4 :: int]\<rparr>]) 4 = [1, 2, 3, 4]"
  using conjunct2 [OF conjunct2 [OF shards_fit [of 3 0 "[\<lparr>ar_kind = Tensor, ar_dtype = ''f'', ar_shape = [4], ar_data = [1, 2, 3, 4 :: int]\<rparr>]"]]]
  by (simp add: numeral_eq_Suc)

text \<open>A sharded update loads nothing: the receiver stores the shards and declares the buffer ready, but
  the updater reads the state dictionary, which was cleared and is never assembled from the shards.\<close>
theorem sharded_update_loads_nothing:
  assumes "recv_weights_sharded w r metas scattered b = Inr b'" "wb_ready b'"
  shows "weights_to_load b' = Inr []"
proof -
  have "wb_buffer b' = []"
    using assms(1) unfolding recv_weights_sharded_def Let_def
    by (auto simp: result_simps elim!: foldM_invariant [where I = "\<lambda>b. wb_buffer b = []"])
       (auto simp: wb_clear_def add_shard_def result_simps)
  with assms(2) show ?thesis
    by (simp add: weights_to_load_def get_state_dict_def is_numpy_state_dict_def entries_def)
qed

lemma sharded_update_loads_nothing_witness:
  "\<exists>b'. recv_weights_sharded 2 1 (snd (group_params_by_dtype demo_weights))
        (map (\<lambda>d. shards_of 2 0 (dict_get [] (fst (group_params_by_dtype demo_weights)) d)) [''bfloat16'', ''float32''])
        (new_weight_buffer ShardedWeightBuffer) = Inr b' \<and> wb_ready b' \<and> weights_to_load b' = Inr []"
proof -
  let ?r = "recv_weights_sharded 2 1 (snd (group_params_by_dtype demo_weights))
        (map (\<lambda>d. shards_of 2 0 (dict_get [] (fst (group_params_by_dtype demo_weights)) d)) [''bfloat16'', ''float32''])
        (new_weight_buffer ShardedWeightBuffer)"
  have "map_sum id wb_ready ?r = Inr True" by code_simp
  then obtain b' where "?r = Inr b'" "wb_ready b'" by (auto simp: map_sum_Inr_eq)
  with sharded_update_loads_nothing show ?thesis by blast
qed

subsection \<open>Offloading\<close>

text \<open>Parameters with elements come back from any number of offloads; the names are those of a module.\<close>

lemma offload_params_eq:
  assumes "dict_ok (of_params o1)"
  shows "of_params (offload_params o1) = map (\<lambda>(n, xs). (n, [])) (of_params o1)"
    "\<And>n. map_of (of_backup (offload_params o1)) n
       = (case map_of (of_params o1) n of Some (x # xs) \<Rightarrow> Some (x # xs) | _ \<Rightarrow> map_of (of_backup o1) n)"
proof -
  have loop: "fold (\<lambda>(n, xs) (ps, bk). if xs \<noteq> [] then (ps @ [(n, [])], AList.update n xs bk) else (ps @ [(n, xs)], bk)) qs (ps, bk)
      = (ps @ map (\<lambda>(n, xs). (n, [])) qs,
         fold (\<lambda>(n, xs) bk. if xs \<noteq> [] then AList.update n xs bk else bk) qs bk)"
    for qs ps and bk :: "(string, 'a list) dict"
    by (induction qs arbitrary: ps bk) auto
  have backup: "map_of (fold (\<lambda>(n, xs) bk. if xs \<noteq> [] then AList.update n xs bk else bk) qs bk) n
      = (case map_of qs n of Some (x # xs) \<Rightarrow> Some (x # xs) | _ \<Rightarrow> map_of bk n)"
    if "dict_ok qs" for qs n and bk :: "(string, 'a list) dict"
    using that
  proof (induction qs arbitrary: bk)
    case Nil
    then show ?case by simp
  next
    case (Cons q qs)
    obtain n' xs where q: "q = (n', xs)" by (cases q)
    have "map_of qs n' = None" using Cons.prems q by (simp add: map_of_eq_None_iff)
    with Cons q show ?case by (cases xs) (auto split: option.splits list.splits)
  qed
  show "of_params (offload_params o1) = map (\<lambda>(n, xs). (n, [])) (of_params o1)" by (simp add: offload_params_def loop)
  show "map_of (of_backup (offload_params o1)) n
       = (case map_of (of_params o1) n of Some (x # xs) \<Rightarrow> Some (x # xs) | _ \<Rightarrow> map_of (of_backup o1) n)" for n
    by (simp add: offload_params_def loop backup [OF assms])
qed

lemma reload_after_offload:
  assumes "dict_ok (of_params o1)" "\<forall>(n, xs) \<in> set (of_params o1). xs \<noteq> []"
  shows "of_params (reload_params (offload_params o1)) = of_params o1"
    "of_params (reload_params (offload_params (offload_params o1))) = of_params o1"
proof -
  let ?off = "offload_params o1"
  have ok: "dict_ok (of_params ?off)" using assms(1) by (simp add: offload_params_eq(1) [OF assms(1)] comp_def case_prod_beta')
  have twice: "of_params (offload_params ?off) = of_params ?off" "map_of (of_backup (offload_params ?off)) = map_of (of_backup ?off)"
    using offload_params_eq [OF ok] offload_params_eq(1) [OF assms(1)]
    by (auto simp: fun_eq_iff comp_def case_prod_beta' split: option.splits dest!: map_of_SomeD)
  have "dict_get [] (of_backup ?off) n = xs" if "(n, xs) \<in> set (of_params o1)" for n xs
  proof -
    have "map_of (of_params o1) n = Some xs" using that assms(1) by simp
    with offload_params_eq(2) [OF assms(1), of n] that assms(2) show ?thesis
      by (cases xs) (auto simp: dict_get_def)
  qed
  then show "of_params (reload_params ?off) = of_params o1"
    by (auto simp: reload_params_def offload_params_eq(1) [OF assms(1)] intro!: map_idI)
  moreover have "dict_get d (of_backup (offload_params ?off)) n = dict_get d (of_backup ?off) n" for d n
    by (simp only: dict_get_def twice(2))
  ultimately show "of_params (reload_params (offload_params ?off)) = of_params o1"
    by (simp add: reload_params_def twice(1) cong: if_cong)
qed

end
