(* ===== verification/Fair_Threads.thy ===== *)
theory Fair_Threads
  imports Main
begin

text \<open>
  Threads that share a state and are scheduled one atomic step at a time. A schedule names the thread
  that is given the next turn; a thread that is blocked or has ended lets its turn pass. The locale
  \<open>fair_threads\<close> is the contract under which every fair run ends: the working threads
  spend a measure, the background threads never give any back.
\<close>

definition turn :: "('t \<Rightarrow> 's \<Rightarrow> 's option) \<Rightarrow> 't \<Rightarrow> 's \<Rightarrow> 's" where
  "turn step t s = (case step t s of None \<Rightarrow> s | Some s' \<Rightarrow> s')"

primrec run_schedule :: "('t \<Rightarrow> 's \<Rightarrow> 's option) \<Rightarrow> (nat \<Rightarrow> 't) \<Rightarrow> 's \<Rightarrow> nat \<Rightarrow> 's" where
  "run_schedule step sched s 0 = s"
| "run_schedule step sched s (Suc n) = turn step (sched n) (run_schedule step sched s n)"

definition run_turns :: "('t \<Rightarrow> 's \<Rightarrow> 's option) \<Rightarrow> 't list \<Rightarrow> 's \<Rightarrow> 's" where
  "run_turns step ts s = fold (turn step) ts s"

lemma run_turns_simps:
  "run_turns step [] s = s"
  "run_turns step (t # ts) s = run_turns step ts (turn step t s)"
  "run_turns step (ts @ us) s = run_turns step us (run_turns step ts s)"
  by (simp_all add: run_turns_def)

definition fair :: "(nat \<Rightarrow> 't) \<Rightarrow> bool" where
  "fair sched \<longleftrightarrow> (\<forall>t n. \<exists>m \<ge> n. sched m = t)"

lemma fairD: "fair sched \<Longrightarrow> \<exists>m \<ge> n. sched m = t"
  by (simp add: fair_def)

lemma turn_Some: "step t s = Some s' \<Longrightarrow> turn step t s = s'"
  by (simp add: turn_def)

lemma turn_None: "step t s = None \<Longrightarrow> turn step t s = s"
  by (simp add: turn_def)

lemma turn_invariant:
  assumes "I s" "\<And>s'. step t s = Some s' \<Longrightarrow> I s'"
  shows "I (turn step t s)"
  using assms by (cases "step t s") (simp_all add: turn_def)

lemma run_schedule_invariant:
  assumes "I s" "\<And>t s s'. I s \<Longrightarrow> step t s = Some s' \<Longrightarrow> I s'"
  shows "I (run_schedule step sched s n)"
  by (induction n) (auto intro: assms turn_invariant)

lemma run_schedule_add:
  "run_schedule step sched s (m + n) = run_schedule step (\<lambda>i. sched (m + i)) (run_schedule step sched s m) n"
  by (induction n) simp_all

lemma run_schedule_stays:
  assumes inv: "\<And>n. I (run_schedule step sched s n)"
    and step: "\<And>t s s'. I s \<Longrightarrow> P s \<Longrightarrow> step t s = Some s' \<Longrightarrow> P s'"
    and here: "P (run_schedule step sched s n)" and le: "n \<le> m"
  shows "P (run_schedule step sched s m)"
  using le
proof (induction m rule: dec_induct)
  case (step m)
  then show ?case using assms(2) [OF inv [of m]] by (auto intro: turn_invariant)
qed (rule here)

lemma fair_shift: "fair sched \<Longrightarrow> fair (\<lambda>i. sched (k + i))"
  unfolding fair_def
proof (intro allI)
  fix t n assume "\<forall>t n. \<exists>m \<ge> n. sched m = t"
  then obtain m where "n + k \<le> m" "sched m = t" by blast
  then show "\<exists>m' \<ge> n. sched (k + m') = t" by (intro exI [of _ "m - k"]) simp
qed

text \<open>A thread that keeps being enabled until its turn gets one.\<close>

lemma first_turn:
  assumes "fair sched"
  obtains m where "n \<le> m" "sched m = t" "\<And>i. n \<le> i \<Longrightarrow> i < m \<Longrightarrow> sched i \<noteq> t"
proof -
  let ?P = "\<lambda>m. n \<le> m \<and> sched m = t"
  have "\<exists>m. ?P m" using fairD [OF assms] by blast
  then have "?P (LEAST m. ?P m)" by (rule LeastI_ex)
  moreover have "\<And>i. n \<le> i \<Longrightarrow> i < (LEAST m. ?P m) \<Longrightarrow> sched i \<noteq> t" using not_less_Least by blast
  ultimately show thesis using that by blast
qed

subsection \<open>Measures that only go down\<close>

lemma nonincreasing_constant:
  fixes f :: "nat \<Rightarrow> nat"
  assumes "\<And>n. f (Suc n) \<le> f n"
  obtains k where "\<And>n. k \<le> n \<Longrightarrow> f n = f k"
proof -
  have mono: "f (m + d) \<le> f m" for m d by (induction d) (auto intro: order_trans assms)
  let ?v = "LEAST v. \<exists>n. f n = v"
  obtain k where k: "f k = ?v" using LeastI [of "\<lambda>v. \<exists>n. f n = v" "f 0"] by blast
  have "f n = f k" if "k \<le> n" for n
    using mono [of k "n - k"] that Least_le [of "\<lambda>v. \<exists>n. f n = v" "f n"] k by force
  then show thesis using that by blast
qed

locale fair_threads =
  fixes step :: "'t \<Rightarrow> 's \<Rightarrow> 's option"
    and inv :: "'s \<Rightarrow> bool"
    and ready :: "'s \<Rightarrow> bool"
    and background :: "'t \<Rightarrow> bool"
    and spent :: "'s \<Rightarrow> nat"
    and goal :: "'s \<Rightarrow> bool"
  assumes work: "inv s \<Longrightarrow> \<not> goal s \<Longrightarrow> \<not> background t \<Longrightarrow> step t s = Some s' \<Longrightarrow> spent s' < spent s"
    and idle: "inv s \<Longrightarrow> \<not> goal s \<Longrightarrow> background t \<Longrightarrow> step t s = Some s' \<Longrightarrow> spent s' \<le> spent s"
    and enabled: "inv s \<Longrightarrow> ready s \<Longrightarrow> \<not> goal s \<Longrightarrow> \<exists>t. \<not> background t \<and> step t s \<noteq> None"
    and undisturbed: "inv s \<Longrightarrow> \<not> goal s \<Longrightarrow> ready s' \<Longrightarrow> background b \<Longrightarrow> step b s = Some s' \<Longrightarrow> \<not> background t
          \<Longrightarrow> step t s \<noteq> None \<Longrightarrow> step t s' \<noteq> None"
begin

lemma spent_le: "inv s \<Longrightarrow> \<not> goal s \<Longrightarrow> spent (turn step t s) \<le> spent s"
proof (cases "step t s")
  case (Some s')
  assume "inv s" "\<not> goal s"
  then show ?thesis using Some work [of s t s'] idle [of s t s'] by (cases "background t") (simp_all add: turn_def)
qed (simp add: turn_def)

theorem reaches_goal:
  assumes fair: "fair sched" and inv: "\<And>n. inv (run_schedule step sched s n)"
    and ready: "\<And>n. N \<le> n \<Longrightarrow> ready (run_schedule step sched s n)"
  shows "\<exists>n. goal (run_schedule step sched s n)"
proof (rule ccontr)
  let ?run = "run_schedule step sched s"
  assume "\<nexists>n. goal (?run n)"
  then have none: "\<not> goal (?run n)" for n by blast
  have mono: "spent (?run (Suc n)) \<le> spent (?run n)" for n using spent_le [OF inv] none by simp
  obtain k where k: "\<And>n. k \<le> n \<Longrightarrow> spent (?run n) = spent (?run k)"
    using nonincreasing_constant [of "\<lambda>n. spent (?run n)", OF mono] by blast
  define M where "M = max k N"
  obtain t where t: "\<not> background t" "step t (?run M) \<noteq> None"
    using enabled [OF inv [of M]] ready [of M] none unfolding M_def by (meson max.cobounded2)
  obtain m where m: "M \<le> m" "sched m = t" "\<And>i. M \<le> i \<Longrightarrow> i < m \<Longrightarrow> sched i \<noteq> t"
    using first_turn [OF fair] by blast
  have still: "step t (?run (M + d)) \<noteq> None" if "M + d \<le> m" for d
    using that
  proof (induction d)
    case (Suc d)
    let ?s = "?run (M + d)" and ?b = "sched (M + d)"
    have e: "step t ?s \<noteq> None" using Suc by simp
    show ?case
    proof (cases "step ?b ?s")
      case (Some s')
      have run: "?run (M + Suc d) = s'" using Some by (simp add: turn_def)
      have "spent s' = spent ?s"
        using k [of "M + d"] k [of "M + Suc d"] unfolding run by (simp add: M_def)
      then have "background ?b" using work [OF inv none _ Some] by (metis less_irrefl)
      moreover have "ready s'" using ready [of "M + Suc d"] unfolding run by (simp add: M_def)
      ultimately show ?thesis using undisturbed [OF inv none _ _ Some t(1) e] unfolding run by blast
    qed (use e in \<open>simp add: turn_def\<close>)
  qed (use t in simp)
  obtain s' where s': "step t (?run m) = Some s'" using still [of "m - M"] m(1) by auto
  then have "?run (Suc m) = s'" by (simp add: turn_def m(2))
  moreover have "spent s' < spent (?run m)" using work [OF inv none t(1) s'] .
  ultimately show False using k [of m] k [of "Suc m"] m(1) by (simp add: M_def)
qed

end

end
