(* ===== verification/Async_Engine.thy ===== *)
theory Async_Engine
  imports Fair_Threads
begin

text \<open>
  \<open>rlightning/engine/async_rl_engine.py\<close>: the \<open>AsyncCoordinator\<close> and the four threads that
  \<open>AsyncRLEngine.run\<close> starts. Every operation on an event is a step of its own, since \<open>wait\<close>
  and \<open>clear\<close> are two calls. What a call of the user's code does is a parameter: whether its k-th call
  raises, and how much the buffer holds after k iterations of the rollout.
\<close>

subsection \<open>The coordinator\<close>

record coordinator =
  done_event :: bool
  update_event :: bool
  sync_event :: bool
  weights_event :: bool
  dataset_event :: bool

definition new_coordinator :: coordinator where
  "new_coordinator = \<lparr>done_event = False, update_event = False, sync_event = False, weights_event = False,
     dataset_event = False\<rparr>"

text \<open>The calls of \<open>start\<close> and \<open>stop\<close>, in their order.\<close>

definition start_calls :: "(coordinator \<Rightarrow> coordinator) list" where
  "start_calls =
     [done_event_update (\<lambda>_. False), update_event_update (\<lambda>_. True), sync_event_update (\<lambda>_. False),
      weights_event_update (\<lambda>_. True), dataset_event_update (\<lambda>_. False)]"

definition stop_calls :: "(coordinator \<Rightarrow> coordinator) list" where
  "stop_calls =
     [done_event_update (\<lambda>_. True), update_event_update (\<lambda>_. True), sync_event_update (\<lambda>_. True),
      weights_event_update (\<lambda>_. True), dataset_event_update (\<lambda>_. True)]"

definition is_running :: "coordinator \<Rightarrow> bool" where
  "is_running c \<longleftrightarrow> \<not> done_event c"

subsection \<open>The threads\<close>

text \<open>
  Where a thread is. The train thread is in \<open>start\<close>, in the loop at an epoch, or in \<open>stop\<close>; the
  waits are split in the wait and the clearing of the event.
\<close>

datatype train_pc =
    TStart nat | TEpoch nat | TWaitData nat | TClearData nat | TWaitWeights nat | TClearWeights nat
  | TTrain nat | TSave nat | TNotifyUpdate nat | TNotifySync nat | TStop nat | TEnd

datatype update_pc = UCheck | UWait | UClear | URecheck | UHook | UUpdate | UNotify | UEnd

datatype sync_pc = SCheck | SWait | SClear | SRecheck | SSync | SNotify | SEnd

datatype rollout_pc = RCheck | RWork | REnd

record engine_params =
  max_epochs :: nat
  save_interval :: int
  batch_size :: nat
  buffer_size :: "nat \<Rightarrow> nat"
  train_raises :: "nat \<Rightarrow> bool"
  update_raises :: "nat \<Rightarrow> bool"
  sync_raises :: "nat \<Rightarrow> bool"
  rollout_raises :: "nat \<Rightarrow> bool"

text \<open>
  The state: the events, the threads, and how often each of the user's calls has finished.
\<close>

record engine =
  coord :: coordinator
  train_at :: train_pc
  update_at :: update_pc
  sync_at :: sync_pc
  rollout_at :: rollout_pc
  trained :: nat
  updated :: nat
  synced :: nat
  rollouts :: nat
  saved :: "nat list"

definition init_engine :: engine where
  "init_engine = \<lparr>coord = new_coordinator, train_at = TStart 0, update_at = UCheck, sync_at = SCheck,
     rollout_at = RCheck, trained = 0, updated = 0, synced = 0, rollouts = 0, saved = []\<rparr>"

definition saves_at :: "engine_params \<Rightarrow> nat \<Rightarrow> bool" where
  "saves_at p e \<longleftrightarrow> 0 < save_interval p \<and> int e mod save_interval p = 0"

text \<open>\<open>_train_loop\<close>: an exception of \<open>_train\<close> goes through \<open>finally\<close> to \<open>stop\<close>.\<close>

definition train_step :: "engine_params \<Rightarrow> engine \<Rightarrow> engine option" where
  "train_step p s =
     (let c = coord s in
      case train_at s of
        TStart k \<Rightarrow> Some (s\<lparr>coord := (start_calls ! k) c,
                            train_at := if Suc k < length start_calls then TStart (Suc k) else TEpoch 0\<rparr>)
      | TEpoch e \<Rightarrow> Some (s\<lparr>train_at := if e < max_epochs p then TWaitData e else TStop 0\<rparr>)
      | TWaitData e \<Rightarrow> if dataset_event c then Some (s\<lparr>train_at := TClearData e\<rparr>) else None
      | TClearData e \<Rightarrow> Some (s\<lparr>coord := c\<lparr>dataset_event := False\<rparr>, train_at := TWaitWeights e\<rparr>)
      | TWaitWeights e \<Rightarrow> if weights_event c then Some (s\<lparr>train_at := TClearWeights e\<rparr>) else None
      | TClearWeights e \<Rightarrow> Some (s\<lparr>coord := c\<lparr>weights_event := False\<rparr>, train_at := TTrain e\<rparr>)
      | TTrain e \<Rightarrow> Some (if train_raises p e then s\<lparr>train_at := TStop 0\<rparr>
                          else s\<lparr>trained := Suc (trained s), train_at := TSave e\<rparr>)
      | TSave e \<Rightarrow> Some (s\<lparr>saved := saved s @ (if saves_at p e then [e] else []), train_at := TNotifyUpdate e\<rparr>)
      | TNotifyUpdate e \<Rightarrow> Some (s\<lparr>coord := c\<lparr>update_event := True\<rparr>, train_at := TNotifySync e\<rparr>)
      | TNotifySync e \<Rightarrow> Some (s\<lparr>coord := c\<lparr>sync_event := True\<rparr>, train_at := TEpoch (Suc e)\<rparr>)
      | TStop k \<Rightarrow> Some (s\<lparr>coord := (stop_calls ! k) c,
                           train_at := if Suc k < length stop_calls then TStop (Suc k) else TEnd\<rparr>)
      | TEnd \<Rightarrow> None)"

text \<open>
  \<open>_update_dataset_loop\<close> with \<open>_pre_update_dataset_hook\<close>, which polls the size of the buffer: a poll
  that has to go on waits here for its next turn.
\<close>

definition enough_data :: "engine_params \<Rightarrow> engine \<Rightarrow> bool" where
  "enough_data p s \<longleftrightarrow> batch_size p \<le> buffer_size p (rollouts s)"

definition update_step :: "engine_params \<Rightarrow> engine \<Rightarrow> engine option" where
  "update_step p s =
     (let c = coord s in
      case update_at s of
        UCheck \<Rightarrow> Some (s\<lparr>update_at := if is_running c then UWait else UEnd\<rparr>)
      | UWait \<Rightarrow> if update_event c then Some (s\<lparr>update_at := UClear\<rparr>) else None
      | UClear \<Rightarrow> Some (s\<lparr>coord := c\<lparr>update_event := False\<rparr>, update_at := URecheck\<rparr>)
      | URecheck \<Rightarrow> Some (s\<lparr>update_at := if is_running c then UHook else UEnd\<rparr>)
      | UHook \<Rightarrow> if enough_data p s \<or> \<not> is_running c then Some (s\<lparr>update_at := UUpdate\<rparr>) else None
      | UUpdate \<Rightarrow> Some (if update_raises p (updated s) then s\<lparr>update_at := UEnd\<rparr>
                         else s\<lparr>updated := Suc (updated s), update_at := UNotify\<rparr>)
      | UNotify \<Rightarrow> Some (s\<lparr>coord := c\<lparr>dataset_event := True\<rparr>, update_at := UCheck\<rparr>)
      | UEnd \<Rightarrow> None)"

definition sync_step :: "engine_params \<Rightarrow> engine \<Rightarrow> engine option" where
  "sync_step p s =
     (let c = coord s in
      case sync_at s of
        SCheck \<Rightarrow> Some (s\<lparr>sync_at := if is_running c then SWait else SEnd\<rparr>)
      | SWait \<Rightarrow> if sync_event c then Some (s\<lparr>sync_at := SClear\<rparr>) else None
      | SClear \<Rightarrow> Some (s\<lparr>coord := c\<lparr>sync_event := False\<rparr>, sync_at := SRecheck\<rparr>)
      | SRecheck \<Rightarrow> Some (s\<lparr>sync_at := if is_running c then SSync else SEnd\<rparr>)
      | SSync \<Rightarrow> Some (if sync_raises p (synced s) then s\<lparr>sync_at := SEnd\<rparr>
                       else s\<lparr>synced := Suc (synced s), sync_at := SNotify\<rparr>)
      | SNotify \<Rightarrow> Some (s\<lparr>coord := c\<lparr>weights_event := True\<rparr>, sync_at := SCheck\<rparr>)
      | SEnd \<Rightarrow> None)"

definition rollout_step :: "engine_params \<Rightarrow> engine \<Rightarrow> engine option" where
  "rollout_step p s =
     (case rollout_at s of
        RCheck \<Rightarrow> Some (s\<lparr>rollout_at := if is_running (coord s) then RWork else REnd\<rparr>)
      | RWork \<Rightarrow> Some (if rollout_raises p (rollouts s) then s\<lparr>rollout_at := REnd\<rparr>
                       else s\<lparr>rollouts := Suc (rollouts s), rollout_at := RCheck\<rparr>)
      | REnd \<Rightarrow> None)"

datatype engine_thread = RolloutT | UpdateT | TrainT | SyncT

definition engine_step :: "engine_params \<Rightarrow> engine_thread \<Rightarrow> engine \<Rightarrow> engine option" where
  "engine_step p t s =
     (case t of RolloutT \<Rightarrow> rollout_step p s | UpdateT \<Rightarrow> update_step p s
      | TrainT \<Rightarrow> train_step p s | SyncT \<Rightarrow> sync_step p s)"

text \<open>\<open>run\<close> returns when every thread has ended, and then saves the last checkpoint.\<close>

definition run_returns :: "engine \<Rightarrow> bool" where
  "run_returns s \<longleftrightarrow> train_at s = TEnd \<and> update_at s = UEnd \<and> sync_at s = SEnd \<and> rollout_at s = REnd"

inductive engine_reachable :: "engine_params \<Rightarrow> engine \<Rightarrow> bool" for p where
  engine_init: "engine_reachable p init_engine"
| engine_turn: "engine_reachable p s \<Longrightarrow> engine_step p t s = Some s' \<Longrightarrow> engine_reachable p s'"

end
