(* ===== verification/Async_Invariants.thy ===== *)
theory Async_Invariants
  imports Async_Engine
begin

text \<open>
  What holds in every reachable state of the asynchronous engine, whatever the interleaving: the places
  of the threads fit the counters, and the events hand at most one permission to update the dataset and
  at most one permission to synchronise the weights around.
\<close>

subsection \<open>Well formed states\<close>

fun stopping :: "train_pc \<Rightarrow> bool" where
  "stopping (TStop k) = (0 < k)"
| "stopping TEnd = True"
| "stopping _ = False"

text \<open>How many epochs are trained when the train thread is at a place of the loop, and how many saved.\<close>

fun trained_at :: "engine_params \<Rightarrow> train_pc \<Rightarrow> nat \<Rightarrow> bool" where
  "trained_at p (TStart k) n = (k < length start_calls \<and> n = 0)"
| "trained_at p (TEpoch e) n = (n = e \<and> e \<le> max_epochs p)"
| "trained_at p (TWaitData e) n = (n = e \<and> e < max_epochs p)"
| "trained_at p (TClearData e) n = (n = e \<and> e < max_epochs p)"
| "trained_at p (TWaitWeights e) n = (n = e \<and> e < max_epochs p)"
| "trained_at p (TClearWeights e) n = (n = e \<and> e < max_epochs p)"
| "trained_at p (TTrain e) n = (n = e \<and> e < max_epochs p)"
| "trained_at p (TSave e) n = (n = Suc e \<and> e < max_epochs p)"
| "trained_at p (TNotifyUpdate e) n = (n = Suc e \<and> e < max_epochs p)"
| "trained_at p (TNotifySync e) n = (n = Suc e \<and> e < max_epochs p)"
| "trained_at p (TStop k) n = (k < length stop_calls \<and> n \<le> max_epochs p
     \<and> (n = max_epochs p \<or> train_raises p n))"
| "trained_at p TEnd n = (n \<le> max_epochs p \<and> (n = max_epochs p \<or> train_raises p n))"

fun saved_upto :: "train_pc \<Rightarrow> nat \<Rightarrow> nat" where
  "saved_upto (TSave e) n = e"
| "saved_upto _ n = n"

definition well_formed :: "engine_params \<Rightarrow> engine \<Rightarrow> bool" where
  "well_formed p s \<longleftrightarrow> trained_at p (train_at s) (trained s)
     \<and> done_event (coord s) = stopping (train_at s)
     \<and> saved s = filter (saves_at p) [0..<saved_upto (train_at s) (trained s)]"

lemma coord_calls:
  "length start_calls = 5" "length stop_calls = 5"
  by (simp_all add: start_calls_def stop_calls_def)

lemma train_step_well_formed:
  assumes "well_formed p s" "train_step p s = Some s'"
  shows "well_formed p s'"
proof (cases "train_at s")
  case (TStart k)
  with assms have "k < 5" by (simp add: well_formed_def coord_calls)
  then have "k \<in> {0, 1, 2, 3, 4}" by auto
  then show ?thesis using assms TStart by (auto simp: well_formed_def train_step_def Let_def start_calls_def)
next
  case (TStop k)
  with assms have "k < 5" by (simp add: well_formed_def coord_calls)
  then have "k \<in> {0, 1, 2, 3, 4}" by auto
  then show ?thesis using assms TStop by (auto simp: well_formed_def train_step_def Let_def stop_calls_def)
qed (use assms in \<open>auto simp: well_formed_def train_step_def Let_def coord_calls split: if_splits\<close>)

lemma other_steps_keep:
  "update_step p s = Some s' \<Longrightarrow> train_at s' = train_at s \<and> trained s' = trained s \<and> saved s' = saved s
     \<and> synced s' = synced s \<and> sync_at s' = sync_at s \<and> rollout_at s' = rollout_at s \<and> rollouts s' = rollouts s
     \<and> done_event (coord s') = done_event (coord s) \<and> sync_event (coord s') = sync_event (coord s)
     \<and> weights_event (coord s') = weights_event (coord s)"
  "sync_step p s = Some s' \<Longrightarrow> train_at s' = train_at s \<and> trained s' = trained s \<and> saved s' = saved s
     \<and> updated s' = updated s \<and> update_at s' = update_at s \<and> rollout_at s' = rollout_at s \<and> rollouts s' = rollouts s
     \<and> done_event (coord s') = done_event (coord s) \<and> update_event (coord s') = update_event (coord s)
     \<and> dataset_event (coord s') = dataset_event (coord s)"
  "rollout_step p s = Some s' \<Longrightarrow> train_at s' = train_at s \<and> trained s' = trained s \<and> saved s' = saved s
     \<and> updated s' = updated s \<and> update_at s' = update_at s \<and> synced s' = synced s \<and> sync_at s' = sync_at s
     \<and> coord s' = coord s"
  by (auto simp: update_step_def sync_step_def rollout_step_def Let_def
      split: update_pc.splits sync_pc.splits rollout_pc.splits if_splits)

lemma well_formed_step:
  assumes "well_formed p s" "engine_step p t s = Some s'"
  shows "well_formed p s'"
proof (cases t)
  case TrainT
  then show ?thesis using train_step_well_formed assms by (simp add: engine_step_def)
next
  case UpdateT
  then show ?thesis using assms other_steps_keep(1) [of p s s'] by (simp add: engine_step_def well_formed_def)
next
  case SyncT
  then show ?thesis using assms other_steps_keep(2) [of p s s'] by (simp add: engine_step_def well_formed_def)
next
  case RolloutT
  then show ?thesis using assms other_steps_keep(3) [of p s s'] by (simp add: engine_step_def well_formed_def)
qed

lemma well_formed_init: "well_formed p init_engine"
  by (simp add: well_formed_def init_engine_def new_coordinator_def coord_calls)

subsection \<open>The permission to update the dataset\<close>

fun update_holds :: "update_pc \<Rightarrow> bool" where
  "update_holds URecheck = True"
| "update_holds UHook = True"
| "update_holds UUpdate = True"
| "update_holds _ = False"

fun train_has_data :: "train_pc \<Rightarrow> bool" where
  "train_has_data (TWaitWeights e) = True"
| "train_has_data (TClearWeights e) = True"
| "train_has_data (TTrain e) = True"
| "train_has_data _ = False"

fun train_used_data :: "train_pc \<Rightarrow> bool" where
  "train_used_data (TSave e) = True"
| "train_used_data (TNotifyUpdate e) = True"
| "train_used_data _ = False"

fun clears_data :: "train_pc \<Rightarrow> bool" where
  "clears_data (TClearData e) = True"
| "clears_data _ = False"

fun before_permit :: "train_pc \<Rightarrow> bool" where
  "before_permit (TStart k) = (k \<le> 1)"
| "before_permit _ = False"

text \<open>
  While the engine runs, at most one of these holds: an update is permitted, under way, or announced; a
  dataset is ready, taken, or used. The counters tell which.
\<close>

definition data_inv :: "engine \<Rightarrow> bool" where
  "data_inv s \<longleftrightarrow> (update_at s = UClear \<longrightarrow> update_event (coord s))
     \<and> (clears_data (train_at s) \<longrightarrow> dataset_event (coord s))
     \<and> (before_permit (train_at s) \<longrightarrow> \<not> update_event (coord s) \<and> \<not> dataset_event (coord s)
          \<and> \<not> update_holds (update_at s) \<and> update_at s \<noteq> UNotify \<and> updated s = trained s)
     \<and> trained s \<le> updated s \<and> updated s \<le> Suc (trained s)
     \<and> (stopping (train_at s) \<longrightarrow> update_at s \<in> {UHook, UUpdate} \<longrightarrow> updated s = trained s)
     \<and> (\<not> stopping (train_at s) \<longrightarrow>
          (update_event (coord s) \<longrightarrow> \<not> update_holds (update_at s) \<and> update_at s \<noteq> UNotify
             \<and> \<not> dataset_event (coord s) \<and> updated s = trained s)
          \<and> (update_holds (update_at s) \<longrightarrow> \<not> dataset_event (coord s) \<and> updated s = trained s)
          \<and> (update_at s = UNotify \<longrightarrow> \<not> dataset_event (coord s) \<and> updated s = Suc (trained s))
          \<and> (dataset_event (coord s) \<longrightarrow> updated s = Suc (trained s))
          \<and> (train_has_data (train_at s) \<longrightarrow> \<not> update_event (coord s) \<and> \<not> update_holds (update_at s)
             \<and> update_at s \<noteq> UNotify \<and> \<not> dataset_event (coord s) \<and> updated s = Suc (trained s))
          \<and> (train_used_data (train_at s) \<longrightarrow> \<not> update_event (coord s) \<and> \<not> update_holds (update_at s)
             \<and> update_at s \<noteq> UNotify \<and> \<not> dataset_event (coord s) \<and> updated s = trained s))"

lemma hook_holds: "u = UHook \<or> u = UUpdate \<Longrightarrow> update_holds u"
  by auto

lemma before_permit_running: "before_permit a \<Longrightarrow> \<not> stopping a"
  by (cases a) auto

lemma data_inv_train:
  assumes wf: "well_formed p s" and inv: "data_inv s" and step: "train_step p s = Some s'"
  shows "data_inv s'"
proof (cases "train_at s")
  case (TStart k)
  with wf have "k < 5" by (simp add: well_formed_def coord_calls)
  then have "k \<in> {0, 1, 2, 3, 4}" by auto
  then show ?thesis using inv step TStart
    by (elim insertE emptyE) (clarsimp simp: data_inv_def train_step_def Let_def start_calls_def)+
next
  case (TStop k)
  with wf have "k < 5" by (simp add: well_formed_def coord_calls)
  then have "k \<in> {0, 1, 2, 3, 4}" by auto
  then show ?thesis using inv step TStop hook_holds [of "update_at s"]
    by (elim insertE emptyE) (clarsimp simp: data_inv_def train_step_def Let_def stop_calls_def)+
qed (use inv step hook_holds [of "update_at s"] in
      \<open>clarsimp simp: data_inv_def train_step_def Let_def split: if_splits\<close>)+

lemma running_iff: "well_formed p s \<Longrightarrow> is_running (coord s) \<longleftrightarrow> \<not> stopping (train_at s)"
  by (simp add: well_formed_def is_running_def)

lemma data_inv_update:
  assumes wf: "well_formed p s" and inv: "data_inv s" and step: "update_step p s = Some s'"
  shows "data_inv s'"
proof (cases "stopping (train_at s)")
  case True
  then have "\<not> before_permit (train_at s)" "\<not> is_running (coord s)"
    using before_permit_running running_iff [OF wf] by blast+
  with True inv step show ?thesis
    by (cases "update_at s") (simp_all add: data_inv_def update_step_def Let_def split: if_splits; clarsimp)+
next
  case False
  then have "is_running (coord s)" using running_iff [OF wf] by blast
  with False inv step show ?thesis
    by (cases "update_at s") (simp_all add: data_inv_def update_step_def Let_def split: if_splits; clarsimp)+
qed

lemma data_inv_init: "data_inv init_engine"
  by (simp add: data_inv_def init_engine_def new_coordinator_def)

subsection \<open>The permission to synchronise the weights\<close>

fun sync_holds :: "sync_pc \<Rightarrow> bool" where
  "sync_holds SRecheck = True"
| "sync_holds SSync = True"
| "sync_holds _ = False"

fun train_has_weights :: "train_pc \<Rightarrow> bool" where
  "train_has_weights (TTrain e) = True"
| "train_has_weights _ = False"

fun train_used_weights :: "train_pc \<Rightarrow> bool" where
  "train_used_weights (TSave e) = True"
| "train_used_weights (TNotifyUpdate e) = True"
| "train_used_weights (TNotifySync e) = True"
| "train_used_weights _ = False"

fun clears_weights :: "train_pc \<Rightarrow> bool" where
  "clears_weights (TClearWeights e) = True"
| "clears_weights _ = False"

fun before_weights :: "train_pc \<Rightarrow> bool" where
  "before_weights (TStart k) = (k \<le> 3)"
| "before_weights _ = False"

definition sync_inv :: "engine \<Rightarrow> bool" where
  "sync_inv s \<longleftrightarrow> (sync_at s = SClear \<longrightarrow> sync_event (coord s))
     \<and> (clears_weights (train_at s) \<longrightarrow> weights_event (coord s))
     \<and> (before_weights (train_at s) \<longrightarrow> \<not> weights_event (coord s) \<and> \<not> sync_event (coord s)
          \<and> \<not> sync_holds (sync_at s) \<and> sync_at s \<noteq> SNotify \<and> trained s = synced s)
     \<and> synced s \<le> trained s \<and> trained s \<le> Suc (synced s)
     \<and> (stopping (train_at s) \<longrightarrow> sync_at s = SSync \<longrightarrow> trained s = Suc (synced s))
     \<and> (\<not> stopping (train_at s) \<longrightarrow>
          (weights_event (coord s) \<longrightarrow> \<not> sync_holds (sync_at s) \<and> sync_at s \<noteq> SNotify
             \<and> \<not> sync_event (coord s) \<and> trained s = synced s)
          \<and> (sync_holds (sync_at s) \<longrightarrow> \<not> sync_event (coord s) \<and> trained s = Suc (synced s))
          \<and> (sync_at s = SNotify \<longrightarrow> \<not> sync_event (coord s) \<and> trained s = synced s)
          \<and> (sync_event (coord s) \<longrightarrow> trained s = Suc (synced s))
          \<and> (train_has_weights (train_at s) \<longrightarrow> \<not> weights_event (coord s) \<and> \<not> sync_holds (sync_at s)
             \<and> sync_at s \<noteq> SNotify \<and> \<not> sync_event (coord s) \<and> trained s = synced s)
          \<and> (train_used_weights (train_at s) \<longrightarrow> \<not> weights_event (coord s) \<and> \<not> sync_holds (sync_at s)
             \<and> sync_at s \<noteq> SNotify \<and> \<not> sync_event (coord s) \<and> trained s = Suc (synced s)))"

lemma before_weights_running: "before_weights a \<Longrightarrow> \<not> stopping a"
  by (cases a) auto

lemma ssync_holds: "u = SSync \<Longrightarrow> sync_holds u"
  by simp

lemma sync_inv_train:
  assumes wf: "well_formed p s" and inv: "sync_inv s" and step: "train_step p s = Some s'"
  shows "sync_inv s'"
proof (cases "train_at s")
  case (TStart k)
  with wf have "k < 5" by (simp add: well_formed_def coord_calls)
  then have "k \<in> {0, 1, 2, 3, 4}" by auto
  then show ?thesis using inv step TStart
    by (elim insertE emptyE) (clarsimp simp: sync_inv_def train_step_def Let_def start_calls_def)+
next
  case (TStop k)
  with wf have "k < 5" by (simp add: well_formed_def coord_calls)
  then have "k \<in> {0, 1, 2, 3, 4}" by auto
  then show ?thesis using inv step TStop ssync_holds [of "sync_at s"]
    by (elim insertE emptyE) (clarsimp simp: sync_inv_def train_step_def Let_def stop_calls_def)+
qed (use inv step ssync_holds [of "sync_at s"] in
      \<open>clarsimp simp: sync_inv_def train_step_def Let_def split: if_splits\<close>)+

lemma sync_inv_sync:
  assumes wf: "well_formed p s" and inv: "sync_inv s" and step: "sync_step p s = Some s'"
  shows "sync_inv s'"
proof (cases "stopping (train_at s)")
  case True
  then have "\<not> before_weights (train_at s)" "\<not> is_running (coord s)"
    using before_weights_running running_iff [OF wf] by blast+
  with True inv step show ?thesis
    by (cases "sync_at s") (simp_all add: sync_inv_def sync_step_def Let_def split: if_splits; clarsimp)+
next
  case False
  then have "is_running (coord s)" using running_iff [OF wf] by blast
  with False inv step show ?thesis
    by (cases "sync_at s") (simp_all add: sync_inv_def sync_step_def Let_def split: if_splits; clarsimp)+
qed

lemma sync_inv_init: "sync_inv init_engine"
  by (simp add: sync_inv_def init_engine_def new_coordinator_def)

subsection \<open>Reachable states\<close>

definition engine_inv :: "engine_params \<Rightarrow> engine \<Rightarrow> bool" where
  "engine_inv p s \<longleftrightarrow> well_formed p s \<and> data_inv s \<and> sync_inv s"

lemma engine_inv_init: "engine_inv p init_engine"
  by (simp add: engine_inv_def well_formed_init data_inv_init sync_inv_init)

lemma engine_inv_step:
  assumes inv: "engine_inv p s" and step: "engine_step p t s = Some s'"
  shows "engine_inv p s'"
proof -
  have wf: "well_formed p s'" using well_formed_step [OF _ step] inv by (simp add: engine_inv_def)
  have parts: "well_formed p s" "data_inv s" "sync_inv s" using inv by (simp_all add: engine_inv_def)
  show ?thesis
  proof (cases t)
    case TrainT
    then have "train_step p s = Some s'" using step by (simp add: engine_step_def)
    then show ?thesis using wf data_inv_train [OF parts(1,2)] sync_inv_train [OF parts(1,3)] by (simp add: engine_inv_def)
  next
    case UpdateT
    then have u: "update_step p s = Some s'" using step by (simp add: engine_step_def)
    have "sync_inv s'" using parts(3) other_steps_keep(1) [OF u] by (simp add: sync_inv_def)
    then show ?thesis using wf data_inv_update [OF parts(1,2) u] by (simp add: engine_inv_def)
  next
    case SyncT
    then have u: "sync_step p s = Some s'" using step by (simp add: engine_step_def)
    have "data_inv s'" using parts(2) other_steps_keep(2) [OF u] by (simp add: data_inv_def)
    then show ?thesis using wf sync_inv_sync [OF parts(1,3) u] by (simp add: engine_inv_def)
  next
    case RolloutT
    then have u: "rollout_step p s = Some s'" using step by (simp add: engine_step_def)
    have "data_inv s'" "sync_inv s'" using parts(2,3) other_steps_keep(3) [OF u] by (simp_all add: data_inv_def sync_inv_def)
    then show ?thesis using wf by (simp add: engine_inv_def)
  qed
qed

lemma reachable_inv: "engine_reachable p s \<Longrightarrow> engine_inv p s"
  by (induction rule: engine_reachable.induct) (auto intro: engine_inv_init engine_inv_step)

lemma reachable_parts:
  assumes "engine_reachable p s"
  shows "well_formed p s" "data_inv s" "sync_inv s"
  using reachable_inv [OF assms] by (simp_all add: engine_inv_def)

lemma run_turns_reachable: "engine_reachable p s \<Longrightarrow> engine_reachable p (run_turns (engine_step p) ts s)"
proof (induction ts arbitrary: s)
  case (Cons t ts)
  have "engine_reachable p (turn (engine_step p) t s)"
    using Cons.prems by (rule turn_invariant) (rule engine_turn [OF Cons.prems])
  then show ?case using Cons.IH by (simp add: run_turns_def)
qed (simp add: run_turns_def)

end
