(* ===== verification/Async_Safety.thy ===== *)
theory Async_Safety
  imports Async_Invariants
begin

text \<open>
  What the coordinator promises: training, updating the dataset and synchronising the weights take turns
  as in the rounds below. And two ways in which \<open>run\<close> never returns.
\<close>

text \<open>Where a permission to update the dataset, or the dataset it became, can be: in the event that permits the
  update, with the update thread, in the event of a ready dataset, with the train thread before training, and with
  the train thread until it permits the next update. And the same for the synchronisation of the weights.\<close>

definition data_tokens :: "engine \<Rightarrow> bool list" where
  "data_tokens s = [update_event (coord s), update_holds (update_at s), update_at s = UNotify, dataset_event (coord s),
     train_has_data (train_at s), train_used_data (train_at s)]"

definition sync_tokens :: "engine \<Rightarrow> bool list" where
  "sync_tokens s = [sync_event (coord s), sync_holds (sync_at s), sync_at s = SNotify, weights_event (coord s),
     train_has_weights (train_at s), train_used_weights (train_at s)]"

definition at_most_one :: "bool list \<Rightarrow> bool" where
  "at_most_one bs \<longleftrightarrow> length (filter id bs) \<le> 1"

text \<open>A thread has its event when it is about to clear it, and ends only when the engine is done or its call raised.\<close>

definition waits_ok :: "engine \<Rightarrow> bool" where
  "waits_ok s \<longleftrightarrow> (update_at s = UClear \<longrightarrow> update_event (coord s)) \<and> (sync_at s = SClear \<longrightarrow> sync_event (coord s))
     \<and> (clears_data (train_at s) \<longrightarrow> dataset_event (coord s)) \<and> (clears_weights (train_at s) \<longrightarrow> weights_event (coord s))"

definition ends_ok :: "engine_params \<Rightarrow> engine \<Rightarrow> bool" where
  "ends_ok p s \<longleftrightarrow> (update_at s = UEnd \<longrightarrow> done_event (coord s) \<or> update_raises p (updated s))
     \<and> (sync_at s = SEnd \<longrightarrow> done_event (coord s) \<or> sync_raises p (synced s))
     \<and> (rollout_at s = REnd \<longrightarrow> done_event (coord s) \<or> rollout_raises p (rollouts s))"

definition counters_ok :: "engine \<Rightarrow> bool" where
  "counters_ok s \<longleftrightarrow> (update_event (coord s) \<or> update_holds (update_at s) \<or> train_used_data (train_at s) \<longrightarrow> updated s = trained s)
     \<and> (update_at s = UNotify \<or> dataset_event (coord s) \<or> train_has_data (train_at s) \<longrightarrow> updated s = Suc (trained s))
     \<and> (sync_event (coord s) \<or> sync_holds (sync_at s) \<or> train_used_weights (train_at s) \<longrightarrow> trained s = Suc (synced s))
     \<and> (sync_at s = SNotify \<or> weights_event (coord s) \<or> train_has_weights (train_at s) \<longrightarrow> trained s = synced s)"

lemma start_keeps_done: "k < 5 \<Longrightarrow> \<not> done_event c \<Longrightarrow> \<not> done_event ((start_calls ! k) c)"
  by (auto simp: start_calls_def less_Suc_eq numeral_eq_Suc)

lemma stop_keeps_done: "k < 5 \<Longrightarrow> done_event c \<Longrightarrow> done_event ((stop_calls ! k) c)"
  by (auto simp: stop_calls_def less_Suc_eq numeral_eq_Suc)

lemma done_stays:
  assumes "well_formed p s" "engine_step p t s = Some s'" "done_event (coord s)"
  shows "done_event (coord s')"
proof -
  have "stopping (train_at s)" using assms(1,3) by (simp add: well_formed_def)
  then have "train_at s = TEnd \<or> (\<exists>k. train_at s = TStop k \<and> k < 5)"
    using assms(1) by (cases "train_at s") (auto simp: well_formed_def coord_calls)
  then show ?thesis
    using assms(2,3) other_steps_keep(1) [of p s s'] other_steps_keep(2) [of p s s'] other_steps_keep(3) [of p s s']
    by (cases t) (auto simp: engine_step_def train_step_def Let_def stop_keeps_done)
qed

lemma ends_ok_step:
  assumes wf: "well_formed p s" and ok: "ends_ok p s" and step: "engine_step p t s = Some s'"
  shows "ends_ok p s'"
proof -
  note stays = done_stays [OF wf step]
  show ?thesis
  proof (cases t)
    case TrainT
    then have "train_step p s = Some s'" using step by (simp add: engine_step_def)
    then have "update_at s' = update_at s" "sync_at s' = sync_at s" "rollout_at s' = rollout_at s"
      "updated s' = updated s" "synced s' = synced s" "rollouts s' = rollouts s"
      by (auto simp: train_step_def Let_def split: train_pc.splits if_splits)
    then show ?thesis using ok stays by (auto simp: ends_ok_def)
  next
    case UpdateT
    then have u: "update_step p s = Some s'" using step by (simp add: engine_step_def)
    have "update_at s' = UEnd \<longrightarrow> done_event (coord s') \<or> update_raises p (updated s')"
      using u ok by (cases "update_at s") (auto simp: update_step_def Let_def is_running_def split: if_splits)
    then show ?thesis using ok stays other_steps_keep(1) [OF u] by (auto simp: ends_ok_def)
  next
    case SyncT
    then have u: "sync_step p s = Some s'" using step by (simp add: engine_step_def)
    have "sync_at s' = SEnd \<longrightarrow> done_event (coord s') \<or> sync_raises p (synced s')"
      using u ok by (cases "sync_at s") (auto simp: sync_step_def Let_def is_running_def split: if_splits)
    then show ?thesis using ok stays other_steps_keep(2) [OF u] by (auto simp: ends_ok_def)
  next
    case RolloutT
    then have u: "rollout_step p s = Some s'" using step by (simp add: engine_step_def)
    have "rollout_at s' = REnd \<longrightarrow> done_event (coord s') \<or> rollout_raises p (rollouts s')"
      using u ok by (cases "rollout_at s") (auto simp: rollout_step_def Let_def is_running_def split: if_splits)
    then show ?thesis using ok stays other_steps_keep(3) [OF u] by (auto simp: ends_ok_def)
  qed
qed

lemma reachable_ends: "engine_reachable p s \<Longrightarrow> ends_ok p s"
proof (induction rule: engine_reachable.induct)
  case engine_init
  then show ?case by (simp add: ends_ok_def init_engine_def)
next
  case (engine_turn s t s')
  then show ?case using ends_ok_step reachable_parts(1) by blast
qed

lemma tokens_unique:
  assumes "data_inv s" "\<not> stopping (train_at s)"
  shows "at_most_one (data_tokens s)"
proof -
  have "\<not> (train_has_data (train_at s) \<and> train_used_data (train_at s))" by (cases "train_at s") auto
  then show ?thesis using assms unfolding data_inv_def at_most_one_def data_tokens_def
    by (cases "update_event (coord s)"; cases "update_at s = UNotify"; cases "update_holds (update_at s)";
        cases "dataset_event (coord s)"; simp)
qed

lemma sync_tokens_unique:
  assumes "sync_inv s" "\<not> stopping (train_at s)"
  shows "at_most_one (sync_tokens s)"
proof -
  have "\<not> (train_has_weights (train_at s) \<and> train_used_weights (train_at s))" by (cases "train_at s") auto
  then show ?thesis using assms unfolding sync_inv_def at_most_one_def sync_tokens_def
    by (cases "sync_event (coord s)"; cases "sync_at s = SNotify"; cases "sync_holds (sync_at s)";
        cases "weights_event (coord s)"; simp)
qed

lemma data_counters:
  assumes "data_inv s" "\<not> stopping (train_at s)"
  shows "update_event (coord s) \<or> update_holds (update_at s) \<or> train_used_data (train_at s) \<longrightarrow> updated s = trained s"
    "update_at s = UNotify \<or> dataset_event (coord s) \<or> train_has_data (train_at s) \<longrightarrow> updated s = Suc (trained s)"
  subgoal by (intro impI; elim disjE) (use assms in \<open>simp_all add: data_inv_def\<close>)
  subgoal by (intro impI; elim disjE) (use assms in \<open>simp_all add: data_inv_def\<close>)
  done

lemma sync_counters:
  assumes "sync_inv s" "\<not> stopping (train_at s)"
  shows "sync_event (coord s) \<or> sync_holds (sync_at s) \<or> train_used_weights (train_at s) \<longrightarrow> trained s = Suc (synced s)"
    "sync_at s = SNotify \<or> weights_event (coord s) \<or> train_has_weights (train_at s) \<longrightarrow> trained s = synced s"
  subgoal by (intro impI; elim disjE) (use assms in \<open>simp_all add: sync_inv_def\<close>)
  subgoal by (intro impI; elim disjE) (use assms in \<open>simp_all add: sync_inv_def\<close>)
  done

text \<open>C19: in every reachable state of the asynchronous engine the places of all four threads, the events and the counters
  agree. As long as the engine is not done, the permission to update the dataset is in at most one place (an event or
  a thread) and so is the permission to synchronise the weights, and the counters of datasets, epochs and
  synchronisations are what those places say. A thread that is about to clear an event finds it set; the update,
  the synchronisation and the rollout thread end only when the engine is done or their call raised. The done event
  is set exactly from the stop of the train thread on, the epoch of the train thread is the number of trained
  epochs, and the checkpoints written are those of the trained epochs that the save interval divides.\<close>
theorem async_state_well_formed:
  assumes "engine_reachable p s"
  shows "well_formed p s \<and> waits_ok s \<and> ends_ok p s
    \<and> trained s \<le> updated s \<and> updated s \<le> Suc (trained s) \<and> synced s \<le> trained s \<and> trained s \<le> Suc (synced s)
    \<and> (\<not> done_event (coord s) \<longrightarrow> at_most_one (data_tokens s) \<and> at_most_one (sync_tokens s) \<and> counters_ok s)"
proof -
  note parts = reachable_parts [OF assms]
  have "waits_ok s" using parts(2,3) by (simp add: waits_ok_def data_inv_def sync_inv_def)
  moreover have "trained s \<le> updated s \<and> updated s \<le> Suc (trained s) \<and> synced s \<le> trained s \<and> trained s \<le> Suc (synced s)"
    using parts(2,3) by (simp add: data_inv_def sync_inv_def)
  moreover have "at_most_one (data_tokens s) \<and> at_most_one (sync_tokens s) \<and> counters_ok s" if "\<not> done_event (coord s)"
  proof -
    have run: "\<not> stopping (train_at s)" using that parts(1) by (simp add: well_formed_def)
    have "counters_ok s" using data_counters [OF parts(2) run] sync_counters [OF parts(3) run] by (simp add: counters_ok_def)
    then show ?thesis using tokens_unique [OF parts(2) run] sync_tokens_unique [OF parts(3) run] by simp
  qed
  ultimately show ?thesis using parts(1) reachable_ends [OF assms] by blast
qed

definition first_update_taken :: engine where
  "first_update_taken = run_turns (engine_step \<lparr>max_epochs = 1, save_interval = 1, batch_size = 0, buffer_size = \<lambda>_. 0,
      train_raises = \<lambda>_. False, update_raises = \<lambda>_. False, sync_raises = \<lambda>_. False, rollout_raises = \<lambda>_. False\<rparr>)
    (replicate 5 TrainT @ replicate 3 UpdateT) init_engine"

lemma first_update_at: "update_at first_update_taken = URecheck" "\<not> done_event (coord first_update_taken)"
  by code_simp+

lemma async_state_well_formed_witness:
  "at_most_one (data_tokens first_update_taken) \<and> \<not> update_event (coord first_update_taken)"
proof -
  have "engine_reachable \<lparr>max_epochs = 1, save_interval = 1, batch_size = 0, buffer_size = \<lambda>_. 0,
      train_raises = \<lambda>_. False, update_raises = \<lambda>_. False, sync_raises = \<lambda>_. False, rollout_raises = \<lambda>_. False\<rparr> first_update_taken"
    unfolding first_update_taken_def by (intro run_turns_reachable engine_init)
  from async_state_well_formed [OF this] first_update_at show ?thesis
    by (auto simp: at_most_one_def data_tokens_def)
qed

text \<open>C18: training has its dataset and its weights to itself: while the train thread trains epoch \<open>e\<close>, in
  whatever interleaving, no dataset update and no synchronisation of weights is under way, exactly
  \<open>e + 1\<close> datasets have been delivered and the weights have been synchronised after each of the \<open>e\<close> epochs
  before.\<close>
theorem training_is_exclusive:
  assumes "engine_reachable p s" "train_at s = TTrain e"
  shows "update_at s \<notin> {URecheck, UHook, UUpdate, UNotify} \<and> sync_at s \<notin> {SRecheck, SSync, SNotify}
     \<and> trained s = e \<and> updated s = e + 1 \<and> synced s = e"
proof -
  note parts = reachable_parts [OF assms(1)]
  have "trained s = e" using parts(1) assms(2) by (simp add: well_formed_def)
  moreover have "update_at s \<notin> {URecheck, UHook, UUpdate, UNotify} \<and> updated s = Suc (trained s)"
    using parts(2) assms(2) by (cases "update_at s") (simp_all add: data_inv_def)
  moreover have "sync_at s \<notin> {SRecheck, SSync, SNotify} \<and> trained s = synced s"
    using parts(3) assms(2) by (cases "sync_at s") (simp_all add: sync_inv_def)
  ultimately show ?thesis by simp
qed

text \<open>One epoch, without waiting for data, driven round by round.\<close>

definition small_engine :: engine_params where
  "small_engine = \<lparr>max_epochs = 1, save_interval = 1, batch_size = 0, buffer_size = \<lambda>_. 0,
     train_raises = \<lambda>_. False, update_raises = \<lambda>_. False, sync_raises = \<lambda>_. False, rollout_raises = \<lambda>_. False\<rparr>"

definition first_training :: engine where
  "first_training = run_turns (engine_step small_engine) (replicate 6 TrainT @ replicate 7 UpdateT @ replicate 4 TrainT) init_engine"

lemma first_training_simps:
  "train_at first_training = TTrain 0"
  "updated first_training = 1" "trained first_training = 0" "synced first_training = 0"
  by code_simp+

lemma first_training_reachable: "engine_reachable small_engine first_training"
  unfolding first_training_def by (intro run_turns_reachable engine_init)

lemma training_is_exclusive_witness:
  "update_at first_training \<notin> {URecheck, UHook, UUpdate, UNotify} \<and> sync_at first_training \<notin> {SRecheck, SSync, SNotify}
     \<and> updated first_training = 1"
  using training_is_exclusive [OF first_training_reachable first_training_simps(1)] by simp

subsection \<open>Rounds\<close>

text \<open>
  What the coordinator is there for: a dataset is delivered once the last one is trained on, training
  takes a delivered dataset and synchronised weights, weights are synchronised once they are trained.
\<close>

record rounds =
  rd_updated :: nat
  rd_trained :: nat
  rd_synced :: nat

inductive round_step :: "rounds \<Rightarrow> rounds \<Rightarrow> bool" where
  deliver: "rd_updated r = rd_trained r \<Longrightarrow> round_step r (r\<lparr>rd_updated := rd_updated r + 1\<rparr>)"
| learn: "rd_updated r = rd_trained r + 1 \<Longrightarrow> rd_synced r = rd_trained r
            \<Longrightarrow> round_step r (r\<lparr>rd_trained := rd_trained r + 1\<rparr>)"
| spread: "rd_trained r = rd_synced r + 1 \<Longrightarrow> round_step r (r\<lparr>rd_synced := rd_synced r + 1\<rparr>)"

definition rounds_of :: "engine \<Rightarrow> rounds" where
  "rounds_of s = \<lparr>rd_updated = updated s, rd_trained = trained s, rd_synced = synced s\<rparr>"

lemma rounds_of_simps:
  "rd_updated (rounds_of s) = updated s" "rd_trained (rounds_of s) = trained s" "rd_synced (rounds_of s) = synced s"
  by (simp_all add: rounds_of_def)

lemma train_step_rounds:
  assumes "engine_inv p s" "train_step p s = Some s'"
  shows "rounds_of s' = rounds_of s \<or> round_step (rounds_of s) (rounds_of s')"
proof (cases "\<exists>e. train_at s = TTrain e \<and> \<not> train_raises p e")
  case True
  then obtain e where e: "train_at s = TTrain e" "\<not> train_raises p e" by blast
  then have "updated s = Suc (trained s)" "trained s = synced s"
    using assms(1) by (simp_all add: engine_inv_def data_inv_def sync_inv_def)
  moreover have "rounds_of s' = (rounds_of s)\<lparr>rd_trained := rd_trained (rounds_of s) + 1\<rparr>"
    using e assms(2) by (auto simp: train_step_def rounds_of_def Let_def)
  ultimately show ?thesis using round_step.learn [of "rounds_of s"] by (metis rounds_of_simps Suc_eq_plus1)
next
  case False
  then have "updated s' = updated s \<and> trained s' = trained s \<and> synced s' = synced s"
    using assms(2) by (auto simp: train_step_def Let_def split: train_pc.splits if_splits)
  then show ?thesis by (simp add: rounds_of_def)
qed

lemma update_step_rounds:
  assumes "engine_inv p s" "update_step p s = Some s'"
  shows "rounds_of s' = rounds_of s \<or> round_step (rounds_of s) (rounds_of s')"
proof (cases "update_at s = UUpdate \<and> \<not> update_raises p (updated s)")
  case True
  then have "updated s = trained s"
    using assms(1) by (cases "stopping (train_at s)") (simp_all add: engine_inv_def data_inv_def)
  moreover have "rounds_of s' = (rounds_of s)\<lparr>rd_updated := rd_updated (rounds_of s) + 1\<rparr>"
    using True assms(2) by (auto simp: update_step_def rounds_of_def Let_def)
  ultimately show ?thesis using round_step.deliver [of "rounds_of s"] by (metis rounds_of_simps Suc_eq_plus1)
next
  case False
  then have "updated s' = updated s \<and> trained s' = trained s \<and> synced s' = synced s"
    using assms(2) by (auto simp: update_step_def Let_def split: update_pc.splits if_splits)
  then show ?thesis by (simp add: rounds_of_def)
qed

lemma sync_step_rounds:
  assumes "engine_inv p s" "sync_step p s = Some s'"
  shows "rounds_of s' = rounds_of s \<or> round_step (rounds_of s) (rounds_of s')"
proof (cases "sync_at s = SSync \<and> \<not> sync_raises p (synced s)")
  case True
  then have "trained s = Suc (synced s)"
    using assms(1) by (cases "stopping (train_at s)") (simp_all add: engine_inv_def sync_inv_def)
  moreover have "rounds_of s' = (rounds_of s)\<lparr>rd_synced := rd_synced (rounds_of s) + 1\<rparr>"
    using True assms(2) by (auto simp: sync_step_def rounds_of_def Let_def)
  ultimately show ?thesis using round_step.spread [of "rounds_of s"] by (metis rounds_of_simps Suc_eq_plus1)
next
  case False
  then have "updated s' = updated s \<and> trained s' = trained s \<and> synced s' = synced s"
    using assms(2) by (auto simp: sync_step_def Let_def split: sync_pc.splits if_splits)
  then show ?thesis by (simp add: rounds_of_def)
qed

text \<open>C17: the four threads and their five events refine the rounds: every step of any thread in any
  reachable state is a step of the rounds or changes none of the three counters.\<close>
theorem async_refines_rounds:
  assumes "engine_reachable p s" "engine_step p t s = Some s'"
  shows "rounds_of s' = rounds_of s \<or> round_step (rounds_of s) (rounds_of s')"
proof (cases t)
  case RolloutT
  then show ?thesis using assms(2) other_steps_keep(3) by (simp add: engine_step_def rounds_of_def)
qed (use assms(2) reachable_inv [OF assms(1)] train_step_rounds update_step_rounds sync_step_rounds in
      \<open>simp_all add: engine_step_def\<close>)

lemma async_refines_rounds_witness:
  "\<exists>s'. engine_step small_engine TrainT first_training = Some s'
     \<and> (rounds_of s' = rounds_of first_training \<or> round_step (rounds_of first_training) (rounds_of s'))"
proof -
  have "engine_step small_engine TrainT first_training
      = Some (first_training\<lparr>trained := 1, train_at := TSave 0\<rparr>)"
    by (simp add: engine_step_def train_step_def first_training_simps small_engine_def)
  then show ?thesis using async_refines_rounds [OF first_training_reachable] by blast
qed

subsection \<open>Two ways not to return\<close>

text \<open>The train thread waits for a dataset that nobody will deliver.\<close>

definition waits_forever :: "engine \<Rightarrow> bool" where
  "waits_forever s \<longleftrightarrow> train_at s \<in> {TEpoch 0, TWaitData 0} \<and> trained s = 0 \<and> is_running (coord s)
     \<and> \<not> dataset_event (coord s) \<and> \<not> update_event (coord s) \<and> \<not> sync_event (coord s)
     \<and> update_at s \<in> {UCheck, UWait} \<and> sync_at s \<in> {SCheck, SWait}"

lemma waits_forever_stuck: "waits_forever s \<Longrightarrow> trained s = 0 \<and> \<not> run_returns s"
  by (auto simp: waits_forever_def run_returns_def)

lemma waits_forever_step:
  assumes "waits_forever s" "engine_step p t s = Some s'" "0 < max_epochs p"
  shows "waits_forever s'"
proof (cases t)
  case TrainT
  have "train_at s = TEpoch 0 \<or> train_at s = TWaitData 0" using assms(1) by (auto simp: waits_forever_def)
  then show ?thesis using assms TrainT
    by (elim disjE) (auto simp: waits_forever_def engine_step_def train_step_def Let_def split: if_splits)
next
  case UpdateT
  have "update_at s = UCheck \<or> update_at s = UWait" using assms(1) by (auto simp: waits_forever_def)
  then show ?thesis using assms UpdateT
    by (elim disjE) (auto simp: waits_forever_def engine_step_def update_step_def Let_def split: if_splits)
next
  case SyncT
  have "sync_at s = SCheck \<or> sync_at s = SWait" using assms(1) by (auto simp: waits_forever_def)
  then show ?thesis using assms SyncT
    by (elim disjE) (auto simp: waits_forever_def engine_step_def sync_step_def Let_def split: if_splits)
next
  case RolloutT
  then show ?thesis using assms(1,2) other_steps_keep(3) [of p s s'] by (simp add: waits_forever_def engine_step_def)
qed

lemma rollout_turns:
  assumes "\<forall>i < k. \<not> rollout_raises p i" "rollout_at s = RCheck" "is_running (coord s)" "rollouts s = 0"
  shows "run_turns (engine_step p) (replicate (2 * k) RolloutT) s = s\<lparr>rollouts := k\<rparr>"
  using assms(1)
proof (induction k)
  case (Suc k)
  have eq: "replicate (2 * Suc k) RolloutT = replicate (2 * k) RolloutT @ [RolloutT, RolloutT]"
    by (metis (no_types) add_2_eq_Suc' mult_Suc_right add.commute replicate_add replicate_Suc replicate_0 numeral_2_eq_2)
  have "run_turns (engine_step p) (replicate (2 * k) RolloutT) s = s\<lparr>rollouts := k\<rparr>" using Suc by simp
  then show ?case unfolding eq run_turns_simps using Suc.prems assms(2,3)
    by (simp add: turn_def engine_step_def rollout_step_def)
qed (use assms in \<open>simp add: run_turns_simps\<close>)

text \<open>The start of the coordinator can lose the first dataset: \<open>start\<close> permits the update of the
  dataset before it clears the event of a ready dataset, so an update thread that is fast enough has its
  announcement erased, and then no schedule, whatever the number of epochs, ever trains: \<open>run\<close> hangs.\<close>
theorem start_loses_dataset:
  assumes "0 < max_epochs p" "batch_size p \<le> buffer_size p k" "\<forall>i < k. \<not> rollout_raises p i" "\<not> update_raises p 0"
  shows "\<exists>ts. \<forall>sched n. let s = run_schedule (engine_step p) sched (run_turns (engine_step p) ts init_engine) n
     in trained s = 0 \<and> \<not> run_returns s"
proof -
  let ?ts = "replicate (2 * k) RolloutT @ (replicate 2 TrainT @ replicate 7 UpdateT @ replicate 3 TrainT)"
  let ?s = "run_turns (engine_step p) ?ts init_engine"
  have "run_turns (engine_step p) (replicate (2 * k) RolloutT) init_engine = init_engine\<lparr>rollouts := k\<rparr>"
    by (rule rollout_turns) (simp_all add: assms init_engine_def new_coordinator_def is_running_def)
  then have "waits_forever ?s" unfolding run_turns_simps
    using assms
    by (simp add: run_turns_simps turn_def engine_step_def train_step_def update_step_def start_calls_def Let_def
        numeral_eq_Suc enough_data_def init_engine_def new_coordinator_def is_running_def waits_forever_def)
  then have "waits_forever (run_schedule (engine_step p) sched ?s n)" for sched n
    by (rule run_schedule_invariant) (rule waits_forever_step, assumption+, rule assms)
  then show ?thesis using waits_forever_stuck by (intro exI [of _ ?ts]) (simp only: Let_def simp_thms)
qed

lemma start_loses_dataset_witness:
  "\<exists>ts. \<forall>sched n. let s = run_schedule (engine_step small_engine) sched (run_turns (engine_step small_engine) ts init_engine) n
     in trained s = 0 \<and> \<not> run_returns s"
  by (rule start_loses_dataset [where k = 0]) (simp_all add: small_engine_def)

text \<open>An exception in the update thread is not noticed: when the update that epoch \<open>k\<close> needs raises,
  and training never raises, no reachable state has trained more than \<open>k\<close> epochs and \<open>run\<close> never returns
  or raises, since joining a thread does not pass its exception on.\<close>
theorem update_failure_hangs:
  assumes "engine_reachable p s" "update_raises p k" "k < max_epochs p" "\<forall>e. \<not> train_raises p e"
  shows "trained s \<le> k \<and> \<not> run_returns s"
proof -
  have "updated s \<le> k" using assms(1)
  proof induction
    case engine_init
    then show ?case by (simp add: init_engine_def)
  next
    case (engine_turn s t s')
    show ?case
    proof (cases t)
      case UpdateT
      then show ?thesis using engine_turn assms(2)
        by (cases "updated s = k") (auto simp: engine_step_def update_step_def Let_def split: update_pc.splits if_splits)
    next
      case TrainT
      then show ?thesis using engine_turn
        by (auto simp: engine_step_def train_step_def Let_def split: train_pc.splits if_splits)
    next
      case SyncT
      then show ?thesis using engine_turn other_steps_keep(2) [of p s s'] by (simp add: engine_step_def)
    next
      case RolloutT
      then show ?thesis using engine_turn other_steps_keep(3) [of p s s'] by (simp add: engine_step_def)
    qed
  qed
  moreover have "trained s \<le> updated s" using reachable_parts(2) [OF assms(1)] by (simp add: data_inv_def)
  ultimately have le: "trained s \<le> k" by simp
  moreover have "train_at s \<noteq> TEnd"
  proof
    assume "train_at s = TEnd"
    then have "trained s = max_epochs p" using reachable_parts(1) [OF assms(1)] assms(4) by (simp add: well_formed_def)
    then show False using le assms(3) by simp
  qed
  ultimately show ?thesis by (simp add: run_returns_def)
qed

lemma update_failure_hangs_witness:
  "trained init_engine \<le> 0 \<and> \<not> run_returns init_engine"
  by (rule update_failure_hangs [where p = "small_engine\<lparr>update_raises := \<lambda>_. True\<rparr>"])
     (simp_all add: engine_init small_engine_def)

end
