(* ===== verification/Async_Live.thy ===== *)
theory Async_Live
  imports Async_Safety
begin

text \<open>
  Every fair run of the asynchronous engine ends, when the coordinator is started before the first
  dataset is announced and the calls of the other threads do not raise.
\<close>

subsection \<open>Nothing is lost\<close>

fun starting :: "train_pc \<Rightarrow> bool" where
  "starting (TStart k) = True"
| "starting _ = False"

fun after_loop :: "train_pc \<Rightarrow> bool" where
  "after_loop (TStop k) = True"
| "after_loop TEnd = True"
| "after_loop _ = False"

fun update_released :: "train_pc \<Rightarrow> bool" where
  "update_released (TStop k) = (2 \<le> k)"
| "update_released TEnd = True"
| "update_released _ = False"

fun sync_released :: "train_pc \<Rightarrow> bool" where
  "sync_released (TStop k) = (3 \<le> k)"
| "sync_released TEnd = True"
| "sync_released _ = False"

definition orderly :: "engine \<Rightarrow> bool" where
  "orderly s \<longleftrightarrow> (starting (train_at s) \<longrightarrow> update_at s \<noteq> UNotify)"

definition no_failures :: "engine_params \<Rightarrow> bool" where
  "no_failures p \<longleftrightarrow> (\<forall>k. \<not> update_raises p k \<and> \<not> sync_raises p k \<and> \<not> rollout_raises p k)"

definition data_live :: "engine \<Rightarrow> bool" where
  "data_live s \<longleftrightarrow> (starting (train_at s) \<longrightarrow> \<not> dataset_event (coord s))
     \<and> (\<not> before_permit (train_at s) \<longrightarrow> \<not> after_loop (train_at s) \<longrightarrow>
          update_event (coord s) \<or> update_holds (update_at s) \<or> update_at s = UNotify
          \<or> dataset_event (coord s) \<or> train_has_data (train_at s) \<or> train_used_data (train_at s))
     \<and> (update_released (train_at s) \<longrightarrow> update_at s = UWait \<longrightarrow> update_event (coord s))
     \<and> (update_at s = UEnd \<longrightarrow> stopping (train_at s))"

definition sync_live :: "engine \<Rightarrow> bool" where
  "sync_live s \<longleftrightarrow>
     (\<not> before_weights (train_at s) \<longrightarrow> \<not> after_loop (train_at s) \<longrightarrow>
          sync_event (coord s) \<or> sync_holds (sync_at s) \<or> sync_at s = SNotify
          \<or> weights_event (coord s) \<or> train_has_weights (train_at s) \<or> train_used_weights (train_at s))
     \<and> (sync_released (train_at s) \<longrightarrow> sync_at s = SWait \<longrightarrow> sync_event (coord s))
     \<and> (sync_at s = SEnd \<longrightarrow> stopping (train_at s))
     \<and> (rollout_at s = REnd \<longrightarrow> stopping (train_at s))"

lemma released_stopping:
  "update_released a \<Longrightarrow> stopping a" "sync_released a \<Longrightarrow> stopping a" "stopping a \<Longrightarrow> after_loop a"
  "starting a \<Longrightarrow> \<not> after_loop a"
  by (cases a; simp)+

lemma data_live_train:
  assumes wf: "well_formed p s" and inv: "data_live s" and step: "train_step p s = Some s'"
  shows "data_live s'"
proof (cases "train_at s")
  case (TStart k)
  with wf have "k < 5" by (simp add: well_formed_def coord_calls)
  then have "k \<in> {0, 1, 2, 3, 4}" by auto
  then show ?thesis using inv step TStart
    by (elim insertE emptyE) (clarsimp simp: data_live_def train_step_def Let_def start_calls_def)+
next
  case (TStop k)
  with wf have "k < 5" by (simp add: well_formed_def coord_calls)
  then have "k \<in> {0, 1, 2, 3, 4}" by auto
  then show ?thesis using inv step TStop
    by (elim insertE emptyE) (clarsimp simp: data_live_def train_step_def Let_def stop_calls_def)+
qed (use inv step in \<open>clarsimp simp: data_live_def train_step_def Let_def split: if_splits\<close>)+

lemma sync_live_train:
  assumes wf: "well_formed p s" and inv: "sync_live s" and step: "train_step p s = Some s'"
  shows "sync_live s'"
proof (cases "train_at s")
  case (TStart k)
  with wf have "k < 5" by (simp add: well_formed_def coord_calls)
  then have "k \<in> {0, 1, 2, 3, 4}" by auto
  then show ?thesis using inv step TStart
    by (elim insertE emptyE) (clarsimp simp: sync_live_def train_step_def Let_def start_calls_def)+
next
  case (TStop k)
  with wf have "k < 5" by (simp add: well_formed_def coord_calls)
  then have "k \<in> {0, 1, 2, 3, 4}" by auto
  then show ?thesis using inv step TStop
    by (elim insertE emptyE) (clarsimp simp: sync_live_def train_step_def Let_def stop_calls_def)+
qed (use inv step in \<open>clarsimp simp: sync_live_def train_step_def Let_def split: if_splits\<close>)+

lemma data_live_update:
  assumes wf: "well_formed p s" and live: "data_live s" and ok: "no_failures p" "orderly s"
    and step: "update_step p s = Some s'"
  shows "data_live s'"
proof (cases "stopping (train_at s)")
  case True
  then have "\<not> is_running (coord s)" "after_loop (train_at s)" "\<not> starting (train_at s)"
    using running_iff [OF wf] released_stopping by blast+
  with True live ok step show ?thesis
    by (cases "update_at s")
       (simp_all add: data_live_def no_failures_def update_step_def Let_def split: if_splits; clarsimp)+
next
  case False
  then have "is_running (coord s)" "\<not> update_released (train_at s)"
    using running_iff [OF wf] released_stopping by blast+
  with False live ok step show ?thesis
    by (cases "update_at s")
       (simp_all add: data_live_def no_failures_def orderly_def update_step_def Let_def split: if_splits; clarsimp)+
qed

lemma sync_live_sync:
  assumes wf: "well_formed p s" and live: "sync_live s" and ok: "no_failures p"
    and step: "sync_step p s = Some s'"
  shows "sync_live s'"
proof (cases "stopping (train_at s)")
  case True
  then have "\<not> is_running (coord s)" "after_loop (train_at s)"
    using running_iff [OF wf] released_stopping by blast+
  with True live ok step show ?thesis
    by (cases "sync_at s")
       (simp_all add: sync_live_def no_failures_def sync_step_def Let_def split: if_splits; clarsimp)+
next
  case False
  then have "is_running (coord s)" "\<not> sync_released (train_at s)"
    using running_iff [OF wf] released_stopping by blast+
  with False live ok step show ?thesis
    by (cases "sync_at s")
       (simp_all add: sync_live_def no_failures_def sync_step_def Let_def split: if_splits; clarsimp)+
qed

lemma sync_live_rollout:
  assumes wf: "well_formed p s" and live: "sync_live s" and ok: "no_failures p"
    and step: "rollout_step p s = Some s'"
  shows "sync_live s'"
proof -
  have "rollout_at s' = REnd \<longrightarrow> stopping (train_at s)"
    using step ok live running_iff [OF wf]
    by (cases "rollout_at s") (auto simp: sync_live_def no_failures_def rollout_step_def split: if_splits)
  then show ?thesis using other_steps_keep(3) [OF step] live by (simp add: sync_live_def)
qed

definition live :: "engine_params \<Rightarrow> engine \<Rightarrow> bool" where
  "live p s \<longleftrightarrow> engine_inv p s \<and> data_live s \<and> sync_live s"

lemma live_init: "live p init_engine"
  unfolding live_def
  by (intro conjI engine_inv_init) (simp_all add: data_live_def sync_live_def init_engine_def new_coordinator_def)

lemma live_step:
  assumes live: "live p s" and ok: "no_failures p" "orderly s" and step: "engine_step p t s = Some s'"
  shows "live p s'"
proof -
  have inv: "engine_inv p s'" using engine_inv_step [OF _ step] live by (simp add: live_def)
  have parts: "well_formed p s" "data_live s" "sync_live s" using live by (simp_all add: live_def engine_inv_def)
  show ?thesis
  proof (cases t)
    case TrainT
    then have "train_step p s = Some s'" using step by (simp add: engine_step_def)
    then show ?thesis using inv data_live_train [OF parts(1,2)] sync_live_train [OF parts(1,3)] by (simp add: live_def)
  next
    case UpdateT
    then have u: "update_step p s = Some s'" using step by (simp add: engine_step_def)
    have "sync_live s'" using parts(3) other_steps_keep(1) [OF u] by (simp add: sync_live_def)
    then show ?thesis using inv data_live_update [OF parts(1,2) ok u] by (simp add: live_def)
  next
    case SyncT
    then have u: "sync_step p s = Some s'" using step by (simp add: engine_step_def)
    have "data_live s'" using parts(2) other_steps_keep(2) [OF u] by (simp add: data_live_def)
    then show ?thesis using inv sync_live_sync [OF parts(1,3) ok(1) u] by (simp add: live_def)
  next
    case RolloutT
    then have u: "rollout_step p s = Some s'" using step by (simp add: engine_step_def)
    have "data_live s'" using parts(2) other_steps_keep(3) [OF u] by (simp add: data_live_def)
    then show ?thesis using inv sync_live_rollout [OF parts(1,3) ok(1) u] by (simp add: live_def)
  qed
qed

subsection \<open>What is left to do\<close>

fun train_left :: "engine_params \<Rightarrow> train_pc \<Rightarrow> nat" where
  "train_left p (TStart k) = 9 * max_epochs p + 6 + (5 - k)"
| "train_left p (TEpoch e) = 9 * (max_epochs p - e) + 6"
| "train_left p (TWaitData e) = 9 * (max_epochs p - e) + 5"
| "train_left p (TClearData e) = 9 * (max_epochs p - e) + 4"
| "train_left p (TWaitWeights e) = 9 * (max_epochs p - e) + 3"
| "train_left p (TClearWeights e) = 9 * (max_epochs p - e) + 2"
| "train_left p (TTrain e) = 9 * (max_epochs p - e) + 1"
| "train_left p (TSave e) = 9 * (max_epochs p - e)"
| "train_left p (TNotifyUpdate e) = 9 * (max_epochs p - e) - 1"
| "train_left p (TNotifySync e) = 9 * (max_epochs p - e) - 2"
| "train_left p (TStop k) = 5 - k"
| "train_left p TEnd = 0"

fun update_left :: "update_pc \<Rightarrow> nat" where
  "update_left UEnd = 0"
| "update_left UClear = 1"
| "update_left UWait = 2"
| "update_left UCheck = 3"
| "update_left UNotify = 4"
| "update_left UUpdate = 5"
| "update_left UHook = 6"
| "update_left URecheck = 7"

fun sync_left :: "sync_pc \<Rightarrow> nat" where
  "sync_left SEnd = 0"
| "sync_left SClear = 1"
| "sync_left SWait = 2"
| "sync_left SCheck = 3"
| "sync_left SNotify = 4"
| "sync_left SSync = 5"
| "sync_left SRecheck = 6"

definition work_left :: "engine_params \<Rightarrow> engine \<Rightarrow> nat" where
  "work_left p s = 8 * train_left p (train_at s)
     + (if update_event (coord s) then 7 else 0) + update_left (update_at s)
     + (if sync_event (coord s) then 7 else 0) + sync_left (sync_at s)"

lemma epochs_left: "e < m \<Longrightarrow> m - e = Suc (m - Suc e)" for e m :: nat
  by simp

lemma train_spends:
  assumes wf: "well_formed p s" and step: "train_step p s = Some s'"
  shows "work_left p s' < work_left p s"
proof (cases "train_at s")
  case (TStart k)
  with wf have "k < 5" by (simp add: well_formed_def coord_calls)
  then have "k \<in> {0, 1, 2, 3, 4}" by auto
  then show ?thesis using step TStart
    by (elim insertE emptyE) (clarsimp simp: work_left_def train_step_def Let_def start_calls_def)+
next
  case (TStop k)
  with wf have "k < 5" by (simp add: well_formed_def coord_calls)
  then have "k \<in> {0, 1, 2, 3, 4}" by auto
  then show ?thesis using step TStop
    by (elim insertE emptyE) (clarsimp simp: work_left_def train_step_def Let_def stop_calls_def)+
qed (use wf step epochs_left in
      \<open>auto simp: work_left_def train_step_def Let_def well_formed_def split: if_splits\<close>)+

lemma update_spends:
  assumes inv: "data_inv s" and step: "update_step p s = Some s'"
  shows "work_left p s' < work_left p s"
proof -
  have "update_at s = UClear \<longrightarrow> update_event (coord s)" using inv by (simp add: data_inv_def)
  with step show ?thesis
    by (cases "update_at s") (auto simp: work_left_def update_step_def Let_def split: if_splits)
qed

lemma sync_spends:
  assumes inv: "sync_inv s" and step: "sync_step p s = Some s'"
  shows "work_left p s' < work_left p s"
proof -
  have "sync_at s = SClear \<longrightarrow> sync_event (coord s)" using inv by (simp add: sync_inv_def)
  with step show ?thesis
    by (cases "sync_at s") (auto simp: work_left_def sync_step_def Let_def split: if_splits)
qed

lemma rollout_spends_nothing:
  assumes "rollout_step p s = Some s'"
  shows "work_left p s' = work_left p s"
  using assms other_steps_keep(3) [OF assms]
  by (auto simp: work_left_def rollout_step_def split: rollout_pc.splits)

definition data_or_done :: "engine_params \<Rightarrow> engine \<Rightarrow> bool" where
  "data_or_done p s \<longleftrightarrow> enough_data p s \<or> \<not> is_running (coord s)"

definition workers_ended :: "engine \<Rightarrow> bool" where
  "workers_ended s \<longleftrightarrow> train_at s = TEnd \<and> update_at s = UEnd \<and> sync_at s = SEnd"

lemma update_enabled:
  assumes "data_or_done p s" "update_at s \<noteq> UEnd" "update_at s = UWait \<longrightarrow> update_event (coord s)"
  shows "engine_step p UpdateT s \<noteq> None"
  using assms by (cases "update_at s") (auto simp: engine_step_def update_step_def data_or_done_def Let_def)

lemma sync_enabled:
  assumes "sync_at s \<noteq> SEnd" "sync_at s = SWait \<longrightarrow> sync_event (coord s)"
  shows "engine_step p SyncT s \<noteq> None"
  using assms by (cases "sync_at s") (auto simp: engine_step_def sync_step_def Let_def)

lemma somebody_works:
  assumes live: "live p s" and ready: "data_or_done p s" and on: "\<not> workers_ended s"
  shows "\<exists>t. t \<noteq> RolloutT \<and> engine_step p t s \<noteq> None"
proof (cases "train_step p s")
  case (Some s')
  then show ?thesis by (intro exI [of _ TrainT]) (simp add: engine_step_def)
next
  case None
  have d: "data_live s" and y: "sync_live s" using live by (simp_all add: live_def)
  from None have "(\<exists>e. train_at s = TWaitData e \<and> \<not> dataset_event (coord s))
     \<or> (\<exists>e. train_at s = TWaitWeights e \<and> \<not> weights_event (coord s)) \<or> train_at s = TEnd"
    by (cases "train_at s") (auto simp: train_step_def Let_def split: if_splits)
  then show ?thesis
  proof (elim disjE exE conjE)
    fix e assume "train_at s = TWaitData e" "\<not> dataset_event (coord s)"
    then have "update_at s \<noteq> UEnd" "update_at s = UWait \<longrightarrow> update_event (coord s)"
      using d by (auto simp: data_live_def)
    then show ?thesis using update_enabled [OF ready] by blast
  next
    fix e assume "train_at s = TWaitWeights e" "\<not> weights_event (coord s)"
    then have "sync_at s \<noteq> SEnd" "sync_at s = SWait \<longrightarrow> sync_event (coord s)"
      using y by (auto simp: sync_live_def)
    then show ?thesis using sync_enabled by blast
  next
    assume e: "train_at s = TEnd"
    then have "update_at s = UWait \<longrightarrow> update_event (coord s)" "sync_at s = SWait \<longrightarrow> sync_event (coord s)"
      using d y by (simp_all add: data_live_def sync_live_def)
    moreover have "update_at s \<noteq> UEnd \<or> sync_at s \<noteq> SEnd" using e on by (simp add: workers_ended_def)
    ultimately show ?thesis using update_enabled [OF ready] sync_enabled by blast
  qed
qed

lemma rollout_disturbs_nobody:
  assumes "data_or_done p s'" "rollout_step p s = Some s'" "t \<noteq> RolloutT" "engine_step p t s \<noteq> None"
  shows "engine_step p t s' \<noteq> None"
proof -
  note keep = other_steps_keep(3) [OF assms(2)]
  show ?thesis
  proof (cases t)
    case TrainT
    then show ?thesis using assms(4) keep
      by (cases "train_at s") (simp_all add: engine_step_def train_step_def Let_def split: if_splits)
  next
    case UpdateT
    then show ?thesis using assms(1,4) keep
      by (cases "update_at s") (simp_all add: engine_step_def update_step_def data_or_done_def Let_def split: if_splits)
  next
    case SyncT
    then show ?thesis using assms(4) keep
      by (cases "sync_at s") (simp_all add: engine_step_def sync_step_def Let_def split: if_splits)
  qed (use assms(3) in simp)
qed

interpretation workers: fair_threads "engine_step p" "live p" "data_or_done p" "\<lambda>t. t = RolloutT" "work_left p" workers_ended
  for p
proof unfold_locales
  fix s t s' assume l: "live p s" and t: "\<not> t = RolloutT" and step: "engine_step p t s = Some s'"
  then show "work_left p s' < work_left p s"
    using train_spends [of p s s'] update_spends [of s p s'] sync_spends [of s p s']
    by (cases t) (simp_all add: engine_step_def live_def engine_inv_def)
next
  fix s t s' assume "t = RolloutT" and "engine_step p t s = Some s'"
  then show "work_left p s' \<le> work_left p s" using rollout_spends_nothing by (simp add: engine_step_def)
next
  fix s assume "live p s" "data_or_done p s" "\<not> workers_ended s"
  then show "\<exists>t. t \<noteq> RolloutT \<and> engine_step p t s \<noteq> None" by (rule somebody_works)
next
  fix s s' b t assume "data_or_done p s'" "b = RolloutT" "engine_step p b s = Some s'" "\<not> t = RolloutT" "engine_step p t s \<noteq> None"
  then show "engine_step p t s' \<noteq> None" using rollout_disturbs_nobody by (simp add: engine_step_def)
qed

subsection \<open>The other two contracts\<close>

text \<open>The rollout thread gets as far as one likes, unless the engine stops.\<close>

interpretation rollouts: fair_threads "engine_step p" "\<lambda>s. live p s \<and> no_failures p" "\<lambda>_. True" "\<lambda>t. t \<noteq> RolloutT"
    "\<lambda>s. 2 * (k - rollouts s) + (if rollout_at s = RCheck then 1 else 0)" "\<lambda>s. \<not> is_running (coord s) \<or> k \<le> rollouts s"
  for p k
proof unfold_locales
  fix s t s' assume "live p s \<and> no_failures p" "\<not> (\<not> is_running (coord s) \<or> k \<le> rollouts s)" "\<not> t \<noteq> RolloutT"
    and "engine_step p t s = Some s'"
  then show "2 * (k - rollouts s') + (if rollout_at s' = RCheck then 1 else 0)
      < 2 * (k - rollouts s) + (if rollout_at s = RCheck then 1 else 0)"
    by (cases "rollout_at s") (auto simp: engine_step_def rollout_step_def no_failures_def)
next
  fix s t s' assume "t \<noteq> RolloutT" and step: "engine_step p t s = Some s'"
  then have "rollouts s' = rollouts s \<and> rollout_at s' = rollout_at s"
    using other_steps_keep [of p s s'] by (cases t) (auto simp: engine_step_def train_step_def Let_def split: train_pc.splits if_splits)
  then show "2 * (k - rollouts s') + (if rollout_at s' = RCheck then 1 else 0)
      \<le> 2 * (k - rollouts s) + (if rollout_at s = RCheck then 1 else 0)" by simp
next
  fix s assume l: "live p s \<and> no_failures p" and g: "\<not> (\<not> is_running (coord s) \<or> k \<le> rollouts s)"
  then have "rollout_at s \<noteq> REnd"
    using running_iff [of p s] by (auto simp: live_def engine_inv_def sync_live_def)
  then have "engine_step p RolloutT s \<noteq> None" by (cases "rollout_at s") (simp_all add: engine_step_def rollout_step_def)
  then show "\<exists>t. \<not> t \<noteq> RolloutT \<and> engine_step p t s \<noteq> None" by blast
next
  fix s s' b t assume b: "b \<noteq> RolloutT" "engine_step p b s = Some s'" and t: "\<not> t \<noteq> RolloutT" "engine_step p t s \<noteq> None"
  have "rollout_at s' = rollout_at s"
    using b other_steps_keep [of p s s'] by (cases b) (auto simp: engine_step_def train_step_def Let_def split: train_pc.splits if_splits)
  then show "engine_step p t s' \<noteq> None" using t by (cases "rollout_at s") (simp_all add: engine_step_def rollout_step_def)
qed

text \<open>Once the others have ended, the rollout thread ends.\<close>

interpretation last_rollout: fair_threads "engine_step p" "\<lambda>s. workers_ended s \<and> \<not> is_running (coord s)" "\<lambda>_. True"
    "\<lambda>t. t \<noteq> RolloutT" "\<lambda>s. case rollout_at s of RCheck \<Rightarrow> 1 | RWork \<Rightarrow> 2 | REnd \<Rightarrow> 0" run_returns
  for p
proof unfold_locales
  fix s t s' assume "workers_ended s \<and> \<not> is_running (coord s)" "\<not> t \<noteq> RolloutT" "engine_step p t s = Some s'"
  then show "(case rollout_at s' of RCheck \<Rightarrow> 1 | RWork \<Rightarrow> 2 | REnd \<Rightarrow> 0)
      < (case rollout_at s of RCheck \<Rightarrow> 1 | RWork \<Rightarrow> 2 | REnd \<Rightarrow> (0 :: nat))"
    by (cases "rollout_at s") (auto simp: engine_step_def rollout_step_def)
next
  fix s t s' assume "workers_ended s \<and> \<not> is_running (coord s)" "t \<noteq> RolloutT" "engine_step p t s = Some s'"
  then show "(case rollout_at s' of RCheck \<Rightarrow> 1 | RWork \<Rightarrow> 2 | REnd \<Rightarrow> 0)
      \<le> (case rollout_at s of RCheck \<Rightarrow> 1 | RWork \<Rightarrow> 2 | REnd \<Rightarrow> (0 :: nat))"
    by (cases t) (auto simp: engine_step_def workers_ended_def train_step_def update_step_def sync_step_def Let_def)
next
  fix s assume "workers_ended s \<and> \<not> is_running (coord s)" "\<not> run_returns s"
  then have "engine_step p RolloutT s \<noteq> None"
    by (cases "rollout_at s") (auto simp: engine_step_def rollout_step_def workers_ended_def run_returns_def)
  then show "\<exists>t. \<not> t \<noteq> RolloutT \<and> engine_step p t s \<noteq> None" by blast
next
  fix s s' b t assume "workers_ended s \<and> \<not> is_running (coord s)" "b \<noteq> RolloutT" "engine_step p b s = Some s'"
  then show "engine_step p t s' \<noteq> None"
    by (cases b) (auto simp: engine_step_def workers_ended_def train_step_def update_step_def sync_step_def Let_def)
qed

subsection \<open>Every orderly run ends\<close>

lemma run_live:
  assumes "no_failures p" "\<And>n. orderly (run_schedule (engine_step p) sched init_engine n)"
  shows "live p (run_schedule (engine_step p) sched init_engine n)"
proof (induction n)
  case (Suc n)
  then show ?case using live_step [OF Suc assms(1) assms(2) [of n]] by (auto intro: turn_invariant)
qed (simp add: live_init)

lemma stopped_forever:
  assumes "live p s" "\<not> is_running (coord s)" "engine_step p t s = Some s'"
  shows "\<not> is_running (coord s')"
proof (cases t)
  case TrainT
  have "stopping (train_at s)" using running_iff [of p s] assms(1,2) by (simp add: live_def engine_inv_def)
  then have "\<exists>k. train_at s = TStop (Suc k)" using assms(3) TrainT
    by (cases "train_at s") (auto simp: engine_step_def train_step_def gr0_conv_Suc)
  then obtain k where "train_at s = TStop (Suc k)" ..
  moreover have "k < 4" using calculation assms(1) by (simp add: live_def engine_inv_def well_formed_def coord_calls)
  then have "k \<in> {0, 1, 2, 3}" by auto
  ultimately show ?thesis using assms TrainT
    by (elim insertE emptyE) (auto simp: engine_step_def train_step_def Let_def stop_calls_def is_running_def)
qed (use assms other_steps_keep [of p s s'] in \<open>auto simp: engine_step_def is_running_def\<close>)

lemma rollouts_grow: "engine_step p t s = Some s' \<Longrightarrow> rollouts s \<le> rollouts s'"
  using other_steps_keep(1,2) [of p s s']
  by (cases t) (auto simp: engine_step_def train_step_def rollout_step_def Let_def
      split: train_pc.splits rollout_pc.splits if_splits)

lemma data_stays:
  assumes "live p s" "\<not> is_running (coord s) \<or> K \<le> rollouts s" "engine_step p t s = Some s'"
  shows "\<not> is_running (coord s') \<or> K \<le> rollouts s'"
  using assms stopped_forever rollouts_grow by (meson order_trans)

lemma workers_stay_ended:
  assumes "workers_ended s \<and> \<not> is_running (coord s)" "engine_step p t s = Some s'"
  shows "workers_ended s' \<and> \<not> is_running (coord s')"
  using assms
  by (cases t) (auto simp: engine_step_def workers_ended_def train_step_def update_step_def sync_step_def
      rollout_step_def Let_def split: rollout_pc.splits if_splits)

text \<open>C16: every fair run of the asynchronous engine returns: when the coordinator has been started before the
  update thread announces its first dataset, updates, synchronisations and rollouts do not raise, and the
  buffer holds a batch from some number of rollouts on, then under every fair schedule all four threads
  end, every epoch is trained unless a training raises, and the checkpoints due are written.\<close>
theorem fair_run_returns:
  assumes "fair sched" "\<forall>n. orderly (run_schedule (engine_step p) sched init_engine n)" "no_failures p"
    "\<forall>k \<ge> K. batch_size p \<le> buffer_size p k"
  shows "\<exists>n. let s = run_schedule (engine_step p) sched init_engine n
     in run_returns s \<and> (trained s = max_epochs p \<or> train_raises p (trained s))
        \<and> saved s = filter (saves_at p) [0..<trained s]"
proof -
  let ?run = "run_schedule (engine_step p) sched init_engine"
  have live: "live p (?run n)" for n using run_live assms(2,3) by blast
  obtain N where N: "\<not> is_running (coord (?run N)) \<or> K \<le> rollouts (?run N)"
    using rollouts.reaches_goal [OF assms(1), where p = p and k = K and s = init_engine and N = 0] assms(3) live by blast
  have "data_or_done p (?run n)" if "N \<le> n" for n
    using run_schedule_stays [where I = "live p" and P = "\<lambda>s. \<not> is_running (coord s) \<or> K \<le> rollouts s", OF live data_stays N that] assms(4)
    by (auto simp: data_or_done_def enough_data_def)
  then obtain M where M: "workers_ended (?run M)" using workers.reaches_goal [OF assms(1) live] by blast
  then have "workers_ended (?run M) \<and> \<not> is_running (coord (?run M))"
    using live [of M] running_iff [of p "?run M"] by (simp add: live_def engine_inv_def workers_ended_def)
  then have "workers_ended (run_schedule (engine_step p) (\<lambda>i. sched (M + i)) (?run M) n)
       \<and> \<not> is_running (coord (run_schedule (engine_step p) (\<lambda>i. sched (M + i)) (?run M) n))" for n
    by (rule run_schedule_invariant) (rule workers_stay_ended)
  then obtain n where "run_returns (run_schedule (engine_step p) (\<lambda>i. sched (M + i)) (?run M) n)"
    using last_rollout.reaches_goal [OF fair_shift [OF assms(1)], where p = p and N = 0 and s = "?run M"] by blast
  then have "run_returns (?run (M + n))" by (simp only: run_schedule_add)
  then show ?thesis using live [of "M + n"]
    by (intro exI [of _ "M + n"]) (simp add: run_returns_def live_def engine_inv_def well_formed_def)
qed

text \<open>A schedule that starts the coordinator first is orderly, whatever it does later.\<close>

lemma started_stays: "\<not> starting (train_at s) \<Longrightarrow> engine_step p t s = Some s' \<Longrightarrow> \<not> starting (train_at s')"
  using other_steps_keep [of p s s']
  by (cases t) (auto simp: engine_step_def train_step_def Let_def split: train_pc.splits if_splits)

lemma start_first_orderly:
  assumes "\<forall>i < 5. sched i = TrainT"
  shows "orderly (run_schedule (engine_step p) sched init_engine n)"
proof (cases "n < 5")
  case True
  then have "update_at (run_schedule (engine_step p) sched init_engine n) = UCheck"
  proof (induction n)
    case (Suc n)
    then show ?case using assms
      by (auto simp: turn_def engine_step_def train_step_def Let_def split: option.splits train_pc.splits if_splits)
  qed (simp add: init_engine_def)
  then show ?thesis by (simp add: orderly_def)
next
  case False
  have "\<not> starting (train_at (run_schedule (engine_step p) sched init_engine 5))"
    using assms by (simp add: numeral_eq_Suc turn_def engine_step_def train_step_def start_calls_def Let_def init_engine_def)
  then have "\<not> starting (train_at (run_schedule (engine_step p) sched init_engine n))"
    using run_schedule_stays [of "\<lambda>_. True" "engine_step p" sched init_engine "\<lambda>s. \<not> starting (train_at s)" 5 n]
      started_stays False by auto
  then show ?thesis by (simp add: orderly_def)
qed

definition round_robin :: "nat \<Rightarrow> engine_thread" where
  "round_robin n = (if n < 5 then TrainT else [RolloutT, UpdateT, TrainT, SyncT] ! (n mod 4))"

lemma round_robin_fair: "fair round_robin"
  unfolding fair_def
proof (intro allI)
  fix t n
  obtain i where i: "i < 4" "[RolloutT, UpdateT, TrainT, SyncT] ! i = t"
    by (cases t) (auto intro: that [of 0] that [of 1] that [of 2] that [of 3])
  have "(i + 4 * (n + 2)) mod 4 = i" using i(1) by (simp only: mod_mult_self2 mod_less)
  moreover have "\<not> i + 4 * (n + 2) < 5" "n \<le> i + 4 * (n + 2)" by simp_all
  ultimately show "\<exists>m \<ge> n. round_robin m = t"
    using i by (intro exI [of _ "i + 4 * (n + 2)"]) (simp only: round_robin_def if_False simp_thms)
qed

lemma fair_run_returns_witness:
  "\<exists>n. let s = run_schedule (engine_step small_engine) round_robin init_engine n
     in run_returns s \<and> (trained s = 1 \<or> False) \<and> saved s = filter (saves_at small_engine) [0..<trained s]"
  using fair_run_returns [OF round_robin_fair, of small_engine 0] start_first_orderly [of round_robin]
  by (simp add: small_engine_def no_failures_def round_robin_def)

end
