(* ===== verification/Sync_Engine.thy ===== *)
theory Sync_Engine
  imports Prelude
begin

text \<open>
  \<open>rlightning/engine/sync_rl_engine.py\<close> and the hooks of \<open>base_engine.py\<close>: one epoch after the other,
  in one thread. The calls are recorded with what is on the device when they are made.
\<close>

subsection \<open>What is on the device\<close>

record device =
  train_params :: bool
  train_grads :: bool
  train_optimizer :: bool
  eval_model :: bool
  env_sims :: bool

definition reload_rollout :: "bool \<Rightarrow> device \<Rightarrow> device" where
  "reload_rollout offload d = (if offload then d\<lparr>eval_model := True, env_sims := True\<rparr> else d)"

definition offload_rollout :: "bool \<Rightarrow> device \<Rightarrow> device" where
  "offload_rollout offload d = (if offload then d\<lparr>eval_model := False, env_sims := False\<rparr> else d)"

definition pre_train_hook :: "bool \<Rightarrow> device \<Rightarrow> device" where
  "pre_train_hook offload d =
     (if offload then d\<lparr>train_params := True, train_grads := True, train_optimizer := True\<rparr> else d)"

definition pre_sync_weights_hook :: "bool \<Rightarrow> device \<Rightarrow> device" where
  "pre_sync_weights_hook offload d = (if offload then d\<lparr>train_optimizer := False\<rparr> else d)"

definition post_sync_weights_hook :: "bool \<Rightarrow> device \<Rightarrow> device" where
  "post_sync_weights_hook offload d = (if offload then d\<lparr>train_params := False, train_grads := False\<rparr> else d)"

subsection \<open>The engine\<close>

record sync_params =
  sp_epochs :: nat
  sp_eval_interval :: int
  sp_save_interval :: int
  sp_offload :: bool
  sp_debug :: bool

datatype engine_call =
    Rollout string string | UpdateDataset | Train | SyncWeights | Evaluate string string
  | SaveEpoch nat | SaveLast | WarmUpRollout | ResetTrainingState | VerifyWeights

record sync_engine =
  se_device :: device
  se_log :: "(engine_call \<times> device) list"

definition made :: "engine_call \<Rightarrow> sync_engine \<Rightarrow> sync_engine" where
  "made call s = s\<lparr>se_log := se_log s @ [(call, se_device s)]\<rparr>"

definition on_device :: "(device \<Rightarrow> device) \<Rightarrow> sync_engine \<Rightarrow> sync_engine" where
  "on_device f s = s\<lparr>se_device := f (se_device s)\<rparr>"

definition engine_rollout :: "sync_params \<Rightarrow> string \<Rightarrow> string \<Rightarrow> sync_engine \<Rightarrow> sync_engine" where
  "engine_rollout p obj_set prefix s =
     on_device (offload_rollout (sp_offload p))
       (made (Rollout obj_set prefix) (on_device (reload_rollout (sp_offload p)) s))"

definition engine_evaluate :: "sync_params \<Rightarrow> string \<Rightarrow> string \<Rightarrow> sync_engine \<Rightarrow> sync_engine" where
  "engine_evaluate p obj_set prefix s =
     on_device (offload_rollout (sp_offload p))
       (made (Evaluate obj_set prefix) (on_device (reload_rollout (sp_offload p)) s))"

definition engine_train :: "sync_params \<Rightarrow> sync_engine \<Rightarrow> sync_engine" where
  "engine_train p s = made Train (on_device (pre_train_hook (sp_offload p)) s)"

definition engine_sync_weights :: "sync_params \<Rightarrow> sync_engine \<Rightarrow> sync_engine" where
  "engine_sync_weights p s =
     on_device (post_sync_weights_hook (sp_offload p))
       (made SyncWeights (on_device (pre_sync_weights_hook (sp_offload p)) s))"

text \<open>The two evaluations, on the objects trained on and on others.\<close>

definition evaluate_both :: "sync_params \<Rightarrow> sync_engine \<Rightarrow> sync_engine" where
  "evaluate_both p s = engine_evaluate p ''test'' ''eval_ood'' (engine_evaluate p ''train'' ''eval'' s)"

definition save_due :: "sync_params \<Rightarrow> nat \<Rightarrow> bool result" where
  "save_due p e =
     (if 0 < sp_eval_interval p
      then bind_result (guard ZeroDivisionError (sp_save_interval p \<noteq> 0)) (\<lambda>_. Inr (int e mod sp_save_interval p = 0))
      else Inr False)"

definition eval_due :: "sync_params \<Rightarrow> nat \<Rightarrow> bool" where
  "eval_due p e \<longleftrightarrow> 0 < sp_eval_interval p \<and> int e mod sp_eval_interval p = 0"

definition sync_epoch :: "sync_params \<Rightarrow> sync_engine \<Rightarrow> nat \<Rightarrow> sync_engine result" where
  "sync_epoch p s e =
     (let s1 = engine_train p (made UpdateDataset (engine_rollout p ''train'' ''rollout'' s))
      in bind_result (save_due p e) (\<lambda>save.
         let s2 = engine_sync_weights p (if save then made (SaveEpoch e) s1 else s1)
         in Inr (if eval_due p e then evaluate_both p s2 else s2)))"

definition sync_run :: "sync_params \<Rightarrow> sync_engine \<Rightarrow> sync_engine result" where
  "sync_run p s =
     bind_result (foldM (sync_epoch p) s [0..<sp_epochs p]) (\<lambda>s1. Inr (made SaveLast (evaluate_both p s1)))"

subsection \<open>Starting it\<close>

text \<open>
  \<open>__init__\<close>: the train policy, off the device again when offloading, then the eval policy, then the
  warm up, or only a synchronisation of the weights.
\<close>

definition device_at_init :: "sync_params \<Rightarrow> device" where
  "device_at_init p =
     \<lparr>train_params = \<not> sp_offload p, train_grads = \<not> sp_offload p, train_optimizer = \<not> sp_offload p,
      eval_model = True, env_sims = True\<rparr>"

definition sync_warm_up :: "sync_params \<Rightarrow> sync_engine \<Rightarrow> sync_engine" where
  "sync_warm_up p s =
     engine_sync_weights p (made ResetTrainingState (engine_train p (made UpdateDataset
       (on_device (offload_rollout (sp_offload p)) (made WarmUpRollout s)))))"

definition new_sync_engine :: "sync_params \<Rightarrow> sync_engine" where
  "new_sync_engine p =
     (let s = \<lparr>se_device = device_at_init p, se_log = []\<rparr>
      in made VerifyWeights (if sp_debug p then sync_warm_up p s else made SyncWeights s))"


text \<open>
  What is on the device when the synchronous engine makes its calls, and which checkpoints it writes.
\<close>

subsection \<open>Sharing the device\<close>

text \<open>
  A call finds what it needs, and with offloading the train and the eval side are never on the device
  together once the engine runs.
\<close>

definition side_by_side :: "device \<Rightarrow> bool" where
  "side_by_side d \<longleftrightarrow> (train_params d \<or> train_grads d \<or> train_optimizer d) \<and> (eval_model d \<or> env_sims d)"

fun needs :: "engine_call \<Rightarrow> device \<Rightarrow> bool" where
  "needs (Rollout o' p) d = (eval_model d \<and> env_sims d)"
| "needs (Evaluate o' p) d = (eval_model d \<and> env_sims d)"
| "needs Train d = (train_params d \<and> train_grads d \<and> train_optimizer d)"
| "needs SyncWeights d = (train_params d \<and> \<not> train_optimizer d)"
| "needs (SaveEpoch e) d = train_params d"
| "needs c d = True"

definition train_off :: "device \<Rightarrow> bool" where
  "train_off d \<longleftrightarrow> \<not> train_params d \<and> \<not> train_grads d \<and> \<not> train_optimizer d"

definition good_log :: "(engine_call \<times> device) list \<Rightarrow> bool" where
  "good_log log \<longleftrightarrow> (\<forall>(c, d) \<in> set log. needs c d \<and> \<not> side_by_side d)"

definition between_epochs :: "sync_engine \<Rightarrow> bool" where
  "between_epochs s \<longleftrightarrow> train_off (se_device s) \<and> good_log (se_log s)"

lemmas device_ops =
  made_def on_device_def engine_rollout_def engine_evaluate_def engine_train_def engine_sync_weights_def
  reload_rollout_def offload_rollout_def pre_train_hook_def pre_sync_weights_hook_def post_sync_weights_hook_def

lemma evaluate_both_good:
  "sp_offload p \<Longrightarrow> between_epochs s \<Longrightarrow> between_epochs (evaluate_both p s)"
  by (simp add: evaluate_both_def device_ops between_epochs_def train_off_def good_log_def side_by_side_def)

lemma epoch_good:
  assumes "sp_offload p" "between_epochs s" "sync_epoch p s e = Inr s'"
  shows "between_epochs s'"
proof -
  obtain save where save: "save_due p e = Inr save" using assms(3) by (auto simp: sync_epoch_def Let_def bind_result_eq_Inr)
  define s2 where "s2 = engine_sync_weights p (if save then made (SaveEpoch e) (engine_train p (made UpdateDataset (engine_rollout p ''train'' ''rollout'' s)))
      else engine_train p (made UpdateDataset (engine_rollout p ''train'' ''rollout'' s)))"
  have "between_epochs s2" using assms(1,2)
    by (simp add: s2_def device_ops between_epochs_def train_off_def good_log_def side_by_side_def)
  moreover have "s' = (if eval_due p e then evaluate_both p s2 else s2)"
    using assms(3) save by (simp only: sync_epoch_def Let_def s2_def bind_result_Inr sum.inject)
  ultimately show ?thesis using evaluate_both_good [OF assms(1)] by simp
qed

text \<open>C22: with offloading, a run that starts with the train side off the device never has parts of the train
  side and of the rollout side on the device together at any call it makes: rollouts and evaluations find
  the eval model and the environments, training finds parameters, gradients and optimizer, and weights are
  sent and checkpoints of an epoch written while the parameters are still there.\<close>
theorem offloading_keeps_apart:
  assumes "sp_offload p" "train_off (se_device s)" "se_log s = []" "sync_run p s = Inr s'"
  shows "\<forall>(c, d) \<in> set (se_log s'). (c \<noteq> SaveLast \<longrightarrow> needs c d) \<and> \<not> side_by_side d"
proof -
  obtain s1 where s1: "foldM (sync_epoch p) s [0..<sp_epochs p] = Inr s1" "s' = made SaveLast (evaluate_both p s1)"
    using assms(4) by (auto simp: sync_run_def bind_result_eq_Inr)
  have "between_epochs s" using assms(2,3) by (simp add: between_epochs_def good_log_def)
  with s1(1) have "between_epochs s1"
    by (rule foldM_invariant) (rule epoch_good [OF assms(1)])
  then have "between_epochs (evaluate_both p s1)" by (rule evaluate_both_good [OF assms(1)])
  then show ?thesis unfolding s1(2) by (auto simp: made_def between_epochs_def good_log_def train_off_def side_by_side_def)
qed

text \<open>One epoch, rolled out and trained with offloading.\<close>

definition small_sync :: sync_params where
  "small_sync = \<lparr>sp_epochs = 1, sp_eval_interval = 1, sp_save_interval = 1, sp_offload = True, sp_debug = False\<rparr>"

definition cold_start :: sync_engine where
  "cold_start = \<lparr>se_device = \<lparr>train_params = False, train_grads = False, train_optimizer = False, eval_model = True,
     env_sims = True\<rparr>, se_log = []\<rparr>"

lemma offloading_keeps_apart_witness:
  "\<exists>s'. sync_run small_sync cold_start = Inr s' \<and> (\<forall>(c, d) \<in> set (se_log s'). (c \<noteq> SaveLast \<longrightarrow> needs c d) \<and> \<not> side_by_side d)"
proof -
  have "\<exists>s'. sync_run small_sync cold_start = Inr s'"
    by (simp add: sync_run_def sync_epoch_def save_due_def small_sync_def Let_def)
  then show ?thesis using offloading_keeps_apart [of small_sync cold_start]
    by (auto simp: small_sync_def cold_start_def train_off_def)
qed

text \<open>With offloading and without the warm up of the debug mode, the constructor synchronises the weights
  while the parameters of the train policy are off the device and the eval model is on it.\<close>
theorem initial_sync_offloaded:
  assumes "sp_offload p" "\<not> sp_debug p"
  shows "\<exists>d. (SyncWeights, d) \<in> set (se_log (new_sync_engine p)) \<and> \<not> needs SyncWeights d \<and> \<not> train_params d \<and> eval_model d"
  using assms by (intro exI [of _ "device_at_init p"]) (simp add: new_sync_engine_def device_at_init_def made_def Let_def)

lemma initial_sync_offloaded_witness:
  "\<exists>d. (SyncWeights, d) \<in> set (se_log (new_sync_engine small_sync)) \<and> \<not> needs SyncWeights d \<and> \<not> train_params d \<and> eval_model d"
  by (rule initial_sync_offloaded) (simp_all add: small_sync_def)

subsection \<open>The calls of a run\<close>

definition calls_made :: "sync_engine \<Rightarrow> engine_call list" where
  "calls_made s = map fst (se_log s)"

definition checkpoint_due :: "sync_params \<Rightarrow> nat \<Rightarrow> bool" where
  "checkpoint_due p e \<longleftrightarrow> 0 < sp_eval_interval p \<and> int e mod sp_save_interval p = 0"

definition evaluations :: "engine_call list" where
  "evaluations = [Evaluate ''train'' ''eval'', Evaluate ''test'' ''eval_ood'']"

definition epoch_calls :: "sync_params \<Rightarrow> nat \<Rightarrow> engine_call list" where
  "epoch_calls p e =
     [Rollout ''train'' ''rollout'', UpdateDataset, Train] @ (if checkpoint_due p e then [SaveEpoch e] else [])
     @ [SyncWeights] @ (if eval_due p e then evaluations else [])"

lemma calls_simps:
  "calls_made (made c s) = calls_made s @ [c]" "calls_made (on_device f s) = calls_made s"
  by (simp_all add: calls_made_def made_def on_device_def)

lemma calls_evaluate: "calls_made (evaluate_both p s) = calls_made s @ evaluations"
  by (simp add: evaluate_both_def engine_evaluate_def calls_simps evaluations_def)

lemma epoch_calls_made:
  assumes "0 < sp_eval_interval p \<longrightarrow> sp_save_interval p \<noteq> 0"
  shows "\<exists>s'. sync_epoch p s e = Inr s' \<and> calls_made s' = calls_made s @ epoch_calls p e"
proof -
  have "save_due p e = Inr (checkpoint_due p e)" using assms by (simp add: save_due_def checkpoint_due_def)
  then show ?thesis
    by (simp add: sync_epoch_def Let_def epoch_calls_def engine_train_def engine_rollout_def engine_sync_weights_def
        calls_simps calls_evaluate)
qed

lemma epochs_calls_made:
  assumes "0 < sp_eval_interval p \<longrightarrow> sp_save_interval p \<noteq> 0"
  shows "\<exists>s'. foldM (sync_epoch p) s es = Inr s' \<and> calls_made s' = calls_made s @ concat (map (epoch_calls p) es)"
proof (induction es arbitrary: s)
  case (Cons e es)
  obtain t where "sync_epoch p s e = Inr t" "calls_made t = calls_made s @ epoch_calls p e"
    using epoch_calls_made [OF assms] by blast
  then show ?case using Cons.IH [of t] by auto
qed simp

definition saved_epochs :: "sync_engine \<Rightarrow> nat list" where
  "saved_epochs s = concat (map (\<lambda>c. case c of SaveEpoch e \<Rightarrow> [e] | _ \<Rightarrow> []) (calls_made s))"

text \<open>The synchronous engine runs every epoch as rollout, dataset, training, checkpoint when due,
  synchronisation, evaluations when due, and ends with both evaluations and the last checkpoint; the epochs
  saved are those the save interval divides, but only when the evaluation interval is positive. With a
  positive evaluation interval and the save interval 0 the first epoch raises \<open>ZeroDivisionError\<close> instead.\<close>
theorem sync_run_calls:
  shows "if 0 < sp_eval_interval p \<and> sp_save_interval p = 0 \<and> 0 < sp_epochs p
    then sync_run p s = Inl ZeroDivisionError
    else \<exists>s'. sync_run p s = Inr s'
       \<and> calls_made s' = calls_made s @ concat (map (epoch_calls p) [0..<sp_epochs p]) @ evaluations @ [SaveLast]
       \<and> saved_epochs s' = saved_epochs s @ filter (checkpoint_due p) [0..<sp_epochs p]"
proof (cases "0 < sp_eval_interval p \<and> sp_save_interval p = 0 \<and> 0 < sp_epochs p")
  case True
  then have "sync_run p s = Inl ZeroDivisionError"
    by (simp add: upt_conv_Cons sync_run_def sync_epoch_def save_due_def Let_def)
  with True show ?thesis by (simp only: if_True simp_thms)
next
  case False
  have saves: "concat (map (\<lambda>c. case c of SaveEpoch e \<Rightarrow> [e] | _ \<Rightarrow> []) (epoch_calls p e)) = filter (checkpoint_due p) [e]" for e
    by (cases "eval_due p e"; cases "checkpoint_due p e") (simp_all add: epoch_calls_def evaluations_def)
  have "\<exists>s'. foldM (sync_epoch p) s [0..<sp_epochs p] = Inr s'
      \<and> calls_made s' = calls_made s @ concat (map (epoch_calls p) [0..<sp_epochs p])"
  proof (cases "sp_epochs p")
    case (Suc n)
    with False have "0 < sp_eval_interval p \<longrightarrow> sp_save_interval p \<noteq> 0" by simp
    then show ?thesis by (rule epochs_calls_made)
  qed simp
  then obtain t where t: "foldM (sync_epoch p) s [0..<sp_epochs p] = Inr t"
      "calls_made t = calls_made s @ concat (map (epoch_calls p) [0..<sp_epochs p])" by blast
  define s' where "s' = made SaveLast (evaluate_both p t)"
  have c: "calls_made s' = calls_made s @ concat (map (epoch_calls p) [0..<sp_epochs p]) @ evaluations @ [SaveLast]"
    by (simp add: s'_def calls_simps calls_evaluate t(2))
  have "concat (map (\<lambda>c. case c of SaveEpoch e \<Rightarrow> [e] | _ \<Rightarrow> []) (concat (map (epoch_calls p) es))) = filter (checkpoint_due p) es" for es
    by (induction es) (simp_all add: saves)
  then have "saved_epochs s' = saved_epochs s @ filter (checkpoint_due p) [0..<sp_epochs p]"
    by (simp add: saved_epochs_def c evaluations_def)
  moreover have "sync_run p s = Inr s'" by (simp add: sync_run_def t(1) s'_def)
  ultimately have "\<exists>s'. sync_run p s = Inr s'
       \<and> calls_made s' = calls_made s @ concat (map (epoch_calls p) [0..<sp_epochs p]) @ evaluations @ [SaveLast]
       \<and> saved_epochs s' = saved_epochs s @ filter (checkpoint_due p) [0..<sp_epochs p]" using c by blast
  with False show ?thesis by (simp only: if_False simp_thms)
qed


end
