(* ===== verification/Policy_Worker.thy ===== *)
theory Policy_Worker
  imports Fair_Threads
begin

text \<open>
  The eval policy of \<open>rlightning/policy/base_policy.py\<close> in the synchronous rollout mode: the actor
  thread answers one call after the other, the updater thread loads the weights that were delivered. They
  share the events \<open>_idle_as_infer\<close>, \<open>_update_weights_signal\<close> and \<open>_weight_update_done\<close>; every
  operation on an event is a step. Weights are version numbers, \<open>0\<close> those the policy was built with.
  A load may raise, before or after it has replaced some parameters, and a wait for the update has a time
  limit: which loads raise and which waits reach their limit is a parameter, the \<open>scenario\<close>.
\<close>

text \<open>How a load ends: complete, refused with nothing replaced, or broken off with some parameters replaced.\<close>

datatype load_end = Loads | Refused | Broken

record scenario =
  load_of :: "nat \<Rightarrow> load_end"
  wait_expires :: "nat \<Rightarrow> bool"

text \<open>
  \<open>loaded\<close> is the version of the parameters, \<open>None\<close> after a load that was broken off; \<open>loads\<close> logs the versions
  the updater tried and how their loads ended, \<open>waited\<close> what the waits for an update returned.
\<close>

record policy_worker =
  idle :: bool
  signal :: bool
  update_done :: bool
  delivered :: nat
  loaded :: "nat option"
  loads :: "(nat \<times> load_end) list"
  waited :: "bool list"

text \<open>
  The calls the group submits to the actor: a rollout or a postprocessing, which may raise, the check that it
  is idle, the delivery of a version to the weight buffer, the notification, and waiting for the update.
\<close>

datatype actor_call = CallRollout bool | CallPostprocess bool | CallCheckIdle | CallDeliver nat | CallNotify | CallWaitDone

datatype actor_pc = AReady | AAcquire bool | AClearIdle bool | AInfer bool | ARelease | ACheckIdle | AClearDone | ASignal | AAwaitDone

datatype updater_pc = PWaitSignal | PWaitIdle | PClearIdle | PLoad | PSetIdle | PClearSignal | PSetDone

record policy_system =
  wk :: policy_worker
  actor_at :: actor_pc
  updater_at :: updater_pc
  calls :: "actor_call list"

definition init_eval_worker :: policy_worker where
  "init_eval_worker = \<lparr>idle = True, signal = False, update_done = True, delivered = 0, loaded = Some 0, loads = [], waited = []\<rparr>"

definition init_policy :: "actor_call list \<Rightarrow> policy_system" where
  "init_policy cs = \<lparr>wk = init_eval_worker, actor_at = AReady, updater_at = PWaitSignal, calls = cs\<rparr>"

text \<open>
  \<open>_rollout\<close> and \<open>_postprocess\<close>: wait for the event, clear it, compute, set it again. A computation that
  raises leaves the event cleared, and the exception goes to the caller. \<open>wait_for_weight_update_done\<close> answers
  \<open>True\<close> when the event is set, and \<open>False\<close> when the limit is reached first.
\<close>

definition actor_step :: "scenario \<Rightarrow> policy_system \<Rightarrow> policy_system option" where
  "actor_step sc s =
     (let w = wk s in
      case actor_at s of
        AReady \<Rightarrow>
          (case calls s of
             [] \<Rightarrow> None
           | CallRollout ok # cs \<Rightarrow> Some (s\<lparr>actor_at := AAcquire ok, calls := cs\<rparr>)
           | CallPostprocess ok # cs \<Rightarrow> Some (s\<lparr>actor_at := AAcquire ok, calls := cs\<rparr>)
           | CallCheckIdle # cs \<Rightarrow> Some (s\<lparr>actor_at := ACheckIdle, calls := cs\<rparr>)
           | CallDeliver v # cs \<Rightarrow> Some (s\<lparr>wk := w\<lparr>delivered := v\<rparr>, calls := cs\<rparr>)
           | CallNotify # cs \<Rightarrow> Some (s\<lparr>actor_at := AClearDone, calls := cs\<rparr>)
           | CallWaitDone # cs \<Rightarrow> Some (s\<lparr>actor_at := AAwaitDone, calls := cs\<rparr>))
      | AAcquire ok \<Rightarrow> if idle w then Some (s\<lparr>actor_at := AClearIdle ok\<rparr>) else None
      | AClearIdle ok \<Rightarrow> Some (s\<lparr>wk := w\<lparr>idle := False\<rparr>, actor_at := AInfer ok\<rparr>)
      | AInfer ok \<Rightarrow> Some (s\<lparr>actor_at := if ok then ARelease else AReady\<rparr>)
      | ARelease \<Rightarrow> Some (s\<lparr>wk := w\<lparr>idle := True\<rparr>, actor_at := AReady\<rparr>)
      | ACheckIdle \<Rightarrow> if idle w then Some (s\<lparr>actor_at := AReady\<rparr>) else None
      | AClearDone \<Rightarrow> Some (s\<lparr>wk := w\<lparr>update_done := False\<rparr>, actor_at := ASignal\<rparr>)
      | ASignal \<Rightarrow> Some (s\<lparr>wk := w\<lparr>signal := True\<rparr>, actor_at := AReady\<rparr>)
      | AAwaitDone \<Rightarrow>
          if update_done w then Some (s\<lparr>wk := w\<lparr>waited := waited w @ [True]\<rparr>, actor_at := AReady\<rparr>)
          else if wait_expires sc (length (waited w)) then Some (s\<lparr>wk := w\<lparr>waited := waited w @ [False]\<rparr>, actor_at := AReady\<rparr>)
          else None)"

text \<open>
  \<open>update_weights\<close> between its hooks. A load that raises is logged, and \<open>_post_update_weights_hook\<close> sets the
  events all the same.
\<close>

definition load_weights :: "scenario \<Rightarrow> policy_worker \<Rightarrow> policy_worker" where
  "load_weights sc w =
     (let e = load_of sc (length (loads w)) in
      w\<lparr>loaded := (case e of Loads \<Rightarrow> Some (delivered w) | Refused \<Rightarrow> loaded w | Broken \<Rightarrow> None),
        loads := loads w @ [(delivered w, e)]\<rparr>)"

definition updater_step :: "scenario \<Rightarrow> policy_system \<Rightarrow> policy_system option" where
  "updater_step sc s =
     (let w = wk s in
      case updater_at s of
        PWaitSignal \<Rightarrow> if signal w then Some (s\<lparr>updater_at := PWaitIdle\<rparr>) else None
      | PWaitIdle \<Rightarrow> if idle w then Some (s\<lparr>updater_at := PClearIdle\<rparr>) else None
      | PClearIdle \<Rightarrow> Some (s\<lparr>wk := w\<lparr>idle := False\<rparr>, updater_at := PLoad\<rparr>)
      | PLoad \<Rightarrow> Some (s\<lparr>wk := load_weights sc w, updater_at := PSetIdle\<rparr>)
      | PSetIdle \<Rightarrow> Some (s\<lparr>wk := w\<lparr>idle := True\<rparr>, updater_at := PClearSignal\<rparr>)
      | PClearSignal \<Rightarrow> Some (s\<lparr>wk := w\<lparr>signal := False\<rparr>, updater_at := PSetDone\<rparr>)
      | PSetDone \<Rightarrow> Some (s\<lparr>wk := w\<lparr>update_done := True\<rparr>, updater_at := PWaitSignal\<rparr>))"

datatype policy_thread = ActorT | UpdaterT

definition policy_step :: "scenario \<Rightarrow> policy_thread \<Rightarrow> policy_system \<Rightarrow> policy_system option" where
  "policy_step sc t s = (case t of ActorT \<Rightarrow> actor_step sc s | UpdaterT \<Rightarrow> updater_step sc s)"

inductive policy_reachable :: "scenario \<Rightarrow> actor_call list \<Rightarrow> policy_system \<Rightarrow> bool" for sc cs where
  policy_init: "policy_reachable sc cs (init_policy cs)"
| policy_turn: "policy_reachable sc cs s \<Longrightarrow> policy_step sc t s = Some s' \<Longrightarrow> policy_reachable sc cs s'"

text \<open>
  When the group waits for each update before it submits the next call and no wait reaches its limit, rollouts
  never meet an update, and every version is loaded once and in order. Without the waiting an update can be lost,
  and a rollout can run while the weights are loaded.
\<close>

subsection \<open>Groups that wait for their updates\<close>

fun disciplined :: "actor_call list \<Rightarrow> bool" where
  "disciplined [] = True"
| "disciplined (CallRollout ok # cs) = (ok \<and> disciplined cs)"
| "disciplined (CallPostprocess ok # cs) = (ok \<and> disciplined cs)"
| "disciplined (CallCheckIdle # cs) = disciplined cs"
| "disciplined (CallDeliver v # CallNotify # CallWaitDone # cs) = disciplined cs"
| "disciplined _ = False"

text \<open>The versions that a list of calls delivers.\<close>

fun versions :: "actor_call list \<Rightarrow> nat list" where
  "versions [] = []"
| "versions (CallDeliver v # cs) = v # versions cs"
| "versions (c # cs) = versions cs"

fun computing :: "actor_pc \<Rightarrow> bool" where
  "computing AReady = True"
| "computing (AAcquire ok) = ok"
| "computing (AClearIdle ok) = ok"
| "computing (AInfer ok) = ok"
| "computing ARelease = True"
| "computing ACheckIdle = True"
| "computing _ = False"

fun holds_idle :: "actor_pc \<Rightarrow> bool" where
  "holds_idle (AInfer ok) = True"
| "holds_idle ARelease = True"
| "holds_idle _ = False"

text \<open>After a complete load the policy has the weights delivered last.\<close>

definition fresh_weights :: "policy_worker \<Rightarrow> bool" where
  "fresh_weights w \<longleftrightarrow> loads w = [] \<or> snd (last (loads w)) = Loads \<longrightarrow> loaded w = Some (delivered w)"

lemma fresh_load [simp]: "fresh_weights (load_weights sc w)"
  by (simp add: fresh_weights_def load_weights_def Let_def)

lemma load_weights_simps [simp]:
  "idle (load_weights sc w) = idle w" "signal (load_weights sc w) = signal w"
  "update_done (load_weights sc w) = update_done w" "delivered (load_weights sc w) = delivered w"
  "waited (load_weights sc w) = waited w" "map fst (loads (load_weights sc w)) = map fst (loads w) @ [delivered w]"
  by (simp_all add: load_weights_def Let_def)

lemma fresh_weights_simps [simp]:
  "fresh_weights (w\<lparr>idle := b\<rparr>) = fresh_weights w" "fresh_weights (w\<lparr>signal := b\<rparr>) = fresh_weights w"
  "fresh_weights (w\<lparr>update_done := b\<rparr>) = fresh_weights w" "fresh_weights (w\<lparr>waited := bs\<rparr>) = fresh_weights w"
  by (simp_all add: fresh_weights_def)

text \<open>The versions tried so far and those to come are all the versions, in their order.\<close>

definition in_turn :: "actor_call list \<Rightarrow> policy_worker \<Rightarrow> nat list \<Rightarrow> bool" where
  "in_turn cs w rest \<longleftrightarrow> map fst (loads w) @ rest = versions cs"

lemma in_turn_simps [simp]:
  "in_turn cs (w\<lparr>idle := b\<rparr>) = in_turn cs w" "in_turn cs (w\<lparr>signal := b\<rparr>) = in_turn cs w"
  "in_turn cs (w\<lparr>update_done := b\<rparr>) = in_turn cs w" "in_turn cs (w\<lparr>waited := bs\<rparr>) = in_turn cs w"
  "in_turn cs (w\<lparr>delivered := v\<rparr>) = in_turn cs w" "in_turn cs (load_weights sc w) rest = in_turn cs w (delivered w # rest)"
  by (simp_all add: in_turn_def fun_eq_iff)

text \<open>No update is under way, and all versions delivered so far have been tried.\<close>

definition quiet :: "actor_call list \<Rightarrow> policy_system \<Rightarrow> bool" where
  "quiet cs s \<longleftrightarrow> updater_at s = PWaitSignal \<and> \<not> signal (wk s) \<and> update_done (wk s) \<and> fresh_weights (wk s)
     \<and> in_turn cs (wk s) (versions (calls s))
     \<and> computing (actor_at s) \<and> idle (wk s) = (\<not> holds_idle (actor_at s)) \<and> disciplined (calls s)"

text \<open>A version has been delivered, and the updater is not told yet.\<close>

definition announcing :: "actor_call list \<Rightarrow> policy_system \<Rightarrow> bool" where
  "announcing cs s \<longleftrightarrow> updater_at s = PWaitSignal \<and> \<not> signal (wk s) \<and> idle (wk s)
     \<and> (\<exists>rest. disciplined rest \<and> in_turn cs (wk s) (delivered (wk s) # versions rest)
          \<and> (actor_at s = AReady \<and> calls s = CallNotify # CallWaitDone # rest
           \<or> actor_at s = AClearDone \<and> calls s = CallWaitDone # rest
           \<or> actor_at s = ASignal \<and> calls s = CallWaitDone # rest \<and> \<not> update_done (wk s)))"

text \<open>The update is under way while the actor waits for it.\<close>

definition untried :: "actor_call list \<Rightarrow> actor_call list \<Rightarrow> policy_worker \<Rightarrow> bool" where
  "untried cs rest w \<longleftrightarrow> in_turn cs w (delivered w # versions rest)"

definition tried :: "actor_call list \<Rightarrow> actor_call list \<Rightarrow> policy_worker \<Rightarrow> bool" where
  "tried cs rest w \<longleftrightarrow> in_turn cs w (versions rest) \<and> fresh_weights w"

fun update_stage :: "actor_call list \<Rightarrow> actor_call list \<Rightarrow> updater_pc \<Rightarrow> policy_worker \<Rightarrow> bool" where
  "update_stage cs rest PWaitSignal w =
     (idle w \<and> (signal w \<and> \<not> update_done w \<and> untried cs rest w \<or> \<not> signal w \<and> update_done w \<and> tried cs rest w))"
| "update_stage cs rest PWaitIdle w = (idle w \<and> signal w \<and> \<not> update_done w \<and> untried cs rest w)"
| "update_stage cs rest PClearIdle w = (idle w \<and> signal w \<and> \<not> update_done w \<and> untried cs rest w)"
| "update_stage cs rest PLoad w = (\<not> idle w \<and> signal w \<and> \<not> update_done w \<and> untried cs rest w)"
| "update_stage cs rest PSetIdle w = (\<not> idle w \<and> signal w \<and> \<not> update_done w \<and> tried cs rest w)"
| "update_stage cs rest PClearSignal w = (idle w \<and> signal w \<and> \<not> update_done w \<and> tried cs rest w)"
| "update_stage cs rest PSetDone w = (idle w \<and> \<not> signal w \<and> \<not> update_done w \<and> tried cs rest w)"

definition updating :: "actor_call list \<Rightarrow> policy_system \<Rightarrow> bool" where
  "updating cs s \<longleftrightarrow> (\<exists>rest. disciplined rest \<and> update_stage cs rest (updater_at s) (wk s)
     \<and> (actor_at s = AReady \<and> calls s = CallWaitDone # rest \<or> actor_at s = AAwaitDone \<and> calls s = rest))"

definition policy_inv :: "actor_call list \<Rightarrow> policy_system \<Rightarrow> bool" where
  "policy_inv cs s \<longleftrightarrow> False \<in> set (waited (wk s)) \<or> quiet cs s \<or> announcing cs s \<or> updating cs s"

lemma policy_inv_init: "disciplined cs \<Longrightarrow> policy_inv cs (init_policy cs)"
  by (simp add: policy_inv_def quiet_def init_policy_def init_eval_worker_def in_turn_def fresh_weights_def)

lemma waited_stays: "policy_step sc t s = Some s' \<Longrightarrow> set (waited (wk s)) \<subseteq> set (waited (wk s'))"
  by (cases t)
     (auto simp: policy_step_def actor_step_def updater_step_def Let_def
        split: actor_pc.splits updater_pc.splits list.splits actor_call.splits if_splits)

lemma quiet_step:
  assumes "quiet cs s" "policy_step sc t s = Some s'"
  shows "policy_inv cs s'"
proof (cases t)
  case ActorT
  then have step: "actor_step sc s = Some s'" using assms(2) by (simp add: policy_step_def)
  show ?thesis
  proof (cases "actor_at s")
    case AReady
    from assms(1) AReady step show ?thesis
      by (cases "calls s" rule: disciplined.cases)
         (auto simp: quiet_def announcing_def policy_inv_def actor_step_def Let_def)
  qed (use assms(1) step in \<open>auto simp: quiet_def policy_inv_def actor_step_def Let_def split: if_splits\<close>)
next
  case UpdaterT
  then show ?thesis using assms by (simp add: quiet_def policy_step_def updater_step_def)
qed

lemma announcing_step:
  assumes "announcing cs s" "policy_step sc t s = Some s'"
  shows "policy_inv cs s'"
proof (cases t)
  case ActorT
  then have step: "actor_step sc s = Some s'" using assms(2) by (simp add: policy_step_def)
  obtain rest where rest: "disciplined rest" "in_turn cs (wk s) (delivered (wk s) # versions rest)"
    and at: "updater_at s = PWaitSignal" "\<not> signal (wk s)" "idle (wk s)"
      "actor_at s = AReady \<and> calls s = CallNotify # CallWaitDone # rest
     \<or> actor_at s = AClearDone \<and> calls s = CallWaitDone # rest
     \<or> actor_at s = ASignal \<and> calls s = CallWaitDone # rest \<and> \<not> update_done (wk s)"
    using assms(1) unfolding announcing_def by blast
  from at(4) show ?thesis
  proof (elim disjE conjE)
    assume "actor_at s = ASignal" "calls s = CallWaitDone # rest" "\<not> update_done (wk s)"
    then have "updating cs s'" using step at(1-3) rest
      by (auto simp: updating_def actor_step_def Let_def untried_def)
    then show ?thesis by (simp add: policy_inv_def)
  qed (use step at(1-3) rest in \<open>auto simp: policy_inv_def announcing_def actor_step_def Let_def\<close>)
next
  case UpdaterT
  then show ?thesis using assms by (simp add: announcing_def policy_step_def updater_step_def)
qed

lemma updating_step:
  assumes "updating cs s" "policy_step sc t s = Some s'"
  shows "policy_inv cs s'"
proof -
  obtain rest where rest: "disciplined rest" and stage: "update_stage cs rest (updater_at s) (wk s)"
    and at: "actor_at s = AReady \<and> calls s = CallWaitDone # rest \<or> actor_at s = AAwaitDone \<and> calls s = rest"
    using assms(1) unfolding updating_def by blast
  show ?thesis
  proof (cases t)
    case ActorT
    then have step: "actor_step sc s = Some s'" using assms(2) by (simp add: policy_step_def)
    from at show ?thesis
    proof (elim disjE conjE)
      assume "actor_at s = AReady" "calls s = CallWaitDone # rest"
      then have "updating cs s'" using step stage rest by (auto simp: updating_def actor_step_def)
      then show ?thesis by (simp add: policy_inv_def)
    next
      assume a: "actor_at s = AAwaitDone" "calls s = rest"
      show ?thesis
      proof (cases "update_done (wk s)")
        case True
        then have fin: "s' = s\<lparr>wk := (wk s)\<lparr>waited := waited (wk s) @ [True]\<rparr>, actor_at := AReady\<rparr>"
          using step a by (simp add: actor_step_def Let_def)
        have "updater_at s = PWaitSignal" using stage True by (cases "updater_at s") auto
        then have "quiet cs s'" using fin a stage rest True by (simp add: quiet_def tried_def)
        then show ?thesis by (simp add: policy_inv_def)
      next
        case False
        then have "False \<in> set (waited (wk s'))" using step a by (auto simp: actor_step_def Let_def split: if_splits)
        then show ?thesis by (simp add: policy_inv_def)
      qed
    qed
  next
    case UpdaterT
    then have step: "updater_step sc s = Some s'" using assms(2) by (simp add: policy_step_def)
    then have "update_stage cs rest (updater_at s') (wk s')" using stage
      by (cases "updater_at s") (auto simp: updater_step_def Let_def untried_def tried_def split: if_splits)
    moreover have "actor_at s' = actor_at s" "calls s' = calls s"
      using step by (auto simp: updater_step_def Let_def split: updater_pc.splits if_splits)
    ultimately have "updating cs s'" using at rest by (auto simp: updating_def)
    then show ?thesis by (simp add: policy_inv_def)
  qed
qed

lemma policy_inv_step:
  assumes "policy_inv cs s" "policy_step sc t s = Some s'"
  shows "policy_inv cs s'"
  using assms(1) unfolding policy_inv_def [of cs s]
proof (elim disjE)
  assume "False \<in> set (waited (wk s))"
  then show ?thesis using waited_stays [OF assms(2)] by (auto simp: policy_inv_def)
qed (use assms(2) quiet_step announcing_step updating_step in blast)+

lemma policy_reachable_inv: "policy_reachable sc cs s \<Longrightarrow> disciplined cs \<Longrightarrow> policy_inv cs s"
  by (induction rule: policy_reachable.induct) (auto intro: policy_inv_init policy_inv_step)

text \<open>C20: when the group waits for every update before its next call, no computation raises and no wait has reached its
  limit, then in every interleaving of the actor and the updater, while a computation is under way nothing is being
  loaded or announced, the versions delivered so far have been tried one by one in the order of their delivery,
  and unless the load of the last one raised, the computation uses the version delivered last.\<close>
theorem rollouts_use_delivered_weights:
  assumes "policy_reachable sc cs s" "disciplined cs" "False \<notin> set (waited (wk s))" "actor_at s = AInfer ok"
  shows "updater_at s = PWaitSignal \<and> \<not> signal (wk s)
    \<and> map fst (loads (wk s)) @ versions (calls s) = versions cs
    \<and> (loads (wk s) = [] \<or> snd (last (loads (wk s))) = Loads \<longrightarrow> loaded (wk s) = Some (delivered (wk s)))"
proof -
  have "quiet cs s" using policy_reachable_inv [OF assms(1,2)] assms(3,4)
    unfolding policy_inv_def announcing_def updating_def by auto
  then show ?thesis by (simp add: quiet_def in_turn_def fresh_weights_def)
qed

text \<open>A scenario in which nothing fails, and one in which the first load is refused.\<close>

definition smooth :: scenario where
  "smooth = \<lparr>load_of = \<lambda>i. Loads, wait_expires = \<lambda>i. False\<rparr>"

definition refuses_first :: scenario where
  "refuses_first = \<lparr>load_of = \<lambda>i. if i = 0 then Refused else Loads, wait_expires = \<lambda>i. False\<rparr>"

definition update_then_rollout :: "scenario \<Rightarrow> policy_system" where
  "update_then_rollout sc = run_turns (policy_step sc)
     (replicate 4 ActorT @ replicate 7 UpdaterT @ replicate 5 ActorT)
     (init_policy [CallDeliver 1, CallNotify, CallWaitDone, CallRollout True])"

lemma policy_turns_reachable: "policy_reachable sc cs s \<Longrightarrow> policy_reachable sc cs (run_turns (policy_step sc) ts s)"
proof (induction ts arbitrary: s)
  case (Cons t ts)
  have "policy_reachable sc cs (turn (policy_step sc) t s)"
    using Cons.prems by (rule turn_invariant) (rule policy_turn [OF Cons.prems])
  then show ?case using Cons.IH by (simp add: run_turns_simps)
qed (simp add: run_turns_simps)

lemma update_then_rollout_at:
  "actor_at (update_then_rollout smooth) = AInfer True" "waited (wk (update_then_rollout smooth)) = [True]"
  "delivered (wk (update_then_rollout smooth)) = 1" "loads (wk (update_then_rollout smooth)) = [(1, Loads)]"
  by code_simp+

lemma rollouts_use_delivered_weights_witness:
  "loaded (wk (update_then_rollout smooth)) = Some 1 \<and> updater_at (update_then_rollout smooth) = PWaitSignal"
proof -
  have "policy_reachable smooth [CallDeliver 1, CallNotify, CallWaitDone, CallRollout True] (update_then_rollout smooth)"
    unfolding update_then_rollout_def by (intro policy_turns_reachable policy_init)
  from rollouts_use_delivered_weights [OF this _ _ update_then_rollout_at(1)]
  show ?thesis by (simp add: update_then_rollout_at)
qed

text \<open>A refused load is reported as an update that is done, and the rollout computes with the old weights.\<close>

lemma refused_load_reported_done:
  "let w = wk (update_then_rollout refuses_first) in waited w = [True] \<and> delivered w = 1 \<and> loaded w = Some 0"
  by code_simp

subsection \<open>Every call is answered\<close>

fun call_fails :: "actor_call \<Rightarrow> bool" where
  "call_fails (CallRollout ok) = (\<not> ok)"
| "call_fails (CallPostprocess ok) = (\<not> ok)"
| "call_fails _ = False"

fun place_fails :: "actor_pc \<Rightarrow> bool" where
  "place_fails (AAcquire ok) = (\<not> ok)"
| "place_fails (AClearIdle ok) = (\<not> ok)"
| "place_fails (AInfer ok) = (\<not> ok)"
| "place_fails _ = False"

text \<open>Whoever has cleared an event will set it again.\<close>

definition policy_live :: "policy_system \<Rightarrow> bool" where
  "policy_live s \<longleftrightarrow> (\<forall>c \<in> set (calls s). \<not> call_fails c) \<and> \<not> place_fails (actor_at s)
     \<and> (idle (wk s) \<or> holds_idle (actor_at s) \<or> updater_at s = PLoad \<or> updater_at s = PSetIdle)
     \<and> (update_done (wk s) \<or> signal (wk s) \<or> updater_at s \<noteq> PWaitSignal \<or> actor_at s = ASignal)"

lemma actor_live: "policy_live s \<Longrightarrow> actor_step sc s = Some s' \<Longrightarrow> policy_live s'"
  by (cases "actor_at s") (auto simp: policy_live_def actor_step_def Let_def split: list.splits actor_call.splits if_splits)

lemma updater_live: "policy_live s \<Longrightarrow> updater_step sc s = Some s' \<Longrightarrow> policy_live s'"
  by (cases "updater_at s") (auto simp: policy_live_def updater_step_def Let_def split: if_splits)

lemma policy_live_step: "policy_live s \<Longrightarrow> policy_step sc t s = Some s' \<Longrightarrow> policy_live s'"
  by (cases t) (auto simp: policy_step_def intro: actor_live updater_live)

fun call_cost :: "actor_call \<Rightarrow> nat" where
  "call_cost (CallRollout ok) = 5"
| "call_cost (CallPostprocess ok) = 5"
| "call_cost CallCheckIdle = 2"
| "call_cost (CallDeliver v) = 1"
| "call_cost CallNotify = 11"
| "call_cost CallWaitDone = 2"

fun actor_cost :: "actor_pc \<Rightarrow> nat" where
  "actor_cost AReady = 0"
| "actor_cost (AAcquire ok) = 4"
| "actor_cost (AClearIdle ok) = 3"
| "actor_cost (AInfer ok) = 2"
| "actor_cost ARelease = 1"
| "actor_cost ACheckIdle = 1"
| "actor_cost AClearDone = 10"
| "actor_cost ASignal = 9"
| "actor_cost AAwaitDone = 1"

fun updater_cost :: "updater_pc \<Rightarrow> bool \<Rightarrow> nat" where
  "updater_cost PWaitSignal sig = (if sig then 7 else 0)"
| "updater_cost PWaitIdle sig = 6"
| "updater_cost PClearIdle sig = 5"
| "updater_cost PLoad sig = 4"
| "updater_cost PSetIdle sig = 3"
| "updater_cost PClearSignal sig = 2"
| "updater_cost PSetDone sig = (if sig then 8 else 1)"

definition policy_cost :: "policy_system \<Rightarrow> nat" where
  "policy_cost s = sum_list (map call_cost (calls s)) + actor_cost (actor_at s)
     + updater_cost (updater_at s) (signal (wk s))"

definition all_answered :: "policy_system \<Rightarrow> bool" where
  "all_answered s \<longleftrightarrow> calls s = [] \<and> actor_at s = AReady \<and> updater_at s = PWaitSignal \<and> \<not> signal (wk s)"

lemma signal_cost: "updater_cost p True \<le> updater_cost p b + 7"
  by (cases p) auto

lemma policy_step_spends:
  assumes step: "policy_step sc t s = Some s'"
  shows "policy_cost s' < policy_cost s"
proof (cases t)
  case ActorT
  then show ?thesis using step signal_cost [of "updater_at s" "signal (wk s)"]
    by (cases "actor_at s")
       (auto simp: policy_cost_def policy_step_def actor_step_def Let_def split: list.splits actor_call.splits if_splits)
next
  case UpdaterT
  then show ?thesis using step
    by (cases "updater_at s") (auto simp: policy_cost_def policy_step_def updater_step_def Let_def split: if_splits)
qed

lemma policy_not_stuck:
  assumes live: "policy_live s" and on: "\<not> all_answered s"
  shows "\<exists>t. policy_step sc t s \<noteq> None"
proof -
  have "actor_step sc s \<noteq> None \<or> updater_step sc s \<noteq> None"
  proof (cases "updater_step sc s")
    case None
    then have at: "updater_at s = PWaitSignal \<and> \<not> signal (wk s) \<or> updater_at s = PWaitIdle \<and> \<not> idle (wk s)"
      by (cases "updater_at s") (auto simp: updater_step_def Let_def split: if_splits)
    then show ?thesis using live on
      by (cases "actor_at s")
         (auto simp: policy_live_def all_answered_def actor_step_def Let_def split: list.splits actor_call.splits)
  qed simp
  then show ?thesis unfolding policy_step_def by (metis policy_thread.case)
qed

interpretation policy: fair_threads "policy_step sc" policy_live "\<lambda>_. True" "\<lambda>_. False" policy_cost all_answered for sc
proof unfold_locales
  show "\<exists>t. \<not> False \<and> policy_step sc t s \<noteq> None" if "policy_live s" "\<not> all_answered s" for s
    using policy_not_stuck [OF that] by simp
qed (simp_all add: policy_step_spends)

text \<open>C21: when no computation raises, in every fair run every call is answered and the updater comes to rest with the
  update reported as done, whatever the order of the calls, whichever loads raise and whichever waits reach their
  limit. If moreover the group waited for every update and no wait reached its limit, every version was tried once
  in order, and unless the last load raised the policy ends with the version delivered last.\<close>
theorem calls_are_answered:
  assumes "\<forall>c \<in> set cs. \<not> call_fails c" "fair sched"
  shows "\<exists>n. let s = run_schedule (policy_step sc) sched (init_policy cs) n
     in calls s = [] \<and> actor_at s = AReady \<and> updater_at s = PWaitSignal \<and> \<not> signal (wk s) \<and> update_done (wk s)
      \<and> (disciplined cs \<and> False \<notin> set (waited (wk s)) \<longrightarrow> map fst (loads (wk s)) = versions cs
          \<and> (loads (wk s) = [] \<or> snd (last (loads (wk s))) = Loads \<longrightarrow> loaded (wk s) = Some (delivered (wk s))))"
proof -
  let ?run = "run_schedule (policy_step sc) sched (init_policy cs)"
  have "policy_live (init_policy cs)"
    using assms(1) by (simp add: policy_live_def init_policy_def init_eval_worker_def)
  then have live: "policy_live (?run n)" for n by (rule run_schedule_invariant) (rule policy_live_step)
  obtain n where n: "all_answered (?run n)" using policy.reaches_goal [OF assms(2) live] by blast
  have reported: "update_done (wk (?run n))" using n live [of n] by (auto simp: all_answered_def policy_live_def)
  have "quiet cs (?run n)" if "disciplined cs" "False \<notin> set (waited (wk (?run n)))"
  proof -
    have "policy_inv cs (?run n)" using policy_inv_init [OF that(1)] by (rule run_schedule_invariant) (rule policy_inv_step)
    then show ?thesis using that(2) n by (auto simp: policy_inv_def announcing_def updating_def all_answered_def)
  qed
  then show ?thesis using n reported
    by (intro exI [of _ n]) (auto simp: all_answered_def quiet_def in_turn_def fresh_weights_def Let_def)
qed

definition alternate :: "nat \<Rightarrow> policy_thread" where
  "alternate n = (if even n then ActorT else UpdaterT)"

lemma alternate_fair: "fair alternate"
  unfolding fair_def
proof (intro allI)
  fix t n show "\<exists>m \<ge> n. alternate m = t"
    by (cases t) (auto simp: alternate_def intro: exI [of _ "2 * n"] exI [of _ "2 * n + 1"])
qed

lemma calls_are_answered_witness:
  "\<exists>n. let s = run_schedule (policy_step refuses_first) alternate (init_policy [CallDeliver 1, CallNotify, CallWaitDone, CallRollout True]) n
     in calls s = [] \<and> actor_at s = AReady \<and> update_done (wk s)"
proof -
  have "\<forall>c \<in> set [CallDeliver 1, CallNotify, CallWaitDone, CallRollout True]. \<not> call_fails c" by simp
  from calls_are_answered [OF this alternate_fair, of refuses_first] show ?thesis
    unfolding Let_def by blast
qed

subsection \<open>What happens otherwise\<close>

text \<open>An update is lost when the next one is announced before the last has finished: with two deliveries
  whose second notification arrives while the first version is loaded, the updater ends with the first
  version, the signal is cleared, and the update counts as done, although the second version was delivered
  and notified. Nothing can happen any more.\<close>
theorem second_update_lost:
  "\<exists>ts. let s = run_turns (policy_step smooth) ts (init_policy [CallDeliver 1, CallNotify, CallDeliver 2, CallNotify])
     in calls s = [] \<and> update_done (wk s) \<and> delivered (wk s) = 2 \<and> loaded (wk s) = Some 1
        \<and> policy_step smooth ActorT s = None \<and> policy_step smooth UpdaterT s = None"
  by (rule exI [of _ "replicate 4 ActorT @ replicate 4 UpdaterT @ replicate 4 ActorT @ replicate 3 UpdaterT"]) code_simp

text \<open>Waiting for the idle event and clearing it are two calls, so a rollout and the updater can both
  pass: there is a run in which the weights are being loaded while the rollout computes.\<close>
theorem rollout_meets_update:
  "\<exists>ts. let s = run_turns (policy_step smooth) ts (init_policy [CallDeliver 1, CallNotify, CallRollout True])
     in actor_at s = AInfer True \<and> updater_at s = PLoad"
  by (rule exI [of _ "replicate 5 ActorT @ replicate 2 UpdaterT @ replicate 1 ActorT @ replicate 1 UpdaterT @ replicate 1 ActorT"])
     code_simp

text \<open>A wait that reaches its limit lets the group go on: then, too, a rollout can compute while weights are loaded.\<close>

lemma expired_wait_meets_update:
  "\<exists>ts. let s = run_turns (policy_step \<lparr>load_of = \<lambda>i. Loads, wait_expires = \<lambda>i. True\<rparr>) ts
       (init_policy [CallDeliver 1, CallNotify, CallWaitDone, CallRollout True])
     in waited (wk s) = [False] \<and> actor_at s = AInfer True \<and> updater_at s = PLoad"
  by (rule exI [of _ "replicate 8 ActorT @ replicate 3 UpdaterT @ [ActorT]"]) code_simp

text \<open>A rollout that raises does not give the idle event back: after it the next rollout is never answered,
  in no schedule, and no delivered weights are ever loaded.\<close>
theorem failed_rollout_blocks:
  "let s = run_schedule (policy_step sc) sched
       (run_turns (policy_step sc) (replicate 4 ActorT) (init_policy (CallRollout False # CallRollout ok # cs))) n
   in (calls s = CallRollout ok # cs \<or> calls s = cs \<and> actor_at s = AAcquire ok) \<and> loaded (wk s) = Some 0"
proof -
  define blocked where "blocked s \<longleftrightarrow> \<not> idle (wk s) \<and> \<not> signal (wk s) \<and> updater_at s = PWaitSignal \<and> loaded (wk s) = Some 0
     \<and> (actor_at s = AReady \<and> calls s = CallRollout ok # cs \<or> actor_at s = AAcquire ok \<and> calls s = cs)" for s :: policy_system
  have step: "blocked s'" if "blocked s" "policy_step sc t s = Some s'" for t s s'
    using that by (cases t) (auto simp: blocked_def policy_step_def actor_step_def updater_step_def Let_def split: if_splits)
  have "blocked (run_turns (policy_step sc) (replicate 4 ActorT) (init_policy (CallRollout False # CallRollout ok # cs)))"
    by (simp add: numeral_eq_Suc run_turns_simps turn_def policy_step_def actor_step_def Let_def init_policy_def
        init_eval_worker_def blocked_def)
  then have "blocked (run_schedule (policy_step sc) sched
      (run_turns (policy_step sc) (replicate 4 ActorT) (init_policy (CallRollout False # CallRollout ok # cs))) n)"
    by (rule run_schedule_invariant) (rule step)
  then show ?thesis by (auto simp: blocked_def Let_def)
qed


end
