(* ===== verification/Comm_Groups.thy ===== *)
theory Comm_Groups
  imports Prelude
begin

text \<open>
  \<open>rlightning/utils/distributed/group_initializer.py\<close> and \<open>comm_context.py\<close>: which ranks form a
  communication group, and what a process records of the groups it is in. A process group of
  \<open>torch.distributed\<close> is the list of its ranks.
\<close>

datatype comm_mode =
    GLOBAL | INTRA_NODE | INTER_NODE | TRAIN_DATA_PARALLEL | DATA_PARALLEL | TENSOR_PARALLEL
  | SEQUENCE_PARALLEL | WEIGHT_TRANSFER

record group_info =
  gi_local_rank :: nat
  gi_world_size :: nat
  gi_ranks :: "nat list"

text \<open>\<open>_new_and_update_group_info\<close>: a process that is not in the group keeps what it had.\<close>

definition new_group_info :: "nat \<Rightarrow> nat list \<Rightarrow> group_info option \<Rightarrow> group_info option" where
  "new_group_info rank ranks old =
     (if rank \<in> set ranks
      then Some \<lparr>gi_local_rank = length (takeWhile (\<lambda>r. r \<noteq> rank) ranks), gi_world_size = length ranks,
                 gi_ranks = ranks\<rparr>
      else old)"

definition init_groups :: "nat \<Rightarrow> nat list list \<Rightarrow> group_info option" where
  "init_groups rank groups = fold (new_group_info rank) groups None"

text \<open>The groups of the initializers that divide the world themselves.\<close>

definition dp_groups :: "nat \<Rightarrow> nat \<Rightarrow> nat list list" where
  "dp_groups world psize =
     map (\<lambda>j. map (\<lambda>i. i * (world div psize) + j) [0..<psize]) [0..<world div psize]"

definition tp_groups :: "nat \<Rightarrow> nat \<Rightarrow> nat list list" where
  "tp_groups world psize = map (\<lambda>i. map (\<lambda>j. i * psize + j) [0..<psize]) [0..<world div psize]"

definition sp_groups :: "nat \<Rightarrow> nat \<Rightarrow> nat list list" where
  "sp_groups world psize = map (\<lambda>i. map (\<lambda>j. i * psize + j) [0..<psize]) [0..<world div psize]"

definition inter_node_groups :: "nat \<Rightarrow> nat \<Rightarrow> nat list list" where
  "inter_node_groups world lws = map (\<lambda>i. map (\<lambda>j. i + j * lws) [0..<world div lws]) [0..<lws]"

subsection \<open>The communication context of a process\<close>

record comm_context =
  cc_rank :: nat
  cc_world :: nat
  cc_groups :: "(comm_mode, group_info) dict"

definition register_group :: "comm_mode \<Rightarrow> group_info option \<Rightarrow> comm_context \<Rightarrow> comm_context" where
  "register_group mode info c =
     (case info of None \<Rightarrow> c | Some gi \<Rightarrow> c\<lparr>cc_groups := AList.update mode gi (cc_groups c)\<rparr>)"

definition init_distributed_env :: "nat \<Rightarrow> nat \<Rightarrow> comm_context" where
  "init_distributed_env rank world =
     register_group GLOBAL (Some \<lparr>gi_local_rank = rank, gi_world_size = world, gi_ranks = [0..<world]\<rparr>)
       \<lparr>cc_rank = rank, cc_world = world, cc_groups = []\<rparr>"

definition init_group :: "nat list \<Rightarrow> comm_mode \<Rightarrow> comm_context \<Rightarrow> comm_context result" where
  "init_group ranks mode c =
     (if mode \<in> {TRAIN_DATA_PARALLEL, INTRA_NODE, WEIGHT_TRANSFER}
      then Inr (register_group mode (init_groups (cc_rank c) [ranks]) c)
      else Inl NotImplementedError)"

definition get_group :: "comm_mode \<Rightarrow> comm_context \<Rightarrow> group_info result" where
  "get_group mode c = of_option KeyError (map_of (cc_groups c) mode)"

definition comm_destroy :: "comm_context \<Rightarrow> comm_context" where
  "comm_destroy c =
     (if map_of (cc_groups c) GLOBAL = None then c else c\<lparr>cc_groups := []\<rparr>)"

subsection \<open>Where a process ends up\<close>

lemma init_groups_last:
  assumes "\<forall>g \<in> set gs'. rank \<notin> set g" "rank \<in> set g"
  shows "init_groups rank (gs @ g # gs') = new_group_info rank g None"
proof -
  have "fold (new_group_info rank) gs' s = s" for s
    using assms(1) by (induction gs' arbitrary: s) (auto simp: new_group_info_def)
  then show ?thesis using assms(2) by (simp add: init_groups_def new_group_info_def)
qed

lemma index_in_group:
  assumes "inj_on f {0..<n}" "k < n"
  shows "length (takeWhile (\<lambda>r. r \<noteq> f k) (map f [0..<n])) = k"
proof -
  have "takeWhile (\<lambda>r. r \<noteq> f k) (map f [0..<n]) = map f [0..<k]"
  proof -
    have "map f [0..<n] = map f [0..<k] @ f k # map f [Suc k..<n]"
      using assms(2) by (metis (no_types) le_add1 less_imp_le_nat list.simps(9) map_append upt_conv_Cons upt_add_eq_append
          le_add_diff_inverse zero_le)
    moreover have "\<forall>r \<in> set (map f [0..<k]). r \<noteq> f k"
    proof
      fix r assume "r \<in> set (map f [0..<k])"
      then obtain i where "i < k" "r = f i" by auto
      then show "r \<noteq> f k" using inj_onD [OF assms(1), of i k] assms(2) by auto
    qed
    then have "takeWhile (\<lambda>r. r \<noteq> f k) (map f [0..<k] @ f k # map f [Suc k..<n]) = map f [0..<k]"
      by (subst takeWhile_append2) auto
    ultimately show ?thesis by (simp only:)
  qed
  then show ?thesis by simp
qed

text \<open>Tensor and data parallel groups form a grid: when the tensor size divides the world, a rank is
  in exactly the tensor group of its quotient with its rest as local rank, and in the data parallel
  group of that rest with the quotient as local rank, of as many ranks as there are tensor groups.\<close>
theorem parallel_grid:
  assumes "0 < t" "t dvd world" "r < world"
  shows "init_groups r (tp_groups world t)
       = Some \<lparr>gi_local_rank = r mod t, gi_world_size = t, gi_ranks = map (\<lambda>j. r div t * t + j) [0..<t]\<rparr>
     \<and> init_groups r (dp_groups world (world div t))
       = Some \<lparr>gi_local_rank = r div t, gi_world_size = world div t,
               gi_ranks = map (\<lambda>i. i * t + r mod t) [0..<world div t]\<rparr>"
proof -
  obtain n where n: "world = t * n" using assms(2) by blast
  have div: "world div t = n" "world div n = t" if "0 < n" using n that assms(1) by simp_all
  have n0: "0 < n" using n assms(3) by (cases n) auto
  have q: "r div t < n" "r mod t < t" using assms(1,3) n by (simp_all add: less_mult_imp_div_less mult.commute)
  have r: "r = r div t * t + r mod t" by simp
  let ?tp = "\<lambda>i. map (\<lambda>j. i * t + j) [0..<t]" and ?dp = "\<lambda>j. map (\<lambda>i. i * t + j) [0..<n]"
  have in_tp: "r \<in> set (?tp i) \<longleftrightarrow> i = r div t" for i
  proof
    assume "r \<in> set (?tp i)"
    then have "i * t \<le> r" "r < i * t + t" by auto
    then show "i = r div t" using assms(1) by (metis add.commute div_nat_eqI mult.commute mult_Suc)
  next
    assume "i = r div t"
    then have "r = i * t + r mod t" using r by (simp only:)
    then have "r \<in> (\<lambda>j. i * t + j) ` {0..<t}" using q(2) by (intro image_eqI [where x = "r mod t"]) simp_all
    then show "r \<in> set (?tp i)" by simp
  qed
  have in_dp: "r \<in> set (?dp j) \<longleftrightarrow> j = r mod t" if "j < t" for j
  proof
    assume "r \<in> set (?dp j)"
    then obtain i where "r = i * t + j" by auto
    then show "j = r mod t" using that by simp
  next
    assume "j = r mod t"
    then have "r = r div t * t + j" using r by (simp only:)
    then have "r \<in> (\<lambda>i. i * t + j) ` {0..<n}" using q(1) by (intro image_eqI [where x = "r div t"]) simp_all
    then show "r \<in> set (?dp j)" by simp
  qed
  have split: "[0..<m] = [0..<k] @ k # [Suc k..<m]" if "k < m" for k m :: nat
    using that by (metis le_add1 less_imp_le_nat upt_conv_Cons upt_add_eq_append le_add_diff_inverse zero_le)
  have mem_tp: "r \<in> set (?tp (r div t))" by (simp only: in_tp)
  have mem_dp: "r \<in> set (?dp (r mod t))" by (simp only: in_dp [OF q(2)])
  have tp_rest: "\<forall>g \<in> set (map ?tp [Suc (r div t)..<n]). r \<notin> set g"
  proof
    fix g assume "g \<in> set (map ?tp [Suc (r div t)..<n])"
    then obtain i where "i \<in> set [Suc (r div t)..<n]" "g = ?tp i" unfolding set_map by (elim imageE)
    then have "g = ?tp i" "r div t < i" by simp_all
    then show "r \<notin> set g" by (simp only: in_tp)
  qed
  have dp_rest: "\<forall>g \<in> set (map ?dp [Suc (r mod t)..<t]). r \<notin> set g"
  proof
    fix g assume "g \<in> set (map ?dp [Suc (r mod t)..<t])"
    then obtain j where "j \<in> set [Suc (r mod t)..<t]" "g = ?dp j" unfolding set_map by (elim imageE)
    then have "g = ?dp j" "r mod t < j" "j < t" by simp_all
    then show "r \<notin> set g" by (simp only: in_dp)
  qed
  have "tp_groups world t = map ?tp [0..<r div t] @ ?tp (r div t) # map ?tp [Suc (r div t)..<n]"
    using split [OF q(1)] div(1) [OF n0] by (simp add: tp_groups_def)
  then have "init_groups r (tp_groups world t) = new_group_info r (?tp (r div t)) None"
    using init_groups_last [OF tp_rest mem_tp] by (simp only:)
  moreover have "length (takeWhile (\<lambda>x. x \<noteq> r) (?tp (r div t))) = r mod t"
    using index_in_group [of "\<lambda>j. r div t * t + j" t "r mod t"] q(2) by (simp add: inj_on_def)
  moreover have "dp_groups world n = map ?dp [0..<r mod t] @ ?dp (r mod t) # map ?dp [Suc (r mod t)..<t]"
    using split [OF q(2)] div(2) [OF n0] by (simp add: dp_groups_def)
  then have "init_groups r (dp_groups world n) = new_group_info r (?dp (r mod t)) None"
    using init_groups_last [OF dp_rest mem_dp] by (simp only:)
  moreover have "length (takeWhile (\<lambda>x. x \<noteq> r) (?dp (r mod t))) = r div t"
    using index_in_group [of "\<lambda>i. i * t + r mod t" n "r div t"] q(1) assms(1) by (simp add: inj_on_def)
  ultimately show ?thesis
    using mem_tp mem_dp div(1) [OF n0] by (simp add: new_group_info_def del: set_map)
qed

lemma parallel_grid_witness:
  "init_groups 5 (tp_groups 8 4) = Some \<lparr>gi_local_rank = 1, gi_world_size = 4, gi_ranks = [4, 5, 6, 7]\<rparr>
     \<and> init_groups 5 (dp_groups 8 2) = Some \<lparr>gi_local_rank = 1, gi_world_size = 2, gi_ranks = [1, 5]\<rparr>"
  using parallel_grid [of 4 8 5] by (simp add: upt_rec)

end
