(* ===== verification/Policy_Group.thy ===== *)
theory Policy_Group
  imports Router Rollout_Types Comm_Groups
begin

text \<open>
  \<open>PolicyGroup\<close> of \<open>rlightning/policy/policy_group.py\<close>: where the policies are, who sends weights to
  whom, which process gets which rank and which communication groups, and how a batch of environment
  returns is given to the eval policies. Policies are numbers, train and eval policies apart; what a
  policy computes is a parameter. Submitted calls are the calls themselves.
\<close>

subsection \<open>Placement\<close>

record placement_entry =
  pe_train :: "nat list"
  pe_eval :: "nat list"

definition empty_placement :: placement_entry where
  "empty_placement = \<lparr>pe_train = [], pe_eval = []\<rparr>"

definition add_train :: "(nat \<Rightarrow> string) \<Rightarrow> nat \<Rightarrow> (string, placement_entry) dict \<Rightarrow> (string, placement_entry) dict" where
  "add_train node_of p info =
     (let e = dict_get empty_placement info (node_of p)
      in AList.update (node_of p) (e\<lparr>pe_train := pe_train e @ [p]\<rparr>) info)"

definition add_eval :: "(nat \<Rightarrow> string) \<Rightarrow> nat \<Rightarrow> (string, placement_entry) dict \<Rightarrow> (string, placement_entry) dict" where
  "add_eval node_of p info =
     (let e = dict_get empty_placement info (node_of p)
      in AList.update (node_of p) (e\<lparr>pe_eval := pe_eval e @ [p]\<rparr>) info)"

definition init_placement_info ::
    "(nat \<Rightarrow> string) \<Rightarrow> (nat \<Rightarrow> string) \<Rightarrow> nat list \<Rightarrow> nat list \<Rightarrow> (string, placement_entry) dict" where
  "init_placement_info train_node eval_node trains evals =
     fold (add_eval eval_node) evals (fold (add_train train_node) trains [])"

subsection \<open>Who sends to whom\<close>

text \<open>The receivers are a list of eval policies, or one eval policy when both kinds share their devices.\<close>

datatype receiver = Receivers "nat list" | Receiver nat

record transfer_item =
  ti_sender :: nat
  ti_receiver :: receiver
  ti_intra :: "bool option"

type_synonym transfer_info = "(string, transfer_item list) dict"

definition train_nodes :: "(string, placement_entry) dict \<Rightarrow> string list" where
  "train_nodes info = map fst (filter (\<lambda>(n, e). pe_train e \<noteq> [] \<and> pe_eval e = []) info)"

definition eval_nodes :: "(string, placement_entry) dict \<Rightarrow> string list" where
  "eval_nodes info = map fst (filter (\<lambda>(n, e). pe_train e = []) info)"

definition mixed_nodes :: "(string, placement_entry) dict \<Rightarrow> string list" where
  "mixed_nodes info = map fst (filter (\<lambda>(n, e). pe_train e \<noteq> [] \<and> pe_eval e \<noteq> []) info)"

definition router_map :: "(string, placement_entry) dict \<Rightarrow> (string, string list) dict result" where
  "router_map info =
     (let own = map (\<lambda>n. (n, [n])) (mixed_nodes info);
          assign = (\<lambda>senders. fold (\<lambda>(idx, e). dict_append (senders ! (idx mod length senders)) e)
                     (enumerate 0 (eval_nodes info)) own)
      in if train_nodes info \<noteq> [] then Inr (assign (train_nodes info))
         else if mixed_nodes info \<noteq> [] then Inr (assign (mixed_nodes info))
         else Inl ValueError)"

definition transfer_receivers ::
    "buffer_strategy \<Rightarrow> string \<Rightarrow> string \<Rightarrow> placement_entry \<Rightarrow> nat list result" where
  "transfer_receivers strat node target e =
     (case strat of
        StrategyNone \<Rightarrow> Inr (pe_eval e)
      | StrategyDouble \<Rightarrow> Inr (pe_eval e)
      | StrategyShared \<Rightarrow>
          if target \<noteq> node then (case pe_eval e of [] \<Rightarrow> Inl IndexError | p # _ \<Rightarrow> Inr [p]) else Inr []
      | StrategySharded \<Rightarrow> Inl ValueError)"

definition make_transfer_item ::
    "(string, placement_entry) dict \<Rightarrow> buffer_strategy \<Rightarrow> string \<Rightarrow> nat \<times> string \<Rightarrow> transfer_item result" where
  "make_transfer_item info strat node it =
     (case it of (idx, target) \<Rightarrow>
        let trains = pe_train (dict_get empty_placement info node) in
        bind_result (guard ZeroDivisionError (trains \<noteq> [])) (\<lambda>_.
        bind_result (transfer_receivers strat node target (dict_get empty_placement info target)) (\<lambda>rs.
        Inr \<lparr>ti_sender = trains ! (idx mod length trains), ti_receiver = Receivers rs,
             ti_intra = Some (target = node)\<rparr>)))"

definition build_transfer_info_for_disaggregated ::
    "(string, placement_entry) dict \<Rightarrow> buffer_strategy \<Rightarrow> transfer_info result" where
  "build_transfer_info_for_disaggregated info strat =
     bind_result (router_map info) (\<lambda>rm.
     mapM (\<lambda>(node, targets).
        bind_result (mapM (make_transfer_item info strat node) (enumerate 0 targets)) (\<lambda>items. Inr (node, items))) rm)"

definition build_transfer_info_for_colocated :: "nat list \<Rightarrow> nat list \<Rightarrow> transfer_info result" where
  "build_transfer_info_for_colocated trains evals =
     bind_result (guard AssertionError (length evals \<le> length trains)) (\<lambda>_.
     Inr [(''all'', map (\<lambda>(t, e). \<lparr>ti_sender = t, ti_receiver = Receiver e, ti_intra = None\<rparr>) (zip trains evals))])"

definition policy_transfer_info ::
    "bool \<Rightarrow> (nat \<Rightarrow> string) \<Rightarrow> (nat \<Rightarrow> string) \<Rightarrow> nat list \<Rightarrow> nat list \<Rightarrow> buffer_strategy \<Rightarrow> transfer_info result" where
  "policy_transfer_info colocated train_node eval_node trains evals strat =
     (if colocated then build_transfer_info_for_colocated trains evals
      else build_transfer_info_for_disaggregated (init_placement_info train_node eval_node trains evals) strat)"

subsection \<open>Sending\<close>

text \<open>
  The calls of \<open>send_weights\<close> on the train policies: the sender, the receivers, and the node whose
  shared buffer is written. The handles of a colocated group are no list and name no node.
\<close>

definition shared_nodes :: "(string, placement_entry) dict \<Rightarrow> string list" where
  "shared_nodes info = map fst (filter (\<lambda>(n, e). pe_eval e \<noteq> []) info)"

definition send_call ::
    "buffer_strategy \<Rightarrow> string list \<Rightarrow> string \<Rightarrow> transfer_item \<Rightarrow> (nat \<times> nat list \<times> string option) result" where
  "send_call strat shared node it =
     bind_result
       (if strat = StrategyShared
        then bind_result (of_option KeyError (ti_intra it)) (\<lambda>intra.
             if intra then bind_result (guard KeyError (node \<in> set shared)) (\<lambda>_. Inr (Some node)) else Inr None)
        else Inr None) (\<lambda>buf.
     case ti_receiver it of
       Receivers rs \<Rightarrow> Inr (ti_sender it, rs, buf)
     | Receiver _ \<Rightarrow> Inl TypeError)"

definition send_weights ::
    "buffer_strategy \<Rightarrow> string list \<Rightarrow> transfer_info \<Rightarrow> (nat \<times> nat list \<times> string option) list result" where
  "send_weights strat shared ti =
     mapM (\<lambda>(node, it). send_call strat shared node it)
       (concat (map (\<lambda>(node, items). map (Pair node) items) ti))"

text \<open>
  \<open>sync_weights\<close>: without a buffer the weights go from process to process, otherwise they are sent and
  the eval policies are notified.
\<close>

datatype sync_action =
    SendIpc nat nat
  | Send nat "nat list" "string option"
  | Notify nat

definition sync_weights ::
    "buffer_strategy \<Rightarrow> string list \<Rightarrow> transfer_info \<Rightarrow> nat list \<Rightarrow> sync_action list result" where
  "sync_weights strat shared ti evals =
     (if strat = StrategyNone
      then bind_result (of_option KeyError (map_of ti ''all'')) (\<lambda>items.
           mapM (\<lambda>it. case ti_receiver it of
              Receiver e \<Rightarrow> Inr (SendIpc (ti_sender it) e) | Receivers _ \<Rightarrow> Inl AttributeError) items)
      else bind_result (send_weights strat shared ti) (\<lambda>calls.
           Inr (map (\<lambda>(s, rs, b). Send s rs b) calls @ map Notify evals)))"

subsection \<open>Checking that the weights agree\<close>

definition param_mismatch :: "rat \<Rightarrow> rat \<Rightarrow> rat \<Rightarrow> bool" where
  "param_mismatch rtol t e \<longleftrightarrow> \<bar>t - e\<bar> / max \<bar>t\<bar> (1 / 100000000) > rtol"

definition verify_eval_weight_consistency ::
    "rat \<Rightarrow> (string, rat) dict \<Rightarrow> (string, rat) dict list \<Rightarrow> bool" where
  "verify_eval_weight_consistency rtol ref evals =
     list_all (\<lambda>ev. list_all (\<lambda>(k, t). case map_of ev k of None \<Rightarrow> False | Some e \<Rightarrow> \<not> param_mismatch rtol t e) ref) evals"

subsection \<open>Ranks and communication groups\<close>

text \<open>A worker is a train or an eval policy. \<open>gpu\<close> is the identifier of its only device.\<close>

datatype worker = TrainW nat | EvalW nat

definition actors_by_node :: "(worker \<Rightarrow> string) \<Rightarrow> worker list \<Rightarrow> (string, worker list) dict" where
  "actors_by_node node_of ws = fold (\<lambda>w. dict_append (node_of w) w) ws []"

definition sorted_by_node :: "(worker \<Rightarrow> string) \<Rightarrow> (worker \<Rightarrow> int) \<Rightarrow> worker list \<Rightarrow> (string, worker list) dict" where
  "sorted_by_node node_of gpu ws = map (\<lambda>(n, as). (n, sort_key gpu as)) (actors_by_node node_of ws)"

definition sorted_actors :: "(worker \<Rightarrow> string) \<Rightarrow> (worker \<Rightarrow> int) \<Rightarrow> worker list \<Rightarrow> worker list" where
  "sorted_actors node_of gpu ws = concat (dict_values (sorted_by_node node_of gpu ws))"

definition local_ranks :: "(worker \<Rightarrow> string) \<Rightarrow> (worker \<Rightarrow> int) \<Rightarrow> worker list \<Rightarrow> nat list" where
  "local_ranks node_of gpu ws = concat (map (\<lambda>(n, as). [0..<length as]) (sorted_by_node node_of gpu ws))"

definition local_world_sizes :: "(worker \<Rightarrow> string) \<Rightarrow> (worker \<Rightarrow> int) \<Rightarrow> worker list \<Rightarrow> nat list" where
  "local_world_sizes node_of gpu ws =
     concat (map (\<lambda>(n, as). replicate (length as) (length as)) (sorted_by_node node_of gpu ws))"

definition rank_of :: "worker list \<Rightarrow> worker \<Rightarrow> nat" where
  "rank_of actors w = length (takeWhile (\<lambda>v. v \<noteq> w) actors)"

text \<open>The groups, in the order of creation; every worker takes part in every creation.\<close>

definition weight_transfer_ranks :: "worker list \<Rightarrow> transfer_info \<Rightarrow> nat list list result" where
  "weight_transfer_ranks actors ti =
     bind_result (mapM (\<lambda>it. case ti_receiver it of
          Receiver _ \<Rightarrow> Inl TypeError
        | Receivers rs \<Rightarrow>
            Inr (if rs = [] then [] else [map (rank_of actors) (TrainW (ti_sender it) # map EvalW rs)]))
        (concat (dict_values ti))) (\<lambda>gs. Inr (concat gs))"

definition init_comm_group ::
    "(worker \<Rightarrow> string) \<Rightarrow> (worker \<Rightarrow> int) \<Rightarrow> bool \<Rightarrow> nat list \<Rightarrow> nat list \<Rightarrow> buffer_strategy \<Rightarrow> transfer_info
       \<Rightarrow> (worker, comm_context) dict result" where
  "init_comm_group node_of gpu colocated trains evals strat ti =
     (let ws = map TrainW trains @ (if colocated then [] else map EvalW evals);
          actors = sorted_actors node_of gpu ws;
          nodes = map (map (rank_of actors)) (dict_values (sorted_by_node node_of gpu ws))
      in if trains = [] \<and> evals = [] then Inr []
         else bind_result (guard IndexError (ws \<noteq> [])) (\<lambda>_.
              bind_result (if strat \<noteq> StrategyNone \<and> ti \<noteq> [] then weight_transfer_ranks actors ti else Inr []) (\<lambda>wts.
              bind_result (Inr (if trains = [] then [] else [map (rank_of actors) (map TrainW trains)])) (\<lambda>ddp.
              mapM (\<lambda>w.
                 bind_result (foldM (\<lambda>c ranks. init_group ranks INTRA_NODE c)
                     (init_distributed_env (rank_of actors w) (length actors)) nodes) (\<lambda>c1.
                 bind_result (foldM (\<lambda>c ranks. init_group ranks WEIGHT_TRANSFER c) c1 wts) (\<lambda>c2.
                 bind_result (foldM (\<lambda>c ranks. init_group ranks TRAIN_DATA_PARALLEL c) c2 ddp) (\<lambda>c3.
                 Inr (w, c3))))) actors))))"

subsection \<open>Rollouts and training\<close>

text \<open>
  \<open>rollout_batch\<close>: with the affinity router the calls of the thread pool reach the router in some
  order, a permutation of the positions; the answers keep their positions.
\<close>

definition rollout_affinity ::
    "(nat \<Rightarrow> 'v env_ret \<Rightarrow> 'q) \<Rightarrow> nat list \<Rightarrow> sync_affinity_router \<Rightarrow> 'v env_ret batched_data
       \<Rightarrow> ('q batched_data \<times> sync_affinity_router) result" where
  "rollout_affinity rollout order r b =
     bind_result (select_many r (map (\<lambda>i. bd_ids b ! i) order)) (\<lambda>(ps, r').
     bind_result (new_batched_data (bd_ids b)
        (map (\<lambda>i. rollout (dict_get 0 (zip order ps) i) (bd_data b ! i)) [0..<length (bd_ids b)])) (\<lambda>out.
     Inr (out, r')))"

definition rollout_async ::
    "(nat \<Rightarrow> 'v env_ret \<Rightarrow> 'q) \<Rightarrow> int list \<Rightarrow> 'v env_ret batched_data \<Rightarrow> 'q batched_data result" where
  "rollout_async rollout loads b =
     bind_result (simple_assign loads (int (length (bd_data b)))) (\<lambda>as.
     bind_result (mapM (\<lambda>(x, i). bind_result (guard IndexError (i < length loads)) (\<lambda>_. Inr (rollout i x))) (zip (bd_data b) as)) (\<lambda>rs.
     new_batched_data (bd_ids b) rs))"

definition policy_update_dataset :: "nat list \<Rightarrow> 'd list \<Rightarrow> (nat \<times> 'd) list result" where
  "policy_update_dataset trains ds =
     bind_result (guard AssertionError (length ds = length trains)) (\<lambda>_. Inr (zip trains ds))"

definition policy_train :: "(nat \<Rightarrow> 'i) \<Rightarrow> nat list \<Rightarrow> 'i result" where
  "policy_train train trains = py_nth (map train trains) 0"

end
