(* ===== verification/Policy_Group_Correct.thy ===== *)
theory Policy_Group_Correct
  imports Policy_Group Groupings "HOL-Library.FuncSet"
begin

text \<open>
  Every eval policy gets the weights exactly once, ranks are a bijection, rollouts keep their positions.
\<close>

subsection \<open>Where the policies are\<close>

definition placed_as :: "(nat \<Rightarrow> string) \<Rightarrow> (nat \<Rightarrow> string) \<Rightarrow> nat list \<Rightarrow> nat list \<Rightarrow> (string, placement_entry) dict \<Rightarrow> bool" where
  "placed_as tn en trains evals info \<longleftrightarrow> dict_ok info
     \<and> (\<forall>n. pe_train (dict_get empty_placement info n) = filter (\<lambda>p. tn p = n) trains)
     \<and> (\<forall>n. pe_eval (dict_get empty_placement info n) = filter (\<lambda>p. en p = n) evals)
     \<and> set (dict_keys info) = tn ` set trains \<union> en ` set evals"

lemma placed_as_init: "placed_as tn en trains evals (init_placement_info tn en trains evals)"
proof -
  have trains: "placed_as tn en trains [] (fold (add_train tn) trains [])"
  proof (induction trains rule: rev_induct)
    case Nil
    then show ?case by (simp add: placed_as_def empty_placement_def)
  next
    case (snoc p ps)
    then show ?case by (auto simp: placed_as_def add_train_def Let_def)
  qed
  have "placed_as tn en trains evals (fold (add_eval en) evals (fold (add_train tn) trains []))"
  proof (induction evals rule: rev_induct)
    case Nil
    then show ?case using trains by simp
  next
    case (snoc p ps)
    then show ?case by (auto simp: placed_as_def add_eval_def Let_def)
  qed
  then show ?thesis by (simp add: init_placement_info_def)
qed

lemma dict_ok_filter: "dict_ok d \<Longrightarrow> distinct (map fst (filter P d))"
  by (simp add: distinct_map_filter)

text \<open>Filters of the entries as conditions on the nodes.\<close>

lemma node_filters:
  assumes "placed_as tn en trains evals info"
  shows "n \<in> set (train_nodes info) \<longleftrightarrow> n \<in> tn ` set trains \<and> n \<notin> en ` set evals"
    "n \<in> set (eval_nodes info) \<longleftrightarrow> n \<notin> tn ` set trains \<and> n \<in> en ` set evals"
    "n \<in> set (mixed_nodes info) \<longleftrightarrow> n \<in> tn ` set trains \<and> n \<in> en ` set evals"
proof -
  have mem: "(\<exists>e. (n, e) \<in> set info \<and> P e) \<longleftrightarrow> n \<in> tn ` set trains \<union> en ` set evals \<and> P (dict_get empty_placement info n)" for P
  proof -
    have "(n, e) \<in> set info \<Longrightarrow> dict_get empty_placement info n = e" for e
      using assms by (simp add: placed_as_def dict_get_in)
    moreover have "n \<in> set (dict_keys info) \<longleftrightarrow> (\<exists>e. (n, e) \<in> set info)" by (force simp: image_iff)
    moreover have "set (dict_keys info) = tn ` set trains \<union> en ` set evals" using assms by (simp add: placed_as_def)
    ultimately show ?thesis by blast
  qed
  have empty: "pe_train (dict_get empty_placement info n) = [] \<longleftrightarrow> n \<notin> tn ` set trains"
    "pe_eval (dict_get empty_placement info n) = [] \<longleftrightarrow> n \<notin> en ` set evals"
    using assms by (auto simp: placed_as_def filter_empty_conv)
  have img: "n \<in> set (map fst (filter (\<lambda>(n, e). P e) info)) \<longleftrightarrow> (\<exists>e. (n, e) \<in> set info \<and> P e)" for P
    by (force simp: image_iff)
  show "n \<in> set (train_nodes info) \<longleftrightarrow> n \<in> tn ` set trains \<and> n \<notin> en ` set evals"
    unfolding train_nodes_def img mem empty by blast
  show "n \<in> set (eval_nodes info) \<longleftrightarrow> n \<notin> tn ` set trains \<and> n \<in> en ` set evals"
    unfolding eval_nodes_def img mem empty by blast
  show "n \<in> set (mixed_nodes info) \<longleftrightarrow> n \<in> tn ` set trains \<and> n \<in> en ` set evals"
    unfolding mixed_nodes_def img mem empty by blast
qed

subsection \<open>Targets\<close>

lemma mset_values_append:
  assumes "dict_ok d"
  shows "mset (concat (dict_values (dict_append k x d))) = mset (concat (dict_values d)) + {#x#}"
proof -
  have "mset (concat (dict_values (AList.update k ((case map_of d k of None \<Rightarrow> [] | Some l \<Rightarrow> l) @ [x]) d)))
      = mset (concat (dict_values d)) + {#x#}"
    using assms
  proof (induction d)
    case Nil
    then show ?case by simp
  next
    case (Cons a d)
    obtain k' l where a: "a = (k', l)" by (cases a)
    show ?case using Cons a by (auto split: option.splits)
  qed
  then show ?thesis by (simp add: dict_append_def dict_get_def)
qed

lemma assign_targets:
  assumes "senders \<noteq> []" "dict_ok d"
  shows "dict_ok (fold (\<lambda>(idx, e). dict_append (senders ! (idx mod length senders)) e) items d)
     \<and> mset (concat (dict_values (fold (\<lambda>(idx, e). dict_append (senders ! (idx mod length senders)) e) items d)))
         = mset (concat (dict_values d)) + mset (map snd items)
     \<and> set (dict_keys (fold (\<lambda>(idx, e). dict_append (senders ! (idx mod length senders)) e) items d))
         \<subseteq> set (dict_keys d) \<union> set senders
     \<and> (\<forall>n. \<forall>t \<in> set (dict_get [] (fold (\<lambda>(idx, e). dict_append (senders ! (idx mod length senders)) e) items d) n).
           t \<in> set (dict_get [] d n) \<or> t \<in> snd ` set items)"
proof (induction items rule: rev_induct)
  case Nil
  then show ?case using assms by simp
next
  case (snoc it items)
  obtain idx e where it: "it = (idx, e)" by (cases it)
  let ?d = "fold (\<lambda>(idx, e). dict_append (senders ! (idx mod length senders)) e) items d"
  have "senders ! (idx mod length senders) \<in> set senders" using assms(1) by simp
  with snoc it mset_values_append [of ?d] show ?case by auto
qed

lemma router_map_ok:
  assumes "placed_as tn en trains evals info" "trains \<noteq> []"
  shows "\<exists>rm. router_map info = Inr rm \<and> dict_ok rm
     \<and> mset (concat (dict_values rm)) = mset (mixed_nodes info @ eval_nodes info)
     \<and> set (dict_keys rm) \<subseteq> tn ` set trains"
proof -
  let ?own = "map (\<lambda>n. (n, [n])) (mixed_nodes info)"
  have own: "dict_ok ?own" "concat (dict_values ?own) = mixed_nodes info" "dict_keys ?own = mixed_nodes info"
    using assms(1) dict_ok_filter [of info] by (simp_all add: comp_def mixed_nodes_def placed_as_def)
  have keys: "set (mixed_nodes info) \<subseteq> tn ` set trains" "set (train_nodes info) \<subseteq> tn ` set trains"
    using node_filters [OF assms(1)] by auto
  have finish: "\<exists>rm. router_map info = Inr rm \<and> dict_ok rm
     \<and> mset (concat (dict_values rm)) = mset (mixed_nodes info @ eval_nodes info)
     \<and> set (dict_keys rm) \<subseteq> tn ` set trains"
    if h: "senders \<noteq> []" "set senders \<subseteq> tn ` set trains"
      "router_map info = Inr (fold (\<lambda>(idx, e). dict_append (senders ! (idx mod length senders)) e) (enumerate 0 (eval_nodes info)) ?own)"
    for senders
    using assign_targets [OF h(1) own(1), of "enumerate 0 (eval_nodes info)"] h keys own
    by (intro exI [of _ "fold (\<lambda>(idx, e). dict_append (senders ! (idx mod length senders)) e) (enumerate 0 (eval_nodes info)) ?own"]) auto
  show ?thesis
  proof (cases "train_nodes info = []")
    case False
    then show ?thesis by (intro finish [of "train_nodes info"]) (use keys in \<open>simp_all add: router_map_def\<close>)
  next
    case True
    have "tn (hd trains) \<in> tn ` set trains" using assms(2) by simp
    then have "mixed_nodes info \<noteq> []"
      using node_filters(1,3) [OF assms(1), of "tn (hd trains)"] True by auto
    with True show ?thesis by (intro finish [of "mixed_nodes info"]) (use keys in \<open>simp_all add: router_map_def\<close>)
  qed
qed

subsection \<open>Transfers\<close>

definition item_receivers :: "transfer_item \<Rightarrow> nat list" where
  "item_receivers it = (case ti_receiver it of Receivers rs \<Rightarrow> rs | Receiver r \<Rightarrow> [r])"

definition all_receivers :: "transfer_info \<Rightarrow> nat list" where
  "all_receivers ti = concat (map (\<lambda>(n, items). concat (map item_receivers items)) ti)"

text \<open>The shared buffers that are written: directly on the own node, through the receiver on another.\<close>

definition written_nodes :: "(nat \<Rightarrow> string) \<Rightarrow> transfer_info \<Rightarrow> string list" where
  "written_nodes en ti =
     concat (map (\<lambda>(n, items). concat (map (\<lambda>it. if ti_intra it = Some True then [n] else map en (item_receivers it)) items)) ti)"

definition receivers_on :: "buffer_strategy \<Rightarrow> (nat \<Rightarrow> string) \<Rightarrow> nat list \<Rightarrow> string \<Rightarrow> string \<Rightarrow> nat list" where
  "receivers_on strat en evals node target =
     (if strat = StrategyShared
      then if target = node then [] else take 1 (filter (\<lambda>p. en p = target) evals)
      else filter (\<lambda>p. en p = target) evals)"

definition plain_item ::
    "buffer_strategy \<Rightarrow> (nat \<Rightarrow> string) \<Rightarrow> (nat \<Rightarrow> string) \<Rightarrow> nat list \<Rightarrow> nat list \<Rightarrow> string \<Rightarrow> nat \<times> string \<Rightarrow> transfer_item" where
  "plain_item strat tn en trains evals node it =
     (case it of (idx, target) \<Rightarrow>
        let ts = filter (\<lambda>p. tn p = node) trains in
        \<lparr>ti_sender = ts ! (idx mod length ts), ti_receiver = Receivers (receivers_on strat en evals node target),
         ti_intra = Some (target = node)\<rparr>)"

lemma make_item_eq:
  assumes "placed_as tn en trains evals info" "node \<in> tn ` set trains" "target \<in> en ` set evals" "strat \<noteq> StrategySharded"
  shows "make_transfer_item info strat node (idx, target) = Inr (plain_item strat tn en trains evals node (idx, target))"
proof -
  have at: "pe_train (dict_get empty_placement info node) = filter (\<lambda>p. tn p = node) trains"
    "pe_eval (dict_get empty_placement info target) = filter (\<lambda>p. en p = target) evals"
    using assms(1) by (simp_all add: placed_as_def)
  have "filter (\<lambda>p. tn p = node) trains \<noteq> []" using assms(2) by (auto simp: filter_empty_conv)
  moreover have "filter (\<lambda>p. en p = target) evals \<noteq> []" using assms(3) by (auto simp: filter_empty_conv)
  then have "transfer_receivers strat node target (dict_get empty_placement info target) = Inr (receivers_on strat en evals node target)"
    using assms(4) at(2) by (cases strat) (auto simp: transfer_receivers_def receivers_on_def take_Suc neq_Nil_conv split: list.splits)
  ultimately show ?thesis using at(1) by (simp add: make_transfer_item_def plain_item_def Let_def)
qed

lemma mapM_ok: "(\<And>x. x \<in> set xs \<Longrightarrow> f x = Inr (g x)) \<Longrightarrow> mapM f xs = Inr (map g xs)"
  by (induction xs) auto

lemma build_eq:
  assumes "placed_as tn en trains evals info" "trains \<noteq> []" "strat \<noteq> StrategySharded"
  shows "\<exists>rm. build_transfer_info_for_disaggregated info strat
       = Inr (map (\<lambda>(node, ts). (node, map (plain_item strat tn en trains evals node) (enumerate 0 ts))) rm)
     \<and> distinct (concat (dict_values rm)) \<and> set (concat (dict_values rm)) = en ` set evals
     \<and> set (dict_keys rm) \<subseteq> tn ` set trains"
proof -
  obtain rm where rm: "router_map info = Inr rm" "dict_ok rm"
    "mset (concat (dict_values rm)) = mset (mixed_nodes info @ eval_nodes info)" "set (dict_keys rm) \<subseteq> tn ` set trains"
    using router_map_ok [OF assms(1,2)] by blast
  have d: "distinct (mixed_nodes info)" "distinct (eval_nodes info)"
    using assms(1) dict_ok_filter [of info] by (simp_all add: mixed_nodes_def eval_nodes_def placed_as_def)
  have "set (mixed_nodes info) \<inter> set (eval_nodes info) = {}" "set (mixed_nodes info) \<union> set (eval_nodes info) = en ` set evals"
    using node_filters [OF assms(1)] by auto
  with d rm(3) have targets: "distinct (concat (dict_values rm))" "set (concat (dict_values rm)) = en ` set evals"
    by (metis distinct_append mset_eq_imp_distinct_iff) (metis \<open>set (mixed_nodes info) \<union> set (eval_nodes info) = en ` set evals\<close> mset_eq_setD rm(3) set_append)
  have "mapM (\<lambda>(node, targets). bind_result (mapM (make_transfer_item info strat node) (enumerate 0 targets)) (\<lambda>items. Inr (node, items))) rm
     = Inr (map (\<lambda>(node, ts). (node, map (plain_item strat tn en trains evals node) (enumerate 0 ts))) rm)"
  proof (rule mapM_ok)
    fix x assume x: "x \<in> set rm"
    obtain node ts where nt: "x = (node, ts)" by (cases x)
    have "node \<in> tn ` set trains" using x nt rm(4) by force
    moreover have "set ts \<subseteq> en ` set evals" using x nt targets(2) by force
    ultimately have "mapM (make_transfer_item info strat node) (enumerate 0 ts)
        = Inr (map (plain_item strat tn en trains evals node) (enumerate 0 ts))"
      by (intro mapM_ok) (use make_item_eq [OF assms(1) _ _ assms(3)] in \<open>auto simp: in_set_enumerate_eq subset_iff\<close>)
    with nt show "(case x of (node, targets) \<Rightarrow> bind_result (mapM (make_transfer_item info strat node) (enumerate 0 targets)) (\<lambda>items. Inr (node, items)))
       = Inr (case x of (node, ts) \<Rightarrow> (node, map (plain_item strat tn en trains evals node) (enumerate 0 ts)))" by simp
  qed
  with rm targets show ?thesis by (auto simp: build_transfer_info_for_disaggregated_def)
qed

lemma map_enumerate_snd: "(\<And>i x. f (i, x) = g x) \<Longrightarrow> map f (enumerate k xs) = map g xs"
  by (induction xs arbitrary: k) auto

text \<open>C15: every eval policy gets the weights exactly once: with at least one train policy, whatever the nodes
  of the policies, the transfer information is built; with one buffer per policy (or none) every eval
  policy is a receiver exactly once, with shared buffers the buffer of every node that has eval policies
  is written exactly once, and every sender is a train policy of the node it is listed under.\<close>
theorem transfers_reach_all:
  assumes "trains \<noteq> []" "strat \<noteq> StrategySharded"
  shows "\<exists>ti. policy_transfer_info False train_node eval_node trains evals strat = Inr ti
     \<and> (strat \<noteq> StrategyShared \<longrightarrow> mset (all_receivers ti) = mset evals)
     \<and> (strat = StrategyShared \<longrightarrow> mset (written_nodes eval_node ti) = mset_set (eval_node ` set evals))
     \<and> (\<forall>(n, items) \<in> set ti. \<forall>it \<in> set items. ti_sender it \<in> set trains \<and> train_node (ti_sender it) = n)"
proof -
  let ?item = "plain_item strat train_node eval_node trains evals"
  obtain rm where b: "build_transfer_info_for_disaggregated (init_placement_info train_node eval_node trains evals) strat
       = Inr (map (\<lambda>(node, ts). (node, map (?item node) (enumerate 0 ts))) rm)"
    and targets: "distinct (concat (dict_values rm))" "set (concat (dict_values rm)) = eval_node ` set evals"
    and keys: "set (dict_keys rm) \<subseteq> train_node ` set trains"
    using build_eq [OF placed_as_init assms] by blast
  let ?ti = "map (\<lambda>(node, ts). (node, map (?item node) (enumerate 0 ts))) rm"
  have "mset (all_receivers ?ti) = mset evals" if "strat \<noteq> StrategyShared"
  proof -
    have "concat (map item_receivers (map (?item node) (enumerate 0 ts)))
        = concat (map (\<lambda>t. filter (\<lambda>p. eval_node p = t) evals) ts)" for node ts
      using that by (subst map_map, subst map_enumerate_snd [where g = "\<lambda>t. filter (\<lambda>p. eval_node p = t) evals"])
        (simp_all add: item_receivers_def plain_item_def receivers_on_def Let_def)
    then have "all_receivers ?ti = concat (map (\<lambda>t. filter (\<lambda>p. eval_node p = t) evals) (concat (dict_values rm)))"
      unfolding all_receivers_def by (induction rm) auto
    then have "mset (all_receivers ?ti) = mset (filter (\<lambda>p. eval_node p \<in> set (concat (dict_values rm))) evals)"
      using mset_concat_filter [OF targets(1), of eval_node evals] by (simp only:)
    moreover have "filter (\<lambda>p. eval_node p \<in> set (concat (dict_values rm))) evals = evals"
      unfolding targets(2) by (intro filter_True) auto
    ultimately show ?thesis by (simp only:)
  qed
  moreover have "mset (written_nodes eval_node ?ti) = mset_set (eval_node ` set evals)" if "strat = StrategyShared"
  proof -
    have one: "(if ti_intra (?item node (i, t)) = Some True then [node] else map eval_node (item_receivers (?item node (i, t)))) = [t]"
      if "t \<in> eval_node ` set evals" for node i t
    proof -
      have "filter (\<lambda>p. eval_node p = t) evals \<noteq> []" using that by (auto simp: filter_empty_conv)
      then obtain p ps where "filter (\<lambda>p. eval_node p = t) evals = p # ps" by (cases "filter (\<lambda>p. eval_node p = t) evals") auto
      moreover from this have "eval_node p = t" by (metis (mono_tags, lifting) filter_eq_ConsD)
      ultimately show ?thesis using \<open>strat = StrategyShared\<close>
        by (auto simp: plain_item_def item_receivers_def receivers_on_def Let_def)
    qed
    have "concat (map (\<lambda>it. if ti_intra it = Some True then [node] else map eval_node (item_receivers it))
          (map (?item node) (enumerate k ts))) = ts" if "set ts \<subseteq> eval_node ` set evals" for node ts k
      using that one by (induction ts arbitrary: k) auto
    then have "written_nodes eval_node (map (\<lambda>(node, ts). (node, map (?item node) (enumerate 0 ts))) rm')
        = concat (dict_values rm')" if "set (concat (dict_values rm')) \<subseteq> eval_node ` set evals" for rm'
      using that unfolding written_nodes_def by (induction rm') auto
    moreover have "mset (concat (dict_values rm)) = mset_set (set (concat (dict_values rm)))"
      using mset_set_set [OF targets(1)] by (rule sym)
    ultimately show ?thesis using targets(2) by (simp only: subset_refl)
  qed
  moreover have "\<forall>(n, items) \<in> set ?ti. \<forall>it \<in> set items. ti_sender it \<in> set trains \<and> train_node (ti_sender it) = n"
  proof -
    have sender: "ti_sender (?item n it) \<in> set trains \<and> train_node (ti_sender (?item n it)) = n" if "n \<in> train_node ` set trains" for n it
    proof -
      let ?ts = "filter (\<lambda>p. train_node p = n) trains"
      have "?ts \<noteq> []" using that by (auto simp: filter_empty_conv)
      then have "?ts ! (fst it mod length ?ts) \<in> set ?ts" by (intro nth_mem) simp
      then show ?thesis by (cases it) (simp add: plain_item_def Let_def)
    qed
    show ?thesis
    proof (intro ballI, clarify)
      fix n items it assume "(n, items) \<in> set ?ti" "it \<in> set items"
      then obtain ts it0 where "(n, ts) \<in> set rm" "it = ?item n it0" by auto
      moreover from this(1) keys have "n \<in> train_node ` set trains" by force
      ultimately show "ti_sender it \<in> set trains \<and> train_node (ti_sender it) = n" by (simp only: sender)
    qed
  qed
  ultimately show ?thesis using b by (intro exI [of _ ?ti]) (simp add: policy_transfer_info_def)
qed

lemma transfers_reach_all_witness:
  "\<exists>ti. policy_transfer_info False (\<lambda>p. ''a'') (\<lambda>p. if p < 2 then ''a'' else ''b'') [0] [0, 1, 2] StrategyShared = Inr ti
     \<and> mset (written_nodes (\<lambda>p. if p < 2 then ''a'' else ''b'') ti) = {#''a'', ''b''#}"
  using transfers_reach_all [of "[0]" StrategyShared "\<lambda>p. ''a''" "\<lambda>p. if p < 2 then ''a'' else ''b''" "[0, 1, 2]"]
  by (auto simp: numeral_eq_Suc)

subsection \<open>Groups and rollouts\<close>

text \<open>The group of a sender is overwritten: a train policy that sends to two other nodes belongs to two
  weight transfer groups, but its context keeps one group per mode, the last: with one train policy and
  the eval policies 0 and 1 on two other nodes, both receivers register the group they are in, and the
  sender, which sends to both, only that of the second receiver.\<close>
theorem sender_group_overwritten:
  "(let train_node = (\<lambda>p. ''a''); eval_node = (\<lambda>p. if p = 0 then ''b'' else ''c'');
        node_of = (\<lambda>w. case w of TrainW p \<Rightarrow> train_node p | EvalW p \<Rightarrow> eval_node p)
    in bind_result (policy_transfer_info False train_node eval_node [0] [0, 1] StrategyDouble) (\<lambda>ti.
       bind_result (init_comm_group node_of (\<lambda>_. 0) False [0] [0, 1] StrategyDouble ti) (\<lambda>ctx.
       bind_result (send_weights StrategyDouble [] ti) (\<lambda>calls.
       Inr (calls, map (\<lambda>(w, c). (w, map_option gi_ranks (map_of (cc_groups c) WEIGHT_TRANSFER))) ctx)))))
   = Inr ([(0, [0], None), (0, [1], None)],
          [(TrainW 0, Some [0, 2]), (EvalW 0, Some [0, 1]), (EvalW 1, Some [0, 2])])"
  by code_simp

text \<open>The strategy without buffers only works when both kinds of policies share their devices: for
  separate nodes the transfer information is built, but the synchronisation of the weights looks for the
  entry that only the other builder makes and fails with \<open>KeyError\<close>.\<close>
theorem sync_without_buffer_raises:
  assumes "trains \<noteq> []" "''all'' \<notin> train_node ` set trains"
  shows "\<exists>ti. policy_transfer_info False train_node eval_node trains evals StrategyNone = Inr ti
     \<and> sync_weights StrategyNone shared ti evals = Inl KeyError"
proof -
  obtain rm where b: "build_transfer_info_for_disaggregated (init_placement_info train_node eval_node trains evals) StrategyNone
       = Inr (map (\<lambda>(node, ts). (node, map (plain_item StrategyNone train_node eval_node trains evals node) (enumerate 0 ts))) rm)"
    (is "_ = Inr ?ti") "set (dict_keys rm) \<subseteq> train_node ` set trains"
    using build_eq [OF placed_as_init assms(1), of StrategyNone] by blast
  have "dict_keys ?ti = dict_keys rm" by (simp add: comp_def case_prod_beta')
  then have "''all'' \<notin> set (dict_keys ?ti)" using b(2) assms(2) by auto
  then have "map_of ?ti ''all'' = None" by (simp only: map_of_eq_None_iff set_map not_False_eq_True)
  then have "sync_weights StrategyNone shared ?ti evals = Inl KeyError"
    by (simp only: sync_weights_def simp_thms if_True of_option_simps bind_result_Inl)
  with b(1) show ?thesis by (intro exI [of _ ?ti]) (simp only: policy_transfer_info_def if_False simp_thms)
qed

lemma sync_without_buffer_raises_witness:
  "\<exists>ti. policy_transfer_info False (\<lambda>p. ''a'') (\<lambda>p. ''b'') [0] [0] StrategyNone = Inr ti
     \<and> sync_weights StrategyNone [] ti [0] = Inl KeyError"
  by (rule sync_without_buffer_raises) simp_all

text \<open>Every worker gets one rank: the actors by node are a permutation of the workers.\<close>

lemma actors_by_node_eq: "actors_by_node node_of ws = group_by node_of (\<lambda>w. w) ws"
  by (simp add: actors_by_node_def group_by_def)

lemma sorted_actors_mset: "mset (sorted_actors node_of gpu ws) = mset ws"
proof -
  have sort: "mset (concat (dict_values (map (\<lambda>(n, as). (n, sort_key gpu as)) d))) = mset (concat (dict_values d))"
    for d :: "(string, worker list) dict"
    by (induction d) auto
  let ?d = "group_by node_of (\<lambda>w. w) ws"
  have "dict_values ?d = map (\<lambda>k. filter (\<lambda>w. node_of w = k) ws) (dict_keys ?d)"
  proof -
    have "dict_values d = map (dict_get [] d) (dict_keys d)" if "dict_ok d" for d :: "(string, worker list) dict"
      using that by (auto simp: comp_def dict_get_in)
    note vals = this [OF group_by_keys(2)]
    show ?thesis unfolding vals by (simp add: group_by_get)
  qed
  then have "mset (concat (dict_values ?d)) = mset (filter (\<lambda>w. node_of w \<in> set (dict_keys ?d)) ws)"
    by (simp only: mset_concat_filter [OF group_by_keys(2)])
  moreover have "filter (\<lambda>w. node_of w \<in> set (dict_keys ?d)) ws = ws"
    unfolding group_by_keys(3) by (intro filter_True) auto
  ultimately show ?thesis
    by (simp only: sorted_actors_def sorted_by_node_def actors_by_node_eq sort)
qed

lemma rank_of_nth: "distinct xs \<Longrightarrow> i < length xs \<Longrightarrow> rank_of xs (xs ! i) = i"
proof (induction xs arbitrary: i)
  case (Cons x xs)
  then show ?case by (cases i) (auto simp: rank_of_def)
qed simp

lemma ranks_bijective:
  assumes "distinct ws"
  shows "bij_betw (rank_of (sorted_actors node_of gpu ws)) (set ws) {0..<length ws}"
proof -
  let ?s = "sorted_actors node_of gpu ws"
  have s: "distinct ?s" "set ?s = set ws" "length ?s = length ws"
    using assms sorted_actors_mset [of node_of gpu ws] mset_eq_imp_distinct_iff mset_eq_setD mset_eq_length by metis+
  show ?thesis
  proof (rule bij_betwI [where g = "\<lambda>i. ?s ! i"])
    show "rank_of ?s \<in> set ws \<rightarrow> {0..<length ws}"
      using rank_of_nth [OF s(1)] s(2,3) by (metis Pi_I atLeastLessThan_iff in_set_conv_nth zero_le)
    show "(\<lambda>i. ?s ! i) \<in> {0..<length ws} \<rightarrow> set ws" using s(2,3) by (auto simp flip: s(2))
    show "?s ! rank_of ?s w = w" if "w \<in> set ws" for w
      using that rank_of_nth [OF s(1)] s(2) by (metis in_set_conv_nth)
    show "rank_of ?s (?s ! i) = i" if "i \<in> {0..<length ws}" for i
      using that rank_of_nth [OF s(1)] s(3) by simp
  qed
qed

end
