(* ===== verification/Builders.thy ===== *)
theory Builders
  imports Policy_Group_Correct
begin

text \<open>
  \<open>rlightning/utils/registry/registry.py\<close> and \<open>rlightning/utils/builders.py\<close>: named classes, the list of
  environments of a group, and how a policy group is put together before the engine uses it.
\<close>

subsection \<open>Registries\<close>

record 'c registry =
  registry_name :: string
  module_dict :: "(string, 'c) dict"

definition new_registry :: "string \<Rightarrow> 'c registry" where
  "new_registry name = \<lparr>registry_name = name, module_dict = []\<rparr>"

definition registry_get :: "string \<Rightarrow> 'c registry \<Rightarrow> 'c result" where
  "registry_get key r = of_option KeyError (map_of (module_dict r) key)"

text \<open>\<open>register(name)\<close> used on a class of the given name: the class itself is returned.\<close>

definition registry_register :: "string option \<Rightarrow> string \<Rightarrow> 'c \<Rightarrow> 'c registry \<Rightarrow> ('c \<times> 'c registry) result" where
  "registry_register name cls_name cls r =
     (let module_name = (case name of None \<Rightarrow> cls_name | Some n \<Rightarrow> n)
      in bind_result (guard KeyError (map_of (module_dict r) module_name = None)) (\<lambda>_.
         Inr (cls, r\<lparr>module_dict := AList.update module_name cls (module_dict r)\<rparr>)))"

definition register_class :: "'c registry \<Rightarrow> string option \<times> string \<times> 'c \<Rightarrow> 'c registry result" where
  "register_class r reg = (case reg of (name, cls_name, cls) \<Rightarrow> map_sum id snd (registry_register name cls_name cls r))"

lemma register_class_eq:
  "register_class r (name, cls_name, cls)
   = (let k = (case name of None \<Rightarrow> cls_name | Some n \<Rightarrow> n)
      in if map_of (module_dict r) k = None then Inr (r\<lparr>module_dict := AList.update k cls (module_dict r)\<rparr>) else Inl KeyError)"
  by (simp add: register_class_def registry_register_def guard_def Let_def)

text \<open>A registry never changes an entry: what can be looked up stays what it is after any sequence of
  successful registrations, a name that was registered is found, and registering it again raises.\<close>
theorem registry_entries_stay:
  assumes "foldM register_class r regs = Inr r'"
  shows "(\<forall>k c. registry_get k r = Inr c \<longrightarrow> registry_get k r' = Inr c)
     \<and> (\<forall>(name, cls_name, cls) \<in> set regs. registry_get (case name of None \<Rightarrow> cls_name | Some n \<Rightarrow> n) r' = Inr cls
          \<and> registry_register name cls_name d r' = Inl KeyError)"
  using assms
proof (induction regs arbitrary: r)
  case (Cons reg regs)
  obtain name cls_name cls where reg: "reg = (name, cls_name, cls)" by (cases reg)
  define k where "k = (case name of None \<Rightarrow> cls_name | Some n \<Rightarrow> n)"
  let ?r = "r\<lparr>module_dict := AList.update k cls (module_dict r)\<rparr>"
  have new: "map_of (module_dict r) k = None" and rest: "foldM register_class ?r regs = Inr r'"
    using Cons.prems by (auto simp: reg register_class_eq k_def [symmetric] Let_def split: if_splits)
  note ih = Cons.IH [OF rest]
  have "registry_get k ?r = Inr cls" by (simp add: registry_get_def)
  then have k: "registry_get k r' = Inr cls" using ih by blast
  then have "map_of (module_dict r') k \<noteq> None" by (auto simp: registry_get_def of_option_eq_Inr)
  then have "registry_register name cls_name d r' = Inl KeyError"
    by (simp add: registry_register_def k_def [symmetric] guard_def Let_def)
  moreover have "registry_get j r' = Inr c" if "registry_get j r = Inr c" for j c
  proof -
    have "j \<noteq> k" using that new by (auto simp: registry_get_def)
    then have "registry_get j ?r = Inr c" using that by (simp add: registry_get_def)
    then show ?thesis using ih by blast
  qed
  ultimately show ?case using ih k by (auto simp: reg k_def)
qed simp

lemma registry_entries_stay_witness:
  "\<exists>r'. foldM register_class (new_registry ''env'') [(Some ''libero'', ''LiberoEnv'', 0), (None, ''AleEnv'', 1 :: nat)] = Inr r'
     \<and> registry_get ''AleEnv'' r' = Inr 1 \<and> registry_register None ''AleEnv'' 2 r' = Inl KeyError"
proof -
  obtain r' where "foldM register_class (new_registry ''env'')
      [(Some ''libero'', ''LiberoEnv'', 0), (None, ''AleEnv'', 1 :: nat)] = Inr r'"
    by (simp add: new_registry_def register_class_eq)
  from this registry_entries_stay [OF this, of 2] show ?thesis by auto
qed

subsection \<open>The environments of a group\<close>

text \<open>\<open>build_env_group\<close>: a configuration is repeated for each of its workers, with its preprocessing.\<close>

definition env_instances :: "('c \<times> nat) list \<Rightarrow> 'f list \<Rightarrow> ('c \<times> 'f) list" where
  "env_instances cfgs fns = concat (map (\<lambda>((c, n), f). replicate n (c, f)) (zip cfgs fns))"

definition build_env_group :: "('c \<times> nat) list \<Rightarrow> 'f + 'f list \<Rightarrow> 'c list \<times> 'f list" where
  "build_env_group cfgs preprocess =
     (let fns = (case preprocess of Inl f \<Rightarrow> replicate (length cfgs) f | Inr fs \<Rightarrow> fs);
          envs = env_instances cfgs fns
      in (map fst envs, map snd envs))"

lemma length_env_instances: "length fns = length cfgs \<Longrightarrow> length (env_instances cfgs fns) = sum_list (map snd cfgs)"
proof (induction fns cfgs rule: list_induct2)
  case (Cons f fns c cfgs)
  then show ?case by (cases c) (simp add: env_instances_def)
qed (simp add: env_instances_def)

text \<open>With one preprocessing for all, or one per configuration, the group gets as many environments as the
  configurations have workers together, each with a preprocessing.\<close>
theorem env_group_size:
  assumes "case preprocess of Inl f \<Rightarrow> True | Inr fs \<Rightarrow> length fs = length cfgs"
  shows "length (fst (build_env_group cfgs preprocess)) = sum_list (map snd cfgs)
     \<and> length (snd (build_env_group cfgs preprocess)) = sum_list (map snd cfgs)"
  using assms by (auto simp: build_env_group_def Let_def length_env_instances split: sum.splits)

lemma env_group_size_witness:
  "length (fst (build_env_group [(''ale'', 2), (''libero'', 3)] (Inl ''id''))) = 5"
  using env_group_size [of "[(''ale'', 2), (''libero'', 3)]" "Inl ''id''"] by simp

subsection \<open>The policy group\<close>

record policy_group =
  pg_transfer :: transfer_info
  pg_shared :: "string list"
  pg_contexts :: "(worker, comm_context) dict"

text \<open>\<open>init_weight_buffer\<close>: the nodes that get a shared buffer. A colocated group has no placement.\<close>

definition init_weight_buffer :: "(string, placement_entry) dict \<Rightarrow> buffer_strategy \<Rightarrow> string list result" where
  "init_weight_buffer info strat =
     (case strat of StrategyNone \<Rightarrow> Inr [] | StrategyDouble \<Rightarrow> Inr [] | StrategyShared \<Rightarrow> Inr (shared_nodes info)
      | StrategySharded \<Rightarrow> Inl ValueError)"

text \<open>\<open>build_policy_group\<close>, where the workers have been created; \<open>remote\<close> when either kind is.\<close>

definition build_policy_group ::
    "bool \<Rightarrow> bool \<Rightarrow> (worker \<Rightarrow> string) \<Rightarrow> (worker \<Rightarrow> int) \<Rightarrow> nat list \<Rightarrow> nat list \<Rightarrow> buffer_strategy \<Rightarrow> policy_group result" where
  "build_policy_group colocated remote node_of gpu trains evals strat =
     (let train_node = node_of \<circ> TrainW; eval_node = node_of \<circ> EvalW;
          info = (if colocated then [] else init_placement_info train_node eval_node trains evals)
      in bind_result (policy_transfer_info colocated train_node eval_node trains evals strat) (\<lambda>ti.
         bind_result (if trains = [] then Inr [] else init_weight_buffer info strat) (\<lambda>shared.
         bind_result (if remote then init_comm_group node_of gpu colocated trains evals strat ti else Inr []) (\<lambda>ctx.
         Inr \<lparr>pg_transfer = ti, pg_shared = shared, pg_contexts = ctx\<rparr>))))"

text \<open>A group of eval policies only cannot be built: without train policies, the builder raises
  \<open>ValueError\<close> for every strategy, since no node can send weights.\<close>
theorem eval_only_group_raises:
  assumes "evals \<noteq> []"
  shows "build_policy_group False remote node_of gpu [] evals strat = Inl ValueError"
proof -
  let ?info = "init_placement_info (node_of \<circ> TrainW) (node_of \<circ> EvalW) [] evals"
  have "placed_as (node_of \<circ> TrainW) (node_of \<circ> EvalW) [] evals ?info" by (rule placed_as_init)
  then have "pe_train e = []" if "(n, e) \<in> set ?info" for n e
    using dict_get_in [OF _ that, of empty_placement] by (auto simp: placed_as_def)
  then have "train_nodes ?info = []" "mixed_nodes ?info = []"
    by (auto simp: train_nodes_def mixed_nodes_def filter_empty_conv)
  then show ?thesis
    by (simp add: build_policy_group_def Let_def policy_transfer_info_def build_transfer_info_for_disaggregated_def router_map_def)
qed

lemma eval_only_group_raises_witness:
  "build_policy_group False False (\<lambda>w. ''a'') (\<lambda>w. 0) [] [0, 1] StrategyDouble = Inl ValueError"
  by (rule eval_only_group_raises) simp

text \<open>A colocated group synchronises only without buffers: it is built whenever there are not more eval than
  train policies; the strategy \<open>None\<close> then hands the weights of the i-th train policy to the i-th eval
  policy, and with the other two strategies that can be built the synchronisation raises.\<close>
theorem colocated_sync:
  assumes "length evals \<le> length trains" "evals \<noteq> []" "strat \<noteq> StrategySharded"
  shows "\<exists>g. build_policy_group True False node_of gpu trains evals strat = Inr g
     \<and> (if strat = StrategyNone then sync_weights strat (pg_shared g) (pg_transfer g) evals = Inr (map2 SendIpc trains evals)
        else \<exists>e. sync_weights strat (pg_shared g) (pg_transfer g) evals = Inl e)"
proof -
  let ?ti = "[(''all'', map (\<lambda>(t, e). \<lparr>ti_sender = t, ti_receiver = Receiver e, ti_intra = None\<rparr>) (zip trains evals))]"
  have "build_policy_group True False node_of gpu trains evals strat = Inr \<lparr>pg_transfer = ?ti, pg_shared = [], pg_contexts = []\<rparr>"
    using assms by (cases strat)
      (auto simp: build_policy_group_def policy_transfer_info_def build_transfer_info_for_colocated_def init_weight_buffer_def shared_nodes_def Let_def)
  moreover have "sync_weights strat [] ?ti evals = Inr (map2 SendIpc trains evals)" if "strat = StrategyNone"
    using that by (simp add: sync_weights_def) (subst mapM_ok [where g = "\<lambda>it. SendIpc (ti_sender it) (case ti_receiver it of Receiver e \<Rightarrow> e | Receivers rs \<Rightarrow> 0)"],
        auto simp: case_prod_beta')
  moreover have "\<exists>e. sync_weights strat [] ?ti evals = Inl e" if "strat \<noteq> StrategyNone"
  proof -
    obtain t ts e es where "trains = t # ts" "evals = e # es" using assms(1,2) by (cases trains; cases evals) auto
    then show ?thesis using that
      by (cases "strat = StrategyShared") (auto simp: sync_weights_def send_weights_def send_call_def)
  qed
  ultimately show ?thesis by (intro exI [of _ "\<lparr>pg_transfer = ?ti, pg_shared = [], pg_contexts = []\<rparr>"]) simp
qed

lemma colocated_sync_witness:
  "\<exists>g. build_policy_group True False (\<lambda>w. ''a'') (\<lambda>w. 0) [0, 1] [5] StrategyNone = Inr g
     \<and> sync_weights StrategyNone (pg_shared g) (pg_transfer g) [5] = Inr [SendIpc 0 5]"
  using colocated_sync [of "[5]" "[0, 1]" StrategyNone "\<lambda>w. ''a''" "\<lambda>w. 0"] by simp

lemma eval_node_shared:
  assumes "placed_as tn en trains evals info" "n \<in> en ` set evals"
  shows "n \<in> set (shared_nodes info)"
proof -
  have "n \<in> set (dict_keys info)" using assms by (simp add: placed_as_def)
  then obtain e where e: "(n, e) \<in> set info" by force
  then have "pe_eval e = filter (\<lambda>p. en p = n) evals" using assms(1) dict_get_in by (metis placed_as_def)
  then have "pe_eval e \<noteq> []" using assms(2) by (auto simp: filter_empty_conv)
  then show ?thesis using e by (force simp: shared_nodes_def)
qed

lemma plain_item_ends:
  assumes "node \<in> tn ` set trains"
  shows "ti_sender (plain_item strat tn en trains evals node (i, t)) \<in> set trains
     \<and> set (item_receivers (plain_item strat tn en trains evals node (i, t))) \<subseteq> set evals"
proof
  let ?ts = "filter (\<lambda>p. tn p = node) trains"
  have "?ts \<noteq> []" using assms by (auto simp: filter_empty_conv)
  then have "?ts ! (i mod length ?ts) \<in> set ?ts" by (intro nth_mem) simp
  then show "ti_sender (plain_item strat tn en trains evals node (i, t)) \<in> set trains"
    by (simp add: plain_item_def Let_def)
  show "set (item_receivers (plain_item strat tn en trains evals node (i, t))) \<subseteq> set evals"
    by (auto simp: item_receivers_def plain_item_def receivers_on_def Let_def dest: in_set_takeD)
qed

text \<open>On separate nodes a group with train policies and one of the strategies \<open>Double\<close> and \<open>Shared\<close> is built,
  and its synchronisation succeeds: weights are sent by train policies only, and every eval policy is
  notified once, after all sends.\<close>
theorem built_group_syncs:
  assumes "trains \<noteq> []" "strat \<in> {StrategyDouble, StrategyShared}"
  shows "\<exists>g sends. build_policy_group False False node_of gpu trains evals strat = Inr g
     \<and> sync_weights strat (pg_shared g) (pg_transfer g) evals = Inr (map (\<lambda>(s, rs, b). Send s rs b) sends @ map Notify evals)
     \<and> (\<forall>(s, rs, b) \<in> set sends. s \<in> set trains \<and> set rs \<subseteq> set evals)"
proof -
  let ?tn = "node_of \<circ> TrainW" and ?en = "node_of \<circ> EvalW"
  let ?info = "init_placement_info ?tn ?en trains evals"
  let ?item = "plain_item strat ?tn ?en trains evals"
  have placed: "placed_as ?tn ?en trains evals ?info" by (rule placed_as_init)
  obtain rm where b: "build_transfer_info_for_disaggregated ?info strat
       = Inr (map (\<lambda>(node, ts). (node, map (?item node) (enumerate 0 ts))) rm)" (is "_ = Inr ?ti")
    and targets: "set (concat (dict_values rm)) = ?en ` set evals" and keys: "set (dict_keys rm) \<subseteq> ?tn ` set trains"
    using build_eq [OF placed assms(1), of strat] assms(2) by auto
  define shared where "shared = (if strat = StrategyShared then shared_nodes ?info else [])"
  note nodes = eval_node_shared [OF placed]
  let ?call = "\<lambda>(node, it). (ti_sender it, item_receivers it, if strat = StrategyShared \<and> ti_intra it = Some True then Some node else None)"
  have call: "send_call strat shared node (?item node (i, t)) = Inr (?call (node, ?item node (i, t)))"
    if "t \<in> ?en ` set evals" for node i t
    using nodes [OF that] assms(2) by (auto simp: send_call_def plain_item_def item_receivers_def shared_def Let_def)
  let ?pairs = "concat (map (\<lambda>(node, items). map (Pair node) items) ?ti)"
  have items: "\<exists>node i t. x = (node, ?item node (i, t)) \<and> t \<in> ?en ` set evals \<and> node \<in> ?tn ` set trains"
    if x: "x \<in> set ?pairs" for x
  proof -
    obtain node ts i t where m: "(node, ts) \<in> set rm" and it: "(i, t) \<in> set (enumerate 0 ts)" and xeq: "x = (node, ?item node (i, t))"
      using x by auto
    have "t \<in> set ts" using it by (auto simp: in_set_enumerate_eq)
    with m have "t \<in> set (concat (dict_values rm))" by (auto intro: bexI [of _ "(node, ts)"])
    then have "t \<in> ?en ` set evals" by (simp only: targets)
    moreover have "node \<in> ?tn ` set trains" using m by (intro subsetD [OF keys]) (auto intro: rev_image_eqI)
    ultimately show ?thesis by (intro exI conjI) (rule xeq)
  qed
  have "send_weights strat shared ?ti = Inr (map ?call ?pairs)"
    unfolding send_weights_def
  proof (rule mapM_ok)
    fix x assume "x \<in> set ?pairs"
    then obtain node i t where "x = (node, ?item node (i, t))" "t \<in> ?en ` set evals" using items by blast
    then show "(case x of (node, it) \<Rightarrow> send_call strat shared node it) = Inr (?call x)" using call by simp
  qed
  then have sync: "sync_weights strat shared ?ti evals = Inr (map (\<lambda>(s, rs, b). Send s rs b) (map ?call ?pairs) @ map Notify evals)"
    using assms(2) by (auto simp: sync_weights_def)
  have sent: "s \<in> set trains \<and> set rs \<subseteq> set evals" if "(s, rs, bf) \<in> set (map ?call ?pairs)" for s rs bf
  proof -
    from that obtain x where x: "x \<in> set ?pairs" and cx: "(s, rs, bf) = ?call x" unfolding set_map by (rule imageE)
    obtain node i t where xeq: "x = (node, ?item node (i, t))" and node: "node \<in> ?tn ` set trains"
      using items [OF x] by (elim exE conjE)
    have it: "s = ti_sender (?item node (i, t))" "rs = item_receivers (?item node (i, t))"
      using cx unfolding xeq by (simp_all only: prod.case prod.inject)
    show ?thesis unfolding it by (rule plain_item_ends [OF node])
  qed
  have built: "build_policy_group False False node_of gpu trains evals strat
      = Inr \<lparr>pg_transfer = ?ti, pg_shared = shared, pg_contexts = []\<rparr>"
    using b assms by (auto simp: build_policy_group_def policy_transfer_info_def init_weight_buffer_def shared_def Let_def)
  show ?thesis
  proof (intro exI conjI ballI)
    show "build_policy_group False False node_of gpu trains evals strat
      = Inr \<lparr>pg_transfer = ?ti, pg_shared = shared, pg_contexts = []\<rparr>" by (rule built)
    show "sync_weights strat (pg_shared \<lparr>pg_transfer = ?ti, pg_shared = shared, pg_contexts = []\<rparr>)
        (pg_transfer \<lparr>pg_transfer = ?ti, pg_shared = shared, pg_contexts = []\<rparr>) evals
      = Inr (map (\<lambda>(s, rs, b). Send s rs b) (map ?call ?pairs) @ map Notify evals)"
      unfolding policy_group.simps by (rule sync)
    fix x assume x: "x \<in> set (map ?call ?pairs)"
    obtain s rs bf where xeq: "x = (s, rs, bf)" by (rule prod_cases3)
    show "case x of (s, rs, b) \<Rightarrow> s \<in> set trains \<and> set rs \<subseteq> set evals"
      using sent [OF x [unfolded xeq]] by (simp only: xeq prod.case)
  qed
qed

lemma built_group_syncs_witness:
  "\<exists>g sends. build_policy_group False False (\<lambda>w. ''a'') (\<lambda>w. 0) [0] [0, 1] StrategyShared = Inr g
     \<and> sync_weights StrategyShared (pg_shared g) (pg_transfer g) [0, 1] = Inr (map (\<lambda>(s, rs, b). Send s rs b) sends @ [Notify 0, Notify 1])"
  using built_group_syncs [of "[0]" StrategyShared "\<lambda>w. ''a''" "\<lambda>w. 0" "[0, 1]"] by auto

end
