(* ===== verification/Env_Server.thy ===== *)
theory Env_Server
  imports Py_Strings "HOL-Library.AList"
begin

text \<open>
  \<open>RemoteEnvServer\<close> of \<open>rlightning/env/env_server.py\<close> and \<open>RemoteEnvClient\<close> of
  \<open>env/remote_env/env_client.py\<close>: clients run environments elsewhere and talk to the server over
  \<open>zmq\<close>, which here keeps the messages of each direction in order. The environments and the policy are
  parameters. The receiving thread, the sending thread, the calls of the environment group and every client
  move one at a time.
\<close>

subsection \<open>State\<close>

datatype 'r client_msg = Running 'r | Closing

text \<open>A client has not connected yet, waits for a response after its last return, or has finished.\<close>

datatype 'r client = Unconnected | Awaiting 'r | Finished 'r

record ('r, 'p) env_server =
  to_server :: "(string \<times> 'r client_msg) list"
  env_ret_queue :: "(string \<times> 'r) list"
  collected :: "(string \<times> 'r) list"
  send_msg_queue :: "(string \<times> 'p) list"
  to_client :: "(string \<times> 'p) list"
  clients :: "string \<Rightarrow> 'r client"

definition max_envs :: nat where
  "max_envs = 32"

definition new_env_server :: "('r, 'p) env_server" where
  "new_env_server = \<lparr>to_server = [], env_ret_queue = [], collected = [], send_msg_queue = [], to_client = [],
     clients = \<lambda>_. Unconnected\<rparr>"

text \<open>The name of a client's environment in the group, and the client of such a name.\<close>

definition remote_env_id :: "string \<Rightarrow> string \<Rightarrow> string" where
  "remote_env_id sid i = sid @ CHR ''/'' # i"

definition zmq_identity :: "string \<Rightarrow> string" where
  "zmq_identity env_id = List.last (py_split (CHR ''/'') env_id)"

subsection \<open>Moves\<close>

text \<open>\<open>_recv_thread\<close>: a return is put into the queue, which blocks while it is full; a closing is logged.\<close>

definition recv_message :: "string \<Rightarrow> ('r, 'p) env_server \<Rightarrow> ('r, 'p) env_server option" where
  "recv_message sid s =
     (case to_server s of
        [] \<Rightarrow> None
      | (i, Closing) # ms \<Rightarrow> Some (s\<lparr>to_server := ms\<rparr>)
      | (i, Running r) # ms \<Rightarrow>
          if length (env_ret_queue s) < max_envs
          then Some (s\<lparr>to_server := ms, env_ret_queue := env_ret_queue s @ [(remote_env_id sid i, r)]\<rparr>)
          else None)"

text \<open>\<open>collect_async\<close> without a timeout: waits for one return and takes all there are.\<close>

definition collect_returns :: "('r, 'p) env_server \<Rightarrow> ('r, 'p) env_server option" where
  "collect_returns s =
     (if env_ret_queue s = [] then None
      else Some (s\<lparr>env_ret_queue := [], collected := collected s @ env_ret_queue s\<rparr>))"

text \<open>\<open>step_async\<close>, response by response: the policy has answered the k-th of the collected returns.\<close>

definition put_response :: "(string \<Rightarrow> 'r \<Rightarrow> 'p) \<Rightarrow> nat \<Rightarrow> ('r, 'p) env_server \<Rightarrow> ('r, 'p) env_server option" where
  "put_response policy k s =
     (if k < length (collected s) \<and> length (send_msg_queue s) < max_envs
      then (case collected s ! k of (e, r) \<Rightarrow>
              Some (s\<lparr>collected := take k (collected s) @ drop (Suc k) (collected s),
                      send_msg_queue := send_msg_queue s @ [(e, policy e r)]\<rparr>))
      else None)"

text \<open>\<open>_send_thread\<close>: the response goes to the client named by the last part of its environment's name.\<close>

definition send_message :: "('r, 'p) env_server \<Rightarrow> ('r, 'p) env_server option" where
  "send_message s =
     (case send_msg_queue s of
        [] \<Rightarrow> None
      | (e, p) # q \<Rightarrow> Some (s\<lparr>send_msg_queue := q, to_client := to_client s @ [(zmq_identity e, p)]\<rparr>))"

text \<open>\<open>run\<close> of the client: the reset at the start, and one turn of its loop.\<close>

definition client_start :: "(string \<Rightarrow> 'r) \<Rightarrow> string \<Rightarrow> ('r, 'p) env_server \<Rightarrow> ('r, 'p) env_server option" where
  "client_start reset i s =
     (case clients s i of
        Unconnected \<Rightarrow> Some (s\<lparr>to_server := to_server s @ [(i, Running (reset i))],
                               clients := (clients s)(i := Awaiting (reset i))\<rparr>)
      | _ \<Rightarrow> None)"

definition client_turn ::
    "(string \<Rightarrow> 'r \<Rightarrow> 'p \<Rightarrow> 'r \<times> bool) \<Rightarrow> string \<Rightarrow> ('r, 'p) env_server \<Rightarrow> ('r, 'p) env_server option" where
  "client_turn env_step i s =
     (case (clients s i, dropWhile (\<lambda>m. fst m \<noteq> i) (to_client s)) of
        (Awaiting r, (j, p) # ms) \<Rightarrow>
          (case env_step i r p of (r', finished) \<Rightarrow>
             Some (s\<lparr>to_client := takeWhile (\<lambda>m. fst m \<noteq> i) (to_client s) @ ms,
                     to_server := to_server s @ [(i, Running r')] @ (if finished then [(i, Closing)] else []),
                     clients := (clients s)(i := if finished then Finished r' else Awaiting r')\<rparr>))
      | _ \<Rightarrow> None)"

datatype server_move = Recv | Collect | Respond nat | SendOne | Start string | Turn string

record ('r, 'p) remote_world =
  server_id :: string
  answer_with :: "string \<Rightarrow> 'r \<Rightarrow> 'p"
  reset_env :: "string \<Rightarrow> 'r"
  step_env :: "string \<Rightarrow> 'r \<Rightarrow> 'p \<Rightarrow> 'r \<times> bool"

definition server_step :: "('r, 'p) remote_world \<Rightarrow> server_move \<Rightarrow> ('r, 'p) env_server \<Rightarrow> ('r, 'p) env_server option" where
  "server_step w m s =
     (case m of
        Recv \<Rightarrow> recv_message (server_id w) s
      | Collect \<Rightarrow> collect_returns s
      | Respond k \<Rightarrow> put_response (answer_with w) k s
      | SendOne \<Rightarrow> send_message s
      | Start i \<Rightarrow> client_start (reset_env w) i s
      | Turn i \<Rightarrow> client_turn (step_env w) i s)"

text \<open>Identities are the address of the host and the id of the environment and hold no slash.\<close>

inductive server_reachable :: "('r, 'p) remote_world \<Rightarrow> ('r, 'p) env_server \<Rightarrow> bool" for w where
  server_init: "server_reachable w new_env_server"
| server_moves: "server_reachable w s \<Longrightarrow> (\<And>i. m = Start i \<Longrightarrow> CHR ''/'' \<notin> set i) \<Longrightarrow> server_step w m s = Some s'
     \<Longrightarrow> server_reachable w s'"


text \<open>
  Every client has one message under way, and the responses it gets are those to its own returns.
\<close>

subsection \<open>Names\<close>

lemma py_split_append: "py_split sep (s @ sep # t) = py_split sep s @ py_split sep t"
proof (induction s)
  case (Cons c s)
  then show ?case by (cases "py_split sep s") simp_all
qed simp

lemma last_split: "sep \<notin> set i \<Longrightarrow> List.last (py_split sep (s @ sep # i)) = i"
  by (simp add: py_split_append py_split_no_sep)

lemma zmq_identity_remote: "CHR ''/'' \<notin> set i \<Longrightarrow> zmq_identity (remote_env_id sid i) = i"
  by (simp add: zmq_identity_def remote_env_id_def last_split)

lemma remote_env_id_inj [simp]: "remote_env_id sid i = remote_env_id sid j \<longleftrightarrow> i = j"
  by (simp add: remote_env_id_def)

subsection \<open>What belongs to a client\<close>

definition own :: "'k \<Rightarrow> ('k \<times> 'v) list \<Rightarrow> 'v list" where
  "own k xs = map snd (filter (\<lambda>x. fst x = k) xs)"

lemma own_simps [simp]:
  "own k [] = []" "own k (x # xs) = (if fst x = k then [snd x] else []) @ own k xs"
  "own k (xs @ ys) = own k xs @ own k ys"
  by (simp_all add: own_def)

lemma own_member: "v \<in> set (own k xs) \<longleftrightarrow> (k, v) \<in> set xs"
  by (force simp: own_def)

fun running :: "(string \<times> 'r client_msg) list \<Rightarrow> (string \<times> 'r) list" where
  "running [] = []"
| "running ((i, Running r) # ms) = (i, r) # running ms"
| "running ((i, Closing) # ms) = running ms"

lemma running_append [simp]: "running (xs @ ys) = running xs @ running ys"
  by (induction xs rule: running.induct) simp_all

definition returns_of :: "string \<Rightarrow> string \<Rightarrow> ('r, 'p) env_server \<Rightarrow> 'r list" where
  "returns_of sid i s =
     own (remote_env_id sid i) (collected s) @ own (remote_env_id sid i) (env_ret_queue s) @ own i (running (to_server s))"

definition responses_to :: "string \<Rightarrow> string \<Rightarrow> ('r, 'p) env_server \<Rightarrow> 'p list" where
  "responses_to sid i s = own i (to_client s) @ own (remote_env_id sid i) (send_msg_queue s)"

text \<open>Either the last return of the client is under way, or the response to it.\<close>

definition one_message :: "('r, 'p) remote_world \<Rightarrow> string \<Rightarrow> ('r, 'p) env_server \<Rightarrow> bool" where
  "one_message w i s \<longleftrightarrow>
     (case clients s i of
        Unconnected \<Rightarrow> returns_of (server_id w) i s = [] \<and> responses_to (server_id w) i s = []
      | Awaiting r \<Rightarrow>
          returns_of (server_id w) i s = [r] \<and> responses_to (server_id w) i s = []
          \<or> returns_of (server_id w) i s = [] \<and> responses_to (server_id w) i s = [answer_with w (remote_env_id (server_id w) i) r]
      | Finished r \<Rightarrow>
          returns_of (server_id w) i s = [r] \<and> responses_to (server_id w) i s = []
          \<or> returns_of (server_id w) i s = [] \<and> responses_to (server_id w) i s = [answer_with w (remote_env_id (server_id w) i) r])"

definition named :: "string \<Rightarrow> (string \<times> 'v) list \<Rightarrow> bool" where
  "named sid q \<longleftrightarrow> (\<forall>(e, v) \<in> set q. \<exists>i. CHR ''/'' \<notin> set i \<and> e = remote_env_id sid i)"

definition server_inv :: "('r, 'p) remote_world \<Rightarrow> ('r, 'p) env_server \<Rightarrow> bool" where
  "server_inv w s \<longleftrightarrow> (\<forall>i. one_message w i s)
     \<and> named (server_id w) (env_ret_queue s) \<and> named (server_id w) (collected s) \<and> named (server_id w) (send_msg_queue s)
     \<and> (\<forall>i. clients s i \<noteq> Unconnected \<longrightarrow> CHR ''/'' \<notin> set i)
     \<and> (\<forall>m \<in> set (to_server s). CHR ''/'' \<notin> set (fst m))
     \<and> length (env_ret_queue s) \<le> max_envs \<and> length (send_msg_queue s) \<le> max_envs"

lemma named_simps [simp]:
  "named sid []" "named sid (x # xs) \<longleftrightarrow> (\<exists>i. CHR ''/'' \<notin> set i \<and> fst x = remote_env_id sid i) \<and> named sid xs"
  "named sid (xs @ ys) \<longleftrightarrow> named sid xs \<and> named sid ys"
  by (cases x; auto simp: named_def)+

lemma server_inv_init: "server_inv w new_env_server"
  by (simp add: server_inv_def new_env_server_def one_message_def returns_of_def responses_to_def)

lemma one_message_cong:
  assumes "clients s' i = clients s i" "returns_of (server_id w) i s' = returns_of (server_id w) i s"
    and "responses_to (server_id w) i s' = responses_to (server_id w) i s" "one_message w i s"
  shows "one_message w i s'"
  using assms by (cases "clients s i") (simp_all add: one_message_def)

lemma inv_one: "server_inv w s \<Longrightarrow> one_message w i s"
  by (simp add: server_inv_def)

lemma recv_inv:
  assumes "server_inv w s" "recv_message (server_id w) s = Some s'"
  shows "server_inv w s'"
proof (cases "to_server s")
  case (Cons m ms)
  obtain i c where m: "m = (i, c)" by (cases m)
  show ?thesis
  proof (cases c)
    case Closing
    then have s': "s' = s\<lparr>to_server := ms\<rparr>" using assms(2) Cons m by (simp add: recv_message_def)
    have "one_message w j s'" for j
      by (rule one_message_cong [of _ _ s]) (use Cons m Closing inv_one [OF assms(1)] in \<open>simp_all add: s' returns_of_def responses_to_def\<close>)
    then show ?thesis using assms(1) Cons by (simp add: server_inv_def s')
  next
    case (Running r)
    then have s': "s' = s\<lparr>to_server := ms, env_ret_queue := env_ret_queue s @ [(remote_env_id (server_id w) i, r)]\<rparr>"
      and room: "length (env_ret_queue s) < max_envs"
      using assms(2) Cons m by (auto simp: recv_message_def split: if_splits)
    have "one_message w j s'" for j
      by (rule one_message_cong [of _ _ s]) (use Cons m Running inv_one [OF assms(1)] in \<open>simp_all add: s' returns_of_def responses_to_def\<close>)
    then show ?thesis using assms(1) Cons m room by (auto simp: server_inv_def s')
  qed
qed (use assms in \<open>simp add: recv_message_def\<close>)

lemma collect_inv:
  assumes "server_inv w s" "collect_returns s = Some s'"
  shows "server_inv w s'"
proof -
  have s': "s' = s\<lparr>env_ret_queue := [], collected := collected s @ env_ret_queue s\<rparr>"
    using assms(2) by (auto simp: collect_returns_def split: if_splits)
  have "one_message w j s'" for j
    by (rule one_message_cong [of _ _ s]) (use inv_one [OF assms(1)] in \<open>simp_all add: s' returns_of_def responses_to_def\<close>)
  then show ?thesis using assms(1) by (simp add: server_inv_def s')
qed

lemma respond_inv:
  assumes inv: "server_inv w s" and step: "put_response (answer_with w) k s = Some s'"
  shows "server_inv w s'"
proof -
  obtain e r where k: "k < length (collected s)" "length (send_msg_queue s) < max_envs" "collected s ! k = (e, r)"
    and step': "s' = s\<lparr>collected := take k (collected s) @ drop (Suc k) (collected s),
      send_msg_queue := send_msg_queue s @ [(e, answer_with w e r)]\<rparr>"
    using step by (auto simp: put_response_def split: if_splits prod.splits)
  obtain a b where ab: "collected s = a @ (e, r) # b"
    and s': "s' = s\<lparr>collected := a @ b, send_msg_queue := send_msg_queue s @ [(e, answer_with w e r)]\<rparr>"
    using id_take_nth_drop [OF k(1)] k(3) step' by metis
  have "named (server_id w) (a @ (e, r) # b)" using inv ab by (simp add: server_inv_def)
  then obtain i where i: "CHR ''/'' \<notin> set i" "e = remote_env_id (server_id w) i"
    and names: "named (server_id w) a" "named (server_id w) b" by auto
  have "one_message w j s'" for j
  proof (cases "j = i")
    case False
    show ?thesis
      by (rule one_message_cong [of _ _ s]) (use False inv_one [OF inv, of j] ab i(2) in \<open>simp_all add: s' returns_of_def responses_to_def\<close>)
  next
    case True
    have ret: "returns_of (server_id w) i s = own e a @ r # own e b @ own e (env_ret_queue s) @ own i (running (to_server s))"
      by (simp add: returns_of_def ab i(2))
    have c: "clients s i = Awaiting r \<or> clients s i = Finished r" and none: "own e a = []" "own e b = []"
        "own e (env_ret_queue s) = []" "own i (running (to_server s)) = []" "responses_to (server_id w) i s = []"
      using inv_one [OF inv, of i] ret by (cases "clients s i"; auto simp: one_message_def append_eq_Cons_conv)+
    have "returns_of (server_id w) i s' = []" "responses_to (server_id w) i s' = [answer_with w (remote_env_id (server_id w) i) r]"
      using none i(2) by (simp_all add: returns_of_def responses_to_def s')
    moreover have "clients s' i = clients s i" by (simp add: s')
    ultimately show ?thesis using c unfolding True one_message_def by auto
  qed
  moreover have "named (server_id w) (send_msg_queue s')" using inv i by (auto simp: server_inv_def s')
  ultimately show ?thesis using inv names k(2) by (simp add: server_inv_def s')
qed

lemma send_inv:
  assumes inv: "server_inv w s" and step: "send_message s = Some s'"
  shows "server_inv w s'"
proof -
  obtain e p q where q: "send_msg_queue s = (e, p) # q"
    and s': "s' = s\<lparr>send_msg_queue := q, to_client := to_client s @ [(zmq_identity e, p)]\<rparr>"
    using step by (auto simp: send_message_def split: list.splits)
  obtain i where i: "CHR ''/'' \<notin> set i" "e = remote_env_id (server_id w) i" using inv q by (auto simp: server_inv_def)
  then have z: "zmq_identity e = i" by (simp add: zmq_identity_remote)
  have "one_message w j s'" for j
    by (rule one_message_cong [of _ _ s]) (use z inv_one [OF inv] q i(2) in \<open>simp_all add: s' returns_of_def responses_to_def\<close>)
  then show ?thesis using inv q by (simp add: server_inv_def s')
qed

lemma start_inv:
  assumes inv: "server_inv w s" and step: "client_start (reset_env w) i s = Some s'" and name: "CHR ''/'' \<notin> set i"
  shows "server_inv w s'"
proof -
  have new: "clients s i = Unconnected" and s': "s' = s\<lparr>to_server := to_server s @ [(i, Running (reset_env w i))],
      clients := (clients s)(i := Awaiting (reset_env w i))\<rparr>"
    using step by (auto simp: client_start_def split: client.splits)
  have "one_message w i s" using inv by (simp add: server_inv_def)
  then have "one_message w i s'" using new by (simp add: one_message_def returns_of_def responses_to_def s')
  moreover have "one_message w j s'" if "j \<noteq> i" for j
    by (rule one_message_cong [of _ _ s]) (use that inv_one [OF inv] in \<open>simp_all add: s' returns_of_def responses_to_def\<close>)
  ultimately have "\<forall>j. one_message w j s'" by metis
  then show ?thesis using inv name by (simp add: server_inv_def s')
qed

text \<open>The first message for a client, where there is one.\<close>

lemma first_message:
  assumes "dropWhile (\<lambda>m. fst m \<noteq> i) xs = (j, p) # ms"
  shows "xs = takeWhile (\<lambda>m. fst m \<noteq> i) xs @ (i, p) # ms" "own i (takeWhile (\<lambda>m. fst m \<noteq> i) xs) = []"
proof -
  have "j = i" using assms hd_dropWhile [of "\<lambda>m. fst m \<noteq> i" xs] by simp
  then show "xs = takeWhile (\<lambda>m. fst m \<noteq> i) xs @ (i, p) # ms"
    using assms takeWhile_dropWhile_id [of "\<lambda>m. fst m \<noteq> i" xs] by simp
  show "own i (takeWhile (\<lambda>m. fst m \<noteq> i) xs) = []"
    by (auto simp: own_def filter_empty_conv dest: set_takeWhileD)
qed

lemma turn_message:
  assumes inv: "server_inv w s" and step: "client_turn (step_env w) i s = Some s'"
  obtains r p ms r' finished where "clients s i = Awaiting r" "p = answer_with w (remote_env_id (server_id w) i) r"
    "dropWhile (\<lambda>m. fst m \<noteq> i) (to_client s) = (i, p) # ms" "step_env w i r p = (r', finished)"
    "own i ms = []" "own (remote_env_id (server_id w) i) (send_msg_queue s) = []" "returns_of (server_id w) i s = []"
    "s' = s\<lparr>to_client := takeWhile (\<lambda>m. fst m \<noteq> i) (to_client s) @ ms,
            to_server := to_server s @ [(i, Running r')] @ (if finished then [(i, Closing)] else []),
            clients := (clients s)(i := if finished then Finished r' else Awaiting r')\<rparr>"
proof -
  obtain r j p ms r' finished where c: "clients s i = Awaiting r"
    and d: "dropWhile (\<lambda>m. fst m \<noteq> i) (to_client s) = (j, p) # ms" and e: "step_env w i r p = (r', finished)"
    and s': "s' = s\<lparr>to_client := takeWhile (\<lambda>m. fst m \<noteq> i) (to_client s) @ ms,
                     to_server := to_server s @ [(i, Running r')] @ (if finished then [(i, Closing)] else []),
                     clients := (clients s)(i := if finished then Finished r' else Awaiting r')\<rparr>"
    using step by (auto simp: client_turn_def split: client.splits list.splits prod.splits)
  note first = first_message [OF d]
  have "own i (to_client s) = p # own i ms" by (subst first(1)) (simp add: first(2))
  then have "responses_to (server_id w) i s = p # own i ms @ own (remote_env_id (server_id w) i) (send_msg_queue s)"
    by (simp add: responses_to_def)
  then have p: "p = answer_with w (remote_env_id (server_id w) i) r" "own i ms = []"
      "own (remote_env_id (server_id w) i) (send_msg_queue s) = []" "returns_of (server_id w) i s = []"
    using inv_one [OF inv, of i] c by (auto simp: one_message_def)
  have "j = i" using d hd_dropWhile [of "\<lambda>m. fst m \<noteq> i" "to_client s"] by simp
  then show thesis using that [OF c p(1) _ e p(2-4) s'] d by simp
qed

lemma turn_inv:
  assumes inv: "server_inv w s" and step: "client_turn (step_env w) i s = Some s'"
  shows "server_inv w s'"
proof -
  obtain r ms r' finished p where c: "clients s i = Awaiting r" and p: "p = answer_with w (remote_env_id (server_id w) i) r"
    and d: "dropWhile (\<lambda>m. fst m \<noteq> i) (to_client s) = (i, p) # ms"
    and none: "own i ms = []" "own (remote_env_id (server_id w) i) (send_msg_queue s) = []" "returns_of (server_id w) i s = []"
    and s': "s' = s\<lparr>to_client := takeWhile (\<lambda>m. fst m \<noteq> i) (to_client s) @ ms,
                     to_server := to_server s @ [(i, Running r')] @ (if finished then [(i, Closing)] else []),
                     clients := (clients s)(i := if finished then Finished r' else Awaiting r')\<rparr>"
    by (rule turn_message [OF inv step])
  note first = first_message [OF d]
  have "one_message w i s'" using none first(2)
    by (auto simp: one_message_def returns_of_def responses_to_def s')
  moreover have "one_message w j s'" if "j \<noteq> i" for j
  proof (rule one_message_cong [of _ _ s])
    have "own j (to_client s) = own j (takeWhile (\<lambda>m. fst m \<noteq> i) (to_client s) @ ms)"
      by (subst first(1)) (use that in simp)
    then show "responses_to (server_id w) j s' = responses_to (server_id w) j s" by (simp add: responses_to_def s')
    show "one_message w j s" by (rule inv_one [OF inv])
  qed (use that in \<open>simp_all add: s' returns_of_def\<close>)
  ultimately have "\<forall>j. one_message w j s'" by metis
  moreover have "CHR ''/'' \<notin> set i" using inv c by (auto simp: server_inv_def)
  ultimately show ?thesis using inv by (auto simp: server_inv_def s')
qed

lemma server_reachable_inv: "server_reachable w s \<Longrightarrow> server_inv w s"
proof (induction rule: server_reachable.induct)
  case (server_moves s m s')
  then show ?case
    by (cases m) (auto simp: server_step_def intro: recv_inv collect_inv respond_inv send_inv start_inv turn_inv)
qed (rule server_inv_init)

subsection \<open>Conversations\<close>

text \<open>C24: in whatever order the threads and the clients move, every connected client has exactly one message
  under way, its last return or the response to it, both queues stay within their bound, and a client that
  takes a turn steps its environment with the response that the policy gave to its own last return.\<close>
theorem clients_get_their_answers:
  assumes "server_reachable w s"
  shows "length (env_ret_queue s) \<le> 32 \<and> length (send_msg_queue s) \<le> 32
     \<and> (clients s i \<noteq> Unconnected \<longrightarrow> length (returns_of (server_id w) i s) + length (responses_to (server_id w) i s) = 1)
     \<and> (\<forall>s'. client_turn (step_env w) i s = Some s' \<longrightarrow>
          (\<exists>r. clients s i = Awaiting r
             \<and> clients s' i = (case step_env w i r (answer_with w (remote_env_id (server_id w) i) r) of
                   (r', finished) \<Rightarrow> if finished then Finished r' else Awaiting r')))"
proof (intro conjI allI impI)
  note inv = server_reachable_inv [OF assms]
  show "length (env_ret_queue s) \<le> 32" "length (send_msg_queue s) \<le> 32" using inv by (simp_all add: server_inv_def max_envs_def)
  have "one_message w i s" using inv by (simp add: server_inv_def)
  then show "length (returns_of (server_id w) i s) + length (responses_to (server_id w) i s) = 1" if "clients s i \<noteq> Unconnected"
    using that by (auto simp: one_message_def split: client.splits)
  fix s' assume turn: "client_turn (step_env w) i s = Some s'"
  obtain r p ms r' finished where "clients s i = Awaiting r" "p = answer_with w (remote_env_id (server_id w) i) r"
      "step_env w i r p = (r', finished)" "clients s' i = (if finished then Finished r' else Awaiting r')"
    by (rule turn_message [OF inv turn]) auto
  then show "\<exists>r. clients s i = Awaiting r
             \<and> clients s' i = (case step_env w i r (answer_with w (remote_env_id (server_id w) i) r) of
                   (r', finished) \<Rightarrow> if finished then Finished r' else Awaiting r')"
    by simp
qed

text \<open>A counter as environment, with one client that has connected.\<close>

definition demo_world :: "(nat, nat) remote_world" where
  "demo_world = \<lparr>server_id = ''srv'', answer_with = \<lambda>e r. r + 1, reset_env = \<lambda>i. 0, step_env = \<lambda>i r p. (r + p, 2 < r)\<rparr>"

definition demo_connected :: "(nat, nat) env_server" where
  "demo_connected = new_env_server\<lparr>to_server := [(''c'', Running 0)], clients := (\<lambda>_. Unconnected)(''c'' := Awaiting 0)\<rparr>"

lemma demo_reachable: "server_reachable demo_world demo_connected"
  by (rule server_moves [OF server_init, where m = "Start ''c''"])
     (simp_all add: server_step_def client_start_def new_env_server_def demo_world_def demo_connected_def)

lemma clients_get_their_answers_witness:
  "length (returns_of ''srv'' ''c'' demo_connected) + length (responses_to ''srv'' ''c'' demo_connected) = 1"
  using clients_get_their_answers [OF demo_reachable, of "''c''"] by (simp add: demo_connected_def demo_world_def)

text \<open>C25: the conversation never gets stuck: while some client waits for a response, some thread, the group or
  a client can move, also when queues are full.\<close>
theorem server_never_stuck:
  assumes "server_reachable w s" "clients s i = Awaiting r"
  shows "\<exists>m s'. (\<forall>j. m \<noteq> Start j) \<and> server_step w m s = Some s'"
proof -
  have "one_message w i s" using server_reachable_inv [OF assms(1)] by (simp add: server_inv_def)
  then have "returns_of (server_id w) i s \<noteq> [] \<or> responses_to (server_id w) i s \<noteq> []"
    using assms(2) by (auto simp: one_message_def)
  then have "collected s \<noteq> [] \<or> env_ret_queue s \<noteq> [] \<or> to_server s \<noteq> [] \<or> own i (to_client s) \<noteq> [] \<or> send_msg_queue s \<noteq> []"
    by (auto simp: returns_of_def responses_to_def)
  moreover have ?thesis if q: "env_ret_queue s \<noteq> []"
    using q by (intro exI [of _ Collect]) (simp add: server_step_def collect_returns_def)
  moreover have ?thesis if q: "send_msg_queue s \<noteq> []"
    using q by (intro exI [of _ SendOne]) (auto simp: server_step_def send_message_def split: list.splits)
  moreover have ?thesis if "collected s \<noteq> []" "send_msg_queue s = []"
    using that by (intro exI [of _ "Respond 0"]) (auto simp: server_step_def put_response_def max_envs_def split: prod.splits)
  moreover have ?thesis if q: "to_server s \<noteq> []" "env_ret_queue s = []"
    using q by (intro exI [of _ Recv])
      (auto simp: server_step_def recv_message_def max_envs_def split: list.splits prod.splits client_msg.splits)
  moreover have ?thesis if q: "own i (to_client s) \<noteq> []"
  proof -
    obtain p where "(i, p) \<in> set (to_client s)" using q own_member by (metis list.set_intros(1) neq_Nil_conv)
    then have "dropWhile (\<lambda>m. fst m \<noteq> i) (to_client s) \<noteq> []" by (force simp: dropWhile_eq_Nil_conv)
    then show ?thesis using assms(2)
      by (intro exI [of _ "Turn i"]) (auto simp: server_step_def client_turn_def split: list.splits prod.splits)
  qed
  ultimately show ?thesis by blast
qed

lemma server_never_stuck_witness:
  "\<exists>m s'. (\<forall>j. m \<noteq> Start j) \<and> server_step demo_world m demo_connected = Some s'"
  by (rule server_never_stuck [OF demo_reachable, of "''c''" 0]) (simp add: demo_connected_def)


end
