(* ===== verification/Returns.thy ===== *)
theory Returns
  imports Prelude Complex_Main
begin

text \<open>
  Returns and advantages: \<open>default_compute_gae\<close> of \<open>rlightning/buffer/utils/utils.py\<close> and
  \<open>vtrace_correction\<close>, \<open>batch_step_correction\<close> of \<open>rlightning/policy/utils/vtrace.py\<close>. A tensor over time and
  environments is the list of its rows; numbers are those of an ordered field, the exponential of the log
  weights and the standard deviation are taken from \<open>torch\<close>.
\<close>

record 'a time_sample =
  reward :: 'a
  value_at :: 'a
  next_value :: 'a
  terminal :: bool

subsection \<open>Generalised advantages\<close>

definition live_factor :: "'a::linordered_field time_sample \<Rightarrow> 'a" where
  "live_factor s = 1 - of_bool (terminal s)"

definition td_error :: "'a::linordered_field \<Rightarrow> 'a time_sample \<Rightarrow> 'a" where
  "td_error gamma s = reward s + gamma * next_value s * live_factor s - value_at s"

text \<open>One turn of the loop over the time, from the last row to the first.\<close>

definition gae_row :: "'a::linordered_field \<Rightarrow> 'a \<Rightarrow> 'a time_sample list \<Rightarrow> 'a list list \<times> 'a list \<Rightarrow> 'a list list \<times> 'a list" where
  "gae_row gamma lam row st =
     (case st of (advs, nxt) \<Rightarrow>
        let a = map2 (\<lambda>s l. td_error gamma s + gamma * lam * live_factor s * l) row nxt
        in (a # advs, a))"

definition gae_advantages :: "'a::linordered_field \<Rightarrow> 'a \<Rightarrow> nat \<Rightarrow> 'a time_sample list list \<Rightarrow> 'a list list" where
  "gae_advantages gamma lam n rows = fst (foldr (gae_row gamma lam) rows ([], replicate n 0))"

definition mean_all :: "'a::linordered_field list list \<Rightarrow> 'a" where
  "mean_all m = sum_list (concat m) / of_nat (length (concat m))"

definition default_compute_gae ::
    "('a::linordered_field list list \<Rightarrow> 'a) \<Rightarrow> 'a \<Rightarrow> 'a \<Rightarrow> bool \<Rightarrow> nat \<Rightarrow> 'a time_sample list list \<Rightarrow> 'a list list \<times> 'a list list" where
  "default_compute_gae std gamma lam norm_adv n rows =
     (let advs = gae_advantages gamma lam n rows;
          returns = map2 (map2 (\<lambda>a s. a + value_at s)) advs rows
      in (if norm_adv then map (map (\<lambda>a. (a - mean_all advs) / (std advs + 1 / 100000000))) advs else advs, returns))"

subsection \<open>V-trace\<close>

text \<open>A step with its importance weight, and the clipping.\<close>

definition clamp_max :: "'a::linordered_field \<Rightarrow> 'a \<Rightarrow> 'a" where
  "clamp_max b x = min x b"

definition vtrace_delta :: "'a::linordered_field \<Rightarrow> 'a \<Rightarrow> 'a time_sample \<times> 'a \<Rightarrow> 'a" where
  "vtrace_delta gamma rho_bar sr =
     (case sr of (s, rho) \<Rightarrow> clamp_max rho_bar rho * (reward s + gamma * next_value s - value_at s))"

definition vtrace_back ::
    "'a::linordered_field \<Rightarrow> 'a \<Rightarrow> 'a \<Rightarrow> 'a time_sample \<times> 'a \<Rightarrow> 'a list \<Rightarrow> 'a list" where
  "vtrace_back gamma rho_bar c_bar sr vs =
     (case sr of (s, rho) \<Rightarrow>
        (case vs of
           [] \<Rightarrow> [value_at s + vtrace_delta gamma rho_bar sr]
         | v # _ \<Rightarrow> (value_at s + vtrace_delta gamma rho_bar sr
                    + gamma * clamp_max c_bar rho * ((if terminal s then 0 else v) - next_value s)) # vs))"

definition vtrace_targets :: "'a::linordered_field \<Rightarrow> 'a \<Rightarrow> 'a \<Rightarrow> ('a time_sample \<times> 'a) list \<Rightarrow> 'a list" where
  "vtrace_targets gamma rho_bar c_bar xs = foldr (vtrace_back gamma rho_bar c_bar) xs []"

definition vtrace_correction ::
    "'a::linordered_field \<Rightarrow> 'a \<Rightarrow> 'a \<Rightarrow> ('a time_sample \<times> 'a) list \<Rightarrow> ('a list \<times> 'a list) result" where
  "vtrace_correction gamma rho_bar c_bar xs =
     bind_result (guard IndexError (xs \<noteq> [])) (\<lambda>_.
       let vs = vtrace_targets gamma rho_bar c_bar xs;
           next_targets = tl vs @ [next_value (fst (List.last xs))]
       in Inr (vs, map2 (\<lambda>(s, rho) v. clamp_max rho_bar rho * (reward s + gamma * v - value_at s)) xs next_targets))"

definition batch_step_correction ::
    "'a::linordered_field \<Rightarrow> 'a \<Rightarrow> 'a \<Rightarrow> ('a time_sample \<times> 'a) list \<Rightarrow> 'a list \<times> 'a list" where
  "batch_step_correction gamma rho_bar c_bar xs =
     (let target = (\<lambda>(s, rho).
            let delta = clamp_max rho_bar rho * (reward s + gamma * live_factor s * next_value s - value_at s)
            in value_at s + delta + gamma * clamp_max c_bar rho * ((value_at s + delta) - next_value s))
      in (map target xs,
          map (\<lambda>(s, rho). clamp_max rho_bar rho * (reward s + gamma * target (s, rho) - value_at s)) xs))"

subsection \<open>What they compute\<close>

text \<open>The advantages of one environment.\<close>

primrec gae_column :: "'a::linordered_field \<Rightarrow> 'a \<Rightarrow> 'a time_sample list \<Rightarrow> 'a list" where
  "gae_column gamma lam [] = []"
| "gae_column gamma lam (s # ss) =
     (td_error gamma s + gamma * lam * live_factor s * (case gae_column gamma lam ss of [] \<Rightarrow> 0 | a # _ \<Rightarrow> a))
       # gae_column gamma lam ss"

lemma length_gae_column [simp]: "length (gae_column gamma lam ss) = length ss"
  by (induction ss) simp_all

lemma gae_fold:
  assumes "\<forall>row \<in> set rows. length row = n"
  shows "\<exists>advs nxt. foldr (gae_row gamma lam) rows ([], replicate n 0) = (advs, nxt)
     \<and> length nxt = n \<and> length advs = length rows \<and> (\<forall>a \<in> set advs. length a = n)
     \<and> (\<forall>i < n. map (\<lambda>a. a ! i) advs = gae_column gamma lam (map (\<lambda>r. r ! i) rows)
          \<and> nxt ! i = (case gae_column gamma lam (map (\<lambda>r. r ! i) rows) of [] \<Rightarrow> 0 | a # _ \<Rightarrow> a))"
  using assms
proof (induction rows)
  case (Cons row rows)
  then obtain advs nxt where f: "foldr (gae_row gamma lam) rows ([], replicate n 0) = (advs, nxt)"
    and len: "length nxt = n" "length advs = length rows" "\<forall>a \<in> set advs. length a = n"
    and cols: "\<And>i. i < n \<Longrightarrow> map (\<lambda>a. a ! i) advs = gae_column gamma lam (map (\<lambda>r. r ! i) rows)"
      "\<And>i. i < n \<Longrightarrow> nxt ! i = (case gae_column gamma lam (map (\<lambda>r. r ! i) rows) of [] \<Rightarrow> 0 | a # _ \<Rightarrow> a)"
    by auto
  let ?a = "map2 (\<lambda>s l. td_error gamma s + gamma * lam * live_factor s * l) row nxt"
  have "foldr (gae_row gamma lam) (row # rows) ([], replicate n 0) = (?a # advs, ?a)"
    by (simp add: f gae_row_def Let_def)
  moreover have "length row = n" using Cons.prems by simp
  ultimately show ?case using len cols by (intro exI conjI) (assumption | simp)+
qed simp

lemma gae_head_sum:
  "(case gae_column gamma lam ss of [] \<Rightarrow> 0 | a # _ \<Rightarrow> a)
   = (\<Sum>k < length ss. (gamma * lam) ^ k * (\<Prod>j < k. live_factor (ss ! j)) * td_error gamma (ss ! k))"
proof (induction ss)
  case (Cons s ss)
  have "(\<Sum>k < length (s # ss). (gamma * lam) ^ k * (\<Prod>j < k. live_factor ((s # ss) ! j)) * td_error gamma ((s # ss) ! k))
      = td_error gamma s
        + (\<Sum>k < length ss. gamma * lam * live_factor s
            * ((gamma * lam) ^ k * (\<Prod>j < k. live_factor (ss ! j)) * td_error gamma (ss ! k)))"
    by (simp add: sum.lessThan_Suc_shift prod.lessThan_Suc_shift mult_ac del: sum.lessThan_Suc prod.lessThan_Suc)
  then show ?case by (simp add: Cons.IH flip: sum_distrib_left)
qed simp

lemma gae_column_drop: "t \<le> length ss \<Longrightarrow> drop t (gae_column gamma lam ss) = gae_column gamma lam (drop t ss)"
proof (induction ss arbitrary: t)
  case (Cons s ss)
  then show ?case by (cases t) simp_all
qed simp

lemma gae_column_nth:
  assumes "t < length ss"
  shows "gae_column gamma lam ss ! t = (case gae_column gamma lam (drop t ss) of [] \<Rightarrow> 0 | a # _ \<Rightarrow> a)"
proof -
  have "gae_column gamma lam ss ! t = hd (gae_column gamma lam (drop t ss))"
    using assms by (simp add: hd_drop_conv_nth flip: gae_column_drop)
  moreover have "gae_column gamma lam (drop t ss) \<noteq> []"
    using assms by (metis length_drop length_gae_column length_0_conv zero_less_diff less_numeral_extra(3))
  ultimately show ?thesis by (cases "gae_column gamma lam (drop t ss)") simp_all
qed

text \<open>C23: the backward loop computes the generalised advantages: for rows of equal length the advantage of
  step \<open>t\<close> of environment \<open>i\<close> is the sum of the temporal differences from \<open>t\<close> on, discounted by the powers of
  \<open>gamma * lam\<close>, up to and including the first terminal step; the returns are the advantages plus the values.\<close>
theorem gae_is_discounted_sum:
  assumes "\<forall>row \<in> set rows. length row = n" "t < length rows" "i < n"
  defines "ss \<equiv> map (\<lambda>row. row ! i) (drop t rows)"
  shows "gae_advantages gamma lam n rows ! t ! i
       = (\<Sum>k < length ss. (gamma * lam) ^ k * (\<Prod>j < k. live_factor (ss ! j)) * td_error gamma (ss ! k))
     \<and> snd (default_compute_gae std gamma lam norm_adv n rows) ! t ! i
       = gae_advantages gamma lam n rows ! t ! i + value_at (rows ! t ! i)"
proof -
  obtain advs where advs: "gae_advantages gamma lam n rows = advs" "length advs = length rows" "\<forall>a \<in> set advs. length a = n"
      "map (\<lambda>a. a ! i) advs = gae_column gamma lam (map (\<lambda>r. r ! i) rows)"
    using gae_fold [OF assms(1), of gamma lam] assms(3) by (auto simp: gae_advantages_def)
  have "advs ! t ! i = map (\<lambda>a. a ! i) advs ! t" using advs(2) assms(2) by simp
  also have "\<dots> = (case gae_column gamma lam ss of [] \<Rightarrow> 0 | a # _ \<Rightarrow> a)"
    using assms(2) by (simp add: advs(4) gae_column_nth ss_def drop_map)
  finally have "advs ! t ! i = (case gae_column gamma lam ss of [] \<Rightarrow> 0 | a # _ \<Rightarrow> a)" .
  moreover have "length (advs ! t) = n" "length (rows ! t) = n" using advs(2,3) assms(1,2) by simp_all
  ultimately show ?thesis using advs(1,2) assms(2,3) by (simp add: gae_head_sum default_compute_gae_def Let_def)
qed

lemma gae_is_discounted_sum_witness:
  "gae_advantages (1 / 2) 1 1 [[\<lparr>reward = 1, value_at = 0, next_value = 2, terminal = False\<rparr>],
      [\<lparr>reward = 4, value_at = 2, next_value = 9, terminal = True\<rparr>]] ! 0 ! 0 = (3 :: rat)"
  using gae_is_discounted_sum [of "[[\<lparr>reward = 1, value_at = 0, next_value = 2, terminal = False\<rparr>],
      [\<lparr>reward = 4, value_at = 2, next_value = 9, terminal = True\<rparr>]]" 1 0 0 "1 / 2 :: rat" 1 "\<lambda>_. 1" False]
  by (simp add: numeral_eq_Suc live_factor_def td_error_def)

subsection \<open>V-trace on its own data\<close>

lemma length_vtrace [simp]: "length (vtrace_targets gamma rho_bar c_bar xs) = length xs"
proof (induction xs)
  case (Cons x xs)
  then show ?case
    by (cases "vtrace_targets gamma rho_bar c_bar xs") (simp_all add: vtrace_targets_def vtrace_back_def split: prod.split)
qed (simp add: vtrace_targets_def)

text \<open>A sequence of steps whose values fit: the next value of a step that goes on is the value of the next.\<close>

fun fitting :: "'a::linordered_field time_sample list \<Rightarrow> bool" where
  "fitting (s # s' # ss) = ((\<not> terminal s \<longrightarrow> next_value s = value_at s') \<and> fitting (s' # ss))"
| "fitting [s] = (\<not> terminal s)"
| "fitting [] = True"

text \<open>On data of the policy itself V-trace gives the returns of the generalised advantages with lambda 1:
  when all importance weights are 1 and not clipped, the values fit, and the last step is not terminal, the
  targets are, terminal steps in between included, the sums of values and advantages that the other routine
  computes.\<close>
theorem vtrace_on_policy_is_gae:
  assumes "1 \<le> rho_bar" "1 \<le> c_bar" "fitting ss"
  shows "vtrace_targets gamma rho_bar c_bar (map (\<lambda>s. (s, 1)) ss)
       = map2 (\<lambda>a s. a + value_at s) (gae_column gamma 1 ss) ss"
  using assms(3)
proof (induction ss rule: fitting.induct)
  case (1 s s' ss)
  let ?vs = "vtrace_targets gamma rho_bar c_bar (map (\<lambda>s. (s, 1)) (s' # ss))"
  have ih: "?vs = map2 (\<lambda>a s. a + value_at s) (gae_column gamma 1 (s' # ss)) (s' # ss)" using 1 by simp
  have step: "vtrace_targets gamma rho_bar c_bar (map (\<lambda>s. (s, 1)) (s # s' # ss))
      = vtrace_back gamma rho_bar c_bar (s, 1) ?vs" by (simp add: vtrace_targets_def)
  show ?case unfolding step ih using 1(2) assms(1,2)
    by (cases "terminal s") (simp_all add: vtrace_back_def vtrace_delta_def clamp_max_def td_error_def live_factor_def algebra_simps)
next
  case (2 s)
  then show ?case using assms(1)
    by (simp add: vtrace_targets_def vtrace_back_def vtrace_delta_def clamp_max_def td_error_def live_factor_def)
qed (simp add: vtrace_targets_def)

lemma vtrace_on_policy_is_gae_witness:
  "vtrace_targets (1 / 2) 1 1 [(\<lparr>reward = 1, value_at = 0, next_value = 2, terminal = False\<rparr>, 1),
      (\<lparr>reward = 4, value_at = 2, next_value = 8, terminal = False\<rparr>, 1)] = [5, 8 :: rat]"
  using vtrace_on_policy_is_gae [of 1 1 "[\<lparr>reward = 1, value_at = 0, next_value = 2, terminal = False\<rparr>,
      \<lparr>reward = 4, value_at = 2, next_value = 8, terminal = False\<rparr>]" "1 / 2 :: rat"]
  by (simp add: td_error_def live_factor_def)

text \<open>V-trace forgets the terminal flag twice: the advantage of a terminal step that is not the last one
  contains the discounted target of the next episode, and the target of a terminal last step its next value.\<close>
theorem vtrace_leaks_over_terminal:
  assumes "terminal s" "1 \<le> rho_bar" "1 \<le> c_bar"
  shows "(\<exists>vs adv. vtrace_correction gamma rho_bar c_bar [(s, 1), (s', 1)] = Inr (vs, adv)
       \<and> vs ! 0 = reward s
       \<and> adv ! 0 = reward s - value_at s + gamma * (reward s' + gamma * next_value s'))
     \<and> (\<exists>vs adv. vtrace_correction gamma rho_bar c_bar [(s, 1)] = Inr (vs, adv) \<and> vs ! 0 = reward s + gamma * next_value s)"
  using assms
  by (simp add: vtrace_correction_def vtrace_targets_def vtrace_back_def vtrace_delta_def clamp_max_def Let_def algebra_simps)

lemma vtrace_leaks_over_terminal_witness:
  "\<exists>vs adv. vtrace_correction 1 1 1 [(\<lparr>reward = 1, value_at = 0, next_value = 7, terminal = True\<rparr>, 1),
      (\<lparr>reward = 2, value_at = 0, next_value = 3, terminal = False\<rparr>, 1)] = Inr (vs, adv) \<and> vs ! 0 = (1 :: rat) \<and> adv ! 0 = 6"
  using vtrace_leaks_over_terminal [of "\<lparr>reward = 1, value_at = 0, next_value = 7, terminal = True\<rparr>" 1 1 "1 :: rat"
      "\<lparr>reward = 2, value_at = 0, next_value = 3, terminal = False\<rparr>"] by simp

end
