(* ===== verification/Ppo_Loss.thy ===== *)
theory Ppo_Loss
  imports Prelude Complex_Main
begin

text \<open>
  \<open>rlightning/policy/utils/losses.py\<close> and the functions of \<open>policy/utils/utils.py\<close> it uses: the clipped
  losses of actor and critic and their metrics, on flat tensors (lists), over an ordered field. The
  exponential is the parameter \<open>expf\<close>.
\<close>

subsection \<open>Masked means\<close>

definition tensor_mean :: "'a::linordered_field list \<Rightarrow> 'a" where
  "tensor_mean xs = sum_list xs / of_nat (length xs)"

definition masked_sum :: "'a::linordered_field list \<Rightarrow> bool list \<Rightarrow> 'a" where
  "masked_sum xs keep = sum_list (map2 (\<lambda>x m. x * of_bool m) xs keep)"

definition mask_count :: "bool list \<Rightarrow> nat" where
  "mask_count keep = length (filter id keep)"

definition masked_mean :: "'a::linordered_field list \<Rightarrow> bool list option \<Rightarrow> 'a" where
  "masked_mean xs keep =
     (case keep of
        None \<Rightarrow> tensor_mean xs
      | Some ms \<Rightarrow> if list_all Not ms then masked_sum xs ms else masked_sum xs ms / of_nat (mask_count ms))"

definition masked_mean_ratio :: "'a::linordered_field list \<Rightarrow> bool list \<Rightarrow> 'a list \<Rightarrow> 'a" where
  "masked_mean_ratio xs keep ratio = tensor_mean (map2 (\<lambda>x (m, r). x / r * of_bool m) xs (zip keep ratio))"

definition append_to_dict :: "(string, 'v list) dict \<Rightarrow> (string, 'v) dict \<Rightarrow> (string, 'v list) dict" where
  "append_to_dict data new = fold (\<lambda>(k, v). dict_append k v \<circ> dict_append k v) new data"

subsection \<open>The actor\<close>

definition clamp :: "'a::linordered_field \<Rightarrow> 'a \<Rightarrow> 'a \<Rightarrow> 'a" where
  "clamp lo hi x = min hi (max lo x)"

definition importance_ratio :: "('a \<Rightarrow> 'a) \<Rightarrow> bool \<Rightarrow> 'a::linordered_field \<Rightarrow> 'a \<Rightarrow> 'a" where
  "importance_ratio expf m lp old = (if m then expf (lp - old) else 0)"

definition surrogate_loss :: "'a::linordered_field \<Rightarrow> 'a \<Rightarrow> 'a option \<Rightarrow> 'a \<Rightarrow> 'a \<Rightarrow> 'a" where
  "surrogate_loss low high c_clip ratio adv =
     (let loss = max (- adv * ratio) (- adv * clamp (1 - low) (1 + high) ratio)
      in case c_clip of None \<Rightarrow> loss | Some c \<Rightarrow> min loss (sgn adv * c * adv))"

definition surrogate_clipped :: "'a::linordered_field \<Rightarrow> 'a \<Rightarrow> 'a \<Rightarrow> 'a \<Rightarrow> bool" where
  "surrogate_clipped low high ratio adv \<longleftrightarrow> - adv * ratio < - adv * clamp (1 - low) (1 + high) ratio"

definition dual_clipped :: "'a::linordered_field \<Rightarrow> 'a \<Rightarrow> 'a option \<Rightarrow> 'a \<Rightarrow> 'a \<Rightarrow> bool" where
  "dual_clipped low high c_clip ratio adv =
     (case c_clip of None \<Rightarrow> False
      | Some c \<Rightarrow> sgn adv * c * adv < max (- adv * ratio) (- adv * clamp (1 - low) (1 + high) ratio))"

record 'a actor_metrics =
  am_policy_loss :: 'a
  am_ratio :: 'a
  am_clipped_ratio :: 'a
  am_dual_clipped_ratio :: 'a
  am_approx_kl :: 'a
  am_clip_fraction :: 'a

text \<open>\<open>ratio_mask\<close> is the mask sum divided by the episode length, where both are given.\<close>

definition compute_ppo_actor_loss ::
    "('a \<Rightarrow> 'a) \<Rightarrow> 'a::linordered_field \<Rightarrow> 'a \<Rightarrow> 'a option \<Rightarrow> bool \<Rightarrow> ('a \<times> 'a \<times> 'a) list \<Rightarrow> bool list option
       \<Rightarrow> 'a list option \<Rightarrow> ('a \<times> 'a actor_metrics) result" where
  "compute_ppo_actor_loss expf low high c_clip warmup xs keep ratio_mask =
     bind_result (guard AssertionError (case c_clip of None \<Rightarrow> True | Some c \<Rightarrow> 1 < c)) (\<lambda>_.
     let ms = (case keep of None \<Rightarrow> replicate (length xs) True | Some m \<Rightarrow> m);
         count = (if mask_count ms = 0 then 1 else of_nat (mask_count ms));
         ratios = map2 (\<lambda>(lp, old, adv) m. importance_ratio expf m lp old) xs ms;
         advs = map (\<lambda>(lp, old, adv). adv) xs;
         losses = map2 (surrogate_loss low high c_clip) ratios advs;
         loss = (case (keep, ratio_mask) of
                   (Some m, Some r) \<Rightarrow> masked_mean_ratio losses m r
                 | _ \<Rightarrow> masked_mean losses (Some ms));
         policy_loss = (if warmup then 0 else loss);
         dual = map2 (\<lambda>(r, a) m. dual_clipped low high c_clip r a \<and> m) (zip ratios advs) ms;
         kl = sum_list (map2 (\<lambda>(lp, old, adv) m. if m then lp - old else 0) xs ms)
     in Inr (policy_loss,
          \<lparr>am_policy_loss = policy_loss,
           am_ratio = masked_mean ratios (Some ms),
           am_clipped_ratio = masked_mean (map (clamp (1 - low) (1 + high)) ratios) (Some ms),
           am_dual_clipped_ratio = masked_mean (map2 (\<lambda>r d. if d then r else 0) ratios dual) (Some ms),
           am_approx_kl = - kl / count,
           am_clip_fraction = of_nat (length (filter (\<lambda>((r, a), m). surrogate_clipped low high r a \<and> m) (zip (zip ratios advs) ms))) / count\<rparr>))"

subsection \<open>The critic\<close>

definition huber_loss :: "'a::linordered_field \<Rightarrow> 'a \<Rightarrow> 'a" where
  "huber_loss delta e = (if \<bar>e\<bar> < delta then 1 / 2 * e ^ 2 else delta * (\<bar>e\<bar> - 1 / 2 * delta))"

definition clipped_value :: "'a::linordered_field \<Rightarrow> 'a \<Rightarrow> 'a \<Rightarrow> 'a" where
  "clipped_value clip v prev = prev + clamp (- clip) clip (v - prev)"

definition value_loss :: "'a::linordered_field \<Rightarrow> 'a \<Rightarrow> 'a \<times> 'a \<times> 'a \<Rightarrow> 'a" where
  "value_loss delta clip x =
     (case x of (v, ret, prev) \<Rightarrow> max (huber_loss delta (ret - v)) (huber_loss delta (ret - clipped_value clip v prev)))"

definition value_clip_indicator :: "'a::linordered_field \<Rightarrow> 'a \<times> 'a \<times> 'a \<Rightarrow> bool" where
  "value_clip_indicator clip x = (case x of (v, ret, prev) \<Rightarrow> clip < \<bar>clipped_value clip v prev - prev\<bar>)"

definition compute_ppo_critic_loss ::
    "'a::linordered_field \<Rightarrow> 'a \<Rightarrow> ('a \<times> 'a \<times> 'a) list \<Rightarrow> bool list option \<Rightarrow> 'a list option \<Rightarrow> 'a \<times> 'a" where
  "compute_ppo_critic_loss delta clip xs keep ratio_mask =
     (let losses = map (value_loss delta clip) xs
      in (case (keep, ratio_mask) of
            (Some m, Some r) \<Rightarrow> masked_mean_ratio losses m r
          | _ \<Rightarrow> masked_mean losses keep,
          tensor_mean (map (\<lambda>x. of_bool (value_clip_indicator clip x)) xs)))"

subsection \<open>What the losses bound\<close>

text \<open>The loss of a step is the negated pessimistic objective, and the dual clipping bounds it: without it
  the loss is the negation of the smaller of the plain and the clipped product of ratio and advantage; with it
  the loss never exceeds the clip times the size of the advantage, and an advantage that is not negative
  has the same loss as without.\<close>
theorem surrogate_is_pessimistic:
  fixes adv :: "'a::linordered_field"
  assumes "0 \<le> low" "0 \<le> high" "0 \<le> ratio" "1 < c"
  shows "surrogate_loss low high None ratio adv = - min (ratio * adv) (clamp (1 - low) (1 + high) ratio * adv)
     \<and> surrogate_loss low high (Some c) ratio adv \<le> c * \<bar>adv\<bar>
     \<and> (0 \<le> adv \<and> low \<le> 1 \<longrightarrow> surrogate_loss low high (Some c) ratio adv = surrogate_loss low high None ratio adv)"
proof (intro conjI impI)
  show "surrogate_loss low high None ratio adv = - min (ratio * adv) (clamp (1 - low) (1 + high) ratio * adv)"
    by (simp add: surrogate_loss_def mult.commute minus_min_eq_max)
  have bound: "sgn adv * c * adv = c * \<bar>adv\<bar>" by (simp add: abs_if sgn_if)
  show "surrogate_loss low high (Some c) ratio adv \<le> c * \<bar>adv\<bar>"
    by (simp add: surrogate_loss_def Let_def bound)
  assume a: "0 \<le> adv \<and> low \<le> 1"
  have "0 \<le> clamp (1 - low) (1 + high) ratio" using assms a by (simp add: clamp_def)
  then have "max (- adv * ratio) (- adv * clamp (1 - low) (1 + high) ratio) \<le> 0"
    using a assms(3) by (simp add: mult_nonneg_nonneg)
  moreover have "0 \<le> c * \<bar>adv\<bar>" using assms(4) by simp
  ultimately show "surrogate_loss low high (Some c) ratio adv = surrogate_loss low high None ratio adv"
    by (simp add: surrogate_loss_def Let_def bound min_absorb1)
qed

lemma surrogate_is_pessimistic_witness:
  "surrogate_loss (1 / 5) (1 / 5) None 2 1 = (- 6 / 5 :: rat) \<and> surrogate_loss (1 / 5) (1 / 5) (Some 3) 9 (- 1) \<le> (3 :: rat)"
  using surrogate_is_pessimistic [of "1 / 5 :: rat" "1 / 5" 2 3 1] surrogate_is_pessimistic [of "1 / 5 :: rat" "1 / 5" 9 3 "- 1"]
  by (simp add: clamp_def)

lemma clamp_bounds: "lo \<le> hi \<Longrightarrow> lo \<le> clamp lo hi x \<and> clamp lo hi x \<le> hi"
  by (simp add: clamp_def)

text \<open>The share of clipped values that the critic reports is always 0: it is measured on the values after
  the clipping, which are within the bound.\<close>
theorem value_clip_ratio_zero:
  assumes "0 \<le> clip"
  shows "snd (compute_ppo_critic_loss delta clip xs keep ratio_mask) = 0"
proof -
  have "\<not> value_clip_indicator clip x" for x
  proof (cases x)
    case (fields v ret prev)
    have "- clip \<le> clamp (- clip) clip (v - prev) \<and> clamp (- clip) clip (v - prev) \<le> clip"
      using assms by (intro clamp_bounds) simp
    then show ?thesis by (simp add: fields value_clip_indicator_def clipped_value_def abs_le_iff not_less)
  qed
  then show ?thesis by (simp add: compute_ppo_critic_loss_def tensor_mean_def Let_def sum_list_0)
qed

lemma value_clip_ratio_zero_witness:
  "snd (compute_ppo_critic_loss 10 (1 / 5) [(5, 0, 0)] None None) = (0 :: rat)"
  by (rule value_clip_ratio_zero) simp

lemma map2_masked_cong:
  assumes "length xs = length ms" "length ys = length ms"
    and "\<And>i. i < length ms \<Longrightarrow> f (xs ! i) (ms ! i) = f (ys ! i) (ms ! i)"
  shows "map2 f xs ms = map2 f ys ms"
  by (rule nth_equalityI) (simp_all add: assms)

lemma masked_pairs_cong:
  fixes f :: "'r \<Rightarrow> 'a \<Rightarrow> 'c::linordered_field"
  assumes "length rs = length ms" "length as = length ms" "length bs = length ms"
    and eq: "\<And>i. i < length ms \<Longrightarrow> ms ! i \<Longrightarrow> as ! i = bs ! i"
  shows "map2 (\<lambda>x m. x * of_bool m) (map2 f rs as) ms = map2 (\<lambda>x m. x * of_bool m) (map2 f rs bs) ms"
    and "map2 (\<lambda>(r, a) m. g r a \<and> m) (zip rs as) ms = map2 (\<lambda>(r, a) m. g r a \<and> m) (zip rs bs) ms"
    and "map (\<lambda>((r, a), m). h r a \<and> m) (zip (zip rs as) ms) = map (\<lambda>((r, a), m). h r a \<and> m) (zip (zip rs bs) ms)"
proof -
  show "map2 (\<lambda>x m. x * of_bool m) (map2 f rs as) ms = map2 (\<lambda>x m. x * of_bool m) (map2 f rs bs) ms"
    and "map2 (\<lambda>(r, a) m. g r a \<and> m) (zip rs as) ms = map2 (\<lambda>(r, a) m. g r a \<and> m) (zip rs bs) ms"
    and "map (\<lambda>((r, a), m). h r a \<and> m) (zip (zip rs as) ms) = map (\<lambda>((r, a), m). h r a \<and> m) (zip (zip rs bs) ms)"
    using assms by (auto intro!: nth_equalityI)
qed

lemma length_filter_map: "length (filter P xs) = length (filter id (map P xs))"
  by (induction xs) auto

text \<open>Steps that are masked out do not count: without the normalisation by episode length, two batches
  that agree on the steps of the mask have the same actor loss and the same metrics.\<close>
theorem masked_steps_do_not_count:
  fixes xs ys :: "('a::linordered_field \<times> 'a \<times> 'a) list"
  assumes "length xs = length ms" "length ys = length ms" "\<forall>i < length ms. ms ! i \<longrightarrow> xs ! i = ys ! i"
  shows "compute_ppo_actor_loss expf low high c_clip warmup xs (Some ms) None
       = compute_ppo_actor_loss expf low high c_clip warmup ys (Some ms) None"
proof -
  let ?R = "\<lambda>zs. map2 (\<lambda>(lp, old, adv) m. importance_ratio expf m lp old) zs ms"
  let ?A = "map (\<lambda>(lp, old, adv). adv) :: ('a \<times> 'a \<times> 'a) list \<Rightarrow> 'a list"
  let ?clip = "\<lambda>((r, a), m). surrogate_clipped low high r a \<and> m"
  have same: "xs ! i = ys ! i" if "i < length ms" "ms ! i" for i using assms(3) that by blast
  have ratios: "?R xs = ?R ys"
    by (rule map2_masked_cong) (use assms(1,2) same in \<open>auto simp: importance_ratio_def split: prod.split\<close>)
  have kl: "map2 (\<lambda>(lp, old, adv) m. if m then lp - old else 0) xs ms = map2 (\<lambda>(lp, old, adv) m. if m then lp - old else 0) ys ms"
    by (rule map2_masked_cong) (use assms(1,2) same in \<open>auto split: prod.split\<close>)
  have advs: "?A xs ! i = ?A ys ! i" if "i < length ms" "ms ! i" for i using same [OF that] that assms(1,2) by simp
  have len: "length (?R ys) = length ms" "length (?A xs) = length ms" "length (?A ys) = length ms" using assms(1,2) by simp_all
  note pairs = masked_pairs_cong [OF len advs]
  have losses: "masked_sum (map2 (surrogate_loss low high c_clip) (?R ys) (?A xs)) ms
      = masked_sum (map2 (surrogate_loss low high c_clip) (?R ys) (?A ys)) ms"
    unfolding masked_sum_def by (simp only: pairs(1))
  have dual: "map2 (\<lambda>(r, a) m. dual_clipped low high c_clip r a \<and> m) (zip (?R ys) (?A xs)) ms
      = map2 (\<lambda>(r, a) m. dual_clipped low high c_clip r a \<and> m) (zip (?R ys) (?A ys)) ms"
    by (rule pairs(2))
  have fraction: "length (filter ?clip (zip (zip (?R ys) (?A xs)) ms)) = length (filter ?clip (zip (zip (?R ys) (?A ys)) ms))"
    unfolding length_filter_map [of ?clip] by (simp only: pairs(3))
  show ?thesis
    unfolding compute_ppo_actor_loss_def Let_def option.case prod.case masked_mean_def ratios losses dual fraction kl ..
qed

lemma masked_steps_do_not_count_witness:
  "compute_ppo_actor_loss (\<lambda>x. x + 1) (1 / 5) (1 / 5) None False [(0, 0, 1), (7, 2, 5)] (Some [True, False]) None
     = compute_ppo_actor_loss (\<lambda>x. x + 1) (1 / 5) (1 / 5) None False [(0, 0, 1), (3, 1, (9 :: rat))] (Some [True, False]) None"
  by (rule masked_steps_do_not_count) (auto simp: less_Suc_eq)

text \<open>What is appended to a metric dictionary is appended twice.\<close>
theorem append_to_dict_doubles:
  "dict_get [] (append_to_dict [(k, xs)] [(k, v)]) k = xs @ [v, v]"
  by (simp add: append_to_dict_def dict_get_def dict_append_def)

end
