(* ===== verification/Quaternions.thy ===== *)
theory Quaternions
  imports Prelude Complex_Main
begin

text \<open>
  The rational part of \<open>rlightning/humanoid/utils/kinematics_model/torch_utils.py\<close> and
  \<open>humanoid/utils/common.py\<close>: products of quaternions and the rotations they stand for, element by element
  of a batch, over an ordered field. A quaternion is the vector of its four entries; \<open>torch_utils\<close> keeps the
  real part last (xyzw), \<open>common\<close> keeps it first (wxyz).
\<close>

datatype 'a vec3 = Vec 'a 'a 'a
datatype 'a quat = Quat 'a 'a 'a 'a

text \<open>A matrix is given by its rows.\<close>

datatype 'a mat3 = Mat "'a vec3" "'a vec3" "'a vec3"

subsection \<open>Vectors and matrices\<close>

fun vec_add :: "'a::linordered_field vec3 \<Rightarrow> 'a vec3 \<Rightarrow> 'a vec3" where
  "vec_add (Vec a b c) (Vec x y z) = Vec (a + x) (b + y) (c + z)"

fun vec_sub :: "'a::linordered_field vec3 \<Rightarrow> 'a vec3 \<Rightarrow> 'a vec3" where
  "vec_sub (Vec a b c) (Vec x y z) = Vec (a - x) (b - y) (c - z)"

fun vec_scale :: "'a::linordered_field \<Rightarrow> 'a vec3 \<Rightarrow> 'a vec3" where
  "vec_scale k (Vec x y z) = Vec (k * x) (k * y) (k * z)"

fun vec_dot :: "'a::linordered_field vec3 \<Rightarrow> 'a vec3 \<Rightarrow> 'a" where
  "vec_dot (Vec a b c) (Vec x y z) = a * x + b * y + c * z"

fun vec_cross :: "'a::linordered_field vec3 \<Rightarrow> 'a vec3 \<Rightarrow> 'a vec3" where
  "vec_cross (Vec a b c) (Vec x y z) = Vec (b * z - c * y) (c * x - a * z) (a * y - b * x)"

fun mat_apply :: "'a::linordered_field mat3 \<Rightarrow> 'a vec3 \<Rightarrow> 'a vec3" where
  "mat_apply (Mat r s t) v = Vec (vec_dot r v) (vec_dot s v) (vec_dot t v)"

fun mat_transpose :: "'a mat3 \<Rightarrow> 'a mat3" where
  "mat_transpose (Mat (Vec a b c) (Vec d e f) (Vec g h i)) = Mat (Vec a d g) (Vec b e h) (Vec c f i)"

fun mat_mul :: "'a::linordered_field mat3 \<Rightarrow> 'a mat3 \<Rightarrow> 'a mat3" where
  "mat_mul (Mat r s t) m = (case mat_transpose m of Mat u v w \<Rightarrow>
     Mat (Vec (vec_dot r u) (vec_dot r v) (vec_dot r w)) (Vec (vec_dot s u) (vec_dot s v) (vec_dot s w))
       (Vec (vec_dot t u) (vec_dot t v) (vec_dot t w)))"

definition mat_one :: "'a::linordered_field mat3" where
  "mat_one = Mat (Vec 1 0 0) (Vec 0 1 0) (Vec 0 0 1)"

subsection \<open>Quaternions with the real part last\<close>

fun quat_rotate :: "'a::linordered_field quat \<Rightarrow> 'a vec3 \<Rightarrow> 'a vec3" where
  "quat_rotate (Quat x y z w) v =
     (let q_vec = Vec x y z;
          a = vec_scale (2 * w\<^sup>2 - 1) v;
          b = vec_scale 2 (vec_scale w (vec_cross q_vec v));
          c = vec_scale 2 (vec_scale (vec_dot q_vec v) q_vec)
      in vec_add (vec_add a b) c)"

fun quat_rotate_inverse :: "'a::linordered_field quat \<Rightarrow> 'a vec3 \<Rightarrow> 'a vec3" where
  "quat_rotate_inverse (Quat x y z w) v =
     (let q_vec = Vec x y z;
          a = vec_scale (2 * w\<^sup>2 - 1) v;
          b = vec_scale 2 (vec_scale w (vec_cross q_vec v));
          c = vec_scale 2 (vec_scale (vec_dot q_vec v) q_vec)
      in vec_add (vec_sub a b) c)"

text \<open>The product with nine multiplications.\<close>

fun quat_mul :: "'a::linordered_field quat \<Rightarrow> 'a quat \<Rightarrow> 'a quat" where
  "quat_mul (Quat x1 y1 z1 w1) (Quat x2 y2 z2 w2) =
     (let ww = (z1 + x1) * (x2 + y2);
          yy = (w1 - y1) * (w2 + z2);
          zz = (w1 + y1) * (w2 - z2);
          xx = ww + yy + zz;
          qq = 1 / 2 * (xx + (z1 - x1) * (x2 - y2));
          w = qq - ww + (z1 - y1) * (y2 - z2);
          x = qq - xx + (x1 + w1) * (x2 + w2);
          y = qq - yy + (w1 - x1) * (y2 + z2);
          z = qq - zz + (z1 + y1) * (w2 - x2)
      in Quat x y z w)"

fun quat_conjugate :: "'a::linordered_field quat \<Rightarrow> 'a quat" where
  "quat_conjugate (Quat x y z w) = Quat (- x) (- y) (- z) w"

fun quat_pos :: "'a::linordered_field quat \<Rightarrow> 'a quat" where
  "quat_pos (Quat x y z w) =
     (let s = 1 - 2 * of_bool (w < 0) in Quat (s * x) (s * y) (s * z) (s * w))"

definition quat_diff :: "'a::linordered_field quat \<Rightarrow> 'a quat \<Rightarrow> 'a quat" where
  "quat_diff q0 q1 = quat_mul q1 (quat_conjugate q0)"

definition quat_to_tan_norm :: "'a::linordered_field quat \<Rightarrow> 'a vec3 \<times> 'a vec3" where
  "quat_to_tan_norm q = (quat_rotate q (Vec 1 0 0), quat_rotate q (Vec 0 0 1))"

subsection \<open>Quaternions with the real part first\<close>

fun wxyz_to_xyzw :: "'a quat \<Rightarrow> 'a quat" where
  "wxyz_to_xyzw (Quat a b c d) = Quat b c d a"

fun xyzw_to_wxyz :: "'a quat \<Rightarrow> 'a quat" where
  "xyzw_to_wxyz (Quat a b c d) = Quat d a b c"

fun quaternion_to_matrix :: "'a::linordered_field quat \<Rightarrow> 'a mat3" where
  "quaternion_to_matrix (Quat r i j k) =
     (let two_s = 2 / (r * r + i * i + j * j + k * k)
      in Mat (Vec (1 - two_s * (j * j + k * k)) (two_s * (i * j - k * r)) (two_s * (i * k + j * r)))
           (Vec (two_s * (i * j + k * r)) (1 - two_s * (i * i + k * k)) (two_s * (j * k - i * r)))
           (Vec (two_s * (i * k - j * r)) (two_s * (j * k + i * r)) (1 - two_s * (i * i + j * j))))"

fun standardize_quaternion :: "'a::linordered_field quat \<Rightarrow> 'a quat" where
  "standardize_quaternion (Quat w x y z) = (if w < 0 then Quat (- w) (- x) (- y) (- z) else Quat w x y z)"

fun quaternion_raw_multiply :: "'a::linordered_field quat \<Rightarrow> 'a quat \<Rightarrow> 'a quat" where
  "quaternion_raw_multiply (Quat aw ax ay az) (Quat bw bx b_y bz) =
     Quat (aw * bw - ax * bx - ay * b_y - az * bz) (aw * bx + ax * bw + ay * bz - az * b_y)
       (aw * b_y - ax * bz + ay * bw + az * bx) (aw * bz + ax * b_y - ay * bx + az * bw)"

definition quaternion_multiply :: "'a::linordered_field quat \<Rightarrow> 'a quat \<Rightarrow> 'a quat" where
  "quaternion_multiply a b = standardize_quaternion (quaternion_raw_multiply a b)"

fun quaternion_invert :: "'a::linordered_field quat \<Rightarrow> 'a quat" where
  "quaternion_invert (Quat w x y z) = Quat (w * 1) (x * - 1) (y * - 1) (z * - 1)"

fun quaternion_apply :: "'a::linordered_field quat \<Rightarrow> 'a vec3 \<Rightarrow> 'a vec3" where
  "quaternion_apply q (Vec x y z) =
     (case quaternion_raw_multiply (quaternion_raw_multiply q (Quat 0 x y z)) (quaternion_invert q) of
        Quat _ a b c \<Rightarrow> Vec a b c)"

subsection \<open>Algebra\<close>

fun quat_norm2 :: "'a::linordered_field quat \<Rightarrow> 'a" where
  "quat_norm2 (Quat a b c d) = a * a + b * b + c * c + d * d"

definition unit_quat :: "'a::linordered_field quat \<Rightarrow> bool" where
  "unit_quat q \<longleftrightarrow> quat_norm2 q = 1"

definition quat_one :: "'a::linordered_field quat" where
  "quat_one = Quat 0 0 0 1"

lemma quat_mul_eq:
  "quat_mul (Quat x1 y1 z1 w1) (Quat x2 y2 z2 w2) =
     Quat (w1 * x2 + x1 * w2 + y1 * z2 - z1 * y2) (w1 * y2 - x1 * z2 + y1 * w2 + z1 * x2)
       (w1 * z2 + x1 * y2 - y1 * x2 + z1 * w2) (w1 * w2 - x1 * x2 - y1 * y2 - z1 * z2)"
  by (simp add: Let_def field_simps)

declare quat_mul.simps [simp del] quat_mul_eq [simp]

lemma quat_rotate_eq:
  "quat_rotate (Quat x y z w) (Vec a b c) =
     Vec ((2 * w\<^sup>2 - 1) * a + 2 * (w * (y * c - z * b)) + 2 * ((x * a + y * b + z * c) * x))
       ((2 * w\<^sup>2 - 1) * b + 2 * (w * (z * a - x * c)) + 2 * ((x * a + y * b + z * c) * y))
       ((2 * w\<^sup>2 - 1) * c + 2 * (w * (x * b - y * a)) + 2 * ((x * a + y * b + z * c) * z))"
  by (simp add: Let_def)

declare quat_rotate.simps [simp del] quat_rotate_eq [simp]

text \<open>The product with nine multiplications is the product of quaternions that the other module writes out,
  up to the place of the real part.\<close>
theorem quat_mul_is_product:
  "quat_mul (wxyz_to_xyzw a) (wxyz_to_xyzw b) = wxyz_to_xyzw (quaternion_raw_multiply a b)"
  by (cases a; cases b) simp

lemma quat_mul_assoc: "quat_mul (quat_mul a b) c = quat_mul a (quat_mul b c)"
  by (cases a; cases b; cases c) (simp add: algebra_simps)

lemma quat_mul_one [simp]: "quat_mul quat_one a = a" "quat_mul a quat_one = a"
  by (cases a; simp add: quat_one_def)+

lemma quat_norm2_mul: "quat_norm2 (quat_mul a b) = quat_norm2 a * quat_norm2 b"
  by (cases a; cases b) (simp add: algebra_simps)

lemma unit_quat_mul [intro]: "unit_quat a \<Longrightarrow> unit_quat b \<Longrightarrow> unit_quat (quat_mul a b)"
  by (simp add: unit_quat_def quat_norm2_mul)

lemma unit_quat_one [simp]: "unit_quat quat_one"
  by (simp add: unit_quat_def quat_one_def)

lemma quat_mul_conjugate:
  assumes "unit_quat a"
  shows "quat_mul a (quat_conjugate a) = quat_one" "quat_mul (quat_conjugate a) a = quat_one"
  using assms by (cases a; simp add: unit_quat_def quat_one_def algebra_simps)+

lemma quat_rotate_add: "quat_rotate q (vec_add u v) = vec_add (quat_rotate q u) (quat_rotate q v)"
  by (cases q; cases u; cases v) (simp add: algebra_simps)

lemma quat_rotate_mul:
  assumes "unit_quat a" "unit_quat b"
  shows "quat_rotate (quat_mul a b) v = quat_rotate a (quat_rotate b v)"
proof (cases a; cases b; cases v)
  fix x y z w x' y' z' w' p q r
  assume e: "a = Quat x y z w" "b = Quat x' y' z' w'" "v = Vec p q r"
  have "x * x + y * y + z * z + w * w = 1" "x' * x' + y' * y' + z' * z' + w' * w' = 1"
    using assms by (simp_all add: e unit_quat_def)
  then show ?thesis unfolding e quat_mul_eq quat_rotate_eq vec3.inject
    by (intro conjI; algebra)
qed

lemma quat_rotate_dot:
  assumes "unit_quat q"
  shows "vec_dot (quat_rotate q u) (quat_rotate q v) = vec_dot u v"
proof (cases q; cases u; cases v)
  fix x y z w a b c a' b' c'
  assume e: "q = Quat x y z w" "u = Vec a b c" "v = Vec a' b' c'"
  have "x * x + y * y + z * z + w * w = 1" using assms by (simp add: e unit_quat_def)
  then show ?thesis unfolding e quat_rotate_eq vec_dot.simps by algebra
qed

lemma quat_rotate_inverse_conjugate: "quat_rotate_inverse q v = quat_rotate (quat_conjugate q) v"
  by (cases q; cases v) (simp add: Let_def algebra_simps)

lemma unit_quat_conjugate [simp]: "unit_quat (quat_conjugate q) = unit_quat q"
  by (cases q) (simp add: unit_quat_def)

lemma quat_rotate_one [simp]: "quat_rotate quat_one v = v"
  by (cases v) (simp add: quat_one_def)

text \<open>Unit quaternions act as rotations: the product rotates by the second factor and then by the first,
  scalar products are kept, and \<open>quat_rotate_inverse\<close> undoes the rotation.\<close>
theorem quat_rotate_is_action:
  assumes "unit_quat a" "unit_quat b"
  shows "unit_quat (quat_mul a b)
     \<and> quat_rotate (quat_mul a b) v = quat_rotate a (quat_rotate b v)
     \<and> vec_dot (quat_rotate a u) (quat_rotate a v) = vec_dot u v
     \<and> quat_rotate_inverse a (quat_rotate a v) = v"
  using assms
  by (auto simp: quat_rotate_mul quat_rotate_dot quat_rotate_inverse_conjugate quat_mul_conjugate simp flip: quat_rotate_mul)

lemma quat_rotate_is_action_witness:
  "quat_rotate_inverse (Quat (3 / 5) 0 0 (4 / 5)) (quat_rotate (Quat (3 / 5) 0 0 (4 / 5)) (Vec 1 2 (3 :: rat))) = Vec 1 2 3"
proof -
  have "unit_quat (Quat (3 / 5) 0 0 (4 / 5 :: rat))" by (simp add: unit_quat_def)
  from quat_rotate_is_action [OF this this, of "Vec 1 2 3" "Vec 1 2 3"] show ?thesis by blast
qed

text \<open>The three ways to rotate agree: the formula of \<open>torch_utils\<close>, the product with the point between a
  quaternion and its inverse, and the matrix of the quaternion.\<close>
theorem rotations_agree:
  assumes "unit_quat q"
  shows "quaternion_apply q v = quat_rotate (wxyz_to_xyzw q) v
     \<and> mat_apply (quaternion_to_matrix q) v = quat_rotate (wxyz_to_xyzw q) v"
proof (cases q; cases v)
  fix r i j k a b c
  assume e: "q = Quat r i j k" "v = Vec a b c"
  have u: "r * r + i * i + j * j + k * k = 1" using assms by (simp add: e unit_quat_def)
  have "quaternion_apply q v = quat_rotate (wxyz_to_xyzw q) v"
    using u unfolding e by simp algebra
  moreover have "mat_apply (quaternion_to_matrix q) v = quat_rotate (wxyz_to_xyzw q) v"
    using u unfolding e by (simp add: Let_def) algebra
  ultimately show ?thesis ..
qed

lemma rotations_agree_witness:
  "quaternion_apply (Quat (4 / 5) (3 / 5) 0 0) (Vec 1 2 (3 :: rat)) = mat_apply (quaternion_to_matrix (Quat (4 / 5) (3 / 5) 0 0)) (Vec 1 2 3)"
proof -
  have "unit_quat (Quat (4 / 5) (3 / 5) 0 (0 :: rat))" by (simp add: unit_quat_def)
  from rotations_agree [OF this, of "Vec 1 2 3"] show ?thesis by simp
qed

text \<open>A matrix whose rows are orthonormal and form a right-handed frame.\<close>

fun rotation_matrix :: "'a::linordered_field mat3 \<Rightarrow> bool" where
  "rotation_matrix (Mat r s t) \<longleftrightarrow> vec_dot r r = 1 \<and> vec_dot s s = 1 \<and> vec_dot r s = 0 \<and> t = vec_cross r s"

lemma quaternion_matrix_rotation:
  assumes "quat_norm2 q \<noteq> 0"
  shows "rotation_matrix (quaternion_to_matrix q)"
proof (cases q)
  case (Quat r i j k)
  define n where "n = r * r + i * i + j * j + k * k"
  define t where "t = 2 / n"
  have "n \<noteq> 0" using assms by (simp add: Quat n_def)
  then have "t * n = 2" by (simp add: t_def)
  then have z: "t * (t * (r * r + i * i + j * j + k * k) - 2) = 0" by (simp add: n_def)
  have by_factor: "x = y" if "x - y = c * (t * (t * (r * r + i * i + j * j + k * k) - 2))" for x y c
    using that unfolding z by simp
  have m: "quaternion_to_matrix q = Mat (Vec (1 - t * (j * j + k * k)) (t * (i * j - k * r)) (t * (i * k + j * r)))
           (Vec (t * (i * j + k * r)) (1 - t * (i * i + k * k)) (t * (j * k - i * r)))
           (Vec (t * (i * k - j * r)) (t * (j * k + i * r)) (1 - t * (i * i + j * j)))"
    by (simp add: Quat t_def n_def Let_def)
  show ?thesis unfolding m rotation_matrix.simps vec_dot.simps vec_cross.simps vec3.inject
    by (intro conjI)
     (rule by_factor [of _ _ "j * j + k * k"] by_factor [of _ _ "i * i + k * k"] by_factor [of _ _ "- (i * j)"]
      by_factor [of _ _ "- (i * k)"] by_factor [of _ _ "- (j * k)"] by_factor [of _ _ "- (k * k)"],
      simp add: algebra_simps; fail)+
qed

end
