(* ===== verification/Rotations.thy ===== *)
theory Rotations
  imports Quaternions
begin

text \<open>
  The part of \<open>rlightning/humanoid/utils/kinematics_model/torch_utils.py\<close> and \<open>humanoid/utils/common.py\<close> that
  needs square roots and angles, over the real numbers: angle and axis, Euler angles, exponential maps, headings
  and interpolation.
\<close>

subsection \<open>Angles\<close>

text \<open>\<open>torch.atan2\<close>: the angle of a point, in the half-open interval of length two pi, 0 for the origin.\<close>

definition atan2 :: "real \<Rightarrow> real \<Rightarrow> real" where
  "atan2 y x = Arg (Complex x y)"

definition normalize_angle :: "real \<Rightarrow> real" where
  "normalize_angle x = atan2 (sin x) (cos x)"

text \<open>\<open>torch.clip\<close> and \<open>clamp(min=..)\<close>.\<close>

definition clip :: "real \<Rightarrow> real \<Rightarrow> real \<Rightarrow> real" where
  "clip lo hi x = min hi (max lo x)"

fun vec_norm :: "real vec3 \<Rightarrow> real" where
  "vec_norm (Vec x y z) = sqrt (x * x + y * y + z * z)"

definition normalize_vec :: "real vec3 \<Rightarrow> real vec3" where
  "normalize_vec v = vec_scale (1 / max (vec_norm v) (1 / 10 ^ 9)) v"

fun quat_norm :: "real quat \<Rightarrow> real" where
  "quat_norm (Quat x y z w) = sqrt (x * x + y * y + z * z + w * w)"

fun quat_unit :: "real quat \<Rightarrow> real quat" where
  "quat_unit (Quat x y z w) =
     (let n = max (quat_norm (Quat x y z w)) (1 / 10 ^ 9) in Quat (x / n) (y / n) (z / n) (w / n))"

subsection \<open>Euler angles\<close>

fun euler_from_quaternion :: "real quat \<Rightarrow> real \<times> real \<times> real" where
  "euler_from_quaternion (Quat x y z w) =
     (let t0 = 2 * (w * x + y * z);
          t1 = 1 - 2 * (x * x + y * y);
          roll_x = atan2 t0 t1;
          t2 = clip (-1) 1 (2 * (w * y - z * x));
          pitch_y = arcsin t2;
          t3 = 2 * (w * z + x * y);
          t4 = 1 - 2 * (y * y + z * z);
          yaw_z = atan2 t3 t4
      in (roll_x, pitch_y, yaw_z))"

definition quat_from_euler_xyz :: "real \<Rightarrow> real \<Rightarrow> real \<Rightarrow> real quat" where
  "quat_from_euler_xyz roll pitch yaw =
     (let cy = cos (yaw * (1 / 2)); sy = sin (yaw * (1 / 2));
          cr = cos (roll * (1 / 2)); sr = sin (roll * (1 / 2));
          cp = cos (pitch * (1 / 2)); sp = sin (pitch * (1 / 2));
          qw = cy * cr * cp + sy * sr * sp;
          qx = cy * sr * cp - sy * cr * sp;
          qy = cy * cr * sp + sy * sr * cp;
          qz = sy * cr * cp - cy * sr * sp
      in Quat qx qy qz qw)"

subsection \<open>Angle and axis\<close>

definition quat_from_angle_axis :: "real \<Rightarrow> real vec3 \<Rightarrow> real quat" where
  "quat_from_angle_axis angle axis =
     (let theta = angle / 2
      in case vec_scale (sin theta) (normalize_vec axis) of Vec x y z \<Rightarrow> quat_unit (Quat x y z (cos theta)))"

definition axis_angle_to_quat :: "real vec3 \<Rightarrow> real \<Rightarrow> real quat" where
  "axis_angle_to_quat axis angle =
     (let theta = angle / 2
      in case vec_scale (sin theta) (normalize_vec axis) of Vec x y z \<Rightarrow> quat_unit (Quat x y z (cos theta)))"

text \<open>Below the threshold the axis is the z axis and the angle 0.\<close>

fun quat_to_angle_axis :: "real quat \<Rightarrow> real \<times> real vec3" where
  "quat_to_angle_axis (Quat x y z w) =
     (let sin_theta = sqrt (1 - w * w);
          angle = normalize_angle (2 * arccos w)
      in if 1 / 10 ^ 5 < \<bar>sin_theta\<bar> then (angle, Vec (x / sin_theta) (y / sin_theta) (z / sin_theta))
         else (0, Vec 0 0 1))"

definition angle_axis_to_exp_map :: "real \<Rightarrow> real vec3 \<Rightarrow> real vec3" where
  "angle_axis_to_exp_map angle axis = vec_scale angle axis"

definition quat_to_exp_map :: "real quat \<Rightarrow> real vec3" where
  "quat_to_exp_map q = (case quat_to_angle_axis q of (angle, axis) \<Rightarrow> angle_axis_to_exp_map angle axis)"

definition exp_map_to_angle_axis :: "real vec3 \<Rightarrow> real \<times> real vec3" where
  "exp_map_to_angle_axis e =
     (let angle = normalize_angle (vec_norm e)
      in if 1 / 10 ^ 5 < \<bar>angle\<bar> then (angle, vec_scale (1 / vec_norm e) e) else (0, Vec 0 0 1))"

definition exp_map_to_quat :: "real vec3 \<Rightarrow> real quat" where
  "exp_map_to_quat e = (case exp_map_to_angle_axis e of (angle, axis) \<Rightarrow> quat_from_angle_axis angle axis)"

definition euler_xyz_to_exp_map :: "real \<Rightarrow> real \<Rightarrow> real \<Rightarrow> real vec3" where
  "euler_xyz_to_exp_map roll pitch yaw = quat_to_exp_map (quat_from_euler_xyz roll pitch yaw)"

fun quat_vec :: "'a quat \<Rightarrow> 'a vec3" where
  "quat_vec (Quat x y z w) = Vec x y z"

fun quat_w :: "'a quat \<Rightarrow> 'a" where
  "quat_w (Quat x y z w) = w"

definition quat_to_axis_angle :: "real quat \<Rightarrow> real vec3 \<times> real" where
  "quat_to_axis_angle q0 =
     (let q = quat_pos q0;
          len = vec_norm (quat_vec q);
          angle = 2 * atan2 len (quat_w q)
      in if 1 / 10 ^ 5 < len then (vec_scale (1 / len) (quat_vec q), angle) else (Vec 0 0 1, 0))"

definition quat_diff_angle :: "real quat \<Rightarrow> real quat \<Rightarrow> real" where
  "quat_diff_angle q0 q1 = snd (quat_to_axis_angle (quat_diff q0 q1))"

subsection \<open>Headings\<close>

definition calc_heading :: "real quat \<Rightarrow> real" where
  "calc_heading q = (case quat_rotate q (Vec 1 0 0) of Vec x y z \<Rightarrow> atan2 y x)"

definition calc_heading_quat :: "real quat \<Rightarrow> real quat" where
  "calc_heading_quat q = quat_from_angle_axis (calc_heading q) (Vec 0 0 1)"

definition calc_heading_quat_inv :: "real quat \<Rightarrow> real quat" where
  "calc_heading_quat_inv q = quat_from_angle_axis (- calc_heading q) (Vec 0 0 1)"

subsection \<open>Interpolation\<close>

fun quat_dot :: "real quat \<Rightarrow> real quat \<Rightarrow> real" where
  "quat_dot (Quat a b c d) (Quat x y z w) = a * x + b * y + c * z + d * w"

fun quat_neg :: "real quat \<Rightarrow> real quat" where
  "quat_neg (Quat a b c d) = Quat (- a) (- b) (- c) (- d)"

fun quat_mix :: "real \<Rightarrow> real quat \<Rightarrow> real \<Rightarrow> real quat \<Rightarrow> real quat" where
  "quat_mix r (Quat a b c d) s (Quat x y z w) = Quat (r * a + s * x) (r * b + s * y) (r * c + s * z) (r * d + s * w)"

definition slerp :: "real quat \<Rightarrow> real quat \<Rightarrow> real \<Rightarrow> real quat" where
  "slerp q0 q1 t =
     (let cos_half = quat_dot q0 q1;
          q1 = (if cos_half < 0 then quat_neg q1 else q1);
          cos_half = \<bar>cos_half\<bar>;
          half_theta = arccos cos_half;
          sin_half = sqrt (1 - cos_half * cos_half);
          ratio_a = sin ((1 - t) * half_theta) / sin_half;
          ratio_b = sin (t * half_theta) / sin_half
      in if 1 \<le> \<bar>cos_half\<bar> then q0
         else if \<bar>sin_half\<bar> < 1 / 1000 then quat_mix (1 / 2) q0 (1 / 2) q1
         else quat_mix ratio_a q0 ratio_b q1)"

subsection \<open>Angles of points\<close>

lemma atan2_polar:
  assumes "0 < r" "- pi < a" "a \<le> pi"
  shows "atan2 (r * sin a) (r * cos a) = a"
proof -
  have "Complex (r * cos a) (r * sin a) = r *\<^sub>R cis a" by (simp add: complex_eq_iff)
  then have "sgn (Complex (r * cos a) (r * sin a)) = cis a" using assms(1) by (simp add: sgn_scaleR)
  then show ?thesis unfolding atan2_def using assms by (intro cis_Arg_unique)
qed

lemma atan2_sin_cos: "- pi < a \<Longrightarrow> a \<le> pi \<Longrightarrow> atan2 (sin a) (cos a) = a"
  using atan2_polar [of 1] by simp

lemma normalize_angle_id: "- pi < a \<Longrightarrow> a \<le> pi \<Longrightarrow> normalize_angle a = a"
  by (simp add: normalize_angle_def atan2_sin_cos)

lemma atan2_correct:
  assumes "(x, y) \<noteq> (0, 0)"
  shows "x = sqrt (x\<^sup>2 + y\<^sup>2) * cos (atan2 y x)" "y = sqrt (x\<^sup>2 + y\<^sup>2) * sin (atan2 y x)"
proof -
  have "Complex x y \<noteq> 0" using assms by (simp add: complex_eq_iff)
  then show "x = sqrt (x\<^sup>2 + y\<^sup>2) * cos (atan2 y x)" "y = sqrt (x\<^sup>2 + y\<^sup>2) * sin (atan2 y x)"
    by (simp_all add: atan2_def cos_Arg sin_Arg complex_norm)
qed

lemma sin_half: "sin x = 2 * sin (x * (1 / 2)) * cos (x * (1 / 2))" for x :: real
  using sin_double [of "x / 2"] by simp

lemma cos_half: "cos x = 1 - 2 * sin (x * (1 / 2)) * sin (x * (1 / 2))" for x :: real
  using cos_double_sin [of "x / 2"] by (simp add: power2_eq_square)

lemma cos_sin_unit: "cos x * cos x + sin x * sin x = 1" for x :: real
  using sin_cos_squared_add2 [of x] by (simp add: power2_eq_square)

subsection \<open>Euler angles\<close>

lemma euler_products:
  fixes roll pitch yaw :: real
  assumes "quat_from_euler_xyz roll pitch yaw = Quat x y z w"
  shows "2 * (w * x + y * z) = cos pitch * sin roll" "1 - 2 * (x * x + y * y) = cos pitch * cos roll"
    "2 * (w * y - z * x) = sin pitch" "2 * (w * z + x * y) = cos pitch * sin yaw"
    "1 - 2 * (y * y + z * z) = cos pitch * cos yaw" "unit_quat (Quat x y z w)"
proof -
  let ?cr = "cos (roll * (1 / 2))" and ?sr = "sin (roll * (1 / 2))" and ?cp = "cos (pitch * (1 / 2))"
    and ?sp = "sin (pitch * (1 / 2))" and ?cy = "cos (yaw * (1 / 2))" and ?sy = "sin (yaw * (1 / 2))"
  have q: "x = ?cy * ?sr * ?cp - ?sy * ?cr * ?sp" "y = ?cy * ?cr * ?sp + ?sy * ?sr * ?cp"
      "z = ?sy * ?cr * ?cp - ?cy * ?sr * ?sp" "w = ?cy * ?cr * ?cp + ?sy * ?sr * ?sp"
    using assms by (simp_all add: quat_from_euler_xyz_def Let_def)
  have u: "?cr * ?cr + ?sr * ?sr = 1" "?cp * ?cp + ?sp * ?sp = 1" "?cy * ?cy + ?sy * ?sy = 1"
    by (rule cos_sin_unit)+
  have e: "sin roll = 2 * ?sr * ?cr" "cos roll = 1 - 2 * ?sr * ?sr" "sin pitch = 2 * ?sp * ?cp" "cos pitch = 1 - 2 * ?sp * ?sp"
      "sin yaw = 2 * ?sy * ?cy" "cos yaw = 1 - 2 * ?sy * ?sy"
    by (rule sin_half cos_half)+
  show "2 * (w * x + y * z) = cos pitch * sin roll" unfolding e q using u by algebra
  show "1 - 2 * (x * x + y * y) = cos pitch * cos roll" unfolding e q using u by algebra
  show "2 * (w * y - z * x) = sin pitch" unfolding e q using u by algebra
  show "2 * (w * z + x * y) = cos pitch * sin yaw" unfolding e q using u by algebra
  show "1 - 2 * (y * y + z * z) = cos pitch * cos yaw" unfolding e q using u by algebra
  show "unit_quat (Quat x y z w)" unfolding unit_quat_def quat_norm2.simps q using u by algebra
qed

text \<open>Euler angles survive the way through a quaternion: roll and yaw from the half-open circle and a pitch
  strictly between the poles are read back, and the quaternion has length 1.\<close>
theorem euler_roundtrip:
  assumes "- pi < roll" "roll \<le> pi" "- pi / 2 < pitch" "pitch < pi / 2" "- pi < yaw" "yaw \<le> pi"
  shows "euler_from_quaternion (quat_from_euler_xyz roll pitch yaw) = (roll, pitch, yaw)
     \<and> unit_quat (quat_from_euler_xyz roll pitch yaw)"
proof -
  obtain x y z w where q: "quat_from_euler_xyz roll pitch yaw = Quat x y z w" by (rule quat.exhaust)
  have "0 < cos pitch" using assms by (intro cos_gt_zero_pi) auto
  then show ?thesis using euler_products [OF q] assms
    by (simp add: q Let_def atan2_polar clip_def arcsin_sin)
qed

lemma euler_roundtrip_witness:
  "euler_from_quaternion (quat_from_euler_xyz pi 0 (pi / 2)) = (pi, 0, pi / 2)"
  using euler_roundtrip [of pi 0 "pi / 2"] pi_gt_zero by auto

subsection \<open>Angle and axis\<close>

lemma vec_norm_eq: "vec_norm v = sqrt (vec_dot v v)"
  by (cases v) simp

lemma vec_dot_self_nonneg [simp]: "0 \<le> vec_dot v v" for v :: "real vec3"
  by (cases v) simp

lemma vec_norm_nonneg [simp]: "0 \<le> vec_norm v"
  by (simp add: vec_norm_eq)

lemma vec_dot_scale [simp]: "vec_dot (vec_scale k u) v = k * vec_dot u v" "vec_dot u (vec_scale k v) = k * vec_dot u v"
  by (cases u; cases v; simp add: algebra_simps)+

lemma vec_scale_scale [simp]: "vec_scale a (vec_scale b v) = vec_scale (a * b) v"
  by (cases v) simp

lemma vec_scale_one [simp]: "vec_scale 1 v = v" by (cases v) simp

lemma vec_norm_scale: "vec_norm (vec_scale k v) = \<bar>k\<bar> * vec_norm v"
  by (simp add: vec_norm_eq real_sqrt_mult mult.assoc [symmetric])

lemma normalize_vec_unit:
  assumes "1 / 10 ^ 9 \<le> vec_norm v"
  shows "vec_norm (normalize_vec v) = 1" "vec_scale (vec_norm v) (normalize_vec v) = v"
proof -
  have "0 < vec_norm v" using assms by (rule less_le_trans [rotated]) simp
  then show "vec_norm (normalize_vec v) = 1" "vec_scale (vec_norm v) (normalize_vec v) = v"
    using assms by (simp_all add: normalize_vec_def vec_norm_scale max_absorb1)
qed

lemma normalize_vec_id: "vec_norm v = 1 \<Longrightarrow> normalize_vec v = v"
  by (simp add: normalize_vec_def)

lemma quat_unit_id:
  assumes "unit_quat q"
  shows "quat_unit q = q"
  using assms by (cases q) (simp add: unit_quat_def Let_def)

fun with_real :: "'a vec3 \<Rightarrow> 'a \<Rightarrow> 'a quat" where
  "with_real (Vec x y z) w = Quat x y z w"

lemma unit_with_real: "unit_quat (with_real v w) \<longleftrightarrow> vec_dot v v + w * w = 1"
  by (cases v) (simp add: unit_quat_def)

lemma axis_angle_quat:
  assumes "vec_norm n = 1" "normalize_vec axis = n"
  shows "quat_from_angle_axis angle axis = with_real (vec_scale (sin (angle / 2)) n) (cos (angle / 2))"
    "axis_angle_to_quat axis angle = with_real (vec_scale (sin (angle / 2)) n) (cos (angle / 2))"
    "unit_quat (with_real (vec_scale (sin (angle / 2)) n) (cos (angle / 2)))"
proof -
  have "vec_dot n n = 1" using assms(1) by (simp add: vec_norm_eq)
  then show u: "unit_quat (with_real (vec_scale (sin (angle / 2)) n) (cos (angle / 2)))"
    using cos_sin_unit [of "angle / 2"] by (simp add: unit_with_real mult.assoc add.commute)
  show "quat_from_angle_axis angle axis = with_real (vec_scale (sin (angle / 2)) n) (cos (angle / 2))"
    "axis_angle_to_quat axis angle = with_real (vec_scale (sin (angle / 2)) n) (cos (angle / 2))"
    using quat_unit_id [OF u] by (cases n; simp add: quat_from_angle_axis_def axis_angle_to_quat_def assms(2) Let_def)+
qed

lemma quat_vec_with_real [simp]: "quat_vec (with_real v w) = v" "quat_w (with_real v w) = w"
  by (cases v; simp)+

lemma quat_pos_id: "0 \<le> quat_w q \<Longrightarrow> quat_pos q = q"
  by (cases q) (simp add: Let_def)

text \<open>Reading angle and axis of a rotation that was made from an axis and an angle of at most half a turn:
  the angle comes back with a positive sign, the axis turned accordingly and normalised, unless the
  rotation is too small, which counts as no rotation.\<close>
lemma axis_angle_roundtrip:
  assumes "1 / 10 ^ 9 \<le> vec_norm axis" "\<bar>angle\<bar> \<le> pi"
  shows "quat_to_axis_angle (axis_angle_to_quat axis angle)
       = (if 1 / 10 ^ 5 < \<bar>sin (angle / 2)\<bar> then (vec_scale (sgn angle) (normalize_vec axis), \<bar>angle\<bar>) else (Vec 0 0 1, 0))"
proof -
  let ?n = "normalize_vec axis"
  note n = normalize_vec_unit(1) [OF assms(1)]
  have q: "axis_angle_to_quat axis angle = with_real (vec_scale (sin (angle / 2)) ?n) (cos (angle / 2))"
    using n by (rule axis_angle_quat) simp
  have c: "0 \<le> cos (angle / 2)" using assms(2) by (intro cos_ge_zero) auto
  have len: "vec_norm (vec_scale (sin (angle / 2)) ?n) = \<bar>sin (angle / 2)\<bar>" by (simp add: vec_norm_scale n)
  have s: "sin (\<bar>angle\<bar> / 2) = \<bar>sin (angle / 2)\<bar>" "cos (\<bar>angle\<bar> / 2) = cos (angle / 2)"
    using assms(2) sin_ge_zero [of "\<bar>angle\<bar> / 2"] by (auto simp: abs_if split: if_splits)
  have "- pi < \<bar>angle\<bar> / 2" "\<bar>angle\<bar> / 2 \<le> pi" using assms(2) pi_gt_zero by linarith+
  then have "2 * atan2 \<bar>sin (angle / 2)\<bar> (cos (angle / 2)) = \<bar>angle\<bar>"
    using atan2_sin_cos [of "\<bar>angle\<bar> / 2"] by (simp add: s)
  moreover have "sin (angle / 2) / \<bar>sin (angle / 2)\<bar> = sgn angle" if "sin (angle / 2) \<noteq> 0"
  proof (cases "0 < angle")
    case True
    then show ?thesis using that assms(2) sin_ge_zero [of "angle / 2"] by simp
  next
    case False
    then have "sin (- angle / 2) \<ge> 0" using assms(2) by (intro sin_ge_zero) auto
    moreover have "angle \<noteq> 0" using that by auto
    ultimately show ?thesis using False that by (simp add: sgn_if)
  qed
  moreover have "0 < \<bar>sin (angle / 2)\<bar>" if "1 / 10 ^ 5 < \<bar>sin (angle / 2)\<bar>" by (rule less_trans [OF _ that]) simp
  ultimately show ?thesis
    unfolding quat_to_axis_angle_def q by (auto simp: quat_pos_id c len Let_def)
qed

lemma axis_angle_roundtrip_witness:
  "quat_to_axis_angle (axis_angle_to_quat (Vec 0 0 2) (- pi)) = (Vec 0 0 (- 1), pi)"
proof -
  have "normalize_vec (Vec 0 0 2) = Vec 0 0 1" by (simp add: normalize_vec_def)
  then show ?thesis using axis_angle_roundtrip [of "Vec 0 0 2" "- pi"] by simp
qed

lemma exp_map_quat:
  assumes "1 / 10 ^ 5 < vec_norm e" "vec_norm e \<le> pi"
  shows "exp_map_to_quat e
       = with_real (vec_scale (sin (vec_norm e / 2)) (vec_scale (1 / vec_norm e) e)) (cos (vec_norm e / 2))"
proof -
  have pos: "0 < vec_norm e" by (rule less_trans [OF _ assms(1)]) simp
  then have "normalize_angle (vec_norm e) = vec_norm e" using assms(2) pi_gt_zero by (intro normalize_angle_id) linarith+
  moreover have "vec_norm (vec_scale (1 / vec_norm e) e) = 1" using pos by (simp add: vec_norm_scale)
  ultimately show ?thesis
    using assms(1) pos by (simp add: exp_map_to_quat_def exp_map_to_angle_axis_def axis_angle_quat(1) [OF _ normalize_vec_id] Let_def)
qed

text \<open>Exponential maps survive the way through a quaternion, up to half a turn and down to the threshold
  below which a rotation counts as none.\<close>
lemma exp_map_roundtrip:
  assumes "1 / 10 ^ 5 < vec_norm e" "vec_norm e \<le> pi" "1 / 10 ^ 5 < sin (vec_norm e / 2)"
  shows "quat_to_exp_map (exp_map_to_quat e) = e"
proof -
  let ?a = "vec_norm e"
  have pos: "0 < ?a" by (rule less_trans [OF _ assms(1)]) simp
  have spos: "0 < sin (?a / 2)" by (rule less_trans [OF _ assms(3)]) simp
  have "sqrt (1 - cos (?a / 2) * cos (?a / 2)) = sqrt (sin (?a / 2) * sin (?a / 2))"
    using cos_sin_unit [of "?a / 2"] by (intro arg_cong [of _ _ sqrt]) linarith
  then have root: "sqrt (1 - cos (?a / 2) * cos (?a / 2)) = sin (?a / 2)" using spos by simp
  have half: "arccos (cos (?a / 2)) = ?a / 2" using pos assms(2) by (intro arccos_cos) linarith+
  have angle: "normalize_angle (2 * arccos (cos (?a / 2))) = ?a"
    unfolding half using pos assms(2) by (subst normalize_angle_id) simp_all
  show ?thesis
    unfolding exp_map_quat [OF assms(1,2)]
    using root angle spos assms(3) pos
    by (cases e) (simp add: quat_to_exp_map_def angle_axis_to_exp_map_def Let_def)
qed

lemma exp_map_roundtrip_witness: "quat_to_exp_map (exp_map_to_quat (Vec 0 pi 0)) = Vec 0 pi 0"
proof -
  have "1 / 10 ^ 5 < pi" by (rule less_le_trans [OF _ pi_ge_two]) simp
  then show ?thesis by (intro exp_map_roundtrip) simp_all
qed

subsection \<open>Headings\<close>

lemma z_axis: "vec_norm (Vec 0 0 1) = 1" "normalize_vec (Vec 0 0 1) = Vec 0 0 1"
  by (simp_all add: normalize_vec_def)

lemma heading_quat: "quat_from_angle_axis a (Vec 0 0 1) = Quat 0 0 (sin (a / 2)) (cos (a / 2))"
  "unit_quat (Quat 0 0 (sin (a / 2)) (cos (a / 2)))"
  using axis_angle_quat [OF z_axis, of a] by simp_all

lemma rotate_z:
  fixes a :: real
  shows "quat_rotate (Quat 0 0 (sin (a / 2)) (cos (a / 2))) (Vec x y z)
    = Vec (cos a * x - sin a * y) (sin a * x + cos a * y) z"
proof -
  have "sin a = 2 * sin (a / 2) * cos (a / 2)" "cos a = 2 * (cos (a / 2))\<^sup>2 - 1"
    using sin_double [of "a / 2"] cos_double_cos [of "a / 2"] by simp_all
  moreover have "2 * (cos (a / 2))\<^sup>2 - 1 + 2 * (sin (a / 2) * sin (a / 2)) = 1"
    using cos_sin_unit [of "a / 2"] unfolding power2_eq_square by linarith
  ultimately show ?thesis unfolding quat_rotate_eq vec3.inject by (intro conjI; algebra)
qed

text \<open>The two heading rotations are inverse to each other, and the inverse one turns the facing direction of a
  rotation, unless it is vertical, onto the positive x axis while its height stays.\<close>
theorem heading_removed:
  assumes "quat_rotate q (Vec 1 0 0) = Vec x y z" "(x, y) \<noteq> (0, 0)"
  shows "quat_mul (calc_heading_quat_inv q) (calc_heading_quat q) = quat_one
     \<and> quat_rotate (calc_heading_quat_inv q) (quat_rotate q (Vec 1 0 0)) = Vec (sqrt (x\<^sup>2 + y\<^sup>2)) 0 z"
proof
  define a where "a = calc_heading q"
  have inv: "calc_heading_quat_inv q = Quat 0 0 (sin (- a / 2)) (cos (- a / 2))"
    and dir: "calc_heading_quat q = Quat 0 0 (sin (a / 2)) (cos (a / 2))"
    using heading_quat(1) [of a] heading_quat(1) [of "- a"] by (simp_all add: calc_heading_quat_def calc_heading_quat_inv_def a_def)
  show "quat_mul (calc_heading_quat_inv q) (calc_heading_quat q) = quat_one"
    using cos_sin_unit [of "a / 2"] by (simp add: inv dir quat_one_def)
  define r where "r = sqrt (x\<^sup>2 + y\<^sup>2)"
  have "a = atan2 y x" using assms(1) by (simp add: a_def calc_heading_def)
  then have p: "x = r * cos a" "y = r * sin a" using atan2_correct [OF assms(2)] by (simp_all add: r_def)
  have "cos a * x + sin a * y = r" unfolding p using cos_sin_unit [of a] by algebra
  moreover have "cos a * y - sin a * x = 0" unfolding p by simp
  ultimately show "quat_rotate (calc_heading_quat_inv q) (quat_rotate q (Vec 1 0 0)) = Vec (sqrt (x\<^sup>2 + y\<^sup>2)) 0 z"
    unfolding assms(1) inv rotate_z by (simp add: r_def)
qed

lemma heading_removed_witness:
  "quat_rotate (calc_heading_quat_inv (Quat 0 0 1 0)) (quat_rotate (Quat 0 0 1 0) (Vec 1 0 0)) = Vec 1 0 0"
  using heading_removed [of "Quat 0 0 1 0" "- 1" 0 0] by simp

subsection \<open>Interpolation\<close>

lemma quat_dot_neg [simp]: "quat_dot q0 (quat_neg q1) = - quat_dot q0 q1" "quat_neg (quat_neg q) = q"
  by (cases q0; cases q1; cases q; simp)+

lemma quat_dot_mix: "quat_dot p (quat_mix r q0 s q1) = r * quat_dot p q0 + s * quat_dot p q1"
  by (cases p; cases q0; cases q1) (simp add: algebra_simps)

lemma quat_mix_ends [simp]: "quat_mix 1 p 0 q = p" "quat_mix 0 p 1 q = q"
  by (cases p; cases q; simp)+

lemma quat_dot_commute: "quat_dot p q = quat_dot q p"
  by (cases p; cases q) (simp add: mult.commute)

lemma unit_quat_dot: "unit_quat q \<longleftrightarrow> quat_dot q q = 1"
  by (cases q) (simp add: unit_quat_def)

text \<open>The interpolation of unit quaternions has unit length, its angle to the first one grows evenly with the
  parameter, it ends at the second one or its negative, and it does not depend on the sign of the second,
  as long as the two are neither equal up to sign nor too close.\<close>
theorem slerp_even:
  assumes "unit_quat q0" "unit_quat q1" "quat_dot q0 q1 \<noteq> 0" "\<bar>quat_dot q0 q1\<bar> < 1"
    and "1 / 1000 \<le> sqrt (1 - (quat_dot q0 q1)\<^sup>2)"
  shows "unit_quat (slerp q0 q1 t)
     \<and> quat_dot q0 (slerp q0 q1 t) = cos (t * arccos \<bar>quat_dot q0 q1\<bar>)
     \<and> slerp q0 q1 0 = q0 \<and> slerp q0 q1 1 \<in> {q1, quat_neg q1}
     \<and> slerp q0 (quat_neg q1) t = slerp q0 q1 t"
proof -
  let ?d = "\<bar>quat_dot q0 q1\<bar>"
  define q where "q = (if quat_dot q0 q1 < 0 then quat_neg q1 else q1)"
  define h where "h = arccos ?d"
  have d: "quat_dot q0 q = ?d" by (simp add: q_def)
  have "cos h = ?d" using assms(4) by (simp add: h_def)
  have sin_h: "sin h = sqrt (1 - ?d * ?d)" using assms(4) by (simp add: h_def sin_arccos power2_eq_square)
  have pos: "0 < sin h" unfolding sin_h power2_eq_square [symmetric] power2_abs by (rule less_le_trans [OF _ assms(5)]) simp
  have root: "1 / 1000 \<le> \<bar>sqrt (1 - ?d * ?d)\<bar>"
    using assms(5) unfolding power2_eq_square abs_mult_self_eq by (rule order_trans [OF _ abs_ge_self])
  have s: "slerp q0 q1 u = quat_mix (sin ((1 - u) * h) / sin h) q0 (sin (u * h) / sin h) q" for u
    using assms(4) sin_h not_less [THEN iffD2, OF root] unfolding slerp_def by (simp add: Let_def h_def q_def)
  have unit: "quat_dot q q = 1" "quat_dot q0 q0 = 1"
    using assms(1,2) by (auto simp: q_def unit_quat_dot quat_dot_commute [of "quat_neg q1"])
  have ratio: "sin ((1 - u) * h) / sin h + sin (u * h) / sin h * cos h = cos (u * h)" for u
    using pos by (simp add: left_diff_distrib sin_diff field_simps)
  have dot: "quat_dot q0 (slerp q0 q1 t) = cos (t * h)"
    using ratio [of t] by (simp add: s quat_dot_mix unit d \<open>cos h = ?d\<close> [symmetric])
  have dot': "quat_dot q (slerp q0 q1 t) = cos ((1 - t) * h)"
    using ratio [of "1 - t"] by (simp add: s quat_dot_mix unit d quat_dot_commute [of q q0] \<open>cos h = ?d\<close> [symmetric] mult.commute)
  have over: "a / n * c + b / n * c' = (a * c + c' * b) / n" for a b c c' n :: real by (simp add: add_divide_distrib)
  have "quat_dot p (slerp q0 q1 t) = sin ((1 - t) * h) / sin h * quat_dot p q0 + sin (t * h) / sin h * quat_dot p q" for p
    by (simp add: s quat_dot_mix)
  then have "quat_dot (slerp q0 q1 t) (slerp q0 q1 t)
      = sin ((1 - t) * h) / sin h * quat_dot q0 (slerp q0 q1 t) + sin (t * h) / sin h * quat_dot q (slerp q0 q1 t)"
    unfolding quat_dot_commute [of q0 "slerp q0 q1 t"] quat_dot_commute [of q "slerp q0 q1 t"] .
  also have "\<dots> = sin ((1 - t) * h + t * h) / sin h" unfolding dot dot' sin_add by (rule over)
  also have "(1 - t) * h + t * h = h" by (simp add: algebra_simps)
  also have "sin h / sin h = 1" using pos by simp
  finally have "unit_quat (slerp q0 q1 t)" by (simp add: unit_quat_dot)
  moreover have "slerp q0 q1 0 = q0" "slerp q0 q1 1 = q" unfolding s using pos by simp_all
  moreover have "slerp q0 (quat_neg q1) t = slerp q0 q1 t" using assms(3) by (auto simp: slerp_def Let_def)
  ultimately show ?thesis using dot by (auto simp: h_def q_def)
qed

lemma slerp_even_witness:
  "unit_quat (slerp (Quat 0 0 0 1) (Quat 0 0 (4 / 5) (3 / 5)) (1 / 2))"
proof -
  have "sqrt (1 - (3 / 5)\<^sup>2) = (4 / 5 :: real)" by (rule real_sqrt_unique) (simp_all add: power2_eq_square)
  then show ?thesis
    using slerp_even [of "Quat 0 0 0 1" "Quat 0 0 (4 / 5) (3 / 5)" "1 / 2"] by (simp add: unit_quat_def)
qed

end
