(* ===== verification/Rotation_Matrices.thy ===== *)
theory Rotation_Matrices
  imports Rotations
begin

text \<open>
  The conversions of \<open>rlightning/humanoid/utils/common.py\<close> between rotation matrices, quaternions with the real
  part first, Euler angles in a given convention, axis-angle vectors and the six-dimensional representation.
  The shapes of the tensors, which the code checks first, are part of the types here.
\<close>

subsection \<open>Quaternions of matrices\<close>

definition copysign :: "real \<Rightarrow> real \<Rightarrow> real" where
  "copysign a b = (if (a < 0) \<noteq> (b < 0) then - a else a)"

definition sqrt_positive_part :: "real \<Rightarrow> real" where
  "sqrt_positive_part x = (if 0 < x then sqrt x else 0)"

text \<open>\<open>argmax\<close> of four values: the first largest.\<close>

definition argmax4 :: "real \<Rightarrow> real \<Rightarrow> real \<Rightarrow> real \<Rightarrow> nat" where
  "argmax4 a b c d =
     (if b \<le> a \<and> c \<le> a \<and> d \<le> a then 0 else if c \<le> b \<and> d \<le> b then 1 else if d \<le> c then 2 else 3)"

fun quat_over :: "real quat \<Rightarrow> real \<Rightarrow> real quat" where
  "quat_over (Quat a b c d) q_abs = (let n = 2 * max q_abs (1 / 10) in Quat (a / n) (b / n) (c / n) (d / n))"

fun matrix_to_quaternion :: "real mat3 \<Rightarrow> real quat" where
  "matrix_to_quaternion (Mat (Vec m00 m01 m02) (Vec m10 m11 m12) (Vec m20 m21 m22)) =
     (let a0 = sqrt_positive_part (1 + m00 + m11 + m22);
          a1 = sqrt_positive_part (1 + m00 - m11 - m22);
          a2 = sqrt_positive_part (1 - m00 + m11 - m22);
          a3 = sqrt_positive_part (1 - m00 - m11 + m22);
          q0 = quat_over (Quat (a0\<^sup>2) (m21 - m12) (m02 - m20) (m10 - m01)) a0;
          q1 = quat_over (Quat (m21 - m12) (a1\<^sup>2) (m10 + m01) (m02 + m20)) a1;
          q2 = quat_over (Quat (m02 - m20) (m10 + m01) (a2\<^sup>2) (m12 + m21)) a2;
          q3 = quat_over (Quat (m10 - m01) (m20 + m02) (m21 + m12) (a3\<^sup>2)) a3
      in [q0, q1, q2, q3] ! argmax4 a0 a1 a2 a3)"

text \<open>\<open>random_quaternions\<close>, for the four normal samples that \<open>torch\<close> draws, and its uses.\<close>

fun random_quaternion :: "real quat \<Rightarrow> real quat" where
  "random_quaternion (Quat a b c d) =
     (let n = copysign (sqrt (a * a + b * b + c * c + d * d)) a in Quat (a / n) (b / n) (c / n) (d / n))"

definition random_rotation :: "real quat \<Rightarrow> real mat3" where
  "random_rotation sample = quaternion_to_matrix (random_quaternion sample)"

subsection \<open>Euler angles in a convention\<close>

definition axis_angle_rotation :: "char \<Rightarrow> real \<Rightarrow> real mat3 result" where
  "axis_angle_rotation axis angle =
     (let c = cos angle; s = sin angle
      in if axis = CHR ''X'' then Inr (Mat (Vec 1 0 0) (Vec 0 c (- s)) (Vec 0 s c))
         else if axis = CHR ''Y'' then Inr (Mat (Vec c 0 s) (Vec 0 1 0) (Vec (- s) 0 c))
         else if axis = CHR ''Z'' then Inr (Mat (Vec c (- s) 0) (Vec s c 0) (Vec 0 0 1))
         else Inl ValueError)"

definition check_convention :: "string \<Rightarrow> unit result" where
  "check_convention convention =
     bind_result (guard ValueError (length convention = 3)) (\<lambda>_.
     bind_result (guard ValueError (convention ! 1 \<notin> {convention ! 0, convention ! 2})) (\<lambda>_.
     guard ValueError (list_all (\<lambda>l. l \<in> {CHR ''X'', CHR ''Y'', CHR ''Z''}) convention)))"

fun euler_angles_to_matrix :: "real vec3 \<Rightarrow> string \<Rightarrow> real mat3 result" where
  "euler_angles_to_matrix (Vec a b c) convention =
     bind_result (check_convention convention) (\<lambda>_.
     bind_result (mapM (\<lambda>(l, e). axis_angle_rotation l e) (zip convention [a, b, c])) (\<lambda>ms.
     Inr (mat_mul (mat_mul (ms ! 0) (ms ! 1)) (ms ! 2))))"

fun vec_nth :: "'a vec3 \<Rightarrow> nat \<Rightarrow> 'a" where
  "vec_nth (Vec x y z) i = [x, y, z] ! i"

fun mat_row :: "'a mat3 \<Rightarrow> nat \<Rightarrow> 'a vec3" where
  "mat_row (Mat r s t) i = [r, s, t] ! i"

definition mat_column :: "'a mat3 \<Rightarrow> nat \<Rightarrow> 'a vec3" where
  "mat_column m i = mat_row (mat_transpose m) i"

definition angle_from_tan :: "char \<Rightarrow> char \<Rightarrow> real vec3 \<Rightarrow> bool \<Rightarrow> bool \<Rightarrow> real" where
  "angle_from_tan axis other_axis data horizontal tait_bryan =
     (let (i1, i2) = (if axis = CHR ''X'' then (2, 1) else if axis = CHR ''Y'' then (0, 2) else (1, 0));
          (i1, i2) = (if horizontal then (i2, i1) else (i1, i2));
          even = [axis, other_axis] \<in> {''XY'', ''YZ'', ''ZX''}
      in if horizontal = even then atan2 (vec_nth data i1) (vec_nth data i2)
         else if tait_bryan then atan2 (- vec_nth data i2) (vec_nth data i1)
         else atan2 (vec_nth data i2) (- vec_nth data i1))"

definition index_from_letter :: "char \<Rightarrow> nat result" where
  "index_from_letter l = (if l = CHR ''X'' then Inr 0 else if l = CHR ''Y'' then Inr 1 else if l = CHR ''Z'' then Inr 2 else Inl ValueError)"

definition matrix_to_euler_angles :: "real mat3 \<Rightarrow> string \<Rightarrow> real vec3 result" where
  "matrix_to_euler_angles m convention =
     bind_result (check_convention convention) (\<lambda>_.
     bind_result (index_from_letter (convention ! 0)) (\<lambda>i0.
     bind_result (index_from_letter (convention ! 2)) (\<lambda>i2.
     let tait_bryan = (i0 \<noteq> i2);
         central = (if tait_bryan
                    then arcsin (vec_nth (mat_row m i0) i2 * (if int i0 - int i2 \<in> {- 1, 2} then - 1 else 1))
                    else arccos (vec_nth (mat_row m i0) i0))
     in Inr (Vec (angle_from_tan (convention ! 0) (convention ! 1) (mat_column m i2) False tait_bryan)
          central
          (angle_from_tan (convention ! 2) (convention ! 1) (mat_row m i0) True tait_bryan)))))"

subsection \<open>Axis-angle vectors\<close>

definition half_sinc :: "real \<Rightarrow> real" where
  "half_sinc angle = (if \<bar>angle\<bar> < 1 / 10 ^ 6 then 1 / 2 - (angle * angle) / 48 else sin (angle * (1 / 2)) / angle)"

definition axis_angle_to_quaternion :: "real vec3 \<Rightarrow> real quat" where
  "axis_angle_to_quaternion v =
     (let angle = vec_norm v in case vec_scale (half_sinc angle) v of Vec x y z \<Rightarrow> Quat (cos (angle * (1 / 2))) x y z)"

fun quaternion_to_axis_angle :: "real quat \<Rightarrow> real vec3" where
  "quaternion_to_axis_angle (Quat w x y z) =
     (let half_angle = atan2 (vec_norm (Vec x y z)) w;
          angle = 2 * half_angle;
          s = (if \<bar>angle\<bar> < 1 / 10 ^ 6 then 1 / 2 - (angle * angle) / 48 else sin half_angle / angle)
      in Vec (x / s) (y / s) (z / s))"

definition axis_angle_to_matrix :: "real vec3 \<Rightarrow> real mat3" where
  "axis_angle_to_matrix v = quaternion_to_matrix (axis_angle_to_quaternion v)"

definition matrix_to_axis_angle :: "real mat3 \<Rightarrow> real vec3" where
  "matrix_to_axis_angle m = quaternion_to_axis_angle (matrix_to_quaternion m)"

subsection \<open>Six dimensions\<close>

text \<open>\<open>F.normalize\<close> of \<open>torch\<close>.\<close>

definition f_normalize :: "real vec3 \<Rightarrow> real vec3" where
  "f_normalize v = vec_scale (1 / max (vec_norm v) (1 / 10 ^ 12)) v"

definition rotation_6d_to_matrix :: "real vec3 \<Rightarrow> real vec3 \<Rightarrow> real mat3" where
  "rotation_6d_to_matrix a1 a2 =
     (let b1 = f_normalize a1;
          b2 = f_normalize (vec_sub a2 (vec_scale (vec_dot b1 a2) b1))
      in Mat b1 b2 (vec_cross b1 b2))"

fun matrix_to_rotation_6d :: "'a mat3 \<Rightarrow> 'a vec3 \<times> 'a vec3" where
  "matrix_to_rotation_6d (Mat r s t) = (r, s)"

subsection \<open>Round trips\<close>

lemma check_convention_ok:
  "check_convention [p, q, r] = Inr () \<longleftrightarrow> q \<noteq> p \<and> q \<noteq> r \<and> {p, q, r} \<subseteq> {CHR ''X'', CHR ''Y'', CHR ''Z''}"
  by (auto simp: check_convention_def guard_def split: if_splits)

text \<open>C26: Euler angles survive the way through a rotation matrix, for each of the twelve conventions: the outer
  angles on the half-open circle, the central one strictly between its poles, which are at plus and minus a
  right angle when the outer axes differ, and at 0 and a half turn when they are the same.\<close>
theorem euler_matrix_roundtrip:
  assumes "check_convention [p, q, r] = Inr ()"
    and "- pi < a" "a \<le> pi" "- pi < c" "c \<le> pi"
    and "if p = r then 0 < b \<and> b < pi else - pi / 2 < b \<and> b < pi / 2"
  shows "bind_result (euler_angles_to_matrix (Vec a b c) [p, q, r]) (\<lambda>m. matrix_to_euler_angles m [p, q, r]) = Inr (Vec a b c)"
proof -
  have at: "atan2 (sin a * k) (cos a * k) = a" "atan2 (sin c * k) (cos c * k) = c"
      "atan2 (k * sin a) (k * cos a) = a" "atan2 (k * sin c) (k * cos c) = c" if "0 < k" for k
    using atan2_polar [OF that] assms(2-5) by (simp_all add: mult.commute)
  have conv: "q \<noteq> p" "q \<noteq> r" "p \<in> {CHR ''X'', CHR ''Y'', CHR ''Z''}" "q \<in> {CHR ''X'', CHR ''Y'', CHR ''Z''}"
      "r \<in> {CHR ''X'', CHR ''Y'', CHR ''Z''}"
    using assms(1) by (auto simp: check_convention_ok)
  show ?thesis
  proof (cases "p = r")
    case True
    then have b: "0 < b" "b < pi" using assms(6) by auto
    then have "0 < sin b" "arccos (cos b) = b" by (auto intro: sin_gt_zero arccos_cos)
    then show ?thesis using conv assms(1) True
      by (auto simp: mat_column_def matrix_to_euler_angles_def index_from_letter_def angle_from_tan_def
          axis_angle_rotation_def Let_def at)
  next
    case False
    then have b: "- pi / 2 < b" "b < pi / 2" using assms(6) by auto
    then have "0 < cos b" "arcsin (sin b) = b" by (auto intro: cos_gt_zero_pi arcsin_sin)
    then show ?thesis using conv assms(1) False
      by (auto simp: mat_column_def matrix_to_euler_angles_def index_from_letter_def angle_from_tan_def
          axis_angle_rotation_def Let_def at arcsin_minus)
  qed
qed

lemma euler_matrix_roundtrip_witness:
  "bind_result (euler_angles_to_matrix (Vec pi 0 (pi / 2)) ''ZYX'') (\<lambda>m. matrix_to_euler_angles m ''ZYX'') = Inr (Vec pi 0 (pi / 2))"
  using euler_matrix_roundtrip [of "CHR ''Z''" "CHR ''Y''" "CHR ''X''" pi "pi / 2" 0] pi_gt_zero
  by (simp add: check_convention_ok)

lemma argmax4_cases:
  obtains "b \<le> a" "c \<le> a" "d \<le> a" "argmax4 a b c d = 0" | "a \<le> b" "c \<le> b" "d \<le> b" "argmax4 a b c d = 1"
    | "a \<le> c" "b \<le> c" "d \<le> c" "argmax4 a b c d = 2" | "a \<le> d" "b \<le> d" "c \<le> d" "argmax4 a b c d = 3"
proof (cases "b \<le> a \<and> c \<le> a \<and> d \<le> a")
  case True
  then show ?thesis using that(1) by (simp add: argmax4_def)
next
  case F: False
  show ?thesis
  proof (cases "c \<le> b \<and> d \<le> b")
    case True
    moreover from this F have "a < b" by linarith
    ultimately show ?thesis using that(2) by (simp add: argmax4_def)
  next
    case G: False
    show ?thesis
    proof (cases "d \<le> c")
      case True
      moreover from this F G have "b < c" "a < c" by linarith+
      ultimately show ?thesis using that(3) by (simp add: argmax4_def)
    next
      case False
      moreover from this F G have "b < d" "a < d" by linarith+
      ultimately show ?thesis using that(4) by (simp add: argmax4_def)
    qed
  qed
qed

lemma sqrt_positive_square: "sqrt_positive_part (4 * (x * x)) = 2 * \<bar>x\<bar>"
  using real_sqrt_mult [of 4 "x * x"] by (auto simp: sqrt_positive_part_def zero_less_mult_iff)

lemma over_largest:
  assumes "1 / 2 \<le> \<bar>x\<bar>"
  shows "quat_over (Quat (4 * x * a) (4 * x * b) (4 * x * c) (4 * x * d)) (2 * \<bar>x\<bar>)
       \<in> {Quat a b c d, Quat (- a) (- b) (- c) (- d)}"
proof -
  have "max (2 * \<bar>x\<bar>) (1 / 10) = 2 * \<bar>x\<bar>" using assms by (intro max_absorb1) linarith
  then show ?thesis using assms by (cases "0 \<le> x") (auto simp: Let_def)
qed

lemma largest_entry:
  fixes a b c d :: real
  assumes "a * a + b * b + c * c + d * d = 1" "\<bar>b\<bar> \<le> \<bar>a\<bar>" "\<bar>c\<bar> \<le> \<bar>a\<bar>" "\<bar>d\<bar> \<le> \<bar>a\<bar>"
  shows "1 / 2 \<le> \<bar>a\<bar>"
proof -
  have "b * b \<le> a * a" "c * c \<le> a * a" "d * d \<le> a * a"
    using assms(2-4) by (simp_all add: abs_le_square_iff power2_eq_square [symmetric])
  then have "(1 / 2) * (1 / 2) \<le> a * a" using assms(1) by linarith
  then show ?thesis using abs_le_square_iff [of "1 / 2" a] by (simp add: power2_eq_square)
qed

text \<open>C27: the quaternion read off the matrix of a unit quaternion is that quaternion or its negative: the candidate
  that is picked is always well conditioned, since the largest entry is at least one half.\<close>
theorem matrix_quaternion_roundtrip:
  assumes "unit_quat q"
  shows "matrix_to_quaternion (quaternion_to_matrix q) \<in> {q, quat_neg q}"
proof (cases q)
  case (Quat r i j k)
  have u: "r * r + i * i + j * j + k * k = 1" using assms by (simp add: Quat unit_quat_def)
  let ?m00 = "1 - 2 * (j * j + k * k)" and ?m11 = "1 - 2 * (i * i + k * k)" and ?m22 = "1 - 2 * (i * i + j * j)"
  have m: "quaternion_to_matrix q = Mat (Vec ?m00 (2 * (i * j - k * r)) (2 * (i * k + j * r)))
      (Vec (2 * (i * j + k * r)) ?m11 (2 * (j * k - i * r))) (Vec (2 * (i * k - j * r)) (2 * (j * k + i * r)) ?m22)"
    by (simp add: Quat Let_def u)
  have e: "1 + ?m00 + ?m11 + ?m22 = 4 * (r * r)" "1 + ?m00 - ?m11 - ?m22 = 4 * (i * i)"
      "1 - ?m00 + ?m11 - ?m22 = 4 * (j * j)" "1 - ?m00 - ?m11 + ?m22 = 4 * (k * k)"
    using u by (simp_all add: algebra_simps)
  have off: "2 * (j * k + i * r) - 2 * (j * k - i * r) = 4 * r * i" "2 * (i * k + j * r) - 2 * (i * k - j * r) = 4 * r * j"
      "2 * (i * j + k * r) - 2 * (i * j - k * r) = 4 * r * k" "2 * (i * j + k * r) + 2 * (i * j - k * r) = 4 * i * j"
      "2 * (i * k + j * r) + 2 * (i * k - j * r) = 4 * i * k" "2 * (j * k - i * r) + 2 * (j * k + i * r) = 4 * j * k"
      "2 * (i * k - j * r) + 2 * (i * k + j * r) = 4 * i * k" "2 * (j * k + i * r) + 2 * (j * k - i * r) = 4 * j * k"
    by (simp_all add: algebra_simps)
  let ?pick = "\<lambda>x. quat_over (Quat (4 * x * r) (4 * x * i) (4 * x * j) (4 * x * k)) (2 * \<bar>x\<bar>)"
  have sq: "(2 * \<bar>x\<bar>)\<^sup>2 = 4 * x * x" for x :: real by (simp add: power2_eq_square)
  have c: "4 * x * y = 4 * y * x" for x y :: real by simp
  have pick: "matrix_to_quaternion (quaternion_to_matrix q) = [?pick r, ?pick i, ?pick j, ?pick k] ! argmax4 (2 * \<bar>r\<bar>) (2 * \<bar>i\<bar>) (2 * \<bar>j\<bar>) (2 * \<bar>k\<bar>)"
    unfolding m matrix_to_quaternion.simps e off sqrt_positive_square sq Let_def
    unfolding c [of i r] c [of j r] c [of k r] c [of j i] c [of k i] c [of k j] ..
  have big: "?pick x \<in> {q, quat_neg q}" if "1 / 2 \<le> \<bar>x\<bar>" for x
    using over_largest [OF that, of r i j k] by (simp add: Quat)
  show ?thesis
  proof (cases rule: argmax4_cases [of "2 * \<bar>i\<bar>" "2 * \<bar>r\<bar>" "2 * \<bar>j\<bar>" "2 * \<bar>k\<bar>"])
    case 1 then show ?thesis using big [of r] largest_entry [of r i j k] u by (simp add: pick del: quat_over.simps)
  next
    case 2 then show ?thesis using big [of i] largest_entry [of i r j k] u by (simp add: pick del: quat_over.simps)
  next
    case 3 then show ?thesis using big [of j] largest_entry [of j r i k] u by (simp add: pick del: quat_over.simps)
  next
    case 4 then show ?thesis using big [of k] largest_entry [of k r i j] u by (simp add: pick del: quat_over.simps)
  qed
qed

lemma matrix_quaternion_roundtrip_witness:
  "matrix_to_quaternion (quaternion_to_matrix (Quat 0 (3 / 5) 0 (4 / 5))) \<in> {Quat 0 (3 / 5) 0 (4 / 5), Quat 0 (- 3 / 5) 0 (- 4 / 5)}"
proof -
  have "unit_quat (Quat 0 (3 / 5) 0 (4 / 5 :: real))" by (simp add: unit_quat_def)
  from matrix_quaternion_roundtrip [OF this] show ?thesis by simp
qed

text \<open>Axis-angle vectors survive the way through a quaternion, from the threshold below which the code uses a
  series up to a full turn.\<close>
theorem axis_angle_vector_roundtrip:
  assumes "1 / 10 ^ 6 \<le> vec_norm v" "vec_norm v < 2 * pi"
  shows "quaternion_to_axis_angle (axis_angle_to_quaternion v) = v"
proof -
  define a where "a = vec_norm v"
  have pos: "0 < a" using assms(1) unfolding a_def by (rule less_le_trans [rotated]) simp
  have spos: "0 < sin (a / 2)" using pos assms(2) by (intro sin_gt_zero) (simp_all add: a_def)
  have big: "\<not> \<bar>a\<bar> < 1 / 10 ^ 6" using assms(1) pos by (simp add: a_def not_less)
  obtain x y z where v: "v = Vec x y z" by (rule vec3.exhaust)
  let ?k = "sin (a / 2) / a"
  have q: "axis_angle_to_quaternion v = Quat (cos (a / 2)) (?k * x) (?k * y) (?k * z)"
    using big unfolding axis_angle_to_quaternion_def a_def [symmetric] half_sinc_def Let_def by (simp add: v)
  have "vec_norm (Vec (?k * x) (?k * y) (?k * z)) = vec_norm (vec_scale ?k v)" by (simp add: v)
  also have "\<dots> = sin (a / 2)" using pos spos by (simp add: vec_norm_scale a_def [symmetric])
  finally have n: "vec_norm (Vec (?k * x) (?k * y) (?k * z)) = sin (a / 2)" .
  have half: "atan2 (sin (a / 2)) (cos (a / 2)) = a / 2"
    using pos assms(2) by (intro atan2_sin_cos) (simp_all add: a_def)
  have "2 * (a / 2) = a" by simp
  then show ?thesis
    unfolding q quaternion_to_axis_angle.simps n half Let_def using big spos pos by (simp add: v del: vec_norm.simps)
qed

lemma axis_angle_vector_roundtrip_witness: "quaternion_to_axis_angle (axis_angle_to_quaternion (Vec 0 pi 0)) = Vec 0 pi 0"
proof -
  have "1 / 10 ^ 6 \<le> pi" by (rule order_trans [OF _ pi_ge_two]) simp
  then show ?thesis by (intro axis_angle_vector_roundtrip) simp_all
qed

lemma vec_unit_scale: "vec_dot v v = 1 \<Longrightarrow> f_normalize v = v"
  by (simp add: f_normalize_def vec_norm_eq)

text \<open>The six numbers kept of a rotation matrix determine it, and any two vectors that are far enough from
  being parallel give a rotation matrix whose first row points along the first.\<close>
theorem six_numbers_suffice:
  "rotation_matrix m \<Longrightarrow> case matrix_to_rotation_6d m of (r, s) \<Rightarrow> rotation_6d_to_matrix r s = m"
proof (cases m)
  case (Mat r s t)
  assume "rotation_matrix m"
  then have e: "vec_dot r r = 1" "vec_dot s s = 1" "vec_dot r s = 0" "t = vec_cross r s" by (simp_all add: Mat)
  moreover have "vec_sub s (vec_scale 0 r) = s" by (cases s; cases r) simp
  ultimately show ?thesis by (simp add: Mat rotation_6d_to_matrix_def vec_unit_scale Let_def)
qed

lemma f_normalize_unit:
  assumes "1 / 10 ^ 12 \<le> vec_norm v"
  shows "vec_dot (f_normalize v) (f_normalize v) = 1" "\<exists>k > 0. f_normalize v = vec_scale k v"
proof -
  have pos: "0 < vec_norm v" by (rule less_le_trans [OF _ assms]) simp
  have "vec_dot v v = vec_norm v * vec_norm v" by (simp add: vec_norm_eq)
  then show "vec_dot (f_normalize v) (f_normalize v) = 1"
    using pos assms by (simp add: f_normalize_def max_absorb1)
  show "\<exists>k > 0. f_normalize v = vec_scale k v"
    using pos assms by (intro exI [of _ "1 / vec_norm v"]) (simp add: f_normalize_def max_absorb1)
qed

text \<open>Any two vectors that are far enough from being parallel give a rotation matrix.\<close>
theorem six_numbers_rotate:
  assumes "1 / 10 ^ 12 \<le> vec_norm u"
    and "1 / 10 ^ 12 \<le> vec_norm (vec_sub v (vec_scale (vec_dot (f_normalize u) v) (f_normalize u)))"
  shows "rotation_matrix (rotation_6d_to_matrix u v)"
proof -
  let ?b = "f_normalize u" let ?w = "vec_sub v (vec_scale (vec_dot ?b v) ?b)"
  obtain k where k: "f_normalize ?w = vec_scale k ?w" using f_normalize_unit(2) [OF assms(2)] by blast
  have sub: "vec_dot p (vec_sub q (vec_scale c p')) = vec_dot p q - c * vec_dot p p'" for p q p' and c :: real
    by (cases p; cases q; cases p') (simp add: algebra_simps)
  have "vec_dot ?b (f_normalize ?w) = 0" unfolding k by (simp add: sub f_normalize_unit(1) [OF assms(1)])
  then show ?thesis
    using f_normalize_unit(1) [OF assms(1)] f_normalize_unit(1) [OF assms(2)] by (simp add: rotation_6d_to_matrix_def Let_def)
qed

end
