(* ===== verification/Kinematics.thy ===== *)
theory Kinematics
  imports Rotations
begin

text \<open>
  \<open>rlightning/humanoid/utils/kinematics_model/kinematics_model.py\<close>: the bodies and joints of a robot read from the
  tree of an XML file, the degrees of freedom of its joints, and forward kinematics. The tree is given with
  its attributes parsed, a missing attribute as \<open>None\<close>.
\<close>

subsection \<open>The tree\<close>

record xml_joint =
  xj_name :: string
  xj_axis :: "real vec3 option"
  xj_range :: "(real \<times> real) option"

record body_attrs =
  ba_name :: string
  ba_pos :: "real vec3 option"
  ba_quat :: "real quat option"
  ba_joints :: "xml_joint list"

datatype xml_body = Body body_attrs "xml_body list"

subsection \<open>The model\<close>

record joint =
  joint_name :: string
  dof_dim :: nat
  joint_axis :: "real vec3 option"
  dof_idx :: int

record kin_model =
  body_names :: "string list"
  dof_names :: "string list"
  parent_indices :: "int list"
  local_translation :: "real vec3 list"
  local_rotation :: "real quat list"
  joints :: "joint list"
  dof_size :: "nat list"
  dof_lower :: "real list"
  dof_upper :: "real list"

definition empty_kin :: kin_model where
  "empty_kin = \<lparr>body_names = [], dof_names = [], parent_indices = [], local_translation = [], local_rotation = [],
     joints = [], dof_size = [], dof_lower = [], dof_upper = []\<rparr>"

definition num_dof :: "kin_model \<Rightarrow> nat" where
  "num_dof k = sum_list (dof_size k)"

definition num_joint :: "kin_model \<Rightarrow> nat" where
  "num_joint k = length (joints k)"

definition new_joint :: "string \<Rightarrow> nat \<Rightarrow> real vec3 option \<Rightarrow> joint" where
  "new_joint name n axis = \<lparr>joint_name = name, dof_dim = n, joint_axis = axis, dof_idx = - 1\<rparr>"

text \<open>The range of a joint, whose parsing raises when it is missing.\<close>

definition joint_range :: "xml_joint \<Rightarrow> (real \<times> real) result" where
  "joint_range xj = of_option TypeError (xj_range xj)"

text \<open>The joint of a body: none for the root, else by the number of its XML joints, with the degrees of freedom
  it adds.\<close>

definition body_joint :: "nat \<Rightarrow> body_attrs \<Rightarrow> (joint \<times> (string \<times> real \<times> real) list) result" where
  "body_joint body_index ats =
     (if body_index = 0 then Inr (new_joint (ba_name ats) 0 None, [])
      else (case ba_joints ats of
        [] \<Rightarrow> Inr (new_joint (ba_name ats) 0 None, [])
      | [xj] \<Rightarrow>
          bind_result (of_option TypeError (xj_axis xj)) (\<lambda>axis.
          bind_result (joint_range xj) (\<lambda>lim.
          Inr (new_joint (ba_name ats) 1 (Some axis), [(xj_name xj, lim)])))
      | xjs \<Rightarrow>
          if length xjs = 3
          then bind_result (mapM joint_range xjs) (\<lambda>lims.
               Inr (new_joint (ba_name ats) 3 None, zip (map xj_name xjs) lims))
          else Inl ValueError))"

text \<open>\<open>quat\<close> is kept in the file with the real part first.\<close>

definition add_one_body :: "body_attrs \<Rightarrow> int \<Rightarrow> joint \<Rightarrow> (string \<times> real \<times> real) list \<Rightarrow> kin_model \<Rightarrow> kin_model" where
  "add_one_body ats parent_index j dofs k =
     k\<lparr>dof_lower := dof_lower k @ map (fst \<circ> snd) dofs,
       dof_upper := dof_upper k @ map (snd \<circ> snd) dofs,
       dof_names := dof_names k @ map fst dofs,
       body_names := body_names k @ [ba_name ats],
       parent_indices := parent_indices k @ [parent_index],
       local_rotation := local_rotation k @ [wxyz_to_xyzw (case ba_quat ats of None \<Rightarrow> Quat 1 0 0 0 | Some q \<Rightarrow> q)],
       local_translation := local_translation k @ [case ba_pos ats of None \<Rightarrow> Vec 0 0 0 | Some p \<Rightarrow> p],
       joints := joints k @ [j],
       dof_size := dof_size k @ [dof_dim j]\<rparr>"

fun add_xml_body :: "xml_body \<Rightarrow> int \<Rightarrow> nat \<Rightarrow> kin_model \<Rightarrow> (nat \<times> kin_model) result"
  and add_xml_bodies :: "xml_body list \<Rightarrow> int \<Rightarrow> nat \<Rightarrow> kin_model \<Rightarrow> (nat \<times> kin_model) result" where
  "add_xml_body (Body ats children) parent_index body_index k =
     bind_result (body_joint body_index ats) (\<lambda>(j, dofs).
       add_xml_bodies children (int body_index) (body_index + 1) (add_one_body ats parent_index j dofs k))"
| "add_xml_bodies [] parent_index body_index k = Inr (body_index, k)"
| "add_xml_bodies (c # cs) parent_index body_index k =
     bind_result (add_xml_body c parent_index body_index k) (\<lambda>(body_index, k). add_xml_bodies cs parent_index body_index k)"

fun set_indices :: "int \<Rightarrow> joint list \<Rightarrow> joint list" where
  "set_indices cur [] = []"
| "set_indices cur (j # js) =
     (if 0 < dof_dim j then j\<lparr>dof_idx := cur\<rparr> # set_indices (cur + int (dof_dim j)) js else j # set_indices cur js)"

text \<open>The constructor; \<open>degrees\<close> when the compiler entry does not name radians.\<close>

definition build_kinematics_model :: "bool \<Rightarrow> xml_body \<Rightarrow> kin_model result" where
  "build_kinematics_model degrees tree =
     bind_result (add_xml_body tree (- 1) 0 empty_kin) (\<lambda>(n, k).
     let rad = (\<lambda>x. if degrees then x * pi / 180 else x)
     in Inr (k\<lparr>dof_lower := map rad (dof_lower k), dof_upper := map rad (dof_upper k), joints := set_indices 0 (joints k)\<rparr>))"

subsection \<open>Degrees of freedom and rotations\<close>

text \<open>The dimensions are 0, 1 and 3 and fit the given numbers.\<close>

fun joint_dof_to_rot :: "joint \<Rightarrow> real list \<Rightarrow> real quat" where
  "joint_dof_to_rot j dof =
     (if dof_dim j = 0 then Quat 0 0 0 1
      else if dof_dim j = 1
      then (case (joint_axis j, dof) of (Some axis, [d]) \<Rightarrow> axis_angle_to_quat axis d | _ \<Rightarrow> Quat 0 0 0 0)
      else (case dof of [a, b, c] \<Rightarrow> exp_map_to_quat (Vec a b c) | _ \<Rightarrow> Quat 0 0 0 0))"

fun joint_rot_to_dof :: "joint \<Rightarrow> real quat \<Rightarrow> real list" where
  "joint_rot_to_dof j rot =
     (if dof_dim j = 1
      then (case (joint_axis j, quat_to_axis_angle rot) of
              (Some own, (axis, angle)) \<Rightarrow> [if vec_dot axis own < 0 then - angle else angle] | _ \<Rightarrow> [])
      else if dof_dim j = 3 then (case quat_to_exp_map rot of Vec a b c \<Rightarrow> [a, b, c])
      else replicate (dof_dim j) 0)"

definition dof_segment :: "int \<Rightarrow> nat \<Rightarrow> 'a list \<Rightarrow> 'a list" where
  "dof_segment i n xs = take n (drop (nat i) xs)"

definition dof_to_rot :: "kin_model \<Rightarrow> real list \<Rightarrow> real quat list" where
  "dof_to_rot k dof =
     map (\<lambda>j. if dof_idx j = - 1 then Quat 0 0 0 1 else joint_dof_to_rot j (dof_segment (dof_idx j) (dof_dim j) dof)) (tl (joints k))"

definition put_slice :: "int \<Rightarrow> 'a list \<Rightarrow> 'a list \<Rightarrow> 'a list" where
  "put_slice i ys xs = take (nat i) xs @ ys @ drop (nat i + length ys) xs"

definition rot_to_dof :: "kin_model \<Rightarrow> real quat list \<Rightarrow> real list" where
  "rot_to_dof k rots =
     (let dof = fold (\<lambda>(j, r) dof. if dof_dim j = 0 then dof else put_slice (dof_idx j) (joint_rot_to_dof j r) dof)
                  (zip (tl (joints k)) rots) (replicate (num_dof k) 0)
      in map2 (\<lambda>x (lo, hi). clip lo hi x) dof (zip (dof_lower k) (dof_upper k)))"

subsection \<open>Forward kinematics\<close>

definition convert_local_rot_to_global :: "kin_model \<Rightarrow> real quat list \<Rightarrow> real quat list" where
  "convert_local_rot_to_global k local_rot =
     fold (\<lambda>j glob. glob @ [quat_mul (glob ! nat (parent_indices k ! j)) (local_rot ! j)]) [1..<num_joint k] [local_rot ! 0]"

fun vec_times :: "real vec3 \<Rightarrow> real vec3 \<Rightarrow> real vec3" where
  "vec_times (Vec a b c) (Vec x y z) = Vec (a * x) (b * y) (c * z)"

definition local_trans :: "kin_model \<Rightarrow> real vec3 list option \<Rightarrow> nat \<Rightarrow> real vec3" where
  "local_trans k shape j =
     (case shape of None \<Rightarrow> local_translation k ! j | Some fs \<Rightarrow> vec_times (local_translation k ! j) (fs ! j))"

definition place_body ::
    "kin_model \<Rightarrow> real quat list \<Rightarrow> real vec3 list option \<Rightarrow> nat \<Rightarrow> (real vec3 \<times> real quat) list \<Rightarrow> (real vec3 \<times> real quat) list" where
  "place_body k joint_rot shape j bodies =
     (case bodies ! nat (parent_indices k ! j) of (parent_pos, parent_rot) \<Rightarrow>
        let world_trans = quat_rotate parent_rot (local_trans k shape j);
            curr_rot = quat_mul (local_rotation k ! j) (joint_rot ! (j - 1))
        in bodies @ [(vec_add parent_pos world_trans, quat_mul parent_rot curr_rot)])"

definition forward_kinematics ::
    "kin_model \<Rightarrow> real vec3 \<Rightarrow> real quat \<Rightarrow> real list \<Rightarrow> real vec3 list option \<Rightarrow> (real vec3 \<times> real quat) list" where
  "forward_kinematics k root_pos root_rot dof_pos shape =
     fold (place_body k (dof_to_rot k dof_pos) shape) [1..<num_joint k] [(root_pos, root_rot)]"

end
