(* ===== verification/Kinematics_Correct.thy ===== *)
theory Kinematics_Correct
  imports Kinematics
begin

text \<open>
  What the kinematics model guarantees: the tables read from a tree fit together, the slices of the joints
  partition the degrees of freedom, forward kinematics keeps the lengths of the links and moves rigidly with the
  root, and the angles of joints are read back.
\<close>

subsection \<open>Well-formed models\<close>

definition kin_wf :: "kin_model \<Rightarrow> bool" where
  "kin_wf k \<longleftrightarrow> length (parent_indices k) = num_joint k \<and> length (local_translation k) = num_joint k
     \<and> length (local_rotation k) = num_joint k \<and> length (body_names k) = num_joint k
     \<and> map dof_dim (joints k) = dof_size k
     \<and> (\<forall>i < num_joint k. if i = 0 then parent_indices k ! i = - 1 \<and> dof_dim (joints k ! i) = 0
          else 0 \<le> parent_indices k ! i \<and> parent_indices k ! i < int i)
     \<and> (\<forall>j \<in> set (joints k). dof_dim j \<in> {0, 1, 3} \<and> (dof_dim j = 1 \<longrightarrow> joint_axis j \<noteq> None)
          \<and> (dof_dim j = 0 \<longrightarrow> dof_idx j = - 1))
     \<and> length (dof_names k) = num_dof k \<and> length (dof_lower k) = num_dof k \<and> length (dof_upper k) = num_dof k"

lemma body_joint_ok:
  assumes "body_joint i ats = Inr (j, dofs)"
  shows "length dofs = dof_dim j \<and> dof_dim j \<in> {0, 1, 3} \<and> (dof_dim j = 1 \<longrightarrow> joint_axis j \<noteq> None)
     \<and> (i = 0 \<longrightarrow> dof_dim j = 0) \<and> dof_idx j = - 1"
  using assms
  by (auto simp: body_joint_def new_joint_def bind_result_eq_Inr split: list.splits if_splits simp: mapM_eq_Inr dest!: list_all2_lengthD)

lemma add_one_body_wf:
  assumes "kin_wf k" "body_joint (num_joint k) ats = Inr (j, dofs)"
    and "if num_joint k = 0 then parent = - 1 else 0 \<le> parent \<and> parent < int (num_joint k)"
  shows "kin_wf (add_one_body ats parent j dofs k)"
  using assms(1,3) body_joint_ok [OF assms(2)]
  by (auto simp: kin_wf_def add_one_body_def num_joint_def num_dof_def nth_append less_Suc_eq)

lemma num_joint_add [simp]: "num_joint (add_one_body ats parent j dofs k) = Suc (num_joint k)"
  by (simp add: num_joint_def add_one_body_def)

lemma add_xml_wf:
  shows "add_xml_body b parent i k = Inr (i', k') \<Longrightarrow> kin_wf k \<Longrightarrow> i = num_joint k
      \<Longrightarrow> (if i = 0 then parent = - 1 else 0 \<le> parent \<and> parent < int i) \<Longrightarrow> kin_wf k' \<and> i' = num_joint k' \<and> i < i'"
    and "add_xml_bodies bs parent i k = Inr (i', k') \<Longrightarrow> kin_wf k \<Longrightarrow> i = num_joint k
      \<Longrightarrow> 0 \<le> parent \<Longrightarrow> parent < int i \<Longrightarrow> kin_wf k' \<and> i' = num_joint k' \<and> i \<le> i'"
proof (induction b parent i k and bs parent i k arbitrary: i' k' and i' k' rule: add_xml_body_add_xml_bodies.induct)
  case (1 ats children parent i k)
  from 1(2) obtain j dofs where j: "body_joint i ats = Inr (j, dofs)"
    and rest: "add_xml_bodies children (int i) (i + 1) (add_one_body ats parent j dofs k) = Inr (i', k')"
    by (auto simp: bind_result_eq_Inr)
  have "kin_wf (add_one_body ats parent j dofs k)" using add_one_body_wf [of k ats j dofs parent] 1(3,5) j unfolding 1(4) by blast
  then have "kin_wf k' \<and> i' = num_joint k' \<and> i + 1 \<le> i'"
    by (rule 1(1) [OF j refl rest]) (use 1(4) in simp_all)
  then show ?case by simp
next
  case (3 c cs parent i k)
  from 3(3) obtain i1 k1 where c: "add_xml_body c parent i k = Inr (i1, k1)" and rest: "add_xml_bodies cs parent i1 k1 = Inr (i', k')"
    by (auto simp: bind_result_eq_Inr)
  have one: "kin_wf k1 \<and> i1 = num_joint k1 \<and> i < i1" by (rule 3(1) [OF c]) (use 3(4-) in simp_all)
  then have "kin_wf k' \<and> i' = num_joint k' \<and> i1 \<le> i'"
    by (intro 3(2) [OF c refl rest]) (use 3(4-) in simp_all)
  then show ?case using one by simp
qed auto

lemma length_set_indices [simp]: "length (set_indices c js) = length js"
  by (induction c js rule: set_indices.induct) simp_all

lemma set_indices_joints: "list_all2 (\<lambda>i j. dof_dim i = dof_dim j \<and> joint_axis i = joint_axis j
      \<and> (dof_dim j = 0 \<longrightarrow> dof_idx i = dof_idx j) \<and> (0 < dof_dim j \<longrightarrow> c \<le> dof_idx i)) (set_indices c js) js"
proof (induction c js rule: set_indices.induct)
  case (2 c j js)
  then show ?case by (auto elim!: list_all2_mono)
qed simp

definition dof_slice :: "joint \<Rightarrow> nat list" where
  "dof_slice j = (if dof_dim j = 0 then [] else [nat (dof_idx j)..<nat (dof_idx j) + dof_dim j])"

lemma dof_slice_simps [simp]:
  "dof_dim j = 0 \<Longrightarrow> dof_slice j = []" "0 < dof_dim j \<Longrightarrow> dof_slice (j\<lparr>dof_idx := int n\<rparr>) = [n..<n + dof_dim j]"
  by (simp_all add: dof_slice_def)

lemma concat_spans: "concat (map dof_slice (set_indices (int n) js)) = [n..<n + sum_list (map dof_dim js)]"
proof (induction js arbitrary: n)
  case (Cons j js)
  have "set_indices (int n + int (dof_dim j)) js = set_indices (int (n + dof_dim j)) js" by simp
  then have "concat (map dof_slice (set_indices (int n) (j # js)))
      = [n..<n + dof_dim j] @ [n + dof_dim j..<n + dof_dim j + sum_list (map dof_dim js)]"
    using Cons.IH [of n] Cons.IH [of "n + dof_dim j"] by (cases "dof_dim j = 0") (auto simp: span_def simp del: of_nat_add)
  also have "\<dots> = [n..<n + (dof_dim j + sum_list (map dof_dim js))]"
    by (simp add: upt_add_eq_append [symmetric] add.assoc [symmetric])
  finally show ?case by simp
qed simp

fun preorder :: "xml_body \<Rightarrow> string list" where
  "preorder (Body ats children) = ba_name ats # concat (map preorder children)"

lemma add_xml_names:
  shows "add_xml_body b parent i k = Inr (i', k') \<Longrightarrow> body_names k' = body_names k @ preorder b"
    and "add_xml_bodies bs parent i k = Inr (i', k') \<Longrightarrow> body_names k' = body_names k @ concat (map preorder bs)"
proof (induction b parent i k and bs parent i k arbitrary: i' k' and i' k' rule: add_xml_body_add_xml_bodies.induct)
  case (1 ats children parent i k)
  from 1(2) obtain j dofs where j: "body_joint i ats = Inr (j, dofs)"
    and rest: "add_xml_bodies children (int i) (i + 1) (add_one_body ats parent j dofs k) = Inr (i', k')"
    by (auto simp: bind_result_eq_Inr)
  show ?case using 1(1) [OF j refl rest] by (simp add: add_one_body_def)
next
  case (3 c cs parent i k)
  from 3(3) obtain i1 k1 where c: "add_xml_body c parent i k = Inr (i1, k1)" and rest: "add_xml_bodies cs parent i1 k1 = Inr (i', k')"
    by (auto simp: bind_result_eq_Inr)
  show ?case using 3(1) [OF c] 3(2) [OF c refl rest] by simp
qed auto

definition slices_fit :: "kin_model \<Rightarrow> bool" where
  "slices_fit k \<longleftrightarrow> concat (map dof_slice (joints k)) = [0..<num_dof k] \<and> (\<forall>j \<in> set (joints k). 0 < dof_dim j \<longrightarrow> 0 \<le> dof_idx j)"

lemma kin_wf_built:
  assumes "build_kinematics_model degrees tree = Inr k"
  shows "kin_wf k \<and> body_names k = preorder tree \<and> slices_fit k"
proof -
  from assms obtain n k0 where k0: "add_xml_body tree (- 1) 0 empty_kin = Inr (n, k0)"
    and k: "k = k0\<lparr>dof_lower := map (\<lambda>x. if degrees then x * pi / 180 else x) (dof_lower k0),
        dof_upper := map (\<lambda>x. if degrees then x * pi / 180 else x) (dof_upper k0), joints := set_indices 0 (joints k0)\<rparr>"
    by (auto simp: build_kinematics_model_def bind_result_eq_Inr Let_def)
  have "kin_wf empty_kin" "num_joint empty_kin = 0" by (simp_all add: kin_wf_def empty_kin_def num_joint_def num_dof_def)
  then have wf: "kin_wf k0" using add_xml_wf(1) [OF k0] by simp
  note js = set_indices_joints [of 0 "joints k0"]
  have dims: "map dof_dim (set_indices 0 (joints k0)) = map dof_dim (joints k0)"
    using js by (auto simp: list_all2_conv_all_nth intro: nth_equalityI)
  have "concat (map dof_slice (joints k)) = [0..<num_dof k]"
    using concat_spans [of 0 "joints k0"] wf by (simp add: k num_dof_def kin_wf_def)
  then have "slices_fit k" using js by (auto simp: slices_fit_def k list_all2_conv_all_nth in_set_conv_nth)
  moreover have "kin_wf k"
    using wf js dims unfolding kin_wf_def by (auto simp: k num_joint_def num_dof_def list_all2_conv_all_nth set_conv_nth)
  moreover have "body_names k = preorder tree" using add_xml_names(1) [OF k0] by (simp add: k empty_kin_def)
  ultimately show ?thesis by blast
qed

text \<open>C28: the tables of a model that is built fit together: there is an entry for every body in the order of the
  file, the root comes first and every other body after its parent, the slices of the joints are, one after the
  other, exactly the degrees of freedom, and each of these has a name and limits.\<close>
theorem built_model_fits:
  assumes "build_kinematics_model degrees tree = Inr k"
  shows "kin_wf k \<and> body_names k = preorder tree \<and> slices_fit k"
  using assms by (rule kin_wf_built)

definition pole_and_arm :: xml_body where
  "pole_and_arm = Body \<lparr>ba_name = ''pole'', ba_pos = None, ba_quat = None, ba_joints = []\<rparr>
     [Body \<lparr>ba_name = ''arm'', ba_pos = Some (Vec 0 0 2), ba_quat = None,
        ba_joints = [\<lparr>xj_name = ''hinge'', xj_axis = Some (Vec 0 1 0), xj_range = Some (- 2, 2)\<rparr>]\<rparr>
        [Body \<lparr>ba_name = ''hand'', ba_pos = Some (Vec 1 0 0), ba_quat = None, ba_joints = []\<rparr> []]]"

lemma pole_and_arm_built:
  "\<exists>k. build_kinematics_model False pole_and_arm = Inr k \<and> joints k = [new_joint ''pole'' 0 None,
      (new_joint ''arm'' 1 (Some (Vec 0 1 0)))\<lparr>dof_idx := 0\<rparr>, new_joint ''hand'' 0 None]
    \<and> local_translation k = [Vec 0 0 0, Vec 0 0 2, Vec 1 0 0] \<and> dof_size k = [0, 1, 0]
    \<and> local_rotation k = [Quat 0 0 0 1, Quat 0 0 0 1, Quat 0 0 0 1] \<and> dof_lower k = [- 2] \<and> dof_upper k = [2] \<and> parent_indices k = [- 1, 0, 1]"
  by (simp add: pole_and_arm_def build_kinematics_model_def body_joint_def joint_range_def add_one_body_def new_joint_def
      empty_kin_def Let_def)

lemma built_model_fits_witness:
  "\<exists>k. build_kinematics_model False pole_and_arm = Inr k \<and> kin_wf k \<and> body_names k = [''pole'', ''arm'', ''hand'']"
proof -
  obtain k where k: "build_kinematics_model False pole_and_arm = Inr k" using pole_and_arm_built by blast
  from k built_model_fits [OF k] show ?thesis by (auto simp: pole_and_arm_def)
qed

subsection \<open>Tables that are filled from the parents\<close>

lemma fold_parents:
  assumes "\<And>j. 0 < j \<Longrightarrow> j < n \<Longrightarrow> par j < j" "0 < n"
    and "\<And>j bs. 0 < j \<Longrightarrow> j < n \<Longrightarrow> fill j bs = bs @ [f j (bs ! par j)]"
  shows "length (fold fill [1..<n] [a]) = n \<and> fold fill [1..<n] [a] ! 0 = a
     \<and> (\<forall>j. 0 < j \<longrightarrow> j < n \<longrightarrow> fold fill [1..<n] [a] ! j = f j (fold fill [1..<n] [a] ! par j))"
  using assms
proof (induction n)
  case (Suc n)
  show ?case
  proof (cases "n = 0")
    case False
    let ?bs = "fold fill [1..<n] [a]"
    have ih: "length ?bs = n \<and> ?bs ! 0 = a \<and> (\<forall>j. 0 < j \<longrightarrow> j < n \<longrightarrow> ?bs ! j = f j (?bs ! par j))"
      using Suc False by simp
    have "[1..<Suc n] = [1..<n] @ [n]" using False by simp
    then have b: "fold fill [1..<Suc n] [a] = ?bs @ [f n (?bs ! par n)]" using Suc.prems(3) [of n] False by simp
    have par: "par j < n" if "0 < j" "j < Suc n" for j using Suc.prems(1) [OF that] that by simp
    show ?thesis unfolding b using ih False par
      by (auto simp: nth_append less_Suc_eq dest: par)
  qed simp
qed simp

lemma nth_parents_unique:
  assumes "\<And>j. 0 < j \<Longrightarrow> j < n \<Longrightarrow> par j < j" "length xs = n" "length ys = n" "0 < n \<Longrightarrow> P (xs ! 0) (ys ! 0)"
    and "\<And>j. 0 < j \<Longrightarrow> j < n \<Longrightarrow> P (xs ! par j) (ys ! par j) \<Longrightarrow> P (xs ! j) (ys ! j)"
  shows "list_all2 P xs ys"
proof (rule list_all2_all_nthI)
  fix j assume "j < length xs"
  then show "P (xs ! j) (ys ! j)"
  proof (induction j rule: less_induct)
    case (less j)
    show ?case
    proof (cases "j = 0")
      case True then show ?thesis using assms(2,4) less.prems by simp
    next
      case False
      then have "par j < j" using assms(1,2) less.prems by simp
      then show ?thesis using False less assms(2,5) by simp
    qed
  qed
qed (simp add: assms(2,3))

subsection \<open>Forward kinematics\<close>

abbreviation parent_of :: "kin_model \<Rightarrow> nat \<Rightarrow> nat" where
  "parent_of k j \<equiv> nat (parent_indices k ! j)"

lemma parent_of_less: "kin_wf k \<Longrightarrow> 0 < j \<Longrightarrow> j < num_joint k \<Longrightarrow> parent_of k j < j"
  by (fastforce simp: kin_wf_def)

lemma forward_kinematics_rec:
  fixes root_pos root_rot dof shape
  assumes "kin_wf k" "0 < num_joint k"
  defines "bs \<equiv> forward_kinematics k root_pos root_rot dof shape"
  shows "length bs = num_joint k" "bs ! 0 = (root_pos, root_rot)"
    "0 < j \<Longrightarrow> j < num_joint k \<Longrightarrow> bs ! j
       = (vec_add (fst (bs ! parent_of k j)) (quat_rotate (snd (bs ! parent_of k j)) (local_trans k shape j)),
          quat_mul (snd (bs ! parent_of k j)) (quat_mul (local_rotation k ! j) (dof_to_rot k dof ! (j - 1))))"
  using fold_parents [where n = "num_joint k" and par = "parent_of k" and fill = "place_body k (dof_to_rot k dof) shape"
      and f = "\<lambda>j b. (vec_add (fst b) (quat_rotate (snd b) (local_trans k shape j)),
          quat_mul (snd b) (quat_mul (local_rotation k ! j) (dof_to_rot k dof ! (j - 1))))" and a = "(root_pos, root_rot)"]
    parent_of_less [OF assms(1)] assms(2)
  by (simp_all add: bs_def forward_kinematics_def place_body_def case_prod_beta Let_def)

lemma convert_rec:
  fixes local_rot
  assumes "kin_wf k" "0 < num_joint k"
  defines "gs \<equiv> convert_local_rot_to_global k local_rot"
  shows "length gs = num_joint k" "gs ! 0 = local_rot ! 0"
    "0 < j \<Longrightarrow> j < num_joint k \<Longrightarrow> gs ! j = quat_mul (gs ! parent_of k j) (local_rot ! j)"
  using fold_parents [where n = "num_joint k" and par = "parent_of k" and a = "local_rot ! 0"
      and fill = "\<lambda>j glob. glob @ [quat_mul (glob ! nat (parent_indices k ! j)) (local_rot ! j)]"
      and f = "\<lambda>j b. quat_mul b (local_rot ! j)"]
    parent_of_less [OF assms(1)] assms(2)
  by (simp_all add: gs_def convert_local_rot_to_global_def)

definition unit_model :: "kin_model \<Rightarrow> real list \<Rightarrow> bool" where
  "unit_model k dof \<longleftrightarrow> kin_wf k \<and> 0 < num_joint k \<and> list_all unit_quat (local_rotation k) \<and> list_all unit_quat (dof_to_rot k dof)"

lemma unit_model_joint:
  assumes "unit_model k dof" "0 < j" "j < num_joint k"
  shows "unit_quat (quat_mul (local_rotation k ! j) (dof_to_rot k dof ! (j - 1)))"
  using assms by (intro unit_quat_mul) (auto simp: unit_model_def list_all_length kin_wf_def num_joint_def dof_to_rot_def)

lemma forward_rotations_unit:
  assumes "unit_model k dof" "unit_quat root_rot" "j < num_joint k"
  shows "unit_quat (snd (forward_kinematics k root_pos root_rot dof shape ! j))"
proof -
  let ?bs = "forward_kinematics k root_pos root_rot dof shape"
  have wf: "kin_wf k" "0 < num_joint k" using assms(1) by (simp_all add: unit_model_def)
  note rec = forward_kinematics_rec [OF wf, where root_pos = root_pos and root_rot = root_rot and dof = dof and shape = shape]
  have "list_all2 (\<lambda>b _. unit_quat (snd b)) ?bs ?bs"
    by (rule nth_parents_unique [OF parent_of_less [OF wf(1)] rec(1) rec(1)])
      (simp_all add: rec(2,3) assms(2) unit_quat_mul unit_model_joint [OF assms(1), unfolded One_nat_def])
  then show ?thesis using assms(3) rec(1) by (simp add: list_all2_conv_all_nth)
qed

lemma vec_sub_add [simp]: "vec_sub (vec_add u v) u = v" for u :: "real vec3"
  by (cases u; cases v) simp

lemma quat_rotate_norm: "unit_quat q \<Longrightarrow> vec_norm (quat_rotate q v) = vec_norm v"
  by (simp add: vec_norm_eq quat_rotate_dot)

text \<open>Forward kinematics keeps the robot's build: all rotations are unit, and every body is as far from its
  parent as the file, scaled by the fitted shape, says, whatever the angles of the joints are.\<close>
theorem links_keep_length:
  fixes root_pos shape
  assumes "unit_model k dof" "unit_quat root_rot" "0 < j" "j < num_joint k"
  defines "bs \<equiv> forward_kinematics k root_pos root_rot dof shape"
  shows "unit_quat (snd (bs ! j))
     \<and> vec_norm (vec_sub (fst (bs ! j)) (fst (bs ! nat (parent_indices k ! j)))) = vec_norm (local_trans k shape j)"
proof -
  have wf: "kin_wf k" "0 < num_joint k" using assms(1) by (simp_all add: unit_model_def)
  have "parent_of k j < num_joint k" using parent_of_less [OF wf(1) assms(3,4)] assms(4) by simp
  then have "unit_quat (snd (bs ! parent_of k j))" unfolding bs_def by (rule forward_rotations_unit [OF assms(1,2)])
  moreover have "unit_quat (snd (bs ! j))" unfolding bs_def by (rule forward_rotations_unit [OF assms(1,2,4)])
  moreover have "fst (bs ! j) = vec_add (fst (bs ! parent_of k j)) (quat_rotate (snd (bs ! parent_of k j)) (local_trans k shape j))"
    unfolding bs_def by (subst forward_kinematics_rec(3) [OF wf assms(3,4)]) simp
  ultimately show ?thesis by (simp add: quat_rotate_norm)
qed

text \<open>Forward kinematics moves rigidly with the root: every body is where the root's position and rotation take
  the place it has with the root at the origin.\<close>
theorem moves_with_root:
  assumes "unit_model k dof" "unit_quat root_rot"
  shows "forward_kinematics k root_pos root_rot dof shape
       = map (\<lambda>(p, q). (vec_add root_pos (quat_rotate root_rot p), quat_mul root_rot q))
           (forward_kinematics k (Vec 0 0 0) quat_one dof shape)"
proof -
  let ?bs = "forward_kinematics k root_pos root_rot dof shape" and ?cs = "forward_kinematics k (Vec 0 0 0) quat_one dof shape"
  have wf: "kin_wf k" "0 < num_joint k" using assms(1) by (simp_all add: unit_model_def)
  note rec = forward_kinematics_rec [OF wf]
  have unit: "unit_quat (snd (?cs ! j))" if "j < num_joint k" for j
    by (rule forward_rotations_unit [OF assms(1) _ that]) simp
  have "list_all2 (\<lambda>b c. b = (vec_add root_pos (quat_rotate root_rot (fst c)), quat_mul root_rot (snd c))) ?bs ?cs"
  proof (rule nth_parents_unique [OF parent_of_less [OF wf(1)] rec(1) rec(1)])
    show "?bs ! 0 = (vec_add root_pos (quat_rotate root_rot (fst (?cs ! 0))), quat_mul root_rot (snd (?cs ! 0)))"
      by (cases root_pos; cases root_rot) (simp add: rec(2))
  next
    fix j assume j: "0 < j" "j < num_joint k"
      and ih: "?bs ! parent_of k j = (vec_add root_pos (quat_rotate root_rot (fst (?cs ! parent_of k j))),
          quat_mul root_rot (snd (?cs ! parent_of k j)))"
    have "parent_of k j < num_joint k" using parent_of_less [OF wf(1) j] j by simp
    note rot = quat_rotate_mul [OF assms(2) unit [OF this]]
    have assoc: "vec_add (vec_add u v) w = vec_add u (vec_add v w)" for u v w :: "real vec3"
      by (cases u; cases v; cases w) simp
    show "?bs ! j = (vec_add root_pos (quat_rotate root_rot (fst (?cs ! j))), quat_mul root_rot (snd (?cs ! j)))"
      unfolding rec(3) [OF j] ih by (simp add: rot assoc quat_rotate_add quat_mul_assoc)
  qed (simp_all add: wf)
  then show ?thesis by (auto simp: list_all2_conv_all_nth case_prod_beta intro: nth_equalityI)
qed

lemma pole_and_arm_unit:
  "\<exists>k. build_kinematics_model False pole_and_arm = Inr k \<and> unit_model k [0]
     \<and> map fst (forward_kinematics k (Vec 0 0 0) quat_one [0] None) = [Vec 0 0 0, Vec 0 0 2, Vec 1 0 2]
     \<and> num_joint k = 3 \<and> local_translation k = [Vec 0 0 0, Vec 0 0 2, Vec 1 0 0] \<and> parent_indices k = [- 1, 0, 1]"
proof -
  obtain k where k: "build_kinematics_model False pole_and_arm = Inr k" "joints k = [new_joint ''pole'' 0 None,
      (new_joint ''arm'' 1 (Some (Vec 0 1 0)))\<lparr>dof_idx := 0\<rparr>, new_joint ''hand'' 0 None]"
      "local_translation k = [Vec 0 0 0, Vec 0 0 2, Vec 1 0 0]" "local_rotation k = [Quat 0 0 0 1, Quat 0 0 0 1, Quat 0 0 0 1]"
      "parent_indices k = [- 1, 0, 1]"
    using pole_and_arm_built by blast
  have "axis_angle_to_quat (Vec 0 1 0) 0 = Quat 0 0 0 1"
    by (subst axis_angle_quat(2) [where n = "Vec 0 1 0"]) (simp_all add: normalize_vec_def)
  then have rot: "dof_to_rot k [0] = [Quat 0 0 0 1, Quat 0 0 0 1]" by (simp add: dof_to_rot_def k new_joint_def dof_segment_def)
  have "kin_wf k" using kin_wf_built [OF k(1)] by blast
  then have "unit_model k [0]" by (simp add: unit_model_def k rot num_joint_def unit_quat_def)
  moreover have "map fst (forward_kinematics k (Vec 0 0 0) quat_one [0] None) = [Vec 0 0 0, Vec 0 0 2, Vec 1 0 2]"
    by (simp add: forward_kinematics_def place_body_def num_joint_def k rot local_trans_def upt_rec quat_one_def)
  ultimately show ?thesis using k by (simp add: num_joint_def)
qed

lemma links_keep_length_witness:
  "\<exists>k. build_kinematics_model False pole_and_arm = Inr k
     \<and> (let bs = forward_kinematics k (Vec 3 4 5) (Quat 0 0 1 0) [0] None
        in vec_norm (vec_sub (fst (bs ! 2)) (fst (bs ! 1))) = 1)"
proof -
  obtain k where k: "build_kinematics_model False pole_and_arm = Inr k" "unit_model k [0]" "num_joint k = 3"
      "local_translation k = [Vec 0 0 0, Vec 0 0 2, Vec 1 0 0]" "parent_indices k = [- 1, 0, 1]"
    using pole_and_arm_unit by (elim exE conjE) (rule that; assumption)
  have "unit_quat (Quat 0 0 1 (0 :: real))" by (simp add: unit_quat_def)
  note len = conjunct2 [OF links_keep_length [OF k(2) this, where j = 2 and root_pos = "Vec 3 4 5" and shape = None]]
  have "vec_norm (local_trans k None 2) = 1" "nat (parent_indices k ! 2) = 1" by (simp_all add: local_trans_def k(4,5))
  then show ?thesis using k(1) len [unfolded k(3)] unfolding Let_def by (intro exI [of _ k]) simp
qed

lemma moves_with_root_witness:
  "\<exists>k. build_kinematics_model False pole_and_arm = Inr k
     \<and> map fst (forward_kinematics k (Vec 0 0 5) (Quat 0 0 1 0) [0] None) = [Vec 0 0 5, Vec 0 0 7, Vec (- 1) 0 7]"
proof -
  obtain k where k: "build_kinematics_model False pole_and_arm = Inr k" "unit_model k [0]"
      "map fst (forward_kinematics k (Vec 0 0 0) quat_one [0] None) = [Vec 0 0 0, Vec 0 0 2, Vec 1 0 2]"
    using pole_and_arm_unit by (elim exE conjE) (rule that; assumption)
  then show ?thesis using moves_with_root [of k "[0]" "Quat 0 0 1 0" "Vec 0 0 5" None]
    by (auto simp: unit_quat_def case_prod_beta map_eq_Cons_conv)
qed

text \<open>The global rotations of the bodies are those that the other routine computes from the local ones.\<close>
theorem rotations_of_kinematics:
  assumes "kin_wf k" "0 < num_joint k"
  shows "map snd (forward_kinematics k root_pos root_rot dof shape)
       = convert_local_rot_to_global k (root_rot # map2 quat_mul (tl (local_rotation k)) (dof_to_rot k dof))"
proof -
  let ?bs = "forward_kinematics k root_pos root_rot dof shape"
  let ?ls = "root_rot # map2 quat_mul (tl (local_rotation k)) (dof_to_rot k dof)"
  note rec = forward_kinematics_rec [OF assms, where root_pos = root_pos and root_rot = root_rot and dof = dof and shape = shape]
  note conv = convert_rec [OF assms, where local_rot = ?ls]
  have "?ls ! j = quat_mul (local_rotation k ! j) (dof_to_rot k dof ! (j - 1))" if "0 < j" "j < num_joint k" for j
    using that assms(1) by (cases j) (auto simp: kin_wf_def dof_to_rot_def num_joint_def nth_tl)
  then have "list_all2 (\<lambda>b g. snd b = g) ?bs (convert_local_rot_to_global k ?ls)"
    by (intro nth_parents_unique [OF parent_of_less [OF assms(1)] rec(1) conv(1)]) (simp_all add: rec(2,3) conv(2,3))
  then show ?thesis by (auto simp: list_all2_conv_all_nth intro: nth_equalityI)
qed

lemma rotations_of_kinematics_witness:
  "\<exists>k. build_kinematics_model False pole_and_arm = Inr k \<and> map snd (forward_kinematics k (Vec 1 2 3) (Quat 0 0 1 0) [1] None)
       = convert_local_rot_to_global k (Quat 0 0 1 0 # map2 quat_mul (tl (local_rotation k)) (dof_to_rot k [1]))"
proof -
  obtain k where k: "build_kinematics_model False pole_and_arm = Inr k" "unit_model k [0]"
    using pole_and_arm_unit by (elim exE conjE) (rule that; assumption)
  then have "kin_wf k" "0 < num_joint k" by (simp_all add: unit_model_def)
  from k(1) rotations_of_kinematics [OF this] show ?thesis by (intro exI [of _ k] conjI)
qed

subsection \<open>Reading the degrees of freedom back\<close>

text \<open>A value that a joint can hold: its own number of entries, at most half a turn, and not so small that the
  rotation counts as none, unless it is zero.\<close>

definition readable :: "joint \<Rightarrow> real list \<Rightarrow> bool" where
  "readable j dof \<longleftrightarrow> length dof = dof_dim j
     \<and> (dof_dim j = 1 \<longrightarrow> (\<exists>axis. joint_axis j = Some axis \<and> 1 / 10 ^ 9 \<le> vec_norm axis)
          \<and> \<bar>dof ! 0\<bar> \<le> pi \<and> (dof ! 0 = 0 \<or> 1 / 10 ^ 5 < \<bar>sin (dof ! 0 / 2)\<bar>))
     \<and> (dof_dim j = 3 \<longrightarrow> (let e = vec_norm (Vec (dof ! 0) (dof ! 1) (dof ! 2)) in
            1 / 10 ^ 5 < e \<and> e \<le> pi \<and> 1 / 10 ^ 5 < sin (e / 2)))"

lemma hinge_reads_back:
  assumes "1 / 10 ^ 9 \<le> vec_norm axis" "\<bar>d\<bar> \<le> pi" "d = 0 \<or> 1 / 10 ^ 5 < \<bar>sin (d / 2)\<bar>"
  shows "(case quat_to_axis_angle (axis_angle_to_quat axis d) of (a, angle) \<Rightarrow> if vec_dot a axis < 0 then - angle else angle) = d"
proof -
  have pos: "0 < vec_norm axis" by (rule less_le_trans [OF _ assms(1)]) simp
  have "vec_norm axis * vec_norm axis = vec_dot axis axis" by (simp add: vec_norm_eq)
  moreover have "0 < vec_norm axis * vec_norm axis" using pos by simp
  ultimately have dot: "0 < vec_dot axis axis" by simp
  have n: "normalize_vec axis = vec_scale (1 / vec_norm axis) axis" using assms(1) by (simp add: normalize_vec_def max_absorb1)
  show ?thesis
  proof (cases "d = 0")
    case True
    then show ?thesis using axis_angle_roundtrip [OF assms(1), of 0] by simp
  next
    case False
    then have "1 / 10 ^ 5 < \<bar>sin (d / 2)\<bar>" using assms(3) by simp
    then have "quat_to_axis_angle (axis_angle_to_quat axis d) = (vec_scale (sgn d) (normalize_vec axis), \<bar>d\<bar>)"
      by (subst axis_angle_roundtrip [OF assms(1,2)]) (rule if_P)
    moreover have "vec_dot (vec_scale (sgn d) (normalize_vec axis)) axis < 0 \<longleftrightarrow> d < 0"
      using dot pos False by (auto simp: n sgn_if mult_less_0_iff divide_less_0_iff zero_less_mult_iff)
    ultimately show ?thesis by simp
  qed
qed

lemma joint_reads_back:
  assumes "readable j dof" "dof_dim j \<in> {0, 1, 3}"
  shows "joint_rot_to_dof j (joint_dof_to_rot j dof) = dof"
proof -
  consider "dof_dim j = 0" | "dof_dim j = 1" | "dof_dim j = 3" using assms(2) by auto
  then show ?thesis
  proof cases
    case 1
    then show ?thesis using assms(1) by (simp add: readable_def)
  next
    case 2
    then obtain axis d where "joint_axis j = Some axis" "dof = [d]" "1 / 10 ^ 9 \<le> vec_norm axis" "\<bar>d\<bar> \<le> pi"
        "d = 0 \<or> 1 / 10 ^ 5 < \<bar>sin (d / 2)\<bar>"
      using assms(1) by (auto simp: readable_def length_Suc_conv)
    then show ?thesis using 2 hinge_reads_back [of axis d] by (simp add: case_prod_beta)
  next
    case 3
    then obtain a b c where "dof = [a, b, c]" using assms(1) by (auto simp: readable_def length_Suc_conv numeral_3_eq_3)
    moreover have "quat_to_exp_map (exp_map_to_quat (Vec a b c)) = Vec a b c"
      using assms(1) 3 calculation by (intro exp_map_roundtrip) (simp_all add: readable_def Let_def del: vec_norm.simps)
    ultimately show ?thesis using 3 by simp
  qed
qed

lemma slices_Cons:
  assumes "concat (map dof_slice (j # js)) = [n..<n + m]" "0 < dof_dim j" "0 \<le> dof_idx j"
  shows "dof_idx j = int n" "dof_dim j \<le> m" "concat (map dof_slice js) = [n + dof_dim j..<n + dof_dim j + (m - dof_dim j)]"
proof -
  let ?i = "nat (dof_idx j)"
  have c: "[?i..<?i + dof_dim j] @ concat (map dof_slice js) = [n..<n + m]" using assms by (simp add: dof_slice_def)
  then have "length ([?i..<?i + dof_dim j] @ concat (map dof_slice js)) = m" by simp
  then show le: "dof_dim j \<le> m" by simp
  have "[?i..<?i + dof_dim j] = take (dof_dim j) [n..<n + m]" by (simp flip: c)
  also have "\<dots> = [n..<n + dof_dim j]" using le by (simp add: take_upt)
  finally have "hd [?i..<?i + dof_dim j] = hd [n..<n + dof_dim j]" by simp
  then show "dof_idx j = int n" using assms(2,3) by simp
  have "concat (map dof_slice js) = drop (dof_dim j) [n..<n + m]" by (simp flip: c)
  then show "concat (map dof_slice js) = [n + dof_dim j..<n + dof_dim j + (m - dof_dim j)]" using le by simp
qed

lemma put_slices:
  assumes "concat (map dof_slice js) = [n..<n + m]" "\<forall>j \<in> set js. 0 < dof_dim j \<longrightarrow> 0 \<le> dof_idx j"
    and "length xs = n" "length zs = m" "\<forall>j \<in> set js. length (g j (f j)) = dof_dim j"
  shows "fold (\<lambda>(j, r) dof. if dof_dim j = 0 then dof else put_slice (dof_idx j) (g j r) dof) (zip js (map f js)) (xs @ zs)
       = xs @ concat (map (\<lambda>j. g j (f j)) js)"
  using assms
proof (induction js arbitrary: n m xs zs)
  case (Cons j js)
  show ?case
  proof (cases "dof_dim j = 0")
    case True
    then have "g j (f j) = []" using Cons.prems(5) by simp
    then show ?thesis using True Cons.prems Cons.IH [of n m xs zs] by simp
  next
    case False
    have idx: "dof_idx j = int n" and m: "dof_dim j \<le> m"
      and rest: "concat (map dof_slice js) = [n + dof_dim j..<n + dof_dim j + (m - dof_dim j)]"
      using slices_Cons [OF Cons.prems(1)] False Cons.prems(2) by simp_all
    have "put_slice (dof_idx j) (g j (f j)) (xs @ zs) = (xs @ g j (f j)) @ drop (dof_dim j) zs"
      using Cons.prems(3,5) by (simp add: put_slice_def idx)
    moreover have "fold (\<lambda>(j, r) dof. if dof_dim j = 0 then dof else put_slice (dof_idx j) (g j r) dof) (zip js (map f js))
        ((xs @ g j (f j)) @ drop (dof_dim j) zs) = (xs @ g j (f j)) @ concat (map (\<lambda>j. g j (f j)) js)"
      by (rule Cons.IH [OF rest]) (use Cons.prems in simp_all)
    ultimately show ?thesis using False by simp
  qed
qed (auto dest: sym [of "[]"] simp: upt_eq_Nil_conv)

lemma concat_slices:
  assumes "concat (map dof_slice js) = [n..<n + m]" "\<forall>j \<in> set js. 0 < dof_dim j \<longrightarrow> 0 \<le> dof_idx j"
  shows "concat (map (\<lambda>j. dof_segment (dof_idx j) (dof_dim j) dof) js) = take m (drop n dof)"
  using assms
proof (induction js arbitrary: n m)
  case (Cons j js)
  show ?case
  proof (cases "dof_dim j = 0")
    case True
    then show ?thesis using Cons by (simp add: dof_segment_def)
  next
    case False
    have idx: "dof_idx j = int n" and m: "dof_dim j \<le> m"
      and rest: "concat (map dof_slice js) = [n + dof_dim j..<n + dof_dim j + (m - dof_dim j)]"
      using slices_Cons [OF Cons.prems(1)] False Cons.prems(2) by simp_all
    have "take m (drop n dof) = take (dof_dim j) (drop n dof) @ take (m - dof_dim j) (drop (n + dof_dim j) dof)"
      using m take_add [of "dof_dim j" "m - dof_dim j" "drop n dof"] by (simp add: add.commute)
    then show ?thesis using Cons.IH [OF rest] Cons.prems(2) by (simp add: dof_segment_def idx)
  qed
qed (auto dest: sym [of "[]"] simp: upt_eq_Nil_conv)

text \<open>The degrees of freedom survive the way through rotations: when every joint's share can be read back and
  is within its limits, \<open>rot_to_dof\<close> returns what \<open>dof_to_rot\<close> was given.\<close>
theorem dofs_read_back:
  assumes "kin_wf k" "slices_fit k" "length dof = num_dof k" "0 < num_joint k"
    and "\<forall>j \<in> set (tl (joints k)). readable j (dof_segment (dof_idx j) (dof_dim j) dof)"
    and "\<forall>i < num_dof k. dof_lower k ! i \<le> dof ! i \<and> dof ! i \<le> dof_upper k ! i"
  shows "rot_to_dof k (dof_to_rot k dof) = dof"
proof -
  let ?js = "tl (joints k)" and ?f = "\<lambda>j. dof_segment (dof_idx j) (dof_dim j) dof"
  let ?r = "\<lambda>j. if dof_idx j = - 1 then Quat 0 0 0 1 else joint_dof_to_rot j (?f j)"
  have "joints k = joints k ! 0 # ?js" using assms(4) by (cases "joints k") (simp_all add: num_joint_def)
  moreover have "dof_dim (joints k ! 0) = 0" using assms(1,4) by (auto simp: kin_wf_def)
  ultimately have slices: "concat (map dof_slice ?js) = [0..<0 + num_dof k]"
    using assms(2) dof_slice_simps(1) [of "joints k ! 0"] by (metis (no_types) add_0 append_Nil concat.simps(2) list.simps(9) slices_fit_def)
  have sub: "j \<in> set (joints k)" if "j \<in> set ?js" for j using that by (cases "joints k") auto
  have idx: "\<forall>j \<in> set ?js. 0 < dof_dim j \<longrightarrow> 0 \<le> dof_idx j" using assms(2) sub by (auto simp: slices_fit_def)
  have own_share: "joint_rot_to_dof j (?r j) = ?f j" if "j \<in> set ?js" for j
  proof -
    have dims: "dof_dim j \<in> {0, 1, 3}" "dof_dim j = 0 \<longrightarrow> dof_idx j = - 1" using assms(1) sub [OF that] by (auto simp: kin_wf_def)
    show ?thesis
    proof (cases "dof_dim j = 0")
      case False
      then have "dof_idx j \<noteq> - 1" using idx that by fastforce
      then show ?thesis using joint_reads_back [OF bspec [OF assms(5) that] dims(1)] by simp
    qed (simp add: dof_segment_def)
  qed
  have len: "\<forall>j \<in> set ?js. length (joint_rot_to_dof j (?r j)) = dof_dim j"
    using own_share assms(5) by (auto simp: readable_def simp del: joint_rot_to_dof.simps joint_dof_to_rot.simps)
  have "fold (\<lambda>(j, r) dof. if dof_dim j = 0 then dof else put_slice (dof_idx j) (joint_rot_to_dof j r) dof)
      (zip ?js (map ?r ?js)) ([] @ replicate (num_dof k) 0) = [] @ concat (map (\<lambda>j. joint_rot_to_dof j (?r j)) ?js)"
    by (rule put_slices [where f = ?r and g = joint_rot_to_dof, OF slices idx _ _ len]) simp_all
  also have "\<dots> = concat (map ?f ?js)" using own_share by (simp cong: map_cong del: joint_rot_to_dof.simps joint_dof_to_rot.simps)
  also have "\<dots> = dof" using concat_slices [OF slices idx, of dof] assms(3) by simp
  finally show ?thesis
    using assms(1,3,6) by (auto simp: rot_to_dof_def dof_to_rot_def kin_wf_def clip_def Let_def intro!: nth_equalityI
        simp del: joint_rot_to_dof.simps joint_dof_to_rot.simps)
qed

lemma dofs_read_back_witness:
  "\<exists>k. build_kinematics_model False pole_and_arm = Inr k \<and> rot_to_dof k (dof_to_rot k [pi / 2]) = [pi / 2]"
proof -
  obtain k where k: "build_kinematics_model False pole_and_arm = Inr k" "joints k = [new_joint ''pole'' 0 None,
      (new_joint ''arm'' 1 (Some (Vec 0 1 0)))\<lparr>dof_idx := 0\<rparr>, new_joint ''hand'' 0 None]" "dof_size k = [0, 1, 0]"
      "dof_lower k = [- 2]" "dof_upper k = [2]"
    using pole_and_arm_built by blast
  have "1 / 10 ^ 5 < 1 / (2 :: real)" "1 / 2 \<le> sqrt 2 / 2" by simp_all
  then have "1 / 10 ^ 5 < sqrt 2 / 2" by (rule less_le_trans)
  then have "readable (joints k ! 1) [pi / 2]" "readable (joints k ! 2) []"
    by (simp_all add: k readable_def new_joint_def sin_45)
  moreover have "- 2 \<le> pi / 2" "pi / 2 \<le> 2" using pi_gt_zero pi_less_4 by linarith+
  ultimately show ?thesis
    using dofs_read_back [of k "[pi / 2]"] kin_wf_built [OF k(1)] k
    by (simp add: num_dof_def num_joint_def dof_segment_def new_joint_def)
qed

end
