(* ===== verification/Tensor_Insert.thy ===== *)
theory Tensor_Insert
  imports Prelude "HOL-Library.Multiset"
begin

text \<open>
  \<open>insert_tensors_at_dim\<close> of \<open>rlightning/humanoid/utils/common.py\<close>: a tensor is the list of its slices along the
  dimension, and the values are inserted at the given places of the result.
\<close>

text \<open>The loop over the places of the result; a place for which no slice is left keeps its zeros.\<close>

fun insert_loop :: "'a \<Rightarrow> nat \<Rightarrow> nat \<Rightarrow> (int \<times> 'a) list \<Rightarrow> 'a list \<Rightarrow> 'a list" where
  "insert_loop zero 0 i pending rest = []"
| "insert_loop zero (Suc n) i pending rest =
     (if pending \<noteq> [] \<and> fst (hd pending) = int i
      then snd (hd pending) # insert_loop zero n (Suc i) (tl pending) rest
      else (case rest of
              x # xs \<Rightarrow> x # insert_loop zero n (Suc i) pending xs
            | [] \<Rightarrow> zero # insert_loop zero n (Suc i) pending []))"

definition insert_tensors_at_dim :: "'a \<Rightarrow> 'a list \<Rightarrow> int list \<Rightarrow> 'a list \<Rightarrow> 'a list result" where
  "insert_tensors_at_dim zero tensor indices vals =
     bind_result (guard ValueError (length vals = length indices)) (\<lambda>_.
     Inr (insert_loop zero (length tensor + length indices) 0 (sort_key fst (zip indices vals)) tensor))"

lemma length_insert_loop [simp]: "length (insert_loop zero n i pending rest) = n"
  by (induction zero n i pending rest rule: insert_loop.induct) (auto split: list.splits)

lemma nths_Cons_off:
  "nths (x # xs) {j. int (i + j) \<notin> S} = (if int i \<notin> S then [x] else []) @ nths xs {j. int (Suc i + j) \<notin> S}"
  by (simp only: nths_Cons mem_Collect_eq add_0_right add_Suc_right add_Suc)

lemma insert_loop_places:
  assumes "sorted_wrt (<) (map fst pending)" "\<forall>p \<in> fst ` set pending. int i \<le> p \<and> p < int (i + n)"
    and "n = length pending + length rest"
  shows "(\<forall>(p, v) \<in> set pending. insert_loop zero n i pending rest ! nat (p - int i) = v)
     \<and> nths (insert_loop zero n i pending rest) {j. int (i + j) \<notin> fst ` set pending} = rest"
  using assms
proof (induction n arbitrary: i pending rest)
  case (Suc n)
  show ?case
  proof (cases "pending \<noteq> [] \<and> fst (hd pending) = int i")
    case True
    then obtain v ps where p: "pending = (int i, v) # ps" by (cases pending) auto
    have ih: "(\<forall>(p, v) \<in> set ps. insert_loop zero n (Suc i) ps rest ! nat (p - int (Suc i)) = v)
       \<and> nths (insert_loop zero n (Suc i) ps rest) {j. int (Suc i + j) \<notin> fst ` set ps} = rest"
      using Suc.prems by (intro Suc.IH) (auto simp: p)
    have later: "int i < q" if "(q, w) \<in> set ps" for q w using Suc.prems(1) that by (force simp: p)
    have "insert_loop zero (Suc n) i pending rest ! nat (q - int i) = w" if "(q, w) \<in> set pending" for q w
    proof (cases "q = int i")
      case True
      then have "w = v" using that later [of q w] by (auto simp: p)
      then show ?thesis using True by (simp add: p)
    next
      case False
      then have "(q, w) \<in> set ps" using that by (simp add: p)
      moreover from this have "nat (q - int i) = Suc (nat (q - int (Suc i)))" using later by fastforce
      ultimately show ?thesis using ih by (auto simp: p)
    qed
    moreover have "nths (insert_loop zero (Suc n) i pending rest) {j. int (i + j) \<notin> fst ` set pending} = rest"
    proof -
      have "insert_loop zero (Suc n) i pending rest = v # insert_loop zero n (Suc i) ps rest" by (simp add: p)
      moreover have "{j. int (Suc i + j) \<notin> fst ` set pending} = {j. int (Suc i + j) \<notin> fst ` set ps}" "int i \<in> fst ` set pending"
        by (auto simp: p)
      ultimately show ?thesis using conjunct2 [OF ih] by (simp only: nths_Cons_off) simp
    qed
    ultimately show ?thesis by auto
  next
    case False
    have later: "int i < q" if "(q, w) \<in> set pending" for q w
    proof -
      have "int i \<le> fst (hd pending)" "fst (hd pending) \<le> q"
        using Suc.prems(1,2) that by (cases pending; force)+
      moreover have "fst (hd pending) \<noteq> int i" using False that by auto
      ultimately show ?thesis by linarith
    qed
    have "fst ` set pending \<subseteq> {int i <..< int (i + Suc n)}" using later Suc.prems(2) by fastforce
    then have "card (fst ` set pending) \<le> n" using card_mono [of "{int i <..< int (i + Suc n)}"] by fastforce
    moreover have "distinct (map fst pending)" using Suc.prems(1) by (auto simp: strict_sorted_iff)
    then have "card (fst ` set pending) = length pending" by (metis distinct_card length_map list.set_map)
    ultimately obtain x xs where r: "rest = x # xs" using Suc.prems(3) by (cases rest) auto
    have ih: "(\<forall>(p, v) \<in> set pending. insert_loop zero n (Suc i) pending xs ! nat (p - int (Suc i)) = v)
       \<and> nths (insert_loop zero n (Suc i) pending xs) {j. int (Suc i + j) \<notin> fst ` set pending} = xs"
      using Suc.prems later by (intro Suc.IH) (fastforce simp: r)+
    have "nat (q - int i) = Suc (nat (q - int (Suc i)))" if "(q, w) \<in> set pending" for q w using later [OF that] by simp
    moreover have "int i \<notin> fst ` set pending" using later by force
    moreover have loop: "insert_loop zero (Suc n) i pending rest = x # insert_loop zero n (Suc i) pending xs" using False by (auto simp: r)
    ultimately have "nths (insert_loop zero (Suc n) i pending rest) {j. int (i + j) \<notin> fst ` set pending} = rest"
      using conjunct2 [OF ih] by (simp only: nths_Cons_off) (simp add: r)
    moreover have "insert_loop zero (Suc n) i pending rest ! nat (q - int i) = w" if qw: "(q, w) \<in> set pending" for q w
    proof -
      have "nat (q - int i) = Suc (nat (q - int (Suc i)))" using later [OF qw] by simp
      then show ?thesis using bspec [OF conjunct1 [OF ih] qw] unfolding loop by simp
    qed
    ultimately show ?thesis by auto
  qed
qed simp

text \<open>With distinct places within the result, every value is at its place and the slices of the tensor fill
  the other places in their order.\<close>
theorem insert_tensors_places:
  assumes "length vals = length indices" "distinct indices" "\<forall>p \<in> set indices. 0 \<le> p \<and> p < int (length tensor + length indices)"
  shows "\<exists>r. insert_tensors_at_dim zero tensor indices vals = Inr r \<and> length r = length tensor + length indices
     \<and> (\<forall>i < length indices. r ! nat (indices ! i) = vals ! i) \<and> nths r {j. int j \<notin> set indices} = tensor"
proof -
  let ?ps = "sort_key fst (zip indices vals)"
  have sets: "set ?ps = set (zip indices vals)" "fst ` set ?ps = set indices"
    using assms(1) by (simp_all flip: set_map)
  have "distinct (map fst ?ps)"
    using assms(1,2) mset_eq_imp_distinct_iff [of "map fst ?ps" "map fst (zip indices vals)"]
    by (metis map_fst_zip mset_map mset_sort)
  then have "sorted_wrt (<) (map fst ?ps)" by (simp add: strict_sorted_iff)
  then have "(\<forall>(p, v) \<in> set ?ps. insert_loop zero (length tensor + length indices) 0 ?ps tensor ! nat (p - int 0) = v)
     \<and> nths (insert_loop zero (length tensor + length indices) 0 ?ps tensor) {j. int (0 + j) \<notin> fst ` set ?ps} = tensor"
    by (rule insert_loop_places) (use assms sets in auto)
  moreover have "(indices ! i, vals ! i) \<in> set ?ps" if "i < length indices" for i
    using that assms(1) unfolding sets by (auto simp: set_zip)
  ultimately show ?thesis using assms(1) sets by (force simp: insert_tensors_at_dim_def)
qed

lemma insert_tensors_places_witness:
  "\<exists>r. insert_tensors_at_dim 0 [10, 20, 30 :: nat] [3, 0] [7, 8] = Inr r \<and> r ! 3 = 7 \<and> r ! 0 = 8"
  using insert_tensors_places [of "[7, 8 :: nat]" "[3, 0]" "[10, 20, 30]" 0] by (auto simp: less_Suc_eq numeral_2_eq_2)

text \<open>A repeated place loses the second value and leaves a slice of zeros at the end.\<close>
theorem insert_repeated_loses:
  "insert_tensors_at_dim 0 [x :: nat] [0, 0] [v, w] = Inr [v, x, 0]"
  by (simp add: insert_tensors_at_dim_def numeral_2_eq_2 numeral_3_eq_3)

end
