(* ===== verification/Libero_Env.thy ===== *)
theory Libero_Env
  imports Prelude Complex_Main
begin

text \<open>
  \<open>LiberoEnv\<close> of \<open>rlightning/env/libero_env.py\<close>: which initial states the environments are reset to, how often
  they are reconfigured, what a step and a chunk of steps record, and how finished environments are reset. The
  simulator, the random generator and the k-th shuffle of the ordered generator are parameters; images and videos
  are left out. A vector over the environments is a list.
\<close>

subsection \<open>Configuration and parameters\<close>

record 'v libero_cfg =
  lc_num_envs :: nat
  lc_group_size :: nat
  lc_workers :: nat
  lc_worker_index :: nat
  lc_specific_reset_id :: "nat option"
  lc_use_fixed_ids :: bool
  lc_use_ordered_ids :: bool
  lc_is_eval :: bool
  lc_auto_reset :: bool
  lc_ignore_terminations :: bool
  lc_use_rel_reward :: bool
  lc_reward_coef :: 'v
  lc_max_steps :: nat
  lc_gripper_open :: bool

record ('s, 'a, 'o, 'g) libero_ops =
  sim_step :: "'s \<Rightarrow> (nat \<times> 'a) list \<Rightarrow> 's \<times> ('o \<times> bool) list"
  sim_reconfigure :: "'s \<Rightarrow> (nat \<times> nat) list \<Rightarrow> 's"
  sim_reset :: "'s \<Rightarrow> nat list \<Rightarrow> 's"
  sim_set_state :: "'s \<Rightarrow> (nat \<times> nat \<times> nat) list \<Rightarrow> 's"
  zero_action :: "bool \<Rightarrow> 'a"
  rand_ints :: "'g \<Rightarrow> nat \<Rightarrow> 'g \<times> nat list"
  shuffle_ids :: "nat \<Rightarrow> nat list \<Rightarrow> nat list"

subsection \<open>State\<close>

text \<open>What is recorded of the running episode of one environment.\<close>

record 'v episode_stats =
  prev_reward :: 'v
  once_success :: bool
  once_fail :: bool
  ep_return :: 'v
  ep_elapsed :: nat

definition new_stats :: "'v::linordered_field episode_stats" where
  "new_stats = \<lparr>prev_reward = 0, once_success = False, once_fail = False, ep_return = 0, ep_elapsed = 0\<rparr>"

text \<open>What is reported of an episode.\<close>

record 'v episode_report =
  rep_success_once :: bool
  rep_return :: 'v
  rep_len :: nat
  rep_reward :: 'v
  rep_success_at_end :: "bool option"

record ('s, 'o, 'g, 'v) libero =
  le_sim :: 's
  le_gen :: 'g
  le_shuffles :: nat
  le_ids_all :: "nat list list"
  le_start_idx :: nat
  le_reset_ids :: "nat list"
  le_task_ids :: "nat list"
  le_trial_ids :: "nat list"
  le_is_start :: bool
  le_stats :: "'v episode_stats list"
  le_raw_obs :: "'o option list option"

subsection \<open>Initial states\<close>

text \<open>All trials of all tasks are numbered one after the other; \<open>np.cumsum\<close> of the numbers of trials.\<close>

fun cumsum_from :: "nat \<Rightarrow> nat list \<Rightarrow> nat list" where
  "cumsum_from s [] = []"
| "cumsum_from s (b # bs) = (s + b) # cumsum_from (s + b) bs"

definition total_num_group_envs :: "nat list \<Rightarrow> nat" where
  "total_num_group_envs bins = sum_list bins"

text \<open>The loop over the tasks for one state id, with the running start.\<close>

fun find_task :: "nat \<Rightarrow> nat \<Rightarrow> nat \<Rightarrow> nat list \<Rightarrow> (nat \<times> nat) option" where
  "find_task r start_pivot task_id [] = None"
| "find_task r start_pivot task_id (end_pivot # ends) =
     (if r < end_pivot \<and> start_pivot \<le> r then Some (task_id, r - start_pivot) else find_task r end_pivot (task_id + 1) ends)"

definition task_and_trial_ids :: "nat list \<Rightarrow> nat list \<Rightarrow> (nat \<times> nat) list" where
  "task_and_trial_ids bins ids = List.map_filter (\<lambda>r. find_task r 0 0 (cumsum_from 0 bins)) ids"

text \<open>\<open>get_reset_state_ids_all\<close> with the k-th shuffle: as many ids as fill a row for every process.\<close>

definition reset_state_ids_all :: "('s, 'a, 'o, 'g) libero_ops \<Rightarrow> nat \<Rightarrow> nat \<Rightarrow> nat \<Rightarrow> nat list list" where
  "reset_state_ids_all ops workers k envs_total =
     (let ids = shuffle_ids ops k [0..<envs_total];
          w = (envs_total - envs_total mod workers) div workers;
          valid = take (envs_total - envs_total mod workers) ids
      in map (\<lambda>i. take w (drop (i * w) valid)) [0..<workers])"

definition random_reset_ids ::
    "('s, 'a, 'o, 'g) libero_ops \<Rightarrow> 'v libero_cfg \<Rightarrow> nat \<Rightarrow> ('s, 'o, 'g, 'v) libero \<Rightarrow> nat list \<times> ('s, 'o, 'g, 'v) libero" where
  "random_reset_ids ops c n s =
     (case lc_specific_reset_id c of
        Some r \<Rightarrow> (replicate n r, s)
      | None \<Rightarrow> (case rand_ints ops (le_gen s) n of (g, ids) \<Rightarrow> (ids, s\<lparr>le_gen := g\<rparr>)))"

definition ordered_reset_ids ::
    "('s, 'a, 'o, 'g) libero_ops \<Rightarrow> 'v libero_cfg \<Rightarrow> nat list \<Rightarrow> nat \<Rightarrow> ('s, 'o, 'g, 'v) libero
       \<Rightarrow> nat list \<times> ('s, 'o, 'g, 'v) libero" where
  "ordered_reset_ids ops c bins n s =
     (case lc_specific_reset_id c of
        Some r \<Rightarrow> (replicate (lc_num_envs c div lc_group_size c) r, s)
      | None \<Rightarrow>
          let s = (if le_start_idx s + n > length (le_ids_all s ! 0)
                   then s\<lparr>le_ids_all := reset_state_ids_all ops (lc_workers c) (le_shuffles s) (total_num_group_envs bins),
                          le_shuffles := le_shuffles s + 1, le_start_idx := 0\<rparr>
                   else s)
          in (take n (drop (le_start_idx s) (le_ids_all s ! lc_worker_index c)), s\<lparr>le_start_idx := le_start_idx s + n\<rparr>))"

definition update_reset_state_ids ::
    "('s, 'a, 'o, 'g) libero_ops \<Rightarrow> 'v libero_cfg \<Rightarrow> nat list \<Rightarrow> ('s, 'o, 'g, 'v) libero \<Rightarrow> ('s, 'o, 'g, 'v) libero" where
  "update_reset_state_ids ops c bins s =
     (let num_group = lc_num_envs c div lc_group_size c;
          (ids, s) = (if lc_is_eval c \<or> lc_use_ordered_ids c then ordered_reset_ids ops c bins num_group s
                      else random_reset_ids ops c num_group s)
      in s\<lparr>le_reset_ids := concat (map (replicate (lc_group_size c)) ids)\<rparr>)"

text \<open>The constructor, up to the first reset.\<close>

definition new_libero ::
    "('s, 'a, 'o, 'g) libero_ops \<Rightarrow> 'v::linordered_field libero_cfg \<Rightarrow> nat list \<Rightarrow> 's \<Rightarrow> 'g \<Rightarrow> ('s, 'o, 'g, 'v) libero" where
  "new_libero ops c bins sim g =
     (let s = update_reset_state_ids ops c bins
            \<lparr>le_sim = sim, le_gen = g, le_shuffles = 1,
             le_ids_all = reset_state_ids_all ops (lc_workers c) 0 (total_num_group_envs bins), le_start_idx = 0,
             le_reset_ids = [], le_task_ids = [], le_trial_ids = [], le_is_start = True,
             le_stats = replicate (lc_num_envs c) new_stats, le_raw_obs = None\<rparr>;
          tt = task_and_trial_ids bins (le_reset_ids s)
      in s\<lparr>le_task_ids := map fst tt, le_trial_ids := map snd tt\<rparr>)"

subsection \<open>Resetting\<close>

text \<open>One turn of the loop of \<open>_reconfigure\<close>; too few task ids raise.\<close>

definition retask :: "(nat \<times> nat) list \<Rightarrow> nat \<times> nat \<Rightarrow> nat list \<times> ('s, 'o, 'g, 'v) libero \<Rightarrow> (nat list \<times> ('s, 'o, 'g, 'v) libero) result" where
  "retask tt je st =
     (case (je, st) of ((j, e), (changed, s)) \<Rightarrow>
        bind_result (guard IndexError (j < length tt \<and> e < length (le_task_ids s) \<and> e < length (le_trial_ids s))) (\<lambda>_.
        let (task, trial) = tt ! j
        in Inr (if le_task_ids s ! e \<noteq> task then changed @ [e] else changed,
                s\<lparr>le_task_ids := (le_task_ids s)[e := task], le_trial_ids := (le_trial_ids s)[e := trial]\<rparr>)))"

definition reconfigure ::
    "('s, 'a, 'o, 'g) libero_ops \<Rightarrow> nat list \<Rightarrow> nat list \<Rightarrow> nat list \<Rightarrow> ('s, 'o, 'g, 'v) libero \<Rightarrow> ('s, 'o, 'g, 'v) libero result" where
  "reconfigure ops bins ids env_idx s =
     bind_result (foldM (\<lambda>st je. retask (task_and_trial_ids bins ids) je st) ([], s) (enumerate 0 env_idx)) (\<lambda>(changed, s).
     let sim = (if changed = [] then le_sim s else sim_reconfigure ops (le_sim s) (map (\<lambda>e. (e, le_task_ids s ! e)) changed));
         sim = sim_reset ops sim env_idx;
         sim = sim_set_state ops sim (map (\<lambda>e. (e, le_task_ids s ! e, le_trial_ids s ! e)) env_idx)
     in Inr (s\<lparr>le_sim := sim\<rparr>))"

text \<open>Fifteen steps with zero actions let the simulation settle; the observations of the last one count.\<close>

definition settle :: "('s, 'a, 'o, 'g) libero_ops \<Rightarrow> bool \<Rightarrow> nat list \<Rightarrow> 's \<Rightarrow> 's \<times> ('o \<times> bool) list" where
  "settle ops grip env_idx sim =
     fold (\<lambda>_ (sim, _). sim_step ops sim (map (\<lambda>e. (e, zero_action ops grip)) env_idx)) [0..<15 :: nat] (sim, [])"

definition reset_stats :: "nat list \<Rightarrow> 'v::linordered_field episode_stats list \<Rightarrow> 'v episode_stats list" where
  "reset_stats env_idx stats = map (\<lambda>(e, st). if e \<in> set env_idx then new_stats else st) (enumerate 0 stats)"

definition libero_reset ::
    "('s, 'a, 'o, 'g) libero_ops \<Rightarrow> 'v::linordered_field libero_cfg \<Rightarrow> nat list \<Rightarrow> nat list \<Rightarrow> nat list option
       \<Rightarrow> ('s, 'o, 'g, 'v) libero \<Rightarrow> ('o option list \<times> ('s, 'o, 'g, 'v) libero) result" where
  "libero_reset ops c bins env_idx given s =
     (let (given, s) = (if le_is_start s
                        then (if lc_use_fixed_ids c then Some (le_reset_ids s) else None, s\<lparr>le_is_start := False\<rparr>)
                        else (given, s));
          (ids, s) = (case given of None \<Rightarrow> random_reset_ids ops c (length env_idx) s | Some ids \<Rightarrow> (ids, s))
      in bind_result (reconfigure ops bins ids env_idx s) (\<lambda>s.
         let (sim, outs) = settle ops (lc_gripper_open c) env_idx (le_sim s);
             raw = (case le_raw_obs s of None \<Rightarrow> replicate (lc_num_envs c) None | Some r \<Rightarrow> r);
             raw = fold (\<lambda>(i, e) r. r[e := Some (fst (outs ! i))]) (enumerate 0 env_idx) raw
         in Inr (raw, s\<lparr>le_sim := sim, le_raw_obs := Some raw, le_stats := reset_stats env_idx (le_stats s)\<rparr>)))"

subsection \<open>Stepping\<close>

text \<open>\<open>_calc_step_reward\<close> and \<open>_record_metrics\<close> for one environment, after its step was counted: the reward, the
  new record and the report.\<close>

definition step_stats ::
    "'v::linordered_field libero_cfg \<Rightarrow> bool \<Rightarrow> 'v episode_stats \<Rightarrow> 'v \<times> 'v episode_stats \<times> 'v episode_report" where
  "step_stats c terminated st =
     (let reward = lc_reward_coef c * of_bool terminated;
          step_reward = (if lc_use_rel_reward c then reward - prev_reward st else reward);
          st = st\<lparr>prev_reward := reward, ep_return := ep_return st + step_reward,
                  once_success := once_success st \<or> terminated, ep_elapsed := ep_elapsed st + 1\<rparr>
      in (step_reward, st,
          \<lparr>rep_success_once = once_success st, rep_return = ep_return st, rep_len = ep_elapsed st,
           rep_reward = ep_return st / of_nat (ep_elapsed st),
           rep_success_at_end = (if lc_ignore_terminations c then Some terminated else None)\<rparr>))"

text \<open>\<open>step\<close> without the reset: per environment the reward, whether it terminated and whether it was cut, and the
  report.\<close>

definition libero_step ::
    "('s, 'a, 'o, 'g) libero_ops \<Rightarrow> 'v::linordered_field libero_cfg \<Rightarrow> 'a list \<Rightarrow> ('s, 'o, 'g, 'v) libero
       \<Rightarrow> ('v \<times> bool \<times> bool) list \<times> 'v episode_report list \<times> ('s, 'o, 'g, 'v) libero" where
  "libero_step ops c actions s =
     (let (sim, outs) = sim_step ops (le_sim s) (enumerate 0 actions);
          res = map2 (\<lambda>(ob, terminated) st. (terminated, step_stats c terminated st)) outs (le_stats s)
      in (map (\<lambda>(terminated, r, st, rep). (r, terminated \<and> \<not> lc_ignore_terminations c, lc_max_steps c \<le> ep_elapsed st)) res,
          map (\<lambda>(terminated, r, st, rep). rep) res,
          s\<lparr>le_sim := sim, le_raw_obs := Some (map (Some \<circ> fst) outs), le_stats := map (\<lambda>(terminated, r, st, rep). st) res\<rparr>))"

text \<open>\<open>_handle_auto_reset\<close>: the observations and reports before the reset are kept for the caller.\<close>

definition handle_auto_reset ::
    "('s, 'a, 'o, 'g) libero_ops \<Rightarrow> 'v::linordered_field libero_cfg \<Rightarrow> nat list \<Rightarrow> bool list \<Rightarrow> ('s, 'o, 'g, 'v) libero
       \<Rightarrow> ('o option list \<times> ('s, 'o, 'g, 'v) libero) result" where
  "handle_auto_reset ops c bins dones s =
     (let env_idx = filter (\<lambda>e. dones ! e) [0..<length dones];
          s = (if lc_is_eval c then update_reset_state_ids ops c bins s else s)
      in bind_result (guard IndexError (lc_use_fixed_ids c \<longrightarrow> (\<forall>e \<in> set env_idx. e < length (le_reset_ids s)))) (\<lambda>_.
         libero_reset ops c bins env_idx
           (if lc_use_fixed_ids c then Some (map ((!) (le_reset_ids s)) env_idx) else None) s))"

record ('o, 'v) chunk_result =
  ch_obs :: "'o option list"
  ch_rewards :: "'v list list"
  ch_terminations :: "bool list list"
  ch_truncations :: "bool list list"
  ch_reports :: "'v episode_report list"
  ch_final_obs :: "'o option list option"

text \<open>The loop of \<open>chunk_step\<close>: the flags and rewards of every step, and the reports of the last.\<close>

definition chunk_loop ::
    "('s, 'a, 'o, 'g) libero_ops \<Rightarrow> 'v::linordered_field libero_cfg \<Rightarrow> 'a list list \<Rightarrow> ('s, 'o, 'g, 'v) libero
       \<Rightarrow> ('v \<times> bool \<times> bool) list list \<times> 'v episode_report list \<times> ('s, 'o, 'g, 'v) libero" where
  "chunk_loop ops c chunk s =
     fold (\<lambda>actions (acc, _, s). case libero_step ops c actions s of (res, reps, s) \<Rightarrow> (acc @ [res], reps, s)) chunk ([], [], s)"

definition only_at_end :: "bool list list \<Rightarrow> bool list list" where
  "only_at_end rows = map (\<lambda>row. replicate (length row - 1) False @ [True \<in> set row]) rows"

text \<open>\<open>chunk_step\<close>: the rows of its tensors are the environments, the columns the steps of the chunk.\<close>

definition chunk_step ::
    "('s, 'a, 'o, 'g) libero_ops \<Rightarrow> 'v::linordered_field libero_cfg \<Rightarrow> nat list \<Rightarrow> 'a list list \<Rightarrow> ('s, 'o, 'g, 'v) libero
       \<Rightarrow> (('o, 'v) chunk_result \<times> ('s, 'o, 'g, 'v) libero) result" where
  "chunk_step ops c bins chunk s =
     bind_result (guard RuntimeError (chunk \<noteq> [])) (\<lambda>_.
     let (steps, reps, s) = chunk_loop ops c chunk s;
         obs = (case le_raw_obs s of None \<Rightarrow> [] | Some r \<Rightarrow> r);
         envs = [0..<lc_num_envs c];
         rewards = map (\<lambda>e. map (\<lambda>row. fst (row ! e)) steps) envs;
         terms = map (\<lambda>e. map (\<lambda>row. fst (snd (row ! e))) steps) envs;
         truncs = map (\<lambda>e. map (\<lambda>row. snd (snd (row ! e))) steps) envs;
         dones = map2 (\<lambda>t u. True \<in> set t \<or> True \<in> set u) terms truncs;
         resetting = (True \<in> set dones \<and> lc_auto_reset c);
         merged = (lc_auto_reset c \<or> lc_ignore_terminations c)
     in bind_result (if resetting then map_sum id (\<lambda>(o', s'). (o', Some obs, s')) (handle_auto_reset ops c bins dones s)
                     else Inr (obs, None, s)) (\<lambda>(new_obs, final_obs, s).
        Inr (\<lparr>ch_obs = new_obs, ch_rewards = rewards,
              ch_terminations = (if merged then only_at_end terms else terms),
              ch_truncations = (if merged then only_at_end truncs else truncs),
              ch_reports = reps, ch_final_obs = final_obs\<rparr>, s)))"

text \<open>\<open>_step\<close>: which episodes are reported.\<close>

definition last_column :: "bool list list \<Rightarrow> bool list" where
  "last_column rows = map List.last rows"

definition reported_episodes :: "'v libero_cfg \<Rightarrow> ('o, 'v) chunk_result \<Rightarrow> 'v episode_report list" where
  "reported_episodes c r =
     (let dones = map2 (\<lambda>t u. map2 (\<or>) t u) (ch_terminations r) (ch_truncations r);
          pick = (\<lambda>flags. map snd (filter fst (zip flags (ch_reports r))))
      in if \<not> lc_auto_reset c
         then (if True \<in> set (concat (ch_truncations r)) then pick (last_column (ch_truncations r)) else [])
         else if True \<in> set (concat dones) \<and> ch_final_obs r \<noteq> None then pick (last_column dones) else [])"

definition finish_rollout ::
    "('s, 'a, 'o, 'g) libero_ops \<Rightarrow> 'v libero_cfg \<Rightarrow> nat list \<Rightarrow> ('s, 'o, 'g, 'v) libero \<Rightarrow> ('s, 'o, 'g, 'v) libero" where
  "finish_rollout ops c bins s = (if \<not> lc_is_eval c \<or> \<not> lc_auto_reset c then update_reset_state_ids ops c bins s else s)"

end
