(* ===== verification/Libero_Env_Correct.thy ===== *)
theory Libero_Env_Correct
  imports Libero_Env "HOL-Library.Multiset"
begin

text \<open>
  What the LIBERO environments guarantee: the numbering of the trials, the shares of initial states that the
  workers get, the account of an episode, and the flags and reports of a chunk of steps.
\<close>

subsection \<open>The numbering of trials\<close>

lemma find_task_out: "s + sum_list bins \<le> r \<Longrightarrow> find_task r s i (cumsum_from s bins) = None"
  by (induction bins arbitrary: s i) auto

lemma find_task_in:
  "s \<le> r \<Longrightarrow> r < s + sum_list bins \<Longrightarrow> \<exists>t k. find_task r s i (cumsum_from s bins) = Some (i + t, k)
     \<and> t < length bins \<and> k < bins ! t \<and> r = s + sum_list (take t bins) + k"
proof (induction bins arbitrary: s i)
  case (Cons b bins)
  show ?case
  proof (cases "r < s + b")
    case True
    then show ?thesis using Cons.prems by (intro exI [of _ 0] exI [of _ "r - s"]) simp
  next
    case False
    obtain t k where "find_task r (s + b) (i + 1) (cumsum_from (s + b) bins) = Some (i + 1 + t, k)"
        "t < length bins" "k < bins ! t" "r = s + b + sum_list (take t bins) + k"
      using Cons.IH [of "s + b" "i + 1"] Cons.prems False by auto
    then show ?thesis using False by (intro exI [of _ "Suc t"] exI [of _ k]) simp
  qed
qed simp

lemma find_task_at:
  "t < length bins \<Longrightarrow> k < bins ! t \<Longrightarrow> find_task (s + sum_list (take t bins) + k) s i (cumsum_from s bins) = Some (i + t, k)"
proof (induction bins arbitrary: s i t)
  case (Cons b bins)
  show ?case
  proof (cases t)
    case (Suc t')
    then show ?thesis using Cons.IH [of t' "s + b" "i + 1"] Cons.prems by (simp add: add.assoc)
  qed (use Cons.prems in simp)
qed simp

text \<open>The numbers below the total stand for the trials of the tasks one to one: the task and trial found for a
  number lead back to it, every trial of every task is found under its own number, and no other number is found.\<close>
theorem trials_numbered:
  "(r < total_num_group_envs bins \<longrightarrow>
       (\<exists>task trial. find_task r 0 0 (cumsum_from 0 bins) = Some (task, trial) \<and> task < length bins \<and> trial < bins ! task
          \<and> r = sum_list (take task bins) + trial))
   \<and> (total_num_group_envs bins \<le> r \<longrightarrow> find_task r 0 0 (cumsum_from 0 bins) = None)
   \<and> (task < length bins \<and> trial < bins ! task \<longrightarrow>
       find_task (sum_list (take task bins) + trial) 0 0 (cumsum_from 0 bins) = Some (task, trial))"
  using find_task_in [of 0 r bins 0] find_task_out [of 0 bins r 0] find_task_at [of task bins trial 0 0]
  by (auto simp: total_num_group_envs_def)

lemma trials_numbered_witness:
  "find_task 6 0 0 (cumsum_from 0 [2, 3, 4]) = Some (2, 1) \<and> find_task 9 0 0 (cumsum_from 0 [2, 3, 4]) = None"
  using trials_numbered [of 9 "[2, 3, 4]" 2 1] by (simp add: total_num_group_envs_def)

subsection \<open>The account of an episode\<close>

definition run_stats :: "'v::linordered_field libero_cfg \<Rightarrow> bool list \<Rightarrow> 'v episode_stats \<Rightarrow> 'v episode_stats" where
  "run_stats c ts st = fold (\<lambda>t st. fst (snd (step_stats c t st))) ts st"

lemma run_stats_snoc: "run_stats c (ts @ [t]) st = fst (snd (step_stats c t (run_stats c ts st)))"
  by (simp add: run_stats_def)

definition success_count :: "bool list \<Rightarrow> nat" where
  "success_count ts = length (filter id ts)"

text \<open>The record of an episode accounts for its steps: the length is their number, success was seen when one
  of them succeeded, and the return is the reward times the number of successful steps, or, with relative
  rewards, the reward when the last step succeeded and 0 otherwise.\<close>
theorem episode_account:
  fixes c :: "'v::linordered_field libero_cfg"
  shows "ep_elapsed (run_stats c ts new_stats) = length ts
     \<and> once_success (run_stats c ts new_stats) = (True \<in> set ts)
     \<and> ep_return (run_stats c ts new_stats)
       = lc_reward_coef c * (if lc_use_rel_reward c then of_bool (ts \<noteq> [] \<and> List.last ts) else of_nat (success_count ts))"
proof -
  let ?st = "run_stats c ts new_stats"
  have "ep_elapsed ?st = length ts \<and> once_success ?st = (True \<in> set ts)
     \<and> prev_reward ?st = lc_reward_coef c * of_bool (ts \<noteq> [] \<and> List.last ts)
     \<and> ep_return ?st = lc_reward_coef c * (if lc_use_rel_reward c then of_bool (ts \<noteq> [] \<and> List.last ts) else of_nat (success_count ts))"
  proof (induction ts rule: rev_induct)
    case Nil
    show ?case by (simp add: run_stats_def new_stats_def success_count_def)
  next
    case (snoc t ts)
    then show ?case by (auto simp: run_stats_snoc step_stats_def success_count_def Let_def algebra_simps)
  qed
  then show ?thesis by blast
qed

subsection \<open>The shares of the workers\<close>

lemma segment_eq_map:
  assumes "a + n \<le> length xs"
  shows "take n (drop a xs) = map ((!) xs) [a..<a + n]"
  using assms by (auto intro!: nth_equalityI)

lemma segments_disjoint:
  assumes "distinct xs" "a + n \<le> b" "b + m \<le> length xs"
  shows "set (take n (drop a xs)) \<inter> set (take m (drop b xs)) = {}"
proof -
  have "take n (drop a xs) = map ((!) xs) [a..<a + n]" "take m (drop b xs) = map ((!) xs) [b..<b + m]"
    using assms by (intro segment_eq_map; simp)+
  then show ?thesis using assms by (auto simp: nth_eq_iff_index_eq)
qed

lemma row_segment:
  assumes "k + n \<le> w" "i * w + w \<le> v" "v \<le> length xs"
  shows "take n (drop k (take w (drop (i * w) (take v xs)))) = take n (drop (i * w + k) xs)"
proof (rule nth_equalityI)
  show "length (take n (drop k (take w (drop (i * w) (take v xs))))) = length (take n (drop (i * w + k) xs))"
    using assms by simp
qed (use assms in \<open>simp add: add.assoc\<close>)

text \<open>The widths of rows and the calls an order lasts for; the start after some calls.\<close>

definition row_width :: "'v libero_cfg \<Rightarrow> nat list \<Rightarrow> nat" where
  "row_width c bins = total_num_group_envs bins div lc_workers c"

definition calls_per_order :: "'v libero_cfg \<Rightarrow> nat list \<Rightarrow> nat \<Rightarrow> nat" where
  "calls_per_order c bins n = row_width c bins div n"

definition shuffles_permute :: "('s, 'a, 'o, 'g) libero_ops \<Rightarrow> bool" where
  "shuffles_permute ops \<longleftrightarrow> (\<forall>k xs. mset (shuffle_ids ops k xs) = mset xs)"

lemma order_rows:
  assumes "shuffles_permute ops" "0 < lc_workers c" "i < lc_workers c" "k + n \<le> row_width c bins"
  shows "take n (drop k (reset_state_ids_all ops (lc_workers c) e (total_num_group_envs bins) ! i))
       = take n (drop (i * row_width c bins + k) (shuffle_ids ops e [0..<total_num_group_envs bins]))"
    and "length (reset_state_ids_all ops (lc_workers c) e (total_num_group_envs bins) ! i) = row_width c bins"
    and "i * row_width c bins + k + n \<le> total_num_group_envs bins"
proof -
  let ?t = "total_num_group_envs bins" and ?w = "row_width c bins" and ?p = "lc_workers c"
  have len: "length (shuffle_ids ops e [0..<?t]) = ?t"
    using assms(1) by (metis diff_zero length_upt shuffles_permute_def size_mset)
  have v: "?t - ?t mod ?p = ?w * ?p" "?w * ?p \<le> ?t" by (simp_all add: row_width_def minus_mod_eq_div_mult)
  have "i * ?w + ?w = (i + 1) * ?w" by simp
  also have "\<dots> \<le> ?p * ?w" using assms(3) by (intro mult_le_mono1) simp
  finally have i: "i * ?w + ?w \<le> ?w * ?p" by (simp add: mult.commute)
  have row: "reset_state_ids_all ops ?p e ?t ! i = take ?w (drop (i * ?w) (take (?w * ?p) (shuffle_ids ops e [0..<?t])))"
    using assms(2,3) by (simp add: reset_state_ids_all_def Let_def v)
  show "take n (drop k (reset_state_ids_all ops ?p e ?t ! i)) = take n (drop (i * ?w + k) (shuffle_ids ops e [0..<?t]))"
    unfolding row by (rule row_segment [OF assms(4) i]) (simp add: len v(2))
  show "length (reset_state_ids_all ops ?p e ?t ! i) = ?w" using i v(2) by (simp add: row len)
  show "i * ?w + k + n \<le> ?t" using assms(4) i v(2) by linarith
qed

text \<open>The state after some calls.\<close>

definition at_call ::
    "('s, 'a, 'o, 'g) libero_ops \<Rightarrow> 'v libero_cfg \<Rightarrow> nat list \<Rightarrow> nat \<Rightarrow> nat \<Rightarrow> ('s, 'o, 'g, 'v) libero \<Rightarrow> bool" where
  "at_call ops c bins n m s \<longleftrightarrow>
     (let q = calls_per_order c bins n;
          (e, k) = (case m of 0 \<Rightarrow> (0, 0) | Suc m' \<Rightarrow> (m' div q, (m' mod q + 1) * n))
      in le_ids_all s = reset_state_ids_all ops (lc_workers c) e (total_num_group_envs bins)
         \<and> le_shuffles s = e + 1 \<and> le_start_idx s = k)"

lemma at_call_step:
  assumes "shuffles_permute ops" "lc_specific_reset_id c = None" "lc_worker_index c < lc_workers c"
    and "0 < n" "n \<le> row_width c bins" "at_call ops c bins n m s"
  defines "q \<equiv> calls_per_order c bins n"
  shows "fst (ordered_reset_ids ops c bins n s)
       = take n (drop (m mod q * n) (reset_state_ids_all ops (lc_workers c) (m div q) (total_num_group_envs bins) ! lc_worker_index c))"
    and "at_call ops c bins n (Suc m) (snd (ordered_reset_ids ops c bins n s))"
proof -
  let ?all = "\<lambda>e. reset_state_ids_all ops (lc_workers c) e (total_num_group_envs bins)"
  have p: "0 < lc_workers c" using assms(3) by simp
  have w: "length (?all e ! 0) = row_width c bins" for e
    by (rule order_rows(2) [OF assms(1) p p, of 0 0]) simp
  have q: "0 < q" using assms(4,5) by (simp add: q_def calls_per_order_def div_greater_zero_iff)
  define e k where "e = (case m of 0 \<Rightarrow> 0 | Suc m' \<Rightarrow> m' div q)" and "k = (case m of 0 \<Rightarrow> 0 | Suc m' \<Rightarrow> (m' mod q + 1) * n)"
  have s: "le_ids_all s = ?all e" "le_shuffles s = e + 1" "le_start_idx s = k"
    using assms(6) by (auto simp: at_call_def Let_def e_def k_def q_def split: nat.splits)
  have full: "k + n > row_width c bins \<longleftrightarrow> m \<noteq> 0 \<and> m mod q = 0"
  proof (cases m)
    case (Suc m')
    have "k + n = (m' mod q + 2) * n" by (simp add: k_def Suc)
    then have "k + n > row_width c bins \<longleftrightarrow> \<not> m' mod q + 2 \<le> row_width c bins div n"
      using less_eq_div_iff_mult_less_eq [OF assms(4), of "m' mod q + 2" "row_width c bins"] by linarith
    then have "k + n > row_width c bins \<longleftrightarrow> q < m' mod q + 2" by (simp only: q_def calls_per_order_def not_le)
    also have "\<dots> \<longleftrightarrow> Suc (m' mod q) = q" using q mod_less_divisor [of q m'] by linarith
    finally show ?thesis using q by (simp add: Suc mod_Suc)
  qed (use assms(5) in \<open>simp add: k_def\<close>)
  have e: "m div q = (if m \<noteq> 0 \<and> m mod q = 0 then e + 1 else e)" and k: "m mod q * n = (if m \<noteq> 0 \<and> m mod q = 0 then 0 else k)"
    using q by (cases m; auto simp: e_def k_def div_Suc mod_Suc split: if_splits)+
  show "fst (ordered_reset_ids ops c bins n s) = take n (drop (m mod q * n) (?all (m div q) ! lc_worker_index c))"
    using assms(2) full by (auto simp: ordered_reset_ids_def s w e k Let_def)
  show "at_call ops c bins n (Suc m) (snd (ordered_reset_ids ops c bins n s))"
    using assms(2) full by (auto simp: ordered_reset_ids_def at_call_def s w e k Let_def simp flip: q_def)
qed

text \<open>What the m-th call hands out.\<close>

definition call_ids ::
    "('s, 'a, 'o, 'g) libero_ops \<Rightarrow> 'v libero_cfg \<Rightarrow> nat list \<Rightarrow> nat \<Rightarrow> nat \<Rightarrow> ('s, 'o, 'g, 'v) libero \<Rightarrow> nat list" where
  "call_ids ops c bins n m s =
     fst (ordered_reset_ids ops c bins n (((\<lambda>s. snd (ordered_reset_ids ops c bins n s)) ^^ m) s))"

definition fresh_order :: "('s, 'a, 'o, 'g) libero_ops \<Rightarrow> 'v libero_cfg \<Rightarrow> nat list \<Rightarrow> ('s, 'o, 'g, 'v) libero \<Rightarrow> bool" where
  "fresh_order ops c bins s \<longleftrightarrow> le_ids_all s = reset_state_ids_all ops (lc_workers c) 0 (total_num_group_envs bins)
     \<and> le_shuffles s = 1 \<and> le_start_idx s = 0"

lemma call_ids_eq:
  assumes "shuffles_permute ops" "lc_specific_reset_id c = None" "lc_worker_index c < lc_workers c"
    and "0 < n" "n \<le> row_width c bins" "fresh_order ops c bins s"
  defines "q \<equiv> calls_per_order c bins n"
  shows "call_ids ops c bins n m s
       = take n (drop (m mod q * n) (reset_state_ids_all ops (lc_workers c) (m div q) (total_num_group_envs bins) ! lc_worker_index c))"
proof -
  have "at_call ops c bins n m (((\<lambda>s. snd (ordered_reset_ids ops c bins n s)) ^^ m) s)"
  proof (induction m)
    case 0
    show ?case using assms(6) by (simp add: at_call_def fresh_order_def)
  next
    case (Suc m)
    show ?case using at_call_step(2) [OF assms(1-5) Suc] by simp
  qed
  from at_call_step(1) [OF assms(1-5) this] show ?thesis by (simp add: call_ids_def q_def)
qed

lemma blocks_apart: "a \<noteq> b \<Longrightarrow> (a + 1) * n \<le> b * n \<or> (b + 1) * n \<le> a * n" for a b n :: nat
  using mult_le_mono1 [of "a + 1" b n] mult_le_mono1 [of "b + 1" a n] by linarith

text \<open>C30: workers that shuffle alike and read the order in turns share the initial states: until the next shuffle, all
  calls of all workers get different ids, as many as they ask for, each of them the number of a trial.\<close>
theorem workers_share_states:
  fixes c :: "'v libero_cfg" and ops :: "('s, 'a, 'o, 'g) libero_ops" and s s' :: "('s, 'o, 'g, 'v) libero"
  assumes "shuffles_permute ops" "lc_specific_reset_id c = None" "0 < n" "n \<le> row_width c bins"
    and "i < lc_workers c" "j < lc_workers c" "fresh_order ops c bins s" "fresh_order ops c bins s'"
    and "m div calls_per_order c bins n = m' div calls_per_order c bins n" "(i, m) \<noteq> (j, m')"
  defines "ids \<equiv> call_ids ops (c\<lparr>lc_worker_index := i\<rparr>) bins n m s" and "ids' \<equiv> call_ids ops (c\<lparr>lc_worker_index := j\<rparr>) bins n m' s'"
  shows "set ids \<inter> set ids' = {} \<and> distinct ids \<and> length ids = n \<and> set ids \<subseteq> {..<total_num_group_envs bins}"
proof -
  let ?w = "row_width c bins" and ?q = "calls_per_order c bins n" and ?t = "total_num_group_envs bins"
  define e where "e = m div ?q"
  define order where "order = shuffle_ids ops e [0..<?t]"
  have p: "0 < lc_workers c" using assms(5) by simp
  have "mset order = mset [0..<?t]" using assms(1) by (simp add: shuffles_permute_def order_def)
  then have order: "distinct order" "length order = ?t" "set order = {..<?t}"
    using mset_eq_imp_distinct_iff mset_eq_length mset_eq_setD by fastforce+
  have q: "0 < ?q" using assms(3,4) by (simp add: calls_per_order_def div_greater_zero_iff)
  have fits: "k mod ?q * n + n \<le> ?w" for k
  proof -
    have "k mod ?q * n + n = (k mod ?q + 1) * n" by simp
    also have "\<dots> \<le> ?q * n" using q by (intro mult_le_mono1) (simp add: Suc_le_eq)
    also have "\<dots> \<le> ?w" by (simp add: calls_per_order_def)
    finally show ?thesis .
  qed
  let ?at = "\<lambda>i k. i * ?w + k mod ?q * n"
  have ids: "call_ids ops (c\<lparr>lc_worker_index := l\<rparr>) bins n k s = take n (drop (?at l k) order)"
    if "l < lc_workers c" "k div ?q = e" "fresh_order ops c bins s" for l k and s :: "('s, 'o, 'g, 'v) libero"
  proof -
    have "row_width (c\<lparr>lc_worker_index := l\<rparr>) bins = ?w" "calls_per_order (c\<lparr>lc_worker_index := l\<rparr>) bins n = ?q"
        "fresh_order ops (c\<lparr>lc_worker_index := l\<rparr>) bins s"
      using that(3) by (simp_all add: row_width_def calls_per_order_def fresh_order_def)
    then show ?thesis
      using call_ids_eq [of ops "c\<lparr>lc_worker_index := l\<rparr>" n bins s k] assms(1-4) that(1,2)
        order_rows(1) [OF assms(1) p that(1) fits [of k], of e] by (simp add: order_def)
  qed
  have bound: "?at l k + n \<le> length order" if "l < lc_workers c" for l k
    using order_rows(3) [OF assms(1) p that fits [of k]] order(2) by simp
  have apart: "?at i m + n \<le> ?at j m' \<or> ?at j m' + n \<le> ?at i m"
  proof (cases "i = j")
    case True
    then have "m \<noteq> m'" using assms(10) by simp
    then have "m mod ?q \<noteq> m' mod ?q" using assms(9) by (metis div_mult_mod_eq)
    then have "(m mod ?q + 1) * n \<le> m' mod ?q * n \<or> (m' mod ?q + 1) * n \<le> m mod ?q * n" by (rule blocks_apart)
    then show ?thesis using True by auto
  next
    case False
    then have "(i + 1) * ?w \<le> j * ?w \<or> (j + 1) * ?w \<le> i * ?w"
      by (rule blocks_apart)
    then show ?thesis using fits [of m] fits [of m'] by auto
  qed
  have eq: "ids = take n (drop (?at i m) order)" "ids' = take n (drop (?at j m') order)"
    unfolding ids_def ids'_def using assms(5-9) by (auto intro!: ids simp: e_def)
  have "set ids \<inter> set ids' = {}"
    using apart
  proof
    assume "?at i m + n \<le> ?at j m'"
    then show ?thesis unfolding eq by (rule segments_disjoint [OF order(1) _ bound [OF assms(6)]])
  next
    assume "?at j m' + n \<le> ?at i m"
    then show ?thesis unfolding eq by (subst Int_commute) (rule segments_disjoint [OF order(1) _ bound [OF assms(5)]])
  qed
  moreover have "distinct ids" "length ids = n" "set ids \<subseteq> {..<?t}"
    using bound [OF assms(5), of m] order by (auto simp: eq dest: in_set_takeD in_set_dropD)
  ultimately show ?thesis by blast
qed

lemma workers_share_states_witness:
  "set (call_ids \<lparr>sim_step = \<lambda>s _. (s, [] :: (nat \<times> bool) list), sim_reconfigure = \<lambda>s _. s, sim_reset = \<lambda>s _. s, sim_set_state = \<lambda>s _. s,
        zero_action = \<lambda>_. (), rand_ints = \<lambda>g n. (g, replicate n 0), shuffle_ids = \<lambda>k xs. rev xs\<rparr>
      \<lparr>lc_num_envs = 2, lc_group_size = 1, lc_workers = 2, lc_worker_index = 1, lc_specific_reset_id = None, lc_use_fixed_ids = True,
       lc_use_ordered_ids = True, lc_is_eval = False, lc_auto_reset = True, lc_ignore_terminations = False, lc_use_rel_reward = True,
       lc_reward_coef = (5 :: rat), lc_max_steps = 10, lc_gripper_open = False\<rparr> [3, 5] 2 0
      \<lparr>le_sim = (), le_gen = (), le_shuffles = 1, le_ids_all = [[7, 6, 5, 4], [3, 2, 1, 0]], le_start_idx = 0, le_reset_ids = [],
       le_task_ids = [], le_trial_ids = [], le_is_start = True, le_stats = [], le_raw_obs = None\<rparr>) \<subseteq> {..<8}"
  (is "set (call_ids ?ops ?c ?bins 2 0 ?s) \<subseteq> _")
proof -
  have w: "row_width ?c ?bins = 4" "calls_per_order ?c ?bins 2 = 2"
    by (simp_all add: row_width_def calls_per_order_def total_num_group_envs_def)
  have "reset_state_ids_all ?ops 2 0 8 = [[7, 6, 5, 4], [3, 2, 1, 0]]" by (simp add: reset_state_ids_all_def upt_rec Let_def)
  then have f: "fresh_order ?ops ?c ?bins ?s" by (simp add: fresh_order_def total_num_group_envs_def)
  have p: "shuffles_permute ?ops" by (simp add: shuffles_permute_def)
  from workers_share_states [OF p, of ?c 2 ?bins 1 0 ?s ?s 0 0] w f show ?thesis by (simp add: total_num_group_envs_def)
qed

subsection \<open>Chunks of steps\<close>

text \<open>The simulator answers for every environment it steps.\<close>

definition sim_answers :: "('s, 'a, 'o, 'g) libero_ops \<Rightarrow> bool" where
  "sim_answers ops \<longleftrightarrow> (\<forall>s xs. length (snd (sim_step ops s xs)) = length xs)"

text \<open>Which environments the simulator finds successful, step by step.\<close>

definition sim_run :: "('s, 'a, 'o, 'g) libero_ops \<Rightarrow> 'a list list \<Rightarrow> 's \<Rightarrow> 's \<times> bool list list" where
  "sim_run ops chunk sim =
     fold (\<lambda>actions (sim, acc). case sim_step ops sim (enumerate 0 actions) of (sim, outs) \<Rightarrow> (sim, acc @ [map snd outs]))
       chunk (sim, [])"

abbreviation successes :: "('s, 'a, 'o, 'g) libero_ops \<Rightarrow> 'a list list \<Rightarrow> ('s, 'o, 'g, 'v) libero \<Rightarrow> bool list list" where
  "successes ops chunk s \<equiv> snd (sim_run ops chunk (le_sim s))"

definition account :: "'v episode_stats \<Rightarrow> 'v \<times> nat \<times> bool" where
  "account st = (ep_return st, ep_elapsed st, once_success st)"

definition reported_account :: "'v episode_report \<Rightarrow> 'v \<times> nat \<times> bool" where
  "reported_account r = (rep_return r, rep_len r, rep_success_once r)"

lemma step_stats_account:
  "reported_account (snd (snd (step_stats c t st))) = account (fst (snd (step_stats c t st)))"
  "ep_elapsed (fst (snd (step_stats c t st))) = ep_elapsed st + 1"
  by (simp_all add: step_stats_def reported_account_def account_def Let_def)

lemma libero_step_envs:
  assumes "sim_answers ops" "length actions = length (le_stats s)" "libero_step ops c actions s = (res, reps, s')"
  defines "t \<equiv> map snd (snd (sim_step ops (le_sim s) (enumerate 0 actions)))"
  shows "le_sim s' = fst (sim_step ops (le_sim s) (enumerate 0 actions))
     \<and> length t = length (le_stats s) \<and> length res = length t \<and> length reps = length t \<and> length (le_stats s') = length t
     \<and> (\<forall>e < length t. le_stats s' ! e = fst (snd (step_stats c (t ! e) (le_stats s ! e)))
          \<and> reported_account (reps ! e) = account (le_stats s' ! e)
          \<and> snd (res ! e) = (t ! e \<and> \<not> lc_ignore_terminations c, lc_max_steps c \<le> ep_elapsed (le_stats s' ! e)))"
proof -
  obtain sim outs where o: "sim_step ops (le_sim s) (enumerate 0 actions) = (sim, outs)" by fastforce
  then have len: "length outs = length (le_stats s)" using assms(1,2) by (metis length_enumerate sim_answers_def snd_conv)
  show ?thesis
    using assms(3) len unfolding t_def by (auto simp: libero_step_def o Let_def case_prod_beta step_stats_account)
qed

lemma run_stats_elapsed: "ep_elapsed (run_stats c ts st) = ep_elapsed st + length ts"
proof (induction ts rule: rev_induct)
  case Nil
  show ?case by (simp add: run_stats_def)
next
  case (snoc t ts)
  then show ?case by (simp add: run_stats_snoc step_stats_account)
qed

lemma chunk_loop_envs:
  assumes "sim_answers ops" "\<forall>a \<in> set chunk. length a = length (le_stats s)" "chunk_loop ops c chunk s = (steps, reps, s')"
  defines "n \<equiv> length (le_stats s)" and "ts \<equiv> successes ops chunk s"
  shows "le_sim s' = fst (sim_run ops chunk (le_sim s)) \<and> length ts = length chunk \<and> length steps = length chunk \<and> length (le_stats s') = n
     \<and> (chunk \<noteq> [] \<longrightarrow> length reps = n \<and> (\<forall>e < n. reported_account (reps ! e) = account (le_stats s' ! e)))
     \<and> (\<forall>e < n. le_stats s' ! e = run_stats c (map (\<lambda>t. t ! e) ts) (le_stats s ! e)
          \<and> (\<forall>k < length chunk. snd (steps ! k ! e) = (ts ! k ! e \<and> \<not> lc_ignore_terminations c,
                lc_max_steps c \<le> ep_elapsed (le_stats s ! e) + k + 1)))"
  using assms(2,3) unfolding ts_def
proof (induction chunk arbitrary: steps reps s' rule: rev_induct)
  case Nil
  then show ?case by (auto simp: chunk_loop_def n_def run_stats_def sim_run_def)
next
  case (snoc a chunk)
  obtain steps1 reps1 s1 where one: "chunk_loop ops c chunk s = (steps1, reps1, s1)" by (cases "chunk_loop ops c chunk s")
  obtain res where r: "libero_step ops c a s1 = (res, reps, s')" "steps = steps1 @ [res]"
    using snoc.prems(2) one by (auto simp: chunk_loop_def split: prod.splits)
  let ?ts = "successes ops chunk s" and ?t = "map snd (snd (sim_step ops (le_sim s1) (enumerate 0 a)))"
  have ts: "le_sim s1 = fst (sim_run ops chunk (le_sim s))" "length ?ts = length chunk" "length steps1 = length chunk" "length (le_stats s1) = n"
      "\<And>e. e < n \<Longrightarrow> le_stats s1 ! e = run_stats c (map (\<lambda>t. t ! e) ?ts) (le_stats s ! e)"
      "\<And>e k. e < n \<Longrightarrow> k < length chunk \<Longrightarrow> snd (steps1 ! k ! e) = (?ts ! k ! e \<and> \<not> lc_ignore_terminations c,
                lc_max_steps c \<le> ep_elapsed (le_stats s ! e) + k + 1)"
    using snoc.IH [OF _ one] snoc.prems(1) by auto
  have len: "length a = length (le_stats s1)" using snoc.prems(1) ts(4) n_def by auto
  have t: "le_sim s' = fst (sim_step ops (le_sim s1) (enumerate 0 a))" "length ?t = n" "length res = n" "length reps = n" "length (le_stats s') = n"
      "\<And>e. e < n \<Longrightarrow> le_stats s' ! e = fst (snd (step_stats c (?t ! e) (le_stats s1 ! e)))"
      "\<And>e. e < n \<Longrightarrow> reported_account (reps ! e) = account (le_stats s' ! e)"
      "\<And>e. e < n \<Longrightarrow> snd (res ! e) = (?t ! e \<and> \<not> lc_ignore_terminations c, lc_max_steps c \<le> ep_elapsed (le_stats s' ! e))"
    using libero_step_envs [OF assms(1) len r(1)] ts(4) by auto
  have snoc_ts: "successes ops (chunk @ [a]) s = ?ts @ [?t]" "fst (sim_run ops (chunk @ [a]) (le_sim s)) = le_sim s'"
    using ts(1) t(1) by (simp_all add: sim_run_def case_prod_beta)
  have st: "le_stats s' ! e = run_stats c (map (\<lambda>t. t ! e) (?ts @ [?t])) (le_stats s ! e)" if "e < n" for e
    using that by (simp add: t(6) ts(5) run_stats_snoc)
  have flags: "snd (steps ! k ! e) = ((?ts @ [?t]) ! k ! e \<and> \<not> lc_ignore_terminations c, lc_max_steps c \<le> ep_elapsed (le_stats s ! e) + k + 1)"
    if "e < n" "k < length (chunk @ [a])" for e k
  proof -
    from that(2) consider "k < length chunk" | "k = length chunk" by fastforce
    then show ?thesis
      by cases (use that(1) in \<open>simp_all add: r(2) nth_append ts t(8) st run_stats_elapsed\<close>)
  qed
  show ?case unfolding snoc_ts using t ts(2,3) st flags by (simp add: r(2))
qed

text \<open>A reset renews the records of the environments reset, whatever initial states they are given.\<close>

lemma random_reset_ids_stats: "le_stats (snd (random_reset_ids ops c n s)) = le_stats s"
  by (simp add: random_reset_ids_def split: option.split prod.split)

lemma update_reset_state_ids_stats: "le_stats (update_reset_state_ids ops c bins s) = le_stats s"
  by (simp add: update_reset_state_ids_def ordered_reset_ids_def random_reset_ids_def Let_def case_prod_beta split: option.split)

lemma reconfigure_stats:
  assumes "reconfigure ops bins ids env_idx s = Inr s'"
  shows "le_stats s' = le_stats s"
proof -
  obtain changed t where t: "foldM (\<lambda>st je. retask (task_and_trial_ids bins ids) je st) ([], s) (enumerate 0 env_idx) = Inr (changed, t)"
      and "le_stats s' = le_stats t"
    using assms by (auto simp: reconfigure_def Let_def result_simps)
  moreover have "le_stats (snd (changed, t)) = le_stats s"
    using t by (rule foldM_invariant [where I = "\<lambda>st. le_stats (snd st) = le_stats s"])
      (auto simp: retask_def Let_def result_simps split: prod.splits)
  ultimately show ?thesis by simp
qed

lemma libero_reset_stats:
  assumes "libero_reset ops c bins env_idx given s = Inr (raw, s')"
  shows "le_stats s' = reset_stats env_idx (le_stats s)"
proof -
  define start where "start = (if le_is_start s then (if lc_use_fixed_ids c then Some (le_reset_ids s) else None, s\<lparr>le_is_start := False\<rparr>)
                        else (given, s))"
  define drawn where "drawn = (case fst start of None \<Rightarrow> random_reset_ids ops c (length env_idx) (snd start) | Some ids \<Rightarrow> (ids, snd start))"
  have same: "le_stats (snd drawn) = le_stats s"
    by (auto simp: drawn_def start_def random_reset_ids_stats split: option.split)
  obtain u where u: "reconfigure ops bins (fst drawn) env_idx (snd drawn) = Inr u" "le_stats s' = reset_stats env_idx (le_stats u)"
    using assms unfolding libero_reset_def start_def [symmetric] Let_def case_prod_beta drawn_def [symmetric]
    by (auto simp: result_simps)
  then show ?thesis using reconfigure_stats [OF u(1)] same by simp
qed

lemma handle_auto_reset_stats:
  assumes "handle_auto_reset ops c bins dones s = Inr (raw, s')"
  shows "le_stats s' = reset_stats (filter (\<lambda>e. dones ! e) [0..<length dones]) (le_stats s)"
  using assms libero_reset_stats [where ops = ops and c = c and bins = bins]
  by (auto simp: handle_auto_reset_def result_simps Let_def update_reset_state_ids_stats split: if_splits)

text \<open>The flags of a chunk are moved to its last column.\<close>

lemma map2_false: "map2 (\<or>) (replicate m False) (replicate m False) = replicate m False"
  by (simp add: zip_replicate)

definition finished :: "'v libero_cfg \<Rightarrow> bool list list \<Rightarrow> ('s, 'o, 'g, 'v) libero \<Rightarrow> nat \<Rightarrow> bool" where
  "finished c ts s e \<longleftrightarrow>
     (\<exists>k < length ts. ts ! k ! e \<and> \<not> lc_ignore_terminations c \<or> lc_max_steps c \<le> ep_elapsed (le_stats s ! e) + k + 1)"

text \<open>The record of an environment after a chunk, before any reset.\<close>

definition chunk_stats :: "'v::linordered_field libero_cfg \<Rightarrow> bool list list \<Rightarrow> ('s, 'o, 'g, 'v) libero \<Rightarrow> nat \<Rightarrow> 'v episode_stats" where
  "chunk_stats c ts s e = run_stats c (map (\<lambda>t. t ! e) ts) (le_stats s ! e)"

lemma chunk_step_dones:
  assumes "sim_answers ops" "chunk \<noteq> []" "\<forall>a \<in> set chunk. length a = lc_num_envs c" "length (le_stats s) = lc_num_envs c"
    and "lc_auto_reset c" "chunk_step ops c bins chunk s = Inr (r, s')"
  defines "ts \<equiv> successes ops chunk s"
  shows "length (ch_reports r) = lc_num_envs c
    \<and> (\<forall>e < lc_num_envs c. reported_account (ch_reports r ! e) = account (chunk_stats c ts s e))
    \<and> le_stats s' = map (\<lambda>e. if finished c ts s e then new_stats else chunk_stats c ts s e) [0..<lc_num_envs c]
    \<and> (ch_final_obs r \<noteq> None) = (\<exists>e < lc_num_envs c. finished c ts s e)
    \<and> map2 (\<lambda>t u. map2 (\<or>) t u) (ch_terminations r) (ch_truncations r)
      = map (\<lambda>e. replicate (length chunk - 1) False @ [finished c ts s e]) [0..<lc_num_envs c]"
proof -
  obtain steps reps t where loop: "chunk_loop ops c chunk s = (steps, reps, t)" by (cases "chunk_loop ops c chunk s")
  let ?n = "lc_num_envs c"
  have ts: "length ts = length chunk" "length steps = length chunk" "length (le_stats t) = ?n" "length reps = ?n"
      "\<And>e. e < ?n \<Longrightarrow> reported_account (reps ! e) = account (le_stats t ! e)"
      "\<And>e. e < ?n \<Longrightarrow> le_stats t ! e = chunk_stats c ts s e"
      "\<And>e k. e < ?n \<Longrightarrow> k < length chunk \<Longrightarrow> snd (steps ! k ! e) = (ts ! k ! e \<and> \<not> lc_ignore_terminations c,
                lc_max_steps c \<le> ep_elapsed (le_stats s ! e) + k + 1)"
    using chunk_loop_envs [OF assms(1) _ loop] assms(2-4) unfolding chunk_stats_def ts_def by auto
  let ?terms = "map (\<lambda>e. map (\<lambda>row. fst (snd (row ! e))) steps) [0..<?n]"
  let ?truncs = "map (\<lambda>e. map (\<lambda>row. snd (snd (row ! e))) steps) [0..<?n]"
  define dones where "dones = map2 (\<lambda>t u. True \<in> set t \<or> True \<in> set u) ?terms ?truncs"
  have dones: "dones = map (finished c ts s) [0..<?n]"
  proof (rule nth_equalityI)
    fix e assume "e < length dones"
    then have e: "e < ?n" by (simp add: dones_def)
    have "dones ! e \<longleftrightarrow> (\<exists>k < length chunk. fst (snd (steps ! k ! e)) \<or> snd (snd (steps ! k ! e)))"
      using e by (auto simp: dones_def in_set_conv_nth ts(2))
    also have "\<dots> \<longleftrightarrow> finished c ts s e" using e by (auto simp: ts(1,7) finished_def)
    finally show "dones ! e = map (finished c ts s) [0..<?n] ! e" using e by simp
  qed (simp add: dones_def)
  have some: "True \<in> set dones \<longleftrightarrow> (\<exists>e < ?n. finished c ts s e)" by (auto simp: dones)
  have "map2 (\<lambda>t u. map2 (\<or>) t u) (only_at_end ?terms) (only_at_end ?truncs)
      = map (\<lambda>d. replicate (length chunk - 1) False @ [d]) dones"
    unfolding dones_def only_at_end_def by (intro nth_equalityI) (simp_all add: ts(2) zip_append map2_false)
  then have col: "map2 (\<lambda>t u. map2 (\<or>) t u) (only_at_end ?terms) (only_at_end ?truncs)
      = map (\<lambda>e. replicate (length chunk - 1) False @ [finished c ts s e]) [0..<?n]"
    by (simp add: dones)
  obtain u where r: "ch_reports r = reps" "ch_terminations r = only_at_end ?terms" "ch_truncations r = only_at_end ?truncs"
      "(ch_final_obs r \<noteq> None) = (True \<in> set dones)"
      "if True \<in> set dones then handle_auto_reset ops c bins dones t = Inr (u, s') else s' = t"
    using assms(2,5,6) unfolding chunk_step_def loop Let_def dones_def [symmetric] prod.case
    by (auto simp: result_simps map_sum_Inr_eq split: if_splits)
  have "le_stats s' = map (\<lambda>e. if finished c ts s e then new_stats else chunk_stats c ts s e) [0..<?n]"
  proof (cases "True \<in> set dones")
    case True
    then have "le_stats s' = reset_stats (filter (\<lambda>e. dones ! e) [0..<length dones]) (le_stats t)"
      using r(5) handle_auto_reset_stats by auto
    then show ?thesis
      by (intro nth_equalityI) (simp_all add: reset_stats_def dones ts(3,6) nth_enumerate_eq)
  next
    case False
    then show ?thesis using r(5) some by (intro nth_equalityI) (auto simp: ts(3,6))
  qed
  then show ?thesis using ts r some col dones by (intro conjI) simp_all
qed

text \<open>C29: with automatic resets, a chunk of steps reports the episodes of exactly the environments that succeeded (unless
  that is ignored) or reached the step limit, with their lengths, returns and successes before the reset; it resets the
  records of these environments and keeps those of the others.\<close>
theorem chunk_reports_finished:
  fixes c :: "'v::linordered_field libero_cfg" and ops :: "('s, 'a, 'o, 'g) libero_ops" and s s' :: "('s, 'o, 'g, 'v) libero"
  assumes "sim_answers ops" "chunk \<noteq> []" "\<forall>a \<in> set chunk. length a = lc_num_envs c" "length (le_stats s) = lc_num_envs c"
    and "lc_auto_reset c" "chunk_step ops c bins chunk s = Inr (r, s')"
  defines "ts \<equiv> successes ops chunk s"
  shows "map reported_account (reported_episodes c r)
       = map (account \<circ> chunk_stats c ts s) (filter (finished c ts s) [0..<lc_num_envs c])
    \<and> le_stats s' = map (\<lambda>e. if finished c ts s e then new_stats else chunk_stats c ts s e) [0..<lc_num_envs c]"
proof -
  note d = chunk_step_dones [OF assms(1-6), folded ts_def]
  let ?n = "lc_num_envs c" and ?f = "finished c ts s"
  let ?dones = "map (\<lambda>e. replicate (length chunk - 1) False @ [?f e]) [0..<?n]"
  have dones: "map2 (\<lambda>t u. map2 (\<or>) t u) (ch_terminations r) (ch_truncations r) = ?dones" using d by blast
  have reps: "ch_reports r = map (\<lambda>e. ch_reports r ! e) [0..<?n]" using d by (metis map_nth)
  have "reported_episodes c r = map (\<lambda>e. ch_reports r ! e) (filter ?f [0..<?n])"
  proof (cases "\<exists>e < ?n. ?f e")
    case True
    then have "True \<in> set (concat ?dones)" "ch_final_obs r \<noteq> None" using d by auto
    then have "reported_episodes c r = map snd (filter fst (zip (map ?f [0..<?n]) (ch_reports r)))"
      using assms(5) by (simp add: reported_episodes_def dones last_column_def comp_def Let_def)
    also have "\<dots> = map (\<lambda>e. ch_reports r ! e) (filter ?f [0..<?n])"
      by (subst reps) (simp add: zip_map_map zip_same_conv_map filter_map comp_def)
    finally show ?thesis .
  next
    case False
    then have "ch_final_obs r = None" using d by blast
    then show ?thesis using assms(5) False by (auto simp: reported_episodes_def Let_def filter_empty_conv)
  qed
  then show ?thesis using d by auto
qed

text \<open>A simulator that counts its steps and finds an environment successful at the step its action names.\<close>

definition counting_ops :: "(nat, nat, unit, unit) libero_ops" where
  "counting_ops = \<lparr>sim_step = \<lambda>s xs. (s + 1, map (\<lambda>(e, a). ((), a = s)) xs), sim_reconfigure = \<lambda>s _. s, sim_reset = \<lambda>s _. s,
     sim_set_state = \<lambda>s _. s, zero_action = \<lambda>_. 9, rand_ints = \<lambda>g n. (g, replicate n 0), shuffle_ids = \<lambda>k xs. xs\<rparr>"

definition counting_cfg :: "rat libero_cfg" where
  "counting_cfg = \<lparr>lc_num_envs = 2, lc_group_size = 1, lc_workers = 1, lc_worker_index = 0, lc_specific_reset_id = None,
     lc_use_fixed_ids = True, lc_use_ordered_ids = True, lc_is_eval = False, lc_auto_reset = True, lc_ignore_terminations = False,
     lc_use_rel_reward = True, lc_reward_coef = 5, lc_max_steps = 10, lc_gripper_open = False\<rparr>"

definition counting_libero :: "(nat, unit, unit, rat) libero" where
  "counting_libero = new_libero counting_ops counting_cfg [3, 5] 0 ()"

lemma chunk_reports_finished_witness:
  "case chunk_step counting_ops counting_cfg [3, 5] [[7, 1], [7, 1]] counting_libero of
     Inl _ \<Rightarrow> False
   | Inr (r, s') \<Rightarrow> map reported_account (reported_episodes counting_cfg r) = [(5, 2, True)]
       \<and> map ep_elapsed (le_stats s') = [2, 0]"
proof -
  have "case chunk_step counting_ops counting_cfg [3, 5] [[7, 1], [7, 1]] counting_libero of Inl _ \<Rightarrow> False | Inr _ \<Rightarrow> True"
    by code_simp
  then obtain r s' where run: "chunk_step counting_ops counting_cfg [3, 5] [[7, 1], [7, 1]] counting_libero = Inr (r, s')"
    by (cases "chunk_step counting_ops counting_cfg [3, 5] [[7, 1], [7, 1]] counting_libero") auto
  let ?ts = "successes counting_ops [[7, 1], [7, 1]] counting_libero"
  have a: "sim_answers counting_ops" by (simp add: sim_answers_def counting_ops_def)
  have b: "length (le_stats counting_libero) = lc_num_envs counting_cfg" "\<forall>a \<in> set [[7, 1], [7, 1]]. length (a :: nat list) = lc_num_envs counting_cfg"
      "lc_auto_reset counting_cfg" by code_simp+
  have ts: "?ts = [[False, False], [False, True]]" by code_simp
  have st: "le_stats counting_libero = [new_stats, new_stats]"
    by (simp add: counting_libero_def new_libero_def counting_cfg_def Let_def update_reset_state_ids_stats numeral_2_eq_2)
  have n: "[0..<lc_num_envs counting_cfg] = [0, 1]" by (simp add: counting_cfg_def upt_rec)
  have f: "finished counting_cfg ?ts counting_libero 1" "\<not> finished counting_cfg ?ts counting_libero 0" unfolding ts by code_simp+
  then have fin: "filter (finished counting_cfg ?ts counting_libero) [0..<lc_num_envs counting_cfg] = [1]"
    unfolding n by (simp del: One_nat_def)
  have acc: "account (chunk_stats counting_cfg ?ts counting_libero 1) = (5, 2, True)"
    "ep_elapsed (chunk_stats counting_cfg ?ts counting_libero 0) = 2"
    unfolding chunk_stats_def ts st by (simp_all add: run_stats_def step_stats_def new_stats_def counting_cfg_def account_def Let_def)
  have "map ep_elapsed (map (\<lambda>e. if finished counting_cfg ?ts counting_libero e then new_stats else
      chunk_stats counting_cfg ?ts counting_libero e) [0..<lc_num_envs counting_cfg]) = [2, 0]"
    unfolding n using f by (simp del: One_nat_def add: acc new_stats_def)
  then show ?thesis
    using chunk_reports_finished [OF a _ b(2,1,3) run] fin acc unfolding run by (simp del: One_nat_def)
qed

end
