(* ===== verification/Maniskill_Env.thy ===== *)
theory Maniskill_Env
  imports Prelude Complex_Main
begin

text \<open>
  \<open>ManiskillEnv\<close> of \<open>rlightning/env/maniskill_env.py\<close>: the rewards and records of an episode, automatic resets,
  offloading, the conversion of actions and the temporary overrides of an evaluation. The simulator is a parameter;
  observations are opaque and images and videos are left out. A vector over the environments is a list. Tensors that
  are changed in place and returned live in a store: an address is an index into it.
\<close>

subsection \<open>Configuration, parameters and state\<close>

record maniskill_cfg =
  mc_num_envs :: nat
  mc_auto_reset :: bool
  mc_use_rel_reward :: bool
  mc_ignore_terminations :: bool
  mc_use_fixed_ids :: bool
  mc_action_chunks :: nat
  mc_action_dim :: nat
  mc_record_metrics :: bool

text \<open>What the simulator tells of a step besides the observations.\<close>

record sim_info =
  si_grasped :: "bool list"
  si_consecutive :: "bool list"
  si_success :: "bool list"
  si_fail :: "bool list option"
  si_elapsed :: "nat list"

record reset_options =
  ro_env_idx :: "nat list option"
  ro_episode_id :: "nat list option"

record ('s, 'a, 'o, 'g) maniskill_ops =
  ms_make :: 's
  ms_step :: "'s \<Rightarrow> 'a \<Rightarrow> 's \<times> 'o \<times> bool list \<times> bool list \<times> sim_info"
  ms_reset :: "'s \<Rightarrow> reset_options \<Rightarrow> 's \<times> 'o"
  ms_total_trials :: "'s \<Rightarrow> nat"
  ms_randint :: "'g \<Rightarrow> nat \<Rightarrow> nat \<Rightarrow> 'g \<times> nat list"

record ('s, 'g, 'v) maniskill =
  mk_sim :: "'s option"
  mk_gen :: 'g
  mk_store :: "'v list list"
  mk_prev :: nat
  mk_success_once :: "bool list"
  mk_fail_once :: "bool list"
  mk_returns :: "'v list"
  mk_reset_ids :: "nat list"

text \<open>What is reported of the episodes, a vector per entry.\<close>

record 'v episode_info =
  ei_success_once :: "bool list"
  ei_fail_once :: "bool list option"
  ei_return :: "'v list"
  ei_len :: "nat list"
  ei_reward :: "'v list"
  ei_success_at_end :: "bool list option"
  ei_fail_at_end :: "bool list option"

subsection \<open>Initial states\<close>

definition ms_update_reset_state_ids ::
    "('s, 'a, 'o, 'g) maniskill_ops \<Rightarrow> maniskill_cfg \<Rightarrow> ('s, 'g, 'v) maniskill \<Rightarrow> ('s, 'g, 'v) maniskill result" where
  "ms_update_reset_state_ids ops c s =
     (case mk_sim s of
        None \<Rightarrow> Inl AttributeError
      | Some sim \<Rightarrow> let (g, ids) = ms_randint ops (mk_gen s) (ms_total_trials ops sim) (mc_num_envs c)
                   in Inr (s\<lparr>mk_gen := g, mk_reset_ids := ids\<rparr>))"

text \<open>The constructor; the first tensor of the store is the initial \<open>prev_step_reward\<close>.\<close>

definition new_maniskill ::
    "('s, 'a, 'o, 'g) maniskill_ops \<Rightarrow> maniskill_cfg \<Rightarrow> 'g \<Rightarrow> ('s, 'g, 'v::linordered_field) maniskill result" where
  "new_maniskill ops c g =
     ms_update_reset_state_ids ops c
       \<lparr>mk_sim = Some (ms_make ops), mk_gen = g, mk_store = [replicate (mc_num_envs c) 0], mk_prev = 0,
        mk_success_once = replicate (mc_num_envs c) False, mk_fail_once = replicate (mc_num_envs c) False,
        mk_returns = replicate (mc_num_envs c) 0, mk_reset_ids = []\<rparr>"

subsection \<open>Rewards and records\<close>

definition alloc :: "'v list \<Rightarrow> ('s, 'g, 'v) maniskill \<Rightarrow> nat \<times> ('s, 'g, 'v) maniskill" where
  "alloc t s = (length (mk_store s), s\<lparr>mk_store := mk_store s @ [t]\<rparr>)"

definition grasp_reward :: "sim_info \<Rightarrow> 'v::linordered_field list" where
  "grasp_reward i =
     map2 (\<lambda>g (k, u). of_bool g * (1 / 10) + of_bool k * (1 / 10) + of_bool (u \<and> g) * 1)
       (si_grasped i) (zip (si_consecutive i) (si_success i))"

text \<open>\<open>_calc_step_reward\<close> returns a tensor, here its address: a new one for the difference, and otherwise the very
  tensor that is kept as \<open>prev_step_reward\<close>.\<close>

definition ms_calc_step_reward ::
    "maniskill_cfg \<Rightarrow> sim_info \<Rightarrow> ('s, 'g, 'v::linordered_field) maniskill \<Rightarrow> nat \<times> ('s, 'g, 'v) maniskill" where
  "ms_calc_step_reward c i s =
     (let (reward, s) = alloc (grasp_reward i) s;
          (reward_diff, s) = alloc (map2 (-) (mk_store s ! reward) (mk_store s ! mk_prev s)) s;
          s = s\<lparr>mk_prev := reward\<rparr>
      in if mc_use_rel_reward c then (reward_diff, s) else (reward, s))"

definition put_at :: "nat list \<Rightarrow> 'b \<Rightarrow> 'b list \<Rightarrow> 'b list" where
  "put_at env_idx x xs = map (\<lambda>(e, y). if e \<in> set env_idx then x else y) (enumerate 0 xs)"

text \<open>\<open>_reset_metrics\<close> writes into the tensors.\<close>

definition ms_reset_metrics :: "nat list \<Rightarrow> ('s, 'g, 'v::linordered_field) maniskill \<Rightarrow> ('s, 'g, 'v) maniskill" where
  "ms_reset_metrics env_idx s =
     s\<lparr>mk_store := (mk_store s)[mk_prev s := put_at env_idx 0 (mk_store s ! mk_prev s)],
       mk_success_once := put_at env_idx False (mk_success_once s),
       mk_fail_once := put_at env_idx False (mk_fail_once s),
       mk_returns := put_at env_idx 0 (mk_returns s)\<rparr>"

definition ms_record_metrics ::
    "'v::linordered_field list \<Rightarrow> sim_info \<Rightarrow> ('s, 'g, 'v) maniskill \<Rightarrow> 'v episode_info \<times> ('s, 'g, 'v) maniskill" where
  "ms_record_metrics step_reward i s =
     (let s = s\<lparr>mk_returns := map2 (+) (mk_returns s) step_reward,
                mk_success_once := map2 (\<or>) (mk_success_once s) (si_success i),
                mk_fail_once := (case si_fail i of None \<Rightarrow> mk_fail_once s | Some f \<Rightarrow> map2 (\<or>) (mk_fail_once s) f)\<rparr>
      in (\<lparr>ei_success_once = mk_success_once s, ei_fail_once = map_option (\<lambda>_. mk_fail_once s) (si_fail i),
           ei_return = mk_returns s, ei_len = si_elapsed i, ei_reward = map2 (\<lambda>r n. r / of_nat n) (mk_returns s) (si_elapsed i),
           ei_success_at_end = None, ei_fail_at_end = None\<rparr>, s))"

subsection \<open>Actions\<close>

definition reshape_rows :: "nat \<Rightarrow> 'b list \<Rightarrow> 'b list list result" where
  "reshape_rows d xs =
     (if d = 0 \<or> length xs mod d \<noteq> 0 then Inl ValueError
      else Inr (map (\<lambda>i. take d (drop (i * d) xs)) [0..<length xs div d]))"

text \<open>One row: three of world vector, three of rotation, one of gripper.\<close>

definition widowx_row :: "'v::linordered_field list \<Rightarrow> 'v list" where
  "widowx_row row = take 3 row @ take 3 (drop 3 row) @ map (\<lambda>g. 2 * of_bool (1 / 2 < g) - 1) (take 1 (drop 6 row))"

text \<open>\<open>_process_action\<close> with its default scale and policy: the rows, in chunks when there are several actions at a
  time.\<close>

definition process_action :: "maniskill_cfg \<Rightarrow> 'v::linordered_field list \<Rightarrow> 'v list list list result" where
  "process_action c raw =
     bind_result (reshape_rows (mc_action_dim c) raw) (\<lambda>rows.
     let rows = map widowx_row rows
     in if mc_action_chunks c = 1 then Inr [rows]
        else bind_result (guard RuntimeError (list_all (\<lambda>row. length row = mc_action_dim c) rows)) (\<lambda>_.
             reshape_rows (mc_action_chunks c) rows))"

subsection \<open>Resets and steps\<close>

text \<open>\<open>reset\<close> also changes the caller's options.\<close>

definition maniskill_reset ::
    "('s, 'a, 'o, 'g) maniskill_ops \<Rightarrow> maniskill_cfg \<Rightarrow> reset_options option \<Rightarrow> ('s, 'g, 'v::linordered_field) maniskill
       \<Rightarrow> ('o \<times> reset_options option \<times> ('s, 'g, 'v) maniskill) result" where
  "maniskill_reset ops c options s =
     (case mk_sim s of
        None \<Rightarrow> Inl RuntimeError
      | Some sim \<Rightarrow>
          bind_result (guard TypeError (mc_use_fixed_ids c \<longrightarrow> options \<noteq> None)) (\<lambda>_.
          let options = map_option (\<lambda>ro. if mc_use_fixed_ids c \<and> ro_episode_id ro = None
                                         then ro\<lparr>ro_episode_id := Some (mk_reset_ids s)\<rparr> else ro) options;
              (sim, obs) = ms_reset ops sim (case options of None \<Rightarrow> \<lparr>ro_env_idx = None, ro_episode_id = None\<rparr> | Some ro \<Rightarrow> ro);
              (prev, s) = alloc (replicate (mc_num_envs c) 0) s
          in Inr (obs, options, s\<lparr>mk_sim := Some sim, mk_prev := prev\<rparr>)))"

text \<open>\<open>_handle_auto_reset\<close>.\<close>

definition ms_handle_auto_reset ::
    "('s, 'a, 'o, 'g) maniskill_ops \<Rightarrow> maniskill_cfg \<Rightarrow> bool list \<Rightarrow> 's \<Rightarrow> ('s, 'g, 'v::linordered_field) maniskill
       \<Rightarrow> 'o \<times> ('s, 'g, 'v) maniskill" where
  "ms_handle_auto_reset ops c dones sim s =
     (let env_idx = filter (\<lambda>e. dones ! e) [0..<length dones];
          options = \<lparr>ro_env_idx = Some env_idx,
                     ro_episode_id = (if mc_use_fixed_ids c then Some (map ((!) (mk_reset_ids s)) env_idx) else None)\<rparr>;
          (sim, obs) = ms_reset ops sim options
      in (obs, ms_reset_metrics env_idx (s\<lparr>mk_sim := Some sim\<rparr>)))"

text \<open>What \<open>step\<close> returns; the reward is an address.\<close>

record ('o, 'v) maniskill_ret =
  mr_obs :: 'o
  mr_reward :: nat
  mr_terminated :: "bool list"
  mr_truncated :: "bool list"
  mr_final_obs :: "'o option"
  mr_episode_info :: "'v episode_info option"

definition at_done :: "bool list \<Rightarrow> 'b list \<Rightarrow> 'b list" where
  "at_done dones xs = map snd (filter fst (zip dones xs))"

definition info_at :: "bool list \<Rightarrow> 'v episode_info \<Rightarrow> 'v episode_info" where
  "info_at dones i =
     \<lparr>ei_success_once = at_done dones (ei_success_once i), ei_fail_once = map_option (at_done dones) (ei_fail_once i),
      ei_return = at_done dones (ei_return i), ei_len = at_done dones (ei_len i), ei_reward = at_done dones (ei_reward i),
      ei_success_at_end = map_option (at_done dones) (ei_success_at_end i),
      ei_fail_at_end = map_option (at_done dones) (ei_fail_at_end i)\<rparr>"

text \<open>Without \<open>record_metrics\<close> the records do not exist, but \<open>_record_metrics\<close> is called all the same.\<close>

definition maniskill_step ::
    "('s, 'v list list list, 'o, 'g) maniskill_ops \<Rightarrow> maniskill_cfg \<Rightarrow> 'v list \<Rightarrow> ('s, 'g, 'v::linordered_field) maniskill
       \<Rightarrow> (('o, 'v) maniskill_ret \<times> ('s, 'g, 'v) maniskill) result" where
  "maniskill_step ops c raw_actions s =
     (case mk_sim s of
        None \<Rightarrow> Inl RuntimeError
      | Some sim \<Rightarrow>
          bind_result (process_action c raw_actions) (\<lambda>action.
          bind_result (guard AttributeError (mc_record_metrics c)) (\<lambda>_.
          let (sim, obs, terminations, truncations, i) = ms_step ops sim action;
              s = s\<lparr>mk_sim := Some sim\<rparr>;
              (step_reward, s) = ms_calc_step_reward c i s;
              (info, s) = ms_record_metrics (mk_store s ! step_reward) i s;
              terminations = (if mc_ignore_terminations c then map (\<lambda>_. False) terminations else terminations);
              info = (if mc_ignore_terminations c then info\<lparr>ei_success_at_end := Some (si_success i), ei_fail_at_end := si_fail i\<rparr> else info);
              dones = map2 (\<or>) terminations truncations
          in if True \<in> set dones \<and> mc_auto_reset c
             then let (new_obs, s) = ms_handle_auto_reset ops c dones sim s
                  in Inr (\<lparr>mr_obs = new_obs, mr_reward = step_reward, mr_terminated = terminations, mr_truncated = truncations,
                           mr_final_obs = Some obs, mr_episode_info = Some (info_at dones info)\<rparr>, s)
             else Inr (\<lparr>mr_obs = obs, mr_reward = step_reward, mr_terminated = terminations, mr_truncated = truncations,
                        mr_final_obs = None, mr_episode_info = None\<rparr>, s))))"

subsection \<open>Offloading\<close>

definition maniskill_offload :: "('s, 'g, 'v) maniskill \<Rightarrow> ('s, 'g, 'v) maniskill" where
  "maniskill_offload s = s\<lparr>mk_sim := None\<rparr>"

definition maniskill_reload :: "('s, 'a, 'o, 'g) maniskill_ops \<Rightarrow> ('s, 'g, 'v) maniskill \<Rightarrow> ('s, 'g, 'v) maniskill" where
  "maniskill_reload ops s = (if mk_sim s = None then s\<lparr>mk_sim := Some (ms_make ops)\<rparr> else s)"

subsection \<open>Temporary overrides\<close>

text \<open>The value of a member or a configuration: a dictionary or something else.\<close>

datatype 'c conf = CDict "(string \<times> 'c conf) list" | CVal 'c

fun is_dict :: "'c conf \<Rightarrow> bool" where
  "is_dict (CDict kvs) = True"
| "is_dict (CVal v) = False"

text \<open>The loop of \<open>_merge_override\<close> over the entries of the override, with its recursive calls.\<close>

fun merge_override :: "'c conf \<Rightarrow> 'c conf \<Rightarrow> 'c conf result"
  and merge_entries :: "(string \<times> 'c conf) list \<Rightarrow> (string \<times> 'c conf) list \<Rightarrow> (string \<times> 'c conf) list result" where
  "merge_override current (CVal v) = Inr (CVal v)"
| "merge_override (CVal w) (CDict kvs) = Inl AssertionError"
| "merge_override (CDict cur) (CDict kvs) = map_sum id CDict (merge_entries cur kvs)"
| "merge_entries merged [] = Inr merged"
| "merge_entries merged ((k, v) # kvs) =
     bind_result (case map_of merged k of
                    None \<Rightarrow> Inr v
                  | Some old \<Rightarrow> if is_dict old \<and> is_dict v then merge_override old v else Inr v) (\<lambda>new.
     merge_entries (AList.update k new merged) kvs)"

text \<open>The members of the environment and the backups of the overrides in force.\<close>

record 'c members =
  mb_members :: "(string \<times> 'c conf) list"
  mb_backups :: "(string \<times> 'c conf) list list"

definition override_member ::
    "(string \<times> 'c conf) list \<times> (string \<times> 'c conf) list \<Rightarrow> string \<times> 'c conf
       \<Rightarrow> ((string \<times> 'c conf) list \<times> (string \<times> 'c conf) list) result" where
  "override_member st kv =
     (case (st, kv) of ((members, backup), (k, v)) \<Rightarrow>
        case map_of members k of
          None \<Rightarrow> Inr (members, backup)
        | Some current \<Rightarrow>
            bind_result (merge_override current v) (\<lambda>new.
            Inr (AList.update k new members, AList.update k current backup)))"

definition ms_apply_evaluate_cfg :: "(string \<times> 'c conf) list option \<Rightarrow> 'c members \<Rightarrow> 'c members result" where
  "ms_apply_evaluate_cfg evaluate_cfg s =
     (case evaluate_cfg of
        None \<Rightarrow> Inr s
      | Some kvs \<Rightarrow>
          bind_result (foldM override_member (mb_members s, []) kvs) (\<lambda>(members, backup).
          Inr (s\<lparr>mb_members := members, mb_backups := backup # mb_backups s\<rparr>)))"

definition ms_restore_evaluate_cfg :: "'c members \<Rightarrow> 'c members" where
  "ms_restore_evaluate_cfg s =
     (case mb_backups s of
        [] \<Rightarrow> s
      | backup # rest \<Rightarrow> s\<lparr>mb_members := fold (\<lambda>(k, v). AList.update k v) backup (mb_members s), mb_backups := rest\<rparr>)"

end
