(* ===== verification/Maniskill_Env_Correct.thy ===== *)
theory Maniskill_Env_Correct
  imports Maniskill_Env
begin

text \<open>
  The rewards a step of \<open>ManiskillEnv\<close> returns and the records it keeps, and the overrides of an evaluation.
\<close>

subsection \<open>Rewards and records\<close>

text \<open>Every vector has an entry per environment, and \<open>prev_step_reward\<close> is a tensor of the store.\<close>

definition maniskill_ok :: "maniskill_cfg \<Rightarrow> ('s, 'g, 'v) maniskill \<Rightarrow> bool" where
  "maniskill_ok c s \<longleftrightarrow> mk_prev s < length (mk_store s) \<and> length (mk_store s ! mk_prev s) = mc_num_envs c
     \<and> length (mk_success_once s) = mc_num_envs c \<and> length (mk_fail_once s) = mc_num_envs c \<and> length (mk_returns s) = mc_num_envs c"

text \<open>The simulator answers for every environment.\<close>

definition answers_all :: "('s, 'a, 'o, 'g) maniskill_ops \<Rightarrow> nat \<Rightarrow> bool" where
  "answers_all ops n \<longleftrightarrow> (\<forall>sim a. case ms_step ops sim a of (_, _, te, tr, i) \<Rightarrow>
     length te = n \<and> length tr = n \<and> length (si_grasped i) = n \<and> length (si_consecutive i) = n \<and> length (si_success i) = n
     \<and> length (si_elapsed i) = n \<and> (\<forall>f. si_fail i = Some f \<longrightarrow> length f = n))"

lemma length_put_at [simp]: "length (put_at idx x xs) = length xs"
  by (simp add: put_at_def)

lemma nth_put_at [simp]: "e < length xs \<Longrightarrow> put_at idx x xs ! e = (if e \<in> set idx then x else xs ! e)"
  by (simp add: put_at_def nth_enumerate_eq)

lemma put_at_none [simp]: "put_at [] x xs = xs"
  by (intro nth_equalityI) auto

text \<open>Which environments a step finishes, and what it is worth to each.\<close>

definition finishes :: "maniskill_cfg \<Rightarrow> bool list \<Rightarrow> bool list \<Rightarrow> nat \<Rightarrow> bool" where
  "finishes c te tr e \<longleftrightarrow> (te ! e \<and> \<not> mc_ignore_terminations c) \<or> tr ! e"

definition worth :: "maniskill_cfg \<Rightarrow> sim_info \<Rightarrow> ('s, 'g, 'v::linordered_field) maniskill \<Rightarrow> nat \<Rightarrow> 'v" where
  "worth c i s e = (if mc_use_rel_reward c then grasp_reward i ! e - mk_store s ! mk_prev s ! e else grasp_reward i ! e)"

lemma calc_step_reward_eq:
  assumes "mk_prev s < length (mk_store s)"
  shows "ms_calc_step_reward c i s
       = (if mc_use_rel_reward c then length (mk_store s) + 1 else length (mk_store s),
          s\<lparr>mk_store := mk_store s @ [grasp_reward i, map2 (-) (grasp_reward i) (mk_store s ! mk_prev s)], mk_prev := length (mk_store s)\<rparr>)"
  using assms by (simp add: ms_calc_step_reward_def alloc_def Let_def nth_append)

text \<open>The state after the records are updated and before any reset.\<close>

definition recorded :: "maniskill_cfg \<Rightarrow> sim_info \<Rightarrow> 's \<Rightarrow> ('s, 'g, 'v::linordered_field) maniskill \<Rightarrow> ('s, 'g, 'v) maniskill" where
  "recorded c i sim s =
     s\<lparr>mk_sim := Some sim,
       mk_store := mk_store s @ [grasp_reward i, map2 (-) (grasp_reward i) (mk_store s ! mk_prev s)], mk_prev := length (mk_store s),
       mk_returns := map (\<lambda>e. mk_returns s ! e + worth c i s e) [0..<mc_num_envs c],
       mk_success_once := map2 (\<or>) (mk_success_once s) (si_success i),
       mk_fail_once := (case si_fail i of None \<Rightarrow> mk_fail_once s | Some f \<Rightarrow> map2 (\<or>) (mk_fail_once s) f)\<rparr>"

text \<open>The report of the episodes that end in the environments \<open>idx\<close>, with everything up to and including the step.\<close>

definition ended_report :: "maniskill_cfg \<Rightarrow> sim_info \<Rightarrow> ('s, 'g, 'v::linordered_field) maniskill \<Rightarrow> nat list \<Rightarrow> 'v episode_info" where
  "ended_report c i s idx =
     \<lparr>ei_success_once = map (\<lambda>e. mk_success_once s ! e \<or> si_success i ! e) idx,
      ei_fail_once = map_option (\<lambda>f. map (\<lambda>e. mk_fail_once s ! e \<or> f ! e) idx) (si_fail i),
      ei_return = map (\<lambda>e. mk_returns s ! e + worth c i s e) idx,
      ei_len = map (\<lambda>e. si_elapsed i ! e) idx,
      ei_reward = map (\<lambda>e. (mk_returns s ! e + worth c i s e) / of_nat (si_elapsed i ! e)) idx,
      ei_success_at_end = (if mc_ignore_terminations c then Some (map (\<lambda>e. si_success i ! e) idx) else None),
      ei_fail_at_end = (if mc_ignore_terminations c then map_option (\<lambda>f. map (\<lambda>e. f ! e) idx) (si_fail i) else None)\<rparr>"

lemma at_done_map: "at_done (map P [0..<n]) (map f [0..<n]) = map f (filter P [0..<n])"
  by (simp add: at_done_def zip_map_map zip_same_conv_map filter_map comp_def)

lemma at_done_nth: "length xs = n \<Longrightarrow> at_done (map P [0..<n]) xs = map ((!) xs) (filter P [0..<n])"
  by (metis at_done_map map_nth)

lemma step_parts:
  fixes s s' :: "('s, 'g, 'v::linordered_field) maniskill"
  assumes "answers_all ops (mc_num_envs c)" "maniskill_ok c s" "mc_auto_reset c"
    and "mk_sim s = Some sim" "process_action c raw = Inr a" "ms_step ops sim a = (sim', obs, te, tr, i)"
    and "maniskill_step ops c raw s = Inr (r, s')"
  defines "idx \<equiv> filter (finishes c te tr) [0..<mc_num_envs c]"
  shows "mr_reward r = length (mk_store s) + of_bool (mc_use_rel_reward c)"
    and "mr_terminated r = map (\<lambda>e. te ! e \<and> \<not> mc_ignore_terminations c) [0..<mc_num_envs c]" "mr_truncated r = tr"
    and "if idx = [] then s' = recorded c i sim' s \<and> mr_episode_info r = None \<and> mr_obs r = obs \<and> mr_final_obs r = None
         else (\<exists>sim''. s' = ms_reset_metrics idx (recorded c i sim'' s))
            \<and> mr_episode_info r = Some (ended_report c i s idx) \<and> mr_final_obs r = Some obs"
proof -
  let ?n = "mc_num_envs c"
  have len: "length te = ?n" "length tr = ?n" "length (si_grasped i) = ?n" "length (si_consecutive i) = ?n"
      "length (si_success i) = ?n" "length (si_elapsed i) = ?n" "\<And>f. si_fail i = Some f \<Longrightarrow> length f = ?n"
    using assms(1) [unfolded answers_all_def, rule_format, of sim a] unfolding assms(6) by auto
  have ok: "mk_prev s < length (mk_store s)" "length (mk_store s ! mk_prev s) = ?n" "length (mk_returns s) = ?n"
      "length (mk_success_once s) = ?n" "length (mk_fail_once s) = ?n"
    using assms(2) by (auto simp: maniskill_ok_def)
  have metrics: "mc_record_metrics c" using assms(7) by (auto simp: maniskill_step_def assms(4,5) result_simps)
  let ?s = "s\<lparr>mk_sim := Some sim'\<rparr>"
  define te' where "te' = (if mc_ignore_terminations c then map (\<lambda>_. False) te else te)"
  define dones where "dones = map2 (\<or>) te' tr"
  have te': "te' = map (\<lambda>e. te ! e \<and> \<not> mc_ignore_terminations c) [0..<?n]"
    using len by (intro nth_equalityI) (auto simp: te'_def)
  have dones: "dones = map (finishes c te tr) [0..<?n]"
    using len by (intro nth_equalityI) (auto simp: dones_def te'_def finishes_def)
  have idx: "filter (\<lambda>e. dones ! e) [0..<length dones] = idx"
    by (auto simp: idx_def dones intro!: filter_cong)
  have some: "True \<in> set dones \<longleftrightarrow> idx \<noteq> []" by (auto simp: idx_def dones filter_empty_conv)
  define reward where "reward = (if mc_use_rel_reward c then length (mk_store s) + 1 else length (mk_store s))"
  define calc where "calc = ?s\<lparr>mk_store := mk_store s @ [grasp_reward i, map2 (-) (grasp_reward i) (mk_store s ! mk_prev s)],
      mk_prev := length (mk_store s)\<rparr>"
  have calc: "ms_calc_step_reward c i ?s = (reward, calc)"
    using ok(1) by (simp add: calc_step_reward_eq reward_def calc_def)
  have "length (grasp_reward i :: 'v list) = ?n" using len by (simp add: grasp_reward_def)
  then have paid: "mk_store calc ! reward = map (worth c i s) [0..<?n]"
    using ok by (intro nth_equalityI) (auto simp: calc_def reward_def nth_append worth_def)
  define info t where "info = fst (ms_record_metrics (mk_store calc ! reward) i calc)" and "t = snd (ms_record_metrics (mk_store calc ! reward) i calc)"
  have rec: "ms_record_metrics (mk_store calc ! reward) i calc = (info, t)" by (simp add: info_def t_def)
  have returns: "map2 (+) (mk_returns s) (map (worth c i s) [0..<?n]) = map (\<lambda>e. mk_returns s ! e + worth c i s e) [0..<?n]"
    using ok(3) by (intro nth_equalityI) auto
  have t: "t = recorded c i sim' s"
    unfolding t_def paid using returns by (simp add: ms_record_metrics_def recorded_def calc_def split: option.split)
  define info' where "info' = (if mc_ignore_terminations c then info\<lparr>ei_success_at_end := Some (si_success i), ei_fail_at_end := si_fail i\<rparr> else info)"
  have done_bool: "at_done dones (map f [0..<?n]) = map f idx" for f :: "nat \<Rightarrow> bool"
    unfolding dones idx_def by (rule at_done_map)
  have done_nth: "length xs = ?n \<Longrightarrow> at_done dones xs = map ((!) xs) idx" for xs :: "bool list"
    unfolding dones idx_def by (rule at_done_nth)
  have done_len: "at_done dones (si_elapsed i) = map ((!) (si_elapsed i)) idx"
    unfolding dones idx_def by (rule at_done_nth [OF len(6)])
  have done_val: "at_done dones (map f [0..<?n]) = map f idx" for f :: "nat \<Rightarrow> 'v"
    unfolding dones idx_def by (rule at_done_map)
  have below: "e < ?n" if "e \<in> set idx" for e using that by (simp add: idx_def)
  have once: "map2 (\<or>) (mk_success_once s) (si_success i) = map (\<lambda>e. mk_success_once s ! e \<or> si_success i ! e) [0..<?n]"
    using len ok by (intro nth_equalityI) auto
  have fails: "map2 (\<or>) (mk_fail_once s) f = map (\<lambda>e. mk_fail_once s ! e \<or> f ! e) [0..<?n]" if "si_fail i = Some f" for f
    using len(7) [OF that] ok by (intro nth_equalityI) auto
  define R where "R e = mk_returns s ! e + worth c i s e" for e
  have mean: "map2 (\<lambda>r n. r / of_nat n) (map R [0..<?n]) (si_elapsed i) = map (\<lambda>e. R e / of_nat (si_elapsed i ! e)) [0..<?n]"
    using len by (intro nth_equalityI) auto
  have ret: "map2 (+) (mk_returns calc) (map (worth c i s) [0..<?n]) = map R [0..<?n]"
    using returns by (simp add: calc_def R_def)
  have rest: "mk_success_once calc = mk_success_once s" "mk_fail_once calc = mk_fail_once s" by (simp_all add: calc_def)
  have report: "info_at dones info' = ended_report c i s idx"
  proof (cases "si_fail i")
    case None
    then show ?thesis unfolding info'_def info_def paid
      by (simp add: info_at_def ended_report_def ms_record_metrics_def ret rest once mean done_bool done_val done_nth done_len len(5) R_def below)
  next
    case (Some f)
    then show ?thesis unfolding info'_def info_def paid
      by (simp add: info_at_def ended_report_def ms_record_metrics_def ret rest once mean fails done_bool done_val done_nth done_len
          len(5) len(7) R_def below)
  qed
  note run = assms(7) [unfolded maniskill_step_def Let_def assms(4,5) option.case bind_result_Inr assms(6) prod.case calc rec,
      folded te'_def, folded dones_def info'_def, unfolded guard_def if_P [OF metrics] bind_result_Inr]
  show "mr_reward r = length (mk_store s) + of_bool (mc_use_rel_reward c)"
    using run by (auto simp: reward_def split: if_splits prod.splits)
  show "mr_terminated r = map (\<lambda>e. te ! e \<and> \<not> mc_ignore_terminations c) [0..<?n]" "mr_truncated r = tr"
    using run by (auto simp: te' split: if_splits prod.splits)
  show "if idx = [] then s' = recorded c i sim' s \<and> mr_episode_info r = None \<and> mr_obs r = obs \<and> mr_final_obs r = None
         else (\<exists>sim''. s' = ms_reset_metrics idx (recorded c i sim'' s))
            \<and> mr_episode_info r = Some (ended_report c i s idx) \<and> mr_final_obs r = Some obs"
  proof (cases "idx = []")
    case True
    then show ?thesis using run some by (auto simp: t)
  next
    case False
    have "mr_episode_info r = Some (info_at dones info')" "mr_final_obs r = Some obs"
      "\<exists>sim''. s' = ms_reset_metrics idx (t\<lparr>mk_sim := Some sim''\<rparr>)"
      using run False some assms(3)
      by (auto simp: ms_handle_auto_reset_def idx Let_def split: prod.splits)
    moreover have "t\<lparr>mk_sim := Some sim''\<rparr> = recorded c i sim'' s" for sim'' by (simp add: t recorded_def)
    ultimately show ?thesis using False report by auto
  qed
qed

text \<open>C31: a step whose finished environments are reset automatically reports their episodes (whether they ever
  succeeded or failed, return, length, mean reward, and what is known at the end) with everything up to and including
  this step, clears their records of success, failure and return, and keeps and continues the records of the
  others. The reward it returns is the worth of the step only with relative rewards: otherwise the reward of
  every finished environment, which was returned as the very tensor that the reset clears, is 0.\<close>
theorem last_reward_cleared:
  fixes s s' :: "('s, 'g, 'v::linordered_field) maniskill"
  assumes "answers_all ops (mc_num_envs c)" "maniskill_ok c s" "mc_auto_reset c"
    and "mk_sim s = Some sim" "process_action c raw = Inr a" "ms_step ops sim a = (sim', obs, te, tr, i)"
    and "maniskill_step ops c raw s = Inr (r, s')"
  defines "envs \<equiv> [0..<mc_num_envs c]" and "fin \<equiv> finishes c te tr"
  shows "mk_store s' ! mr_reward r
       = map (\<lambda>e. if fin e \<and> \<not> mc_use_rel_reward c then 0 else worth c i s e) envs
     \<and> mk_returns s' = map (\<lambda>e. if fin e then 0 else mk_returns s ! e + worth c i s e) envs
     \<and> mk_success_once s' = map (\<lambda>e. \<not> fin e \<and> (mk_success_once s ! e \<or> si_success i ! e)) envs
     \<and> mk_fail_once s' = map (\<lambda>e. \<not> fin e \<and> (mk_fail_once s ! e \<or> (case si_fail i of None \<Rightarrow> False | Some f \<Rightarrow> f ! e))) envs
     \<and> mk_store s' ! mk_prev s' = map (\<lambda>e. if fin e then 0 else grasp_reward i ! e) envs
     \<and> mr_terminated r = map (\<lambda>e. te ! e \<and> \<not> mc_ignore_terminations c) envs \<and> mr_truncated r = tr
     \<and> (if \<exists>e \<in> set envs. fin e
        then mr_episode_info r = Some (ended_report c i s (filter fin envs)) \<and> mr_final_obs r = Some obs
        else mr_episode_info r = None \<and> mr_final_obs r = None \<and> mr_obs r = obs)
     \<and> maniskill_ok c s'"
proof -
  let ?n = "mc_num_envs c"
  define idx where "idx = filter fin envs"
  have len: "length (grasp_reward i :: 'v list) = ?n" "length (si_success i) = ?n" "\<And>f. si_fail i = Some f \<Longrightarrow> length f = ?n"
    using assms(1) [unfolded answers_all_def, rule_format, of sim a] unfolding assms(6) by (auto simp: grasp_reward_def)
  have ok: "mk_prev s < length (mk_store s)" "length (mk_store s ! mk_prev s) = ?n" "length (mk_returns s) = ?n"
      "length (mk_success_once s) = ?n" "length (mk_fail_once s) = ?n"
    using assms(2) by (auto simp: maniskill_ok_def)
  note parts = step_parts [OF assms(1-7), folded fin_def envs_def, folded idx_def]
  have fin: "e \<in> set idx \<longleftrightarrow> e < ?n \<and> fin e" for e by (auto simp: idx_def envs_def)
  obtain sim'' where s': "s' = (if idx = [] then recorded c i sim'' s else ms_reset_metrics idx (recorded c i sim'' s))"
    using parts(4) by (auto split: if_splits)
  have put: "mk_store s' = (mk_store (recorded c i sim'' s))[length (mk_store s) := put_at idx 0 (grasp_reward i)]"
      "mk_returns s' = put_at idx 0 (mk_returns (recorded c i sim'' s))" "mk_prev s' = length (mk_store s)"
      "mk_success_once s' = put_at idx False (mk_success_once (recorded c i sim'' s))"
      "mk_fail_once s' = put_at idx False (mk_fail_once (recorded c i sim'' s))"
    by (auto simp: s' ms_reset_metrics_def recorded_def)
  have some: "(\<exists>e \<in> set envs. fin e) \<longleftrightarrow> idx \<noteq> []" by (auto simp: idx_def filter_empty_conv)
  show ?thesis
  proof (intro conjI)
    show "mk_store s' ! mr_reward r = map (\<lambda>e. if fin e \<and> \<not> mc_use_rel_reward c then 0 else worth c i s e) envs"
      unfolding put parts(1)
      by (intro nth_equalityI) (use len ok in \<open>auto simp: recorded_def nth_append worth_def fin envs_def\<close>)
    show "mk_returns s' = map (\<lambda>e. if fin e then 0 else mk_returns s ! e + worth c i s e) envs"
      unfolding put by (intro nth_equalityI) (use fin in \<open>auto simp: recorded_def envs_def\<close>)
    show "mk_success_once s' = map (\<lambda>e. \<not> fin e \<and> (mk_success_once s ! e \<or> si_success i ! e)) envs"
      unfolding put by (intro nth_equalityI) (use fin len ok in \<open>auto simp: recorded_def envs_def\<close>)
    show "mk_fail_once s' = map (\<lambda>e. \<not> fin e \<and> (mk_fail_once s ! e \<or> (case si_fail i of None \<Rightarrow> False | Some f \<Rightarrow> f ! e))) envs"
      unfolding put by (intro nth_equalityI) (use fin len ok in \<open>auto simp: recorded_def envs_def split: option.split\<close>)
    show "mk_store s' ! mk_prev s' = map (\<lambda>e. if fin e then 0 else grasp_reward i ! e) envs"
      unfolding put by (intro nth_equalityI) (use fin len in \<open>auto simp: recorded_def nth_append envs_def\<close>)
    show "mr_terminated r = map (\<lambda>e. te ! e \<and> \<not> mc_ignore_terminations c) envs" "mr_truncated r = tr"
      using parts(2,3) by (simp_all add: envs_def)
    show "if \<exists>e \<in> set envs. fin e
        then mr_episode_info r = Some (ended_report c i s (filter fin envs)) \<and> mr_final_obs r = Some obs
        else mr_episode_info r = None \<and> mr_final_obs r = None \<and> mr_obs r = obs"
      using parts(4) unfolding some idx_def [symmetric] by (auto split: if_splits)
    show "maniskill_ok c s'"
      using ok len by (auto simp: maniskill_ok_def put recorded_def nth_append split: option.split)
  qed
qed

text \<open>Two environments, the first of which succeeds at every step.\<close>

definition two_ops :: "(unit, rat list list list, unit, unit) maniskill_ops" where
  "two_ops = \<lparr>ms_make = (), ms_step = \<lambda>s _. (s, (), [True, False], [False, False],
       \<lparr>si_grasped = [True, True], si_consecutive = [True, False], si_success = [True, False], si_fail = None, si_elapsed = [1, 1]\<rparr>),
     ms_reset = \<lambda>s _. (s, ()), ms_total_trials = \<lambda>_. 1, ms_randint = \<lambda>g h n. (g, replicate n 0)\<rparr>"

definition two_cfg :: "bool \<Rightarrow> maniskill_cfg" where
  "two_cfg rel = \<lparr>mc_num_envs = 2, mc_auto_reset = True, mc_use_rel_reward = rel, mc_ignore_terminations = False, mc_use_fixed_ids = False,
     mc_action_chunks = 1, mc_action_dim = 7, mc_record_metrics = True\<rparr>"

definition two_start :: "(unit, unit, rat) maniskill" where
  "two_start = \<lparr>mk_sim = Some (), mk_gen = (), mk_store = [[0, 0]], mk_prev = 0, mk_success_once = [False, False],
     mk_fail_once = [False, False], mk_returns = [0, 0], mk_reset_ids = [0, 0]\<rparr>"

lemma last_reward_cleared_witness:
  "case maniskill_step two_ops (two_cfg False) (replicate 14 0) two_start of
     Inl _ \<Rightarrow> False
   | Inr (r, s') \<Rightarrow> mk_store s' ! mr_reward r = [0, 1 / 10] \<and> mk_success_once s' = [False, False]
       \<and> map_option ei_return (mr_episode_info r) = Some [6 / 5] \<and> map_option ei_success_once (mr_episode_info r) = Some [True]"
proof -
  have a: "answers_all two_ops (mc_num_envs (two_cfg False))" by (simp add: answers_all_def two_ops_def two_cfg_def)
  have ok: "maniskill_ok (two_cfg False) two_start" "mc_auto_reset (two_cfg False)" "mk_sim two_start = Some ()"
    by (simp_all add: maniskill_ok_def two_cfg_def two_start_def)
  obtain act where act: "process_action (two_cfg False) (replicate 14 (0 :: rat)) = Inr act"
    by (simp add: process_action_def reshape_rows_def two_cfg_def)
  have metrics: "guard AttributeError (mc_record_metrics (two_cfg False)) = Inr ()" by (simp add: two_cfg_def)
  have "\<exists>x. maniskill_step two_ops (two_cfg False) (replicate 14 0) two_start = Inr x"
    unfolding maniskill_step_def ok(3) option.case act bind_result_Inr metrics
    by (auto simp only: Let_def split: prod.split if_split)
  then obtain r s' where run: "maniskill_step two_ops (two_cfg False) (replicate 14 0) two_start = Inr (r, s')" by auto
  have step: "ms_step two_ops () act = ((), (), [True, False], [False, False],
       \<lparr>si_grasped = [True, True], si_consecutive = [True, False], si_success = [True, False], si_fail = None, si_elapsed = [1, 1]\<rparr>)"
    by (simp add: two_ops_def)
  have envs: "[0..<mc_num_envs (two_cfg False)] = [0, 1]" by (simp add: two_cfg_def upt_rec)
  have fin: "finishes (two_cfg False) [True, False] [False, False] 0" "\<not> finishes (two_cfg False) [True, False] [False, False] 1"
    by (simp_all add: finishes_def two_cfg_def)
  note all = last_reward_cleared [OF a ok act step run, unfolded envs]
  have "mk_store s' ! mr_reward r = [0, 1 / 10]"
    using all [THEN conjunct1] fin by (simp add: two_cfg_def worth_def grasp_reward_def)
  moreover have "mk_success_once s' = [False, False]"
    using all [THEN conjunct2, THEN conjunct2, THEN conjunct1] fin by (simp add: two_start_def)
  moreover have "mr_episode_info r = Some (ended_report (two_cfg False)
       \<lparr>si_grasped = [True, True], si_consecutive = [True, False], si_success = [True, False], si_fail = None, si_elapsed = [1, 1]\<rparr> two_start [0])"
    using all fin by simp
  ultimately show ?thesis
    unfolding run by (simp add: ended_report_def two_cfg_def two_start_def worth_def grasp_reward_def)
qed

subsection \<open>Temporary overrides\<close>

lemma update_same: "map_of xs k = Some v \<Longrightarrow> AList.update k v xs = xs"
  by (induction xs) (auto split: if_splits)

lemma update_commute: "k \<noteq> l \<Longrightarrow> k \<in> fst ` set xs \<or> l \<in> fst ` set xs \<Longrightarrow>
    AList.update k v (AList.update l w xs) = AList.update l w (AList.update k v xs)"
  by (induction xs) auto

lemma fold_update_commute:
  assumes "k \<notin> fst ` set kvs" "k \<in> fst ` set xs"
  shows "fold (\<lambda>(k, v). AList.update k v) kvs (AList.update k v xs) = AList.update k v (fold (\<lambda>(k, v). AList.update k v) kvs xs)"
  using assms
proof (induction kvs arbitrary: xs)
  case (Cons kv kvs)
  obtain l w where kv: "kv = (l, w)" by (cases kv)
  have "k \<in> fst ` set (AList.update l w xs)" using Cons.prems(2) by (simp add: dom_update)
  moreover have "AList.update l w (AList.update k v xs) = AList.update k v (AList.update l w xs)"
    using Cons.prems by (intro update_commute) (auto simp: kv)
  ultimately show ?case using Cons.IH [of "AList.update l w xs"] Cons.prems(1) by (simp add: kv)
qed simp

lemma update_twice: "AList.update k v (AList.update k w xs) = AList.update k v xs"
  by (induction xs) auto

lemma map_of_fold_update: "k \<notin> fst ` set kvs \<Longrightarrow> map_of (fold (\<lambda>(k, v). AList.update k v) kvs xs) k = map_of xs k"
  by (induction kvs arbitrary: xs) (auto simp: update_conv')

text \<open>Writing the backup into the members brings them back, at any point of the loop.\<close>

lemma override_loop_undone:
  assumes "foldM override_member (members, []) kvs = Inr (members', backup)" "distinct (map fst kvs)"
  shows "fold (\<lambda>(k, v). AList.update k v) backup members' = members \<and> fst ` set backup \<subseteq> fst ` set kvs"
  using assms
proof (induction kvs arbitrary: members' backup rule: rev_induct)
  case Nil
  then show ?case by simp
next
  case (snoc kv kvs)
  obtain k v where kv: "kv = (k, v)" by (cases kv)
  obtain members1 backup1 where one: "foldM override_member (members, []) kvs = Inr (members1, backup1)"
      and step: "override_member (members1, backup1) (k, v) = Inr (members', backup)"
    using snoc.prems(1) by (auto simp: foldM_append kv result_simps)
  have IH: "fold (\<lambda>(k, v). AList.update k v) backup1 members1 = members" "fst ` set backup1 \<subseteq> fst ` set kvs"
    using snoc.IH [OF one] snoc.prems(2) by simp_all
  then have new: "k \<notin> fst ` set backup1" using snoc.prems(2) by (auto simp: kv)
  show ?case
  proof (cases "map_of members1 k")
    case None
    then show ?thesis using step IH by (auto simp: override_member_def)
  next
    case (Some current)
    then obtain w where w: "members' = AList.update k w members1" "backup = AList.update k current backup1"
      using step by (auto simp: override_member_def result_simps)
    have in1: "k \<in> fst ` set members1" using map_of_SomeD [OF Some] by force
    have "map_of members k = Some current" using map_of_fold_update [OF new, of members1] IH(1) Some by simp
    then show ?thesis
      using IH new by (auto simp: w update_new fold_update_commute [OF new in1] update_twice update_same kv)
  qed
qed

text \<open>Restoring undoes overriding: after any overrides that could be applied, as many calls of
  \<open>restore_evaluate_cfg\<close> bring back every member and leave the earlier backups.\<close>
theorem overrides_undone:
  assumes "\<forall>cfg \<in> set cfgs. distinct (map fst cfg)"
    and "foldM (\<lambda>s cfg. ms_apply_evaluate_cfg (Some cfg) s) s cfgs = Inr s'"
  shows "(ms_restore_evaluate_cfg ^^ length cfgs) s' = s"
  using assms
proof (induction cfgs arbitrary: s' rule: rev_induct)
  case (snoc cfg cfgs)
  obtain t where t: "foldM (\<lambda>s cfg. ms_apply_evaluate_cfg (Some cfg) s) s cfgs = Inr t" "ms_apply_evaluate_cfg (Some cfg) t = Inr s'"
    using snoc.prems(2) by (auto simp: foldM_append result_simps)
  have "ms_restore_evaluate_cfg s' = t"
    using t(2) snoc.prems(1) override_loop_undone [of "mb_members t" cfg]
    by (auto simp: ms_apply_evaluate_cfg_def ms_restore_evaluate_cfg_def result_simps)
  then show ?case using snoc.IH [OF _ t(1)] snoc.prems(1) by (simp add: funpow_swap1)
qed simp

lemma overrides_undone_witness:
  "let s = \<lparr>mb_members = [(''seed'', CVal 1), (''video_cfg'', CDict [(''fps'', CVal 5), (''save'', CVal 0)])], mb_backups = []\<rparr>;
       cfg = [(''video_cfg'', CDict [(''save'', CVal (1 :: nat))]), (''other'', CVal 7)]
   in case ms_apply_evaluate_cfg (Some cfg) s of
        Inl _ \<Rightarrow> False
      | Inr s' \<Rightarrow> mb_members s' = [(''seed'', CVal 1), (''video_cfg'', CDict [(''fps'', CVal 5), (''save'', CVal 1)])]
          \<and> (ms_restore_evaluate_cfg ^^ 1) s' = s"
  using overrides_undone [of "[[(''video_cfg'', CDict [(''save'', CVal (1 :: nat))]), (''other'', CVal 7)]]"
      "\<lparr>mb_members = [(''seed'', CVal 1), (''video_cfg'', CDict [(''fps'', CVal 5), (''save'', CVal 0)])], mb_backups = []\<rparr>"]
  by (simp add: ms_apply_evaluate_cfg_def override_member_def)

end
