(* ===== verification/Async_Rollout.thy ===== *)
theory Async_Rollout
  imports Prelude
begin

text \<open>
  The eval policy of \<open>rlightning/policy/base_policy.py\<close> in the asynchronous rollout mode: requests are coroutines of an
  event loop that wait at the gate \<open>_accept_new_requests\<close> and count themselves in \<open>num_requests\<close>; the updater thread
  closes the gate by a callback that it leaves with the loop, waits until no request is counted, loads the weights and
  leaves another callback that opens the gate. A step is what the loop runs between two waits, or one operation of the
  updater; the delivery of a version and the two statements of a notification are steps of their own, and a load may raise,
  which is logged. Weights are version numbers.
\<close>

subsection \<open>State\<close>

text \<open>
  A request that finds the gate closed waits; when the gate is opened all waiting requests are woken, and a woken
  request goes on when the loop resumes it, whatever the gate is by then.
\<close>

datatype request = Fresh | Waiting | Woken | Computing | Answered | Raised

datatype update_place = USleep | UClose | UDrain | ULoad | UReopen | UUnsignal | UReport

record async_policy =
  ap_gate :: bool
  ap_callbacks :: "bool list"
  ap_requests :: "request list"
  ap_num :: int
  ap_updater :: update_place
  ap_signal :: bool
  ap_done :: bool
  ap_notifying :: bool
  ap_delivered :: nat
  ap_loaded :: "nat option"

definition init_async :: "nat \<Rightarrow> async_policy" where
  "init_async n = \<lparr>ap_gate = True, ap_callbacks = [], ap_requests = replicate n Fresh, ap_num = 0, ap_updater = USleep,
     ap_signal = False, ap_done = True, ap_notifying = False, ap_delivered = 0, ap_loaded = Some 0\<rparr>"

subsection \<open>Steps\<close>

text \<open>\<open>_rollout_async\<close> up to the gate, and \<open>_pre_rollout_hook_async\<close> behind it.\<close>

definition admit :: "nat \<Rightarrow> async_policy \<Rightarrow> async_policy" where
  "admit i s = s\<lparr>ap_requests := (ap_requests s)[i := Computing], ap_num := ap_num s + 1\<rparr>"

definition start_request :: "nat \<Rightarrow> async_policy \<Rightarrow> async_policy option" where
  "start_request i s =
     (if i < length (ap_requests s) \<and> ap_requests s ! i = Fresh
      then Some (if ap_gate s then admit i s else s\<lparr>ap_requests := (ap_requests s)[i := Waiting]\<rparr>) else None)"

definition resume_request :: "nat \<Rightarrow> async_policy \<Rightarrow> async_policy option" where
  "resume_request i s = (if i < length (ap_requests s) \<and> ap_requests s ! i = Woken then Some (admit i s) else None)"

text \<open>The end of the computation: \<open>_post_rollout_hook_async\<close>, which a computation that raises does not reach.\<close>

definition finish_request :: "nat \<Rightarrow> bool \<Rightarrow> async_policy \<Rightarrow> async_policy option" where
  "finish_request i raises s =
     (if i < length (ap_requests s) \<and> ap_requests s ! i = Computing
      then Some (if raises then s\<lparr>ap_requests := (ap_requests s)[i := Raised]\<rparr>
                 else s\<lparr>ap_requests := (ap_requests s)[i := Answered], ap_num := ap_num s - 1\<rparr>)
      else None)"

definition wake :: "request \<Rightarrow> request" where
  "wake r = (if r = Waiting then Woken else r)"

definition run_callback :: "async_policy \<Rightarrow> async_policy option" where
  "run_callback s =
     (case ap_callbacks s of
        [] \<Rightarrow> None
      | opening # cbs \<Rightarrow> Some (s\<lparr>ap_callbacks := cbs, ap_gate := opening,
                              ap_requests := (if opening then map wake (ap_requests s) else ap_requests s)\<rparr>))"

text \<open>The delivery of a version, and \<open>notify_update_weights\<close>: it takes the event of a finished update back, then sets the signal.\<close>

definition deliver_weights :: "async_policy \<Rightarrow> async_policy" where
  "deliver_weights s = s\<lparr>ap_delivered := ap_delivered s + 1\<rparr>"

definition notify_async :: "async_policy \<Rightarrow> async_policy option" where
  "notify_async s = (if ap_notifying s then None else Some (s\<lparr>ap_done := False, ap_notifying := True\<rparr>))"

definition signal_async :: "async_policy \<Rightarrow> async_policy option" where
  "signal_async s = (if ap_notifying s then Some (s\<lparr>ap_signal := True, ap_notifying := False\<rparr>) else None)"

text \<open>The updater; it waits for the counter to be 0 on a condition that is notified when it becomes 0.\<close>

definition updater_turn :: "async_policy \<Rightarrow> async_policy option" where
  "updater_turn s =
     (case ap_updater s of
        USleep \<Rightarrow> if ap_signal s then Some (s\<lparr>ap_updater := UClose\<rparr>) else None
      | UClose \<Rightarrow> Some (s\<lparr>ap_callbacks := ap_callbacks s @ [False], ap_updater := UDrain\<rparr>)
      | UDrain \<Rightarrow> if ap_num s > 0 then None else Some (s\<lparr>ap_updater := ULoad\<rparr>)
      | ULoad \<Rightarrow> Some (s\<lparr>ap_loaded := Some (ap_delivered s), ap_updater := UReopen\<rparr>)
      | UReopen \<Rightarrow> Some (s\<lparr>ap_callbacks := ap_callbacks s @ [True], ap_updater := UUnsignal\<rparr>)
      | UUnsignal \<Rightarrow> Some (s\<lparr>ap_signal := False, ap_updater := UReport\<rparr>)
      | UReport \<Rightarrow> Some (s\<lparr>ap_done := True, ap_updater := USleep\<rparr>))"

text \<open>A load that raises, before it replaced anything or broken off with some parameters replaced: the exception is logged,
  and the post-update hook follows.\<close>

definition failed_load :: "bool \<Rightarrow> async_policy \<Rightarrow> async_policy option" where
  "failed_load broken s =
     (if ap_updater s = ULoad then Some (s\<lparr>ap_loaded := (if broken then None else ap_loaded s), ap_updater := UReopen\<rparr>) else None)"

datatype async_event = Deliver | Notify | Signal | Updater | LoadRaises bool | Callback | Start nat | Resume nat | Finish nat bool

definition async_step :: "async_event \<Rightarrow> async_policy \<Rightarrow> async_policy option" where
  "async_step ev s =
     (case ev of
        Deliver \<Rightarrow> Some (deliver_weights s)
      | Notify \<Rightarrow> notify_async s
      | Signal \<Rightarrow> signal_async s
      | Updater \<Rightarrow> updater_turn s
      | LoadRaises broken \<Rightarrow> failed_load broken s
      | Callback \<Rightarrow> run_callback s
      | Start i \<Rightarrow> start_request i s
      | Resume i \<Rightarrow> resume_request i s
      | Finish i raises \<Rightarrow> finish_request i raises s)"

fun async_steps :: "async_event list \<Rightarrow> async_policy \<Rightarrow> async_policy option" where
  "async_steps [] s = Some s"
| "async_steps (ev # evs) s = Option.bind (async_step ev s) (async_steps evs)"

text \<open>
  The states a policy for \<open>n\<close> requests can reach. In a prompt run the loop runs the callbacks and resumes the woken
  requests before the updater looks at the counter.
\<close>

inductive loop_run :: "bool \<Rightarrow> nat \<Rightarrow> async_policy \<Rightarrow> bool" for prompt n where
  run_init: "loop_run prompt n (init_async n)"
| run_turn: "loop_run prompt n s \<Longrightarrow> async_step ev s = Some s' \<Longrightarrow>
    prompt \<and> ev = Updater \<and> ap_updater s = UDrain \<longrightarrow> ap_callbacks s = [] \<and> Woken \<notin> set (ap_requests s) \<Longrightarrow>
    loop_run prompt n s'"


text \<open>
  What holds in every run of the asynchronous rollout mode: what the counter counts, how the gate follows the updater,
  that the mode settles when no computation raises, and what goes wrong when one does or when the gate closes late.
\<close>

subsection \<open>The invariant\<close>

definition counted :: "request \<Rightarrow> bool" where
  "counted r \<longleftrightarrow> r = Computing \<or> r = Raised"

text \<open>What the gate will be when the callbacks have run.\<close>

definition final_gate :: "async_policy \<Rightarrow> bool" where
  "final_gate s = List.last (ap_gate s # ap_callbacks s)"

definition async_inv :: "nat \<Rightarrow> async_policy \<Rightarrow> bool" where
  "async_inv n s \<longleftrightarrow> length (ap_requests s) = n
     \<and> ap_num s = int (length (filter counted (ap_requests s)))
     \<and> final_gate s = (ap_updater s \<notin> {UDrain, ULoad, UReopen})
     \<and> (ap_gate s \<longrightarrow> Waiting \<notin> set (ap_requests s))
     \<and> (ap_updater s \<noteq> USleep \<and> ap_updater s \<noteq> UReport \<longrightarrow> ap_signal s)
     \<and> (ap_updater s = USleep \<and> \<not> ap_signal s \<and> \<not> ap_notifying s \<longrightarrow> ap_done s)"

lemma count_update:
  "i < length xs \<Longrightarrow> int (length (filter P (xs[i := x]))) = int (length (filter P xs)) - of_bool (P (xs ! i)) + of_bool (P x)"
proof (induction xs arbitrary: i)
  case (Cons y ys)
  then show ?case by (cases i) auto
qed simp

lemma count_wake: "counted \<circ> wake = counted"
  by (auto simp: fun_eq_iff counted_def wake_def)

lemma wake_no_waiting: "Waiting \<notin> wake ` set rs"
  by (auto simp: wake_def)

lemma async_inv_init: "async_inv n (init_async n)"
  by (simp add: async_inv_def init_async_def final_gate_def counted_def)

lemma updater_keeps_inv:
  assumes "async_inv n s" "updater_turn s = Some s'"
  shows "async_inv n s'"
  using assms by (cases "ap_updater s") (auto simp: updater_turn_def async_inv_def final_gate_def split: if_splits)

lemma final_gate_cong: "ap_gate s' = ap_gate s \<Longrightarrow> ap_callbacks s' = ap_callbacks s \<Longrightarrow> final_gate s' = final_gate s"
  by (simp add: final_gate_def)

lemma request_keeps_inv:
  assumes "async_inv n s" "i < length (ap_requests s)"
    and "s' = s\<lparr>ap_requests := (ap_requests s)[i := r], ap_num := ap_num s - of_bool (counted (ap_requests s ! i)) + of_bool (counted r)\<rparr>"
    and "r = Waiting \<longrightarrow> \<not> ap_gate s"
  shows "async_inv n s'"
proof -
  have "Waiting \<notin> set ((ap_requests s)[i := r])" if "ap_gate s"
    using that assms(1,4) set_update_subset_insert [of "ap_requests s" i r] by (auto simp: async_inv_def)
  moreover have "final_gate s' = final_gate s" unfolding assms(3) by (rule final_gate_cong) simp_all
  ultimately show ?thesis using assms(1,2) unfolding async_inv_def assms(3) by (simp add: count_update)
qed

lemma callback_keeps_inv:
  assumes "async_inv n s" "run_callback s = Some s'"
  shows "async_inv n s'"
proof (cases "ap_callbacks s")
  case (Cons b cbs)
  then have "s' = s\<lparr>ap_callbacks := cbs, ap_gate := b, ap_requests := (if b then map wake (ap_requests s) else ap_requests s)\<rparr>"
    using assms(2) by (simp add: run_callback_def)
  moreover have "final_gate s = List.last (b # cbs)" by (simp add: final_gate_def Cons)
  ultimately show ?thesis
    using assms(1) unfolding async_inv_def by (cases b) (simp_all add: final_gate_def count_wake wake_no_waiting)
qed (use assms(2) in \<open>simp add: run_callback_def\<close>)

text \<open>What a step on a request does to the requests and to the counter.\<close>

lemma request_steps:
  "start_request i s = Some s' \<Longrightarrow> \<exists>r. i < length (ap_requests s) \<and> (r = Waiting \<longrightarrow> \<not> ap_gate s)
     \<and> s' = s\<lparr>ap_requests := (ap_requests s)[i := r], ap_num := ap_num s - of_bool (counted (ap_requests s ! i)) + of_bool (counted r)\<rparr>"
  "resume_request i s = Some s' \<Longrightarrow> i < length (ap_requests s)
     \<and> s' = s\<lparr>ap_requests := (ap_requests s)[i := Computing], ap_num := ap_num s - of_bool (counted (ap_requests s ! i)) + of_bool (counted Computing)\<rparr>"
  "finish_request i raises s = Some s' \<Longrightarrow> \<exists>r. i < length (ap_requests s) \<and> r \<noteq> Waiting
     \<and> s' = s\<lparr>ap_requests := (ap_requests s)[i := r], ap_num := ap_num s - of_bool (counted (ap_requests s ! i)) + of_bool (counted r)\<rparr>"
  subgoal
    by (rule exI [of _ "if ap_gate s then Computing else Waiting"])
      (auto simp: start_request_def admit_def counted_def split: if_splits)
  subgoal by (auto simp: resume_request_def admit_def counted_def split: if_splits)
  subgoal
    by (rule exI [of _ "if raises then Raised else Answered"]) (auto simp: finish_request_def counted_def split: if_splits)
  done

lemma step_keeps_inv:
  assumes "async_inv n s" "async_step ev s = Some s'"
  shows "async_inv n s'"
proof (cases ev)
  case Deliver
  then have "s' = deliver_weights s" using assms(2) by (simp add: async_step_def)
  then show ?thesis using assms(1) unfolding async_inv_def by (simp add: deliver_weights_def final_gate_def)
next
  case Notify
  then have "s' = s\<lparr>ap_done := False, ap_notifying := True\<rparr>"
    using assms(2) by (simp add: async_step_def notify_async_def split: if_splits)
  then show ?thesis using assms(1) unfolding async_inv_def by (simp add: final_gate_def)
next
  case Signal
  then have "s' = s\<lparr>ap_signal := True, ap_notifying := False\<rparr>"
    using assms(2) by (simp add: async_step_def signal_async_def split: if_splits)
  then show ?thesis using assms(1) unfolding async_inv_def by (simp add: final_gate_def)
next
  case (LoadRaises broken)
  then have "ap_updater s = ULoad" "s' = s\<lparr>ap_loaded := (if broken then None else ap_loaded s), ap_updater := UReopen\<rparr>"
    using assms(2) by (simp_all add: async_step_def failed_load_def split: if_splits)
  then show ?thesis using assms(1) unfolding async_inv_def by (simp add: final_gate_def)
next
  case Updater
  then show ?thesis using assms updater_keeps_inv by (simp add: async_step_def)
next
  case Callback
  then show ?thesis using assms callback_keeps_inv by (simp add: async_step_def)
next
  case (Start i)
  then have "start_request i s = Some s'" using assms(2) by (simp add: async_step_def)
  from request_steps(1) [OF this] show ?thesis using request_keeps_inv [OF assms(1)] by blast
next
  case (Resume i)
  then have "resume_request i s = Some s'" using assms(2) by (simp add: async_step_def)
  from request_steps(2) [OF this] show ?thesis using request_keeps_inv [OF assms(1), of i s' Computing] by simp
next
  case (Finish i raises)
  then have "finish_request i raises s = Some s'" using assms(2) by (simp add: async_step_def)
  from request_steps(3) [OF this] show ?thesis using request_keeps_inv [OF assms(1)] by blast
qed

lemma run_inv: "loop_run prompt n s \<Longrightarrow> async_inv n s"
  by (induction rule: loop_run.induct) (auto intro: async_inv_init step_keeps_inv)

subsection \<open>Loads and requests\<close>

text \<open>In a prompt run the gate stays closed and nobody is on the way through it while weights are loaded.\<close>

definition sealed :: "async_policy \<Rightarrow> bool" where
  "sealed s \<longleftrightarrow> \<not> ap_gate s \<and> ap_callbacks s = [] \<and> Woken \<notin> set (ap_requests s) \<and> Computing \<notin> set (ap_requests s)"

lemma sealed_step:
  assumes "sealed s" "ap_updater s = ULoad \<or> ap_updater s = UReopen" "async_step ev s = Some s'" "ev \<noteq> Updater"
  shows "sealed s'"
proof (cases ev)
  case (Start i)
  then show ?thesis
    using assms set_update_subset_insert [of "ap_requests s" i Waiting]
    by (auto simp: sealed_def async_step_def start_request_def split: if_splits)
next
  case (Resume i)
  then have "Woken \<in> set (ap_requests s)"
    using assms(3) by (auto simp: async_step_def resume_request_def in_set_conv_nth split: if_splits)
  then show ?thesis using assms(1) by (simp add: sealed_def)
next
  case (Finish i raises)
  then have "Computing \<in> set (ap_requests s)"
    using assms(3) by (auto simp: async_step_def finish_request_def in_set_conv_nth split: if_splits)
  then show ?thesis using assms(1) by (simp add: sealed_def)
qed (use assms in \<open>auto simp: sealed_def async_step_def deliver_weights_def notify_async_def signal_async_def failed_load_def run_callback_def
      split: if_splits\<close>)

lemma prompt_sealed: "loop_run True n s \<Longrightarrow> ap_updater s = ULoad \<or> ap_updater s = UReopen \<Longrightarrow> sealed s"
proof (induction rule: loop_run.induct)
  case run_init
  then show ?case by (simp add: init_async_def)
next
  case (run_turn s ev s')
  note inv = run_inv [OF run_turn.hyps(1)]
  show ?case
  proof (cases "ev = Updater")
    case True
    then have step: "updater_turn s = Some s'" using run_turn.hyps(2) by (simp add: async_step_def)
    show ?thesis
    proof (cases "ap_updater s")
      case UDrain
      then have "ap_callbacks s = []" "Woken \<notin> set (ap_requests s)" "ap_num s = 0"
        using run_turn.hyps(3) step True inv by (auto simp: updater_turn_def async_inv_def split: if_splits)
      moreover have "\<not> ap_gate s" using inv UDrain calculation(1) by (simp add: async_inv_def final_gate_def)
      moreover have "Computing \<notin> set (ap_requests s)"
        using inv calculation(3) by (auto simp: async_inv_def counted_def filter_empty_conv)
      moreover have "s' = s\<lparr>ap_updater := ULoad\<rparr>" using step UDrain by (simp add: updater_turn_def split: if_splits)
      ultimately show ?thesis by (simp add: sealed_def)
    next
      case ULoad
      then show ?thesis using run_turn.IH step by (auto simp: updater_turn_def sealed_def)
    qed (use step run_turn.prems in \<open>auto simp: updater_turn_def split: if_splits\<close>)
  next
    case False
    have "ap_updater s' = ap_updater s \<or> ap_updater s = ULoad"
      using False run_turn.hyps(2)
      by (cases ev) (auto simp: async_step_def deliver_weights_def notify_async_def signal_async_def failed_load_def run_callback_def start_request_def resume_request_def finish_request_def
          admit_def split: if_splits list.splits)
    then show ?thesis using sealed_step [OF run_turn.IH _ run_turn.hyps(2) False] run_turn.prems by auto
  qed
qed

text \<open>A request that is admitted between the look at the counter and the callback that closes the gate.\<close>

definition late_request :: "async_event list" where
  "late_request = [Deliver, Notify, Signal, Updater, Updater, Updater, Start 0]"

lemma steps_run: "loop_run False n s \<Longrightarrow> async_steps evs s = Some t \<Longrightarrow> loop_run False n t"
proof (induction evs arbitrary: s)
  case (Cons ev evs)
  then obtain u where u: "async_step ev s = Some u" "async_steps evs u = Some t" by (auto simp: Option.bind_eq_Some_conv)
  show ?case by (rule Cons.IH [OF run_turn [OF Cons.prems(1) u(1)] u(2)]) simp
qed simp

text \<open>C33: no request computes while weights are loaded in a run in which, whenever the updater looks at the counter, the event
  loop has run all callbacks (so the gate is closed) and no woken request is left to be resumed; nothing makes it: for any positive number of requests
  there is a run in which a request is admitted to the computation while the weights are being loaded.\<close>
theorem load_meets_late_request:
  "(loop_run True n s \<longrightarrow> ap_updater s = ULoad \<longrightarrow> Computing \<notin> set (ap_requests s))
   \<and> (0 < n \<longrightarrow> (\<exists>t. loop_run False n t \<and> ap_updater t = ULoad \<and> ap_requests t ! 0 = Computing))"
proof (intro conjI impI)
  show "loop_run True n s \<Longrightarrow> ap_updater s = ULoad \<Longrightarrow> Computing \<notin> set (ap_requests s)"
    using prompt_sealed by (auto simp: sealed_def)
  assume "0 < n"
  then obtain t where t: "async_steps late_request (init_async n) = Some t" "ap_updater t = ULoad" "ap_requests t ! 0 = Computing"
    by (simp add: late_request_def init_async_def async_step_def deliver_weights_def signal_async_def notify_async_def updater_turn_def start_request_def admit_def)
  then show "\<exists>t. loop_run False n t \<and> ap_updater t = ULoad \<and> ap_requests t ! 0 = Computing"
    using steps_run [OF run_init t(1)] by blast
qed

lemma load_meets_late_request_witness:
  "loop_run True 1 (init_async 1) \<and> (\<exists>t. loop_run False 1 t \<and> ap_updater t = ULoad \<and> ap_requests t ! 0 = Computing)"
  using load_meets_late_request [of 1 "init_async 1"] run_init by simp

subsection \<open>Settling\<close>

text \<open>How many steps are left for a request and for the updater.\<close>

fun request_rank :: "request \<Rightarrow> nat" where
  "request_rank Fresh = 4"
| "request_rank Waiting = 3"
| "request_rank Woken = 2"
| "request_rank Computing = 1"
| "request_rank Answered = 0"
| "request_rank Raised = 0"

fun update_rank :: "bool \<Rightarrow> update_place \<Rightarrow> nat" where
  "update_rank sig USleep = (if sig then 7 else 0)"
| "update_rank sig UClose = 6"
| "update_rank sig UDrain = 5"
| "update_rank sig ULoad = 4"
| "update_rank sig UReopen = 3"
| "update_rank sig UUnsignal = 2"
| "update_rank sig UReport = (if sig then 8 else 1)"

definition async_measure :: "async_policy \<Rightarrow> nat" where
  "async_measure s = sum_list (map request_rank (ap_requests s)) + length (ap_callbacks s) + 2 * update_rank (ap_signal s) (ap_updater s)
     + (if ap_notifying s then 15 else 0)"

lemma sum_rank_update:
  "i < length rs \<Longrightarrow> sum_list (map request_rank (rs[i := r])) + request_rank (rs ! i) = sum_list (map request_rank rs) + request_rank r"
proof (induction rs arbitrary: i)
  case (Cons x rs)
  then show ?case by (cases i) auto
qed simp

lemma sum_rank_wake: "sum_list (map request_rank (map wake rs)) \<le> sum_list (map request_rank rs)"
  by (induction rs) (auto simp: wake_def intro: add_mono)

lemma updater_spends: "updater_turn s = Some s' \<Longrightarrow> async_measure s' < async_measure s"
  by (cases "ap_updater s") (auto simp: updater_turn_def async_measure_def split: if_splits)

lemma step_spends:
  assumes "async_step ev s = Some s'" "ev \<noteq> Deliver" "ev \<noteq> Notify"
  shows "async_measure s' < async_measure s"
proof (cases ev)
  case Signal
  have "update_rank True (ap_updater s) \<le> update_rank b (ap_updater s) + 7" for b by (cases "ap_updater s") auto
  from this [of "ap_signal s"] show ?thesis
    using assms(1) Signal by (auto simp: async_step_def signal_async_def async_measure_def split: if_splits)
next
  case Callback
  then show ?thesis
    using assms(1) sum_rank_wake [of "ap_requests s"]
    by (auto simp: async_step_def run_callback_def async_measure_def split: list.splits if_splits)
next
  case (Start i)
  then show ?thesis
    using assms(1) sum_rank_update [of i "ap_requests s" Computing] sum_rank_update [of i "ap_requests s" Waiting]
    by (auto simp: async_step_def start_request_def admit_def async_measure_def split: if_splits)
next
  case (Resume i)
  then show ?thesis
    using assms(1) sum_rank_update [of i "ap_requests s" Computing]
    by (auto simp: async_step_def resume_request_def admit_def async_measure_def split: if_splits)
next
  case (Finish i raises)
  then show ?thesis
    using assms(1) sum_rank_update [of i "ap_requests s" Answered] sum_rank_update [of i "ap_requests s" Raised]
    by (auto simp: async_step_def finish_request_def async_measure_def split: if_splits)
qed (use assms updater_spends in \<open>auto simp: async_step_def failed_load_def async_measure_def split: if_splits\<close>)

lemma steps_bounded: "async_steps evs s = Some t \<Longrightarrow> set evs \<inter> {Deliver, Notify} = {} \<Longrightarrow> length evs + async_measure t \<le> async_measure s"
proof (induction evs arbitrary: s)
  case (Cons ev evs)
  then obtain u where u: "async_step ev s = Some u" "async_steps evs u = Some t" by (auto simp: Option.bind_eq_Some_conv)
  have "async_measure u < async_measure s" using step_spends [OF u(1)] Cons.prems(2) by auto
  then show ?case using Cons.IH [OF u(2)] Cons.prems(2) by simp
qed simp

text \<open>A state in which nothing but a delivery or a new notification can happen.\<close>

definition quiet_state :: "async_policy \<Rightarrow> bool" where
  "quiet_state s \<longleftrightarrow> (\<forall>ev. ev \<noteq> Deliver \<and> ev \<noteq> Notify \<longrightarrow> async_step ev s = None)"

lemma quiet_parts:
  assumes "quiet_state s"
  shows "updater_turn s = None" "ap_callbacks s = []" "\<not> ap_notifying s" "set (ap_requests s) \<subseteq> {Waiting, Answered, Raised}"
proof -
  have none: "async_step ev s = None" if "ev \<noteq> Deliver" "ev \<noteq> Notify" for ev using assms that by (auto simp: quiet_state_def)
  show "updater_turn s = None" using none [of Updater] by (simp add: async_step_def)
  show "\<not> ap_notifying s" using none [of Signal] by (simp add: async_step_def signal_async_def split: if_splits)
  show "ap_callbacks s = []" using none [of Callback] by (simp add: async_step_def run_callback_def split: list.splits)
  show "set (ap_requests s) \<subseteq> {Waiting, Answered, Raised}"
  proof
    fix r assume "r \<in> set (ap_requests s)"
    then obtain i where i: "i < length (ap_requests s)" "ap_requests s ! i = r" by (auto simp: in_set_conv_nth)
    then show "r \<in> {Waiting, Answered, Raised}"
      using none [of "Start i"] none [of "Resume i"] none [of "Finish i False"]
      by (cases r) (auto simp: async_step_def start_request_def resume_request_def finish_request_def)
  qed
qed

text \<open>C32: the asynchronous mode settles: without further deliveries and notifications only a bounded number of steps can follow, and
  when nothing more can happen and no computation raised, every request is answered, the gate is open, and the
  updater sleeps with nothing left to do and has reported the update as done.\<close>
theorem async_mode_settles:
  assumes "loop_run False n s"
  shows "(\<forall>evs t. async_steps evs s = Some t \<and> set evs \<inter> {Deliver, Notify} = {} \<longrightarrow> length evs \<le> async_measure s)
    \<and> (quiet_state s \<and> Raised \<notin> set (ap_requests s) \<longrightarrow>
        set (ap_requests s) \<subseteq> {Answered} \<and> ap_gate s \<and> ap_updater s = USleep \<and> \<not> ap_signal s \<and> ap_done s)"
proof (intro conjI [OF _ impI] allI impI; (elim conjE)?)
  show "async_steps evs s = Some t \<Longrightarrow> set evs \<inter> {Deliver, Notify} = {} \<Longrightarrow> length evs \<le> async_measure s" for evs t
    using steps_bounded [of evs s t] by simp
  assume quiet: "quiet_state s" and fine: "Raised \<notin> set (ap_requests s)"
  note inv = run_inv [OF assms]
  have reqs: "set (ap_requests s) \<subseteq> {Waiting, Answered}" using quiet_parts(4) [OF quiet] fine by auto
  then have "ap_num s = 0" using inv by (auto simp: async_inv_def counted_def filter_empty_conv)
  then have up: "ap_updater s = USleep \<and> \<not> ap_signal s"
    using quiet_parts(1) [OF quiet] by (cases "ap_updater s") (auto simp: updater_turn_def split: if_splits)
  then have gate: "ap_gate s" using inv quiet_parts(2) [OF quiet] by (simp add: async_inv_def final_gate_def)
  then have "set (ap_requests s) \<subseteq> {Answered}" using inv reqs by (auto simp: async_inv_def)
  then show "set (ap_requests s) \<subseteq> {Answered} \<and> ap_gate s \<and> ap_updater s = USleep \<and> \<not> ap_signal s \<and> ap_done s"
    using gate up inv quiet_parts(3) [OF quiet] by (auto simp: async_inv_def)
qed

definition settled_run :: "async_event list" where
  "settled_run = [Deliver, Notify, Signal, Updater, Updater, Updater, Start 0, Callback, Finish 0 False] @ replicate 4 Updater @ [Callback]"

definition settled_state :: async_policy where
  "settled_state = \<lparr>ap_gate = True, ap_callbacks = [], ap_requests = [Answered], ap_num = 0, ap_updater = USleep,
     ap_signal = False, ap_done = True, ap_notifying = False, ap_delivered = 1, ap_loaded = Some 1\<rparr>"

lemma settled_run: "async_steps settled_run (init_async 1) = Some settled_state"
  by (simp add: settled_run_def settled_state_def init_async_def async_step_def deliver_weights_def signal_async_def notify_async_def updater_turn_def start_request_def
      finish_request_def run_callback_def admit_def wake_def eval_nat_numeral)

lemma async_mode_settles_witness: "quiet_state settled_state \<and> set (ap_requests settled_state) \<subseteq> {Answered} \<and> ap_done settled_state"
proof -
  have quiet: "quiet_state settled_state"
    by (auto simp: quiet_state_def settled_state_def async_step_def updater_turn_def signal_async_def failed_load_def start_request_def
        resume_request_def finish_request_def run_callback_def split: async_event.split)
  have "loop_run False 1 settled_state" by (rule steps_run [OF run_init settled_run])
  from async_mode_settles [OF this] quiet show ?thesis by (auto simp: settled_state_def)
qed

subsection \<open>A computation that raises\<close>

definition blocked :: "async_policy \<Rightarrow> bool" where
  "blocked s \<longleftrightarrow> Raised \<in> set (ap_requests s) \<and> ap_updater s \<in> {USleep, UClose, UDrain}"

lemma raised_stays: "Raised \<in> set xs \<Longrightarrow> xs ! i \<noteq> Raised \<Longrightarrow> Raised \<in> set (xs[i := r])"
  by (metis in_set_conv_nth length_list_update nth_list_update_neq)

lemma blocked_step:
  assumes "async_inv n s" "blocked s" "async_step ev s = Some s'"
  shows "blocked s' \<and> ap_loaded s' = ap_loaded s"
proof (cases ev)
  case Updater
  have "0 < ap_num s" using assms(1,2) by (auto simp: async_inv_def blocked_def counted_def filter_empty_conv)
  then show ?thesis using assms(2,3) Updater by (auto simp: async_step_def updater_turn_def blocked_def split: if_splits)
next
  case (Start i)
  then show ?thesis
    using assms(2,3) by (auto simp: async_step_def start_request_def admit_def blocked_def raised_stays split: if_splits)
next
  case (Resume i)
  then show ?thesis
    using assms(2,3) by (auto simp: async_step_def resume_request_def admit_def blocked_def raised_stays split: if_splits)
next
  case (Finish i raises)
  then show ?thesis
    using assms(2,3) by (auto simp: async_step_def finish_request_def blocked_def raised_stays split: if_splits)
qed (use assms(2,3) in \<open>force simp: async_step_def deliver_weights_def signal_async_def failed_load_def notify_async_def run_callback_def blocked_def wake_def split: list.splits if_splits\<close>)+

text \<open>C34: after a computation has raised, no later update ever loads weights: whatever happens, the policy keeps the
  version it has, and when a notification was given and nothing more can happen, the updater still waits for
  the counter, the gate is closed, and every request that is not finished waits for ever.\<close>
theorem failed_request_stops_updates:
  assumes "loop_run False n s" "blocked s" "async_steps evs s = Some t"
  shows "ap_loaded t = ap_loaded s \<and> blocked t
    \<and> (ap_signal t \<and> quiet_state t \<longrightarrow> ap_updater t = UDrain \<and> \<not> ap_gate t \<and> set (ap_requests t) \<subseteq> {Waiting, Answered, Raised})"
proof -
  have *: "async_inv n s \<Longrightarrow> blocked s \<Longrightarrow> async_steps evs s = Some t \<Longrightarrow> async_inv n t \<and> blocked t \<and> ap_loaded t = ap_loaded s" for s
  proof (induction evs arbitrary: s)
    case (Cons ev evs)
    then obtain u where u: "async_step ev s = Some u" "async_steps evs u = Some t" by (auto simp: Option.bind_eq_Some_conv)
    show ?case
      using Cons.IH [OF step_keeps_inv [OF Cons.prems(1) u(1)] _ u(2)] blocked_step [OF Cons.prems(1,2) u(1)] by simp
  qed simp
  note t = * [OF run_inv [OF assms(1)] assms(2,3)]
  have "ap_updater t = UDrain \<and> \<not> ap_gate t" if "ap_signal t" "quiet_state t"
  proof -
    have "ap_updater t = UDrain"
      using quiet_parts(1) [OF that(2)] that(1) t by (auto simp: blocked_def updater_turn_def split: if_splits)
    then show ?thesis using t quiet_parts(2) [OF that(2)] by (simp add: async_inv_def final_gate_def)
  qed
  then show ?thesis using t quiet_parts(4) by blast
qed

lemma failed_request_stops_updates_witness:
  "\<exists>t. async_steps [Deliver, Notify, Signal, Updater, Updater, Callback, Start 1] 
      \<lparr>ap_gate = True, ap_callbacks = [], ap_requests = [Raised, Fresh], ap_num = 1, ap_updater = USleep,
       ap_signal = False, ap_done = True, ap_notifying = False, ap_delivered = 0, ap_loaded = Some 0\<rparr> = Some t
     \<and> ap_updater t = UDrain \<and> ap_requests t = [Raised, Waiting] \<and> ap_loaded t = Some 0 \<and> blocked t"
proof -
  let ?s = "\<lparr>ap_gate = True, ap_callbacks = [], ap_requests = [Raised, Fresh], ap_num = 1, ap_updater = USleep,
       ap_signal = False, ap_done = True, ap_notifying = False, ap_delivered = 0, ap_loaded = Some 0\<rparr>"
  have "async_steps [Start 0, Finish 0 True] (init_async 2) = Some ?s"
    by (simp add: init_async_def async_step_def start_request_def finish_request_def admit_def numeral_2_eq_2)
  then have run: "loop_run False 2 ?s" by (rule steps_run [OF run_init])
  obtain t where t: "async_steps [Deliver, Notify, Signal, Updater, Updater, Callback, Start 1] ?s = Some t" "ap_updater t = UDrain" "ap_requests t = [Raised, Waiting]"
    by (simp add: async_step_def deliver_weights_def signal_async_def notify_async_def updater_turn_def start_request_def run_callback_def)
  show ?thesis using failed_request_stops_updates [OF run _ t(1)] t by (auto simp: blocked_def)
qed


end
