(* ===== verification/Rsl_Engine.thy ===== *)
theory Rsl_Engine
  imports Prelude Complex_Main
begin

text \<open>
  \<open>RSLRLEngine\<close> of \<open>rlightning/engine/rsl_rl_engine.py\<close>: the rollout that keeps every environment going until each has
  answered a given number of steps, in whatever order the environments answer, and its preparation of the data and of
  the training metrics. The environment group and the policy group are parameters; the buffer is the list of what it was
  given. The statistics that are logged at the end of a rollout are left out.
\<close>

subsection \<open>Parameters and state\<close>

record ('w, 'g, 'r, 'p, 'q) rsl_ops =
  ro_reset :: "'w \<Rightarrow> string \<Rightarrow> (string \<times> 'r) list \<times> 'w"
  ro_step_async :: "'w \<Rightarrow> (string \<times> 'p) list \<Rightarrow> 'w"
  ro_collect_async :: "'w \<Rightarrow> (string \<times> 'r) list \<times> 'w"
  ro_rollout_batch :: "'g \<Rightarrow> (string \<times> 'r) list \<Rightarrow> (string \<times> 'p) list \<times> 'g"
  ro_postprocess :: "'g \<Rightarrow> (string \<times> 'r) list \<Rightarrow> (string \<times> 'p) list \<Rightarrow> (string \<times> 'q) list \<times> 'g"

text \<open>What the buffer was given, in order: returns of environments, processed responses, and ends of episodes.\<close>

datatype ('r, 'q) buffered = Returned 'r | Processed 'q | Truncated

text \<open>\<open>re_submitted\<close> and \<open>re_collected\<close> log what was given to \<open>step_async\<close> and got from \<open>collect_async\<close>.\<close>

record ('w, 'g, 'r, 'p, 'q) rsl_engine =
  re_world :: 'w
  re_policy :: 'g
  re_reset_done :: bool
  re_last_batch :: "(string \<times> 'r) list"
  re_buffer :: "(string \<times> ('r, 'q) buffered) list"
  re_submitted :: "(string \<times> 'p) list"
  re_collected :: "(string \<times> 'r) list"

text \<open>The local variables of \<open>rollout\<close>, with the engine.\<close>

record ('w, 'g, 'r, 'p, 'q) rsl_loop =
  rl_engine :: "('w, 'g, 'r, 'p, 'q) rsl_engine"
  rl_batch :: "(string \<times> 'r) list"
  rl_counter :: "(string, nat) dict"
  rl_last :: "(string, 'r) dict"

subsection \<open>The rollout\<close>

definition buffer_add :: "(string \<times> ('r, 'q) buffered) list \<Rightarrow> ('w, 'g, 'r, 'p, 'q) rsl_engine \<Rightarrow> ('w, 'g, 'r, 'p, 'q) rsl_engine" where
  "buffer_add entries en = en\<lparr>re_buffer := re_buffer en @ entries\<rparr>"

text \<open>Handing a batch to the policy: the returns go to the buffer, the responses to the environments when they are to
  go on, and the processed responses to the buffer.\<close>

definition serve_batch ::
    "('w, 'g, 'r, 'p, 'q) rsl_ops \<Rightarrow> bool \<Rightarrow> (string \<times> 'r) list \<Rightarrow> ('w, 'g, 'r, 'p, 'q) rsl_engine \<Rightarrow> ('w, 'g, 'r, 'p, 'q) rsl_engine" where
  "serve_batch ops go_on batch en =
     (let en = buffer_add (map (\<lambda>(i, r). (i, Returned r)) batch) en;
          (resp, g) = ro_rollout_batch ops (re_policy en) batch;
          en = (if go_on then en\<lparr>re_world := ro_step_async ops (re_world en) resp, re_submitted := re_submitted en @ resp\<rparr> else en);
          (processed, g) = ro_postprocess ops g batch resp
      in buffer_add (map (\<lambda>(i, q). (i, Processed q)) processed) (en\<lparr>re_policy := g\<rparr>))"

text \<open>Counting the answers; \<open>step_counter\<close> is a \<open>defaultdict(int)\<close>.\<close>

definition count_step ::
    "nat \<Rightarrow> string \<times> 'r \<Rightarrow> (string, nat) dict \<times> (string, 'r) dict \<times> string list
       \<Rightarrow> (string, nat) dict \<times> (string, 'r) dict \<times> string list" where
  "count_step max_steps ir st =
     (case (ir, st) of ((i, r), (counter, lasts, inactive)) \<Rightarrow>
        let counter = AList.update i (dict_get 0 counter i + 1) counter
        in if dict_get 0 counter i = max_steps then (counter, AList.update i r lasts, inactive @ [i]) else (counter, lasts, inactive))"

definition count_steps ::
    "nat \<Rightarrow> (string \<times> 'r) list \<Rightarrow> (string, nat) dict \<Rightarrow> (string, 'r) dict \<Rightarrow> (string, nat) dict \<times> (string, 'r) dict \<times> string list" where
  "count_steps max_steps batch counter lasts = fold (count_step max_steps) batch (counter, lasts, [])"

text \<open>One turn of the \<open>while\<close> loop.\<close>

definition rsl_turn ::
    "('w, 'g, 'r, 'p, 'q) rsl_ops \<Rightarrow> nat \<Rightarrow> ('w, 'g, 'r, 'p, 'q) rsl_loop \<Rightarrow> ('w, 'g, 'r, 'p, 'q) rsl_loop" where
  "rsl_turn ops max_steps st =
     (let en = (if rl_batch st \<noteq> [] then serve_batch ops True (rl_batch st) (rl_engine st) else rl_engine st);
          (batch, w) = ro_collect_async ops (re_world en);
          (counter, lasts, inactive) = count_steps max_steps batch (rl_counter st) (rl_last st);
          batch = (if inactive \<noteq> [] then filter (\<lambda>ir. fst ir \<notin> set inactive) batch else batch)
      in \<lparr>rl_engine = en\<lparr>re_world := w, re_collected := re_collected en @ fst (ro_collect_async ops (re_world en))\<rparr>, rl_batch = batch, rl_counter = counter, rl_last = lasts\<rparr>)"

text \<open>The loop, with fuel for its turns: \<open>None\<close> when the fuel runs out.\<close>

fun rsl_turns ::
    "nat \<Rightarrow> ('w, 'g, 'r, 'p, 'q) rsl_ops \<Rightarrow> nat \<Rightarrow> string list \<Rightarrow> ('w, 'g, 'r, 'p, 'q) rsl_loop \<Rightarrow> ('w, 'g, 'r, 'p, 'q) rsl_loop option" where
  "rsl_turns fuel ops max_steps env_ids st =
     (if length (rl_last st) < length env_ids
      then (case fuel of 0 \<Rightarrow> None | Suc n \<Rightarrow> rsl_turns n ops max_steps env_ids (rsl_turn ops max_steps st))
      else Some st)"

text \<open>The argument \<open>is_eval\<close> is not read: an evaluation stores its transitions as well.\<close>

definition rsl_rollout ::
    "nat \<Rightarrow> ('w, 'g, 'r, 'p, 'q) rsl_ops \<Rightarrow> nat \<Rightarrow> string list \<Rightarrow> string \<Rightarrow> bool \<Rightarrow> ('w, 'g, 'r, 'p, 'q) rsl_engine
       \<Rightarrow> ('w, 'g, 'r, 'p, 'q) rsl_engine result option" where
  "rsl_rollout fuel ops max_steps env_ids obj_set is_eval en =
     (let (batch, en) = (if re_reset_done en then (re_last_batch en, en)
                         else (case ro_reset ops (re_world en) obj_set of (rets, w) \<Rightarrow> (rets, en\<lparr>re_world := w, re_reset_done := True\<rparr>)))
      in map_option (\<lambda>st.
           if set (dict_keys (rl_last st)) = set env_ids
           then Inr ((buffer_add (map (\<lambda>(i, r). (i, Truncated)) (rl_last st))
                       (serve_batch ops False (rl_last st) (rl_engine st)))\<lparr>re_last_batch := rl_last st\<rparr>)
           else Inl AssertionError)
         (rsl_turns fuel ops max_steps env_ids \<lparr>rl_engine = en, rl_batch = batch, rl_counter = [], rl_last = []\<rparr>))"

subsection \<open>Data and metrics\<close>

text \<open>The batch size that \<open>update_dataset\<close> asks the buffer for.\<close>

definition rsl_batch_size :: "bool \<Rightarrow> nat \<Rightarrow> nat \<Rightarrow> nat \<Rightarrow> nat result" where
  "rsl_batch_size sampler_all buffer_len num_envs num_train =
     (if buffer_len < 1 then Inl ValueError else Inr (if sampler_all then buffer_len else num_envs * num_train))"

text \<open>\<open>tree_map\<close> of the means over the dictionaries of the train policies; they must have the same keys.\<close>

definition mean_training_info :: "(string, 'v::linordered_field) dict list \<Rightarrow> (string, 'v) dict result" where
  "mean_training_info infos =
     (case infos of
        [] \<Rightarrow> Inr []
      | info # rest \<Rightarrow>
          bind_result (guard ValueError (list_all (\<lambda>d. set (dict_keys d) = set (dict_keys info)) rest)) (\<lambda>_.
          Inr (map (\<lambda>(k, v). (k, sum_list (map (\<lambda>d. the (map_of d k)) infos) / of_nat (length infos))) info)))"


text \<open>
  The rollout of \<open>RSLRLEngine\<close> ends and serves every environment alike, in whatever order and in whatever portions the
  environments answer.
\<close>

subsection \<open>The environments\<close>

text \<open>
  What the rollout relies on: submitted steps are pending until they are collected, each is collected once, a
  collection that comes back empty brings the next answer nearer.
\<close>

definition envs_answer ::
    "('w, 'g, 'r, 'p, 'q) rsl_ops \<Rightarrow> ('w \<Rightarrow> string set) \<Rightarrow> ('w \<Rightarrow> nat) \<Rightarrow> nat \<Rightarrow> bool" where
  "envs_answer ops pending waiting limit \<longleftrightarrow>
     (\<forall>w resp. pending (ro_step_async ops w resp) = pending w \<union> fst ` set resp)
   \<and> (\<forall>w. case ro_collect_async ops w of (rets, w') \<Rightarrow>
          distinct (map fst rets) \<and> fst ` set rets \<subseteq> pending w \<and> pending w' = pending w - fst ` set rets
          \<and> (rets = [] \<and> pending w \<noteq> {} \<longrightarrow> waiting w' < waiting w))
   \<and> (\<forall>w. waiting w \<le> limit)"

lemma envs_answerD:
  assumes "envs_answer ops pending waiting limit"
  shows "pending (ro_step_async ops w resp) = pending w \<union> fst ` set resp"
    and "ro_collect_async ops w = (rets, w') \<Longrightarrow> distinct (map fst rets)"
    and "ro_collect_async ops w = (rets, w') \<Longrightarrow> fst ` set rets \<subseteq> pending w"
    and "ro_collect_async ops w = (rets, w') \<Longrightarrow> pending w' = pending w - fst ` set rets"
    and "ro_collect_async ops w = (rets, w') \<Longrightarrow> rets = [] \<Longrightarrow> pending w \<noteq> {} \<Longrightarrow> waiting w' < waiting w"
    and "waiting w \<le> limit"
proof -
  note a = assms [unfolded envs_answer_def]
  show "pending (ro_step_async ops w resp) = pending w \<union> fst ` set resp"
    by (rule a [THEN conjunct1, rule_format])
  show "waiting w \<le> limit"
    by (rule a [THEN conjunct2, THEN conjunct2, rule_format])
  note c = a [THEN conjunct2, THEN conjunct1, THEN spec, of w]
  assume r: "ro_collect_async ops w = (rets, w')"
  note d = c [unfolded r prod.case]
  show "distinct (map fst rets)" "fst ` set rets \<subseteq> pending w" "pending w' = pending w - fst ` set rets"
    using d by blast+
  show "waiting w' < waiting w" if "rets = []" "pending w \<noteq> {}" using d that by blast
qed

subsection \<open>Counting\<close>

definition finishing :: "nat \<Rightarrow> (string, nat) dict \<Rightarrow> (string \<times> 'r) list \<Rightarrow> (string \<times> 'r) list" where
  "finishing max_steps counter batch = filter (\<lambda>ir. dict_get 0 counter (fst ir) + 1 = max_steps) batch"

lemma count_steps_eq:
  assumes "distinct (map fst batch)" "\<forall>ir \<in> set batch. fst ir \<notin> fst ` set lasts" "count_steps max_steps batch counter lasts = (counter', lasts', inactive)"
  shows "dict_get 0 counter' i = dict_get 0 counter i + of_bool (i \<in> fst ` set batch)"
    and "lasts' = lasts @ finishing max_steps counter batch"
    and "inactive = map fst (finishing max_steps counter batch)"
proof -
  have "(\<forall>i. dict_get 0 counter' i = dict_get 0 counter i + of_bool (i \<in> fst ` set batch))
    \<and> lasts' = lasts @ finishing max_steps counter batch \<and> inactive = map fst (finishing max_steps counter batch)"
    using assms
  proof (induction batch arbitrary: counter' lasts' inactive rule: rev_induct)
    case Nil
    then show ?case by (simp add: count_steps_def finishing_def)
  next
    case (snoc ir batch)
    obtain c l a where one: "count_steps max_steps batch counter lasts = (c, l, a)" by (rule prod_cases3)
    obtain i r where ir: "ir = (i, r)" by (cases ir)
    have step: "count_step max_steps (i, r) (c, l, a) = (counter', lasts', inactive)"
      using snoc.prems(3) one by (simp add: count_steps_def ir)
    have IH: "\<forall>i. dict_get 0 c i = dict_get 0 counter i + of_bool (i \<in> fst ` set batch)"
        "l = lasts @ finishing max_steps counter batch" "a = map fst (finishing max_steps counter batch)"
      using snoc.IH [OF _ _ one] snoc.prems(1,2) by auto
    have new: "i \<notin> fst ` set batch" "i \<notin> fst ` set lasts" using snoc.prems(1,2) by (auto simp: ir)
    then have fresh: "i \<notin> set (dict_keys l)" by (auto simp: IH(2) finishing_def)
    have i: "dict_get 0 c i = dict_get 0 counter i" using IH(1) new(1) by simp
    have upd: "counter' = AList.update i (dict_get 0 counter i + 1) c"
        "lasts' = (if dict_get 0 counter i + 1 = max_steps then l @ [(i, r)] else l)"
        "inactive = (if dict_get 0 counter i + 1 = max_steps then a @ [i] else a)"
      using step update_new [OF fresh, of r] by (auto simp: count_step_def Let_def i split: if_splits)
    have snoc: "finishing max_steps counter (batch @ [ir])
        = finishing max_steps counter batch @ (if dict_get 0 counter i + 1 = max_steps then [(i, r)] else [])"
      by (simp add: finishing_def ir)
    have "dict_get 0 counter' j = dict_get 0 counter j + of_bool (j \<in> fst ` set (batch @ [ir]))" for j
      using IH(1) new(1) by (cases "j = i") (simp_all add: upd(1) ir)
    then show ?case by (simp add: snoc upd(2,3) IH(2,3))
  qed
  then show "dict_get 0 counter' i = dict_get 0 counter i + of_bool (i \<in> fst ` set batch)"
    "lasts' = lasts @ finishing max_steps counter batch" "inactive = map fst (finishing max_steps counter batch)" by simp_all
qed

subsection \<open>What the buffer is given\<close>

text \<open>
  The policies answer for the batch they get, environment by environment: \<open>acts r p\<close> says that \<open>p\<close> is a response to the
  return \<open>r\<close>, and \<open>answers r q\<close> that \<open>q\<close> is what such a response to \<open>r\<close> is processed to.
\<close>

definition same_env :: "('a \<Rightarrow> 'b \<Rightarrow> bool) \<Rightarrow> string \<times> 'a \<Rightarrow> string \<times> 'b \<Rightarrow> bool" where
  "same_env P x y \<longleftrightarrow> fst x = fst y \<and> P (snd x) (snd y)"

definition policies_answer :: "('w, 'g, 'r, 'p, 'q) rsl_ops \<Rightarrow> ('r \<Rightarrow> 'p \<Rightarrow> bool) \<Rightarrow> ('r \<Rightarrow> 'q \<Rightarrow> bool) \<Rightarrow> bool" where
  "policies_answer ops acts answers \<longleftrightarrow>
     (\<forall>g batch. list_all2 (same_env acts) batch (fst (ro_rollout_batch ops g batch)))
   \<and> (\<forall>g batch resp. list_all2 (same_env acts) batch resp \<longrightarrow> list_all2 (same_env answers) batch (fst (ro_postprocess ops g batch resp)))"

text \<open>The entries of one environment.\<close>

definition of_env :: "string \<Rightarrow> (string \<times> 'a) list \<Rightarrow> 'a list" where
  "of_env i xs = map snd (filter (\<lambda>x. fst x = i) xs)"

lemma of_env_lists [simp]: "of_env i [] = []" "of_env i (xs @ ys) = of_env i xs @ of_env i ys"
  by (simp_all add: of_env_def)

lemma of_env_none: "i \<notin> fst ` set xs \<Longrightarrow> of_env i xs = []"
  by (auto simp: of_env_def filter_empty_conv)

lemma of_env_one: "distinct (map fst xs) \<Longrightarrow> (i, x) \<in> set xs \<Longrightarrow> of_env i xs = [x]"
proof (induction xs)
  case (Cons y ys)
  show ?case
  proof (cases "fst y = i")
    case True
    then have "i \<notin> fst ` set ys" using Cons.prems(1) by auto
    then have "y = (i, x)" "of_env i ys = []" using Cons.prems(2) by (auto simp: of_env_none image_iff)
    then show ?thesis by (simp add: of_env_def)
  next
    case False
    then show ?thesis using Cons by (auto simp: of_env_def)
  qed
qed simp

lemma of_env_map: "of_env i (map (\<lambda>(j, x). (j, f x)) xs) = map f (of_env i xs)"
  by (induction xs) (auto simp: of_env_def)

lemma same_env_fst: "list_all2 (same_env P) xs ys \<Longrightarrow> map fst ys = map fst xs"
  by (induction xs ys rule: list_all2_induct) (auto simp: same_env_def)

lemma of_env_related:
  assumes "list_all2 (same_env P) xs ys" "distinct (map fst xs)"
  shows "(i, x) \<in> set xs \<Longrightarrow> \<exists>y. P x y \<and> of_env i ys = [y]" and "i \<notin> fst ` set xs \<Longrightarrow> of_env i ys = []"
proof -
  have keys: "map fst ys = map fst xs" using assms(1) by (rule same_env_fst)
  then have d: "distinct (map fst ys)" using assms(2) by simp
  show "\<exists>y. P x y \<and> of_env i ys = [y]" if "(i, x) \<in> set xs"
  proof -
    obtain k where k: "k < length xs" "xs ! k = (i, x)" using \<open>(i, x) \<in> set xs\<close> by (auto simp: in_set_conv_nth)
    then have "same_env P (i, x) (ys ! k)" "k < length ys"
      using assms(1) list_all2_nthD [OF assms(1), of k] list_all2_lengthD [OF assms(1)] by auto
    then obtain y where y: "ys ! k = (i, y)" "P x y" "(i, y) \<in> set ys"
      by (metis fst_conv nth_mem prod.collapse same_env_def snd_conv)
    then show ?thesis using of_env_one [OF d y(3)] by blast
  qed
  show "of_env i ys = []" if "i \<notin> fst ` set xs"
  proof (rule of_env_none)
    have "fst ` set ys = fst ` set xs" using keys by (metis set_map)
    then show "i \<notin> fst ` set ys" using that by simp
  qed
qed

text \<open>Returns, each with its processed response behind it.\<close>

definition story :: "'r list \<Rightarrow> 'q list \<Rightarrow> ('r, 'q) buffered list" where
  "story rs qs = concat (map2 (\<lambda>r q. [Returned r, Processed q]) rs qs)"

lemma story_simps [simp]: "story [] qs = []" "length rs = length qs \<Longrightarrow> story (rs @ [r]) (qs @ [q]) = story rs qs @ [Returned r, Processed q]"
  by (simp_all add: story_def)

text \<open>
  The returns of an environment in a rollout that began with the engine \<open>en0\<close> and the returns \<open>start\<close>: the first one
  and those collected since. \<open>told k\<close>: the first \<open>k\<close> of them are in the buffer, each with its processed response,
  and the environment got the responses to as many.
\<close>

definition rets_of :: "('w, 'g, 'r, 'p, 'q) rsl_engine \<Rightarrow> (string \<Rightarrow> 'r) \<Rightarrow> string \<Rightarrow> ('w, 'g, 'r, 'p, 'q) rsl_engine \<Rightarrow> 'r list" where
  "rets_of en0 start i en = start i # of_env i (drop (length (re_collected en0)) (re_collected en))"

definition stored ::
    "('r \<Rightarrow> 'q \<Rightarrow> bool) \<Rightarrow> ('w, 'g, 'r, 'p, 'q) rsl_engine \<Rightarrow> 'r list \<Rightarrow> string \<Rightarrow> ('w, 'g, 'r, 'p, 'q) rsl_engine \<Rightarrow> bool" where
  "stored answers en0 rs i en \<longleftrightarrow>
     (\<exists>qs. list_all2 answers rs qs \<and> of_env i (re_buffer en) = of_env i (re_buffer en0) @ story rs qs)"

definition stepped ::
    "('r \<Rightarrow> 'p \<Rightarrow> bool) \<Rightarrow> ('w, 'g, 'r, 'p, 'q) rsl_engine \<Rightarrow> 'r list \<Rightarrow> string \<Rightarrow> ('w, 'g, 'r, 'p, 'q) rsl_engine \<Rightarrow> bool" where
  "stepped acts en0 rs i en \<longleftrightarrow>
     (\<exists>ps. list_all2 acts rs ps \<and> of_env i (re_submitted en) = of_env i (re_submitted en0) @ ps)"

definition told ::
    "('r \<Rightarrow> 'p \<Rightarrow> bool) \<Rightarrow> ('r \<Rightarrow> 'q \<Rightarrow> bool) \<Rightarrow> ('w, 'g, 'r, 'p, 'q) rsl_engine \<Rightarrow> (string \<Rightarrow> 'r)
       \<Rightarrow> nat \<Rightarrow> string \<Rightarrow> ('w, 'g, 'r, 'p, 'q) rsl_engine \<Rightarrow> bool" where
  "told acts answers en0 start k i en \<longleftrightarrow> k \<le> length (rets_of en0 start i en)
     \<and> stored answers en0 (take k (rets_of en0 start i en)) i en \<and> stepped acts en0 (take k (rets_of en0 start i en)) i en"

lemma serve_batch_effect:
  assumes "envs_answer ops pending waiting limit" "policies_answer ops acts answers" "distinct (map fst batch)"
    and en': "en' = serve_batch ops go_on batch en"
  shows "pending (re_world en') = pending (re_world en) \<union> (if go_on then fst ` set batch else {})"
    and "re_reset_done en' = re_reset_done en" "re_collected en' = re_collected en"
    and "i \<notin> fst ` set batch \<Longrightarrow> of_env i (re_buffer en') = of_env i (re_buffer en) \<and> of_env i (re_submitted en') = of_env i (re_submitted en)"
    and "(i, r) \<in> set batch \<Longrightarrow> \<exists>p q. acts r p \<and> answers r q
           \<and> of_env i (re_buffer en') = of_env i (re_buffer en) @ [Returned r, Processed q]
           \<and> of_env i (re_submitted en') = of_env i (re_submitted en) @ (if go_on then [p] else [])"
proof -
  obtain resp g where r: "ro_rollout_batch ops (re_policy en) batch = (resp, g)" by fastforce
  obtain processed g' where q: "ro_postprocess ops g batch resp = (processed, g')" by fastforce
  have "list_all2 (same_env acts) batch (fst (ro_rollout_batch ops (re_policy en) batch))"
    using assms(2) unfolding policies_answer_def by blast
  then have resp: "list_all2 (same_env acts) batch resp" by (simp add: r)
  then have "list_all2 (same_env answers) batch (fst (ro_postprocess ops g batch resp))"
    using assms(2) unfolding policies_answer_def by blast
  then have processed: "list_all2 (same_env answers) batch processed" by (simp add: q)
  have eq: "re_world en' = (if go_on then ro_step_async ops (re_world en) resp else re_world en)"
      "re_reset_done en' = re_reset_done en" "re_collected en' = re_collected en"
      "re_submitted en' = re_submitted en @ (if go_on then resp else [])"
      "re_buffer en' = re_buffer en @ map (\<lambda>(i, r). (i, Returned r)) batch @ map (\<lambda>(i, q). (i, Processed q)) processed"
    by (simp_all add: en' serve_batch_def r q buffer_add_def Let_def)
  have "fst ` set resp = fst ` set batch" using same_env_fst [OF resp] by (metis set_map)
  then show "pending (re_world en') = pending (re_world en) \<union> (if go_on then fst ` set batch else {})"
    using envs_answerD(1) [OF assms(1)] by (simp add: eq)
  show "re_reset_done en' = re_reset_done en" "re_collected en' = re_collected en" by (simp_all add: eq)
  show "of_env i (re_buffer en') = of_env i (re_buffer en) \<and> of_env i (re_submitted en') = of_env i (re_submitted en)" if "i \<notin> fst ` set batch"
    using of_env_none [OF that] of_env_related(2) [OF resp assms(3) that] of_env_related(2) [OF processed assms(3) that]
    by (simp add: eq of_env_map)
  show "\<exists>p q. acts r p \<and> answers r q
           \<and> of_env i (re_buffer en') = of_env i (re_buffer en) @ [Returned r, Processed q]
           \<and> of_env i (re_submitted en') = of_env i (re_submitted en) @ (if go_on then [p] else [])" if "(i, r) \<in> set batch"
    using of_env_one [OF assms(3) that] of_env_related(1) [OF resp assms(3) that] of_env_related(1) [OF processed assms(3) that]
    by (auto simp: eq of_env_map)
qed

lemma rets_of_cong: "re_collected en' = re_collected en \<Longrightarrow> rets_of en0 start i en' = rets_of en0 start i en"
  by (simp add: rets_of_def)

lemma told_cong:
  assumes "told acts answers en0 start k i en" "re_collected en' = re_collected en"
    and "of_env i (re_buffer en') = of_env i (re_buffer en)" "of_env i (re_submitted en') = of_env i (re_submitted en)"
  shows "told acts answers en0 start k i en'"
proof -
  have R: "rets_of en0 start i en' = rets_of en0 start i en" using assms(2) by (rule rets_of_cong)
  show ?thesis using assms(1) unfolding told_def R stored_def stepped_def assms(3,4) .
qed

lemma stored_next:
  assumes "stored answers en0 rs i en" "answers r q" "of_env i (re_buffer en') = of_env i (re_buffer en) @ [Returned r, Processed q]"
  shows "stored answers en0 (rs @ [r]) i en'"
proof -
  obtain qs where qs: "list_all2 answers rs qs" "of_env i (re_buffer en) = of_env i (re_buffer en0) @ story rs qs"
    using assms(1) by (auto simp: stored_def)
  have "list_all2 answers (rs @ [r]) (qs @ [q])" using qs(1) assms(2) by (simp add: list_all2_appendI)
  moreover have "of_env i (re_buffer en') = of_env i (re_buffer en0) @ story (rs @ [r]) (qs @ [q])"
    using qs assms(3) list_all2_lengthD [OF qs(1)] by simp
  ultimately show ?thesis unfolding stored_def by blast
qed

lemma stepped_next:
  assumes "stepped acts en0 rs i en" "acts r p" "of_env i (re_submitted en') = of_env i (re_submitted en) @ [p]"
  shows "stepped acts en0 (rs @ [r]) i en'"
proof -
  obtain ps where ps: "list_all2 acts rs ps" "of_env i (re_submitted en) = of_env i (re_submitted en0) @ ps"
    using assms(1) by (auto simp: stepped_def)
  have "list_all2 acts (rs @ [r]) (ps @ [p])" using ps(1) assms(2) by (simp add: list_all2_appendI)
  then show ?thesis unfolding stepped_def using ps(2) assms(3) by (intro exI [of _ "ps @ [p]"]) simp
qed

text \<open>Serving the next return of an environment.\<close>

lemma told_next:
  assumes "told acts answers en0 start k i en" "length (rets_of en0 start i en) = k + 1" "r = last (rets_of en0 start i en)"
    and "re_collected en' = re_collected en" "acts r p" "answers r q"
    and "of_env i (re_buffer en') = of_env i (re_buffer en) @ [Returned r, Processed q]"
    and "of_env i (re_submitted en') = of_env i (re_submitted en) @ [p]"
  shows "told acts answers en0 start (k + 1) i en'"
proof -
  let ?R = "rets_of en0 start i en"
  have R: "rets_of en0 start i en' = ?R" using assms(4) by (rule rets_of_cong)
  have "?R ! k = r" using assms(2,3) by (metis add_diff_cancel_right' last_conv_nth length_0_conv nat.simps(3) Suc_eq_plus1)
  moreover have "take (Suc k) ?R = take k ?R @ [?R ! k]" by (rule take_Suc_conv_app_nth) (simp add: assms(2))
  ultimately have take: "take (k + 1) ?R = take k ?R @ [r]" by simp
  show ?thesis unfolding told_def R take
    using assms(1,2) stored_next [of answers en0 "take k ?R" i en r q en', OF _ assms(6,7)]
      stepped_next [of acts en0 "take k ?R" i en r p en', OF _ assms(5,8)] by (auto simp: told_def)
qed

text \<open>Collecting more returns.\<close>

lemma told_collect:
  assumes "told acts answers en0 start k i en" "length (re_collected en0) \<le> length (re_collected en)"
  shows "told acts answers en0 start k i (en\<lparr>re_world := w, re_collected := re_collected en @ rets\<rparr>)"
proof -
  let ?en = "en\<lparr>re_world := w, re_collected := re_collected en @ rets\<rparr>"
  have R: "rets_of en0 start i ?en = rets_of en0 start i en @ of_env i rets" using assms(2) by (simp add: rets_of_def)
  show ?thesis using assms(1) unfolding told_def R by (auto simp: stored_def stepped_def)
qed

subsection \<open>The loop\<close>

text \<open>
  Every environment is in one of three places: its last return waits for the policy, its step is pending, or it is
  finished. The buffer has a return and a response for each of its counted steps, and one more while it is pending.
\<close>

definition loop_inv ::
    "('w \<Rightarrow> string set) \<Rightarrow> nat \<Rightarrow> string list \<Rightarrow> (nat \<Rightarrow> string \<Rightarrow> ('w, 'g, 'r, 'p, 'q) rsl_engine \<Rightarrow> bool) \<Rightarrow> ('w, 'g, 'r, 'p, 'q) rsl_loop \<Rightarrow> bool" where
  "loop_inv pending m ids T st \<longleftrightarrow>
     (let batch = fst ` set (rl_batch st); pend = pending (re_world (rl_engine st)); over = fst ` set (rl_last st);
          steps = dict_get 0 (rl_counter st)
      in distinct (map fst (rl_batch st)) \<and> distinct (map fst (rl_last st))
         \<and> batch \<union> pend \<union> over = set ids \<and> batch \<inter> pend = {} \<and> (batch \<union> pend) \<inter> over = {}
         \<and> (\<forall>i \<in> batch. steps i < m \<and> T (steps i) i (rl_engine st))
         \<and> (\<forall>i \<in> pend. steps i < m \<and> T (steps i + 1) i (rl_engine st))
         \<and> (\<forall>i \<in> over. steps i = m \<and> T m i (rl_engine st))
         \<and> re_reset_done (rl_engine st))"

lemma loop_invD:
  assumes "loop_inv pending m ids T st"
  shows "distinct (map fst (rl_batch st))" "distinct (map fst (rl_last st))"
    and "fst ` set (rl_batch st) \<union> pending (re_world (rl_engine st)) \<union> fst ` set (rl_last st) = set ids"
    and "fst ` set (rl_batch st) \<inter> pending (re_world (rl_engine st)) = {}"
    and "(fst ` set (rl_batch st) \<union> pending (re_world (rl_engine st))) \<inter> fst ` set (rl_last st) = {}"
    and "\<forall>i \<in> fst ` set (rl_batch st). dict_get 0 (rl_counter st) i < m \<and> T (dict_get 0 (rl_counter st) i) i (rl_engine st)"
    and "\<forall>i \<in> pending (re_world (rl_engine st)). dict_get 0 (rl_counter st) i < m \<and> T (dict_get 0 (rl_counter st) i + 1) i (rl_engine st)"
    and "\<forall>i \<in> fst ` set (rl_last st). dict_get 0 (rl_counter st) i = m \<and> T m i (rl_engine st)"
    and "re_reset_done (rl_engine st)"
proof -
  note a = assms [unfolded loop_inv_def Let_def]
  show "distinct (map fst (rl_batch st))"
    by (rule a [THEN conjunct1])
  show "distinct (map fst (rl_last st))"
    by (rule a [THEN conjunct2, THEN conjunct1])
  show "fst ` set (rl_batch st) \<union> pending (re_world (rl_engine st)) \<union> fst ` set (rl_last st) = set ids"
    by (rule a [THEN conjunct2, THEN conjunct2, THEN conjunct1])
  show "fst ` set (rl_batch st) \<inter> pending (re_world (rl_engine st)) = {}"
    by (rule a [THEN conjunct2, THEN conjunct2, THEN conjunct2, THEN conjunct1])
  show "(fst ` set (rl_batch st) \<union> pending (re_world (rl_engine st))) \<inter> fst ` set (rl_last st) = {}"
    by (rule a [THEN conjunct2, THEN conjunct2, THEN conjunct2, THEN conjunct2, THEN conjunct1])
  show "\<forall>i \<in> fst ` set (rl_batch st). dict_get 0 (rl_counter st) i < m \<and> T (dict_get 0 (rl_counter st) i) i (rl_engine st)"
    by (rule a [THEN conjunct2, THEN conjunct2, THEN conjunct2, THEN conjunct2, THEN conjunct2, THEN conjunct1])
  show "\<forall>i \<in> pending (re_world (rl_engine st)). dict_get 0 (rl_counter st) i < m \<and> T (dict_get 0 (rl_counter st) i + 1) i (rl_engine st)"
    by (rule a [THEN conjunct2, THEN conjunct2, THEN conjunct2, THEN conjunct2, THEN conjunct2, THEN conjunct2, THEN conjunct1])
  show "\<forall>i \<in> fst ` set (rl_last st). dict_get 0 (rl_counter st) i = m \<and> T m i (rl_engine st)"
    by (rule a [THEN conjunct2, THEN conjunct2, THEN conjunct2, THEN conjunct2, THEN conjunct2, THEN conjunct2, THEN conjunct2, THEN conjunct1])
  show "re_reset_done (rl_engine st)"
    by (rule a [THEN conjunct2, THEN conjunct2, THEN conjunct2, THEN conjunct2, THEN conjunct2, THEN conjunct2, THEN conjunct2, THEN conjunct2])
qed

text \<open>An environment has one return more than it has counted steps, and the last one is in the batch or kept.\<close>

definition returns_inv ::
    "('w, 'g, 'r, 'p, 'q) rsl_engine \<Rightarrow> (string \<Rightarrow> 'r) \<Rightarrow> ('w, 'g, 'r, 'p, 'q) rsl_loop \<Rightarrow> bool" where
  "returns_inv en0 start st \<longleftrightarrow> length (re_collected en0) \<le> length (re_collected (rl_engine st))
     \<and> take (length (re_collected en0)) (re_collected (rl_engine st)) = re_collected en0
     \<and> (\<forall>i. length (rets_of en0 start i (rl_engine st)) = dict_get 0 (rl_counter st) i + 1)
     \<and> (\<forall>(i, r) \<in> set (rl_batch st) \<union> set (rl_last st). r = last (rets_of en0 start i (rl_engine st)))"

text \<open>After the batch is served, everything unfinished is pending.\<close>

lemma submit_pending:
  assumes "envs_answer ops pending waiting limit" "policies_answer ops acts answers"
    and "loop_inv pending m ids (told acts answers en0 start) st" "returns_inv en0 start st"
  defines "en \<equiv> (if rl_batch st \<noteq> [] then serve_batch ops True (rl_batch st) (rl_engine st) else rl_engine st)"
  shows "pending (re_world en) = set ids - fst ` set (rl_last st)"
    and "i \<in> pending (re_world en) \<Longrightarrow> dict_get 0 (rl_counter st) i < m"
    and "i \<in> pending (re_world en) \<Longrightarrow> told acts answers en0 start (dict_get 0 (rl_counter st) i + 1) i en"
    and "i \<in> fst ` set (rl_last st) \<Longrightarrow> told acts answers en0 start m i en"
    and "re_reset_done en" "re_collected en = re_collected (rl_engine st)"
proof -
  let ?B = "fst ` set (rl_batch st)" and ?L = "fst ` set (rl_last st)" and ?P = "pending (re_world (rl_engine st))"
  note inv = loop_invD [OF assms(3)]
  note serve = serve_batch_effect [OF assms(1,2) inv(1) refl, where go_on = True and en = "rl_engine st"]
  have en: "pending (re_world en) = ?P \<union> ?B" "re_reset_done en = re_reset_done (rl_engine st)" "re_collected en = re_collected (rl_engine st)"
    using serve(1-3) by (auto simp: en_def)
  have other: "of_env j (re_buffer en) = of_env j (re_buffer (rl_engine st)) \<and> of_env j (re_submitted en) = of_env j (re_submitted (rl_engine st))"
    if "j \<notin> ?B" for j
    using serve(4) [OF that] by (simp add: en_def)
  have keep: "told acts answers en0 start k j en" if "told acts answers en0 start k j (rl_engine st)" "j \<notin> ?B" for k j
    using told_cong [OF that(1) en(3)] other [OF that(2)] by blast
  show "re_collected en = re_collected (rl_engine st)" by (rule en(3))
  show "pending (re_world en) = set ids - ?L" unfolding en(1) using inv(3,5) by blast
  show "re_reset_done en" unfolding en(2) by (rule inv(9))
  show "dict_get 0 (rl_counter st) i < m" if "i \<in> pending (re_world en)" using that inv(6,7) unfolding en(1) by blast
  show "told acts answers en0 start m i en" if "i \<in> ?L"
    using that inv(5,8) by (intro keep) blast+
  show "told acts answers en0 start (dict_get 0 (rl_counter st) i + 1) i en" if "i \<in> pending (re_world en)"
  proof (cases "i \<in> ?B")
    case True
    then obtain r where r: "(i, r) \<in> set (rl_batch st)" by force
    then have "en = serve_batch ops True (rl_batch st) (rl_engine st)" by (auto simp: en_def)
    with serve(5) [OF r] obtain p q where pq: "acts r p" "answers r q"
      "of_env i (re_buffer en) = of_env i (re_buffer (rl_engine st)) @ [Returned r, Processed q]"
      "of_env i (re_submitted en) = of_env i (re_submitted (rl_engine st)) @ [p]" by auto
    have "told acts answers en0 start (dict_get 0 (rl_counter st) i) i (rl_engine st)" using inv(6) True by blast
    moreover have "length (rets_of en0 start i (rl_engine st)) = dict_get 0 (rl_counter st) i + 1"
      "r = last (rets_of en0 start i (rl_engine st))" using assms(4) r unfolding returns_inv_def by blast+
    ultimately show ?thesis
      using told_next [of acts answers en0 start _ i "rl_engine st" r en p q] en(3) pq by blast
  next
    case False
    then have "i \<in> ?P" using that unfolding en(1) by blast
    then show ?thesis using keep [OF _ False] inv(7) by blast
  qed
qed

text \<open>What is left to do: the steps to count, and the collections that may come back empty before the next answer.\<close>

definition loop_measure :: "('w \<Rightarrow> nat) \<Rightarrow> nat \<Rightarrow> nat \<Rightarrow> string list \<Rightarrow> ('w, 'g, 'r, 'p, 'q) rsl_loop \<Rightarrow> nat" where
  "loop_measure waiting limit m ids st =
     (\<Sum>i \<in> set ids. m - dict_get 0 (rl_counter st) i) * (limit + 1)
     + (if rl_batch st \<noteq> [] then limit else waiting (re_world (rl_engine st)))"

lemma spent_step: "(a + 1) * (l + 1) \<le> b * (l + 1) \<Longrightarrow> x \<le> l \<Longrightarrow> a * (l + 1) + x < b * (l + 1) + y" for a b l x y :: nat
  by (simp add: algebra_simps)

lemma turn_progress:
  assumes ans: "envs_answer ops pending waiting limit" and pol: "policies_answer ops acts answers"
    and inv: "loop_inv pending m ids (told acts answers en0 start) st" and rets: "returns_inv en0 start st"
    and go: "length (rl_last st) < length ids" and ids: "distinct ids"
  defines "st' \<equiv> rsl_turn ops m st"
  shows "loop_inv pending m ids (told acts answers en0 start) st'" and "returns_inv en0 start st'" and "loop_measure waiting limit m ids st' < loop_measure waiting limit m ids st"
proof -
  define en where "en = (if rl_batch st \<noteq> [] then serve_batch ops True (rl_batch st) (rl_engine st) else rl_engine st)"
  note sub = submit_pending [OF ans pol inv rets, folded en_def]
  let ?L = "fst ` set (rl_last st)" and ?n = "dict_get 0 (rl_counter st)"
  obtain rets w where col: "ro_collect_async ops (re_world en) = (rets, w)" by fastforce
  note c = envs_answerD(2-4) [OF ans col]
  let ?R = "fst ` set rets"
  obtain counter lasts inactive where cnt: "count_steps m rets (rl_counter st) (rl_last st) = (counter, lasts, inactive)" by (rule prod_cases3)
  have apart: "?R \<inter> ?L = {}" using c(2) sub(1) by blast
  then have "\<forall>ir \<in> set rets. fst ir \<notin> ?L" by blast
  note steps = count_steps_eq [OF c(1) this cnt]
  let ?F = "fst ` set (finishing m (rl_counter st) rets)"
  define rest where "rest = filter (\<lambda>ir. fst ir \<notin> ?F) rets"
  have batch: "(if inactive \<noteq> [] then filter (\<lambda>ir. fst ir \<notin> set inactive) rets else rets) = rest"
    by (auto simp: rest_def steps(3) filter_id_conv)
  define en' where "en' = en\<lparr>re_world := w, re_collected := re_collected en @ rets\<rparr>"
  have collected: "length (re_collected en0) \<le> length (re_collected en)" using rets sub(6) by (simp add: returns_inv_def)
  have keep: "told acts answers en0 start k i en'" if "told acts answers en0 start k i en" for k i
    using told_collect [OF that collected] by (simp add: en'_def)
  have st': "st' = \<lparr>rl_engine = en', rl_batch = rest, rl_counter = counter, rl_last = lasts\<rparr>"
    using batch unfolding st'_def rsl_turn_def Let_def en_def [symmetric] col prod.case cnt en'_def by simp
  have F: "?F = {i \<in> ?R. ?n i + 1 = m}" by (auto simp: finishing_def)
  have rest: "fst ` set rest = ?R - ?F" by (auto simp: rest_def)
  have lasts: "fst ` set lasts = ?L \<union> ?F" by (auto simp: steps(2))
  have P: "pending w = set ids - ?L - ?R" using c(3) sub(1) by simp
  have parts: "rl_batch \<lparr>rl_engine = e, rl_batch = b, rl_counter = k, rl_last = l\<rparr> = b" "rl_engine \<lparr>rl_engine = e, rl_batch = b, rl_counter = k, rl_last = l\<rparr> = e"
    "rl_counter \<lparr>rl_engine = e, rl_batch = b, rl_counter = k, rl_last = l\<rparr> = k" "rl_last \<lparr>rl_engine = e, rl_batch = b, rl_counter = k, rl_last = l\<rparr> = l"
    "re_world en' = w" "re_reset_done en' = re_reset_done en"
    for e :: "('w, 'g, 'r, 'p, 'q) rsl_engine" and b k l by (simp_all add: en'_def)
  show "loop_inv pending m ids (told acts answers en0 start) st'"
    unfolding loop_inv_def Let_def st' parts rest lasts P steps(1)
  proof (intro conjI ballI)
    have "distinct (map fst rest)" unfolding rest_def by (rule distinct_map_filter) (rule c(1))
    then show "distinct (map fst rest)" .
    have "set (map fst (finishing m (rl_counter st) rets)) \<subseteq> ?R" by (auto simp: finishing_def)
    then show "distinct (map fst lasts)"
      using apart loop_invD(2) [OF inv] distinct_map_filter [OF c(1)]
      by (auto simp: steps(2) finishing_def)
    have "?R \<subseteq> set ids - ?L" "?L \<subseteq> set ids" using c(2) sub(1) loop_invD(3) [OF inv] by blast+
    then show "?R - ?F \<union> (set ids - ?L - ?R) \<union> (?L \<union> ?F) = set ids" "(?R - ?F) \<inter> (set ids - ?L - ?R) = {}"
      "(?R - ?F \<union> (set ids - ?L - ?R)) \<inter> (?L \<union> ?F) = {}"
      unfolding F by blast+
    show "re_reset_done en" by (rule sub(5))
    fix i
    have in_P: "i \<in> ?R \<Longrightarrow> i \<in> pending (re_world en)" using c(2) by blast
    show "?n i + of_bool (i \<in> ?R) < m" if "i \<in> ?R - ?F"
    proof -
      have "i \<in> ?R" "?n i + 1 \<noteq> m" "?n i < m" using that in_P sub(2) [of i] unfolding F by blast+
      then show ?thesis by simp
    qed
    show "i \<in> ?R - ?F \<Longrightarrow> told acts answers en0 start (?n i + of_bool (i \<in> ?R)) i en'" using in_P sub(3) keep by simp
    show "i \<in> set ids - ?L - ?R \<Longrightarrow> ?n i + of_bool (i \<in> ?R) < m" using sub(1,2) by simp
    show "i \<in> set ids - ?L - ?R \<Longrightarrow> told acts answers en0 start (?n i + of_bool (i \<in> ?R) + 1) i en'"
      using sub(1,3) keep by simp
    assume i: "i \<in> ?L \<union> ?F"
    show "?n i + of_bool (i \<in> ?R) = m" "told acts answers en0 start m i en'"
    proof -
      consider "i \<in> ?L" "i \<notin> ?R" | "i \<in> ?R" "?n i + 1 = m" using i apart unfolding F by blast
      then have "?n i + of_bool (i \<in> ?R) = m \<and> told acts answers en0 start m i en'"
      proof cases
        case 1
        then have "?n i = m" using loop_invD(8) [OF inv] by blast
        then show ?thesis using 1 sub(4) keep by simp
      next
        case 2
        then show ?thesis using in_P sub(3) [of i] keep by auto
      qed
      then show "?n i + of_bool (i \<in> ?R) = m" "told acts answers en0 start m i en'" by simp_all
    qed
  qed
  show "returns_inv en0 start st'"
    unfolding returns_inv_def st' parts steps(1)
  proof (intro conjI allI ballI)
    have R: "rets_of en0 start i en' = rets_of en0 start i (rl_engine st) @ of_env i rets" for i
      using collected by (simp add: rets_of_def en'_def sub(6))
    have none: "of_env i rets = []" if "i \<notin> ?R" for i using that by (rule of_env_none)
    have one: "of_env i rets = [r]" if "(i, r) \<in> set rets" for i r using of_env_one [OF c(1) that] .
    show "length (re_collected en0) \<le> length (re_collected en')" using collected by (simp add: en'_def)
    show "take (length (re_collected en0)) (re_collected en') = re_collected en0"
      using rets collected sub(6) by (simp add: en'_def returns_inv_def)
    show "length (rets_of en0 start i en') = ?n i + of_bool (i \<in> ?R) + 1" for i
    proof (cases "i \<in> ?R")
      case True
      then obtain r where "(i, r) \<in> set rets" by force
      then show ?thesis using True rets one by (simp add: R returns_inv_def)
    qed (use rets none in \<open>simp add: R returns_inv_def\<close>)
    fix ir assume ir: "ir \<in> set rest \<union> set lasts"
    obtain i r where e: "ir = (i, r)" by (cases ir)
    have "(i, r) \<in> set rets \<or> (i, r) \<in> set (rl_last st)"
      using ir by (auto simp: e rest_def steps(2) finishing_def)
    moreover have "i \<notin> ?R" if "(i, r) \<in> set (rl_last st)"
    proof -
      have "i \<in> ?L" using image_eqI [OF _ that, of i fst] by simp
      then show ?thesis using apart by blast
    qed
    ultimately consider "(i, r) \<in> set rets" | "(i, r) \<in> set (rl_last st)" "i \<notin> ?R" by blast
    then have "r = last (rets_of en0 start i en')"
    proof cases
      case 1
      then show ?thesis using one by (simp add: R)
    next
      case 2
      then have "r = last (rets_of en0 start i (rl_engine st))" using rets unfolding returns_inv_def by blast
      then show ?thesis using none [OF 2(2)] by (simp add: R)
    qed
    then show "case ir of (i, r) \<Rightarrow> r = last (rets_of en0 start i en')" by (simp add: e)
  qed
  show "loop_measure waiting limit m ids st' < loop_measure waiting limit m ids st"
  proof (cases "rets = []")
    case True
    have "length (rl_last st) = card ?L" using distinct_card [OF loop_invD(2) [OF inv]] by simp
    then have "?L \<noteq> set ids" using go distinct_card [OF ids] by auto
    then have "pending (re_world en) \<noteq> {}" using sub(1) loop_invD(3) [OF inv] by blast
    then have less: "waiting w < waiting (re_world en)" by (rule envs_answerD(5) [OF ans col True])
    have "waiting (re_world en) \<le> (if rl_batch st \<noteq> [] then limit else waiting (re_world (rl_engine st)))"
      using envs_answerD(6) [OF ans] by (simp add: en_def)
    then show ?thesis
      using less True by (simp add: loop_measure_def st' steps(1) rest_def en'_def)
  next
    case False
    then obtain i where i: "i \<in> ?R" by fastforce
    have i_ids: "i \<in> set ids" and i_m: "?n i < m" using i c(2) sub(1,2) by blast+
    have "(\<Sum>i \<in> set ids. m - dict_get 0 counter i) < (\<Sum>i \<in> set ids. m - ?n i)"
      by (rule sum_strict_mono_ex1) (use i i_ids i_m in \<open>auto simp: steps(1) intro!: bexI [of _ i]\<close>)
    then have "((\<Sum>i \<in> set ids. m - dict_get 0 counter i) + 1) * (limit + 1) \<le> (\<Sum>i \<in> set ids. m - ?n i) * (limit + 1)"
      by (intro mult_le_mono1) simp
    moreover have "(if rest \<noteq> [] then limit else waiting w) \<le> limit" using envs_answerD(6) [OF ans] by simp
    ultimately show ?thesis unfolding loop_measure_def st' parts by (rule spent_step)
  qed
qed

lemma turns_return:
  assumes "envs_answer ops pending waiting limit" "policies_answer ops acts answers" "distinct ids"
    and "loop_inv pending m ids (told acts answers en0 start) st" "returns_inv en0 start st"
    and "loop_measure waiting limit m ids st \<le> fuel"
  shows "\<exists>st'. rsl_turns fuel ops m ids st = Some st' \<and> loop_inv pending m ids (told acts answers en0 start) st'
     \<and> returns_inv en0 start st' \<and> length ids \<le> length (rl_last st')"
  using assms(4-6)
proof (induction fuel arbitrary: st)
  case 0
  then show ?case using turn_progress(3) [OF assms(1,2) 0(1,2) _ assms(3)] by (cases "length (rl_last st) < length ids") auto
next
  case (Suc fuel)
  show ?case
  proof (cases "length (rl_last st) < length ids")
    case True
    note turn = turn_progress [OF assms(1,2) Suc.prems(1,2) True assms(3)]
    show ?thesis using Suc.IH [OF turn(1,2)] turn(3) Suc.prems(3) True by simp
  qed (use Suc.prems(1,2) in auto)
qed

subsection \<open>The rollout\<close>

text \<open>The returns a rollout starts with; a return of every environment is at hand, and no step is pending.\<close>

definition start_returns ::
    "('w, 'g, 'r, 'p, 'q) rsl_ops \<Rightarrow> string \<Rightarrow> ('w, 'g, 'r, 'p, 'q) rsl_engine \<Rightarrow> (string \<times> 'r) list \<times> 'w" where
  "start_returns ops obj_set en = (if re_reset_done en then (re_last_batch en, re_world en) else ro_reset ops (re_world en) obj_set)"

definition rollout_ready ::
    "('w, 'g, 'r, 'p, 'q) rsl_ops \<Rightarrow> ('w \<Rightarrow> string set) \<Rightarrow> string list \<Rightarrow> string \<Rightarrow> ('w, 'g, 'r, 'p, 'q) rsl_engine \<Rightarrow> bool" where
  "rollout_ready ops pending ids obj_set en \<longleftrightarrow>
     (case start_returns ops obj_set en of (batch, w) \<Rightarrow>
        distinct (map fst batch) \<and> fst ` set batch = set ids \<and> pending w = {})"

text \<open>A rollout opens its loop with the returns at hand, turns until every environment is through, and closes it: the last
  responses are stored but not submitted, and every episode is cut.\<close>

definition opening_loop :: "('w, 'g, 'r, 'p, 'q) rsl_engine \<Rightarrow> (string \<times> 'r) list \<Rightarrow> 'w \<Rightarrow> ('w, 'g, 'r, 'p, 'q) rsl_loop" where
  "opening_loop en batch w = \<lparr>rl_engine = en\<lparr>re_world := w, re_reset_done := True\<rparr>, rl_batch = batch, rl_counter = [], rl_last = []\<rparr>"

definition close_loop :: "('w, 'g, 'r, 'p, 'q) rsl_ops \<Rightarrow> ('w, 'g, 'r, 'p, 'q) rsl_loop \<Rightarrow> ('w, 'g, 'r, 'p, 'q) rsl_engine" where
  "close_loop ops st = (buffer_add (map (\<lambda>(i, r). (i, Truncated)) (rl_last st))
      (serve_batch ops False (rl_last st) (rl_engine st)))\<lparr>re_last_batch := rl_last st\<rparr>"

lemma rsl_rollout_loop:
  assumes "start_returns ops obj_set en = (batch, w)"
  shows "rsl_rollout fuel ops m ids obj_set is_eval en = map_option (\<lambda>st. if set (dict_keys (rl_last st)) = set ids
      then Inr (close_loop ops st) else Inl AssertionError) (rsl_turns fuel ops m ids (opening_loop en batch w))"
proof -
  have same: "re_reset_done en \<Longrightarrow> en\<lparr>re_world := re_world en, re_reset_done := True\<rparr> = en" by (cases en) simp
  show ?thesis
  proof (cases "re_reset_done en")
    case True
    then have "opening_loop en batch w = \<lparr>rl_engine = en, rl_batch = re_last_batch en, rl_counter = [], rl_last = []\<rparr>"
      using assms same [OF True] by (auto simp: opening_loop_def start_returns_def)
    then show ?thesis using True unfolding close_loop_def by (simp add: rsl_rollout_def Let_def)
  qed (unfold close_loop_def, use assms in \<open>simp add: rsl_rollout_def opening_loop_def start_returns_def Let_def\<close>)
qed

lemma close_loop_fields:
  assumes "envs_answer ops pending waiting limit" "policies_answer ops acts answers" "distinct (map fst (rl_last st))"
  shows "pending (re_world (close_loop ops st)) = pending (re_world (rl_engine st))" "re_last_batch (close_loop ops st) = rl_last st"
    and "re_reset_done (close_loop ops st) = re_reset_done (rl_engine st)"
    and "re_collected (close_loop ops st) = re_collected (rl_engine st)"
    and "re_submitted (close_loop ops st) = re_submitted (serve_batch ops False (rl_last st) (rl_engine st))"
    and "re_buffer (close_loop ops st) = re_buffer (serve_batch ops False (rl_last st) (rl_engine st)) @ map (\<lambda>(i, r). (i, Truncated)) (rl_last st)"
  using serve_batch_effect [OF assms refl, where go_on = False and en = "rl_engine st"]
  by (simp_all add: close_loop_def buffer_add_def)

text \<open>The last batch served: what was told of an environment up to its last return, told of all its returns.\<close>

lemma closed_loop_env:
  assumes "envs_answer ops pending waiting limit" "policies_answer ops acts answers" "distinct (map fst (rl_last st))"
    and final: "(j, r) \<in> set (rl_last st)" and told: "told acts answers en start m j (rl_engine st)"
    and rets: "rets_of en start j (rl_engine st) = rs" "length rs = m + 1" "r = last rs"
  shows "\<exists>ps qs. list_all2 answers rs qs \<and> list_all2 acts (butlast rs) ps
     \<and> of_env j (re_buffer (close_loop ops st)) = of_env j (re_buffer en) @ story rs qs @ [Truncated]
     \<and> of_env j (re_submitted (close_loop ops st)) = of_env j (re_submitted en) @ ps"
proof -
  let ?served = "serve_batch ops False (rl_last st) (rl_engine st)"
  note eff = serve_batch_effect [OF assms(1-3) refl, where go_on = False and en = "rl_engine st"]
  from eff(5) [OF final] obtain p q where pq: "acts r p" "answers r q"
      "of_env j (re_buffer ?served) = of_env j (re_buffer (rl_engine st)) @ [Returned r, Processed q]"
      "of_env j (re_submitted ?served) = of_env j (re_submitted (rl_engine st))" by auto
  have split: "rs = take m rs @ [r]" "butlast rs = take m rs"
    using rets append_butlast_last_id [of rs] butlast_conv_take [of rs] by fastforce+
  have "stored answers en (take m rs) j (rl_engine st)" "stepped acts en (take m rs) j (rl_engine st)"
    using told rets(1) by (simp_all add: told_def)
  then have "stored answers en (take m rs @ [r]) j ?served" and step: "stepped acts en (butlast rs) j ?served"
    using stored_next [of answers en "take m rs" j "rl_engine st" r q, OF _ pq(2,3)] pq(4) split(2) by (simp_all add: stepped_def)
  then have "stored answers en rs j ?served" using split(1) by simp
  then obtain qs where qs: "list_all2 answers rs qs" "of_env j (re_buffer ?served) = of_env j (re_buffer en) @ story rs qs"
    by (auto simp: stored_def)
  obtain ps where ps: "list_all2 acts (butlast rs) ps" "of_env j (re_submitted ?served) = of_env j (re_submitted en) @ ps"
    using step by (auto simp: stepped_def)
  have "of_env j (map (\<lambda>(i, r). (i, Truncated)) (rl_last st)) = [Truncated]"
    using of_env_one [OF assms(3) final] by (simp add: of_env_map [of j "\<lambda>_. Truncated"])
  then show ?thesis using qs ps close_loop_fields(5,6) [OF assms(1-3)] by (intro exI [of _ ps] exI [of _ qs]) simp
qed

text \<open>C35: when the environments answer what is submitted, in any order and in portions of any size, and the policies answer
  for the batches they get, a rollout of at least \<open>m > 0\<close> steps returns, for training and for evaluation alike
  (\<open>is_eval\<close> is not looked at, although it is documented to skip the storage). For each environment there are
  \<open>m + 1\<close> returns: the one at hand at the start and the \<open>m\<close> that were collected from it, in their order.
  The buffer gets exactly these, each followed by its own processed response, and then the end of the episode; the
  environment gets the responses to all of them but the last; and the last is left for the next rollout.\<close>
theorem rollout_serves_alike:
  fixes en :: "('w, 'g, 'r, 'p, 'q) rsl_engine"
  assumes "envs_answer ops pending waiting limit" "policies_answer ops acts answers" "distinct ids" "0 < m"
    and "rollout_ready ops pending ids obj_set en" "m * length ids * (limit + 1) + limit \<le> fuel"
  shows "\<exists>en'. rsl_rollout fuel ops m ids obj_set is_eval en = Some (Inr en') \<and> rollout_ready ops pending ids obj_set' en'
    \<and> (\<forall>i \<in> set ids. \<exists>rs ps qs. length rs = m + 1 \<and> list_all2 answers rs qs \<and> list_all2 acts (butlast rs) ps
         \<and> (i, hd rs) \<in> set (fst (start_returns ops obj_set en)) \<and> (i, last rs) \<in> set (re_last_batch en')
         \<and> of_env i (re_collected en') = of_env i (re_collected en) @ tl rs
         \<and> of_env i (re_buffer en') = of_env i (re_buffer en) @ story rs qs @ [Truncated]
         \<and> of_env i (re_submitted en') = of_env i (re_submitted en) @ ps)"
proof -
  obtain batch w where bw: "start_returns ops obj_set en = (batch, w)" by fastforce
  have ready: "distinct (map fst batch)" "fst ` set batch = set ids" "pending w = {}"
    using assms(5) unfolding rollout_ready_def bw by auto
  define start where "start i = the (map_of batch i)" for i
  have first: "r = start i" if "(i, r) \<in> set batch" for i r
    using map_of_is_SomeI [OF ready(1) that] by (simp add: start_def)
  let ?open = "opening_loop en batch w"
  have inv: "loop_inv pending m ids (told acts answers en start) ?open"
    using ready assms(4) by (simp add: loop_inv_def opening_loop_def told_def rets_of_def stored_def stepped_def Let_def)
  have rets: "returns_inv en start ?open" using first by (auto simp: returns_inv_def opening_loop_def rets_of_def)
  have "loop_measure waiting limit m ids ?open \<le> m * length ids * (limit + 1) + limit"
    using envs_answerD(6) [OF assms(1)] distinct_card [OF assms(3)] by (simp add: loop_measure_def opening_loop_def)
  then have "loop_measure waiting limit m ids ?open \<le> fuel" using assms(6) by (rule order_trans)
  then obtain st where st: "rsl_turns fuel ops m ids ?open = Some st" "loop_inv pending m ids (told acts answers en start) st"
      "returns_inv en start st" "length ids \<le> length (rl_last st)"
    using turns_return [OF assms(1-3) inv rets] by blast
  note i = loop_invD [OF st(2)] and fin = close_loop_fields [OF assms(1,2) loop_invD(2) [OF st(2)]]
  have "card (set ids) \<le> card (fst ` set (rl_last st))"
    using st(4) distinct_card [OF i(2)] distinct_card [OF assms(3)] by simp
  then have all: "fst ` set (rl_last st) = set ids" using i(3) by (intro card_seteq) auto
  then have none: "pending (re_world (rl_engine st)) = {}" using i(5) i(3) by blast
  have "rsl_rollout fuel ops m ids obj_set is_eval en = Some (Inr (close_loop ops st))"
    using rsl_rollout_loop [where ops = ops and obj_set = obj_set and en = en, OF bw] st(1) all by simp
  moreover have "rollout_ready ops pending ids obj_set' (close_loop ops st)"
    using i(2,9) all none by (simp add: rollout_ready_def start_returns_def fin)
  moreover have "\<exists>rs ps qs. length rs = m + 1 \<and> list_all2 answers rs qs \<and> list_all2 acts (butlast rs) ps
         \<and> (j, hd rs) \<in> set (fst (start_returns ops obj_set en)) \<and> (j, last rs) \<in> set (re_last_batch (close_loop ops st))
         \<and> of_env j (re_collected (close_loop ops st)) = of_env j (re_collected en) @ tl rs
         \<and> of_env j (re_buffer (close_loop ops st)) = of_env j (re_buffer en) @ story rs qs @ [Truncated]
         \<and> of_env j (re_submitted (close_loop ops st)) = of_env j (re_submitted en) @ ps" if j: "j \<in> set ids" for j
  proof -
    let ?R = "rets_of en start j (rl_engine st)"
    have jl: "j \<in> fst ` set (rl_last st)" using j all by blast
    then obtain r where r: "(j, r) \<in> set (rl_last st)" by force
    have counted: "dict_get 0 (rl_counter st) j = m" "told acts answers en start m j (rl_engine st)" using i(8) jl by blast+
    have R: "length ?R = m + 1" "r = last ?R" using st(3) r counted(1) unfolding returns_inv_def by auto
    have "re_collected (rl_engine st) = re_collected en @ drop (length (re_collected en)) (re_collected (rl_engine st))"
      using st(3) append_take_drop_id [of "length (re_collected en)" "re_collected (rl_engine st)"] by (simp add: returns_inv_def)
    then have tail: "of_env j (re_collected (rl_engine st)) = of_env j (re_collected en) @ tl ?R"
      by (metis list.sel(3) of_env_lists(2) rets_of_def)
    obtain s where "(j, s) \<in> set batch" using j ready(2) by force
    then have "(j, hd ?R) \<in> set (fst (start_returns ops obj_set en))" using first bw by (auto simp: rets_of_def)
    then show ?thesis
      using closed_loop_env [OF assms(1,2) i(2) r counted(2) refl R] R r tail by (auto simp: fin)
  qed
  ultimately show ?thesis by blast
qed

text \<open>Two environments whose pending steps are answered one at a time, the first of them first; every return is its own
  response and its own processed response.\<close>

definition one_by_one :: "((string list), unit, nat, nat, nat) rsl_ops" where
  "one_by_one = \<lparr>ro_reset = \<lambda>w obj_set. ([(''a'', 0), (''b'', 0)], []),
     ro_step_async = \<lambda>w resp. w @ map fst resp,
     ro_collect_async = \<lambda>w. (case w of [] \<Rightarrow> ([], []) | i # w' \<Rightarrow> ([(i, 1)], filter (\<lambda>j. j \<noteq> i) w')),
     ro_rollout_batch = \<lambda>g batch. (batch, g), ro_postprocess = \<lambda>g batch resp. (batch, g)\<rparr>"

lemma rollout_serves_alike_witness:
  "\<exists>en' rs. rsl_rollout 6 one_by_one 2 [''a'', ''b''] ''train'' False
       \<lparr>re_world = [], re_policy = (), re_reset_done = False, re_last_batch = [], re_buffer = [], re_submitted = [], re_collected = []\<rparr>
     = Some (Inr en') \<and> length rs = 3 \<and> of_env ''b'' (re_buffer en') = story rs rs @ [Truncated]"
proof -
  let ?en = "\<lparr>re_world = [], re_policy = (), re_reset_done = False, re_last_batch = [], re_buffer = [], re_submitted = [], re_collected = []\<rparr>"
  have ans: "envs_answer one_by_one set (\<lambda>_. 0) 0"
    by (auto simp: envs_answer_def one_by_one_def split: list.splits)
  have pol: "policies_answer one_by_one (=) (=)"
    by (simp add: policies_answer_def one_by_one_def same_env_def list_all2_same)
  have ready: "rollout_ready one_by_one set [''a'', ''b''] ''train'' ?en"
    by (simp add: rollout_ready_def start_returns_def one_by_one_def)
  obtain en' where en': "rsl_rollout 6 one_by_one 2 [''a'', ''b''] ''train'' False ?en = Some (Inr en')"
    and each: "\<forall>i \<in> set [''a'', ''b'']. \<exists>rs ps qs. length rs = 2 + 1 \<and> list_all2 (=) rs qs \<and> list_all2 (=) (butlast rs) ps
         \<and> (i, hd rs) \<in> set (fst (start_returns one_by_one ''train'' ?en)) \<and> (i, last rs) \<in> set (re_last_batch en')
         \<and> of_env i (re_collected en') = of_env i (re_collected ?en) @ tl rs
         \<and> of_env i (re_buffer en') = of_env i (re_buffer ?en) @ story rs qs @ [Truncated]
         \<and> of_env i (re_submitted en') = of_env i (re_submitted ?en) @ ps"
    using rollout_serves_alike [OF ans pol _ _ ready, of 2 6 False "''train''"] by auto
  obtain rs where "length rs = 3" "of_env ''b'' (re_buffer en') = story rs rs @ [Truncated]"
    using each by (auto simp flip: list_all2_eq)
  then show ?thesis using en' by blast
qed

end
