(* ===== verification/Collective.thy ===== *)
theory Collective
  imports Comm_Groups Complex_Main
begin

text \<open>
  \<open>rlightning/utils/distributed/collective.py\<close>: the reduction of dictionaries and the splitting of tensors over the ranks
  of a group. A collective operation is a function from what all ranks of the group pass to what all of them get; the
  operations of \<open>torch.distributed\<close> have their documented meaning. A tensor is the list of its lines along the split
  dimension, and for an exchange a list of lists along the two dimensions of the exchange.
\<close>

subsection \<open>Collectives of the library\<close>

definition dist_scatter :: "nat \<Rightarrow> 'x list option list \<Rightarrow> 'x list" where
  "dist_scatter src given = (case given ! src of None \<Rightarrow> [] | Some xs \<Rightarrow> xs)"

definition dist_all_gather :: "'x list \<Rightarrow> 'x list list" where
  "dist_all_gather xs = map (\<lambda>_. xs) xs"

definition dist_broadcast :: "nat \<Rightarrow> 'x list \<Rightarrow> 'x list" where
  "dist_broadcast src xs = map (\<lambda>_. xs ! src) xs"

definition dist_all_to_all :: "'x list list \<Rightarrow> 'x list list" where
  "dist_all_to_all ins = map (\<lambda>r. map (\<lambda>xs. xs ! r) ins) [0..<length ins]"

subsection \<open>Dictionaries\<close>

text \<open>\<open>all_reduce_dict\<close>: the values go into a tensor in the order of the sorted keys; \<open>red\<close> reduces the values that the
  ranks have at one place. Ranks with tensors of different lengths are an error of the library.\<close>

definition all_reduce_dict :: "('v list \<Rightarrow> 'v) \<Rightarrow> ('k::linorder, 'v) dict list \<Rightarrow> ('k, 'v) dict list result" where
  "all_reduce_dict red dicts =
     (let keys = map (\<lambda>d. sort (dict_keys d)) dicts;
          tensors = map2 (\<lambda>d ks. map (\<lambda>k. the (map_of d k)) ks) dicts keys
      in bind_result (guard RuntimeError (list_all (\<lambda>t. length t = length (hd tensors)) tensors)) (\<lambda>_.
         let reduced = map (\<lambda>j. red (map (\<lambda>t. t ! j) tensors)) [0..<length (hd tensors)]
         in Inr (map (\<lambda>ks. zip ks reduced) keys)))"

subsection \<open>Exchange of dimensions\<close>

text \<open>A tensor by its size along the scattered dimension and its slices along the gathered one.\<close>

record 'a grid =
  gr_cols :: nat
  gr_rows :: "'a list list"

definition chunk_cols :: "nat \<Rightarrow> 'a grid \<Rightarrow> 'a grid list" where
  "chunk_cols p g =
     (let b = gr_cols g div p
      in map (\<lambda>j. \<lparr>gr_cols = b, gr_rows = map (\<lambda>row. take b (drop (j * b) row)) (gr_rows g)\<rparr>) [0..<p])"

definition chunk_rows :: "nat \<Rightarrow> 'a grid \<Rightarrow> 'a grid list" where
  "chunk_rows p g =
     (let a = length (gr_rows g) div p in map (\<lambda>j. \<lparr>gr_cols = gr_cols g, gr_rows = take a (drop (j * a) (gr_rows g))\<rparr>) [0..<p])"

definition cat_rows :: "'a grid list \<Rightarrow> 'a grid" where
  "cat_rows gs = \<lparr>gr_cols = gr_cols (hd gs), gr_rows = concat (map gr_rows gs)\<rparr>"

definition cat_cols :: "'a grid list \<Rightarrow> 'a grid" where
  "cat_cols gs =
     \<lparr>gr_cols = sum_list (map gr_cols gs),
      gr_rows = map (\<lambda>i. concat (map (\<lambda>g. gr_rows g ! i) gs)) [0..<length (gr_rows (hd gs))]\<rparr>"

text \<open>\<open>_AllToAllFunction.forward\<close> on all ranks: scatter the columns, gather the rows.\<close>

definition all_to_all_forward :: "'a grid list \<Rightarrow> 'a grid list result" where
  "all_to_all_forward gs =
     (let p = length gs
      in bind_result (guard AssertionError (list_all (\<lambda>g. gr_cols g mod p = 0) gs)) (\<lambda>_.
         Inr (if p = 1 then gs else map cat_rows (dist_all_to_all (map (chunk_cols p) gs)))))"

text \<open>\<open>_AllToAllFunction.backward\<close>: the other way round.\<close>

definition all_to_all_backward :: "'a grid list \<Rightarrow> 'a grid list" where
  "all_to_all_backward gs =
     (let p = length gs in if p = 1 then gs else map cat_cols (dist_all_to_all (map (chunk_rows p) gs)))"

subsection \<open>Sequence parallel regions\<close>

definition chunk_line :: "nat \<Rightarrow> nat \<Rightarrow> 'a list \<Rightarrow> 'a list" where
  "chunk_line p j xs = (let b = length xs div p in take b (drop (j * b) xs))"

definition sp_split :: "'a list list list \<Rightarrow> 'a list list list result" where
  "sp_split ts =
     (let p = length ts
      in if p = 1 then Inr ts
         else bind_result (guard AssertionError (list_all (list_all (\<lambda>line. length line mod p = 0)) ts)) (\<lambda>_.
           Inr (map (\<lambda>r. map (chunk_line p r) (ts ! r)) [0..<p])))"

definition sp_scatter :: "'a list list list \<Rightarrow> 'a list list list result" where
  "sp_scatter ts =
     (let p = length ts
      in if p = 1 then Inr ts
         else bind_result (guard AssertionError (list_all (list_all (\<lambda>line. length line mod p = 0)) ts)) (\<lambda>_.
           Inr (dist_scatter 0 (map (\<lambda>r. if r = 0 then Some (map (\<lambda>j. map (chunk_line p j) (ts ! r)) [0..<p]) else None) [0..<p]))))"

text \<open>\<open>torch.cat\<close> along the lines.\<close>

definition cat_lines :: "'a list list list \<Rightarrow> 'a list list" where
  "cat_lines ts = map (\<lambda>i. concat (map (\<lambda>t. t ! i) ts)) [0..<length (hd ts)]"

definition sp_gather :: "'a list list list \<Rightarrow> 'a list list list" where
  "sp_gather ts = (if length ts = 1 then ts else map cat_lines (dist_all_gather ts))"

text \<open>The regions with their gradients.\<close>

definition scatter_region :: "bool \<Rightarrow> 'a list list list \<Rightarrow> 'a list list list result" where
  "scatter_region rank0_only ts = (if rank0_only then sp_scatter ts else sp_split ts)"

definition scatter_region_backward :: "'a::linordered_field list list list \<Rightarrow> 'a list list list" where
  "scatter_region_backward gs = sp_gather (map (map (map (\<lambda>x. x / of_nat (length gs)))) gs)"

definition gather_region :: "'a list list list \<Rightarrow> 'a list list list" where
  "gather_region ts = sp_gather ts"

definition gather_region_backward :: "bool \<Rightarrow> 'a::linordered_field list list list \<Rightarrow> 'a list list list result" where
  "gather_region_backward rank0_only gs =
     map_sum id (map (map (map (\<lambda>x. x * of_nat (length gs))))) (if rank0_only then sp_scatter gs else sp_split gs)"


text \<open>
  What the collective operations come to: dictionaries are reduced key by key, an exchange turns a tensor that is divided
  by rows into one divided by columns and back, and the gradients of the sequence parallel regions are adjoint to them.
\<close>

subsection \<open>Dictionaries\<close>

text \<open>Ranks with the same keys get, for each key, the reduction of what they have under it, in whatever order the
  keys were inserted.\<close>
theorem reduced_by_key:
  fixes dicts :: "('k::linorder, 'v) dict list"
  assumes "\<forall>d \<in> set dicts. distinct (dict_keys d) \<and> set (dict_keys d) = ks" "dicts \<noteq> []"
  shows "\<exists>outs. all_reduce_dict red dicts = Inr outs \<and> length outs = length dicts
    \<and> (\<forall>out \<in> set outs. set (dict_keys out) = ks \<and> (\<forall>k \<in> ks. map_of out k = Some (red (map (\<lambda>d. the (map_of d k)) dicts))))"
proof -
  obtain d0 rest where d0: "dicts = d0 # rest" using assms(2) by (cases dicts) auto
  define keys where "keys = sort (dict_keys d0)"
  have same: "sort (dict_keys d) = keys" if "d \<in> set dicts" for d
  proof -
    have "distinct (dict_keys d)" "set (dict_keys d) = ks" using assms(1) that by blast+
    moreover have "distinct (dict_keys d0)" "set (dict_keys d0) = ks" using assms(1) unfolding d0 by (meson list.set_intros(1))+
    ultimately show ?thesis unfolding keys_def by (intro sorted_distinct_set_unique) simp_all
  qed
  define tensors where "tensors = map (\<lambda>d. map (\<lambda>k. the (map_of d k)) keys) dicts"
  have k: "map (\<lambda>d. sort (dict_keys d)) dicts = map (\<lambda>_. keys) dicts" using same by simp
  have t: "map2 (\<lambda>d ks. map (\<lambda>k. the (map_of d k)) ks) dicts (map (\<lambda>_. keys) dicts) = tensors"
    unfolding tensors_def by (induction dicts) simp_all
  have len: "length t = length keys" if "t \<in> set tensors" for t using that by (auto simp: tensors_def)
  have hd: "length (hd tensors) = length keys" by (rule len) (simp add: tensors_def d0)
  define reduced where "reduced = map (\<lambda>j. red (map (\<lambda>t. t ! j) tensors)) [0..<length keys]"
  have run: "all_reduce_dict red dicts = Inr (map (\<lambda>_. zip keys reduced) dicts)"
    unfolding all_reduce_dict_def Let_def k t hd using len
    by (simp add: list_all_iff reduced_def guard_def comp_def)
  have keys: "set keys = ks" "distinct keys" using assms(1) d0 by (auto simp: keys_def)
  have read: "map_of (zip keys reduced) k = Some (red (map (\<lambda>d. the (map_of d k)) dicts))" if "k \<in> ks" for k
  proof -
    have "k \<in> set keys" using that keys(1) by simp
    then obtain j where j: "j < length keys" "keys ! j = k" unfolding in_set_conv_nth by blast
    have "map_of (zip keys reduced) (keys ! j) = Some (reduced ! j)"
      using j keys(2) by (intro map_of_zip_nth) (simp_all add: reduced_def)
    moreover have "reduced ! j = red (map (\<lambda>d. the (map_of d k)) dicts)"
      using j by (simp add: reduced_def tensors_def comp_def)
    ultimately show ?thesis using j(2) by simp
  qed
  have "set (dict_keys (zip keys reduced)) = ks" using keys(1) by (simp add: reduced_def)
  then show ?thesis using run read by auto
qed

lemma reduced_by_key_witness:
  "\<exists>outs. all_reduce_dict sum_list [[(1 :: nat, 1), (2, 2)], [(2, 5), (1, 10 :: nat)]] = Inr outs
    \<and> (\<forall>out \<in> set outs. map_of out 1 = Some 11)"
  using reduced_by_key [of "[[(1 :: nat, 1), (2, 2)], [(2, 5), (1, 10 :: nat)]]" "{1, 2}" sum_list] by auto

subsection \<open>Exchange of dimensions\<close>

lemma chunks_upto: "concat (map (\<lambda>j. take b (drop (j * b) xs)) [0..<p]) = take (p * b) xs"
proof (induction p)
  case (Suc p)
  have "take (Suc p * b) xs = take (p * b) xs @ take b (drop (p * b) xs)"
    using take_add [of "p * b" b xs] by (simp add: add.commute)
  then show ?case using Suc by simp
qed simp

lemma concat_chunks: "length xs = p * b \<Longrightarrow> concat (map (\<lambda>j. take b (drop (j * b) xs)) [0..<p]) = xs"
  by (simp add: chunks_upto)

text \<open>A tensor whose rows fit its width, and that divides by the size of the group in both dimensions.\<close>

definition grid_ok :: "nat \<Rightarrow> 'a grid \<Rightarrow> bool" where
  "grid_ok p g \<longleftrightarrow> 0 < p \<and> p dvd gr_cols g \<and> p dvd length (gr_rows g) \<and> (\<forall>row \<in> set (gr_rows g). length row = gr_cols g)"

text \<open>The exchange takes a tensor that the ranks hold divided by rows to the same tensor divided by columns, and its
  backward pass takes it back.\<close>
theorem exchange_reshards:
  assumes "grid_ok p g"
  shows "all_to_all_forward (chunk_rows p g) = Inr (chunk_cols p g) \<and> all_to_all_backward (chunk_cols p g) = chunk_rows p g"
proof -
  obtain a b where ab: "length (gr_rows g) = p * a" "gr_cols g = p * b"
    using assms by (auto simp: grid_ok_def elim!: dvdE)
  have p: "0 < p" and rows: "\<And>row. row \<in> set (gr_rows g) \<Longrightarrow> length row = p * b" using assms ab by (auto simp: grid_ok_def)
  have d: "length (gr_rows g) div p = a" "gr_cols g div p = b" using p by (simp_all add: ab)
  have forward: "all_to_all_forward (chunk_rows p g) = Inr (chunk_cols p g)"
  proof (cases "p = 1")
    case True
    then have "chunk_rows p g = [g]" "chunk_cols p g = [g]"
      using rows ab by (auto simp: chunk_rows_def chunk_cols_def Let_def map_idI intro: grid.equality)
    then show ?thesis by (simp add: all_to_all_forward_def)
  next
    case False
    have "map cat_rows (dist_all_to_all (map (chunk_cols p) (chunk_rows p g))) = chunk_cols p g"
    proof (rule nth_equalityI)
      fix r assume "r < length (map cat_rows (dist_all_to_all (map (chunk_cols p) (chunk_rows p g))))"
      then have r: "r < p" by (simp add: dist_all_to_all_def chunk_rows_def Let_def)
      have "map cat_rows (dist_all_to_all (map (chunk_cols p) (chunk_rows p g))) ! r
          = cat_rows (map (\<lambda>j. \<lparr>gr_cols = b, gr_rows = map (\<lambda>row. take b (drop (r * b) row)) (take a (drop (j * a) (gr_rows g)))\<rparr>) [0..<p])"
        using r by (simp add: dist_all_to_all_def chunk_rows_def chunk_cols_def d Let_def comp_def)
      also have "\<dots> = \<lparr>gr_cols = b, gr_rows = map (\<lambda>row. take b (drop (r * b) row)) (concat (map (\<lambda>j. take a (drop (j * a) (gr_rows g))) [0..<p]))\<rparr>"
        using p by (simp add: cat_rows_def comp_def map_concat hd_map)
      also have "\<dots> = chunk_cols p g ! r" using r by (simp add: concat_chunks ab(1) chunk_cols_def d Let_def)
      finally show "map cat_rows (dist_all_to_all (map (chunk_cols p) (chunk_rows p g))) ! r = chunk_cols p g ! r" .
    qed (simp add: dist_all_to_all_def chunk_rows_def chunk_cols_def Let_def)
    moreover have "length (chunk_rows p g) = p" "list_all (\<lambda>h. gr_cols h mod p = 0) (chunk_rows p g)"
      using assms by (auto simp: chunk_rows_def Let_def list_all_iff grid_ok_def)
    ultimately show ?thesis using False by (simp add: all_to_all_forward_def Let_def guard_def)
  qed
  have backward: "all_to_all_backward (chunk_cols p g) = chunk_rows p g"
  proof (cases "p = 1")
    case True
    then have "chunk_rows p g = [g]" "chunk_cols p g = [g]"
      using rows ab by (auto simp: chunk_rows_def chunk_cols_def Let_def map_idI intro: grid.equality)
    then show ?thesis by (simp add: all_to_all_backward_def)
  next
    case False
    have "map cat_cols (dist_all_to_all (map (chunk_rows p) (chunk_cols p g))) = chunk_rows p g"
    proof (rule nth_equalityI)
      fix r assume "r < length (map cat_cols (dist_all_to_all (map (chunk_rows p) (chunk_cols p g))))"
      then have r: "r < p" by (simp add: dist_all_to_all_def chunk_cols_def Let_def)
      then have ra: "r * a + a \<le> p * a" using mult_le_mono1 [of "Suc r" p a] by simp
      have "map cat_cols (dist_all_to_all (map (chunk_rows p) (chunk_cols p g))) ! r
          = cat_cols (map (\<lambda>j. \<lparr>gr_cols = b, gr_rows = take a (drop (r * a) (map (\<lambda>row. take b (drop (j * b) row)) (gr_rows g)))\<rparr>) [0..<p])"
        using r by (simp add: dist_all_to_all_def chunk_rows_def chunk_cols_def d Let_def comp_def)
      also have "\<dots> = \<lparr>gr_cols = p * b, gr_rows = take a (drop (r * a) (gr_rows g))\<rparr>"
      proof -
        have "concat (map (\<lambda>j. take b (drop (j * b) (gr_rows g ! (r * a + i)))) [0..<p]) = gr_rows g ! (r * a + i)" if "i < a" for i
          using that ra ab(1) by (intro concat_chunks rows nth_mem) simp
        moreover have "r * a \<le> length (gr_rows g)" "r * a + i < length (gr_rows g)" if "i < a" for i using that ra ab(1) by linarith+
        ultimately have "map (\<lambda>i. concat (map (\<lambda>j. take a (drop (r * a) (map (\<lambda>row. take b (drop (j * b) row)) (gr_rows g))) ! i) [0..<p])) [0..<a]
            = take a (drop (r * a) (gr_rows g))"
          using ra ab(1) by (intro nth_equalityI) simp_all
        then show ?thesis
          using p ra ab(1) by (simp add: cat_cols_def comp_def hd_map sum_list_triv)
      qed
      also have "\<dots> = chunk_rows p g ! r" using r by (simp add: chunk_rows_def d ab(2) Let_def)
      finally show "map cat_cols (dist_all_to_all (map (chunk_rows p) (chunk_cols p g))) ! r = chunk_rows p g ! r" .
    qed (simp add: dist_all_to_all_def chunk_rows_def chunk_cols_def Let_def)
    moreover have "length (chunk_cols p g) = p" by (simp add: chunk_cols_def Let_def)
    ultimately show ?thesis using False by (simp add: all_to_all_backward_def Let_def)
  qed
  show ?thesis using forward backward by blast
qed

lemma exchange_reshards_witness:
  "all_to_all_forward [\<lparr>gr_cols = 2, gr_rows = [[1, 2]]\<rparr>, \<lparr>gr_cols = 2, gr_rows = [[3, 4 :: nat]]\<rparr>]
     = Inr [\<lparr>gr_cols = 1, gr_rows = [[1], [3]]\<rparr>, \<lparr>gr_cols = 1, gr_rows = [[2], [4]]\<rparr>]"
  using exchange_reshards [of 2 "\<lparr>gr_cols = 2, gr_rows = [[1, 2], [3, 4 :: nat]]\<rparr>"]
  by (simp add: grid_ok_def chunk_rows_def chunk_cols_def eval_nat_numeral)

subsection \<open>Sequence parallel regions\<close>

text \<open>The inner product of two tensors of one shape.\<close>

definition line_dot :: "'a::linordered_field list \<Rightarrow> 'a list \<Rightarrow> 'a" where
  "line_dot xs ys = sum_list (map2 (*) xs ys)"

definition tensor_dot :: "'a::linordered_field list list \<Rightarrow> 'a list list \<Rightarrow> 'a" where
  "tensor_dot t u = sum_list (map2 line_dot t u)"

text \<open>\<open>n\<close> lines of length \<open>m\<close>.\<close>

definition has_shape :: "nat \<Rightarrow> nat \<Rightarrow> 'a list list \<Rightarrow> bool" where
  "has_shape n m t \<longleftrightarrow> length t = n \<and> (\<forall>line \<in> set t. length line = m)"

lemma has_shapeD: "has_shape n m t \<Longrightarrow> length t = n" "has_shape n m t \<Longrightarrow> i < n \<Longrightarrow> length (t ! i) = m"
  by (auto simp: has_shape_def)

lemma tensor_dot_sum:
  assumes "length t = n" "length u = n"
  shows "tensor_dot t u = (\<Sum>i < n. line_dot (t ! i) (u ! i))"
  using assms by (simp add: tensor_dot_def sum_list_sum_nth atLeast0LessThan)

lemma line_dot_append: "length xs = length ys \<Longrightarrow> line_dot (xs @ xs') (ys @ ys') = line_dot xs ys + line_dot xs' ys'"
  by (simp add: line_dot_def)

lemma line_dot_concat:
  "\<forall>j < p. length (xs j) = length (ys j) \<Longrightarrow> line_dot (concat (map xs [0..<p])) (concat (map ys [0..<p])) = (\<Sum>j < p. line_dot (xs j) (ys j))"
proof (induction p)
  case (Suc p)
  have "length (concat (map xs [0..<p])) = length (concat (map ys [0..<p]))"
    unfolding length_concat map_map by (rule arg_cong [where f = sum_list], rule map_cong) (use Suc.prems in auto)
  then show ?case using Suc by (simp add: line_dot_append)
qed (simp add: line_dot_def)

lemma line_dot_scale: "line_dot xs (map (\<lambda>y. y * c) ys) = line_dot xs ys * c" "line_dot xs (map (\<lambda>y. y / c) ys) = line_dot xs ys / c"
  by (induction xs ys rule: list_induct2') (simp_all add: line_dot_def algebra_simps add_divide_distrib)

lemma chunk_line_concat: "length xs = p * b \<Longrightarrow> 0 < p \<Longrightarrow> concat (map (\<lambda>j. chunk_line p j xs) [0..<p]) = xs"
  by (simp add: chunk_line_def Let_def concat_chunks)

lemma length_chunk_line: "length xs = p * b \<Longrightarrow> j < p \<Longrightarrow> length (chunk_line p j xs) = b"
  using mult_le_mono1 [of "Suc j" p b] by (simp add: chunk_line_def Let_def)

text \<open>The parts of a tensor, and the tensor of some parts.\<close>

definition parts_of :: "nat \<Rightarrow> 'a list list \<Rightarrow> 'a list list list" where
  "parts_of p t = map (\<lambda>r. map (chunk_line p r) t) [0..<p]"

lemma region_of_copies:
  assumes "has_shape n (p * b) t" "0 < p"
  shows "scatter_region rank0_only (replicate p t) = Inr (parts_of p t)"
proof -
  have "list_all (\<lambda>line. length line mod p = 0) t" using assms by (auto simp: has_shape_def list_all_iff)
  moreover have "p = 1 \<Longrightarrow> parts_of p t = replicate p t"
    using assms by (auto simp: parts_of_def chunk_line_def has_shape_def intro!: map_idI)
  ultimately show ?thesis
    using assms(2)
    by (cases rank0_only)
      (auto simp: scatter_region_def sp_split_def sp_scatter_def parts_of_def dist_scatter_def list_all_iff guard_def Let_def
        simp del: One_nat_def split: if_splits)
qed

lemma gather_eq:
  assumes "gs \<noteq> []"
  shows "sp_gather gs = replicate (length gs) (cat_lines gs)"
proof (cases "length gs = 1")
  case True
  then obtain g where "gs = [g]" by (cases gs) auto
  then show ?thesis by (auto simp: sp_gather_def cat_lines_def map_nth)
qed (simp add: sp_gather_def dist_all_gather_def map_replicate_const)

lemma tensor_dot_commute: "tensor_dot t u = tensor_dot u t"
proof -
  have "line_dot xs ys = line_dot ys xs" for xs ys :: "'a list"
    by (induction xs ys rule: list_induct2') (simp_all add: line_dot_def mult.commute)
  then show ?thesis by (induction t u rule: list_induct2') (simp_all add: tensor_dot_def)
qed

lemma tensor_dot_scale:
  "tensor_dot t (map (map (\<lambda>y. y * c)) u) = tensor_dot t u * c" "tensor_dot t (map (map (\<lambda>y. y / c)) u) = tensor_dot t u / c"
  by (induction t u rule: list_induct2') (simp_all add: tensor_dot_def line_dot_scale algebra_simps add_divide_distrib)

text \<open>A tensor against the parts put together is the sum of its parts against them.\<close>

lemma dot_parts:
  assumes "has_shape n (p * b) t" "0 < p" "length gs = p" "\<forall>g \<in> set gs. has_shape n b g"
  shows "tensor_dot t (cat_lines gs) = (\<Sum>r < p. tensor_dot (parts_of p t ! r) (gs ! r))"
proof -
  have g: "has_shape n b (gs ! r)" if "r < p" for r using assms(3,4) that by simp
  have "length (hd gs) = n" using assms(2-4) has_shapeD(1) by (cases gs) auto
  moreover have "map (\<lambda>g. g ! i) gs = map (\<lambda>r. gs ! r ! i) [0..<p]" for i using assms(3) by (intro nth_equalityI) simp_all
  ultimately have cat: "length (cat_lines gs) = n" "\<And>i. i < n \<Longrightarrow> cat_lines gs ! i = concat (map (\<lambda>r. gs ! r ! i) [0..<p])"
    by (simp_all add: cat_lines_def)
  have parts: "parts_of p t ! r = map (chunk_line p r) t" if "r < p" for r using that by (simp add: parts_of_def)
  have "tensor_dot t (cat_lines gs) = (\<Sum>i < n. line_dot (t ! i) (cat_lines gs ! i))"
    using has_shapeD(1) [OF assms(1)] cat(1) by (rule tensor_dot_sum)
  also have "\<dots> = (\<Sum>i < n. \<Sum>r < p. line_dot (chunk_line p r (t ! i)) (gs ! r ! i))"
  proof (rule sum.cong [OF refl])
    fix i assume "i \<in> {..<n}"
    then have i: "i < n" by simp
    have len: "length (t ! i) = p * b" by (rule has_shapeD(2) [OF assms(1) i])
    have "line_dot (concat (map (\<lambda>r. chunk_line p r (t ! i)) [0..<p])) (concat (map (\<lambda>r. gs ! r ! i) [0..<p]))
        = (\<Sum>r < p. line_dot (chunk_line p r (t ! i)) (gs ! r ! i))"
      using length_chunk_line [OF len] has_shapeD(2) [OF g i] by (intro line_dot_concat) simp
    then show "line_dot (t ! i) (cat_lines gs ! i) = (\<Sum>r < p. line_dot (chunk_line p r (t ! i)) (gs ! r ! i))"
      by (simp add: chunk_line_concat [OF len assms(2)] cat(2) [OF i])
  qed
  also have "\<dots> = (\<Sum>r < p. \<Sum>i < n. line_dot (chunk_line p r (t ! i)) (gs ! r ! i))" by (rule sum.swap)
  also have "\<dots> = (\<Sum>r < p. tensor_dot (parts_of p t ! r) (gs ! r))"
  proof (rule sum.cong [OF refl])
    fix r assume "r \<in> {..<p}"
    then have r: "r < p" by simp
    have "length (parts_of p t ! r) = n" "length (gs ! r) = n"
      using has_shapeD(1) [OF assms(1)] has_shapeD(1) [OF g [OF r]] by (simp_all add: parts r)
    then show "(\<Sum>i < n. line_dot (chunk_line p r (t ! i)) (gs ! r ! i)) = tensor_dot (parts_of p t ! r) (gs ! r)"
      using has_shapeD(1) [OF assms(1)] by (simp add: tensor_dot_sum parts r)
  qed
  finally show ?thesis .
qed

text \<open>C36: the gradients of the sequence parallel regions are adjoint to their forward passes, summed over the ranks: on
  the condition that all ranks hold the same tensor when it is scattered, and that the gathered result gets the same
  gradient on every rank; whether rank 0 or every rank provides the tensor that is scattered.\<close>
theorem region_gradients:
  fixes t :: "'a::linordered_field list list"
  assumes "has_shape n (p * b) t" "0 < p" "length gs = p" "\<forall>g \<in> set gs. has_shape n b g"
  shows "(\<exists>ys. scatter_region rank0_only (replicate p t) = Inr ys
      \<and> (\<Sum>r < p. tensor_dot (ys ! r) (gs ! r)) = (\<Sum>r < p. tensor_dot t (scatter_region_backward gs ! r)))
    \<and> (\<exists>hs. gather_region_backward rank0_only (replicate p t) = Inr hs
      \<and> (\<Sum>r < p. tensor_dot (gather_region gs ! r) t) = (\<Sum>r < p. tensor_dot (gs ! r) (hs ! r)))"
proof (intro conjI exI)
  have "gs \<noteq> []" using assms(2,3) by auto
  note region = region_of_copies [OF assms(1,2)]
  note parts = dot_parts [OF assms]
  show "scatter_region rank0_only (replicate p t) = Inr (parts_of p t)" by (rule region)
  define gs' where "gs' = map (map (map (\<lambda>x. x / of_nat p))) gs"
  have gs': "length gs' = p" "gs' \<noteq> []" "\<forall>g \<in> set gs'. has_shape n b g"
    using assms(3,4) \<open>gs \<noteq> []\<close> by (auto simp: gs'_def has_shape_def)
  have "(\<Sum>r < p. tensor_dot t (scatter_region_backward gs ! r)) = of_nat p * tensor_dot t (cat_lines gs')"
    using gs' by (simp add: scatter_region_backward_def assms(3) gather_eq flip: gs'_def)
  also have "\<dots> = of_nat p * (\<Sum>r < p. tensor_dot (parts_of p t ! r) (gs ! r) / of_nat p)"
    using dot_parts [OF assms(1,2) gs'(1,3)] assms(3) by (simp add: gs'_def tensor_dot_scale)
  also have "\<dots> = (\<Sum>r < p. tensor_dot (parts_of p t ! r) (gs ! r))"
    using assms(2) by (simp add: sum_divide_distrib [symmetric])
  finally show "(\<Sum>r < p. tensor_dot (parts_of p t ! r) (gs ! r)) = (\<Sum>r < p. tensor_dot t (scatter_region_backward gs ! r))" ..
  show "gather_region_backward rank0_only (replicate p t) = Inr (map (map (map (\<lambda>x. x * of_nat p))) (parts_of p t))"
    using region [of rank0_only] by (simp add: gather_region_backward_def scatter_region_def)
  have "(\<Sum>r < p. tensor_dot (gather_region gs ! r) t) = of_nat p * tensor_dot t (cat_lines gs)"
    using \<open>gs \<noteq> []\<close> assms(3) by (simp add: gather_region_def gather_eq tensor_dot_commute [of _ t])
  also have "\<dots> = (\<Sum>r < p. tensor_dot (gs ! r) (parts_of p t ! r) * of_nat p)"
    unfolding parts by (simp add: sum_distrib_left mult.commute tensor_dot_commute)
  also have "\<dots> = (\<Sum>r < p. tensor_dot (gs ! r) (map (map (map (\<lambda>x. x * of_nat p))) (parts_of p t) ! r))"
    by (intro sum.cong refl) (simp add: parts_of_def tensor_dot_scale del: map_map)
  finally show "(\<Sum>r < p. tensor_dot (gather_region gs ! r) t)
      = (\<Sum>r < p. tensor_dot (gs ! r) (map (map (map (\<lambda>x. x * of_nat p))) (parts_of p t) ! r))" .
qed

lemma region_gradients_witness:
  "\<exists>hs. gather_region_backward True (replicate 2 [[1, 2, 3, 4]]) = Inr hs
     \<and> (\<Sum>r < 2. tensor_dot (gather_region [[[5, 6]], [[7, 8]]] ! r) [[1, 2, 3, 4 :: rat]]) = (\<Sum>r < 2. tensor_dot ([[[5, 6]], [[7, 8]]] ! r) (hs ! r))"
  using region_gradients [of 1 2 2 "[[1, 2, 3, 4 :: rat]]" "[[[5, 6]], [[7, 8]]]" True] by (simp add: has_shape_def)


end
