(* ===== verification/Ppo_Training.thy ===== *)
theory Ppo_Training
  imports Prelude Complex_Main "HOL-Library.Multiset"
begin

text \<open>
  The training loops of \<open>VLAPPOPolicy\<close> (\<open>rlightning/policy/vla_policy/ppo_policy.py\<close>) and \<open>SimplePPOPolicy\<close>
  (\<open>policy/simple_ppo_policy/ppo_policy.py\<close>): parameter groups, mini-batches, gradient accumulation and the warm-up of
  the critic. The model, its gradients and the optimizer are parameters; a gradient is a list of numbers.
\<close>

subsection \<open>Parameters\<close>

text \<open>\<open>pt_grad\<close> is the gradient of the loss of a micro-batch, told whether the actor is left out while the critic warms up.\<close>

record ('m, 'd, 'v) ppo_ops =
  pt_grad :: "'m \<Rightarrow> bool \<Rightarrow> 'd list \<Rightarrow> 'v list"
  pt_clip :: "'v list \<Rightarrow> 'v list"
  pt_step :: "'m \<Rightarrow> 'v list \<Rightarrow> 'm"

record ppo_cfg =
  pc_mini_batch_size :: nat
  pc_micro_batch_size :: nat
  pc_update_epoch :: nat
  pc_world_size :: nat

record ('m, 'v) vla_policy =
  vl_model :: 'm
  vl_grads :: "'v list"
  vl_steps :: nat
  vl_warmup :: int
  vl_groups :: "string list list"

subsection \<open>The optimizer\<close>

text \<open>\<open>sub in name\<close> on strings.\<close>

definition occurs_in :: "string \<Rightarrow> string \<Rightarrow> bool" where
  "occurs_in sub name = list_ex (\<lambda>i. take (length sub) (drop i name) = sub) [0..<length name + 1]"

text \<open>\<open>setup_optimizer\<close>: the names of the trainable parameters in the groups of actor and critic; empty groups are left
  out.\<close>

definition param_groups :: "(string \<times> bool) list \<Rightarrow> string list list" where
  "param_groups named =
     (let trainable = map fst (filter snd named);
          actor = filter (\<lambda>n. \<not> occurs_in ''value_head'' n) trainable;
          critic = filter (occurs_in ''value_head'') trainable
      in (if actor = [] then [] else [actor]) @ (if critic = [] then [] else [critic]))"

text \<open>The constructor's reading of \<open>critic_warmup_steps\<close>, \<open>None\<close> when it is not configured.\<close>

definition initial_warmup :: "int option \<Rightarrow> bool \<Rightarrow> int" where
  "initial_warmup configured add_value_head =
     (case configured of None \<Rightarrow> 0 | Some n \<Rightarrow> if n \<noteq> 0 \<and> add_value_head then n else 0)"

text \<open>\<open>optimizer_step\<close>: both groups are clipped together, so a model with one group raises.\<close>

definition optimizer_step :: "('m, 'd, 'v::linordered_field) ppo_ops \<Rightarrow> ('m, 'v) vla_policy \<Rightarrow> ('m, 'v) vla_policy result" where
  "optimizer_step ops s =
     bind_result (guard IndexError (2 \<le> length (vl_groups s))) (\<lambda>_.
     let steps = vl_steps s + 1
     in Inr (s\<lparr>vl_model := pt_step ops (vl_model s) (pt_clip ops (vl_grads s)), vl_grads := map (\<lambda>_. 0) (vl_grads s),
               vl_steps := steps,
               vl_warmup := (if vl_warmup s > 0 \<and> int steps \<ge> vl_warmup s then - 1 else vl_warmup s)\<rparr>))"

subsection \<open>Mini-batches\<close>

text \<open>\<open>compute_ppo_loss\<close>: the loss is divided by the number of micro-batches and its gradient is added.\<close>

definition accumulate :: "('m, 'd, 'v::linordered_field) ppo_ops \<Rightarrow> nat \<Rightarrow> 'd list \<Rightarrow> ('m, 'v) vla_policy \<Rightarrow> ('m, 'v) vla_policy" where
  "accumulate ops accum_steps micro s =
     s\<lparr>vl_grads := map2 (+) (vl_grads s)
         (map (\<lambda>x. x / of_nat accum_steps) (pt_grad ops (vl_model s) (int (vl_steps s) < vl_warmup s) micro))\<rparr>"

definition optimize ::
    "('m, 'd, 'v::linordered_field) ppo_ops \<Rightarrow> ppo_cfg \<Rightarrow> 'd list \<Rightarrow> ('m, 'v) vla_policy \<Rightarrow> ('m, 'v) vla_policy result" where
  "optimize ops c mini s =
     (let k = pc_micro_batch_size c
      in bind_result (guard ZeroDivisionError (k \<noteq> 0)) (\<lambda>_.
         bind_result (guard AssertionError (length mini mod k = 0)) (\<lambda>_.
         let n = length mini div k
         in optimizer_step ops (fold (accumulate ops n) (map (\<lambda>i. take k (drop (i * k) mini)) [0..<n]) s))))"

text \<open>\<open>train\<close> with the permutation that \<open>torch.randperm\<close> draws; the order of the mini-batches is the same in all epochs.\<close>

definition mini_batches :: "nat \<Rightarrow> nat \<Rightarrow> nat list \<Rightarrow> nat list list" where
  "mini_batches width num perm = map (\<lambda>i. take width (drop (i * width) perm)) [0..<num]"

definition vla_train ::
    "('m, 'd, 'v::linordered_field) ppo_ops \<Rightarrow> ppo_cfg \<Rightarrow> nat list \<Rightarrow> 'd list \<Rightarrow> ('m, 'v) vla_policy \<Rightarrow> ('m, 'v) vla_policy result" where
  "vla_train ops c perm dataset s =
     bind_result (guard ZeroDivisionError (pc_world_size c \<noteq> 0)) (\<lambda>_.
     let width = pc_mini_batch_size c div pc_world_size c
     in bind_result (guard ZeroDivisionError (width \<noteq> 0)) (\<lambda>_.
        let num = length dataset div width
        in bind_result (guard AssertionError (0 < num)) (\<lambda>_.
           foldM (\<lambda>s indices. optimize ops c (map ((!) dataset) indices) s) s
             (concat (replicate (pc_update_epoch c) (mini_batches width num perm))))))"

subsection \<open>The simple policy\<close>

text \<open>\<open>SimplePPOPolicy.train\<close>: every epoch draws a permutation and goes through it in mini-batches, the last of which may be
  shorter.\<close>

definition simple_batches :: "nat \<Rightarrow> nat list \<Rightarrow> nat list list" where
  "simple_batches width perm = map (\<lambda>i. take width (drop (i * width) perm)) [0..<(length perm + width - 1) div width]"

definition simple_update :: "('m, 'd, 'v::linordered_field) ppo_ops \<Rightarrow> 'd list \<Rightarrow> 'm \<Rightarrow> 'm" where
  "simple_update ops batch m = pt_step ops m (pt_clip ops (pt_grad ops m False batch))"

definition simple_train ::
    "('m, 'd, 'v::linordered_field) ppo_ops \<Rightarrow> nat \<Rightarrow> nat list list \<Rightarrow> 'd list \<Rightarrow> 'm \<Rightarrow> 'm result" where
  "simple_train ops minibatch_size perms dataset m =
     foldM (\<lambda>m perm.
        bind_result (guard ValueError (minibatch_size \<noteq> 0)) (\<lambda>_.
        Inr (fold (simple_update ops) (map (map ((!) dataset)) (simple_batches minibatch_size perm)) m))) m perms"

subsection \<open>Rollouts\<close>

text \<open>The bootstrap values of \<open>rollout_step\<close>: the value of the final observation for truncated episodes, when there is one
  and the model has a value head.\<close>

definition bootstrap_values :: "bool \<Rightarrow> bool list \<Rightarrow> 'v list option \<Rightarrow> 'v::linordered_field list" where
  "bootstrap_values has_value_head truncated final_values =
     (case final_values of
        Some vs \<Rightarrow> if True \<in> set truncated \<and> has_value_head then map2 (\<lambda>t v. if t then v else 0) truncated vs else map (\<lambda>_. 0) truncated
      | None \<Rightarrow> map (\<lambda>_. 0) truncated)"


text \<open>
  Mini-batches divide the data, micro-batches do not change the update, and the critic warms up for the steps configured.
\<close>

subsection \<open>Batches\<close>

lemma pieces_upto: "concat (map (\<lambda>i. take k (drop (i * k) xs)) [0..<n]) = take (n * k) xs"
proof (induction n)
  case (Suc n)
  have "take (Suc n * k) xs = take (n * k) xs @ take k (drop (n * k) xs)"
    using take_add [of "n * k" k xs] by (simp add: add.commute)
  then show ?case using Suc by simp
qed simp

lemma pieces_all: "k dvd length xs \<Longrightarrow> concat (map (\<lambda>i. take k (drop (i * k) xs)) [0..<length xs div k]) = xs"
  by (simp add: pieces_upto)

lemma length_piece: "k dvd length xs \<Longrightarrow> i < length xs div k \<Longrightarrow> length (take k (drop (i * k) xs)) = k"
proof -
  assume a: "k dvd length xs" "i < length xs div k"
  then have "Suc i * k \<le> length xs div k * k" by (intro mult_le_mono1) simp
  then show ?thesis using a(1) by simp
qed

text \<open>An epoch of \<open>VLAPPOPolicy\<close> uses every index at most once and leaves out fewer than a mini-batch; an epoch of
  \<open>SimplePPOPolicy\<close> uses every index once.\<close>

lemma epoch_uses_data:
  assumes "mset perm = mset [0..<n]" "0 < width"
  shows "distinct (concat (mini_batches width (n div width) perm))"
    and "set (concat (mini_batches width (n div width) perm)) \<subseteq> {..<n}"
    and "n - length (concat (mini_batches width (n div width) perm)) < width"
    and "concat (simple_batches width perm) = perm"
proof -
  have p: "distinct perm" "set perm = {..<n}" "length perm = n"
    using assms(1) mset_eq_imp_distinct_iff mset_eq_setD mset_eq_length by fastforce+
  have c: "concat (mini_batches width (n div width) perm) = take (n div width * width) perm"
    by (simp add: mini_batches_def pieces_upto)
  show "distinct (concat (mini_batches width (n div width) perm))" using p by (simp add: c)
  show "set (concat (mini_batches width (n div width) perm)) \<subseteq> {..<n}" unfolding c p(2) [symmetric] by (rule set_take_subset)
  have "n - n div width * width = n mod width" by (simp add: minus_div_mult_eq_mod)
  then show "n - length (concat (mini_batches width (n div width) perm)) < width" using assms(2) p(3) by (simp add: c)
  have "length perm \<le> (length perm + width - 1) div width * width"
    using dividend_less_div_times [OF assms(2), of "length perm + width - 1"] by linarith
  then show "concat (simple_batches width perm) = perm" by (simp add: simple_batches_def pieces_upto)
qed

subsection \<open>Micro-batches\<close>

text \<open>The gradient of a batch is the mean of the gradients \<open>g\<close> of its samples, in \<open>n\<close> parameters.\<close>

definition averages :: "('m, 'd, 'v::linordered_field) ppo_ops \<Rightarrow> nat \<Rightarrow> ('m \<Rightarrow> bool \<Rightarrow> 'd \<Rightarrow> nat \<Rightarrow> 'v) \<Rightarrow> bool" where
  "averages ops n g \<longleftrightarrow>
     (\<forall>m w ds. ds \<noteq> [] \<longrightarrow> pt_grad ops m w ds = map (\<lambda>j. sum_list (map (\<lambda>d. g m w d j) ds) / of_nat (length ds)) [0..<n])"

lemma accumulate_micros:
  fixes s :: "('m, 'v::linordered_field) vla_policy"
  assumes "averages ops n g" "length (vl_grads s) = n" "\<forall>micro \<in> set micros. length micro = k" "0 < k"
  shows "fold (accumulate ops num) micros s
       = s\<lparr>vl_grads := map (\<lambda>j. vl_grads s ! j + sum_list (map (\<lambda>d. g (vl_model s) (int (vl_steps s) < vl_warmup s) d j) (concat micros))
            / (of_nat k * of_nat num)) [0..<n]\<rparr>"
  using assms(3)
proof (induction micros rule: rev_induct)
  case Nil
  have "map (\<lambda>j. vl_grads s ! j) [0..<n] = vl_grads s" using assms(2) by (metis map_nth)
  then show ?case by simp
next
  case (snoc micro micros)
  have "micro \<noteq> []" "length micro = k" using snoc.prems assms(4) by auto
  then have g: "pt_grad ops (vl_model s) w micro = map (\<lambda>j. sum_list (map (\<lambda>d. g (vl_model s) w d j) micro) / of_nat k) [0..<n]" for w
    using assms(1) by (simp add: averages_def)
  show ?case
    using snoc by (simp add: accumulate_def g zip_map_map zip_same_conv_map add_divide_distrib add.assoc comp_def)
qed

text \<open>C37: when the gradient of a batch is the mean over its samples, the update does not depend on the size of the
  micro-batches, as long as it divides the mini-batch: accumulating gradients over micro-batches is the same as
  taking the mini-batch at once.\<close>
theorem micro_batches_do_not_matter:
  fixes s :: "('m, 'v::linordered_field) vla_policy"
  assumes "averages ops n g" "length (vl_grads s) = n" "mini \<noteq> []" "pc_micro_batch_size c dvd length mini"
  shows "optimize ops c mini s = optimize ops (c\<lparr>pc_micro_batch_size := length mini\<rparr>) mini s"
proof -
  have one: "optimize ops c mini s = optimizer_step ops (s\<lparr>vl_grads := map (\<lambda>j. vl_grads s ! j
      + sum_list (map (\<lambda>d. g (vl_model s) (int (vl_steps s) < vl_warmup s) d j) mini) / of_nat (length mini)) [0..<n]\<rparr>)"
    if d: "pc_micro_batch_size c dvd length mini" for c :: ppo_cfg
  proof -
    let ?k = "pc_micro_batch_size c"
    let ?micros = "map (\<lambda>i. take ?k (drop (i * ?k) mini)) [0..<length mini div ?k]"
    have k: "0 < ?k" using d assms(3) by (cases "?k = 0") auto
    have "\<forall>micro \<in> set ?micros. length micro = ?k" using length_piece [OF d] by auto
    note acc = accumulate_micros [OF assms(1,2) this k, of "length mini div ?k", unfolded pieces_all [OF d]]
    have "of_nat ?k * of_nat (length mini div ?k) = (of_nat (length mini) :: 'v)"
      using d by (simp flip: of_nat_mult)
    then show ?thesis using k d by (simp add: optimize_def Let_def acc guard_def mod_eq_0_iff_dvd)
  qed
  show ?thesis using one [OF assms(4)] one [of "c\<lparr>pc_micro_batch_size := length mini\<rparr>"] by simp
qed

lemma micro_batches_do_not_matter_witness:
  "let ops = \<lparr>pt_grad = \<lambda>m w ds. map (\<lambda>j. sum_list (map (\<lambda>d. d * of_nat j) ds) / of_nat (length ds)) [0..<2],
          pt_clip = \<lambda>g. g, pt_step = \<lambda>m g. m - sum_list g\<rparr>;
       c = \<lparr>pc_mini_batch_size = 4, pc_micro_batch_size = 2, pc_update_epoch = 1, pc_world_size = 1\<rparr>;
       s = \<lparr>vl_model = 0, vl_grads = [0, 0], vl_steps = 0, vl_warmup = 0, vl_groups = [[''a''], [''b'']]\<rparr>
   in optimize ops c [1, 2, 3, 4 :: rat] s = optimize ops (c\<lparr>pc_micro_batch_size := length [1, 2, 3, 4 :: rat]\<rparr>) [1, 2, 3, 4] s"
  unfolding Let_def
  by (rule micro_batches_do_not_matter [where n = 2 and g = "\<lambda>m w d j. d * of_nat j"]) (simp_all add: averages_def)

subsection \<open>The warm-up of the critic\<close>

lemma optimize_steps:
  assumes "optimize ops c mini s = Inr s'"
  shows "vl_steps s' = vl_steps s + 1 \<and> 2 \<le> length (vl_groups s)
    \<and> vl_warmup s' = (if vl_warmup s > 0 \<and> int (vl_steps s + 1) \<ge> vl_warmup s then - 1 else vl_warmup s)"
proof -
  have "vl_steps (fold (accumulate ops n) micros s) = vl_steps s" "vl_warmup (fold (accumulate ops n) micros s) = vl_warmup s"
    "vl_groups (fold (accumulate ops n) micros s) = vl_groups s" for n micros
    by (induction micros arbitrary: s) (simp_all add: accumulate_def)
  then show ?thesis using assms by (auto simp: optimize_def optimizer_step_def Let_def result_simps)
qed

text \<open>The actor is left out in exactly the first steps, as many as are configured; a model without a value head, which has
  one group of parameters, cannot make a step.\<close>

lemma warmup_lasts:
  assumes "foldM (\<lambda>s mini. optimize ops c mini s) s minis = Inr s'" "vl_steps s = 0" "vl_warmup s = w" "0 \<le> w"
  shows "vl_steps s' = length minis \<and> (int (vl_steps s') < vl_warmup s' \<longleftrightarrow> int (length minis) < w)"
proof -
  have "vl_steps s' = length minis \<and> vl_warmup s' = (if 0 < w \<and> w \<le> int (length minis) then - 1 else w)"
    using assms(1)
  proof (induction minis arbitrary: s' rule: rev_induct)
    case Nil
    then show ?case using assms(2,3) by simp
  next
    case (snoc mini minis)
    then obtain t where t: "foldM (\<lambda>s mini. optimize ops c mini s) s minis = Inr t" "optimize ops c mini t = Inr s'"
      by (auto simp: foldM_append result_simps)
    show ?case using snoc.IH [OF t(1)] optimize_steps [OF t(2)] assms(4) by auto
  qed
  then show ?thesis using assms(4) by auto
qed

lemma no_critic_no_step:
  assumes "length (vl_groups s) < 2" "mini \<noteq> []" "pc_micro_batch_size c dvd length mini"
  shows "optimize ops c mini s = Inl IndexError"
proof -
  have "vl_groups (fold (accumulate ops n) micros s) = vl_groups s" for n micros
    by (induction micros arbitrary: s) (simp_all add: accumulate_def)
  moreover have "pc_micro_batch_size c \<noteq> 0" using assms(2,3) by (cases "pc_micro_batch_size c = 0") auto
  ultimately show ?thesis using assms(1,3) by (simp add: optimize_def optimizer_step_def Let_def guard_def mod_eq_0_iff_dvd)
qed


end
