(* ===== verification/Rsl_Policy.thy ===== *)
theory Rsl_Policy
  imports Prelude Complex_Main
begin

text \<open>
  \<open>RSLRLPolicy\<close> (\<open>rlightning/policy/rsl_rl_policy/rsl_rl_policy.py\<close>), around the algorithm of the rsl_rl package, which is
  a parameter; and the preprocessors of \<open>rlightning/buffer/utils/preprocessors.py\<close>.
\<close>

subsection \<open>The policy\<close>

definition algorithm_keys :: "string list" where
  "algorithm_keys = [''DDPG'', ''D4PG'', ''DPPO'', ''DSAC'', ''PPO'', ''SAC'', ''TD3'', ''PPOVtrace'']"

text \<open>What the algorithm is used for; \<open>al_attrs\<close> are its attributes, with whether each is a module.\<close>

record ('m, 'd, 'l, 'o, 'p) rsl_algo =
  al_attrs :: "(string \<times> bool) list"
  al_initialized :: "'m \<Rightarrow> bool"
  al_update :: "'m \<Rightarrow> 'd \<Rightarrow> 'm \<times> (string, 'l) dict"
  al_draw :: "'m \<Rightarrow> 'o \<Rightarrow> 'p"
  al_draw_random :: "'m \<Rightarrow> 'o \<Rightarrow> 'p"

record ('m, 'd, 'w) rsl_policy =
  rp_algo :: 'm
  rp_dataset_buffer :: "'d list"
  rp_modules :: "(string, 'w) dict"
  rp_model_list :: "(string \<times> 'w) list"

definition check_algorithm :: "string \<Rightarrow> unit result" where
  "check_algorithm a = guard AssertionError (a \<in> set algorithm_keys)"

text \<open>\<open>construct_network\<close>: the modules of the algorithm are registered under the prefix \<open>rsl_rl/\<close>, once.\<close>

definition register_modules :: "(string \<times> 'w option) list \<Rightarrow> ('m, 'd, 'w) rsl_policy \<Rightarrow> ('m, 'd, 'w) rsl_policy" where
  "register_modules attrs s =
     fold (\<lambda>(k, v) s.
       let name = ''rsl_rl/'' @ k
       in case (map_of (rp_modules s) name, v) of
            (None, Some m) \<Rightarrow> s\<lparr>rp_model_list := rp_model_list s @ [(''algo.'' @ k, m)],
                                rp_modules := AList.update name m (rp_modules s)\<rparr>
          | _ \<Rightarrow> s) attrs s"

text \<open>\<open>setup_optimizer\<close> calls \<open>Warning.warn\<close>, which does not exist, when it is given a configuration.\<close>

definition setup_rsl_optimizer :: "bool \<Rightarrow> unit result" where
  "setup_rsl_optimizer configured = guard AttributeError (\<not> configured)"

text \<open>\<open>load_state_dict\<close>: unknown modules are skipped and missing ones stay; both are only logged.\<close>

definition load_modules :: "('w \<Rightarrow> 'x \<Rightarrow> 'w result) \<Rightarrow> (string, 'x) dict \<Rightarrow> (string, 'w) dict \<Rightarrow> ((string, 'w) dict \<times> string list) result" where
  "load_modules load sd modules =
     bind_result (foldM (\<lambda>(mods, updated) (name, params).
        case map_of mods name of
          None \<Rightarrow> Inr (mods, updated)
        | Some m \<Rightarrow> map_sum id (\<lambda>m'. (AList.update name m' mods, updated @ [name])) (load m params)) (modules, []) sd)
     (\<lambda>(mods, updated). Inr (mods, filter (\<lambda>n. n \<notin> set updated) (dict_keys modules)))"

text \<open>\<open>update_dataset\<close> and \<open>train\<close>: datasets wait in a queue, and a training takes the oldest.\<close>

definition rsl_update_dataset :: "'d \<Rightarrow> ('m, 'd, 'w) rsl_policy \<Rightarrow> ('m, 'd, 'w) rsl_policy" where
  "rsl_update_dataset d s = s\<lparr>rp_dataset_buffer := rp_dataset_buffer s @ [d]\<rparr>"

definition rsl_train ::
    "('m, 'd, 'l, 'o, 'p) rsl_algo \<Rightarrow> ('m, 'd, 'w) rsl_policy \<Rightarrow> ((string, 'l) dict \<times> ('m, 'd, 'w) rsl_policy) result" where
  "rsl_train al s =
     (case rp_dataset_buffer s of
        [] \<Rightarrow> Inl RuntimeError
      | d # ds \<Rightarrow> let (m, loss) = al_update al (rp_algo s) d
                 in Inr (map (\<lambda>(k, v). (''training/'' @ k, v)) loss, s\<lparr>rp_algo := m, rp_dataset_buffer := ds\<rparr>))"

definition rsl_rollout_step :: "('m, 'd, 'l, 'o, 'p) rsl_algo \<Rightarrow> ('m, 'd, 'w) rsl_policy \<Rightarrow> 'o \<Rightarrow> 'p" where
  "rsl_rollout_step al s obs =
     (if al_initialized al (rp_algo s) then al_draw al (rp_algo s) obs else al_draw_random al (rp_algo s) obs)"

text \<open>Trainings take the datasets in the order in which they were delivered.\<close>

lemma trainings_in_order:
  "foldM (\<lambda>(ls, s) _. bind_result (rsl_train al s) (\<lambda>(l, s). Inr (ls @ [l], s))) ([], s) (replicate n ()) = Inr (ls, s')
   \<Longrightarrow> rp_dataset_buffer s' = drop n (rp_dataset_buffer s) \<and> n \<le> length (rp_dataset_buffer s)
     \<and> rp_algo s' = fold (\<lambda>d m. fst (al_update al m d)) (take n (rp_dataset_buffer s)) (rp_algo s)"
proof (induction n arbitrary: ls s')
  case (Suc n)
  have "replicate (Suc n) () = replicate n () @ [()]" by (simp flip: replicate_append_same)
  then obtain ks t l where t: "foldM (\<lambda>(ls, s) _. bind_result (rsl_train al s) (\<lambda>(l, s). Inr (ls @ [l], s))) ([], s) (replicate n ()) = Inr (ks, t)"
      "rsl_train al t = Inr (l, s')"
    using Suc.prems by (auto simp: foldM_append result_simps map_sum_Inr_eq simp del: replicate_Suc)
  obtain d ds where d: "rp_dataset_buffer t = d # ds" "s' = t\<lparr>rp_algo := fst (al_update al (rp_algo t) d), rp_dataset_buffer := ds\<rparr>"
    using t(2) by (auto simp: rsl_train_def Let_def case_prod_beta split: list.splits)
  have IH: "d # ds = drop n (rp_dataset_buffer s)" "rp_algo t = fold (\<lambda>d m. fst (al_update al m d)) (take n (rp_dataset_buffer s)) (rp_algo s)"
    using Suc.IH [OF t(1)] d(1) by simp_all
  have n: "n < length (rp_dataset_buffer s)" using IH(1) by (cases "n < length (rp_dataset_buffer s)") auto
  then have "take (Suc n) (rp_dataset_buffer s) = take n (rp_dataset_buffer s) @ [d]" "ds = drop (Suc n) (rp_dataset_buffer s)"
    using IH(1) by (metis Cons_nth_drop_Suc list.inject take_Suc_conv_app_nth)+
  then show ?case using n by (simp add: d(2) IH(2))
qed simp

subsection \<open>Preprocessors\<close>

datatype space = Box "nat list" | Discrete nat | OtherSpace

datatype preprocessor = NonPre | BoxFlatten nat | OneHot nat

text \<open>\<open>functools.reduce\<close> raises on an empty shape.\<close>

definition make_preprocessor :: "space \<Rightarrow> preprocessor result" where
  "make_preprocessor sp =
     (case sp of
        Box shape \<Rightarrow> if shape = [] then Inl TypeError else Inr (BoxFlatten (fold (*) (tl shape) (hd shape)))
      | Discrete n \<Rightarrow> Inr (OneHot n)
      | OtherSpace \<Rightarrow> Inr NonPre)"

text \<open>An array by its shape and its numbers in order.\<close>

record 'v ndarray =
  nd_shape :: "nat list"
  nd_data :: "'v list"

definition one_hot :: "nat \<Rightarrow> 'v::linordered_field \<Rightarrow> nat \<Rightarrow> 'v list" where
  "one_hot n one i = map (\<lambda>j. if j = i then one else 0) [0..<n]"

definition pre_transform :: "preprocessor \<Rightarrow> 'v::linordered_field ndarray \<Rightarrow> 'v ndarray" where
  "pre_transform p a =
     (case p of BoxFlatten _ \<Rightarrow> \<lparr>nd_shape = [length (nd_data a)], nd_data = nd_data a\<rparr> | _ \<Rightarrow> a)"

text \<open>\<open>batch_transform\<close> of the box preprocessor on NumPy arrays keeps the first dimension.\<close>

definition box_batch_transform :: "'v::linordered_field ndarray \<Rightarrow> 'v ndarray result" where
  "box_batch_transform a =
     (case nd_shape a of
        [] \<Rightarrow> Inl IndexError
      | batch_dim # rest \<Rightarrow> Inr \<lparr>nd_shape = [batch_dim, fold (*) rest 1], nd_data = nd_data a\<rparr>)"

text \<open>The one-hot encoding of a batch of indices; an index outside is an error of the library.\<close>

definition one_hot_batch :: "nat \<Rightarrow> nat list \<Rightarrow> 'v::linordered_field list list result" where
  "one_hot_batch n indices = bind_result (guard RuntimeError (list_all (\<lambda>i. i < n) indices)) (\<lambda>_. Inr (map (one_hot n 1) indices))"

text \<open>The place of the one is the index.\<close>

lemma one_hot_place:
  assumes "one_hot_batch n indices = Inr (rows :: 'v::linordered_field list list)" "r < length indices"
  shows "length (rows ! r) = n \<and> (\<forall>j < n. rows ! r ! j = of_bool (j = indices ! r)) \<and> indices ! r < n"
  using assms by (auto simp: one_hot_batch_def one_hot_def result_simps list_all_length)

end
