(* ===== verification/Runtime_Utils.thy ===== *)
theory Runtime_Utils
  imports Prelude Complex_Main
begin

text \<open>
  \<open>rlightning/utils/utils.py\<close> (precisions, the flags in the environment, moving data between devices and NumPy) and the
  timing statistics of \<open>utils/profiler/profiler.py\<close>. The contents of tensors are raw numbers that a view reinterprets,
  and TensorDict leaves are left out.
\<close>

subsection \<open>Precisions\<close>

datatype dtype = BFloat16 | Float16 | Float32 | UInt16 | OtherType string

datatype precision = PrecInt int | PrecStr string | PrecNone

definition torch_dtype_from_precision :: "precision \<Rightarrow> dtype option result" where
  "torch_dtype_from_precision p =
     (if p \<in> {PrecStr ''bf16'', PrecStr ''bf16-mixed''} then Inr (Some BFloat16)
      else if p \<in> {PrecInt 16, PrecStr ''16'', PrecStr ''fp16'', PrecStr ''16-mixed''} then Inr (Some Float16)
      else if p \<in> {PrecInt 32, PrecStr ''32'', PrecStr ''32-true''} then Inr (Some Float32)
      else if p = PrecNone then Inr None
      else Inl ValueError)"

subsection \<open>Flags\<close>

datatype internal_flag = FDebug | FVerbose | FRemoteTrain | FRemoteEval | FRemoteStorage | FRemoteEnv

fun flag_name :: "internal_flag \<Rightarrow> string" where
  "flag_name FDebug = ''RLIGHTNING_DEBUG''"
| "flag_name FVerbose = ''RLIGHTNING_VERBOSE''"
| "flag_name FRemoteTrain = ''RLIGHTNING_REMOTE_TRAIN''"
| "flag_name FRemoteEval = ''RLIGHTNING_REMOTE_EVAL''"
| "flag_name FRemoteStorage = ''RLIGHTNING_REMOTE_STORAGE''"
| "flag_name FRemoteEnv = ''RLIGHTNING_REMOTE_ENV''"

definition read_flag :: "(string \<rightharpoonup> string) \<Rightarrow> internal_flag \<Rightarrow> bool" where
  "read_flag environ f = ((case environ (flag_name f) of None \<Rightarrow> ''0'' | Some v \<Rightarrow> v) = ''1'')"

definition get_env_vars :: "(string \<rightharpoonup> string) \<Rightarrow> (string, string) dict" where
  "get_env_vars environ =
     map (\<lambda>f. (flag_name f, if read_flag environ f then ''1'' else ''0''))
       [FDebug, FVerbose, FRemoteTrain, FRemoteEval, FRemoteStorage, FRemoteEnv]"

text \<open>A process started with these variables has the same flags.\<close>

lemma flags_survive: "read_flag (environ' ++ map_of (get_env_vars environ)) f = read_flag environ f"
  by (cases f) (simp_all add: read_flag_def get_env_vars_def map_add_def)

subsection \<open>Trees of data\<close>

datatype 'b leaf = TensorLeaf dtype string "'b list" | ArrayLeaf dtype "'b list" | OtherLeaf string

datatype 'b pytree = PLeaf "'b leaf" | PSeq bool "'b pytree list" | PDict "(string \<times> 'b pytree) list"

definition leaf_to_device :: "string \<Rightarrow> 'b leaf \<Rightarrow> 'b leaf" where
  "leaf_to_device dev l =
     (case l of
        TensorLeaf dt _ xs \<Rightarrow> TensorLeaf dt dev xs
      | ArrayLeaf dt xs \<Rightarrow> TensorLeaf (if dt = UInt16 then BFloat16 else dt) dev xs
      | OtherLeaf x \<Rightarrow> OtherLeaf x)"

definition leaf_to_numpy :: "'b leaf \<Rightarrow> 'b leaf result" where
  "leaf_to_numpy l =
     (case l of
        TensorLeaf dt _ xs \<Rightarrow> if dt = BFloat16 then Inr (ArrayLeaf UInt16 xs)
                              else if dt = UInt16 then Inl ValueError else Inr (ArrayLeaf dt xs)
      | _ \<Rightarrow> Inr l)"

primrec to_device :: "string \<Rightarrow> 'b pytree \<Rightarrow> 'b pytree" where
  "to_device dev (PLeaf l) = PLeaf (leaf_to_device dev l)"
| "to_device dev (PSeq tup ts) = PSeq tup (map (to_device dev) ts)"
| "to_device dev (PDict kvs) = PDict (map (map_prod id (to_device dev)) kvs)"

fun to_numpy :: "'b pytree \<Rightarrow> 'b pytree result"
  and to_numpy_seq :: "'b pytree list \<Rightarrow> 'b pytree list result"
  and to_numpy_dict :: "(string \<times> 'b pytree) list \<Rightarrow> (string \<times> 'b pytree) list result" where
  "to_numpy (PLeaf l) = map_sum id PLeaf (leaf_to_numpy l)"
| "to_numpy (PSeq tup ts) = map_sum id (PSeq tup) (to_numpy_seq ts)"
| "to_numpy (PDict kvs) = map_sum id PDict (to_numpy_dict kvs)"
| "to_numpy_seq [] = Inr []"
| "to_numpy_seq (t # ts) = bind_result (to_numpy t) (\<lambda>t'. map_sum id ((#) t') (to_numpy_seq ts))"
| "to_numpy_dict [] = Inr []"
| "to_numpy_dict ((k, t) # kvs) = bind_result (to_numpy t) (\<lambda>t'. map_sum id ((#) (k, t')) (to_numpy_dict kvs))"

text \<open>What is sent as NumPy arrays comes back as it was, 16-bit floats included; 16-bit integer tensors cannot be sent.\<close>

lemma leaf_returns: "leaf_to_numpy l = Inr l' \<Longrightarrow> leaf_to_device dev l' = leaf_to_device dev l"
  by (cases l) (auto simp: leaf_to_numpy_def leaf_to_device_def split: if_splits)

lemma numpy_and_back:
  fixes t t' :: "'b pytree" and ts ts' :: "'b pytree list" and kvs kvs' :: "(string \<times> 'b pytree) list"
  shows "to_numpy t = Inr t' \<Longrightarrow> to_device dev t' = to_device dev t"
    and "to_numpy_seq ts = Inr ts' \<Longrightarrow> map (to_device dev) ts' = map (to_device dev) ts"
    and "to_numpy_dict kvs = Inr kvs' \<Longrightarrow> map (map_prod id (to_device dev)) kvs' = map (map_prod id (to_device dev)) kvs"
  by (induction t and ts and kvs arbitrary: t' and ts' and kvs' rule: to_numpy_to_numpy_seq_to_numpy_dict.induct)
    (auto simp: map_sum_Inr_eq result_simps leaf_returns)

text \<open>An array of 16-bit integers that was no tensor does not come back: it is taken for 16-bit floats.\<close>

lemma integers_become_floats: "leaf_to_device dev (ArrayLeaf UInt16 xs) = TensorLeaf BFloat16 dev xs"
  by (simp add: leaf_to_device_def)

subsection \<open>Timing statistics\<close>

record 'v timing_stat =
  ts_count :: nat
  ts_total :: 'v
  ts_avg :: 'v

definition new_timing_stat :: "'v::linordered_field timing_stat" where
  "new_timing_stat = \<lparr>ts_count = 0, ts_total = 0, ts_avg = 0\<rparr>"

definition record_timing :: "string \<Rightarrow> 'v::linordered_field \<Rightarrow> (string, 'v timing_stat) dict \<Rightarrow> (string, 'v timing_stat) dict" where
  "record_timing name duration timing_raw =
     (let entry = dict_get new_timing_stat timing_raw name;
          entry = entry\<lparr>ts_count := ts_count entry + 1, ts_total := ts_total entry + duration\<rparr>
      in AList.update name (entry\<lparr>ts_avg := ts_total entry / of_nat (ts_count entry)\<rparr>) timing_raw)"

text \<open>\<open>timer\<close> and \<open>timer_wrap\<close>: a block that raises is not recorded.\<close>

definition timer_block ::
    "bool \<Rightarrow> string \<Rightarrow> 'v::linordered_field \<Rightarrow> 'x result \<Rightarrow> (string, 'v timing_stat) dict \<Rightarrow> ('x \<times> (string, 'v timing_stat) dict) result" where
  "timer_block enable name duration body timing_raw =
     map_sum id (\<lambda>x. (x, if enable then record_timing name duration timing_raw else timing_raw)) body"

text \<open>The statistics of a name are those of its durations.\<close>

lemma timings_add_up:
  fixes runs :: "(string \<times> 'v::linordered_field) list"
  defines "ds \<equiv> \<lambda>name. map snd (filter (\<lambda>nd. fst nd = name) runs)"
  shows "dict_get new_timing_stat (fold (\<lambda>(n, d). record_timing n d) runs []) name
       = \<lparr>ts_count = length (ds name), ts_total = sum_list (ds name), ts_avg = sum_list (ds name) / of_nat (length (ds name))\<rparr>"
  unfolding ds_def
proof (induction runs rule: rev_induct)
  case Nil
  show ?case by (simp add: new_timing_stat_def)
next
  case (snoc nd runs)
  obtain n d where nd: "nd = (n, d)" by (cases nd)
  show ?case using snoc by (cases "n = name") (simp_all add: nd record_timing_def Let_def)
qed

end
