(* ===== verification/Base_Policy.thy ===== *)
theory Base_Policy
  imports Weights_Correct Py_Strings
begin

text \<open>
  The parts of \<open>rlightning/policy/base_policy.py\<close> that set up and store a policy: nested attributes, the choice of the
  modules and of the parallel mode, checkpoints, weight fingerprints and the guards of the rollout modes. Tensors are
  lists of numbers by name; the norm, the file system and device transfers are parameters or left out.
\<close>

subsection \<open>Nested attributes\<close>

text \<open>An object by its attributes.\<close>

datatype 'v obj = Obj "(string \<times> 'v obj) list" | Val 'v

fun set_nested :: "string list \<Rightarrow> 'v obj \<Rightarrow> 'v obj \<Rightarrow> 'v obj result" where
  "set_nested [] value ob = Inl IndexError"
| "set_nested [p] value ob = (case ob of Obj attrs \<Rightarrow> Inr (Obj (AList.update p value attrs)) | Val _ \<Rightarrow> Inl AttributeError)"
| "set_nested (p # q # ps) value ob =
     (case ob of
        Val _ \<Rightarrow> Inl AttributeError
      | Obj attrs \<Rightarrow>
          (case map_of attrs p of
             None \<Rightarrow> Inl AttributeError
           | Some sub \<Rightarrow> map_sum id (\<lambda>sub'. Obj (AList.update p sub' attrs)) (set_nested (q # ps) value sub)))"

definition set_nested_attr :: "'v obj \<Rightarrow> string \<Rightarrow> 'v obj \<Rightarrow> 'v obj result" where
  "set_nested_attr ob path value = set_nested (py_split (CHR ''.'') path) value ob"

fun get_nested :: "string list \<Rightarrow> 'v obj \<Rightarrow> 'v obj option" where
  "get_nested [] ob = Some ob"
| "get_nested (p # ps) (Obj attrs) = Option.bind (map_of attrs p) (get_nested ps)"
| "get_nested (p # ps) (Val _) = None"

text \<open>What was set is read back.\<close>

lemma set_nested_reads_back: "set_nested ps v ob = Inr ob' \<Longrightarrow> get_nested ps ob' = Some v"
  by (induction ps v ob arbitrary: ob' rule: set_nested.induct)
    (auto simp: map_sum_Inr_eq split: obj.splits option.splits)

subsection \<open>Modules and modes\<close>

text \<open>A module by its parameters and whether each is trained; \<open>None\<close> stands for an object that is no module.\<close>

definition find_model :: "(string \<times> (string \<times> bool) list option) list \<Rightarrow> (string \<times> (string \<times> bool) list) list
    \<Rightarrow> (string \<times> (string \<times> bool) list option) list result" where
  "find_model model_list modules =
     (if model_list \<noteq> []
      then map_sum id (\<lambda>_. model_list) (guard ValueError (list_all (\<lambda>(n, m). m \<noteq> None) model_list))
      else Inr (map (\<lambda>(n, ps). (n, Some ps)) (filter (\<lambda>(n, ps). list_ex snd ps) modules)))"

definition infer_train_dp_world_size :: "nat option \<Rightarrow> nat option \<Rightarrow> nat" where
  "infer_train_dp_world_size group_size torch_size =
     (case group_size of Some n \<Rightarrow> n | None \<Rightarrow> (case torch_size of Some n \<Rightarrow> n | None \<Rightarrow> 1))"

text \<open>The parallel mode of \<open>init_train\<close>; whether the modules are wrapped.\<close>

definition init_parallel :: "string option \<Rightarrow> nat \<Rightarrow> bool result" where
  "init_parallel configured world_size =
     (let mode = (if configured = None \<and> 1 < world_size then Some ''ddp'' else configured)
      in case mode of None \<Rightarrow> Inr False | Some m \<Rightarrow> if m = ''ddp'' then Inr True else Inl ValueError)"

definition sanity_check_role :: "string \<Rightarrow> unit result" where
  "sanity_check_role role = guard ValueError (role = ''train'' \<or> role = ''eval'')"

text \<open>\<open>check_idle\<close>: whether the caller has to wait for the idle event.\<close>

definition check_idle :: "string \<Rightarrow> string \<Rightarrow> bool result" where
  "check_idle rollout_mode role = bind_result (guard AssertionError (rollout_mode = ''sync'')) (\<lambda>_. Inr (role = ''eval''))"

definition get_num_requests :: "nat option \<Rightarrow> nat" where
  "get_num_requests num = (case num of None \<Rightarrow> 0 | Some n \<Rightarrow> n)"

subsection \<open>Fingerprints\<close>

text \<open>\<open>get_param_fingerprint\<close> of one module; only the module \<open>model\<close> has its freed parameters looked up in the copies.\<close>

definition fingerprint_module :: "('a list \<Rightarrow> 'r::linordered_field) \<Rightarrow> string \<Rightarrow> 'a offload \<Rightarrow> (string, 'r) dict" where
  "fingerprint_module size_of module_name o1 =
     map (\<lambda>(n, xs). (module_name @ ''.'' @ n,
       if xs = [] then (case map_of (of_backup o1) n of
                          Some ys \<Rightarrow> if module_name = ''model'' then size_of ys else 0
                        | None \<Rightarrow> 0)
       else size_of xs)) (of_params o1)"

subsection \<open>Checkpoints\<close>

text \<open>\<open>save_checkpoint\<close>: freed parameters are brought back for the time of saving, also when saving raises. The result of
  saving and the parameters afterwards.\<close>

definition save_checkpoint :: "((string, 'a list) dict \<Rightarrow> 'f result) \<Rightarrow> 'a offload \<Rightarrow> 'f result \<times> 'a offload" where
  "save_checkpoint save o1 =
     (let loaded = (if of_offloaded o1 then reload_params o1 else o1);
          res = save (of_params loaded)
      in (res, if of_offloaded o1 then offload_params loaded else loaded))"

subsection \<open>What survives offloading\<close>

text \<open>Saving while offloaded stores the parameters as they were before the offload, and leaves the policy offloaded.\<close>

lemma save_sees_the_parameters:
  assumes "dict_ok (of_params o1)" "\<forall>(n, xs) \<in> set (of_params o1). xs \<noteq> []"
  shows "fst (save_checkpoint save (offload_params o1)) = save (of_params o1)"
    "of_params (snd (save_checkpoint save (offload_params o1))) = of_params (offload_params o1)"
proof -
  have off: "of_offloaded (offload_params o1)" by (simp add: offload_params_def split: prod.splits)
  note back1 = reload_after_offload(1) [OF assms(1,2)]
  show "fst (save_checkpoint save (offload_params o1)) = save (of_params o1)"
    by (simp add: save_checkpoint_def Let_def off back1)
  show "of_params (snd (save_checkpoint save (offload_params o1))) = of_params (offload_params o1)"
    using assms(1) by (simp add: save_checkpoint_def Let_def off back1 offload_params_eq(1))
qed

text \<open>The fingerprint of the module called \<open>model\<close> does not change when its parameters are freed; another module's
  fingerprint is zero then.\<close>

lemma fingerprint_survives_offload:
  assumes "dict_ok (of_params o1)" "\<forall>(n, xs) \<in> set (of_params o1). xs \<noteq> []"
  shows "fingerprint_module size_of ''model'' (offload_params o1) = fingerprint_module size_of ''model'' o1"
proof -
  have get: "map_of (of_backup (offload_params o1)) n = Some xs" if "(n, xs) \<in> set (of_params o1)" for n xs
  proof -
    have "map_of (of_params o1) n = Some xs" using assms(1) that by (simp add: map_of_is_SomeI)
    then show ?thesis using that assms(2) by (cases xs) (auto simp: offload_params_eq(2) [OF assms(1)])
  qed
  show ?thesis
    unfolding fingerprint_module_def offload_params_eq(1) [OF assms(1)] map_map
    by (intro map_cong refl) (use assms(2) get in \<open>auto split: prod.splits\<close>)
qed

end
