(* ===== verification/Libero_Utils.thy ===== *)
theory Libero_Utils
  imports Prelude Complex_Main
begin

text \<open>
  \<open>rlightning/env/utils/libero_utils.py\<close>: tiling images, wrapping text, columns of dictionaries, axis and angle of a
  quaternion, and the benchmark of all suites. Pixels and the measure of a font are parameters; drawing and video files
  are left out.
\<close>

subsection \<open>Tensors\<close>

datatype elem = Uint16 | Uint32 | Int32 | Int64 | Double64 | Single32 | OtherElem string

text \<open>The type of the elements that \<open>to_tensor\<close> gives an array of NumPy.\<close>

definition tensor_elem :: "elem \<Rightarrow> elem" where
  "tensor_elem t =
     (let t = (if t = Uint16 then Int32 else if t = Uint32 then Int64 else t)
      in if t = Double64 then Single32 else t)"

subsection \<open>Tiles\<close>

record 'p image =
  im_w :: nat
  im_rows :: "'p list list"

abbreviation im_h :: "'p image \<Rightarrow> nat" where
  "im_h im \<equiv> length (im_rows im)"

definition image_ok :: "'p image \<Rightarrow> bool" where
  "image_ok im \<longleftrightarrow> list_all (\<lambda>r. length r = im_w im) (im_rows im)"

text \<open>The images in columns from left to right: the columns closed, the current one, its height and its width.\<close>

definition column_step ::
    "nat \<Rightarrow> 'p image list list \<times> 'p image list \<times> nat \<times> nat \<Rightarrow> 'p image \<Rightarrow> 'p image list list \<times> 'p image list \<times> nat \<times> nat" where
  "column_step max_h st im =
     (case st of (columns, column, cur_h, cur_w) \<Rightarrow>
        if cur_h + im_h im \<le> max_h \<and> cur_w = im_w im then (columns, column @ [im], cur_h + im_h im, cur_w)
        else (columns @ [column], [im], im_h im, im_w im))"

definition tile_columns :: "nat \<Rightarrow> 'p image list \<Rightarrow> 'p image list list" where
  "tile_columns max_h images =
     (case foldl (column_step max_h) ([], [], 0, im_w (hd images)) images of
        (columns, column, _, _) \<Rightarrow> columns @ [column])"

text \<open>\<open>output_image[:cur_h, cur_x:next_x] = column_image\<close> on zeros raises when the column is higher than the output; a
  column of the output is its column image with zeros below.\<close>

definition column_block :: "'p \<Rightarrow> nat \<Rightarrow> 'p image list \<Rightarrow> 'p list list result" where
  "column_block zero max_h column =
     (case column of
        [] \<Rightarrow> Inl IndexError
      | im # _ \<Rightarrow>
          let rows = concat (map im_rows column)
          in bind_result (guard ValueError (length rows \<le> max_h)) (\<lambda>_.
             Inr (rows @ replicate (max_h - length rows) (replicate (im_w im) zero))))"

definition beside :: "nat \<Rightarrow> 'p list list list \<Rightarrow> 'p list list" where
  "beside max_h blocks = map (\<lambda>y. concat (map (\<lambda>b. b ! y) blocks)) [0..<max_h]"

definition tile_images :: "'p \<Rightarrow> 'p image list \<Rightarrow> nat \<Rightarrow> 'p image result" where
  "tile_images zero images nrows =
     bind_result (guard IndexError (images \<noteq> [])) (\<lambda>_.
     let images = (if nrows = 1 then sort_key (\<lambda>im. - int (im_h im)) images else images);
         max_h = im_h (hd images) * nrows;
         columns = tile_columns max_h images
     in bind_result (mapM (column_block zero max_h) columns) (\<lambda>blocks.
        Inr \<lparr>im_w = sum_list (map (\<lambda>c. im_w (hd c)) columns), im_rows = beside max_h blocks\<rparr>))"

subsection \<open>Text\<close>

definition join_words :: "string list \<Rightarrow> string" where
  "join_words ws = concat (case ws of [] \<Rightarrow> [] | w # rest \<Rightarrow> w # map (\<lambda>v. '' '' @ v) rest)"

definition wrap_word :: "(string \<Rightarrow> nat) \<Rightarrow> nat \<Rightarrow> string list list \<times> string list \<Rightarrow> string \<Rightarrow> string list list \<times> string list" where
  "wrap_word width max_width st word =
     (case st of (new_lines, current_line) \<Rightarrow>
        if width (join_words (current_line @ [word])) \<le> max_width then (new_lines, current_line @ [word])
        else (new_lines @ [current_line], [word]))"

definition wrap_line :: "(string \<Rightarrow> nat) \<Rightarrow> nat \<Rightarrow> string list \<Rightarrow> string list list" where
  "wrap_line width max_width words =
     (case foldl (wrap_word width max_width) ([], []) words of
        (new_lines, current_line) \<Rightarrow> new_lines @ (if current_line \<noteq> [] then [current_line] else []))"

text \<open>The lines to draw, from the words of each given line, and the vertical places, from the heights of the lines.\<close>

definition new_text_lines :: "(string \<Rightarrow> nat) \<Rightarrow> nat \<Rightarrow> string list list \<Rightarrow> string list" where
  "new_text_lines width max_width words_of_lines =
     map join_words (concat (map (wrap_line width max_width) words_of_lines))"

definition text_places :: "int list \<Rightarrow> int list" where
  "text_places heights = snd (foldl (\<lambda>(y, ys) h. (y + (h + 10), ys @ [y + (h + 10)])) (- 10, []) heights)"

subsection \<open>Observations\<close>

definition dicts_to_columns :: "(string, 'v) dict list \<Rightarrow> (string, 'v list) dict result" where
  "dicts_to_columns ds =
     (case ds of
        [] \<Rightarrow> Inr []
      | d # _ \<Rightarrow>
          foldM (\<lambda>out data.
            foldM (\<lambda>out (key, item).
              bind_result (guard AssertionError (key \<in> fst ` set out)) (\<lambda>_.
              Inr (dict_append key item out))) out data)
            (map (\<lambda>key. (key, [])) (dict_keys d)) ds)"

text \<open>\<open>img[::-1, ::-1]\<close>\<close>

definition get_libero_image :: "'p image \<Rightarrow> 'p image" where
  "get_libero_image img = img\<lparr>im_rows := rev (map rev (im_rows img))\<rparr>"

text \<open>\<open>math.isclose(den, 0.0)\<close> has no absolute tolerance, so it asks for equality. The result, and the argument, which is
  clipped in place.\<close>

definition quat2axisangle :: "real \<times> real \<times> real \<times> real \<Rightarrow> (real \<times> real \<times> real) \<times> (real \<times> real \<times> real \<times> real)" where
  "quat2axisangle q =
     (case q of (x, y, z, w) \<Rightarrow>
        let w = (if w > 1 then 1 else if w < - 1 then - 1 else w);
            den = sqrt (1 - w * w)
        in (if den = 0 then (0, 0, 0) else (x * 2 * arccos w / den, y * 2 * arccos w / den, z * 2 * arccos w / den),
            (x, y, z, w)))"

subsection \<open>Benchmarks\<close>

definition aggregate_tasks :: "(string, 't) dict list \<Rightarrow> (string, 't) dict" where
  "aggregate_tasks suites =
     fold (\<lambda>suite agg. fold (\<lambda>(name, task) agg. if name \<in> fst ` set agg then agg else AList.update name task agg) suite agg) suites []"

datatype ('t, 'b) benchmark = Original 'b | Aggregated "'t list"

definition get_benchmark_overridden ::
    "(string \<Rightarrow> string) \<Rightarrow> (string \<Rightarrow> 'b result) \<Rightarrow> (string, (string, 't) dict) dict \<Rightarrow> string list
     \<Rightarrow> string \<Rightarrow> (string, ('t, 'b) benchmark) dict \<Rightarrow> (('t, 'b) benchmark \<times> (string, ('t, 'b) benchmark) dict) result" where
  "get_benchmark_overridden lower get_benchmark task_maps libero_suites name mapping =
     (if lower name \<noteq> ''libero_130'' then map_sum id (\<lambda>b. (Original b, mapping)) (get_benchmark name)
      else case map_of mapping ''libero_130'' of
        Some cls \<Rightarrow> Inr (cls, mapping)
      | None \<Rightarrow>
          let cls = Aggregated (map snd (aggregate_tasks (map (dict_get [] task_maps) libero_suites)))
          in Inr (cls, AList.update ''libero_130'' cls mapping))"


text \<open>
  Every image is in its place of the tiled image; wrapping keeps the words; rotations by half a turn cancel; the rotation
  vector has the angle as its length; the benchmark of all suites has every task once.
\<close>

subsection \<open>Tiles\<close>

text \<open>A column that fits: images of one width, whose heights add up to at most \<open>max_h\<close>.\<close>

definition column_fits :: "nat \<Rightarrow> 'p image list \<Rightarrow> bool" where
  "column_fits max_h c \<longleftrightarrow> c \<noteq> [] \<and> (\<forall>im \<in> set c. im_w im = im_w (hd c)) \<and> sum_list (map im_h c) \<le> max_h"

lemma column_steps:
  assumes "\<forall>im \<in> set ims. im_h im \<le> max_h" "ims \<noteq> []"
    "foldl (column_step max_h) ([], [], 0, im_w (hd ims)) ims = (columns, column, cur_h, cur_w)"
  shows "concat columns @ column = ims \<and> (\<forall>c \<in> set columns. column_fits max_h c) \<and> column_fits max_h column
    \<and> cur_h = sum_list (map im_h column) \<and> cur_w = im_w (hd column)"
  using assms
proof (induction ims arbitrary: columns column cur_h cur_w rule: rev_induct)
  case (snoc im ims)
  show ?case
  proof (cases "ims = []")
    case True
    then show ?thesis using snoc.prems by (auto simp: column_step_def column_fits_def)
  next
    case False
    obtain cs c h w where st: "foldl (column_step max_h) ([], [], 0, im_w (hd ims)) ims = (cs, c, h, w)" by (rule prod_cases4)
    have IH: "concat cs @ c = ims" "\<forall>c \<in> set cs. column_fits max_h c" "column_fits max_h c" "h = sum_list (map im_h c)" "w = im_w (hd c)"
      using snoc.IH [OF _ False st] snoc.prems(1) by auto
    have "column_step max_h (cs, c, h, w) im = (columns, column, cur_h, cur_w)" using snoc.prems(3) False st by simp
    moreover have "c \<noteq> []" using IH(3) by (simp add: column_fits_def)
    moreover have "h + im_h im \<le> max_h \<and> w = im_w im \<Longrightarrow> column_fits max_h (c @ [im])"
      using IH(3-5) by (simp add: column_fits_def)
    moreover have "column_fits max_h [im]" using snoc.prems(1) by (simp add: column_fits_def)
    ultimately show ?thesis
      using IH by (cases "h + im_h im \<le> max_h \<and> w = im_w im") (auto simp: column_step_def)
  qed
qed simp

lemma tile_columns_fit:
  assumes "\<forall>im \<in> set ims. im_h im \<le> max_h" "ims \<noteq> []"
  shows "concat (tile_columns max_h ims) = ims" "\<forall>c \<in> set (tile_columns max_h ims). column_fits max_h c"
proof -
  obtain cs c h w where st: "foldl (column_step max_h) ([], [], 0, im_w (hd ims)) ims = (cs, c, h, w)" by (rule prod_cases4)
  note * = column_steps [OF assms st]
  show "concat (tile_columns max_h ims) = ims" using * by (simp add: tile_columns_def st)
  show "\<forall>c \<in> set (tile_columns max_h ims). column_fits max_h c" using * by (auto simp: tile_columns_def st)
qed

text \<open>A part of the tiled image: \<open>h\<close> rows from \<open>y\<close>, \<open>w\<close> places from \<open>x\<close>.\<close>

definition region :: "nat \<Rightarrow> nat \<Rightarrow> nat \<Rightarrow> nat \<Rightarrow> 'p list list \<Rightarrow> 'p list list" where
  "region y h x w rows = map (\<lambda>r. take w (drop x r)) (take h (drop y rows))"

lemma region_beside:
  assumes "\<forall>c \<in> set (cs @ c # cs'). length (f c) = max_h \<and> (\<forall>r \<in> set (f c). length r = wid c)" "y + h \<le> max_h"
  shows "region y h (sum_list (map wid cs)) (wid c) (beside max_h (map f (cs @ c # cs'))) = take h (drop y (f c))"
proof (rule nth_equalityI)
  have b: "length (f c) = max_h" using assms(1) by simp
  then show "length (region y h (sum_list (map wid cs)) (wid c) (beside max_h (map f (cs @ c # cs')))) = length (take h (drop y (f c)))"
    by (simp add: region_def beside_def)
  fix i assume "i < length (region y h (sum_list (map wid cs)) (wid c) (beside max_h (map f (cs @ c # cs'))))"
  then have i: "i < h" "y + i < max_h" using assms(2) by (simp_all add: region_def beside_def)
  have "\<forall>c \<in> set (cs @ c # cs'). length (f c ! (y + i)) = wid c" using assms(1) i(2) by simp
  then have l: "length (concat (map (\<lambda>c. f c ! (y + i)) cs)) = sum_list (map wid cs)" "length (f c ! (y + i)) = wid c"
    by (simp_all add: length_concat comp_def cong: map_cong)
  let ?rows = "beside max_h (map f (cs @ c # cs'))"
  have len: "length ?rows = max_h" by (simp add: beside_def)
  have "take h (drop y ?rows) ! i = ?rows ! (y + i)"
    by (rule trans [OF nth_take nth_drop]) (use i len in simp_all)
  then have "region y h (sum_list (map wid cs)) (wid c) ?rows ! i = take (wid c) (drop (sum_list (map wid cs)) (?rows ! (y + i)))"
    using i len by (simp add: region_def)
  also have "?rows ! (y + i) = concat (map (\<lambda>c. f c ! (y + i)) cs) @ f c ! (y + i) @ concat (map (\<lambda>c. f c ! (y + i)) cs')"
    using i(2) by (simp add: beside_def comp_def)
  also have "take (wid c) (drop (sum_list (map wid cs)) \<dots>) = f c ! (y + i)" using l by simp
  finally show "region y h (sum_list (map wid cs)) (wid c) ?rows ! i = take h (drop y (f c)) ! i" using i b by simp
qed

lemma column_block_ok:
  assumes "column_fits max_h c"
  shows "column_block zero max_h c = Inr (concat (map im_rows c) @ replicate (max_h - sum_list (map im_h c)) (replicate (im_w (hd c)) zero))"
  using assms by (cases c) (auto simp: column_block_def column_fits_def Let_def length_concat comp_def)

text \<open>When all images are of one height or are put in one row, tiling succeeds, the output is as high as \<open>nrows\<close> times
  the first image and as wide as its columns, the columns hold all images in order, and the region of every image in the
  output is that image.\<close>
theorem tiles_in_place:
  fixes images :: "'p image list" and nrows :: nat
  defines "ims \<equiv> (if nrows = 1 then sort_key (\<lambda>im. - int (im_h im)) images else images)"
  defines "max_h \<equiv> im_h (hd ims) * nrows"
  defines "columns \<equiv> tile_columns max_h ims"
  assumes "images \<noteq> []" "0 < nrows" "\<forall>im \<in> set images. image_ok im" "nrows = 1 \<or> (\<forall>im \<in> set images. im_h im = im_h (hd images))"
  shows "\<exists>out. tile_images zero images nrows = Inr out \<and> length (im_rows out) = max_h
    \<and> im_w out = sum_list (map (\<lambda>c. im_w (hd c)) columns) \<and> concat columns = ims
    \<and> (\<forall>cs c cs' is im is'. columns = cs @ c # cs' \<and> c = is @ im # is' \<longrightarrow>
         region (sum_list (map im_h is)) (im_h im) (sum_list (map (\<lambda>c. im_w (hd c)) cs)) (im_w im) (im_rows out) = im_rows im)"
proof -
  have ims: "ims \<noteq> []" "set ims = set images" using assms(4) by (auto simp: ims_def) (metis set_empty set_sort)
  have small: "\<forall>im \<in> set ims. im_h im \<le> max_h"
  proof (cases "nrows = 1")
    case True
    have "sorted (map (\<lambda>im. - int (im_h im)) ims)" using True by (simp add: ims_def)
    then have "\<forall>im \<in> set ims. - int (im_h (hd ims)) \<le> - int (im_h im)" by (cases ims) (auto simp: ims(1))
    then show ?thesis using True by (simp add: max_h_def)
  next
    case False
    have "im_h (hd ims) \<le> max_h" using assms(5) by (cases nrows) (simp_all add: max_h_def)
    moreover have "ims = images" using False by (simp add: ims_def)
    ultimately show ?thesis using False assms(7) by fastforce
  qed
  note cols = tile_columns_fit [OF small ims(1), folded columns_def]
  let ?block = "\<lambda>c. concat (map im_rows c) @ replicate (max_h - sum_list (map im_h c)) (replicate (im_w (hd c)) zero)"
  have blocks: "mapM (column_block zero max_h) columns = Inr (map ?block columns)"
    using cols(2) by (auto simp: mapM_eq_Inr list_all2_map2 column_block_ok intro!: list.rel_refl_strong)
  have height: "\<forall>c \<in> set columns. length (?block c) = max_h"
  proof
    fix c assume "c \<in> set columns"
    then have "sum_list (map im_h c) \<le> max_h" using cols(2) unfolding column_fits_def by blast
    then show "length (?block c) = max_h" by (simp add: length_concat comp_def)
  qed
  have width: "\<forall>c \<in> set columns. \<forall>r \<in> set (?block c). length r = im_w (hd c)"
  proof (intro ballI)
    fix c r assume c: "c \<in> set columns" "r \<in> set (?block c)"
    have "\<forall>im \<in> set c. image_ok im" using cols(1) ims(2) assms(6) c(1) by fastforce
    moreover have "\<forall>im \<in> set c. im_w im = im_w (hd c)" using cols(2) c(1) unfolding column_fits_def by blast
    moreover have "r = replicate (im_w (hd c)) zero \<or> (\<exists>im \<in> set c. r \<in> set (im_rows im))" using c(2) by auto
    ultimately show "length r = im_w (hd c)" by (auto simp: image_ok_def list_all_iff)
  qed
  let ?out = "\<lparr>im_w = sum_list (map (\<lambda>c. im_w (hd c)) columns), im_rows = beside max_h (map ?block columns)\<rparr>"
  have out: "tile_images zero images nrows = Inr ?out"
    unfolding tile_images_def Let_def ims_def [symmetric] max_h_def [symmetric] columns_def [symmetric]
    using assms(4) by (simp add: blocks)
  have "region (sum_list (map im_h is)) (im_h im) (sum_list (map (\<lambda>c. im_w (hd c)) cs)) (im_w im) (im_rows ?out) = im_rows im"
    if a: "columns = cs @ c # cs'" "c = is @ im # is'" for cs c cs' "is" im is'
  proof -
    have c: "column_fits max_h c" using cols(2) a(1) by simp
    have "im \<in> set c" by (simp add: a(2))
    then have w: "im_w im = im_w (hd c)" using c unfolding column_fits_def by blast
    have "sum_list (map im_h c) \<le> max_h" using c by (simp add: column_fits_def)
    then have h: "sum_list (map im_h is) + im_h im \<le> max_h" by (simp add: a(2))
    have "\<forall>c \<in> set (cs @ c # cs'). length (?block c) = max_h \<and> (\<forall>r \<in> set (?block c). length r = im_w (hd c))"
      using height width unfolding a(1) by blast
    note this [THEN region_beside, OF h, folded a(1)]
    moreover have "take (im_h im) (drop (sum_list (map im_h is)) (?block c)) = im_rows im"
      by (simp add: a(2) length_concat comp_def)
    ultimately show ?thesis unfolding w by simp
  qed
  note place = this
  have "length (im_rows ?out) = max_h" "im_w ?out = sum_list (map (\<lambda>c. im_w (hd c)) columns)" by (simp_all add: beside_def)
  with out cols(1) show ?thesis by (intro exI [of _ ?out] conjI allI impI) (assumption | elim conjE, rule place)+
qed

lemma tiles_in_place_witness:
  "let a = \<lparr>im_w = 2, im_rows = [[1, 2]]\<rparr>; b = \<lparr>im_w = 2, im_rows = [[3, 4], [5, 6::nat]]\<rparr>
   in \<exists>out. tile_images 0 [a, b] 1 = Inr out \<and> concat (tile_columns 2 [b, a]) = [b, a]"
  using tiles_in_place [of "[\<lparr>im_w = 2, im_rows = [[1, 2]]\<rparr>, \<lparr>im_w = 2, im_rows = [[3, 4], [5, 6::nat]]\<rparr>]" 1 0]
  by (auto simp: image_ok_def numeral_2_eq_2)


subsection \<open>Text\<close>

text \<open>Wrapping keeps the words and their order; a line that is too wide is a single word.\<close>

lemma wrap_keeps_words:
  "concat (wrap_line width max_width ws) = ws
   \<and> (\<forall>l \<in> set (wrap_line width max_width ws). width (join_words l) \<le> max_width \<or> length l \<le> 1)"
proof -
  have loop: "concat (fst st) @ snd st = ws
      \<and> (\<forall>l \<in> set (fst st @ [snd st]). width (join_words l) \<le> max_width \<or> length l \<le> 1)"
    if "st = foldl (wrap_word width max_width) ([], []) ws" for st
    using that
  proof (induction ws arbitrary: st rule: rev_induct)
    case (snoc w ws)
    obtain ls l where st: "foldl (wrap_word width max_width) ([], []) ws = (ls, l)" by (rule prod.exhaust)
    have now: "st = wrap_word width max_width (ls, l) w" using snoc.prems st by simp
    have IH: "concat ls @ l = ws" "\<forall>l \<in> set (ls @ [l]). width (join_words l) \<le> max_width \<or> length l \<le> 1"
      using snoc.IH [OF st [symmetric]] by simp_all
    show ?case
      by (cases "width (join_words (l @ [w])) \<le> max_width") (use IH in \<open>auto simp: now wrap_word_def\<close>)
  qed simp
  obtain ls l where st: "foldl (wrap_word width max_width) ([], []) ws = (ls, l)" by (rule prod.exhaust)
  show ?thesis using loop [OF st [symmetric]] by (auto simp: wrap_line_def st)
qed

text \<open>A first word that is too wide is preceded by an empty line.\<close>

lemma wide_first_word:
  "max_width < width w \<Longrightarrow> wrap_line width max_width [w] = [[], [w]]"
  by (simp add: wrap_line_def wrap_word_def join_words_def)

subsection \<open>Observations\<close>

lemma half_turns_cancel: "get_libero_image (get_libero_image img) = img"
  by (simp add: get_libero_image_def rev_map comp_def)

text \<open>The rotation vector of a unit quaternion has the angle as its length.\<close>

lemma rotation_vector_length:
  assumes "x * x + y * y + z * z + w * w = 1" "fst (quat2axisangle (x, y, z, w)) = (a, b, c)"
  shows "sqrt (a * a + b * b + c * c) = (if \<bar>w\<bar> = 1 then 0 else 2 * arccos w)"
proof -
  have sq: "1 - w * w = x * x + y * y + z * z" using assms(1) by simp
  then have "0 \<le> 1 - w * w" by simp
  then have w: "\<bar>w\<bar> \<le> 1" by (simp add: abs_square_le_1 flip: power2_eq_square)
  let ?den = "sqrt (1 - w * w)"
  have clip: "(if w > 1 then 1 else if w < - 1 then - 1 else w) = w" using w by (auto simp: abs_le_iff)
  show ?thesis
  proof (cases "\<bar>w\<bar> = 1")
    case True
    then have "w * w = 1" by (auto simp: abs_if split: if_splits)
    then show ?thesis using assms(2) True by (auto simp: quat2axisangle_def Let_def clip simp del: if_split_eq1)
  next
    case False
    then have "w * w < 1" using w by (simp add: abs_square_less_1 flip: power2_eq_square)
    then have den: "?den > 0" by simp
    have abc: "a = x * (2 * arccos w / ?den)" "b = y * (2 * arccos w / ?den)" "c = z * (2 * arccos w / ?den)"
      using assms(2) den by (auto simp: quat2axisangle_def Let_def clip)
    have "(x * k) * (x * k) + (y * k) * (y * k) + (z * k) * (z * k) = (x * x + y * y + z * z) * k\<^sup>2" for k
      by (simp add: power2_eq_square algebra_simps)
    then have "a * a + b * b + c * c = (x * x + y * y + z * z) * (2 * arccos w / ?den)\<^sup>2" unfolding abc .
    also have "\<dots> = ?den\<^sup>2 * (2 * arccos w / ?den)\<^sup>2" using den sq by simp
    also have "\<dots> = (2 * arccos w)\<^sup>2" using den by (simp add: power_divide)
    finally have "a * a + b * b + c * c = (2 * arccos w)\<^sup>2" .
    moreover have "0 \<le> arccos w" using w by (intro arccos_lbound) auto
    ultimately show ?thesis using False real_sqrt_abs [of "2 * arccos w"] by simp
  qed
qed

subsection \<open>Benchmarks\<close>

text \<open>The benchmark of all suites has the first task of every name, once.\<close>

lemma aggregate_first:
  fixes suites :: "(string, 't) dict list"
  shows "map_of (aggregate_tasks suites) name = map_of (concat suites) name"
    "distinct (map fst (aggregate_tasks suites))"
proof -
  let ?add = "\<lambda>(name, task) agg. if name \<in> fst ` set agg then agg else AList.update name task agg"
  have step: "map_of (fold ?add suite agg) n = map_of (agg @ suite) n" for suite n and agg :: "(string, 't) dict"
  proof (induction suite arbitrary: agg)
    case (Cons p suite)
    obtain m t where p: "p = (m, t)" by (cases p)
    show ?case
    proof (cases "m \<in> fst ` set agg")
      case True
      then have "map_of agg m \<noteq> None" by (simp add: map_of_eq_None_iff)
      then show ?thesis using Cons.IH [of agg] True p by (auto simp: map_add_def split: option.splits)
    next
      case False
      then have "map_of agg m = None" by (simp add: map_of_eq_None_iff)
      then show ?thesis
        using Cons.IH [of "AList.update m t agg"] False p by (auto simp: map_add_def update_conv' split: option.splits)
    qed
  qed simp
  have dist: "distinct (map fst agg) \<Longrightarrow> distinct (map fst (fold ?add suite agg))" for suite and agg :: "(string, 't) dict"
    by (induction suite arbitrary: agg) (auto simp: distinct_update split: if_splits)
  have "map_of (fold (fold ?add) suites agg) n = map_of (agg @ concat suites) n" for agg :: "(string, 't) dict" and n
    by (induction suites arbitrary: agg) (simp_all add: step map_add_def split: option.splits)
  then show "map_of (aggregate_tasks suites) name = map_of (concat suites) name" by (simp add: aggregate_tasks_def)
  have "distinct (map fst agg) \<Longrightarrow> distinct (map fst (fold (fold ?add) suites agg))" for agg :: "(string, 't) dict"
    by (induction suites arbitrary: agg) (simp_all add: dist)
  then show "distinct (map fst (aggregate_tasks suites))" by (simp add: aggregate_tasks_def)
qed


end
