(* ===== verification/Env_Worker.thy ===== *)
theory Env_Worker
  imports Prelude
begin

text \<open>
  The process that serves one Libero environment, \<open>_worker\<close> of \<open>rlightning/env/utils/venv.py\<close>, and the reconfiguration of
  the environments of a vector. Messages are pairs of a command and its data; the environment is a parameter; the shared
  memory for observations is the store \<open>obs_bufs\<close> of the worker. Errors that an environment raises end the process.
\<close>

subsection \<open>Observations in shared memory\<close>

text \<open>Arrays, tuples, dictionaries, and anything else.\<close>

datatype 'o obs_tree = ObsArray 'o | ObsTuple "'o obs_tree list" | ObsDict "(string \<times> 'o obs_tree) list" | ObsOther

fun encode_obs :: "'o obs_tree \<Rightarrow> 'o obs_tree \<Rightarrow> 'o obs_tree result"
  and encode_tuple :: "'o obs_tree list \<Rightarrow> 'o obs_tree list \<Rightarrow> 'o obs_tree list result"
  and encode_dict :: "(string \<times> 'o obs_tree) list \<Rightarrow> (string \<times> 'o obs_tree) list \<Rightarrow> (string \<times> 'o obs_tree) list result" where
  "encode_obs (ObsArray x) (ObsArray y) = Inr (ObsArray x)"
| "encode_obs (ObsTuple xs) (ObsTuple ys) = map_sum id ObsTuple (encode_tuple xs ys)"
| "encode_obs (ObsDict xs) (ObsDict ys) = map_sum id ObsDict (encode_dict xs ys)"
| "encode_obs _ buffer = Inr buffer"
| "encode_tuple (x # xs) (y # ys) = bind_result (encode_obs x y) (\<lambda>y'. map_sum id ((#) y') (encode_tuple xs ys))"
| "encode_tuple _ ys = Inr ys"
| "encode_dict [] ys = Inr ys"
| "encode_dict ((k, x) # xs) ys =
     (case map_of ys k of
        None \<Rightarrow> Inl KeyError
      | Some y \<Rightarrow> bind_result (encode_obs x y) (\<lambda>y'. encode_dict xs (AList.update k y' ys)))"

subsection \<open>The worker\<close>

text \<open>What the worker uses of an environment. \<open>wo_make\<close> builds an environment from the data of \<open>reconfigure\<close> without the
  seed and seeds it.\<close>

record ('e, 'd, 'o, 'x) worker_ops =
  wo_step :: "'e \<Rightarrow> 'd \<Rightarrow> ('o obs_tree \<times> 'x \<times> 'e) result"
  wo_reset :: "'e \<Rightarrow> 'd \<Rightarrow> ('o obs_tree \<times> 'x option \<times> 'e) result"
  wo_method :: "string \<Rightarrow> 'e \<Rightarrow> 'd \<Rightarrow> ('x \<times> 'e) result"
  wo_has :: "'e \<Rightarrow> string \<Rightarrow> bool"
  wo_attr_name :: "'d \<Rightarrow> string"
  wo_getattr :: "'e \<Rightarrow> string \<Rightarrow> 'x"
  wo_setattr :: "'e \<Rightarrow> 'd \<Rightarrow> 'e result"
  wo_make :: "'d \<Rightarrow> 'e result"

datatype ('o, 'x) worker_reply =
    StepReply "'o obs_tree option" 'x
  | ResetReply "'o obs_tree option" "'x option"
  | ValueReply 'x
  | NoneReply

record ('e, 'o, 'x) env_worker =
  wk_env :: 'e
  wk_bufs :: "'o obs_tree option"
  wk_open :: bool
  wk_sent :: "('o, 'x) worker_reply list"

definition wk_send :: "('o, 'x) worker_reply \<Rightarrow> ('e, 'o, 'x) env_worker \<Rightarrow> ('e, 'o, 'x) env_worker" where
  "wk_send r w = w\<lparr>wk_sent := wk_sent w @ [r]\<rparr>"

text \<open>The observation to send: with shared memory it is written there and \<open>None\<close> is sent.\<close>

definition put_obs :: "'o obs_tree \<Rightarrow> ('e, 'o, 'x) env_worker \<Rightarrow> ('o obs_tree option \<times> ('e, 'o, 'x) env_worker) result" where
  "put_obs obs w =
     (case wk_bufs w of
        None \<Rightarrow> Inr (Some obs, w)
      | Some b \<Rightarrow> map_sum id (\<lambda>b'. (None, w\<lparr>wk_bufs := Some b'\<rparr>)) (encode_obs obs b))"

definition call_env :: "('e, 'd, 'o, 'x) worker_ops \<Rightarrow> string \<Rightarrow> 'd \<Rightarrow> ('e, 'o, 'x) env_worker \<Rightarrow> ('e, 'o, 'x) env_worker result" where
  "call_env ops name data w =
     map_sum id (\<lambda>(x, e). wk_send (ValueReply x) (w\<lparr>wk_env := e\<rparr>)) (wo_method ops name (wk_env w) data)"

definition plain_calls :: "string list" where
  "plain_calls = [''check_success'', ''get_segmentation_of_interest'', ''get_sim_state'', ''set_init_state'']"

definition worker_command ::
    "('e, 'd, 'o, 'x) worker_ops \<Rightarrow> string \<Rightarrow> 'd \<Rightarrow> ('e, 'o, 'x) env_worker \<Rightarrow> ('e, 'o, 'x) env_worker result" where
  "worker_command ops cmd data w =
     (if cmd = ''step'' then
        bind_result (wo_step ops (wk_env w) data) (\<lambda>(obs, rest, e).
        map_sum id (\<lambda>(sent, w). wk_send (StepReply sent rest) w) (put_obs obs (w\<lparr>wk_env := e\<rparr>)))
      else if cmd = ''reset'' then
        bind_result (wo_reset ops (wk_env w) data) (\<lambda>(obs, info, e).
        map_sum id (\<lambda>(sent, w). wk_send (ResetReply sent info) w) (put_obs obs (w\<lparr>wk_env := e\<rparr>)))
      else if cmd = ''close'' then map_sum id (\<lambda>w. w\<lparr>wk_open := False\<rparr>) (call_env ops cmd data w)
      else if cmd = ''render'' then
        (if wo_has ops (wk_env w) ''render'' then call_env ops cmd data w else Inr (wk_send NoneReply w))
      else if cmd = ''seed'' then
        (if wo_has ops (wk_env w) ''seed'' then call_env ops cmd data w
         else map_sum id (\<lambda>(x, e). wk_send NoneReply (w\<lparr>wk_env := e\<rparr>)) (wo_method ops ''reset_seed'' (wk_env w) data))
      else if cmd = ''getattr'' then
        Inr (wk_send (let name = wo_attr_name ops data
                      in if wo_has ops (wk_env w) name then ValueReply (wo_getattr ops (wk_env w) name) else NoneReply) w)
      else if cmd = ''setattr'' then map_sum id (\<lambda>e. w\<lparr>wk_env := e\<rparr>) (wo_setattr ops (wk_env w) data)
      else if cmd \<in> set plain_calls then call_env ops cmd data w
      else if cmd = ''reconfigure'' then
        bind_result (wo_method ops ''close'' (wk_env w) data) (\<lambda>_.
        map_sum id (\<lambda>e. wk_send NoneReply (w\<lparr>wk_env := e\<rparr>)) (wo_make ops data))
      else Inl NotImplementedError)"

text \<open>The loop: it ends with \<open>close\<close>, or when the parent has closed the pipe after its last message.\<close>

fun worker_loop :: "('e, 'd, 'o, 'x) worker_ops \<Rightarrow> (string \<times> 'd) list \<Rightarrow> ('e, 'o, 'x) env_worker \<Rightarrow> ('e, 'o, 'x) env_worker result" where
  "worker_loop ops [] w = Inr (w\<lparr>wk_open := False\<rparr>)"
| "worker_loop ops ((cmd, data) # msgs) w =
     bind_result (worker_command ops cmd data w) (\<lambda>w'. if wk_open w' then worker_loop ops msgs w' else Inr w')"

text \<open>\<open>reconfigure_env_fns\<close>: the parameters, in order, to the workers of the given ids.\<close>

definition reconfigure_env_fns ::
    "('e, 'd, 'o, 'x) worker_ops \<Rightarrow> 'd list \<Rightarrow> nat list \<Rightarrow> ('e, 'o, 'x) env_worker list \<Rightarrow> ('e, 'o, 'x) env_worker list result" where
  "reconfigure_env_fns ops env_fns ids workers =
     foldM (\<lambda>ws (j, i).
       bind_result (guard IndexError (j < length env_fns \<and> i < length ws)) (\<lambda>_.
       map_sum id (\<lambda>w. ws[i := w]) (worker_command ops ''reconfigure'' (env_fns ! j) (ws ! i)))) workers (enumerate 0 ids)"

subsection \<open>Replies\<close>

text \<open>Shared memory that was made for observations of a shape holds the observation afterwards.\<close>

inductive same_shape :: "'o obs_tree \<Rightarrow> 'o obs_tree \<Rightarrow> bool" where
  "same_shape (ObsArray x) (ObsArray y)"
| "list_all2 same_shape xs ys \<Longrightarrow> same_shape (ObsTuple xs) (ObsTuple ys)"
| "map fst xs = map fst ys \<Longrightarrow> distinct (map fst xs) \<Longrightarrow> list_all2 (\<lambda>x y. same_shape (snd x) (snd y)) xs ys
   \<Longrightarrow> same_shape (ObsDict xs) (ObsDict ys)"
  monos list_all2_mono

lemma encode_tuple_all: "list_all2 (\<lambda>x y. encode_obs x y = Inr x) xs ys \<Longrightarrow> encode_tuple xs ys = Inr xs"
  by (induction rule: list_all2_induct) simp_all

lemma encode_dict_all:
  "list_all2 (\<lambda>x y. fst x = fst y \<and> encode_obs (snd x) (snd y) = Inr (snd x)) xs ys \<Longrightarrow> distinct (map fst (pre @ xs))
   \<Longrightarrow> encode_dict xs (pre @ ys) = Inr (pre @ xs)"
proof (induction xs arbitrary: pre ys)
  case (Cons x xs)
  then obtain y ys' where y: "ys = y # ys'" "fst x = fst y" "encode_obs (snd x) (snd y) = Inr (snd x)"
      "list_all2 (\<lambda>x y. fst x = fst y \<and> encode_obs (snd x) (snd y) = Inr (snd x)) xs ys'"
    by (auto simp: list_all2_Cons1)
  obtain k v v' where k: "x = (k, v)" "y = (k, v')" using y(2) by (cases x, cases y) auto
  have "k \<notin> fst ` set pre" using Cons.prems(2) k by auto
  then have "map_of (pre @ (k, v') # ys') k = Some v'" "AList.update k v (pre @ (k, v') # ys') = (pre @ [(k, v)]) @ ys'"
    by (induction pre) (auto split: prod.splits)
  then show ?case using Cons.IH [OF y(4), of "pre @ [x]"] Cons.prems(2) y k by simp
qed simp

lemma encode_same_shape: "same_shape obs buffer \<Longrightarrow> encode_obs obs buffer = Inr obs"
proof (induction rule: same_shape.induct)
  case (2 xs ys)
  then have "list_all2 (\<lambda>x y. encode_obs x y = Inr x) xs ys" by (auto elim: list_all2_mono)
  then show ?case by (simp add: encode_tuple_all)
next
  case (3 xs ys)
  have "list_all2 (\<lambda>x y. fst x = fst y) xs ys" using 3(1) by (simp add: list_all2_conv_all_nth list_eq_iff_nth_eq)
  with 3(3) have "list_all2 (\<lambda>x y. fst x = fst y \<and> encode_obs (snd x) (snd y) = Inr (snd x)) xs ys"
    by (auto simp: list_all2_conv_all_nth)
  from encode_dict_all [OF this, of "[]"] 3(2) show ?case by simp
qed simp

text \<open>Every message but \<open>setattr\<close> is answered once, in order, as long as the worker does not end.\<close>

lemma call_env_sends: "call_env ops name data w = Inr w' \<Longrightarrow> \<exists>r. wk_sent w' = wk_sent w @ [r] \<and> wk_open w' = wk_open w"
  by (auto simp: call_env_def wk_send_def map_sum_Inr_eq)

lemma put_obs_keeps: "put_obs obs w = Inr (sent, w') \<Longrightarrow> wk_sent w' = wk_sent w \<and> wk_open w' = wk_open w"
  by (auto simp: put_obs_def map_sum_Inr_eq split: option.splits)

lemma command_sends:
  assumes "worker_command ops cmd data w = Inr w'"
  shows "\<exists>rs. wk_sent w' = wk_sent w @ rs \<and> length rs = of_bool (cmd \<noteq> ''setattr'') \<and> (wk_open w' \<longleftrightarrow> wk_open w \<and> cmd \<noteq> ''close'')"
  using assms unfolding worker_command_def
  by (auto simp: map_sum_Inr_eq result_simps wk_send_def split: if_splits dest!: put_obs_keeps call_env_sends)

lemma one_reply_each:
  assumes "worker_loop ops msgs w = Inr w'" "wk_open w" "''close'' \<notin> fst ` set msgs"
  shows "length (wk_sent w') = length (wk_sent w) + length (filter (\<lambda>m. fst m \<noteq> ''setattr'') msgs)"
  using assms
proof (induction msgs arbitrary: w)
  case (Cons m msgs)
  obtain cmd data where m: "m = (cmd, data)" by (cases m)
  obtain v where v: "worker_command ops cmd data w = Inr v" using Cons.prems(1) by (auto simp: m result_simps)
  obtain rs where rs: "wk_sent v = wk_sent w @ rs" "length rs = of_bool (cmd \<noteq> ''setattr'')" "wk_open v \<longleftrightarrow> wk_open w \<and> cmd \<noteq> ''close''"
    using command_sends [OF v] by blast
  have "wk_open v" using rs(3) Cons.prems(2,3) by (auto simp: m)
  then show ?case using Cons.IH [of v] Cons.prems(1,3) v rs(1,2) by (auto simp: m)
qed auto

end
