(* ===== verification/Ppo_Vtrace.thy ===== *)
theory Ppo_Vtrace
  imports Returns Ppo_Loss
begin

text \<open>
  \<open>PPOVtrace\<close> of \<open>rlightning/policy/rsl_rl_policy/ppo_vtrace.py\<close> with a feed-forward actor: a dataset is the list of its
  steps, a step has one entry for each environment. The networks, the exponential and the standard deviation (zero
  instead of a NaN) are parameters.
\<close>

record 'v vt_entry =
  ve_rewards :: "'v list"
  ve_dones :: "bool list"
  ve_values :: "'v list"
  ve_actions_logp :: "'v list"
  ve_timeouts :: "'v list option"

record 'v vt_targets =
  vt_target_value :: "'v list"
  vt_advantages :: "'v list"
  vt_normalized :: "'v list"

text \<open>The next values: the entries are dictionaries, which have no attribute \<open>next_values\<close>, so the values are shifted and
  the critic's value of the last observation is put at the end.\<close>

definition vt_next_values :: "'v list \<Rightarrow> 'v vt_entry list \<Rightarrow> 'v list list" where
  "vt_next_values final_values entries = tl (map ve_values entries) @ [final_values]"

definition vt_rewards :: "'v::linordered_field \<Rightarrow> bool \<Rightarrow> 'v vt_entry \<Rightarrow> 'v list result" where
  "vt_rewards gamma timeouts e =
     (if \<not> timeouts then Inr (ve_rewards e)
      else bind_result (of_option KeyError (ve_timeouts e)) (\<lambda>ts.
        Inr (map2 (\<lambda>r (t, v). r + gamma * t * v) (ve_rewards e) (zip ts (ve_values e)))))"

text \<open>The steps of one environment with their importance weights.\<close>

definition vt_column ::
    "('v \<Rightarrow> 'v) \<Rightarrow> 'v::linordered_field list list \<Rightarrow> 'v list list \<Rightarrow> 'v list list \<Rightarrow> 'v vt_entry list \<Rightarrow> nat \<Rightarrow> ('v time_sample \<times> 'v) list" where
  "vt_column expf rewards next_values current_logp entries i =
     map (\<lambda>(e, rs, ns, lp).
           (\<lparr>reward = rs ! i, value_at = ve_values e ! i, next_value = ns ! i, terminal = ve_dones e ! i\<rparr>,
            expf (lp ! i - ve_actions_logp e ! i)))
       (zip entries (zip rewards (zip next_values current_logp)))"

text \<open>\<open>_process_dataset\<close> for \<open>n\<close> environments; \<open>current_logp\<close> are the log-probabilities of the actions under the actor.\<close>

definition process_dataset ::
    "('v \<Rightarrow> 'v) \<Rightarrow> ('v list list \<Rightarrow> 'v) \<Rightarrow> 'v::linordered_field \<Rightarrow> 'v \<Rightarrow> 'v \<Rightarrow> nat \<Rightarrow> 'v list \<Rightarrow> 'v list list \<Rightarrow> 'v vt_entry list
     \<Rightarrow> 'v vt_targets list result" where
  "process_dataset expf std gamma rho_bar c_bar n final_values current_logp entries =
     bind_result (guard RuntimeError (entries \<noteq> [])) (\<lambda>_.
     bind_result (mapM (vt_rewards gamma (ve_timeouts (hd entries) \<noteq> None)) entries) (\<lambda>rewards.
     let next_values = vt_next_values final_values entries
     in bind_result (mapM (\<lambda>i. vtrace_correction gamma rho_bar c_bar (vt_column expf rewards next_values current_logp entries i)) [0..<n])
        (\<lambda>columns.
          let at_step = (\<lambda>f t. map (\<lambda>c. f c ! t) columns);
              advs = map (at_step snd) [0..<length entries];
              normalize_adv = (\<lambda>a. (a - mean_all advs) / (std advs + 1 / 100000000))
          in Inr (map (\<lambda>t. \<lparr>vt_target_value = at_step fst t, vt_advantages = at_step snd t,
                            vt_normalized = map normalize_adv (at_step snd t)\<rparr>) [0..<length entries]))))"

text \<open>\<open>_compute_value_loss\<close>\<close>

definition vt_value_loss :: "'v::linordered_field \<Rightarrow> 'v list \<Rightarrow> 'v list \<Rightarrow> 'v list \<Rightarrow> 'v" where
  "vt_value_loss clip_ratio evaluation values target_value =
     tensor_mean (map2 (\<lambda>e (v, r).
        let clipped = v + clamp (- clip_ratio) clip_ratio (e - v)
        in max ((e - r)\<^sup>2) ((clipped - r)\<^sup>2)) evaluation (zip values target_value))"

subsection \<open>What holds of them\<close>

text \<open>The shape of the dataset is kept, and the normalised advantages add up to zero.\<close>

lemma normalized_sum:
  fixes advs :: "'v::linordered_field list"
  assumes "advs \<noteq> []"
  shows "sum_list (map (\<lambda>a. (a - sum_list advs / of_nat (length advs)) / s) advs) = 0"
proof -
  have "sum_list (map (\<lambda>a. (a - m) / s) xs) = (sum_list xs - of_nat (length xs) * m) / s" for m and xs :: "'v list"
    by (induction xs) (simp_all add: algebra_simps add_divide_distrib diff_divide_distrib)
  then show ?thesis using assms by simp
qed

lemma processed_dataset:
  assumes "process_dataset expf std gamma rho_bar c_bar n final_values current_logp entries = Inr out" "0 < n"
  shows "length out = length entries \<and> (\<forall>o1 \<in> set out. length (vt_target_value o1) = n \<and> length (vt_advantages o1) = n)
    \<and> sum_list (concat (map vt_normalized out)) = 0"
proof -
  obtain rewards columns where e: "entries \<noteq> []"
      and c: "mapM (\<lambda>i. vtrace_correction gamma rho_bar c_bar (vt_column expf rewards (vt_next_values final_values entries) current_logp entries i)) [0..<n] = Inr columns"
      and out: "out = map (\<lambda>t. \<lparr>vt_target_value = map (\<lambda>c. fst c ! t) columns, vt_advantages = map (\<lambda>c. snd c ! t) columns,
          vt_normalized = map (\<lambda>a. (a - mean_all (map (\<lambda>t. map (\<lambda>c. snd c ! t) columns) [0..<length entries]))
            / (std (map (\<lambda>t. map (\<lambda>c. snd c ! t) columns) [0..<length entries]) + 1 / 100000000)) (map (\<lambda>c. snd c ! t) columns)\<rparr>) [0..<length entries]"
    using assms(1) by (auto simp: process_dataset_def Let_def result_simps)
  have n: "length columns = n" using c by (auto simp: mapM_eq_Inr dest: list_all2_lengthD)
  let ?advs = "map (\<lambda>t. map (\<lambda>c. snd c ! t) columns) [0..<length entries]"
  have "concat (map vt_normalized out)
      = map (\<lambda>a. (a - mean_all ?advs) / (std ?advs + 1 / 100000000)) (concat ?advs)"
    by (simp add: out map_concat comp_def)
  moreover have "length (concat ?advs) = length entries * n" by (simp add: length_concat comp_def n sum_list_triv)
  moreover from this have "concat ?advs \<noteq> []" using e assms(2) by (metis length_0_conv mult_is_0 not_gr_zero)
  ultimately have "sum_list (concat (map vt_normalized out)) = 0"
    using normalized_sum [of "concat ?advs"] by (simp add: mean_all_def)
  then show ?thesis using n by (auto simp: out)
qed

text \<open>Clipping does not lower the loss of the critic.\<close>

lemma clipping_not_lower:
  assumes "length evaluation = length values" "length target_value = length values"
  shows "tensor_mean (map2 (\<lambda>e r. (e - r)\<^sup>2) evaluation target_value) \<le> vt_value_loss clip_ratio evaluation values target_value"
proof -
  have "sum_list (map2 (\<lambda>e r. (e - r)\<^sup>2) es rs)
      \<le> sum_list (map2 (\<lambda>e (v, r). let clipped = v + clamp (- clip_ratio) clip_ratio (e - v) in max ((e - r)\<^sup>2) ((clipped - r)\<^sup>2)) es (zip vs rs))"
    if "length es = length vs" "length rs = length vs" for es vs rs
    using that by (induction es vs arbitrary: rs rule: list_induct2) (auto simp: Suc_length_conv length_Suc_conv Let_def intro!: add_mono)
  from this [OF assms] show ?thesis
    using assms by (simp add: tensor_mean_def vt_value_loss_def divide_right_mono)
qed

end
