(* ===== verification/Plain_Engines.thy ===== *)
theory Plain_Engines
  imports Prelude
begin

text \<open>
  The evaluation engine (\<open>rlightning/engine/evaluation_engine.py\<close>), the asynchronous engine for rsl_rl
  (\<open>engine/async_rsl_rl_engine.py\<close>) and the mixins of actors (\<open>utils/ray/remote_class.py\<close>).
\<close>

subsection \<open>Evaluation\<close>

text \<open>The environments \<open>'g\<close> and the policies \<open>'q\<close>.\<close>

record ('g, 'q, 'r, 'p) eval_ops =
  ev_reset :: "'g \<Rightarrow> ('r \<times> 'g) result"
  ev_rollout :: "'q \<Rightarrow> 'r \<Rightarrow> ('p \<times> 'q) result"
  ev_step :: "'g \<Rightarrow> 'p \<Rightarrow> ('r \<times> 'g) result"

definition eval_step :: "('g, 'q, 'r, 'p) eval_ops \<Rightarrow> 'r \<times> 'g \<times> 'q \<Rightarrow> nat \<Rightarrow> ('r \<times> 'g \<times> 'q) result" where
  "eval_step ops st _ =
     (case st of (ret, g, q) \<Rightarrow>
        bind_result (ev_rollout ops q ret) (\<lambda>(resp, q).
        bind_result (ev_step ops g resp) (\<lambda>(ret, g). Inr (ret, g, q))))"

definition eval_rollout :: "('g, 'q, 'r, 'p) eval_ops \<Rightarrow> nat \<Rightarrow> 'g \<times> 'q \<Rightarrow> ('g \<times> 'q) result" where
  "eval_rollout ops max_rollout_steps gq =
     (case gq of (g, q) \<Rightarrow>
        bind_result (ev_reset ops g) (\<lambda>(ret, g).
        map_sum id snd (foldM (eval_step ops) (ret, g, q) [0..<max_rollout_steps])))"

text \<open>\<open>run\<close> announces \<open>max_epochs\<close> episodes and runs five.\<close>

definition eval_run :: "('g, 'q, 'r, 'p) eval_ops \<Rightarrow> nat \<Rightarrow> nat \<Rightarrow> 'g \<times> 'q \<Rightarrow> ('g \<times> 'q) result" where
  "eval_run ops max_epochs max_rollout_steps gq = foldM (\<lambda>gq _. eval_rollout ops max_rollout_steps gq) gq [0..<5]"

text \<open>An evaluation makes the same number of steps whatever is configured.\<close>

lemma eval_always_five:
  fixes max_epochs :: nat
  defines "ops \<equiv> \<lparr>ev_reset = \<lambda>(r, s). Inr ((), (r + 1, s)), ev_rollout = \<lambda>q _. Inr ((), q), ev_step = \<lambda>(r, s) _. Inr ((), (r, s + 1 :: nat))\<rparr>"
  shows "eval_run ops max_epochs n ((0 :: nat, 0), ()) = Inr ((5, 5 * n), ())"
proof -
  have "foldM (eval_step ops) ((), (r, s), ()) [0..<m] = Inr ((), (r, s + m), ())" for r s m :: nat
    by (induction m) (simp_all add: foldM_append eval_step_def ops_def)
  then have "eval_rollout ops n ((r, s), ()) = Inr ((r + 1, s + n), ())" for r s
    by (simp add: eval_rollout_def) (simp add: ops_def)
  then show ?thesis by (simp add: eval_run_def eval_nat_numeral)
qed

subsection \<open>The asynchronous engine for rsl\_rl\<close>

text \<open>One entry of what is handed to the buffer without waiting.\<close>

datatype ('r, 'x, 't) buffer_event = AddReturn 'r | AddResponse 'x 't

record ('g, 'q, 'r, 'p, 'x, 't) async_rsl_ops =
  ar_reset :: "'g \<Rightarrow> 'r \<times> 't \<times> 'g"
  ar_step_collect :: "'g \<Rightarrow> 'p \<Rightarrow> 'r \<times> 't \<times> 'g"
  ar_rollout :: "'q \<Rightarrow> 'r \<Rightarrow> 'p \<times> 'q"
  ar_postprocess :: "'q \<Rightarrow> 'r \<Rightarrow> 'p \<Rightarrow> 'x \<times> 'q"

type_synonym ('g, 'q, 'r, 'p, 'x, 't) async_rsl = "'p option \<times> 'g \<times> 'q \<times> ('r, 'x, 't) buffer_event list"

text \<open>One turn of the rollout loop, which goes on while the coordinator is running.\<close>

definition async_rsl_turn ::
    "('g, 'q, 'r, 'p, 'x, 't) async_rsl_ops \<Rightarrow> ('g, 'q, 'r, 'p, 'x, 't) async_rsl \<Rightarrow> ('g, 'q, 'r, 'p, 'x, 't) async_rsl" where
  "async_rsl_turn ops st =
     (case st of (resp, g, q, evs) \<Rightarrow>
        let (ret, trunc, g) = (case resp of None \<Rightarrow> ar_reset ops g | Some p \<Rightarrow> ar_step_collect ops g p);
            (p, q) = ar_rollout ops q ret;
            (x, q) = ar_postprocess ops q ret p
        in (Some p, g, q, evs @ [AddReturn ret, AddResponse x trunc]))"

definition async_rsl_rollout ::
    "('g, 'q, 'r, 'p, 'x, 't) async_rsl_ops \<Rightarrow> nat \<Rightarrow> 'g \<Rightarrow> 'q \<Rightarrow> ('g, 'q, 'r, 'p, 'x, 't) async_rsl" where
  "async_rsl_rollout ops turns g q = (async_rsl_turn ops ^^ turns) (None, g, q, [])"

definition async_rsl_batch_size :: "nat list \<Rightarrow> nat \<Rightarrow> nat result" where
  "async_rsl_batch_size num_envs train_policies =
     bind_result (guard IndexError (num_envs \<noteq> [])) (\<lambda>_. Inr (hd num_envs * train_policies))"

text \<open>The buffer gets a return and its response in every turn, in this order.\<close>

lemma rsl_events_alternate:
  "\<exists>rs. snd (snd (snd (async_rsl_rollout ops turns g q))) = concat (map (\<lambda>(r, x, t). [AddReturn r, AddResponse x t]) rs) \<and> length rs = turns"
proof (induction turns)
  case 0
  show ?case by (simp add: async_rsl_rollout_def)
next
  case (Suc n)
  then obtain rs where rs: "snd (snd (snd (async_rsl_rollout ops n g q))) = concat (map (\<lambda>(r, x, t). [AddReturn r, AddResponse x t]) rs)" "length rs = n"
    by blast
  obtain p g' q' evs where st: "async_rsl_rollout ops n g q = (p, g', q', evs)" by (rule prod_cases4)
  obtain ret trunc x where "snd (snd (snd (async_rsl_turn ops (p, g', q', evs)))) = evs @ [AddReturn ret, AddResponse x trunc]"
    by (simp add: async_rsl_turn_def Let_def case_prod_beta)
  then have "snd (snd (snd (async_rsl_rollout ops (Suc n) g q))) = concat (map (\<lambda>(r, x, t). [AddReturn r, AddResponse x t]) (rs @ [(ret, x, trunc)]))"
    using rs(1) st by (simp add: async_rsl_rollout_def)
  then show ?case using rs(2) by (intro exI [of _ "rs @ [(ret, x, trunc)]"]) simp
qed

subsection \<open>Actors\<close>

definition get_gpu_ids :: "int list \<Rightarrow> int list result" where
  "get_gpu_ids ids = bind_result (guard RuntimeError (length ids \<noteq> 0)) (\<lambda>_. bind_result (guard RuntimeError (length ids \<le> 1)) (\<lambda>_. Inr ids))"

definition dist_env_vars :: "(nat \<Rightarrow> string) \<Rightarrow> nat \<Rightarrow> nat \<Rightarrow> nat \<Rightarrow> nat \<Rightarrow> string \<Rightarrow> nat \<Rightarrow> (string, string) dict \<Rightarrow> (string, string) dict" where
  "dist_env_vars str_of rank world_size local_rank local_world_size master_addr master_port environ =
     fold (\<lambda>(k, v). AList.update k v)
       [(''RANK'', str_of rank), (''WORLD_SIZE'', str_of world_size), (''LOCAL_RANK'', str_of local_rank),
        (''LOCAL_WORLD_SIZE'', str_of local_world_size), (''MASTER_ADDR'', master_addr), (''MASTER_PORT'', str_of master_port)] environ"

text \<open>The group on which \<open>dist_barrier\<close> waits: not at all, all ranks, or the group of a mode when the rank is in it.\<close>

datatype 'grp barrier = NoBarrier | GlobalBarrier | GroupBarrier 'grp

definition dist_barrier :: "bool \<Rightarrow> ('mode \<Rightarrow> 'grp option) \<Rightarrow> 'mode option \<Rightarrow> 'grp barrier" where
  "dist_barrier initialized group_of mode =
     (if \<not> initialized then NoBarrier
      else case mode of
        None \<Rightarrow> GlobalBarrier
      | Some m \<Rightarrow> (case group_of m of None \<Rightarrow> NoBarrier | Some grp \<Rightarrow> GroupBarrier grp))"

text \<open>Ranks that wait for a group are exactly its members, so that nobody waits for a rank that passes by.\<close>

lemma barrier_of_members:
  assumes "\<forall>r. group_of r m = (if r \<in> members then Some grp else None)"
  shows "{r. dist_barrier True (group_of r) (Some m) = GroupBarrier grp} = members"
  using assms by (auto simp: dist_barrier_def split: if_splits)

end
