(* ===== verification/Flow_Policy.thy ===== *)
theory Flow_Policy
  imports Prelude Complex_Main
begin

text \<open>
  Sampling actions by denoising and recomputing their log-probabilities: \<open>sample_actions\<close>, \<open>sample_mean_var_val\<close>,
  \<open>get_log_prob_value\<close>, \<open>forward\<close> and the mask of \<open>get_value_from_vlm\<close> in
  \<open>rlightning/models/openpi/openpi_action_model.py\<close>, and the noise of \<open>models/modules/explore_noise_net.py\<close>. One sample
  of the batch, for one observation; an action is the list of the rows of its horizon. The networks are parameters:
  velocity, value and noise as functions of the noisy action and the time. Numbers are reals.
\<close>

type_synonym action = "real list list"

definition each2 :: "(real \<Rightarrow> real \<Rightarrow> real) \<Rightarrow> action \<Rightarrow> action \<Rightarrow> action" where
  "each2 f = map2 (map2 f)"

definition each :: "(real \<Rightarrow> real) \<Rightarrow> action \<Rightarrow> action" where
  "each f = map (map f)"

subsection \<open>Configuration\<close>

datatype noise_method = FlowSde | FlowCps | FlowNoise | OtherNoise string

record flow_cfg =
  fc_noise_method :: noise_method
  fc_noise_level :: real
  fc_noise_anneal :: bool
  fc_noise_start :: real
  fc_noise_end :: real
  fc_anneal_steps :: nat
  fc_num_steps :: nat
  fc_joint_logprob :: bool
  fc_ignore_last :: bool
  fc_safe_get_logprob :: bool
  fc_action_chunk :: nat
  fc_action_env_dim :: nat

record flow_ops =
  fo_velocity :: "action \<Rightarrow> real \<Rightarrow> action"
  fo_noise_head :: "action \<Rightarrow> real \<Rightarrow> action"
  fo_value :: "action \<Rightarrow> real \<Rightarrow> real"

subsection \<open>One denoising step\<close>

text \<open>\<open>timesteps\<close>: \<open>linspace(1, 1 / n, n)\<close> and a zero at the end.\<close>

definition timestep :: "nat \<Rightarrow> nat \<Rightarrow> real" where
  "timestep n i = (if i < n then 1 - real i / real n else 0)"

definition noise_level :: "flow_cfg \<Rightarrow> nat \<Rightarrow> real" where
  "noise_level c global_step =
     (if fc_noise_anneal c
      then fc_noise_start c + (fc_noise_end c - fc_noise_start c) * real (min global_step (fc_anneal_steps c)) / real (fc_anneal_steps c)
      else fc_noise_level c)"

text \<open>The noise of the SDE: at time one the next time is used in the denominator.\<close>

definition sigma_at :: "flow_cfg \<Rightarrow> nat \<Rightarrow> nat \<Rightarrow> real" where
  "sigma_at c global_step i =
     (let n = fc_num_steps c; t = timestep n i
      in noise_level c global_step * sqrt (t / (1 - (if t = 1 then timestep n 1 else t))))"

datatype sample_mode = Train | Eval

text \<open>\<open>sample_mean_var_val\<close> at the step \<open>i\<close>: mean, standard deviation and value. Annealing over no steps divides by zero.\<close>

definition sample_mean_var_val ::
    "flow_ops \<Rightarrow> flow_cfg \<Rightarrow> nat \<Rightarrow> action \<Rightarrow> nat \<Rightarrow> sample_mode \<Rightarrow> (action \<times> action \<times> real) result" where
  "sample_mean_var_val ops c global_step x i mode =
     bind_result (guard ZeroDivisionError (fc_noise_anneal c \<longrightarrow> fc_anneal_steps c \<noteq> 0)) (\<lambda>_.
     let n = fc_num_steps c; t = timestep n i; d = t - timestep n (i + 1);
          v = fo_velocity ops x t;
          x0 = each2 (\<lambda>a b. a - b * t) x v;
          x1 = each2 (\<lambda>a b. a + b * (1 - t)) x v;
          result = (\<lambda>w0 w1 std. Inr (each2 (\<lambda>a b. a * w0 + b * w1) x0 x1, std, fo_value ops x t))
      in case mode of
           Eval \<Rightarrow> result (1 - (t - d)) (t - d) (each (\<lambda>_. 0) x)
         | Train \<Rightarrow>
             (case fc_noise_method c of
                FlowSde \<Rightarrow>
                  let s = sigma_at c global_step i
                  in result (1 - (t - d)) (t - d - s\<^sup>2 * d / (2 * t)) (each (\<lambda>_. sqrt d * s) x)
              | FlowCps \<Rightarrow>
                  let l = noise_level c global_step
                  in result (1 - (t - d)) ((t - d) * cos (pi * l / 2)) (each (\<lambda>_. (t - d) * sin (pi * l / 2)) x)
              | FlowNoise \<Rightarrow> result (1 - (t - d)) (t - d) (fo_noise_head ops x t)
              | OtherNoise _ \<Rightarrow> Inl ValueError))"

definition get_logprob_norm :: "flow_cfg \<Rightarrow> action \<Rightarrow> action \<Rightarrow> action \<Rightarrow> action" where
  "get_logprob_norm c xs mus sigmas =
     (if fc_safe_get_logprob c then each2 (\<lambda>x mu. - (x - mu)\<^sup>2) xs mus
      else each2 (\<lambda>sigma dev. if sigma = 0 then 0 else - ln sigma - ln (2 * pi) / 2 - (dev / sigma)\<^sup>2 / 2)
             sigmas (each2 (\<lambda>x mu. x - mu) xs mus))"

definition gaussian_entropy :: "real \<Rightarrow> real" where
  "gaussian_entropy sigma = ln (2 * pi * exp 1 * (if sigma = 0 then 1 else sigma)\<^sup>2) / 2"

subsection \<open>Rollout\<close>

text \<open>The step that is sampled with noise: all of them, one drawn at random, or none; \<open>draw\<close> is what \<open>randint\<close> returns,
  which raises for an empty range.\<close>

definition denoise_inds :: "flow_cfg \<Rightarrow> sample_mode \<Rightarrow> (nat \<Rightarrow> nat) \<Rightarrow> int list result" where
  "denoise_inds c mode draw =
     (let n = fc_num_steps c; range_size = (if fc_ignore_last c then n - 1 else n)
      in case mode of
           Eval \<Rightarrow> Inr (replicate n (- 1))
         | Train \<Rightarrow>
             if fc_joint_logprob c then Inr (map int [0..<n])
             else bind_result (guard ValueError (0 < range_size)) (\<lambda>_. Inr (replicate n (int (draw range_size mod range_size)))))"

record flow_run =
  fl_x :: action
  fl_chains :: "action list"
  fl_logprobs :: "action list"
  fl_values :: "real list"

text \<open>A turn of the loop; the noise of the step is the one that \<open>sample_noise\<close> draws.\<close>

definition denoise_step ::
    "flow_ops \<Rightarrow> flow_cfg \<Rightarrow> nat \<Rightarrow> int list \<Rightarrow> (nat \<Rightarrow> action) \<Rightarrow> flow_run \<Rightarrow> nat \<Rightarrow> flow_run result" where
  "denoise_step ops c global_step inds noise s i =
     bind_result (sample_mean_var_val ops c global_step (fl_x s) i (if int i = inds ! i then Train else Eval))
       (\<lambda>(mean, std, value).
          let x = each2 (+) mean (each2 (*) (noise i) std)
          in Inr \<lparr>fl_x = x, fl_chains = fl_chains s @ [x],
                  fl_logprobs = fl_logprobs s @ [get_logprob_norm c x mean std], fl_values = fl_values s @ [value]\<rparr>)"

definition initial_run :: "flow_cfg \<Rightarrow> action \<Rightarrow> flow_run" where
  "initial_run c x =
     \<lparr>fl_x = x, fl_chains = [x],
      fl_logprobs = (if fc_joint_logprob c then [get_logprob_norm c x (each (\<lambda>_. 0) x) (each (\<lambda>_. 1) x)] else []), fl_values = []\<rparr>"

text \<open>The part of an action that is executed, and means over a list of actions of the same shape.\<close>

definition executed :: "flow_cfg \<Rightarrow> action \<Rightarrow> action" where
  "executed c x = take (fc_action_chunk c) (map (take (fc_action_env_dim c)) x)"

definition mean_action :: "action list \<Rightarrow> action" where
  "mean_action xs =
     (case xs of [] \<Rightarrow> [] | x # rest \<Rightarrow> each (\<lambda>a. a / real (length xs)) (fold (\<lambda>y acc. each2 (+) acc y) rest x))"

text \<open>The chosen log-probability; a negative index counts from the end.\<close>

definition chosen_logprob :: "flow_cfg \<Rightarrow> int list \<Rightarrow> action list \<Rightarrow> action result" where
  "chosen_logprob c inds logprobs =
     (let xs = map (executed c) logprobs
      in if fc_joint_logprob c then Inr (mean_action xs) else bind_result (py_nth inds 0) (py_nth xs))"

record flow_sample =
  sm_actions :: action
  sm_chains :: "action list"
  sm_prev_logprobs :: action
  sm_prev_values :: real
  sm_denoise_inds :: "int list"

text \<open>\<open>sample_actions\<close>; the value is the mean over the steps, for a model whose value does not come from the language
  model.\<close>

definition sample_actions ::
    "flow_ops \<Rightarrow> flow_cfg \<Rightarrow> nat \<Rightarrow> sample_mode \<Rightarrow> (nat \<Rightarrow> nat) \<Rightarrow> (nat \<Rightarrow> action) \<Rightarrow> action \<Rightarrow> flow_sample result" where
  "sample_actions ops c global_step mode draw noise start =
     bind_result (denoise_inds c mode draw) (\<lambda>inds.
     bind_result (foldM (denoise_step ops c global_step inds noise) (initial_run c start) [0..<fc_num_steps c]) (\<lambda>s.
     bind_result (chosen_logprob c inds (fl_logprobs s)) (\<lambda>lp.
     bind_result (guard RuntimeError (fl_values s \<noteq> [])) (\<lambda>_.
     Inr \<lparr>sm_actions = fl_x s, sm_chains = fl_chains s, sm_prev_logprobs = lp,
          sm_prev_values = sum_list (fl_values s) / real (length (fl_values s)), sm_denoise_inds = inds\<rparr>))))"

subsection \<open>Training\<close>

text \<open>\<open>get_log_prob_value\<close> on a recorded chain: the transitions at the recorded steps, all with noise. The index \<open>-1\<close>
  that an evaluation records would take the noise of a negative step, which is not a number; it is an error here.\<close>

definition replay_step ::
    "flow_ops \<Rightarrow> flow_cfg \<Rightarrow> nat \<Rightarrow> action list \<Rightarrow> int list \<Rightarrow> nat \<Rightarrow> (action \<times> real \<times> action) result" where
  "replay_step ops c global_step chain inds k =
     bind_result (py_nth inds (int k)) (\<lambda>i.
     bind_result (guard IndexError (0 \<le> i)) (\<lambda>_.
     bind_result (py_nth chain i) (\<lambda>x.
     bind_result (py_nth chain (i + 1)) (\<lambda>x'.
     bind_result (sample_mean_var_val ops c global_step x (nat i) Train) (\<lambda>(mean, std, value).
     Inr (get_logprob_norm c x' mean std, value, each gaussian_entropy std))))))"

definition get_log_prob_value ::
    "flow_ops \<Rightarrow> flow_cfg \<Rightarrow> nat \<Rightarrow> action list \<Rightarrow> int list \<Rightarrow> (action list \<times> real list \<times> action list) result" where
  "get_log_prob_value ops c global_step chain inds =
     bind_result (py_nth chain 0) (\<lambda>x.
     bind_result (mapM (replay_step ops c global_step chain inds) [0..<(if fc_joint_logprob c then fc_num_steps c else 1)]) (\<lambda>rs.
     bind_result (guard RuntimeError (rs \<noteq> [])) (\<lambda>_.
     let ones = each (\<lambda>_. 1) x;
         logprobs = (if fc_joint_logprob c then [get_logprob_norm c x (each (\<lambda>_. 0) x) ones] else []) @ map fst rs;
         entropies = (if fc_joint_logprob c then [each gaussian_entropy ones] else []) @ map (snd \<circ> snd) rs
     in Inr (logprobs, map (fst \<circ> snd) rs,
             if fc_noise_method c = FlowNoise then entropies else map (each (\<lambda>_. 0)) logprobs))))"

text \<open>\<open>forward\<close>: the log-probabilities and the value.\<close>

definition flow_forward :: "flow_ops \<Rightarrow> flow_cfg \<Rightarrow> nat \<Rightarrow> action list \<Rightarrow> int list \<Rightarrow> (action \<times> real) result" where
  "flow_forward ops c global_step chain inds =
     bind_result (get_log_prob_value ops c global_step chain inds) (\<lambda>(logprobs, values, _).
     Inr (mean_action (map (executed c) logprobs), sum_list values / real (length values)))"

subsection \<open>Value from the language model\<close>

text \<open>The tokens that are averaged; \<open>MeanToken\<close> with the number of images.\<close>

datatype vlm_mode = MeanToken | LastToken | FirstToken

definition prefix_mask :: "vlm_mode \<Rightarrow> nat \<Rightarrow> nat \<Rightarrow> nat \<Rightarrow> bool list" where
  "prefix_mask mode num_images lang_token_len all_token_length =
     (case mode of
        MeanToken \<Rightarrow> replicate (256 * num_images) True @ replicate (256 * (3 - num_images)) False @ replicate lang_token_len True
      | LastToken \<Rightarrow> replicate (all_token_length - 1) False @ [True]
      | FirstToken \<Rightarrow> [True] @ replicate (all_token_length - 1) False)"

subsection \<open>Learned noise\<close>

text \<open>\<open>post_process\<close>: from the output of the network to a standard deviation between the bounds.\<close>

definition noise_std :: "real \<Rightarrow> real \<Rightarrow> real \<Rightarrow> real" where
  "noise_std noise_min noise_max logvar =
     (let logvar_min = ln (noise_min\<^sup>2); logvar_max = ln (noise_max\<^sup>2)
      in exp ((logvar_min + (logvar_max - logvar_min) * (tanh logvar + 1) / 2) / 2))"

definition explore_noise :: "bool \<Rightarrow> real \<Rightarrow> real \<Rightarrow> real \<Rightarrow> real" where
  "explore_noise const_schedule noise_min noise_max logvar =
     (if const_schedule then exp (ln (noise_min\<^sup>2) / 2) else noise_std noise_min noise_max logvar)"


text \<open>
  The log-probabilities that training recomputes are those of the rollout; without noise a step is an Euler step; learned
  noise stays between its bounds; the mask of the language model has its length.
\<close>

subsection \<open>Elementwise operations\<close>

lemma map2_of_map2: "map2 f (map2 g xs ys) (map2 h xs ys) = map2 (\<lambda>a b. f (g a b) (h a b)) xs ys"
  by (induction xs ys rule: list_induct2') auto

lemma each2_of_each2: "each2 f (each2 g x v) (each2 h x v) = each2 (\<lambda>a b. f (g a b) (h a b)) x v"
  by (simp add: each2_def map2_of_map2)

lemma each_id [simp]: "each (\<lambda>a. a) x = x"
  by (simp add: each_def)

subsection \<open>Steps\<close>

text \<open>A step without noise follows the velocity for the length of the step.\<close>

lemma euler_step:
  "(fc_noise_anneal c \<longrightarrow> fc_anneal_steps c \<noteq> 0) \<Longrightarrow> sample_mean_var_val ops c global_step x i Eval
   = Inr (each2 (\<lambda>a b. a - b * (timestep (fc_num_steps c) i - timestep (fc_num_steps c) (i + 1))) x (fo_velocity ops x (timestep (fc_num_steps c) i)),
          each (\<lambda>_. 0) x, fo_value ops x (timestep (fc_num_steps c) i))"
  by (simp add: sample_mean_var_val_def Let_def each2_of_each2 algebra_simps)

text \<open>The times go down from one to zero in equal steps.\<close>

lemma equal_steps: "i < n \<Longrightarrow> timestep n i - timestep n (i + 1) = 1 / real n" "0 < n \<Longrightarrow> timestep n 0 = 1" "timestep n n = 0"
  by (auto simp: timestep_def field_simps not_less dest: less_antisym)

lemma anneal_end: "fc_noise_anneal c \<Longrightarrow> 0 < fc_anneal_steps c \<Longrightarrow> fc_anneal_steps c \<le> n \<Longrightarrow> noise_level c n = fc_noise_end c"
  by (simp add: noise_level_def)

subsection \<open>Replaying a rollout\<close>

lemma denoise_loop:
  assumes "foldM (denoise_step ops c g inds noise) (initial_run c start) [0..<n] = Inr s"
  defines "off \<equiv> (if fc_joint_logprob c then 1 else 0)"
  shows "length (fl_chains s) = n + 1 \<and> last (fl_chains s) = fl_x s \<and> length (fl_values s) = n \<and> length (fl_logprobs s) = off + n
    \<and> hd (fl_chains s) = start
    \<and> take off (fl_logprobs s) = take off [get_logprob_norm c start (each (\<lambda>_. 0) start) (each (\<lambda>_. 1) start)]
    \<and> (\<forall>i < n. \<exists>mean std value.
         sample_mean_var_val ops c g (fl_chains s ! i) i (if int i = inds ! i then Train else Eval) = Inr (mean, std, value)
         \<and> fl_logprobs s ! (off + i) = get_logprob_norm c (fl_chains s ! (i + 1)) mean std)"
  using assms(1)
proof (induction n arbitrary: s)
  case 0
  then show ?case by (auto simp: initial_run_def off_def)
next
  case (Suc n)
  then obtain t where t: "foldM (denoise_step ops c g inds noise) (initial_run c start) [0..<n] = Inr t" "denoise_step ops c g inds noise t n = Inr s"
    by (auto simp: foldM_append result_simps)
  note IH = Suc.IH [OF t(1)]
  obtain mean std v1 where m: "sample_mean_var_val ops c g (fl_x t) n (if int n = inds ! n then Train else Eval) = Inr (mean, std, v1)"
    using t(2) by (auto simp: denoise_step_def result_simps)
  define x where "x = each2 (+) mean (each2 (*) (noise n) std)"
  have s: "s = \<lparr>fl_x = x, fl_chains = fl_chains t @ [x], fl_logprobs = fl_logprobs t @ [get_logprob_norm c x mean std], fl_values = fl_values t @ [v1]\<rparr>"
    using t(2) m by (simp add: denoise_step_def Let_def x_def)
  have len: "length (fl_chains t) = n + 1" "length (fl_logprobs t) = off + n" using IH by simp_all
  have at_n: "fl_chains t ! n = fl_x t" using IH by (metis add_diff_cancel_right' last_conv_nth list.size(3) len(1) Suc_eq_plus1 nat.distinct(1))
  have new: "\<exists>mean std value. sample_mean_var_val ops c g (fl_chains s ! n) n (if int n = inds ! n then Train else Eval) = Inr (mean, std, value)
      \<and> fl_logprobs s ! (off + n) = get_logprob_norm c (fl_chains s ! (n + 1)) mean std"
    using m len at_n by (simp add: s nth_append)
  have old: "\<exists>mean std value. sample_mean_var_val ops c g (fl_chains s ! i) i (if int i = inds ! i then Train else Eval) = Inr (mean, std, value)
      \<and> fl_logprobs s ! (off + i) = get_logprob_norm c (fl_chains s ! (i + 1)) mean std" if "i < n" for i
    using IH [THEN conjunct2, THEN conjunct2, THEN conjunct2, THEN conjunct2, THEN conjunct2, THEN conjunct2, rule_format, OF that] that len
    by (simp add: s nth_append)
  have "hd (fl_chains s) = start" "take off (fl_logprobs s) = take off (fl_logprobs t)"
    using IH len by (auto simp: s hd_append off_def)
  then show ?case using IH new old by (auto simp: s less_Suc_eq)
qed

lemma mean_action_one: "mean_action [x] = x"
  by (simp add: mean_action_def)

text \<open>C38: as long as the networks have not changed, the log-probabilities that training computes from the recorded chain and
  steps are the ones that the rollout recorded, for every noise method and both ways of counting, so that the ratio of the
  new to the old policy starts at one.\<close>
theorem replay_of_rollout:
  assumes "sample_actions ops c g Train draw noise start = Inr s"
  shows "map_sum id fst (flow_forward ops c g (sm_chains s) (sm_denoise_inds s)) = Inr (sm_prev_logprobs s)"
proof -
  let ?n = "fc_num_steps c" and ?j = "fc_joint_logprob c"
  obtain inds r where i: "denoise_inds c Train draw = Inr inds"
      and r: "foldM (denoise_step ops c g inds noise) (initial_run c start) [0..<?n] = Inr r"
      and lp: "chosen_logprob c inds (fl_logprobs r) = Inr (sm_prev_logprobs s)" and v: "fl_values r \<noteq> []"
      and s: "sm_chains s = fl_chains r" "sm_denoise_inds s = inds"
    using assms by (auto simp: sample_actions_def result_simps)
  note loop = denoise_loop [OF r]
  have n: "0 < ?n" using v loop by (cases ?n) auto
  have step: "\<exists>value ent. replay_step ops c g (fl_chains r) inds k = Inr (fl_logprobs r ! ((if ?j then 1 else 0) + d), value, ent)"
    if h: "py_nth inds (int k) = Inr (int d)" "inds ! d = int d" "d < ?n" for k d
  proof -
    obtain mean std v1 where "sample_mean_var_val ops c g (fl_chains r ! d) d Train = Inr (mean, std, v1)"
        "fl_logprobs r ! ((if ?j then 1 else 0) + d) = get_logprob_norm c (fl_chains r ! (d + 1)) mean std"
      using loop [THEN conjunct2, THEN conjunct2, THEN conjunct2, THEN conjunct2, THEN conjunct2, THEN conjunct2, rule_format, OF h(3)] h(2)
      by auto
    moreover have "py_nth (fl_chains r) (int d) = Inr (fl_chains r ! d)" "py_nth (fl_chains r) (int d + 1) = Inr (fl_chains r ! (d + 1))"
      using loop h(3) py_nth_nat [of "fl_chains r" "d + 1"] by (simp_all add: add.commute)
    ultimately show ?thesis using h(1) by (simp add: replay_step_def)
  qed
  have hd: "py_nth (fl_chains r) 0 = Inr start" using loop py_nth_nat [of "fl_chains r" 0] by (cases "fl_chains r") auto
  show ?thesis
  proof (cases ?j)
    case True
    have inds: "inds = map int [0..<?n]" using i True by (simp add: denoise_inds_def)
    have "\<forall>k \<in> set [0..<?n]. \<exists>value ent. replay_step ops c g (fl_chains r) inds k = Inr (fl_logprobs r ! (1 + k), value, ent)"
      using step True inds by simp
    then obtain f h where f: "\<forall>k \<in> set [0..<?n]. replay_step ops c g (fl_chains r) inds k = Inr (fl_logprobs r ! (1 + k), f k, h k)"
      by metis
    have rs: "mapM (replay_step ops c g (fl_chains r) inds) [0..<?n] = Inr (map (\<lambda>k. (fl_logprobs r ! (1 + k), f k, h k)) [0..<?n])"
      using f by (auto simp: mapM_eq_Inr list_all2_map2 intro!: list.rel_refl_strong)
    have "fl_logprobs r = [get_logprob_norm c start (each (\<lambda>_. 0) start) (each (\<lambda>_. 1) start)] @ map (\<lambda>k. fl_logprobs r ! (1 + k)) [0..<?n]"
      using loop True by (intro nth_equalityI) (auto simp: nth_Cons' take_Suc_conv_app_nth)
    then have "mean_action (map (executed c) (fl_logprobs r)) = sm_prev_logprobs s" 
        "map (executed c) (fl_logprobs r) = map (executed c) ([get_logprob_norm c start (each (\<lambda>_. 0) start) (each (\<lambda>_. 1) start)] @ map (\<lambda>k. fl_logprobs r ! (1 + k)) [0..<?n])"
      using lp True by (simp_all add: chosen_logprob_def)
    then show ?thesis
      using True n by (simp add: flow_forward_def get_log_prob_value_def Let_def s hd rs comp_def)
  next
    case False
    obtain d where d: "inds = replicate ?n (int d)" "d < ?n"
    proof -
      define m where "m = (if fc_ignore_last c then ?n - 1 else ?n)"
      have "0 < m" and inds: "inds = replicate ?n (int (draw m mod m))" using i False by (auto simp: denoise_inds_def Let_def m_def result_simps)
      have "draw m mod m < ?n"
        using mod_less_divisor [OF \<open>0 < m\<close>, of "draw m"] by (rule less_le_trans) (simp add: m_def)
      with inds show thesis using that by blast
    qed
    have "py_nth inds 0 = Inr (int d)" "py_nth inds (int 0) = Inr (int d)" using d py_nth_nat [of inds 0] by simp_all
    moreover have "inds ! d = int d" using d by simp
    ultimately obtain v1 ent where st: "replay_step ops c g (fl_chains r) inds 0 = Inr (fl_logprobs r ! d, v1, ent)"
      using step [of 0 d] d(2) False by auto
    have "d < length (fl_logprobs r)" using loop False d(2) by simp
    then have "sm_prev_logprobs s = executed c (fl_logprobs r ! d)"
      using lp False \<open>py_nth inds 0 = Inr (int d)\<close> by (simp add: chosen_logprob_def)
    then show ?thesis
      using False st by (simp add: flow_forward_def get_log_prob_value_def Let_def s hd mean_action_one)
  qed
qed

lemma replay_of_rollout_witness:
  "let ops = \<lparr>fo_velocity = \<lambda>x t. [[2]], fo_noise_head = \<lambda>x t. [[1 / 2]], fo_value = \<lambda>x t. t\<rparr>;
       c = \<lparr>fc_noise_method = FlowNoise, fc_noise_level = 0, fc_noise_anneal = False, fc_noise_start = 0, fc_noise_end = 0,
            fc_anneal_steps = 0, fc_num_steps = 1, fc_joint_logprob = False, fc_ignore_last = False, fc_safe_get_logprob = True,
            fc_action_chunk = 1, fc_action_env_dim = 1\<rparr>
   in \<exists>s. sample_actions ops c 0 Train id (\<lambda>_. [[3]]) [[1]] = Inr s
        \<and> map_sum id fst (flow_forward ops c 0 (sm_chains s) (sm_denoise_inds s)) = Inr (sm_prev_logprobs s)"
proof -
  let ?ops = "\<lparr>fo_velocity = \<lambda>x t. [[2]], fo_noise_head = \<lambda>x t. [[1 / 2]], fo_value = \<lambda>x t. t\<rparr>"
  let ?c = "\<lparr>fc_noise_method = FlowNoise, fc_noise_level = 0, fc_noise_anneal = False, fc_noise_start = 0, fc_noise_end = 0,
            fc_anneal_steps = 0, fc_num_steps = 1, fc_joint_logprob = False, fc_ignore_last = False, fc_safe_get_logprob = True,
            fc_action_chunk = 1, fc_action_env_dim = 1\<rparr>"
  have "\<exists>s. sample_actions ?ops ?c 0 Train id (\<lambda>_. [[3]]) [[1]] = Inr s"
    by (simp add: sample_actions_def denoise_inds_def denoise_step_def initial_run_def sample_mean_var_val_def chosen_logprob_def
        py_nth_def Let_def)
  with replay_of_rollout [of ?ops ?c 0 id "\<lambda>_. [[3]]" "[[1]]"] show ?thesis by (metis (no_types, lifting))
qed

subsection \<open>Noise and masks\<close>

lemma noise_between:
  assumes "0 < noise_min" "noise_min \<le> noise_max"
  shows "noise_min \<le> noise_std noise_min noise_max x \<and> noise_std noise_min noise_max x \<le> noise_max"
proof -
  define w where "w = (tanh x + 1) / 2"
  have w: "0 \<le> w" "w \<le> 1" using tanh_real_bounds [of x] by (simp_all add: w_def)
  have ln: "ln (noise_min\<^sup>2) = 2 * ln noise_min" "ln (noise_max\<^sup>2) = 2 * ln noise_max" using assms by (simp_all add: ln_realpow)
  have std: "noise_std noise_min noise_max x = exp (ln noise_min + (ln noise_max - ln noise_min) * w)"
    by (simp add: noise_std_def Let_def ln w_def field_simps)
  have le: "ln noise_min \<le> ln noise_max" using assms by simp
  have "0 \<le> (ln noise_max - ln noise_min) * w" "(ln noise_max - ln noise_min) * w \<le> (ln noise_max - ln noise_min) * 1"
    using w le by (intro mult_nonneg_nonneg mult_left_mono; simp)+
  then have "exp (ln noise_min) \<le> noise_std noise_min noise_max x" "noise_std noise_min noise_max x \<le> exp (ln noise_max)"
    unfolding std exp_le_cancel_iff by simp_all
  then show ?thesis using assms by simp
qed

lemma prefix_mask_length:
  assumes "num_images \<le> 3" "all_token_length = 768 + lang_token_len"
  shows "length (prefix_mask mode num_images lang_token_len all_token_length) = all_token_length"
  using assms by (cases mode) (simp_all add: prefix_mask_def)


end
