(* ===== verification/Openvla_Actions.thy ===== *)
theory Openvla_Actions
  imports Prelude Complex_Main "HOL-Library.Option_ord"
begin

text \<open>
  \<open>rlightning/models/openvla/openvla_model.py\<close> around the vision-language model: the statistics of the actions, decoding
  of action tokens, the checks of a prompt and of the tokens, and the log-probabilities and values of training
  (\<open>models/openvla/value_head.py\<close>, \<open>models/model_utils.py\<close>). The network is a parameter. The logits of one place are a list
  over the vocabulary in which \<open>None\<close> is minus infinity; numbers are reals. One sample of the batch.
\<close>

subsection \<open>Statistics\<close>

record 's vla_stats =
  vs_min :: "real list"
  vs_max :: "real list"
  vs_mask :: "bool list"

definition check_unnorm_key :: "(string, 's) dict \<Rightarrow> string option \<Rightarrow> string result" where
  "check_unnorm_key norm_stats unnorm_key =
     bind_result (case unnorm_key of
         Some k \<Rightarrow> Inr k
       | None \<Rightarrow> bind_result (guard AssertionError (length norm_stats = 1)) (\<lambda>_. Inr (hd (dict_keys norm_stats)))) (\<lambda>k.
     bind_result (guard AssertionError (k \<in> set (dict_keys norm_stats))) (\<lambda>_. Inr k))"

definition get_action_stats :: "(string, 's) dict \<Rightarrow> string option \<Rightarrow> 's result" where
  "get_action_stats norm_stats unnorm_key =
     bind_result (check_unnorm_key norm_stats unnorm_key) (\<lambda>k. of_option KeyError (map_of norm_stats k))"

subsection \<open>Actions from tokens\<close>

text \<open>\<open>linspace(-1, 1, n)\<close> and the centres of its \<open>n - 1\<close> intervals.\<close>

definition bins :: "nat \<Rightarrow> real list" where
  "bins n = map (\<lambda>i. if n = 1 then - 1 else - 1 + 2 * real i / real (n - 1)) [0..<n]"

definition bin_centers :: "nat \<Rightarrow> real list" where
  "bin_centers n = map2 (\<lambda>a b. (a + b) / 2) (butlast (bins n)) (tl (bins n))"

definition clip_index :: "int \<Rightarrow> int \<Rightarrow> int \<Rightarrow> int" where
  "clip_index lo hi i = min (max i lo) hi"

definition decode_token :: "nat \<Rightarrow> nat \<Rightarrow> int \<Rightarrow> real result" where
  "decode_token vocab_size n_action_bins token =
     py_nth (bin_centers n_action_bins)
       (clip_index 0 (int (length (bin_centers n_action_bins)) - 1) (int vocab_size - token - 1))"

definition unnormalize :: "bool \<Rightarrow> real \<Rightarrow> real \<Rightarrow> real \<Rightarrow> real" where
  "unnormalize masked action_low action_high x =
     (if masked then (x + 1) / 2 * (action_high - action_low + 1 / 100000000) + action_low else x)"

definition postprocess_action :: "nat \<Rightarrow> nat \<Rightarrow> 's vla_stats \<Rightarrow> int list \<Rightarrow> real list result" where
  "postprocess_action vocab_size n_action_bins stats tokens =
     bind_result (mapM (decode_token vocab_size n_action_bins) tokens) (\<lambda>xs.
     bind_result (guard ValueError (length (vs_min stats) = length xs \<and> length (vs_max stats) = length xs \<and> length (vs_mask stats) = length xs))
       (\<lambda>_. Inr (map2 (\<lambda>(m, lo, hi) x. unnormalize m lo hi x) (zip (vs_mask stats) (zip (vs_min stats) (vs_max stats))) xs)))"

text \<open>The assertions of \<open>get_action\<close> on the prompt and on the tokens.\<close>

definition check_prompt :: "(int \<times> bool) list \<Rightarrow> unit result" where
  "check_prompt prompt =
     bind_result (py_nth prompt 0) (\<lambda>(first, m).
     bind_result (guard AssertionError (first = 1 \<and> m)) (\<lambda>_.
     bind_result (py_nth prompt (- 1)) (\<lambda>(final, m). guard AssertionError (final = 29871 \<and> m))))"

definition check_action_tokens :: "int list \<Rightarrow> unit result" where
  "check_action_tokens tokens = guard AssertionError (list_all (\<lambda>t. 32000 - 256 \<le> t \<and> t < 32000) tokens)"

subsection \<open>Log-probabilities\<close>

type_synonym logits = "real option list"

text \<open>\<open>VLALogitsProcessor\<close>, and the assignments of minus infinity in \<open>get_action\<close> and \<open>forward\<close>.\<close>

definition only_actions :: "nat \<Rightarrow> nat \<Rightarrow> logits \<Rightarrow> logits" where
  "only_actions vocab_size n_action_bins ls =
     map (\<lambda>(i, l). if i < vocab_size - n_action_bins \<or> vocab_size \<le> i then None else l) (enumerate 0 ls)"

text \<open>\<open>TopKLogitsWarper\<close> removes what is smaller than the logit at rank \<open>k\<close>.\<close>

definition top_k_logits :: "nat \<Rightarrow> logits \<Rightarrow> logits" where
  "top_k_logits k ls = map (\<lambda>l. if l < rev (sort ls) ! (k - 1) then None else l) ls"

definition sum_exp :: "logits \<Rightarrow> real" where
  "sum_exp ls = sum_list (map (\<lambda>l. case l of None \<Rightarrow> 0 | Some x \<Rightarrow> exp x) ls)"

definition logprob_of :: "logits \<Rightarrow> nat \<Rightarrow> real option" where
  "logprob_of ls target = map_option (\<lambda>x. x - ln (sum_exp ls)) (ls ! target)"

definition entropy_of :: "real \<Rightarrow> logits \<Rightarrow> real" where
  "entropy_of epsilon ls =
     - sum_list (map (\<lambda>l. let p = (case l of None \<Rightarrow> 0 | Some x \<Rightarrow> exp x) / sum_exp ls in p * ln (p + epsilon)) ls)"

text \<open>What \<open>forward\<close> does with the logits of a place.\<close>

definition train_logits :: "real \<Rightarrow> int \<Rightarrow> nat \<Rightarrow> nat \<Rightarrow> logits \<Rightarrow> logits" where
  "train_logits temperature top_k vocab_size n_action_bins ls =
     (let ls = map (map_option (\<lambda>x. x / temperature)) ls;
          k = min top_k (int (length ls));
          ls = (if 0 < k then top_k_logits (nat k) ls else ls)
      in only_actions vocab_size n_action_bins ls)"

subsection \<open>Training\<close>

text \<open>\<open>_preprocess_for_train\<close>: the prompt with the tokens of the action; its mask.\<close>

definition preprocess_for_train :: "nat \<Rightarrow> int list \<Rightarrow> bool list \<Rightarrow> int list list \<Rightarrow> (int list \<times> bool list \<times> int list) result" where
  "preprocess_for_train action_dim input_ids attention_mask chunk_tokens =
     (let tokens = concat chunk_tokens
      in bind_result (guard RuntimeError (length tokens = action_dim)) (\<lambda>_.
         Inr (input_ids @ tokens, attention_mask @ map (\<lambda>_. True) tokens, tokens)))"

record vla_output =
  vo_logprobs :: "real option list"
  vo_entropy :: "real list option"
  vo_value :: "real option"

text \<open>\<open>forward\<close>: the logits and the hidden states (here their values) at all places of the extended sequence. The variables
  of the log-probabilities are only bound when these are asked for. \<open>None\<close> stands for the plain output of the network.\<close>

definition vla_forward ::
    "nat \<Rightarrow> nat \<Rightarrow> nat \<Rightarrow> nat \<Rightarrow> real \<Rightarrow> int \<Rightarrow> bool \<Rightarrow> bool \<Rightarrow> bool \<Rightarrow> bool \<Rightarrow> logits list \<Rightarrow> real list \<Rightarrow> nat list
     \<Rightarrow> vla_output option result" where
  "vla_forward action_dim chunks vocab_size n_action_bins temperature top_k has_value_head
       compute_logprobs compute_entropy compute_values all_logits head_values tokens =
     (if \<not> compute_logprobs \<and> \<not> compute_values then Inr None
      else
        let n = action_dim * chunks;
            places = butlast (drop (length all_logits - (n + 1)) all_logits);
            ls = map (train_logits temperature top_k vocab_size n_action_bins) places
        in bind_result (if has_value_head \<and> compute_values then map_sum id Some (py_nth head_values (- int n - 1)) else Inr None) (\<lambda>value.
           bind_result (guard UnboundLocalError compute_logprobs) (\<lambda>_.
           bind_result (guard RuntimeError (length ls = length tokens)) (\<lambda>_.
           Inr (Some \<lparr>vo_logprobs = map2 logprob_of ls tokens,
                      vo_entropy = (if compute_entropy then Some (map (entropy_of (1 / 10000000000)) ls) else None),
                      vo_value = value\<rparr>)))))"

text \<open>The value of a rollout is read at the first generated place of a chunk, whose hidden state is that of the last token
  of the prompt.\<close>

definition rollout_value :: "nat \<Rightarrow> nat \<Rightarrow> bool \<Rightarrow> real list \<Rightarrow> real result" where
  "rollout_value action_dim chunks has_value_head generated_values =
     (if has_value_head then py_nth generated_values (- int (action_dim * chunks)) else Inr 0)"

subsection \<open>What holds\<close>

lemma length_bins [simp]: "length (bins n) = n" "length (bin_centers n) = n - 1"
  by (simp_all add: bins_def bin_centers_def)

lemma bin_center:
  assumes "i < n - 1"
  shows "bin_centers n ! i = - 1 + (2 * real i + 1) / real (n - 1)"
proof -
  have "n \<noteq> 1" "i + 1 < n" using assms by simp_all
  then have "bin_centers n ! i = ((- 1 + 2 * real i / real (n - 1)) + (- 1 + 2 * real (i + 1) / real (n - 1))) / 2"
    using assms by (simp add: bin_centers_def bins_def nth_butlast nth_tl)
  then show ?thesis by (simp add: add_divide_distrib)
qed

text \<open>C39: every action token decodes, and an entry of the action that is normalised lies between the first and the last
  percentile of its data set, up to the constant that is added to the width; another entry lies strictly between minus
  one and one.\<close>
theorem actions_in_range:
  assumes "2 \<le> n" "n \<le> vocab" "int vocab - int n \<le> token" "token < int vocab" "lo \<le> hi"
  shows "\<exists>x. decode_token vocab n token = Inr x \<and> - 1 < x \<and> x < 1
    \<and> lo \<le> unnormalize True lo hi x \<and> unnormalize True lo hi x \<le> hi + 1 / 100000000"
proof -
  define i where "i = min (nat (int vocab - token - 1)) (n - 2)"
  have i: "i < n - 1" using assms(1) by (simp add: i_def)
  have "clip_index 0 (int (n - 1) - 1) (int vocab - token - 1) = int i"
    using assms by (simp add: clip_index_def i_def)
  then have dec: "decode_token vocab n token = Inr (bin_centers n ! i)" using i by (simp add: decode_token_def)
  define x where "x = bin_centers n ! i"
  have x: "x = - 1 + (2 * real i + 1) / real (n - 1)" using bin_center [OF i] by (simp add: x_def)
  have "(2 * real i + 1) / real (n - 1) < 2" "0 < (2 * real i + 1) / real (n - 1)"
    using i by (simp_all add: field_simps)
  then have r: "- 1 < x" "x < 1" using x by simp_all
  define w where "w = hi - lo + 1 / 100000000"
  have "0 \<le> (x + 1) / 2 * w" "(x + 1) / 2 * w \<le> 1 * w"
    using r assms(5) by (intro mult_nonneg_nonneg mult_right_mono; simp add: w_def)+
  then have "lo \<le> unnormalize True lo hi x" "unnormalize True lo hi x \<le> hi + 1 / 100000000"
    by (simp_all add: unnormalize_def flip: w_def) (simp add: w_def)
  with dec r show ?thesis by (auto simp: x_def)
qed

lemma actions_in_range_witness:
  "\<exists>x. decode_token 32000 256 31744 = Inr x \<and> - 1 < x \<and> x < 1
    \<and> 0 \<le> unnormalize True 0 2 x \<and> unnormalize True 0 2 x \<le> 2 + 1 / 100000000"
  by (rule actions_in_range) simp_all

text \<open>The two smallest action tokens are the same action, since there are fewer centres than tokens.\<close>

lemma two_tokens_one_action:
  assumes "2 \<le> n" "n \<le> vocab"
  shows "decode_token vocab n (int vocab - int n) = decode_token vocab n (int vocab - int n + 1)"
  using assms by (simp add: decode_token_def clip_index_def)

text \<open>For a single chunk the value of the training is read at the same place of the same sequence as in the rollout.\<close>

lemma values_at_same_place:
  assumes "0 < action_dim" "generated = drop (length prompt_values - 1) (prompt_values @ generated_rest)"
    "prompt_values \<noteq> []" "length generated = action_dim" "full = prompt_values @ generated_rest @ [final]"
  shows "rollout_value action_dim 1 True generated = py_nth full (- int action_dim - 1)"
proof -
  obtain v vs where "prompt_values = v # vs" using assms(3) by (cases prompt_values) auto
  then have l: "length generated_rest = action_dim - 1" using assms(2,4) by simp
  have "generated ! 0 = full ! (length prompt_values - 1)"
    using assms(2,3,5) by (simp add: nth_append)
  moreover have "nat (int (length full) + (- int action_dim - 1)) = length prompt_values - 1"
    using assms(1,5) l by simp
  ultimately show ?thesis using assms(1,3,4,5) l by (simp add: rollout_value_def py_nth_def Let_def)
qed

text \<open>With more than one chunk neither the rollout nor the training can go on.\<close>

lemma one_chunk_only:
  assumes "2 \<le> chunks" "0 < action_dim" "length generated = action_dim" "length chunk_tokens = chunks" "\<forall>ts \<in> set chunk_tokens. length ts = action_dim"
  shows "rollout_value action_dim chunks True generated = Inl IndexError"
    "preprocess_for_train action_dim ids am chunk_tokens = Inl RuntimeError"
proof -
  have "action_dim < action_dim * chunks" using assms(1,2) by simp
  then have "int (length generated) + - int (action_dim * chunks) < 0" using assms(3) by linarith
  then show "rollout_value action_dim chunks True generated = Inl IndexError"
    using assms(2) by (simp add: rollout_value_def py_nth_def Let_def)
  have "length (concat chunk_tokens) = chunks * action_dim"
    using assms(4,5) by (induction chunk_tokens arbitrary: chunks) auto
  then show "preprocess_for_train action_dim ids am chunk_tokens = Inl RuntimeError"
    using assms(1,2) by (simp add: preprocess_for_train_def Let_def)
qed

text \<open>Values alone cannot be computed.\<close>

lemma values_need_logprobs:
  "vla_forward d k v n temp kk has False ent True ls hs ts \<in> {Inl UnboundLocalError, Inl IndexError}"
  by (auto simp: vla_forward_def Let_def py_nth_def)

text \<open>Taking the best \<open>k\<close> before the other tokens are masked can leave no action at all; masking first keeps the best one.\<close>

lemma order_of_filters:
  "let ls = [Some 3, Some 1, Some 2]
   in only_actions 3 2 (top_k_logits 1 ls) = [None, None, None] \<and> top_k_logits 1 (only_actions 3 2 ls) = [None, None, Some 2]"
  by (simp add: only_actions_def top_k_logits_def less_option_def)

end
