(* ===== verification/Gym_Envs.thy ===== *)
theory Gym_Envs
  imports Prelude Complex_Main
begin

text \<open>
  The wrappers \<open>rlightning/env/isaac_env.py\<close>, \<open>env/mujoco_env.py\<close> and \<open>env/ale_env.py\<close>. The simulators and the
  preprocessing of actions are parameters; tensors over the environments are lists, and the devices are left out.
\<close>

subsection \<open>Isaac\<close>

text \<open>An entry of the log: a number, a tensor, whose mean is taken, or something that is dropped.\<close>

datatype 'v log_entry = LogNumber 'v | LogTensor "'v list" | LogOther

definition log_info :: "(string, 'v::linordered_field log_entry) dict \<Rightarrow> (string, 'v) dict" where
  "log_info lg =
     fold (\<lambda>(k, v) info. (case v of
        LogNumber x \<Rightarrow> AList.update k x info
      | LogTensor xs \<Rightarrow> AList.update k (sum_list xs / of_nat (length xs)) info
      | LogOther \<Rightarrow> info)) lg []"

record ('o, 'v) isaac_info =
  ii_observations :: "(string, 'o) dict"
  ii_time_outs :: "bool list option"
  ii_episode_info :: "(string, 'v) dict"

record ('s, 'a, 'o, 'v) isaac_ops =
  is_reset :: "'s \<Rightarrow> (string, 'o) dict \<times> (string, 'v log_entry) dict \<times> 's"
  is_step :: "'s \<Rightarrow> 'a \<Rightarrow> (string, 'o) dict \<times> 'v list \<times> bool list \<times> bool list \<times> (string, 'v log_entry) dict \<times> 's"
  is_num_envs :: nat
  is_finite_horizon :: bool

record ('o, 'v) isaac_return =
  ir_observation :: 'o
  ir_last_reward :: "'v list"
  ir_last_terminated :: "bool list"
  ir_last_truncated :: "bool list"
  ir_info :: "('o, 'v) isaac_info"
  ir_last_observation :: 'o
  ir_last_info :: "('o, 'v) isaac_info"

record ('s, 'o, 'v) isaac_env =
  ie_sim :: 's
  ie_last :: "('o \<times> ('o, 'v) isaac_info) option"

definition isaac_reset ::
    "('s, 'a, 'o, 'v::linordered_field) isaac_ops \<Rightarrow> ('s, 'o, 'v) isaac_env \<Rightarrow> (('o, 'v) isaac_return \<times> ('s, 'o, 'v) isaac_env) result" where
  "isaac_reset ops e =
     (let (obs_dict, lg, s) = is_reset ops (ie_sim e);
          info = \<lparr>ii_observations = obs_dict, ii_time_outs = None, ii_episode_info = log_info lg\<rparr>;
          n = is_num_envs ops
      in bind_result (of_option KeyError (map_of obs_dict ''policy'')) (\<lambda>obs.
         Inr (\<lparr>ir_observation = obs, ir_last_reward = replicate n 0, ir_last_terminated = replicate n False,
               ir_last_truncated = replicate n False, ir_info = info, ir_last_observation = obs, ir_last_info = info\<rparr>,
              e\<lparr>ie_sim := s, ie_last := Some (obs, info)\<rparr>)))"

text \<open>\<open>step\<close> reports an environment as terminated also when it was truncated.\<close>

definition isaac_step ::
    "('s, 'a, 'o, 'v::linordered_field) isaac_ops \<Rightarrow> 'a \<Rightarrow> ('s, 'o, 'v) isaac_env \<Rightarrow> (('o, 'v) isaac_return \<times> ('s, 'o, 'v) isaac_env) result" where
  "isaac_step ops actions e =
     (let (obs_dict, rew, terminated, truncated, lg, s) = is_step ops (ie_sim e) actions;
          dones = map2 (\<or>) terminated truncated;
          extras = \<lparr>ii_observations = obs_dict, ii_time_outs = (if is_finite_horizon ops then None else Some truncated),
                    ii_episode_info = log_info lg\<rparr>
      in bind_result (of_option AttributeError (ie_last e)) (\<lambda>(last_obs, last_info).
         bind_result (of_option KeyError (map_of obs_dict ''policy'')) (\<lambda>obs.
         Inr (\<lparr>ir_observation = obs, ir_last_reward = rew, ir_last_terminated = dones, ir_last_truncated = truncated,
               ir_info = extras, ir_last_observation = last_obs, ir_last_info = last_info\<rparr>,
              e\<lparr>ie_sim := s, ie_last := Some (obs, extras)\<rparr>))))"

text \<open>A return carries the observation and the information of the one before it.\<close>

fun isaac_run ::
    "('s, 'a, 'o, 'v::linordered_field) isaac_ops \<Rightarrow> 'a list \<Rightarrow> ('s, 'o, 'v) isaac_env \<Rightarrow> ('o, 'v) isaac_return list result" where
  "isaac_run ops [] e = Inr []"
| "isaac_run ops (a # as) e = bind_result (isaac_step ops a e) (\<lambda>(r, e). map_sum id ((#) r) (isaac_run ops as e))"

lemma isaac_step_chains:
  assumes "isaac_step ops a e = Inr (r, e')"
  shows "ie_last e = Some (ir_last_observation r, ir_last_info r) \<and> ie_last e' = Some (ir_observation r, ir_info r)"
  using assms by (auto simp: isaac_step_def Let_def result_simps split: prod.splits)

lemma transitions_chain:
  assumes "isaac_reset ops e0 = Inr (r, e)" "isaac_run ops as e = Inr rs" "i < length rs"
  shows "ir_last_observation (rs ! i) = ir_observation ((r # rs) ! i) \<and> ir_last_info (rs ! i) = ir_info ((r # rs) ! i)"
proof -
  have "ie_last e = Some (ir_observation r, ir_info r)"
    using assms(1) by (auto simp: isaac_reset_def Let_def result_simps split: prod.splits)
  then show ?thesis using assms(2,3)
  proof (induction as arbitrary: r e rs i)
    case (Cons a as)
    obtain q e1 qs where q: "isaac_step ops a e = Inr (q, e1)" "isaac_run ops as e1 = Inr qs" "rs = q # qs"
      using Cons.prems(2) by (auto simp: result_simps map_sum_Inr_eq)
    note chain = isaac_step_chains [OF q(1)]
    show ?case
    proof (cases i)
      case 0
      then show ?thesis using Cons.prems(1) chain by (simp add: q(3))
    next
      case (Suc j)
      then show ?thesis using Cons.IH [of e1 q qs j] Cons.prems(3) chain q(2) by (simp add: q(3))
    qed
  qed simp
qed

text \<open>A truncated environment is reported as terminated.\<close>

lemma truncation_terminates:
  assumes "isaac_step ops a e = Inr (r, e')" "is_step ops (ie_sim e) a = (ob, rew, terminated, truncated, lg, s)"
    "length terminated = length truncated" "i < length truncated" "truncated ! i"
  shows "ir_last_terminated r ! i"
  using assms by (auto simp: isaac_step_def Let_def result_simps)

subsection \<open>Gymnasium\<close>

record ('o, 'v, 'i) gym_return =
  gr_observation :: 'o
  gr_last_reward :: 'v
  gr_last_terminated :: bool
  gr_last_truncated :: bool
  gr_info :: 'i

text \<open>\<open>MujocoEnv\<close> and \<open>ALEEnv\<close>: \<open>step\<close> hands on what the environment returns; a reset has no reward, and \<open>ALEEnv\<close> drops the
  information of a reset.\<close>

definition gym_step :: "('s \<Rightarrow> 'a \<Rightarrow> 'o \<times> 'v \<times> bool \<times> bool \<times> 'i \<times> 's) \<Rightarrow> ('p \<Rightarrow> 'a) \<Rightarrow> 'p \<Rightarrow> 's \<Rightarrow> ('o, 'v, 'i) gym_return \<times> 's" where
  "gym_step step preprocess resp s =
     (case step s (preprocess resp) of (ob, reward, terminated, truncated, info, s') \<Rightarrow>
        (\<lparr>gr_observation = ob, gr_last_reward = reward, gr_last_terminated = terminated, gr_last_truncated = truncated, gr_info = info\<rparr>, s'))"

definition mujoco_reset :: "('s \<Rightarrow> 'o \<times> 'i \<times> 's) \<Rightarrow> 'v \<Rightarrow> 's \<Rightarrow> ('o, 'v, 'i) gym_return \<times> 's" where
  "mujoco_reset reset no_reward s =
     (case reset s of (ob, info, s') \<Rightarrow>
        (\<lparr>gr_observation = ob, gr_last_reward = no_reward, gr_last_terminated = False, gr_last_truncated = False, gr_info = info\<rparr>, s'))"

definition ale_reset :: "('s \<Rightarrow> 'o \<times> 'i \<times> 's) \<Rightarrow> 'v \<Rightarrow> 'i \<Rightarrow> 's \<Rightarrow> ('o, 'v, 'i) gym_return \<times> 's" where
  "ale_reset reset no_reward no_info s =
     (case reset s of (ob, _, s') \<Rightarrow>
        (\<lparr>gr_observation = ob, gr_last_reward = no_reward, gr_last_terminated = False, gr_last_truncated = False, gr_info = no_info\<rparr>, s'))"

end
