(* ===== verification/Engine_Rollouts.thy ===== *)
theory Engine_Rollouts
  imports Prelude
begin

text \<open>
  The rollouts and evaluations of \<open>rlightning/engine/sync_rl_engine.py\<close> as data flow between environments, policies and
  the buffer; the postprocessing of \<open>policy/policy_group.py\<close>; the workers that \<open>utils/builders.py\<close> and
  \<open>env/env_group.py\<close> build; and the optimizer's state on its way off the device and back
  (\<open>weights/weight_buffer_mixin.py\<close>).
\<close>

subsection \<open>Rollouts\<close>

text \<open>The environments \<open>'g\<close> and the policies \<open>'q\<close>; \<open>so_limit\<close> enters and leaves \<open>auto_reset(max_episode_steps=...)\<close>.\<close>

record ('g, 'q, 'r, 'p, 't) sync_ops =
  so_limit :: "nat option \<Rightarrow> 'g \<Rightarrow> 'g"
  so_reset :: "'g \<Rightarrow> ('r \<times> 't \<times> 'g) result"
  so_step :: "'g \<Rightarrow> 'p \<Rightarrow> ('r \<times> 't \<times> 'g) result"
  so_policy :: "'q \<Rightarrow> 'r \<Rightarrow> ('p \<times> 'q) result"
  so_eval_cfg :: "'g \<Rightarrow> 'g"
  so_train_cfg :: "'g \<Rightarrow> 'g"

text \<open>One turn: the first one resets. The transition is what \<open>add_batched_transition\<close> gets.\<close>

definition sync_turn ::
    "('g, 'q, 'r, 'p, 't) sync_ops \<Rightarrow> 'p option \<times> 'g \<times> 'q \<times> ('r \<times> 'p \<times> 't) list \<Rightarrow> nat
     \<Rightarrow> ('p option \<times> 'g \<times> 'q \<times> ('r \<times> 'p \<times> 't) list) result" where
  "sync_turn ops st _ =
     (case st of (resp, g, q, buf) \<Rightarrow>
        bind_result (case resp of None \<Rightarrow> so_reset ops g | Some p \<Rightarrow> so_step ops g p) (\<lambda>(ret, trunc, g).
        bind_result (so_policy ops q ret) (\<lambda>(p, q). Inr (Some p, g, q, buf @ [(ret, p, trunc)]))))"

definition sync_episode ::
    "('g, 'q, 'r, 'p, 't) sync_ops \<Rightarrow> nat \<Rightarrow> 'g \<times> 'q \<times> ('r \<times> 'p \<times> 't) list \<Rightarrow> ('g \<times> 'q \<times> ('r \<times> 'p \<times> 't) list) result" where
  "sync_episode ops max_rollout_steps st =
     (case st of (g, q, buf) \<Rightarrow>
        map_sum id (\<lambda>(_, g, q, buf). (so_limit ops None g, q, buf))
          (foldM (sync_turn ops) (None, so_limit ops (Some max_rollout_steps) g, q, buf) [0..<max_rollout_steps + 1]))"

definition sync_rollout ::
    "('g, 'q, 'r, 'p, 't) sync_ops \<Rightarrow> nat \<Rightarrow> nat \<Rightarrow> 'g \<times> 'q \<times> ('r \<times> 'p \<times> 't) list \<Rightarrow> ('g \<times> 'q \<times> ('r \<times> 'p \<times> 't) list) result" where
  "sync_rollout ops rollout_epoch max_rollout_steps st =
     foldM (\<lambda>st _. sync_episode ops max_rollout_steps st) st [0..<rollout_epoch]"

text \<open>An evaluation keeps no transitions; its configuration is only taken back when it ends without an error.\<close>

definition eval_steps :: "int \<Rightarrow> nat \<Rightarrow> nat" where
  "eval_steps max_eval_rollout_steps max_rollout_steps =
     (if 0 < max_eval_rollout_steps then nat max_eval_rollout_steps else max_rollout_steps)"

definition sync_evaluate :: "('g, 'q, 'r, 'p, 't) sync_ops \<Rightarrow> int \<Rightarrow> nat \<Rightarrow> 'g \<times> 'q \<Rightarrow> ('g \<times> 'q) result" where
  "sync_evaluate ops max_eval_rollout_steps max_rollout_steps gq =
     (case gq of (g, q) \<Rightarrow>
        map_sum id (\<lambda>(g, q, _). (so_train_cfg ops g, q))
          (sync_episode ops (eval_steps max_eval_rollout_steps max_rollout_steps) (so_eval_cfg ops g, q, [])))"

text \<open>A run of transitions: the first return comes from a reset, every other one from a step with the response before it,
  and every response from the policies on its return.\<close>

fun transitions_run :: "('g, 'q, 'r, 'p, 't) sync_ops \<Rightarrow> 'p option \<Rightarrow> ('r \<times> 'p \<times> 't) list \<Rightarrow> bool" where
  "transitions_run ops resp [] \<longleftrightarrow> True"
| "transitions_run ops resp ((r, p, t) # rest) \<longleftrightarrow>
     (\<exists>g g'. (case resp of None \<Rightarrow> so_reset ops g | Some p0 \<Rightarrow> so_step ops g p0) = Inr (r, t, g'))
     \<and> (\<exists>q q'. so_policy ops q r = Inr (p, q')) \<and> transitions_run ops (Some p) rest"

lemma turns_run:
  "foldM (sync_turn ops) (resp, g, q, buf) ns = Inr (resp', g', q', buf')
   \<Longrightarrow> \<exists>ts. buf' = buf @ ts \<and> length ts = length ns \<and> transitions_run ops resp ts"
proof (induction ns arbitrary: resp g q buf)
  case (Cons n ns)
  obtain st where st: "sync_turn ops (resp, g, q, buf) n = Inr st" "foldM (sync_turn ops) st ns = Inr (resp', g', q', buf')"
    using Cons.prems by (auto simp: result_simps)
  then obtain ret trunc g1 p q1 where t:
      "(case resp of None \<Rightarrow> so_reset ops g | Some p0 \<Rightarrow> so_step ops g p0) = Inr (ret, trunc, g1)"
      "so_policy ops q ret = Inr (p, q1)" "st = (Some p, g1, q1, buf @ [(ret, p, trunc)])"
    by (auto simp: sync_turn_def result_simps)
  obtain ts where ts: "buf' = (buf @ [(ret, p, trunc)]) @ ts" "length ts = length ns" "transitions_run ops (Some p) ts"
    using Cons.IH st(2) t(3) by blast
  then show ?case using t by (intro exI [of _ "(ret, p, trunc) # ts"]) auto
qed simp

text \<open>C40: a synchronous rollout adds to the buffer, for each of its epochs, one transition more than its steps: the returns of
  an epoch start with a reset, each later one answers the response stored before it, and each response answers the
  return it is stored with.\<close>
theorem rollout_fills_buffer:
  assumes "sync_rollout ops epochs steps (g, q, buf) = Inr (g', q', buf')"
  shows "\<exists>eps. length eps = epochs \<and> buf' = buf @ concat eps
    \<and> (\<forall>ep \<in> set eps. length ep = steps + 1 \<and> transitions_run ops None ep)"
  using assms unfolding sync_rollout_def
proof (induction epochs arbitrary: g' q' buf')
  case (Suc n)
  obtain g1 q1 buf1 where s: "foldM (\<lambda>st _. sync_episode ops steps st) (g, q, buf) [0..<n] = Inr (g1, q1, buf1)"
      "sync_episode ops steps (g1, q1, buf1) = Inr (g', q', buf')"
    using Suc.prems by (auto simp: foldM_append result_simps)
  obtain eps where eps: "length eps = n" "buf1 = buf @ concat eps" "\<forall>ep \<in> set eps. length ep = steps + 1 \<and> transitions_run ops None ep"
    using Suc.IH [OF s(1)] by blast
  obtain resp g2 where "foldM (sync_turn ops) (None, so_limit ops (Some steps) g1, q1, buf1) [0..<steps + 1] = Inr (resp, g2, q', buf')"
    using s(2) by (auto simp: sync_episode_def map_sum_Inr_eq)
  from turns_run [OF this] obtain ts where "buf' = buf1 @ ts" "length ts = steps + 1" "transitions_run ops None ts" by auto
  then show ?case using eps by (intro exI [of _ "eps @ [ts]"]) auto
qed simp

lemma rollout_fills_buffer_witness:
  "let ops = \<lparr>so_limit = \<lambda>_ g. g, so_reset = \<lambda>g. Inr (g, (), g + 1), so_step = \<lambda>g p. Inr (g + p, (), g + 1), so_policy = \<lambda>q r. Inr (r, q),
         so_eval_cfg = id, so_train_cfg = id\<rparr> :: (nat, unit, nat, nat, unit) sync_ops
   in \<exists>g' q' buf' eps. sync_rollout ops 2 1 (0, (), []) = Inr (g', q', buf') \<and> length eps = 2 \<and> buf' = [] @ concat eps
      \<and> (\<forall>ep \<in> set eps. length ep = 1 + 1 \<and> transitions_run ops None ep)"
proof -
  let ?ops = "\<lparr>so_limit = \<lambda>_ g. g, so_reset = \<lambda>g. Inr (g, (), g + 1), so_step = \<lambda>g p. Inr (g + p, (), g + 1), so_policy = \<lambda>q r. Inr (r, q),
         so_eval_cfg = id, so_train_cfg = id\<rparr> :: (nat, unit, nat, nat, unit) sync_ops"
  have "sync_rollout ?ops 2 1 (0, (), []) = Inr (4, (), [(0, 0, ()), (1, 1, ()), (2, 2, ()), (5, 5, ())])" by code_simp
  from this rollout_fills_buffer [OF this] show ?thesis unfolding Let_def by blast
qed

subsection \<open>Postprocessing\<close>

text \<open>The arguments of each environment; both batches missing is an error. The policy of an environment is the router's.\<close>

definition group_postprocess ::
    "(string \<Rightarrow> 'w) \<Rightarrow> ('w \<Rightarrow> 'r option \<Rightarrow> 'p option \<Rightarrow> 'x) \<Rightarrow> (string \<times> 'r) list option \<Rightarrow> (string \<times> 'p) list option
     \<Rightarrow> (string list \<times> 'x list) result" where
  "group_postprocess select_policy post env_rets policy_resps =
     bind_result (case (env_rets, policy_resps) of
         (Some rs, Some ps) \<Rightarrow> Inr (map fst rs, map2 (\<lambda>(_, r) (_, p). (Some r, Some p)) rs ps)
       | (Some rs, None) \<Rightarrow> Inr (map fst rs, map (\<lambda>(_, r). (Some r, None)) rs)
       | (None, Some ps) \<Rightarrow> Inr (map fst ps, map (\<lambda>(_, p). (None, Some p)) ps)
       | (None, None) \<Rightarrow> Inl AttributeError) (\<lambda>(env_ids, args).
     Inr (env_ids, map2 (\<lambda>env_id (r, p). post (select_policy env_id) r p) env_ids args))"

text \<open>Returns and responses are paired by their places, not by their environments.\<close>

lemma postprocess_by_place:
  assumes "map fst rs = map fst ps"
  shows "group_postprocess select_policy post (Some rs) (Some ps)
       = Inr (map fst rs, map2 (\<lambda>(e, r) (_, p). post (select_policy e) (Some r) (Some p)) rs ps)"
proof -
  have "map2 (\<lambda>e (r, p). post (select_policy e) r p) (map fst rs) (map2 (\<lambda>(_, r) (_, p). (Some r, Some p)) rs ps)
      = map2 (\<lambda>(e, r) (_, p). post (select_policy e) (Some r) (Some p)) rs ps"
    using assms by (induction rs ps rule: list_induct2') auto
  then show ?thesis by (simp add: group_postprocess_def)
qed

subsection \<open>Building workers\<close>

datatype worker_role = TrainRole | EvalRole | EnvRole

datatype 'n worker_handle = LocalWorker worker_role | ActorWorker worker_role nat 'n "nat option"

record 'n cluster_part =
  cp_train_workers :: nat
  cp_eval_workers :: nat
  cp_train_gpus :: 'n
  cp_eval_gpus :: 'n

text \<open>The workers of \<open>build_policy_group\<close>, local or actors, train and eval; the theory \<open>Builders\<close> has the rest of it.\<close>

definition build_policy_workers ::
    "bool \<Rightarrow> bool \<Rightarrow> string option \<Rightarrow> nat \<Rightarrow> 'n cluster_part \<Rightarrow> 'n worker_handle list \<times> 'n worker_handle list" where
  "build_policy_workers remote_train remote_eval rollout_mode max_concurrency cl =
     (let conc = (if rollout_mode = Some ''async'' then Some max_concurrency else None)
      in (map (\<lambda>i. if remote_train then ActorWorker TrainRole i (cp_train_gpus cl) None else LocalWorker TrainRole)
            [0..<cp_train_workers cl],
          map (\<lambda>i. if remote_eval then ActorWorker EvalRole i (cp_eval_gpus cl) conc else LocalWorker EvalRole)
            [0..<cp_eval_workers cl]))"

definition build_env :: "bool \<Rightarrow> string \<Rightarrow> 'n \<Rightarrow> nat \<Rightarrow> 'n worker_handle \<times> bool" where
  "build_env remote_env backend num_gpus worker_index =
     (if remote_env then ActorWorker EnvRole worker_index num_gpus None else LocalWorker EnvRole, backend = ''env_server'')"

subsection \<open>The optimizer's state\<close>

text \<open>The state of a parameter by its keys: a tensor with its device, or another value.\<close>

datatype 'v opt_value = OptTensor string 'v | OptOther 'v

definition move_value :: "string \<Rightarrow> 'v opt_value \<Rightarrow> 'v opt_value" where
  "move_value dev v = (case v of OptTensor _ x \<Rightarrow> OptTensor dev x | OptOther x \<Rightarrow> OptOther x)"

definition move_optimizer ::
    "string \<Rightarrow> string list list \<Rightarrow> (string, (string, 'v opt_value) dict) dict \<Rightarrow> (string, (string, 'v opt_value) dict) dict" where
  "move_optimizer dev param_groups state =
     map (\<lambda>(param, st). (param, if param \<in> set (concat param_groups) then map (map_prod id (move_value dev)) st else st)) state"

text \<open>Off the device and back is where the tensors of the groups all are at the start.\<close>

lemma optimizer_returns:
  assumes "\<forall>(param, st) \<in> set state. param \<in> set (concat groups) \<longrightarrow> (\<forall>(k, v) \<in> set st. \<forall>d x. v = OptTensor d x \<longrightarrow> d = dev)"
  shows "move_optimizer dev groups (move_optimizer ''cpu'' groups state) = state"
proof -
  have moved: "map_prod id (move_value dev) (map_prod id (move_value ''cpu'') kv) = kv"
    if "\<forall>d x. snd kv = OptTensor d x \<longrightarrow> d = dev" for kv :: "string \<times> 'a opt_value"
    using that by (cases kv; cases "snd kv") (auto simp: move_value_def)
  have "(\<lambda>(param, st). (param, if param \<in> set (concat groups) then map (map_prod id (move_value dev)) st else st))
      ((\<lambda>(param, st). (param, if param \<in> set (concat groups) then map (map_prod id (move_value ''cpu'')) st else st)) p) = p"
    if "p \<in> set state" for p
  proof -
    obtain param st where p: "p = (param, st)" by (cases p)
    have "map (map_prod id (move_value dev)) (map (map_prod id (move_value ''cpu'')) st) = st" if "param \<in> set (concat groups)"
      unfolding map_map by (rule map_idI) (use assms that p \<open>p \<in> set state\<close> moved in fastforce)
    then show ?thesis by (simp add: p)
  qed
  then show ?thesis unfolding move_optimizer_def map_map by (intro map_idI) simp
qed

end
