(* ===== verification/Spec2Isabelle.thy ===== *)
theory Spec2Isabelle
  imports Planner_Correct Pool_Yaml Router Episode_Table Buffer_Correct Storage_Correct Task_Submitter Placement_Correct Env_Async Env_Stats Weights_Correct Async_Live Sync_Engine Policy_Worker Builders Env_Server Returns Ppo_Loss Rotation_Matrices Kinematics_Correct Tensor_Insert
    Libero_Env_Correct Maniskill_Env_Correct Async_Rollout Rsl_Engine Collective
    Ppo_Training Rsl_Policy Runtime_Utils Base_Policy Libero_Utils Env_Worker Ppo_Vtrace Plain_Engines
    Flow_Policy Openvla_Actions Gym_Envs Engine_Rollouts
begin

text \<open>
  A verification library for RLightning, a distributed reinforcement-learning framework in Python for robot control: Ray
  workers hold environments, policies and replay storage, and an engine makes them roll out, train and synchronise
  weights. The paths below are relative to src/rlightning.

  HOW THE PROGRAM IS PUT TOGETHER. The configuration fixes how many workers of each kind there are and how many GPUs they
  need. Scheduling and the resource pool planner turn this into node pools; a placement strategy puts every worker on a
  node and leaves the component distribution, a dictionary from nodes to the ids of the workers on it. The routers (which
  eval policy serves which environment) and the episode table (which storage shard keeps which environment) are built
  from it. An engine then submits actions to the environment group, collects the returns, lets the policy group answer
  them, and adds both to the data buffer. The buffer's shards collect the transitions of running episodes, cut the
  episodes, process them and push them into a ring of rows; a sampler chooses rows for the train workers. After a
  training the weights travel from the train to the eval policies.

  WHICH THEORY MODELS WHICH PART (state and operations keep the names of the classes and methods they translate).
  \<^item> Prelude, Py_Strings, Groupings, Fair_Threads: errors (a Python exception is a value of \<open>py_error\<close>, a call that may
    raise has type \<open>'a result\<close>), dictionaries as association lists in insertion order, integers and strings as Python
    prints and reads them, grouping by key, and threads under a fair schedule (the locale \<open>fair_threads\<close>).
  \<^item> Config (utils/config/config.py), Cluster_Info (utils/ray/utils.py), Scheduling (utils/placement/scheduling.py),
    Node_Resource, Resource_Pool, Pool_Planner, with the results in Planner_Correct, Range_Split and Pool_Yaml
    (utils/placement/resource_pool.py): the planner allocates exactly the GPUs the validation accepted; a pool written to
    YAML is read back; the split of a range over nodes diverges past the capacity.
  \<^item> Placement, Placement_Correct (placement_strategies.py, placement_manager.py), Component_Distribution: every strategy
    partitions the worker ids over the nodes.
  \<^item> Router (policy/utils/router.py), Episode_Table (buffer/utils/table.py): greedy assignment with a heap (the locale
    \<open>min_queue\<close>), balanced within one.
  \<^item> Data_Container, Container_Correct, Container_Reads, Active_Episodes, Episode_Cutting, Rollout_Types, Storage_Node,
    Storage_Correct (buffer/utils/storage.py, buffer/utils/utils.py, types): the ring with its registry of episodes (the
    locale \<open>interval_tree\<close>), its invariant and reads, where episodes are cut, and the rows an episode becomes.
  \<^item> Sampling, Data_Buffer, Buffer_Correct (buffer/sampler.py, base_buffer.py, rollout_buffer.py, replay_buffer.py):
    sampling over all shards and its division among the train workers (the locale \<open>np_random\<close>).
  \<^item> Task_Submitter (utils/ray/task_submitter.py): the bound on pending tasks (the locale \<open>ray_wait\<close>).
  \<^item> Step_Counter, Env_Group, Env_Group_Correct, Env_Async, Env_Stats (env/base_env.py, env/env_group.py): step limits and
    automatic resets, synchronous and asynchronous calls (the locale \<open>ray_ready\<close>), statistics.
  \<^item> Env_Server (env/env_server.py, env/remote_env): environments behind a socket; the state is the server's threads and
    queues, the clients and the messages under way; a move is one atomic step of one of them.
  \<^item> Weights, Weights_Correct (weights): grouping, flattening, broadcasts, sharding and the buffers' conversions.
  \<^item> Comm_Groups, Collective (utils/distributed): process groups as lists of ranks, collectives as functions of what all
    ranks pass. Policy_Group, Policy_Group_Correct (policy/policy_group.py): who sends the weights to whom, rollouts,
    training. Builders (utils/registry, utils/builders.py).
  \<^item> Policy_Worker and Async_Rollout (policy/base_policy.py): the eval policy as an actor and an updater thread, in the
    synchronous and the asynchronous rollout mode; loads may be refused, raise, or come too late for the bounded wait.
    Base_Policy, Rsl_Policy, Ppo_Training, Ppo_Loss, Ppo_Vtrace, Returns: training loops, losses, returns.
  \<^item> Async_Engine, Async_Invariants, Async_Safety, Async_Live (engine/async_rl_engine.py): the coordinator and the four
    threads of \<open>run\<close> as a step relation; its invariants, its refinement of a round-based specification, and termination.
    Sync_Engine, Engine_Rollouts, Rsl_Engine, Plain_Engines: the other engines and their rollout loops.
  \<^item> Quaternions, Rotations, Rotation_Matrices, Kinematics, Kinematics_Correct, Tensor_Insert (humanoid/utils): rotations
    over an ordered field or the real numbers, and the kinematic tree with its degrees of freedom.
  \<^item> Libero_Env, Libero_Env_Correct, Libero_Utils, Env_Worker, Maniskill_Env, Maniskill_Env_Correct, Gym_Envs (env): the
    environments around their simulators, which are parameters. Flow_Policy, Openvla_Actions (models/openpi,
    models/openvla): sampling by denoising, its log-probabilities, and decoding of action tokens. Runtime_Utils (utils).

  WHAT THE LEMMAS SHOW. In every component the first group gives the invariant and that each operation keeps it; the second
  the result of each operation, errors included; the last states the properties, numbered C1 to C40. Concurrent parts are
  step relations with invariants over reachable states (C17 to C21, C24, C25, C32 to C34); that they come to an end is
  proved under fair schedules (C16) or by a measure on all runs (C32), never assumed. Where the code raises, hangs or loses
  something in a case the names do not suggest, the condition stands in the theorem and a lemma beside it shows what
  happens without it, for example \<open>expired_wait_meets_update\<close>, \<open>refused_load_reported_done\<close>, \<open>local_resubmission\<close> and
  \<open>update_failure_hangs\<close>.

  BOUNDS AND FUEL. Loops that may run for ever return an option: \<open>rsl_turns\<close> takes fuel, and for \<open>m\<close> steps of \<open>n\<close>
  environments whose steps are answered after at most \<open>limit\<close> empty collections, \<open>m * n * (limit + 1) + limit\<close> turns are
  enough (C35); the loop of \<open>_split_global_range_by_nodes\<close> is a partial function, whose divergence is a theorem (C10). The
  queues of the environment server hold 32 entries, as in the code, and LIBERO's reset settles for 15 steps. Python's
  integers are unbounded and stay so; floating-point numbers are exact, so rounding is not modelled.

  PARAMETERS AND WHAT IS NOT MODELLED. Ray, torch, numpy's random numbers, the interval tree, simulators and networks are
  arguments of the definitions; what the code relies on is an assumption of a theorem or of a locale, and every locale is
  interpreted on a concrete instance. Left out are logging, progress bars, timing, launching processes, files and pickling,
  the visual parts of environments, the retargeting and loading of motions (optimisation around third-party body models),
  vendored and commented-out code, tests, documentation and examples.
\<close>

end
